(* ===== verification/Prelude.thy ===== *)
theory Prelude
  imports Complex_Main "HOL-Library.AList" "HOL-Library.Sublist" "HOL-Library.Multiset"
begin

text \<open>
  Shared vocabulary of the development: the pieces of JavaScript's standard library that the
  server code uses on almost every line, as executable functions, with the facts about them that
  the component theories need.

  \<^item> \<open>??\<close> is \<open>nullish\<close> (with a default) and \<open>opt_or\<close> (between two optional values).  The model
    has one absent value, \<open>None\<close>, for both \<open>undefined\<close> and \<open>null\<close>: the modelled code tells them
    apart nowhere.
  \<^item> A JavaScript number in typed data is a finite rational: JSON carries no other number.
    IEEE rounding is not modelled; \<open>toFixed(2)\<close> is, as a rational.
  \<^item> A \<open>Map\<close>, or a plain object used as a dictionary, is an association list in insertion order
    without repeated keys; \<open>map_set\<close> replaces in place and otherwise appends, as \<open>Map.set\<close> does.
    (A plain object enumerates integer-like keys first; no modelled result depends on that.)
  \<^item> \<open>sort_by\<close> is the stable \<open>Array.prototype.sort\<close> by a numeric key.
\<close>

named_theorems js_map_simps "lookup, key and size facts of the insertion-ordered map"
named_theorems js_list_simps "facts about the array operations"

subsection \<open>Absent values\<close>

type_synonym num = rat

definition nullish :: "'a option \<Rightarrow> 'a \<Rightarrow> 'a" where
  "nullish x d = (case x of None \<Rightarrow> d | Some v \<Rightarrow> v)"

definition opt_or :: "'a option \<Rightarrow> 'a option \<Rightarrow> 'a option" where
  "opt_or x y = (case x of None \<Rightarrow> y | Some v \<Rightarrow> Some v)"

lemma nullish_simps [simp]: "nullish None d = d" "nullish (Some v) d = v"
  by (simp_all add: nullish_def)

lemma opt_or_simps [simp]: "opt_or None y = y" "opt_or (Some v) y = Some v"
  by (simp_all add: opt_or_def)

text \<open>Truthiness of an optional string: present and not empty.\<close>

definition truthy :: "string option \<Rightarrow> bool" where
  "truthy s = (case s of None \<Rightarrow> False | Some t \<Rightarrow> t \<noteq> [])"

lemma truthy_simps [simp]: "\<not> truthy None" "truthy (Some t) \<longleftrightarrow> t \<noteq> []"
  by (simp_all add: truthy_def)

text \<open>The present, positive values of an array of optional numbers.\<close>

definition somes :: "'a option list \<Rightarrow> 'a list" where
  "somes xs = List.map_filter (\<lambda>x. x) xs"

lemma somes_simps [simp]:
  "somes [] = []" "somes (None # xs) = somes xs" "somes (Some v # xs) = v # somes xs"
  by (simp_all add: somes_def List.map_filter_simps)

lemma set_somes [simp]: "v \<in> set (somes xs) \<longleftrightarrow> Some v \<in> set xs"
proof (induction xs)
  case (Cons x xs)
  then show ?case by (cases x) auto
qed simp

subsection \<open>Rounding to two decimals\<close>

text \<open>
  \<open>Number(x.toFixed(2))\<close>: the integer \<open>n\<close> with \<open>n / 100\<close> nearest to \<open>x\<close>, the larger one of a
  tie; a negative argument is rounded as its absolute value and negated.
\<close>

definition toFixed2 :: "num \<Rightarrow> num" where
  "toFixed2 x =
     (if x < 0 then - (of_int \<lfloor>- x * 100 + 1 / 2\<rfloor> / 100) else of_int \<lfloor>x * 100 + 1 / 2\<rfloor> / 100)"

lemma toFixed2_nonneg: "0 \<le> x \<Longrightarrow> 0 \<le> toFixed2 x"
  by (simp add: toFixed2_def)

lemma toFixed2_le:
  assumes "x \<le> of_int n" "0 \<le> n"
  shows "toFixed2 x \<le> of_int n"
proof (cases "x < 0")
  case True
  then have "0 \<le> \<lfloor>1 / 2 - x * 100\<rfloor>"
    by simp
  then have "0 \<le> (of_int \<lfloor>1 / 2 - x * 100\<rfloor> / 100 :: rat)"
    by (simp only: of_int_0_le_iff zero_le_divide_iff) simp
  moreover have "(0::rat) \<le> of_int n"
    using assms(2) by simp
  ultimately have "- (of_int \<lfloor>1 / 2 - x * 100\<rfloor> / 100) \<le> (of_int n :: rat)"
    by linarith
  with True show ?thesis
    by (simp add: toFixed2_def)
next
  case False
  have "x * 100 + 1 / 2 < of_int (n * 100 + 1)"
    using assms(1) by simp
  then have "\<lfloor>x * 100 + 1 / 2\<rfloor> < n * 100 + 1"
    by (simp only: floor_less_iff)
  then have "(of_int \<lfloor>x * 100 + 1 / 2\<rfloor> :: rat) \<le> of_int (n * 100)"
    by (simp only: of_int_le_iff)
  then have "of_int \<lfloor>x * 100 + 1 / 2\<rfloor> / 100 \<le> (of_int n :: rat)"
    by simp
  with False show ?thesis
    by (simp add: toFixed2_def)
qed

lemma toFixed2_error:
  assumes "0 \<le> x"
  shows "\<bar>toFixed2 x - x\<bar> \<le> 1 / 200"
proof -
  define k where "k = (of_int \<lfloor>x * 100 + 1 / 2\<rfloor> :: rat)"
  have "k \<le> x * 100 + 1 / 2"
    unfolding k_def by (rule of_int_floor_le)
  moreover have "x * 100 + 1 / 2 < k + 1"
    unfolding k_def using floor_correct [of "x * 100 + 1 / 2"] by simp
  ultimately have "k / 100 - x \<le> 1 / 200" "- (k / 100 - x) \<le> 1 / 200"
    by linarith+
  then have "\<bar>k / 100 - x\<bar> \<le> 1 / 200"
    by (simp only: abs_le_iff)
  with assms show ?thesis
    by (simp add: toFixed2_def k_def)
qed

subsection \<open>Insertion-ordered maps\<close>

text \<open>
  The association lists of \<open>HOL-Library.AList\<close> behave exactly as \<open>Map\<close> does: \<open>AList.update\<close> keeps
  the position of a present key and appends an absent one, \<open>AList.delete\<close> removes the key.
\<close>

type_synonym ('k, 'v) jsmap = "('k \<times> 'v) list"

abbreviation map_get :: "('k, 'v) jsmap \<Rightarrow> 'k \<Rightarrow> 'v option" where
  "map_get \<equiv> map_of"

abbreviation map_set :: "'k \<Rightarrow> 'v \<Rightarrow> ('k, 'v) jsmap \<Rightarrow> ('k, 'v) jsmap" where
  "map_set \<equiv> AList.update"

abbreviation map_delete :: "'k \<Rightarrow> ('k, 'v) jsmap \<Rightarrow> ('k, 'v) jsmap" where
  "map_delete \<equiv> AList.delete"

abbreviation map_keys :: "('k, 'v) jsmap \<Rightarrow> 'k list" where
  "map_keys m \<equiv> map fst m"

abbreviation map_values :: "('k, 'v) jsmap \<Rightarrow> 'v list" where
  "map_values m \<equiv> map snd m"

lemma map_get_set [js_map_simps, simp]:
  "map_get (map_set k v m) k' = (if k' = k then Some v else map_get m k')"
  by (simp add: update_conv')

lemma map_get_delete [js_map_simps, simp]:
  "map_get (map_delete k m) k' = (if k' = k then None else map_get m k')"
  by (simp add: delete_conv')

lemma map_keys_set [js_map_simps]:
  "map_keys (map_set k v m) = (if k \<in> set (map_keys m) then map_keys m else map_keys m @ [k])"
  by (rule update_keys)

lemma distinct_keys_set [intro]:
  "distinct (map_keys m) \<Longrightarrow> distinct (map_keys (map_set k v m))"
  by (rule distinct_update)

lemma distinct_keys_delete [intro]:
  "distinct (map_keys m) \<Longrightarrow> distinct (map_keys (map_delete k m))"
  by (rule distinct_delete)

lemma map_get_None_iff: "map_get m k = None \<longleftrightarrow> k \<notin> set (map_keys m)"
  by (simp add: map_of_eq_None_iff)

lemma length_map_set:
  "length (map_set k v m) = (if k \<in> set (map_keys m) then length m else Suc (length m))"
  by (metis (no_types, lifting) length_append_singleton length_map map_keys_set)

text \<open>What a dictionary promises its users; every component keeps its tables behind it.\<close>

locale dictionary =
  fixes get :: "'m \<Rightarrow> 'k \<Rightarrow> 'v option"
    and put :: "'k \<Rightarrow> 'v \<Rightarrow> 'm \<Rightarrow> 'm"
    and del :: "'k \<Rightarrow> 'm \<Rightarrow> 'm"
    and keys :: "'m \<Rightarrow> 'k list"
  assumes get_put: "get (put k v m) k' = (if k' = k then Some v else get m k')"
    and get_del: "get (del k m) k' = (if k' = k then None else get m k')"
    and get_keys: "get m k = None \<longleftrightarrow> k \<notin> set (keys m)"
    and distinct_put: "distinct (keys m) \<Longrightarrow> distinct (keys (put k v m))"
    and distinct_del: "distinct (keys m) \<Longrightarrow> distinct (keys (del k m))"
begin

lemma set_keys_put: "set (keys (put k v m)) = insert k (set (keys m))"
proof (rule set_eqI)
  fix k'
  show "k' \<in> set (keys (put k v m)) \<longleftrightarrow> k' \<in> insert k (set (keys m))"
    using get_put [of k v m k'] get_keys [of m k'] get_keys [of "put k v m" k']
    by (auto split: if_splits)
qed

lemma set_keys_del: "set (keys (del k m)) = set (keys m) - {k}"
proof (rule set_eqI)
  fix k'
  show "k' \<in> set (keys (del k m)) \<longleftrightarrow> k' \<in> set (keys m) - {k}"
    using get_del [of k m k'] get_keys [of m k'] get_keys [of "del k m" k']
    by (auto split: if_splits)
qed

text \<open>Writes to distinct keys commute as far as lookups can tell.\<close>

lemma put_commute:
  "k \<noteq> l \<Longrightarrow> get (put k v (put l w m)) x = get (put l w (put k v m)) x"
  by (auto simp: get_put)

lemma put_overwrites: "get (put k v (put k w m)) x = get (put k v m) x"
  by (auto simp: get_put)

lemma length_put_new:
  assumes "distinct (keys m)" "get m k = None"
  shows "length (keys (put k v m)) = Suc (length (keys m))"
proof -
  have "length (keys (put k v m)) = card (set (keys (put k v m)))"
    using assms(1) by (simp add: distinct_card distinct_put)
  also have "\<dots> = Suc (card (set (keys m)))"
    using assms(2) by (simp add: set_keys_put get_keys)
  finally show ?thesis
    using assms(1) by (simp add: distinct_card)
qed

lemma length_del_present:
  assumes "distinct (keys m)" "get m k \<noteq> None"
  shows "Suc (length (keys (del k m))) = length (keys m)"
proof -
  have k: "k \<in> set (keys m)"
    using assms(2) get_keys [of m k] by simp
  have "length (keys (del k m)) = card (set (keys (del k m)))"
    using distinct_del [OF assms(1)] by (simp add: distinct_card)
  also have "\<dots> = card (set (keys m) - {k})"
    by (simp only: set_keys_del)
  also have "Suc \<dots> = card (set (keys m))"
    by (rule card_Suc_Diff1) (simp_all add: k)
  also have "\<dots> = length (keys m)"
    using assms(1) by (rule distinct_card)
  finally show ?thesis .
qed

end

interpretation jsm: dictionary map_get map_set map_delete map_keys
proof unfold_locales
  fix k' k :: 'k and v :: 'v and m :: "('k, 'v) jsmap"
  show "map_get (map_set k v m) k' = (if k' = k then Some v else map_get m k')" by simp
  show "map_get (map_delete k m) k' = (if k' = k then None else map_get m k')" by simp
  show "map_get m k = None \<longleftrightarrow> k \<notin> set (map_keys m)" by (rule map_get_None_iff)
  show "distinct (map_keys m) \<Longrightarrow> distinct (map_keys (map_set k v m))" by (rule distinct_update)
  show "distinct (map_keys m) \<Longrightarrow> distinct (map_keys (map_delete k m))" by (rule distinct_delete)
qed

subsection \<open>Array operations\<close>

text \<open>\<open>[...new Set(xs)]\<close>: first occurrences, in order.\<close>

definition js_uniq :: "'a list \<Rightarrow> 'a list" where
  "js_uniq xs = fold (\<lambda>x acc. if x \<in> set acc then acc else acc @ [x]) xs []"

text \<open>\<open>findIndex\<close>.\<close>

fun find_index :: "('a \<Rightarrow> bool) \<Rightarrow> 'a list \<Rightarrow> nat option" where
  "find_index P [] = None"
| "find_index P (x # xs) = (if P x then Some 0 else map_option Suc (find_index P xs))"

text \<open>Replace the first element satisfying \<open>P\<close>, or push a new last element.\<close>

definition replace_or_push :: "('a \<Rightarrow> bool) \<Rightarrow> 'a \<Rightarrow> 'a list \<Rightarrow> 'a list" where
  "replace_or_push P x xs = (case find_index P xs of Some i \<Rightarrow> xs[i := x] | None \<Rightarrow> xs @ [x])"

text \<open>\<open>xs.slice(-n)\<close>; \<open>slice(-0)\<close> is the whole array.\<close>

definition slice_neg :: "nat \<Rightarrow> 'a list \<Rightarrow> 'a list" where
  "slice_neg n xs = (if n = 0 then xs else drop (length xs - n) xs)"

text \<open>\<open>sort((a, b) => f(a) - f(b))\<close>, which is stable.\<close>

definition sort_by :: "('a \<Rightarrow> 'b::linorder) \<Rightarrow> 'a list \<Rightarrow> 'a list" where
  "sort_by f xs = sort_key f xs"

definition last_opt :: "'a list \<Rightarrow> 'a option" where
  "last_opt xs = (if xs = [] then None else Some (last xs))"

lemma last_opt_simps [simp]: "last_opt [] = None" "last_opt (x # xs) = Some (last (x # xs))"
  by (simp_all add: last_opt_def)

definition sum_num :: "num list \<Rightarrow> num" where
  "sum_num xs = fold (\<lambda>x acc. acc + x) xs 0"

text \<open>\<open>values.reduce((s, v) => s + v, 0) / values.length\<close>; an empty list is excluded by callers.\<close>

definition mean :: "num list \<Rightarrow> num" where
  "mean xs = sum_num xs / of_nat (length xs)"

lemma find_index_None_iff: "find_index P xs = None \<longleftrightarrow> (\<forall>x \<in> set xs. \<not> P x)"
  by (induction xs) auto

lemma find_index_SomeD:
  "find_index P xs = Some i \<Longrightarrow> i < length xs \<and> P (xs ! i) \<and> (\<forall>j < i. \<not> P (xs ! j))"
proof (induction xs arbitrary: i)
  case (Cons x xs)
  show ?case
  proof (cases "P x")
    case False
    with Cons.prems obtain j where j: "find_index P xs = Some j" "i = Suc j" by auto
    then show ?thesis
      using Cons.IH [OF j(1)] False by (auto simp: less_Suc_eq_0_disj nth_Cons')
  qed (use Cons.prems in auto)
qed simp

lemma js_uniq_fold:
  fixes xs acc :: "'a list"
  assumes "distinct acc"
  shows "distinct (fold (\<lambda>x acc. if x \<in> set acc then acc else acc @ [x]) xs acc)"
    and "set (fold (\<lambda>x acc. if x \<in> set acc then acc else acc @ [x]) xs acc) = set acc \<union> set xs"
  using assms by (induction xs arbitrary: acc) auto

lemma distinct_js_uniq [simp, js_list_simps]: "distinct (js_uniq xs)"
  unfolding js_uniq_def by (rule js_uniq_fold) simp

lemma set_js_uniq [simp, js_list_simps]: "set (js_uniq xs) = set xs"
  unfolding js_uniq_def by (simp add: js_uniq_fold)

lemma js_uniq_distinct: "distinct xs \<Longrightarrow> js_uniq xs = xs"
proof -
  have "distinct (acc @ xs) \<Longrightarrow>
      fold (\<lambda>x acc. if x \<in> set acc then acc else acc @ [x]) xs acc = acc @ xs" for acc :: "'a list"
    by (induction xs arbitrary: acc) auto
  then show "distinct xs \<Longrightarrow> js_uniq xs = xs"
    by (simp add: js_uniq_def)
qed

lemma length_slice_neg [js_list_simps]: "0 < n \<Longrightarrow> length (slice_neg n xs) = min n (length xs)"
  by (simp add: slice_neg_def)

lemma set_slice_neg_subset: "set (slice_neg n xs) \<subseteq> set xs"
  by (auto simp: slice_neg_def dest: in_set_dropD)

lemma map_slice_neg: "map f (slice_neg n xs) = slice_neg n (map f xs)"
  by (simp add: slice_neg_def drop_map)

lemma distinct_slice_neg: "distinct xs \<Longrightarrow> distinct (slice_neg n xs)"
  by (simp add: slice_neg_def)

lemma sorted_slice_neg: "sorted xs \<Longrightarrow> sorted (slice_neg n xs)"
  by (simp add: slice_neg_def sorted_wrt_drop)

lemma slice_neg_short: "length xs \<le> n \<Longrightarrow> slice_neg n xs = xs"
  by (simp add: slice_neg_def)

lemma last_slice_neg: "xs \<noteq> [] \<Longrightarrow> last (slice_neg n xs) = last xs"
  by (simp add: slice_neg_def)

lemma sorted_sort_by [js_list_simps]: "sorted (map f (sort_by f xs))"
  by (simp add: sort_by_def)

lemma set_sort_by [simp, js_list_simps]: "set (sort_by f xs) = set xs"
  by (simp add: sort_by_def)

lemma mset_sort_by [js_list_simps]: "mset (sort_by f xs) = mset xs"
  by (simp add: sort_by_def)

lemma length_sort_by [simp, js_list_simps]: "length (sort_by f xs) = length xs"
  by (simp add: sort_by_def)

lemma distinct_map_sort_by: "distinct (map g (sort_by f xs)) \<longleftrightarrow> distinct (map g xs)"
  by (metis mset_map mset_sort_by mset_eq_imp_distinct_iff)

lemma sort_by_sorted: "sorted (map f xs) \<Longrightarrow> sort_by f xs = xs"
  by (simp add: sort_by_def sort_key_id_if_sorted)

text \<open>Keyed replace-or-push: the array discipline of the bounded histories.\<close>

lemma replace_or_push_key:
  fixes f :: "'a \<Rightarrow> 'b"
  shows "map f (replace_or_push (\<lambda>y. f y = f x) x xs) =
    (if f x \<in> set (map f xs) then map f xs else map f xs @ [f x])"
proof (cases "find_index (\<lambda>y. f y = f x) xs")
  case None
  moreover from this have "f x \<notin> set (map f xs)"
    by (auto simp: find_index_None_iff)
  ultimately show ?thesis
    by (simp add: replace_or_push_def)
next
  case (Some i)
  then have i: "i < length xs" "f (xs ! i) = f x"
    using find_index_SomeD by fast+
  then have "f x \<in> set (map f xs)"
    by (metis length_map nth_map nth_mem)
  moreover have "map f (xs[i := x]) = map f xs"
    using i by (metis length_map list_update_id map_update nth_map)
  ultimately show ?thesis
    using Some by (simp add: replace_or_push_def)
qed

lemma distinct_replace_or_push:
  "distinct (map f xs) \<Longrightarrow> distinct (map f (replace_or_push (\<lambda>y. f y = f x) x xs))"
  by (simp add: replace_or_push_key)

lemma in_replace_or_push: "x \<in> set (replace_or_push P x xs)"
  by (auto simp: replace_or_push_def split: option.splits dest!: find_index_SomeD
      intro: set_update_memI)

lemma set_replace_or_push: "set (replace_or_push P x xs) \<subseteq> insert x (set xs)"
  by (auto simp: replace_or_push_def split: option.splits dest: set_update_subset_insert [THEN subsetD])

lemma sum_num_fold: "fold (\<lambda>x acc. acc + x) xs (a :: num) = a + sum_list xs"
  by (induction xs arbitrary: a) (simp_all add: add.assoc)

lemma sum_num_eq [simp]: "sum_num xs = sum_list xs"
  by (simp add: sum_num_def sum_num_fold)

lemma mean_bounds:
  assumes "xs \<noteq> []" "\<forall>x \<in> set xs. lo \<le> x \<and> x \<le> hi"
  shows "lo \<le> mean xs \<and> mean xs \<le> hi"
proof -
  have "of_nat (length xs) * lo \<le> sum_list xs \<and> sum_list xs \<le> of_nat (length xs) * hi"
    using assms(2) by (induction xs) (auto simp: algebra_simps)
  moreover have "(0::num) < of_nat (length xs)"
    using assms(1) by simp
  ultimately show ?thesis
    by (simp add: mean_def field_simps)
qed

subsection \<open>Sets in insertion order, grouping\<close>

text \<open>\<open>Set.add\<close> on a set kept as the list of its members in insertion order.\<close>

definition set_add :: "'a \<Rightarrow> 'a list \<Rightarrow> 'a list" where
  "set_add x xs = (if x \<in> set xs then xs else xs @ [x])"

lemma set_set_add [simp]: "set (set_add x xs) = insert x (set xs)"
  by (auto simp: set_add_def)

lemma distinct_set_add: "distinct xs \<Longrightarrow> distinct (set_add x xs)"
  by (simp add: set_add_def)

lemma js_uniq_set_add: "js_uniq xs = fold set_add xs []"
  by (simp add: js_uniq_def set_add_def [abs_def])

lemma set_fold_set_add [simp]: "set (fold set_add xs acc) = set acc \<union> set xs"
  by (induction xs arbitrary: acc) auto

lemma distinct_fold_set_add: "distinct acc \<Longrightarrow> distinct (fold set_add xs acc)"
  by (induction xs arbitrary: acc) (auto intro: distinct_set_add)

text \<open>
  The grouping loop of the code: \<open>const g = map.get(key(x)) ?? fresh; ...; map.set(key(x), g')\<close>,
  where \<open>upd\<close> makes the new group from the old one, if any, and the item.
\<close>

definition group_step :: "('x \<Rightarrow> 'k) \<Rightarrow> ('v option \<Rightarrow> 'x \<Rightarrow> 'v) \<Rightarrow> 'x \<Rightarrow> ('k, 'v) jsmap \<Rightarrow> ('k, 'v) jsmap" where
  "group_step key upd x m = map_set (key x) (upd (map_get m (key x)) x) m"

lemma map_keys_group_step: "map_keys (group_step key upd x m) = set_add (key x) (map_keys m)"
  by (simp add: group_step_def map_keys_set set_add_def)

text \<open>The groups appear in the order of their first item.\<close>

lemma map_keys_group: "map_keys (fold (group_step key upd) xs m) = fold set_add (map key xs) (map_keys m)"
  by (induction xs arbitrary: m) (simp_all add: map_keys_group_step)

text \<open>A group is built from its own items only, in their order.\<close>

lemma map_get_group:
  "map_get (fold (group_step key upd) xs m) k =
     fold (\<lambda>x v. Some (upd v x)) (filter (\<lambda>x. key x = k) xs) (map_get m k)"
  by (induction xs arbitrary: m) (auto simp: group_step_def)

text \<open>
  What a grouping loop promises when every group carries its key: the groups come out once per
  key, in first-seen order, each computed from its own items.
\<close>

locale grouping =
  fixes key :: "'x \<Rightarrow> 'k"
    and upd :: "'v option \<Rightarrow> 'x \<Rightarrow> 'v"
    and ident :: "'v \<Rightarrow> 'k"
  assumes ident_upd: "(\<And>w. v = Some w \<Longrightarrow> ident w = key x) \<Longrightarrow> ident (upd v x) = key x"
begin

definition keyed :: "('k, 'v) jsmap \<Rightarrow> bool" where
  "keyed m \<longleftrightarrow> map ident (map_values m) = map_keys m"

lemma keyed_get: "keyed m \<Longrightarrow> map_get m k = Some w \<Longrightarrow> ident w = k"
  unfolding keyed_def by (induction m) (auto split: if_splits)

lemma keyed_set: "keyed m \<Longrightarrow> ident w = k \<Longrightarrow> keyed (map_set k w m)"
  unfolding keyed_def by (induction m) auto

lemma keyed_step: "keyed m \<Longrightarrow> keyed (group_step key upd x m)"
  unfolding group_step_def by (intro keyed_set ident_upd) (auto dest: keyed_get)

lemma keyed_fold: "keyed m \<Longrightarrow> keyed (fold (group_step key upd) xs m)"
  by (induction xs arbitrary: m) (auto intro: keyed_step)

lemma group_idents:
  "map ident (map_values (fold (group_step key upd) xs [])) = js_uniq (map key xs)"
proof -
  have "keyed (fold (group_step key upd) xs [])"
    by (rule keyed_fold) (simp add: keyed_def)
  then show ?thesis
    by (simp add: keyed_def map_keys_group js_uniq_set_add)
qed

lemma group_distinct: "distinct (map ident (map_values (fold (group_step key upd) xs [])))"
  unfolding group_idents by (rule distinct_js_uniq)

lemma group_values:
  assumes "v \<in> set (map_values (fold (group_step key upd) xs []))"
  shows "Some v = fold (\<lambda>x v. Some (upd v x)) (filter (\<lambda>x. key x = ident v) xs) None"
proof -
  let ?m = "fold (group_step key upd) xs []"
  from assms obtain k where k: "(k, v) \<in> set ?m" by auto
  have d: "distinct (map_keys ?m)"
    by (simp add: map_keys_group distinct_fold_set_add)
  have "map_get ?m k = Some v"
    using k d by (simp add: map_of_is_SomeI)
  moreover have "keyed ?m"
    by (rule keyed_fold) (simp add: keyed_def)
  then have "ident v = k"
    using calculation by (rule keyed_get)
  ultimately show ?thesis
    by (simp add: map_get_group)
qed

end

end
