(* ===== verification/JsDate.thy ===== *)
theory JsDate
  imports Prelude
begin

text \<open>
  The part of ECMAScript's \<open>Date\<close> the server uses, over milliseconds since the epoch (\<open>int\<close>):
  the proleptic Gregorian calendar (\<open>getUTCFullYear\<close>, \<open>getUTCMonth\<close>, \<open>getUTCDate\<close>, \<open>getUTCDay\<close>,
  \<open>Date.UTC\<close>), \<open>toISOString\<close> and \<open>Date.parse\<close>.  The year arithmetic is that of ECMA-262
  (\<open>DayFromYear\<close>, \<open>YearFromTime\<close>, \<open>MonthFromTime\<close>, \<open>DateFromTime\<close>, \<open>MakeDay\<close>).

  \<open>Date_parse\<close> reads the standard date-time format (date only, or date and time with \<open>Z\<close> or a
  numeric offset); \<open>None\<close> is \<open>NaN\<close>.  The formats the standard leaves to the host (local times
  without an offset, other spellings) are outside the model, and so is the clipping of instants
  further than 8.64e15 ms from the epoch.

  Proved here: the calendar fields and \<open>Date.UTC\<close> are inverse to each other on every day, and
  \<open>Date.parse\<close> inverts \<open>toISOString\<close> on the years 0 to 9999.
\<close>

subsection \<open>Days, years, months\<close>

definition msPerDay :: int where
  "msPerDay = 86400000"

definition Day :: "int \<Rightarrow> int" where
  "Day t = t div msPerDay"

definition TimeWithinDay :: "int \<Rightarrow> int" where
  "TimeWithinDay t = t mod msPerDay"

definition is_leap :: "int \<Rightarrow> bool" where
  "is_leap y \<longleftrightarrow> y mod 4 = 0 \<and> (y mod 100 \<noteq> 0 \<or> y mod 400 = 0)"

definition DaysInYear :: "int \<Rightarrow> int" where
  "DaysInYear y = (if is_leap y then 366 else 365)"

definition DayFromYear :: "int \<Rightarrow> int" where
  "DayFromYear y = 365 * (y - 1970) + (y - 1969) div 4 - (y - 1901) div 100 + (y - 1601) div 400"

text \<open>The year of a day: an estimate from the mean year length, corrected by at most one.\<close>

definition YearFromDay :: "int \<Rightarrow> int" where
  "YearFromDay d =
     (let y = 1970 + (400 * d) div 146097
      in if d < DayFromYear y then y - 1 else if DayFromYear (y + 1) \<le> d then y + 1 else y)"

definition DayWithinYear :: "int \<Rightarrow> int" where
  "DayWithinYear d = d - DayFromYear (YearFromDay d)"

definition month_lengths :: "bool \<Rightarrow> int list" where
  "month_lengths leap = [31, if leap then 29 else 28, 31, 30, 31, 30, 31, 31, 30, 31, 30, 31]"

text \<open>The first day of month \<open>m\<close> (0 to 11) within its year.\<close>

definition month_start :: "bool \<Rightarrow> int \<Rightarrow> int" where
  "month_start leap m = sum_list (take (nat m) (month_lengths leap))"

text \<open>The month a day of the year falls into, with the day within that month.\<close>

fun scan_months :: "int \<Rightarrow> int \<Rightarrow> int list \<Rightarrow> int \<times> int" where
  "scan_months m k [] = (m, k)"
| "scan_months m k (n # ns) = (if k < n then (m, k) else scan_months (m + 1) (k - n) ns)"

definition month_of :: "bool \<Rightarrow> int \<Rightarrow> int" where
  "month_of leap k = fst (scan_months 0 k (month_lengths leap))"

definition MonthFromDay :: "int \<Rightarrow> int" where
  "MonthFromDay d = month_of (is_leap (YearFromDay d)) (DayWithinYear d)"

definition DateFromDay :: "int \<Rightarrow> int" where
  "DateFromDay d =
     DayWithinYear d - month_start (is_leap (YearFromDay d)) (MonthFromDay d) + 1"

definition getUTCFullYear :: "int \<Rightarrow> int" where
  "getUTCFullYear t = YearFromDay (Day t)"

definition getUTCMonth :: "int \<Rightarrow> int" where
  "getUTCMonth t = MonthFromDay (Day t)"

definition getUTCDate :: "int \<Rightarrow> int" where
  "getUTCDate t = DateFromDay (Day t)"

definition getUTCDay :: "int \<Rightarrow> int" where
  "getUTCDay t = (Day t + 4) mod 7"

definition MakeDay :: "int \<Rightarrow> int \<Rightarrow> int \<Rightarrow> int" where
  "MakeDay year month date =
     (let ym = year + month div 12; mn = month mod 12
      in DayFromYear ym + month_start (is_leap ym) mn + date - 1)"

text \<open>\<open>Date.UTC(year, month, day)\<close>; two-digit years mean the twentieth century.\<close>

definition Date_UTC :: "int \<Rightarrow> int \<Rightarrow> int \<Rightarrow> int" where
  "Date_UTC year month date =
     (let yr = (if 0 \<le> year \<and> year \<le> 99 then 1900 + year else year)
      in MakeDay yr month date * msPerDay)"

subsection \<open>The calendar is consistent\<close>

lemma div_succ:
  fixes a n :: int
  assumes "0 < n"
  shows "(a + 1) div n = a div n + (if (a + 1) mod n = 0 then 1 else 0)"
proof -
  define q r where "q = a div n" and "r = a mod n"
  have a: "a = n * q + r" and r: "0 \<le> r" "r < n"
    using assms by (simp_all add: q_def r_def)
  show ?thesis
  proof (cases "r = n - 1")
    case True
    have "a + 1 = n * (q + 1) + 0" using a True by (simp add: algebra_simps)
    then have "(a + 1) div n = q + 1" "(a + 1) mod n = 0"
      using assms by (auto intro: int_div_pos_eq int_mod_pos_eq)
    then show ?thesis by (simp add: q_def)
  next
    case False
    have "a + 1 = n * q + (r + 1)" using a by simp
    then have "(a + 1) div n = q" "(a + 1) mod n = r + 1"
      using False r by (auto intro: int_div_pos_eq int_mod_pos_eq)
    then show ?thesis using r(1) by (simp add: q_def)
  qed
qed

lemma DayFromYear_succ: "DayFromYear (y + 1) = DayFromYear y + DaysInYear y"
proof -
  have m: "(y - 1968) mod 4 = y mod 4" "(y - 1900) mod 100 = y mod 100" "(y - 1600) mod 400 = y mod 400"
    using mod_mult_self2 [of y 4 "-492"] mod_mult_self2 [of y 100 "-19"] mod_mult_self2 [of y 400 "-4"]
    by simp_all
  have a: "(y - 1968) div 4 = (y - 1969) div 4 + (if y mod 4 = 0 then 1 else 0)"
    using div_succ [of 4 "y - 1969"] by (simp add: m)
  have b: "(y - 1900) div 100 = (y - 1901) div 100 + (if y mod 100 = 0 then 1 else 0)"
    using div_succ [of 100 "y - 1901"] by (simp add: m)
  have c: "(y - 1600) div 400 = (y - 1601) div 400 + (if y mod 400 = 0 then 1 else 0)"
    using div_succ [of 400 "y - 1601"] by (simp add: m)
  have "(100::int) dvd 400" "(4::int) dvd 100" by simp_all
  then have d: "y mod 400 = 0 \<longrightarrow> y mod 100 = 0" "y mod 100 = 0 \<longrightarrow> y mod 4 = 0"
    unfolding mod_eq_0_iff_dvd by (blast intro: dvd_trans)+
  have e: "y + 1 - 1969 = y - 1968" "y + 1 - 1901 = y - 1900" "y + 1 - 1601 = y - 1600"
    by simp_all
  have key: "365 * (y + 1 - 1970) + (A + (if p then 1 else 0)) - (B + (if q then 1 else 0))
      + (C + (if r then 1 else 0)) = 365 * (y - 1970) + A - B + C + (if p \<and> (\<not> q \<or> r) then 366 else 365)"
    if "r \<longrightarrow> q" "q \<longrightarrow> p" for A B C :: int and p q r :: bool
    using that by (cases p; cases q; cases r) (simp_all add: algebra_simps)
  show ?thesis
    unfolding DayFromYear_def DaysInYear_def is_leap_def e a b c by (rule key [OF d])
qed

text \<open>The day number of a year start stays within two days of the mean year length.\<close>

lemma DayFromYear_mean:
  "146097 * (y - 1970) - 600 \<le> 400 * DayFromYear y" "400 * DayFromYear y \<le> 146097 * (y - 1970) + 600"
proof -
  define A B C where "A = (y - 1969) div 4" and "B = (y - 1901) div 100" and "C = (y - 1601) div 400"
  have f: "4 * A \<le> y - 1969" "y - 1969 \<le> 4 * A + 3" "100 * B \<le> y - 1901" "y - 1901 \<le> 100 * B + 99"
    "400 * C \<le> y - 1601" "y - 1601 \<le> 400 * C + 399"
    unfolding A_def B_def C_def by linarith+
  have e: "400 * DayFromYear y = 146000 * (y - 1970) + 400 * A - 400 * B + 400 * C"
    by (simp add: DayFromYear_def A_def B_def C_def)
  have "146097 * (y - 1970) - 600 \<le> 146000 * (y - 1970) + 400 * A - 400 * B + 400 * C"
    using f by (simp add: algebra_simps)
  moreover have "146000 * (y - 1970) + 400 * A - 400 * B + 400 * C \<le> 146097 * (y - 1970) + 600"
    using f by (simp add: algebra_simps)
  ultimately show "146097 * (y - 1970) - 600 \<le> 400 * DayFromYear y"
    and "400 * DayFromYear y \<le> 146097 * (y - 1970) + 600"
    by (simp_all only: e)
qed

lemma DayFromYear_mono: "x \<le> y \<Longrightarrow> DayFromYear x \<le> DayFromYear y"
proof (induction rule: int_ge_induct)
  case (step i)
  then show ?case by (simp add: DayFromYear_succ DaysInYear_def)
qed simp

lemma YearFromDay_bounds: "DayFromYear (YearFromDay d) \<le> d \<and> d < DayFromYear (YearFromDay d + 1)"
proof -
  define q where "q = (400 * d) div 146097"
  have q: "146097 * q \<le> 400 * d" "400 * d < 146097 * q + 146097"
    unfolding q_def by linarith+
  have lo: "DayFromYear (1970 + q - 1) \<le> d"
    using DayFromYear_mean(2) [of "1970 + q - 1"] q(1) by (simp add: algebra_simps)
  have hi: "d < DayFromYear (1970 + q + 1 + 1)"
    using DayFromYear_mean(1) [of "1970 + q + 1 + 1"] q(2) by (simp add: algebra_simps)
  show ?thesis
    using lo hi by (auto simp: YearFromDay_def Let_def simp flip: q_def)
qed

lemma YearFromDay_unique:
  assumes "DayFromYear y \<le> d" "d < DayFromYear (y + 1)"
  shows "YearFromDay d = y"
proof (rule ccontr)
  assume "YearFromDay d \<noteq> y"
  then consider "YearFromDay d + 1 \<le> y" | "y + 1 \<le> YearFromDay d" by linarith
  then show False
    using DayFromYear_mono YearFromDay_bounds [of d] assms by cases (force dest: DayFromYear_mono)+
qed

lemma DayWithinYear_bounds: "0 \<le> DayWithinYear d \<and> DayWithinYear d < DaysInYear (YearFromDay d)"
  using YearFromDay_bounds [of d] by (simp add: DayWithinYear_def DayFromYear_succ)

lemma scan_months_finds:
  assumes "0 \<le> k" "k < sum_list ns"
  shows "\<exists>i < length ns. fst (scan_months m k ns) = m + int i \<and> sum_list (take i ns) \<le> k
    \<and> k < sum_list (take i ns) + ns ! i"
  using assms
proof (induction ns arbitrary: m k)
  case (Cons n ns)
  show ?case
  proof (cases "k < n")
    case True
    with Cons.prems show ?thesis by (intro exI [of _ 0]) simp
  next
    case False
    with Cons.IH [of "k - n" "m + 1"] Cons.prems obtain i where
      "i < length ns" "fst (scan_months (m + 1) (k - n) ns) = m + 1 + int i"
      "sum_list (take i ns) \<le> k - n" "k - n < sum_list (take i ns) + ns ! i"
      by auto
    with False show ?thesis by (intro exI [of _ "Suc i"]) simp
  qed
qed simp

lemma scan_months_start:
  assumes "i < length ns" "\<forall>n \<in> set ns. 0 \<le> n" "0 \<le> k" "k < ns ! i"
  shows "fst (scan_months m (sum_list (take i ns) + k) ns) = m + int i"
  using assms
proof (induction ns arbitrary: m i)
  case (Cons n ns)
  show ?case
  proof (cases i)
    case 0
    with Cons.prems show ?thesis by simp
  next
    case (Suc j)
    have "0 \<le> sum_list (take j ns)"
      using Cons.prems(2) by (intro sum_list_nonneg) (auto dest: in_set_takeD)
    with Suc Cons.prems Cons.IH [of j "m + 1"] show ?thesis by simp
  qed
qed simp

lemma month_lengths_facts:
  "length (month_lengths l) = 12" "n \<in> set (month_lengths l) \<Longrightarrow> 28 \<le> n \<and> n \<le> 31"
  "sum_list (month_lengths l) = (if l then 366 else 365)"
  by (auto simp: month_lengths_def)

lemma month_of_finds:
  assumes "0 \<le> k" "k < (if l then 366 else 365)"
  obtains i where "i < 12" "month_of l k = int i" "month_start l (int i) \<le> k"
    "k < month_start l (int i) + month_lengths l ! i"
  using scan_months_finds [of k "month_lengths l" 0] assms
  by (auto simp: month_lengths_facts month_of_def month_start_def)

lemma month_of_start:
  assumes "i < 12" "0 \<le> k" "k < month_lengths l ! i"
  shows "month_of l (month_start l (int i) + k) = int i"
  using assms scan_months_start [of i "month_lengths l" k 0] month_lengths_facts(2)
  by (force simp: month_of_def month_start_def month_lengths_facts(1))

lemma month_start_less:
  assumes "i < 12"
  shows "0 \<le> month_start l (int i)" "month_start l (int i) < (if l then 366 else 365)"
proof -
  have nonneg: "\<forall>n \<in> set (month_lengths l). 0 \<le> n"
    using month_lengths_facts(2) by force
  then show "0 \<le> month_start l (int i)"
    by (auto simp: month_start_def intro!: sum_list_nonneg dest: in_set_takeD)
  have "sum_list (month_lengths l) = sum_list (take i (month_lengths l)) + sum_list (drop i (month_lengths l))"
    by (metis append_take_drop_id sum_list_append)
  moreover have "drop i (month_lengths l) = month_lengths l ! i # drop (Suc i) (month_lengths l)"
    using assms by (simp add: Cons_nth_drop_Suc month_lengths_facts(1))
  moreover have "0 \<le> sum_list (drop (Suc i) (month_lengths l))"
    using nonneg by (auto intro!: sum_list_nonneg dest: in_set_dropD)
  moreover have "28 \<le> month_lengths l ! i"
    using assms month_lengths_facts(2) [of "month_lengths l ! i" l] by (simp add: month_lengths_facts(1))
  ultimately show "month_start l (int i) < (if l then 366 else 365)"
    by (simp add: month_start_def month_lengths_facts(3))
qed

lemma day_month:
  obtains i where "i < 12" "MonthFromDay d = int i"
    "month_start (is_leap (YearFromDay d)) (int i) \<le> DayWithinYear d"
    "DayWithinYear d < month_start (is_leap (YearFromDay d)) (int i) + month_lengths (is_leap (YearFromDay d)) ! i"
  using month_of_finds [of "DayWithinYear d" "is_leap (YearFromDay d)"] DayWithinYear_bounds [of d]
  unfolding MonthFromDay_def DaysInYear_def by metis

lemma MonthFromDay_bounds: "0 \<le> MonthFromDay d \<and> MonthFromDay d \<le> 11"
  by (rule day_month [of d]) simp

lemma DateFromDay_pos: "1 \<le> DateFromDay d"
  by (rule day_month [of d]) (simp add: DateFromDay_def)

text \<open>\<open>MakeDay\<close> inverts the three field readers.\<close>

lemma MakeDay_fields: "MakeDay (YearFromDay d) (MonthFromDay d) (DateFromDay d) = d"
  using MonthFromDay_bounds [of d]
  by (simp add: MakeDay_def Let_def DateFromDay_def DayWithinYear_def div_pos_pos_trivial)

text \<open>The fields of the first day of a month are the month itself.\<close>

lemma fields_MakeDay_first:
  assumes "0 \<le> m" "m \<le> 11"
  shows "YearFromDay (MakeDay y m 1) = y" "MonthFromDay (MakeDay y m 1) = m"
    "DateFromDay (MakeDay y m 1) = 1"
proof -
  obtain i where i: "m = int i" "i < 12"
    using assms by (intro that [of "nat m"]) auto
  define d where "d = MakeDay y m 1"
  have d: "d = DayFromYear y + month_start (is_leap y) m"
    using assms by (simp add: d_def MakeDay_def Let_def div_pos_pos_trivial)
  have y: "YearFromDay d = y"
    using d i month_start_less [OF i(2), of "is_leap y"]
    by (intro YearFromDay_unique) (auto simp: DayFromYear_succ DaysInYear_def)
  have w: "DayWithinYear d = month_start (is_leap y) m"
    unfolding DayWithinYear_def y by (simp add: d)
  have "0 < month_lengths (is_leap y) ! i"
    using i(2) month_lengths_facts(2) [of "month_lengths (is_leap y) ! i" "is_leap y"]
    by (simp add: month_lengths_facts(1))
  then have "month_of (is_leap y) (month_start (is_leap y) m) = m"
    using month_of_start [OF i(2), of 0 "is_leap y"] by (simp add: i(1))
  then have m: "MonthFromDay d = m"
    by (simp add: MonthFromDay_def y w)
  then show "YearFromDay (MakeDay y m 1) = y" "MonthFromDay (MakeDay y m 1) = m"
    "DateFromDay (MakeDay y m 1) = 1"
    using y w by (simp_all add: DateFromDay_def flip: d_def)
qed

subsection \<open>Dates through \<open>Date.UTC\<close>\<close>

lemma Day_mult [simp]: "Day (d * msPerDay) = d"
  by (simp add: Day_def msPerDay_def)

lemma Day_add: "0 \<le> w \<Longrightarrow> w < msPerDay \<Longrightarrow> Day (d * msPerDay + w) = d"
  unfolding Day_def msPerDay_def by (rule int_div_pos_eq) auto

lemma Date_UTC_fields:
  assumes "\<not> (0 \<le> getUTCFullYear t \<and> getUTCFullYear t \<le> 99)"
  shows "Date_UTC (getUTCFullYear t) (getUTCMonth t) (getUTCDate t) = Day t * msPerDay"
  using assms MakeDay_fields [of "Day t"]
  by (auto simp: Date_UTC_def getUTCFullYear_def getUTCMonth_def getUTCDate_def Let_def)

subsection \<open>\<open>toISOString\<close> and \<open>Date.parse\<close>\<close>

definition digit :: "nat \<Rightarrow> char" where
  "digit k = char_of (48 + k)"

definition digit_val :: "char \<Rightarrow> nat option" where
  "digit_val c = (let k = of_char c in if 48 \<le> k \<and> k \<le> 57 then Some (k - 48) else None)"

text \<open>The \<open>n\<close> low decimal digits of a number (\<open>String(k).padStart(n, "0")\<close> for \<open>k < 10 ^ n\<close>).\<close>

primrec pad :: "nat \<Rightarrow> nat \<Rightarrow> string" where
  "pad 0 k = []"
| "pad (Suc n) k = pad n (k div 10) @ [digit (k mod 10)]"

definition year_string :: "int \<Rightarrow> string" where
  "year_string y =
     (if 0 \<le> y \<and> y \<le> 9999 then pad 4 (nat y)
      else if y < 0 then ''-'' @ pad 6 (nat (- y)) else ''+'' @ pad 6 (nat y))"

definition toISOString :: "int \<Rightarrow> string" where
  "toISOString t =
     (let w = TimeWithinDay t
      in year_string (getUTCFullYear t) @ ''-'' @ pad 2 (nat (getUTCMonth t + 1)) @ ''-''
         @ pad 2 (nat (getUTCDate t)) @ ''T'' @ pad 2 (nat (w div 3600000)) @ '':''
         @ pad 2 (nat (w div 60000 mod 60)) @ '':'' @ pad 2 (nat (w div 1000 mod 60)) @ ''.''
         @ pad 3 (nat (w mod 1000)) @ ''Z'')"

text \<open>Readers consume a prefix and return the rest.\<close>

fun read_digits :: "nat \<Rightarrow> nat \<Rightarrow> string \<Rightarrow> (nat \<times> string) option" where
  "read_digits 0 acc s = Some (acc, s)"
| "read_digits (Suc n) acc [] = None"
| "read_digits (Suc n) acc (c # s) =
     (case digit_val c of None \<Rightarrow> None | Some d \<Rightarrow> read_digits n (10 * acc + d) s)"

fun expect :: "string \<Rightarrow> string \<Rightarrow> string option" where
  "expect [] s = Some s"
| "expect (p # ps) [] = None"
| "expect (p # ps) (c # s) = (if p = c then expect ps s else None)"

fun span_digits :: "string \<Rightarrow> nat list \<times> string" where
  "span_digits [] = ([], [])"
| "span_digits (c # s) =
     (case digit_val c of None \<Rightarrow> ([], c # s) | Some d \<Rightarrow> (let (ds, r) = span_digits s in (d # ds, r)))"

text \<open>An optional fraction of a second; digits after the third are dropped.\<close>

definition read_fraction :: "string \<Rightarrow> (nat \<times> string) option" where
  "read_fraction s =
     (case expect ''.'' s of
        None \<Rightarrow> Some (0, s)
      | Some r \<Rightarrow>
          (case span_digits r of
             ([], _) \<Rightarrow> None
           | ([a], r') \<Rightarrow> Some (100 * a, r')
           | ([a, b], r') \<Rightarrow> Some (100 * a + 10 * b, r')
           | (a # b # c # _, r') \<Rightarrow> Some (100 * a + 10 * b + c, r')))"

text \<open>\<open>Z\<close>, or \<open>+hh:mm\<close> / \<open>-hh:mm\<close>, as the offset in minutes.\<close>

definition read_zone :: "string \<Rightarrow> int option" where
  "read_zone s =
     (if s = ''Z'' then Some 0
      else (case s of
              c # r \<Rightarrow>
                if c = CHR ''+'' \<or> c = CHR ''-'' then
                  Option.bind (read_digits 2 0 r) (\<lambda>(h, r1).
                  Option.bind (expect '':'' r1) (\<lambda>r2.
                  Option.bind (read_digits 2 0 r2) (\<lambda>(m, r3).
                    if r3 = [] \<and> h \<le> 23 \<and> m \<le> 59
                    then Some ((if c = CHR ''-'' then -1 else 1) * int (60 * h + m)) else None)))
                else None
            | [] \<Rightarrow> None))"

definition days_in_month :: "int \<Rightarrow> int \<Rightarrow> int" where
  "days_in_month y m = month_lengths (is_leap y) ! nat m"

definition read_date :: "string \<Rightarrow> (int \<times> string) option" where
  "read_date s =
     Option.bind (read_digits 4 0 s) (\<lambda>(y, r1).
     Option.bind (expect ''-'' r1) (\<lambda>r2.
     Option.bind (read_digits 2 0 r2) (\<lambda>(m, r3).
     Option.bind (expect ''-'' r3) (\<lambda>r4.
     Option.bind (read_digits 2 0 r4) (\<lambda>(d, r5).
       if 1 \<le> m \<and> m \<le> 12 \<and> 1 \<le> d \<and> int d \<le> days_in_month (int y) (int m - 1)
       then Some (MakeDay (int y) (int m - 1) (int d), r5) else None)))))"

definition read_time :: "string \<Rightarrow> (int \<times> string) option" where
  "read_time s =
     Option.bind (read_digits 2 0 s) (\<lambda>(h, r1).
     Option.bind (expect '':'' r1) (\<lambda>r2.
     Option.bind (read_digits 2 0 r2) (\<lambda>(mi, r3).
     Option.bind (expect '':'' r3) (\<lambda>r4.
     Option.bind (read_digits 2 0 r4) (\<lambda>(sec, r5).
     Option.bind (read_fraction r5) (\<lambda>(ms, r6).
       if h \<le> 24 \<and> mi \<le> 59 \<and> sec \<le> 59 \<and> (h = 24 \<longrightarrow> mi = 0 \<and> sec = 0 \<and> ms = 0)
       then Some (int (3600000 * h + 60000 * mi + 1000 * sec + ms), r6) else None))))))"

definition Date_parse :: "string \<Rightarrow> int option" where
  "Date_parse s =
     Option.bind (read_date s) (\<lambda>(d, r).
       if r = [] then Some (d * msPerDay)
       else Option.bind (expect ''T'' r) (\<lambda>r1.
            Option.bind (read_time r1) (\<lambda>(w, r2).
            Option.bind (read_zone r2) (\<lambda>z. Some (d * msPerDay + w - z * 60000)))))"

lemma digit_val_digit [simp]: "k < 10 \<Longrightarrow> digit_val (digit k) = Some k"
  by (simp add: digit_val_def digit_def Let_def)

lemma length_pad [simp]: "length (pad n k) = n"
  by (induction n arbitrary: k) simp_all

lemma read_digits_pad:
  "k < 10 ^ n \<Longrightarrow> read_digits (n + m) acc (pad n k @ s) = read_digits m (acc * 10 ^ n + k) s"
proof (induction n arbitrary: k m s)
  case (Suc n)
  have "read_digits (n + Suc m) acc (pad n (k div 10) @ digit (k mod 10) # s)
      = read_digits (Suc m) (acc * 10 ^ n + k div 10) (digit (k mod 10) # s)"
    using Suc.prems by (intro Suc.IH) (simp add: less_mult_imp_div_less mult.commute)
  also have "\<dots> = read_digits m (10 * (acc * 10 ^ n + k div 10) + k mod 10) s"
    by simp
  also have "10 * (acc * 10 ^ n + k div 10) + k mod 10 = acc * 10 ^ Suc n + k"
    by (simp add: algebra_simps)
  finally show ?case by simp
qed simp

lemma read_digits_pad0 [simp]: "k < 10 ^ n \<Longrightarrow> read_digits n 0 (pad n k @ s) = Some (k, s)"
  using read_digits_pad [of k n 0 0 s] by simp

lemma expect_append [simp]: "expect p (p @ s) = Some s"
  by (induction p) auto

lemma read_fraction_pad:
  assumes "k < 1000"
  shows "read_fraction (CHR ''.'' # pad 3 k @ ''Z'') = Some (k, ''Z'')"
proof -
  have z: "digit_val (CHR ''Z'') = None" by (simp add: digit_val_def)
  have k: "k div 10 div 10 < 10" using assms by simp
  have "span_digits (pad 3 k @ ''Z'') = ([k div 10 div 10, k div 10 mod 10, k mod 10], ''Z'')"
    using k by (simp add: numeral_3_eq_3 z mod_less)
  moreover have "100 * (k div 10 div 10) + 10 * (k div 10 mod 10) + k mod 10 = k"
  proof -
    have "100 * b + 10 * q + r = k" if "10 * a + r = k" "10 * b + q = a" for a b q r :: nat
      using that by simp
    then show ?thesis by this (rule mult_div_mod_eq)+
  qed
  ultimately show ?thesis
    by (simp add: read_fraction_def)
qed

lemma time_parts:
  fixes w :: int
  shows "3600000 * (w div 3600000) + 60000 * (w div 60000 mod 60) + 1000 * (w div 1000 mod 60) + w mod 1000 = w"
proof -
  have d: "w div 60000 = w div 1000 div 60" "w div 3600000 = w div 60000 div 60"
    using zdiv_zmult2_eq [of 60 w 1000] zdiv_zmult2_eq [of 60 w 60000] by simp_all
  have "3600000 * d + 60000 * c + 1000 * b + a = w"
    if "1000 * x + a = w" "60 * y + b = x" "60 * d + c = y" for a b c d x y
    using that by simp
  from this [OF mult_div_mod_eq mult_div_mod_eq mult_div_mod_eq] show ?thesis
    unfolding d .
qed

lemma TimeWithinDay_bounds: "0 \<le> TimeWithinDay t" "TimeWithinDay t < 86400000"
  by (simp_all add: TimeWithinDay_def msPerDay_def)

lemma day_and_time: "Day t * msPerDay + TimeWithinDay t = t"
  by (simp add: Day_def TimeWithinDay_def)

lemma read_time_print:
  assumes "0 \<le> w" "w < 86400000"
  shows "read_time (pad 2 (nat (w div 3600000)) @ '':'' @ pad 2 (nat (w div 60000 mod 60)) @ '':''
           @ pad 2 (nat (w div 1000 mod 60)) @ ''.'' @ pad 3 (nat (w mod 1000)) @ ''Z'') = Some (w, ''Z'')"
proof -
  define h mi sec ms where "h = nat (w div 3600000)" and "mi = nat (w div 60000 mod 60)"
    and "sec = nat (w div 1000 mod 60)" and "ms = nat (w mod 1000)"
  have h: "h < 24"
    using assms by (simp add: h_def nat_less_iff pos_imp_zdiv_nonneg_iff div_less_iff_less_mult)
  have mi: "mi < 60" "sec < 60" "ms < 1000"
    by (simp_all add: mi_def sec_def ms_def nat_less_iff)
  have i: "int h = w div 3600000" "int mi = w div 60000 mod 60" "int sec = w div 1000 mod 60"
    "int ms = w mod 1000"
    using assms(1) by (simp_all add: h_def mi_def sec_def ms_def pos_imp_zdiv_nonneg_iff)
  have "int (3600000 * h + 60000 * mi + 1000 * sec + ms) = w"
    unfolding of_nat_add of_nat_mult of_nat_numeral i by (rule time_parts)
  then show ?thesis
    using h mi read_fraction_pad [of ms]
    by (simp add: read_time_def flip: h_def mi_def sec_def ms_def)
qed

lemma DateFromDay_le: "DateFromDay d \<le> days_in_month (YearFromDay d) (MonthFromDay d)"
  by (rule day_month [of d]) (simp add: DateFromDay_def days_in_month_def)

lemma days_in_month_le: "0 \<le> m \<Longrightarrow> m \<le> 11 \<Longrightarrow> days_in_month y m \<le> 31"
  using month_lengths_facts(2) [of "month_lengths (is_leap y) ! nat m" "is_leap y"]
  by (simp add: days_in_month_def month_lengths_facts(1) nat_less_iff)

lemma read_date_print:
  assumes "0 \<le> YearFromDay d" "YearFromDay d \<le> 9999"
  shows "read_date (pad 4 (nat (YearFromDay d)) @ ''-'' @ pad 2 (nat (MonthFromDay d + 1)) @ ''-''
           @ pad 2 (nat (DateFromDay d)) @ r) = Some (d, r)"
proof -
  define y m dd where "y = nat (YearFromDay d)" and "m = nat (MonthFromDay d + 1)"
    and "dd = nat (DateFromDay d)"
  have b: "0 \<le> MonthFromDay d" "MonthFromDay d \<le> 11" "1 \<le> DateFromDay d"
    using MonthFromDay_bounds [of d] DateFromDay_pos [of d] by simp_all
  have i: "int y = YearFromDay d" "int m = MonthFromDay d + 1" "int dd = DateFromDay d"
    using assms b by (simp_all add: y_def m_def dd_def)
  have "DateFromDay d \<le> 31"
    using DateFromDay_le [of d] days_in_month_le [OF b(1,2), of "YearFromDay d"] by linarith
  then have "int y < 10000" "int m < 100" "int dd < 100" "1 \<le> int m" "int m \<le> 12" "1 \<le> int dd"
    unfolding i using assms b by simp_all
  then have c: "y < 10 ^ 4" "m < 10 ^ 2" "dd < 10 ^ 2" "1 \<le> m" "m \<le> 12" "1 \<le> dd"
    by simp_all
  show ?thesis
    using c DateFromDay_le [of d] MakeDay_fields [of d]
    by (simp add: read_date_def i flip: y_def m_def dd_def)
qed

theorem Date_parse_toISOString:
  assumes "0 \<le> getUTCFullYear t" "getUTCFullYear t \<le> 9999"
  shows "Date_parse (toISOString t) = Some t"
proof -
  define w where "w = TimeWithinDay t"
  have w: "0 \<le> w" "w < 86400000"
    unfolding w_def by (rule TimeWithinDay_bounds)+
  have s: "toISOString t = pad 4 (nat (YearFromDay (Day t))) @ ''-''
      @ pad 2 (nat (MonthFromDay (Day t) + 1)) @ ''-'' @ pad 2 (nat (DateFromDay (Day t))) @ ''T''
      @ (pad 2 (nat (w div 3600000)) @ '':'' @ pad 2 (nat (w div 60000 mod 60)) @ '':''
         @ pad 2 (nat (w div 1000 mod 60)) @ ''.'' @ pad 3 (nat (w mod 1000)) @ ''Z'')"
    using assms by (simp add: toISOString_def year_string_def getUTCFullYear_def getUTCMonth_def
        getUTCDate_def Let_def flip: w_def)
  have "read_date (toISOString t) = Some (Day t, ''T''
      @ (pad 2 (nat (w div 3600000)) @ '':'' @ pad 2 (nat (w div 60000 mod 60)) @ '':''
         @ pad 2 (nat (w div 1000 mod 60)) @ ''.'' @ pad 3 (nat (w mod 1000)) @ ''Z''))"
    unfolding s using assms by (intro read_date_print) (simp_all add: getUTCFullYear_def)
  then show ?thesis
    using read_time_print [OF w] day_and_time [of t]
    by (simp add: Date_parse_def read_zone_def w_def)
qed

end
