(* ===== verification/Payload.thy ===== *)
theory Payload
  imports JsDate
begin

text \<open>
  The data of the hub, from \<open>packages/shared/src/index.ts\<close> and \<open>apps/server/src/types.ts\<close>: what
  an agent uploads (\<open>AgentMetricsPayload\<close> and its parts), what the hub keeps per sample
  (\<open>TimeSeriesRecord\<close>, \<open>InstanceMetricRecord\<close>), per device (\<open>DeviceRealtimeState\<close>, \<open>DeviceRecord\<close>,
  \<open>DeviceMetricConfigValue\<close>) and what it publishes (\<open>DeviceSummary\<close>, the chart series).

  Every interface is a record with the interface's fields in its order.  Field names carry a
  two-letter prefix because record fields of one theory share a name space.  A string union is a
  datatype; an optional or nullable field is an \<open>option\<close>; a \<open>Record\<close> is an insertion-ordered map.
\<close>

subsection \<open>Enumerations\<close>

datatype DeviceMetricKey =
    CpuUsage
  | CpuFrequency
  | CpuTemperature
  | CpuTopology
  | SystemOverview
  | GpuUsage
  | GpuEncode
  | GpuDecode
  | GpuFrequency
  | GpuMemory
  | GpuTemperature
  | GpuDriverInfo
  | TemperatureSources
  | MemoryUsage
  | SwapUsage
  | MemoryAvailable
  | MemoryCached
  | MemoryCommitted
  | MemoryHardware
  | DiskUsage
  | DiskRead
  | DiskWrite
  | DiskMetadata
  | DiskActivity
  | DiskHealth
  | StoragePools
  | NetworkRxRate
  | NetworkTxRate
  | NetworkTraffic
  | NetworkIdentity
  | FanRpm
  | FanControl
  | FanTargetTemperature
  | FanPwm
  | FanChannelState
  | FanNote

datatype DeviceStatus = Online | Offline

datatype ReleaseChannel = Stable | Test

datatype DeviceBlockKey = Cpu | Gpu | Memory | Disk | Network | Fan

datatype GpuMemoryKind = Dedicated | Shared | Unified | UnknownMemory

datatype Os = Windows | Linux | Macos | UnknownOs

datatype StoragePoolKind = Lvmthin | Lvm | Zfs | Btrfs | Dir | Nfs | Cifs | Pbs | Filesystem | UnknownPool

datatype MemoryPressureLevel = PressureNormal | PressureWarning | PressureCritical

datatype ThermalPressureLevel = Nominal | Moderate | Heavy | Trapping | Sleeping

datatype TemperatureSensorRole =
    CpuPackage | CpuCore | GpuCore | GpuHotspot | StorageComposite | StorageSensor | Motherboard
  | Superio | Peci | AcpiZone | ThresholdRole | DerivedRole | UnknownRole

datatype TemperatureSensorStatus = SensorValid | SensorInvalid | SensorThreshold | SensorUnavailable

datatype TemperatureSensorConfidence = ConfDirect | ConfDerived | ConfUnmapped | ConfDiagnostic

datatype RpmStatus = RpmObserved | RpmDisabled | RpmUnavailable

datatype QualityState = Direct | Derived | Unavailable | NotApplicable | Stale

datatype MetricWindow =
    W1m | W5m | W15m | W1h | W6h | W24h | W1d | W7d | W1w | W30d | W1mo | W90d | W1y

datatype RecordStatus = Open | Closed

text \<open>\<open>ALL_DEVICE_METRIC_KEYS\<close> of \<open>utils.ts\<close>, in its order.\<close>

definition ALL_DEVICE_METRIC_KEYS :: "DeviceMetricKey list" where
  "ALL_DEVICE_METRIC_KEYS =
     [CpuUsage, CpuFrequency, CpuTemperature, CpuTopology, SystemOverview, GpuUsage, GpuEncode, GpuDecode, GpuFrequency,
      GpuMemory, GpuTemperature, GpuDriverInfo, TemperatureSources, MemoryUsage, SwapUsage, MemoryAvailable, MemoryCached, MemoryCommitted,
      MemoryHardware, DiskUsage, DiskRead, DiskWrite, DiskMetadata, DiskActivity, DiskHealth, StoragePools, NetworkRxRate,
      NetworkTxRate, NetworkTraffic, NetworkIdentity, FanRpm, FanControl, FanTargetTemperature, FanPwm, FanChannelState, FanNote]"

lemma distinct_all_keys: "distinct ALL_DEVICE_METRIC_KEYS"
  by (simp add: ALL_DEVICE_METRIC_KEYS_def)

lemma all_keys_complete: "k \<in> set ALL_DEVICE_METRIC_KEYS"
  by (cases k) (simp_all add: ALL_DEVICE_METRIC_KEYS_def)

subsection \<open>What an agent uploads\<close>

record AgentIdentity =
  id_deviceId :: string
  id_hostname :: string
  id_os :: Os
  id_platform :: string
  id_arch :: string
  id_cpuModel :: "string option"
  id_version :: "string option"
  id_channel :: "ReleaseChannel option"

record SamplePoint =
  sp_timestamp :: string
  sp_value :: num

record StorageUsage =
  su_totalBytes :: num
  su_usedBytes :: num

record DiskSmartAttribute =
  sa_id :: num
  sa_name :: string
  sa_value :: num
  sa_threshold :: num

record DiskDeviceStats =
  dk_id :: string
  dk_name :: string
  dk_mountPoint :: string
  dk_filesystem :: "string option"
  dk_model :: "string option"
  dk_vendor :: "string option"
  dk_sourceKey :: "string option"
  dk_physicalDevice :: "string option"
  dk_temperatureC :: "num option"
  dk_healthStatus :: "string option"
  dk_healthReason :: "string option"
  dk_healthPercent :: "num option"
  dk_smartAttributes :: "(DiskSmartAttribute list) option"
  dk_activePercent :: "num option"
  dk_averageResponseMs :: "num option"
  dk_interfaceType :: "string option"
  dk_totalBytes :: num
  dk_usedBytes :: num

record StoragePoolStats =
  pl_id :: string
  pl_name :: string
  pl_kind :: StoragePoolKind
  pl_source :: "string option"
  pl_node :: "string option"
  pl_mountPoint :: "string option"
  pl_device :: "string option"
  pl_volumeGroup :: "string option"
  pl_thinPool :: "string option"
  pl_physicalDevices :: "(string list) option"
  pl_content :: "(string list) option"
  pl_active :: "bool option"
  pl_enabled :: "bool option"
  pl_shared :: "bool option"
  pl_totalBytes :: num
  pl_usedBytes :: num
  pl_availableBytes :: "num option"
  pl_dataPercent :: "num option"
  pl_metadataPercent :: "num option"
  pl_health :: "string option"

record MemoryStats =
  me_totalBytes :: num
  me_usedBytes :: num
  me_availableBytes :: num
  me_cachedBytes :: num
  me_committedBytes :: num
  me_commitLimitBytes :: num
  me_swapTotalBytes :: num
  me_swapUsedBytes :: num
  me_speedMHz :: "num option"
  me_slotCount :: "num option"
  me_formFactor :: "string option"
  me_compressedBytes :: "num option"
  me_pressureLevel :: "MemoryPressureLevel option"
  me_memoryType :: "string option"

record SystemStats =
  sy_processCount :: num
  sy_threadCount :: num
  sy_handleCount :: num
  sy_uptimeSeconds :: "num option"

record CpuClusterStats =
  cc_name :: string
  cc_coreCount :: num
  cc_logicalCount :: "num option"
  cc_l2CacheBytes :: "num option"
  cc_l3CacheBytes :: "num option"
  cc_frequencyMHz :: "num option"

record CpuPackageStats =
  cp_id :: string
  cp_name :: string
  cp_socketIndex :: "num option"
  cp_model :: "string option"
  cp_coreCount :: "num option"
  cp_logicalCount :: "num option"
  cp_l3CacheBytes :: "num option"
  cp_frequencyMHz :: "num option"
  cp_usagePercent :: "num option"
  cp_temperatureC :: "num option"
  cp_l2CacheBytes :: "num option"
  cp_clusters :: "(CpuClusterStats list) option"

record RateStats =
  rt_readBytesPerSec :: num
  rt_writeBytesPerSec :: num
  rt_activePercent :: "num option"

record DiskRateStats = RateStats +
  dr_instances :: "((string, RateStats) jsmap) option"

record NetworkTrafficStats =
  nt_rxBytesPerSec :: num
  nt_txBytesPerSec :: num
  nt_totalRxBytes :: num
  nt_totalTxBytes :: num

record NetworkInterfaceStats =
  ni_id :: string
  ni_name :: string
  ni_model :: "string option"
  ni_macAddress :: "string option"
  ni_ipv4 :: "(string list) option"
  ni_ipv6 :: "(string list) option"
  ni_rxBytesPerSec :: "num option"
  ni_txBytesPerSec :: "num option"
  ni_totalRxBytes :: "num option"
  ni_totalTxBytes :: "num option"
  ni_linkSpeedMbps :: "num option"
  ni_connectionType :: "string option"
  ni_signalStrengthPercent :: "num option"
  ni_rssiDbm :: "num option"
  ni_noiseDbm :: "num option"

record PowerStats =
  pw_observedAt :: string
  pw_source :: string
  pw_systemWatts :: "num option"
  pw_inputWatts :: "num option"
  pw_cpuWatts :: "num option"
  pw_gpuWatts :: "num option"
  pw_aneWatts :: "num option"
  pw_dramWatts :: "num option"
  pw_mediaWatts :: "num option"
  pw_adapterRatedWatts :: "num option"
  pw_externalPower :: "bool option"

record BatteryStats =
  bt_observedAt :: string
  bt_source :: string
  bt_chargePercent :: "num option"
  bt_healthPercent :: "num option"
  bt_cycleCount :: "num option"
  bt_designCapacityMAh :: "num option"
  bt_fullChargeCapacityMAh :: "num option"
  bt_temperatureC :: "num option"
  bt_voltageV :: "num option"
  bt_amperageMA :: "num option"
  bt_netPowerWatts :: "num option"
  bt_timeRemainingMinutes :: "num option"
  bt_charging :: "bool option"
  bt_externalPower :: "bool option"
  bt_fullyCharged :: "bool option"
  bt_condition :: "string option"

record ThermalStats =
  th_observedAt :: string
  th_source :: string
  th_pressureLevel :: ThermalPressureLevel

record GpuDeviceStats =
  gp_id :: string
  gp_name :: string
  gp_utilizationPercent :: num
  gp_encodeUtilizationPercent :: "num option"
  gp_decodeUtilizationPercent :: "num option"
  gp_frequencyMHz :: "num option"
  gp_integrated :: "bool option"
  gp_memoryKind :: "GpuMemoryKind option"
  gp_memoryUsedBytes :: num
  gp_memoryTotalBytes :: num
  gp_temperatureC :: "num option"
  gp_temperatureSource :: "string option"
  gp_driverVersion :: "string option"

record TemperatureSensorReading =
  ts_id :: string
  ts_source :: string
  ts_backend :: "string option"
  ts_hardware :: "string option"
  ts_hardwareType :: "string option"
  ts_instanceId :: "string option"
  ts_path :: "string option"
  ts_rawName :: string
  ts_displayName :: "string option"
  ts_role :: TemperatureSensorRole
  ts_currentC :: "num option"
  ts_observedAt :: "string option"
  ts_highC :: "num option"
  ts_criticalC :: "num option"
  ts_emergencyC :: "num option"
  ts_alarm :: "bool option"
  ts_status :: TemperatureSensorStatus
  ts_confidence :: TemperatureSensorConfidence
  ts_note :: "string option"

record FanSensorStats =
  fn_id :: string
  fn_label :: string
  fn_interface :: string
  fn_rpm :: num
  fn_rpmStatus :: "RpmStatus option"
  fn_controlMode :: "string option"
  fn_targetTemperatureC :: "num option"
  fn_minPwmPercent :: "num option"
  fn_maxPwmPercent :: "num option"
  fn_channelState :: "string option"
  fn_note :: "string option"

record SensorBackendStatus =
  sb_id :: string
  sb_label :: string
  sb_ok :: bool
  sb_detail :: "string option"

record MetricQuality =
  mq_state :: QualityState
  mq_source :: "string option"
  mq_reason :: "string option"
  mq_observedAt :: "string option"

record CollectorStatsReport =
  cs_slowRuns :: num
  cs_slowOverruns :: num
  cs_lastSlowMillis :: num

record AgentMetricsPayload =
  pa_sampleId :: "string option"
  pa_identity :: AgentIdentity
  pa_timestamp :: string
  pa_heartbeatAt :: string
  pa_hardwareSampledAt :: "string option"
  pa_cpuTemperatureSampledAt :: "string option"
  pa_unavailableMetrics :: "(DeviceMetricKey list) option"
  pa_metricQuality :: "((DeviceMetricKey, MetricQuality) jsmap) option"
  pa_system :: SystemStats
  pa_cpuUsagePercent :: num
  pa_cpuFrequencyMHz :: "num option"
  pa_cpuTemperatureC :: "num option"
  pa_cpuPackages :: "(CpuPackageStats list) option"
  pa_memory :: MemoryStats
  pa_diskUsage :: StorageUsage
  pa_disks :: "(DiskDeviceStats list) option"
  pa_storagePools :: "(StoragePoolStats list) option"
  pa_diskRate :: DiskRateStats
  pa_networkRate :: NetworkTrafficStats
  pa_networkInterfaces :: "(NetworkInterfaceStats list) option"
  pa_gpus :: "GpuDeviceStats list"
  pa_fans :: "FanSensorStats list"
  pa_temperatureSensors :: "(TemperatureSensorReading list) option"
  pa_sensorBackends :: "(SensorBackendStatus list) option"
  pa_probeSpawns :: "((string, num) jsmap) option"
  pa_collectorStats :: "CollectorStatsReport option"
  pa_power :: "PowerStats option"
  pa_battery :: "BatteryStats option"
  pa_thermal :: "ThermalStats option"

subsection \<open>What the hub keeps\<close>

record DeviceMetricConfigValue =
  cf_enabledMetrics :: "DeviceMetricKey list"
  cf_enabledDeviceIds :: "((DeviceBlockKey, string list) jsmap) option"
  cf_instanceMetricConfig :: "((string, DeviceMetricKey list) jsmap) option"

record DeviceRealtimeState =
  rs_identity :: AgentIdentity
  rs_status :: DeviceStatus
  rs_lastSeenAt :: string
  rs_latest :: AgentMetricsPayload

record InstanceMetricRecord =
  im_id :: string
  im_name :: string
  im_socketIndex :: "num option"
  im_interface :: "string option"
  im_macAddress :: "string option"
  im_ipv4 :: "(string list) option"
  im_ipv6 :: "(string list) option"
  im_coreCount :: "num option"
  im_logicalCount :: "num option"
  im_l3CacheBytes :: "num option"
  im_mountPoint :: "string option"
  im_filesystem :: "string option"
  im_model :: "string option"
  im_vendor :: "string option"
  im_physicalDevice :: "string option"
  im_interfaceType :: "string option"
  im_totalBytes :: "num option"
  im_usagePercent :: "num option"
  im_usedBytes :: "num option"
  im_readBytesPerSec :: "num option"
  im_writeBytesPerSec :: "num option"
  im_activePercent :: "num option"
  im_rxBytesPerSec :: "num option"
  im_txBytesPerSec :: "num option"
  im_trafficRxBytes :: "num option"
  im_trafficTxBytes :: "num option"
  im_encodePercent :: "num option"
  im_decodePercent :: "num option"
  im_frequencyMHz :: "num option"
  im_memoryUsagePercent :: "num option"
  im_memoryUsedBytes :: "num option"
  im_integrated :: "bool option"
  im_memoryKind :: "GpuMemoryKind option"
  im_temperatureC :: "num option"
  im_healthStatus :: "string option"
  im_healthReason :: "string option"
  im_healthPercent :: "num option"
  im_smartAttributes :: "(DiskSmartAttribute list) option"
  im_temperatureSource :: "string option"
  im_rpm :: "num option"

text \<open>An instance of which only the identity is known; the code builds its records by adding fields.\<close>

definition instance_base :: "string \<Rightarrow> string \<Rightarrow> InstanceMetricRecord" where
  "instance_base i n =
     \<lparr>im_id = i, im_name = n, im_socketIndex = None, im_interface = None, im_macAddress = None,
      im_ipv4 = None, im_ipv6 = None, im_coreCount = None, im_logicalCount = None, im_l3CacheBytes = None,
      im_mountPoint = None, im_filesystem = None, im_model = None, im_vendor = None,
      im_physicalDevice = None, im_interfaceType = None, im_totalBytes = None, im_usagePercent = None,
      im_usedBytes = None, im_readBytesPerSec = None, im_writeBytesPerSec = None, im_activePercent = None,
      im_rxBytesPerSec = None, im_txBytesPerSec = None, im_trafficRxBytes = None, im_trafficTxBytes = None,
      im_encodePercent = None, im_decodePercent = None, im_frequencyMHz = None,
      im_memoryUsagePercent = None, im_memoryUsedBytes = None, im_integrated = None,
      im_memoryKind = None, im_temperatureC = None, im_healthStatus = None, im_healthReason = None,
      im_healthPercent = None, im_smartAttributes = None, im_temperatureSource = None, im_rpm = None\<rparr>"

record AggregatedInstances =
  ai_cpus :: "InstanceMetricRecord list"
  ai_networks :: "InstanceMetricRecord list"
  ai_fans :: "InstanceMetricRecord list"

record RecordedDetails =
  rd_metricQuality :: "((DeviceMetricKey, MetricQuality) jsmap) option"
  rd_unavailableMetrics :: "(DeviceMetricKey list) option"
  rd_hardwareSampledAt :: "string option"
  rd_cpuTemperatureSampledAt :: "string option"
  rd_aggregatedInstances :: "AggregatedInstances option"
  rd_system :: SystemStats
  rd_memory :: MemoryStats
  rd_cpuPackages :: "CpuPackageStats list"
  rd_disks :: "DiskDeviceStats list"
  rd_storagePools :: "StoragePoolStats list"
  rd_networkInterfaces :: "NetworkInterfaceStats list"
  rd_gpus :: "GpuDeviceStats list"
  rd_fans :: "FanSensorStats list"
  rd_temperatureSensors :: "TemperatureSensorReading list"
  rd_diskRate :: DiskRateStats
  rd_networkRate :: NetworkTrafficStats
  rd_power :: "PowerStats option"
  rd_battery :: "BatteryStats option"
  rd_thermal :: "ThermalStats option"

record TimeSeriesRecord =
  tr_timestamp :: int
  tr_hardwareSampledAt :: "string option"
  tr_cpuTemperatureSampledAt :: "string option"
  tr_cpuUsagePercent :: num
  tr_cpuFrequencyMHz :: num
  tr_cpuTemperatureC :: num
  tr_gpuUsagePercent :: num
  tr_gpuEncodePercent :: num
  tr_gpuDecodePercent :: num
  tr_gpuFrequencyMHz :: num
  tr_gpuMemoryUsagePercent :: num
  tr_gpuTemperatureC :: num
  tr_memoryUsagePercent :: num
  tr_swapUsagePercent :: num
  tr_memoryUsedBytes :: num
  tr_swapUsedBytes :: num
  tr_diskUsagePercent :: num
  tr_diskUsedBytes :: num
  tr_diskReadBytesPerSec :: num
  tr_diskWriteBytesPerSec :: num
  tr_networkRxBytesPerSec :: num
  tr_networkTxBytesPerSec :: num
  tr_trafficRxBytes :: num
  tr_trafficTxBytes :: num
  tr_cpus :: "(InstanceMetricRecord list) option"
  tr_disks :: "(InstanceMetricRecord list) option"
  tr_networks :: "(InstanceMetricRecord list) option"
  tr_gpus :: "(InstanceMetricRecord list) option"
  tr_fans :: "(InstanceMetricRecord list) option"
  tr_recordedDetails :: "RecordedDetails option"
  tr_sampleCount :: "nat option"

record DeviceRecord =
  dv_deviceId :: string
  dv_name :: string
  dv_status :: RecordStatus
  dv_sortOrder :: int
  dv_group :: "string option"
  dv_registeredAt :: string
  dv_updatedAt :: string

record DeviceRegistrationOptions =
  ro_reopenClosed :: bool
  ro_skipUnchanged :: bool

record OverviewRecord =
  ov_timestamp :: int
  ov_cpuUsagePercent :: num
  ov_memoryUsedBytes :: num
  ov_diskUsedBytes :: num
  ov_networkRxBytesPerSec :: num
  ov_networkTxBytesPerSec :: num
  ov_metricQuality :: "((DeviceMetricKey, MetricQuality) jsmap) option"
  ov_unavailableMetrics :: "(DeviceMetricKey list) option"

record TrafficHistoryPoint =
  tp_timestamp :: int
  tp_trafficRxBytes :: num
  tp_trafficTxBytes :: num

record MetricAccumulator =
  ac_bucketStartedAt :: int
  ac_samples :: "TimeSeriesRecord list"

subsection \<open>What the hub publishes\<close>

record DeviceSummary =
  sm_deviceId :: string
  sm_hostname :: string
  sm_os :: Os
  sm_agentVersion :: "string option"
  sm_agentChannel :: "ReleaseChannel option"
  sm_status :: DeviceStatus
  sm_lastSeenAt :: "string option"
  sm_cpuUsagePercent :: "num option"
  sm_gpuUsagePercent :: "num option"
  sm_gpuMemoryUsagePercent :: "num option"
  sm_memoryUsagePercent :: "num option"
  sm_memoryUsedBytes :: "num option"
  sm_memoryTotalBytes :: "num option"
  sm_diskUsagePercent :: "num option"
  sm_diskUsedBytes :: "num option"
  sm_diskTotalBytes :: "num option"
  sm_sortOrder :: "int option"
  sm_group :: "string option"
  sm_unavailableMetrics :: "(DeviceMetricKey list) option"

record DeviceDetail = DeviceSummary +
  de_platform :: string
  de_arch :: string
  de_cpuModel :: "string option"

record DeviceMetricOption =
  mo_key :: DeviceMetricKey
  mo_available :: bool

record DeviceRealtimeEvent =
  ev_deviceId :: string
  ev_summary :: DeviceSummary
  ev_removed :: bool

end
