(* ===== verification/Utils.thy ===== *)
theory Utils
  imports Payload
begin

text \<open>
  \<open>apps/server/src/utils.ts\<close>, first half: configuration helpers, device summaries, the conversion
  of an uploaded payload into the record the hub stores, and the list of available metrics.

  \<open>payloadToTimeSeries\<close> is split along its own local constants (\<open>disks\<close>, \<open>cpus\<close>, \<open>networks\<close>,
  \<open>gpus\<close>, \<open>fans\<close>, the record); its result is \<open>None\<close> exactly when \<open>Date.parse\<close> of the payload's
  timestamp is \<open>NaN\<close>, which the request schema excludes.
  Dictionary reads are reads of own keys: instance ids that name a member of \<open>Object.prototype\<close>
  are outside the model.
\<close>

subsection \<open>Heartbeat timeout\<close>

definition DEFAULT_HEARTBEAT_TIMEOUT_MS :: int where
  "DEFAULT_HEARTBEAT_TIMEOUT_MS = 120000"

definition is_space :: "char \<Rightarrow> bool" where
  "is_space c \<longleftrightarrow> (of_char c :: nat) \<in> {9, 10, 11, 12, 13, 32}"

definition trim :: "string \<Rightarrow> string" where
  "trim s = rev (dropWhile is_space (rev (dropWhile is_space s)))"

text \<open>\<open>Number.parseInt(s, 10)\<close>: blanks, a sign, the longest digit prefix; \<open>None\<close> is \<open>NaN\<close>.\<close>

definition parseInt10 :: "string \<Rightarrow> int option" where
  "parseInt10 s =
     (let r = dropWhile is_space s;
          neg = (case r of c # _ \<Rightarrow> c = CHR ''-'' | [] \<Rightarrow> False);
          r' = (case r of c # t \<Rightarrow> if c = CHR ''-'' \<or> c = CHR ''+'' then t else r | [] \<Rightarrow> []);
          ds = fst (span_digits r')
      in if ds = [] then None
         else Some ((if neg then -1 else 1) * fold (\<lambda>d acc. 10 * acc + int d) ds 0))"

definition MAX_SAFE_INTEGER :: int where
  "MAX_SAFE_INTEGER = 9007199254740991"

definition resolveHeartbeatTimeoutMs :: "string option \<Rightarrow> int" where
  "resolveHeartbeatTimeoutMs raw =
     (if \<not> truthy raw then DEFAULT_HEARTBEAT_TIMEOUT_MS
      else case parseInt10 (the raw) of
             None \<Rightarrow> DEFAULT_HEARTBEAT_TIMEOUT_MS
           | Some parsed \<Rightarrow>
               if \<bar>parsed\<bar> > MAX_SAFE_INTEGER \<or> parsed < 15000 \<or> parsed > 86400000
               then DEFAULT_HEARTBEAT_TIMEOUT_MS else parsed)"

subsection \<open>Percentages and averages\<close>

definition percent :: "num \<Rightarrow> num \<Rightarrow> num" where
  "percent used tot = (if tot = 0 then 0 else toFixed2 (used / tot * 100))"

definition positiveFiniteValues :: "num option list \<Rightarrow> num list" where
  "positiveFiniteValues values = filter (\<lambda>v. v > 0) (somes values)"

definition averagePositive :: "num option list \<Rightarrow> num" where
  "averagePositive values =
     (let valid = positiveFiniteValues values in if valid \<noteq> [] then mean valid else 0)"

definition resolveCpuTemperatureC :: "AgentMetricsPayload \<Rightarrow> num option" where
  "resolveCpuTemperatureC payload =
     (case positiveFiniteValues [pa_cpuTemperatureC payload] of
        direct # _ \<Rightarrow> Some direct
      | [] \<Rightarrow>
          (let average = averagePositive (map cp_temperatureC (nullish (pa_cpuPackages payload) []))
           in if average > 0 then Some average else None))"

definition resolveCpuFrequencyMHz :: "AgentMetricsPayload \<Rightarrow> num option" where
  "resolveCpuFrequencyMHz payload =
     (case pa_cpuFrequencyMHz payload of
        Some f \<Rightarrow>
          if f > 0 then Some f
          else (let packageFrequencies =
                      positiveFiniteValues (map cp_frequencyMHz (nullish (pa_cpuPackages payload) []))
                in if packageFrequencies = [] then None else Some (toFixed2 (mean packageFrequencies)))
      | None \<Rightarrow>
          (let packageFrequencies =
                 positiveFiniteValues (map cp_frequencyMHz (nullish (pa_cpuPackages payload) []))
           in if packageFrequencies = [] then None else Some (toFixed2 (mean packageFrequencies))))"

subsection \<open>Summaries\<close>

text \<open>The one display alias: \<open>workstation\<close>, in UTF-8.\<close>

definition DEVICE_DISPLAY_NAMES :: "(string, string) jsmap" where
  "DEVICE_DISPLAY_NAMES =
     [(''workstation'', map char_of [229, 183, 165, 228, 189, 156, 231, 171, 153 :: nat])]"

definition toSummary :: "DeviceRealtimeState \<Rightarrow> DeviceSummary" where
  "toSummary state =
     (let latest = rs_latest state;
          identity = rs_identity state;
          displayName = nullish (map_get DEVICE_DISPLAY_NAMES (id_deviceId identity)) (id_hostname identity);
          gpus = pa_gpus latest;
          gpuUsagePercent = (if gpus \<noteq> [] then Some (toFixed2 (mean (map gp_utilizationPercent gpus))) else None);
          totalGpuMemoryBytes = sum_num (map gp_memoryTotalBytes gpus);
          usedGpuMemoryBytes = sum_num (map gp_memoryUsedBytes gpus)
      in \<lparr>sm_deviceId = id_deviceId identity,
          sm_hostname = displayName,
          sm_os = id_os identity,
          sm_agentVersion = id_version identity,
          sm_agentChannel = id_channel identity,
          sm_status = rs_status state,
          sm_lastSeenAt = Some (rs_lastSeenAt state),
          sm_cpuUsagePercent = Some (pa_cpuUsagePercent latest),
          sm_gpuUsagePercent = gpuUsagePercent,
          sm_gpuMemoryUsagePercent =
            (if totalGpuMemoryBytes \<noteq> 0 then Some (percent usedGpuMemoryBytes totalGpuMemoryBytes) else None),
          sm_memoryUsagePercent = Some (percent (me_usedBytes (pa_memory latest)) (me_totalBytes (pa_memory latest))),
          sm_memoryUsedBytes = Some (me_usedBytes (pa_memory latest)),
          sm_memoryTotalBytes = Some (me_totalBytes (pa_memory latest)),
          sm_diskUsagePercent = Some (percent (su_usedBytes (pa_diskUsage latest)) (su_totalBytes (pa_diskUsage latest))),
          sm_diskUsedBytes = Some (su_usedBytes (pa_diskUsage latest)),
          sm_diskTotalBytes = Some (su_totalBytes (pa_diskUsage latest)),
          sm_sortOrder = None,
          sm_group = None,
          sm_unavailableMetrics = Some (nullish (pa_unavailableMetrics latest) [])\<rparr>)"

definition toDetail :: "DeviceRealtimeState \<Rightarrow> DeviceDetail" where
  "toDetail state =
     DeviceSummary.extend (toSummary state)
       (DeviceDetail.fields (id_platform (rs_identity state)) (id_arch (rs_identity state))
          (id_cpuModel (rs_identity state)))"

subsection \<open>Enabled instances and metrics\<close>

definition isInstanceEnabled :: "DeviceMetricConfigValue \<Rightarrow> DeviceBlockKey \<Rightarrow> string \<Rightarrow> bool" where
  "isInstanceEnabled config blockKey instanceId =
     (case Option.bind (cf_enabledDeviceIds config) (\<lambda>m. map_get m blockKey) of
        None \<Rightarrow> True
      | Some enabledIds \<Rightarrow> instanceId \<in> set enabledIds)"

definition getInstanceEnabledMetrics :: "DeviceMetricConfigValue \<Rightarrow> string \<Rightarrow> DeviceMetricKey set" where
  "getInstanceEnabledMetrics config instanceId =
     set (nullish (Option.bind (cf_instanceMetricConfig config) (\<lambda>m. map_get m instanceId))
            ALL_DEVICE_METRIC_KEYS)"

definition filterAgentPayloadInstances :: "AgentMetricsPayload \<Rightarrow> DeviceMetricConfigValue \<Rightarrow> AgentMetricsPayload" where
  "filterAgentPayloadInstances payload config =
     payload
       \<lparr>pa_cpuPackages := Some (filter (\<lambda>cpu. isInstanceEnabled config Cpu (cp_id cpu)) (nullish (pa_cpuPackages payload) [])),
        pa_disks := Some (filter (\<lambda>disk. isInstanceEnabled config Disk (dk_id disk)) (nullish (pa_disks payload) [])),
        pa_networkInterfaces := Some (filter (\<lambda>network. isInstanceEnabled config Network (ni_id network))
          (nullish (pa_networkInterfaces payload) [])),
        pa_gpus := filter (\<lambda>gpu. isInstanceEnabled config Gpu (gp_id gpu)) (pa_gpus payload),
        pa_fans := filter (\<lambda>fan. isInstanceEnabled config Fan (fn_id fan)) (pa_fans payload)\<rparr>"

text \<open>\<open>enabled.has(k) && instanceEnabled.has(k)\<close>.\<close>

definition both_enabled :: "DeviceMetricConfigValue \<Rightarrow> string \<Rightarrow> DeviceMetricKey \<Rightarrow> bool" where
  "both_enabled config instanceId k \<longleftrightarrow>
     k \<in> set (cf_enabledMetrics config) \<and> k \<in> getInstanceEnabledMetrics config instanceId"

subsection \<open>From a payload to a stored record\<close>

definition disk_rate_instance :: "DiskRateStats \<Rightarrow> string \<Rightarrow> RateStats option" where
  "disk_rate_instance rate key = Option.bind (dr_instances rate) (\<lambda>m. map_get m key)"

definition payload_disk :: "AgentMetricsPayload \<Rightarrow> DeviceMetricConfigValue \<Rightarrow> DiskDeviceStats \<Rightarrow> InstanceMetricRecord" where
  "payload_disk payload config disk =
     (let on = both_enabled config (dk_id disk);
          rate = disk_rate_instance (pa_diskRate payload) (nullish (dk_sourceKey disk) (dk_id disk))
      in (instance_base (dk_id disk) (dk_name disk))
           \<lparr>im_mountPoint := Some (if on DiskMetadata then dk_mountPoint disk else []),
            im_filesystem := (if on DiskMetadata then dk_filesystem disk else None),
            im_model := (if on DiskMetadata then dk_model disk else None),
            im_vendor := (if on DiskMetadata then dk_vendor disk else None),
            im_physicalDevice := dk_physicalDevice disk,
            im_totalBytes := Some (if on DiskUsage then dk_totalBytes disk else 0),
            im_temperatureC := (if on DiskHealth then dk_temperatureC disk else None),
            im_healthStatus := (if on DiskHealth then dk_healthStatus disk else None),
            im_healthReason := (if on DiskHealth then dk_healthReason disk else None),
            im_healthPercent := (if on DiskHealth then dk_healthPercent disk else None),
            im_smartAttributes := (if on DiskHealth then dk_smartAttributes disk else None),
            im_interfaceType := (if on DiskMetadata then dk_interfaceType disk else None),
            im_usagePercent := Some (if on DiskUsage then percent (dk_usedBytes disk) (dk_totalBytes disk) else 0),
            im_activePercent := Some (if on DiskActivity then nullish (Option.bind rate rt_activePercent) 0 else 0),
            im_usedBytes := Some (if on DiskUsage then dk_usedBytes disk else 0),
            im_readBytesPerSec := Some (if on DiskRead then nullish (map_option rt_readBytesPerSec rate) 0 else 0),
            im_writeBytesPerSec := Some (if on DiskWrite then nullish (map_option rt_writeBytesPerSec rate) 0 else 0)\<rparr>)"

definition payload_cpu :: "AgentMetricsPayload \<Rightarrow> DeviceMetricConfigValue \<Rightarrow> CpuPackageStats \<Rightarrow> InstanceMetricRecord" where
  "payload_cpu payload config cpu =
     (let on = both_enabled config (cp_id cpu);
          single = (length (nullish (pa_cpuPackages payload) []) = 1)
      in (instance_base (cp_id cpu) (cp_name cpu))
           \<lparr>im_socketIndex := cp_socketIndex cpu,
            im_model := cp_model cpu,
            im_coreCount := (if on CpuTopology then cp_coreCount cpu else None),
            im_logicalCount := (if on CpuTopology then cp_logicalCount cpu else None),
            im_l3CacheBytes := (if on CpuTopology then cp_l3CacheBytes cpu else None),
            im_usagePercent := (if on CpuUsage
              then opt_or (cp_usagePercent cpu) (if single then Some (pa_cpuUsagePercent payload) else None) else None),
            im_frequencyMHz := (if on CpuFrequency
              then opt_or (cp_frequencyMHz cpu) (if single then resolveCpuFrequencyMHz payload else None) else None),
            im_temperatureC := (if on CpuTemperature
              then opt_or (cp_temperatureC cpu) (if single then resolveCpuTemperatureC payload else None) else None)\<rparr>)"

definition payload_network :: "DeviceMetricConfigValue \<Rightarrow> NetworkInterfaceStats \<Rightarrow> InstanceMetricRecord" where
  "payload_network config network =
     (let on = both_enabled config (ni_id network)
      in (instance_base (ni_id network) (ni_name network))
           \<lparr>im_model := ni_model network,
            im_macAddress := (if on NetworkIdentity then ni_macAddress network else None),
            im_ipv4 := (if on NetworkIdentity then ni_ipv4 network else None),
            im_ipv6 := (if on NetworkIdentity then ni_ipv6 network else None),
            im_rxBytesPerSec := Some (if on NetworkRxRate then nullish (ni_rxBytesPerSec network) 0 else 0),
            im_txBytesPerSec := Some (if on NetworkTxRate then nullish (ni_txBytesPerSec network) 0 else 0),
            im_trafficRxBytes := Some (if on NetworkTraffic then nullish (ni_totalRxBytes network) 0 else 0),
            im_trafficTxBytes := Some (if on NetworkTraffic then nullish (ni_totalTxBytes network) 0 else 0)\<rparr>)"

definition payload_gpu :: "DeviceMetricConfigValue \<Rightarrow> GpuDeviceStats \<Rightarrow> InstanceMetricRecord" where
  "payload_gpu config gpu =
     (let on = both_enabled config (gp_id gpu)
      in (instance_base (gp_id gpu) (gp_name gpu))
           \<lparr>im_usagePercent := Some (if on GpuUsage then gp_utilizationPercent gpu else 0),
            im_encodePercent := Some (if on GpuEncode then nullish (gp_encodeUtilizationPercent gpu) 0 else 0),
            im_decodePercent := Some (if on GpuDecode then nullish (gp_decodeUtilizationPercent gpu) 0 else 0),
            im_frequencyMHz := Some (if on GpuFrequency then nullish (gp_frequencyMHz gpu) 0 else 0),
            im_memoryUsagePercent := Some (if on GpuMemory then percent (gp_memoryUsedBytes gpu) (gp_memoryTotalBytes gpu) else 0),
            im_memoryUsedBytes := Some (if on GpuMemory then gp_memoryUsedBytes gpu else 0),
            im_integrated := gp_integrated gpu,
            im_memoryKind := gp_memoryKind gpu,
            im_temperatureC := (if on GpuTemperature then gp_temperatureC gpu else None),
            im_temperatureSource := (if on GpuTemperature then gp_temperatureSource gpu else None)\<rparr>)"

definition payload_fan :: "DeviceMetricConfigValue \<Rightarrow> FanSensorStats \<Rightarrow> InstanceMetricRecord" where
  "payload_fan config fan =
     (instance_base (fn_id fan) (fn_label fan))
       \<lparr>im_interface := Some (fn_interface fan),
        im_rpm := (if both_enabled config (fn_id fan) FanRpm
            \<and> fn_rpmStatus fan \<noteq> Some RpmDisabled \<and> fn_rpmStatus fan \<noteq> Some RpmUnavailable
          then Some (fn_rpm fan) else None)\<rparr>"

definition payload_details :: "AgentMetricsPayload \<Rightarrow> DeviceMetricConfigValue \<Rightarrow> RecordedDetails" where
  "payload_details payload config =
     \<lparr>rd_metricQuality = pa_metricQuality payload,
      rd_unavailableMetrics = pa_unavailableMetrics payload,
      rd_hardwareSampledAt = pa_hardwareSampledAt payload,
      rd_cpuTemperatureSampledAt = pa_cpuTemperatureSampledAt payload,
      rd_aggregatedInstances = None,
      rd_system = pa_system payload,
      rd_memory = pa_memory payload,
      rd_cpuPackages = nullish (pa_cpuPackages payload) [],
      rd_disks = nullish (pa_disks payload) [],
      rd_storagePools = (if StoragePools \<in> set (cf_enabledMetrics config) then nullish (pa_storagePools payload) [] else []),
      rd_networkInterfaces = nullish (pa_networkInterfaces payload) [],
      rd_gpus = pa_gpus payload,
      rd_fans = pa_fans payload,
      rd_temperatureSensors =
        (if TemperatureSources \<in> set (cf_enabledMetrics config) then nullish (pa_temperatureSensors payload) [] else []),
      rd_diskRate = pa_diskRate payload,
      rd_networkRate = pa_networkRate payload,
      rd_power = pa_power payload,
      rd_battery = pa_battery payload,
      rd_thermal = pa_thermal payload\<rparr>"

definition mean_or_zero :: "bool \<Rightarrow> num list \<Rightarrow> num" where
  "mean_or_zero on values = (if on \<and> values \<noteq> [] then mean values else 0)"

definition payload_record :: "int \<Rightarrow> AgentMetricsPayload \<Rightarrow> DeviceMetricConfigValue \<Rightarrow> TimeSeriesRecord" where
  "payload_record t0 payload config =
     (let has = (\<lambda>k. k \<in> set (cf_enabledMetrics config));
          gpus = pa_gpus payload;
          gpuUsagePercent = (if gpus \<noteq> [] then mean (map gp_utilizationPercent gpus) else 0);
          gpuFrequencyValues = somes (map gp_frequencyMHz gpus);
          gpuEncodeValues = somes (map gp_encodeUtilizationPercent gpus);
          gpuDecodeValues = somes (map gp_decodeUtilizationPercent gpus);
          gpuTemperatureValues = positiveFiniteValues (map gp_temperatureC gpus);
          memory = pa_memory payload
      in \<lparr>tr_timestamp = t0,
          tr_hardwareSampledAt = pa_hardwareSampledAt payload,
          tr_cpuTemperatureSampledAt = pa_cpuTemperatureSampledAt payload,
          tr_cpuUsagePercent = (if has CpuUsage then pa_cpuUsagePercent payload else 0),
          tr_cpuFrequencyMHz = (if has CpuFrequency then nullish (resolveCpuFrequencyMHz payload) 0 else 0),
          tr_cpuTemperatureC = (if has CpuTemperature then nullish (resolveCpuTemperatureC payload) 0 else 0),
          tr_gpuUsagePercent = (if has GpuUsage then gpuUsagePercent else 0),
          tr_gpuEncodePercent = mean_or_zero (has GpuEncode) gpuEncodeValues,
          tr_gpuDecodePercent = mean_or_zero (has GpuDecode) gpuDecodeValues,
          tr_gpuFrequencyMHz = mean_or_zero (has GpuFrequency) gpuFrequencyValues,
          tr_gpuMemoryUsagePercent = (if has GpuMemory
            then percent (sum_num (map gp_memoryUsedBytes gpus)) (sum_num (map gp_memoryTotalBytes gpus)) else 0),
          tr_gpuTemperatureC = mean_or_zero (has GpuTemperature) gpuTemperatureValues,
          tr_memoryUsagePercent = (if has MemoryUsage then percent (me_usedBytes memory) (me_totalBytes memory) else 0),
          tr_swapUsagePercent = (if has SwapUsage then percent (me_swapUsedBytes memory) (me_swapTotalBytes memory) else 0),
          tr_memoryUsedBytes = (if has MemoryUsage then me_usedBytes memory else 0),
          tr_swapUsedBytes = (if has SwapUsage then me_swapUsedBytes memory else 0),
          tr_diskUsagePercent = (if has DiskUsage
            then percent (su_usedBytes (pa_diskUsage payload)) (su_totalBytes (pa_diskUsage payload)) else 0),
          tr_diskUsedBytes = (if has DiskUsage then su_usedBytes (pa_diskUsage payload) else 0),
          tr_diskReadBytesPerSec = (if has DiskRead then rt_readBytesPerSec (pa_diskRate payload) else 0),
          tr_diskWriteBytesPerSec = (if has DiskWrite then rt_writeBytesPerSec (pa_diskRate payload) else 0),
          tr_networkRxBytesPerSec = (if has NetworkRxRate then nt_rxBytesPerSec (pa_networkRate payload) else 0),
          tr_networkTxBytesPerSec = (if has NetworkTxRate then nt_txBytesPerSec (pa_networkRate payload) else 0),
          tr_trafficRxBytes = (if has NetworkTraffic then nt_totalRxBytes (pa_networkRate payload) else 0),
          tr_trafficTxBytes = (if has NetworkTraffic then nt_totalTxBytes (pa_networkRate payload) else 0),
          tr_cpus = Some (map (payload_cpu payload config)
            (filter (\<lambda>cpu. isInstanceEnabled config Cpu (cp_id cpu)) (nullish (pa_cpuPackages payload) []))),
          tr_disks = Some (map (payload_disk payload config)
            (filter (\<lambda>disk. isInstanceEnabled config Disk (dk_id disk)) (nullish (pa_disks payload) []))),
          tr_networks = Some (map (payload_network config)
            (filter (\<lambda>network. isInstanceEnabled config Network (ni_id network)) (nullish (pa_networkInterfaces payload) []))),
          tr_gpus = Some (map (payload_gpu config) (filter (\<lambda>gpu. isInstanceEnabled config Gpu (gp_id gpu)) gpus)),
          tr_fans = Some (map (payload_fan config)
            (filter (\<lambda>fan. isInstanceEnabled config Fan (fn_id fan)) (pa_fans payload))),
          tr_recordedDetails = Some (payload_details payload config),
          tr_sampleCount = None\<rparr>)"

definition payloadToTimeSeries :: "AgentMetricsPayload \<Rightarrow> DeviceMetricConfigValue \<Rightarrow> TimeSeriesRecord option" where
  "payloadToTimeSeries payload config =
     map_option (\<lambda>t0. payload_record t0 payload config) (Date_parse (pa_timestamp payload))"

subsection \<open>Available metrics\<close>

definition some_nonempty :: "string option \<Rightarrow> bool" where
  "some_nonempty s = truthy (map_option trim s)"

definition availabilityEntries :: "AgentMetricsPayload \<Rightarrow> (DeviceMetricKey \<times> bool) list" where
  "availabilityEntries latest =
     (let gpus = pa_gpus latest;
          memory = pa_memory latest;
          cpus = nullish (pa_cpuPackages latest) [];
          disks = nullish (pa_disks latest) [];
          networks = nullish (pa_networkInterfaces latest) [];
          fans = pa_fans latest;
          hasGpu = (gpus \<noteq> []);
          hasNetworkInterfaces = (networks \<noteq> [])
      in [(CpuUsage, True),
          (CpuFrequency, nullish (pa_cpuFrequencyMHz latest) 0 > 0
             \<or> list_ex (\<lambda>cpu. nullish (cp_frequencyMHz cpu) 0 > 0) cpus),
          (CpuTemperature, resolveCpuTemperatureC latest \<noteq> None),
          (CpuTopology, list_ex (\<lambda>cpu. cp_coreCount cpu \<noteq> None \<or> cp_logicalCount cpu \<noteq> None) cpus),
          (SystemOverview, sy_processCount (pa_system latest) > 0 \<or> sy_threadCount (pa_system latest) > 0
             \<or> sy_handleCount (pa_system latest) > 0),
          (GpuUsage, hasGpu),
          (GpuEncode, list_ex (\<lambda>gpu. gp_encodeUtilizationPercent gpu \<noteq> None) gpus),
          (GpuDecode, list_ex (\<lambda>gpu. gp_decodeUtilizationPercent gpu \<noteq> None) gpus),
          (GpuFrequency, list_ex (\<lambda>gpu. gp_frequencyMHz gpu \<noteq> None) gpus),
          (GpuMemory, hasGpu),
          (GpuTemperature, list_ex (\<lambda>gpu. gp_temperatureC gpu \<noteq> None) gpus),
          (GpuDriverInfo, list_ex (\<lambda>gpu. gp_driverVersion gpu \<noteq> None) gpus),
          (TemperatureSources, nullish (pa_temperatureSensors latest) [] \<noteq> []),
          (MemoryUsage, me_totalBytes memory > 0),
          (SwapUsage, me_swapTotalBytes memory > 0 \<or> me_swapUsedBytes memory > 0),
          (MemoryAvailable, me_availableBytes memory > 0),
          (MemoryCached, me_cachedBytes memory > 0),
          (MemoryCommitted, me_committedBytes memory > 0),
          (MemoryHardware, me_speedMHz memory \<noteq> None \<or> me_slotCount memory \<noteq> None \<or> me_formFactor memory \<noteq> None),
          (DiskUsage, su_totalBytes (pa_diskUsage latest) > 0 \<or> disks \<noteq> []),
          (DiskRead, True),
          (DiskWrite, True),
          (DiskMetadata, list_ex (\<lambda>disk. dk_mountPoint disk \<noteq> [] \<or> truthy (dk_filesystem disk) \<or> truthy (dk_model disk)
             \<or> truthy (dk_vendor disk) \<or> truthy (dk_interfaceType disk)) disks),
          (DiskActivity, list_ex (\<lambda>disk. dk_activePercent disk \<noteq> None \<or> dk_averageResponseMs disk \<noteq> None) disks),
          (DiskHealth, list_ex (\<lambda>disk. dk_temperatureC disk \<noteq> None \<or> dk_healthStatus disk \<noteq> None
             \<or> dk_healthPercent disk \<noteq> None \<or> nullish (dk_smartAttributes disk) [] \<noteq> []) disks),
          (StoragePools, nullish (pa_storagePools latest) [] \<noteq> []),
          (NetworkRxRate, hasNetworkInterfaces),
          (NetworkTxRate, hasNetworkInterfaces),
          (NetworkTraffic, hasNetworkInterfaces),
          (NetworkIdentity, list_ex (\<lambda>network. truthy (ni_macAddress network) \<or> nullish (ni_ipv4 network) [] \<noteq> []
             \<or> nullish (ni_ipv6 network) [] \<noteq> [] \<or> ni_linkSpeedMbps network \<noteq> None
             \<or> truthy (ni_connectionType network)) networks),
          (FanRpm, list_ex (\<lambda>fan. fn_rpmStatus fan \<noteq> Some RpmUnavailable) fans),
          (FanControl, list_ex (\<lambda>fan. some_nonempty (fn_controlMode fan)) fans),
          (FanTargetTemperature, list_ex (\<lambda>fan. fn_targetTemperatureC fan \<noteq> None) fans),
          (FanPwm, list_ex (\<lambda>fan. fn_minPwmPercent fan \<noteq> None \<or> fn_maxPwmPercent fan \<noteq> None) fans),
          (FanChannelState, list_ex (\<lambda>fan. some_nonempty (fn_channelState fan)) fans),
          (FanNote, list_ex (\<lambda>fan. some_nonempty (fn_note fan)) fans)])"

definition quality_of :: "((DeviceMetricKey, MetricQuality) jsmap) option \<Rightarrow> DeviceMetricKey \<Rightarrow> QualityState option" where
  "quality_of quality key = map_option mq_state (Option.bind quality (\<lambda>m. map_get m key))"

definition metric_available :: "AgentMetricsPayload \<Rightarrow> DeviceMetricKey \<Rightarrow> bool \<Rightarrow> bool" where
  "metric_available latest key available =
     (let quality = quality_of (pa_metricQuality latest) key
      in if key \<in> set (nullish (pa_unavailableMetrics latest) []) \<or> quality = Some Unavailable
            \<or> quality = Some NotApplicable \<or> quality = Some Stale then False
         else if quality = Some Direct \<or> quality = Some Derived then True
         else available)"

definition getAvailableMetrics :: "DeviceRealtimeState \<Rightarrow> DeviceMetricOption list" where
  "getAvailableMetrics state =
     (let latest = rs_latest state;
          availability = fold (\<lambda>(key, available) m. map_set key (metric_available latest key available) m)
            (availabilityEntries latest) []
      in map (\<lambda>key. \<lparr>mo_key = key, mo_available = nullish (map_get availability key) False\<rparr>)
           ALL_DEVICE_METRIC_KEYS)"

subsection \<open>A concrete upload\<close>

text \<open>One small machine, used where a statement is evaluated on data.\<close>

definition demo_identity :: AgentIdentity where
  "demo_identity = \<lparr>id_deviceId = ''host-a'', id_hostname = ''alpha'', id_os = Linux, id_platform = ''linux'',
     id_arch = ''x64'', id_cpuModel = None, id_version = Some ''1.0.0'', id_channel = None\<rparr>"

definition demo_memory :: MemoryStats where
  "demo_memory = \<lparr>me_totalBytes = 8000, me_usedBytes = 2000, me_availableBytes = 6000, me_cachedBytes = 100,
     me_committedBytes = 0, me_commitLimitBytes = 0, me_swapTotalBytes = 0, me_swapUsedBytes = 0,
     me_speedMHz = None, me_slotCount = None, me_formFactor = None, me_compressedBytes = None,
     me_pressureLevel = None, me_memoryType = None\<rparr>"

definition demo_cpu :: CpuPackageStats where
  "demo_cpu = \<lparr>cp_id = ''cpu0'', cp_name = ''cpu'', cp_socketIndex = None, cp_model = None, cp_coreCount = None,
     cp_logicalCount = None, cp_l3CacheBytes = None, cp_frequencyMHz = None, cp_usagePercent = None,
     cp_temperatureC = None, cp_l2CacheBytes = None, cp_clusters = None\<rparr>"

definition demo_network :: "string \<Rightarrow> num \<Rightarrow> NetworkInterfaceStats" where
  "demo_network i rx = \<lparr>ni_id = i, ni_name = i, ni_model = None, ni_macAddress = None, ni_ipv4 = None, ni_ipv6 = None,
     ni_rxBytesPerSec = Some rx, ni_txBytesPerSec = Some 0, ni_totalRxBytes = Some 0, ni_totalTxBytes = Some 0,
     ni_linkSpeedMbps = None, ni_connectionType = None, ni_signalStrengthPercent = None,
     ni_rssiDbm = None, ni_noiseDbm = None\<rparr>"

definition demo_payload :: "int \<Rightarrow> AgentMetricsPayload" where
  "demo_payload t = \<lparr>pa_sampleId = None, pa_identity = demo_identity, pa_timestamp = toISOString t,
     pa_heartbeatAt = toISOString t, pa_hardwareSampledAt = None, pa_cpuTemperatureSampledAt = None,
     pa_unavailableMetrics = None, pa_metricQuality = None,
     pa_system = \<lparr>sy_processCount = 1, sy_threadCount = 1, sy_handleCount = 0, sy_uptimeSeconds = None\<rparr>,
     pa_cpuUsagePercent = 25, pa_cpuFrequencyMHz = None, pa_cpuTemperatureC = None,
     pa_cpuPackages = Some [demo_cpu], pa_memory = demo_memory,
     pa_diskUsage = \<lparr>su_totalBytes = 100, su_usedBytes = 50\<rparr>, pa_disks = None, pa_storagePools = None,
     pa_diskRate = \<lparr>rt_readBytesPerSec = 0, rt_writeBytesPerSec = 0, rt_activePercent = None, dr_instances = None\<rparr>,
     pa_networkRate = \<lparr>nt_rxBytesPerSec = 5, nt_txBytesPerSec = 0, nt_totalRxBytes = 0, nt_totalTxBytes = 0\<rparr>,
     pa_networkInterfaces = Some [demo_network ''eth0'' 5, demo_network ''eth1'' 0],
     pa_gpus = [], pa_fans = [], pa_temperatureSensors = None, pa_sensorBackends = None, pa_probeSpawns = None,
     pa_collectorStats = None, pa_power = None, pa_battery = None, pa_thermal = None\<rparr>"

definition default_config :: DeviceMetricConfigValue where
  "default_config = \<lparr>cf_enabledMetrics = ALL_DEVICE_METRIC_KEYS, cf_enabledDeviceIds = None,
     cf_instanceMetricConfig = None\<rparr>"

lemma Date_parse_demo:
  assumes "0 \<le> t" "t < 4102444800000"
  shows "Date_parse (toISOString t) = Some t"
proof (rule Date_parse_toISOString)
  define d where "d = Day t"
  have d: "0 \<le> d" "d < 47482"
    using assms by (simp_all add: d_def Day_def msPerDay_def div_less_iff_less_mult pos_imp_zdiv_nonneg_iff)
  have ends: "DayFromYear 1970 = 0" "DayFromYear 2100 = 47482"
    by (simp_all add: DayFromYear_def)
  have "\<not> YearFromDay d + 1 \<le> 1970" "\<not> 2100 \<le> YearFromDay d"
    using YearFromDay_bounds [of d] DayFromYear_mono [of "YearFromDay d + 1" 1970]
      DayFromYear_mono [of 2100 "YearFromDay d"] d ends by linarith+
  then show "0 \<le> getUTCFullYear t" "getUTCFullYear t \<le> 9999"
    by (simp_all add: getUTCFullYear_def d_def)
qed

lemma demo_payload_record:
  "0 \<le> t \<Longrightarrow> t < 4102444800000 \<Longrightarrow> payloadToTimeSeries (demo_payload t) c = Some (payload_record t (demo_payload t) c)"
  by (simp add: payloadToTimeSeries_def demo_payload_def Date_parse_demo)

subsection \<open>Facts\<close>

lemma fst_availabilityEntries: "map fst (availabilityEntries p) = ALL_DEVICE_METRIC_KEYS"
  by (simp add: availabilityEntries_def Let_def ALL_DEVICE_METRIC_KEYS_def)

text \<open>Building a \<open>Map\<close> from entries with distinct keys keeps the entries.\<close>

lemma fold_map_set:
  assumes "distinct (map fst m @ map fst es)"
  shows "fold (\<lambda>(k, v) m. map_set k (f k v) m) es m = m @ map (\<lambda>(k, v). (k, f k v)) es"
  using assms
proof (induction es arbitrary: m)
  case (Cons e es)
  obtain k v where e: "e = (k, v)" by (cases e)
  have "k \<notin> set (map fst m)"
    using Cons.prems by (auto simp: e)
  then have "map_set k (f k v) m = m @ [(k, f k v)]"
    by (induction m) auto
  with Cons.IH [of "m @ [(k, f k v)]"] Cons.prems show ?case
    by (simp add: e)
qed simp

lemma getAvailableMetrics_entries:
  "getAvailableMetrics s =
     map (\<lambda>(k, b). \<lparr>mo_key = k, mo_available = metric_available (rs_latest s) k b\<rparr>)
       (availabilityEntries (rs_latest s))"
proof -
  let ?es = "availabilityEntries (rs_latest s)"
  let ?m = "map (\<lambda>(k, v). (k, metric_available (rs_latest s) k v)) ?es"
  have d: "distinct (map fst ?es)"
    by (simp add: fst_availabilityEntries distinct_all_keys)
  then have f: "fold (\<lambda>(k, v) m. map_set k (metric_available (rs_latest s) k v) m) ?es [] = ?m"
    using fold_map_set [of "[]" ?es "metric_available (rs_latest s)"] by simp
  have fst_m: "map fst ?m = map fst ?es"
    by (simp add: case_prod_unfold)
  have "map (\<lambda>key. \<lparr>mo_key = key, mo_available = nullish (map_get ?m key) False\<rparr>) (map fst ?es)
      = map (\<lambda>(k, b). \<lparr>mo_key = k, mo_available = metric_available (rs_latest s) k b\<rparr>) ?es"
  proof (unfold map_map, rule map_cong [OF refl])
    fix e assume "e \<in> set ?es"
    then have "(fst e, metric_available (rs_latest s) (fst e) (snd e)) \<in> set ?m"
      by (force simp: case_prod_unfold)
    then have "map_get ?m (fst e) = Some (metric_available (rs_latest s) (fst e) (snd e))"
      using d by (intro map_of_is_SomeI) (simp_all only: fst_m)
    then show "((\<lambda>key. \<lparr>mo_key = key, mo_available = nullish (map_get ?m key) False\<rparr>) \<circ> fst) e
        = (case e of (k, b) \<Rightarrow> \<lparr>mo_key = k, mo_available = metric_available (rs_latest s) k b\<rparr>)"
      by (simp add: case_prod_unfold)
  qed
  then show ?thesis
    by (simp only: getAvailableMetrics_def Let_def f fst_availabilityEntries)
qed

lemma percent_nonneg: "0 \<le> used \<Longrightarrow> 0 \<le> tot \<Longrightarrow> 0 \<le> percent used tot"
  by (simp add: percent_def toFixed2_nonneg)

lemma percent_le_100: "used \<le> tot \<Longrightarrow> 0 \<le> tot \<Longrightarrow> percent used tot \<le> 100"
  using toFixed2_le [of "used / tot * 100" 100] by (cases "tot = 0") (simp_all add: percent_def divide_le_eq)

lemma averagePositive_nonneg: "0 \<le> averagePositive xs"
proof (cases "positiveFiniteValues xs = []")
  case False
  have "0 \<le> sum_list (positiveFiniteValues xs)"
    by (rule sum_list_nonneg) (auto simp: positiveFiniteValues_def)
  then show ?thesis
    by (simp add: averagePositive_def Let_def mean_def)
qed (simp add: averagePositive_def)

text \<open>
  \<open>percent(used, total)\<close> is the share within half of a hundredth, never negative, and at most
  100 when no more is used than there is.
\<close>

theorem percent_accuracy:
  assumes "0 \<le> used" "0 < tot"
  shows "\<bar>percent used tot - used / tot * 100\<bar> \<le> 1 / 200 \<and> 0 \<le> percent used tot \<and>
    (used \<le> tot \<longrightarrow> percent used tot \<le> 100)"
  using assms toFixed2_error [of "used / tot * 100"] percent_nonneg [of used tot] percent_le_100 [of used tot]
  by (auto simp: percent_def)

theorem percent_accuracy_witness:
  "\<bar>percent 1 3 - 1 / 3 * 100\<bar> \<le> 1 / 200 \<and> percent 1 3 \<le> 100"
  using percent_accuracy [of 1 3] by simp

text \<open>
  \<open>getAvailableMetrics\<close> answers for every metric key exactly once, in the order of
  \<open>ALL_DEVICE_METRIC_KEYS\<close>; each answer is the payload's own evidence, overridden by the reported
  quality; and no metric the agent lists as unavailable is offered.
\<close>

theorem available_metrics_total:
  "map mo_key (getAvailableMetrics s) = ALL_DEVICE_METRIC_KEYS \<and>
   getAvailableMetrics s =
     map (\<lambda>(k, b). \<lparr>mo_key = k, mo_available = metric_available (rs_latest s) k b\<rparr>)
       (availabilityEntries (rs_latest s)) \<and>
   {k. \<lparr>mo_key = k, mo_available = True\<rparr> \<in> set (getAvailableMetrics s)}
     \<inter> set (nullish (pa_unavailableMetrics (rs_latest s)) []) = {}"
proof (intro conjI)
  show "map mo_key (getAvailableMetrics s) = ALL_DEVICE_METRIC_KEYS"
    unfolding getAvailableMetrics_entries fst_availabilityEntries [of "rs_latest s", symmetric]
    by (simp add: case_prod_unfold)
  show "{k. \<lparr>mo_key = k, mo_available = True\<rparr> \<in> set (getAvailableMetrics s)}
     \<inter> set (nullish (pa_unavailableMetrics (rs_latest s)) []) = {}"
    by (auto simp: getAvailableMetrics_entries metric_available_def Let_def)
qed (rule getAvailableMetrics_entries)

text \<open>
  Whatever the environment says, the heartbeat timeout lies between 15 seconds and a day.
\<close>

theorem heartbeat_timeout_bounds:
  "15000 \<le> resolveHeartbeatTimeoutMs raw \<and> resolveHeartbeatTimeoutMs raw \<le> 86400000"
  by (auto simp: resolveHeartbeatTimeoutMs_def DEFAULT_HEARTBEAT_TIMEOUT_MS_def split: option.splits)

subsubsection \<open>Disabled instances\<close>

lemma filterAgentPayloadInstances_idem:
  "filterAgentPayloadInstances (filterAgentPayloadInstances p c) c = filterAgentPayloadInstances p c"
  by (simp add: filterAgentPayloadInstances_def)

lemma payload_instance_ids [simp]:
  "im_id (payload_cpu p c cpu) = cp_id cpu" "im_id (payload_disk p c disk) = dk_id disk"
  "im_id (payload_network c network) = ni_id network" "im_id (payload_gpu c gpu) = gp_id gpu"
  "im_id (payload_fan c fan) = fn_id fan"
  by (simp_all add: payload_cpu_def payload_disk_def payload_network_def payload_gpu_def payload_fan_def
      instance_base_def Let_def)

text \<open>The ids of an instance column of a stored record.\<close>

definition instance_ids :: "InstanceMetricRecord list option \<Rightarrow> string list" where
  "instance_ids xs = map im_id (nullish xs [])"

lemma payload_record_ids:
  "instance_ids (tr_cpus (payload_record t0 p c)) = filter (isInstanceEnabled c Cpu) (map cp_id (nullish (pa_cpuPackages p) []))"
  "instance_ids (tr_disks (payload_record t0 p c)) = filter (isInstanceEnabled c Disk) (map dk_id (nullish (pa_disks p) []))"
  "instance_ids (tr_networks (payload_record t0 p c)) = filter (isInstanceEnabled c Network) (map ni_id (nullish (pa_networkInterfaces p) []))"
  "instance_ids (tr_gpus (payload_record t0 p c)) = filter (isInstanceEnabled c Gpu) (map gp_id (pa_gpus p))"
  "instance_ids (tr_fans (payload_record t0 p c)) = filter (isInstanceEnabled c Fan) (map fn_id (pa_fans p))"
  by (simp_all add: instance_ids_def payload_record_def Let_def filter_map comp_def)

text \<open>
  The record stored for an upload lists, per block, exactly the uploaded instances the device
  configuration enables, in upload order; and it lists the same disks, network interfaces, GPUs
  and fans, with the same readings, when disabled instances were filtered out of the upload first.
\<close>

theorem record_lists_enabled_instances:
  assumes "payloadToTimeSeries p c = Some r"
  shows "instance_ids (tr_cpus r) = filter (isInstanceEnabled c Cpu) (map cp_id (nullish (pa_cpuPackages p) [])) \<and>
    instance_ids (tr_disks r) = filter (isInstanceEnabled c Disk) (map dk_id (nullish (pa_disks p) [])) \<and>
    instance_ids (tr_networks r) = filter (isInstanceEnabled c Network) (map ni_id (nullish (pa_networkInterfaces p) [])) \<and>
    instance_ids (tr_gpus r) = filter (isInstanceEnabled c Gpu) (map gp_id (pa_gpus p)) \<and>
    instance_ids (tr_fans r) = filter (isInstanceEnabled c Fan) (map fn_id (pa_fans p)) \<and>
    (\<exists>q. payloadToTimeSeries (filterAgentPayloadInstances p c) c = Some q \<and>
      tr_timestamp q = tr_timestamp r \<and> instance_ids (tr_cpus q) = instance_ids (tr_cpus r) \<and>
      tr_disks q = tr_disks r \<and> tr_networks q = tr_networks r \<and> tr_gpus q = tr_gpus r \<and> tr_fans q = tr_fans r)"
proof -
  from assms obtain t0 where t0: "Date_parse (pa_timestamp p) = Some t0" and r: "r = payload_record t0 p c"
    by (auto simp: payloadToTimeSeries_def)
  let ?f = "filterAgentPayloadInstances p c"
  have q: "payloadToTimeSeries ?f c = Some (payload_record t0 ?f c)"
    using t0 by (simp add: payloadToTimeSeries_def filterAgentPayloadInstances_def)
  have "payload_disk ?f c = payload_disk p c"
    by (rule ext) (simp add: payload_disk_def filterAgentPayloadInstances_def)
  then have "tr_disks (payload_record t0 ?f c) = tr_disks r" "tr_networks (payload_record t0 ?f c) = tr_networks r"
    "tr_gpus (payload_record t0 ?f c) = tr_gpus r" "tr_fans (payload_record t0 ?f c) = tr_fans r"
    "tr_timestamp (payload_record t0 ?f c) = tr_timestamp r"
    by (simp_all add: r payload_record_def filterAgentPayloadInstances_def Let_def)
  moreover have "instance_ids (tr_cpus (payload_record t0 ?f c)) = instance_ids (tr_cpus r)"
    unfolding r payload_record_ids by (simp add: filterAgentPayloadInstances_def filter_map comp_def)
  ultimately show ?thesis
    using q by (simp add: r payload_record_ids)
qed

theorem record_lists_enabled_instances_witness:
  "\<exists>r. payloadToTimeSeries (demo_payload 60000) (default_config\<lparr>cf_enabledDeviceIds := Some [(Network, [''eth1''])]\<rparr>) = Some r \<and>
     instance_ids (tr_networks r) = [''eth1''] \<and> instance_ids (tr_cpus r) = [''cpu0'']"
  using record_lists_enabled_instances [OF demo_payload_record
      [of 60000 "default_config\<lparr>cf_enabledDeviceIds := Some [(Network, [''eth1''])]\<rparr>"]]
  by (simp add: demo_payload_record)
    (simp add: demo_payload_def isInstanceEnabled_def demo_network_def demo_cpu_def default_config_def)

end
