(* ===== verification/Aggregate.thy ===== *)
theory Aggregate
  imports Utils
begin

text \<open>
  The bucket aggregate of \<open>apps/server/src/services/metrics.ts\<close> (\<open>averageRecord\<close> and its helpers)
  and the memo of it in \<open>aggregate-snapshots.ts\<close>.

  \<open>averageRecord\<close> is called on the samples of an accumulator, which is never empty; on an empty
  array the code divides by zero and the model, whose numbers are finite, says nothing of it.
  A group of \<open>averageInstanceMetrics\<close> is the object the code keeps per instance id, field by field.
\<close>

subsection \<open>Quality of a bucket\<close>

definition missing_state :: "QualityState \<Rightarrow> bool" where
  "missing_state q \<longleftrightarrow> q = Unavailable \<or> q = NotApplicable \<or> q = Stale"

definition aggregate_reason :: string where
  "aggregate_reason = ''aggregate contains missing or expired observations''"

definition detail_quality :: "TimeSeriesRecord \<Rightarrow> (DeviceMetricKey, MetricQuality) jsmap" where
  "detail_quality sample = nullish (Option.bind (tr_recordedDetails sample) rd_metricQuality) []"

definition detail_unavailable :: "TimeSeriesRecord \<Rightarrow> DeviceMetricKey list" where
  "detail_unavailable sample = nullish (Option.bind (tr_recordedDetails sample) rd_unavailableMetrics) []"

type_synonym bucket_quality = "(DeviceMetricKey, MetricQuality) jsmap \<times> DeviceMetricKey list"

definition quality_entry :: "DeviceMetricKey \<times> MetricQuality \<Rightarrow> bucket_quality \<Rightarrow> bucket_quality" where
  "quality_entry = (\<lambda>(key, quality) (metricQuality, unavailableMetrics).
     if missing_state (mq_state quality)
     then (map_set key (quality\<lparr>mq_reason := Some aggregate_reason\<rparr>) metricQuality, set_add key unavailableMetrics)
     else (metricQuality, unavailableMetrics))"

definition quality_sample :: "TimeSeriesRecord \<Rightarrow> bucket_quality \<Rightarrow> bucket_quality" where
  "quality_sample sample q =
     (let q' = fold quality_entry (detail_quality sample) q
      in (fst q', fold set_add (detail_unavailable sample) (snd q')))"

definition mergeQuality :: "TimeSeriesRecord list \<Rightarrow> bucket_quality" where
  "mergeQuality samples =
     fold quality_sample samples (detail_quality (last samples), js_uniq (detail_unavailable (last samples)))"

subsection \<open>Temperatures observed once\<close>

text \<open>\<open>String(n)\<close> of an integer.\<close>

fun nat_digits :: "nat \<Rightarrow> string" where
  "nat_digits n = (if n < 10 then [digit n] else nat_digits (n div 10) @ [digit (n mod 10)])"

declare nat_digits.simps [simp del]

definition String_int :: "int \<Rightarrow> string" where
  "String_int i = (if i < 0 then ''-'' @ nat_digits (nat (- i)) else nat_digits (nat i))"

definition observed_temperatures ::
    "(TimeSeriesRecord \<Rightarrow> num) \<Rightarrow> (TimeSeriesRecord \<Rightarrow> string option) \<Rightarrow> TimeSeriesRecord list \<Rightarrow> (string, num) jsmap" where
  "observed_temperatures valueKey observedAtKey samples =
     fold (\<lambda>sample values.
         if valueKey sample > 0
         then map_set (nullish (observedAtKey sample) (String_int (tr_timestamp sample))) (valueKey sample) values
         else values) samples []"

definition averageObservedTemperature ::
    "TimeSeriesRecord list \<Rightarrow> (TimeSeriesRecord \<Rightarrow> num) \<Rightarrow> (TimeSeriesRecord \<Rightarrow> string option) \<Rightarrow> num" where
  "averageObservedTemperature samples valueKey observedAtKey =
     (let values = observed_temperatures valueKey observedAtKey samples
      in if values \<noteq> [] then mean (map_values values) else 0)"

text \<open>
  The two maps of \<open>mergeTemperatureSensorDetails\<close>: the last description of a sensor, and its valid
  readings by observation time.
\<close>

definition sensor_items :: "TimeSeriesRecord list \<Rightarrow> (TimeSeriesRecord \<times> TemperatureSensorReading) list" where
  "sensor_items samples =
     concat (map (\<lambda>sample. map (Pair sample) (nullish (map_option rd_temperatureSensors (tr_recordedDetails sample)) []))
       samples)"

definition sensor_valid :: "TemperatureSensorReading \<Rightarrow> bool" where
  "sensor_valid sensor \<longleftrightarrow> ts_status sensor = SensorValid \<and> ts_currentC sensor \<noteq> None"

definition reading_key :: "TimeSeriesRecord \<Rightarrow> TemperatureSensorReading \<Rightarrow> string" where
  "reading_key sample sensor =
     nullish (opt_or (ts_observedAt sensor) (tr_hardwareSampledAt sample)) (String_int (tr_timestamp sample))"

definition sensor_last :: "TemperatureSensorReading option \<Rightarrow> TimeSeriesRecord \<times> TemperatureSensorReading \<Rightarrow> TemperatureSensorReading" where
  "sensor_last previous item = snd item"

definition sensor_readings :: "(string, num) jsmap option \<Rightarrow> TimeSeriesRecord \<times> TemperatureSensorReading \<Rightarrow> (string, num) jsmap" where
  "sensor_readings previous item =
     map_set (reading_key (fst item) (snd item)) (the (ts_currentC (snd item))) (nullish previous [])"

definition mergeTemperatureSensorDetails :: "TimeSeriesRecord list \<Rightarrow> TemperatureSensorReading list" where
  "mergeTemperatureSensorDetails samples =
     (let items = sensor_items samples;
          sensors = fold (group_step (\<lambda>item. ts_id (snd item)) sensor_last) items [];
          values = fold (group_step (\<lambda>item. ts_id (snd item)) sensor_readings)
            (filter (\<lambda>item. sensor_valid (snd item)) items) []
      in map (\<lambda>sensor. case map_get values (ts_id sensor) of
              Some readings \<Rightarrow> if ts_status sensor = SensorValid
                then sensor\<lparr>ts_currentC := Some (mean (map_values readings))\<rparr> else sensor
            | None \<Rightarrow> sensor) (map_values sensors))"

subsection \<open>Instances\<close>

datatype InstanceKey = Cpus | Disks | Networks | Gpus | Fans

fun column :: "InstanceKey \<Rightarrow> TimeSeriesRecord \<Rightarrow> InstanceMetricRecord list option" where
  "column Cpus = tr_cpus" | "column Disks = tr_disks" | "column Networks = tr_networks"
| "column Gpus = tr_gpus" | "column Fans = tr_fans"

record InstanceSums =
  is_usagePercent :: num
  is_totalBytes :: num
  is_usedBytes :: num
  is_readBytesPerSec :: num
  is_writeBytesPerSec :: num
  is_activePercent :: num
  is_rxBytesPerSec :: num
  is_txBytesPerSec :: num
  is_trafficRxBytes :: num
  is_trafficTxBytes :: num
  is_encodePercent :: num
  is_decodePercent :: num
  is_frequencyMHz :: num
  is_memoryUsagePercent :: num
  is_memoryUsedBytes :: num
  is_rpm :: num

record InstanceGroup =
  ig_count :: nat
  ig_usageCount :: nat
  ig_frequencyCount :: nat
  ig_meta :: InstanceMetricRecord
  ig_sums :: InstanceSums
  ig_temperatureSum :: num
  ig_temperatureCount :: nat
  ig_rpmCount :: nat
  ig_temperatureObservedAt :: "string list"
  ig_rpmObservedAt :: "string list"

definition zero_sums :: InstanceSums where
  "zero_sums = \<lparr>is_usagePercent = 0, is_totalBytes = 0, is_usedBytes = 0, is_readBytesPerSec = 0,
     is_writeBytesPerSec = 0, is_activePercent = 0, is_rxBytesPerSec = 0, is_txBytesPerSec = 0,
     is_trafficRxBytes = 0, is_trafficTxBytes = 0, is_encodePercent = 0, is_decodePercent = 0,
     is_frequencyMHz = 0, is_memoryUsagePercent = 0, is_memoryUsedBytes = 0, is_rpm = 0\<rparr>"

definition fresh_group :: "InstanceMetricRecord \<Rightarrow> InstanceGroup" where
  "fresh_group item =
     \<lparr>ig_count = 0, ig_usageCount = 0, ig_frequencyCount = 0,
      ig_meta = (instance_base (im_id item) (im_name item))
        \<lparr>im_socketIndex := im_socketIndex item, im_integrated := im_integrated item,
         im_memoryKind := im_memoryKind item, im_macAddress := im_macAddress item, im_ipv4 := im_ipv4 item,
         im_ipv6 := im_ipv6 item, im_coreCount := im_coreCount item, im_logicalCount := im_logicalCount item,
         im_l3CacheBytes := im_l3CacheBytes item, im_mountPoint := im_mountPoint item,
         im_filesystem := im_filesystem item, im_model := im_model item, im_vendor := im_vendor item,
         im_physicalDevice := im_physicalDevice item, im_totalBytes := im_totalBytes item\<rparr>,
      ig_sums = zero_sums, ig_temperatureSum = 0, ig_temperatureCount = 0, ig_rpmCount = 0,
      ig_temperatureObservedAt = [], ig_rpmObservedAt = []\<rparr>"

definition merge_meta :: "InstanceMetricRecord \<Rightarrow> InstanceMetricRecord \<Rightarrow> InstanceMetricRecord" where
  "merge_meta meta item =
     (let meta = (if im_integrated item = Some True then meta\<lparr>im_integrated := Some True\<rparr> else meta);
          meta = (if (im_memoryKind meta = None \<or> im_memoryKind meta = Some UnknownMemory) \<and> im_memoryKind item \<noteq> None
            then meta\<lparr>im_memoryKind := im_memoryKind item\<rparr> else meta);
          meta = (if \<not> truthy (im_physicalDevice meta) \<and> truthy (im_physicalDevice item)
            then meta\<lparr>im_physicalDevice := im_physicalDevice item\<rparr> else meta)
      in if im_temperatureSource item = Some ''cpuPackageShared''
            \<or> (\<not> truthy (im_temperatureSource meta) \<and> truthy (im_temperatureSource item))
         then meta\<lparr>im_temperatureSource := im_temperatureSource item\<rparr> else meta)"

text \<open>The sums of \<open>current\<close>, one item later; temperature and speed count once per observation time.\<close>

definition add_sums :: "InstanceSums \<Rightarrow> InstanceMetricRecord \<Rightarrow> bool \<Rightarrow> InstanceSums" where
  "add_sums s item takeRpm =
     \<lparr>is_usagePercent = is_usagePercent s + nullish (im_usagePercent item) 0,
      is_totalBytes = is_totalBytes s + nullish (im_totalBytes item) 0,
      is_usedBytes = is_usedBytes s + nullish (im_usedBytes item) 0,
      is_readBytesPerSec = is_readBytesPerSec s + nullish (im_readBytesPerSec item) 0,
      is_writeBytesPerSec = is_writeBytesPerSec s + nullish (im_writeBytesPerSec item) 0,
      is_activePercent = is_activePercent s + nullish (im_activePercent item) 0,
      is_rxBytesPerSec = is_rxBytesPerSec s + nullish (im_rxBytesPerSec item) 0,
      is_txBytesPerSec = is_txBytesPerSec s + nullish (im_txBytesPerSec item) 0,
      is_trafficRxBytes = nullish (im_trafficRxBytes item) (is_trafficRxBytes s),
      is_trafficTxBytes = nullish (im_trafficTxBytes item) (is_trafficTxBytes s),
      is_encodePercent = is_encodePercent s + nullish (im_encodePercent item) 0,
      is_decodePercent = is_decodePercent s + nullish (im_decodePercent item) 0,
      is_frequencyMHz = (if nullish (im_frequencyMHz item) 0 > 0
        then is_frequencyMHz s + nullish (im_frequencyMHz item) 0 else is_frequencyMHz s),
      is_memoryUsagePercent = is_memoryUsagePercent s + nullish (im_memoryUsagePercent item) 0,
      is_memoryUsedBytes = is_memoryUsedBytes s + nullish (im_memoryUsedBytes item) 0,
      is_rpm = (if takeRpm then is_rpm s + nullish (im_rpm item) 0 else is_rpm s)\<rparr>"

definition first_observation :: "string option \<Rightarrow> string list \<Rightarrow> bool" where
  "first_observation observedAt seen \<longleftrightarrow> (\<not> truthy observedAt \<or> the observedAt \<notin> set seen)"

definition note_observation :: "string option \<Rightarrow> string list \<Rightarrow> string list" where
  "note_observation observedAt seen = (if truthy observedAt then set_add (the observedAt) seen else seen)"

definition add_item :: "InstanceKey \<Rightarrow> InstanceGroup option \<Rightarrow> TimeSeriesRecord \<times> InstanceMetricRecord \<Rightarrow> InstanceGroup" where
  "add_item key previous = (\<lambda>(sample, item).
     (let g = nullish previous (fresh_group item);
          temperatureAt = (if key = Cpus then tr_cpuTemperatureSampledAt sample else tr_hardwareSampledAt sample);
          takeTemperature = (nullish (im_temperatureC item) 0 > 0 \<and> first_observation temperatureAt (ig_temperatureObservedAt g));
          takeRpm = (im_rpm item \<noteq> None \<and> first_observation (tr_hardwareSampledAt sample) (ig_rpmObservedAt g))
      in \<lparr>ig_count = Suc (ig_count g),
          ig_usageCount = (if im_usagePercent item \<noteq> None then Suc (ig_usageCount g) else ig_usageCount g),
          ig_frequencyCount = (if nullish (im_frequencyMHz item) 0 > 0 then Suc (ig_frequencyCount g) else ig_frequencyCount g),
          ig_meta = merge_meta (ig_meta g) item,
          ig_sums = add_sums (ig_sums g) item takeRpm,
          ig_temperatureSum = (if takeTemperature then ig_temperatureSum g + nullish (im_temperatureC item) 0 else ig_temperatureSum g),
          ig_temperatureCount = (if takeTemperature then Suc (ig_temperatureCount g) else ig_temperatureCount g),
          ig_rpmCount = (if takeRpm then Suc (ig_rpmCount g) else ig_rpmCount g),
          ig_temperatureObservedAt = (if takeTemperature then note_observation temperatureAt (ig_temperatureObservedAt g)
            else ig_temperatureObservedAt g),
          ig_rpmObservedAt = (if takeRpm then note_observation (tr_hardwareSampledAt sample) (ig_rpmObservedAt g)
            else ig_rpmObservedAt g)\<rparr>))"

definition ratio_opt :: "nat \<Rightarrow> num \<Rightarrow> num option" where
  "ratio_opt n s = (if n > 0 then Some (s / of_nat n) else None)"

definition finish_group :: "nat \<Rightarrow> InstanceGroup \<Rightarrow> InstanceMetricRecord" where
  "finish_group sampleCount g =
     (let s = ig_sums g; n = of_nat (ig_count g); m = of_nat sampleCount
      in (ig_meta g)
           \<lparr>im_usagePercent := ratio_opt (ig_usageCount g) (is_usagePercent s),
            im_totalBytes := Some (is_totalBytes s / n),
            im_usedBytes := Some (is_usedBytes s / n),
            im_readBytesPerSec := Some (is_readBytesPerSec s / n),
            im_writeBytesPerSec := Some (is_writeBytesPerSec s / n),
            im_activePercent := Some (is_activePercent s / m),
            im_rxBytesPerSec := Some (is_rxBytesPerSec s / m),
            im_txBytesPerSec := Some (is_txBytesPerSec s / m),
            im_trafficRxBytes := Some (is_trafficRxBytes s),
            im_trafficTxBytes := Some (is_trafficTxBytes s),
            im_encodePercent := Some (is_encodePercent s / n),
            im_decodePercent := Some (is_decodePercent s / n),
            im_frequencyMHz := ratio_opt (ig_frequencyCount g) (is_frequencyMHz s),
            im_memoryUsagePercent := Some (is_memoryUsagePercent s / n),
            im_memoryUsedBytes := Some (is_memoryUsedBytes s / n),
            im_temperatureC := ratio_opt (ig_temperatureCount g) (ig_temperatureSum g),
            im_rpm := ratio_opt (ig_rpmCount g) (is_rpm s)\<rparr>)"

definition instance_items :: "InstanceKey \<Rightarrow> TimeSeriesRecord list \<Rightarrow> (TimeSeriesRecord \<times> InstanceMetricRecord) list" where
  "instance_items key samples =
     concat (map (\<lambda>sample. map (Pair sample) (nullish (column key sample) [])) samples)"

abbreviation item_id :: "TimeSeriesRecord \<times> InstanceMetricRecord \<Rightarrow> string" where
  "item_id item \<equiv> im_id (snd item)"

definition averageInstanceMetrics :: "TimeSeriesRecord list \<Rightarrow> InstanceKey \<Rightarrow> InstanceMetricRecord list" where
  "averageInstanceMetrics samples key =
     map (finish_group (length samples))
       (map_values (fold (group_step item_id (add_item key)) (instance_items key samples) []))"

subsection \<open>The record of a bucket\<close>

definition aggregate_details :: "TimeSeriesRecord list \<Rightarrow> RecordedDetails option" where
  "aggregate_details samples =
     map_option (\<lambda>details.
       (let (metricQuality, unavailableMetrics) = mergeQuality samples
        in details
          \<lparr>rd_metricQuality := (if metricQuality \<noteq> [] then Some metricQuality else None),
           rd_unavailableMetrics := (if unavailableMetrics \<noteq> [] then Some unavailableMetrics else None),
           rd_aggregatedInstances := Some
             \<lparr>ai_cpus = averageInstanceMetrics samples Cpus, ai_networks = averageInstanceMetrics samples Networks,
              ai_fans = averageInstanceMetrics samples Fans\<rparr>,
           rd_temperatureSensors := mergeTemperatureSensorDetails samples\<rparr>))
       (tr_recordedDetails (last samples))"

definition averageRecord :: "TimeSeriesRecord list \<Rightarrow> int \<Rightarrow> TimeSeriesRecord" where
  "averageRecord samples timestamp =
     (let lastSample = last samples;
          avg = (\<lambda>f. sum_num (map f samples) / of_nat (length samples))
      in \<lparr>tr_timestamp = timestamp,
          tr_hardwareSampledAt = tr_hardwareSampledAt lastSample,
          tr_cpuTemperatureSampledAt = tr_cpuTemperatureSampledAt lastSample,
          tr_cpuUsagePercent = avg tr_cpuUsagePercent,
          tr_cpuFrequencyMHz = avg tr_cpuFrequencyMHz,
          tr_cpuTemperatureC = averageObservedTemperature samples tr_cpuTemperatureC tr_cpuTemperatureSampledAt,
          tr_gpuUsagePercent = avg tr_gpuUsagePercent,
          tr_gpuEncodePercent = avg tr_gpuEncodePercent,
          tr_gpuDecodePercent = avg tr_gpuDecodePercent,
          tr_gpuFrequencyMHz = avg tr_gpuFrequencyMHz,
          tr_gpuMemoryUsagePercent = avg tr_gpuMemoryUsagePercent,
          tr_gpuTemperatureC = averageObservedTemperature samples tr_gpuTemperatureC tr_hardwareSampledAt,
          tr_memoryUsagePercent = avg tr_memoryUsagePercent,
          tr_swapUsagePercent = avg tr_swapUsagePercent,
          tr_memoryUsedBytes = avg tr_memoryUsedBytes,
          tr_swapUsedBytes = avg tr_swapUsedBytes,
          tr_diskUsagePercent = avg tr_diskUsagePercent,
          tr_diskUsedBytes = avg tr_diskUsedBytes,
          tr_diskReadBytesPerSec = avg tr_diskReadBytesPerSec,
          tr_diskWriteBytesPerSec = avg tr_diskWriteBytesPerSec,
          tr_networkRxBytesPerSec = avg tr_networkRxBytesPerSec,
          tr_networkTxBytesPerSec = avg tr_networkTxBytesPerSec,
          tr_trafficRxBytes = tr_trafficRxBytes lastSample,
          tr_trafficTxBytes = tr_trafficTxBytes lastSample,
          tr_cpus = Some (averageInstanceMetrics samples Cpus),
          tr_disks = Some (averageInstanceMetrics samples Disks),
          tr_networks = Some (averageInstanceMetrics samples Networks),
          tr_gpus = Some (averageInstanceMetrics samples Gpus),
          tr_fans = Some (averageInstanceMetrics samples Fans),
          tr_recordedDetails = aggregate_details samples,
          tr_sampleCount = Some (length samples)\<rparr>)"

subsection \<open>The memo of the aggregate\<close>

text \<open>
  \<open>AggregateSnapshots\<close> keys its \<open>WeakMap\<close> by the identity of an accumulator object: a reference, with
  the object's present contents read from the owner's store.  \<open>structuredClone\<close> of plain data is the data.
\<close>

type_synonym ref = nat
type_synonym snapshots = "(ref, TimeSeriesRecord) jsmap"

definition snapshots_invalidate :: "ref \<Rightarrow> snapshots \<Rightarrow> snapshots" where
  "snapshots_invalidate accumulator snaps = map_delete accumulator snaps"

definition snapshots_read ::
    "(TimeSeriesRecord list \<Rightarrow> int \<Rightarrow> TimeSeriesRecord) \<Rightarrow> ref \<Rightarrow> MetricAccumulator \<Rightarrow> snapshots \<Rightarrow> TimeSeriesRecord \<times> snapshots" where
  "snapshots_read average accumulator contents snaps =
     (case map_get snaps accumulator of
        Some snapshot \<Rightarrow> (snapshot, snaps)
      | None \<Rightarrow>
          (let snapshot = average (ac_samples contents) (ac_bucketStartedAt contents)
           in (snapshot, map_set accumulator snapshot snaps)))"

text \<open>The discipline asked of the owner: a memoised record is the average of the object as it is now.\<close>

definition snapshots_ok :: "(TimeSeriesRecord list \<Rightarrow> int \<Rightarrow> TimeSeriesRecord) \<Rightarrow> (ref, MetricAccumulator) jsmap \<Rightarrow> snapshots \<Rightarrow> bool" where
  "snapshots_ok average heap snaps \<longleftrightarrow>
     (\<forall>r \<in> set (map_keys snaps). case map_get heap r of
        None \<Rightarrow> False
      | Some acc \<Rightarrow> map_get snaps r = Some (average (ac_samples acc) (ac_bucketStartedAt acc)))"

lemma snapshots_okD:
  assumes "snapshots_ok average heap snaps" "map_get snaps r = Some snap"
  shows "\<exists>acc. map_get heap r = Some acc \<and> snap = average (ac_samples acc) (ac_bucketStartedAt acc)"
proof -
  have "r \<in> set (map_keys snaps)"
    using assms(2) by (metis map_get_None_iff option.distinct(1))
  with assms show ?thesis
    unfolding snapshots_ok_def by (force split: option.splits)
qed

lemma snapshots_okI:
  assumes "\<And>r snap. map_get snaps r = Some snap \<Longrightarrow>
    \<exists>acc. map_get heap r = Some acc \<and> snap = average (ac_samples acc) (ac_bucketStartedAt acc)"
  shows "snapshots_ok average heap snaps"
  unfolding snapshots_ok_def
proof
  fix r assume "r \<in> set (map_keys snaps)"
  then obtain snap where "map_get snaps r = Some snap"
    by (metis map_get_None_iff not_Some_eq)
  with assms [OF this] show "case map_get heap r of None \<Rightarrow> False
      | Some acc \<Rightarrow> map_get snaps r = Some (average (ac_samples acc) (ac_bucketStartedAt acc))"
    by auto
qed

lemma snapshots_read_value:
  assumes "snapshots_ok average heap snaps" "map_get heap r = Some acc"
  shows "fst (snapshots_read average r acc snaps) = average (ac_samples acc) (ac_bucketStartedAt acc)"
  using assms by (auto simp: snapshots_read_def Let_def split: option.splits dest!: snapshots_okD)

lemma snapshots_read_ok:
  assumes "snapshots_ok average heap snaps" "map_get heap r = Some acc"
  shows "snapshots_ok average heap (snd (snapshots_read average r acc snaps))"
proof (rule snapshots_okI)
  fix k snap
  assume "map_get (snd (snapshots_read average r acc snaps)) k = Some snap"
  then consider "map_get snaps k = Some snap" | "k = r" "snap = average (ac_samples acc) (ac_bucketStartedAt acc)"
    by (auto simp: snapshots_read_def Let_def split: option.splits if_splits)
  then show "\<exists>acc. map_get heap k = Some acc \<and> snap = average (ac_samples acc) (ac_bucketStartedAt acc)"
    by cases (use assms snapshots_okD in blast)+
qed

lemma snapshots_invalidate_ok:
  assumes "snapshots_ok average heap snaps"
  shows "snapshots_ok average (map_set r acc heap) (snapshots_invalidate r snaps)"
proof (rule snapshots_okI)
  fix k snap
  assume "map_get (snapshots_invalidate r snaps) k = Some snap"
  then have "map_get snaps k = Some snap" "k \<noteq> r"
    by (auto simp: snapshots_invalidate_def split: if_splits)
  with snapshots_okD [OF assms this(1)]
  show "\<exists>a. map_get (map_set r acc heap) k = Some a \<and> snap = average (ac_samples a) (ac_bucketStartedAt a)"
    by simp
qed

text \<open>A newly allocated object has no memo yet.\<close>

lemma snapshots_alloc_ok:
  assumes "snapshots_ok average heap snaps" "map_get heap r = None"
  shows "snapshots_ok average (map_set r acc heap) snaps"
proof (rule snapshots_okI)
  fix k snap
  assume k: "map_get snaps k = Some snap"
  from snapshots_okD [OF assms(1) k] assms(2)
  show "\<exists>a. map_get (map_set r acc heap) k = Some a \<and> snap = average (ac_samples a) (ac_bucketStartedAt a)"
    by auto
qed

subsection \<open>Facts about the aggregate\<close>

lemma set_quality_entries:
  "set (snd (fold quality_entry es q)) = set (snd q) \<union> {k. \<exists>v. (k, v) \<in> set es \<and> missing_state (mq_state v)}"
proof (induction es arbitrary: q)
  case (Cons e es)
  obtain k v where e: "e = (k, v)" by (cases e)
  have "set (snd (quality_entry e q)) = set (snd q) \<union> (if missing_state (mq_state v) then {k} else {})"
    by (auto simp: quality_entry_def e split: prod.splits)
  with Cons.IH [of "quality_entry e q"] show ?case
    by (auto simp: e)
qed simp

lemma set_quality_samples:
  "set (snd (fold quality_sample ss q)) = set (snd q) \<union>
     (\<Union>s \<in> set ss. set (detail_unavailable s) \<union> {k. \<exists>v. (k, v) \<in> set (detail_quality s) \<and> missing_state (mq_state v)})"
  by (induction ss arbitrary: q) (auto simp: quality_sample_def Let_def set_quality_entries)

lemma mergeQuality_unavailable:
  assumes "samples \<noteq> []"
  shows "set (snd (mergeQuality samples)) =
     (\<Union>s \<in> set samples. set (detail_unavailable s) \<union> {k. \<exists>v. (k, v) \<in> set (detail_quality s) \<and> missing_state (mq_state v)})"
proof -
  have "set (detail_unavailable (last samples)) \<subseteq> (\<Union>s \<in> set samples. set (detail_unavailable s))"
    using assms by (intro UN_upper) simp
  then show ?thesis
    by (auto simp: mergeQuality_def set_quality_samples)
qed

text \<open>The fields \<open>averageRecord\<close> averages over the samples.\<close>

definition averaged_fields :: "(TimeSeriesRecord \<Rightarrow> num) list" where
  "averaged_fields = [tr_cpuUsagePercent, tr_cpuFrequencyMHz, tr_gpuUsagePercent, tr_gpuEncodePercent,
     tr_gpuDecodePercent, tr_gpuFrequencyMHz, tr_gpuMemoryUsagePercent, tr_memoryUsagePercent,
     tr_swapUsagePercent, tr_memoryUsedBytes, tr_swapUsedBytes, tr_diskUsagePercent, tr_diskUsedBytes,
     tr_diskReadBytesPerSec, tr_diskWriteBytesPerSec, tr_networkRxBytesPerSec, tr_networkTxBytesPerSec]"

lemma averaged_field: "f \<in> set averaged_fields \<Longrightarrow> f (averageRecord samples t) = mean (map f samples)"
  by (auto simp: averaged_fields_def averageRecord_def Let_def mean_def)

lemma map_values_set_subset: "set (map_values (map_set k v m)) \<subseteq> insert v (set (map_values m))"
  by (induction m) auto

lemma observed_temperatures_invariant:
  assumes "\<forall>s \<in> set ss. 0 < f s \<longrightarrow> P (f s)"
  shows "\<forall>v \<in> set (map_values (observed_temperatures f g ss)). P v"
proof -
  have "\<forall>v \<in> set (map_values m). P v \<Longrightarrow>
      \<forall>v \<in> set (map_values (fold (\<lambda>s m. if f s > 0 then map_set (k s) (f s) m else m) ss m)). P v"
    for k :: "TimeSeriesRecord \<Rightarrow> string" and m
    using assms
  proof (induction ss arbitrary: m)
    case (Cons s ss)
    let ?m = "if f s > 0 then map_set (k s) (f s) m else m"
    have "\<forall>v \<in> set (map_values ?m). P v"
      using Cons.prems map_values_set_subset [of "k s" "f s" m] by (cases "f s > 0") (simp_all only: if_True if_False, force+)
    from Cons.IH [OF this] Cons.prems(2) show ?case
      by (simp only: fold_simps list.set_intros(2) simp_thms comp_def) simp
  qed simp
  from this [of "[]" "\<lambda>s. nullish (g s) (String_int (tr_timestamp s))"] show ?thesis
    unfolding observed_temperatures_def by simp
qed

lemma averageObservedTemperature_bounds:
  assumes "\<forall>s \<in> set ss. f s \<le> hi" "0 \<le> hi"
  shows "0 \<le> averageObservedTemperature ss f g \<and> averageObservedTemperature ss f g \<le> hi"
proof (cases "observed_temperatures f g ss = []")
  case False
  have "\<forall>v \<in> set (map_values (observed_temperatures f g ss)). 0 \<le> v \<and> v \<le> hi"
    using assms(1) by (intro observed_temperatures_invariant) simp
  with False mean_bounds [of "map_values (observed_temperatures f g ss)" 0 hi] show ?thesis
    by (simp add: averageObservedTemperature_def)
qed (use assms in \<open>simp add: averageObservedTemperature_def\<close>)

lemma merge_meta_id [simp]: "im_id (merge_meta meta item) = im_id meta"
  by (simp add: merge_meta_def Let_def)

lemma fresh_group_facts [simp]:
  "im_id (ig_meta (fresh_group item)) = im_id item" "ig_sums (fresh_group item) = zero_sums"
  "ig_count (fresh_group item) = 0"
  by (simp_all add: fresh_group_def instance_base_def)

interpretation instances: grouping item_id "add_item key" "\<lambda>g. im_id (ig_meta g)" for key
proof
  fix v :: "InstanceGroup option" and x :: "TimeSeriesRecord \<times> InstanceMetricRecord"
  assume "\<And>w. v = Some w \<Longrightarrow> im_id (ig_meta w) = item_id x"
  then show "im_id (ig_meta (add_item key v x)) = item_id x"
    by (cases v) (auto simp: add_item_def Let_def split: prod.splits)
qed

interpretation sensors: grouping "\<lambda>item. ts_id (snd item)" sensor_last ts_id
  by unfold_locales (simp add: sensor_last_def)

lemma finish_group_id [simp]: "im_id (finish_group n g) = im_id (ig_meta g)"
  by (simp add: finish_group_def Let_def)

lemma averageInstanceMetrics_ids:
  "map im_id (averageInstanceMetrics samples key) = js_uniq (map item_id (instance_items key samples))"
proof -
  have "map im_id (averageInstanceMetrics samples key)
      = map (\<lambda>g. im_id (ig_meta g)) (map_values (fold (group_step item_id (add_item key)) (instance_items key samples) []))"
    by (simp add: averageInstanceMetrics_def)
  also have "\<dots> = js_uniq (map item_id (instance_items key samples))"
    by (rule instances.group_idents)
  finally show ?thesis .
qed

text \<open>A quantity summed over all groups grows by what each item brings.\<close>

lemma sum_values_set:
  "sum_list (map h (map_values (map_set k v m)))
     = sum_list (map h (map_values m)) + (h v - (case map_get m k of None \<Rightarrow> 0 | Some w \<Rightarrow> h w))"
  for h :: "'v \<Rightarrow> num"
  by (induction m) auto

lemma sum_groups:
  fixes h :: "'v \<Rightarrow> num"
  assumes "\<And>v x. h (upd v x) = (case v of None \<Rightarrow> 0 | Some w \<Rightarrow> h w) + d x"
  shows "sum_list (map h (map_values (fold (group_step key upd) xs m)))
      = sum_list (map h (map_values m)) + sum_list (map d xs)"
proof (induction xs arbitrary: m)
  case (Cons x xs)
  have "sum_list (map h (map_values (group_step key upd x m))) = sum_list (map h (map_values m)) + d x"
    unfolding group_step_def sum_values_set assms by simp
  then show ?case
    using Cons.IH [of "group_step key upd x m"] by simp
qed simp

lemma sum_instance_items:
  "sum_list (map (\<lambda>x. f (snd x)) (instance_items key samples))
     = sum_list (map (\<lambda>s. sum_list (map f (nullish (column key s) []))) samples)"
  for f :: "InstanceMetricRecord \<Rightarrow> num"
  by (induction samples) (simp_all add: instance_items_def comp_def)

lemma sum_list_divide: "sum_list (map (\<lambda>x. h x / c) xs) = sum_list (map h xs) / (c :: num)"
  by (induction xs) (simp_all add: add_divide_distrib)

lemma rx_conserved:
  "sum_list (map (\<lambda>i. nullish (im_rxBytesPerSec i) 0) (averageInstanceMetrics samples key))
     = sum_list (map (\<lambda>s. sum_list (map (\<lambda>i. nullish (im_rxBytesPerSec i) 0) (nullish (column key s) []))) samples)
       / of_nat (length samples)"
proof -
  let ?gs = "map_values (fold (group_step item_id (add_item key)) (instance_items key samples) [])"
  have "sum_list (map (\<lambda>g. is_rxBytesPerSec (ig_sums g)) ?gs)
      = sum_list (map (\<lambda>x. nullish (im_rxBytesPerSec (snd x)) 0) (instance_items key samples))"
    by (subst sum_groups [where d = "\<lambda>x. nullish (im_rxBytesPerSec (snd x)) 0"])
      (auto simp: add_item_def Let_def add_sums_def zero_sums_def split: option.splits)
  then show ?thesis
    using sum_instance_items [of "\<lambda>i. nullish (im_rxBytesPerSec i) 0" key samples]
    by (simp add: averageInstanceMetrics_def finish_group_def Let_def comp_def sum_list_divide)
qed

text \<open>
  A bucket aggregate carries the bucket's timestamp, the number of its samples and the last
  traffic counters; every averaged field lies between the least and the greatest sample and is their
  mean; temperatures are never negative and never above the hottest sample.
\<close>

theorem averageRecord_bounds:
  assumes "samples \<noteq> []"
  shows "tr_timestamp (averageRecord samples t) = t \<and>
    tr_sampleCount (averageRecord samples t) = Some (length samples) \<and>
    tr_trafficRxBytes (averageRecord samples t) = tr_trafficRxBytes (last samples) \<and>
    tr_trafficTxBytes (averageRecord samples t) = tr_trafficTxBytes (last samples) \<and>
    (\<forall>f \<in> set averaged_fields. f (averageRecord samples t) * of_nat (length samples) = sum_list (map f samples) \<and>
      (\<forall>lo hi. (\<forall>s \<in> set samples. lo \<le> f s \<and> f s \<le> hi) \<longrightarrow>
        lo \<le> f (averageRecord samples t) \<and> f (averageRecord samples t) \<le> hi)) \<and>
    (\<forall>hi \<ge> 0. (\<forall>s \<in> set samples. tr_cpuTemperatureC s \<le> hi \<and> tr_gpuTemperatureC s \<le> hi) \<longrightarrow>
      0 \<le> tr_cpuTemperatureC (averageRecord samples t) \<and> tr_cpuTemperatureC (averageRecord samples t) \<le> hi \<and>
      0 \<le> tr_gpuTemperatureC (averageRecord samples t) \<and> tr_gpuTemperatureC (averageRecord samples t) \<le> hi)"
proof (intro conjI ballI allI impI)
  fix f lo hi assume f: "f \<in> set averaged_fields" "\<forall>s \<in> set samples. lo \<le> f s \<and> f s \<le> hi"
  with assms mean_bounds [of "map f samples" lo hi]
  show "lo \<le> f (averageRecord samples t)" "f (averageRecord samples t) \<le> hi"
    by (simp_all add: averaged_field)
next
  fix f assume "f \<in> set averaged_fields"
  with assms show "f (averageRecord samples t) * of_nat (length samples) = sum_list (map f samples)"
    by (simp add: averaged_field mean_def)
next
  fix hi :: num assume "0 \<le> hi" "\<forall>s \<in> set samples. tr_cpuTemperatureC s \<le> hi \<and> tr_gpuTemperatureC s \<le> hi"
  then show "0 \<le> tr_cpuTemperatureC (averageRecord samples t)" "tr_cpuTemperatureC (averageRecord samples t) \<le> hi"
    "0 \<le> tr_gpuTemperatureC (averageRecord samples t)" "tr_gpuTemperatureC (averageRecord samples t) \<le> hi"
    using averageObservedTemperature_bounds [of samples tr_cpuTemperatureC hi tr_cpuTemperatureSampledAt]
      averageObservedTemperature_bounds [of samples tr_gpuTemperatureC hi tr_hardwareSampledAt]
    by (simp_all add: averageRecord_def Let_def)
qed (simp_all add: averageRecord_def Let_def)

definition demo_samples :: "TimeSeriesRecord list" where
  "demo_samples = [payload_record 60000 (demo_payload 60000) default_config,
     payload_record 62000 ((demo_payload 62000)\<lparr>pa_cpuUsagePercent := 75\<rparr>) default_config]"

theorem averageRecord_bounds_witness:
  "demo_samples \<noteq> [] \<and> tr_cpuUsagePercent (averageRecord demo_samples 60000) = 50 \<and>
   tr_sampleCount (averageRecord demo_samples 60000) = Some 2"
proof -
  have ne: "demo_samples \<noteq> []" and f: "tr_cpuUsagePercent \<in> set averaged_fields"
    by (simp_all add: demo_samples_def averaged_fields_def)
  have "tr_cpuUsagePercent (averageRecord demo_samples 60000) * of_nat (length demo_samples)
      = sum_list (map tr_cpuUsagePercent demo_samples)"
    using averageRecord_bounds [OF ne, of 60000] f by blast
  moreover have "map tr_cpuUsagePercent demo_samples = [25, 75]"
    by (simp add: demo_samples_def payload_record_def default_config_def demo_payload_def
        ALL_DEVICE_METRIC_KEYS_def Let_def)
  moreover have "length demo_samples = 2"
    by (simp add: demo_samples_def)
  ultimately show ?thesis
    using averageRecord_bounds [OF ne, of 60000] ne by simp
qed

text \<open>
  Averaging instances yields one record per instance id, in the order the ids first appear; and the
  receive rates of the averaged instances add up to the mean total receive rate of the samples, so no
  interface is credited with traffic of another and an absent interface counts as idle.
\<close>

theorem averageInstanceMetrics_conserves:
  "map im_id (averageInstanceMetrics samples key) = js_uniq (map item_id (instance_items key samples)) \<and>
   sum_list (map (\<lambda>i. nullish (im_rxBytesPerSec i) 0) (averageInstanceMetrics samples key))
     = sum_list (map (\<lambda>s. sum_list (map (\<lambda>i. nullish (im_rxBytesPerSec i) 0) (nullish (column key s) []))) samples)
       / of_nat (length samples)"
  using averageInstanceMetrics_ids rx_conserved by blast

text \<open>
  A metric key that any sample of a bucket reports as unavailable, not applicable or stale is
  listed as unavailable by the bucket's aggregate, and no other key is.
\<close>

theorem aggregate_unavailable_exact:
  assumes "samples \<noteq> []" "tr_recordedDetails (last samples) \<noteq> None"
  shows "set (detail_unavailable (averageRecord samples t)) =
    (\<Union>s \<in> set samples. set (detail_unavailable s) \<union>
       {k. \<exists>v. (k, v) \<in> set (detail_quality s) \<and> missing_state (mq_state v)})"
proof -
  have "set (detail_unavailable (averageRecord samples t)) = set (snd (mergeQuality samples))"
    using assms(2) by (auto simp: detail_unavailable_def averageRecord_def aggregate_details_def Let_def split: prod.splits if_splits)
  with mergeQuality_unavailable [OF assms(1)] show ?thesis by simp
qed

theorem aggregate_unavailable_exact_witness:
  "CpuTemperature \<in> set (detail_unavailable (averageRecord
     [payload_record 60000 ((demo_payload 60000)\<lparr>pa_unavailableMetrics := Some [CpuTemperature]\<rparr>) default_config,
      payload_record 62000 (demo_payload 62000) default_config] 60000))"
  by (subst aggregate_unavailable_exact)
    (simp_all add: detail_unavailable_def payload_record_def Let_def payload_details_def demo_payload_def)

text \<open>The samples of a bucket in which every hardware reading is delivered any number of times.\<close>

definition redelivered :: "(TimeSeriesRecord \<Rightarrow> int list) \<Rightarrow> TimeSeriesRecord list \<Rightarrow> TimeSeriesRecord list" where
  "redelivered again ss = concat (map (\<lambda>s. s # map (\<lambda>t. s\<lparr>tr_timestamp := t\<rparr>) (again s)) ss)"

lemma observed_redelivered:
  assumes "\<And>s t. f (s\<lparr>tr_timestamp := t\<rparr>) = f s" "\<And>s t. g (s\<lparr>tr_timestamp := t\<rparr>) = g s"
    and "\<forall>s \<in> set ss. g s \<noteq> None"
  shows "observed_temperatures f g (redelivered again ss) = observed_temperatures f g ss"
proof -
  define step where "step = (\<lambda>s m. if f s > 0 then map_set (nullish (g s) (String_int (tr_timestamp s))) (f s) m else m)"
  have idem: "fold step (map (\<lambda>t. s\<lparr>tr_timestamp := t\<rparr>) ts) (step s m) = step s m" if "g s \<noteq> None" for s ts m
    using that by (induction ts) (auto simp: step_def assms(1,2))
  have "fold step (redelivered again ss) m = fold step ss m" for m
    using assms(3) by (induction ss arbitrary: m) (auto simp: redelivered_def idem)
  then show ?thesis
    by (simp add: observed_temperatures_def step_def)
qed

text \<open>
  A temperature read once and delivered in several samples of a bucket counts once: the averaged CPU
  and GPU temperatures do not change when readings are delivered again under the same observation time.
\<close>

theorem temperatures_count_once:
  assumes "\<forall>s \<in> set ss. tr_cpuTemperatureSampledAt s \<noteq> None \<and> tr_hardwareSampledAt s \<noteq> None"
  shows "tr_cpuTemperatureC (averageRecord (redelivered again ss) t) = tr_cpuTemperatureC (averageRecord ss t) \<and>
    tr_gpuTemperatureC (averageRecord (redelivered again ss) t) = tr_gpuTemperatureC (averageRecord ss t)"
  using assms observed_redelivered [of tr_cpuTemperatureC tr_cpuTemperatureSampledAt ss again]
    observed_redelivered [of tr_gpuTemperatureC tr_hardwareSampledAt ss again]
  by (simp add: averageRecord_def averageObservedTemperature_def Let_def)

theorem temperatures_count_once_witness:
  "let s = (payload_record 60000 (demo_payload 60000) default_config)
      \<lparr>tr_cpuTemperatureC := 40, tr_cpuTemperatureSampledAt := Some ''a'', tr_hardwareSampledAt := Some ''a''\<rparr>;
       s' = s\<lparr>tr_timestamp := 64000, tr_cpuTemperatureC := 60, tr_cpuTemperatureSampledAt := Some ''b''\<rparr>
   in tr_cpuTemperatureC (averageRecord [s, s\<lparr>tr_timestamp := 62000\<rparr>, s'] 60000) = 50"
proof -
  let ?s = "(payload_record 60000 (demo_payload 60000) default_config)
      \<lparr>tr_cpuTemperatureC := 40, tr_cpuTemperatureSampledAt := Some ''a'', tr_hardwareSampledAt := Some ''a''\<rparr>"
  let ?s' = "?s\<lparr>tr_timestamp := 64000, tr_cpuTemperatureC := 60, tr_cpuTemperatureSampledAt := Some ''b''\<rparr>"
  let ?again = "\<lambda>s. if tr_cpuTemperatureC s = 40 then [62000] else []"
  have "redelivered ?again [?s, ?s'] = [?s, ?s\<lparr>tr_timestamp := 62000\<rparr>, ?s']"
    by (simp add: redelivered_def)
  moreover have "tr_cpuTemperatureC (averageRecord [?s, ?s'] 60000) = 50"
    by (simp add: averageRecord_def averageObservedTemperature_def observed_temperatures_def mean_def Let_def)
  ultimately show ?thesis
    using temperatures_count_once [of "[?s, ?s']" ?again 60000] by (simp add: Let_def)
qed

text \<open>
  The sensors of an aggregate are listed once per sensor id, in first-seen order.
\<close>

theorem merged_sensors_distinct:
  "map ts_id (mergeTemperatureSensorDetails samples) = js_uniq (map (\<lambda>item. ts_id (snd item)) (sensor_items samples))"
proof -
  have "map ts_id (mergeTemperatureSensorDetails samples)
      = map ts_id (map_values (fold (group_step (\<lambda>item. ts_id (snd item)) sensor_last) (sensor_items samples) []))"
    by (auto simp: mergeTemperatureSensorDetails_def Let_def split: option.splits)
  also have "\<dots> = js_uniq (map (\<lambda>item. ts_id (snd item)) (sensor_items samples))"
    by (rule sensors.group_idents)
  finally show ?thesis .
qed

end
