(* ===== verification/LocalStore.thy ===== *)
theory LocalStore
  imports Aggregate "HOL-Library.Product_Lexorder"
begin

text \<open>
  The file-backed store and repositories of \<open>apps/server/src/repositories/local.ts\<close>, with
  \<open>legacy-devices.ts\<close> and the group-name helpers of the shared package.

  \<open>LocalJsonStore\<close> runs its operations one at a time (\<open>enqueue\<close>), so each is one step on the state.
  The state holds the file and the committed cache; whether the next file write succeeds is decided by
  an oracle \<open>disk_ok\<close>, asked with the number of writes tried so far.  \<open>load\<close> reads the file once;
  the file is always one the store wrote itself (a hand-damaged file, which \<open>load\<close> rejects, and the
  sweep of untyped virtual-machine fields of older releases are not modelled).
  Group names and device names are ASCII text, on which \<open>normalize("NFC")\<close> is the identity.
  \<open>localeCompare\<close> is given by a key into the rationals (every order of strings has one).
\<close>

subsection \<open>Names\<close>

definition LEGACY_VM_PREFIX :: string where
  "LEGACY_VM_PREFIX = ''vm:''"

definition isLegacyVirtualMachineId :: "string \<Rightarrow> bool" where
  "isLegacyVirtualMachineId deviceId \<longleftrightarrow> take 3 deviceId = LEGACY_VM_PREFIX"

definition legacyVirtualMachineRecord :: "int \<Rightarrow> string \<Rightarrow> DeviceRecord" where
  "legacyVirtualMachineRecord now deviceId =
     \<lparr>dv_deviceId = deviceId, dv_name = deviceId, dv_status = Closed, dv_sortOrder = 0, dv_group = None,
      dv_registeredAt = toISOString now, dv_updatedAt = toISOString now\<rparr>"

definition RESERVED_DEVICE_GROUP_NAMES :: "string list" where
  "RESERVED_DEVICE_GROUP_NAMES = [''all'', ''__all__'', ''__ungrouped__'']"

definition normalize_NFC :: "string \<Rightarrow> string" where
  "normalize_NFC s = s"

definition lower_char :: "char \<Rightarrow> char" where
  "lower_char c = (let n = of_char c :: nat in if 65 \<le> n \<and> n \<le> 90 then char_of (n + 32) else c)"

definition toLowerCase :: "string \<Rightarrow> string" where
  "toLowerCase = map lower_char"

definition normalizeDeviceGroupName :: "string option \<Rightarrow> string option" where
  "normalizeDeviceGroupName name =
     (let normalized = map_option (\<lambda>g. trim (normalize_NFC g)) name
      in if truthy normalized then map_option (take 64) normalized else None)"

definition isReservedDeviceGroupName :: "string \<Rightarrow> bool" where
  "isReservedDeviceGroupName name \<longleftrightarrow>
     toLowerCase (trim (normalize_NFC name)) \<in> set RESERVED_DEVICE_GROUP_NAMES"

subsection \<open>The store\<close>

record LocalDbShape =
  db_devices :: "(string, DeviceRealtimeState) jsmap"
  db_deviceRegistry :: "(string, DeviceRecord) jsmap"
  db_series :: "(string, (MetricWindow, TimeSeriesRecord list) jsmap) jsmap"
  db_minuteHistory :: "(string, TimeSeriesRecord list) jsmap"
  db_history :: "(string, TimeSeriesRecord list) jsmap"
  db_fanNotes :: "(string, (string, string) jsmap) jsmap"
  db_deviceMetricConfigs :: "(string, DeviceMetricConfigValue) jsmap"

definition EMPTY_DB :: LocalDbShape where
  "EMPTY_DB = \<lparr>db_devices = [], db_deviceRegistry = [], db_series = [], db_minuteHistory = [], db_history = [],
     db_fanNotes = [], db_deviceMetricConfigs = []\<rparr>"

record LocalJsonStore =
  st_file :: "LocalDbShape option"
  st_committedDb :: "LocalDbShape option"
  st_writes :: nat

datatype StoreError = WriteFailed | DeviceNotFoundError string | InvalidDeviceGroupNameError | BadTimestamp

type_synonym 'a outcome = "StoreError + 'a"
type_synonym disk = "nat \<Rightarrow> bool"

definition load :: "LocalJsonStore \<Rightarrow> LocalDbShape \<times> LocalJsonStore" where
  "load st =
     (case st_committedDb st of
        Some db \<Rightarrow> (db, st)
      | None \<Rightarrow> (let db = nullish (st_file st) EMPTY_DB in (db, st\<lparr>st_committedDb := Some db\<rparr>)))"

definition select :: "(LocalDbShape \<Rightarrow> 'a) \<Rightarrow> LocalJsonStore \<Rightarrow> 'a \<times> LocalJsonStore" where
  "select selector st = (let (db, st') = load st in (selector db, st'))"

text \<open>A mutator may throw; then nothing is written.  A failed write keeps file and cache.\<close>

definition commit :: "disk \<Rightarrow> (LocalDbShape \<Rightarrow> (LocalDbShape \<times> 'a) outcome) \<Rightarrow> LocalJsonStore \<Rightarrow> 'a outcome \<times> LocalJsonStore" where
  "commit disk_ok mutator st =
     (let (db, st1) = load st
      in case mutator db of
           Inl e \<Rightarrow> (Inl e, st1)
         | Inr (committed, result) \<Rightarrow>
             (let st2 = st1\<lparr>st_writes := Suc (st_writes st1)\<rparr>
              in if disk_ok (st_writes st1)
                 then (Inr result, st2\<lparr>st_file := Some committed, st_committedDb := Some committed\<rparr>)
                 else (Inl WriteFailed, st2)))"

definition update :: "disk \<Rightarrow> (LocalDbShape \<Rightarrow> LocalDbShape) \<Rightarrow> LocalJsonStore \<Rightarrow> unit outcome \<times> LocalJsonStore" where
  "update disk_ok mutator st = commit disk_ok (\<lambda>db. Inr (mutator db, ())) st"

text \<open>\<open>updateWhen\<close>: the test may already produce the result (\<open>Inl\<close>: not needed).\<close>

definition updateWhen :: "disk \<Rightarrow> (LocalDbShape \<Rightarrow> 'a option) \<Rightarrow> (LocalDbShape \<Rightarrow> (LocalDbShape \<times> 'a) outcome) \<Rightarrow> LocalJsonStore \<Rightarrow> 'a outcome \<times> LocalJsonStore" where
  "updateWhen disk_ok unneeded mutator st =
     (let (db, st1) = load st
      in case unneeded db of Some result \<Rightarrow> (Inr result, st1) | None \<Rightarrow> commit disk_ok mutator st1)"

text \<open>What the store holds, and a restart of the process.\<close>

definition contents :: "LocalJsonStore \<Rightarrow> LocalDbShape" where
  "contents st = fst (load st)"

definition restart :: "LocalJsonStore \<Rightarrow> LocalJsonStore" where
  "restart st = st\<lparr>st_committedDb := None\<rparr>"

definition store_coherent :: "LocalJsonStore \<Rightarrow> bool" where
  "store_coherent st \<longleftrightarrow> (case st_committedDb st of None \<Rightarrow> True | Some db \<Rightarrow> db = nullish (st_file st) EMPTY_DB)"

subsection \<open>Realtime repository\<close>

definition upsert :: "disk \<Rightarrow> DeviceRealtimeState \<Rightarrow> LocalJsonStore \<Rightarrow> unit outcome \<times> LocalJsonStore" where
  "upsert disk_ok state =
     update disk_ok (\<lambda>db. db\<lparr>db_devices := map_set (id_deviceId (rs_identity state)) state (db_devices db)\<rparr>)"

definition markOfflineIfMatch :: "disk \<Rightarrow> string \<Rightarrow> string \<Rightarrow> DeviceRealtimeState \<Rightarrow> LocalJsonStore \<Rightarrow> bool outcome \<times> LocalJsonStore" where
  "markOfflineIfMatch disk_ok deviceId expectedLastSeenAt offlineState =
     commit disk_ok (\<lambda>db.
       case map_get (db_devices db) deviceId of
         Some current \<Rightarrow>
           if rs_lastSeenAt current = expectedLastSeenAt
           then Inr (db\<lparr>db_devices := map_set deviceId offlineState (db_devices db)\<rparr>, True)
           else Inr (db, False)
       | None \<Rightarrow> Inr (db, False))"

definition getDevice :: "string \<Rightarrow> LocalJsonStore \<Rightarrow> DeviceRealtimeState option \<times> LocalJsonStore" where
  "getDevice deviceId = select (\<lambda>db. map_get (db_devices db) deviceId)"

definition listDevices :: "LocalJsonStore \<Rightarrow> DeviceRealtimeState list \<times> LocalJsonStore" where
  "listDevices = select (\<lambda>db.
     filter (\<lambda>state. \<not> isLegacyVirtualMachineId (id_deviceId (rs_identity state))) (map_values (db_devices db)))"

definition remove_device :: "disk \<Rightarrow> string \<Rightarrow> LocalJsonStore \<Rightarrow> unit outcome \<times> LocalJsonStore" where
  "remove_device disk_ok deviceId =
     update disk_ok (\<lambda>db. db\<lparr>db_devices := map_delete deviceId (db_devices db),
       db_series := map_delete deviceId (db_series db)\<rparr>)"

definition append_point :: "nat \<Rightarrow> TimeSeriesRecord \<Rightarrow> TimeSeriesRecord list \<Rightarrow> TimeSeriesRecord list" where
  "append_point maxPoints point points =
     slice_neg maxPoints (replace_or_push (\<lambda>item. tr_timestamp item = tr_timestamp point) point points)"

definition appendSeries :: "disk \<Rightarrow> string \<Rightarrow> MetricWindow \<Rightarrow> TimeSeriesRecord \<Rightarrow> nat \<Rightarrow> LocalJsonStore \<Rightarrow> unit outcome \<times> LocalJsonStore" where
  "appendSeries disk_ok deviceId bucket point maxPoints =
     update disk_ok (\<lambda>db.
       (let buckets = nullish (map_get (db_series db) deviceId) [];
            points = nullish (map_get buckets bucket) []
        in db\<lparr>db_series := map_set deviceId (map_set bucket (append_point maxPoints point points) buckets) (db_series db)\<rparr>))"

definition readSeries :: "string \<Rightarrow> MetricWindow \<Rightarrow> LocalJsonStore \<Rightarrow> TimeSeriesRecord list \<times> LocalJsonStore" where
  "readSeries deviceId bucket =
     select (\<lambda>db. nullish (Option.bind (map_get (db_series db) deviceId) (\<lambda>buckets. map_get buckets bucket)) [])"

definition clearSeries :: "disk \<Rightarrow> string \<Rightarrow> LocalJsonStore \<Rightarrow> unit outcome \<times> LocalJsonStore" where
  "clearSeries disk_ok deviceId = update disk_ok (\<lambda>db. db\<lparr>db_series := map_delete deviceId (db_series db)\<rparr>)"

subsection \<open>History repository\<close>

definition MINUTE_RETENTION_MS :: int where "MINUTE_RETENTION_MS = 90 * 24 * 60 * 60 * 1000"
definition HOURLY_RETENTION_MS :: int where "HOURLY_RETENTION_MS = 370 * 24 * 60 * 60 * 1000"
definition MAX_MINUTE_POINTS :: nat where "MAX_MINUTE_POINTS = 60 * 24 * 90"
definition MAX_HOURLY_POINTS :: nat where "MAX_HOURLY_POINTS = 24 * 370"

text \<open>An aggregate replaces the stored one of its bucket only if it has seen at least as many samples.\<close>

definition insert_point :: "nat \<Rightarrow> TimeSeriesRecord \<Rightarrow> TimeSeriesRecord list \<Rightarrow> TimeSeriesRecord list" where
  "insert_point maxPoints point points =
     slice_neg maxPoints
       (case find_index (\<lambda>item. tr_timestamp item = tr_timestamp point) points of
          Some existingIndex \<Rightarrow>
            (let existingCount = nullish (tr_sampleCount (points ! existingIndex)) 1;
                 newCount = nullish (tr_sampleCount point) 1
             in if newCount \<ge> existingCount
                then points[existingIndex := point\<lparr>tr_sampleCount := Some (max existingCount newCount)\<rparr>]
                else points)
        | None \<Rightarrow> sort_by tr_timestamp (points @ [point]))"

definition insertMinutePoint :: "disk \<Rightarrow> string \<Rightarrow> TimeSeriesRecord \<Rightarrow> LocalJsonStore \<Rightarrow> unit outcome \<times> LocalJsonStore" where
  "insertMinutePoint disk_ok deviceId point =
     update disk_ok (\<lambda>db. db\<lparr>db_minuteHistory :=
       map_set deviceId (insert_point MAX_MINUTE_POINTS point (nullish (map_get (db_minuteHistory db) deviceId) []))
         (db_minuteHistory db)\<rparr>)"

definition insertHourlyPoint :: "disk \<Rightarrow> string \<Rightarrow> TimeSeriesRecord \<Rightarrow> LocalJsonStore \<Rightarrow> unit outcome \<times> LocalJsonStore" where
  "insertHourlyPoint disk_ok deviceId point =
     update disk_ok (\<lambda>db. db\<lparr>db_history :=
       map_set deviceId (insert_point MAX_HOURLY_POINTS point (nullish (map_get (db_history db) deviceId) []))
         (db_history db)\<rparr>)"

definition retain :: "int \<Rightarrow> nat \<Rightarrow> (string, TimeSeriesRecord list) jsmap \<Rightarrow> (string, TimeSeriesRecord list) jsmap" where
  "retain threshold maxPoints histories =
     fold (\<lambda>(deviceId, points) m.
         (let retained = slice_neg maxPoints (filter (\<lambda>point. tr_timestamp point \<ge> threshold) points)
          in if retained \<noteq> [] then map_set deviceId retained m else map_delete deviceId m))
       histories histories"

definition runRetentionCleanup :: "disk \<Rightarrow> int \<Rightarrow> LocalJsonStore \<Rightarrow> unit outcome \<times> LocalJsonStore" where
  "runRetentionCleanup disk_ok now =
     update disk_ok (\<lambda>db. db
       \<lparr>db_minuteHistory := retain (now - MINUTE_RETENTION_MS) MAX_MINUTE_POINTS (db_minuteHistory db),
        db_history := retain (now - HOURLY_RETENTION_MS) MAX_HOURLY_POINTS (db_history db)\<rparr>)"

definition minute_window :: "MetricWindow \<Rightarrow> bool" where
  "minute_window w \<longleftrightarrow> w \<in> {W15m, W1h, W6h, W24h, W1d}"

definition window_duration :: "MetricWindow \<Rightarrow> int" where
  "window_duration bucket =
     (if bucket = W15m then 15 * 60 * 1000 else if bucket = W1h then 60 * 60 * 1000
      else if bucket = W6h then 6 * 60 * 60 * 1000 else 24 * 60 * 60 * 1000)"

definition window_hours :: "MetricWindow \<Rightarrow> int" where
  "window_hours bucket =
     (if bucket = W7d \<or> bucket = W1w then 24 * 7 else if bucket = W30d \<or> bucket = W1mo then 24 * 31
      else if bucket = W90d then 24 * 90 else 24 * 366)"

definition historical_series :: "int \<Rightarrow> string \<Rightarrow> MetricWindow \<Rightarrow> LocalDbShape \<Rightarrow> TimeSeriesRecord list" where
  "historical_series now deviceId bucket db =
     (if bucket = W1m \<or> bucket = W5m then []
      else if minute_window bucket
      then filter (\<lambda>point. tr_timestamp point \<ge> now - window_duration bucket)
             (nullish (map_get (db_minuteHistory db) deviceId) [])
      else filter (\<lambda>point. tr_timestamp point \<ge> now - window_hours bucket * 60 * 60 * 1000)
             (nullish (map_get (db_history db) deviceId) []))"

definition getHistoricalSeries :: "int \<Rightarrow> string \<Rightarrow> MetricWindow \<Rightarrow> LocalJsonStore \<Rightarrow> TimeSeriesRecord list \<times> LocalJsonStore" where
  "getHistoricalSeries now deviceId bucket = select (historical_series now deviceId bucket)"

definition getTrafficSeries :: "int \<Rightarrow> string \<Rightarrow> int \<Rightarrow> int \<Rightarrow> LocalJsonStore \<Rightarrow> TrafficHistoryPoint list \<times> LocalJsonStore" where
  "getTrafficSeries now deviceId start endTime =
     select (\<lambda>db.
       (let threshold = max start (now - 366 * 24 * 60 * 60 * 1000)
        in map (\<lambda>point. \<lparr>tp_timestamp = tr_timestamp point, tp_trafficRxBytes = tr_trafficRxBytes point,
                  tp_trafficTxBytes = tr_trafficTxBytes point\<rparr>)
             (filter (\<lambda>point. tr_timestamp point \<ge> threshold \<and> tr_timestamp point < endTime)
               (nullish (map_get (db_history db) deviceId) []))))"

definition clearDeviceHistory :: "disk \<Rightarrow> string \<Rightarrow> LocalJsonStore \<Rightarrow> unit outcome \<times> LocalJsonStore" where
  "clearDeviceHistory disk_ok deviceId =
     update disk_ok (\<lambda>db. db\<lparr>db_minuteHistory := map_delete deviceId (db_minuteHistory db),
       db_history := map_delete deviceId (db_history db)\<rparr>)"

definition listKnownDevices :: "LocalJsonStore \<Rightarrow> (string \<times> string) list \<times> LocalJsonStore" where
  "listKnownDevices =
     select (\<lambda>db.
       (let minutes = fold (\<lambda>(deviceId, points) m. map_set deviceId points m) (db_minuteHistory db) [];
            everything = fold (\<lambda>(deviceId, points) m. map_set deviceId (nullish (map_get m deviceId) [] @ points) m)
              (db_history db) minutes
        in map (\<lambda>(deviceId, points). (deviceId, toISOString (foldr max (map tr_timestamp (tl points)) (tr_timestamp (hd points)))))
             (filter (\<lambda>(deviceId, points). points \<noteq> []) everything)))"

subsection \<open>Fan notes and metric configuration\<close>

definition getFanNotes :: "string \<Rightarrow> LocalJsonStore \<Rightarrow> (string, string) jsmap \<times> LocalJsonStore" where
  "getFanNotes deviceId = select (\<lambda>db. nullish (map_get (db_fanNotes db) deviceId) [])"

definition setFanNote :: "disk \<Rightarrow> string \<Rightarrow> string \<Rightarrow> string \<Rightarrow> LocalJsonStore \<Rightarrow> unit outcome \<times> LocalJsonStore" where
  "setFanNote disk_ok deviceId fanId note =
     update disk_ok (\<lambda>db. db\<lparr>db_fanNotes :=
       map_set deviceId (map_set fanId note (nullish (map_get (db_fanNotes db) deviceId) [])) (db_fanNotes db)\<rparr>)"

definition getConfig :: "string \<Rightarrow> LocalJsonStore \<Rightarrow> DeviceMetricConfigValue option \<times> LocalJsonStore" where
  "getConfig deviceId = select (\<lambda>db. map_get (db_deviceMetricConfigs db) deviceId)"

definition setConfig :: "disk \<Rightarrow> string \<Rightarrow> DeviceMetricConfigValue \<Rightarrow> LocalJsonStore \<Rightarrow> unit outcome \<times> LocalJsonStore" where
  "setConfig disk_ok deviceId config =
     update disk_ok (\<lambda>db. db\<lparr>db_deviceMetricConfigs := map_set deviceId
       \<lparr>cf_enabledMetrics = js_uniq (cf_enabledMetrics config),
        cf_enabledDeviceIds = Some (nullish (cf_enabledDeviceIds config) []),
        cf_instanceMetricConfig = Some (map (\<lambda>(instanceId, metrics). (instanceId, js_uniq metrics))
          (nullish (cf_instanceMetricConfig config) []))\<rparr> (db_deviceMetricConfigs db)\<rparr>)"

subsection \<open>Device registry\<close>

definition registration_unneeded :: "string \<Rightarrow> string option \<Rightarrow> DeviceRegistrationOptions \<Rightarrow> LocalDbShape \<Rightarrow> DeviceRecord option" where
  "registration_unneeded deviceId name options db =
     (case map_get (db_deviceRegistry db) deviceId of
        None \<Rightarrow> None
      | Some existing \<Rightarrow>
          if (dv_status existing = Closed \<and> \<not> ro_reopenClosed options)
             \<or> (ro_skipUnchanged options \<and> dv_status existing = Open
                \<and> (\<not> truthy name \<or> name = Some (dv_name existing)))
          then Some existing else None)"

definition register_device :: "int \<Rightarrow> string \<Rightarrow> string option \<Rightarrow> LocalDbShape \<Rightarrow> LocalDbShape \<times> DeviceRecord" where
  "register_device now deviceId name db =
     (let registry = db_deviceRegistry db;
          record' = (case map_get registry deviceId of
             Some existing \<Rightarrow> existing\<lparr>dv_status := Open, dv_updatedAt := toISOString now,
               dv_name := (if truthy name then the name else dv_name existing)\<rparr>
           | None \<Rightarrow>
               (let maxSortOrder = fold (\<lambda>d m. max m (dv_sortOrder d)) (map_values registry) (-1)
                in \<lparr>dv_deviceId = deviceId, dv_name = (if truthy name then the name else deviceId), dv_status = Open,
                    dv_sortOrder = maxSortOrder + 1, dv_group = None,
                    dv_registeredAt = toISOString now, dv_updatedAt = toISOString now\<rparr>))
      in (db\<lparr>db_deviceRegistry := map_set deviceId record' registry\<rparr>, record'))"

definition registerOrUpdateDevice ::
    "disk \<Rightarrow> int \<Rightarrow> string \<Rightarrow> string option \<Rightarrow> DeviceRegistrationOptions \<Rightarrow> LocalJsonStore \<Rightarrow> DeviceRecord outcome \<times> LocalJsonStore" where
  "registerOrUpdateDevice disk_ok now deviceId name options st =
     (if isLegacyVirtualMachineId deviceId then (Inr (legacyVirtualMachineRecord now deviceId), st)
      else updateWhen disk_ok (registration_unneeded deviceId name options)
             (\<lambda>db. Inr (register_device now deviceId name db)) st)"

definition public_record :: "DeviceRecord \<Rightarrow> DeviceRecord" where
  "public_record d =
     d\<lparr>dv_group := (if isReservedDeviceGroupName (nullish (map_option trim (dv_group d)) []) then None else dv_group d)\<rparr>"

definition open_devices :: "(string \<Rightarrow> rat) \<Rightarrow> LocalDbShape \<Rightarrow> DeviceRecord list" where
  "open_devices localeKey db =
     sort_by (\<lambda>d. (dv_sortOrder d, localeKey (dv_deviceId d)))
       (map public_record
         (filter (\<lambda>d. dv_status d = Open \<and> \<not> isLegacyVirtualMachineId (dv_deviceId d)) (map_values (db_deviceRegistry db))))"

definition listOpenDevices :: "(string \<Rightarrow> rat) \<Rightarrow> LocalJsonStore \<Rightarrow> DeviceRecord list \<times> LocalJsonStore" where
  "listOpenDevices localeKey = select (open_devices localeKey)"

definition getOpenDevice :: "string \<Rightarrow> LocalJsonStore \<Rightarrow> DeviceRecord option \<times> LocalJsonStore" where
  "getOpenDevice deviceId =
     select (\<lambda>db. case map_get (db_deviceRegistry db) deviceId of
         Some r \<Rightarrow> if dv_status r = Open \<and> \<not> isLegacyVirtualMachineId deviceId then Some (public_record r) else None
       | None \<Rightarrow> None)"

definition close_device :: "int \<Rightarrow> string \<Rightarrow> LocalDbShape \<Rightarrow> LocalDbShape" where
  "close_device now deviceId db =
     (let registry = db_deviceRegistry db;
          record' = (case map_get registry deviceId of
             Some r \<Rightarrow> r\<lparr>dv_status := Closed, dv_updatedAt := toISOString now\<rparr>
           | None \<Rightarrow> \<lparr>dv_deviceId = deviceId, dv_name = deviceId, dv_status = Closed, dv_sortOrder = 0, dv_group = None,
               dv_registeredAt = toISOString now, dv_updatedAt = toISOString now\<rparr>)
      in db\<lparr>db_deviceRegistry := map_set deviceId record' registry, db_devices := map_delete deviceId (db_devices db)\<rparr>)"

definition deleteDevice :: "disk \<Rightarrow> int \<Rightarrow> string \<Rightarrow> LocalJsonStore \<Rightarrow> unit outcome \<times> LocalJsonStore" where
  "deleteDevice disk_ok now deviceId st =
     (if isLegacyVirtualMachineId deviceId then (Inr (), st)
      else update disk_ok (close_device now deviceId) st)"

definition modify_record :: "(DeviceRecord \<Rightarrow> DeviceRecord) \<Rightarrow> string \<Rightarrow> (string, DeviceRecord) jsmap \<Rightarrow> (string, DeviceRecord) jsmap" where
  "modify_record f k registry =
     (case map_get registry k of Some item \<Rightarrow> map_set k (f item) registry | None \<Rightarrow> registry)"

definition reorder_registry :: "int \<Rightarrow> string list \<Rightarrow> (string, DeviceRecord) jsmap \<Rightarrow> (string, DeviceRecord) jsmap" where
  "reorder_registry now deviceIds registry =
     fold (\<lambda>(index, k). modify_record (\<lambda>item. item\<lparr>dv_sortOrder := int index, dv_updatedAt := toISOString now\<rparr>) k)
       (enumerate 0 deviceIds) registry"

definition reorderDevices :: "disk \<Rightarrow> int \<Rightarrow> string list \<Rightarrow> LocalJsonStore \<Rightarrow> unit outcome \<times> LocalJsonStore" where
  "reorderDevices disk_ok now deviceIds =
     update disk_ok (\<lambda>db. db\<lparr>db_deviceRegistry := reorder_registry now deviceIds (db_deviceRegistry db)\<rparr>)"

definition not_open :: "LocalDbShape \<Rightarrow> string \<Rightarrow> bool" where
  "not_open db k \<longleftrightarrow> isLegacyVirtualMachineId k \<or> map_option dv_status (map_get (db_deviceRegistry db) k) \<noteq> Some Open"

definition updateDeviceGroup :: "disk \<Rightarrow> int \<Rightarrow> string list \<Rightarrow> string option \<Rightarrow> LocalJsonStore \<Rightarrow> unit outcome \<times> LocalJsonStore" where
  "updateDeviceGroup disk_ok now deviceIds name st =
     (let normalizedGroup = map_option (take 64) (normalizeDeviceGroupName name)
      in if truthy normalizedGroup \<and> isReservedDeviceGroupName (the normalizedGroup)
         then (Inl InvalidDeviceGroupNameError, st)
         else
           (let uniqueIds = js_uniq deviceIds
            in commit disk_ok (\<lambda>db.
                 case List.find (not_open db) uniqueIds of
                   Some k \<Rightarrow> Inl (DeviceNotFoundError k)
                 | None \<Rightarrow> Inr (db\<lparr>db_deviceRegistry :=
                     fold (modify_record (\<lambda>item. item\<lparr>dv_group := normalizedGroup, dv_updatedAt := toISOString now\<rparr>))
                       uniqueIds (db_deviceRegistry db)\<rparr>, ())) st))"

subsection \<open>The store keeps what it promised\<close>

lemma load_facts [simp]:
  "fst (load st) = contents st" "contents (snd (load st)) = contents st"
  "st_writes (snd (load st)) = st_writes st" "store_coherent st \<Longrightarrow> store_coherent (snd (load st))"
  by (auto simp: contents_def load_def store_coherent_def Let_def split: option.splits)

lemma loadE:
  obtains st1 where "load st = (contents st, st1)" "contents st1 = contents st" "st_writes st1 = st_writes st"
    "store_coherent st \<Longrightarrow> store_coherent st1"
  using load_facts [of st] by (metis surjective_pairing)

lemma store_coherent_writes [simp]: "store_coherent (st\<lparr>st_writes := n\<rparr>) = store_coherent st"
  by (cases "st_committedDb st") (simp_all add: store_coherent_def)

lemma store_coherent_committed [simp]: "store_coherent (st\<lparr>st_file := Some db, st_committedDb := Some db\<rparr>)"
  by (simp add: store_coherent_def)

lemma contents_committed [simp]: "contents (st\<lparr>st_file := f, st_committedDb := Some db\<rparr>) = db"
  by (simp add: contents_def load_def)

lemma contents_writes [simp]: "contents (st\<lparr>st_writes := n\<rparr>) = contents st"
  by (simp add: contents_def load_def Let_def split: option.splits)

lemma commit_fst:
  "fst (commit disk_ok m st) = (case m (contents st) of
     Inl e \<Rightarrow> Inl e | Inr (db, r) \<Rightarrow> if disk_ok (st_writes st) then Inr r else Inl WriteFailed)"
  by (rule loadE [of st]) (auto simp: commit_def Let_def split: sum.splits prod.splits)

lemma commit_contents:
  "contents (snd (commit disk_ok m st)) = (case m (contents st) of
     Inl e \<Rightarrow> contents st | Inr (db, r) \<Rightarrow> if disk_ok (st_writes st) then db else contents st)"
  by (rule loadE [of st]) (auto simp: commit_def Let_def split: sum.splits prod.splits)

lemma commit_coherent:
  assumes "store_coherent st"
  shows "store_coherent (snd (commit disk_ok m st))"
  by (rule loadE [of st]) (use assms in \<open>auto simp: commit_def Let_def split: sum.splits prod.splits\<close>)

lemma update_facts:
  "fst (update disk_ok f st) = (if disk_ok (st_writes st) then Inr () else Inl WriteFailed)"
  "contents (snd (update disk_ok f st)) = (if disk_ok (st_writes st) then f (contents st) else contents st)"
  by (simp_all add: update_def commit_fst commit_contents)

lemma select_facts [simp]:
  "fst (select f st) = f (contents st)" "contents (snd (select f st)) = contents st"
  "st_writes (snd (select f st)) = st_writes st" "store_coherent st \<Longrightarrow> store_coherent (snd (select f st))"
  by (rule loadE [of st], simp add: select_def)+

text \<open>
  What every repository operation promises its callers: an operation that fails changes nothing, and
  what the store shows is what a restarted process reads back.
\<close>

locale store_operation =
  fixes run :: "LocalJsonStore \<Rightarrow> 'a outcome \<times> LocalJsonStore"
  assumes failure_keeps: "fst (run st) = Inl e \<Longrightarrow> contents (snd (run st)) = contents st"
    and run_coherent: "store_coherent st \<Longrightarrow> store_coherent (snd (run st))"
begin

lemma durable: "store_coherent st \<Longrightarrow> contents (restart (snd (run st))) = contents (snd (run st))"
  using run_coherent [of st]
  by (auto simp: contents_def load_def restart_def store_coherent_def Let_def split: option.splits)

text \<open>Trying again until it succeeds leaves what one success from the first state would.\<close>

lemma failures_keep:
  "(\<forall>i < n. \<exists>e. fst (run (((\<lambda>s. snd (run s)) ^^ i) st)) = Inl e) \<Longrightarrow>
    contents (((\<lambda>s. snd (run s)) ^^ n) st) = contents st"
proof (induction n)
  case (Suc n)
  then obtain e where "fst (run (((\<lambda>s. snd (run s)) ^^ n) st)) = Inl e" by blast
  from failure_keeps [OF this] Suc show ?case by simp
qed simp

end

lemma store_operation_commit: "store_operation (commit disk_ok m)"
  by unfold_locales (auto simp: commit_fst commit_contents commit_coherent split: sum.splits prod.splits if_splits)

lemma store_operation_update: "store_operation (update disk_ok f)"
  using store_operation_commit [of disk_ok "\<lambda>db. Inr (f db, ())"]
  by (simp add: update_def [abs_def])

interpretation upsert: store_operation "upsert disk_ok state" for disk_ok state
  unfolding upsert_def by (rule store_operation_update)

interpretation markOffline: store_operation "markOfflineIfMatch disk_ok deviceId seen state" for disk_ok deviceId seen state
  unfolding markOfflineIfMatch_def by (rule store_operation_commit)

interpretation appendSeries: store_operation "appendSeries disk_ok deviceId bucket point n" for disk_ok deviceId bucket point n
  unfolding appendSeries_def by (rule store_operation_update)

interpretation insertMinute: store_operation "insertMinutePoint disk_ok deviceId point" for disk_ok deviceId point
  unfolding insertMinutePoint_def by (rule store_operation_update)

interpretation insertHourly: store_operation "insertHourlyPoint disk_ok deviceId point" for disk_ok deviceId point
  unfolding insertHourlyPoint_def by (rule store_operation_update)

lemma updateWhen_facts:
  "fst (updateWhen disk_ok unneeded m st) =
     (case unneeded (contents st) of Some r \<Rightarrow> Inr r | None \<Rightarrow> fst (commit disk_ok m st))"
  "contents (snd (updateWhen disk_ok unneeded m st)) =
     (case unneeded (contents st) of Some r \<Rightarrow> contents st | None \<Rightarrow> contents (snd (commit disk_ok m st)))"
  "store_coherent st \<Longrightarrow> store_coherent (snd (updateWhen disk_ok unneeded m st))"
proof -
  obtain st1 where st1: "load st = (contents st, st1)" "contents st1 = contents st" "st_writes st1 = st_writes st"
    "store_coherent st \<Longrightarrow> store_coherent st1"
    by (rule loadE [of st]) blast
  show "fst (updateWhen disk_ok unneeded m st) =
     (case unneeded (contents st) of Some r \<Rightarrow> Inr r | None \<Rightarrow> fst (commit disk_ok m st))"
    by (simp add: updateWhen_def st1 commit_fst split: option.split sum.split)
  show "contents (snd (updateWhen disk_ok unneeded m st)) =
     (case unneeded (contents st) of Some r \<Rightarrow> contents st | None \<Rightarrow> contents (snd (commit disk_ok m st)))"
    by (simp add: updateWhen_def st1 commit_contents split: option.split sum.split)
  show "store_coherent st \<Longrightarrow> store_coherent (snd (updateWhen disk_ok unneeded m st))"
    by (simp add: updateWhen_def st1 commit_coherent split: option.split)
qed

interpretation register: store_operation "registerOrUpdateDevice disk_ok now deviceId name options" for disk_ok now deviceId name options
  by unfold_locales
    (auto simp: registerOrUpdateDevice_def updateWhen_facts commit_fst commit_contents
      split: if_splits prod.splits option.splits)

interpretation updateGroup: store_operation "updateDeviceGroup disk_ok now deviceIds name" for disk_ok now deviceIds name
proof
  fix st e
  show "fst (updateDeviceGroup disk_ok now deviceIds name st) = Inl e \<Longrightarrow>
      contents (snd (updateDeviceGroup disk_ok now deviceIds name st)) = contents st"
    using store_operation.failure_keeps [OF store_operation_commit]
    by (fastforce simp: updateDeviceGroup_def Let_def split: if_splits)
  show "store_coherent st \<Longrightarrow> store_coherent (snd (updateDeviceGroup disk_ok now deviceIds name st))"
    by (simp add: updateDeviceGroup_def Let_def commit_coherent)
qed

subsection \<open>Bounded histories\<close>

definition history_ok :: "nat \<Rightarrow> TimeSeriesRecord list \<Rightarrow> bool" where
  "history_ok maxPoints points \<longleftrightarrow>
     sorted (map tr_timestamp points) \<and> distinct (map tr_timestamp points) \<and> length points \<le> maxPoints"

lemma history_ok_Nil [simp]: "history_ok n []"
  by (simp add: history_ok_def)

definition count_of :: "TimeSeriesRecord \<Rightarrow> nat" where
  "count_of p = nullish (tr_sampleCount p) 1"

lemma find_index_key: "find_index (\<lambda>y. f y = k) xs = None \<longleftrightarrow> k \<notin> f ` set xs"
  by (auto simp: find_index_None_iff)

lemma insert_point_existing:
  assumes "tr_timestamp point \<in> tr_timestamp ` set points"
  shows "\<exists>i < length points. tr_timestamp (points ! i) = tr_timestamp point \<and>
    insert_point n point points = slice_neg n
      (if count_of point \<ge> count_of (points ! i)
       then points[i := point\<lparr>tr_sampleCount := Some (count_of point)\<rparr>] else points)"
proof -
  let ?P = "\<lambda>item. tr_timestamp item = tr_timestamp point"
  from assms have "find_index ?P points \<noteq> None"
    by (auto simp: find_index_None_iff)
  then obtain i where i: "find_index ?P points = Some i" by blast
  from find_index_SomeD [OF i] i show ?thesis
    by (intro exI [of _ i]) (auto simp: insert_point_def count_of_def Let_def max_def)
qed

lemma insert_point_new:
  assumes "tr_timestamp point \<notin> tr_timestamp ` set points"
  shows "insert_point n point points = slice_neg n (sort_by tr_timestamp (points @ [point]))"
proof -
  have "find_index (\<lambda>item. tr_timestamp item = tr_timestamp point) points = None"
    using assms by (simp add: find_index_key)
  then show ?thesis by (simp add: insert_point_def)
qed

lemma map_update_same: "f x = f (xs ! i) \<Longrightarrow> map f (xs[i := x]) = map f xs"
  by (cases "i < length xs") (simp_all add: map_update list_update_same_conv list_update_beyond)

lemma insert_point_keys:
  "\<exists>qs. insert_point n point points = slice_neg n qs \<and>
     (sorted (map tr_timestamp points) \<longrightarrow> sorted (map tr_timestamp qs)) \<and>
     (distinct (map tr_timestamp points) \<longrightarrow> distinct (map tr_timestamp qs))"
proof (cases "tr_timestamp point \<in> tr_timestamp ` set points")
  case True
  from insert_point_existing [OF this, of n] obtain i where i:
    "tr_timestamp (points ! i) = tr_timestamp point"
    "insert_point n point points = slice_neg n (if count_of point \<ge> count_of (points ! i)
       then points[i := point\<lparr>tr_sampleCount := Some (count_of point)\<rparr>] else points)"
    by blast
  have "map tr_timestamp (points[i := point\<lparr>tr_sampleCount := Some (count_of point)\<rparr>]) = map tr_timestamp points"
    by (rule map_update_same) (simp add: i(1))
  then show ?thesis
    unfolding i(2) by (intro exI [of _ "if count_of point \<ge> count_of (points ! i)
       then points[i := point\<lparr>tr_sampleCount := Some (count_of point)\<rparr>] else points"]) simp
next
  case False
  then show ?thesis
    by (intro exI [of _ "sort_by tr_timestamp (points @ [point])"])
      (simp add: insert_point_new sorted_sort_by distinct_map_sort_by)
qed

lemma insert_point_ok:
  assumes "history_ok n points" "0 < n"
  shows "history_ok n (insert_point n point points)"
proof -
  from insert_point_keys [of n point points] assms(1) obtain qs where qs:
    "insert_point n point points = slice_neg n qs" "sorted (map tr_timestamp qs)" "distinct (map tr_timestamp qs)"
    by (auto simp: history_ok_def)
  with assms(2) show ?thesis
    by (simp add: history_ok_def map_slice_neg sorted_slice_neg distinct_slice_neg length_slice_neg)
qed

lemma append_point_ok:
  assumes "distinct (map tr_timestamp points)" "0 < n"
  shows "distinct (map tr_timestamp (append_point n point points)) \<and> length (append_point n point points) \<le> n"
  using assms distinct_replace_or_push [of tr_timestamp points point]
  by (simp add: append_point_def map_slice_neg distinct_slice_neg length_slice_neg)

lemma append_point_last: "point \<in> set (append_point n point points)"
  if "tr_timestamp point \<notin> tr_timestamp ` set points" "0 < n"
proof -
  have "replace_or_push (\<lambda>item. tr_timestamp item = tr_timestamp point) point points = points @ [point]"
    using that(1) find_index_key [of tr_timestamp "tr_timestamp point" points] by (simp add: replace_or_push_def)
  then show ?thesis
    using that(2) by (simp add: append_point_def slice_neg_def Suc_diff_le)
qed

text \<open>
  A history stays sorted by time, with one point per bucket and at most its bound, whatever is inserted;
  and re-inserting a bucket never replaces its aggregate by one that has seen fewer samples.
\<close>

theorem insert_point_history:
  assumes "history_ok n points" "0 < n"
  shows "history_ok n (insert_point n point points) \<and>
    (\<forall>p \<in> set points. \<forall>q \<in> set (insert_point n point points).
       tr_timestamp q = tr_timestamp p \<longrightarrow> count_of p \<le> count_of q)"
proof (intro conjI ballI impI)
  show "history_ok n (insert_point n point points)"
    using assms by (rule insert_point_ok)
  fix p q
  assume p: "p \<in> set points" and q: "q \<in> set (insert_point n point points)" and pq: "tr_timestamp q = tr_timestamp p"
  have inj: "inj_on tr_timestamp (set points)"
    using assms(1) by (simp add: history_ok_def distinct_map)
  show "count_of p \<le> count_of q"
  proof (cases "tr_timestamp point \<in> tr_timestamp ` set points")
    case True
    from insert_point_existing [OF this, of n] obtain i where i:
      "i < length points" "tr_timestamp (points ! i) = tr_timestamp point"
      "insert_point n point points = slice_neg n (if count_of point \<ge> count_of (points ! i)
         then points[i := point\<lparr>tr_sampleCount := Some (count_of point)\<rparr>] else points)"
      by blast
    from q i(3) set_slice_neg_subset have "q \<in> set points \<or>
        q = point\<lparr>tr_sampleCount := Some (count_of point)\<rparr> \<and> count_of point \<ge> count_of (points ! i)"
      by (auto split: if_splits dest!: subsetD [OF set_slice_neg_subset] subsetD [OF set_update_subset_insert])
    then show ?thesis
    proof
      assume "q \<in> set points"
      with p pq inj have "p = q" by (metis inj_onD)
      then show ?thesis by simp
    next
      assume *: "q = point\<lparr>tr_sampleCount := Some (count_of point)\<rparr> \<and> count_of point \<ge> count_of (points ! i)"
      then have "tr_timestamp p = tr_timestamp (points ! i)" using pq i(2) by simp
      then have "p = points ! i" using inj p i(1) by (meson inj_onD nth_mem)
      with * show ?thesis by (simp add: count_of_def)
    qed
  next
    case False
    then have "q \<in> insert point (set points)"
      using q set_slice_neg_subset [of n "sort_by tr_timestamp (points @ [point])"] by (auto simp: insert_point_new)
    with False p pq inj show ?thesis by (metis imageI inj_onD insertE order_refl)
  qed
qed

subsection \<open>The invariant of the database\<close>

definition wf_db :: "LocalDbShape \<Rightarrow> bool" where
  "wf_db db \<longleftrightarrow>
     (\<forall>(k, ps) \<in> set (db_minuteHistory db). history_ok MAX_MINUTE_POINTS ps) \<and>
     (\<forall>(k, ps) \<in> set (db_history db). history_ok MAX_HOURLY_POINTS ps) \<and>
     (\<forall>(k, buckets) \<in> set (db_series db). \<forall>(w, ps) \<in> set buckets. distinct (map tr_timestamp ps)) \<and>
     (\<forall>(k, s) \<in> set (db_devices db). id_deviceId (rs_identity s) = k) \<and>
     (\<forall>(k, d) \<in> set (db_deviceRegistry db). dv_deviceId d = k \<and> \<not> isLegacyVirtualMachineId k) \<and>
     distinct (map_keys (db_devices db)) \<and> distinct (map_keys (db_deviceRegistry db)) \<and>
     distinct (map_keys (db_minuteHistory db)) \<and> distinct (map_keys (db_history db))"

lemma wf_EMPTY_DB: "wf_db EMPTY_DB"
  by (simp add: wf_db_def EMPTY_DB_def)

lemma set_map_set: "e \<in> set (map_set k v m) \<Longrightarrow> e = (k, v) \<or> e \<in> set m"
  by (induction m) (auto split: if_splits)

lemma set_map_delete: "e \<in> set (map_delete k m) \<Longrightarrow> e \<in> set m"
  by (auto simp: AList.delete_eq)

lemma map_get_set_mem: "map_get m k = Some v \<Longrightarrow> (k, v) \<in> set m"
  by (rule map_of_SomeD)

lemma nullish_get_Pair: "nullish (map_get m k) [] = [] \<or> (k, nullish (map_get m k) []) \<in> set m"
  by (cases "map_get m k") (auto dest: map_get_set_mem)

lemma history_get_ok:
  assumes "\<forall>(k, ps) \<in> set m. history_ok n ps"
  shows "history_ok n (nullish (map_get m k) [])"
  using nullish_get_Pair [of m k] assms by auto

lemma history_set_ok:
  assumes "\<forall>(k, ps) \<in> set m. history_ok n ps" "0 < n"
  shows "\<forall>(k, ps) \<in> set (map_set k (insert_point n p (nullish (map_get m k) [])) m). history_ok n ps"
  using assms insert_point_ok [OF history_get_ok] by (auto dest!: set_map_set)

lemma bounds_positive [simp]: "0 < MAX_MINUTE_POINTS" "0 < MAX_HOURLY_POINTS"
  by (simp_all add: MAX_MINUTE_POINTS_def MAX_HOURLY_POINTS_def)

lemma wf_minute:
  "wf_db db \<Longrightarrow> wf_db (db\<lparr>db_minuteHistory := map_set k (insert_point MAX_MINUTE_POINTS p
     (nullish (map_get (db_minuteHistory db) k) [])) (db_minuteHistory db)\<rparr>)"
  using history_set_ok [of "db_minuteHistory db" MAX_MINUTE_POINTS k p] by (simp add: wf_db_def distinct_update)

lemma wf_hourly:
  "wf_db db \<Longrightarrow> wf_db (db\<lparr>db_history := map_set k (insert_point MAX_HOURLY_POINTS p
     (nullish (map_get (db_history db) k) [])) (db_history db)\<rparr>)"
  using history_set_ok [of "db_history db" MAX_HOURLY_POINTS k p] by (simp add: wf_db_def distinct_update)

lemma wf_append:
  assumes "wf_db db"
  shows "wf_db (db\<lparr>db_series := map_set k (map_set w (append_point n p (nullish (map_get (nullish (map_get (db_series db) k) []) w) []))
      (nullish (map_get (db_series db) k) [])) (db_series db)\<rparr>)"
proof -
  let ?b = "nullish (map_get (db_series db) k) []"
  have b: "\<forall>(w, ps) \<in> set ?b. distinct (map tr_timestamp ps)"
    using nullish_get_Pair [of "db_series db" k] assms by (auto simp: wf_db_def)
  have "distinct (map tr_timestamp (nullish (map_get ?b w) []))"
    using nullish_get_Pair [of ?b w] b by auto
  then have "distinct (map tr_timestamp (append_point n p (nullish (map_get ?b w) [])))"
    using distinct_replace_or_push [of tr_timestamp "nullish (map_get ?b w) []" p]
    by (simp add: append_point_def map_slice_neg distinct_slice_neg)
  with b assms show ?thesis
    by (auto simp: wf_db_def dest!: set_map_set)
qed

lemma wf_devices:
  "wf_db db \<Longrightarrow> id_deviceId (rs_identity s) = k \<Longrightarrow> wf_db (db\<lparr>db_devices := map_set k s (db_devices db)\<rparr>)"
  by (auto simp: wf_db_def distinct_update dest!: set_map_set)

lemma wf_registry:
  "wf_db db \<Longrightarrow> dv_deviceId d = k \<Longrightarrow> \<not> isLegacyVirtualMachineId k \<Longrightarrow>
    wf_db (db\<lparr>db_deviceRegistry := map_set k d (db_deviceRegistry db)\<rparr>)"
  by (auto simp: wf_db_def distinct_update dest!: set_map_set)

lemma wf_deletes:
  assumes "wf_db db"
  shows "wf_db (db\<lparr>db_devices := map_delete k (db_devices db)\<rparr>)" "wf_db (db\<lparr>db_series := map_delete k (db_series db)\<rparr>)"
    "wf_db (db\<lparr>db_minuteHistory := map_delete k (db_minuteHistory db)\<rparr>)" "wf_db (db\<lparr>db_history := map_delete k (db_history db)\<rparr>)"
  using assms by (auto simp: wf_db_def distinct_delete dest!: set_map_delete)

lemma wf_removes:
  assumes "wf_db db"
  shows "wf_db (db\<lparr>db_devices := map_delete k (db_devices db), db_series := map_delete k (db_series db)\<rparr>)"
    "wf_db (db\<lparr>db_minuteHistory := map_delete k (db_minuteHistory db), db_history := map_delete k (db_history db)\<rparr>)"
  using wf_deletes(2) [OF wf_deletes(1) [OF assms], of k k] wf_deletes(4) [OF wf_deletes(3) [OF assms], of k k] by simp_all

lemma wf_other [simp]:
  "wf_db (db\<lparr>db_fanNotes := x\<rparr>) = wf_db db" "wf_db (db\<lparr>db_deviceMetricConfigs := y\<rparr>) = wf_db db"
  by (simp_all add: wf_db_def)

subsubsection \<open>Registry edits\<close>

lemma map_keys_modify [simp]: "map_keys (modify_record f k m) = map_keys m"
  using map_get_None_iff [of m k] by (simp add: modify_record_def map_keys_set split: option.split)

lemma map_get_modify: "map_get (modify_record f k m) x = (if x = k then map_option f (map_get m x) else map_get m x)"
  by (auto simp: modify_record_def split: option.splits)

lemma set_modify: "(x, d) \<in> set (modify_record f k m) \<Longrightarrow> \<exists>d'. (x, d') \<in> set m \<and> (d = d' \<or> d = f d')"
  by (auto simp: modify_record_def split: option.splits dest!: set_map_set map_get_set_mem)

definition registry_ok :: "(string, DeviceRecord) jsmap \<Rightarrow> bool" where
  "registry_ok m \<longleftrightarrow> (\<forall>(k, d) \<in> set m. dv_deviceId d = k \<and> \<not> isLegacyVirtualMachineId k) \<and> distinct (map_keys m)"

lemma registry_ok_modify:
  assumes "registry_ok m" "\<And>d. dv_deviceId (f d) = dv_deviceId d"
  shows "registry_ok (modify_record f k m)"
  using assms by (auto simp: registry_ok_def dest!: set_modify)

lemma map_get_fold_modify:
  assumes "distinct ks"
  shows "map_get (fold (modify_record f) ks m) x = (if x \<in> set ks then map_option f (map_get m x) else map_get m x)"
  using assms by (induction ks arbitrary: m) (auto simp: map_get_modify)

lemma registry_ok_fold_modify:
  assumes "\<And>y d. dv_deviceId (f y d) = dv_deviceId d"
  shows "registry_ok m \<Longrightarrow> registry_ok (fold (\<lambda>y. modify_record (f y) (k y)) ys m)"
  by (induction ys arbitrary: m) (auto intro: registry_ok_modify assms)

lemma reorder_registry_fold:
  "reorder_registry now ids m = fold (\<lambda>y. modify_record (\<lambda>item. item\<lparr>dv_sortOrder := int (fst y), dv_updatedAt := toISOString now\<rparr>) (snd y))
     (enumerate 0 ids) m"
  by (simp add: reorder_registry_def case_prod_unfold)

lemma registry_ok_reorder: "registry_ok m \<Longrightarrow> registry_ok (reorder_registry now ids m)"
  unfolding reorder_registry_fold by (rule registry_ok_fold_modify) simp

lemma wf_db_registry: "wf_db db \<Longrightarrow> registry_ok (db_deviceRegistry db)"
  by (auto simp: wf_db_def registry_ok_def)

lemma wf_registry_ok: "wf_db db \<Longrightarrow> registry_ok m \<Longrightarrow> wf_db (db\<lparr>db_deviceRegistry := m\<rparr>)"
  by (auto simp: wf_db_def registry_ok_def)

lemma registry_get_ok: "registry_ok m \<Longrightarrow> map_get m k = Some d \<Longrightarrow> dv_deviceId d = k"
  by (auto simp: registry_ok_def dest!: map_get_set_mem)

lemma register_device_record:
  "snd (register_device now k name db) = the (map_get (db_deviceRegistry (fst (register_device now k name db))) k)"
  by (simp add: register_device_def Let_def)

lemma wf_register:
  assumes "wf_db db" "\<not> isLegacyVirtualMachineId k"
  shows "wf_db (fst (register_device now k name db))"
  unfolding register_device_def Let_def fst_conv
  using registry_get_ok [OF wf_db_registry [OF assms(1)], of k] assms
  by (intro wf_registry) (auto split: option.splits)

lemma wf_close:
  assumes "wf_db db" "\<not> isLegacyVirtualMachineId k"
  shows "wf_db (close_device now k db)"
proof -
  define d where "d = (case map_get (db_deviceRegistry db) k of
      Some r \<Rightarrow> r\<lparr>dv_status := Closed, dv_updatedAt := toISOString now\<rparr>
    | None \<Rightarrow> \<lparr>dv_deviceId = k, dv_name = k, dv_status = Closed, dv_sortOrder = 0, dv_group = None,
        dv_registeredAt = toISOString now, dv_updatedAt = toISOString now\<rparr>)"
  have "dv_deviceId d = k"
    using registry_get_ok [OF wf_db_registry [OF assms(1)], of k] by (auto simp: d_def split: option.splits)
  then have "wf_db (db\<lparr>db_deviceRegistry := map_set k d (db_deviceRegistry db)\<rparr>)"
    using assms by (intro wf_registry)
  from wf_deletes(1) [OF this, of k] show ?thesis
    by (simp add: close_device_def Let_def d_def)
qed

subsubsection \<open>Retention\<close>

abbreviation retained :: "int \<Rightarrow> nat \<Rightarrow> TimeSeriesRecord list \<Rightarrow> TimeSeriesRecord list" where
  "retained threshold n ps \<equiv> slice_neg n (filter (\<lambda>point. tr_timestamp point \<ge> threshold) ps)"

definition retain_step :: "('p list \<Rightarrow> 'p list) \<Rightarrow> 'k \<times> 'p list \<Rightarrow> ('k, 'p list) jsmap \<Rightarrow> ('k, 'p list) jsmap" where
  "retain_step r x m = (if r (snd x) \<noteq> [] then map_set (fst x) (r (snd x)) m else map_delete (fst x) m)"

lemma retain_steps: "retain threshold n m = fold (retain_step (retained threshold n)) m m"
  by (simp add: retain_def retain_step_def [abs_def] case_prod_unfold Let_def)

lemma map_get_retain_step:
  "map_get (retain_step r x m) k = (if k = fst x then (if r (snd x) \<noteq> [] then Some (r (snd x)) else None) else map_get m k)"
  by (simp add: retain_step_def)

lemma map_get_retain_steps:
  assumes "distinct (map_keys xs)"
  shows "map_get (fold (retain_step r) xs m) k =
    (case map_get xs k of None \<Rightarrow> map_get m k | Some ps \<Rightarrow> if r ps \<noteq> [] then Some (r ps) else None)"
  using assms
proof (induction xs arbitrary: m)
  case (Cons x xs)
  then have "map_get xs (fst x) = None"
    by (simp add: map_of_eq_None_iff)
  with Cons show ?case
    by (cases x) (simp add: map_get_retain_step split: option.split)
qed simp

lemma distinct_retain_steps: "distinct (map_keys m) \<Longrightarrow> distinct (map_keys (fold (retain_step r) xs m))"
  by (induction xs arbitrary: m) (simp_all add: retain_step_def distinct_update distinct_delete)

lemma map_get_retain:
  assumes "distinct (map_keys m)"
  shows "map_get (retain threshold n m) k = (case map_get m k of None \<Rightarrow> None
     | Some ps \<Rightarrow> if retained threshold n ps \<noteq> [] then Some (retained threshold n ps) else None)"
  unfolding retain_steps map_get_retain_steps [OF assms] by (simp split: option.split)

lemma distinct_retain: "distinct (map_keys m) \<Longrightarrow> distinct (map_keys (retain threshold n m))"
  unfolding retain_steps by (rule distinct_retain_steps)

lemma history_ok_retained: "history_ok n ps \<Longrightarrow> 0 < n \<Longrightarrow> history_ok n (retained threshold n ps)"
  by (simp add: history_ok_def map_slice_neg sorted_slice_neg distinct_slice_neg length_slice_neg
      sorted_filter distinct_map_filter)

lemma history_ok_retain:
  assumes "\<forall>(k, ps) \<in> set m. history_ok n ps" "distinct (map_keys m)" "0 < n"
  shows "\<forall>(k, ps) \<in> set (retain threshold n m). history_ok n ps"
proof clarify
  fix k ps assume "(k, ps) \<in> set (retain threshold n m)"
  then have "map_get (retain threshold n m) k = Some ps"
    using distinct_retain [OF assms(2)] by simp
  then show "history_ok n ps"
    using assms by (auto simp: map_get_retain split: option.splits if_splits dest!: map_get_set_mem
        intro: history_ok_retained)
qed

subsection \<open>Every reachable store is well formed\<close>

text \<open>The store of a new installation, and one operation of the repositories after another.\<close>

definition empty_store :: LocalJsonStore where
  "empty_store = \<lparr>st_file = None, st_committedDb = None, st_writes = 0\<rparr>"

inductive reachable_store :: "disk \<Rightarrow> LocalJsonStore \<Rightarrow> bool" for disk_ok where
  start: "reachable_store disk_ok empty_store"
| restarted: "reachable_store disk_ok st \<Longrightarrow> reachable_store disk_ok (restart st)"
| read: "reachable_store disk_ok st \<Longrightarrow> reachable_store disk_ok (snd (load st))"
| upserted: "reachable_store disk_ok st \<Longrightarrow> reachable_store disk_ok (snd (upsert disk_ok state st))"
| marked: "reachable_store disk_ok st \<Longrightarrow> reachable_store disk_ok
    (snd (markOfflineIfMatch disk_ok (id_deviceId (rs_identity state)) seen state st))"
| removed: "reachable_store disk_ok st \<Longrightarrow> reachable_store disk_ok (snd (remove_device disk_ok k st))"
| appended: "reachable_store disk_ok st \<Longrightarrow> reachable_store disk_ok (snd (appendSeries disk_ok k w p n st))"
| cleared: "reachable_store disk_ok st \<Longrightarrow> reachable_store disk_ok (snd (clearSeries disk_ok k st))"
| minute: "reachable_store disk_ok st \<Longrightarrow> reachable_store disk_ok (snd (insertMinutePoint disk_ok k p st))"
| hourly: "reachable_store disk_ok st \<Longrightarrow> reachable_store disk_ok (snd (insertHourlyPoint disk_ok k p st))"
| cleaned: "reachable_store disk_ok st \<Longrightarrow> reachable_store disk_ok (snd (runRetentionCleanup disk_ok now st))"
| forgotten: "reachable_store disk_ok st \<Longrightarrow> reachable_store disk_ok (snd (clearDeviceHistory disk_ok k st))"
| noted: "reachable_store disk_ok st \<Longrightarrow> reachable_store disk_ok (snd (setFanNote disk_ok k fan note st))"
| configured: "reachable_store disk_ok st \<Longrightarrow> reachable_store disk_ok (snd (setConfig disk_ok k config st))"
| registered: "reachable_store disk_ok st \<Longrightarrow> reachable_store disk_ok (snd (registerOrUpdateDevice disk_ok now k name options st))"
| deleted: "reachable_store disk_ok st \<Longrightarrow> reachable_store disk_ok (snd (deleteDevice disk_ok now k st))"
| reordered: "reachable_store disk_ok st \<Longrightarrow> reachable_store disk_ok (snd (reorderDevices disk_ok now ks st))"
| regrouped: "reachable_store disk_ok st \<Longrightarrow> reachable_store disk_ok (snd (updateDeviceGroup disk_ok now ks name st))"

lemma update_wf:
  "(\<And>db. wf_db db \<Longrightarrow> wf_db (f db)) \<Longrightarrow> wf_db (contents st) \<Longrightarrow> wf_db (contents (snd (update disk_ok f st)))"
  by (simp add: update_facts)

lemma commit_wf:
  assumes "\<And>db db' r. wf_db db \<Longrightarrow> m db = Inr (db', r) \<Longrightarrow> wf_db db'" "wf_db (contents st)"
  shows "wf_db (contents (snd (commit disk_ok m st)))"
  using assms by (auto simp: commit_contents split: sum.split prod.split)

lemma update_coherent: "store_coherent st \<Longrightarrow> store_coherent (snd (update disk_ok f st))"
  by (simp add: update_def commit_coherent)

lemma wf_repositories:
  assumes "wf_db (contents st)"
  shows "wf_db (contents (snd (upsert disk_ok state st)))"
    "wf_db (contents (snd (remove_device disk_ok k st)))"
    "wf_db (contents (snd (appendSeries disk_ok k w p n st)))"
    "wf_db (contents (snd (clearSeries disk_ok k st)))"
    "wf_db (contents (snd (insertMinutePoint disk_ok k p st)))"
    "wf_db (contents (snd (insertHourlyPoint disk_ok k p st)))"
    "wf_db (contents (snd (clearDeviceHistory disk_ok k st)))"
    "wf_db (contents (snd (setFanNote disk_ok k fan note st)))"
    "wf_db (contents (snd (setConfig disk_ok k config st)))"
    "wf_db (contents (snd (reorderDevices disk_ok now ks st)))"
  unfolding upsert_def remove_device_def appendSeries_def clearSeries_def insertMinutePoint_def insertHourlyPoint_def
    clearDeviceHistory_def setFanNote_def setConfig_def reorderDevices_def Let_def
  using assms by (simp_all add: update_facts wf_devices wf_append wf_minute wf_hourly wf_registry_ok
      registry_ok_reorder wf_db_registry wf_deletes wf_removes)

lemma other_coherent:
  assumes "store_coherent st"
  shows "store_coherent (snd (remove_device disk_ok k st))" "store_coherent (snd (clearSeries disk_ok k st))"
    "store_coherent (snd (clearDeviceHistory disk_ok k st))" "store_coherent (snd (setFanNote disk_ok k fan note st))"
    "store_coherent (snd (setConfig disk_ok k config st))" "store_coherent (snd (reorderDevices disk_ok now ks st))"
    "store_coherent (snd (deleteDevice disk_ok now k st))" "store_coherent (snd (runRetentionCleanup disk_ok now st))"
  using assms by (simp_all add: remove_device_def clearSeries_def clearDeviceHistory_def setFanNote_def setConfig_def
      reorderDevices_def deleteDevice_def runRetentionCleanup_def update_coherent)

lemma wf_cleanup:
  assumes "wf_db (contents st)"
  shows "wf_db (contents (snd (runRetentionCleanup disk_ok now st)))"
  unfolding runRetentionCleanup_def
proof (rule update_wf [OF _ assms])
  fix db assume db: "wf_db db"
  note ok = history_ok_retain [where m = "db_minuteHistory db" and n = MAX_MINUTE_POINTS and threshold = "now - MINUTE_RETENTION_MS"]
    history_ok_retain [where m = "db_history db" and n = MAX_HOURLY_POINTS and threshold = "now - HOURLY_RETENTION_MS"]
  show "wf_db (db\<lparr>db_minuteHistory := retain (now - MINUTE_RETENTION_MS) MAX_MINUTE_POINTS (db_minuteHistory db),
        db_history := retain (now - HOURLY_RETENTION_MS) MAX_HOURLY_POINTS (db_history db)\<rparr>)"
    using db ok by (simp add: wf_db_def distinct_retain)
qed

lemma wf_marked:
  assumes "wf_db (contents st)"
  shows "wf_db (contents (snd (markOfflineIfMatch disk_ok (id_deviceId (rs_identity state)) seen state st)))"
  unfolding markOfflineIfMatch_def
  by (rule commit_wf [OF _ assms]) (auto split: option.splits if_splits intro: wf_devices)

lemma wf_registered:
  assumes "wf_db (contents st)"
  shows "wf_db (contents (snd (registerOrUpdateDevice disk_ok now k name options st)))"
proof (cases "isLegacyVirtualMachineId k")
  case False
  have "wf_db (contents (snd (commit disk_ok (\<lambda>db. Inr (register_device now k name db)) st)))"
    by (rule commit_wf [OF _ assms]) (use False in \<open>auto dest: wf_register [where now = now and name = name]\<close>)
  with False assms show ?thesis
    by (simp add: registerOrUpdateDevice_def updateWhen_facts split: option.split)
qed (simp add: registerOrUpdateDevice_def assms)

lemma wf_deleted:
  "wf_db (contents st) \<Longrightarrow> wf_db (contents (snd (deleteDevice disk_ok now k st)))"
  by (simp add: deleteDevice_def update_facts wf_close)

lemma wf_regrouped:
  assumes "wf_db (contents st)"
  shows "wf_db (contents (snd (updateDeviceGroup disk_ok now ks name st)))"
proof -
  let ?f = "\<lambda>item :: DeviceRecord. item\<lparr>dv_group := map_option (take 64) (normalizeDeviceGroupName name), dv_updatedAt := toISOString now\<rparr>"
  have ok: "registry_ok (fold (modify_record ?f) xs m)" if "registry_ok m" for xs m
    using registry_ok_fold_modify [of "\<lambda>_. ?f" m "\<lambda>x. x" xs] that by simp
  show ?thesis
    unfolding updateDeviceGroup_def Let_def
    by (auto intro!: commit_wf assms wf_registry_ok ok wf_db_registry split: option.splits)
qed

lemma reachable_store_inv:
  assumes "reachable_store disk_ok st"
  shows "wf_db (contents st) \<and> store_coherent st"
  using assms
proof induction
  case start
  show ?case by (simp add: empty_store_def contents_def load_def store_coherent_def wf_EMPTY_DB)
next
  case (restarted st)
  then show ?case
    by (auto simp: restart_def contents_def load_def store_coherent_def Let_def split: option.splits)
next
  case (marked st state seen)
  then show ?case by (simp add: wf_marked markOffline.run_coherent)
next
  case (registered st now k name options)
  then show ?case by (simp add: wf_registered register.run_coherent)
next
  case (regrouped st now ks name)
  then show ?case by (simp add: wf_regrouped updateGroup.run_coherent)
next
  case (deleted st now k)
  then show ?case by (simp add: wf_deleted other_coherent)
next
  case (cleaned st now)
  then show ?case by (simp add: wf_cleanup other_coherent)
qed (simp_all add: wf_repositories upsert.run_coherent appendSeries.run_coherent insertMinute.run_coherent
    insertHourly.run_coherent other_coherent)

text \<open>
  C11: whatever operations run, in whatever order, with whatever write failures and restarts between them,
  the store is well formed (histories sorted, without repeated buckets and bounded; series without repeated
  timestamps; registry and live states filed under their own device id; no legacy id registered) and what it
  serves from memory is what is in the file.
\<close>

theorem reachable_store_wf:
  assumes "reachable_store disk_ok st"
  shows "wf_db (contents st) \<and> store_coherent st"
  using assms by (rule reachable_store_inv)

theorem reachable_store_wf_witness:
  "reachable_store (\<lambda>n. n \<noteq> 1) (restart (snd (setFanNote (\<lambda>n. n \<noteq> 1) ''a'' ''fan1'' ''front'' empty_store))) \<and>
   store_coherent (restart (snd (setFanNote (\<lambda>n. n \<noteq> 1) ''a'' ''fan1'' ''front'' empty_store))) \<and>
   fst (getFanNotes ''a'' (restart (snd (setFanNote (\<lambda>n. n \<noteq> 1) ''a'' ''fan1'' ''front'' empty_store)))) = [(''fan1'', ''front'')]"
proof -
  have r: "reachable_store (\<lambda>n. n \<noteq> 1) (restart (snd (setFanNote (\<lambda>n. n \<noteq> 1) ''a'' ''fan1'' ''front'' empty_store)))"
    by (intro reachable_store.restarted reachable_store.noted reachable_store.start)
  moreover have "fst (getFanNotes ''a'' (restart (snd (setFanNote (\<lambda>n. n \<noteq> 1) ''a'' ''fan1'' ''front'' empty_store)))) = [(''fan1'', ''front'')]"
    by (simp add: getFanNotes_def select_def setFanNote_def update_def commit_def load_def empty_store_def restart_def EMPTY_DB_def Let_def)
  ultimately show ?thesis
    using reachable_store_wf [OF r] by simp
qed

theorem insert_point_history_witness:
  "history_ok 2 (insert_point 2 (averageRecord demo_samples 0) [averageRecord demo_samples 60000, averageRecord demo_samples 120000])"
proof -
  have ts: "tr_timestamp (averageRecord demo_samples t) = t" for t
    by (simp add: averageRecord_def Let_def)
  have "history_ok 2 [averageRecord demo_samples 60000, averageRecord demo_samples 120000]"
    by (simp add: history_ok_def ts)
  from insert_point_history [OF this, of "averageRecord demo_samples 0"] show ?thesis by simp
qed

subsection \<open>Properties of the repositories\<close>

text \<open>
  Setting a group is all or nothing: an error (a reserved name, an unknown or closed device, a failed
  write) changes nothing; success means every listed device was open, exactly those records changed, and
  the name stored is at most 64 characters long and not reserved.
\<close>

theorem updateDeviceGroup_atomic:
  "case updateDeviceGroup disk_ok now ks name st of
     (Inl e, st') \<Rightarrow> contents st' = contents st
   | (Inr _, st') \<Rightarrow>
       (\<exists>g. list_all (\<lambda>k. \<not> not_open (contents st) k) ks \<and>
         (case g of None \<Rightarrow> True | Some n \<Rightarrow> n \<noteq> [] \<and> length n \<le> 64 \<and> \<not> isReservedDeviceGroupName n) \<and>
         (\<forall>k. map_get (db_deviceRegistry (contents st')) k =
            (if k \<in> set ks then map_option (\<lambda>d. d\<lparr>dv_group := g, dv_updatedAt := toISOString now\<rparr>)
               (map_get (db_deviceRegistry (contents st)) k)
             else map_get (db_deviceRegistry (contents st)) k)))"
proof (cases "fst (updateDeviceGroup disk_ok now ks name st)")
  case (Inl e)
  then show ?thesis
    using updateGroup.failure_keeps [OF Inl] by (simp add: case_prod_unfold)
next
  case (Inr u)
  define g where "g = map_option (take 64) (normalizeDeviceGroupName name)"
  let ?f = "\<lambda>item :: DeviceRecord. item\<lparr>dv_group := g, dv_updatedAt := toISOString now\<rparr>"
  from Inr have nr: "\<not> (truthy g \<and> isReservedDeviceGroupName (the g))"
    and nf: "List.find (not_open (contents st)) (js_uniq ks) = None" and d: "disk_ok (st_writes st)"
    unfolding updateDeviceGroup_def Let_def g_def [symmetric]
    by (auto simp: commit_fst split: if_splits option.splits)
  then have reg: "db_deviceRegistry (contents (snd (updateDeviceGroup disk_ok now ks name st))) =
      fold (modify_record ?f) (js_uniq ks) (db_deviceRegistry (contents st))"
    unfolding updateDeviceGroup_def Let_def g_def [symmetric] by (auto simp: commit_contents)
  have "case g of None \<Rightarrow> True | Some n \<Rightarrow> n \<noteq> [] \<and> length n \<le> 64 \<and> \<not> isReservedDeviceGroupName n"
    using nr by (auto simp: g_def normalizeDeviceGroupName_def Let_def split: option.splits if_splits)
  moreover have "list_all (\<lambda>k. \<not> not_open (contents st) k) ks"
    using nf by (auto simp: find_None_iff list_all_iff)
  moreover have "map_get (db_deviceRegistry (contents (snd (updateDeviceGroup disk_ok now ks name st)))) k =
      (if k \<in> set ks then map_option ?f (map_get (db_deviceRegistry (contents st)) k)
       else map_get (db_deviceRegistry (contents st)) k)" for k
    by (simp add: reg map_get_fold_modify)
  ultimately show ?thesis
    unfolding case_prod_unfold Inr sum.case by blast
qed

lemma fold_max_order:
  "a \<le> fold (\<lambda>d m. max m (dv_sortOrder d)) es a \<and>
   (\<forall>e \<in> set es. dv_sortOrder e \<le> fold (\<lambda>d m. max m (dv_sortOrder d)) es a)"
proof (induction es arbitrary: a)
  case (Cons d es)
  from Cons.IH [of "max a (dv_sortOrder d)"] show ?case by auto
qed simp

text \<open>
  Registering a device returns the record now stored for it and touches no other record; a new device is
  open and sorts after all others; a known device keeps its place, group and registration time, and is open
  afterwards only if it was open or reopening was asked for; a legacy virtual-machine id is answered as
  closed and never stored.
\<close>

theorem registration:
  assumes "registerOrUpdateDevice disk_ok now k name options st = (Inr d, st')" "wf_db (contents st)"
  shows "dv_deviceId d = k \<and> (\<forall>x. x \<noteq> k \<longrightarrow> map_get (db_deviceRegistry (contents st')) x = map_get (db_deviceRegistry (contents st)) x) \<and>
    (if isLegacyVirtualMachineId k then dv_status d = Closed \<and> contents st' = contents st
     else map_get (db_deviceRegistry (contents st')) k = Some d \<and>
       (case map_get (db_deviceRegistry (contents st)) k of
          None \<Rightarrow> dv_status d = Open \<and> (\<forall>e \<in> set (map_values (db_deviceRegistry (contents st))). dv_sortOrder e < dv_sortOrder d)
        | Some e \<Rightarrow> dv_sortOrder d = dv_sortOrder e \<and> dv_group d = dv_group e \<and> dv_registeredAt d = dv_registeredAt e \<and>
            (dv_status d = Open \<longleftrightarrow> dv_status e = Open \<or> ro_reopenClosed options)))"
proof (cases "isLegacyVirtualMachineId k")
  case True
  with assms show ?thesis by (auto simp: registerOrUpdateDevice_def legacyVirtualMachineRecord_def)
next
  case False
  let ?reg = "db_deviceRegistry (contents st)"
  have res: "Inr d = (case registration_unneeded k name options (contents st) of Some r \<Rightarrow> Inr r
      | None \<Rightarrow> fst (commit disk_ok (\<lambda>db. Inr (register_device now k name db)) st))"
    and con: "contents st' = (case registration_unneeded k name options (contents st) of Some r \<Rightarrow> contents st
      | None \<Rightarrow> contents (snd (commit disk_ok (\<lambda>db. Inr (register_device now k name db)) st)))"
    using False assms(1) updateWhen_facts(1,2) [of disk_ok "registration_unneeded k name options" "\<lambda>db. Inr (register_device now k name db)" st]
    by (simp_all add: registerOrUpdateDevice_def)
  show ?thesis
  proof (cases "registration_unneeded k name options (contents st)")
    case (Some r)
    then have r: "map_get ?reg k = Some r" "d = r" "contents st' = contents st"
      "dv_status r = Closed \<and> \<not> ro_reopenClosed options \<or> dv_status r = Open"
      using res con by (auto simp: registration_unneeded_def split: option.splits if_splits)
    with False show ?thesis
      using registry_get_ok [OF wf_db_registry [OF assms(2)] r(1)] by auto
  next
    case None
    then have st': "contents st' = fst (register_device now k name (contents st))"
      and d: "d = snd (register_device now k name (contents st))"
      using res con by (auto simp: commit_fst commit_contents split: if_splits prod.splits)
    show ?thesis
    proof (cases "map_get ?reg k")
      case None
      with False fold_max_order [of "-1" "map_values ?reg"] show ?thesis
        by (simp add: st' d register_device_def Let_def zle_add1_eq_le)
    next
      case (Some e)
      have "\<not> (dv_status e = Closed \<and> \<not> ro_reopenClosed options)"
        using \<open>registration_unneeded k name options (contents st) = None\<close> Some
        by (simp add: registration_unneeded_def split: if_splits)
      with False Some registry_get_ok [OF wf_db_registry [OF assms(2)] Some] show ?thesis
        by (cases "dv_status e") (simp_all add: st' d register_device_def Let_def)
    qed
  qed
qed

definition demo_store :: LocalJsonStore where
  "demo_store = snd (registerOrUpdateDevice (\<lambda>_. True) 0 ''b'' None \<lparr>ro_reopenClosed = False, ro_skipUnchanged = False\<rparr>
     (snd (registerOrUpdateDevice (\<lambda>_. True) 0 ''a'' None \<lparr>ro_reopenClosed = False, ro_skipUnchanged = False\<rparr> empty_store)))"

definition demo_record :: "string \<Rightarrow> int \<Rightarrow> DeviceRecord" where
  "demo_record k i = \<lparr>dv_deviceId = k, dv_name = k, dv_status = Open, dv_sortOrder = i, dv_group = None,
     dv_registeredAt = toISOString 0, dv_updatedAt = toISOString 0\<rparr>"

lemma demo_registry:
  "db_deviceRegistry (contents demo_store) = [(''a'', demo_record ''a'' 0), (''b'', demo_record ''b'' 1)]"
  by (simp add: demo_store_def registerOrUpdateDevice_def updateWhen_def isLegacyVirtualMachineId_def
      LEGACY_VM_PREFIX_def load_def empty_store_def EMPTY_DB_def registration_unneeded_def commit_def
      register_device_def contents_def Let_def demo_record_def)

lemma demo_store_wf: "wf_db (contents demo_store)"
  unfolding demo_store_def
  by (intro wf_registered) (simp add: empty_store_def contents_def load_def wf_EMPTY_DB)

theorem registration_witness:
  "\<exists>d st'. registerOrUpdateDevice (\<lambda>_. True) 5 ''c'' None \<lparr>ro_reopenClosed = False, ro_skipUnchanged = True\<rparr> demo_store = (Inr d, st')
     \<and> dv_deviceId d = ''c'' \<and> 1 < dv_sortOrder d"
proof -
  let ?r = "registerOrUpdateDevice (\<lambda>_. True) 5 ''c'' None \<lparr>ro_reopenClosed = False, ro_skipUnchanged = True\<rparr> demo_store"
  have legacy: "\<not> isLegacyVirtualMachineId ''c''"
    by (simp add: isLegacyVirtualMachineId_def LEGACY_VM_PREFIX_def)
  then have "\<exists>d. fst ?r = Inr d"
    by (simp add: registerOrUpdateDevice_def updateWhen_facts commit_fst registration_unneeded_def demo_registry split: prod.split)
  then obtain d st' where r: "?r = (Inr d, st')" by (metis prod.collapse)
  show ?thesis
    using registration [OF r demo_store_wf] legacy r by (auto simp: demo_registry demo_record_def)
qed

lemma map_get_reorder:
  assumes "distinct ks" "i < length ks"
  shows "map_get (reorder_registry now ks m) (ks ! i) =
    map_option (\<lambda>item. item\<lparr>dv_sortOrder := int i, dv_updatedAt := toISOString now\<rparr>) (map_get m (ks ! i))"
proof -
  have *: "map_get (fold (\<lambda>y. modify_record (\<lambda>item. item\<lparr>dv_sortOrder := int (fst y), dv_updatedAt := toISOString now\<rparr>) (snd y))
      (enumerate n ks) m) k = (if k \<in> set ks then map_option (\<lambda>item. item\<lparr>dv_sortOrder := int (n + the (find_index (\<lambda>x. x = k) ks)),
        dv_updatedAt := toISOString now\<rparr>) (map_get m k) else map_get m k)" for n k
    using assms(1)
  proof (induction ks arbitrary: n m)
    case (Cons x ks)
    have "\<exists>j. find_index (\<lambda>x. x = k) ks = Some j" if "k \<in> set ks"
      using that find_index_None_iff [of "\<lambda>x. x = k" ks] by (metis option.exhaust)
    with Cons show ?case by (auto simp: map_get_modify add.commute add.left_commute)
  qed simp
  have "find_index (\<lambda>x. x = ks ! i) ks = Some i"
  proof -
    from assms(2) find_index_None_iff [of "\<lambda>x. x = ks ! i" ks] obtain j where j: "find_index (\<lambda>x. x = ks ! i) ks = Some j"
      by (metis nth_mem option.exhaust)
    with find_index_SomeD [OF j] assms show ?thesis by (metis nth_eq_iff_index_eq)
  qed
  with *[of 0 "ks ! i"] assms show ?thesis by (simp add: reorder_registry_fold)
qed

lemma map_keys_reorder: "map_keys (reorder_registry now ks m) = map_keys m"
proof -
  have "map_keys (fold (\<lambda>y. modify_record (f y) (g y)) ys m) = map_keys m" for f g ys
    by (induction ys arbitrary: m) simp_all
  then show ?thesis by (simp add: reorder_registry_fold)
qed

lemma status_reorder:
  "map_option dv_status (map_get (reorder_registry now ks m) k) = map_option dv_status (map_get m k)"
proof -
  have "map_option dv_status (map_get (fold (\<lambda>y. modify_record (f y) (g y)) ys m) k) = map_option dv_status (map_get m k)"
    if "\<And>y d. dv_status (f y d) = dv_status d" for f :: "nat \<times> string \<Rightarrow> DeviceRecord \<Rightarrow> DeviceRecord" and g ys
    by (induction ys arbitrary: m) (simp_all add: map_get_modify option.map_comp comp_def that)
  from this [of "\<lambda>y item. item\<lparr>dv_sortOrder := int (fst y), dv_updatedAt := toISOString now\<rparr>"] show ?thesis
    by (simp add: reorder_registry_fold)
qed

text \<open>The ids of the open, non-legacy devices of a database.\<close>

definition open_ids :: "LocalDbShape \<Rightarrow> string set" where
  "open_ids db = {k. \<exists>d. map_get (db_deviceRegistry db) k = Some d \<and> dv_status d = Open \<and> \<not> isLegacyVirtualMachineId k}"

lemma open_ids_status:
  "open_ids db = {k. map_option dv_status (map_get (db_deviceRegistry db) k) = Some Open \<and> \<not> isLegacyVirtualMachineId k}"
  by (auto simp: open_ids_def)

lemma sorted_first: "sorted (map (\<lambda>d. (a d, b d)) xs) \<Longrightarrow> sorted (map a xs)"
  for a :: "'d \<Rightarrow> 'a::linorder" and b :: "'d \<Rightarrow> 'b::linorder"
  by (auto simp: sorted_map less_eq_prod_simp elim!: sorted_wrt_mono_rel [rotated])

lemma public_record_keeps [simp]:
  "dv_deviceId (public_record d) = dv_deviceId d" "dv_sortOrder (public_record d) = dv_sortOrder d"
  "dv_status (public_record d) = dv_status d"
  by (simp_all add: public_record_def)

lemma open_devices_order:
  assumes "registry_ok (db_deviceRegistry db)" "distinct ks" "set ks = open_ids db"
    and order: "\<And>i d. i < length ks \<Longrightarrow> map_get (db_deviceRegistry db) (ks ! i) = Some d \<Longrightarrow> dv_sortOrder d = int i"
  shows "map dv_deviceId (open_devices localeKey db) = ks"
proof -
  let ?o = "filter (\<lambda>d. dv_status d = Open \<and> \<not> isLegacyVirtualMachineId (dv_deviceId d)) (map_values (db_deviceRegistry db))"
  let ?L = "open_devices localeKey db"
  let ?f = "\<lambda>k. dv_sortOrder (the (map_get (db_deviceRegistry db) k))"
  have get: "map_get (db_deviceRegistry db) (dv_deviceId d) = Some d" if "d \<in> set (map_values (db_deviceRegistry db))" for d
    using that assms(1) by (auto simp: registry_ok_def intro!: map_of_is_SomeI)
  have "set (map dv_deviceId ?o) = open_ids db"
  proof
    show "open_ids db \<subseteq> set (map dv_deviceId ?o)"
    proof
      fix k assume "k \<in> open_ids db"
      then obtain d where d: "map_get (db_deviceRegistry db) k = Some d" "dv_status d = Open" "\<not> isLegacyVirtualMachineId k"
        by (auto simp: open_ids_def)
      with registry_get_ok [OF assms(1) d(1)] map_get_set_mem [OF d(1)] show "k \<in> set (map dv_deviceId ?o)"
        by force
    qed
  qed (use get in \<open>force simp: open_ids_def\<close>)
  then have set_eq: "set (map dv_deviceId ?L) = set ks"
    by (simp add: open_devices_def assms(3) image_image)
  have "map_keys (db_deviceRegistry db) = map dv_deviceId (map_values (db_deviceRegistry db))"
    using assms(1) by (auto simp: registry_ok_def)
  then have "distinct (map dv_deviceId (map_values (db_deviceRegistry db)))"
    using assms(1) by (metis registry_ok_def)
  then have "distinct (map dv_deviceId ?o)"
    by (rule distinct_map_filter)
  then have dL: "distinct (map dv_deviceId ?L)"
    by (simp add: open_devices_def distinct_map_sort_by comp_def)
  have idx: "?f (ks ! i) = int i" if "i < length ks" for i
    using that order [OF that] nth_mem [OF that] by (auto simp: assms(3) open_ids_def)
  then have fks: "map ?f ks = map int [0..<length ks]"
    by (auto intro: nth_equalityI)
  then have dfks: "distinct (map ?f ks)"
    by (simp add: distinct_map)
  have fL: "map ?f (map dv_deviceId ?L) = map dv_sortOrder ?L"
    using get by (auto simp: open_devices_def)
  show ?thesis
  proof (rule map_sorted_distinct_set_unique)
    show "inj_on ?f (set (map dv_deviceId ?L) \<union> set ks)"
      using dfks set_eq by (simp add: distinct_map)
    then show "distinct (map ?f (map dv_deviceId ?L))"
      using distinct_map [of ?f "map dv_deviceId ?L"] dL by (simp add: inj_on_Un del: map_map)
    show "sorted (map ?f (map dv_deviceId ?L))"
      unfolding fL unfolding open_devices_def by (rule sorted_first [OF sorted_sort_by])
    show "sorted (map ?f ks)"
      unfolding fks by (simp add: sorted_map)
  qed (rule dfks, rule set_eq)
qed

text \<open>
  After a successful reorder by a list of exactly the open devices, the registry lists the open devices
  in that order, however the locale orders ids.
\<close>

theorem reorder_lists_in_order:
  assumes "wf_db (contents st)" "distinct ks" "set ks = open_ids (contents st)"
    and "reorderDevices disk_ok now ks st = (Inr (), st')"
  shows "map dv_deviceId (fst (listOpenDevices localeKey st')) = ks"
proof -
  let ?reg = "db_deviceRegistry (contents st)"
  have con: "db_deviceRegistry (contents st') = reorder_registry now ks ?reg"
    using assms(4) update_facts [of disk_ok "\<lambda>db. db\<lparr>db_deviceRegistry := reorder_registry now ks (db_deviceRegistry db)\<rparr>" st]
    by (auto simp: reorderDevices_def split: if_splits)
  have "open_ids (contents st') = open_ids (contents st)"
    by (simp add: open_ids_status con status_reorder)
  moreover have "registry_ok (db_deviceRegistry (contents st'))"
    unfolding con by (intro registry_ok_reorder wf_db_registry assms(1))
  moreover have "dv_sortOrder d = int i" if "i < length ks" "map_get (db_deviceRegistry (contents st')) (ks ! i) = Some d" for i d
    using that assms(2) by (auto simp: con map_get_reorder)
  ultimately show ?thesis
    using assms(2,3) unfolding listOpenDevices_def select_facts(1) by (intro open_devices_order) simp_all
qed

theorem reorder_lists_in_order_witness:
  "map dv_deviceId (fst (listOpenDevices (\<lambda>_. 0) (snd (reorderDevices (\<lambda>_. True) 7 [''b'', ''a''] demo_store)))) = [''b'', ''a'']"
proof (rule reorder_lists_in_order [OF demo_store_wf])
  show "reorderDevices (\<lambda>_. True) 7 [''b'', ''a''] demo_store = (Inr (), snd (reorderDevices (\<lambda>_. True) 7 [''b'', ''a''] demo_store))"
    using update_facts(1) [of "\<lambda>_. True"] by (simp add: prod_eq_iff reorderDevices_def)
  show "set [''b'', ''a''] = open_ids (contents demo_store)"
    by (auto simp: open_ids_def demo_registry demo_record_def isLegacyVirtualMachineId_def LEGACY_VM_PREFIX_def split: if_splits)
qed simp

text \<open>
  Marking a device offline is a compare-and-set on the last heartbeat: it reports success exactly when
  the device still shows the expected heartbeat, and then replaces that state only; otherwise nothing changes.
\<close>

theorem markOffline_compare_and_set:
  assumes "markOfflineIfMatch disk_ok k seen state st = (Inr b, st')"
  shows "b = (map_option rs_lastSeenAt (map_get (db_devices (contents st)) k) = Some seen) \<and>
    contents st' = (if b then (contents st)\<lparr>db_devices := map_set k state (db_devices (contents st))\<rparr> else contents st)"
proof -
  have "Inr b = fst (markOfflineIfMatch disk_ok k seen state st)" "contents st' = contents (snd (markOfflineIfMatch disk_ok k seen state st))"
    using assms by simp_all
  then show ?thesis
    unfolding markOfflineIfMatch_def commit_fst commit_contents
    by (auto split: option.splits if_splits)
qed

theorem markOffline_compare_and_set_witness:
  "\<exists>st'. markOfflineIfMatch (\<lambda>_. True) ''a'' ''t1''
      \<lparr>rs_identity = demo_identity, rs_status = Offline, rs_lastSeenAt = ''t1'', rs_latest = demo_payload 0\<rparr> demo_store = (Inr False, st')
     \<and> contents st' = contents demo_store"
proof -
  let ?r = "markOfflineIfMatch (\<lambda>_. True) ''a'' ''t1''
      \<lparr>rs_identity = demo_identity, rs_status = Offline, rs_lastSeenAt = ''t1'', rs_latest = demo_payload 0\<rparr> demo_store"
  have "\<exists>b. fst ?r = Inr b"
    by (auto simp: markOfflineIfMatch_def commit_fst split: option.split)
  then obtain b st' where r: "?r = (Inr b, st')" by (metis prod.collapse)
  have "db_devices (contents demo_store) = []"
    by (simp add: demo_store_def registerOrUpdateDevice_def updateWhen_def isLegacyVirtualMachineId_def
      LEGACY_VM_PREFIX_def load_def empty_store_def EMPTY_DB_def registration_unneeded_def commit_def
      register_device_def contents_def Let_def)
  with markOffline_compare_and_set [OF r] r show ?thesis by auto
qed

lemma historical_series_retained:
  assumes "wf_db db" "now \<le> now'"
  shows "historical_series now' k w (db\<lparr>db_minuteHistory := retain (now - MINUTE_RETENTION_MS) MAX_MINUTE_POINTS (db_minuteHistory db),
      db_history := retain (now - HOURLY_RETENTION_MS) MAX_HOURLY_POINTS (db_history db)\<rparr>) = historical_series now' k w db"
proof -
  have kept: "filter (\<lambda>p. t \<le> tr_timestamp p) (nullish (map_get (retain th n m) k) [])
      = filter (\<lambda>p. t \<le> tr_timestamp p) (nullish (map_get m k) [])"
    if "distinct (map_keys m)" "\<forall>(k, ps) \<in> set m. history_ok n ps" "th \<le> t" for t th n m
  proof (cases "map_get m k")
    case (Some ps)
    then have "length ps \<le> n" using that(2) by (auto dest!: map_get_set_mem simp: history_ok_def)
    then have "retained th n ps = filter (\<lambda>p. th \<le> tr_timestamp p) ps"
      by (intro slice_neg_short) (meson le_trans length_filter_le)
    moreover have "filter (\<lambda>p. t \<le> tr_timestamp p) (filter (\<lambda>p. th \<le> tr_timestamp p) ps) = filter (\<lambda>p. t \<le> tr_timestamp p) ps"
      using that(3) by (auto intro!: filter_cong)
    moreover have "filter (\<lambda>p. t \<le> tr_timestamp p) ps = []" if "filter (\<lambda>p. th \<le> tr_timestamp p) ps = []"
      using that \<open>th \<le> t\<close> by (auto simp: filter_empty_conv)
    ultimately show ?thesis
      using Some that(1) by (auto simp: map_get_retain)
  qed (simp add: map_get_retain that(1))
  have d: "window_duration w \<le> MINUTE_RETENTION_MS" "window_hours w * 60 * 60 * 1000 \<le> HOURLY_RETENTION_MS"
    by (simp_all add: window_duration_def window_hours_def MINUTE_RETENTION_MS_def HOURLY_RETENTION_MS_def)
  have m: "distinct (map_keys (db_minuteHistory db))" "\<forall>(k, ps) \<in> set (db_minuteHistory db). history_ok MAX_MINUTE_POINTS ps"
    "distinct (map_keys (db_history db))" "\<forall>(k, ps) \<in> set (db_history db). history_ok MAX_HOURLY_POINTS ps"
    using assms(1) by (simp_all add: wf_db_def)
  have "now - MINUTE_RETENTION_MS \<le> now' - window_duration w" "now - HOURLY_RETENTION_MS \<le> now' - window_hours w * 60 * 60 * 1000"
    using d assms(2) by linarith+
  from kept [OF m(1,2) this(1)] kept [OF m(3,4) this(2)] show ?thesis
    by (simp add: historical_series_def)
qed

text \<open>
  Retention removes nothing a query could still return: after a cleanup at some time, every historical
  series asked for at that time or later, in any window, is what it was before.
\<close>

theorem retention_keeps_queries:
  assumes "wf_db (contents st)" "runRetentionCleanup disk_ok now st = (r, st')" "now \<le> now'"
  shows "fst (getHistoricalSeries now' k w st') = fst (getHistoricalSeries now' k w st)"
proof -
  have "contents st' = contents (snd (runRetentionCleanup disk_ok now st))"
    using assms(2) by simp
  then show ?thesis
    using historical_series_retained [OF assms(1,3), of k w]
    by (simp add: getHistoricalSeries_def runRetentionCleanup_def update_facts)
qed

theorem retention_keeps_queries_witness:
  "fst (getHistoricalSeries 5 ''a'' W1h (snd (runRetentionCleanup (\<lambda>_. True) 3 demo_store)))
     = fst (getHistoricalSeries 5 ''a'' W1h demo_store)"
  by (rule retention_keeps_queries [OF demo_store_wf, where disk_ok = "\<lambda>_. True" and now = 3
      and r = "fst (runRetentionCleanup (\<lambda>_. True) 3 demo_store)"]) simp_all

end
