(* ===== verification/Service.thy ===== *)
theory Service
  imports LocalStore
begin

text \<open>
  \<open>MetricsService\<close> of \<open>apps/server/src/services/metrics.ts\<close> over the local repositories: ingestion,
  minute and hour accumulators, flushing, removal, offline detection and reads.

  The service runs every operation that touches a device under that device's two serial queues, so one
  operation is one step of the state.  Accumulators are objects that the code mutates and that its
  \<open>WeakSet\<close> and \<open>WeakMap\<close> key by identity; they live in a store of references.  The minute and
  hour code, identical up to window, bound and table, is one definition with the tier as argument.
  Failures are those of the repositories; a failing listener of \<open>emitDeviceEvent\<close> has no effect.
  \<open>forEachBounded\<close> visits all items and collects failures; items are visited in order.
\<close>

subsection \<open>State\<close>

datatype Tier = Minute | Hourly

fun window_ms :: "Tier \<Rightarrow> int" where
  "window_ms Minute = 60 * 1000" | "window_ms Hourly = 60 * 60 * 1000"

fun max_samples :: "Tier \<Rightarrow> nat" where
  "max_samples Minute = 256" | "max_samples Hourly = 4096"

record MetricsService =
  sv_store :: LocalJsonStore
  sv_heap :: "(ref, MetricAccumulator) jsmap"
  sv_next :: ref
  sv_minuteAccumulators :: "(string, ref) jsmap"
  sv_hourlyAccumulators :: "(string, ref) jsmap"
  sv_dirtyAccumulators :: "ref list"
  sv_snapshots :: snapshots
  sv_events :: "DeviceRealtimeEvent list"

fun accumulators :: "Tier \<Rightarrow> MetricsService \<Rightarrow> (string, ref) jsmap" where
  "accumulators Minute s = sv_minuteAccumulators s" | "accumulators Hourly s = sv_hourlyAccumulators s"

fun set_accumulators :: "Tier \<Rightarrow> (string, ref) jsmap \<Rightarrow> MetricsService \<Rightarrow> MetricsService" where
  "set_accumulators Minute m s = s\<lparr>sv_minuteAccumulators := m\<rparr>"
| "set_accumulators Hourly m s = s\<lparr>sv_hourlyAccumulators := m\<rparr>"

text \<open>\<open>this.minuteAccumulators.get(deviceId)\<close>: the object and its contents.\<close>

definition current_accumulator :: "Tier \<Rightarrow> string \<Rightarrow> MetricsService \<Rightarrow> (ref \<times> MetricAccumulator) option" where
  "current_accumulator tier deviceId s =
     Option.bind (map_get (accumulators tier s) deviceId) (\<lambda>r. map_option (Pair r) (map_get (sv_heap s) r))"

definition new_service :: "LocalJsonStore \<Rightarrow> MetricsService" where
  "new_service st = \<lparr>sv_store = st, sv_heap = [], sv_next = 0, sv_minuteAccumulators = [], sv_hourlyAccumulators = [],
     sv_dirtyAccumulators = [], sv_snapshots = [], sv_events = []\<rparr>"

definition emitDeviceEventSafely :: "DeviceRealtimeEvent \<Rightarrow> MetricsService \<Rightarrow> MetricsService" where
  "emitDeviceEventSafely event s = s\<lparr>sv_events := sv_events s @ [event]\<rparr>"

text \<open>Running an operation of the store from the service.\<close>

definition on_store :: "(LocalJsonStore \<Rightarrow> 'a \<times> LocalJsonStore) \<Rightarrow> MetricsService \<Rightarrow> 'a \<times> MetricsService" where
  "on_store f s = (let (r, st) = f (sv_store s) in (r, s\<lparr>sv_store := st\<rparr>))"

type_synonym 'a service_op = "MetricsService \<Rightarrow> 'a outcome \<times> MetricsService"

text \<open>\<open>await a; await b\<close>: the second runs only if the first succeeded.\<close>

definition then_do :: "'a service_op \<Rightarrow> ('a \<Rightarrow> 'b service_op) \<Rightarrow> 'b service_op" where
  "then_do f g s = (case f s of (Inl e, s') \<Rightarrow> (Inl e, s') | (Inr x, s') \<Rightarrow> g x s')"

subsection \<open>Accumulators\<close>

fun insert_tier :: "Tier \<Rightarrow> disk \<Rightarrow> string \<Rightarrow> TimeSeriesRecord \<Rightarrow> LocalJsonStore \<Rightarrow> unit outcome \<times> LocalJsonStore" where
  "insert_tier Minute = insertMinutePoint" | "insert_tier Hourly = insertHourlyPoint"

definition persist_accumulator :: "Tier \<Rightarrow> disk \<Rightarrow> string \<Rightarrow> ref \<Rightarrow> unit service_op" where
  "persist_accumulator tier disk_ok deviceId current s =
     (if current \<notin> set (sv_dirtyAccumulators s) then (Inr (), s)
      else case map_get (sv_heap s) current of
          None \<Rightarrow> (Inr (), s)
        | Some acc \<Rightarrow>
            (let (snapshot, snaps) = snapshots_read averageRecord current acc (sv_snapshots s);
                 (result, st) = insert_tier tier disk_ok deviceId snapshot (sv_store s);
                 s' = s\<lparr>sv_snapshots := snaps, sv_store := st\<rparr>
             in case result of
                  Inl e \<Rightarrow> (Inl e, s')
                | Inr _ \<Rightarrow> (Inr (), s'\<lparr>sv_dirtyAccumulators := removeAll current (sv_dirtyAccumulators s)\<rparr>)))"

definition persistMinuteAccumulator :: "disk \<Rightarrow> string \<Rightarrow> ref \<Rightarrow> unit service_op" where
  "persistMinuteAccumulator = persist_accumulator Minute"

definition persistHourlyAccumulator :: "disk \<Rightarrow> string \<Rightarrow> ref \<Rightarrow> unit service_op" where
  "persistHourlyAccumulator = persist_accumulator Hourly"

definition bucket_start :: "Tier \<Rightarrow> int \<Rightarrow> int" where
  "bucket_start tier t = (t div window_ms tier) * window_ms tier"

definition open_bucket :: "Tier \<Rightarrow> string \<Rightarrow> TimeSeriesRecord \<Rightarrow> MetricsService \<Rightarrow> MetricsService" where
  "open_bucket tier deviceId point s =
     (let r = sv_next s;
          acc = \<lparr>ac_bucketStartedAt = bucket_start tier (tr_timestamp point), ac_samples = [point]\<rparr>
      in (set_accumulators tier (map_set deviceId r (accumulators tier s)) s)
           \<lparr>sv_heap := map_set r acc (sv_heap s), sv_next := Suc r,
            sv_dirtyAccumulators := set_add r (sv_dirtyAccumulators s)\<rparr>)"

definition add_sample :: "nat \<Rightarrow> TimeSeriesRecord \<Rightarrow> TimeSeriesRecord list \<Rightarrow> TimeSeriesRecord list" where
  "add_sample maxSamples point samples =
     (case find_index (\<lambda>sample. tr_timestamp sample = tr_timestamp point) samples of
        Some existingIndex \<Rightarrow> samples[existingIndex := point]
      | None \<Rightarrow> (if length samples \<ge> maxSamples then tl samples else samples) @ [point])"

definition extend_bucket :: "Tier \<Rightarrow> ref \<Rightarrow> MetricAccumulator \<Rightarrow> TimeSeriesRecord \<Rightarrow> MetricsService \<Rightarrow> MetricsService" where
  "extend_bucket tier r current point s =
     s\<lparr>sv_heap := map_set r (current\<lparr>ac_samples := add_sample (max_samples tier) point (ac_samples current)\<rparr>) (sv_heap s),
       sv_snapshots := snapshots_invalidate r (sv_snapshots s),
       sv_dirtyAccumulators := set_add r (sv_dirtyAccumulators s)\<rparr>"

definition add_aggregate :: "Tier \<Rightarrow> disk \<Rightarrow> string \<Rightarrow> TimeSeriesRecord \<Rightarrow> unit service_op" where
  "add_aggregate tier disk_ok deviceId point s =
     (case current_accumulator tier deviceId s of
        None \<Rightarrow> (Inr (), open_bucket tier deviceId point s)
      | Some (r, current) \<Rightarrow>
          if ac_bucketStartedAt current \<noteq> bucket_start tier (tr_timestamp point)
          then then_do
                 (if ac_samples current \<noteq> [] then persist_accumulator tier disk_ok deviceId r else (\<lambda>s. (Inr (), s)))
                 (\<lambda>_ s. (Inr (), open_bucket tier deviceId point s)) s
          else (Inr (), extend_bucket tier r current point s))"

definition addMinuteAggregate :: "disk \<Rightarrow> string \<Rightarrow> TimeSeriesRecord \<Rightarrow> unit service_op" where
  "addMinuteAggregate = add_aggregate Minute"

definition addHourlyAggregate :: "disk \<Rightarrow> string \<Rightarrow> TimeSeriesRecord \<Rightarrow> unit service_op" where
  "addHourlyAggregate = add_aggregate Hourly"

definition drop_accumulators :: "string \<Rightarrow> MetricsService \<Rightarrow> MetricsService" where
  "drop_accumulators deviceId s =
     s\<lparr>sv_minuteAccumulators := map_delete deviceId (sv_minuteAccumulators s),
       sv_hourlyAccumulators := map_delete deviceId (sv_hourlyAccumulators s)\<rparr>"

subsection \<open>Configuration\<close>

definition getEnabledMetrics :: "string \<Rightarrow> MetricsService \<Rightarrow> DeviceMetricKey list \<times> MetricsService" where
  "getEnabledMetrics deviceId s =
     (let (configured, s') = on_store (getConfig deviceId) s
      in (case configured of None \<Rightarrow> ALL_DEVICE_METRIC_KEYS | Some c \<Rightarrow> cf_enabledMetrics c, s'))"

definition getMetricConfig :: "string \<Rightarrow> MetricsService \<Rightarrow> DeviceMetricConfigValue \<times> MetricsService" where
  "getMetricConfig deviceId s =
     (let (configured, s') = on_store (getConfig deviceId) s
      in (case configured of
            None \<Rightarrow> \<lparr>cf_enabledMetrics = ALL_DEVICE_METRIC_KEYS, cf_enabledDeviceIds = Some [], cf_instanceMetricConfig = Some []\<rparr>
          | Some c \<Rightarrow> c, s'))"

definition setEnabledMetrics :: "disk \<Rightarrow> string \<Rightarrow> DeviceMetricConfigValue \<Rightarrow> unit service_op" where
  "setEnabledMetrics disk_ok deviceId config = on_store (setConfig disk_ok deviceId config)"

subsection \<open>Ingestion\<close>

definition hasIdentityBoundaryChanged :: "AgentIdentity \<Rightarrow> AgentIdentity \<Rightarrow> bool" where
  "hasIdentityBoundaryChanged previous next' \<longleftrightarrow>
     id_os previous \<noteq> id_os next' \<or> id_platform previous \<noteq> id_platform next' \<or> id_arch previous \<noteq> id_arch next'
     \<or> id_hostname previous \<noteq> id_hostname next'"

text \<open>\<open>a <= b\<close> on the results of \<open>Date.parse\<close>: false if either is \<open>NaN\<close>.\<close>

definition parsed_le :: "int option \<Rightarrow> int option \<Rightarrow> bool" where
  "parsed_le a b = (case (a, b) of (Some x, Some y) \<Rightarrow> x \<le> y | _ \<Rightarrow> False)"

definition is_stale :: "DeviceRealtimeState option \<Rightarrow> AgentMetricsPayload \<Rightarrow> bool" where
  "is_stale previousState payload =
     (case previousState of None \<Rightarrow> False
      | Some p \<Rightarrow> parsed_le (Date_parse (pa_timestamp payload)) (Date_parse (pa_timestamp (rs_latest p))))"

text \<open>The two raw windows: both appends are issued, and either may fail.\<close>

definition append_windows :: "disk \<Rightarrow> string \<Rightarrow> TimeSeriesRecord \<Rightarrow> unit service_op" where
  "append_windows disk_ok deviceId point s =
     (let (r1, s1) = on_store (appendSeries disk_ok deviceId W1m point 30) s;
          (r2, s2) = on_store (appendSeries disk_ok deviceId W5m point 150) s1
      in (case r1 of Inl e \<Rightarrow> Inl e | Inr _ \<Rightarrow> r2, s2))"

definition realtime_state :: "AgentMetricsPayload \<Rightarrow> int \<Rightarrow> DeviceRealtimeState" where
  "realtime_state payload receivedAt =
     \<lparr>rs_identity = pa_identity payload, rs_status = Online, rs_lastSeenAt = toISOString receivedAt, rs_latest = payload\<rparr>"

definition payload_event :: "DeviceRealtimeState \<Rightarrow> int \<Rightarrow> string option \<Rightarrow> DeviceRealtimeEvent" where
  "payload_event state sortOrder groupName =
     \<lparr>ev_deviceId = id_deviceId (rs_identity state),
      ev_summary = (toSummary state)\<lparr>sm_sortOrder := Some sortOrder, sm_group := groupName\<rparr>, ev_removed = False\<rparr>"

definition store_point :: "disk \<Rightarrow> AgentMetricsPayload \<Rightarrow> DeviceRealtimeState \<Rightarrow> TimeSeriesRecord \<Rightarrow> unit service_op" where
  "store_point disk_ok payload state point =
     (let deviceId = id_deviceId (pa_identity payload)
      in then_do (append_windows disk_ok deviceId point) (\<lambda>_.
         then_do (addMinuteAggregate disk_ok deviceId point) (\<lambda>_.
         then_do (addHourlyAggregate disk_ok deviceId point) (\<lambda>_.
         on_store (upsert disk_ok state)))))"

definition persistPayload :: "disk \<Rightarrow> AgentMetricsPayload \<Rightarrow> int \<Rightarrow> int \<Rightarrow> string option \<Rightarrow> unit service_op" where
  "persistPayload disk_ok payload receivedAt sortOrder groupName s =
     (let deviceId = id_deviceId (pa_identity payload);
          (previousState, s1) = on_store (getDevice deviceId) s;
          (config, s2) = getMetricConfig deviceId s1
      in if is_stale previousState payload then (Inr (), s2)
         else
           (let s3 = (case previousState of
                 Some p \<Rightarrow> if hasIdentityBoundaryChanged (rs_identity p) (pa_identity payload)
                   then drop_accumulators deviceId s2 else s2
               | None \<Rightarrow> s2);
                state = realtime_state payload receivedAt
            in case payloadToTimeSeries payload config of
                 None \<Rightarrow> (Inl BadTimestamp, s3)
               | Some point \<Rightarrow>
                   then_do (store_point disk_ok payload state point)
                     (\<lambda>_ s. (Inr (), emitDeviceEventSafely (payload_event state sortOrder groupName) s)) s3))"

definition ingest :: "disk \<Rightarrow> int \<Rightarrow> AgentMetricsPayload \<Rightarrow> unit service_op" where
  "ingest disk_ok now payload =
     then_do (on_store (registerOrUpdateDevice disk_ok now (id_deviceId (pa_identity payload))
         (Some (id_hostname (pa_identity payload))) \<lparr>ro_reopenClosed = True, ro_skipUnchanged = True\<rparr>))
       (\<lambda>device s. if dv_status device = Closed then (Inr (), s)
          else persistPayload disk_ok payload now (dv_sortOrder device) (dv_group device) s)"

subsection \<open>Groups, removal, offline devices\<close>

definition device_summary :: "DeviceRealtimeState option \<Rightarrow> DeviceRecord \<Rightarrow> DeviceSummary" where
  "device_summary state r =
     (case state of
        Some s \<Rightarrow> (toSummary s)\<lparr>sm_sortOrder := Some (dv_sortOrder r), sm_group := dv_group r\<rparr>
      | None \<Rightarrow>
          \<lparr>sm_deviceId = dv_deviceId r, sm_hostname = (if dv_name r \<noteq> [] then dv_name r else dv_deviceId r),
           sm_os = UnknownOs, sm_agentVersion = None, sm_agentChannel = None, sm_status = Offline,
           sm_lastSeenAt = Some (dv_updatedAt r), sm_cpuUsagePercent = None, sm_gpuUsagePercent = None,
           sm_gpuMemoryUsagePercent = None, sm_memoryUsagePercent = None, sm_memoryUsedBytes = None,
           sm_memoryTotalBytes = None, sm_diskUsagePercent = None, sm_diskUsedBytes = None, sm_diskTotalBytes = None,
           sm_sortOrder = Some (dv_sortOrder r), sm_group = dv_group r, sm_unavailableMetrics = None\<rparr>)"

definition announce_group :: "string \<Rightarrow> MetricsService \<Rightarrow> MetricsService" where
  "announce_group deviceId s =
     (let (state, s1) = on_store (getDevice deviceId) s;
          (r, s2) = on_store (getOpenDevice deviceId) s1
      in case r of None \<Rightarrow> s2
         | Some r \<Rightarrow> emitDeviceEventSafely \<lparr>ev_deviceId = deviceId, ev_summary = device_summary state r, ev_removed = False\<rparr> s2)"

definition service_updateDeviceGroup :: "disk \<Rightarrow> int \<Rightarrow> string list \<Rightarrow> string option \<Rightarrow> unit service_op" where
  "service_updateDeviceGroup disk_ok now deviceIds groupName =
     (let uniqueIds = js_uniq deviceIds
      in then_do (on_store (updateDeviceGroup disk_ok now uniqueIds groupName))
           (\<lambda>_ s. (Inr (), fold announce_group uniqueIds s)))"

definition performRemoveDevice :: "disk \<Rightarrow> int \<Rightarrow> string \<Rightarrow> unit outcome \<Rightarrow> unit service_op" where
  "performRemoveDevice disk_ok now deviceId revokeLive =
     then_do (\<lambda>s. (revokeLive, s)) (\<lambda>_.
     then_do (on_store (deleteDevice disk_ok now deviceId)) (\<lambda>_ s0.
       (let (state, s1) = on_store (getDevice deviceId) s0;
            s2 = drop_accumulators deviceId s1
        in then_do (on_store (remove_device disk_ok deviceId))
             (\<lambda>_ s. (Inr (), case state of
                None \<Rightarrow> s
              | Some st \<Rightarrow> emitDeviceEventSafely
                  \<lparr>ev_deviceId = deviceId, ev_summary = toSummary (st\<lparr>rs_status := Offline\<rparr>), ev_removed = True\<rparr> s)) s2)))"

definition heartbeat_fresh :: "int \<Rightarrow> int \<Rightarrow> DeviceRealtimeState \<Rightarrow> bool" where
  "heartbeat_fresh timeout now device =
     (case Date_parse (rs_lastSeenAt device) of Some t \<Rightarrow> now - t < timeout | None \<Rightarrow> False)"

definition announce_offline :: "DeviceRealtimeState \<Rightarrow> MetricsService \<Rightarrow> MetricsService" where
  "announce_offline offlineState s =
     (let deviceId = id_deviceId (rs_identity offlineState);
          (current, s1) = on_store (getDevice deviceId) s
      in case current of
           None \<Rightarrow> s1
         | Some c \<Rightarrow>
             if rs_status c \<noteq> Offline \<or> rs_lastSeenAt c \<noteq> rs_lastSeenAt offlineState then s1
             else (let (r, s2) = on_store (getOpenDevice deviceId) s1;
                       summary = (case r of
                          None \<Rightarrow> toSummary c
                        | Some d \<Rightarrow> (toSummary c)\<lparr>sm_sortOrder := Some (dv_sortOrder d), sm_group := dv_group d\<rparr>)
                   in emitDeviceEventSafely \<lparr>ev_deviceId = deviceId, ev_summary = summary, ev_removed = False\<rparr> s2))"

definition scan_device :: "disk \<Rightarrow> int \<Rightarrow> int \<Rightarrow> DeviceRealtimeState \<Rightarrow> unit service_op" where
  "scan_device disk_ok timeout now device s =
     (if rs_status device = Offline \<or> heartbeat_fresh timeout now device then (Inr (), s)
      else (let offlineState = device\<lparr>rs_status := Offline\<rparr>
            in then_do (on_store (markOfflineIfMatch disk_ok (id_deviceId (rs_identity device)) (rs_lastSeenAt device) offlineState))
                 (\<lambda>marked s. (Inr (), if marked then announce_offline offlineState s else s)) s))"

text \<open>\<open>forEachBounded\<close>: every item is visited; the failures are reported together.\<close>

definition for_each :: "('x \<Rightarrow> unit service_op) \<Rightarrow> 'x list \<Rightarrow> MetricsService \<Rightarrow> StoreError list \<times> MetricsService" where
  "for_each operation items s =
     fold (\<lambda>item (failures, s). case operation item s of
         (Inl e, s') \<Rightarrow> (failures @ [e], s') | (Inr _, s') \<Rightarrow> (failures, s')) items ([], s)"

definition performOfflineScan :: "disk \<Rightarrow> int \<Rightarrow> int \<Rightarrow> MetricsService \<Rightarrow> StoreError list \<times> MetricsService" where
  "performOfflineScan disk_ok timeout now s =
     (let (devices, s1) = on_store listDevices s in for_each (scan_device disk_ok timeout now) devices s1)"

subsection \<open>Flushing\<close>

definition flush_tier :: "Tier \<Rightarrow> disk \<Rightarrow> string \<Rightarrow> unit service_op" where
  "flush_tier tier disk_ok deviceId s =
     (case current_accumulator tier deviceId s of
        None \<Rightarrow> (Inr (), s)
      | Some (r, acc) \<Rightarrow>
          if ac_samples acc \<noteq> [] \<and> r \<in> set (sv_dirtyAccumulators s) then persist_accumulator tier disk_ok deviceId r s
          else (Inr (), s))"

text \<open>A failed minute write is recorded and the hour of the same device is still tried.\<close>

definition flush_steps :: "MetricsService \<Rightarrow> (string \<times> Tier) list" where
  "flush_steps s = concat (map (\<lambda>deviceId. [(deviceId, Minute), (deviceId, Hourly)])
     (js_uniq (map_keys (sv_minuteAccumulators s) @ map_keys (sv_hourlyAccumulators s))))"

definition performAggregateFlush :: "disk \<Rightarrow> MetricsService \<Rightarrow> StoreError list \<times> MetricsService" where
  "performAggregateFlush disk_ok s =
     for_each (\<lambda>(deviceId, tier). flush_tier tier disk_ok deviceId) (flush_steps s) s"

definition resetDeviceSeries :: "disk \<Rightarrow> string \<Rightarrow> unit service_op" where
  "resetDeviceSeries disk_ok deviceId s =
     then_do (on_store (clearSeries disk_ok deviceId)) (\<lambda>_. on_store (clearDeviceHistory disk_ok deviceId))
       (drop_accumulators deviceId s)"

subsection \<open>Reading\<close>

fun live_duration :: "MetricWindow \<Rightarrow> int" where
  "live_duration W1m = 60 * 1000" | "live_duration _ = 5 * 60 * 1000"

definition readLiveSeries :: "int \<Rightarrow> string \<Rightarrow> MetricWindow \<Rightarrow> MetricsService \<Rightarrow> TimeSeriesRecord list \<times> MetricsService" where
  "readLiveSeries now deviceId window s =
     (let (points, s') = on_store (readSeries deviceId window) s
      in (filter (\<lambda>point. tr_timestamp point \<ge> now - live_duration window) points, s'))"

definition with_current_aggregate :: "Tier \<Rightarrow> string \<Rightarrow> TimeSeriesRecord list \<Rightarrow> MetricsService \<Rightarrow> TimeSeriesRecord list \<times> MetricsService" where
  "with_current_aggregate tier deviceId history s =
     (case current_accumulator tier deviceId s of
        None \<Rightarrow> (history, s)
      | Some (r, current) \<Rightarrow>
          if ac_samples current = [] then (history, s)
          else (let (aggregate, snaps) = snapshots_read averageRecord r current (sv_snapshots s)
                in (sort_by tr_timestamp (filter (\<lambda>point. tr_timestamp point \<noteq> tr_timestamp aggregate) history @ [aggregate]),
                    s\<lparr>sv_snapshots := snaps\<rparr>)))"

definition withCurrentMinuteAggregate :: "string \<Rightarrow> TimeSeriesRecord list \<Rightarrow> MetricsService \<Rightarrow> TimeSeriesRecord list \<times> MetricsService" where
  "withCurrentMinuteAggregate = with_current_aggregate Minute"

definition withCurrentHourlyAggregate :: "string \<Rightarrow> TimeSeriesRecord list \<Rightarrow> MetricsService \<Rightarrow> TimeSeriesRecord list \<times> MetricsService" where
  "withCurrentHourlyAggregate = with_current_aggregate Hourly"

definition getSeries :: "int \<Rightarrow> string \<Rightarrow> MetricWindow \<Rightarrow> MetricsService \<Rightarrow> TimeSeriesRecord list \<times> MetricsService" where
  "getSeries now deviceId window s =
     (if window = W1m \<or> window = W5m then readLiveSeries now deviceId window s
      else (let (history, s') = on_store (getHistoricalSeries now deviceId window) s
            in if minute_window window then withCurrentMinuteAggregate deviceId history s'
               else withCurrentHourlyAggregate deviceId history s'))"

text \<open>The points behind the traffic calendar: stored hours, overlaid by the open hour and minute.\<close>

definition overlay_traffic :: "int \<Rightarrow> int \<Rightarrow> string \<Rightarrow> MetricsService \<Rightarrow> Tier \<Rightarrow> TrafficHistoryPoint list \<Rightarrow> TrafficHistoryPoint list" where
  "overlay_traffic start endTime deviceId s tier points =
     (case map_option snd (current_accumulator tier deviceId s) of
        None \<Rightarrow> points
      | Some acc \<Rightarrow>
          if ac_samples acc = [] \<or> ac_bucketStartedAt acc < start \<or> ac_bucketStartedAt acc \<ge> endTime then points
          else filter (\<lambda>point. tp_timestamp point \<noteq> ac_bucketStartedAt acc) points @
            [\<lparr>tp_timestamp = ac_bucketStartedAt acc, tp_trafficRxBytes = tr_trafficRxBytes (last (ac_samples acc)),
              tp_trafficTxBytes = tr_trafficTxBytes (last (ac_samples acc))\<rparr>])"

definition traffic_points :: "int \<Rightarrow> string \<Rightarrow> int \<Rightarrow> int \<Rightarrow> MetricsService \<Rightarrow> TrafficHistoryPoint list \<times> MetricsService" where
  "traffic_points now deviceId start endTime s =
     (let (points, s') = on_store (getTrafficSeries now deviceId start endTime) s
      in (sort_by tp_timestamp (overlay_traffic start endTime deviceId s' Minute
            (overlay_traffic start endTime deviceId s' Hourly points)), s'))"

subsection \<open>The invariant of the service\<close>

definition acc_ok :: "Tier \<Rightarrow> MetricAccumulator \<Rightarrow> bool" where
  "acc_ok tier acc \<longleftrightarrow> ac_samples acc \<noteq> [] \<and> length (ac_samples acc) \<le> max_samples tier \<and>
     distinct (map tr_timestamp (ac_samples acc)) \<and>
     (\<forall>p \<in> set (ac_samples acc). bucket_start tier (tr_timestamp p) = ac_bucketStartedAt acc)"

definition heap_ok :: "MetricsService \<Rightarrow> bool" where
  "heap_ok s \<longleftrightarrow>
     snapshots_ok averageRecord (sv_heap s) (sv_snapshots s) \<and>
     (\<forall>r acc. map_get (sv_heap s) r = Some acc \<longrightarrow> r < sv_next s) \<and>
     (\<forall>tier k r. map_get (accumulators tier s) k = Some r \<longrightarrow> (\<exists>acc. map_get (sv_heap s) r = Some acc \<and> acc_ok tier acc)) \<and>
     (\<forall>tier k tier' k' r. map_get (accumulators tier s) k = Some r \<longrightarrow> map_get (accumulators tier' s) k' = Some r \<longrightarrow>
        tier = tier' \<and> k = k')"

definition service_ok :: "MetricsService \<Rightarrow> bool" where
  "service_ok s \<longleftrightarrow> heap_ok s \<and> wf_db (contents (sv_store s)) \<and> store_coherent (sv_store s)"

abbreviation db_of :: "MetricsService \<Rightarrow> LocalDbShape" where
  "db_of s \<equiv> contents (sv_store s)"

lemma accumulators_case: "accumulators tier s = (case tier of Minute \<Rightarrow> sv_minuteAccumulators s | Hourly \<Rightarrow> sv_hourlyAccumulators s)"
  by (simp split: Tier.split)

lemma set_accumulators_case: "set_accumulators tier m s =
    (case tier of Minute \<Rightarrow> s\<lparr>sv_minuteAccumulators := m\<rparr> | Hourly \<Rightarrow> s\<lparr>sv_hourlyAccumulators := m\<rparr>)"
  by (simp split: Tier.split)

lemma accumulators_simps [simp]:
  "accumulators tier (s\<lparr>sv_store := st\<rparr>) = accumulators tier s"
  "accumulators tier (s\<lparr>sv_heap := h\<rparr>) = accumulators tier s"
  "accumulators tier (s\<lparr>sv_next := n\<rparr>) = accumulators tier s"
  "accumulators tier (s\<lparr>sv_dirtyAccumulators := d\<rparr>) = accumulators tier s"
  "accumulators tier (s\<lparr>sv_snapshots := sn\<rparr>) = accumulators tier s"
  "accumulators tier (s\<lparr>sv_events := ev\<rparr>) = accumulators tier s"
  "accumulators tier (set_accumulators tier' m s) = (if tier = tier' then m else accumulators tier s)"
  by (simp_all add: accumulators_case set_accumulators_case split: Tier.split)

lemma set_accumulators_simps [simp]:
  "sv_store (set_accumulators tier m s) = sv_store s" "sv_heap (set_accumulators tier m s) = sv_heap s"
  "sv_next (set_accumulators tier m s) = sv_next s" "sv_snapshots (set_accumulators tier m s) = sv_snapshots s"
  "sv_dirtyAccumulators (set_accumulators tier m s) = sv_dirtyAccumulators s" "sv_events (set_accumulators tier m s) = sv_events s"
  by (simp_all add: set_accumulators_case split: Tier.split)

lemma heap_ok_irrelevant [simp]:
  "heap_ok (s\<lparr>sv_store := st\<rparr>) = heap_ok s" "heap_ok (s\<lparr>sv_dirtyAccumulators := d\<rparr>) = heap_ok s"
  "heap_ok (s\<lparr>sv_events := ev\<rparr>) = heap_ok s"
  by (simp_all add: heap_ok_def)

lemma on_store_facts [simp]:
  "fst (on_store f s) = fst (f (sv_store s))" "snd (on_store f s) = s\<lparr>sv_store := snd (f (sv_store s))\<rparr>"
  by (simp_all add: on_store_def case_prod_unfold Let_def)

lemma heap_okD:
  assumes "heap_ok s"
  shows "snapshots_ok averageRecord (sv_heap s) (sv_snapshots s)"
    "map_get (sv_heap s) r = Some acc \<Longrightarrow> r < sv_next s"
    "map_get (accumulators tier s) k = Some r \<Longrightarrow> \<exists>acc. map_get (sv_heap s) r = Some acc \<and> acc_ok tier acc"
    "map_get (accumulators tier s) k = Some r \<Longrightarrow> map_get (accumulators tier' s) k' = Some r \<Longrightarrow> tier = tier' \<and> k = k'"
  using assms unfolding heap_ok_def by blast+

lemma heap_okI:
  assumes "snapshots_ok averageRecord (sv_heap s) (sv_snapshots s)"
    and "\<And>r acc. map_get (sv_heap s) r = Some acc \<Longrightarrow> r < sv_next s"
    and "\<And>tier k r. map_get (accumulators tier s) k = Some r \<Longrightarrow> \<exists>acc. map_get (sv_heap s) r = Some acc \<and> acc_ok tier acc"
    and "\<And>tier k tier' k' r. map_get (accumulators tier s) k = Some r \<Longrightarrow> map_get (accumulators tier' s) k' = Some r \<Longrightarrow>
      tier = tier' \<and> k = k'"
  shows "heap_ok s"
  using assms unfolding heap_ok_def by blast

lemma current_accumulator_ok:
  assumes "heap_ok s"
  shows "current_accumulator tier k s = None \<longleftrightarrow> map_get (accumulators tier s) k = None"
    and "current_accumulator tier k s = Some (r, acc) \<Longrightarrow>
      map_get (accumulators tier s) k = Some r \<and> map_get (sv_heap s) r = Some acc \<and> acc_ok tier acc"
proof -
  show "current_accumulator tier k s = None \<longleftrightarrow> map_get (accumulators tier s) k = None"
    using heap_okD(3) [OF assms, of tier k] by (cases "map_get (accumulators tier s) k") (auto simp: current_accumulator_def)
  show "current_accumulator tier k s = Some (r, acc) \<Longrightarrow>
      map_get (accumulators tier s) k = Some r \<and> map_get (sv_heap s) r = Some acc \<and> acc_ok tier acc"
    using heap_okD(3) [OF assms, of tier k] by (cases "map_get (accumulators tier s) k") (auto simp: current_accumulator_def)
qed

subsubsection \<open>Accumulator steps keep the invariant\<close>

lemma add_sample_ok:
  assumes "acc_ok tier acc" "bucket_start tier (tr_timestamp p) = ac_bucketStartedAt acc"
  shows "acc_ok tier (acc\<lparr>ac_samples := add_sample (max_samples tier) p (ac_samples acc)\<rparr>)"
proof (cases "find_index (\<lambda>sample. tr_timestamp sample = tr_timestamp p) (ac_samples acc)")
  case None
  have "0 < max_samples tier" by (cases tier) simp_all
  moreover have "tr_timestamp p \<notin> tr_timestamp ` set (ac_samples acc)"
    using None by (simp add: find_index_key)
  moreover have "set (tl (ac_samples acc)) \<subseteq> set (ac_samples acc)"
    by (cases "ac_samples acc") auto
  moreover have "distinct (map tr_timestamp (tl (ac_samples acc)))"
    using assms(1) by (simp add: acc_ok_def map_tl distinct_tl)
  ultimately show ?thesis
    using assms None by (auto simp: acc_ok_def add_sample_def)
next
  case (Some i)
  from find_index_SomeD [OF Some] have i: "i < length (ac_samples acc)" "tr_timestamp (ac_samples acc ! i) = tr_timestamp p"
    by simp_all
  have "map tr_timestamp ((ac_samples acc)[i := p]) = map tr_timestamp (ac_samples acc)"
    by (rule map_update_same) (simp add: i)
  with assms Some i show ?thesis
    by (auto simp: acc_ok_def add_sample_def dest!: subsetD [OF set_update_subset_insert])
qed

lemma add_sample_mem: "p \<in> set (add_sample n p ps)"
  by (auto simp: add_sample_def split: option.splits dest!: find_index_SomeD intro: set_update_memI)

lemma extend_bucket_ok:
  assumes "heap_ok s" "current_accumulator tier k s = Some (r, acc)" "bucket_start tier (tr_timestamp p) = ac_bucketStartedAt acc"
  shows "heap_ok (extend_bucket tier r acc p s)"
proof -
  note r = current_accumulator_ok(2) [OF assms(1,2)]
  have new: "acc_ok tier (acc\<lparr>ac_samples := add_sample (max_samples tier) p (ac_samples acc)\<rparr>)"
    using r assms(3) by (intro add_sample_ok) simp_all
  have uniq: "tier' = tier" if "map_get (accumulators tier' s) k' = Some r" for tier' k'
    using heap_okD(4) [OF assms(1) that] r by blast
  show ?thesis
  proof (rule heap_okI)
    show "snapshots_ok averageRecord (sv_heap (extend_bucket tier r acc p s)) (sv_snapshots (extend_bucket tier r acc p s))"
      using heap_okD(1) [OF assms(1)] by (simp add: extend_bucket_def snapshots_invalidate_ok)
  next
    fix r' a assume "map_get (sv_heap (extend_bucket tier r acc p s)) r' = Some a"
    then show "r' < sv_next (extend_bucket tier r acc p s)"
      using heap_okD(2) [OF assms(1)] r by (simp add: extend_bucket_def split: if_splits)
  next
    fix tier' k' r' assume a: "map_get (accumulators tier' (extend_bucket tier r acc p s)) k' = Some r'"
    then have a': "map_get (accumulators tier' s) k' = Some r'" by (simp add: extend_bucket_def)
    show "\<exists>acc'. map_get (sv_heap (extend_bucket tier r acc p s)) r' = Some acc' \<and> acc_ok tier' acc'"
      using heap_okD(3) [OF assms(1) a'] uniq a' new by (cases "r' = r") (auto simp: extend_bucket_def)
  next
    fix t1 k1 t2 k2 r'
    assume "map_get (accumulators t1 (extend_bucket tier r acc p s)) k1 = Some r'"
      "map_get (accumulators t2 (extend_bucket tier r acc p s)) k2 = Some r'"
    then show "t1 = t2 \<and> k1 = k2"
      using heap_okD(4) [OF assms(1)] by (simp add: extend_bucket_def)
  qed
qed

lemma open_bucket_ok:
  assumes "heap_ok s"
  shows "heap_ok (open_bucket tier k p s)"
proof -
  let ?acc = "\<lparr>ac_bucketStartedAt = bucket_start tier (tr_timestamp p), ac_samples = [p]\<rparr>"
  have fresh: "map_get (sv_heap s) (sv_next s) = None"
    using heap_okD(2) [OF assms, of "sv_next s"] by (cases "map_get (sv_heap s) (sv_next s)") auto
  have acc: "acc_ok tier ?acc"
    by (cases tier) (simp_all add: acc_ok_def)
  have old: "r < sv_next s" if "map_get (accumulators tier' s) k' = Some r" for tier' k' r
    using heap_okD(3) [OF assms that] heap_okD(2) [OF assms] by blast
  have acs: "map_get (accumulators tier' (open_bucket tier k p s)) k' =
      (if tier' = tier \<and> k' = k then Some (sv_next s) else map_get (accumulators tier' s) k')" for tier' k'
    by (simp add: open_bucket_def Let_def)
  have heap: "sv_heap (open_bucket tier k p s) = map_set (sv_next s) ?acc (sv_heap s)"
    "sv_next (open_bucket tier k p s) = Suc (sv_next s)" "sv_snapshots (open_bucket tier k p s) = sv_snapshots s"
    by (simp_all add: open_bucket_def Let_def)
  show ?thesis
  proof (rule heap_okI)
    show "snapshots_ok averageRecord (sv_heap (open_bucket tier k p s)) (sv_snapshots (open_bucket tier k p s))"
      unfolding heap using heap_okD(1) [OF assms] fresh by (rule snapshots_alloc_ok)
  next
    fix r a assume "map_get (sv_heap (open_bucket tier k p s)) r = Some a"
    then show "r < sv_next (open_bucket tier k p s)"
      using heap_okD(2) [OF assms] by (auto simp: heap less_Suc_eq split: if_splits)
  next
    fix tier' k' r assume a: "map_get (accumulators tier' (open_bucket tier k p s)) k' = Some r"
    show "\<exists>acc. map_get (sv_heap (open_bucket tier k p s)) r = Some acc \<and> acc_ok tier' acc"
    proof (cases "tier' = tier \<and> k' = k")
      case False
      with a have "map_get (accumulators tier' s) k' = Some r" by (simp add: acs)
      with heap_okD(3) [OF assms this] fresh show ?thesis by (auto simp: heap)
    qed (use a acc in \<open>simp add: acs heap\<close>)
  next
    fix t1 k1 t2 k2 r
    assume "map_get (accumulators t1 (open_bucket tier k p s)) k1 = Some r"
      "map_get (accumulators t2 (open_bucket tier k p s)) k2 = Some r"
    then show "t1 = t2 \<and> k1 = k2"
      using heap_okD(4) [OF assms, of t1 k1 r t2 k2] old [of t1 k1 r] old [of t2 k2 r]
      by (auto simp: acs split: if_splits)
  qed
qed

lemma drop_accumulators_ok:
  assumes "heap_ok s"
  shows "heap_ok (drop_accumulators k s)"
proof -
  have acs: "map_get (accumulators tier (drop_accumulators k s)) k' = (if k' = k then None else map_get (accumulators tier s) k')"
    for tier k' by (simp add: accumulators_case drop_accumulators_def split: Tier.split)
  have "sv_heap (drop_accumulators k s) = sv_heap s" "sv_next (drop_accumulators k s) = sv_next s"
    "sv_snapshots (drop_accumulators k s) = sv_snapshots s"
    by (simp_all add: drop_accumulators_def)
  then show ?thesis
    using heap_okD [OF assms] by (intro heap_okI) (auto simp: acs split: if_splits)
qed

lemma snapshots_read_heap_ok:
  assumes "heap_ok s" "map_get (sv_heap s) r = Some acc"
  shows "heap_ok (s\<lparr>sv_snapshots := snd (snapshots_read averageRecord r acc (sv_snapshots s))\<rparr>)"
proof (rule heap_okI)
  show "snapshots_ok averageRecord (sv_heap (s\<lparr>sv_snapshots := snd (snapshots_read averageRecord r acc (sv_snapshots s))\<rparr>))
      (sv_snapshots (s\<lparr>sv_snapshots := snd (snapshots_read averageRecord r acc (sv_snapshots s))\<rparr>))"
    using snapshots_read_ok [OF heap_okD(1) [OF assms(1)] assms(2)] by simp
qed (use heap_okD(2-4) [OF assms(1)] in auto)

subsubsection \<open>Operations keep the invariant\<close>

text \<open>
  What an operation of the service promises: the invariant is kept.  Sequencing two such
  operations, and visiting a list with one, gives such an operation again.
\<close>

locale service_operation =
  fixes run :: "'a service_op"
  assumes run_ok: "service_ok s \<Longrightarrow> service_ok (snd (run s))"
begin

lemma run_pair: "service_ok s \<Longrightarrow> run s = (r, s') \<Longrightarrow> service_ok s'"
  using run_ok [of s] by simp

lemma then_ok:
  assumes "\<And>x. service_operation (g x)"
  shows "service_operation (then_do run g)"
proof
  fix s assume s: "service_ok s"
  obtain r s' where rs: "run s = (r, s')" by (cases "run s")
  show "service_ok (snd (then_do run g s))"
    using run_pair [OF s rs] service_operation.run_ok [OF assms] by (cases r) (simp_all add: then_do_def rs)
qed

text \<open>Running the operation any number of times stays within the invariant.\<close>

lemma iterate_ok: "service_ok s \<Longrightarrow> service_ok (((\<lambda>s. snd (run s)) ^^ n) s)"
  by (induction n) (auto intro: run_ok)

end

lemma store_only_ok:
  assumes "\<And>st. wf_db (contents st) \<Longrightarrow> wf_db (contents (snd (f st)))" "\<And>st. store_coherent st \<Longrightarrow> store_coherent (snd (f st))"
  shows "service_ok s \<Longrightarrow> service_ok (snd (on_store f s))"
  using assms by (simp add: service_ok_def)

lemma on_store_operation:
  assumes "\<And>st. wf_db (contents st) \<Longrightarrow> wf_db (contents (snd (f st)))" "\<And>st. store_coherent st \<Longrightarrow> store_coherent (snd (f st))"
  shows "service_operation (on_store f)"
  using store_only_ok [OF assms] by unfold_locales

lemma select_service_ok: "service_ok s \<Longrightarrow> service_ok (snd (on_store (select f) s))"
  by (rule store_only_ok) simp_all

lemma insert_tier_store:
  "wf_db (contents st) \<Longrightarrow> wf_db (contents (snd (insert_tier tier disk_ok k p st)))"
  "store_coherent st \<Longrightarrow> store_coherent (snd (insert_tier tier disk_ok k p st))"
  by (cases tier; simp add: wf_repositories insertMinute.run_coherent insertHourly.run_coherent)+

lemma persist_heap_ok:
  assumes "heap_ok s"
  shows "heap_ok (snd (persist_accumulator tier disk_ok k r s))"
proof (cases "map_get (sv_heap s) r")
  case (Some acc)
  from snapshots_read_heap_ok [OF assms this] Some assms show ?thesis
    by (simp add: persist_accumulator_def case_prod_unfold Let_def split: sum.split)
qed (simp add: persist_accumulator_def assms)

lemma persist_ok: "service_operation (persist_accumulator tier disk_ok k r)"
proof
  fix s assume s: "service_ok s"
  then show "service_ok (snd (persist_accumulator tier disk_ok k r s))"
    using persist_heap_ok [of s tier disk_ok k r] insert_tier_store [of "sv_store s" tier disk_ok k]
    by (simp add: service_ok_def)
      (auto simp: persist_accumulator_def case_prod_unfold Let_def split: option.split sum.split)
qed

lemma service_ok_heap: "service_ok s \<Longrightarrow> heap_ok s'  \<Longrightarrow> sv_store s' = sv_store s \<Longrightarrow> service_ok s'"
  by (simp add: service_ok_def)

lemma open_bucket_store [simp]: "sv_store (open_bucket tier k p s) = sv_store s"
  by (simp add: open_bucket_def Let_def)

lemma extend_bucket_store [simp]: "sv_store (extend_bucket tier r acc p s) = sv_store s"
  by (simp add: extend_bucket_def)

lemma open_bucket_operation: "service_operation (\<lambda>s. (Inr (), open_bucket tier k p s))"
  by unfold_locales (auto simp: service_ok_def intro: open_bucket_ok)

lemma skip_operation: "service_operation (\<lambda>s. (r, s))"
  by unfold_locales simp

lemma add_aggregate_ok: "service_operation (add_aggregate tier disk_ok k p)"
proof
  fix s assume s: "service_ok s"
  then have h: "heap_ok s" by (simp add: service_ok_def)
  show "service_ok (snd (add_aggregate tier disk_ok k p s))"
  proof (cases "current_accumulator tier k s")
    case None
    then show ?thesis
      using s service_operation.run_ok [OF open_bucket_operation] by (fastforce simp: add_aggregate_def)
  next
    case (Some ra)
    obtain r acc where ra: "ra = (r, acc)" by (cases ra)
    show ?thesis
    proof (cases "ac_bucketStartedAt acc = bucket_start tier (tr_timestamp p)")
      case True
      then show ?thesis
        using Some ra service_ok_heap [OF s extend_bucket_ok [OF h, of tier k r acc p]] by (simp add: add_aggregate_def)
    next
      case False
      have "service_operation (if ac_samples acc \<noteq> [] then persist_accumulator tier disk_ok k r else (\<lambda>s. (Inr (), s)))"
        by (simp add: persist_ok skip_operation)
      then have op: "service_operation (then_do
          (if ac_samples acc \<noteq> [] then persist_accumulator tier disk_ok k r else (\<lambda>s. (Inr (), s)))
          (\<lambda>_ s. (Inr (), open_bucket tier k p s)))"
        by (rule service_operation.then_ok) (rule open_bucket_operation)
      from False Some ra have "add_aggregate tier disk_ok k p s = then_do
          (if ac_samples acc \<noteq> [] then persist_accumulator tier disk_ok k r else (\<lambda>s. (Inr (), s)))
          (\<lambda>_ s. (Inr (), open_bucket tier k p s)) s"
        unfolding add_aggregate_def by (simp only: option.case prod.case if_True not_False_eq_True)
      with service_operation.run_ok [OF op s] show ?thesis by (simp only:)
    qed
  qed
qed

lemma drop_accumulators_service: "service_ok s \<Longrightarrow> service_ok (drop_accumulators k s)"
  by (rule service_ok_heap [OF _ drop_accumulators_ok]) (auto simp: service_ok_def drop_accumulators_def)

lemma emit_service [simp]: "service_ok (emitDeviceEventSafely ev s) = service_ok s"
  by (simp add: service_ok_def emitDeviceEventSafely_def)

lemma append_windows_ok: "service_operation (append_windows disk_ok k p)"
proof
  fix s assume "service_ok s"
  then show "service_ok (snd (append_windows disk_ok k p s))"
    by (simp add: append_windows_def case_prod_unfold Let_def service_ok_def wf_repositories appendSeries.run_coherent)
qed

lemma store_point_ok: "service_operation (store_point disk_ok payload state p)"
  unfolding store_point_def Let_def addMinuteAggregate_def addHourlyAggregate_def
  by (intro service_operation.then_ok append_windows_ok add_aggregate_ok on_store_operation)
    (simp_all add: wf_repositories upsert.run_coherent)

lemma getMetricConfig_service: "service_ok s \<Longrightarrow> service_ok (snd (getMetricConfig k s))"
  by (simp add: getMetricConfig_def getConfig_def case_prod_unfold Let_def service_ok_def)

lemma persistPayload_ok: "service_operation (persistPayload disk_ok payload now so g)"
proof
  fix s assume s: "service_ok s"
  let ?k = "id_deviceId (pa_identity payload)"
  define s2 where "s2 = snd (getMetricConfig ?k (snd (on_store (getDevice ?k) s)))"
  have s2: "service_ok s2"
    unfolding s2_def getDevice_def by (intro getMetricConfig_service select_service_ok s)
  have op: "service_operation (then_do (store_point disk_ok payload (realtime_state payload now) p)
      (\<lambda>_ s. (Inr (), emitDeviceEventSafely (payload_event (realtime_state payload now) so g) s)))" for p
    by (intro service_operation.then_ok store_point_ok) (unfold_locales, simp)
  show "service_ok (snd (persistPayload disk_ok payload now so g s))"
    unfolding persistPayload_def Let_def case_prod_unfold s2_def [symmetric]
    using s2 drop_accumulators_service [OF s2] service_operation.run_ok [OF op]
    by (simp split: option.split)
qed

lemma ingest_ok: "service_operation (ingest disk_ok now payload)"
proof -
  have c: "service_operation (\<lambda>s. if dv_status d = Closed then (Inr (), s)
      else persistPayload disk_ok payload now (dv_sortOrder d) (dv_group d) s)" for d
    by (cases "dv_status d = Closed") (simp_all add: skip_operation persistPayload_ok)
  show ?thesis
    unfolding ingest_def
    by (intro service_operation.then_ok c on_store_operation) (simp_all add: wf_registered register.run_coherent)
qed

interpretation ingest: service_operation "ingest disk_ok now payload" for disk_ok now payload
  by (rule ingest_ok)

lemma announce_group_service: "service_ok s \<Longrightarrow> service_ok (announce_group k s)"
  by (simp add: announce_group_def getDevice_def getOpenDevice_def case_prod_unfold Let_def service_ok_def
      emitDeviceEventSafely_def split: option.split)

lemma announce_offline_service: "service_ok s \<Longrightarrow> service_ok (announce_offline st s)"
  by (simp add: announce_offline_def getDevice_def getOpenDevice_def case_prod_unfold Let_def service_ok_def
      emitDeviceEventSafely_def split: option.split)

interpretation updateGroup_service: service_operation "service_updateDeviceGroup disk_ok now ks g" for disk_ok now ks g
proof -
  have f: "service_ok s \<Longrightarrow> service_ok (fold announce_group xs s)" for xs s
    by (induction xs arbitrary: s) (auto intro: announce_group_service)
  have "service_operation (\<lambda>s. (Inr (), fold announce_group (js_uniq ks) s))"
    by unfold_locales (simp add: f)
  then show "service_operation (service_updateDeviceGroup disk_ok now ks g)"
    unfolding service_updateDeviceGroup_def Let_def
    by (intro service_operation.then_ok on_store_operation) (simp_all add: wf_regrouped updateGroup.run_coherent)
qed

interpretation removeDevice: service_operation "performRemoveDevice disk_ok now k revoke" for disk_ok now k revoke
proof -
  have e: "service_operation (\<lambda>s. (Inr (), case state of None \<Rightarrow> s | Some st \<Rightarrow> emitDeviceEventSafely (ev st) s))" for state ev
    by unfold_locales (simp split: option.split)
  have o: "service_operation (on_store (remove_device disk_ok k))"
    by (rule on_store_operation) (simp_all add: wf_repositories other_coherent)
  have d: "service_operation (on_store (deleteDevice disk_ok now k))"
    by (rule on_store_operation) (simp_all add: wf_deleted other_coherent)
  have i: "service_operation (\<lambda>s0. (let (state, s1) = on_store (getDevice k) s0; s2 = drop_accumulators k s1
        in then_do (on_store (remove_device disk_ok k))
             (\<lambda>_ s. (Inr (), case state of None \<Rightarrow> s
              | Some st \<Rightarrow> emitDeviceEventSafely
                  \<lparr>ev_deviceId = k, ev_summary = toSummary (st\<lparr>rs_status := Offline\<rparr>), ev_removed = True\<rparr> s)) s2))"
  proof
    fix s assume s: "service_ok s"
    then have "service_ok (drop_accumulators k (snd (on_store (getDevice k) s)))"
      unfolding getDevice_def by (intro drop_accumulators_service select_service_ok)
    from service_operation.run_ok [OF service_operation.then_ok [OF o e] this]
    show "service_ok (snd (let (state, s1) = on_store (getDevice k) s; s2 = drop_accumulators k s1
        in then_do (on_store (remove_device disk_ok k))
             (\<lambda>_ s. (Inr (), case state of None \<Rightarrow> s
              | Some st \<Rightarrow> emitDeviceEventSafely
                  \<lparr>ev_deviceId = k, ev_summary = toSummary (st\<lparr>rs_status := Offline\<rparr>), ev_removed = True\<rparr> s)) s2))"
      by (simp only: case_prod_unfold Let_def)
  qed
  show "service_operation (performRemoveDevice disk_ok now k revoke)"
    unfolding performRemoveDevice_def
    by (intro service_operation.then_ok skip_operation d i)
qed

lemma scan_device_ok: "service_operation (scan_device disk_ok timeout now device)"
proof
  fix s assume s: "service_ok s"
  have o: "service_operation (on_store (markOfflineIfMatch disk_ok (id_deviceId (rs_identity device)) (rs_lastSeenAt device) (device\<lparr>rs_status := Offline\<rparr>)))"
    using wf_marked [where state = "device\<lparr>rs_status := Offline\<rparr>"]
    by (intro on_store_operation) (simp_all add: markOffline.run_coherent)
  have e: "service_operation (\<lambda>s. (Inr (), if marked then announce_offline (device\<lparr>rs_status := Offline\<rparr>) s else s))" for marked
    by unfold_locales (simp add: announce_offline_service)
  show "service_ok (snd (scan_device disk_ok timeout now device s))"
    using s service_operation.run_ok [OF service_operation.then_ok [OF o e] s] by (simp add: scan_device_def Let_def)
qed

lemma for_each_ok:
  assumes "\<And>x. service_operation (f x)" "service_ok s"
  shows "service_ok (snd (for_each f xs s))"
proof -
  define g where "g = (\<lambda>item (failures, s). case f item s of (Inl e, s') \<Rightarrow> (failures @ [e], s') | (Inr _, s') \<Rightarrow> (failures, s'))"
  have step: "service_ok (snd (g x (fs, s)))" if "service_ok s" for x fs s
    using service_operation.run_ok [OF assms(1) that, of x] by (simp add: g_def case_prod_unfold split: sum.split)
  have "service_ok (snd (fold g xs (fs, s)))" if "service_ok s" for fs s
    using that
  proof (induction xs arbitrary: fs s)
    case (Cons x xs)
    from step [OF Cons.prems, of x fs] Cons.IH [of "snd (g x (fs, s))" "fst (g x (fs, s))"] show ?case by simp
  qed simp
  from this [OF assms(2), of "[]"] show ?thesis by (simp add: for_each_def g_def)
qed

lemma offlineScan_service: "service_ok s \<Longrightarrow> service_ok (snd (performOfflineScan disk_ok timeout now s))"
  unfolding performOfflineScan_def listDevices_def case_prod_unfold Let_def
  by (intro for_each_ok scan_device_ok select_service_ok)

lemma flush_tier_ok: "service_operation (flush_tier tier disk_ok k)"
  by unfold_locales (auto simp: flush_tier_def service_operation.run_ok [OF persist_ok] split: option.split)

lemma flush_service: "service_ok s \<Longrightarrow> service_ok (snd (performAggregateFlush disk_ok s))"
  unfolding performAggregateFlush_def by (intro for_each_ok) (auto simp: flush_tier_ok split: prod.split)

lemma with_current_service:
  assumes "service_ok s"
  shows "service_ok (snd (with_current_aggregate tier k h s))"
proof (cases "current_accumulator tier k s")
  case (Some ra)
  obtain r acc where ra: "ra = (r, acc)" by (cases ra)
  have h: "heap_ok s" using assms by (simp add: service_ok_def)
  from current_accumulator_ok(2) [OF h] Some ra have "map_get (sv_heap s) r = Some acc" by blast
  from snapshots_read_heap_ok [OF h this] show ?thesis
    using assms Some ra by (simp add: with_current_aggregate_def case_prod_unfold Let_def service_ok_def)
qed (simp add: with_current_aggregate_def assms)

lemma getSeries_service: "service_ok s \<Longrightarrow> service_ok (snd (getSeries now k w s))"
  unfolding getSeries_def readLiveSeries_def readSeries_def getHistoricalSeries_def case_prod_unfold Let_def
    withCurrentMinuteAggregate_def withCurrentHourlyAggregate_def
  by (simp del: on_store_facts add: with_current_service select_service_ok)

lemma reset_service: "service_ok s \<Longrightarrow> service_ok (snd (resetDeviceSeries disk_ok k s))"
proof -
  assume s: "service_ok s"
  have "service_operation (then_do (on_store (clearSeries disk_ok k)) (\<lambda>_. on_store (clearDeviceHistory disk_ok k)))"
    by (intro service_operation.then_ok on_store_operation) (simp_all add: wf_repositories other_coherent)
  from service_operation.run_ok [OF this drop_accumulators_service [OF s]] show ?thesis
    by (simp add: resetDeviceSeries_def)
qed

subsection \<open>Reachable states\<close>

inductive reachable_service :: "disk \<Rightarrow> MetricsService \<Rightarrow> bool" for disk_ok where
  boot: "reachable_store disk_ok st \<Longrightarrow> reachable_service disk_ok (new_service st)"
| ingested: "reachable_service disk_ok s \<Longrightarrow> reachable_service disk_ok (snd (ingest disk_ok now payload s))"
| flushed: "reachable_service disk_ok s \<Longrightarrow> reachable_service disk_ok (snd (performAggregateFlush disk_ok s))"
| scanned: "reachable_service disk_ok s \<Longrightarrow> reachable_service disk_ok (snd (performOfflineScan disk_ok timeout now s))"
| removed: "reachable_service disk_ok s \<Longrightarrow> reachable_service disk_ok (snd (performRemoveDevice disk_ok now k revoke s))"
| grouped: "reachable_service disk_ok s \<Longrightarrow> reachable_service disk_ok (snd (service_updateDeviceGroup disk_ok now ks g s))"
| configured: "reachable_service disk_ok s \<Longrightarrow> reachable_service disk_ok (snd (setEnabledMetrics disk_ok k config s))"
| was_read: "reachable_service disk_ok s \<Longrightarrow> reachable_service disk_ok (snd (getSeries now k w s))"
| was_reset: "reachable_service disk_ok s \<Longrightarrow> reachable_service disk_ok (snd (resetDeviceSeries disk_ok k s))"
| cleaned: "reachable_service disk_ok s \<Longrightarrow> reachable_service disk_ok (snd (on_store (runRetentionCleanup disk_ok now) s))"
| reordered: "reachable_service disk_ok s \<Longrightarrow> reachable_service disk_ok (snd (on_store (reorderDevices disk_ok now ks) s))"

lemma reachable_service_inv: "reachable_service disk_ok s \<Longrightarrow> service_ok s"
proof (induction rule: reachable_service.induct)
  case (boot st)
  have "heap_ok (new_service st)"
    by (simp add: heap_ok_def new_service_def snapshots_ok_def accumulators_case split: Tier.split)
  with reachable_store_inv [OF boot] show ?case by (simp add: service_ok_def new_service_def)
next
  case (configured s k config)
  then show ?case
    unfolding setEnabledMetrics_def
    by (intro store_only_ok) (simp_all add: wf_repositories other_coherent)
next
  case (cleaned s now)
  then show ?case by (intro store_only_ok) (simp_all add: wf_cleanup other_coherent)
next
  case (reordered s now ks)
  then show ?case by (intro store_only_ok) (simp_all add: wf_repositories other_coherent)
qed (auto intro: ingest.run_ok flush_service offlineScan_service removeDevice.run_ok updateGroup_service.run_ok
    getSeries_service reset_service)

subsection \<open>What ingestion publishes\<close>

abbreviation devices :: "MetricsService \<Rightarrow> (string, DeviceRealtimeState) jsmap" where
  "devices s \<equiv> db_devices (db_of s)"

text \<open>An operation that publishes nothing: live states and events stay.\<close>

definition quiet :: "'a service_op \<Rightarrow> bool" where
  "quiet f \<longleftrightarrow> (\<forall>s. devices (snd (f s)) = devices s \<and> sv_events (snd (f s)) = sv_events s)"

lemma quietD: "quiet f \<Longrightarrow> devices (snd (f s)) = devices s" "quiet f \<Longrightarrow> sv_events (snd (f s)) = sv_events s"
  by (auto simp: quiet_def)

lemma quiet_then: "quiet f \<Longrightarrow> (\<And>x. quiet (g x)) \<Longrightarrow> quiet (then_do f g)"
  unfolding quiet_def then_do_def by (auto simp: case_prod_unfold split: sum.split)

lemma insert_tier_devices: "db_devices (contents (snd (insert_tier tier disk_ok k p st))) = db_devices (contents st)"
  by (cases tier) (simp_all add: insertMinutePoint_def insertHourlyPoint_def update_facts)

lemma quiet_persist: "quiet (persist_accumulator tier disk_ok k r)"
  unfolding quiet_def persist_accumulator_def
  by (auto simp: case_prod_unfold Let_def insert_tier_devices split: option.split sum.split)

lemma quiet_add_aggregate: "quiet (add_aggregate tier disk_ok k p)"
proof -
  have o: "quiet (\<lambda>s. (Inr (), open_bucket tier k p s))"
    by (simp add: quiet_def open_bucket_def Let_def)
  have e: "sv_events (extend_bucket tier r acc p s) = sv_events s" for r acc s
    by (simp add: extend_bucket_def)
  have t: "quiet (then_do (if b then persist_accumulator tier disk_ok k r else (\<lambda>s. (Inr (), s)))
      (\<lambda>_ s. (Inr (), open_bucket tier k p s)))" for b r
    by (rule quiet_then [OF _ o]) (simp add: quiet_persist, simp add: quiet_def)
  show ?thesis
    unfolding quiet_def add_aggregate_def
    using quietD [OF o] quietD [OF t] e by (auto split: option.split prod.split)
qed

lemma quiet_append: "quiet (append_windows disk_ok k p)"
  by (simp add: quiet_def append_windows_def case_prod_unfold Let_def appendSeries_def update_facts)

lemma quiet_before_upsert:
  "quiet (then_do (append_windows disk_ok k p) (\<lambda>_. then_do (addMinuteAggregate disk_ok k p) (\<lambda>_. addHourlyAggregate disk_ok k p)))"
  unfolding addMinuteAggregate_def addHourlyAggregate_def
  by (intro quiet_then quiet_append quiet_add_aggregate)

lemma then_do_assoc: "then_do (then_do f g) h = then_do f (\<lambda>x. then_do (g x) h)"
  by (rule ext) (auto simp: then_do_def case_prod_unfold split: sum.split)

lemma store_point_publishes:
  assumes "store_point disk_ok payload state p s = (r, s')"
  shows "sv_events s' = sv_events s \<and>
    (case r of Inl e \<Rightarrow> devices s' = devices s
     | Inr _ \<Rightarrow> devices s' = map_set (id_deviceId (rs_identity state)) state (devices s))"
proof -
  define pre where "pre = then_do (append_windows disk_ok (id_deviceId (pa_identity payload)) p)
    (\<lambda>_. then_do (addMinuteAggregate disk_ok (id_deviceId (pa_identity payload)) p)
      (\<lambda>_. addHourlyAggregate disk_ok (id_deviceId (pa_identity payload)) p))"
  have "store_point disk_ok payload state p = then_do pre (\<lambda>_. on_store (upsert disk_ok state))"
    by (simp add: store_point_def pre_def then_do_assoc Let_def)
  moreover have "quiet pre"
    unfolding pre_def by (rule quiet_before_upsert)
  ultimately show ?thesis
    using assms quietD [of pre s]
    by (auto simp: then_do_def case_prod_unfold on_store_def Let_def upsert_def update_facts split: sum.splits if_splits)
qed

lemma config_quiet:
  "devices (snd (getMetricConfig k s)) = devices s" "sv_events (snd (getMetricConfig k s)) = sv_events s"
  by (simp_all add: getMetricConfig_def getConfig_def case_prod_unfold Let_def)

lemma drop_quiet: "devices (drop_accumulators k s) = devices s" "sv_events (drop_accumulators k s) = sv_events s"
  by (simp_all add: drop_accumulators_def)

text \<open>Either nothing is published, or a newer sample is, and that is a success.\<close>

definition published :: "AgentMetricsPayload \<Rightarrow> int \<Rightarrow> MetricsService \<Rightarrow> unit outcome \<Rightarrow> MetricsService \<Rightarrow> bool" where
  "published payload now s r s' \<longleftrightarrow> (\<exists>u. r = Inr u) \<and>
     devices s' = map_set (id_deviceId (pa_identity payload)) (realtime_state payload now) (devices s) \<and>
     \<not> is_stale (map_get (devices s) (id_deviceId (pa_identity payload))) payload \<and>
     (\<exists>e. ev_deviceId e = id_deviceId (pa_identity payload) \<and> sv_events s' = sv_events s @ [e])"

lemma realtime_state_facts [simp]:
  "rs_identity (realtime_state payload now) = pa_identity payload" "rs_latest (realtime_state payload now) = payload"
  by (simp_all add: realtime_state_def)

lemma persistPayload_publishes:
  assumes "persistPayload disk_ok payload now so g s = (r, s')"
  shows "devices s' = devices s \<and> sv_events s' = sv_events s \<or> published payload now s r s'"
proof -
  let ?k = "id_deviceId (pa_identity payload)"
  define s2 where "s2 = snd (getMetricConfig ?k (snd (on_store (getDevice ?k) s)))"
  define c where "c = fst (getMetricConfig ?k (snd (on_store (getDevice ?k) s)))"
  define p where "p = map_get (devices s) ?k"
  define s3 where "s3 = (case p of
      Some p \<Rightarrow> if hasIdentityBoundaryChanged (rs_identity p) (pa_identity payload) then drop_accumulators ?k s2 else s2
    | None \<Rightarrow> s2)"
  have pf: "fst (on_store (getDevice ?k) s) = p"
    by (simp add: p_def getDevice_def)
  have s2: "devices s2 = devices s" "sv_events s2 = sv_events s"
    by (simp_all add: s2_def config_quiet getDevice_def)
  then have s3: "devices s3 = devices s" "sv_events s3 = sv_events s"
    by (auto simp: s3_def drop_quiet split: option.split)
  have run: "(r, s') = (if is_stale p payload then (Inr (), s2)
      else case payloadToTimeSeries payload c of None \<Rightarrow> (Inl BadTimestamp, s3)
        | Some point \<Rightarrow> then_do (store_point disk_ok payload (realtime_state payload now) point)
            (\<lambda>_ s. (Inr (), emitDeviceEventSafely (payload_event (realtime_state payload now) so g) s)) s3)"
    using assms unfolding persistPayload_def Let_def case_prod_unfold s2_def [symmetric] c_def [symmetric] pf
      s3_def [symmetric] by simp
  show ?thesis
  proof (cases "is_stale p payload \<or> payloadToTimeSeries payload c = None")
    case True
    with run s2 s3 show ?thesis by (auto split: if_splits)
  next
    case False
    then obtain point where point: "payloadToTimeSeries payload c = Some point" by blast
    obtain r1 s4 where st: "store_point disk_ok payload (realtime_state payload now) point s3 = (r1, s4)"
      by (cases "store_point disk_ok payload (realtime_state payload now) point s3")
    from store_point_publishes [OF st] False run s3 show ?thesis
      by (cases r1) (auto simp: point then_do_def st published_def p_def emitDeviceEventSafely_def payload_event_def)
  qed
qed

lemma register_quiet: "quiet (on_store (registerOrUpdateDevice disk_ok now k name options))"
  by (auto simp: quiet_def registerOrUpdateDevice_def updateWhen_facts commit_contents register_device_def Let_def
      split: option.split)

lemma ingest_publishes:
  assumes "ingest disk_ok now payload s = (r, s')"
  shows "devices s' = devices s \<and> sv_events s' = sv_events s \<or> published payload now s r s'"
proof -
  let ?reg = "on_store (registerOrUpdateDevice disk_ok now (id_deviceId (pa_identity payload))
         (Some (id_hostname (pa_identity payload))) \<lparr>ro_reopenClosed = True, ro_skipUnchanged = True\<rparr>)"
  obtain r1 s1 where reg: "?reg s = (r1, s1)" by (cases "?reg s")
  have q: "devices s1 = devices s" "sv_events s1 = sv_events s"
    using quietD [OF register_quiet] reg by (metis snd_conv)+
  show ?thesis
  proof (cases r1)
    case (Inl e)
    with assms reg q show ?thesis by (auto simp: ingest_def then_do_def)
  next
    case (Inr d)
    show ?thesis
    proof (cases "dv_status d = Closed")
      case False
      with assms reg Inr have "persistPayload disk_ok payload now (dv_sortOrder d) (dv_group d) s1 = (r, s')"
        by (simp add: ingest_def then_do_def)
      from persistPayload_publishes [OF this] q show ?thesis by (auto simp: published_def)
    qed (use assms reg Inr q in \<open>auto simp: ingest_def then_do_def\<close>)
  qed
qed

subsection \<open>Properties of ingestion\<close>

text \<open>
  In every reachable state each open accumulator holds between one sample and its bound of samples, with
  distinct timestamps, all inside the accumulator's bucket; no accumulator is shared between devices or
  tiers; every memoised aggregate is the aggregate of the present samples; and the store is well formed.
\<close>

theorem reachable_service_ok:
  assumes "reachable_service disk_ok s"
  shows "service_ok s"
  using assms by (rule reachable_service_inv)

text \<open>
  C1: a sample whose time is not later than that of the sample on display, replayed by an agent that was offline, is
  acknowledged and changes nothing: no history, no accumulator, no live state and no event.
\<close>

theorem stale_sample_ignored:
  assumes "map_get (db_devices (contents (sv_store s))) (id_deviceId (pa_identity payload)) = Some displayed"
    and "Date_parse (pa_timestamp (rs_latest displayed)) = Some shown"
    and "Date_parse (pa_timestamp payload) = Some time" "time \<le> shown"
  shows "\<exists>st. persistPayload disk_ok payload now so g s = (Inr (), s\<lparr>sv_store := st\<rparr>) \<and> contents st = contents (sv_store s)"
proof -
  let ?k = "id_deviceId (pa_identity payload)"
  have stale: "is_stale (map_get (devices s) ?k) payload"
    using assms by (simp add: is_stale_def parsed_le_def)
  have p: "fst (on_store (getDevice ?k) s) = map_get (devices s) ?k"
    by (simp add: getDevice_def)
  have "persistPayload disk_ok payload now so g s = (Inr (), snd (getMetricConfig ?k (snd (on_store (getDevice ?k) s))))"
    unfolding persistPayload_def Let_def case_prod_unfold p using stale by simp
  then show ?thesis
    by (simp add: getMetricConfig_def getConfig_def getDevice_def case_prod_unfold Let_def)
      (rule exI, rule conjI, rule refl, simp)
qed

text \<open>
  C2: an ingestion that fails, at whatever stage, leaves the displayed sample of every device as it was and
  announces nothing, so the agent's retry is not taken for a stale sample.
\<close>

theorem failed_ingest_publishes_nothing:
  assumes "ingest disk_ok now payload s = (Inl e, s')"
  shows "db_devices (contents (sv_store s')) = db_devices (contents (sv_store s)) \<and> sv_events s' = sv_events s \<and>
    is_stale (map_get (db_devices (contents (sv_store s'))) (id_deviceId (pa_identity payload))) payload
      = is_stale (map_get (db_devices (contents (sv_store s))) (id_deviceId (pa_identity payload))) payload"
  using ingest_publishes [OF assms] by (auto simp: published_def)

text \<open>The timestamp of the sample on display.\<close>

definition latest_time :: "MetricsService \<Rightarrow> string \<Rightarrow> int option" where
  "latest_time s k = Option.bind (map_get (db_devices (contents (sv_store s))) k) (\<lambda>p. Date_parse (pa_timestamp (rs_latest p)))"

text \<open>
  Ingestion never moves the displayed sample back: for every device the time on display stays, or it
  strictly increases to the time of the ingested sample; other devices are untouched.
\<close>

theorem latest_strictly_increases:
  assumes "ingest disk_ok now payload s = (r, s')" "Date_parse (pa_timestamp payload) = Some t"
  shows "latest_time s' k = latest_time s k \<or>
    (k = id_deviceId (pa_identity payload) \<and> latest_time s' k = Some t \<and>
      (case latest_time s k of None \<Rightarrow> True | Some t0 \<Rightarrow> t0 < t))"
proof -
  from ingest_publishes [OF assms(1)] consider "devices s' = devices s" | "published payload now s r s'" by blast
  then show ?thesis
  proof cases
    case 2
    then show ?thesis
      using assms(2) by (cases "k = id_deviceId (pa_identity payload)")
        (auto simp: published_def latest_time_def is_stale_def parsed_le_def bind_eq_Some_conv split: option.splits)
  qed (simp add: latest_time_def)
qed

subsubsection \<open>With a working disk\<close>

lemma then_do_Inr: "f s = (Inr x, s') \<Longrightarrow> then_do f g s = g x s'"
  by (simp add: then_do_def)

lemma update_ok: "\<forall>n. disk_ok n \<Longrightarrow> fst (update disk_ok f st) = Inr ()"
  by (simp add: update_facts)

lemma insert_tier_ok: "\<forall>n. disk_ok n \<Longrightarrow> fst (insert_tier tier disk_ok k p st) = Inr ()"
  by (cases tier) (simp_all add: insertMinutePoint_def insertHourlyPoint_def update_facts)

lemma persist_works: "\<forall>n. disk_ok n \<Longrightarrow> fst (persist_accumulator tier disk_ok k r s) = Inr ()"
  using insert_tier_ok [of disk_ok tier k]
  by (simp add: persist_accumulator_def case_prod_unfold Let_def split: option.split)

text \<open>The samples of a device's open bucket.\<close>

definition open_samples :: "Tier \<Rightarrow> string \<Rightarrow> MetricsService \<Rightarrow> TimeSeriesRecord list" where
  "open_samples tier k s = (case current_accumulator tier k s of None \<Rightarrow> [] | Some (r, acc) \<Rightarrow> ac_samples acc)"

lemma open_bucket_current:
  "current_accumulator tier k (open_bucket tier k p s) =
     Some (sv_next s, \<lparr>ac_bucketStartedAt = bucket_start tier (tr_timestamp p), ac_samples = [p]\<rparr>)"
  by (simp add: current_accumulator_def open_bucket_def Let_def)

lemma extend_bucket_current:
  "map_get (accumulators tier s) k = Some r \<Longrightarrow>
   current_accumulator tier k (extend_bucket tier r acc p s) = Some (r, acc\<lparr>ac_samples := add_sample (max_samples tier) p (ac_samples acc)\<rparr>)"
  by (simp add: current_accumulator_def extend_bucket_def)

lemma add_aggregate_works:
  assumes "\<forall>n. disk_ok n"
  shows "fst (add_aggregate tier disk_ok k p s) = Inr () \<and> p \<in> set (open_samples tier k (snd (add_aggregate tier disk_ok k p s)))"
proof (cases "current_accumulator tier k s")
  case None
  then show ?thesis by (simp add: add_aggregate_def open_samples_def open_bucket_current)
next
  case (Some ra)
  obtain r acc where ra: "ra = (r, acc)" by (cases ra)
  have r: "map_get (accumulators tier s) k = Some r"
    using Some ra by (auto simp: current_accumulator_def bind_eq_Some_conv)
  show ?thesis
  proof (cases "ac_bucketStartedAt acc = bucket_start tier (tr_timestamp p)")
    case True
    with Some ra r show ?thesis
      by (simp add: add_aggregate_def open_samples_def extend_bucket_current add_sample_mem)
  next
    case False
    let ?f = "if ac_samples acc \<noteq> [] then persist_accumulator tier disk_ok k r else (\<lambda>s. (Inr (), s))"
    have "fst (?f s) = Inr ()"
      using persist_works [OF assms] by simp
    then obtain s1 where "?f s = (Inr (), s1)" by (metis prod.collapse)
    from then_do_Inr [of ?f s "()" s1 "\<lambda>_ s. (Inr (), open_bucket tier k p s)", OF this] False Some ra
    have "add_aggregate tier disk_ok k p s = (Inr (), open_bucket tier k p s1)"
      unfolding add_aggregate_def by (simp only: option.case prod.case if_True not_False_eq_True)
    then show ?thesis by (simp add: open_samples_def open_bucket_current)
  qed
qed

lemma persist_frame:
  "accumulators tier' (snd (persist_accumulator tier disk_ok k r s)) = accumulators tier' s \<and>
   sv_heap (snd (persist_accumulator tier disk_ok k r s)) = sv_heap s \<and> sv_next (snd (persist_accumulator tier disk_ok k r s)) = sv_next s"
  by (simp add: persist_accumulator_def case_prod_unfold Let_def split: option.split sum.split)

lemma current_frame:
  "accumulators tier s' = accumulators tier s \<Longrightarrow> sv_heap s' = sv_heap s \<Longrightarrow> current_accumulator tier k s' = current_accumulator tier k s"
  by (simp add: current_accumulator_def)

lemma open_bucket_frame:
  assumes "\<And>r. map_get (accumulators tier' s) k' = Some r \<Longrightarrow> r < sv_next s" "tier' \<noteq> tier \<or> k' \<noteq> k"
  shows "current_accumulator tier' k' (open_bucket tier k p s) = current_accumulator tier' k' s"
  using assms by (cases "map_get (accumulators tier' s) k'") (auto simp: current_accumulator_def open_bucket_def Let_def)

lemma heap_ok_ref: "heap_ok s \<Longrightarrow> map_get (accumulators tier s) k = Some r \<Longrightarrow> r < sv_next s"
  using heap_okD(2,3) by blast

lemma add_aggregate_frame:
  assumes "heap_ok s" "tier' \<noteq> tier \<or> k' \<noteq> k"
  shows "current_accumulator tier' k' (snd (add_aggregate tier disk_ok k p s)) = current_accumulator tier' k' s"
proof (cases "current_accumulator tier k s")
  case None
  then show ?thesis
    using open_bucket_frame [of tier' s k' tier k p] heap_ok_ref [OF assms(1)] assms(2) by (simp add: add_aggregate_def)
next
  case (Some ra)
  obtain r acc where ra: "ra = (r, acc)" by (cases ra)
  note ok = current_accumulator_ok(2) [OF assms(1), of tier k r acc]
  show ?thesis
  proof (cases "ac_bucketStartedAt acc = bucket_start tier (tr_timestamp p)")
    case True
    have "map_get (accumulators tier' s) k' \<noteq> Some r"
      using heap_okD(4) [OF assms(1), of tier' k' r tier k] ok Some ra assms(2) by blast
    then have "current_accumulator tier' k' (extend_bucket tier r acc p s) = current_accumulator tier' k' s"
      by (cases "map_get (accumulators tier' s) k'") (auto simp: current_accumulator_def extend_bucket_def)
    with True Some ra show ?thesis by (simp add: add_aggregate_def)
  next
    case False
    let ?f = "if ac_samples acc \<noteq> [] then persist_accumulator tier disk_ok k r else (\<lambda>s. (Inr (), s))"
    obtain x s1 where f: "?f s = (x, s1)" by (cases "?f s")
    have s1: "accumulators tier' s1 = accumulators tier' s" "sv_heap s1 = sv_heap s" "sv_next s1 = sv_next s"
      using persist_frame [of tier' tier disk_ok k r s] f by (auto split: if_splits)
    have "add_aggregate tier disk_ok k p s = then_do ?f (\<lambda>_ s. (Inr (), open_bucket tier k p s)) s"
      unfolding add_aggregate_def using False Some ra by (simp only: option.case prod.case if_True not_False_eq_True)
    also have "\<dots> = (case x of Inl e \<Rightarrow> (Inl e, s1) | Inr _ \<Rightarrow> (Inr (), open_bucket tier k p s1))"
      unfolding then_do_def f by (simp split: sum.split)
    finally have "snd (add_aggregate tier disk_ok k p s) = (case x of Inl e \<Rightarrow> s1 | Inr _ \<Rightarrow> open_bucket tier k p s1)"
      by (simp split: sum.split)
    then show ?thesis
      using open_bucket_frame [of tier' s1 k' tier k p] heap_ok_ref [OF assms(1)] assms(2) s1 current_frame [OF s1(1,2)]
      by (simp split: sum.split)
  qed
qed

lemma append_windows_works:
  assumes "\<forall>n. disk_ok n"
  shows "\<exists>st. append_windows disk_ok k p s = (Inr (), s\<lparr>sv_store := st\<rparr>)"
  using update_ok [OF assms]
  by (simp add: append_windows_def case_prod_unfold Let_def appendSeries_def split: sum.split) (rule exI, rule refl)

lemma store_point_works:
  assumes "\<forall>n. disk_ok n" "service_ok s"
  shows "\<exists>s'. store_point disk_ok payload state p s = (Inr (), s') \<and>
    p \<in> set (open_samples Minute (id_deviceId (pa_identity payload)) s') \<and>
    p \<in> set (open_samples Hourly (id_deviceId (pa_identity payload)) s')"
proof -
  let ?k = "id_deviceId (pa_identity payload)"
  from append_windows_works [OF assms(1)] obtain st where
    1: "append_windows disk_ok ?k p s = (Inr (), s\<lparr>sv_store := st\<rparr>)" by blast
  define s1 where "s1 = s\<lparr>sv_store := st\<rparr>"
  obtain s2 where 2: "add_aggregate Minute disk_ok ?k p s1 = (Inr (), s2)" "p \<in> set (open_samples Minute ?k s2)"
    using add_aggregate_works [OF assms(1)] by (metis prod.collapse)
  obtain s3 where 3: "add_aggregate Hourly disk_ok ?k p s2 = (Inr (), s3)" "p \<in> set (open_samples Hourly ?k s3)"
    using add_aggregate_works [OF assms(1)] by (metis prod.collapse)
  have "service_ok s1"
    using service_operation.run_pair [OF append_windows_ok assms(2) 1] by (simp add: s1_def)
  from service_operation.run_pair [OF add_aggregate_ok this 2(1)] have h2: "heap_ok s2"
    by (simp add: service_ok_def)
  have "current_accumulator Minute ?k s3 = current_accumulator Minute ?k s2"
    using add_aggregate_frame [OF h2, of Minute Hourly ?k ?k disk_ok p] 3(1) by simp
  then have 4: "p \<in> set (open_samples Minute ?k s3)"
    using 2(2) by (simp add: open_samples_def)
  have 5: "on_store (upsert disk_ok state) s3 = (Inr (), s3\<lparr>sv_store := snd (upsert disk_ok state (sv_store s3))\<rparr>)"
    using update_ok [OF assms(1)] by (simp add: prod_eq_iff upsert_def)
  have "store_point disk_ok payload state p s = (Inr (), s3\<lparr>sv_store := snd (upsert disk_ok state (sv_store s3))\<rparr>)"
    unfolding store_point_def Let_def addMinuteAggregate_def addHourlyAggregate_def
    by (simp add: then_do_def 1 2(1) 3(1) 5 s1_def [symmetric] del: on_store_facts)
  moreover have "current_accumulator tier ?k (s3\<lparr>sv_store := st'\<rparr>) = current_accumulator tier ?k s3" for tier st'
    by (simp add: current_accumulator_def)
  ultimately show ?thesis
    using 3(2) 4 by (simp add: open_samples_def)
qed

lemma register_open:
  assumes "\<forall>n. disk_ok n" "\<not> isLegacyVirtualMachineId k"
  shows "\<exists>d. fst (registerOrUpdateDevice disk_ok now k name \<lparr>ro_reopenClosed = True, ro_skipUnchanged = skip\<rparr> st) = Inr d \<and> dv_status d = Open"
proof (cases "registration_unneeded k name \<lparr>ro_reopenClosed = True, ro_skipUnchanged = skip\<rparr> (contents st)")
  case None
  with assms show ?thesis
    by (simp add: registerOrUpdateDevice_def updateWhen_facts commit_fst register_device_def Let_def split: option.split)
next
  case (Some d)
  then have "dv_status d = Open"
    by (auto simp: registration_unneeded_def split: option.splits if_splits)
  with assms Some show ?thesis
    by (simp add: registerOrUpdateDevice_def updateWhen_facts)
qed

lemma persistPayload_works:
  assumes "\<forall>n. disk_ok n" "service_ok s" "Date_parse (pa_timestamp payload) = Some t"
    and "\<not> is_stale (map_get (devices s) (id_deviceId (pa_identity payload))) payload"
  shows "\<exists>s' p. persistPayload disk_ok payload now so g s = (Inr (), s') \<and>
    map_get (devices s') (id_deviceId (pa_identity payload)) = Some (realtime_state payload now) \<and> tr_timestamp p = t \<and>
    p \<in> set (open_samples Minute (id_deviceId (pa_identity payload)) s') \<and>
    p \<in> set (open_samples Hourly (id_deviceId (pa_identity payload)) s')"
proof -
  let ?k = "id_deviceId (pa_identity payload)"
  define s2 where "s2 = snd (getMetricConfig ?k (snd (on_store (getDevice ?k) s)))"
  define c where "c = fst (getMetricConfig ?k (snd (on_store (getDevice ?k) s)))"
  define s3 where "s3 = (case map_get (devices s) ?k of
      Some p \<Rightarrow> if hasIdentityBoundaryChanged (rs_identity p) (pa_identity payload) then drop_accumulators ?k s2 else s2
    | None \<Rightarrow> s2)"
  have pf: "fst (on_store (getDevice ?k) s) = map_get (devices s) ?k"
    by (simp add: getDevice_def)
  have s2: "service_ok s2"
    unfolding s2_def getDevice_def by (intro getMetricConfig_service select_service_ok assms(2))
  have s3: "service_ok s3"
    using s2 drop_accumulators_service [OF s2] by (simp add: s3_def split: option.split)
  have point: "payloadToTimeSeries payload c = Some (payload_record t payload c)"
    using assms(3) by (simp add: payloadToTimeSeries_def)
  obtain s4 where s4: "store_point disk_ok payload (realtime_state payload now) (payload_record t payload c) s3 = (Inr (), s4)"
    "payload_record t payload c \<in> set (open_samples Minute ?k s4)" "payload_record t payload c \<in> set (open_samples Hourly ?k s4)"
    using store_point_works [OF assms(1) s3] by blast
  have "persistPayload disk_ok payload now so g s =
      (Inr (), emitDeviceEventSafely (payload_event (realtime_state payload now) so g) s4)"
    unfolding persistPayload_def Let_def case_prod_unfold s2_def [symmetric] c_def [symmetric] pf s3_def [symmetric]
    using assms(4) by (simp add: point then_do_def s4(1))
  moreover have "open_samples tier ?k (emitDeviceEventSafely ev s4) = open_samples tier ?k s4" for tier ev
    by (simp add: open_samples_def current_accumulator_def emitDeviceEventSafely_def)
  moreover have "tr_timestamp (payload_record t payload c) = t"
    by (simp add: payload_record_def Let_def)
  moreover have "map_get (devices s4) ?k = Some (realtime_state payload now)"
    using store_point_publishes [OF s4(1)] by simp
  ultimately show ?thesis
    using s4(2,3) by (intro exI [of _ "emitDeviceEventSafely (payload_event (realtime_state payload now) so g) s4"]
        exI [of _ "payload_record t payload c"]) (simp add: emitDeviceEventSafely_def)
qed

text \<open>
  C3: while the disk works, a sample with a valid timestamp, newer than the one on display and not of a legacy
  virtual machine, is accepted: it is on display afterwards and counts in the open minute and the open hour.
  With the two previous properties this makes a retry after a failed upload effective.
\<close>

theorem newer_sample_accepted:
  assumes "\<forall>n. disk_ok n" "reachable_service disk_ok s" "Date_parse (pa_timestamp payload) = Some t"
    and "\<not> isLegacyVirtualMachineId (id_deviceId (pa_identity payload))"
    and "\<not> is_stale (map_get (db_devices (contents (sv_store s))) (id_deviceId (pa_identity payload))) payload"
  shows "\<exists>s' p. ingest disk_ok now payload s = (Inr (), s') \<and>
    map_get (db_devices (contents (sv_store s'))) (id_deviceId (pa_identity payload)) = Some (realtime_state payload now) \<and>
    tr_timestamp p = t \<and> p \<in> set (open_samples Minute (id_deviceId (pa_identity payload)) s') \<and>
    p \<in> set (open_samples Hourly (id_deviceId (pa_identity payload)) s')"
proof -
  let ?k = "id_deviceId (pa_identity payload)"
  let ?reg = "on_store (registerOrUpdateDevice disk_ok now ?k (Some (id_hostname (pa_identity payload)))
    \<lparr>ro_reopenClosed = True, ro_skipUnchanged = True\<rparr>)"
  obtain d s1 where reg: "?reg s = (Inr d, s1)" "dv_status d = Open"
    using register_open [OF assms(1,4), of now "Some (id_hostname (pa_identity payload))" True "sv_store s"]
    by (metis on_store_facts(1) prod.collapse)
  have s1: "service_ok s1"
    using store_only_ok [of "registerOrUpdateDevice disk_ok now ?k (Some (id_hostname (pa_identity payload)))
        \<lparr>ro_reopenClosed = True, ro_skipUnchanged = True\<rparr>" s] reachable_service_inv [OF assms(2)] reg(1)
    by (simp add: wf_registered register.run_coherent)
  have dev: "devices s1 = devices s"
    using quietD(1) [OF register_quiet] reg(1) by (metis snd_conv)
  have ns: "\<not> is_stale (map_get (devices s1) ?k) payload"
    using assms(5) by (simp add: dev)
  obtain s' p where p: "persistPayload disk_ok payload now (dv_sortOrder d) (dv_group d) s1 = (Inr (), s')" "tr_timestamp p = t"
    "map_get (devices s') ?k = Some (realtime_state payload now)" "p \<in> set (open_samples Minute ?k s')" "p \<in> set (open_samples Hourly ?k s')"
    using persistPayload_works [OF assms(1) s1 assms(3) ns] by blast
  have ing: "ingest disk_ok now payload s = (Inr (), s')"
    unfolding ingest_def then_do_def reg(1) using reg(2) p(1) by simp
  with p(2-5) show ?thesis by blast
qed

subsection \<open>Flushing and reading\<close>

definition clean :: "Tier \<Rightarrow> string \<Rightarrow> MetricsService \<Rightarrow> bool" where
  "clean tier k s \<longleftrightarrow> (case current_accumulator tier k s of None \<Rightarrow> True | Some (r, acc) \<Rightarrow> r \<notin> set (sv_dirtyAccumulators s))"

lemma persist_dirty:
  "set (sv_dirtyAccumulators (snd (persist_accumulator tier disk_ok k r s))) \<subseteq> set (sv_dirtyAccumulators s)"
  "fst (persist_accumulator tier disk_ok k r s) = Inr u \<Longrightarrow> map_get (sv_heap s) r \<noteq> None \<Longrightarrow>
     r \<notin> set (sv_dirtyAccumulators (snd (persist_accumulator tier disk_ok k r s)))"
  by (auto simp: persist_accumulator_def case_prod_unfold Let_def split: option.splits sum.splits if_splits)

text \<open>One step of the flush, seen from outside: it moves no accumulator and only cleans.\<close>

lemma flush_tier_facts:
  assumes "heap_ok s" "flush_tier tier disk_ok k s = (x, s')"
  shows "\<forall>tier'. accumulators tier' s' = accumulators tier' s" "sv_heap s' = sv_heap s" "heap_ok s'"
    "set (sv_dirtyAccumulators s') \<subseteq> set (sv_dirtyAccumulators s)" "x = Inr u \<Longrightarrow> clean tier k s'"
proof -
  have s': "s' = s \<or> (\<exists>r. s' = snd (persist_accumulator tier disk_ok k r s))"
    using assms(2) by (auto simp: flush_tier_def split: option.splits if_splits) (metis snd_conv)
  then show frame: "\<forall>tier'. accumulators tier' s' = accumulators tier' s" "sv_heap s' = sv_heap s"
    using persist_frame by metis+
  show "set (sv_dirtyAccumulators s') \<subseteq> set (sv_dirtyAccumulators s)"
    using s' persist_dirty(1) by blast
  show "heap_ok s'"
    using s' persist_heap_ok [OF assms(1)] assms(1) by blast
  show "clean tier k s'" if "x = Inr u"
  proof (cases "current_accumulator tier k s")
    case None
    then show ?thesis
      using current_frame [of tier s' s k] frame by (simp add: clean_def)
  next
    case (Some ra)
    obtain r acc where ra: "ra = (r, acc)" by (cases ra)
    note ok = current_accumulator_ok(2) [OF assms(1) Some [unfolded ra]]
    have "r \<notin> set (sv_dirtyAccumulators s')"
      using assms(2) Some ra ok that persist_dirty(2) [of tier disk_ok k r s u]
      by (auto simp: flush_tier_def acc_ok_def split: if_splits)
    then show ?thesis
      using current_frame [of tier s' s k] frame Some ra by (simp add: clean_def)
  qed
qed

lemma for_each_append: "for_each f (xs @ [x]) s =
    (case f x (snd (for_each f xs s)) of (Inl e, s') \<Rightarrow> (fst (for_each f xs s) @ [e], s') | (Inr _, s') \<Rightarrow> (fst (for_each f xs s), s'))"
proof -
  obtain fs s1 where "for_each f xs s = (fs, s1)" by (cases "for_each f xs s")
  then show ?thesis unfolding for_each_def by (auto split: prod.split sum.split)
qed

lemma flush_all:
  assumes "heap_ok s"
  shows "(\<forall>tier. accumulators tier (snd (for_each (\<lambda>(k, tier). flush_tier tier disk_ok k) xs s)) = accumulators tier s) \<and>
    sv_heap (snd (for_each (\<lambda>(k, tier). flush_tier tier disk_ok k) xs s)) = sv_heap s \<and>
    heap_ok (snd (for_each (\<lambda>(k, tier). flush_tier tier disk_ok k) xs s)) \<and>
    (fst (for_each (\<lambda>(k, tier). flush_tier tier disk_ok k) xs s) = [] \<longrightarrow>
      (\<forall>(k, tier) \<in> set xs. clean tier k (snd (for_each (\<lambda>(k, tier). flush_tier tier disk_ok k) xs s))))"
proof (induction xs rule: rev_induct)
  case Nil
  then show ?case by (simp add: for_each_def assms)
next
  case (snoc x xs)
  let ?f = "\<lambda>(k, tier). flush_tier tier disk_ok k"
  define s1 where "s1 = snd (for_each ?f xs s)"
  obtain k tier where x: "x = (k, tier)" by (cases x)
  obtain y s2 where y: "flush_tier tier disk_ok k s1 = (y, s2)" by (cases "flush_tier tier disk_ok k s1")
  have h: "heap_ok s1" using snoc by (simp add: s1_def)
  note facts = flush_tier_facts [OF h y]
  have s2: "snd (for_each ?f (xs @ [x]) s) = s2"
    by (simp add: for_each_append x s1_def [symmetric] y split: sum.split)
  have "clean tier' k' s2" if "fst (for_each ?f (xs @ [x]) s) = []" "(k', tier') \<in> set (xs @ [x])" for k' tier'
  proof -
    have fst: "fst (for_each ?f xs s) = []" "\<exists>u. y = Inr u"
      using that(1) by (auto simp: for_each_append x s1_def [symmetric] y split: sum.splits)
    show ?thesis
    proof (cases "(k', tier') = (k, tier)")
      case True
      then show ?thesis using facts(5) fst(2) by auto
    next
      case False
      with that(2) x have "(k', tier') \<in> set xs" by auto
      then have "clean tier' k' s1" using snoc fst(1) by (auto simp: s1_def)
      then show ?thesis
        using current_frame [of tier' s2 s1 k'] facts(1,2,4) by (auto simp: clean_def split: option.splits)
    qed
  qed
  with snoc facts(1-3) show ?case
    unfolding s2 by (auto simp: s1_def)
qed

lemma flush_steps_cover:
  assumes "heap_ok s" "current_accumulator tier k s = Some ra"
  shows "(k, tier) \<in> set (flush_steps s)"
proof -
  obtain r acc where "ra = (r, acc)" by (cases ra)
  with current_accumulator_ok(2) [OF assms(1)] assms(2) have "map_get (accumulators tier s) k = Some r" by blast
  then have "k \<in> set (map_keys (accumulators tier s))"
    using map_get_None_iff [of "accumulators tier s" k] by auto
  then show ?thesis
    by (cases tier) (auto simp: flush_steps_def)
qed

lemma flush_works:
  assumes "\<forall>n. disk_ok n"
  shows "fst (performAggregateFlush disk_ok s) = []"
proof -
  have "fst (flush_tier tier disk_ok k s) = Inr ()" for tier k s
    using persist_works [OF assms] by (auto simp: flush_tier_def split: option.split)
  then have "fst (for_each (\<lambda>(k, tier). flush_tier tier disk_ok k) xs s) = []" for xs
    by (induction xs rule: rev_induct) (simp add: for_each_def, auto simp: for_each_append case_prod_unfold split: sum.split)
  then show ?thesis by (simp add: performAggregateFlush_def)
qed

text \<open>
  A flush that reports no failure leaves no open accumulator dirty, while every accumulator and its
  samples stay where they are; and with a working disk a flush reports no failure.
\<close>

theorem flush_cleans:
  assumes "reachable_service disk_ok s" "performAggregateFlush disk_ok s = (failures, s')"
  shows "(failures = [] \<longrightarrow> (\<forall>tier k. clean tier k s')) \<and>
    (\<forall>tier k. current_accumulator tier k s' = current_accumulator tier k s) \<and>
    ((\<forall>n. disk_ok n) \<longrightarrow> failures = [])"
proof -
  have h: "heap_ok s"
    using reachable_service_inv [OF assms(1)] by (simp add: service_ok_def)
  note all = flush_all [OF h, of disk_ok "flush_steps s"]
  have s': "s' = snd (for_each (\<lambda>(k, tier). flush_tier tier disk_ok k) (flush_steps s) s)"
    "failures = fst (for_each (\<lambda>(k, tier). flush_tier tier disk_ok k) (flush_steps s) s)"
    using assms(2) by (simp_all add: performAggregateFlush_def)
  have same: "current_accumulator tier k s' = current_accumulator tier k s" for tier k
    using all by (intro current_frame) (simp_all add: s')
  moreover have "clean tier k s'" if "failures = []" for tier k
  proof (cases "current_accumulator tier k s")
    case None
    then show ?thesis by (simp add: clean_def same)
  next
    case (Some ra)
    from flush_steps_cover [OF h this] all that show ?thesis by (auto simp: s')
  qed
  moreover have "failures = []" if "\<forall>n. disk_ok n"
    using flush_works [OF that, of s] assms(2) by simp
  ultimately show ?thesis by blast
qed

lemma with_current_value:
  assumes "heap_ok s"
  shows "fst (with_current_aggregate tier k h s) = (case current_accumulator tier k s of
      None \<Rightarrow> h
    | Some (r, acc) \<Rightarrow> sort_by tr_timestamp (filter (\<lambda>p. tr_timestamp p \<noteq> ac_bucketStartedAt acc) h
        @ [averageRecord (ac_samples acc) (ac_bucketStartedAt acc)]))"
proof (cases "current_accumulator tier k s")
  case (Some ra)
  obtain r acc where ra: "ra = (r, acc)" by (cases ra)
  note ok = current_accumulator_ok(2) [OF assms Some [unfolded ra]]
  from snapshots_read_value [OF heap_okD(1) [OF assms], of r acc] ok
  have "fst (snapshots_read averageRecord r acc (sv_snapshots s)) = averageRecord (ac_samples acc) (ac_bucketStartedAt acc)"
    by blast
  moreover have "tr_timestamp (averageRecord ss t) = t" for ss t
    by (simp add: averageRecord_def Let_def)
  ultimately show ?thesis
    using Some ra ok by (simp add: with_current_aggregate_def case_prod_unfold Let_def acc_ok_def)
qed (simp add: with_current_aggregate_def)

text \<open>
  C4: reading a minute or hour window of a reachable service gives the stored points of that window, with the
  open bucket's point replaced by the average of exactly its present samples, in time order: the memo of the
  aggregate is never observable.
\<close>

theorem getSeries_value:
  assumes "reachable_service disk_ok s" "w \<noteq> W1m" "w \<noteq> W5m"
  shows "fst (getSeries now k w s) =
    (let h = historical_series now k w (contents (sv_store s)); tier = (if minute_window w then Minute else Hourly)
     in case current_accumulator tier k s of
          None \<Rightarrow> h
        | Some (r, acc) \<Rightarrow> sort_by tr_timestamp (filter (\<lambda>p. tr_timestamp p \<noteq> ac_bucketStartedAt acc) h
            @ [averageRecord (ac_samples acc) (ac_bucketStartedAt acc)]))"
proof -
  have "heap_ok (s\<lparr>sv_store := st\<rparr>)" for st
    using reachable_service_inv [OF assms(1)] by (simp add: service_ok_def)
  moreover have "current_accumulator tier k (s\<lparr>sv_store := st\<rparr>) = current_accumulator tier k s" for tier st
    by (simp add: current_accumulator_def)
  ultimately show ?thesis
    using assms(2,3) by (simp add: getSeries_def case_prod_unfold Let_def getHistoricalSeries_def
        withCurrentMinuteAggregate_def withCurrentHourlyAggregate_def with_current_value)
qed

subsubsection \<open>A flush is not visible to readers\<close>

lemma filter_update_out: "i < length h \<Longrightarrow> \<not> Q (h ! i) \<Longrightarrow> \<not> Q q \<Longrightarrow> filter Q (h[i := q]) = filter Q h"
  by (induction h arbitrary: i) (auto split: nat.splits)

lemma filter_filter_cong: "filter P xs = filter P ys \<Longrightarrow> filter P (filter Q xs) = filter P (filter Q ys)"
proof -
  have swap: "filter P (filter Q zs) = filter Q (filter P zs)" for zs
    by (simp add: conj_commute)
  show "filter P xs = filter P ys \<Longrightarrow> filter P (filter Q xs) = filter P (filter Q ys)"
    by (simp only: swap)
qed

text \<open>Apart from the point itself, an insertion loses at most the oldest point, and that only from a full history.\<close>

lemma filter_insert_point:
  assumes "history_ok n h" "0 < n" "tr_timestamp p = b"
  shows "filter (\<lambda>q. tr_timestamp q \<noteq> b) (insert_point n p h) = filter (\<lambda>q. tr_timestamp q \<noteq> b) h \<or>
    length h = n \<and> tr_timestamp (hd h) \<noteq> b \<and> filter (\<lambda>q. tr_timestamp q \<noteq> b) (insert_point n p h) = filter (\<lambda>q. tr_timestamp q \<noteq> b) (tl h)"
proof (cases "tr_timestamp p \<in> tr_timestamp ` set h")
  case True
  from insert_point_existing [OF this, of n] obtain i where i: "i < length h" "tr_timestamp (h ! i) = tr_timestamp p"
    "insert_point n p h = slice_neg n (if count_of p \<ge> count_of (h ! i) then h[i := p\<lparr>tr_sampleCount := Some (count_of p)\<rparr>] else h)"
    by blast
  then show ?thesis
    using assms by (simp add: slice_neg_short filter_update_out history_ok_def)
next
  case new: False
  have sorted: "sorted (map tr_timestamp h)" "length h \<le> n" using assms(1) by (simp_all add: history_ok_def)
  have out: "filter (\<lambda>q. tr_timestamp q \<noteq> b) (sort_by tr_timestamp (g @ [p])) = filter (\<lambda>q. tr_timestamp q \<noteq> b) g"
    if "sorted (map tr_timestamp g)" for g
  proof -
    have "filter (\<lambda>q. tr_timestamp q \<noteq> b) (sort_by tr_timestamp (g @ [p])) = sort_by tr_timestamp (filter (\<lambda>q. tr_timestamp q \<noteq> b) g)"
      unfolding sort_by_def by (simp add: filter_sort assms(3))
    also have "\<dots> = filter (\<lambda>q. tr_timestamp q \<noteq> b) g"
      using that by (intro sort_by_sorted sorted_filter)
    finally show ?thesis .
  qed
  show ?thesis
  proof (cases "length h < n")
    case True
    then show ?thesis by (simp add: insert_point_new [OF new] slice_neg_short out [OF sorted(1)])
  next
    case False
    with sorted assms(2) obtain x g where h: "h = x # g" "length h = n" by (cases h) auto
    have drop: "insert_point n p h = tl (sort_by tr_timestamp (h @ [p]))"
      unfolding insert_point_new [OF new] using h(2) assms(2) by (simp add: slice_neg_def drop_Suc)
    have ne: "tr_timestamp x \<noteq> b" using new assms(3) h by auto
    show ?thesis
    proof (cases "b < tr_timestamp x")
      case True
      then have "sorted (map tr_timestamp (p # h))"
        using sorted(1) h assms(3) by auto
      moreover have "filter (\<lambda>x. tr_timestamp k = tr_timestamp x) (p # h) = filter (\<lambda>x. tr_timestamp k = tr_timestamp x) (h @ [p])" for k
      proof (cases "tr_timestamp k = tr_timestamp p")
        case True
        then have "filter (\<lambda>x. tr_timestamp k = tr_timestamp x) h = []" using new by (force simp: filter_empty_conv)
        with True show ?thesis by simp
      qed simp
      ultimately have "sort_by tr_timestamp (h @ [p]) = p # h"
        unfolding sort_by_def by (intro properties_for_sort_key) (simp_all only: mset.simps mset_append add.commute, simp)
      then show ?thesis by (simp add: drop)
    next
      case False
      then have "sort_by tr_timestamp (h @ [p]) = x # sort_by tr_timestamp (g @ [p])"
        using sorted(1) h assms(3) ne by (simp add: sort_by_def insort_is_Cons)
      then have "insert_point n p h = sort_by tr_timestamp (g @ [p])" unfolding drop by simp
      then show ?thesis
        using out [of g] sorted(1) ne h by simp
    qed
  qed
qed

fun tier_history :: "Tier \<Rightarrow> LocalDbShape \<Rightarrow> (string, TimeSeriesRecord list) jsmap" where
  "tier_history Minute = db_minuteHistory" | "tier_history Hourly = db_history"

fun tier_bound :: "Tier \<Rightarrow> nat" where
  "tier_bound Minute = MAX_MINUTE_POINTS" | "tier_bound Hourly = MAX_HOURLY_POINTS"

lemma insert_tier_history:
  "tier_history tier' (contents (snd (insert_tier tier disk_ok k p st))) =
     (if tier' = tier \<and> disk_ok (st_writes st)
      then map_set k (insert_point (tier_bound tier) p (nullish (map_get (tier_history tier (contents st)) k) [])) (tier_history tier (contents st))
      else tier_history tier' (contents st))"
  by (cases tier; cases tier') (simp_all add: insertMinutePoint_def insertHourlyPoint_def update_facts)

lemma historical_series_tier:
  assumes "w \<noteq> W1m" "w \<noteq> W5m"
  shows "\<exists>th. \<forall>db k. historical_series now k w db = filter (\<lambda>p. th \<le> tr_timestamp p)
    (nullish (map_get (tier_history (if minute_window w then Minute else Hourly) db) k) [])"
  using assms by (auto simp: historical_series_def)

lemma series_depends:
  assumes "heap_ok s" "heap_ok s'" "\<forall>tier. accumulators tier s' = accumulators tier s" "sv_heap s' = sv_heap s"
    and "\<And>r acc. current_accumulator tier k s = Some (r, acc) \<Longrightarrow>
      filter (\<lambda>p. tr_timestamp p \<noteq> ac_bucketStartedAt acc) h' = filter (\<lambda>p. tr_timestamp p \<noteq> ac_bucketStartedAt acc) h"
    and "current_accumulator tier k s = None \<Longrightarrow> h' = h"
  shows "fst (with_current_aggregate tier k h' s') = fst (with_current_aggregate tier k h s)"
  using assms(5,6) current_frame [of tier s' s k] assms(3,4)
  by (auto simp: with_current_value [OF assms(1)] with_current_value [OF assms(2)] split: option.split prod.split)

lemma flush_tier_history:
  assumes "heap_ok s"
  shows "tier_history tier' (contents (sv_store (snd (flush_tier tier disk_ok k s)))) = tier_history tier' (db_of s) \<or>
    (\<exists>r acc. tier' = tier \<and> current_accumulator tier k s = Some (r, acc) \<and>
      tier_history tier' (contents (sv_store (snd (flush_tier tier disk_ok k s)))) =
        map_set k (insert_point (tier_bound tier) (averageRecord (ac_samples acc) (ac_bucketStartedAt acc))
          (nullish (map_get (tier_history tier (db_of s)) k) [])) (tier_history tier (db_of s)))"
proof (cases "current_accumulator tier k s")
  case (Some ra)
  obtain r acc where ra: "ra = (r, acc)" by (cases ra)
  note ok = current_accumulator_ok(2) [OF assms Some [unfolded ra]]
  have "fst (snapshots_read averageRecord r acc (sv_snapshots s)) = averageRecord (ac_samples acc) (ac_bucketStartedAt acc)"
    using snapshots_read_value [OF heap_okD(1) [OF assms], of r acc] ok by blast
  with ok Some ra show ?thesis
    by (auto simp: flush_tier_def persist_accumulator_def case_prod_unfold Let_def insert_tier_history split: sum.split)
qed (simp add: flush_tier_def)

lemma sort_by_filter: "filter P (sort_by f xs) = sort_by f (filter P xs)"
  by (simp add: sort_by_def filter_sort)

lemma drop_oldest:
  assumes "distinct (map f h)" "h \<noteq> []"
  shows "filter (\<lambda>p. f p \<noteq> f (hd h)) h = tl h"
proof (cases h)
  case (Cons a g)
  with assms(1) have "f a \<notin> f ` set g" by simp
  then have "\<forall>p \<in> set g. f p \<noteq> f a" by (metis imageI)
  with Cons show ?thesis by (simp add: filter_id_conv)
qed (use assms in simp)

text \<open>The stored points of one device and tier.\<close>

abbreviation stored_points :: "Tier \<Rightarrow> string \<Rightarrow> MetricsService \<Rightarrow> TimeSeriesRecord list" where
  "stored_points tier k s \<equiv> nullish (map_get (tier_history tier (contents (sv_store s))) k) []"

lemma getSeries_current:
  assumes "service_ok s" "w \<noteq> W1m" "w \<noteq> W5m" "current_accumulator (if minute_window w then Minute else Hourly) k s = Some (r, acc)"
  shows "fst (getSeries now k w s) = sort_by tr_timestamp (filter (\<lambda>p. tr_timestamp p \<noteq> ac_bucketStartedAt acc)
    (historical_series now k w (contents (sv_store s))) @ [averageRecord (ac_samples acc) (ac_bucketStartedAt acc)])"
proof -
  have "heap_ok (s\<lparr>sv_store := st\<rparr>)" for st
    using assms(1) by (simp add: service_ok_def)
  moreover have "current_accumulator tier k (s\<lparr>sv_store := st\<rparr>) = current_accumulator tier k s" for tier st
    by (simp add: current_accumulator_def)
  ultimately show ?thesis
    using assms(2,3,4) by (cases "minute_window w") (simp_all add: getSeries_def case_prod_unfold Let_def getHistoricalSeries_def
        withCurrentMinuteAggregate_def withCurrentHourlyAggregate_def with_current_value)
qed

lemma getSeries_stored:
  assumes "service_ok s" "w \<noteq> W1m" "w \<noteq> W5m" "current_accumulator (if minute_window w then Minute else Hourly) k s = None"
  shows "fst (getSeries now k w s) = historical_series now k w (contents (sv_store s))"
proof -
  have "current_accumulator tier k (s\<lparr>sv_store := st\<rparr>) = current_accumulator tier k s" for tier st
    by (simp add: current_accumulator_def)
  then show ?thesis
    using assms(2,3,4) by (cases "minute_window w") (simp_all add: getSeries_def case_prod_unfold Let_def getHistoricalSeries_def
        withCurrentMinuteAggregate_def withCurrentHourlyAggregate_def with_current_aggregate_def)
qed

text \<open>
  C5: flushing the open bucket of a device changes nothing a reader sees, whether the write succeeds or not: every minute
  and hour window of every device reads the same before and after, except that of a full history (90 days of minutes, or
  the bound of hours) the one point that is older than all others is gone.
\<close>

theorem flush_invisible:
  assumes "reachable_service disk_ok s" "w \<noteq> W1m" "w \<noteq> W5m"
  shows "fst (getSeries now k' w (snd (flush_tier tier disk_ok k s))) = fst (getSeries now k' w s) \<or>
    k' = k \<and> tier = (if minute_window w then Minute else Hourly) \<and> length (stored_points tier k s) = tier_bound tier \<and>
    (\<forall>p \<in> set (tl (stored_points tier k s)). tr_timestamp (hd (stored_points tier k s)) < tr_timestamp p) \<and>
    fst (getSeries now k' w (snd (flush_tier tier disk_ok k s))) =
      filter (\<lambda>p. tr_timestamp p \<noteq> tr_timestamp (hd (stored_points tier k s))) (fst (getSeries now k' w s))"
proof -
  let ?t = "if minute_window w then Minute else Hourly"
  define h where "h = stored_points tier k s"
  obtain x s' where s': "flush_tier tier disk_ok k s = (x, s')" by (cases "flush_tier tier disk_ok k s")
  have ok: "service_ok s" "heap_ok s"
    using reachable_service_inv [OF assms(1)] by (simp_all add: service_ok_def)
  have ok': "service_ok s'"
    using service_operation.run_ok [OF flush_tier_ok ok(1), of tier disk_ok k] s' by simp
  note facts = flush_tier_facts [OF ok(2) s']
  obtain th where th: "historical_series now k' w db = filter (\<lambda>p. th \<le> tr_timestamp p) (nullish (map_get (tier_history ?t db) k') [])" for db
    using historical_series_tier [OF assms(2,3)] by metis
  have current: "current_accumulator ?t k' s' = current_accumulator ?t k' s"
    using facts by (intro current_frame) simp_all
  show ?thesis
  proof (cases "current_accumulator ?t k' s")
    case None
    then have "stored_points ?t k' s' = stored_points ?t k' s"
      using flush_tier_history [OF ok(2), of ?t tier disk_ok k] s' by auto
    then show ?thesis
      using getSeries_stored [OF ok(1) assms(2,3) None] getSeries_stored [OF ok' assms(2,3)] None current by (simp add: s' th)
  next
    case (Some ra)
    obtain r acc where ra: "current_accumulator ?t k' s = Some (r, acc)" using Some by (cases ra) simp
    let ?b = "ac_bucketStartedAt acc" and ?a = "averageRecord (ac_samples acc) (ac_bucketStartedAt acc)"
    have ts: "tr_timestamp ?a = ?b" by (simp add: averageRecord_def Let_def)
    have reads: "fst (getSeries now k' w u) = sort_by tr_timestamp (filter (\<lambda>p. th \<le> tr_timestamp p)
        (filter (\<lambda>p. tr_timestamp p \<noteq> ?b) (stored_points ?t k' u)) @ [?a])" if "u \<in> {s, s'}" for u
      using that getSeries_current [OF ok(1) assms(2,3) ra] getSeries_current [OF ok' assms(2,3)] ra current
      by (auto simp: th conj_commute)
    have hist: "history_ok (tier_bound tier) h" "0 < tier_bound tier"
      using ok(1) history_get_ok [of "tier_history tier (db_of s)" "tier_bound tier" k]
      by (cases tier; simp add: service_ok_def wf_db_def h_def MAX_MINUTE_POINTS_def MAX_HOURLY_POINTS_def)+
    have "stored_points ?t k' s' = stored_points ?t k' s \<or> k' = k \<and> ?t = tier \<and> stored_points tier k s' = insert_point (tier_bound tier) ?a h"
    proof (cases "?t = tier \<and> k' = k")
      case True
      with flush_tier_history [OF ok(2), of ?t tier disk_ok k] ra s' show ?thesis
        by (auto simp: h_def)
    next
      case False
      with flush_tier_history [OF ok(2), of ?t tier disk_ok k] s' have "stored_points ?t k' s' = stored_points ?t k' s" by auto
      then show ?thesis ..
    qed
    then consider (same) "stored_points ?t k' s' = stored_points ?t k' s"
      | (inserted) "k' = k" "?t = tier" "stored_points tier k s' = insert_point (tier_bound tier) ?a h" by blast
    then show ?thesis
    proof cases
      case same
      with reads show ?thesis by (simp add: s')
    next
      case inserted
      consider (kept) "filter (\<lambda>q. tr_timestamp q \<noteq> ?b) (stored_points tier k s') = filter (\<lambda>q. tr_timestamp q \<noteq> ?b) h"
        | (full) "length h = tier_bound tier" "tr_timestamp (hd h) \<noteq> ?b"
          "filter (\<lambda>q. tr_timestamp q \<noteq> ?b) (stored_points tier k s') = filter (\<lambda>q. tr_timestamp q \<noteq> ?b) (tl h)"
        using filter_insert_point [OF hist ts] unfolding inserted(3) by blast
      moreover have read: "fst (getSeries now k' w s) = sort_by tr_timestamp (filter (\<lambda>p. th \<le> tr_timestamp p)
          (filter (\<lambda>p. tr_timestamp p \<noteq> ?b) h) @ [?a])" "fst (getSeries now k' w s') = sort_by tr_timestamp
          (filter (\<lambda>p. th \<le> tr_timestamp p) (filter (\<lambda>p. tr_timestamp p \<noteq> ?b) (stored_points tier k s')) @ [?a])"
        using reads [of s] reads [of s'] unfolding inserted(1,2) h_def by blast+
      ultimately show ?thesis
      proof cases
        case kept
        have "fst (getSeries now k' w s') = fst (getSeries now k' w s)" unfolding read(2) kept read(1) ..
        then show ?thesis by (simp add: s')
      next
        case full
        have "h \<noteq> []" using full(1) hist(2) by auto
        then have "tl h = filter (\<lambda>p. tr_timestamp p \<noteq> tr_timestamp (hd h)) h"
          using hist(1) drop_oldest [of tr_timestamp h] by (simp add: history_ok_def)
        then have "fst (getSeries now k' w s') = filter (\<lambda>p. tr_timestamp p \<noteq> tr_timestamp (hd h)) (fst (getSeries now k' w s))"
          unfolding read full(3) using full(2) ts by (simp add: sort_by_filter conj_ac)
        moreover have "\<forall>p \<in> set (tl h). tr_timestamp (hd h) < tr_timestamp p"
          using hist(1) \<open>h \<noteq> []\<close> by (cases h) (auto simp: history_ok_def order.strict_iff_order)
        ultimately show ?thesis using inserted full(1) by (simp add: s' h_def [symmetric])
      qed
    qed
  qed
qed

subsection \<open>Witnesses\<close>

definition demo_service :: MetricsService where
  "demo_service = new_service (snd (upsert (\<lambda>_. True) (realtime_state (demo_payload 60000) 60000) empty_store))"

lemma demo_service_reachable: "reachable_service (\<lambda>_. True) demo_service"
  unfolding demo_service_def by (intro reachable_service.boot reachable_store.upserted reachable_store.start)

lemma demo_facts [simp]:
  "id_deviceId (pa_identity (demo_payload t)) = ''host-a''" "pa_timestamp (demo_payload t) = toISOString t"
  "\<not> isLegacyVirtualMachineId ''host-a''"
  by (simp_all add: demo_payload_def demo_identity_def isLegacyVirtualMachineId_def LEGACY_VM_PREFIX_def)

lemma demo_service_contents:
  "contents (sv_store demo_service) = EMPTY_DB\<lparr>db_devices := [(''host-a'', realtime_state (demo_payload 60000) 60000)]\<rparr>"
proof -
  have "contents empty_store = EMPTY_DB" by (simp add: contents_def load_def empty_store_def)
  then show ?thesis
    by (simp add: demo_service_def new_service_def upsert_def update_facts) (simp add: EMPTY_DB_def)
qed

lemma demo_stale: "0 \<le> t \<Longrightarrow> t < 4102444800000 \<Longrightarrow>
    is_stale (map_get (db_devices (contents (sv_store demo_service))) ''host-a'') (demo_payload t) \<longleftrightarrow> t \<le> 60000"
  by (simp add: is_stale_def demo_service_contents parsed_le_def Date_parse_demo)

theorem reachable_service_ok_witness:
  "service_ok (snd (ingest (\<lambda>_. True) 90000 (demo_payload 90000) demo_service))"
  by (rule reachable_service_ok [OF reachable_service.ingested [OF demo_service_reachable]])

theorem stale_sample_ignored_witness:
  "\<exists>st. persistPayload (\<lambda>_. True) (demo_payload 60000) 90000 0 None demo_service = (Inr (), demo_service\<lparr>sv_store := st\<rparr>)
     \<and> contents st = contents (sv_store demo_service)"
  by (rule stale_sample_ignored [where displayed = "realtime_state (demo_payload 60000) 60000" and shown = 60000 and time = 60000])
    (simp_all add: demo_service_contents Date_parse_demo)

theorem failed_ingest_publishes_nothing_witness:
  "\<exists>s'. ingest (\<lambda>_. False) 90000 (demo_payload 90000) demo_service = (Inl WriteFailed, s') \<and>
     \<not> is_stale (map_get (db_devices (contents (sv_store s'))) ''host-a'') (demo_payload 90000)"
proof -
  have "map_get (db_deviceRegistry (contents (sv_store demo_service))) ''host-a'' = None"
    by (simp add: demo_service_contents EMPTY_DB_def)
  then have "fst (ingest (\<lambda>_. False) 90000 (demo_payload 90000) demo_service) = Inl WriteFailed"
    by (simp add: ingest_def then_do_def on_store_def case_prod_unfold Let_def registerOrUpdateDevice_def updateWhen_facts
        commit_fst registration_unneeded_def)
  then obtain s' where s': "ingest (\<lambda>_. False) 90000 (demo_payload 90000) demo_service = (Inl WriteFailed, s')"
    by (metis prod.collapse)
  with failed_ingest_publishes_nothing [OF s'] show ?thesis by (simp add: demo_stale)
qed

theorem latest_strictly_increases_witness:
  "\<exists>r s'. ingest (\<lambda>_. True) 90000 (demo_payload 90000) demo_service = (r, s') \<and>
     (latest_time s' ''host-a'' = latest_time demo_service ''host-a'' \<or> latest_time s' ''host-a'' = Some 90000)"
proof -
  obtain r s' where i: "ingest (\<lambda>_. True) 90000 (demo_payload 90000) demo_service = (r, s')"
    by (cases "ingest (\<lambda>_. True) 90000 (demo_payload 90000) demo_service")
  from latest_strictly_increases [OF i, of 90000 "''host-a''"] i show ?thesis
    by (auto simp: Date_parse_demo)
qed

theorem newer_sample_accepted_witness:
  "\<exists>s' p. ingest (\<lambda>_. True) 90000 (demo_payload 90000) demo_service = (Inr (), s') \<and>
     map_get (db_devices (contents (sv_store s'))) ''host-a'' = Some (realtime_state (demo_payload 90000) 90000) \<and>
     tr_timestamp p = 90000 \<and> p \<in> set (open_samples Minute ''host-a'' s') \<and> p \<in> set (open_samples Hourly ''host-a'' s')"
  using newer_sample_accepted [of "\<lambda>_. True" demo_service "demo_payload 90000" 90000 90000]
  by (simp add: demo_service_reachable Date_parse_demo demo_stale)

theorem flush_cleans_witness:
  "\<exists>s'. performAggregateFlush (\<lambda>_. True) demo_service = ([], s') \<and> clean Minute ''host-a'' s'"
proof -
  obtain fs s' where f: "performAggregateFlush (\<lambda>_. True) demo_service = (fs, s')"
    by (cases "performAggregateFlush (\<lambda>_. True) demo_service")
  from flush_cleans [OF demo_service_reachable f] f show ?thesis by blast
qed

theorem getSeries_value_witness:
  "fst (getSeries 100000 ''host-a'' W1h demo_service) = []"
  using getSeries_value [OF demo_service_reachable, of W1h 100000 "''host-a''"]
  by (simp add: minute_window_def demo_service_contents historical_series_def EMPTY_DB_def)
    (simp add: current_accumulator_def demo_service_def new_service_def)

theorem flush_invisible_witness:
  "fst (getSeries 100000 ''host-a'' W1h (snd (flush_tier Minute (\<lambda>_. True) ''host-a'' demo_service)))
     = fst (getSeries 100000 ''host-a'' W1h demo_service)"
  using flush_invisible [OF demo_service_reachable, of W1h 100000 "''host-a''" Minute "''host-a''"]
  by (simp add: demo_service_contents EMPTY_DB_def MAX_MINUTE_POINTS_def)

end
