(* ===== verification/Inventory.thy ===== *)
theory Inventory
  imports Service
begin

text \<open>
  The list of devices and its repair: \<open>apps/server/src/inventory-recovery.ts\<close>, over the file-backed repositories.

  A request for the list registers devices that report but are not registered; once per start, devices that only have
  history are registered.  Both leave the closed ones closed.
\<close>

definition no_options :: DeviceRegistrationOptions where
  "no_options = \<lparr>ro_reopenClosed = False, ro_skipUnchanged = False\<rparr>"

primrec register_missing :: "disk \<Rightarrow> int \<Rightarrow> DeviceRealtimeState list \<Rightarrow> DeviceRecord list \<Rightarrow> LocalJsonStore
    \<Rightarrow> DeviceRecord list outcome \<times> LocalJsonStore" where
  "register_missing disk_ok now [] openDevices st = (Inr openDevices, st)"
| "register_missing disk_ok now (state # states) openDevices st =
     (let deviceId = id_deviceId (rs_identity state)
      in if deviceId \<in> set (map dv_deviceId openDevices) then register_missing disk_ok now states openDevices st
         else case registerOrUpdateDevice disk_ok now deviceId (Some (id_hostname (rs_identity state))) no_options st of
                (Inl e, st') \<Rightarrow> (Inl e, st')
              | (Inr r, st') \<Rightarrow>
                  register_missing disk_ok now states (if dv_status r = Open then openDevices @ [r] else openDevices) st')"

definition realtime_map :: "DeviceRealtimeState list \<Rightarrow> (string, DeviceRealtimeState) jsmap" where
  "realtime_map states = fold (\<lambda>state. map_set (id_deviceId (rs_identity state)) state) states []"

definition summary_order :: "(string \<Rightarrow> rat) \<Rightarrow> DeviceSummary \<Rightarrow> int \<times> rat" where
  "summary_order localeKey s = (nullish (sm_sortOrder s) 0, localeKey (sm_deviceId s))"

definition buildDeviceSummaries :: "disk \<Rightarrow> int \<Rightarrow> (string \<Rightarrow> rat) \<Rightarrow> LocalJsonStore \<Rightarrow> DeviceSummary list outcome \<times> LocalJsonStore" where
  "buildDeviceSummaries disk_ok now localeKey st =
     (let (openDevices, st1) = listOpenDevices localeKey st;
          (states, st2) = listDevices st1
      in case register_missing disk_ok now states openDevices st2 of
           (Inl e, st3) \<Rightarrow> (Inl e, st3)
         | (Inr records, st3) \<Rightarrow>
             (Inr (sort_by (summary_order localeKey)
                (map (\<lambda>r. device_summary (map_get (realtime_map states) (dv_deviceId r)) r) records)), st3))"

text \<open>
  The recovery after start-up.  \<open>closedAt i\<close> says whether the server was closed when the loop came to its \<open>i\<close>-th device;
  a failure schedules another run.
\<close>

datatype recovery = Recovered | Interrupted | RetryLater StoreError

primrec recover_from :: "disk \<Rightarrow> int \<Rightarrow> (nat \<Rightarrow> bool) \<Rightarrow> nat \<Rightarrow> string list \<Rightarrow> string list \<Rightarrow> LocalJsonStore \<Rightarrow> recovery \<times> LocalJsonStore" where
  "recover_from disk_ok now closedAt i [] registered st = (Recovered, st)"
| "recover_from disk_ok now closedAt i (deviceId # known) registered st =
     (if closedAt i then (Interrupted, st)
      else if deviceId \<in> set registered then recover_from disk_ok now closedAt (Suc i) known registered st
      else case registerOrUpdateDevice disk_ok now deviceId (Some deviceId) no_options st of
             (Inl e, st') \<Rightarrow> (if closedAt (Suc i) then Interrupted else RetryLater e, st')
           | (Inr _, st') \<Rightarrow> recover_from disk_ok now closedAt (Suc i) known registered st')"

definition recover :: "disk \<Rightarrow> int \<Rightarrow> (nat \<Rightarrow> bool) \<Rightarrow> (string \<Rightarrow> rat) \<Rightarrow> LocalJsonStore \<Rightarrow> recovery \<times> LocalJsonStore" where
  "recover disk_ok now closedAt localeKey st =
     (let (known, st1) = listKnownDevices st; (openDevices, st2) = listOpenDevices localeKey st1
      in recover_from disk_ok now closedAt 0 (map fst known) (map dv_deviceId openDevices) st2)"

subsection \<open>Registering an absent device\<close>

lemma registering:
  assumes "registerOrUpdateDevice disk_ok now k name no_options st = (Inr r, st')" "\<not> isLegacyVirtualMachineId k"
  shows "case map_get (db_deviceRegistry (contents st)) k of
      None \<Rightarrow> dv_deviceId r = k \<and> dv_status r = Open \<and> dv_group r = None \<and>
        contents st' = (contents st)\<lparr>db_deviceRegistry := map_set k r (db_deviceRegistry (contents st))\<rparr>
    | Some d \<Rightarrow> dv_status d = Closed \<longrightarrow> r = d \<and> contents st' = contents st"
proof -
  have "Inr r = fst (registerOrUpdateDevice disk_ok now k name no_options st)"
    "contents st' = contents (snd (registerOrUpdateDevice disk_ok now k name no_options st))"
    using assms(1) by simp_all
  with assms(2) show ?thesis
    by (auto simp: registerOrUpdateDevice_def updateWhen_facts registration_unneeded_def no_options_def commit_fst commit_contents
        register_device_def Let_def split: option.splits if_splits)
qed

lemma register_keeps_devices:
  "db_devices (contents (snd (registerOrUpdateDevice disk_ok now k name options st))) = db_devices (contents st)"
  by (auto simp: registerOrUpdateDevice_def updateWhen_facts commit_contents register_device_def Let_def split: option.split)

lemma register_keeps_others:
  "j \<noteq> k \<Longrightarrow> map_get (db_deviceRegistry (contents (snd (registerOrUpdateDevice disk_ok now k name options st)))) j =
    map_get (db_deviceRegistry (contents st)) j"
  by (auto simp: registerOrUpdateDevice_def updateWhen_facts commit_contents register_device_def Let_def split: option.split)

lemma public_record_ungrouped: "dv_group r = None \<Longrightarrow> public_record r = r"
  by (cases r) (simp add: public_record_def)

subsection \<open>The list is complete\<close>

text \<open>The open devices as a list of public records, in any order.\<close>

definition lists_open :: "DeviceRecord list \<Rightarrow> LocalDbShape \<Rightarrow> bool" where
  "lists_open records db \<longleftrightarrow> distinct (map dv_deviceId records) \<and> set (map dv_deviceId records) = open_ids db \<and>
     (\<forall>r \<in> set records. \<exists>d. map_get (db_deviceRegistry db) (dv_deviceId r) = Some d \<and> r = public_record d)"

lemma open_devices_listed:
  assumes "wf_db db"
  shows "lists_open (open_devices localeKey db) db"
proof -
  let ?reg = "db_deviceRegistry db"
  let ?o = "filter (\<lambda>d. dv_status d = Open \<and> \<not> isLegacyVirtualMachineId (dv_deviceId d)) (map_values ?reg)"
  have reg: "\<forall>(k, d) \<in> set ?reg. dv_deviceId d = k" "distinct (map_keys ?reg)"
    using assms by (auto simp: wf_db_def)
  have ids: "map dv_deviceId (map_values ?reg) = map_keys ?reg"
    using reg(1) by auto
  have get: "map_get ?reg (dv_deviceId d) = Some d" if "d \<in> set (map_values ?reg)" for d
    using that reg by (auto intro!: map_of_is_SomeI)
  have mem: "d \<in> set (map_values ?reg)" "dv_deviceId d = k" if "map_get ?reg k = Some d" for k d
    using map_get_set_mem [OF that] reg(1) by force+
  have "set (map dv_deviceId ?o) = open_ids db"
  proof (intro equalityI subsetI)
    fix k assume "k \<in> open_ids db"
    then obtain d where "map_get ?reg k = Some d" "dv_status d = Open" "\<not> isLegacyVirtualMachineId k"
      by (auto simp: open_ids_def)
    with mem [OF this(1)] show "k \<in> set (map dv_deviceId ?o)" by auto
  next
    fix k assume "k \<in> set (map dv_deviceId ?o)"
    then obtain d where "d \<in> set (map_values ?reg)" "k = dv_deviceId d" "dv_status d = Open" "\<not> isLegacyVirtualMachineId (dv_deviceId d)"
      unfolding set_map set_filter by blast
    with get [OF this(1)] show "k \<in> open_ids db" by (simp add: open_ids_def)
  qed
  moreover have "distinct (map dv_deviceId ?o)"
    using reg(2) ids by (intro distinct_map_filter) (simp only: ids)
  ultimately show ?thesis
    using get by (auto simp: lists_open_def open_devices_def distinct_map_sort_by comp_def image_image)
qed

lemma lists_open_register:
  assumes "lists_open records db" "map_get (db_deviceRegistry db) k = None" "dv_deviceId r = k" "dv_status r = Open" "dv_group r = None"
    "\<not> isLegacyVirtualMachineId k"
  shows "lists_open (records @ [r]) (db\<lparr>db_deviceRegistry := map_set k r (db_deviceRegistry db)\<rparr>)"
    and "open_ids (db\<lparr>db_deviceRegistry := map_set k r (db_deviceRegistry db)\<rparr>) = insert k (open_ids db)"
proof -
  have "k \<notin> open_ids db" using assms(2) by (simp add: open_ids_def)
  then have fresh: "k \<notin> dv_deviceId ` set records" "\<And>x. x \<in> set records \<Longrightarrow> dv_deviceId x \<noteq> k"
    using assms(1) unfolding lists_open_def by auto
  show ids: "open_ids (db\<lparr>db_deviceRegistry := map_set k r (db_deviceRegistry db)\<rparr>) = insert k (open_ids db)"
    using assms(2-6) by (auto simp: open_ids_def)
  show "lists_open (records @ [r]) (db\<lparr>db_deviceRegistry := map_set k r (db_deviceRegistry db)\<rparr>)"
    using assms(1,3) fresh public_record_ungrouped [OF assms(5)] unfolding lists_open_def ids by auto
qed

text \<open>Devices that report and are not in the registry at all.\<close>

definition unregistered :: "DeviceRealtimeState list \<Rightarrow> LocalDbShape \<Rightarrow> string set" where
  "unregistered states db = {k \<in> (\<lambda>s. id_deviceId (rs_identity s)) ` set states. map_get (db_deviceRegistry db) k = None}"

lemma register_missing_lists:
  assumes "register_missing disk_ok now states records st = (Inr out, st')" "lists_open records (contents st)"
    "\<forall>s \<in> set states. \<not> isLegacyVirtualMachineId (id_deviceId (rs_identity s))"
  shows "lists_open out (contents st') \<and> open_ids (contents st') = open_ids (contents st) \<union> unregistered states (contents st) \<and>
    db_devices (contents st') = db_devices (contents st)"
  using assms
proof (induction states arbitrary: records st)
  case Nil
  then show ?case by (simp add: unregistered_def)
next
  case (Cons s states)
  let ?k = "id_deviceId (rs_identity s)" and ?reg = "db_deviceRegistry (contents st)"
  have legacy: "\<not> isLegacyVirtualMachineId ?k" using Cons.prems(3) by simp
  show ?case
  proof (cases "?k \<in> open_ids (contents st)")
    case True
    then have "?k \<in> set (map dv_deviceId records)" "map_get ?reg ?k \<noteq> None"
      using Cons.prems(2) by (auto simp: lists_open_def open_ids_def)
    with Cons.IH [of records st] Cons.prems show ?thesis
      by (auto simp: unregistered_def)
  next
    case False
    then have "?k \<notin> set (map dv_deviceId records)"
      using Cons.prems(2) by (simp add: lists_open_def)
    with Cons.prems(1) obtain r st1 where r: "registerOrUpdateDevice disk_ok now ?k (Some (id_hostname (rs_identity s))) no_options st = (Inr r, st1)"
      "register_missing disk_ok now states (if dv_status r = Open then records @ [r] else records) st1 = (Inr out, st')"
      by (auto simp: Let_def split: sum.splits prod.splits)
    have devices: "db_devices (contents st1) = db_devices (contents st)"
      using register_keeps_devices [of disk_ok now ?k "Some (id_hostname (rs_identity s))" no_options st] r(1) by simp
    show ?thesis
    proof (cases "map_get ?reg ?k")
      case None
      have new: "dv_deviceId r = ?k" "dv_status r = Open" "dv_group r = None"
        "contents st1 = (contents st)\<lparr>db_deviceRegistry := map_set ?k r ?reg\<rparr>"
        using registering [OF r(1) legacy] None by simp_all
      note opened = lists_open_register [OF Cons.prems(2) None new(1-3) legacy]
      have "unregistered (s # states) (contents st) = insert ?k (unregistered states (contents st1))"
        using None by (auto simp: unregistered_def new(4) split: if_splits)
      with Cons.IH [OF r(2)] opened new Cons.prems(3) devices show ?thesis
        by simp
    next
      case (Some d)
      with False legacy have "dv_status d = Closed"
        by (cases "dv_status d") (auto simp: open_ids_def)
      with registering [OF r(1) legacy] Some have "r = d" "contents st1 = contents st" by simp_all
      with Cons.IH [OF r(2)] \<open>dv_status d = Closed\<close> Some Cons.prems show ?thesis
        by (auto simp: unregistered_def)
    qed
  qed
qed

lemma realtime_map_get:
  assumes "distinct (map (\<lambda>s. id_deviceId (rs_identity s)) states)"
  shows "map_get (realtime_map states) k = List.find (\<lambda>s. id_deviceId (rs_identity s) = k) states"
proof -
  have "map_get (fold (\<lambda>s. map_set (id_deviceId (rs_identity s)) s) states m) k =
      (case List.find (\<lambda>s. id_deviceId (rs_identity s) = k) states of Some s \<Rightarrow> Some s | None \<Rightarrow> map_get m k)" for m
    using assms
  proof (induction states arbitrary: m)
    case (Cons s states)
    have "List.find (\<lambda>s. id_deviceId (rs_identity s) = k) states = None" if "id_deviceId (rs_identity s) = k"
      using Cons.prems that by (auto simp: find_None_iff image_iff)
    with Cons show ?case by (auto split: option.splits)
  qed simp
  then show ?thesis by (simp add: realtime_map_def split: option.split)
qed

lemma listed_states:
  assumes "wf_db (contents st)" "states = fst (listDevices st)"
  shows "distinct (map (\<lambda>s. id_deviceId (rs_identity s)) states)"
    "\<not> isLegacyVirtualMachineId k \<Longrightarrow> List.find (\<lambda>s. id_deviceId (rs_identity s) = k) states = map_get (db_devices (contents st)) k"
proof -
  let ?m = "db_devices (contents st)" and ?id = "\<lambda>s. id_deviceId (rs_identity s)"
  have m: "map ?id (map_values ?m) = map_keys ?m" "distinct (map_keys ?m)"
    using assms(1) by (auto simp: wf_db_def)
  have states: "states = filter (\<lambda>s. \<not> isLegacyVirtualMachineId (?id s)) (map_values ?m)"
    by (simp add: assms(2) listDevices_def)
  show "distinct (map ?id states)"
    unfolding states using m by (intro distinct_map_filter) (simp only: m)
  assume k: "\<not> isLegacyVirtualMachineId k"
  have "List.find (\<lambda>s. ?id s = k) (filter (\<lambda>s. \<not> isLegacyVirtualMachineId (?id s)) (map_values xs)) = map_get xs k"
    if "map ?id (map_values xs) = map_keys xs" for xs
    using that k by (induction xs) auto
  with m(1) show "List.find (\<lambda>s. ?id s = k) states = map_get ?m k"
    by (simp only: states)
qed

lemma summary_identity:
  assumes "wf_db db" "map_get (db_devices db) (dv_deviceId r) = state"
  shows "sm_deviceId (device_summary state r) = dv_deviceId r"
  using assms by (auto simp: device_summary_def toSummary_def wf_db_def Let_def split: option.split dest!: map_get_set_mem)

lemma inventory_listing:
  assumes "wf_db (contents st)" "buildDeviceSummaries disk_ok now localeKey st = (Inr summaries, st')"
  shows "distinct (map sm_deviceId summaries) \<and> set (map sm_deviceId summaries) = open_ids (contents st') \<and>
    open_ids (contents st') = open_ids (contents st) \<union>
      {k. \<not> isLegacyVirtualMachineId k \<and> map_get (db_devices (contents st)) k \<noteq> None \<and> map_get (db_deviceRegistry (contents st)) k = None} \<and>
    sorted (map (summary_order localeKey) summaries) \<and>
    (\<forall>s \<in> set summaries. \<exists>d. map_get (db_deviceRegistry (contents st')) (sm_deviceId s) = Some d \<and>
       s = device_summary (map_get (db_devices (contents st)) (sm_deviceId s)) (public_record d))"
proof -
  let ?db = "contents st" and ?states = "fst (listDevices st)"
  obtain st1 where st1: "listOpenDevices localeKey st = (open_devices localeKey ?db, st1)" "contents st1 = ?db"
    unfolding listOpenDevices_def by (metis prod.collapse select_facts(1,2))
  obtain st2 where st2: "listDevices st1 = (?states, st2)" "contents st2 = ?db"
    unfolding listDevices_def by (metis prod.collapse select_facts(1,2) st1(2))
  obtain records where run: "register_missing disk_ok now ?states (open_devices localeKey ?db) st2 = (Inr records, st')"
    and summaries: "summaries = sort_by (summary_order localeKey) (map (\<lambda>r. device_summary (map_get (realtime_map ?states) (dv_deviceId r)) r) records)"
    using assms(2) by (auto simp: buildDeviceSummaries_def st1 st2 split: sum.splits prod.splits)
  have nonlegacy: "\<forall>s \<in> set ?states. \<not> isLegacyVirtualMachineId (id_deviceId (rs_identity s))"
    by (simp add: listDevices_def)
  from register_missing_lists [OF run _ nonlegacy] open_devices_listed [OF assms(1)]
  have listed: "lists_open records (contents st')" "open_ids (contents st') = open_ids ?db \<union> unregistered ?states ?db"
    by (simp_all add: st2)
  note states = listed_states [OF assms(1) refl]
  have known: "\<not> isLegacyVirtualMachineId (dv_deviceId r)" if "r \<in> set records" for r
    using listed(1) that by (auto simp: lists_open_def open_ids_def)
  have summary: "device_summary (map_get (realtime_map ?states) (dv_deviceId r)) r = device_summary (map_get (db_devices ?db) (dv_deviceId r)) r"
    "sm_deviceId (device_summary (map_get (db_devices ?db) (dv_deviceId r)) r) = dv_deviceId r" if "r \<in> set records" for r
    using states known [OF that] summary_identity [OF assms(1) refl] by (simp_all add: realtime_map_get)
  have "map sm_deviceId (map (\<lambda>r. device_summary (map_get (realtime_map ?states) (dv_deviceId r)) r) records) = map dv_deviceId records"
    using summary by simp
  then have "distinct (map sm_deviceId summaries)" "set (map sm_deviceId summaries) = open_ids (contents st')"
    using listed(1) by (simp_all add: summaries distinct_map_sort_by lists_open_def del: map_map) (metis list.set_map)
  moreover have reports: "k \<in> (\<lambda>s. id_deviceId (rs_identity s)) ` set ?states \<longleftrightarrow>
      \<not> isLegacyVirtualMachineId k \<and> map_get (db_devices ?db) k \<noteq> None" for k
  proof (cases "isLegacyVirtualMachineId k")
    case False
    then have "map_get (db_devices ?db) k = None \<longleftrightarrow> List.find (\<lambda>s. id_deviceId (rs_identity s) = k) ?states = None"
      using states(2) by simp
    with False show ?thesis by (auto simp: find_None_iff image_iff)
  qed (use nonlegacy in auto)
  then have "unregistered ?states ?db =
      {k. \<not> isLegacyVirtualMachineId k \<and> map_get (db_devices ?db) k \<noteq> None \<and> map_get (db_deviceRegistry ?db) k = None}"
    unfolding unregistered_def by blast
  moreover have "\<forall>s \<in> set summaries. \<exists>d. map_get (db_deviceRegistry (contents st')) (sm_deviceId s) = Some d \<and>
      s = device_summary (map_get (db_devices ?db) (sm_deviceId s)) (public_record d)"
    using listed(1) summary by (fastforce simp: summaries lists_open_def)
  ultimately show ?thesis
    using listed(2) by (simp add: summaries sorted_sort_by)
qed

text \<open>
  C9: the list of devices is complete and correct: it names every open device once, in the order the operator chose, with
  the state it last reported or as offline when it never did; a device that reports without being registered is
  registered on the way; and a closed device is never listed or reopened.
\<close>

theorem inventory_lists_devices:
  assumes "wf_db (contents st)" "buildDeviceSummaries disk_ok now localeKey st = (Inr summaries, st')"
  shows "distinct (map sm_deviceId summaries) \<and> set (map sm_deviceId summaries) = open_ids (contents st') \<and>
    open_ids (contents st') = open_ids (contents st) \<union>
      {k. \<not> isLegacyVirtualMachineId k \<and> map_get (db_devices (contents st)) k \<noteq> None \<and> map_get (db_deviceRegistry (contents st)) k = None} \<and>
    sorted (map (summary_order localeKey) summaries) \<and>
    (\<forall>s \<in> set summaries. \<exists>d. map_get (db_deviceRegistry (contents st')) (sm_deviceId s) = Some d \<and>
       s = device_summary (map_get (db_devices (contents st)) (sm_deviceId s)) (public_record d))"
  using assms by (rule inventory_listing)

subsection \<open>Devices known from their history\<close>

lemma recover_from_registers:
  assumes "recover_from disk_ok now closedAt i known registered st = (result, st')" "distinct known"
    "\<And>k d. k \<in> set known \<Longrightarrow> map_get (db_deviceRegistry (contents st)) k = Some d \<Longrightarrow> dv_status d = Open \<Longrightarrow> k \<in> set registered"
    "\<And>k. k \<in> set registered \<Longrightarrow> map_get (db_deviceRegistry (contents st)) k \<noteq> None"
  shows "(\<forall>k d. map_get (db_deviceRegistry (contents st)) k = Some d \<longrightarrow> map_get (db_deviceRegistry (contents st')) k = Some d) \<and>
    (result = Recovered \<longrightarrow> (\<forall>k \<in> set known. isLegacyVirtualMachineId k \<or> map_get (db_deviceRegistry (contents st')) k \<noteq> None)) \<and>
    db_devices (contents st') = db_devices (contents st)"
  using assms
proof (induction known arbitrary: i st)
  case (Cons k known)
  let ?reg = "db_deviceRegistry (contents st)"
  show ?case
  proof (cases "closedAt i \<or> k \<in> set registered")
    case True
    show ?thesis
    proof (cases "closedAt i")
      case False
      with True Cons.prems(4) obtain d where "map_get ?reg k = Some d" by blast
      with Cons.IH [of "Suc i" st] Cons.prems False True show ?thesis by simp
    qed (use Cons.prems(1) in auto)
  next
    case False
    obtain r st1 where r: "registerOrUpdateDevice disk_ok now k (Some k) no_options st = (r, st1)" by fastforce
    have devices: "db_devices (contents st1) = db_devices (contents st)"
      using register_keeps_devices [of disk_ok now k "Some k" no_options st] r by simp
    have kept: "map_get (db_deviceRegistry (contents st1)) j = Some d" if "map_get ?reg j = Some d" for j d
    proof (cases r)
      case (Inl e)
      with register.failure_keeps [of disk_ok now k "Some k" no_options st e] r that show ?thesis by simp
    next
      case (Inr d')
      show ?thesis
      proof (cases "isLegacyVirtualMachineId k")
        case legacy: False
        have "dv_status c = Closed" if "map_get ?reg k = Some c" for c
          using Cons.prems(3) [OF _ that] False by (cases "dv_status c") auto
        with registering [OF r [unfolded Inr] legacy] that show ?thesis
          by (auto split: option.splits)
      qed (use r Inr that in \<open>simp add: registerOrUpdateDevice_def\<close>)
    qed
    show ?thesis
    proof (cases r)
      case (Inl e)
      with False r kept devices Cons.prems(1) show ?thesis by (auto split: if_splits)
    next
      case (Inr d)
      have now_known: "isLegacyVirtualMachineId k \<or> map_get (db_deviceRegistry (contents st1)) k \<noteq> None"
        using registering [OF r [unfolded Inr]] kept by (cases "map_get ?reg k") auto
      have others: "map_get (db_deviceRegistry (contents st1)) j = map_get ?reg j" if "j \<noteq> k" for j
        using register_keeps_others [OF that, of disk_ok now "Some k" no_options st] r by simp
      have rest: "recover_from disk_ok now closedAt (Suc i) known registered st1 = (result, st')"
        using False r Inr Cons.prems(1) by simp
      have "(\<forall>j d. map_get (db_deviceRegistry (contents st1)) j = Some d \<longrightarrow> map_get (db_deviceRegistry (contents st')) j = Some d) \<and>
        (result = Recovered \<longrightarrow> (\<forall>j \<in> set known. isLegacyVirtualMachineId j \<or> map_get (db_deviceRegistry (contents st')) j \<noteq> None)) \<and>
        db_devices (contents st') = db_devices (contents st1)"
      proof (rule Cons.IH [OF rest])
        fix j assume "j \<in> set registered"
        with Cons.prems(4) kept show "map_get (db_deviceRegistry (contents st1)) j \<noteq> None" by blast
      next
        fix j d assume "j \<in> set known" "map_get (db_deviceRegistry (contents st1)) j = Some d" "dv_status d = Open"
        moreover from this have "j \<noteq> k" using Cons.prems(2) by auto
        ultimately show "j \<in> set registered" using others Cons.prems(3) [of j d] by simp
      qed (use Cons.prems(2) in simp)
      with kept now_known devices show ?thesis by fastforce
    qed
  qed
qed simp


lemma map_keys_fold: "map_keys (fold (\<lambda>(k, ps) m. map_set k (f k ps m) m) xs m) = fold set_add (map fst xs) (map_keys m)"
  by (induction xs arbitrary: m) (simp_all add: map_keys_set set_add_def case_prod_unfold)

lemma known_distinct: "distinct (map fst (fst (listKnownDevices st)))"
proof -
  define everything where "everything = fold (\<lambda>(deviceId, points) m. map_set deviceId (nullish (map_get m deviceId) [] @ points) m)
      (db_history (contents st)) (fold (\<lambda>(deviceId, points) m. map_set deviceId points m) (db_minuteHistory (contents st)) [])"
  have "map_keys everything = fold set_add (map fst (db_history (contents st))) (fold set_add (map fst (db_minuteHistory (contents st))) [])"
    unfolding everything_def by (simp add: map_keys_fold)
  then have "distinct (map_keys everything)"
    by (simp add: distinct_fold_set_add)
  then have "distinct (map fst (filter (\<lambda>(deviceId, points). points \<noteq> []) everything))"
    by (rule distinct_map_filter)
  then show ?thesis
    by (simp add: listKnownDevices_def case_prod_unfold comp_def flip: everything_def [unfolded case_prod_unfold])
qed

text \<open>
  The recovery after a start only adds: whatever happens to it, no registered device is changed, so none that was
  closed is reopened; and once it has run through, every device that has history is registered.
\<close>

theorem recovery_only_adds:
  assumes "wf_db (contents st)" "recover disk_ok now closedAt localeKey st = (result, st')"
  shows "(\<forall>k d. map_get (db_deviceRegistry (contents st)) k = Some d \<longrightarrow> map_get (db_deviceRegistry (contents st')) k = Some d) \<and>
    (result = Recovered \<longrightarrow> (\<forall>(k, lastSeenAt) \<in> set (fst (listKnownDevices st)).
       isLegacyVirtualMachineId k \<or> map_get (db_deviceRegistry (contents st')) k \<noteq> None)) \<and>
    db_devices (contents st') = db_devices (contents st)"
proof -
  obtain st1 where st1: "listKnownDevices st = (fst (listKnownDevices st), st1)" "contents st1 = contents st"
    by (rule that [of "snd (listKnownDevices st)"]) (simp, simp only: listKnownDevices_def select_facts)
  obtain st2 where st2: "listOpenDevices localeKey st1 = (open_devices localeKey (contents st), st2)" "contents st2 = contents st"
    unfolding listOpenDevices_def by (metis prod.collapse select_facts(1,2) st1(2))
  have run: "recover_from disk_ok now closedAt 0 (map fst (fst (listKnownDevices st)))
      (map dv_deviceId (open_devices localeKey (contents st))) st2 = (result, st')"
    using assms(2) st1(1) st2(1) by (simp add: recover_def split: prod.splits)
  have ids: "set (map dv_deviceId (open_devices localeKey (contents st))) = open_ids (contents st)"
    using open_devices_listed [OF assms(1)] unfolding lists_open_def by blast
  have nonlegacy: "\<not> isLegacyVirtualMachineId k" if "map_get (db_deviceRegistry (contents st)) k = Some d" for k d
    using assms(1) map_get_set_mem [OF that] by (auto simp: wf_db_def)
  have "k \<in> set (map dv_deviceId (open_devices localeKey (contents st)))"
    if "map_get (db_deviceRegistry (contents st2)) k = Some d" "dv_status d = Open" for k d
    using that nonlegacy unfolding ids st2(2) by (auto simp: open_ids_def)
  moreover have "map_get (db_deviceRegistry (contents st2)) k \<noteq> None"
    if "k \<in> set (map dv_deviceId (open_devices localeKey (contents st)))" for k
    using that unfolding ids st2(2) by (auto simp: open_ids_def)
  ultimately show ?thesis
    using recover_from_registers [OF run known_distinct] by (simp add: st2(2) case_prod_unfold)
qed


subsection \<open>Examples\<close>

lemma register_answers: "(\<And>n. disk_ok n) \<Longrightarrow> \<exists>r. fst (registerOrUpdateDevice disk_ok now k name options st) = Inr r"
  by (auto simp: registerOrUpdateDevice_def updateWhen_facts commit_fst split: option.split prod.split)

lemma register_missing_answers:
  "(\<And>n. disk_ok n) \<Longrightarrow> \<exists>out. fst (register_missing disk_ok now states records st) = Inr out"
proof (induction states arbitrary: records st)
  case (Cons s states)
  let ?run = "registerOrUpdateDevice disk_ok now (id_deviceId (rs_identity s)) (Some (id_hostname (rs_identity s))) no_options st"
  obtain r where "fst ?run = Inr r"
    using register_answers [of disk_ok, OF Cons.prems] by blast
  then obtain st' where "?run = (Inr r, st')" by (cases ?run) simp
  then show ?case
    using Cons.IH [OF Cons.prems] by (simp add: Let_def)
qed simp

text \<open>With a working disk the list is always given.\<close>

lemma inventory_answers:
  assumes "\<And>n. disk_ok n"
  shows "\<exists>out. fst (buildDeviceSummaries disk_ok now localeKey st) = Inr out"
proof -
  obtain openDevices st1 states st2 where lists: "listOpenDevices localeKey st = (openDevices, st1)" "listDevices st1 = (states, st2)"
    by fastforce
  obtain out where "fst (register_missing disk_ok now states openDevices st2) = Inr out"
    using register_missing_answers [of disk_ok, OF assms] by blast
  then show ?thesis
    by (cases "register_missing disk_ok now states openDevices st2") (simp add: buildDeviceSummaries_def lists)
qed

lemma demo_store_devices: "db_devices (contents demo_store) = []"
  by (simp add: demo_store_def registerOrUpdateDevice_def updateWhen_def isLegacyVirtualMachineId_def
      LEGACY_VM_PREFIX_def load_def empty_store_def EMPTY_DB_def registration_unneeded_def commit_def
      register_device_def contents_def Let_def)

theorem inventory_lists_devices_witness:
  "\<exists>summaries. fst (buildDeviceSummaries (\<lambda>_. True) 7 (\<lambda>_. 0) demo_store) = Inr summaries \<and>
     distinct (map sm_deviceId summaries) \<and> set (map sm_deviceId summaries) = {''a'', ''b''}"
proof -
  obtain summaries where "fst (buildDeviceSummaries (\<lambda>_. True) 7 (\<lambda>_. 0) demo_store) = Inr summaries"
    using inventory_answers [of "\<lambda>_. True"] by blast
  then obtain st' where run: "buildDeviceSummaries (\<lambda>_. True) 7 (\<lambda>_. 0) demo_store = (Inr summaries, st')"
    by (cases "buildDeviceSummaries (\<lambda>_. True) 7 (\<lambda>_. 0) demo_store") simp
  have "open_ids (contents demo_store) = {''a'', ''b''}"
    by (auto simp: open_ids_def demo_registry demo_record_def isLegacyVirtualMachineId_def LEGACY_VM_PREFIX_def split: if_splits)
  with inventory_lists_devices [OF demo_store_wf run] run demo_store_devices show ?thesis by simp
qed

theorem recovery_only_adds_witness:
  "map_get (db_deviceRegistry (contents (snd (recover (\<lambda>_. True) 7 (\<lambda>_. False) (\<lambda>_. 0) demo_store)))) ''a'' = Some (demo_record ''a'' 0)"
proof -
  have "map_get (db_deviceRegistry (contents demo_store)) ''a'' = Some (demo_record ''a'' 0)"
    by (simp add: demo_registry)
  with recovery_only_adds [OF demo_store_wf, where disk_ok = "\<lambda>_. True" and now = 7 and closedAt = "\<lambda>_. False" and localeKey = "\<lambda>_. 0"
      and result = "fst (recover (\<lambda>_. True) 7 (\<lambda>_. False) (\<lambda>_. 0) demo_store)"
      and st' = "snd (recover (\<lambda>_. True) 7 (\<lambda>_. False) (\<lambda>_. 0) demo_store)"]
  show ?thesis by simp
qed

end
