(* ===== verification/Traffic_Calendar.thy ===== *)
theory Traffic_Calendar
  imports Service
begin

text \<open>
  The traffic calendar: \<open>apps/server/src/traffic-calendar.ts\<close> and \<open>getTrafficCalendar\<close> of
  \<open>services/metrics.ts\<close>.

  Dates are milliseconds since the epoch; the wall clock is eight hours ahead of UTC.  The current time is one value
  per call.  The labels' Chinese characters are the bytes of their UTF-8 encoding.
\<close>

datatype TrafficCalendarMode = DayMode | WeekMode | MonthMode

record TrafficCalendarCell =
  tc_key :: string
  tc_label :: string
  tc_rangeStart :: string
  tc_rangeEnd :: string
  tc_totalRxBytes :: num
  tc_totalTxBytes :: num
  tc_isSelected :: bool
  tc_isCurrentPeriod :: bool
  tc_isInPrimaryScope :: bool

record TrafficRangeRecord =
  rr_timestamp :: string
  rr_rxBytes :: num
  rr_txBytes :: num
  rr_totalBytes :: num

record TrafficCalendarResponse =
  tcr_mode :: TrafficCalendarMode
  tcr_anchor :: string
  tcr_title :: string
  tcr_rangeStart :: string
  tcr_rangeEnd :: string
  tcr_cells :: "TrafficCalendarCell list"
  tcr_records :: "TrafficRangeRecord list"
  tcr_totalRxBytes :: num
  tcr_totalTxBytes :: num

record period =
  pe_start :: int
  pe_end :: int
  pe_label :: string
  pe_isInPrimaryScope :: bool

definition LOCAL_OFFSET_MS :: int where "LOCAL_OFFSET_MS = 28800000"

definition toLocalDate :: "int \<Rightarrow> int" where
  "toLocalDate date = date + LOCAL_OFFSET_MS"

definition fromLocalParts :: "int \<Rightarrow> int \<Rightarrow> int \<Rightarrow> int" where
  "fromLocalParts year month day = Date_UTC year month day - LOCAL_OFFSET_MS"

definition startOfDay :: "int \<Rightarrow> int" where
  "startOfDay date =
     (let local = toLocalDate date in fromLocalParts (getUTCFullYear local) (getUTCMonth local) (getUTCDate local))"

definition startOfWeek :: "int \<Rightarrow> int" where
  "startOfWeek date =
     (let local = toLocalDate date;
          day = (if getUTCDay local = 0 then 7 else getUTCDay local)
      in startOfDay date - (day - 1) * msPerDay)"

definition parseDate :: "int \<Rightarrow> string \<Rightarrow> int" where
  "parseDate now input = (case Date_parse input of None \<Rightarrow> now | Some date \<Rightarrow> date)"

definition containsDate :: "int \<Rightarrow> int \<Rightarrow> int \<Rightarrow> bool" where
  "containsDate start end' target = (let normalizedTarget = startOfDay target in normalizedTarget \<ge> start \<and> normalizedTarget < end')"

definition startOfLocalMonth :: "int \<Rightarrow> int" where
  "startOfLocalMonth date = (let local = toLocalDate date in fromLocalParts (getUTCFullYear local) (getUTCMonth local) 1)"

definition startOfLocalYear :: "int \<Rightarrow> int" where
  "startOfLocalYear date = (let local = toLocalDate date in fromLocalParts (getUTCFullYear local) 0 1)"

definition addLocalMonths :: "int \<Rightarrow> int \<Rightarrow> int" where
  "addLocalMonths date amount =
     (let local = toLocalDate date in fromLocalParts (getUTCFullYear local) (getUTCMonth local + amount) 1)"

definition selectCurrentOrLast :: "int \<Rightarrow> period list \<Rightarrow> int \<Rightarrow> string option" where
  "selectCurrentOrLast now periods anchor =
     (case find (\<lambda>p. containsDate (pe_start p) (pe_end p) now) periods of
        Some current \<Rightarrow> if pe_isInPrimaryScope current then Some (toISOString (pe_start current)) else
          (case find (\<lambda>p. containsDate (pe_start p) (pe_end p) anchor \<and> pe_isInPrimaryScope p) periods of
             Some anchorPeriod \<Rightarrow> Some (toISOString (pe_start anchorPeriod))
           | None \<Rightarrow> map_option (\<lambda>p. toISOString (pe_start p)) (last_opt (filter pe_isInPrimaryScope periods)))
      | None \<Rightarrow>
          (case find (\<lambda>p. containsDate (pe_start p) (pe_end p) anchor \<and> pe_isInPrimaryScope p) periods of
             Some anchorPeriod \<Rightarrow> Some (toISOString (pe_start anchorPeriod))
           | None \<Rightarrow> map_option (\<lambda>p. toISOString (pe_start p)) (last_opt (filter pe_isInPrimaryScope periods))))"

text \<open>\<open>String(n).padStart(2, "0")\<close>.\<close>

definition padded :: "int \<Rightarrow> string" where
  "padded n = (let d = String_int n in replicate (2 - length d) CHR ''0'' @ d)"

definition nian :: string where "nian = map char_of [0xE5 :: nat, 0xB9, 0xB4]"
definition yue :: string where "yue = map char_of [0xE6 :: nat, 0x9C, 0x88]"

definition buildTitle :: "TrafficCalendarMode \<Rightarrow> int \<Rightarrow> string" where
  "buildTitle mode anchor =
     (let localAnchor = toLocalDate anchor; year = String_int (getUTCFullYear localAnchor) @ '' '' @ nian
      in if mode = MonthMode then year
         else year @ '' '' @ String_int (getUTCMonth localAnchor + 1) @ '' '' @ yue)"

text \<open>The loops of \<open>buildPeriods\<close>, a day and a week at a time.\<close>

function day_periods :: "int \<Rightarrow> int \<Rightarrow> int \<Rightarrow> int \<Rightarrow> period list" where
  "day_periods monthStart nextMonthStart gridEnd current =
     (if current < gridEnd
      then \<lparr>pe_start = current, pe_end = current + msPerDay, pe_label = padded (getUTCDate (toLocalDate current)),
            pe_isInPrimaryScope = (current \<ge> monthStart \<and> current < nextMonthStart)\<rparr>
           # day_periods monthStart nextMonthStart gridEnd (current + msPerDay)
      else [])"
  by auto
termination by (relation "measure (\<lambda>(_, _, e, c). nat (e - c))") (auto simp: msPerDay_def)

function week_periods :: "int \<Rightarrow> int \<Rightarrow> int \<Rightarrow> period list" where
  "week_periods monthStart nextMonthStart current =
     (if current < nextMonthStart
      then \<lparr>pe_start = current, pe_end = current + msPerDay * 7,
            pe_label = padded (getUTCMonth (toLocalDate current) + 1) @ ''/'' @ padded (getUTCDate (toLocalDate current)),
            pe_isInPrimaryScope = (current < nextMonthStart \<and> current + msPerDay * 7 > monthStart)\<rparr>
           # week_periods monthStart nextMonthStart (current + msPerDay * 7)
      else [])"
  by auto
termination by (relation "measure (\<lambda>(_, e, c). nat (e - c))") (auto simp: msPerDay_def)

declare day_periods.simps [simp del] week_periods.simps [simp del]

definition month_periods :: "int \<Rightarrow> period list" where
  "month_periods yearStart =
     map (\<lambda>index. \<lparr>pe_start = addLocalMonths yearStart (int index), pe_end = addLocalMonths yearStart (int index + 1),
        pe_label = String_int (int index + 1) @ yue, pe_isInPrimaryScope = True\<rparr>) [0..<12]"

definition mode_periods :: "TrafficCalendarMode \<Rightarrow> int \<Rightarrow> period list" where
  "mode_periods mode anchor =
     (let monthStart = startOfLocalMonth anchor; nextMonthStart = addLocalMonths monthStart 1
      in case mode of
          DayMode \<Rightarrow> day_periods monthStart nextMonthStart (startOfWeek nextMonthStart + msPerDay * 7) (startOfWeek monthStart)
        | WeekMode \<Rightarrow> week_periods monthStart nextMonthStart (startOfWeek monthStart)
        | MonthMode \<Rightarrow> month_periods (startOfLocalYear anchor))"

definition buildPeriods :: "int \<Rightarrow> TrafficCalendarMode \<Rightarrow> int \<Rightarrow> period list \<times> string option" where
  "buildPeriods now mode anchor = (let periods = mode_periods mode anchor in (periods, selectCurrentOrLast now periods anchor))"

definition trafficCalendarBounds :: "int \<Rightarrow> TrafficCalendarMode \<Rightarrow> string \<Rightarrow> int \<times> int" where
  "trafficCalendarBounds now mode anchorDate =
     (let periods = fst (buildPeriods now mode (startOfDay (parseDate now anchorDate)))
      in (pe_start (periods ! 0), pe_end (periods ! (length periods - 1))))"

text \<open>The loop of \<open>collectPeriodRecords\<close>, with the two baselines.\<close>

fun relative_records :: "num \<Rightarrow> num \<Rightarrow> TrafficHistoryPoint list \<Rightarrow> TrafficHistoryPoint list" where
  "relative_records baselineRx baselineTx [] = []"
| "relative_records baselineRx baselineTx (p # ps) =
     (let rx = (if tp_trafficRxBytes p < baselineRx then tp_trafficRxBytes p else baselineRx);
          tx = (if tp_trafficTxBytes p < baselineTx then tp_trafficTxBytes p else baselineTx)
      in p\<lparr>tp_trafficRxBytes := max 0 (tp_trafficRxBytes p - rx), tp_trafficTxBytes := max 0 (tp_trafficTxBytes p - tx)\<rparr>
         # relative_records rx tx ps)"

definition in_period :: "int \<Rightarrow> int \<Rightarrow> TrafficHistoryPoint list \<Rightarrow> TrafficHistoryPoint list" where
  "in_period start end' points = filter (\<lambda>p. tp_timestamp p \<ge> start \<and> tp_timestamp p < end') points"

definition collectPeriodRecords :: "TrafficHistoryPoint list \<Rightarrow> int \<Rightarrow> int \<Rightarrow> TrafficHistoryPoint list" where
  "collectPeriodRecords points start end' =
     (case in_period start end' points of
        [] \<Rightarrow> []
      | p # ps \<Rightarrow> relative_records (tp_trafficRxBytes p) (tp_trafficTxBytes p) (p # ps))"

definition sumRecords :: "TrafficHistoryPoint list \<Rightarrow> num \<times> num" where
  "sumRecords records = (case last_opt records of None \<Rightarrow> (0, 0) | Some p \<Rightarrow> (tp_trafficRxBytes p, tp_trafficTxBytes p))"

definition period_cell :: "int \<Rightarrow> TrafficHistoryPoint list \<Rightarrow> string option \<Rightarrow> period \<Rightarrow> TrafficCalendarCell" where
  "period_cell now points selectedKey p =
     (let totals = sumRecords (collectPeriodRecords points (pe_start p) (pe_end p)); key = toISOString (pe_start p)
      in \<lparr>tc_key = key, tc_label = pe_label p, tc_rangeStart = toISOString (pe_start p), tc_rangeEnd = toISOString (pe_end p),
          tc_totalRxBytes = fst totals, tc_totalTxBytes = snd totals, tc_isSelected = (Some key = selectedKey),
          tc_isCurrentPeriod = containsDate (pe_start p) (pe_end p) now, tc_isInPrimaryScope = pe_isInPrimaryScope p\<rparr>)"

text \<open>An invalid date compares with nothing, so it collects no records.\<close>

definition cell_records :: "TrafficHistoryPoint list \<Rightarrow> TrafficCalendarCell \<Rightarrow> TrafficHistoryPoint list" where
  "cell_records points cell =
     (case (Date_parse (tc_rangeStart cell), Date_parse (tc_rangeEnd cell)) of
        (Some start, Some end') \<Rightarrow> collectPeriodRecords points start end' | _ \<Rightarrow> [])"

definition buildTrafficCalendar :: "int \<Rightarrow> TrafficHistoryPoint list \<Rightarrow> TrafficCalendarMode \<Rightarrow> string \<Rightarrow> string option \<Rightarrow> TrafficCalendarResponse" where
  "buildTrafficCalendar now points mode anchorDate selectedStart =
     (let anchor = startOfDay (parseDate now anchorDate);
          (periods, defaultSelectedKey) = buildPeriods now mode anchor;
          selectedKey = (if truthy selectedStart then Some (toISOString (startOfDay (parseDate now (nullish selectedStart []))))
                         else defaultSelectedKey);
          cells = map (period_cell now points selectedKey) periods;
          selectedCell = opt_or (find tc_isSelected cells) (last_opt cells);
          selectedRecords = (case selectedCell of None \<Rightarrow> [] | Some cell \<Rightarrow> cell_records points cell);
          selectedTotals = sumRecords selectedRecords
      in \<lparr>tcr_mode = mode, tcr_anchor = toISOString anchor, tcr_title = buildTitle mode anchor,
          tcr_rangeStart = nullish (map_option tc_rangeStart selectedCell) (toISOString anchor),
          tcr_rangeEnd = nullish (map_option tc_rangeEnd selectedCell) (toISOString anchor),
          tcr_cells = cells,
          tcr_records = map (\<lambda>r. \<lparr>rr_timestamp = toISOString (tp_timestamp r), rr_rxBytes = tp_trafficRxBytes r,
             rr_txBytes = tp_trafficTxBytes r, rr_totalBytes = tp_trafficRxBytes r + tp_trafficTxBytes r\<rparr>) selectedRecords,
          tcr_totalRxBytes = fst selectedTotals, tcr_totalTxBytes = snd selectedTotals\<rparr>)"

definition getTrafficCalendar :: "int \<Rightarrow> string \<Rightarrow> TrafficCalendarMode \<Rightarrow> string \<Rightarrow> string option \<Rightarrow> MetricsService
    \<Rightarrow> TrafficCalendarResponse \<times> MetricsService" where
  "getTrafficCalendar now deviceId mode anchorDate selectedStart s =
     (let (start, end') = trafficCalendarBounds now mode anchorDate;
          (points, s') = traffic_points now deviceId start end' s
      in (buildTrafficCalendar now points mode anchorDate selectedStart, s'))"

subsection \<open>Local midnights\<close>

text \<open>The instant at which local day \<open>d\<close> begins.\<close>

definition local_day :: "int \<Rightarrow> int" where
  "local_day d = d * msPerDay - LOCAL_OFFSET_MS"

definition local_date :: "int \<Rightarrow> int" where
  "local_date t = Day (toLocalDate t)"

abbreviation plain_year :: "int \<Rightarrow> bool" where
  "plain_year y \<equiv> 100 \<le> y \<and> y \<le> 9998"

lemma local_day_simps [simp]:
  "local_day d < local_day e \<longleftrightarrow> d < e" "local_day d \<le> local_day e \<longleftrightarrow> d \<le> e" "local_day d = local_day e \<longleftrightarrow> d = e"
  "local_date (local_day d) = d" "toLocalDate (local_day d) = d * msPerDay"
  by (simp_all add: local_day_def local_date_def toLocalDate_def msPerDay_def) (simp add: Day_def msPerDay_def)

lemma local_day_add: "local_day d + msPerDay * k = local_day (d + k)" "local_day d + msPerDay = local_day (d + 1)"
  "local_day d - k * msPerDay = local_day (d - k)"
  by (simp_all add: local_day_def algebra_simps)

lemma local_day_plus7: "local_day (d + 7) = local_day d + 7 * msPerDay"
  by (simp add: local_day_def algebra_simps)

lemma fields_local_day [simp]:
  "getUTCFullYear (d * msPerDay) = YearFromDay d" "getUTCMonth (d * msPerDay) = MonthFromDay d"
  "getUTCDate (d * msPerDay) = DateFromDay d" "getUTCDay (d * msPerDay) = (d + 4) mod 7"
  by (simp_all add: getUTCFullYear_def getUTCMonth_def getUTCDate_def getUTCDay_def)

lemma startOfDay_eq:
  assumes "plain_year (YearFromDay (local_date t))"
  shows "startOfDay t = local_day (local_date t)"
  using assms Date_UTC_fields [of "toLocalDate t"]
  by (simp add: startOfDay_def fromLocalParts_def local_day_def local_date_def getUTCFullYear_def Let_def)

lemma startOfDay_local_day: "plain_year (YearFromDay d) \<Longrightarrow> startOfDay (local_day d) = local_day d"
  using startOfDay_eq [of "local_day d"] by simp

definition monday :: "int \<Rightarrow> int" where
  "monday d = d - (d + 3) mod 7"

lemma startOfWeek_local_day:
  assumes "plain_year (YearFromDay d)"
  shows "startOfWeek (local_day d) = local_day (monday d)"
proof -
  define r where "r = (d + 3) mod 7"
  have "(d + 4) mod 7 = (r + 1) mod 7"
    unfolding r_def by (simp add: mod_add_left_eq add.commute [of d])
  moreover have "0 \<le> r" "r < 7" by (simp_all add: r_def)
  ultimately have "(if (d + 4) mod 7 = 0 then 7 else (d + 4) mod 7) - 1 = r"
    by (cases "r = 6") auto
  then show ?thesis unfolding r_def
    using assms by (auto simp: startOfWeek_def startOfDay_local_day local_day_add monday_def Let_def split: if_splits)
qed

lemma monday_bounds: "monday d \<le> d \<and> d < monday d + 7 \<and> (monday d + 3) mod 7 = 0"
proof -
  have "(monday d + 3) mod 7 = (d + 3 - (d + 3) mod 7) mod 7"
    by (simp add: monday_def algebra_simps)
  also have "\<dots> = 0" by (simp add: mod_eq_0_iff_dvd)
  finally show ?thesis
    using pos_mod_bound [of 7 "d + 3"] pos_mod_sign [of 7 "d + 3"] by (simp add: monday_def)
qed

subsection \<open>Months\<close>

lemma MakeDay_next_month:
  assumes "0 \<le> m" "m \<le> 11"
  shows "MakeDay y (m + 1) 1 = MakeDay y m 1 + days_in_month y m"
proof -
  obtain i where i: "m = int i" "i < 12"
    using assms by (intro that [of "nat m"]) auto
  have take: "sum_list (take (Suc i) (month_lengths l)) = sum_list (take i (month_lengths l)) + month_lengths l ! i" for l
    using i(2) by (simp add: take_Suc_conv_app_nth month_lengths_facts(1))
  show ?thesis
  proof (cases "i = 11")
    case True
    have "MakeDay y 12 1 = DayFromYear (y + 1)"
      by (simp add: MakeDay_def month_start_def)
    also have "\<dots> = DayFromYear y + sum_list (take 12 (month_lengths (is_leap y)))"
      using month_lengths_facts(1,3) [of "is_leap y"] by (simp add: DayFromYear_succ DaysInYear_def)
    finally show ?thesis
      using take [of "is_leap y"] True i
      by (simp add: MakeDay_def month_start_def days_in_month_def)
  next
    case False
    then have "nat (1 + int i) = Suc i" "(int i + 1) div 12 = 0" "(int i + 1) mod 12 = int i + 1" "int i div 12 = 0" "int i mod 12 = int i"
      using i(2) by auto
    then show ?thesis
      using take [of "is_leap y"] i(1) by (simp add: MakeDay_def month_start_def days_in_month_def add.commute)
  qed
qed

text \<open>The first day of the month that holds day \<open>d\<close>, and of the month after it.\<close>

definition month_first :: "int \<Rightarrow> int" where
  "month_first d = MakeDay (YearFromDay d) (MonthFromDay d) 1"

definition next_month_first :: "int \<Rightarrow> int" where
  "next_month_first d = MakeDay (YearFromDay d) (MonthFromDay d + 1) 1"

lemma month_span:
  "month_first d \<le> d \<and> d < next_month_first d \<and> next_month_first d = month_first d + days_in_month (YearFromDay d) (MonthFromDay d)"
proof -
  have next': "next_month_first d = month_first d + days_in_month (YearFromDay d) (MonthFromDay d)"
    using MonthFromDay_bounds [of d] by (simp add: next_month_first_def month_first_def MakeDay_next_month)
  have d: "d = month_first d + (DateFromDay d - 1)"
    using MakeDay_fields [of d] by (simp add: month_first_def MakeDay_def Let_def)
  have "1 \<le> DateFromDay d" "DateFromDay d \<le> days_in_month (YearFromDay d) (MonthFromDay d)"
    using DateFromDay_pos DateFromDay_le by blast+
  then show ?thesis using d next' by linarith
qed

lemma Date_UTC_plain: "plain_year y \<Longrightarrow> Date_UTC y m d = MakeDay y m d * msPerDay"
  by (simp add: Date_UTC_def)

lemma startOfLocalMonth_eq:
  assumes "plain_year (YearFromDay d)"
  shows "startOfLocalMonth (local_day d) = local_day (month_first d)"
  using assms by (simp add: startOfLocalMonth_def fromLocalParts_def Date_UTC_plain month_first_def Let_def) (simp add: local_day_def)

lemma addLocalMonths_first:
  assumes "plain_year y" "0 \<le> m" "m \<le> 11"
  shows "addLocalMonths (local_day (MakeDay y m 1)) k = local_day (MakeDay y (m + k) 1)"
  using assms fields_MakeDay_first [OF assms(2,3), of y]
  by (simp add: addLocalMonths_def fromLocalParts_def Date_UTC_plain Let_def) (simp add: local_day_def)

lemma year_month_first: "YearFromDay (month_first d) = YearFromDay d"
  using MonthFromDay_bounds [of d] by (simp add: month_first_def fields_MakeDay_first)

lemma year_next_month_first: "YearFromDay (next_month_first d) \<in> {YearFromDay d, YearFromDay d + 1}"
proof (cases "MonthFromDay d = 11")
  case True
  then have "next_month_first d = MakeDay (YearFromDay d + 1) 0 1"
    by (simp add: next_month_first_def MakeDay_def)
  then show ?thesis by (simp add: fields_MakeDay_first)
next
  case False
  then show ?thesis
    using MonthFromDay_bounds [of d] by (simp add: next_month_first_def fields_MakeDay_first)
qed

lemma month_starts:
  assumes "100 \<le> YearFromDay d" "YearFromDay d \<le> 9997"
  defines "ms \<equiv> startOfLocalMonth (local_day d)"
  shows "ms = local_day (month_first d)" "addLocalMonths ms 1 = local_day (next_month_first d)"
    "startOfWeek ms = local_day (monday (month_first d))"
    "startOfWeek (addLocalMonths ms 1) = local_day (monday (next_month_first d))"
proof -
  show ms: "ms = local_day (month_first d)"
    using assms by (simp add: startOfLocalMonth_eq)
  show next': "addLocalMonths ms 1 = local_day (next_month_first d)"
    unfolding ms using assms MonthFromDay_bounds [of d] by (simp add: month_first_def next_month_first_def addLocalMonths_first)
  show "startOfWeek ms = local_day (monday (month_first d))"
    unfolding ms using assms by (simp add: startOfWeek_local_day year_month_first)
  show "startOfWeek (addLocalMonths ms 1) = local_day (monday (next_month_first d))"
    unfolding next' using assms year_next_month_first [of d] by (intro startOfWeek_local_day) auto
qed

subsection \<open>The loops end at the grid\<close>

definition day_period :: "int \<Rightarrow> int \<Rightarrow> int \<Rightarrow> period" where
  "day_period ms ns d = \<lparr>pe_start = local_day d, pe_end = local_day (d + 1), pe_label = padded (DateFromDay d),
     pe_isInPrimaryScope = (ms \<le> local_day d \<and> local_day d < ns)\<rparr>"

lemma day_periods_eq: "day_periods ms ns (local_day e) (local_day g) = map (day_period ms ns) [g..e - 1]"
proof (induction "nat (e - g)" arbitrary: g)
  case 0
  then show ?case by (subst day_periods.simps) simp
next
  case (Suc n)
  then have "day_periods ms ns (local_day e) (local_day (g + 1)) = map (day_period ms ns) [g + 1..e - 1]"
    by simp
  moreover have "g < e" using Suc.hyps(2) by simp
  ultimately show ?case
    by (subst day_periods.simps) (simp add: local_day_add day_period_def upto_rec1)
qed

fun contiguous :: "period list \<Rightarrow> bool" where
  "contiguous (p # q # ps) = (pe_start p < pe_end p \<and> pe_end p = pe_start q \<and> contiguous (q # ps))"
| "contiguous [p] = (pe_start p < pe_end p)"
| "contiguous [] = True"

lemma contiguous_Cons: "contiguous (p # ps) \<longleftrightarrow> pe_start p < pe_end p \<and> (ps \<noteq> [] \<longrightarrow> pe_end p = pe_start (hd ps)) \<and> contiguous ps"
  by (cases ps) auto

lemma contiguous_covers:
  "ps \<noteq> [] \<Longrightarrow> contiguous ps \<Longrightarrow> pe_start (hd ps) \<le> t \<Longrightarrow> t < pe_end (last ps) \<Longrightarrow> \<exists>p \<in> set ps. pe_start p \<le> t \<and> t < pe_end p"
proof (induction ps)
  case (Cons p ps)
  then show ?case by (cases "t < pe_end p"; cases ps) (auto simp: contiguous_Cons)
qed simp

lemma contiguous_days: "contiguous (map (day_period ms ns) [g..e])"
proof (induction "nat (e - g + 1)" arbitrary: g)
  case (Suc n)
  then have "g \<le> e" "contiguous (map (day_period ms ns) [g + 1..e])" by simp_all
  then show ?case
    by (cases "g + 1 \<le> e") (auto simp: upto_rec1 contiguous_Cons day_period_def)
qed simp

definition week_of :: "int \<Rightarrow> int \<Rightarrow> period \<Rightarrow> bool" where
  "week_of ms g p \<longleftrightarrow> (\<exists>k \<ge> 0. pe_start p = local_day (g + 7 * k) \<and> pe_end p = local_day (g + 7 * k + 7)
     \<and> (pe_isInPrimaryScope p \<longleftrightarrow> local_day (g + 7 * k + 7) > ms))"

lemma week_of_later: "week_of ms (g + 7) p \<Longrightarrow> week_of ms g p"
proof -
  assume "week_of ms (g + 7) p"
  then obtain k where "k \<ge> 0" "pe_start p = local_day (g + 7 + 7 * k) \<and> pe_end p = local_day (g + 7 + 7 * k + 7)
      \<and> (pe_isInPrimaryScope p \<longleftrightarrow> local_day (g + 7 + 7 * k + 7) > ms)"
    unfolding week_of_def by blast
  then show ?thesis unfolding week_of_def by (intro exI [of _ "k + 1"]) (simp add: algebra_simps)
qed

lemma week_periods_facts:
  "g < n \<Longrightarrow> (let ps = week_periods ms (local_day n) (local_day g)
     in ps \<noteq> [] \<and> contiguous ps \<and> pe_start (hd ps) = local_day g \<and> local_day n \<le> pe_end (last ps)
        \<and> (\<forall>p \<in> set ps. week_of ms g p \<and> pe_start p < local_day n))"
proof (induction "nat (n - g)" arbitrary: g rule: less_induct)
  case less
  let ?rest = "week_periods ms (local_day n) (local_day (g + 7))"
  define p where "p = \<lparr>pe_start = local_day g, pe_end = local_day (g + 7),
    pe_label = padded (MonthFromDay g + 1) @ ''/'' @ padded (DateFromDay g), pe_isInPrimaryScope = (local_day (g + 7) > ms)\<rparr>"
  have unfold: "week_periods ms (local_day n) (local_day g) = p # ?rest"
    using less.prems by (subst week_periods.simps) (simp add: p_def local_day_add)
  have p: "week_of ms g p" "pe_start p = local_day g" "pe_end p = local_day (g + 7)"
    unfolding week_of_def by (auto simp: p_def intro: exI [of _ 0])
  show ?case
  proof (cases "g + 7 < n")
    case True
    then show ?thesis
      using less.hyps [of "g + 7"] p week_of_later by (auto simp: unfold contiguous_Cons Let_def)
  next
    case False
    then have "?rest = []" by (subst week_periods.simps) simp
    then show ?thesis
      using False p less.prems by (simp add: unfold)
  qed
qed

definition month_period :: "int \<Rightarrow> nat \<Rightarrow> period" where
  "month_period y i = \<lparr>pe_start = local_day (MakeDay y (int i) 1), pe_end = local_day (MakeDay y (int i + 1) 1),
     pe_label = String_int (int i + 1) @ yue, pe_isInPrimaryScope = True\<rparr>"

lemma month_periods_eq:
  assumes "plain_year (YearFromDay d)"
  shows "month_periods (startOfLocalYear (local_day d)) = map (month_period (YearFromDay d)) [0..<12]"
proof -
  have "startOfLocalYear (local_day d) = local_day (MakeDay (YearFromDay d) 0 1)"
    using assms by (simp add: startOfLocalYear_def fromLocalParts_def Date_UTC_plain Let_def) (simp add: local_day_def)
  then show ?thesis
    using assms addLocalMonths_first [of "YearFromDay d" 0] by (simp add: month_periods_def month_period_def)
qed

lemma days_in_month_pos: "0 \<le> m \<Longrightarrow> m \<le> 11 \<Longrightarrow> 28 \<le> days_in_month y m"
  using month_lengths_facts(2) [of "month_lengths (is_leap y) ! nat m" "is_leap y"]
  by (simp add: days_in_month_def month_lengths_facts(1) nat_less_iff)

lemma contiguous_months: "k \<le> 12 \<Longrightarrow> contiguous (map (month_period y) [k..<12])"
proof (induction "12 - k" arbitrary: k)
  case (Suc n)
  have k: "k < 12" using Suc.hyps(2) by simp
  have "MakeDay y (int k) 1 < MakeDay y (int k + 1) 1"
    using MakeDay_next_month [of "int k" y] days_in_month_pos [of "int k" y] k by simp
  moreover have "contiguous (map (month_period y) [Suc k..<12])"
    using Suc by simp
  ultimately show ?case
    using k by (cases "Suc k < 12") (auto simp: upt_conv_Cons contiguous_Cons month_period_def add.commute)
qed simp

lemma month_period_anchor:
  "month_period (YearFromDay d) (nat (MonthFromDay d)) \<in> set (map (month_period (YearFromDay d)) [0..<12])
   \<and> pe_start (month_period (YearFromDay d) (nat (MonthFromDay d))) = local_day (month_first d)
   \<and> pe_end (month_period (YearFromDay d) (nat (MonthFromDay d))) = local_day (next_month_first d)"
proof (intro conjI)
  show "month_period (YearFromDay d) (nat (MonthFromDay d)) \<in> set (map (month_period (YearFromDay d)) [0..<12])"
    using MonthFromDay_bounds [of d] by (simp add: nat_less_iff)
qed (use MonthFromDay_bounds [of d] in \<open>simp_all add: month_period_def month_first_def next_month_first_def\<close>)

lemma local_day_of: "local_day (local_date t) \<le> t \<and> t < local_day (local_date t + 1)"
  unfolding local_day_def local_date_def toLocalDate_def Day_def LOCAL_OFFSET_MS_def msPerDay_def distrib_right by (intro conjI) linarith+

subsection \<open>What the grid looks like\<close>

definition grid_ok :: "TrafficCalendarMode \<Rightarrow> int \<Rightarrow> period list \<Rightarrow> bool" where
  "grid_ok mode d ps \<longleftrightarrow> ps \<noteq> [] \<and> contiguous ps
     \<and> (\<exists>p \<in> set ps. pe_isInPrimaryScope p \<and> pe_start p \<le> local_day d \<and> local_day (d + 1) \<le> pe_end p)
     \<and> (case mode of
          DayMode \<Rightarrow> map pe_start (filter pe_isInPrimaryScope ps) = map local_day [month_first d..next_month_first d - 1]
            \<and> getUTCDay (toLocalDate (pe_start (hd ps))) = 1
        | WeekMode \<Rightarrow> (\<forall>p \<in> set ps. getUTCDay (toLocalDate (pe_start p)) = 1 \<and> pe_end p = pe_start p + 7 * msPerDay)
        | MonthMode \<Rightarrow> map pe_start ps = map (\<lambda>i. local_day (MakeDay (YearFromDay d) (int i) 1)) [0..<12])"

lemma monday_getUTCDay: "(g + 3 :: int) mod 7 = 0 \<Longrightarrow> (g + 4) mod 7 = 1"
  using mod_add_left_eq [of "g + 3" 7 1] by (simp add: add.commute)

lemma filter_upto: "a \<le> b \<Longrightarrow> c \<le> e \<Longrightarrow> filter (\<lambda>d. b \<le> d \<and> d < c) [a..e - 1] = [b..c - 1]"
proof (induction "nat (e - a)" arbitrary: a)
  case 0
  then show ?case by (simp add: filter_empty_conv)
next
  case (Suc n)
  then have ae: "a < e" by simp
  show ?case
  proof (cases "a = b")
    case True
    have "filter (\<lambda>d. b \<le> d \<and> d < c) [a..e - 1] = filter (\<lambda>d. d < c) [a..e - 1]"
      using True by (intro filter_cong) auto
    also have "\<dots> = [b..c - 1]"
    proof (cases "a \<le> c")
      case True
      then have "[a..e - 1] = [a..c - 1] @ [c..e - 1]"
        using upto_split1 [of a c "e - 1"] ae Suc.prems(2) by (cases "c = e") auto
      then show ?thesis using \<open>a = b\<close> by (auto simp: filter_empty_conv filter_id_conv)
    qed (use \<open>a = b\<close> in \<open>auto simp: filter_empty_conv\<close>)
    finally show ?thesis .
  next
    case False
    then have "filter (\<lambda>d. b \<le> d \<and> d < c) [a..e - 1] = filter (\<lambda>d. b \<le> d \<and> d < c) [a + 1..e - 1]"
      using ae Suc.prems(1) by (simp add: upto_rec1)
    then show ?thesis using Suc False by simp
  qed
qed

lemma day_grid:
  assumes "100 \<le> YearFromDay d" "YearFromDay d \<le> 9997"
  shows "grid_ok DayMode d (mode_periods DayMode (local_day d))"
proof -
  let ?m = "month_first d" and ?n = "next_month_first d"
  let ?g = "monday ?m" and ?e = "monday ?n + 7"
  have ps: "mode_periods DayMode (local_day d) = map (day_period (local_day ?m) (local_day ?n)) [?g..?e - 1]"
    using month_starts [OF assms] day_periods_eq [of "local_day ?m" "local_day ?n" ?e ?g]
    by (simp add: mode_periods_def local_day_add mult.commute)
  have span: "?m \<le> d" "d < ?n" "?g \<le> ?m" "?n < ?e" using month_span [of d] monday_bounds [of ?m] monday_bounds [of ?n] by simp_all
  have "map pe_start (filter pe_isInPrimaryScope (map (day_period (local_day ?m) (local_day ?n)) [?g..?e - 1]))
      = map local_day (filter (\<lambda>d. ?m \<le> d \<and> d < ?n) [?g..?e - 1])"
    by (simp add: filter_map comp_def day_period_def)
  also have "\<dots> = map local_day [?m..?n - 1]" using span by (subst filter_upto) simp_all
  finally have "map pe_start (filter pe_isInPrimaryScope (mode_periods DayMode (local_day d))) = map local_day [?m..?n - 1]"
    by (simp add: ps)
  moreover have "day_period (local_day ?m) (local_day ?n) d \<in> set (mode_periods DayMode (local_day d))"
    unfolding ps using span by auto
  then have "\<exists>p \<in> set (mode_periods DayMode (local_day d)). pe_isInPrimaryScope p \<and> pe_start p \<le> local_day d \<and> local_day (d + 1) \<le> pe_end p"
    using span by (intro bexI [of _ "day_period (local_day ?m) (local_day ?n) d"]) (simp_all add: day_period_def)
  moreover have "mode_periods DayMode (local_day d) \<noteq> [] \<and> hd (mode_periods DayMode (local_day d)) = day_period (local_day ?m) (local_day ?n) ?g"
    unfolding ps using span by (subst (1 2) upto_rec1) simp_all
  moreover have "(?g + 4) mod 7 = 1" using monday_bounds monday_getUTCDay by blast
  moreover have "contiguous (mode_periods DayMode (local_day d))"
    unfolding ps by (rule contiguous_days)
  ultimately show ?thesis
    by (simp add: grid_ok_def) (simp add: day_period_def)
qed

lemma week_grid:
  assumes "100 \<le> YearFromDay d" "YearFromDay d \<le> 9997"
  shows "grid_ok WeekMode d (mode_periods WeekMode (local_day d))"
proof -
  let ?m = "month_first d" and ?n = "next_month_first d"
  let ?g = "monday ?m" and ?ps = "mode_periods WeekMode (local_day d)"
  have ps: "?ps = week_periods (local_day ?m) (local_day ?n) (local_day ?g)"
    using month_starts [OF assms] by (simp add: mode_periods_def)
  have span: "?m \<le> d" "d < ?n" "?g \<le> ?m" using month_span [of d] monday_bounds [of ?m] by simp_all
  then have "?g < ?n" by simp
  then have facts: "?ps \<noteq> []" "contiguous ?ps" "pe_start (hd ?ps) = local_day ?g" "local_day ?n \<le> pe_end (last ?ps)"
    "\<And>p. p \<in> set ?ps \<Longrightarrow> week_of (local_day ?m) ?g p" "\<And>p. p \<in> set ?ps \<Longrightarrow> pe_start p < local_day ?n"
    using week_periods_facts [of ?g ?n "local_day ?m"] by (auto simp: ps Let_def)
  have monday: "(?g + 4) mod 7 = 1" using monday_bounds monday_getUTCDay by blast
  have mondays: "(?g + 7 * k + 4) mod 7 = 1" for k
    using monday mod_add_left_eq [of "?g + 4" 7 "7 * k"] by (simp add: algebra_simps)
  have weeks: "getUTCDay (toLocalDate (pe_start p)) = 1 \<and> pe_end p = pe_start p + 7 * msPerDay" if "p \<in> set ?ps" for p
    using facts(5) [OF that] mondays by (auto simp: week_of_def local_day_plus7)
  obtain p where p: "p \<in> set ?ps" "pe_start p \<le> local_day d" "local_day d < pe_end p"
    using contiguous_covers [OF facts(1,2), of "local_day d"] facts(3,4) span
    by (metis local_day_simps(1,2) order.strict_trans2 order.trans)
  then show ?thesis
    using weeks facts(1,2) facts(5) [OF p(1)] span unfolding grid_ok_def by (auto simp: week_of_def intro!: bexI [of _ p])
qed

lemma month_grid:
  assumes "100 \<le> YearFromDay d" "YearFromDay d \<le> 9997"
  shows "grid_ok MonthMode d (mode_periods MonthMode (local_day d))"
proof -
  have ps: "mode_periods MonthMode (local_day d) = map (month_period (YearFromDay d)) [0..<12]"
    using assms by (simp add: mode_periods_def month_periods_eq Let_def)
  let ?p = "month_period (YearFromDay d) (nat (MonthFromDay d))"
  have "\<exists>p \<in> set (map (month_period (YearFromDay d)) [0..<12]). pe_isInPrimaryScope p \<and> pe_start p \<le> local_day d \<and> local_day (d + 1) \<le> pe_end p"
    using month_period_anchor [of d] month_span [of d] by (intro bexI [of _ ?p]) (auto simp: month_period_def)
  moreover have "contiguous (map (month_period (YearFromDay d)) [0..<12])"
    by (rule contiguous_months) simp
  moreover have "map pe_start (map (month_period (YearFromDay d)) [0..<12]) = map (\<lambda>i. local_day (MakeDay (YearFromDay d) (int i) 1)) [0..<12]"
    by (simp add: month_period_def)
  ultimately show ?thesis
    unfolding ps grid_ok_def by simp
qed

lemma grid:
  assumes "100 \<le> YearFromDay d" "YearFromDay d \<le> 9997"
  shows "grid_ok mode d (mode_periods mode (local_day d))"
  using day_grid [OF assms] week_grid [OF assms] month_grid [OF assms] by (cases mode) auto

subsection \<open>Every point falls into one period\<close>

lemma contiguous_last: "ps \<noteq> [] \<Longrightarrow> contiguous ps \<Longrightarrow> pe_start (hd ps) < pe_end (last ps)"
proof (induction ps)
  case (Cons p ps)
  then show ?case by (cases ps) (auto simp: contiguous_Cons)
qed simp

lemma in_period_split:
  assumes "sorted (map tp_timestamp points)" "a \<le> b" "b \<le> c"
  shows "in_period a b points @ in_period b c points = in_period a c points"
  using assms
proof (induction points)
  case (Cons p points)
  have later: "\<forall>q \<in> set points. tp_timestamp p \<le> tp_timestamp q"
    using Cons.prems(1) by simp
  have "in_period a b points = []" if "b \<le> tp_timestamp p"
    using later that by (auto simp: in_period_def filter_empty_conv)
  then show ?case
    using Cons by (auto simp: in_period_def)
qed (simp add: in_period_def)

lemma contiguous_partition:
  "ps \<noteq> [] \<Longrightarrow> contiguous ps \<Longrightarrow> sorted (map tp_timestamp points) \<Longrightarrow>
     concat (map (\<lambda>p. in_period (pe_start p) (pe_end p) points) ps) = in_period (pe_start (hd ps)) (pe_end (last ps)) points"
proof (induction ps)
  case (Cons p ps)
  show ?case
  proof (cases "ps = []")
    case False
    then have "concat (map (\<lambda>p. in_period (pe_start p) (pe_end p) points) ps) = in_period (pe_end p) (pe_end (last ps)) points"
      using Cons by (simp add: contiguous_Cons)
    moreover have "pe_start p \<le> pe_end p" "pe_end p \<le> pe_end (last ps)"
      using Cons.prems(2) False contiguous_last [of ps] by (auto simp: contiguous_Cons)
    ultimately show ?thesis
      using False in_period_split [OF Cons.prems(3), of "pe_start p" "pe_end p" "pe_end (last ps)"] by simp
  qed simp
qed simp

text \<open>
  C25: for every mode and every anchor date the calendar's periods are a gapless sequence of non-empty ranges, so that
  every traffic point within the bounds is attributed to exactly one cell, in order; the anchor lies in a period of the
  primary scope.  The day grid starts on a Monday and its primary cells are exactly the days of the anchor's month; weeks
  are Monday to Monday; months are the twelve months of the anchor's year, all by the wall clock.
\<close>

theorem calendar_partition:
  fixes now mode anchorDate points
  defines "d \<equiv> local_date (parseDate now anchorDate)"
  defines "ps \<equiv> fst (buildPeriods now mode (startOfDay (parseDate now anchorDate)))"
  assumes "100 \<le> YearFromDay d" "YearFromDay d \<le> 9997" "sorted (map tp_timestamp points)"
  shows "grid_ok mode d ps
    \<and> trafficCalendarBounds now mode anchorDate = (pe_start (hd ps), pe_end (last ps))
    \<and> concat (map (\<lambda>p. in_period (pe_start p) (pe_end p) points) ps) =
        in_period (fst (trafficCalendarBounds now mode anchorDate)) (snd (trafficCalendarBounds now mode anchorDate)) points"
proof -
  have "startOfDay (parseDate now anchorDate) = local_day d"
    unfolding d_def by (rule startOfDay_eq) (use assms(3,4) in \<open>simp add: d_def\<close>)
  then have g: "grid_ok mode d ps"
    using grid [OF assms(3,4)] by (simp add: ps_def buildPeriods_def Let_def)
  then have ne: "ps \<noteq> []" "contiguous ps" by (simp_all add: grid_ok_def)
  then have "trafficCalendarBounds now mode anchorDate = (pe_start (hd ps), pe_end (last ps))"
    by (simp add: trafficCalendarBounds_def ps_def [symmetric] hd_conv_nth last_conv_nth)
  then show ?thesis
    using g contiguous_partition [OF ne assms(5)] by simp
qed

subsection \<open>Totals\<close>

lemma baseline_min: "(if x < b then x else b) = min x (b :: num)" "max 0 (x - min x b) = x - min x (b :: num)"
  by (auto simp: min_def max_def)

lemma relative_records_last:
  "ps \<noteq> [] \<Longrightarrow> relative_records b c ps \<noteq> []
     \<and> tp_trafficRxBytes (last (relative_records b c ps)) = tp_trafficRxBytes (last ps) - min b (Min (tp_trafficRxBytes ` set ps))
     \<and> tp_trafficTxBytes (last (relative_records b c ps)) = tp_trafficTxBytes (last ps) - min c (Min (tp_trafficTxBytes ` set ps))"
proof (induction ps arbitrary: b c)
  case (Cons p ps)
  let ?b = "min (tp_trafficRxBytes p) b" and ?c = "min (tp_trafficTxBytes p) c"
  have step: "relative_records b c (p # ps) =
      p\<lparr>tp_trafficRxBytes := tp_trafficRxBytes p - ?b, tp_trafficTxBytes := tp_trafficTxBytes p - ?c\<rparr> # relative_records ?b ?c ps"
    by (simp add: Let_def baseline_min)
  show ?case
  proof (cases "ps = []")
    case True
    then show ?thesis unfolding step by (simp add: min.commute)
  next
    case False
    have "relative_records ?b ?c ps \<noteq> []"
      "tp_trafficRxBytes (last (relative_records ?b ?c ps)) = tp_trafficRxBytes (last ps) - min ?b (Min (tp_trafficRxBytes ` set ps))"
      "tp_trafficTxBytes (last (relative_records ?b ?c ps)) = tp_trafficTxBytes (last ps) - min ?c (Min (tp_trafficTxBytes ` set ps))"
      using Cons.IH [OF False] by blast+
    then show ?thesis
      using False unfolding step by (simp del: relative_records.simps) (simp only: min.left_commute min.assoc min.commute)
  qed
qed simp

text \<open>The traffic of a range: how far the counter ends above its lowest value in the range.\<close>

definition range_total :: "(TrafficHistoryPoint \<Rightarrow> num) \<Rightarrow> TrafficHistoryPoint list \<Rightarrow> num" where
  "range_total counter seen = (if seen = [] then 0 else counter (last seen) - Min (counter ` set seen))"

lemma range_total_nonneg: "0 \<le> range_total counter seen"
  by (simp add: range_total_def)

lemma sum_collected:
  "sumRecords (collectPeriodRecords points start end') =
     (range_total tp_trafficRxBytes (in_period start end' points), range_total tp_trafficTxBytes (in_period start end' points))"
proof (cases "in_period start end' points")
  case (Cons p ps)
  have "min (f p) (Min (f ` set (p # ps))) = Min (f ` set (p # ps))" for f :: "TrafficHistoryPoint \<Rightarrow> num"
    by (simp add: min_absorb2)
  then show ?thesis
    using relative_records_last [of "p # ps" "tp_trafficRxBytes p" "tp_trafficTxBytes p"]
    by (simp add: sumRecords_def collectPeriodRecords_def Cons range_total_def last_opt_def del: relative_records.simps)
qed (simp add: sumRecords_def collectPeriodRecords_def range_total_def)

subsection \<open>Period boundaries are printable\<close>

lemma local_day_year:
  assumes "DayFromYear 0 < k" "k \<le> DayFromYear 10000"
  shows "Date_parse (toISOString (local_day k)) = Some (local_day k)"
proof -
  have day: "Day (local_day k) = k - 1"
    by (simp add: local_day_def Day_def LOCAL_OFFSET_MS_def msPerDay_def)
  have "0 \<le> YearFromDay (k - 1)"
    using YearFromDay_bounds [of "k - 1"] DayFromYear_mono [of "YearFromDay (k - 1) + 1" 0] assms(1) by (cases "0 \<le> YearFromDay (k - 1)") auto
  moreover have "YearFromDay (k - 1) \<le> 9999"
    using YearFromDay_bounds [of "k - 1"] DayFromYear_mono [of 10000 "YearFromDay (k - 1)"] assms(2) by (cases "YearFromDay (k - 1) \<le> 9999") auto
  ultimately show ?thesis
    by (intro Date_parse_toISOString) (simp_all add: getUTCFullYear_def day)
qed

lemma month_in_year:
  assumes "0 \<le> m" "m \<le> 11"
  shows "DayFromYear y \<le> MakeDay y m 1" "MakeDay y (m + 1) 1 \<le> DayFromYear (y + 1)"
proof -
  have year: "YearFromDay (MakeDay y k 1) = y" if "0 \<le> k" "k \<le> 11" for k
    using that by (rule fields_MakeDay_first)
  show "DayFromYear y \<le> MakeDay y m 1"
    using YearFromDay_bounds [of "MakeDay y m 1"] year [OF assms] by simp
  show "MakeDay y (m + 1) 1 \<le> DayFromYear (y + 1)"
  proof (cases "m = 11")
    case True
    then show ?thesis by (simp add: MakeDay_def month_start_def)
  next
    case False
    then show ?thesis
      using YearFromDay_bounds [of "MakeDay y (m + 1) 1"] year [of "m + 1"] assms by simp
  qed
qed

definition near_year :: "int \<Rightarrow> period \<Rightarrow> bool" where
  "near_year y p \<longleftrightarrow> (\<exists>a b. pe_start p = local_day a \<and> pe_end p = local_day b \<and> DayFromYear y - 7 \<le> a \<and> a < b \<and> b \<le> DayFromYear (y + 1) + 7)"

lemma grid_near_year:
  assumes "100 \<le> YearFromDay d" "YearFromDay d \<le> 9997" "p \<in> set (mode_periods mode (local_day d))"
  shows "near_year (YearFromDay d) p"
proof -
  let ?m = "month_first d" and ?n = "next_month_first d"
  have mn: "DayFromYear (YearFromDay d) \<le> ?m" "?n \<le> DayFromYear (YearFromDay d + 1)"
    using MonthFromDay_bounds [of d] month_in_year by (simp_all add: month_first_def next_month_first_def)
  have mo: "?m - 6 \<le> monday ?m" "monday ?n \<le> ?n" "monday ?m < ?n"
    using monday_bounds [of ?m] monday_bounds [of ?n] month_span [of d] by linarith+
  show ?thesis
  proof (cases mode)
    case DayMode
    have "mode_periods DayMode (local_day d) = map (day_period (local_day ?m) (local_day ?n)) [monday ?m..monday ?n + 7 - 1]"
      using month_starts [OF assms(1,2)] day_periods_eq [of "local_day ?m" "local_day ?n" "monday ?n + 7" "monday ?m"]
      by (simp add: mode_periods_def local_day_add mult.commute)
    then obtain k where "p = day_period (local_day ?m) (local_day ?n) k" "monday ?m \<le> k" "k \<le> monday ?n + 7 - 1"
      using assms(3) DayMode by auto
    then show ?thesis
      using mn mo unfolding near_year_def by (intro exI [of _ k] exI [of _ "k + 1"]) (simp add: day_period_def)
  next
    case WeekMode
    have "mode_periods WeekMode (local_day d) = week_periods (local_day ?m) (local_day ?n) (local_day (monday ?m))"
      using month_starts [OF assms(1,2)] by (simp add: mode_periods_def)
    then have "week_of (local_day ?m) (monday ?m) p" "pe_start p < local_day ?n"
      using week_periods_facts [OF mo(3), of "local_day ?m"] assms(3) WeekMode by (auto simp: Let_def)
    then obtain k where "0 \<le> k" "pe_start p = local_day (monday ?m + 7 * k)" "pe_end p = local_day (monday ?m + 7 * k + 7)" "monday ?m + 7 * k < ?n"
      by (auto simp: week_of_def)
    then show ?thesis
      using mn mo unfolding near_year_def by (intro exI [of _ "monday ?m + 7 * k"] exI [of _ "monday ?m + 7 * k + 7"]) simp
  next
    case MonthMode
    then obtain i where i: "p = month_period (YearFromDay d) i" "i < 12"
      using assms by (auto simp: mode_periods_def month_periods_eq Let_def)
    have "MakeDay (YearFromDay d) (int i) 1 < MakeDay (YearFromDay d) (int i + 1) 1"
      using MakeDay_next_month [of "int i" "YearFromDay d"] days_in_month_pos [of "int i" "YearFromDay d"] i(2) by simp
    then show ?thesis
      using month_in_year [of "int i" "YearFromDay d"] i unfolding near_year_def
      by (intro exI [of _ "MakeDay (YearFromDay d) (int i) 1"] exI [of _ "MakeDay (YearFromDay d) (int i + 1) 1"]) (simp add: month_period_def)
  qed
qed

lemma near_year_printable:
  assumes "near_year y p" "100 \<le> y" "y \<le> 9997"
  shows "Date_parse (toISOString (pe_start p)) = Some (pe_start p)" "Date_parse (toISOString (pe_end p)) = Some (pe_end p)"
proof -
  obtain a b where ab: "pe_start p = local_day a" "pe_end p = local_day b" "DayFromYear y - 7 \<le> a" "a < b" "b \<le> DayFromYear (y + 1) + 7"
    using assms(1) unfolding near_year_def by blast
  have "DayFromYear 100 \<le> DayFromYear y" "DayFromYear (y + 1) \<le> DayFromYear 9998"
    using assms(2,3) by (auto intro: DayFromYear_mono)
  moreover have "DayFromYear 0 + 7 < DayFromYear 100" "DayFromYear 9998 + 7 < DayFromYear 10000"
    by (simp_all add: DayFromYear_def)
  ultimately have "DayFromYear 0 < a" "b \<le> DayFromYear 10000"
    using ab by linarith+
  then show "Date_parse (toISOString (pe_start p)) = Some (pe_start p)" "Date_parse (toISOString (pe_end p)) = Some (pe_end p)"
    using ab local_day_year [of a] local_day_year [of b] by simp_all
qed

subsection \<open>The calendar a client gets\<close>

lemma cell_records_totals:
  assumes "near_year y p" "100 \<le> y" "y \<le> 9997"
  shows "sumRecords (cell_records points (period_cell now points key p)) =
    (tc_totalRxBytes (period_cell now points key p), tc_totalTxBytes (period_cell now points key p))"
  using near_year_printable [OF assms] by (simp add: cell_records_def period_cell_def Let_def)

lemma opt_or_find: "xs \<noteq> [] \<Longrightarrow> \<exists>x \<in> set xs. opt_or (find P xs) (last_opt xs) = Some x"
proof (cases "find P xs")
  case (Some x)
  moreover have "x \<in> set xs" using Some by (auto simp: find_Some_iff)
  ultimately show ?thesis by simp
qed (simp add: last_opt_def)

lemma built_calendar:
  fixes now points mode anchorDate selectedStart
  defines "d \<equiv> local_date (parseDate now anchorDate)"
  defines "ps \<equiv> mode_periods mode (local_day d)"
  defines "out \<equiv> buildTrafficCalendar now points mode anchorDate selectedStart"
  assumes "100 \<le> YearFromDay d" "YearFromDay d \<le> 9997"
  shows "\<exists>key. tcr_cells out = map (period_cell now points key) ps
    \<and> (\<exists>p \<in> set ps. tcr_rangeStart out = toISOString (pe_start p) \<and> tcr_rangeEnd out = toISOString (pe_end p)
         \<and> tcr_totalRxBytes out = tc_totalRxBytes (period_cell now points key p)
         \<and> tcr_totalTxBytes out = tc_totalTxBytes (period_cell now points key p))"
proof -
  have anchor: "startOfDay (parseDate now anchorDate) = local_day d"
    unfolding d_def by (rule startOfDay_eq) (use assms(4,5) in \<open>simp add: d_def\<close>)
  define key where "key = (if truthy selectedStart then Some (toISOString (startOfDay (parseDate now (nullish selectedStart []))))
    else selectCurrentOrLast now ps (local_day d))"
  have "ps \<noteq> []" using grid [OF assms(4,5)] by (simp add: ps_def grid_ok_def)
  then obtain p where p: "p \<in> set ps"
    "opt_or (find tc_isSelected (map (period_cell now points key) ps)) (last_opt (map (period_cell now points key) ps)) = Some (period_cell now points key p)"
    using opt_or_find [of "map (period_cell now points key) ps" tc_isSelected] by auto
  have total: "sumRecords (cell_records points (period_cell now points key p)) =
      (tc_totalRxBytes (period_cell now points key p), tc_totalTxBytes (period_cell now points key p))"
    using grid_near_year [OF assms(4,5)] p(1) assms(4,5) by (intro cell_records_totals) (auto simp: ps_def)
  have "tcr_cells out = map (period_cell now points key) ps" "tcr_rangeStart out = tc_rangeStart (period_cell now points key p)"
    "tcr_rangeEnd out = tc_rangeEnd (period_cell now points key p)" "tcr_totalRxBytes out = tc_totalRxBytes (period_cell now points key p)"
    "tcr_totalTxBytes out = tc_totalTxBytes (period_cell now points key p)"
    unfolding out_def buildTrafficCalendar_def buildPeriods_def anchor Let_def prod.case ps_def [symmetric] key_def [symmetric]
    by (simp_all add: p(2) total)
  then show ?thesis
    using p(1) by (intro exI [of _ key]) (auto simp: period_cell_def Let_def)
qed

text \<open>
  What a client reads off the calendar.  The cells are those of the grid, and the traffic of a cell is the distance
  of the last counter value within the cell's range from the lowest one, zero without samples and never negative; the
  range and the totals shown for the selection are those of one of the cells.
\<close>

theorem calendar_totals:
  fixes now deviceId mode anchorDate selectedStart s
  defines "d \<equiv> local_date (parseDate now anchorDate)"
  defines "bounds \<equiv> trafficCalendarBounds now mode anchorDate"
  defines "points \<equiv> fst (traffic_points now deviceId (fst bounds) (snd bounds) s)"
  defines "ps \<equiv> fst (buildPeriods now mode (startOfDay (parseDate now anchorDate)))"
  defines "out \<equiv> fst (getTrafficCalendar now deviceId mode anchorDate selectedStart s)"
  assumes "100 \<le> YearFromDay d" "YearFromDay d \<le> 9997"
  shows "map tc_rangeStart (tcr_cells out) = map (\<lambda>p. toISOString (pe_start p)) ps
    \<and> map tc_totalRxBytes (tcr_cells out) = map (\<lambda>p. range_total tp_trafficRxBytes (in_period (pe_start p) (pe_end p) points)) ps
    \<and> map tc_totalTxBytes (tcr_cells out) = map (\<lambda>p. range_total tp_trafficTxBytes (in_period (pe_start p) (pe_end p) points)) ps
    \<and> (\<forall>cell \<in> set (tcr_cells out). 0 \<le> tc_totalRxBytes cell \<and> 0 \<le> tc_totalTxBytes cell)
    \<and> (\<exists>cell \<in> set (tcr_cells out). tcr_rangeStart out = tc_rangeStart cell \<and> tcr_rangeEnd out = tc_rangeEnd cell
         \<and> tcr_totalRxBytes out = tc_totalRxBytes cell \<and> tcr_totalTxBytes out = tc_totalTxBytes cell)"
proof -
  have "startOfDay (parseDate now anchorDate) = local_day d"
    unfolding d_def by (rule startOfDay_eq) (use assms(6,7) in \<open>simp add: d_def\<close>)
  then have ps: "ps = mode_periods mode (local_day d)"
    by (simp add: ps_def buildPeriods_def Let_def)
  have out: "out = buildTrafficCalendar now points mode anchorDate selectedStart"
    by (simp add: out_def getTrafficCalendar_def points_def bounds_def split_beta)
  obtain key p where k: "tcr_cells out = map (period_cell now points key) ps" "p \<in> set ps" "tcr_rangeStart out = toISOString (pe_start p)"
    "tcr_rangeEnd out = toISOString (pe_end p)" "tcr_totalRxBytes out = tc_totalRxBytes (period_cell now points key p)"
    "tcr_totalTxBytes out = tc_totalTxBytes (period_cell now points key p)"
    using built_calendar [where now = now and anchorDate = anchorDate and mode = mode and points = points and selectedStart = selectedStart] assms(6,7) unfolding out ps d_def by blast
  have cell: "tc_rangeStart (period_cell now points key q) = toISOString (pe_start q)"
    "tc_rangeEnd (period_cell now points key q) = toISOString (pe_end q)"
    "tc_totalRxBytes (period_cell now points key q) = range_total tp_trafficRxBytes (in_period (pe_start q) (pe_end q) points)"
    "tc_totalTxBytes (period_cell now points key q) = range_total tp_trafficTxBytes (in_period (pe_start q) (pe_end q) points)" for q
    by (simp_all add: period_cell_def Let_def sum_collected)
  show ?thesis
    using k(2-) cell range_total_nonneg unfolding k(1) by (auto simp: comp_def)
qed

subsection \<open>A calendar\<close>

lemma demo_anchor: "YearFromDay (local_date (parseDate 0 ''2024-05-15'')) = 2024"
  by code_simp

theorem calendar_partition_witness:
  "map pe_start (fst (buildPeriods 0 MonthMode (startOfDay (parseDate 0 ''2024-05-15''))))
     = map (\<lambda>i. local_day (MakeDay 2024 (int i) 1)) [0..<12]"
  using calendar_partition [of 0 "''2024-05-15''" "[]" MonthMode] by (simp add: demo_anchor grid_ok_def)

theorem calendar_totals_witness:
  "map tc_rangeStart (tcr_cells (fst (getTrafficCalendar 0 ''d'' DayMode ''2024-05-15'' None demo_service)))
     = map (\<lambda>p. toISOString (pe_start p)) (fst (buildPeriods 0 DayMode (startOfDay (parseDate 0 ''2024-05-15''))))"
  using calendar_totals [where now = 0 and deviceId = "''d''" and mode = DayMode and anchorDate = "''2024-05-15''"
    and selectedStart = None and s = demo_service] by (simp add: demo_anchor)

text \<open>
  The totals of adjacent ranges do not add up: what was transferred between the last sample of one range and the first
  of the next is in neither.
\<close>

lemma increasing_total:
  assumes "sorted (map counter seen)" "seen \<noteq> []"
  shows "range_total counter seen = counter (last seen) - counter (hd seen)"
proof -
  have "Min (counter ` set seen) = counter (hd seen)"
    using assms by (cases seen) (auto intro!: Min_eqI)
  then show ?thesis using assms(2) by (simp add: range_total_def)
qed

lemma boundary_traffic_lost:
  assumes "sorted (map tp_timestamp points)" "sorted (map tp_trafficRxBytes points)" "a \<le> b" "b \<le> c"
    "in_period a b points \<noteq> []" "in_period b c points \<noteq> []"
  shows "range_total tp_trafficRxBytes (in_period a c points) =
    range_total tp_trafficRxBytes (in_period a b points) + range_total tp_trafficRxBytes (in_period b c points)
    + (tp_trafficRxBytes (hd (in_period b c points)) - tp_trafficRxBytes (last (in_period a b points)))"
proof -
  have inc: "sorted (map tp_trafficRxBytes (in_period x y points))" for x y
    using assms(2) unfolding in_period_def by (rule sorted_filter)
  have split: "in_period a c points = in_period a b points @ in_period b c points"
    using in_period_split [OF assms(1,3,4)] by simp
  have total: "in_period x y points \<noteq> [] \<Longrightarrow>
      range_total tp_trafficRxBytes (in_period x y points) = tp_trafficRxBytes (last (in_period x y points)) - tp_trafficRxBytes (hd (in_period x y points))" for x y
    by (rule increasing_total [OF inc])
  show ?thesis
    using assms(5,6) total [of a b] total [of b c] total [of a c] by (simp add: split)
qed

lemma boundary_traffic_lost_instance:
  "let points = [\<lparr>tp_timestamp = 0, tp_trafficRxBytes = 100, tp_trafficTxBytes = 0\<rparr>, \<lparr>tp_timestamp = 3600000, tp_trafficRxBytes = 400, tp_trafficTxBytes = 0\<rparr>]
   in range_total tp_trafficRxBytes (in_period 0 3600000 points) = 0
      \<and> range_total tp_trafficRxBytes (in_period 3600000 7200000 points) = 0
      \<and> range_total tp_trafficRxBytes (in_period 0 7200000 points) = 300"
  by (simp add: range_total_def in_period_def)

end
