(* ===== verification/Charts.thy ===== *)
theory Charts
  imports Aggregate
begin

text \<open>
  Chart series: \<open>timeSeriesToMetricSeries\<close> of \<open>apps/server/src/utils.ts\<close> with its helpers, which turn stored
  records into the series of the console.

  The builders group instances by id in a \<open>Map\<close>; where the code keeps a second map of the last observation
  time per id, the group carries that time.  Each builder is the grouping loop of the prelude over the
  instances of all points.
\<close>

subsection \<open>The published series\<close>

record CpuMetricSeries =
  xc_id :: string
  xc_name :: string
  xc_socketIndex :: "num option"
  xc_model :: "string option"
  xc_coreCount :: "num option"
  xc_logicalCount :: "num option"
  xc_l3CacheBytes :: "num option"
  xc_usagePercent :: "SamplePoint list"
  xc_frequencyMHz :: "SamplePoint list"
  xc_temperatureC :: "SamplePoint list"

record DiskMetricSeries =
  xd_id :: string
  xd_name :: string
  xd_mountPoint :: string
  xd_filesystem :: "string option"
  xd_model :: "string option"
  xd_vendor :: "string option"
  xd_physicalDevice :: "string option"
  xd_totalBytes :: "SamplePoint list"
  xd_usagePercent :: "SamplePoint list"
  xd_activePercent :: "SamplePoint list"
  xd_usedBytes :: "SamplePoint list"
  xd_readBytesPerSec :: "SamplePoint list"
  xd_writeBytesPerSec :: "SamplePoint list"
  xd_temperatureC :: "SamplePoint list"

record StoragePoolMetricSeries =
  xp_id :: string
  xp_name :: string
  xp_kind :: StoragePoolKind
  xp_node :: "string option"
  xp_mountPoint :: "string option"
  xp_active :: bool
  xp_shared :: bool
  xp_totalBytes :: "SamplePoint list"
  xp_usedBytes :: "SamplePoint list"
  xp_availableBytes :: "SamplePoint list"
  xp_usagePercent :: "SamplePoint list"

record NetworkMetricSeries =
  xn_id :: string
  xn_name :: string
  xn_model :: "string option"
  xn_macAddress :: "string option"
  xn_ipv4 :: "string list option"
  xn_ipv6 :: "string list option"
  xn_rxBytesPerSec :: "SamplePoint list"
  xn_txBytesPerSec :: "SamplePoint list"
  xn_trafficRxBytes :: "SamplePoint list"
  xn_trafficTxBytes :: "SamplePoint list"

record GpuMetricSeries =
  xg_id :: string
  xg_name :: string
  xg_integrated :: "bool option"
  xg_memoryKind :: "GpuMemoryKind option"
  xg_usagePercent :: "SamplePoint list"
  xg_encodePercent :: "SamplePoint list"
  xg_decodePercent :: "SamplePoint list"
  xg_frequencyMHz :: "SamplePoint list"
  xg_memoryUsagePercent :: "SamplePoint list"
  xg_memoryUsedBytes :: "SamplePoint list"
  xg_temperatureC :: "SamplePoint list"
  xg_temperatureSource :: "string option"

record FanMetricSeries =
  xf_id :: string
  xf_name :: string
  xf_interface :: string
  xf_rpm :: "SamplePoint list"

record TemperatureMetricSeries =
  xt_id :: string
  xt_name :: string
  xt_rawName :: string
  xt_source :: string
  xt_backend :: "string option"
  xt_hardware :: "string option"
  xt_role :: TemperatureSensorRole
  xt_confidence :: TemperatureSensorConfidence
  xt_status :: TemperatureSensorStatus
  xt_currentC :: "SamplePoint list"
  xt_highC :: "num option"
  xt_criticalC :: "num option"
  xt_emergencyC :: "num option"

record MetricSeries =
  ms_cpuUsagePercent :: "SamplePoint list"
  ms_cpuFrequencyMHz :: "SamplePoint list"
  ms_cpuTemperatureC :: "SamplePoint list"
  ms_gpuUsagePercent :: "SamplePoint list"
  ms_gpuEncodePercent :: "SamplePoint list"
  ms_gpuDecodePercent :: "SamplePoint list"
  ms_gpuFrequencyMHz :: "SamplePoint list"
  ms_gpuMemoryUsagePercent :: "SamplePoint list"
  ms_gpuMemoryUsedBytes :: "SamplePoint list"
  ms_gpuTemperatureC :: "SamplePoint list"
  ms_memoryUsagePercent :: "SamplePoint list"
  ms_swapUsagePercent :: "SamplePoint list"
  ms_memoryUsedBytes :: "SamplePoint list"
  ms_swapUsedBytes :: "SamplePoint list"
  ms_memoryAvailableBytes :: "SamplePoint list"
  ms_memoryCachedBytes :: "SamplePoint list"
  ms_memoryCommittedBytes :: "SamplePoint list"
  ms_memoryCommitLimitBytes :: "SamplePoint list"
  ms_systemProcessCount :: "SamplePoint list"
  ms_systemThreadCount :: "SamplePoint list"
  ms_systemHandleCount :: "SamplePoint list"
  ms_diskUsagePercent :: "SamplePoint list"
  ms_diskUsedBytes :: "SamplePoint list"
  ms_diskReadBytesPerSec :: "SamplePoint list"
  ms_diskWriteBytesPerSec :: "SamplePoint list"
  ms_networkRxBytesPerSec :: "SamplePoint list"
  ms_networkTxBytesPerSec :: "SamplePoint list"
  ms_trafficRxBytes :: "SamplePoint list"
  ms_trafficTxBytes :: "SamplePoint list"
  ms_cpus :: "CpuMetricSeries list"
  ms_disks :: "DiskMetricSeries list"
  ms_storagePools :: "StoragePoolMetricSeries list"
  ms_networks :: "NetworkMetricSeries list"
  ms_gpus :: "GpuMetricSeries list"
  ms_fans :: "FanMetricSeries list"
  ms_temperatureSensors :: "TemperatureMetricSeries list"

subsection \<open>Scalar series\<close>

abbreviation sample :: "string \<Rightarrow> num \<Rightarrow> SamplePoint" where
  "sample t v \<equiv> \<lparr>sp_timestamp = t, sp_value = v\<rparr>"

abbreviation iso :: "TimeSeriesRecord \<Rightarrow> string" where
  "iso point \<equiv> toISOString (tr_timestamp point)"

definition detailSeries :: "TimeSeriesRecord list \<Rightarrow> (TimeSeriesRecord \<Rightarrow> num option) \<Rightarrow> SamplePoint list" where
  "detailSeries points selector = map (\<lambda>point. sample (iso point) (nullish (selector point) 0)) points"

text \<open>\<open>Number(undefined)\<close> is \<open>NaN\<close>, which is not finite: an absent selection keeps the previous value.\<close>

fun carry_forward :: "num \<Rightarrow> TimeSeriesRecord list \<Rightarrow> (TimeSeriesRecord \<Rightarrow> num option) \<Rightarrow> SamplePoint list" where
  "carry_forward previous [] selector = []"
| "carry_forward previous (point # points) selector =
     (let next' = (if nullish (selector point) 0 > 0 then nullish (selector point) 0 else previous)
      in sample (iso point) next' # carry_forward next' points selector)"

definition detailSeriesWithCarryForward :: "TimeSeriesRecord list \<Rightarrow> (TimeSeriesRecord \<Rightarrow> num option) \<Rightarrow> SamplePoint list" where
  "detailSeriesWithCarryForward points selector = carry_forward 0 points selector"

text \<open>\<open>mapPoint\<close>: plain fields one sample per record; temperatures once per observation time, positive only.\<close>

definition map_plain :: "(TimeSeriesRecord \<Rightarrow> num) \<Rightarrow> TimeSeriesRecord list \<Rightarrow> SamplePoint list" where
  "map_plain key points = map (\<lambda>point. sample (iso point) (key point)) points"

fun map_observed :: "(TimeSeriesRecord \<Rightarrow> num) \<Rightarrow> (TimeSeriesRecord \<Rightarrow> string option) \<Rightarrow> string option \<Rightarrow> TimeSeriesRecord list \<Rightarrow> SamplePoint list" where
  "map_observed key observed lastObservedAt [] = []"
| "map_observed key observed lastObservedAt (point # points) =
     (if truthy (observed point) \<and> key point > 0
      then if observed point = lastObservedAt then map_observed key observed lastObservedAt points
           else sample (the (observed point)) (key point) # map_observed key observed (observed point) points
      else sample (iso point) (key point) # map_observed key observed lastObservedAt points)"

definition map_temperature :: "(TimeSeriesRecord \<Rightarrow> num) \<Rightarrow> (TimeSeriesRecord \<Rightarrow> string option) \<Rightarrow> TimeSeriesRecord list \<Rightarrow> SamplePoint list" where
  "map_temperature key observed points = filter (\<lambda>point. sp_value point > 0) (map_observed key observed None points)"

fun normalize_from :: "num \<Rightarrow> num \<Rightarrow> num list \<Rightarrow> num list" where
  "normalize_from baseline previousRaw [] = []"
| "normalize_from baseline previousRaw (value # values) =
     (let baseline' = (if value < previousRaw \<or> value - previousRaw > 50000000 then value else baseline)
      in max 0 (value - baseline') # normalize_from baseline' value values)"

definition normalizeTrafficSeries :: "num list \<Rightarrow> num list" where
  "normalizeTrafficSeries values = (case values of [] \<Rightarrow> [] | v # _ \<Rightarrow> normalize_from v v values)"

subsection \<open>Instances at a point\<close>

definition cpu_from_detail :: "TimeSeriesRecord \<Rightarrow> bool \<Rightarrow> CpuPackageStats \<Rightarrow> InstanceMetricRecord" where
  "cpu_from_detail point single cpu =
     (instance_base (cp_id cpu) (cp_name cpu))
       \<lparr>im_socketIndex := cp_socketIndex cpu, im_model := cp_model cpu, im_coreCount := cp_coreCount cpu,
        im_logicalCount := cp_logicalCount cpu, im_l3CacheBytes := cp_l3CacheBytes cpu,
        im_usagePercent := opt_or (cp_usagePercent cpu) (if single then Some (tr_cpuUsagePercent point) else None),
        im_frequencyMHz := opt_or (cp_frequencyMHz cpu) (if single then Some (tr_cpuFrequencyMHz point) else None),
        im_temperatureC := opt_or (cp_temperatureC cpu) (if single then Some (tr_cpuTemperatureC point) else None)\<rparr>"

definition details_list :: "(RecordedDetails \<Rightarrow> 'a list) \<Rightarrow> TimeSeriesRecord \<Rightarrow> 'a list" where
  "details_list f point = nullish (map_option f (tr_recordedDetails point)) []"

definition cpuInstancesAtPoint :: "TimeSeriesRecord \<Rightarrow> DeviceMetricConfigValue \<Rightarrow> InstanceMetricRecord list" where
  "cpuInstancesAtPoint point config =
     (let recorded = details_list rd_cpuPackages point
      in filter (\<lambda>cpu. isInstanceEnabled config Cpu (im_id cpu))
           (nullish (tr_cpus point) (map (cpu_from_detail point (length recorded = 1)) recorded)))"

definition disk_from_detail :: "RecordedDetails \<Rightarrow> DiskDeviceStats \<Rightarrow> InstanceMetricRecord" where
  "disk_from_detail details disk =
     (let rate = opt_or (disk_rate_instance (rd_diskRate details) (nullish (dk_sourceKey disk) (dk_id disk)))
            (disk_rate_instance (rd_diskRate details) (dk_id disk))
      in (instance_base (dk_id disk) (dk_name disk))
           \<lparr>im_mountPoint := Some (dk_mountPoint disk), im_filesystem := dk_filesystem disk, im_model := dk_model disk,
            im_vendor := dk_vendor disk, im_physicalDevice := dk_physicalDevice disk, im_totalBytes := Some (dk_totalBytes disk),
            im_usagePercent := Some (percent (dk_usedBytes disk) (dk_totalBytes disk)),
            im_activePercent := Some (nullish (opt_or (Option.bind rate rt_activePercent) (dk_activePercent disk)) 0),
            im_usedBytes := Some (dk_usedBytes disk),
            im_readBytesPerSec := Some (nullish (map_option rt_readBytesPerSec rate) 0),
            im_writeBytesPerSec := Some (nullish (map_option rt_writeBytesPerSec rate) 0),
            im_temperatureC := dk_temperatureC disk\<rparr>)"

definition disk_with_capacity :: "DiskDeviceStats list \<Rightarrow> InstanceMetricRecord \<Rightarrow> InstanceMetricRecord" where
  "disk_with_capacity details disk =
     (if nullish (im_totalBytes disk) 0 > 0 then disk
      else case List.find (\<lambda>item. dk_id item = im_id disk) details of
             None \<Rightarrow> disk
           | Some detail \<Rightarrow> if dk_totalBytes detail \<le> 0 then disk
               else disk\<lparr>im_totalBytes := Some (dk_totalBytes detail),
                 im_usagePercent := Some (percent (nullish (im_usedBytes disk) (dk_usedBytes detail)) (dk_totalBytes detail))\<rparr>)"

definition diskInstancesAtPoint :: "TimeSeriesRecord \<Rightarrow> DeviceMetricConfigValue \<Rightarrow> InstanceMetricRecord list" where
  "diskInstancesAtPoint point config =
     (let fallback = (case tr_recordedDetails point of None \<Rightarrow> [] | Some details \<Rightarrow> map (disk_from_detail details) (rd_disks details))
      in map (disk_with_capacity (details_list rd_disks point))
           (filter (\<lambda>disk. isInstanceEnabled config Disk (im_id disk)) (nullish (tr_disks point) fallback)))"

definition network_from_detail :: "NetworkInterfaceStats \<Rightarrow> InstanceMetricRecord" where
  "network_from_detail network =
     (instance_base (ni_id network) (ni_name network))
       \<lparr>im_model := ni_model network, im_macAddress := ni_macAddress network, im_ipv4 := ni_ipv4 network,
        im_ipv6 := ni_ipv6 network,
        im_rxBytesPerSec := Some (nullish (ni_rxBytesPerSec network) 0),
        im_txBytesPerSec := Some (nullish (ni_txBytesPerSec network) 0),
        im_trafficRxBytes := Some (nullish (ni_totalRxBytes network) 0),
        im_trafficTxBytes := Some (nullish (ni_totalTxBytes network) 0)\<rparr>"

definition networkInstancesAtPoint :: "TimeSeriesRecord \<Rightarrow> DeviceMetricConfigValue \<Rightarrow> InstanceMetricRecord list" where
  "networkInstancesAtPoint point config =
     filter (\<lambda>network. isInstanceEnabled config Network (im_id network))
       (nullish (tr_networks point) (map network_from_detail (details_list rd_networkInterfaces point)))"

definition gpu_from_detail :: "GpuDeviceStats \<Rightarrow> InstanceMetricRecord" where
  "gpu_from_detail gpu =
     (instance_base (gp_id gpu) (gp_name gpu))
       \<lparr>im_usagePercent := Some (gp_utilizationPercent gpu),
        im_encodePercent := Some (nullish (gp_encodeUtilizationPercent gpu) 0),
        im_decodePercent := Some (nullish (gp_decodeUtilizationPercent gpu) 0),
        im_frequencyMHz := Some (nullish (gp_frequencyMHz gpu) 0),
        im_memoryUsagePercent := Some (percent (gp_memoryUsedBytes gpu) (gp_memoryTotalBytes gpu)),
        im_memoryUsedBytes := Some (gp_memoryUsedBytes gpu), im_integrated := gp_integrated gpu,
        im_memoryKind := gp_memoryKind gpu, im_temperatureC := gp_temperatureC gpu,
        im_temperatureSource := gp_temperatureSource gpu\<rparr>"

definition gpuInstancesAtPoint :: "TimeSeriesRecord \<Rightarrow> DeviceMetricConfigValue \<Rightarrow> InstanceMetricRecord list" where
  "gpuInstancesAtPoint point config =
     filter (\<lambda>gpu. isInstanceEnabled config Gpu (im_id gpu))
       (nullish (tr_gpus point) (map gpu_from_detail (details_list rd_gpus point)))"

definition fan_from_detail :: "FanSensorStats \<Rightarrow> InstanceMetricRecord" where
  "fan_from_detail fan =
     (instance_base (fn_id fan) (fn_label fan))
       \<lparr>im_interface := Some (fn_interface fan),
        im_rpm := (if fn_rpmStatus fan = Some RpmDisabled \<or> fn_rpmStatus fan = Some RpmUnavailable then None else Some (fn_rpm fan))\<rparr>"

definition fanInstancesAtPoint :: "TimeSeriesRecord \<Rightarrow> DeviceMetricConfigValue \<Rightarrow> InstanceMetricRecord list" where
  "fanInstancesAtPoint point config =
     filter (\<lambda>fan. isInstanceEnabled config Fan (im_id fan))
       (nullish (tr_fans point) (map fan_from_detail (details_list rd_fans point)))"

subsection \<open>Series per instance\<close>

text \<open>The instances of all points, in order.\<close>

definition at_points :: "(TimeSeriesRecord \<Rightarrow> 'i list) \<Rightarrow> TimeSeriesRecord list \<Rightarrow> (TimeSeriesRecord \<times> 'i) list" where
  "at_points instances points = concat (map (\<lambda>point. map (Pair point) (instances point)) points)"

text \<open>\<open>!observedAt || last.get(id) !== observedAt\<close>, and \<open>if (observedAt) last.set(id, observedAt)\<close>.\<close>

definition new_reading :: "string option \<Rightarrow> string option \<Rightarrow> bool" where
  "new_reading observedAt lastAt \<longleftrightarrow> \<not> truthy observedAt \<or> lastAt \<noteq> observedAt"

definition note_reading :: "string option \<Rightarrow> string option \<Rightarrow> string option" where
  "note_reading observedAt lastAt = (if truthy observedAt then observedAt else lastAt)"

definition push_if :: "bool \<Rightarrow> string \<Rightarrow> num \<Rightarrow> SamplePoint list \<Rightarrow> SamplePoint list" where
  "push_if c t v xs = (if c then xs @ [sample t v] else xs)"

definition fresh_cpu :: "InstanceMetricRecord \<Rightarrow> CpuMetricSeries" where
  "fresh_cpu cpu = \<lparr>xc_id = im_id cpu, xc_name = im_name cpu, xc_socketIndex = im_socketIndex cpu, xc_model = im_model cpu,
     xc_coreCount = im_coreCount cpu, xc_logicalCount = im_logicalCount cpu, xc_l3CacheBytes = im_l3CacheBytes cpu,
     xc_usagePercent = [], xc_frequencyMHz = [], xc_temperatureC = []\<rparr>"

definition add_cpu :: "(CpuMetricSeries \<times> string option) option \<Rightarrow> TimeSeriesRecord \<times> InstanceMetricRecord \<Rightarrow> CpuMetricSeries \<times> string option" where
  "add_cpu g = (\<lambda>(point, cpu).
     (let (target, lastAt) = nullish g (fresh_cpu cpu, None);
          observedAt = tr_cpuTemperatureSampledAt point;
          temperature = nullish (im_temperatureC cpu) 0;
          fresh = (temperature > 0 \<and> new_reading observedAt lastAt)
      in (target\<lparr>xc_usagePercent := push_if (im_usagePercent cpu \<noteq> None) (iso point) (nullish (im_usagePercent cpu) 0) (xc_usagePercent target),
            xc_frequencyMHz := push_if (nullish (im_frequencyMHz cpu) 0 > 0) (iso point) (nullish (im_frequencyMHz cpu) 0) (xc_frequencyMHz target),
            xc_temperatureC := push_if fresh (nullish observedAt (iso point)) temperature (xc_temperatureC target)\<rparr>,
          if fresh then note_reading observedAt lastAt else lastAt)))"

definition buildCpuMetricSeries :: "TimeSeriesRecord list \<Rightarrow> DeviceMetricConfigValue \<Rightarrow> CpuMetricSeries list" where
  "buildCpuMetricSeries points config =
     map fst (map_values (fold (group_step item_id add_cpu) (at_points (\<lambda>p. cpuInstancesAtPoint p config) points) []))"

definition fresh_disk :: "InstanceMetricRecord \<Rightarrow> DiskMetricSeries" where
  "fresh_disk disk = \<lparr>xd_id = im_id disk, xd_name = im_name disk, xd_mountPoint = nullish (im_mountPoint disk) [],
     xd_filesystem = im_filesystem disk, xd_model = im_model disk, xd_vendor = im_vendor disk,
     xd_physicalDevice = im_physicalDevice disk, xd_totalBytes = [], xd_usagePercent = [], xd_activePercent = [],
     xd_usedBytes = [], xd_readBytesPerSec = [], xd_writeBytesPerSec = [], xd_temperatureC = []\<rparr>"

definition add_disk :: "DiskMetricSeries option \<Rightarrow> TimeSeriesRecord \<times> InstanceMetricRecord \<Rightarrow> DiskMetricSeries" where
  "add_disk g = (\<lambda>(point, disk).
     (let target = nullish g (fresh_disk disk); t = iso point; v = (\<lambda>x. sample t (nullish x 0))
      in target\<lparr>xd_totalBytes := xd_totalBytes target @ [v (im_totalBytes disk)],
           xd_usagePercent := xd_usagePercent target @ [v (im_usagePercent disk)],
           xd_activePercent := xd_activePercent target @ [v (im_activePercent disk)],
           xd_usedBytes := xd_usedBytes target @ [v (im_usedBytes disk)],
           xd_readBytesPerSec := xd_readBytesPerSec target @ [v (im_readBytesPerSec disk)],
           xd_writeBytesPerSec := xd_writeBytesPerSec target @ [v (im_writeBytesPerSec disk)],
           xd_temperatureC := push_if (nullish (im_temperatureC disk) 0 > 0) t (nullish (im_temperatureC disk) 0) (xd_temperatureC target)\<rparr>))"

definition buildDiskMetricSeries :: "TimeSeriesRecord list \<Rightarrow> DeviceMetricConfigValue \<Rightarrow> DiskMetricSeries list" where
  "buildDiskMetricSeries points config =
     map_values (fold (group_step item_id add_disk) (at_points (\<lambda>p. diskInstancesAtPoint p config) points) [])"

definition fresh_pool :: "StoragePoolStats \<Rightarrow> StoragePoolMetricSeries" where
  "fresh_pool pool = \<lparr>xp_id = pl_id pool, xp_name = pl_name pool, xp_kind = pl_kind pool, xp_node = pl_node pool,
     xp_mountPoint = pl_mountPoint pool, xp_active = (pl_active pool \<noteq> Some False), xp_shared = (pl_shared pool = Some True),
     xp_totalBytes = [], xp_usedBytes = [], xp_availableBytes = [], xp_usagePercent = []\<rparr>"

definition append_value :: "string \<Rightarrow> num option \<Rightarrow> SamplePoint list \<Rightarrow> SamplePoint list" where
  "append_value t v xs = (case v of None \<Rightarrow> xs | Some x \<Rightarrow> push_if (x \<ge> 0) t x xs)"

definition add_pool :: "StoragePoolMetricSeries option \<Rightarrow> TimeSeriesRecord \<times> StoragePoolStats \<Rightarrow> StoragePoolMetricSeries" where
  "add_pool g = (\<lambda>(point, pool).
     (let target = nullish g (fresh_pool pool); t = iso point
      in target\<lparr>xp_name := (if pl_name pool \<noteq> [] then pl_name pool else xp_name target),
           xp_kind := pl_kind pool,
           xp_node := opt_or (pl_node pool) (xp_node target),
           xp_mountPoint := opt_or (pl_mountPoint pool) (xp_mountPoint target),
           xp_active := nullish (pl_active pool) (xp_active target),
           xp_shared := nullish (pl_shared pool) (xp_shared target),
           xp_totalBytes := append_value t (Some (pl_totalBytes pool)) (xp_totalBytes target),
           xp_usedBytes := append_value t (Some (pl_usedBytes pool)) (xp_usedBytes target),
           xp_availableBytes := append_value t (pl_availableBytes pool) (xp_availableBytes target),
           xp_usagePercent := (if pl_totalBytes pool > 0 \<and> pl_usedBytes pool \<ge> 0
             then append_value t (Some (percent (pl_usedBytes pool) (pl_totalBytes pool))) (xp_usagePercent target)
             else xp_usagePercent target)\<rparr>))"

definition buildStoragePoolMetricSeries :: "TimeSeriesRecord list \<Rightarrow> DeviceMetricConfigValue \<Rightarrow> StoragePoolMetricSeries list" where
  "buildStoragePoolMetricSeries points config =
     (if StoragePools \<notin> set (cf_enabledMetrics config) then []
      else map_values (fold (group_step (\<lambda>x. pl_id (snd x)) add_pool) (at_points (details_list rd_storagePools) points) []))"

definition fresh_network :: "InstanceMetricRecord \<Rightarrow> NetworkMetricSeries" where
  "fresh_network network = \<lparr>xn_id = im_id network, xn_name = im_name network, xn_model = im_model network,
     xn_macAddress = im_macAddress network, xn_ipv4 = im_ipv4 network, xn_ipv6 = im_ipv6 network,
     xn_rxBytesPerSec = [], xn_txBytesPerSec = [], xn_trafficRxBytes = [], xn_trafficTxBytes = []\<rparr>"

definition keep_network :: "NetworkMetricSeries option \<Rightarrow> TimeSeriesRecord \<times> InstanceMetricRecord \<Rightarrow> NetworkMetricSeries" where
  "keep_network g x = nullish g (fresh_network (snd x))"

text \<open>
  The second loop, seen from one interface: at every point one sample, zero when the interface is absent.
  \<open>new Map(list)\<close> keeps the last entry of a repeated id.
\<close>

definition network_at :: "DeviceMetricConfigValue \<Rightarrow> string \<Rightarrow> TimeSeriesRecord \<Rightarrow> InstanceMetricRecord option" where
  "network_at config k point = List.find (\<lambda>network. im_id network = k) (rev (networkInstancesAtPoint point config))"

definition network_values :: "DeviceMetricConfigValue \<Rightarrow> (InstanceMetricRecord \<Rightarrow> num option) \<Rightarrow> string \<Rightarrow> TimeSeriesRecord list \<Rightarrow> num list" where
  "network_values config field k points = map (\<lambda>point. nullish (Option.bind (network_at config k point) field) 0) points"

definition stamped :: "TimeSeriesRecord list \<Rightarrow> num list \<Rightarrow> SamplePoint list" where
  "stamped points values = map2 (\<lambda>point v. sample (iso point) v) points values"

definition fill_network :: "TimeSeriesRecord list \<Rightarrow> DeviceMetricConfigValue \<Rightarrow> NetworkMetricSeries \<Rightarrow> NetworkMetricSeries" where
  "fill_network points config target =
     target\<lparr>xn_rxBytesPerSec := stamped points (network_values config im_rxBytesPerSec (xn_id target) points),
       xn_txBytesPerSec := stamped points (network_values config im_txBytesPerSec (xn_id target) points),
       xn_trafficRxBytes := stamped points (normalizeTrafficSeries (network_values config im_trafficRxBytes (xn_id target) points)),
       xn_trafficTxBytes := stamped points (normalizeTrafficSeries (network_values config im_trafficTxBytes (xn_id target) points))\<rparr>"

definition buildNetworkMetricSeries :: "TimeSeriesRecord list \<Rightarrow> DeviceMetricConfigValue \<Rightarrow> NetworkMetricSeries list" where
  "buildNetworkMetricSeries points config =
     map (fill_network points config)
       (map_values (fold (group_step item_id keep_network) (at_points (\<lambda>p. networkInstancesAtPoint p config) points) []))"

definition fresh_gpu :: "InstanceMetricRecord \<Rightarrow> GpuMetricSeries" where
  "fresh_gpu gpu = \<lparr>xg_id = im_id gpu, xg_name = im_name gpu, xg_integrated = im_integrated gpu, xg_memoryKind = im_memoryKind gpu,
     xg_usagePercent = [], xg_encodePercent = [], xg_decodePercent = [], xg_frequencyMHz = [], xg_memoryUsagePercent = [],
     xg_memoryUsedBytes = [], xg_temperatureC = [], xg_temperatureSource = None\<rparr>"

definition add_gpu :: "(GpuMetricSeries \<times> string option \<times> num) option \<Rightarrow> TimeSeriesRecord \<times> InstanceMetricRecord \<Rightarrow> GpuMetricSeries \<times> string option \<times> num" where
  "add_gpu g = (\<lambda>(point, gpu).
     (let (target, lastAt, lastMemory) = nullish g (fresh_gpu gpu, None, 0);
          t = iso point; v = (\<lambda>x. sample t (nullish x 0));
          memoryUsed = nullish (im_memoryUsedBytes gpu) 0;
          lastMemory' = (if memoryUsed > 0 then memoryUsed else lastMemory);
          observedAt = tr_hardwareSampledAt point;
          temperature = nullish (im_temperatureC gpu) 0;
          fresh = (temperature > 0 \<and> new_reading observedAt lastAt)
      in (target\<lparr>xg_integrated := (if im_integrated gpu = Some True then Some True else xg_integrated target),
            xg_memoryKind := (if (xg_memoryKind target = None \<or> xg_memoryKind target = Some UnknownMemory) \<and> im_memoryKind gpu \<noteq> None
              then im_memoryKind gpu else xg_memoryKind target),
            xg_usagePercent := xg_usagePercent target @ [v (im_usagePercent gpu)],
            xg_encodePercent := xg_encodePercent target @ [v (im_encodePercent gpu)],
            xg_decodePercent := xg_decodePercent target @ [v (im_decodePercent gpu)],
            xg_frequencyMHz := xg_frequencyMHz target @ [v (im_frequencyMHz gpu)],
            xg_memoryUsagePercent := xg_memoryUsagePercent target @ [v (im_memoryUsagePercent gpu)],
            xg_memoryUsedBytes := xg_memoryUsedBytes target @ [sample t lastMemory'],
            xg_temperatureSource := (if im_temperatureSource gpu = Some ''cpuPackageShared''
                \<or> (\<not> truthy (xg_temperatureSource target) \<and> truthy (im_temperatureSource gpu))
              then im_temperatureSource gpu else xg_temperatureSource target),
            xg_temperatureC := push_if fresh (nullish observedAt t) temperature (xg_temperatureC target)\<rparr>,
          if fresh then note_reading observedAt lastAt else lastAt, lastMemory')))"

definition buildGpuMetricSeries :: "TimeSeriesRecord list \<Rightarrow> DeviceMetricConfigValue \<Rightarrow> GpuMetricSeries list" where
  "buildGpuMetricSeries points config =
     map fst (map_values (fold (group_step item_id add_gpu) (at_points (\<lambda>p. gpuInstancesAtPoint p config) points) []))"

definition fresh_fan :: "InstanceMetricRecord \<Rightarrow> FanMetricSeries" where
  "fresh_fan fan = \<lparr>xf_id = im_id fan, xf_name = im_name fan, xf_interface = nullish (im_interface fan) [], xf_rpm = []\<rparr>"

definition add_fan :: "(FanMetricSeries \<times> string option) option \<Rightarrow> TimeSeriesRecord \<times> InstanceMetricRecord \<Rightarrow> FanMetricSeries \<times> string option" where
  "add_fan g = (\<lambda>(point, fan).
     (let (target, lastAt) = nullish g (fresh_fan fan, None);
          observedAt = tr_hardwareSampledAt point;
          fresh = (im_rpm fan \<noteq> None \<and> new_reading observedAt lastAt)
      in (target\<lparr>xf_rpm := push_if fresh (nullish observedAt (iso point)) (nullish (im_rpm fan) 0) (xf_rpm target)\<rparr>,
          if fresh then note_reading observedAt lastAt else lastAt)))"

definition buildFanMetricSeries :: "TimeSeriesRecord list \<Rightarrow> DeviceMetricConfigValue \<Rightarrow> FanMetricSeries list" where
  "buildFanMetricSeries points config =
     map fst (map_values (fold (group_step item_id add_fan) (at_points (\<lambda>p. fanInstancesAtPoint p config) points) []))"

text \<open>The separator between hardware and sensor name: a middle dot between blanks, in UTF-8.\<close>

definition name_separator :: string where
  "name_separator = map char_of [32, 194, 183, 32 :: nat]"

definition sensor_name :: "TemperatureSensorReading \<Rightarrow> string" where
  "sensor_name sensor =
     (let joined = (if truthy (ts_hardware sensor)
            then the (ts_hardware sensor) @ (if ts_rawName sensor \<noteq> [] then name_separator @ ts_rawName sensor else [])
            else ts_rawName sensor)
      in if truthy (ts_displayName sensor) then the (ts_displayName sensor)
         else if joined \<noteq> [] then joined else ts_rawName sensor)"

definition fresh_sensor :: "TemperatureSensorReading \<Rightarrow> TemperatureMetricSeries" where
  "fresh_sensor sensor = \<lparr>xt_id = ts_id sensor, xt_name = sensor_name sensor, xt_rawName = ts_rawName sensor,
     xt_source = ts_source sensor, xt_backend = ts_backend sensor, xt_hardware = ts_hardware sensor, xt_role = ts_role sensor,
     xt_confidence = ts_confidence sensor, xt_status = ts_status sensor, xt_currentC = [],
     xt_highC = None, xt_criticalC = None, xt_emergencyC = None\<rparr>"

definition add_sensor :: "(TemperatureMetricSeries \<times> string option) option \<Rightarrow> TimeSeriesRecord \<times> TemperatureSensorReading \<Rightarrow> TemperatureMetricSeries \<times> string option" where
  "add_sensor g = (\<lambda>(point, sensor).
     (let (target, lastAt) = nullish g (fresh_sensor sensor, None);
          current = nullish (ts_currentC sensor) 0;
          observedAt = opt_or (ts_observedAt sensor) (tr_hardwareSampledAt point);
          fresh = (ts_status sensor = SensorValid \<and> current > 0 \<and> new_reading observedAt lastAt)
      in (target\<lparr>xt_name := sensor_name sensor, xt_status := ts_status sensor, xt_confidence := ts_confidence sensor,
            xt_highC := opt_or (ts_highC sensor) (xt_highC target),
            xt_criticalC := opt_or (ts_criticalC sensor) (xt_criticalC target),
            xt_emergencyC := opt_or (ts_emergencyC sensor) (xt_emergencyC target),
            xt_currentC := push_if fresh (nullish observedAt (iso point)) current (xt_currentC target)\<rparr>,
          if fresh then note_reading observedAt lastAt else lastAt)))"

definition buildTemperatureMetricSeries :: "TimeSeriesRecord list \<Rightarrow> DeviceMetricConfigValue \<Rightarrow> TemperatureMetricSeries list" where
  "buildTemperatureMetricSeries points config =
     (if TemperatureSources \<notin> set (cf_enabledMetrics config) then []
      else map fst (map_values (fold (group_step (\<lambda>x. ts_id (snd x)) add_sensor)
             (at_points (details_list rd_temperatureSensors) points) [])))"

subsection \<open>The gate\<close>

definition point_quality :: "DeviceMetricKey \<Rightarrow> TimeSeriesRecord \<Rightarrow> MetricQuality option" where
  "point_quality key point = map_get (detail_quality point) key"

definition valid_observation :: "DeviceMetricKey \<Rightarrow> TimeSeriesRecord \<Rightarrow> string option" where
  "valid_observation key point =
     (case point_quality key point of
        Some q \<Rightarrow> if truthy (mq_observedAt q) \<and> (mq_state q = Direct \<or> mq_state q = Derived) then mq_observedAt q else None
      | None \<Rightarrow> None)"

definition point_gapped :: "DeviceMetricKey \<Rightarrow> TimeSeriesRecord \<Rightarrow> bool" where
  "point_gapped key point \<longleftrightarrow> key \<in> set (detail_unavailable point)
     \<or> (case point_quality key point of None \<Rightarrow> False | Some q \<Rightarrow> missing_state (mq_state q))"

definition gap_times :: "DeviceMetricKey \<Rightarrow> TimeSeriesRecord list \<Rightarrow> string set" where
  "gap_times key points =
     (let validObservations = set (somes (map (valid_observation key) points))
      in \<Union> (set (map (\<lambda>point. if point_gapped key point
            then insert (iso point)
              (case Option.bind (point_quality key point) mq_observedAt of
                 Some observed \<Rightarrow> if observed \<noteq> [] \<and> observed \<notin> validObservations then {observed} else {}
               | None \<Rightarrow> {})
            else {}) points)))"

definition gate :: "TimeSeriesRecord list \<Rightarrow> DeviceMetricKey \<Rightarrow> SamplePoint list \<Rightarrow> SamplePoint list" where
  "gate points key samples = filter (\<lambda>s. sp_timestamp s \<notin> gap_times key points) samples"

subsection \<open>All series of a device\<close>

text \<open>\<open>point.gpus?.length ? point.gpus : point.recordedDetails?.gpus ?? []\<close>, read at one field.\<close>

definition column_or_details :: "(TimeSeriesRecord \<Rightarrow> InstanceMetricRecord list option) \<Rightarrow> (InstanceMetricRecord \<Rightarrow> num option)
    \<Rightarrow> (RecordedDetails \<Rightarrow> 'a list) \<Rightarrow> ('a \<Rightarrow> num) \<Rightarrow> TimeSeriesRecord \<Rightarrow> num list" where
  "column_or_details cols field details detail_field point =
     (if nullish (cols point) [] \<noteq> [] then map (\<lambda>i. nullish (field i) 0) (nullish (cols point) [])
      else map detail_field (details_list details point))"

definition gpu_memory_used :: "DeviceMetricConfigValue \<Rightarrow> TimeSeriesRecord \<Rightarrow> num option" where
  "gpu_memory_used config point =
     (if GpuMemory \<notin> set (cf_enabledMetrics config) then None
      else let values = filter (\<lambda>v. v > 0) (column_or_details tr_gpus im_memoryUsedBytes rd_gpus gp_memoryUsedBytes point)
           in if values \<noteq> [] then Some (sum_num values) else None)"

definition memory_used :: "TimeSeriesRecord \<Rightarrow> num option" where
  "memory_used point = (if tr_memoryUsedBytes point > 0 then Some (tr_memoryUsedBytes point)
     else map_option (\<lambda>d. me_usedBytes (rd_memory d)) (tr_recordedDetails point))"

definition disk_used :: "TimeSeriesRecord \<Rightarrow> num option" where
  "disk_used point = (if tr_diskUsedBytes point > 0 then Some (tr_diskUsedBytes point)
     else Some (sum_num (column_or_details tr_disks im_usedBytes rd_disks dk_usedBytes point)))"

definition when_enabled :: "DeviceMetricConfigValue \<Rightarrow> DeviceMetricKey \<Rightarrow> (RecordedDetails \<Rightarrow> num) \<Rightarrow> TimeSeriesRecord \<Rightarrow> num option" where
  "when_enabled config key f point =
     (if key \<in> set (cf_enabledMetrics config) then map_option f (tr_recordedDetails point) else Some 0)"

definition raw_series :: "TimeSeriesRecord list \<Rightarrow> DeviceMetricConfigValue \<Rightarrow> MetricSeries" where
  "raw_series points config = \<lparr>
     ms_cpuUsagePercent = map_plain tr_cpuUsagePercent points,
     ms_cpuFrequencyMHz = map_plain tr_cpuFrequencyMHz points,
     ms_cpuTemperatureC = map_temperature tr_cpuTemperatureC tr_cpuTemperatureSampledAt points,
     ms_gpuUsagePercent = map_plain tr_gpuUsagePercent points,
     ms_gpuEncodePercent = map_plain tr_gpuEncodePercent points,
     ms_gpuDecodePercent = map_plain tr_gpuDecodePercent points,
     ms_gpuFrequencyMHz = map_plain tr_gpuFrequencyMHz points,
     ms_gpuMemoryUsagePercent = map_plain tr_gpuMemoryUsagePercent points,
     ms_gpuMemoryUsedBytes = detailSeriesWithCarryForward points (gpu_memory_used config),
     ms_gpuTemperatureC = map_temperature tr_gpuTemperatureC tr_hardwareSampledAt points,
     ms_memoryUsagePercent = map_plain tr_memoryUsagePercent points,
     ms_swapUsagePercent = map_plain tr_swapUsagePercent points,
     ms_memoryUsedBytes = detailSeries points memory_used,
     ms_swapUsedBytes = map_plain tr_swapUsedBytes points,
     ms_memoryAvailableBytes = detailSeries points (when_enabled config MemoryAvailable (\<lambda>d. me_availableBytes (rd_memory d))),
     ms_memoryCachedBytes = detailSeries points (when_enabled config MemoryCached (\<lambda>d. me_cachedBytes (rd_memory d))),
     ms_memoryCommittedBytes = detailSeries points (when_enabled config MemoryCommitted (\<lambda>d. me_committedBytes (rd_memory d))),
     ms_memoryCommitLimitBytes = detailSeries points (when_enabled config MemoryCommitted (\<lambda>d. me_commitLimitBytes (rd_memory d))),
     ms_systemProcessCount = detailSeries points (when_enabled config SystemOverview (\<lambda>d. sy_processCount (rd_system d))),
     ms_systemThreadCount = detailSeries points (when_enabled config SystemOverview (\<lambda>d. sy_threadCount (rd_system d))),
     ms_systemHandleCount = detailSeries points (when_enabled config SystemOverview (\<lambda>d. sy_handleCount (rd_system d))),
     ms_diskUsagePercent = map_plain tr_diskUsagePercent points,
     ms_diskUsedBytes = detailSeries points disk_used,
     ms_diskReadBytesPerSec = map_plain tr_diskReadBytesPerSec points,
     ms_diskWriteBytesPerSec = map_plain tr_diskWriteBytesPerSec points,
     ms_networkRxBytesPerSec = map_plain tr_networkRxBytesPerSec points,
     ms_networkTxBytesPerSec = map_plain tr_networkTxBytesPerSec points,
     ms_trafficRxBytes = stamped points (normalizeTrafficSeries (map tr_trafficRxBytes points)),
     ms_trafficTxBytes = stamped points (normalizeTrafficSeries (map tr_trafficTxBytes points)),
     ms_cpus = buildCpuMetricSeries points config,
     ms_disks = buildDiskMetricSeries points config,
     ms_storagePools = buildStoragePoolMetricSeries points config,
     ms_networks = buildNetworkMetricSeries points config,
     ms_gpus = buildGpuMetricSeries points config,
     ms_fans = buildFanMetricSeries points config,
     ms_temperatureSensors = buildTemperatureMetricSeries points config\<rparr>"

text \<open>Points of clients that report quality but no memory budget for the GPU, or for any GPU.\<close>

definition no_budget :: "string \<Rightarrow> TimeSeriesRecord list \<Rightarrow> string set" where
  "no_budget gpu points = iso ` set (filter (\<lambda>point. case tr_recordedDetails point of
       None \<Rightarrow> False
     | Some d \<Rightarrow> rd_metricQuality d \<noteq> None
         \<and> (case List.find (\<lambda>e. gp_id e = gpu) (rd_gpus d) of None \<Rightarrow> True | Some e \<Rightarrow> gp_memoryTotalBytes e = 0)) points)"

definition no_gpu_budget :: "TimeSeriesRecord list \<Rightarrow> string set" where
  "no_gpu_budget points = iso ` set (filter (\<lambda>point. case tr_recordedDetails point of
       None \<Rightarrow> False
     | Some d \<Rightarrow> rd_metricQuality d \<noteq> None \<and> \<not> list_ex (\<lambda>e. gp_memoryTotalBytes e > 0) (rd_gpus d)) points)"

definition gate_cpu :: "TimeSeriesRecord list \<Rightarrow> CpuMetricSeries \<Rightarrow> CpuMetricSeries" where
  "gate_cpu points cpu = cpu\<lparr>xc_usagePercent := gate points CpuUsage (xc_usagePercent cpu),
     xc_frequencyMHz := gate points CpuFrequency (xc_frequencyMHz cpu),
     xc_temperatureC := gate points CpuTemperature (xc_temperatureC cpu)\<rparr>"

definition gate_gpu :: "TimeSeriesRecord list \<Rightarrow> GpuMetricSeries \<Rightarrow> GpuMetricSeries" where
  "gate_gpu points gpu = gpu\<lparr>xg_usagePercent := gate points GpuUsage (xg_usagePercent gpu),
     xg_encodePercent := gate points GpuEncode (xg_encodePercent gpu),
     xg_decodePercent := gate points GpuDecode (xg_decodePercent gpu),
     xg_frequencyMHz := gate points GpuFrequency (xg_frequencyMHz gpu),
     xg_memoryUsagePercent := filter (\<lambda>s. sp_timestamp s \<notin> no_budget (xg_id gpu) points)
       (gate points GpuMemory (xg_memoryUsagePercent gpu)),
     xg_memoryUsedBytes := gate points GpuMemory (xg_memoryUsedBytes gpu),
     xg_temperatureC := gate points GpuTemperature (xg_temperatureC gpu)\<rparr>"

definition gate_disk :: "TimeSeriesRecord list \<Rightarrow> DiskMetricSeries \<Rightarrow> DiskMetricSeries" where
  "gate_disk points disk = disk\<lparr>xd_readBytesPerSec := gate points DiskRead (xd_readBytesPerSec disk),
     xd_writeBytesPerSec := gate points DiskWrite (xd_writeBytesPerSec disk),
     xd_activePercent := gate points DiskActivity (xd_activePercent disk)\<rparr>"

definition gate_pool :: "TimeSeriesRecord list \<Rightarrow> StoragePoolMetricSeries \<Rightarrow> StoragePoolMetricSeries" where
  "gate_pool points pool = pool\<lparr>xp_totalBytes := gate points StoragePools (xp_totalBytes pool),
     xp_usedBytes := gate points StoragePools (xp_usedBytes pool),
     xp_availableBytes := gate points StoragePools (xp_availableBytes pool),
     xp_usagePercent := gate points StoragePools (xp_usagePercent pool)\<rparr>"

definition gate_network :: "TimeSeriesRecord list \<Rightarrow> NetworkMetricSeries \<Rightarrow> NetworkMetricSeries" where
  "gate_network points network = network\<lparr>xn_rxBytesPerSec := gate points NetworkRxRate (xn_rxBytesPerSec network),
     xn_txBytesPerSec := gate points NetworkTxRate (xn_txBytesPerSec network),
     xn_trafficRxBytes := gate points NetworkTraffic (xn_trafficRxBytes network),
     xn_trafficTxBytes := gate points NetworkTraffic (xn_trafficTxBytes network)\<rparr>"

definition gate_fan :: "TimeSeriesRecord list \<Rightarrow> FanMetricSeries \<Rightarrow> FanMetricSeries" where
  "gate_fan points fan = fan\<lparr>xf_rpm := gate points FanRpm (xf_rpm fan)\<rparr>"


text \<open>The table of scalar fields and their metric keys.\<close>

definition metric_fields :: "((MetricSeries \<Rightarrow> SamplePoint list) \<times> DeviceMetricKey) list" where
  "metric_fields = [
     (ms_cpuUsagePercent, CpuUsage), (ms_cpuFrequencyMHz, CpuFrequency), (ms_cpuTemperatureC, CpuTemperature),
     (ms_gpuUsagePercent, GpuUsage), (ms_gpuEncodePercent, GpuEncode), (ms_gpuDecodePercent, GpuDecode),
     (ms_gpuFrequencyMHz, GpuFrequency), (ms_gpuMemoryUsagePercent, GpuMemory), (ms_gpuMemoryUsedBytes, GpuMemory),
     (ms_gpuTemperatureC, GpuTemperature), (ms_memoryUsagePercent, MemoryUsage), (ms_memoryUsedBytes, MemoryUsage),
     (ms_swapUsagePercent, SwapUsage), (ms_swapUsedBytes, SwapUsage), (ms_memoryAvailableBytes, MemoryAvailable),
     (ms_memoryCachedBytes, MemoryCached), (ms_memoryCommittedBytes, MemoryCommitted),
     (ms_memoryCommitLimitBytes, MemoryCommitted), (ms_systemProcessCount, SystemOverview),
     (ms_systemThreadCount, SystemOverview), (ms_systemHandleCount, SystemOverview), (ms_diskUsagePercent, DiskUsage),
     (ms_diskUsedBytes, DiskUsage), (ms_diskReadBytesPerSec, DiskRead), (ms_diskWriteBytesPerSec, DiskWrite),
     (ms_networkRxBytesPerSec, NetworkRxRate), (ms_networkTxBytesPerSec, NetworkTxRate),
     (ms_trafficRxBytes, NetworkTraffic), (ms_trafficTxBytes, NetworkTraffic)]"

definition gate_scalars :: "TimeSeriesRecord list \<Rightarrow> MetricSeries \<Rightarrow> MetricSeries" where
  "gate_scalars points s = s\<lparr>
     ms_cpuUsagePercent := gate points CpuUsage (ms_cpuUsagePercent s),
     ms_cpuFrequencyMHz := gate points CpuFrequency (ms_cpuFrequencyMHz s),
     ms_cpuTemperatureC := gate points CpuTemperature (ms_cpuTemperatureC s),
     ms_gpuUsagePercent := gate points GpuUsage (ms_gpuUsagePercent s),
     ms_gpuEncodePercent := gate points GpuEncode (ms_gpuEncodePercent s),
     ms_gpuDecodePercent := gate points GpuDecode (ms_gpuDecodePercent s),
     ms_gpuFrequencyMHz := gate points GpuFrequency (ms_gpuFrequencyMHz s),
     ms_gpuMemoryUsagePercent := gate points GpuMemory (ms_gpuMemoryUsagePercent s),
     ms_gpuMemoryUsedBytes := gate points GpuMemory (ms_gpuMemoryUsedBytes s),
     ms_gpuTemperatureC := gate points GpuTemperature (ms_gpuTemperatureC s),
     ms_memoryUsagePercent := gate points MemoryUsage (ms_memoryUsagePercent s),
     ms_swapUsagePercent := gate points SwapUsage (ms_swapUsagePercent s),
     ms_memoryUsedBytes := gate points MemoryUsage (ms_memoryUsedBytes s),
     ms_swapUsedBytes := gate points SwapUsage (ms_swapUsedBytes s),
     ms_memoryAvailableBytes := gate points MemoryAvailable (ms_memoryAvailableBytes s),
     ms_memoryCachedBytes := gate points MemoryCached (ms_memoryCachedBytes s),
     ms_memoryCommittedBytes := gate points MemoryCommitted (ms_memoryCommittedBytes s),
     ms_memoryCommitLimitBytes := gate points MemoryCommitted (ms_memoryCommitLimitBytes s),
     ms_systemProcessCount := gate points SystemOverview (ms_systemProcessCount s),
     ms_systemThreadCount := gate points SystemOverview (ms_systemThreadCount s),
     ms_systemHandleCount := gate points SystemOverview (ms_systemHandleCount s),
     ms_diskUsagePercent := gate points DiskUsage (ms_diskUsagePercent s),
     ms_diskUsedBytes := gate points DiskUsage (ms_diskUsedBytes s),
     ms_diskReadBytesPerSec := gate points DiskRead (ms_diskReadBytesPerSec s),
     ms_diskWriteBytesPerSec := gate points DiskWrite (ms_diskWriteBytesPerSec s),
     ms_networkRxBytesPerSec := gate points NetworkRxRate (ms_networkRxBytesPerSec s),
     ms_networkTxBytesPerSec := gate points NetworkTxRate (ms_networkTxBytesPerSec s),
     ms_trafficRxBytes := gate points NetworkTraffic (ms_trafficRxBytes s),
     ms_trafficTxBytes := gate points NetworkTraffic (ms_trafficTxBytes s)\<rparr>"

definition gate_instances :: "TimeSeriesRecord list \<Rightarrow> MetricSeries \<Rightarrow> MetricSeries" where
  "gate_instances points s = s\<lparr>
     ms_cpus := map (gate_cpu points) (ms_cpus s),
     ms_gpus := map (gate_gpu points) (ms_gpus s),
     ms_gpuMemoryUsagePercent := filter (\<lambda>x. sp_timestamp x \<notin> no_gpu_budget points) (ms_gpuMemoryUsagePercent s),
     ms_disks := map (gate_disk points) (ms_disks s),
     ms_storagePools := map (gate_pool points) (ms_storagePools s),
     ms_networks := map (gate_network points) (ms_networks s),
     ms_fans := map (gate_fan points) (ms_fans s)\<rparr>"

definition timeSeriesToMetricSeries :: "TimeSeriesRecord list \<Rightarrow> DeviceMetricConfigValue \<Rightarrow> MetricSeries" where
  "timeSeriesToMetricSeries points config = gate_instances points (gate_scalars points (raw_series points config))"


subsection \<open>Facts: traffic baselines\<close>

lemma length_normalize_from [simp]: "length (normalize_from b p vs) = length vs"
  by (induction vs arbitrary: b p) (simp_all add: Let_def)

lemma length_normalizeTrafficSeries [simp]: "length (normalizeTrafficSeries vs) = length vs"
  by (simp add: normalizeTrafficSeries_def split: list.splits)

definition traffic_reset :: "num \<Rightarrow> num \<Rightarrow> bool" where
  "traffic_reset previous current \<longleftrightarrow> current < previous \<or> current - previous > 50000000"

lemma normalize_from_step:
  assumes "b \<le> p" "Suc i < length vs" "vs ! 0 = p"
  shows "normalize_from b p vs ! Suc i =
    (if traffic_reset (vs ! i) (vs ! Suc i) then 0 else normalize_from b p vs ! i + (vs ! Suc i - vs ! i))"
  using assms
proof (induction vs arbitrary: b p i)
  case (Cons v vs)
  then obtain w ws where vs: "vs = w # ws" by (cases vs) auto
  show ?case
  proof (cases i)
    case 0
    then show ?thesis using Cons.prems by (auto simp: vs traffic_reset_def Let_def)
  next
    case (Suc j)
    define b' where "b' = (if traffic_reset v w then w else b)"
    have unfolded: "normalize_from b v (w # ws) = normalize_from b' w (w # ws)"
      by (auto simp: b'_def traffic_reset_def Let_def)
    have "b' \<le> w"
      using Cons.prems by (auto simp: b'_def traffic_reset_def)
    then have "normalize_from b' w vs ! Suc j =
        (if traffic_reset (vs ! j) (vs ! Suc j) then 0 else normalize_from b' w vs ! j + (vs ! Suc j - vs ! j))"
      using Cons.prems(2) by (intro Cons.IH) (simp_all add: Suc vs)
    moreover have "normalize_from b p (v # vs) = max 0 (v - b) # normalize_from b v vs"
      using Cons.prems by simp
    ultimately show ?thesis
      using unfolded by (simp add: Suc vs)
  qed
qed simp

lemma normalizeTrafficSeries_step:
  assumes "Suc i < length vs"
  shows "normalizeTrafficSeries vs ! Suc i =
    (if traffic_reset (vs ! i) (vs ! Suc i) then 0 else normalizeTrafficSeries vs ! i + (vs ! Suc i - vs ! i))"
  using assms normalize_from_step [of "vs ! 0" "vs ! 0" i vs]
  by (cases vs) (simp_all add: normalizeTrafficSeries_def)

lemma normalize_from_nonneg: "x \<in> set (normalize_from b p vs) \<Longrightarrow> 0 \<le> x"
  by (induction vs arbitrary: b p) (auto simp: Let_def)

lemma normalizeTrafficSeries_nonneg: "x \<in> set (normalizeTrafficSeries vs) \<Longrightarrow> 0 \<le> x"
  by (auto simp: normalizeTrafficSeries_def split: list.splits intro: normalize_from_nonneg)

text \<open>
  The traffic chart starts at zero, has one value per reading, is never negative, and from one reading to
  the next grows by exactly the counter's increase, except that it restarts at zero where the counter goes back
  or jumps by more than 50 MB.
\<close>

theorem traffic_chart_steps:
  "length (normalizeTrafficSeries vs) = length vs \<and>
   (\<forall>x. x \<in> set (normalizeTrafficSeries vs) \<longrightarrow> 0 \<le> x) \<and>
   (vs \<noteq> [] \<longrightarrow> normalizeTrafficSeries vs ! 0 = 0) \<and>
   (\<forall>i. Suc i < length vs \<longrightarrow> normalizeTrafficSeries vs ! Suc i =
      (if vs ! Suc i < vs ! i \<or> vs ! Suc i - vs ! i > 50000000 then 0
       else normalizeTrafficSeries vs ! i + (vs ! Suc i - vs ! i)))"
proof (intro conjI allI impI)
  show "vs \<noteq> [] \<Longrightarrow> normalizeTrafficSeries vs ! 0 = 0"
    by (cases vs) (simp_all add: normalizeTrafficSeries_def)
qed (simp_all add: normalizeTrafficSeries_nonneg normalizeTrafficSeries_step traffic_reset_def)

theorem traffic_chart_steps_witness:
  "normalizeTrafficSeries [7, 9] ! 1 = 2 \<and> normalizeTrafficSeries [7, 9] ! 0 = 0"
proof -
  have "Suc 0 < length [7, 9 :: num]" by simp
  then have "normalizeTrafficSeries [7, 9] ! Suc 0 = normalizeTrafficSeries [7, 9] ! 0 + 2"
    "normalizeTrafficSeries [7, 9] ! 0 = 0"
    using traffic_chart_steps [of "[7, 9]"] by fastforce+
  then show ?thesis by simp
qed

subsection \<open>Facts: the series of each instance\<close>

lemma series_ids:
  "xc_id (fst (add_cpu g x)) = (case g of None \<Rightarrow> item_id x | Some w \<Rightarrow> xc_id (fst w))"
  "xd_id (add_disk d x) = (case d of None \<Rightarrow> item_id x | Some w \<Rightarrow> xd_id w)"
  "xp_id (add_pool q y) = (case q of None \<Rightarrow> pl_id (snd y) | Some w \<Rightarrow> xp_id w)"
  "xn_id (keep_network n x) = (case n of None \<Rightarrow> item_id x | Some w \<Rightarrow> xn_id w)"
  "xg_id (fst (add_gpu h x)) = (case h of None \<Rightarrow> item_id x | Some w \<Rightarrow> xg_id (fst w))"
  "xf_id (fst (add_fan f x)) = (case f of None \<Rightarrow> item_id x | Some w \<Rightarrow> xf_id (fst w))"
  "xt_id (fst (add_sensor t z)) = (case t of None \<Rightarrow> ts_id (snd z) | Some w \<Rightarrow> xt_id (fst w))"
  by (simp add: add_cpu_def fresh_cpu_def add_disk_def fresh_disk_def add_pool_def fresh_pool_def keep_network_def
      fresh_network_def add_gpu_def fresh_gpu_def add_fan_def fresh_fan_def add_sensor_def fresh_sensor_def
      nullish_def case_prod_beta Let_def split: option.split)+

interpretation cpu_series: grouping item_id add_cpu "\<lambda>g. xc_id (fst g)"
  by unfold_locales (simp add: series_ids split: option.split)

interpretation disk_series: grouping item_id add_disk xd_id
  by unfold_locales (simp add: series_ids split: option.split)

interpretation pool_series: grouping "\<lambda>x. pl_id (snd x)" add_pool xp_id
  by unfold_locales (simp add: series_ids split: option.split)

interpretation network_series: grouping item_id keep_network xn_id
  by unfold_locales (simp add: series_ids split: option.split)

interpretation gpu_series: grouping item_id add_gpu "\<lambda>g. xg_id (fst g)"
  by unfold_locales (simp add: series_ids split: option.split)

interpretation fan_series: grouping item_id add_fan "\<lambda>g. xf_id (fst g)"
  by unfold_locales (simp add: series_ids split: option.split)

interpretation temperature_series: grouping "\<lambda>x. ts_id (snd x)" add_sensor "\<lambda>g. xt_id (fst g)"
  by unfold_locales (simp add: series_ids split: option.split)

subsection \<open>Facts: which instances are charted\<close>

lemma set_at_points: "(p, i) \<in> set (at_points f points) \<longleftrightarrow> p \<in> set points \<and> i \<in> set (f p)"
  by (auto simp: at_points_def)

lemmas group_ids = cpu_series.group_idents [unfolded map_map comp_def] disk_series.group_idents [unfolded map_map comp_def]
  pool_series.group_idents [unfolded map_map comp_def] gpu_series.group_idents [unfolded map_map comp_def]
  fan_series.group_idents [unfolded map_map comp_def] temperature_series.group_idents [unfolded map_map comp_def]

lemma series_id_lists:
  "map xc_id (buildCpuMetricSeries points config) = js_uniq (map item_id (at_points (\<lambda>p. cpuInstancesAtPoint p config) points))"
  "map xd_id (buildDiskMetricSeries points config) = js_uniq (map item_id (at_points (\<lambda>p. diskInstancesAtPoint p config) points))"
  "map xn_id (buildNetworkMetricSeries points config) = js_uniq (map item_id (at_points (\<lambda>p. networkInstancesAtPoint p config) points))"
  "map xg_id (buildGpuMetricSeries points config) = js_uniq (map item_id (at_points (\<lambda>p. gpuInstancesAtPoint p config) points))"
  "map xf_id (buildFanMetricSeries points config) = js_uniq (map item_id (at_points (\<lambda>p. fanInstancesAtPoint p config) points))"
proof -
  have filled: "xn_id \<circ> fill_network points config = xn_id"
    by (simp add: fun_eq_iff fill_network_def)
  show "map xn_id (buildNetworkMetricSeries points config) = js_uniq (map item_id (at_points (\<lambda>p. networkInstancesAtPoint p config) points))"
    using network_series.group_idents [of "at_points (\<lambda>p. networkInstancesAtPoint p config) points"]
    unfolding buildNetworkMetricSeries_def by (simp only: map_map [of xn_id "fill_network points config"] filled)
qed (simp_all only: group_ids buildCpuMetricSeries_def buildDiskMetricSeries_def buildGpuMetricSeries_def buildFanMetricSeries_def
      map_map comp_def)

lemma sensor_series_ids:
  "map xp_id (buildStoragePoolMetricSeries points config) =
     (if StoragePools \<in> set (cf_enabledMetrics config)
      then js_uniq (map (\<lambda>x. pl_id (snd x)) (at_points (details_list rd_storagePools) points)) else [])"
  "map xt_id (buildTemperatureMetricSeries points config) =
     (if TemperatureSources \<in> set (cf_enabledMetrics config)
      then js_uniq (map (\<lambda>x. ts_id (snd x)) (at_points (details_list rd_temperatureSensors) points)) else [])"
  by (simp_all add: group_ids buildStoragePoolMetricSeries_def buildTemperatureMetricSeries_def comp_def)

lemma gate_keeps_ids [simp]:
  "xc_id (gate_cpu points c) = xc_id c" "xg_id (gate_gpu points g) = xg_id g" "xd_id (gate_disk points d) = xd_id d"
  "xp_id (gate_pool points p) = xp_id p" "xn_id (gate_network points n) = xn_id n" "xf_id (gate_fan points f) = xf_id f"
  by (simp_all add: gate_cpu_def gate_gpu_def gate_disk_def gate_pool_def gate_network_def gate_fan_def)

lemma charted_ids:
  "map xc_id (ms_cpus (timeSeriesToMetricSeries points config)) = map xc_id (buildCpuMetricSeries points config)"
  "map xd_id (ms_disks (timeSeriesToMetricSeries points config)) = map xd_id (buildDiskMetricSeries points config)"
  "map xp_id (ms_storagePools (timeSeriesToMetricSeries points config)) = map xp_id (buildStoragePoolMetricSeries points config)"
  "map xn_id (ms_networks (timeSeriesToMetricSeries points config)) = map xn_id (buildNetworkMetricSeries points config)"
  "map xg_id (ms_gpus (timeSeriesToMetricSeries points config)) = map xg_id (buildGpuMetricSeries points config)"
  "map xf_id (ms_fans (timeSeriesToMetricSeries points config)) = map xf_id (buildFanMetricSeries points config)"
  "map xt_id (ms_temperatureSensors (timeSeriesToMetricSeries points config)) = map xt_id (buildTemperatureMetricSeries points config)"
  by (simp_all add: timeSeriesToMetricSeries_def gate_instances_def gate_scalars_def raw_series_def comp_def)

lemma disk_with_capacity_id [simp]: "im_id (disk_with_capacity ds d) = im_id d"
  by (simp add: disk_with_capacity_def split: option.split)

lemma instances_enabled:
  "i \<in> set (cpuInstancesAtPoint p config) \<Longrightarrow> isInstanceEnabled config Cpu (im_id i)"
  "i \<in> set (diskInstancesAtPoint p config) \<Longrightarrow> isInstanceEnabled config Disk (im_id i)"
  "i \<in> set (networkInstancesAtPoint p config) \<Longrightarrow> isInstanceEnabled config Network (im_id i)"
  "i \<in> set (gpuInstancesAtPoint p config) \<Longrightarrow> isInstanceEnabled config Gpu (im_id i)"
  "i \<in> set (fanInstancesAtPoint p config) \<Longrightarrow> isInstanceEnabled config Fan (im_id i)"
  by (auto simp: cpuInstancesAtPoint_def diskInstancesAtPoint_def networkInstancesAtPoint_def gpuInstancesAtPoint_def
      fanInstancesAtPoint_def Let_def)

lemma ids_enabled:
  assumes "map ident xs = js_uniq (map item_id (at_points f points))"
    "\<And>p i. i \<in> set (f p) \<Longrightarrow> isInstanceEnabled config block (im_id i)"
  shows "distinct (map ident xs) \<and> (\<forall>x \<in> set xs. isInstanceEnabled config block (ident x))"
proof -
  have "ident x \<in> set (map item_id (at_points f points))" if "x \<in> set xs" for x
    using that assms(1) by (metis image_eqI list.set_map set_js_uniq)
  then show ?thesis
    using assms distinct_js_uniq by (fastforce simp: set_at_points)
qed

text \<open>
  The charts list every instance once, and only instances that the device's configuration enables; storage
  pools and temperature sensors are charted only when their metric is enabled.
\<close>

theorem charts_list_enabled_instances:
  "let s = timeSeriesToMetricSeries points config in
     (distinct (map xc_id (ms_cpus s)) \<and> (\<forall>c \<in> set (ms_cpus s). isInstanceEnabled config Cpu (xc_id c))) \<and>
     (distinct (map xd_id (ms_disks s)) \<and> (\<forall>d \<in> set (ms_disks s). isInstanceEnabled config Disk (xd_id d))) \<and>
     (distinct (map xn_id (ms_networks s)) \<and> (\<forall>n \<in> set (ms_networks s). isInstanceEnabled config Network (xn_id n))) \<and>
     (distinct (map xg_id (ms_gpus s)) \<and> (\<forall>g \<in> set (ms_gpus s). isInstanceEnabled config Gpu (xg_id g))) \<and>
     (distinct (map xf_id (ms_fans s)) \<and> (\<forall>f \<in> set (ms_fans s). isInstanceEnabled config Fan (xf_id f))) \<and>
     (distinct (map xp_id (ms_storagePools s)) \<and> (ms_storagePools s \<noteq> [] \<longrightarrow> StoragePools \<in> set (cf_enabledMetrics config))) \<and>
     (distinct (map xt_id (ms_temperatureSensors s)) \<and> (ms_temperatureSensors s \<noteq> [] \<longrightarrow> TemperatureSources \<in> set (cf_enabledMetrics config)))"
proof -
  define s where "s = timeSeriesToMetricSeries points config"
  note ids = charted_ids [of points config, folded s_def, unfolded series_id_lists]
  have c1: "distinct (map xc_id (ms_cpus s)) \<and> (\<forall>c \<in> set (ms_cpus s). isInstanceEnabled config Cpu (xc_id c))"
    by (rule ids_enabled [where f = "\<lambda>p. cpuInstancesAtPoint p config", OF ids(1) instances_enabled(1)])
  have c2: "distinct (map xd_id (ms_disks s)) \<and> (\<forall>d \<in> set (ms_disks s). isInstanceEnabled config Disk (xd_id d))"
    by (rule ids_enabled [where f = "\<lambda>p. diskInstancesAtPoint p config", OF ids(2) instances_enabled(2)])
  have c3: "distinct (map xn_id (ms_networks s)) \<and> (\<forall>n \<in> set (ms_networks s). isInstanceEnabled config Network (xn_id n))"
    by (rule ids_enabled [where f = "\<lambda>p. networkInstancesAtPoint p config", OF ids(4) instances_enabled(3)])
  have c4: "distinct (map xg_id (ms_gpus s)) \<and> (\<forall>g \<in> set (ms_gpus s). isInstanceEnabled config Gpu (xg_id g))"
    by (rule ids_enabled [where f = "\<lambda>p. gpuInstancesAtPoint p config", OF ids(5) instances_enabled(4)])
  have c5: "distinct (map xf_id (ms_fans s)) \<and> (\<forall>f \<in> set (ms_fans s). isInstanceEnabled config Fan (xf_id f))"
    by (rule ids_enabled [where f = "\<lambda>p. fanInstancesAtPoint p config", OF ids(6) instances_enabled(5)])
  note pools = ids(3, 7) [unfolded sensor_series_ids]
  have c6: "distinct (map xp_id (ms_storagePools s)) \<and> (ms_storagePools s \<noteq> [] \<longrightarrow> StoragePools \<in> set (cf_enabledMetrics config))"
    using pools(1) distinct_js_uniq by (auto split: if_splits)
  have c7: "distinct (map xt_id (ms_temperatureSensors s)) \<and> (ms_temperatureSensors s \<noteq> [] \<longrightarrow> TemperatureSources \<in> set (cf_enabledMetrics config))"
    using pools(2) distinct_js_uniq by (auto split: if_splits)
  show ?thesis
    unfolding Let_def s_def [symmetric] using c1 c2 c3 c4 c5 c6 c7 by (intro conjI) simp_all
qed


lemma demo_record_networks:
  "map im_id (networkInstancesAtPoint (payload_record t (p\<lparr>pa_cpuUsagePercent := u\<rparr>) default_config) default_config)
     = map im_id (networkInstancesAtPoint (payload_record t p default_config) default_config)"
  "map im_id (networkInstancesAtPoint (payload_record t (demo_payload t') default_config) default_config) = [''eth0'', ''eth1'']"
proof -
  have "isInstanceEnabled default_config block i" for block i
    by (simp add: isInstanceEnabled_def default_config_def)
  then show "map im_id (networkInstancesAtPoint (payload_record t (demo_payload t') default_config) default_config) = [''eth0'', ''eth1'']"
    by (simp add: networkInstancesAtPoint_def payload_record_def payload_network_def demo_payload_def demo_network_def
        instance_base_def Let_def)
qed (simp add: networkInstancesAtPoint_def payload_record_def Let_def)

lemma demo_sample_networks:
  "map xn_id (buildNetworkMetricSeries demo_samples default_config) = [''eth0'', ''eth1'']"
  unfolding series_id_lists(3)
  by (simp add: demo_samples_def at_points_def comp_def demo_record_networks js_uniq_def)

theorem charts_list_enabled_instances_witness:
  "map xn_id (ms_networks (timeSeriesToMetricSeries demo_samples default_config)) = [''eth0'', ''eth1''] \<and>
   isInstanceEnabled default_config Network (xn_id (ms_networks (timeSeriesToMetricSeries demo_samples default_config) ! 0))"
proof -
  define s where "s = timeSeriesToMetricSeries demo_samples default_config"
  have ids: "map xn_id (ms_networks s) = [''eth0'', ''eth1'']"
    unfolding s_def charted_ids by (rule demo_sample_networks)
  then have "0 < length (ms_networks s)"
    by (metis length_greater_0_conv list.distinct(1) list.map_disc_iff)
  then have "ms_networks s ! 0 \<in> set (ms_networks s)"
    by (rule nth_mem)
  then show ?thesis
    using charts_list_enabled_instances [of demo_samples default_config, unfolded Let_def, folded s_def] ids
    unfolding s_def [symmetric] by blast
qed

subsection \<open>Facts: what the gate keeps\<close>

lemma gapped_in_gap_times: "p \<in> set points \<Longrightarrow> point_gapped key p \<Longrightarrow> iso p \<in> gap_times key points"
  unfolding gap_times_def Let_def by (auto intro!: bexI [of _ p])

lemma set_gate [simp]: "x \<in> set (gate points key samples) \<longleftrightarrow> x \<in> set samples \<and> sp_timestamp x \<notin> gap_times key points"
  by (auto simp: gate_def)

text \<open>
  The instants at which a metric is missing: the time of a bucket that marks it so, and the time of the observation which
  that bucket carries on, unless another bucket has the same observation as a good one.
\<close>

definition good_observation :: "DeviceMetricKey \<Rightarrow> TimeSeriesRecord list \<Rightarrow> string \<Rightarrow> bool" where
  "good_observation key points t \<longleftrightarrow> (\<exists>p \<in> set points. \<exists>q. point_quality key p = Some q \<and> mq_observedAt q = Some t
     \<and> (mq_state q = Direct \<or> mq_state q = Derived))"

definition expired_observation :: "DeviceMetricKey \<Rightarrow> TimeSeriesRecord list \<Rightarrow> TimeSeriesRecord \<Rightarrow> string \<Rightarrow> bool" where
  "expired_observation key points p t \<longleftrightarrow> t \<noteq> [] \<and> (\<exists>q. point_quality key p = Some q \<and> mq_observedAt q = Some t)
     \<and> \<not> good_observation key points t"

lemma expired_in_gap_times:
  assumes "p \<in> set points" "point_gapped key p" "expired_observation key points p t"
  shows "t \<in> gap_times key points"
proof -
  obtain q where q: "point_quality key p = Some q" "mq_observedAt q = Some t" "t \<noteq> []" "\<not> good_observation key points t"
    using assms(3) by (auto simp: expired_observation_def)
  have "valid_observation key p' \<noteq> Some t" if "p' \<in> set points" for p'
    using q(4) that by (auto simp: good_observation_def valid_observation_def split: option.splits)
  then have "t \<notin> set (somes (map (valid_observation key) points))"
    by (metis image_iff list.set_map set_somes)
  then show ?thesis
    using assms(1,2) q unfolding gap_times_def Let_def by (auto intro!: bexI [of _ p])
qed

text \<open>
  The charts the code gates, each with its metric: the charts of the device, and of its instances the usage, frequency and
  temperature of processors, all charts of graphics adapters, the rates and activity of disks, and all charts of storage
  pools, networks and fans.  The capacity and temperature charts of a disk and the charts of temperature sensors are not
  gated (\<open>disk_capacity_ungated\<close>).
\<close>

definition charted_cpu :: "CpuMetricSeries \<Rightarrow> (DeviceMetricKey \<times> SamplePoint list) list" where
  "charted_cpu c = [(CpuUsage, xc_usagePercent c), (CpuFrequency, xc_frequencyMHz c), (CpuTemperature, xc_temperatureC c)]"

definition charted_gpu :: "GpuMetricSeries \<Rightarrow> (DeviceMetricKey \<times> SamplePoint list) list" where
  "charted_gpu g = [(GpuUsage, xg_usagePercent g), (GpuEncode, xg_encodePercent g), (GpuDecode, xg_decodePercent g),
     (GpuFrequency, xg_frequencyMHz g), (GpuMemory, xg_memoryUsagePercent g), (GpuMemory, xg_memoryUsedBytes g),
     (GpuTemperature, xg_temperatureC g)]"

definition charted_disk :: "DiskMetricSeries \<Rightarrow> (DeviceMetricKey \<times> SamplePoint list) list" where
  "charted_disk d = [(DiskRead, xd_readBytesPerSec d), (DiskWrite, xd_writeBytesPerSec d), (DiskActivity, xd_activePercent d)]"

definition charted_pool :: "StoragePoolMetricSeries \<Rightarrow> (DeviceMetricKey \<times> SamplePoint list) list" where
  "charted_pool p = [(StoragePools, xp_totalBytes p), (StoragePools, xp_usedBytes p), (StoragePools, xp_availableBytes p),
     (StoragePools, xp_usagePercent p)]"

definition charted_network :: "NetworkMetricSeries \<Rightarrow> (DeviceMetricKey \<times> SamplePoint list) list" where
  "charted_network n = [(NetworkRxRate, xn_rxBytesPerSec n), (NetworkTxRate, xn_txBytesPerSec n),
     (NetworkTraffic, xn_trafficRxBytes n), (NetworkTraffic, xn_trafficTxBytes n)]"

definition charted :: "MetricSeries \<Rightarrow> (DeviceMetricKey \<times> SamplePoint list) list" where
  "charted s = map (\<lambda>(f, key). (key, f s)) metric_fields
     @ concat (map charted_cpu (ms_cpus s)) @ concat (map charted_gpu (ms_gpus s))
     @ concat (map charted_disk (ms_disks s)) @ concat (map charted_pool (ms_storagePools s))
     @ concat (map charted_network (ms_networks s)) @ map (\<lambda>f. (FanRpm, xf_rpm f)) (ms_fans s)"

lemma scalars_gated:
  assumes "(f, key) \<in> set metric_fields"
  shows "set (f (timeSeriesToMetricSeries points config)) \<subseteq> {x \<in> set (f (raw_series points config)). sp_timestamp x \<notin> gap_times key points}"
  using assms unfolding metric_fields_def set_simps insert_iff prod.inject empty_iff
  by (elim disjE conjE) (simp_all only: timeSeriesToMetricSeries_def gate_instances_def gate_scalars_def MetricSeries.simps set_gate set_filter, auto)

lemma instances_gated:
  assumes "x \<in> set samples"
  shows "(key, samples) \<in> set (charted_cpu (gate_cpu points c)) \<Longrightarrow> sp_timestamp x \<notin> gap_times key points"
    "(key, samples) \<in> set (charted_gpu (gate_gpu points g)) \<Longrightarrow> sp_timestamp x \<notin> gap_times key points"
    "(key, samples) \<in> set (charted_disk (gate_disk points d)) \<Longrightarrow> sp_timestamp x \<notin> gap_times key points"
    "(key, samples) \<in> set (charted_pool (gate_pool points p)) \<Longrightarrow> sp_timestamp x \<notin> gap_times key points"
    "(key, samples) \<in> set (charted_network (gate_network points n)) \<Longrightarrow> sp_timestamp x \<notin> gap_times key points"
    "samples = xf_rpm (gate_fan points f) \<Longrightarrow> sp_timestamp x \<notin> gap_times FanRpm points"
  using assms by (auto simp: charted_cpu_def gate_cpu_def charted_gpu_def gate_gpu_def charted_disk_def gate_disk_def
      charted_pool_def gate_pool_def charted_network_def gate_network_def gate_fan_def)

lemma charted_gated:
  assumes "(key, samples) \<in> set (charted (timeSeriesToMetricSeries points config))" "x \<in> set samples"
  shows "sp_timestamp x \<notin> gap_times key points"
proof -
  have parts: "ms_cpus (timeSeriesToMetricSeries points config) = map (gate_cpu points) (buildCpuMetricSeries points config)"
    "ms_gpus (timeSeriesToMetricSeries points config) = map (gate_gpu points) (buildGpuMetricSeries points config)"
    "ms_disks (timeSeriesToMetricSeries points config) = map (gate_disk points) (buildDiskMetricSeries points config)"
    "ms_storagePools (timeSeriesToMetricSeries points config) = map (gate_pool points) (buildStoragePoolMetricSeries points config)"
    "ms_networks (timeSeriesToMetricSeries points config) = map (gate_network points) (buildNetworkMetricSeries points config)"
    "ms_fans (timeSeriesToMetricSeries points config) = map (gate_fan points) (buildFanMetricSeries points config)"
    by (simp_all add: timeSeriesToMetricSeries_def gate_instances_def gate_scalars_def raw_series_def)
  show ?thesis
    using assms(1) unfolding charted_def parts set_append Un_iff
    using assms(2) by (elim disjE) (auto dest: instances_gated scalars_gated [THEN subsetD])
qed

text \<open>
  C22: a bucket in which a metric was unavailable, not applicable or stale is a gap in every chart of the device with that
  metric, and in the charts of its processors, graphics adapters, storage pools, networks and fans and the rates and
  activity of its disks: none shows an idle zero or a carried-forward value at that bucket's time, nor a sample at the time
  of the expired observation the bucket carries, unless another bucket has that observation as a good one.
\<close>

theorem gaps_stay_gaps:
  assumes "p \<in> set points" "point_gapped key p"
    "(key, samples) \<in> set (charted (timeSeriesToMetricSeries points config))" "x \<in> set samples"
  shows "sp_timestamp x \<noteq> toISOString (tr_timestamp p) \<and> \<not> expired_observation key points p (sp_timestamp x)"
  using charted_gated [OF assms(3,4)] gapped_in_gap_times [OF assms(1,2)] expired_in_gap_times [OF assms(1,2)]
  by fastforce

text \<open>The charts of a disk's capacity and temperature and of the temperature sensors are shown as built.\<close>

lemma disk_capacity_ungated:
  "map xd_usagePercent (ms_disks (timeSeriesToMetricSeries points config)) = map xd_usagePercent (buildDiskMetricSeries points config)"
  "map xd_usedBytes (ms_disks (timeSeriesToMetricSeries points config)) = map xd_usedBytes (buildDiskMetricSeries points config)"
  "map xd_totalBytes (ms_disks (timeSeriesToMetricSeries points config)) = map xd_totalBytes (buildDiskMetricSeries points config)"
  "map xd_temperatureC (ms_disks (timeSeriesToMetricSeries points config)) = map xd_temperatureC (buildDiskMetricSeries points config)"
  "ms_temperatureSensors (timeSeriesToMetricSeries points config) = buildTemperatureMetricSeries points config"
  by (simp_all add: timeSeriesToMetricSeries_def gate_instances_def gate_scalars_def raw_series_def gate_disk_def)


definition demo_gap :: TimeSeriesRecord where
  "demo_gap = payload_record 60000 ((demo_payload 60000)\<lparr>pa_cpuTemperatureSampledAt := Some ''earlier'',
     pa_metricQuality := Some [(CpuTemperature, \<lparr>mq_state = Stale, mq_source = None, mq_reason = None, mq_observedAt = Some ''earlier''\<rparr>)]\<rparr>)
     default_config"

lemma demo_gap_state:
  "point_quality CpuTemperature demo_gap = Some \<lparr>mq_state = Stale, mq_source = None, mq_reason = None, mq_observedAt = Some ''earlier''\<rparr>"
  "tr_cpuTemperatureSampledAt demo_gap = Some ''earlier''"
  by (simp_all add: point_quality_def detail_quality_def demo_gap_def payload_record_def payload_details_def Let_def)

theorem gaps_stay_gaps_witness:
  "let p = demo_gap\<lparr>tr_cpuTemperatureC := 60\<rparr>
   in sp_timestamp ` set (ms_cpuTemperatureC (raw_series [p] default_config)) = {''earlier''} \<and>
      ''earlier'' \<notin> sp_timestamp ` set (ms_cpuTemperatureC (timeSeriesToMetricSeries [p] default_config))"
proof -
  let ?p = "demo_gap\<lparr>tr_cpuTemperatureC := 60\<rparr>"
  have quality: "point_quality CpuTemperature ?p = point_quality CpuTemperature demo_gap"
    by (simp add: point_quality_def detail_quality_def)
  have gapped: "point_gapped CpuTemperature ?p"
    by (simp add: point_gapped_def quality demo_gap_state missing_state_def)
  have expired: "expired_observation CpuTemperature [?p] ?p ''earlier''"
    by (simp add: expired_observation_def good_observation_def quality demo_gap_state)
  have field: "(CpuTemperature, ms_cpuTemperatureC s) \<in> set (charted s)" for s
    by (simp add: charted_def metric_fields_def)
  have "ms_cpuTemperatureC (raw_series [?p] default_config) = [sample ''earlier'' 60]"
    by (simp add: raw_series_def map_temperature_def demo_gap_state)
  then show ?thesis
    using gaps_stay_gaps [OF _ gapped field, of "[?p]"] expired unfolding Let_def by auto
qed

subsection \<open>Facts: interfaces\<close>

lemma stamped_times: "length vs = length points \<Longrightarrow> map sp_timestamp (stamped points vs) = map iso points"
  by (rule nth_equalityI) (simp_all add: stamped_def)

lemma stamped_nth: "length vs = length points \<Longrightarrow> i < length points \<Longrightarrow> sp_value (stamped points vs ! i) = vs ! i"
  by (simp add: stamped_def)

lemma length_network_values [simp]: "length (network_values config f k points) = length points"
  by (simp add: network_values_def)

lemma find_absent: "k \<notin> key ` set xs \<Longrightarrow> List.find (\<lambda>x. key x = k) xs = None"
  by (auto simp: find_None_iff)

lemma find_rev_distinct:
  "distinct (map key xs) \<Longrightarrow> List.find (\<lambda>x. key x = k) (rev xs) = List.find (\<lambda>x. key x = k) xs"
proof (induction xs)
  case (Cons x xs)
  have append: "List.find P (ys @ [x]) = (case List.find P ys of None \<Rightarrow> if P x then Some x else None | Some y \<Rightarrow> Some y)" for P ys
    by (induction ys) simp_all
  have "List.find (\<lambda>x. key x = k) xs = None" if "key x = k"
    using Cons.prems that by (intro find_absent) simp
  then show ?case
    using Cons by (auto simp: append split: option.splits)
qed simp

text \<open>Looking every key up once visits every item once.\<close>

lemma sum_lookup:
  fixes f :: "'a \<Rightarrow> num"
  assumes "distinct (map key xs)" "distinct ks" "set (map key xs) \<subseteq> set ks"
  shows "sum_list (map (\<lambda>k. case List.find (\<lambda>x. key x = k) xs of None \<Rightarrow> 0 | Some x \<Rightarrow> f x) ks) = sum_list (map f xs)"
  using assms
proof (induction xs)
  case (Cons x xs)
  let ?g = "\<lambda>xs k. case List.find (\<lambda>x. key x = k) xs of None \<Rightarrow> 0 | Some x \<Rightarrow> f x"
  have absent: "List.find (\<lambda>y. key y = key x) xs = None"
    using Cons.prems(1) by (intro find_absent) simp
  have "?g (x # xs) k = (if k = key x then f x else 0) + ?g xs k" for k
    using absent by auto
  then have "sum_list (map (?g (x # xs)) ks) = sum_list (map (\<lambda>k. if k = key x then f x else 0) ks) + sum_list (map (?g xs) ks)"
    by (simp add: sum_list_addf)
  also have "sum_list (map (\<lambda>k. if k = key x then f x else 0) ks) = f x"
    using Cons.prems by (simp add: sum_list_distinct_conv_sum_set)
  finally show ?case
    using Cons by simp
qed simp

lemma network_chart_value:
  assumes "n \<in> set (buildNetworkMetricSeries points config)"
  shows "xn_rxBytesPerSec n = stamped points (network_values config im_rxBytesPerSec (xn_id n) points)"
    "xn_txBytesPerSec n = stamped points (network_values config im_txBytesPerSec (xn_id n) points)"
    "xn_trafficRxBytes n = stamped points (normalizeTrafficSeries (network_values config im_trafficRxBytes (xn_id n) points))"
    "xn_trafficTxBytes n = stamped points (normalizeTrafficSeries (network_values config im_trafficTxBytes (xn_id n) points))"
  using assms unfolding buildNetworkMetricSeries_def by (auto simp: fill_network_def)

lemma network_sum:
  assumes "\<forall>p \<in> set points. distinct (map im_id (networkInstancesAtPoint p config))" "i < length points"
  shows "sum_list (map (\<lambda>k. network_values config f k points ! i) (map xn_id (buildNetworkMetricSeries points config)))
    = sum_list (map (\<lambda>m. nullish (f m) 0) (networkInstancesAtPoint (points ! i) config))"
proof -
  let ?xs = "networkInstancesAtPoint (points ! i) config"
  let ?ks = "js_uniq (map item_id (at_points (\<lambda>p. networkInstancesAtPoint p config) points))"
  have mem: "points ! i \<in> set points" using assms(2) by simp
  then have d: "distinct (map im_id ?xs)" using assms(1) by blast
  have ks: "set (map im_id ?xs) \<subseteq> set ?ks"
    using mem by (auto simp: at_points_def image_iff) blast
  have "network_values config f k points ! i =
      (case List.find (\<lambda>x. im_id x = k) ?xs of None \<Rightarrow> 0 | Some x \<Rightarrow> nullish (f x) 0)" for k
    using assms(2) d by (simp add: network_values_def network_at_def find_rev_distinct split: option.split)
  then show ?thesis
    unfolding series_id_lists(3) using sum_lookup [OF d distinct_js_uniq ks, of "\<lambda>m. nullish (f m) 0"] by simp
qed

text \<open>
  Every charted interface has one rate and one traffic sample per record, stamped with the records' times, and
  at each record the receive (and transmit) rates of the charted interfaces add up to those of the enabled
  interfaces of that record, so an interface absent at a record is charted as idle and no rate is lost or counted twice.
\<close>

theorem network_charts_conserve:
  assumes "\<forall>p \<in> set points. distinct (map im_id (networkInstancesAtPoint p config))" "i < length points"
  shows "(\<forall>n \<in> set (buildNetworkMetricSeries points config).
       map sp_timestamp (xn_rxBytesPerSec n) = map (\<lambda>p. toISOString (tr_timestamp p)) points \<and>
       map sp_timestamp (xn_trafficRxBytes n) = map (\<lambda>p. toISOString (tr_timestamp p)) points) \<and>
    sum_list (map (\<lambda>n. sp_value (xn_rxBytesPerSec n ! i)) (buildNetworkMetricSeries points config))
      = sum_list (map (\<lambda>m. nullish (im_rxBytesPerSec m) 0) (networkInstancesAtPoint (points ! i) config)) \<and>
    sum_list (map (\<lambda>n. sp_value (xn_txBytesPerSec n ! i)) (buildNetworkMetricSeries points config))
      = sum_list (map (\<lambda>m. nullish (im_txBytesPerSec m) 0) (networkInstancesAtPoint (points ! i) config))"
proof (intro conjI ballI)
  show "sum_list (map (\<lambda>n. sp_value (xn_rxBytesPerSec n ! i)) (buildNetworkMetricSeries points config))
      = sum_list (map (\<lambda>m. nullish (im_rxBytesPerSec m) 0) (networkInstancesAtPoint (points ! i) config))"
    unfolding network_sum [OF assms, symmetric] map_map comp_def
    using assms(2) by (intro arg_cong [where f = sum_list] map_cong) (simp_all add: network_chart_value stamped_nth)
  show "sum_list (map (\<lambda>n. sp_value (xn_txBytesPerSec n ! i)) (buildNetworkMetricSeries points config))
      = sum_list (map (\<lambda>m. nullish (im_txBytesPerSec m) 0) (networkInstancesAtPoint (points ! i) config))"
    unfolding network_sum [OF assms, symmetric] map_map comp_def
    using assms(2) by (intro arg_cong [where f = sum_list] map_cong) (simp_all add: network_chart_value stamped_nth)
qed (simp_all add: network_chart_value stamped_times)

theorem network_charts_conserve_witness:
  "sum_list (map (\<lambda>n. sp_value (xn_rxBytesPerSec n ! 1)) (buildNetworkMetricSeries demo_samples default_config)) = 5"
proof -
  have "\<forall>p \<in> set demo_samples. distinct (map im_id (networkInstancesAtPoint p default_config))"
    by (simp add: demo_samples_def demo_record_networks)
  moreover have "1 < length demo_samples"
    by (simp add: demo_samples_def)
  moreover have "sum_list (map (\<lambda>m. nullish (im_rxBytesPerSec m) 0) (networkInstancesAtPoint (demo_samples ! 1) default_config)) = 5"
    by (simp add: demo_samples_def networkInstancesAtPoint_def payload_record_def payload_network_def demo_payload_def
        demo_network_def isInstanceEnabled_def default_config_def both_enabled_def getInstanceEnabledMetrics_def ALL_DEVICE_METRIC_KEYS_def
        instance_base_def Let_def)
  ultimately show ?thesis
    using network_charts_conserve [of demo_samples default_config 1] by simp
qed


text \<open>
  With \<open>memoryUsage\<close> disabled the stored record has zero used memory, but the chart falls back to the snapshot
  and shows it; the neighbouring charts of disabled memory metrics are zero.
\<close>

lemma disabled_memory_still_charted:
  defines "c \<equiv> default_config\<lparr>cf_enabledMetrics := []\<rparr>"
  defines "p \<equiv> payload_record 60000 (demo_payload 60000) c"
  shows "tr_memoryUsedBytes p = 0" "map sp_value (ms_memoryUsedBytes (raw_series [p] c)) = [2000]"
    "map sp_value (ms_memoryAvailableBytes (raw_series [p] c)) = [0]"
  by (simp_all add: raw_series_def detailSeries_def memory_used_def when_enabled_def p_def c_def payload_record_def
      payload_details_def demo_payload_def demo_memory_def Let_def)

end
