(* ===== verification/Overview.thy ===== *)
theory Overview
  imports Charts
begin

text \<open>
  The overview charts: \<open>apps/server/src/overview.ts\<close>.  \<open>projectOverviewRecord\<close> reduces a stored record to the five
  numbers of the overview, \<open>overviewToMetricSeries\<close> charts them, on minute or hour buckets for the longer windows.

  The facts: on unbucketed windows the overview is exactly the five corresponding charts of
  \<open>timeSeriesToMetricSeries\<close>; on bucketed windows there is at most one sample per bucket, in time order, on the
  bucket's boundary, carrying the last reading that fell into it.
\<close>

record OverviewSeries =
  os_cpuUsagePercent :: "SamplePoint list"
  os_memoryUsedBytes :: "SamplePoint list"
  os_diskUsedBytes :: "SamplePoint list"
  os_networkRxBytesPerSec :: "SamplePoint list"
  os_networkTxBytesPerSec :: "SamplePoint list"

definition projectOverviewRecord :: "TimeSeriesRecord \<Rightarrow> OverviewRecord" where
  "projectOverviewRecord point =
     \<lparr>ov_timestamp = tr_timestamp point,
      ov_cpuUsagePercent = tr_cpuUsagePercent point,
      ov_memoryUsedBytes = (if tr_memoryUsedBytes point > 0 then tr_memoryUsedBytes point
        else nullish (map_option (\<lambda>d. me_usedBytes (rd_memory d)) (tr_recordedDetails point)) 0),
      ov_diskUsedBytes = (if tr_diskUsedBytes point > 0 then tr_diskUsedBytes point
        else sum_num (column_or_details tr_disks im_usedBytes rd_disks dk_usedBytes point)),
      ov_networkRxBytesPerSec = tr_networkRxBytesPerSec point,
      ov_networkTxBytesPerSec = tr_networkTxBytesPerSec point,
      ov_metricQuality = Option.bind (tr_recordedDetails point) rd_metricQuality,
      ov_unavailableMetrics = Option.bind (tr_recordedDetails point) rd_unavailableMetrics\<rparr>"

definition overview_bucketMs :: "MetricWindow \<Rightarrow> int" where
  "overview_bucketMs window =
     (if window = W15m \<or> window = W1h \<or> window = W6h \<or> window = W24h \<or> window = W1d then 60000
      else if window = W7d \<or> window = W1w \<or> window = W30d \<or> window = W1mo \<or> window = W90d \<or> window = W1y then 3600000
      else 0)"

definition overview_quality :: "DeviceMetricKey \<Rightarrow> OverviewRecord \<Rightarrow> MetricQuality option" where
  "overview_quality key point = map_get (nullish (ov_metricQuality point) []) key"

definition overview_valid :: "DeviceMetricKey \<Rightarrow> OverviewRecord list \<Rightarrow> string set" where
  "overview_valid key points = set (somes (map (\<lambda>point.
     case overview_quality key point of
       Some q \<Rightarrow> if truthy (mq_observedAt q) \<and> (mq_state q = Direct \<or> mq_state q = Derived) then mq_observedAt q else None
     | None \<Rightarrow> None) points))"

definition overview_gap :: "DeviceMetricKey \<Rightarrow> string set \<Rightarrow> OverviewRecord \<Rightarrow> string set" where
  "overview_gap key valid point =
     (if key \<in> set (nullish (ov_unavailableMetrics point) [])
         \<or> (case overview_quality key point of
              None \<Rightarrow> False
            | Some q \<Rightarrow> mq_state q = Unavailable \<or> mq_state q = NotApplicable \<or> mq_state q = Stale)
      then insert (toISOString (ov_timestamp point))
        (case Option.bind (overview_quality key point) mq_observedAt of
           None \<Rightarrow> {}
         | Some observed \<Rightarrow> if observed \<noteq> [] \<and> observed \<notin> valid then {observed} else {})
      else {})"

definition overview_unavailable :: "DeviceMetricKey \<Rightarrow> OverviewRecord list \<Rightarrow> string set" where
  "overview_unavailable key points = \<Union> (set (map (overview_gap key (overview_valid key points)) points))"

definition overview_samples :: "(OverviewRecord \<Rightarrow> num) \<Rightarrow> DeviceMetricKey \<Rightarrow> OverviewRecord list \<Rightarrow> SamplePoint list" where
  "overview_samples field key points =
     filter (\<lambda>s. sp_timestamp s \<notin> overview_unavailable key points)
       (map (\<lambda>point. sample (toISOString (ov_timestamp point)) (field point)) points)"

text \<open>One pass of the alignment loop; \<open>None\<close> is the \<open>RangeError\<close> of an invalid time.\<close>

fun align_samples :: "int \<Rightarrow> SamplePoint list \<Rightarrow> (int, SamplePoint) jsmap \<Rightarrow> (int, SamplePoint) jsmap option" where
  "align_samples bucketMs [] aligned = Some aligned"
| "align_samples bucketMs (s # samples) aligned =
     (case Date_parse (sp_timestamp s) of
        None \<Rightarrow> None
      | Some t \<Rightarrow> (let time = t div bucketMs * bucketMs
                   in align_samples bucketMs samples (map_set time (sample (toISOString time) (sp_value s)) aligned)))"

definition overview_field :: "MetricWindow \<Rightarrow> (OverviewRecord \<Rightarrow> num) \<Rightarrow> DeviceMetricKey \<Rightarrow> OverviewRecord list \<Rightarrow> SamplePoint list option" where
  "overview_field window field key points =
     (let samples = overview_samples field key points
      in if overview_bucketMs window = 0 then Some samples
         else map_option (\<lambda>aligned. map snd (sort_by (\<lambda>e. fst e) aligned))
                (align_samples (overview_bucketMs window) samples []))"

definition overviewToMetricSeries :: "OverviewRecord list \<Rightarrow> MetricWindow \<Rightarrow> OverviewSeries option" where
  "overviewToMetricSeries points window =
     (case (overview_field window ov_cpuUsagePercent CpuUsage points, overview_field window ov_memoryUsedBytes MemoryUsage points,
            overview_field window ov_diskUsedBytes DiskUsage points, overview_field window ov_networkRxBytesPerSec NetworkRxRate points,
            overview_field window ov_networkTxBytesPerSec NetworkTxRate points) of
        (Some cpu, Some memory, Some disk, Some rx, Some tx) \<Rightarrow>
          Some \<lparr>os_cpuUsagePercent = cpu, os_memoryUsedBytes = memory, os_diskUsedBytes = disk,
                os_networkRxBytesPerSec = rx, os_networkTxBytesPerSec = tx\<rparr>
      | _ \<Rightarrow> None)"

subsection \<open>The overview is a projection of the full charts\<close>

lemma project_quality: "overview_quality key (projectOverviewRecord p) = point_quality key p"
  by (simp add: overview_quality_def projectOverviewRecord_def point_quality_def detail_quality_def)

lemma project_valid: "overview_valid key (map projectOverviewRecord points) = set (somes (map (valid_observation key) points))"
proof -
  have "valid_observation key = (\<lambda>p. case point_quality key p of None \<Rightarrow> None
      | Some q \<Rightarrow> if truthy (mq_observedAt q) \<and> (mq_state q = Direct \<or> mq_state q = Derived) then mq_observedAt q else None)"
    by (auto simp: valid_observation_def fun_eq_iff split: option.split)
  then show ?thesis
    by (simp only: overview_valid_def map_map comp_def project_quality)
qed

lemma project_gapped:
  "(key \<in> set (nullish (ov_unavailableMetrics (projectOverviewRecord p)) [])
     \<or> (case point_quality key p of None \<Rightarrow> False
        | Some q \<Rightarrow> mq_state q = Unavailable \<or> mq_state q = NotApplicable \<or> mq_state q = Stale)) = point_gapped key p"
  by (simp add: point_gapped_def projectOverviewRecord_def detail_unavailable_def missing_state_def split: option.split)

lemma project_time [simp]: "ov_timestamp (projectOverviewRecord p) = tr_timestamp p"
  by (simp add: projectOverviewRecord_def)

lemma project_unavailable: "overview_unavailable key (map projectOverviewRecord points) = gap_times key points"
  unfolding overview_unavailable_def gap_times_def project_valid Let_def map_map comp_def overview_gap_def
    project_quality project_gapped project_time ..

lemma project_samples:
  "overview_samples field key (map projectOverviewRecord points) =
     gate points key (map (\<lambda>p. sample (iso p) (field (projectOverviewRecord p))) points)"
  by (simp add: overview_samples_def gate_def project_unavailable comp_def)

text \<open>
  C23: for the short windows the overview of the projected records is exactly the five corresponding charts of the
  full conversion: the light-weight path never differs from the heavy one, in values, gaps or fallbacks.
\<close>

theorem overview_is_projection:
  assumes "window = W1m \<or> window = W5m"
  shows "overviewToMetricSeries (map projectOverviewRecord points) window =
    (let s = timeSeriesToMetricSeries points config
     in Some \<lparr>os_cpuUsagePercent = ms_cpuUsagePercent s, os_memoryUsedBytes = ms_memoryUsedBytes s,
          os_diskUsedBytes = ms_diskUsedBytes s, os_networkRxBytesPerSec = ms_networkRxBytesPerSec s,
          os_networkTxBytesPerSec = ms_networkTxBytesPerSec s\<rparr>)"
proof -
  have "overview_bucketMs window = 0"
    using assms by (auto simp: overview_bucketMs_def)
  moreover have "nullish (memory_used p) 0 = ov_memoryUsedBytes (projectOverviewRecord p)"
    "nullish (disk_used p) 0 = ov_diskUsedBytes (projectOverviewRecord p)"
    "tr_cpuUsagePercent p = ov_cpuUsagePercent (projectOverviewRecord p)"
    "tr_networkRxBytesPerSec p = ov_networkRxBytesPerSec (projectOverviewRecord p)"
    "tr_networkTxBytesPerSec p = ov_networkTxBytesPerSec (projectOverviewRecord p)" for p
    by (simp_all add: memory_used_def disk_used_def projectOverviewRecord_def)
  ultimately show ?thesis
    by (simp add: overviewToMetricSeries_def overview_field_def project_samples timeSeriesToMetricSeries_def
        gate_instances_def gate_scalars_def raw_series_def map_plain_def detailSeries_def Let_def)
qed

theorem overview_is_projection_witness:
  "overviewToMetricSeries (map projectOverviewRecord demo_samples) W5m =
    (let s = timeSeriesToMetricSeries demo_samples default_config
     in Some \<lparr>os_cpuUsagePercent = ms_cpuUsagePercent s, os_memoryUsedBytes = ms_memoryUsedBytes s,
          os_diskUsedBytes = ms_diskUsedBytes s, os_networkRxBytesPerSec = ms_networkRxBytesPerSec s,
          os_networkTxBytesPerSec = ms_networkTxBytesPerSec s\<rparr>)"
  by (rule overview_is_projection) simp

subsection \<open>Buckets\<close>

definition bucket_start :: "int \<Rightarrow> int \<Rightarrow> int" where
  "bucket_start b t = t div b * b"

definition printable_time :: "int \<Rightarrow> bool" where
  "printable_time t \<longleftrightarrow> 0 \<le> getUTCFullYear t \<and> getUTCFullYear t \<le> 9999"

abbreviation charted_points :: "DeviceMetricKey \<Rightarrow> OverviewRecord list \<Rightarrow> OverviewRecord list" where
  "charted_points key points \<equiv> filter (\<lambda>p. toISOString (ov_timestamp p) \<notin> overview_unavailable key points) points"

abbreviation bucket_sample :: "int \<Rightarrow> (OverviewRecord \<Rightarrow> num) \<Rightarrow> SamplePoint option \<Rightarrow> OverviewRecord \<Rightarrow> SamplePoint" where
  "bucket_sample b field v p \<equiv> sample (toISOString (bucket_start b (ov_timestamp p))) (field p)"

lemma overview_samples_charted:
  "overview_samples field key points = map (\<lambda>p. sample (toISOString (ov_timestamp p)) (field p)) (charted_points key points)"
  by (simp add: overview_samples_def filter_map comp_def)

lemma align_is_grouping:
  assumes "\<forall>p \<in> set points. printable_time (ov_timestamp p)"
  shows "align_samples b (map (\<lambda>p. sample (toISOString (ov_timestamp p)) (field p)) points) m =
    Some (fold (group_step (\<lambda>p. bucket_start b (ov_timestamp p)) (bucket_sample b field)) points m)"
  using assms
proof (induction points arbitrary: m)
  case (Cons p points)
  then have "Date_parse (toISOString (ov_timestamp p)) = Some (ov_timestamp p)"
    by (intro Date_parse_toISOString) (simp_all add: printable_time_def)
  with Cons show ?case
    by (simp add: group_step_def bucket_start_def Let_def)
qed simp

lemma fold_last: "fold (\<lambda>x v. Some (f x)) xs v = (if xs = [] then v else Some (f (last xs)))"
  by (induction xs arbitrary: v) simp_all

lemma sorted_entries:
  assumes "distinct (map_keys m)"
  shows "map snd (sort_by fst m) = map (\<lambda>k. the (map_get m k)) (map fst (sort_by fst m))"
proof -
  have "snd e = the (map_get m (fst e))" if "e \<in> set m" for e
    using that assms by (metis map_of_is_SomeI option.sel prod.collapse)
  then show ?thesis by simp
qed

text \<open>
  A loop that overwrites the entry of its key and then sorts the entries by key: one value per key, in increasing order
  of the keys, made from the last item of the key.
\<close>

lemma last_per_key:
  fixes key :: "'x \<Rightarrow> 'k::linorder" and val :: "'x \<Rightarrow> 'v" and xs
  defines "m \<equiv> fold (group_step key (\<lambda>_. val)) xs []"
  shows "\<exists>keys. map snd (sort_by fst m) = map (\<lambda>k. val (last (filter (\<lambda>x. key x = k) xs))) keys \<and>
    sorted_wrt (<) keys \<and> set keys = key ` set xs"
proof (intro exI conjI)
  let ?keys = "map fst (sort_by fst m)"
  have keys: "map_keys m = js_uniq (map key xs)"
    by (simp add: m_def map_keys_group js_uniq_set_add)
  then show set_keys: "set ?keys = key ` set xs"
    by (metis list.set_map set_js_uniq set_sort_by)
  have "the (map_get m k) = val (last (filter (\<lambda>x. key x = k) xs))" if "k \<in> set ?keys" for k
  proof -
    have "filter (\<lambda>x. key x = k) xs \<noteq> []"
      using that set_keys by (auto simp: filter_empty_conv)
    then show ?thesis
      unfolding m_def map_get_group by (simp add: fold_last)
  qed
  then show "map snd (sort_by fst m) = map (\<lambda>k. val (last (filter (\<lambda>x. key x = k) xs))) ?keys"
    using keys by (simp add: sorted_entries distinct_js_uniq)
  show "sorted_wrt (<) ?keys"
    using keys by (simp add: sorted_sort_by distinct_map_sort_by strict_sorted_iff distinct_js_uniq)
qed

text \<open>
  On the longer windows the overview has exactly one sample per minute (or hour) bucket that holds a usable
  reading, in increasing time order, stamped with the bucket's start and carrying the last usable reading of
  that bucket.
\<close>

theorem overview_buckets:
  assumes "\<forall>p \<in> set points. printable_time (ov_timestamp p)" "overview_bucketMs window \<noteq> 0"
  shows "\<exists>starts. overview_field window field key points =
      Some (map (\<lambda>t. \<lparr>sp_timestamp = toISOString t,
                   sp_value = field (last (filter (\<lambda>p. bucket_start (overview_bucketMs window) (ov_timestamp p) = t)
                     (charted_points key points)))\<rparr>) starts)
    \<and> sorted_wrt (<) starts
    \<and> set starts = (\<lambda>p. bucket_start (overview_bucketMs window) (ov_timestamp p)) ` set (charted_points key points)"
proof -
  let ?b = "overview_bucketMs window" and ?ps = "charted_points key points"
  let ?start = "\<lambda>p. bucket_start ?b (ov_timestamp p)"
  obtain starts where starts: "map snd (sort_by fst (fold (group_step ?start (bucket_sample ?b field)) ?ps [])) =
      map (\<lambda>t. sample (toISOString (?start (last (filter (\<lambda>p. ?start p = t) ?ps)))) (field (last (filter (\<lambda>p. ?start p = t) ?ps)))) starts"
    "sorted_wrt (<) starts" "set starts = ?start ` set ?ps"
    using last_per_key [of ?start "\<lambda>p. sample (toISOString (?start p)) (field p)" ?ps] by blast
  have "?start (last (filter (\<lambda>p. ?start p = t) ?ps)) = t" if "t \<in> set starts" for t
  proof -
    have "filter (\<lambda>p. ?start p = t) ?ps \<noteq> []"
      using that starts(3) by (auto simp: filter_empty_conv)
    from last_in_set [OF this] show ?thesis by simp
  qed
  with starts show ?thesis
    using assms align_is_grouping [of ?ps ?b field "[]"]
    by (intro exI [of _ starts]) (simp add: overview_field_def overview_samples_charted)
qed

lemma demo_overview_printable: "\<forall>p \<in> set (map projectOverviewRecord demo_samples). printable_time (ov_timestamp p)"
  by (simp add: demo_samples_def payload_record_def Let_def printable_time_def getUTCFullYear_def YearFromDay_def
      Day_def msPerDay_def DayFromYear_def)

lemma demo_never_gapped: "s \<in> set demo_samples \<Longrightarrow> \<not> point_gapped key s"
proof -
  have "detail_unavailable (payload_record t (demo_payload t') c) = []" "detail_quality (payload_record t (demo_payload t') c) = []"
    "detail_unavailable (payload_record t (p\<lparr>pa_cpuUsagePercent := u\<rparr>) c) = detail_unavailable (payload_record t p c)"
    "detail_quality (payload_record t (p\<lparr>pa_cpuUsagePercent := u\<rparr>) c) = detail_quality (payload_record t p c)" for t t' c p u
    by (simp_all add: detail_unavailable_def detail_quality_def payload_record_def payload_details_def demo_payload_def Let_def)
  moreover assume "s \<in> set demo_samples"
  ultimately show ?thesis
    by (auto simp: demo_samples_def point_gapped_def point_quality_def)
qed

theorem overview_buckets_witness:
  "overview_field W1h ov_cpuUsagePercent CpuUsage (map projectOverviewRecord demo_samples)
     = Some [\<lparr>sp_timestamp = toISOString 60000, sp_value = 75\<rparr>]"
proof -
  let ?ps = "map projectOverviewRecord demo_samples"
  have b: "overview_bucketMs W1h = 60000" by (simp add: overview_bucketMs_def)
  have "overview_unavailable CpuUsage ?ps = {}"
    using demo_never_gapped by (simp add: project_unavailable gap_times_def Let_def)
  then have all: "charted_points CpuUsage ?ps = ?ps" by simp
  define p where "p = projectOverviewRecord (demo_samples ! 0)"
  define q where "q = projectOverviewRecord (demo_samples ! 1)"
  have pq: "?ps = [p, q]"
    by (simp add: p_def q_def demo_samples_def)
  have pt: "ov_timestamp p = 60000" "ov_timestamp q = 62000" "ov_cpuUsagePercent q = 75"
    by (simp_all add: p_def q_def demo_samples_def projectOverviewRecord_def payload_record_def default_config_def demo_payload_def
        ALL_DEVICE_METRIC_KEYS_def Let_def)
  obtain starts where starts: "overview_field W1h ov_cpuUsagePercent CpuUsage ?ps =
      Some (map (\<lambda>t. sample (toISOString t) (ov_cpuUsagePercent (last (filter (\<lambda>p. bucket_start 60000 (ov_timestamp p) = t) ?ps)))) starts)"
    "sorted_wrt (<) starts" "set starts = (\<lambda>p. bucket_start 60000 (ov_timestamp p)) ` set ?ps"
    using overview_buckets [OF demo_overview_printable, of W1h ov_cpuUsagePercent CpuUsage, unfolded b all] by auto
  have "set starts = {60000}"
    using starts(3) unfolding pq by (simp add: bucket_start_def pt)
  then have "starts = [60000]"
    using starts(2) strict_sorted_equal [of starts "[60000]"] by simp
  then show ?thesis
    using starts(1) unfolding pq by (simp add: bucket_start_def pt)
qed

end
