(* ===== verification/Series_Budget.thy ===== *)
theory Series_Budget
  imports Charts
begin

text \<open>
  The thinning of chart series to a point budget, \<open>apps/server/src/series-budget.ts\<close>.

  \<open>budgetPoints\<close> either returns its argument itself, which the caller recognises by object identity, or a new
  array: here \<open>None\<close> and \<open>Some\<close>.  A payload is a tree of objects, arrays, sample series and other leaves;
  an array whose first element has a timestamp and a value is a series (constructor \<open>Points\<close>), an empty array is
  left alone whichever it is.
\<close>

definition UNTHINNED :: "string list" where
  "UNTHINNED = [''trafficRxBytes'', ''trafficTxBytes'', ''networkRxBytesPerSec'', ''networkTxBytesPerSec'',
     ''rxBytesPerSec'', ''txBytesPerSec'']"

fun time_deltas :: "int option list \<Rightarrow> int option list" where
  "time_deltas (a # b # ts) = (case (a, b) of (Some x, Some y) \<Rightarrow> Some (y - x) | _ \<Rightarrow> None) # time_deltas (b # ts)"
| "time_deltas _ = []"

definition hasGap :: "int option list \<Rightarrow> bool" where
  "hasGap ts =
     (let deltas = time_deltas ts
      in if \<exists>d \<in> set deltas. case d of None \<Rightarrow> True | Some x \<Rightarrow> x \<le> 0 then True
         else let ordered = sort (somes deltas)
              in \<exists>x \<in> set (somes deltas). x > ordered ! (length ordered div 2) * 3)"

text \<open>The loop over one bucket: the first index of the smallest and of the largest value.\<close>

definition bucket_extrema :: "num list \<Rightarrow> nat \<Rightarrow> nat \<Rightarrow> nat \<times> nat" where
  "bucket_extrema vs start end' =
     fold (\<lambda>i (mn, mx). (if vs ! i < vs ! mn then i else mn, if vs ! i > vs ! mx then i else mx)) [start + 1..<end'] (start, start)"

definition bucket_bounds :: "nat \<Rightarrow> nat \<Rightarrow> nat \<Rightarrow> nat \<times> nat" where
  "bucket_bounds n buckets bucket = (bucket * n div buckets, (bucket + 1) * n div buckets)"

definition select_indices :: "num list \<Rightarrow> nat \<Rightarrow> nat list" where
  "select_indices vs buckets =
     fold (\<lambda>bucket selected.
         let (start, end') = bucket_bounds (length vs) buckets bucket;
             (mn, mx) = bucket_extrema vs start end'
         in set_add mx (set_add mn selected))
       [0..<buckets] (set_add (length vs - 1) (set_add 0 []))"

definition budgetPoints :: "SamplePoint list \<Rightarrow> num \<Rightarrow> SamplePoint list option" where
  "budgetPoints points budget =
     (if budget \<noteq> of_int \<lfloor>budget\<rfloor> \<or> budget < 16 \<or> of_nat (length points) \<le> budget then None
      else
        let ts = map (\<lambda>p. Date_parse (sp_timestamp p)) points
        in if None \<in> set ts \<or> hasGap ts then None
           else
             let buckets = nat \<lfloor>(budget - 2) / 2\<rfloor>;
                 result = map ((!) points) (sort (select_indices (map sp_value points) buckets))
             in if hasGap (map (\<lambda>p. Date_parse (sp_timestamp p)) result) then None else Some result)"

datatype 'a payload = Leaf 'a | Points "SamplePoint list" | Arr "'a payload list" | Obj "(string \<times> 'a payload) list"

text \<open>The two uses of \<open>walk\<close>: collecting the series, and replacing them.\<close>

fun collect :: "string \<Rightarrow> 'a payload \<Rightarrow> SamplePoint list list" where
  "collect field' v =
     (if field' \<in> set UNTHINNED then []
      else case v of
          Leaf _ \<Rightarrow> []
        | Points points \<Rightarrow> if points = [] then [] else [points]
        | Arr xs \<Rightarrow> concat (map (collect []) xs)
        | Obj kvs \<Rightarrow> concat (map (\<lambda>(key, child). collect key child) kvs))"

fun replace_series :: "(SamplePoint list \<Rightarrow> SamplePoint list) \<Rightarrow> string \<Rightarrow> 'a payload \<Rightarrow> 'a payload" where
  "replace_series f field' v =
     (if field' \<in> set UNTHINNED then v
      else case v of
          Leaf a \<Rightarrow> Leaf a
        | Points points \<Rightarrow> if points = [] then Points points else Points (f points)
        | Arr xs \<Rightarrow> Arr (map (replace_series f []) xs)
        | Obj kvs \<Rightarrow> Obj (map (\<lambda>(key, child). (key, replace_series f key child)) kvs))"

declare collect.simps [simp del] replace_series.simps [simp del]

text \<open>The loop over all series: \<open>None\<close> as soon as one is not thinned.\<close>

definition selected_times :: "SamplePoint list list \<Rightarrow> num \<Rightarrow> string list option" where
  "selected_times series budget =
     (let thinned = map (\<lambda>points. budgetPoints points budget) series
      in if None \<in> set thinned then None
         else Some (js_uniq (concat (map (\<lambda>points. map sp_timestamp points) (somes thinned)))))"

definition aligned :: "SamplePoint list list \<Rightarrow> SamplePoint list \<Rightarrow> bool" where
  "aligned series reference = (\<forall>points \<in> set series. map sp_timestamp points = map sp_timestamp reference)"

definition budgetSeries :: "'a payload \<Rightarrow> num option \<Rightarrow> 'a payload" where
  "budgetSeries v budget' =
     (case budget' of None \<Rightarrow> v
      | Some budget \<Rightarrow>
          (case collect [] v of
             [] \<Rightarrow> v
           | reference # rest \<Rightarrow>
               if of_nat (length reference) \<le> budget then v
               else if \<not> aligned (reference # rest) reference then v
               else case selected_times (reference # rest) budget of
                  None \<Rightarrow> v
                | Some ts \<Rightarrow>
                    let selected = filter (\<lambda>i. sp_timestamp (reference ! i) \<in> set ts) [0..<length reference]
                    in if length selected \<ge> length reference
                         \<or> hasGap (map (\<lambda>i. Date_parse (sp_timestamp (reference ! i))) selected) then v
                       else replace_series (\<lambda>points. map ((!) points) selected) [] v))"

subsection \<open>What a bucket keeps\<close>

lemma bucket_extrema_facts:
  assumes "start < end'" "bucket_extrema vs start end' = (mn, mx)"
  shows "start \<le> mn \<and> mn < end' \<and> start \<le> mx \<and> mx < end' \<and> (\<forall>i. start \<le> i \<and> i < end' \<longrightarrow> vs ! mn \<le> vs ! i \<and> vs ! i \<le> vs ! mx)"
  using assms
proof (induction end' arbitrary: mn mx)
  case (Suc e)
  show ?case
  proof (cases "start < e")
    case True
    obtain mn' mx' where e: "bucket_extrema vs start e = (mn', mx')" by fastforce
    have ih: "start \<le> mn'" "mn' < e" "start \<le> mx'" "mx' < e"
      "\<And>i. start \<le> i \<Longrightarrow> i < e \<Longrightarrow> vs ! mn' \<le> vs ! i \<and> vs ! i \<le> vs ! mx'"
      using Suc.IH [OF True e] by auto
    have mm: "mn = (if vs ! e < vs ! mn' then e else mn')" "mx = (if vs ! e > vs ! mx' then e else mx')"
      using Suc.prems(2) e True by (simp_all add: bucket_extrema_def)
    have "vs ! mn \<le> vs ! i \<and> vs ! i \<le> vs ! mx" if "start \<le> i" "i < Suc e" for i
      using ih(5) [of i] that mm by (cases "i = e") (auto split: if_splits intro: order.trans less_imp_le)
    then show ?thesis using ih mm True by auto
  next
    case False
    then have "e = start" using Suc.prems(1) by simp
    then show ?thesis using Suc.prems(2) by (auto simp: bucket_extrema_def less_Suc_eq_le dest: le_antisym)
  qed
qed simp

lemma bucket_bounds_cover:
  fixes i n buckets :: nat
  assumes "i < n" "0 < buckets"
  obtains b where "b < buckets" "b * n div buckets \<le> i" "i < (b + 1) * n div buckets"
proof -
  define c where "c = (LEAST c. i < c * n div buckets)"
  have top: "i < buckets * n div buckets" using assms by simp
  then have c: "i < c * n div buckets" unfolding c_def by (rule LeastI)
  have "c \<le> buckets" unfolding c_def by (rule Least_le) (rule top)
  moreover have "c \<noteq> 0" using c by (metis div_0 mult_0 not_less_zero)
  then obtain b where b: "c = Suc b" by (cases c) auto
  moreover have "\<not> i < b * n div buckets"
    using not_less_Least [of b "\<lambda>c. i < c * n div buckets"] b by (simp add: c_def)
  ultimately show ?thesis using that [of b] c by (simp add: not_less)
qed

lemma bucket_bounds_range:
  fixes b n buckets :: nat
  assumes "b < buckets" "buckets \<le> n"
  shows "b * n div buckets < (b + 1) * n div buckets" "(b + 1) * n div buckets \<le> n"
proof -
  have "b * n div buckets + 1 = (b * n + buckets) div buckets"
    using assms(1) by simp
  also have "\<dots> \<le> (b + 1) * n div buckets"
    using assms(2) by (intro div_le_mono) (simp add: add.commute)
  finally show "b * n div buckets < (b + 1) * n div buckets" by simp
  have "(b + 1) * n div buckets \<le> buckets * n div buckets"
    using assms(1) by (intro div_le_mono mult_le_mono1) simp
  then show "(b + 1) * n div buckets \<le> n" using assms(1) by simp
qed

subsection \<open>The selected indices\<close>

definition bucket_picks :: "num list \<Rightarrow> nat \<Rightarrow> nat \<Rightarrow> nat set" where
  "bucket_picks vs buckets b =
     (let (start, end') = bucket_bounds (length vs) buckets b; (mn, mx) = bucket_extrema vs start end' in {mn, mx})"

lemma set_select_indices: "set (select_indices vs buckets) = {0, length vs - 1} \<union> (\<Union>b < buckets. bucket_picks vs buckets b)"
proof -
  have "set (fold (\<lambda>bucket selected. let (start, end') = bucket_bounds n buckets bucket; (mn, mx) = bucket_extrema vs start end'
         in set_add mx (set_add mn selected)) bs acc) = set acc \<union> (\<Union>b \<in> set bs. bucket_picks vs buckets b)"
    if "n = length vs" for n bs acc
    by (induction bs arbitrary: acc) (auto simp: bucket_picks_def that split: prod.splits)
  then show ?thesis by (auto simp: select_indices_def lessThan_atLeast0)
qed

lemma fold_grows:
  assumes "\<forall>b acc. distinct acc \<longrightarrow> distinct (f b acc) \<and> length (f b acc) \<le> length acc + k" "distinct acc"
  shows "distinct (fold f bs acc) \<and> length (fold f bs acc) \<le> length acc + k * length bs"
  using assms(2)
proof (induction bs arbitrary: acc)
  case (Cons b bs)
  have "distinct (f b acc)" "length (f b acc) \<le> length acc + k"
    using assms(1) Cons.prems by auto
  then show ?case using Cons.IH [of "f b acc"] by simp
qed simp

lemma select_indices_shape: "distinct (select_indices vs buckets) \<and> length (select_indices vs buckets) \<le> 2 * buckets + 2"
proof -
  have add: "length (set_add x xs) \<le> length xs + 1" for x :: nat and xs
    by (simp add: set_add_def)
  let ?f = "\<lambda>bucket selected. let (start, end') = bucket_bounds (length vs) buckets bucket; (mn, mx) = bucket_extrema vs start end'
         in set_add mx (set_add mn selected)"
  have "distinct (?f b acc) \<and> length (?f b acc) \<le> length acc + 2" if "distinct acc" for b acc
    using that add [of _ acc] add [of _ "set_add _ acc"]
    by (auto simp: distinct_set_add split: prod.splits intro: order.trans [OF add])
  then have "distinct (fold ?f bs acc) \<and> length (fold ?f bs acc) \<le> length acc + 2 * length bs" if "distinct acc" for bs acc
    using fold_grows [of ?f 2 acc bs] that by blast
  from this [of "set_add (length vs - 1) (set_add 0 [])" "[0..<buckets]"] show ?thesis
    using add [of "length vs - 1" "set_add 0 []"] add [of 0 "[]"]
    by (auto simp: select_indices_def distinct_set_add)
qed

lemma bucket_picks_facts:
  assumes "b < buckets" "buckets \<le> length vs" "j \<in> bucket_picks vs buckets b"
  shows "b * length vs div buckets \<le> j \<and> j < (b + 1) * length vs div buckets"
proof -
  obtain mn mx where e: "bucket_extrema vs (b * length vs div buckets) ((b + 1) * length vs div buckets) = (mn, mx)" by fastforce
  show ?thesis
    using bucket_extrema_facts [OF bucket_bounds_range(1) [OF assms(1,2)] e] assms(3) e
    by (auto simp: bucket_picks_def bucket_bounds_def)
qed

lemma bucket_picks_extreme:
  assumes "b < buckets" "buckets \<le> length vs" "b * length vs div buckets \<le> i" "i < (b + 1) * length vs div buckets"
  shows "\<exists>j \<in> bucket_picks vs buckets b. vs ! j \<le> vs ! i" "\<exists>j \<in> bucket_picks vs buckets b. vs ! i \<le> vs ! j"
proof -
  obtain mn mx where e: "bucket_extrema vs (b * length vs div buckets) ((b + 1) * length vs div buckets) = (mn, mx)" by fastforce
  show "\<exists>j \<in> bucket_picks vs buckets b. vs ! j \<le> vs ! i" "\<exists>j \<in> bucket_picks vs buckets b. vs ! i \<le> vs ! j"
    using bucket_extrema_facts [OF bucket_bounds_range(1) [OF assms(1,2)] e] assms(3,4) e
    by (auto simp: bucket_picks_def bucket_bounds_def)
qed

lemma select_indices_bound:
  assumes "buckets \<le> length vs" "vs \<noteq> []" "j \<in> set (select_indices vs buckets)"
  shows "j < length vs"
proof -
  have "j < length vs" if "b < buckets" "j \<in> bucket_picks vs buckets b" for b
    using bucket_picks_facts [OF that(1) assms(1) that(2)] bucket_bounds_range(2) [OF that(1) assms(1)] by simp
  then show ?thesis using assms(2,3) by (auto simp: set_select_indices)
qed

lemma select_indices_extreme:
  assumes "0 < buckets" "buckets \<le> length vs" "i < length vs"
  shows "\<exists>j \<in> set (select_indices vs buckets). vs ! j \<le> vs ! i" "\<exists>j \<in> set (select_indices vs buckets). vs ! i \<le> vs ! j"
proof -
  obtain b where "b < buckets" "b * length vs div buckets \<le> i" "i < (b + 1) * length vs div buckets"
    by (rule bucket_bounds_cover [OF assms(3,1)])
  then show "\<exists>j \<in> set (select_indices vs buckets). vs ! j \<le> vs ! i" "\<exists>j \<in> set (select_indices vs buckets). vs ! i \<le> vs ! j"
    using bucket_picks_extreme [of b buckets vs i] assms(2) by (auto simp: set_select_indices)
qed

lemma budgetPoints_Some:
  assumes "budgetPoints points budget = Some r"
  obtains idx where "r = map ((!) points) idx" "sorted_wrt (<) idx" "of_nat (length idx) \<le> budget"
    "0 \<in> set idx" "length points - 1 \<in> set idx" "\<forall>j \<in> set idx. j < length points"
    "\<forall>i < length points. (\<exists>j \<in> set idx. sp_value (points ! j) \<le> sp_value (points ! i))
        \<and> (\<exists>j \<in> set idx. sp_value (points ! i) \<le> sp_value (points ! j))"
    "\<not> hasGap (map (\<lambda>p. Date_parse (sp_timestamp p)) points)"
proof -
  define buckets where "buckets = nat \<lfloor>(budget - 2) / 2\<rfloor>"
  define vs where "vs = map sp_value points"
  obtain b where b: "budget = of_int b" "16 \<le> b"
    using assms by (auto simp: budgetPoints_def split: if_splits)
  have "of_int b < (of_nat (length points) :: num)"
    using assms b by (auto simp: budgetPoints_def split: if_splits)
  then have n: "b < int (length points)" by linarith
  have "\<lfloor>(budget - 2) / 2\<rfloor> = (b - 2) div 2"
    using floor_divide_of_int_eq [of "b - 2" 2] by (simp add: b)
  then have bk: "int buckets = (b - 2) div 2" using b by (simp add: buckets_def)
  have pos: "0 < buckets" "buckets \<le> length vs" "vs \<noteq> []" "2 * int buckets + 2 \<le> b"
    using b(2) bk n by (auto simp: vs_def)
  show ?thesis
  proof (rule that [of "sort (select_indices vs buckets)"])
    show "r = map ((!) points) (sort (select_indices vs buckets))"
      using assms by (auto simp: budgetPoints_def buckets_def vs_def Let_def split: if_splits)
    show "sorted_wrt (<) (sort (select_indices vs buckets))"
      using select_indices_shape by (simp add: strict_sorted_iff)
    show "of_nat (length (sort (select_indices vs buckets))) \<le> budget"
    proof -
      have "int (length (select_indices vs buckets)) \<le> b"
        using select_indices_shape [of vs buckets] pos(4) by linarith
      then show ?thesis by (simp add: b)
    qed
    show "\<forall>j \<in> set (sort (select_indices vs buckets)). j < length points"
      using select_indices_bound [OF pos(2,3)] by (simp add: vs_def)
    show "\<forall>i < length points. (\<exists>j \<in> set (sort (select_indices vs buckets)). sp_value (points ! j) \<le> sp_value (points ! i))
        \<and> (\<exists>j \<in> set (sort (select_indices vs buckets)). sp_value (points ! i) \<le> sp_value (points ! j))"
    proof (intro allI impI conjI)
      fix i assume i: "i < length points"
      have nth: "vs ! j = sp_value (points ! j)" if "j \<in> set (select_indices vs buckets)" for j
        using select_indices_bound [OF pos(2,3) that] by (simp add: vs_def)
      show "\<exists>j \<in> set (sort (select_indices vs buckets)). sp_value (points ! j) \<le> sp_value (points ! i)"
        "\<exists>j \<in> set (sort (select_indices vs buckets)). sp_value (points ! i) \<le> sp_value (points ! j)"
        using select_indices_extreme [OF pos(1,2), of i] i nth by (auto simp: vs_def)
    qed
    show "\<not> hasGap (map (\<lambda>p. Date_parse (sp_timestamp p)) points)"
      using assms by (auto simp: budgetPoints_def Let_def split: if_splits)
  qed (simp_all add: set_select_indices vs_def)
qed

subsection \<open>Walking a payload\<close>

lemma collect_simps [simp]:
  "k \<in> set UNTHINNED \<Longrightarrow> collect k v = []"
  "collect k (Leaf a) = []"
  "k \<notin> set UNTHINNED \<Longrightarrow> collect k (Points ps) = (if ps = [] then [] else [ps])"
  "k \<notin> set UNTHINNED \<Longrightarrow> collect k (Arr xs) = concat (map (collect []) xs)"
  "k \<notin> set UNTHINNED \<Longrightarrow> collect k (Obj kvs) = concat (map (\<lambda>(key, child). collect key child) kvs)"
  by (subst collect.simps; simp)+

lemma replace_simps [simp]:
  "k \<in> set UNTHINNED \<Longrightarrow> replace_series f k v = v"
  "replace_series f k (Leaf a) = Leaf a"
  "k \<notin> set UNTHINNED \<Longrightarrow> replace_series f k (Points ps) = Points (if ps = [] then [] else f ps)"
  "k \<notin> set UNTHINNED \<Longrightarrow> replace_series f k (Arr xs) = Arr (map (replace_series f []) xs)"
  "k \<notin> set UNTHINNED \<Longrightarrow> replace_series f k (Obj kvs) = Obj (map (\<lambda>(key, child). (key, replace_series f key child)) kvs)"
  by (subst replace_series.simps; simp)+

lemma collect_replace:
  assumes "\<forall>ps \<in> set (collect k v). f ps \<noteq> []"
  shows "collect k (replace_series f k v) = map f (collect k v)"
  using assms
proof (induction v arbitrary: k)
  case (Arr xs)
  show ?case
  proof (cases "k \<in> set UNTHINNED")
    case False
    have "collect [] (replace_series f [] x) = map f (collect [] x)" if "x \<in> set xs" for x
      using that False Arr.prems by (intro Arr.IH) auto
    then have "map (collect [] \<circ> replace_series f []) xs = map (map f \<circ> collect []) xs"
      by simp
    then show ?thesis using False by (simp add: map_concat del: map_eq_conv)
  qed simp
next
  case (Obj kvs)
  show ?case
  proof (cases "k \<in> set UNTHINNED")
    case False
    have "collect key (replace_series f key x) = map f (collect key x)" if "(key, x) \<in> set kvs" for key x
      using that False Obj.prems by (intro Obj.IH [of "(key, x)"]) auto
    then have "map ((\<lambda>(key, x). collect key x) \<circ> (\<lambda>(key, x). (key, replace_series f key x))) kvs
        = map (map f \<circ> (\<lambda>(key, x). collect key x)) kvs"
      by auto
    then show ?thesis using False by (simp add: map_concat del: map_eq_conv)
  qed simp
next
  case (Points ps)
  then show ?case by (cases "k \<in> set UNTHINNED") auto
qed simp

lemma replace_replace: "replace_series (\<lambda>_. []) k (replace_series f k v) = replace_series (\<lambda>_. []) k v"
proof (induction v arbitrary: k)
  case (Arr xs)
  then show ?case by (cases "k \<in> set UNTHINNED") auto
next
  case (Obj kvs)
  then show ?case by (cases "k \<in> set UNTHINNED") auto
next
  case (Points ps)
  then show ?case by (cases "k \<in> set UNTHINNED") auto
qed simp

subsection \<open>A thinned payload\<close>

lemma extremes_kept:
  assumes "sel \<noteq> []" "\<forall>j \<in> set sel. j < length ps"
    "\<forall>i < length ps. (\<exists>j \<in> set sel. sp_value (ps ! j) \<le> sp_value (ps ! i)) \<and> (\<exists>j \<in> set sel. sp_value (ps ! i) \<le> sp_value (ps ! j))"
  shows "Min (sp_value ` set (map ((!) ps) sel)) = Min (sp_value ` set ps)" "Max (sp_value ` set (map ((!) ps) sel)) = Max (sp_value ` set ps)"
proof -
  let ?A = "sp_value ` set (map ((!) ps) sel)" and ?B = "sp_value ` set ps"
  have sub: "?A \<subseteq> ?B" using assms(2) by auto
  have ne: "?A \<noteq> {}" using assms(1) by simp
  have below: "\<exists>a \<in> ?A. a \<le> b" "\<exists>a \<in> ?A. b \<le> a" if "b \<in> ?B" for b
    using that assms(3) by (auto simp: in_set_conv_nth; blast)+
  have fin: "finite ?A" "finite ?B" by simp_all
  have "Min ?A \<le> b" "b \<le> Max ?A" if "b \<in> ?B" for b
    using below [OF that] Min_le [OF fin(1)] Max_ge [OF fin(1)] order.trans by metis+
  moreover have "Min ?A \<in> ?B" "Max ?A \<in> ?B"
    using sub Min_in [OF fin(1) ne] Max_in [OF fin(1) ne] by blast+
  ultimately show "Min ?A = Min ?B" "Max ?A = Max ?B"
    by (metis Min_eqI fin(2)) (metis Max_eqI fin(2) \<open>\<And>b. b \<in> ?B \<Longrightarrow> b \<le> Max ?A\<close> \<open>Max ?A \<in> ?B\<close>)
qed

lemma sorted_le_last: "sorted (xs :: nat list) \<Longrightarrow> x \<in> set xs \<Longrightarrow> x \<le> last xs"
  by (induction xs) auto

lemma sorted_ends:
  assumes "sorted_wrt (<) (sel :: nat list)" "0 \<in> set sel" "n - 1 \<in> set sel" "\<forall>j \<in> set sel. j < n"
  shows "hd sel = 0" "last sel = n - 1"
proof -
  have ne: "sel \<noteq> []" using assms(2) by auto
  have s: "sorted sel" using assms(1) by (simp add: strict_sorted_iff)
  show "hd sel = 0"
    using s assms(2) ne by (cases sel) auto
  have "n - 1 \<le> last sel"
    using sorted_le_last [OF s assms(3)] .
  moreover have "last sel < n" using assms(4) ne by simp
  ultimately show "last sel = n - 1" by simp
qed

lemma selected_times_covers:
  assumes "selected_times series budget = Some ts" "points \<in> set series"
  obtains r where "budgetPoints points budget = Some r" "sp_timestamp ` set r \<subseteq> set ts"
proof -
  have none: "None \<notin> set (map (\<lambda>points. budgetPoints points budget) series)"
    using assms(1) by (auto simp: selected_times_def Let_def split: if_splits)
  moreover have mem: "budgetPoints points budget \<in> set (map (\<lambda>points. budgetPoints points budget) series)"
    using assms(2) by auto
  ultimately obtain r where r: "budgetPoints points budget = Some r"
    by (cases "budgetPoints points budget") auto
  have "ts = js_uniq (concat (map (\<lambda>points. map sp_timestamp points) (somes (map (\<lambda>points. budgetPoints points budget) series))))"
    using assms(1) by (auto simp: selected_times_def Let_def split: if_splits)
  moreover have "r \<in> set (somes (map (\<lambda>points. budgetPoints points budget) series))"
    using mem r by simp
  ultimately have "sp_timestamp ` set r \<subseteq> set ts"
    by (auto simp del: set_somes)
  then show ?thesis using that r by blast
qed

lemma budgetSeries_cases:
  assumes "budgetSeries v (Some budget) \<noteq> v"
  obtains reference rest ts where "collect [] v = reference # rest" "aligned (reference # rest) reference"
    "selected_times (reference # rest) budget = Some ts"
    "let sel = filter (\<lambda>i. sp_timestamp (reference ! i) \<in> set ts) [0..<length reference]
     in length sel < length reference \<and> \<not> hasGap (map (\<lambda>i. Date_parse (sp_timestamp (reference ! i))) sel)
        \<and> budgetSeries v (Some budget) = replace_series (\<lambda>points. map ((!) points) sel) [] v"
  using assms by (auto simp: budgetSeries_def Let_def split: list.splits if_splits option.splits)

text \<open>The indices chosen for one series are among those chosen for all, because the series share their timestamps.\<close>

lemma selection_serves_all:
  assumes "aligned series reference" "selected_times series budget = Some ts" "points \<in> set series"
  defines "sel \<equiv> filter (\<lambda>i. sp_timestamp (reference ! i) \<in> set ts) [0..<length reference]"
  shows "hd sel = 0 \<and> last sel = length points - 1 \<and> sel \<noteq> []
    \<and> Min (sp_value ` set (map ((!) points) sel)) = Min (sp_value ` set points)
    \<and> Max (sp_value ` set (map ((!) points) sel)) = Max (sp_value ` set points)"
proof -
  obtain r where r: "budgetPoints points budget = Some r" "sp_timestamp ` set r \<subseteq> set ts"
    by (rule selected_times_covers [OF assms(2,3)])
  obtain idx where idx: "r = map ((!) points) idx" "0 \<in> set idx" "length points - 1 \<in> set idx" "\<forall>j \<in> set idx. j < length points"
    "\<forall>i < length points. (\<exists>j \<in> set idx. sp_value (points ! j) \<le> sp_value (points ! i))
        \<and> (\<exists>j \<in> set idx. sp_value (points ! i) \<le> sp_value (points ! j))"
    by (rule budgetPoints_Some [OF r(1)]) blast
  have stamps: "map sp_timestamp points = map sp_timestamp reference"
    using assms(1,3) by (simp add: aligned_def)
  then have n: "length points = length reference" by (rule map_eq_imp_length_eq)
  have "j \<in> set sel" if "j \<in> set idx" for j
  proof -
    have j: "j < length points" using idx(4) that by blast
    then have "sp_timestamp (reference ! j) = sp_timestamp (points ! j)"
      using stamps n by (metis nth_map)
    then show ?thesis using r(2) that j n by (auto simp: sel_def idx(1))
  qed
  note sub = this
  have "sorted_wrt (<) sel" "\<forall>j \<in> set sel. j < length points"
    using n by (simp_all add: sel_def sorted_wrt_filter)
  then have ends: "hd sel = 0" "last sel = length points - 1"
    using sorted_ends [of sel "length points"] sub [OF idx(2)] sub [OF idx(3)] by simp_all
  have ne: "sel \<noteq> []" using sub idx(2) by fastforce
  have "\<forall>j \<in> set sel. j < length points" using n by (simp add: sel_def)
  then show ?thesis
    using ends ne extremes_kept [OF ne] idx(5) sub by (metis (no_types, lifting))
qed

text \<open>
  C24: thinning a payload to a point budget is faithful.  Whenever the payload changes at all, one strictly increasing
  choice of positions is applied to every series outside the counter and network-rate fields, so that series that
  shared their timestamps still do; it keeps the first and the last sample and the smallest and the largest value of
  every series, leaves out at least one sample, and neither the original nor the thinned time axis has a gap.
  Everything else in the payload is unchanged.
\<close>

theorem thinning_faithful:
  assumes "budgetSeries v (Some budget) \<noteq> v"
  shows "\<exists>sel reference. collect [] (budgetSeries v (Some budget)) = map (\<lambda>ps. map ((!) ps) sel) (collect [] v)
    \<and> replace_series (\<lambda>_. []) [] (budgetSeries v (Some budget)) = replace_series (\<lambda>_. []) [] v
    \<and> reference \<in> set (collect [] v) \<and> sorted_wrt (<) sel \<and> length sel < length reference
    \<and> (\<forall>ps \<in> set (collect [] v). map sp_timestamp ps = map sp_timestamp reference
         \<and> hd sel = 0 \<and> last sel = length ps - 1
         \<and> Min (sp_value ` set (map ((!) ps) sel)) = Min (sp_value ` set ps)
         \<and> Max (sp_value ` set (map ((!) ps) sel)) = Max (sp_value ` set ps))
    \<and> \<not> hasGap (map (\<lambda>p. Date_parse (sp_timestamp p)) reference)
    \<and> \<not> hasGap (map (\<lambda>i. Date_parse (sp_timestamp (reference ! i))) sel)"
proof -
  obtain reference rest ts where c: "collect [] v = reference # rest" "aligned (reference # rest) reference"
    "selected_times (reference # rest) budget = Some ts"
    and out: "let sel = filter (\<lambda>i. sp_timestamp (reference ! i) \<in> set ts) [0..<length reference]
     in length sel < length reference \<and> \<not> hasGap (map (\<lambda>i. Date_parse (sp_timestamp (reference ! i))) sel)
        \<and> budgetSeries v (Some budget) = replace_series (\<lambda>points. map ((!) points) sel) [] v"
    by (rule budgetSeries_cases [OF assms])
  define sel where "sel = filter (\<lambda>i. sp_timestamp (reference ! i) \<in> set ts) [0..<length reference]"
  have all: "hd sel = 0 \<and> last sel = length ps - 1 \<and> sel \<noteq> []
      \<and> Min (sp_value ` set (map ((!) ps) sel)) = Min (sp_value ` set ps)
      \<and> Max (sp_value ` set (map ((!) ps) sel)) = Max (sp_value ` set ps)" if "ps \<in> set (reference # rest)" for ps
    unfolding sel_def by (rule selection_serves_all [OF c(2,3) that])
  obtain r where "budgetPoints reference budget = Some r"
    by (rule selected_times_covers [OF c(3)]) (use that in auto)
  then have "\<not> hasGap (map (\<lambda>p. Date_parse (sp_timestamp p)) reference)"
    by (rule budgetPoints_Some)
  moreover have "sorted_wrt (<) sel" by (simp add: sel_def sorted_wrt_filter)
  moreover have "collect [] (budgetSeries v (Some budget)) = map (\<lambda>ps. map ((!) ps) sel) (collect [] v)"
    using out all by (simp add: sel_def [symmetric] c(1) collect_replace)
  ultimately show ?thesis
    using out all c(1,2) replace_replace by (intro exI [of _ sel] exI [of _ reference]) (simp add: sel_def [symmetric] aligned_def)
qed

definition demo_points :: "SamplePoint list" where
  "demo_points = map (\<lambda>i. \<lparr>sp_timestamp = toISOString (int i * 60000), sp_value = of_nat i\<rparr>) [0..<17]"

definition demo_series :: "unit payload" where
  "demo_series = Obj [(''usage'', Points demo_points), (''trafficRxBytes'', Points demo_points)]"

lemma demo_points_time: "i < 17 \<Longrightarrow> Date_parse (sp_timestamp (demo_points ! i)) = Some (int i * 60000)"
  by (simp add: demo_points_def Date_parse_demo)

lemma demo_points_times:
  "map (\<lambda>p. Date_parse (sp_timestamp p)) demo_points = map (\<lambda>i. Some (int i * 60000)) [0..<17]"
  "map sp_value demo_points = map of_nat [0..<17]" "length demo_points = 17"
  using demo_points_time by (auto simp: demo_points_def intro: nth_equalityI)

lemma demo_axis:
  "hasGap (map (\<lambda>i. Some (int i * 60000)) [0..<17]) = False"
  "sort (select_indices (map of_nat [0..<17]) 7) = [0, 1, 2, 3, 4, 6, 7, 8, 9, 11, 12, 13, 14, 16]"
  "hasGap (map (\<lambda>i. Some (int i * 60000)) [0, 1, 2, 3, 4, 6, 7, 8, 9, 11, 12, 13, 14, 16]) = False"
  by code_simp+

abbreviation demo_picks :: "nat list" where
  "demo_picks \<equiv> [0, 1, 2, 3, 4, 6, 7, 8, 9, 11, 12, 13, 14, 16]"

lemma demo_budgetPoints: "budgetPoints demo_points 16 = Some (map ((!) demo_points) demo_picks)"
proof -
  have "map (\<lambda>i. Date_parse (sp_timestamp (demo_points ! i))) demo_picks = map (\<lambda>i. Some (int i * 60000)) demo_picks"
    using demo_points_time by (intro map_cong) auto
  moreover have "nat \<lfloor>(16 - 2) / 2 :: num\<rfloor> = 7" "(of_int \<lfloor>16 :: num\<rfloor> :: num) = 16"
    by simp_all
  ultimately show ?thesis
    unfolding budgetPoints_def Let_def demo_points_times demo_axis(1) demo_axis(2)
    using demo_axis(3) by (simp add: comp_def image_iff demo_axis(2))
qed

lemma demo_stamp_iff:
  assumes "i < 17" "j < 17"
  shows "sp_timestamp (demo_points ! i) = sp_timestamp (demo_points ! j) \<longleftrightarrow> i = j"
proof
  assume "sp_timestamp (demo_points ! i) = sp_timestamp (demo_points ! j)"
  then have "Some (int i * 60000) = Some (int j * 60000)"
    unfolding demo_points_time [OF assms(1), symmetric] demo_points_time [OF assms(2), symmetric] by (rule arg_cong)
  then show "i = j" by simp
qed (rule arg_cong)

lemma demo_stamp_picked:
  assumes "i < 17" "\<forall>j \<in> set js. j < 17"
  shows "sp_timestamp (demo_points ! i) \<in> (\<lambda>i. sp_timestamp (demo_points ! i)) ` set js \<longleftrightarrow> i \<in> set js"
  using demo_stamp_iff [OF assms(1)] assms(2) by blast

lemma demo_filter: "filter (\<lambda>i. i \<in> set demo_picks) [0..<17] = demo_picks"
  by code_simp

lemma demo_selected:
  "filter (\<lambda>i. sp_timestamp (demo_points ! i) \<in> (\<lambda>i. sp_timestamp (demo_points ! i)) ` set demo_picks) [0..<17] = demo_picks"
proof -
  have small: "\<forall>j \<in> set demo_picks. j < 17" by simp
  show ?thesis
    by (rule trans [OF filter_cong [OF refl demo_stamp_picked [OF _ small]] demo_filter]) (simp only: set_upt atLeastLessThan_iff)
qed

lemma demo_series_thinned: "budgetSeries demo_series (Some 16) \<noteq> demo_series"
proof -
  have "collect [] demo_series = [demo_points]"
    using demo_points_times(3) by (auto simp: demo_series_def UNTHINNED_def)
  moreover have "selected_times [demo_points] 16 = Some (js_uniq (map (\<lambda>i. sp_timestamp (demo_points ! i)) demo_picks))"
    unfolding selected_times_def Let_def by (simp add: demo_budgetPoints comp_def)
  moreover have "map (\<lambda>i. Date_parse (sp_timestamp (demo_points ! i))) demo_picks = map (\<lambda>i. Some (int i * 60000)) demo_picks"
    using demo_points_time by (intro map_cong) auto
  ultimately show ?thesis
    using demo_axis(3) demo_selected demo_points_times(3)
    by (simp add: budgetSeries_def aligned_def Let_def del: list.map) (auto simp: demo_series_def UNTHINNED_def dest: arg_cong [where f = length])
qed

theorem thinning_faithful_witness:
  "\<exists>sel. collect [] (budgetSeries demo_series (Some 16)) = map (\<lambda>ps. map ((!) ps) sel) (collect [] demo_series)
    \<and> sorted_wrt (<) sel \<and> length sel < 17 \<and> hd sel = 0 \<and> last sel = 16"
proof -
  have "collect [] demo_series = [demo_points]"
    using demo_points_times(3) by (auto simp: demo_series_def UNTHINNED_def)
  then show ?thesis
    using thinning_faithful [OF demo_series_thinned] demo_points_times(3) by (auto simp del: split_paired_Ex)
qed

end
