(* ===== verification/Metric_Response.thy ===== *)
theory Metric_Response
  imports Overview Series_Budget
begin

text \<open>
  What the hub answers to a request for the metrics of one device: the second half of
  \<open>apps/server/src/routes.ts\<close> (alignment of charts to the window's buckets, removal of charts of unsupported
  sensors, availability backed by charts) and the answer itself.
\<close>

subsection \<open>Alignment to the buckets of a window\<close>

definition alignSamplePoints :: "SamplePoint list \<Rightarrow> int \<Rightarrow> SamplePoint list" where
  "alignSamplePoints points bucketMs =
     (let deduped = fold (\<lambda>point m.
            case Date_parse (sp_timestamp point) of
              None \<Rightarrow> m
            | Some time \<Rightarrow>
                let alignedTime = time div bucketMs * bucketMs
                in map_set alignedTime (sample (toISOString alignedTime) (sp_value point)) m) points []
      in map snd (sort_by fst deduped))"

definition window_bucketMs :: "MetricWindow \<Rightarrow> int" where
  "window_bucketMs window =
     (if window \<in> {W15m, W1h, W6h, W24h, W1d} then 60000
      else if window \<in> {W7d, W1w, W30d, W1mo, W90d, W1y} then 3600000
      else 0)"

definition align_cpu :: "int \<Rightarrow> CpuMetricSeries \<Rightarrow> CpuMetricSeries" where
  "align_cpu b cpu = cpu\<lparr>
     xc_usagePercent := alignSamplePoints (xc_usagePercent cpu) b,
     xc_frequencyMHz := alignSamplePoints (xc_frequencyMHz cpu) b,
     xc_temperatureC := alignSamplePoints (xc_temperatureC cpu) b\<rparr>"

definition align_disk :: "int \<Rightarrow> DiskMetricSeries \<Rightarrow> DiskMetricSeries" where
  "align_disk b disk = disk\<lparr>
     xd_totalBytes := alignSamplePoints (xd_totalBytes disk) b,
     xd_usagePercent := alignSamplePoints (xd_usagePercent disk) b,
     xd_activePercent := alignSamplePoints (xd_activePercent disk) b,
     xd_usedBytes := alignSamplePoints (xd_usedBytes disk) b,
     xd_readBytesPerSec := alignSamplePoints (xd_readBytesPerSec disk) b,
     xd_writeBytesPerSec := alignSamplePoints (xd_writeBytesPerSec disk) b,
     xd_temperatureC := alignSamplePoints (xd_temperatureC disk) b\<rparr>"

definition align_pool :: "int \<Rightarrow> StoragePoolMetricSeries \<Rightarrow> StoragePoolMetricSeries" where
  "align_pool b pool = pool\<lparr>
     xp_totalBytes := alignSamplePoints (xp_totalBytes pool) b,
     xp_usedBytes := alignSamplePoints (xp_usedBytes pool) b,
     xp_availableBytes := alignSamplePoints (xp_availableBytes pool) b,
     xp_usagePercent := alignSamplePoints (xp_usagePercent pool) b\<rparr>"

definition align_network :: "int \<Rightarrow> NetworkMetricSeries \<Rightarrow> NetworkMetricSeries" where
  "align_network b network = network\<lparr>
     xn_rxBytesPerSec := alignSamplePoints (xn_rxBytesPerSec network) b,
     xn_txBytesPerSec := alignSamplePoints (xn_txBytesPerSec network) b,
     xn_trafficRxBytes := alignSamplePoints (xn_trafficRxBytes network) b,
     xn_trafficTxBytes := alignSamplePoints (xn_trafficTxBytes network) b\<rparr>"

definition align_gpu :: "int \<Rightarrow> GpuMetricSeries \<Rightarrow> GpuMetricSeries" where
  "align_gpu b gpu = gpu\<lparr>
     xg_usagePercent := alignSamplePoints (xg_usagePercent gpu) b,
     xg_encodePercent := alignSamplePoints (xg_encodePercent gpu) b,
     xg_decodePercent := alignSamplePoints (xg_decodePercent gpu) b,
     xg_frequencyMHz := alignSamplePoints (xg_frequencyMHz gpu) b,
     xg_memoryUsagePercent := alignSamplePoints (xg_memoryUsagePercent gpu) b,
     xg_memoryUsedBytes := alignSamplePoints (xg_memoryUsedBytes gpu) b,
     xg_temperatureC := alignSamplePoints (xg_temperatureC gpu) b\<rparr>"

definition align_sensor :: "int \<Rightarrow> TemperatureMetricSeries \<Rightarrow> TemperatureMetricSeries" where
  "align_sensor b sensor = sensor\<lparr>xt_currentC := alignSamplePoints (xt_currentC sensor) b\<rparr>"

definition align_fan :: "int \<Rightarrow> FanMetricSeries \<Rightarrow> FanMetricSeries" where
  "align_fan b fan = fan\<lparr>xf_rpm := alignSamplePoints (xf_rpm fan) b\<rparr>"

definition align_scalars :: "int \<Rightarrow> MetricSeries \<Rightarrow> MetricSeries" where
  "align_scalars b s = s\<lparr>
     ms_cpuUsagePercent := alignSamplePoints (ms_cpuUsagePercent s) b,
     ms_cpuFrequencyMHz := alignSamplePoints (ms_cpuFrequencyMHz s) b,
     ms_cpuTemperatureC := alignSamplePoints (ms_cpuTemperatureC s) b,
     ms_gpuUsagePercent := alignSamplePoints (ms_gpuUsagePercent s) b,
     ms_gpuEncodePercent := alignSamplePoints (ms_gpuEncodePercent s) b,
     ms_gpuDecodePercent := alignSamplePoints (ms_gpuDecodePercent s) b,
     ms_gpuFrequencyMHz := alignSamplePoints (ms_gpuFrequencyMHz s) b,
     ms_gpuMemoryUsagePercent := alignSamplePoints (ms_gpuMemoryUsagePercent s) b,
     ms_gpuMemoryUsedBytes := alignSamplePoints (ms_gpuMemoryUsedBytes s) b,
     ms_gpuTemperatureC := alignSamplePoints (ms_gpuTemperatureC s) b,
     ms_memoryUsagePercent := alignSamplePoints (ms_memoryUsagePercent s) b,
     ms_swapUsagePercent := alignSamplePoints (ms_swapUsagePercent s) b,
     ms_memoryUsedBytes := alignSamplePoints (ms_memoryUsedBytes s) b,
     ms_swapUsedBytes := alignSamplePoints (ms_swapUsedBytes s) b,
     ms_memoryAvailableBytes := alignSamplePoints (ms_memoryAvailableBytes s) b,
     ms_memoryCachedBytes := alignSamplePoints (ms_memoryCachedBytes s) b,
     ms_memoryCommittedBytes := alignSamplePoints (ms_memoryCommittedBytes s) b,
     ms_memoryCommitLimitBytes := alignSamplePoints (ms_memoryCommitLimitBytes s) b,
     ms_systemProcessCount := alignSamplePoints (ms_systemProcessCount s) b,
     ms_systemThreadCount := alignSamplePoints (ms_systemThreadCount s) b,
     ms_systemHandleCount := alignSamplePoints (ms_systemHandleCount s) b,
     ms_diskUsagePercent := alignSamplePoints (ms_diskUsagePercent s) b,
     ms_diskUsedBytes := alignSamplePoints (ms_diskUsedBytes s) b,
     ms_diskReadBytesPerSec := alignSamplePoints (ms_diskReadBytesPerSec s) b,
     ms_diskWriteBytesPerSec := alignSamplePoints (ms_diskWriteBytesPerSec s) b,
     ms_networkRxBytesPerSec := alignSamplePoints (ms_networkRxBytesPerSec s) b,
     ms_networkTxBytesPerSec := alignSamplePoints (ms_networkTxBytesPerSec s) b,
     ms_trafficRxBytes := alignSamplePoints (ms_trafficRxBytes s) b,
     ms_trafficTxBytes := alignSamplePoints (ms_trafficTxBytes s) b\<rparr>"

definition align_instances :: "int \<Rightarrow> MetricSeries \<Rightarrow> MetricSeries" where
  "align_instances b s = s\<lparr>
     ms_cpus := map (align_cpu b) (ms_cpus s),
     ms_disks := map (align_disk b) (ms_disks s),
     ms_storagePools := map (align_pool b) (ms_storagePools s),
     ms_networks := map (align_network b) (ms_networks s),
     ms_gpus := map (align_gpu b) (ms_gpus s),
     ms_temperatureSensors := map (align_sensor b) (ms_temperatureSensors s),
     ms_fans := map (align_fan b) (ms_fans s)\<rparr>"

definition alignMetricSeriesToWindow :: "MetricSeries \<Rightarrow> MetricWindow \<Rightarrow> MetricSeries" where
  "alignMetricSeriesToWindow series window =
     (if window_bucketMs window = 0 then series
      else align_instances (window_bucketMs window) (align_scalars (window_bucketMs window) series))"

subsection \<open>Sensors a device does not have\<close>

definition hasMetricSeries :: "SamplePoint list \<Rightarrow> bool" where
  "hasMetricSeries points \<longleftrightarrow> (\<exists>point \<in> set points. sp_value point > 0)"

definition hasCpuTemperatureSeries :: "MetricSeries \<Rightarrow> bool" where
  "hasCpuTemperatureSeries series \<longleftrightarrow>
     hasMetricSeries (ms_cpuTemperatureC series) \<or> (\<exists>cpu \<in> set (ms_cpus series). hasMetricSeries (xc_temperatureC cpu))"

definition has_temperature_series :: "MetricSeries \<Rightarrow> bool" where
  "has_temperature_series series \<longleftrightarrow> (\<exists>sensor \<in> set (ms_temperatureSensors series). \<exists>point \<in> set (xt_currentC sensor). sp_value point > 0)"

definition availability_map :: "DeviceMetricOption list \<Rightarrow> (DeviceMetricKey, bool) jsmap" where
  "availability_map availableMetrics = fold (\<lambda>item. map_set (mo_key item) (mo_available item)) availableMetrics []"

definition sanitizeUnsupportedMetricSeries :: "MetricSeries \<Rightarrow> DeviceMetricOption list \<Rightarrow> MetricSeries" where
  "sanitizeUnsupportedMetricSeries series availableMetrics =
     (let available = availability_map availableMetrics;
          sanitized = (if map_get available TemperatureSources = Some False
            then series\<lparr>ms_temperatureSensors := []\<rparr> else series)
      in if map_get available CpuTemperature = Some False \<and> \<not> hasCpuTemperatureSeries sanitized
         then sanitized\<lparr>ms_cpuTemperatureC := [], ms_cpus := map (\<lambda>cpu. cpu\<lparr>xc_temperatureC := []\<rparr>) (ms_cpus sanitized)\<rparr>
         else sanitized)"

definition markSeriesBackedMetricAvailability :: "DeviceMetricOption list \<Rightarrow> MetricSeries \<Rightarrow> DeviceMetricOption list" where
  "markSeriesBackedMetricAvailability availableMetrics series =
     (if \<not> hasCpuTemperatureSeries series \<and> \<not> has_temperature_series series then availableMetrics
      else map (\<lambda>item.
             if mo_key item = CpuTemperature \<and> hasCpuTemperatureSeries series then item\<lparr>mo_available := True\<rparr>
             else if mo_key item = TemperatureSources \<and> has_temperature_series series then item\<lparr>mo_available := True\<rparr>
             else item) availableMetrics)"

subsection \<open>The answer\<close>

primrec METRIC_WINDOW_DURATION_MS :: "MetricWindow \<Rightarrow> int" where
  "METRIC_WINDOW_DURATION_MS W1m = 60 * 1000"
| "METRIC_WINDOW_DURATION_MS W5m = 5 * 60 * 1000"
| "METRIC_WINDOW_DURATION_MS W15m = 15 * 60 * 1000"
| "METRIC_WINDOW_DURATION_MS W1h = 60 * 60 * 1000"
| "METRIC_WINDOW_DURATION_MS W6h = 6 * 60 * 60 * 1000"
| "METRIC_WINDOW_DURATION_MS W24h = 24 * 60 * 60 * 1000"
| "METRIC_WINDOW_DURATION_MS W1d = 24 * 60 * 60 * 1000"
| "METRIC_WINDOW_DURATION_MS W7d = 7 * 24 * 60 * 60 * 1000"
| "METRIC_WINDOW_DURATION_MS W1w = 7 * 24 * 60 * 60 * 1000"
| "METRIC_WINDOW_DURATION_MS W30d = 30 * 24 * 60 * 60 * 1000"
| "METRIC_WINDOW_DURATION_MS W1mo = 30 * 24 * 60 * 60 * 1000"
| "METRIC_WINDOW_DURATION_MS W90d = 90 * 24 * 60 * 60 * 1000"
| "METRIC_WINDOW_DURATION_MS W1y = 365 * 24 * 60 * 60 * 1000"

record latest_metrics =
  rl_hardwareSampledAt :: "string option"
  rl_cpuTemperatureSampledAt :: "string option"
  rl_system :: SystemStats
  rl_cpuUsagePercent :: num
  rl_cpuFrequencyMHz :: "num option"
  rl_cpuTemperatureC :: "num option"
  rl_cpuPackages :: "CpuPackageStats list"
  rl_memoryUsedBytes :: num
  rl_memoryTotalBytes :: num
  rl_memoryAvailableBytes :: num
  rl_memoryCachedBytes :: num
  rl_memoryCommittedBytes :: num
  rl_memoryCommitLimitBytes :: num
  rl_memorySpeedMHz :: "num option"
  rl_memorySlotCount :: "num option"
  rl_memoryFormFactor :: "string option"
  rl_memoryType :: "string option"
  rl_memoryCompressedBytes :: "num option"
  rl_memoryPressureLevel :: "MemoryPressureLevel option"
  rl_power :: "PowerStats option"
  rl_battery :: "BatteryStats option"
  rl_thermal :: "ThermalStats option"
  rl_swapUsedBytes :: num
  rl_swapTotalBytes :: num
  rl_diskUsedBytes :: num
  rl_diskTotalBytes :: num
  rl_networkRxBytesPerSec :: num
  rl_networkTxBytesPerSec :: num
  rl_disks :: "DiskDeviceStats list"
  rl_storagePools :: "StoragePoolStats list"
  rl_networkInterfaces :: "NetworkInterfaceStats list"
  rl_gpus :: "GpuDeviceStats list"
  rl_temperatureSensors :: "TemperatureSensorReading list"
  rl_sensorBackends :: "SensorBackendStatus list"
  rl_unavailableMetrics :: "DeviceMetricKey list"
  rl_fans :: "FanSensorStats list"

definition fan_rpm_enabled :: "DeviceMetricConfigValue \<Rightarrow> FanSensorStats \<Rightarrow> bool" where
  "fan_rpm_enabled metricConfig fan \<longleftrightarrow> FanRpm \<in> set (cf_enabledMetrics metricConfig) \<and>
     (case Option.bind (cf_instanceMetricConfig metricConfig) (\<lambda>m. map_get m (fn_id fan)) of
        None \<Rightarrow> True | Some metrics \<Rightarrow> FanRpm \<in> set metrics)"

definition fan_view :: "DeviceMetricConfigValue \<Rightarrow> (string, string) jsmap \<Rightarrow> FanSensorStats \<Rightarrow> FanSensorStats" where
  "fan_view metricConfig notes fan = fan\<lparr>
     fn_rpm := (if fan_rpm_enabled metricConfig fan then fn_rpm fan else 0),
     fn_rpmStatus := (if fan_rpm_enabled metricConfig fan then fn_rpmStatus fan else Some RpmDisabled),
     fn_note := Some (nullish (map_get notes (fn_id fan)) (nullish (fn_note fan) []))\<rparr>"

definition latest_view :: "DeviceRealtimeState \<Rightarrow> DeviceMetricConfigValue \<Rightarrow> (string, string) jsmap \<Rightarrow> latest_metrics" where
  "latest_view state metricConfig notes =
     (let latest = filterAgentPayloadInstances (rs_latest state) metricConfig; memory = pa_memory latest
      in \<lparr>rl_hardwareSampledAt = pa_hardwareSampledAt latest,
          rl_cpuTemperatureSampledAt = pa_cpuTemperatureSampledAt latest,
          rl_system = pa_system (rs_latest state),
          rl_cpuUsagePercent = pa_cpuUsagePercent (rs_latest state),
          rl_cpuFrequencyMHz = resolveCpuFrequencyMHz latest,
          rl_cpuTemperatureC = resolveCpuTemperatureC latest,
          rl_cpuPackages = nullish (pa_cpuPackages latest) [],
          rl_memoryUsedBytes = me_usedBytes memory,
          rl_memoryTotalBytes = me_totalBytes memory,
          rl_memoryAvailableBytes = me_availableBytes memory,
          rl_memoryCachedBytes = me_cachedBytes memory,
          rl_memoryCommittedBytes = me_committedBytes memory,
          rl_memoryCommitLimitBytes = me_commitLimitBytes memory,
          rl_memorySpeedMHz = me_speedMHz memory,
          rl_memorySlotCount = me_slotCount memory,
          rl_memoryFormFactor = me_formFactor memory,
          rl_memoryType = me_memoryType memory,
          rl_memoryCompressedBytes = me_compressedBytes memory,
          rl_memoryPressureLevel = me_pressureLevel memory,
          rl_power = pa_power latest,
          rl_battery = pa_battery latest,
          rl_thermal = pa_thermal latest,
          rl_swapUsedBytes = me_swapUsedBytes memory,
          rl_swapTotalBytes = me_swapTotalBytes memory,
          rl_diskUsedBytes = su_usedBytes (pa_diskUsage latest),
          rl_diskTotalBytes = su_totalBytes (pa_diskUsage latest),
          rl_networkRxBytesPerSec = nt_rxBytesPerSec (pa_networkRate latest),
          rl_networkTxBytesPerSec = nt_txBytesPerSec (pa_networkRate latest),
          rl_disks = nullish (pa_disks latest) [],
          rl_storagePools = (if StoragePools \<in> set (cf_enabledMetrics metricConfig) then nullish (pa_storagePools latest) [] else []),
          rl_networkInterfaces = nullish (pa_networkInterfaces latest) [],
          rl_gpus = pa_gpus latest,
          rl_temperatureSensors = nullish (pa_temperatureSensors latest) [],
          rl_sensorBackends = nullish (pa_sensorBackends latest) [],
          rl_unavailableMetrics = nullish (pa_unavailableMetrics latest) [],
          rl_fans = map (fan_view metricConfig notes) (pa_fans latest)\<rparr>)"

text \<open>
  The charts as the tree that \<open>budgetSeries\<close> walks: an object with a member per chart; of an instance's other members,
  which hold no charts, the identifier.
\<close>

definition chart_tree :: "MetricSeries \<Rightarrow> string payload" where
  "chart_tree s = Obj [
     (''cpuUsagePercent'', Points (ms_cpuUsagePercent s)),
     (''cpuFrequencyMHz'', Points (ms_cpuFrequencyMHz s)),
     (''cpuTemperatureC'', Points (ms_cpuTemperatureC s)),
     (''gpuUsagePercent'', Points (ms_gpuUsagePercent s)),
     (''gpuEncodePercent'', Points (ms_gpuEncodePercent s)),
     (''gpuDecodePercent'', Points (ms_gpuDecodePercent s)),
     (''gpuFrequencyMHz'', Points (ms_gpuFrequencyMHz s)),
     (''gpuMemoryUsagePercent'', Points (ms_gpuMemoryUsagePercent s)),
     (''gpuMemoryUsedBytes'', Points (ms_gpuMemoryUsedBytes s)),
     (''gpuTemperatureC'', Points (ms_gpuTemperatureC s)),
     (''memoryUsagePercent'', Points (ms_memoryUsagePercent s)),
     (''swapUsagePercent'', Points (ms_swapUsagePercent s)),
     (''memoryUsedBytes'', Points (ms_memoryUsedBytes s)),
     (''swapUsedBytes'', Points (ms_swapUsedBytes s)),
     (''memoryAvailableBytes'', Points (ms_memoryAvailableBytes s)),
     (''memoryCachedBytes'', Points (ms_memoryCachedBytes s)),
     (''memoryCommittedBytes'', Points (ms_memoryCommittedBytes s)),
     (''memoryCommitLimitBytes'', Points (ms_memoryCommitLimitBytes s)),
     (''systemProcessCount'', Points (ms_systemProcessCount s)),
     (''systemThreadCount'', Points (ms_systemThreadCount s)),
     (''systemHandleCount'', Points (ms_systemHandleCount s)),
     (''diskUsagePercent'', Points (ms_diskUsagePercent s)),
     (''diskUsedBytes'', Points (ms_diskUsedBytes s)),
     (''diskReadBytesPerSec'', Points (ms_diskReadBytesPerSec s)),
     (''diskWriteBytesPerSec'', Points (ms_diskWriteBytesPerSec s)),
     (''networkRxBytesPerSec'', Points (ms_networkRxBytesPerSec s)),
     (''networkTxBytesPerSec'', Points (ms_networkTxBytesPerSec s)),
     (''trafficRxBytes'', Points (ms_trafficRxBytes s)),
     (''trafficTxBytes'', Points (ms_trafficTxBytes s)),
     (''cpus'', Arr (map (\<lambda>cpu. Obj [(''id'', Leaf (xc_id cpu)), (''usagePercent'', Points (xc_usagePercent cpu)),
        (''frequencyMHz'', Points (xc_frequencyMHz cpu)), (''temperatureC'', Points (xc_temperatureC cpu))]) (ms_cpus s))),
     (''disks'', Arr (map (\<lambda>disk. Obj [(''id'', Leaf (xd_id disk)), (''totalBytes'', Points (xd_totalBytes disk)),
        (''usagePercent'', Points (xd_usagePercent disk)), (''activePercent'', Points (xd_activePercent disk)),
        (''usedBytes'', Points (xd_usedBytes disk)), (''readBytesPerSec'', Points (xd_readBytesPerSec disk)),
        (''writeBytesPerSec'', Points (xd_writeBytesPerSec disk)), (''temperatureC'', Points (xd_temperatureC disk))]) (ms_disks s))),
     (''storagePools'', Arr (map (\<lambda>pool. Obj [(''id'', Leaf (xp_id pool)), (''totalBytes'', Points (xp_totalBytes pool)),
        (''usedBytes'', Points (xp_usedBytes pool)), (''availableBytes'', Points (xp_availableBytes pool)),
        (''usagePercent'', Points (xp_usagePercent pool))]) (ms_storagePools s))),
     (''networks'', Arr (map (\<lambda>network. Obj [(''id'', Leaf (xn_id network)), (''rxBytesPerSec'', Points (xn_rxBytesPerSec network)),
        (''txBytesPerSec'', Points (xn_txBytesPerSec network)), (''trafficRxBytes'', Points (xn_trafficRxBytes network)),
        (''trafficTxBytes'', Points (xn_trafficTxBytes network))]) (ms_networks s))),
     (''gpus'', Arr (map (\<lambda>gpu. Obj [(''id'', Leaf (xg_id gpu)), (''usagePercent'', Points (xg_usagePercent gpu)),
        (''encodePercent'', Points (xg_encodePercent gpu)), (''decodePercent'', Points (xg_decodePercent gpu)),
        (''frequencyMHz'', Points (xg_frequencyMHz gpu)), (''memoryUsagePercent'', Points (xg_memoryUsagePercent gpu)),
        (''memoryUsedBytes'', Points (xg_memoryUsedBytes gpu)), (''temperatureC'', Points (xg_temperatureC gpu))]) (ms_gpus s))),
     (''fans'', Arr (map (\<lambda>fan. Obj [(''id'', Leaf (xf_id fan)), (''rpm'', Points (xf_rpm fan))]) (ms_fans s))),
     (''temperatureSensors'', Arr (map (\<lambda>sensor. Obj [(''id'', Leaf (xt_id sensor)), (''currentC'', Points (xt_currentC sensor))])
        (ms_temperatureSensors s)))]"

record DeviceMetricsResponse =
  mr_device :: DeviceDetail
  mr_status :: DeviceStatus
  mr_lastSeenAt :: string
  mr_window :: MetricWindow
  mr_rangeStart :: string
  mr_rangeEnd :: string
  mr_enabledMetrics :: "DeviceMetricKey list"
  mr_enabledDeviceIds :: "(DeviceBlockKey, string list) jsmap"
  mr_instanceMetricConfig :: "(string, DeviceMetricKey list) jsmap"
  mr_availableMetrics :: "DeviceMetricOption list"
  mr_latest :: latest_metrics
  mr_series :: "string payload"
  mr_targetPoints :: "num option"

definition registered_detail :: "DeviceRealtimeState \<Rightarrow> DeviceRecord option \<Rightarrow> DeviceDetail" where
  "registered_detail state registered =
     (toDetail state)\<lparr>sm_sortOrder := map_option dv_sortOrder registered, sm_group := Option.bind registered dv_group\<rparr>"

definition device_charts :: "DeviceRealtimeState \<Rightarrow> DeviceMetricConfigValue \<Rightarrow> TimeSeriesRecord list \<Rightarrow> MetricWindow \<Rightarrow> MetricSeries" where
  "device_charts state metricConfig points window =
     sanitizeUnsupportedMetricSeries (alignMetricSeriesToWindow (timeSeriesToMetricSeries points metricConfig) window)
       (getAvailableMetrics state)"

definition metrics_response :: "int \<Rightarrow> DeviceRealtimeState \<Rightarrow> DeviceRecord option \<Rightarrow> (string, string) jsmap \<Rightarrow> DeviceMetricConfigValue
    \<Rightarrow> TimeSeriesRecord list \<Rightarrow> MetricWindow \<Rightarrow> num option \<Rightarrow> DeviceMetricsResponse" where
  "metrics_response now state registered notes metricConfig points window pointBudget =
     (let series = device_charts state metricConfig points window
      in \<lparr>mr_device = registered_detail state registered,
          mr_status = rs_status state,
          mr_lastSeenAt = rs_lastSeenAt state,
          mr_window = window,
          mr_rangeStart = toISOString (now - METRIC_WINDOW_DURATION_MS window),
          mr_rangeEnd = toISOString now,
          mr_enabledMetrics = cf_enabledMetrics metricConfig,
          mr_enabledDeviceIds = nullish (cf_enabledDeviceIds metricConfig) [],
          mr_instanceMetricConfig = nullish (cf_instanceMetricConfig metricConfig) [],
          mr_availableMetrics = markSeriesBackedMetricAvailability (getAvailableMetrics state) series,
          mr_latest = latest_view state metricConfig notes,
          mr_series = budgetSeries (chart_tree series) pointBudget,
          mr_targetPoints = pointBudget\<rparr>)"

subsection \<open>All charts are aligned alike\<close>

text \<open>Every chart of an answer, of the device and of its instances.\<close>

definition chart_lists :: "MetricSeries \<Rightarrow> SamplePoint list list" where
  "chart_lists s =
     [ms_cpuUsagePercent s, ms_cpuFrequencyMHz s, ms_cpuTemperatureC s, ms_gpuUsagePercent s, ms_gpuEncodePercent s,
      ms_gpuDecodePercent s, ms_gpuFrequencyMHz s, ms_gpuMemoryUsagePercent s, ms_gpuMemoryUsedBytes s, ms_gpuTemperatureC s,
      ms_memoryUsagePercent s, ms_swapUsagePercent s, ms_memoryUsedBytes s, ms_swapUsedBytes s, ms_memoryAvailableBytes s,
      ms_memoryCachedBytes s, ms_memoryCommittedBytes s, ms_memoryCommitLimitBytes s, ms_systemProcessCount s,
      ms_systemThreadCount s, ms_systemHandleCount s, ms_diskUsagePercent s, ms_diskUsedBytes s, ms_diskReadBytesPerSec s,
      ms_diskWriteBytesPerSec s, ms_networkRxBytesPerSec s, ms_networkTxBytesPerSec s, ms_trafficRxBytes s, ms_trafficTxBytes s]
     @ concat (map (\<lambda>c. [xc_usagePercent c, xc_frequencyMHz c, xc_temperatureC c]) (ms_cpus s))
     @ concat (map (\<lambda>d. [xd_totalBytes d, xd_usagePercent d, xd_activePercent d, xd_usedBytes d, xd_readBytesPerSec d,
         xd_writeBytesPerSec d, xd_temperatureC d]) (ms_disks s))
     @ concat (map (\<lambda>p. [xp_totalBytes p, xp_usedBytes p, xp_availableBytes p, xp_usagePercent p]) (ms_storagePools s))
     @ concat (map (\<lambda>n. [xn_rxBytesPerSec n, xn_txBytesPerSec n, xn_trafficRxBytes n, xn_trafficTxBytes n]) (ms_networks s))
     @ concat (map (\<lambda>g. [xg_usagePercent g, xg_encodePercent g, xg_decodePercent g, xg_frequencyMHz g, xg_memoryUsagePercent g,
         xg_memoryUsedBytes g, xg_temperatureC g]) (ms_gpus s))
     @ map xf_rpm (ms_fans s) @ map xt_currentC (ms_temperatureSensors s)"

lemmas align_parts = align_cpu_def align_disk_def align_pool_def align_network_def align_gpu_def align_sensor_def align_fan_def

lemma chart_lists_align:
  "chart_lists (align_instances b (align_scalars b s)) = map (\<lambda>points. alignSamplePoints points b) (chart_lists s)"
  by (simp add: chart_lists_def align_instances_def align_scalars_def align_parts comp_def map_concat)

text \<open>The samples of a chart whose time lies in the bucket that starts at \<open>t\<close>.\<close>

definition bucket_time :: "int \<Rightarrow> SamplePoint \<Rightarrow> int option" where
  "bucket_time b point = map_option (\<lambda>time. time div b * b) (Date_parse (sp_timestamp point))"

definition in_bucket :: "int \<Rightarrow> SamplePoint list \<Rightarrow> int \<Rightarrow> SamplePoint list" where
  "in_bucket b points t = filter (\<lambda>point. bucket_time b point = Some t) points"

text \<open>One sample per bucket that has any, in order, with the last value of the bucket.\<close>

definition bucketed :: "int \<Rightarrow> SamplePoint list \<Rightarrow> SamplePoint list \<Rightarrow> bool" where
  "bucketed b points out \<longleftrightarrow> (\<exists>starts. sorted_wrt (<) starts \<and> (\<forall>t. t \<in> set starts \<longleftrightarrow> in_bucket b points t \<noteq> []) \<and>
     out = map (\<lambda>t. \<lparr>sp_timestamp = toISOString t, sp_value = sp_value (last (in_bucket b points t))\<rparr>) starts)"

lemma align_is_group_fold:
  "fold (\<lambda>point m. case Date_parse (sp_timestamp point) of None \<Rightarrow> m
       | Some time \<Rightarrow> let t = time div b * b in map_set t (sample (toISOString t) (sp_value point)) m) points m =
   fold (group_step (\<lambda>p. the (bucket_time b p)) (\<lambda>_ p. sample (toISOString (the (bucket_time b p))) (sp_value p)))
     (filter (\<lambda>p. bucket_time b p \<noteq> None) points) m"
  by (induction points arbitrary: m) (auto simp: bucket_time_def group_step_def Let_def split: option.split)

lemma filter_readable:
  "filter (\<lambda>p. the (bucket_time b p) = t) (filter (\<lambda>p. bucket_time b p \<noteq> None) points) = in_bucket b points t"
  unfolding in_bucket_def filter_filter by (rule filter_cong) auto

lemma alignSamplePoints_bucketed: "bucketed b points (alignSamplePoints points b)"
proof -
  let ?key = "\<lambda>p. the (bucket_time b p)" and ?ps = "filter (\<lambda>p. bucket_time b p \<noteq> None) points"
  obtain starts where starts: "alignSamplePoints points b =
      map (\<lambda>t. sample (toISOString (?key (last (in_bucket b points t)))) (sp_value (last (in_bucket b points t)))) starts"
    "sorted_wrt (<) starts" "set starts = ?key ` set ?ps"
    using last_per_key [of ?key "\<lambda>p. sample (toISOString (?key p)) (sp_value p)" ?ps]
    unfolding alignSamplePoints_def Let_def align_is_group_fold [unfolded Let_def] filter_readable by blast
  have mem: "t \<in> set starts \<longleftrightarrow> in_bucket b points t \<noteq> []" for t
    by (force simp: starts(3) in_bucket_def filter_empty_conv)
  have "?key (last (in_bucket b points t)) = t" if "t \<in> set starts" for t
    using last_in_set [of "in_bucket b points t"] that mem by (auto simp: in_bucket_def)
  with starts(1) have "alignSamplePoints points b =
      map (\<lambda>t. sample (toISOString t) (sp_value (last (in_bucket b points t)))) starts"
    by (simp cong: map_cong)
  with starts(2) mem show ?thesis unfolding bucketed_def by blast
qed

lemma bucketed_grid:
  assumes "0 < b" "sorted_wrt (<) starts" "\<forall>t \<in> set starts. t mod b = 0 \<and> printable_time t"
    "points = map (\<lambda>t. sample (toISOString t) (f t)) starts"
  shows "in_bucket b points t = (if t \<in> set starts then [sample (toISOString t) (f t)] else [])"
proof -
  have time: "bucket_time b (sample (toISOString t) v) = Some t" if "t \<in> set starts" for t v
    using that assms(1,3) by (auto simp: bucket_time_def printable_time_def Date_parse_toISOString)
  have "in_bucket b points t = map (\<lambda>t. sample (toISOString t) (f t)) (filter (\<lambda>x. x = t) starts)"
    unfolding assms(4) in_bucket_def filter_map comp_def
    by (rule arg_cong [of _ _ "map _"], rule filter_cong) (auto simp: time)
  moreover have "filter (\<lambda>x. x = t) starts = (if t \<in> set starts then [t] else [])"
    using strict_sorted_iff [of starts] assms(2)
    by (induction starts) auto
  ultimately show ?thesis by simp
qed

text \<open>
  C10: for the windows served from minute or hour aggregates, every chart of the answer, of the device and of each
  instance, is cut to the window's buckets in the same way: one sample per bucket that has readable samples, in time
  order, stamped with the start of the bucket and carrying its last value; the live windows are left as they are; and a
  chart that already has one sample at the start of each bucket is not changed.
\<close>

theorem charts_aligned:
  fixes s window
  defines "b \<equiv> window_bucketMs window"
  shows "(b = 0 \<longrightarrow> alignMetricSeriesToWindow s window = s) \<and>
    (b \<noteq> 0 \<longrightarrow> list_all2 (bucketed b) (chart_lists s) (chart_lists (alignMetricSeriesToWindow s window)) \<and>
       (\<forall>starts f. sorted_wrt (<) starts \<and> (\<forall>t \<in> set starts. t mod b = 0 \<and> printable_time t) \<longrightarrow>
          alignSamplePoints (map (\<lambda>t. \<lparr>sp_timestamp = toISOString t, sp_value = f t\<rparr>) starts) b =
          map (\<lambda>t. \<lparr>sp_timestamp = toISOString t, sp_value = f t\<rparr>) starts))"
proof (intro conjI impI allI)
  assume "b = 0"
  then show "alignMetricSeriesToWindow s window = s" by (simp add: alignMetricSeriesToWindow_def b_def)
next
  assume "b \<noteq> 0"
  then show "list_all2 (bucketed b) (chart_lists s) (chart_lists (alignMetricSeriesToWindow s window))"
    by (simp add: alignMetricSeriesToWindow_def chart_lists_align list_all2_conv_all_nth alignSamplePoints_bucketed flip: b_def)
next
  fix starts f
  assume "b \<noteq> 0" and grid: "sorted_wrt (<) starts \<and> (\<forall>t \<in> set starts. t mod b = 0 \<and> printable_time t)"
  let ?points = "map (\<lambda>t. sample (toISOString t) (f t)) starts"
  have "0 < b" using \<open>b \<noteq> 0\<close> by (simp add: b_def window_bucketMs_def split: if_splits)
  note buckets = bucketed_grid [OF this, of starts ?points f]
  obtain starts' where starts': "sorted_wrt (<) starts'" "\<And>t. t \<in> set starts' \<longleftrightarrow> in_bucket b ?points t \<noteq> []"
    "alignSamplePoints ?points b = map (\<lambda>t. sample (toISOString t) (sp_value (last (in_bucket b ?points t)))) starts'"
    using alignSamplePoints_bucketed [of b ?points] unfolding bucketed_def by blast
  have "set starts' = set starts"
    using starts'(2) buckets grid by (auto split: if_splits)
  with starts'(1) grid have "starts' = starts"
    by (simp add: strict_sorted_equal)
  then show "alignSamplePoints ?points b = ?points"
    using starts'(3) buckets grid by simp
qed

definition demo_chart :: MetricSeries where
  "demo_chart = (timeSeriesToMetricSeries [] default_config)
     \<lparr>ms_cpuUsagePercent := [sample (toISOString 60000) 10, sample (toISOString 90000) 30, sample (toISOString 150000) 20]\<rparr>"

theorem charts_aligned_witness:
  "list_all2 (bucketed 60000) (chart_lists demo_chart) (chart_lists (alignMetricSeriesToWindow demo_chart W1h)) \<and>
   alignMetricSeriesToWindow demo_chart W1m = demo_chart \<and>
   alignSamplePoints [\<lparr>sp_timestamp = toISOString 60000, sp_value = 5\<rparr>] 60000 = [\<lparr>sp_timestamp = toISOString 60000, sp_value = 5\<rparr>]"
proof -
  have "printable_time 60000"
    by (simp add: printable_time_def getUTCFullYear_def YearFromDay_def Day_def msPerDay_def DayFromYear_def)
  then have "sorted_wrt (<) [60000 :: int] \<and> (\<forall>t \<in> set [60000]. t mod 60000 = 0 \<and> printable_time t)" by simp
  then have "alignSamplePoints (map (\<lambda>t. sample (toISOString t) 5) [60000]) 60000 = map (\<lambda>t. sample (toISOString t) 5) [60000]"
    using charts_aligned [of W1h demo_chart] unfolding window_bucketMs_def by (auto simp del: list.map)
  with charts_aligned [of W1h demo_chart] charts_aligned [of W1m demo_chart] show ?thesis
    by (simp add: window_bucketMs_def)
qed

subsection \<open>Charts and availability agree\<close>

lemma availability_fold:
  assumes "distinct (map mo_key items)"
  shows "map_get (fold (\<lambda>item. map_set (mo_key item) (mo_available item)) items m) k = Some v \<longleftrightarrow>
    \<lparr>mo_key = k, mo_available = v\<rparr> \<in> set items \<or> k \<notin> mo_key ` set items \<and> map_get m k = Some v"
  using assms
proof (induction items arbitrary: m)
  case (Cons i items)
  have "\<lparr>mo_key = k, mo_available = v\<rparr> = i \<longleftrightarrow> mo_key i = k \<and> mo_available i = v"
    by (cases i) auto
  moreover have "\<lparr>mo_key = k, mo_available = v\<rparr> \<in> set items \<Longrightarrow> k \<in> mo_key ` set items"
    by force
  ultimately show ?case
    using Cons.prems by (simp add: Cons.IH) blast
qed simp

lemma availability_lookup:
  "distinct (map mo_key items) \<Longrightarrow>
   map_get (availability_map items) k = Some v \<longleftrightarrow> \<lparr>mo_key = k, mo_available = v\<rparr> \<in> set items"
  by (simp add: availability_map_def availability_fold)

lemma available_keys: "map mo_key (getAvailableMetrics state) = ALL_DEVICE_METRIC_KEYS"
  unfolding getAvailableMetrics_entries fst_availabilityEntries [of "rs_latest state", symmetric]
  by (simp add: case_prod_unfold)

lemma available_lookup:
  "map_get (availability_map (getAvailableMetrics state)) k = Some v \<longleftrightarrow> \<lparr>mo_key = k, mo_available = v\<rparr> \<in> set (getAvailableMetrics state)"
  by (rule availability_lookup) (simp add: available_keys distinct_all_keys)

lemma available_total: "\<exists>v. \<lparr>mo_key = k, mo_available = v\<rparr> \<in> set (getAvailableMetrics state)"
proof -
  have "k \<in> mo_key ` set (getAvailableMetrics state)"
    using available_keys [of state] all_keys_complete [of k] by (metis list.set_map)
  then show ?thesis by (metis DeviceMetricOption.surjective imageE old.unit.exhaust)
qed

definition backed :: "MetricSeries \<Rightarrow> DeviceMetricKey \<Rightarrow> bool" where
  "backed s k \<longleftrightarrow> k = CpuTemperature \<and> hasCpuTemperatureSeries s \<or> k = TemperatureSources \<and> has_temperature_series s"

lemma mark_backed:
  "markSeriesBackedMetricAvailability items s = map (\<lambda>item. item\<lparr>mo_available := mo_available item \<or> backed s (mo_key item)\<rparr>) items"
  unfolding markSeriesBackedMetricAvailability_def
  by (auto simp: backed_def intro!: map_idI [symmetric])

lemma marked_iff:
  "\<lparr>mo_key = k, mo_available = v\<rparr> \<in> set (markSeriesBackedMetricAvailability items s) \<longleftrightarrow>
    (if backed s k then v \<and> k \<in> mo_key ` set items else \<lparr>mo_key = k, mo_available = v\<rparr> \<in> set items)"
proof -
  have "\<lparr>mo_key = k, mo_available = v\<rparr> = item\<lparr>mo_available := mo_available item \<or> backed s (mo_key item)\<rparr> \<longleftrightarrow>
      mo_key item = k \<and> (if backed s k then v else item = \<lparr>mo_key = k, mo_available = v\<rparr>)" for item
    by (cases item) auto
  then show ?thesis
    unfolding mark_backed set_map image_iff by (auto simp: image_iff)
qed

lemma sanitized_unavailable:
  fixes s state
  defines "out \<equiv> sanitizeUnsupportedMetricSeries s (getAvailableMetrics state)"
  shows "\<lparr>mo_key = CpuTemperature, mo_available = False\<rparr> \<in> set (getAvailableMetrics state) \<Longrightarrow>
      hasCpuTemperatureSeries out \<or> ms_cpuTemperatureC out = [] \<and> (\<forall>cpu \<in> set (ms_cpus out). xc_temperatureC cpu = [])"
    and "\<lparr>mo_key = TemperatureSources, mo_available = False\<rparr> \<in> set (getAvailableMetrics state) \<Longrightarrow> ms_temperatureSensors out = []"
  by (auto simp: out_def sanitizeUnsupportedMetricSeries_def Let_def available_lookup hasCpuTemperatureSeries_def)

text \<open>
  The answer answers for every metric once, and its charts agree with what it says is available: a device whose
  processor temperature or temperature sensors are given as unavailable shows no chart of them, a chart with a reading
  makes its metric available, nothing available is withdrawn; and a fan whose speed is switched off shows none.
\<close>

theorem charts_match_availability:
  fixes now state registered fanNotes config points window budget
  defines "s \<equiv> device_charts state config points window"
  defines "answer \<equiv> metrics_response now state registered fanNotes config points window budget"
  shows "map mo_key (mr_availableMetrics answer) = ALL_DEVICE_METRIC_KEYS \<and>
    (\<lparr>mo_key = CpuTemperature, mo_available = False\<rparr> \<in> set (mr_availableMetrics answer) \<longrightarrow>
       ms_cpuTemperatureC s = [] \<and> (\<forall>cpu \<in> set (ms_cpus s). xc_temperatureC cpu = [])) \<and>
    (\<lparr>mo_key = TemperatureSources, mo_available = False\<rparr> \<in> set (mr_availableMetrics answer) \<longrightarrow> ms_temperatureSensors s = []) \<and>
    (hasCpuTemperatureSeries s \<longrightarrow> \<lparr>mo_key = CpuTemperature, mo_available = True\<rparr> \<in> set (mr_availableMetrics answer)) \<and>
    (has_temperature_series s \<longrightarrow> \<lparr>mo_key = TemperatureSources, mo_available = True\<rparr> \<in> set (mr_availableMetrics answer)) \<and>
    (\<forall>k. \<lparr>mo_key = k, mo_available = True\<rparr> \<in> set (getAvailableMetrics state) \<longrightarrow>
       \<lparr>mo_key = k, mo_available = True\<rparr> \<in> set (mr_availableMetrics answer)) \<and>
    (\<forall>fan \<in> set (rl_fans (mr_latest answer)). \<not> fan_rpm_enabled config fan \<longrightarrow> fn_rpm fan = 0 \<and> fn_rpmStatus fan = Some RpmDisabled)"
proof -
  have answer: "mr_availableMetrics answer = markSeriesBackedMetricAvailability (getAvailableMetrics state) s"
    "rl_fans (mr_latest answer) = map (fan_view config fanNotes) (pa_fans (filterAgentPayloadInstances (rs_latest state) config))"
    by (simp_all add: answer_def metrics_response_def s_def latest_view_def Let_def)
  have keys: "k \<in> mo_key ` set (getAvailableMetrics state)" for k
    using available_keys [of state] all_keys_complete [of k] by (metis list.set_map)
  have "map mo_key (mr_availableMetrics answer) = ALL_DEVICE_METRIC_KEYS"
    by (simp add: answer mark_backed comp_def available_keys)
  moreover have "fan_rpm_enabled config (fan_view config fanNotes fan) = fan_rpm_enabled config fan" for fan
    by (simp add: fan_rpm_enabled_def fan_view_def)
  then have "\<forall>fan \<in> set (rl_fans (mr_latest answer)). \<not> fan_rpm_enabled config fan \<longrightarrow> fn_rpm fan = 0 \<and> fn_rpmStatus fan = Some RpmDisabled"
    by (auto simp: answer fan_view_def)
  moreover note sanitized_unavailable [of state "alignMetricSeriesToWindow (timeSeriesToMetricSeries points config) window",
      folded device_charts_def, folded s_def]
  ultimately show ?thesis
    by (auto simp: answer marked_iff keys backed_def)
qed

definition demo_state :: DeviceRealtimeState where
  "demo_state = \<lparr>rs_identity = pa_identity (demo_payload 60000), rs_status = Online, rs_lastSeenAt = toISOString 60000,
     rs_latest = demo_payload 60000\<rparr>"

theorem charts_match_availability_witness:
  "\<lparr>mo_key = TemperatureSources, mo_available = False\<rparr> \<in> set (mr_availableMetrics
       (metrics_response 60000 demo_state None [] default_config [] W1h None)) \<and>
   ms_temperatureSensors (device_charts demo_state default_config [] W1h) = []"
proof -
  let ?s = "device_charts demo_state default_config [] W1h"
  let ?answer = "metrics_response 60000 demo_state None [] default_config [] W1h None"
  have base: "\<lparr>mo_key = TemperatureSources, mo_available = False\<rparr> \<in> set (getAvailableMetrics demo_state)"
    by (simp add: getAvailableMetrics_entries availabilityEntries_def metric_available_def quality_of_def demo_state_def
        demo_payload_def Let_def)
  then have "\<not> has_temperature_series ?s"
    by (simp add: device_charts_def has_temperature_series_def sanitized_unavailable)
  with base have "\<lparr>mo_key = TemperatureSources, mo_available = False\<rparr> \<in> set (mr_availableMetrics ?answer)"
    by (simp add: metrics_response_def Let_def marked_iff backed_def)
  with charts_match_availability [where now = 60000 and state = demo_state and registered = None and fanNotes = "[]"
      and config = default_config and points = "[]" and window = W1h and budget = None]
  show ?thesis by blast
qed

end
