(* ===== verification/Auth.thy ===== *)
theory Auth
  imports Utils
begin

text \<open>
  Console sessions and the failure limiter: \<open>apps/server/src/auth.ts\<close>.

  The hash of \<open>node:crypto\<close> is the parameter \<open>sha256\<close> (hex digest of a text).  The cookie's outer coding,
  \<open>JSON.parse\<close> of the base64url text, is the parameter \<open>decode\<close>: it gives the three members as read, each possibly
  absent or not a string (\<open>None\<close>), or fails (\<open>None\<close> as a whole).  Times are milliseconds.
\<close>

definition SESSION_IDLE_TTL_MS :: int where "SESSION_IDLE_TTL_MS = 90 * msPerDay"
definition SESSION_ABSOLUTE_TTL_MS :: int where "SESSION_ABSOLUTE_TTL_MS = 365 * msPerDay"
definition SESSION_RENEW_BEFORE_MS :: int where "SESSION_RENEW_BEFORE_MS = SESSION_IDLE_TTL_MS div 2"

record SessionValue =
  se_issuedAt :: string
  se_expiresAt :: string
  se_credentialVersion :: string

record raw_session =
  rw_issuedAt :: "string option"
  rw_expiresAt :: "string option"
  rw_credentialVersion :: "string option"

definition safeEqual :: "string \<Rightarrow> string \<Rightarrow> bool" where
  "safeEqual left right = (if length left \<noteq> length right then False else list_all2 (=) left right)"

definition credentialVersion :: "(string \<Rightarrow> string) \<Rightarrow> string \<Rightarrow> string" where
  "credentialVersion sha256 accessKey = sha256 accessKey"

definition createSession :: "(string \<Rightarrow> string) \<Rightarrow> string \<Rightarrow> int \<Rightarrow> SessionValue" where
  "createSession sha256 accessKey now =
     \<lparr>se_issuedAt = toISOString now, se_expiresAt = toISOString (now + SESSION_IDLE_TTL_MS),
      se_credentialVersion = credentialVersion sha256 accessKey\<rparr>"

definition parseSessionValue :: "(string \<Rightarrow> string) \<Rightarrow> (string \<Rightarrow> raw_session option) \<Rightarrow> string \<Rightarrow> string \<Rightarrow> int \<Rightarrow> SessionValue option" where
  "parseSessionValue sha256 decode encodedValue accessKey now =
     (case decode encodedValue of
        None \<Rightarrow> None
      | Some session \<Rightarrow>
          (case (rw_issuedAt session, rw_expiresAt session, rw_credentialVersion session) of
             (Some issued, Some expires, Some version) \<Rightarrow>
               (case (Date_parse issued, Date_parse expires) of
                  (Some issuedAt, Some expiresAt) \<Rightarrow>
                    if issuedAt > now \<or> expiresAt \<le> now then None
                    else if expiresAt - issuedAt > SESSION_ABSOLUTE_TTL_MS then None
                    else if \<not> safeEqual version (credentialVersion sha256 accessKey) then None
                    else Some \<lparr>se_issuedAt = toISOString issuedAt, se_expiresAt = toISOString expiresAt, se_credentialVersion = version\<rparr>
                | _ \<Rightarrow> None)
           | _ \<Rightarrow> None))"

definition renewSession :: "SessionValue \<Rightarrow> int \<Rightarrow> SessionValue option" where
  "renewSession session now =
     (case (Date_parse (se_issuedAt session), Date_parse (se_expiresAt session)) of
        (Some issuedAt, Some expiresAt) \<Rightarrow>
          if issuedAt > now \<or> expiresAt \<le> now then None
          else if expiresAt - now > SESSION_RENEW_BEFORE_MS then None
          else let nextExpiresAt = min (now + SESSION_IDLE_TTL_MS) (issuedAt + SESSION_ABSOLUTE_TTL_MS)
               in if nextExpiresAt \<le> expiresAt then None
                  else Some (session\<lparr>se_expiresAt := toISOString nextExpiresAt\<rparr>)
      | _ \<Rightarrow> None)"

definition millisecondsUntilSessionExpiry :: "SessionValue \<Rightarrow> int \<Rightarrow> int" where
  "millisecondsUntilSessionExpiry session now =
     (case Date_parse (se_expiresAt session) of None \<Rightarrow> 0 | Some expiresAt \<Rightarrow> max 0 (expiresAt - now))"

definition getBearerToken :: "string option \<Rightarrow> string option" where
  "getBearerToken header =
     (case header of
        None \<Rightarrow> None
      | Some h \<Rightarrow>
          if h = [] \<or> \<not> prefix ''Bearer '' h then None
          else let token = trim (drop (length ''Bearer '') h) in if token \<noteq> [] then Some token else None)"

definition AUTH_FAILURE_WINDOW_MS :: int where "AUTH_FAILURE_WINDOW_MS = 60000"
definition AUTH_FAILURE_MAX_ATTEMPTS :: int where "AUTH_FAILURE_MAX_ATTEMPTS = 5"

record failure_window =
  fw_startedAt :: int
  fw_count :: int

type_synonym AuthFailureRateLimiter = "(string, failure_window) jsmap"

definition limiter_allow :: "string \<Rightarrow> int \<Rightarrow> AuthFailureRateLimiter \<Rightarrow> bool" where
  "limiter_allow key now attempts =
     (case map_get attempts key of
        None \<Rightarrow> True
      | Some current \<Rightarrow>
          if now - fw_startedAt current \<ge> AUTH_FAILURE_WINDOW_MS then True else fw_count current < AUTH_FAILURE_MAX_ATTEMPTS)"

definition prune :: "int \<Rightarrow> AuthFailureRateLimiter \<Rightarrow> AuthFailureRateLimiter" where
  "prune now attempts = filter (\<lambda>(key, value). \<not> now - fw_startedAt value \<ge> AUTH_FAILURE_WINDOW_MS) attempts"

definition recordFailure :: "string \<Rightarrow> int \<Rightarrow> AuthFailureRateLimiter \<Rightarrow> AuthFailureRateLimiter" where
  "recordFailure key now attempts =
     (let fresh = prune now (map_set key \<lparr>fw_startedAt = now, fw_count = 1\<rparr> attempts)
      in case map_get attempts key of
           None \<Rightarrow> fresh
         | Some current \<Rightarrow>
             if now - fw_startedAt current \<ge> AUTH_FAILURE_WINDOW_MS then fresh
             else map_set key (current\<lparr>fw_count := fw_count current + 1\<rparr>) attempts)"

definition limiter_clear :: "string \<Rightarrow> AuthFailureRateLimiter \<Rightarrow> AuthFailureRateLimiter" where
  "limiter_clear key attempts = map_delete key attempts"

subsection \<open>Sessions\<close>

lemma safeEqual_iff [simp]: "safeEqual left right \<longleftrightarrow> left = right"
  by (auto simp: safeEqual_def list.rel_eq)

lemmas session_times = SESSION_IDLE_TTL_MS_def SESSION_ABSOLUTE_TTL_MS_def SESSION_RENEW_BEFORE_MS_def msPerDay_def

text \<open>
  A session cookie and the values it carries: the session as the code writes it, read back by \<open>decode\<close>.
\<close>

definition carries :: "(string \<Rightarrow> raw_session option) \<Rightarrow> string \<Rightarrow> SessionValue \<Rightarrow> bool" where
  "carries decode cookie s \<longleftrightarrow> decode cookie = Some \<lparr>rw_issuedAt = Some (se_issuedAt s), rw_expiresAt = Some (se_expiresAt s),
     rw_credentialVersion = Some (se_credentialVersion s)\<rparr>"

text \<open>The sessions a login can lead to: the first one, and those renewed at some later time.\<close>

inductive session_of_login :: "(string \<Rightarrow> string) \<Rightarrow> string \<Rightarrow> int \<Rightarrow> SessionValue \<Rightarrow> int \<Rightarrow> bool" for sha256 accessKey login where
  session_created: "session_of_login sha256 accessKey login (createSession sha256 accessKey login) (login + SESSION_IDLE_TTL_MS)"
| session_renewed: "session_of_login sha256 accessKey login s e \<Longrightarrow> renewSession s now = Some s' \<Longrightarrow> Date_parse (se_expiresAt s') = Some e'
    \<Longrightarrow> session_of_login sha256 accessKey login s' e'"

definition early_time :: "int \<Rightarrow> bool" where
  "early_time t \<longleftrightarrow> 0 \<le> t \<and> t < 4000000000000"

lemma parse_early: "0 \<le> t \<Longrightarrow> t < 4102444800000 \<Longrightarrow> Date_parse (toISOString t) = Some t"
  by (rule Date_parse_demo)

lemma session_of_login_facts:
  assumes "session_of_login sha256 accessKey login s e" "early_time login"
  shows "se_issuedAt s = toISOString login \<and> se_credentialVersion s = credentialVersion sha256 accessKey
    \<and> Date_parse (se_expiresAt s) = Some e \<and> se_expiresAt s = toISOString e
    \<and> login + SESSION_IDLE_TTL_MS \<le> e \<and> e \<le> login + SESSION_ABSOLUTE_TTL_MS"
  using assms
proof (induction rule: session_of_login.induct)
  case session_created
  then show ?case
    by (auto simp: createSession_def session_times early_time_def intro!: parse_early)
next
  case (session_renewed s e now s' e')
  then have login: "Date_parse (se_issuedAt s) = Some login"
    by (auto simp: early_time_def intro!: parse_early)
  define n where "n = min (now + SESSION_IDLE_TTL_MS) (login + SESSION_ABSOLUTE_TTL_MS)"
  have s': "s' = s\<lparr>se_expiresAt := toISOString n\<rparr>" "e < n"
    using session_renewed login by (auto simp: renewSession_def n_def Let_def split: if_splits)
  have "0 \<le> n" "n < 4102444800000"
    using session_renewed s'(2) by (auto simp: n_def session_times early_time_def)
  then have "e' = n"
    using session_renewed(3) s'(1) by (simp add: parse_early)
  then show ?case
    using session_renewed s' by (auto simp: n_def)
qed

text \<open>
  C18: the cookie of a login, renewed any number of times, is accepted exactly until its current expiry and only for
  the access key it was issued for; it keeps the login's issue time, and no sequence of renewals makes it outlive
  the login by more than 365 days.
\<close>

theorem session_lifetime:
  assumes "session_of_login sha256 accessKey login s e" "carries decode cookie s" "early_time login" "login \<le> now"
  shows "(parseSessionValue sha256 decode cookie key now = Some s \<longleftrightarrow> now < e \<and> sha256 key = sha256 accessKey)
    \<and> (parseSessionValue sha256 decode cookie key now = None \<longleftrightarrow> \<not> (now < e \<and> sha256 key = sha256 accessKey))
    \<and> e \<le> login + 365 * 86400000 \<and> login + 90 * 86400000 \<le> e"
proof -
  have f: "se_issuedAt s = toISOString login" "se_credentialVersion s = sha256 accessKey"
    "Date_parse (se_expiresAt s) = Some e" "se_expiresAt s = toISOString e"
    "login + SESSION_IDLE_TTL_MS \<le> e" "e \<le> login + SESSION_ABSOLUTE_TTL_MS"
    using session_of_login_facts [OF assms(1,3)] by (auto simp: credentialVersion_def)
  have "Date_parse (se_issuedAt s) = Some login"
    using f(1) assms(3) by (auto simp: early_time_def intro!: parse_early)
  then have "parseSessionValue sha256 decode cookie key now =
      (if now < e \<and> sha256 key = sha256 accessKey
       then Some \<lparr>se_issuedAt = toISOString login, se_expiresAt = toISOString e, se_credentialVersion = sha256 accessKey\<rparr> else None)"
    using assms(2,4) f by (auto simp: parseSessionValue_def carries_def credentialVersion_def)
  moreover have "s = \<lparr>se_issuedAt = toISOString login, se_expiresAt = toISOString e, se_credentialVersion = sha256 accessKey\<rparr>"
    using f by (cases s) simp
  ultimately show ?thesis
    using f(5,6) by (auto simp: session_times)
qed

theorem session_lifetime_witness:
  "let s = createSession (\<lambda>x. x) ''key'' 0;
       decode = (\<lambda>c. Some \<lparr>rw_issuedAt = Some (se_issuedAt s), rw_expiresAt = Some (se_expiresAt s),
         rw_credentialVersion = Some (se_credentialVersion s)\<rparr>)
   in parseSessionValue (\<lambda>x. x) decode ''cookie'' ''key'' 5 = Some s \<and>
      parseSessionValue (\<lambda>x. x) decode ''cookie'' ''other'' 5 = None"
proof -
  define s where "s = createSession (\<lambda>x. x) ''key'' 0"
  define decode where "decode = (\<lambda>c :: string. Some \<lparr>rw_issuedAt = Some (se_issuedAt s), rw_expiresAt = Some (se_expiresAt s),
    rw_credentialVersion = Some (se_credentialVersion s)\<rparr>)"
  have l: "session_of_login (\<lambda>x. x) ''key'' 0 s (0 + SESSION_IDLE_TTL_MS)"
    unfolding s_def by (rule session_created)
  have c: "carries decode ''cookie'' s"
    by (simp add: carries_def decode_def)
  have "early_time 0" by (simp add: early_time_def)
  then show ?thesis
    using session_lifetime [OF l c, of 5 "''key''"] session_lifetime [OF l c, of 5 "''other''"]
    by (simp add: session_times Let_def flip: s_def decode_def)
qed

subsection \<open>The failure limiter\<close>

text \<open>
  A series of attempts \<open>(client, time, key is right)\<close> as the routes treat them: how many wrong ones of client \<open>k\<close> are let
  through to the key comparison.  A right key clears the client's record, an attempt that is not allowed changes nothing.
\<close>

type_synonym attempt = "string \<times> int \<times> bool"

fun let_through :: "string \<Rightarrow> attempt list \<Rightarrow> AuthFailureRateLimiter \<Rightarrow> nat" where
  "let_through k [] m = 0"
| "let_through k ((k', now, right) # es) m =
     (if limiter_allow k' now m then
        if right then let_through k es (limiter_clear k' m)
        else (if k' = k then 1 else 0) + let_through k es (recordFailure k' now m)
      else let_through k es m)"

definition right_attempts :: "string \<Rightarrow> attempt list \<Rightarrow> nat" where
  "right_attempts k es = length (filter (\<lambda>(k', now, right). k' = k \<and> right) es)"

definition limiter_ok :: "AuthFailureRateLimiter \<Rightarrow> bool" where
  "limiter_ok m \<longleftrightarrow> distinct (map_keys m) \<and> (\<forall>k fw. map_get m k = Some fw \<longrightarrow> 1 \<le> fw_count fw \<and> fw_count fw \<le> 5)"

text \<open>Attempts the client can still have let through in the minute that begins at \<open>T\<close>.\<close>

definition budget :: "int \<Rightarrow> string \<Rightarrow> AuthFailureRateLimiter \<Rightarrow> int" where
  "budget T k m = (case map_get m k of None \<Rightarrow> 5 | Some fw \<Rightarrow> if T \<le> fw_startedAt fw then 5 - fw_count fw else 10 - fw_count fw)"

lemma map_get_filter:
  "distinct (map_keys m) \<Longrightarrow> map_get (filter P m) k = (case map_get m k of None \<Rightarrow> None | Some v \<Rightarrow> if P (k, v) then Some v else None)"
proof (induction m)
  case (Cons e m)
  obtain a b where e: "e = (a, b)" by (cases e)
  have "map_get m a = None"
    using Cons.prems by (simp add: e map_get_None_iff)
  then show ?case
    using Cons by (auto simp: e split: option.splits)
qed simp

lemma map_get_prune:
  "distinct (map_keys m) \<Longrightarrow> map_get (prune now m) k =
     (case map_get m k of None \<Rightarrow> None | Some v \<Rightarrow> if now - fw_startedAt v < 60000 then Some v else None)"
  by (auto simp: prune_def map_get_filter AUTH_FAILURE_WINDOW_MS_def split: option.split)

lemma distinct_prune: "distinct (map_keys m) \<Longrightarrow> distinct (map_keys (prune now m))"
  by (simp add: prune_def distinct_map_filter)

lemma map_get_recordFailure:
  assumes "distinct (map_keys m)"
  shows "map_get (recordFailure k' now m) k =
    (let v = (case map_get m k' of
         Some fw \<Rightarrow> if now - fw_startedAt fw < 60000 then fw\<lparr>fw_count := fw_count fw + 1\<rparr> else \<lparr>fw_startedAt = now, fw_count = 1\<rparr>
       | None \<Rightarrow> \<lparr>fw_startedAt = now, fw_count = 1\<rparr>);
         kept = (case map_get m k' of Some fw \<Rightarrow> now - fw_startedAt fw < 60000 | None \<Rightarrow> False)
     in if k = k' then Some v
        else case map_get m k of None \<Rightarrow> None | Some fw \<Rightarrow> if kept \<or> now - fw_startedAt fw < 60000 then Some fw else None)"
proof -
  have "distinct (map_keys (map_set k' v m))" for v
    using assms by (rule distinct_keys_set)
  then have "map_get (prune now (map_set k' v m)) l =
      (case map_get (map_set k' v m) l of None \<Rightarrow> None | Some v \<Rightarrow> if now - fw_startedAt v < 60000 then Some v else None)" for v l
    by (rule map_get_prune)
  then show ?thesis
    by (simp add: recordFailure_def AUTH_FAILURE_WINDOW_MS_def not_less Let_def split: option.split)
qed

lemma limiter_ok_count: "limiter_ok m \<Longrightarrow> map_get m k = Some fw \<Longrightarrow> 1 \<le> fw_count fw \<and> fw_count fw \<le> 5"
  unfolding limiter_ok_def by blast

lemma limiter_ok_record:
  assumes "limiter_ok m" "limiter_allow k now m"
  shows "limiter_ok (recordFailure k now m)"
proof -
  have d: "distinct (map_keys m)" using assms(1) by (simp add: limiter_ok_def)
  then have "distinct (map_keys (recordFailure k now m))"
    by (auto simp: recordFailure_def Let_def split: option.split intro!: distinct_prune distinct_keys_set)
  moreover have "1 \<le> fw_count fw \<and> fw_count fw \<le> 5" if "map_get (recordFailure k now m) k' = Some fw" for k' fw
    using that assms(2) unfolding map_get_recordFailure [OF d] Let_def
    by (auto simp: limiter_allow_def AUTH_FAILURE_WINDOW_MS_def AUTH_FAILURE_MAX_ATTEMPTS_def
        simp del: map_of_eq_Some_iff dest: limiter_ok_count [OF assms(1)] split: option.splits if_splits)
  ultimately show ?thesis by (simp add: limiter_ok_def del: map_of_eq_Some_iff)
qed

lemma budget_record:
  assumes "limiter_ok m" "limiter_allow k' now m" "T \<le> now" "now < T + 60000"
  shows "budget T k (recordFailure k' now m) + (if k' = k then 1 else 0) \<le> budget T k m"
proof -
  have d: "distinct (map_keys m)" using assms(1) by (simp add: limiter_ok_def)
  show ?thesis
    using assms(2-) limiter_ok_count [OF assms(1), of k]
    unfolding budget_def map_get_recordFailure [OF d] Let_def
    by (auto simp: limiter_allow_def AUTH_FAILURE_WINDOW_MS_def AUTH_FAILURE_MAX_ATTEMPTS_def
        simp del: map_of_eq_Some_iff split: option.splits if_splits)
qed

lemma budget_bounds: "limiter_ok m \<Longrightarrow> 0 \<le> budget T k m \<and> budget T k m \<le> 9"
  using limiter_ok_count [of m k] by (auto simp: budget_def simp del: map_of_eq_Some_iff split: option.split)

lemma limiter_ok_clear: "limiter_ok m \<Longrightarrow> limiter_ok (limiter_clear k m)"
  by (auto simp: limiter_ok_def limiter_clear_def distinct_delete simp del: map_of_eq_Some_iff)

lemma budget_clear:
  assumes "limiter_ok m"
  shows "budget T k (limiter_clear k' m) \<le> budget T k m + (if k' = k then 5 else 0)"
  using budget_bounds [OF assms, of T k] by (auto simp: limiter_clear_def budget_def)

lemma let_through_budget:
  assumes "limiter_ok m" "\<forall>(k', now, right) \<in> set es. T \<le> now \<and> now < T + 60000"
  shows "int (let_through k es m) \<le> budget T k m + 5 * int (right_attempts k es)"
  using assms
proof (induction es arbitrary: m)
  case Nil
  then show ?case using budget_bounds by (simp add: right_attempts_def)
next
  case (Cons e es)
  obtain k' now right where e: "e = (k', now, right)" by (cases e)
  have count: "right_attempts k (e # es) = (if k' = k \<and> right then 1 else 0) + right_attempts k es"
    by (simp add: right_attempts_def e)
  consider (right) "limiter_allow k' now m" right | (wrong) "limiter_allow k' now m" "\<not> right" | (refused) "\<not> limiter_allow k' now m"
    by blast
  then show ?case
  proof cases
    case right
    then show ?thesis
      using Cons.IH [OF limiter_ok_clear [OF Cons.prems(1)], of k'] Cons.prems budget_clear [OF Cons.prems(1), of T k k']
      unfolding count by (auto simp: e split: if_splits)
  next
    case wrong
    have "budget T k (recordFailure k' now m) + (if k' = k then 1 else 0) \<le> budget T k m"
      using Cons.prems wrong by (intro budget_record) (auto simp: e)
    then show ?thesis
      using Cons.IH [OF limiter_ok_record [OF Cons.prems(1) wrong(1)]] Cons.prems wrong unfolding count by (auto simp: e)
  next
    case refused
    then show ?thesis using Cons.IH [OF Cons.prems(1)] Cons.prems unfolding count by (auto simp: e)
  qed
qed

text \<open>
  C19: whatever other clients do, in any minute at most nine wrong attempts of one client are let through, five more for
  each right one it made in that minute (a right key clears the record of its client), and four fewer if it has no
  earlier failures on record.
\<close>

theorem failures_limited:
  assumes "limiter_ok m" "\<forall>(client, now, right) \<in> set es. T \<le> now \<and> now < T + 60000"
  shows "let_through k es m \<le> 9 + 5 * right_attempts k es \<and>
    (map_get m k = None \<longrightarrow> let_through k es m \<le> 5 + 5 * right_attempts k es)"
  using let_through_budget [OF assms, of k] budget_bounds [OF assms(1), of T k] by (auto simp: budget_def)

theorem failures_limited_witness:
  "let_through ''c'' (replicate 8 (''c'', 1000, False)) [] \<le> 5 \<and> let_through ''c'' (replicate 8 (''c'', 1000, False)) [] = 5"
proof -
  have "let_through ''c'' (replicate 8 (''c'', 1000, False)) [] \<le> 5"
    using failures_limited [of "[]" "replicate 8 (''c'', 1000, False)" 1000 "''c''"] by (simp add: limiter_ok_def right_attempts_def)
  moreover have "let_through ''c'' (replicate 8 (''c'', 1000, False)) [] = 5"
    by (simp add: numeral_eq_Suc limiter_allow_def recordFailure_def prune_def AUTH_FAILURE_WINDOW_MS_def
        AUTH_FAILURE_MAX_ATTEMPTS_def Let_def)
  ultimately show ?thesis by blast
qed

end
