(* ===== verification/Credentials.thy ===== *)
theory Credentials
  imports Auth
begin

text \<open>
  \<open>AgentCredentials\<close> of \<open>apps/server/src/live/credentials.ts\<close>: which installation may speak for a device.

  The class runs its updates one after the other, so an operation is one step.  The file is what \<open>JSON.parse\<close> gives
  for it: absent, unreadable, or a list of entries whose members may be missing or of the wrong type.  A write is
  made to a temporary file and renamed: it either happens or leaves the file as it was (\<open>disk_ok\<close>).  The hash is
  the parameter \<open>sha256\<close>.
\<close>

record Credential =
  cr_instanceId :: string
  cr_digest :: string
  cr_credentialVersion :: string
  cr_revoked :: bool

record raw_credential =
  rc_instanceId :: "string option"
  rc_digest :: "string option"
  rc_credentialVersion :: "string option"
  rc_revoked :: "bool option"

datatype stored_file = NoFile | Unreadable | Stored "(string \<times> raw_credential option) list"

datatype credentials_error = InvalidStore | ReadFailed | WriteFailed

record AgentCredentials =
  ag_records :: "(string, Credential) jsmap"
  ag_conflicts :: "(string, string) jsmap"
  ag_file :: stored_file

definition is_digest :: "string \<Rightarrow> bool" where
  "is_digest s \<longleftrightarrow> length s = 64 \<and> list_all (\<lambda>c. c \<in> set ''abcdef0123456789'') s"

definition valid_entry :: "raw_credential option \<Rightarrow> bool" where
  "valid_entry v = (case v of
       None \<Rightarrow> False
     | Some r \<Rightarrow> rc_instanceId r \<noteq> None \<and> (case rc_digest r of None \<Rightarrow> False | Some d \<Rightarrow> is_digest d)
         \<and> rc_credentialVersion r \<noteq> None \<and> rc_revoked r \<noteq> None)"

definition typed_entry :: "raw_credential option \<Rightarrow> Credential" where
  "typed_entry v = \<lparr>cr_instanceId = the (rc_instanceId (the v)), cr_digest = the (rc_digest (the v)),
     cr_credentialVersion = the (rc_credentialVersion (the v)), cr_revoked = the (rc_revoked (the v))\<rparr>"

definition credentials_load :: "AgentCredentials \<Rightarrow> credentials_error + AgentCredentials" where
  "credentials_load a =
     (case ag_file a of
        NoFile \<Rightarrow> Inr a
      | Unreadable \<Rightarrow> Inl ReadFailed
      | Stored entries \<Rightarrow>
          if list_all (\<lambda>e. valid_entry (snd e)) entries
          then Inr (a\<lparr>ag_records := map (\<lambda>(k, v). (k, typed_entry v)) entries\<rparr>)
          else Inl InvalidStore)"

definition raw_entry :: "Credential \<Rightarrow> raw_credential option" where
  "raw_entry c = Some \<lparr>rc_instanceId = Some (cr_instanceId c), rc_digest = Some (cr_digest c),
     rc_credentialVersion = Some (cr_credentialVersion c), rc_revoked = Some (cr_revoked c)\<rparr>"

definition persist :: "bool \<Rightarrow> (string, Credential) jsmap \<Rightarrow> AgentCredentials \<Rightarrow> bool \<times> AgentCredentials" where
  "persist disk_ok records a =
     (if disk_ok then (True, a\<lparr>ag_file := Stored (map (\<lambda>(k, c). (k, raw_entry c)) records), ag_records := records\<rparr>)
      else (False, a))"

definition enroll :: "(string \<Rightarrow> string) \<Rightarrow> string \<Rightarrow> bool \<Rightarrow> string \<Rightarrow> string \<Rightarrow> string \<Rightarrow> string \<Rightarrow> AgentCredentials
    \<Rightarrow> (credentials_error + bool) \<times> AgentCredentials" where
  "enroll sha256 accessKey disk_ok now deviceId instanceId token a =
     (let previous = (case map_get (ag_records a) deviceId of None \<Rightarrow> None | Some r \<Rightarrow> if cr_revoked r then None else Some r);
          hash = sha256 token
      in if (case previous of None \<Rightarrow> False | Some r \<Rightarrow> cr_instanceId r \<noteq> instanceId \<or> \<not> safeEqual (cr_digest r) hash)
         then (Inr False, a\<lparr>ag_conflicts := map_set deviceId now (ag_conflicts a)\<rparr>)
         else let a' = a\<lparr>ag_conflicts := map_delete deviceId (ag_conflicts a)\<rparr>
              in if map_option cr_credentialVersion previous = Some (sha256 accessKey) then (Inr True, a')
                 else let record = \<lparr>cr_instanceId = instanceId, cr_digest = hash, cr_credentialVersion = sha256 accessKey, cr_revoked = False\<rparr>;
                          (ok, a'') = persist disk_ok (map_set deviceId record (ag_records a')) a'
                      in (if ok then Inr True else Inl WriteFailed, a''))"

definition verify :: "(string \<Rightarrow> string) \<Rightarrow> string \<Rightarrow> string \<Rightarrow> string \<Rightarrow> string \<Rightarrow> AgentCredentials \<Rightarrow> bool" where
  "verify sha256 accessKey deviceId instanceId token a =
     (case map_get (ag_records a) deviceId of
        None \<Rightarrow> False
      | Some r \<Rightarrow> \<not> cr_revoked r \<and> cr_instanceId r = instanceId
          \<and> safeEqual (cr_credentialVersion r) (sha256 accessKey) \<and> safeEqual (cr_digest r) (sha256 token))"

definition remove_credential :: "bool \<Rightarrow> string \<Rightarrow> AgentCredentials \<Rightarrow> (credentials_error + unit) \<times> AgentCredentials" where
  "remove_credential disk_ok deviceId a =
     (let a' = a\<lparr>ag_conflicts := map_delete deviceId (ag_conflicts a)\<rparr>
      in if map_get (ag_records a') deviceId = None then (Inr (), a')
         else let (ok, a'') = persist disk_ok (map_delete deviceId (ag_records a')) a'
              in (if ok then Inr () else Inl WriteFailed, a''))"

definition conflictAt :: "string \<Rightarrow> AgentCredentials \<Rightarrow> string option" where
  "conflictAt deviceId a = map_get (ag_conflicts a) deviceId"

text \<open>The states a hub can be in: after start-up, after operations with or without write failures, after restarts.\<close>

inductive reachable_credentials :: "(string \<Rightarrow> string) \<Rightarrow> AgentCredentials \<Rightarrow> bool" for sha256 where
  fresh_credentials: "reachable_credentials sha256 \<lparr>ag_records = [], ag_conflicts = [], ag_file = NoFile\<rparr>"
| enrolled: "reachable_credentials sha256 a \<Longrightarrow> reachable_credentials sha256 (snd (enroll sha256 accessKey ok now d i t a))"
| removed: "reachable_credentials sha256 a \<Longrightarrow> reachable_credentials sha256 (snd (remove_credential ok d a))"
| restarted: "reachable_credentials sha256 a \<Longrightarrow> credentials_load \<lparr>ag_records = [], ag_conflicts = [], ag_file = ag_file a\<rparr> = Inr a'
    \<Longrightarrow> reachable_credentials sha256 a'"

subsection \<open>The file and the memory agree\<close>

lemma typed_raw [simp]: "typed_entry (raw_entry c) = c"
  by (simp add: typed_entry_def raw_entry_def)

lemma valid_raw [simp]: "valid_entry (raw_entry c) \<longleftrightarrow> is_digest (cr_digest c)"
  by (simp add: valid_entry_def raw_entry_def)

definition digests_ok :: "(string, Credential) jsmap \<Rightarrow> bool" where
  "digests_ok records \<longleftrightarrow> (\<forall>e \<in> set records. is_digest (cr_digest (snd e)))"

fun file_matches :: "stored_file \<Rightarrow> (string, Credential) jsmap \<Rightarrow> bool" where
  "file_matches NoFile records = (records = [])"
| "file_matches Unreadable records = False"
| "file_matches (Stored entries) records = (entries = map (\<lambda>(k, c). (k, raw_entry c)) records)"

definition credentials_ok :: "AgentCredentials \<Rightarrow> bool" where
  "credentials_ok a \<longleftrightarrow> digests_ok (ag_records a) \<and> file_matches (ag_file a) (ag_records a)"

lemma credentials_ok_persist:
  "credentials_ok a \<Longrightarrow> digests_ok records \<Longrightarrow> credentials_ok (snd (persist ok records a))"
  by (simp add: persist_def credentials_ok_def)

lemma credentials_ok_conflicts [simp]: "credentials_ok (a\<lparr>ag_conflicts := x\<rparr>) = credentials_ok a"
  by (simp add: credentials_ok_def)

lemma digests_set: "digests_ok m \<Longrightarrow> is_digest (cr_digest c) \<Longrightarrow> digests_ok (map_set k c m)"
  unfolding digests_ok_def by (induction m) auto

lemma digests_delete: "digests_ok m \<Longrightarrow> digests_ok (map_delete k m)"
  by (auto simp: digests_ok_def AList.delete_eq)

lemma credentials_ok_load:
  assumes "credentials_ok a"
  shows "credentials_load \<lparr>ag_records = [], ag_conflicts = [], ag_file = ag_file a\<rparr> = Inr (a\<lparr>ag_conflicts := []\<rparr>)"
proof -
  have "map (\<lambda>(k, v). (k, typed_entry v)) (map (\<lambda>(k, c). (k, raw_entry c)) (ag_records a)) = ag_records a"
    by (simp add: comp_def case_prod_unfold)
  then show ?thesis
    using assms by (cases a; cases "ag_file a") (auto simp: credentials_load_def credentials_ok_def digests_ok_def list_all_iff)
qed

lemma credentials_ok_enroll:
  assumes "\<And>t. is_digest (sha256 t)" "credentials_ok a"
  shows "credentials_ok (snd (enroll sha256 accessKey ok now d i t a))"
proof -
  have "credentials_ok (snd (persist ok (map_set d \<lparr>cr_instanceId = i, cr_digest = sha256 t,
      cr_credentialVersion = sha256 accessKey, cr_revoked = False\<rparr> (ag_records a)) (a\<lparr>ag_conflicts := x\<rparr>)))" for x
    using assms by (intro credentials_ok_persist digests_set) (simp_all add: credentials_ok_def)
  then show ?thesis
    using assms(2) by (simp add: enroll_def Let_def split_beta)
qed

lemma reachable_credentials_ok:
  assumes "reachable_credentials sha256 a" "\<And>t. is_digest (sha256 t)"
  shows "credentials_ok a"
  using assms(1)
proof (induction rule: reachable_credentials.induct)
  case (removed a ok d)
  then have "credentials_ok (snd (persist ok (map_delete d (ag_records a)) (a\<lparr>ag_conflicts := x\<rparr>)))" for x
    by (intro credentials_ok_persist digests_delete) (simp_all add: credentials_ok_def)
  then show ?case
    using removed by (simp add: remove_credential_def Let_def split_beta)
next
  case (restarted a a')
  then have "a' = a\<lparr>ag_conflicts := []\<rparr>" using credentials_ok_load by simp
  then show ?case using restarted by simp
next
  case fresh_credentials
  then show ?case by (simp add: credentials_ok_def digests_ok_def)
qed (simp add: credentials_ok_enroll assms(2))

text \<open>
  What the hub knows of its agents survives a restart: from every reachable state, with or without failed writes
  before, loading the file again succeeds and gives back exactly the credentials that were in memory.
\<close>

theorem credentials_roundtrip:
  assumes "\<forall>t. is_digest (sha256 t)" "reachable_credentials sha256 a"
  shows "credentials_load \<lparr>ag_records = [], ag_conflicts = [], ag_file = ag_file a\<rparr> = Inr (a\<lparr>ag_conflicts := []\<rparr>)"
  using assms by (intro credentials_ok_load reachable_credentials_ok) blast+

subsection \<open>A device's identity is pinned\<close>

lemma verify_record:
  "map_get (ag_records a) d = Some r \<Longrightarrow> verify sha256 key d i t a \<longleftrightarrow>
     \<not> cr_revoked r \<and> cr_instanceId r = i \<and> cr_credentialVersion r = sha256 key \<and> cr_digest r = sha256 t"
  by (auto simp: verify_def)

lemma enroll_others: "d' \<noteq> d \<Longrightarrow> map_get (ag_records (snd (enroll sha256 key ok now d i t a))) d' = map_get (ag_records a) d'"
  by (simp add: enroll_def persist_def Let_def)

lemma enroll_refused:
  assumes "map_get (ag_records a) d = Some r" "\<not> cr_revoked r"
  shows "fst (enroll sha256 key ok now d i t a) = Inr False \<longleftrightarrow> cr_instanceId r \<noteq> i \<or> cr_digest r \<noteq> sha256 t"
  using assms by (auto simp: enroll_def persist_def Let_def)

lemma enroll_refused_keeps:
  "fst (enroll sha256 key ok now d i t a) = Inr False \<Longrightarrow> ag_records (snd (enroll sha256 key ok now d i t a)) = ag_records a
     \<and> conflictAt d (snd (enroll sha256 key ok now d i t a)) = Some now"
  by (auto simp: enroll_def persist_def conflictAt_def Let_def split: if_splits)

lemma enroll_accepted_verifies:
  assumes "fst (enroll sha256 key ok now d i t a) = Inr True"
  shows "verify sha256 key d i t (snd (enroll sha256 key ok now d i t a))"
  using assms by (auto simp: enroll_def persist_def verify_def Let_def split: option.splits if_splits)

text \<open>
  One enrolment: an accepted one is recognised afterwards; while a record stands, an enrolment with another installation
  id or another token is refused, changes no credential, and is reported as a conflict; a failed write changes no
  credential; other devices are untouched.
\<close>

theorem enrollment_outcomes:
  fixes sha256 key ok now d i t a
  defines "out \<equiv> enroll sha256 key ok now d i t a"
  shows "(fst out = Inr True \<longrightarrow> verify sha256 key d i t (snd out))
    \<and> (\<forall>r. map_get (ag_records a) d = Some r \<and> \<not> cr_revoked r \<longrightarrow>
         (fst out = Inr False \<longleftrightarrow> cr_instanceId r \<noteq> i \<or> cr_digest r \<noteq> sha256 t))
    \<and> (fst out = Inr False \<longrightarrow> ag_records (snd out) = ag_records a \<and> conflictAt d (snd out) = Some now)
    \<and> (fst out = Inl WriteFailed \<longrightarrow> ag_records (snd out) = ag_records a \<and> ag_file (snd out) = ag_file a)
    \<and> (\<forall>d'. d' \<noteq> d \<longrightarrow> map_get (ag_records (snd out)) d' = map_get (ag_records a) d')"
proof (intro conjI allI impI)
  show "fst out = Inr True \<Longrightarrow> verify sha256 key d i t (snd out)"
    unfolding out_def by (rule enroll_accepted_verifies)
  show "fst out = Inr False \<longleftrightarrow> cr_instanceId r \<noteq> i \<or> cr_digest r \<noteq> sha256 t"
    if "map_get (ag_records a) d = Some r \<and> \<not> cr_revoked r" for r
    unfolding out_def using that by (intro enroll_refused) auto
  show "fst out = Inr False \<Longrightarrow> ag_records (snd out) = ag_records a" "fst out = Inr False \<Longrightarrow> conflictAt d (snd out) = Some now"
    unfolding out_def using enroll_refused_keeps by blast+
  show "map_get (ag_records (snd out)) d' = map_get (ag_records a) d'" if "d' \<noteq> d" for d'
    unfolding out_def using that by (rule enroll_others)
qed (auto simp: out_def enroll_def persist_def Let_def split: if_splits)

text \<open>
  What can happen to the credentials short of a removal of one device: enrolments of any device by anyone, removals of
  other devices and failed removals of this one, and restarts.
\<close>

inductive credential_step :: "(string \<Rightarrow> string) \<Rightarrow> string \<Rightarrow> string \<Rightarrow> AgentCredentials \<Rightarrow> AgentCredentials \<Rightarrow> bool" for sha256 key d where
  step_enrolled: "credential_step sha256 key d a (snd (enroll sha256 key ok now d' i t a))"
| step_removed: "d' \<noteq> d \<or> fst (remove_credential ok d' a) \<noteq> Inr () \<Longrightarrow> credential_step sha256 key d a (snd (remove_credential ok d' a))"
| step_restarted: "credentials_load \<lparr>ag_records = [], ag_conflicts = [], ag_file = ag_file a\<rparr> = Inr a' \<Longrightarrow> credential_step sha256 key d a a'"

definition own_record :: "(string \<Rightarrow> string) \<Rightarrow> string \<Rightarrow> string \<Rightarrow> string \<Rightarrow> Credential" where
  "own_record sha256 key i t = \<lparr>cr_instanceId = i, cr_digest = sha256 t, cr_credentialVersion = sha256 key, cr_revoked = False\<rparr>"

lemma enrolled_record:
  assumes "fst (enroll sha256 key ok now d i t a) = Inr True"
  shows "map_get (ag_records (snd (enroll sha256 key ok now d i t a))) d = Some (own_record sha256 key i t)"
  using assms by (auto simp: enroll_def persist_def own_record_def Let_def split: option.splits if_splits)

lemma own_record_enroll:
  assumes "map_get (ag_records a) d = Some (own_record sha256 key i t)"
  shows "fst (enroll sha256 key ok now d i' t' a) = Inr (i' = i \<and> sha256 t' = sha256 t)"
    "ag_records (snd (enroll sha256 key ok now d i' t' a)) = ag_records a"
  using assms by (auto simp: enroll_def own_record_def Let_def)

lemma credential_step_keeps:
  assumes "credential_step sha256 key d a a'" "\<And>t. is_digest (sha256 t)"
    "credentials_ok a" "map_get (ag_records a) d = Some (own_record sha256 key i t)"
  shows "credentials_ok a' \<and> map_get (ag_records a') d = Some (own_record sha256 key i t)"
  using assms(1)
proof cases
  case (step_enrolled ok now d' i' t')
  have "map_get (ag_records a') d = map_get (ag_records a) d"
    using own_record_enroll(2) [OF assms(4)] enroll_others [of d d'] by (cases "d' = d") (simp_all add: step_enrolled)
  with assms credentials_ok_enroll show ?thesis by (simp add: step_enrolled)
next
  case (step_removed d' ok)
  then have "map_get (ag_records a') d = map_get (ag_records a) d"
    by (auto simp: remove_credential_def persist_def Let_def)
  moreover have "credentials_ok (snd (persist ok (map_delete d' (ag_records a)) (a\<lparr>ag_conflicts := x\<rparr>)))" for x
    using assms(3) by (intro credentials_ok_persist digests_delete) (simp_all add: credentials_ok_def)
  then have "credentials_ok a'"
    using assms(3) by (simp add: step_removed remove_credential_def Let_def split_beta)
  ultimately show ?thesis using assms(4) by simp
next
  case step_restarted
  with credentials_ok_load [OF assms(3)] have "a' = a\<lparr>ag_conflicts := []\<rparr>" by simp
  with assms show ?thesis by simp
qed

text \<open>
  C17: an enrolled device is pinned to the installation that enrolled: from an accepted enrolment on, through any enrolments
  of this or other devices, failed writes and restarts, exactly that installation with exactly that key is recognised, and
  an enrolment of the device is accepted from exactly that installation and key, any other being refused and reported as a
  conflict; once the device was removed, nobody is recognised for it and the next installation to enrol is accepted.
\<close>

theorem identity_pinned:
  assumes "\<forall>t. is_digest (sha256 t)" "reachable_credentials sha256 a0"
    "enroll sha256 key ok now d i t a0 = (Inr True, a1)" "(credential_step sha256 key d)\<^sup>*\<^sup>* a1 a2"
  shows "(verify sha256 key d i' t' a2 \<longleftrightarrow> i' = i \<and> sha256 t' = sha256 t) \<and>
    fst (enroll sha256 key ok' now' d i' t' a2) = Inr (i' = i \<and> sha256 t' = sha256 t) \<and>
    (\<not> (i' = i \<and> sha256 t' = sha256 t) \<longrightarrow> conflictAt d (snd (enroll sha256 key ok' now' d i' t' a2)) = Some now') \<and>
    (remove_credential ok2 d a2 = (Inr (), a3) \<longrightarrow>
       \<not> verify sha256 key d i' t' a3 \<and> fst (enroll sha256 key True now' d i' t' a3) = Inr True)"
proof -
  have "credentials_ok a1"
    using credentials_ok_enroll [of sha256 a0 key ok now d i t] reachable_credentials_ok [OF assms(2)] assms(1,3) by simp
  moreover have "map_get (ag_records a1) d = Some (own_record sha256 key i t)"
    using enrolled_record [of sha256 key ok now d i t a0] assms(3) by simp
  ultimately have "credentials_ok a1 \<and> map_get (ag_records a1) d = Some (own_record sha256 key i t)" ..
  with assms(4) have "credentials_ok a2 \<and> map_get (ag_records a2) d = Some (own_record sha256 key i t)"
  proof (induction rule: rtranclp_induct)
    case (step b c)
    then show ?case using credential_step_keeps assms(1) by blast
  qed simp
  then have own: "map_get (ag_records a2) d = Some (own_record sha256 key i t)" by blast
  have removed: "map_get (ag_records a3) d = None" if "remove_credential ok2 d a2 = (Inr (), a3)"
    using that by (auto simp: remove_credential_def persist_def Let_def split: if_splits)
  then have "\<not> verify sha256 key d i' t' a3 \<and> fst (enroll sha256 key True now' d i' t' a3) = Inr True"
    if "remove_credential ok2 d a2 = (Inr (), a3)"
    using that by (simp add: verify_def enroll_def persist_def Let_def)
  then show ?thesis
    using own_record_enroll(1) [OF own] enroll_refused_keeps [of sha256 key ok' now' d i' t' a2] verify_record [OF own]
    by (auto simp: own_record_def)
qed

definition demo_digest :: "string \<Rightarrow> string" where
  "demo_digest t = replicate 64 (CHR ''a'')"

lemma demo_digest: "is_digest (demo_digest t)"
  by (simp add: is_digest_def demo_digest_def list_all_iff)

definition demo_credentials :: AgentCredentials where
  "demo_credentials = snd (enroll demo_digest ''key'' True ''now'' ''host'' ''install'' ''token''
     \<lparr>ag_records = [], ag_conflicts = [], ag_file = NoFile\<rparr>)"

lemma demo_credentials_reachable: "reachable_credentials demo_digest demo_credentials"
  unfolding demo_credentials_def by (intro reachable_credentials.intros)

theorem credentials_roundtrip_witness:
  "credentials_load \<lparr>ag_records = [], ag_conflicts = [], ag_file = ag_file demo_credentials\<rparr> = Inr demo_credentials"
  using credentials_roundtrip [OF _ demo_credentials_reachable] demo_digest
  by (simp add: demo_credentials_def enroll_def persist_def Let_def)

theorem identity_pinned_witness:
  "verify demo_digest ''key'' ''host'' ''install'' ''token''
     (snd (enroll demo_digest ''key'' True ''later'' ''host'' ''clone'' ''token'' demo_credentials)) \<and>
   fst (enroll demo_digest ''key'' True ''later'' ''host'' ''clone'' ''token'' demo_credentials) = Inr False"
proof -
  have start: "reachable_credentials demo_digest \<lparr>ag_records = [], ag_conflicts = [], ag_file = NoFile\<rparr>"
    by (rule fresh_credentials)
  have "enroll demo_digest ''key'' True ''now'' ''host'' ''install'' ''token'' \<lparr>ag_records = [], ag_conflicts = [], ag_file = NoFile\<rparr>
      = (Inr True, demo_credentials)"
    by (simp add: demo_credentials_def enroll_def persist_def Let_def)
  note pinned = identity_pinned [OF _ start this, of demo_credentials]
    identity_pinned [OF _ start this r_into_rtranclp
      [where r = "credential_step demo_digest ''key'' ''host''", OF step_enrolled [of _ _ _ _ True "''later''" "''host''" "''clone''" "''token''"]]]
  have "verify demo_digest ''key'' ''host'' ''install'' ''token'' (snd (enroll demo_digest ''key'' True ''later'' ''host'' ''clone'' ''token'' demo_credentials))"
    using pinned(2) [of "''install''" "''token''"] demo_digest by blast
  moreover have "fst (enroll demo_digest ''key'' True ''later'' ''host'' ''clone'' ''token'' demo_credentials) = Inr False"
    using pinned(1) [of "''clone''" "''token''" True "''later''"] demo_digest by simp
  ultimately show ?thesis ..
qed

end
