(* ===== verification/Live_Registry.thy ===== *)
theory Live_Registry
  imports Credentials
begin

text \<open>
  \<open>LiveRegistry\<close> of \<open>apps/server/src/live/registry.ts\<close>: the hub's ownership of the agents' live connections.

  Sessions are objects with identity: the registry's map and every later call refer to a session by its index in
  the list of all sessions made so far.  The world of an operation is a parameter: the clock, which transports are
  open, whether a send succeeds, and the fresh identifier of \<open>randomUUID\<close>.  A request's promise is known by its
  identifier; \<open>lr_settled\<close> records the first settlement of each, later ones have no effect.  A time-out is an
  operation of its own, and so is the microtask that forgets a settled request.  The data of a snapshot is opaque
  (type \<open>'d\<close>).
\<close>

datatype LiveTopic = MetricsTopic | ProcessesTopic | DockerTopic

record LiveError =
  le_code :: string
  le_statusCode :: nat

record 'd LiveSnapshot =
  ls_deviceId :: string
  ls_sessionId :: string
  ls_requestId :: string
  ls_topic :: LiveTopic
  ls_receivedAt :: string
  ls_data :: 'd

record Pending =
  pn_topic :: LiveTopic
  pn_acknowledged :: bool
  pn_deadline :: num

record 'd AgentSession =
  as_deviceId :: string
  as_id :: string
  as_connectedAt :: string
  as_capabilities :: "LiveTopic list"
  as_ready :: bool
  as_expiresAt :: num
  as_challenge :: "string option"
  as_pending :: "(string, Pending) jsmap"
  as_requests :: "(LiveTopic, string) jsmap"
  as_results :: "(LiveTopic, 'd LiveSnapshot \<times> num) jsmap"

record 'd LiveRegistry =
  lr_sessions :: "(string, nat) jsmap"
  lr_takeovers :: "(string, num list) jsmap"
  lr_closed :: bool
  lr_requestMs :: num
  lr_objects :: "'d AgentSession list"
  lr_settled :: "(string, LiveError + 'd LiveSnapshot) jsmap"
  lr_closes :: "nat list"

record live_env =
  ev_now :: num
  ev_open :: "nat \<Rightarrow> bool"
  ev_send_ok :: bool
  ev_uuid :: string
  ev_iso :: string

definition LIVE_LEASE_MS :: num where "LIVE_LEASE_MS = 15000"
definition LIVE_RESULT_TTL_MS :: num where "LIVE_RESULT_TTL_MS = 900"
definition LIVE_TAKEOVER_LIMIT :: nat where "LIVE_TAKEOVER_LIMIT = 3"
definition LIVE_TAKEOVER_WINDOW_MS :: num where "LIVE_TAKEOVER_WINDOW_MS = 60000"

abbreviation live_error :: "string \<Rightarrow> nat \<Rightarrow> LiveError" where
  "live_error code status \<equiv> \<lparr>le_code = code, le_statusCode = status\<rparr>"

definition session_upd :: "nat \<Rightarrow> ('d AgentSession \<Rightarrow> 'd AgentSession) \<Rightarrow> 'd LiveRegistry \<Rightarrow> 'd LiveRegistry" where
  "session_upd s f w = w\<lparr>lr_objects := (lr_objects w)[s := f (lr_objects w ! s)]\<rparr>"

text \<open>Settling a promise: only the first settlement counts.\<close>

definition settle :: "string \<Rightarrow> LiveError + 'd LiveSnapshot \<Rightarrow> 'd LiveRegistry \<Rightarrow> 'd LiveRegistry" where
  "settle rid v w = (if map_get (lr_settled w) rid = None then w\<lparr>lr_settled := map_set rid v (lr_settled w)\<rparr> else w)"

definition registry_valid :: "live_env \<Rightarrow> nat \<Rightarrow> 'd LiveRegistry \<Rightarrow> bool" where
  "registry_valid env s w \<longleftrightarrow> map_get (lr_sessions w) (as_deviceId (lr_objects w ! s)) = Some s
     \<and> ev_open env s \<and> as_expiresAt (lr_objects w ! s) > ev_now env"

definition registry_finish :: "nat \<Rightarrow> string \<Rightarrow> LiveError \<Rightarrow> 'd LiveRegistry \<Rightarrow> 'd LiveRegistry" where
  "registry_finish s rid err w =
     (case map_get (as_pending (lr_objects w ! s)) rid of
        None \<Rightarrow> w
      | Some p \<Rightarrow> settle rid (Inl err) (session_upd s (\<lambda>x. x\<lparr>as_pending := map_delete rid (as_pending x)\<rparr>) w))"

definition registry_detach :: "nat \<Rightarrow> 'd LiveRegistry \<Rightarrow> 'd LiveRegistry" where
  "registry_detach s w =
     (let dev = as_deviceId (lr_objects w ! s);
          w1 = (if map_get (lr_sessions w) dev = Some s then w\<lparr>lr_sessions := map_delete dev (lr_sessions w)\<rparr> else w);
          w2 = fold (\<lambda>rid. registry_finish s rid (live_error ''device_disconnected'' 503)) (map_keys (as_pending (lr_objects w ! s))) w1
      in w2\<lparr>lr_closes := lr_closes w2 @ [s]\<rparr>)"

definition registry_attach :: "live_env \<Rightarrow> string \<Rightarrow> 'd LiveRegistry \<Rightarrow> (LiveError + nat) \<times> 'd LiveRegistry" where
  "registry_attach env deviceId w =
     (if lr_closed w then (Inl (live_error ''hub_shutting_down'' 503), w)
      else
        let previous = map_get (lr_sessions w) deviceId;
            taken = (case previous of None \<Rightarrow> False | Some p \<Rightarrow> registry_valid env p w);
            recent = filter (\<lambda>t. ev_now env - t < LIVE_TAKEOVER_WINDOW_MS) (nullish (map_get (lr_takeovers w) deviceId) [])
        in if taken \<and> length recent \<ge> LIVE_TAKEOVER_LIMIT
           then (Inl (live_error ''device_session_conflict'' 409), w\<lparr>lr_takeovers := map_set deviceId recent (lr_takeovers w)\<rparr>)
           else
             let w1 = (if taken then w\<lparr>lr_takeovers := map_set deviceId (recent @ [ev_now env]) (lr_takeovers w)\<rparr> else w);
                 w2 = (case previous of None \<Rightarrow> w1 | Some p \<Rightarrow> registry_detach p w1);
                 session = \<lparr>as_deviceId = deviceId, as_id = ev_uuid env, as_connectedAt = ev_iso env, as_capabilities = [],
                   as_ready = False, as_expiresAt = ev_now env + 5000, as_challenge = None, as_pending = [],
                   as_requests = [], as_results = []\<rparr>;
                 n = length (lr_objects w2)
             in (Inr n, w2\<lparr>lr_objects := lr_objects w2 @ [session], lr_sessions := map_set deviceId n (lr_sessions w2)\<rparr>))"

datatype connection_state = Disconnected | Connecting | Ready

record LiveConnection =
  lc_state :: connection_state
  lc_sessionId :: "string option"
  lc_capabilities :: "LiveTopic list"
  lc_connectedAt :: "string option"

definition registry_describe :: "live_env \<Rightarrow> string \<Rightarrow> 'd LiveRegistry \<Rightarrow> LiveConnection \<times> 'd LiveRegistry" where
  "registry_describe env deviceId w =
     (case map_get (lr_sessions w) deviceId of
        None \<Rightarrow> (\<lparr>lc_state = Disconnected, lc_sessionId = None, lc_capabilities = [], lc_connectedAt = None\<rparr>, w)
      | Some s \<Rightarrow>
          if \<not> registry_valid env s w
          then (\<lparr>lc_state = Disconnected, lc_sessionId = None, lc_capabilities = [], lc_connectedAt = None\<rparr>, registry_detach s w)
          else let x = lr_objects w ! s
               in (\<lparr>lc_state = (if as_ready x then Ready else Connecting), lc_sessionId = Some (as_id x),
                    lc_capabilities = as_capabilities x, lc_connectedAt = Some (as_connectedAt x)\<rparr>, w))"

definition registry_ready :: "live_env \<Rightarrow> nat \<Rightarrow> LiveTopic list \<Rightarrow> 'd LiveRegistry \<Rightarrow> (LiveError + unit) \<times> 'd LiveRegistry" where
  "registry_ready env s capabilities w =
     (if \<not> registry_valid env s w \<or> as_ready (lr_objects w ! s) then (Inl (live_error ''invalid_agent_handshake'' 400), w)
      else (Inr (), session_upd s (\<lambda>x. x\<lparr>as_capabilities := js_uniq capabilities, as_ready := True,
              as_expiresAt := ev_now env + LIVE_LEASE_MS\<rparr>) w))"

text \<open>\<open>send\<close>: \<open>Inl\<close> when the session is gone or the transport refuses, after detaching the session.\<close>

definition registry_send :: "live_env \<Rightarrow> nat \<Rightarrow> 'd LiveRegistry \<Rightarrow> (LiveError + unit) \<times> 'd LiveRegistry" where
  "registry_send env s w =
     (if \<not> registry_valid env s w \<or> \<not> ev_send_ok env then (Inl (live_error ''device_disconnected'' 503), registry_detach s w)
      else (Inr (), w))"

definition registry_heartbeat :: "live_env \<Rightarrow> nat \<Rightarrow> 'd LiveRegistry \<Rightarrow> (LiveError + unit) \<times> 'd LiveRegistry" where
  "registry_heartbeat env s w =
     (if \<not> registry_valid env s w then (Inr (), registry_detach s w)
      else registry_send env s
             (session_upd s (\<lambda>x. x\<lparr>as_challenge := opt_or (as_challenge x) (Some (ev_uuid env))\<rparr>) w))"

definition registry_pong :: "live_env \<Rightarrow> nat \<Rightarrow> string \<Rightarrow> 'd LiveRegistry \<Rightarrow> 'd LiveRegistry" where
  "registry_pong env s nonce w =
     (if \<not> registry_valid env s w \<or> \<not> truthy (as_challenge (lr_objects w ! s)) \<or> Some nonce \<noteq> as_challenge (lr_objects w ! s) then w
      else session_upd s (\<lambda>x. x\<lparr>as_challenge := None, as_expiresAt := ev_now env + LIVE_LEASE_MS\<rparr>) w)"

definition pending_total :: "'d LiveRegistry \<Rightarrow> nat" where
  "pending_total w = sum_list (map (\<lambda>(_, s). length (as_pending (lr_objects w ! s))) (lr_sessions w))"

datatype 'd reply = Rejected LiveError | Resolved "'d LiveSnapshot" | Awaiting string

text \<open>The part of \<open>read\<close> that shares, refuses or sends a request on a ready session.\<close>

definition registry_request :: "live_env \<Rightarrow> nat \<Rightarrow> LiveTopic \<Rightarrow> 'd LiveRegistry \<Rightarrow> 'd reply \<times> 'd LiveRegistry" where
  "registry_request env s topic w =
     (case map_get (as_requests (lr_objects w ! s)) topic of
        Some inFlight \<Rightarrow> (Awaiting inFlight, w)
      | None \<Rightarrow>
          if pending_total w \<ge> 256 then (Rejected (live_error ''live_query_capacity_exceeded'' 429), w)
          else
            let rid = ev_uuid env;
                w1 = session_upd s (\<lambda>x. x\<lparr>as_pending := map_set rid
                  \<lparr>pn_topic = topic, pn_acknowledged = False, pn_deadline = ev_now env + lr_requestMs w\<rparr> (as_pending x)\<rparr>) w;
                (sent, w2) = registry_send env s w1;
                w3 = (case sent of Inl err \<Rightarrow> registry_finish s rid err w2 | Inr _ \<Rightarrow> w2)
            in (Awaiting rid, session_upd s (\<lambda>x. x\<lparr>as_requests := map_set topic rid (as_requests x)\<rparr>) w3))"

definition registry_read :: "live_env \<Rightarrow> string \<Rightarrow> LiveTopic \<Rightarrow> 'd LiveRegistry \<Rightarrow> 'd reply \<times> 'd LiveRegistry" where
  "registry_read env deviceId topic w =
     (case map_get (lr_sessions w) deviceId of
        None \<Rightarrow> (Rejected (live_error ''device_not_connected'' 503), w)
      | Some s \<Rightarrow>
          let x = lr_objects w ! s
          in if \<not> registry_valid env s w then (Rejected (live_error ''device_not_connected'' 503), registry_detach s w)
             else if \<not> as_ready x then (Rejected (live_error ''device_not_connected'' 503), w)
             else if topic \<notin> set (as_capabilities x) then (Rejected (live_error ''device_capability_unavailable'' 422), w)
             else case map_get (as_results x) topic of
                Some (snapshot, t) \<Rightarrow>
                  if ev_now env - t < LIVE_RESULT_TTL_MS then (Resolved snapshot, w) else registry_request env s topic w
              | None \<Rightarrow> registry_request env s topic w)"

text \<open>The microtask after a settlement: the request no longer stands for its topic.\<close>

definition forget_request :: "nat \<Rightarrow> LiveTopic \<Rightarrow> string \<Rightarrow> 'd LiveRegistry \<Rightarrow> 'd LiveRegistry" where
  "forget_request s topic rid w =
     session_upd s (\<lambda>x. if map_get (as_requests x) topic = Some rid then x\<lparr>as_requests := map_delete topic (as_requests x)\<rparr> else x) w"

text \<open>The timer of a request.\<close>

definition registry_timeout :: "nat \<Rightarrow> string \<Rightarrow> 'd LiveRegistry \<Rightarrow> 'd LiveRegistry" where
  "registry_timeout s rid w =
     (case map_get (as_pending (lr_objects w ! s)) rid of
        None \<Rightarrow> w
      | Some p \<Rightarrow> settle rid (Inl (live_error (if pn_acknowledged p then ''device_response_timeout'' else ''device_ack_timeout'') 504))
          (session_upd s (\<lambda>x. x\<lparr>as_pending := map_delete rid (as_pending x)\<rparr>) w))"

definition registry_acknowledge :: "live_env \<Rightarrow> nat \<Rightarrow> string \<Rightarrow> 'd LiveRegistry \<Rightarrow> 'd LiveRegistry" where
  "registry_acknowledge env s rid w =
     (if \<not> registry_valid env s w then w
      else case map_get (as_pending (lr_objects w ! s)) rid of
             None \<Rightarrow> w
           | Some p \<Rightarrow> session_upd s (\<lambda>x. x\<lparr>as_pending := map_set rid (p\<lparr>pn_acknowledged := True\<rparr>) (as_pending x)\<rparr>) w)"

definition registry_result :: "live_env \<Rightarrow> nat \<Rightarrow> string \<Rightarrow> LiveTopic \<Rightarrow> 'd \<Rightarrow> 'd LiveRegistry \<Rightarrow> 'd LiveRegistry" where
  "registry_result env s rid topic data w =
     (if \<not> registry_valid env s w then registry_detach s w
      else case map_get (as_pending (lr_objects w ! s)) rid of
             None \<Rightarrow> w
           | Some p \<Rightarrow>
               if pn_topic p \<noteq> topic \<or> \<not> pn_acknowledged p then w
               else if ev_now env \<ge> pn_deadline p then registry_finish s rid (live_error ''device_response_timeout'' 504) w
               else let snapshot = \<lparr>ls_deviceId = as_deviceId (lr_objects w ! s), ls_sessionId = as_id (lr_objects w ! s),
                          ls_requestId = rid, ls_topic = topic, ls_receivedAt = ev_iso env, ls_data = data\<rparr>
                    in settle rid (Inr snapshot)
                         (session_upd s (\<lambda>x. x\<lparr>as_pending := map_delete rid (as_pending x),
                            as_results := map_set topic (snapshot, ev_now env) (as_results x)\<rparr>) w))"

definition registry_fail :: "live_env \<Rightarrow> nat \<Rightarrow> string \<Rightarrow> string \<Rightarrow> 'd LiveRegistry \<Rightarrow> 'd LiveRegistry" where
  "registry_fail env s rid code w =
     (if registry_valid env s w then registry_finish s rid (live_error code 502) w else w)"

definition registry_closeDevice :: "string \<Rightarrow> 'd LiveRegistry \<Rightarrow> 'd LiveRegistry" where
  "registry_closeDevice deviceId w = (case map_get (lr_sessions w) deviceId of None \<Rightarrow> w | Some s \<Rightarrow> registry_detach s w)"

definition registry_close :: "'d LiveRegistry \<Rightarrow> 'd LiveRegistry" where
  "registry_close w = fold registry_detach (map_values (lr_sessions w)) (w\<lparr>lr_closed := True\<rparr>)"

subsection \<open>The invariant\<close>

definition session_ok :: "(string, LiveError + 'd LiveSnapshot) jsmap \<Rightarrow> 'd AgentSession \<Rightarrow> bool" where
  "session_ok settled x \<longleftrightarrow>
     (\<forall>rid p. map_get (as_pending x) rid = Some p \<longrightarrow> map_get (as_requests x) (pn_topic p) = Some rid \<and> map_get settled rid = None) \<and>
     (\<forall>topic rid. map_get (as_requests x) topic = Some rid \<longrightarrow> map_get (as_pending x) rid \<noteq> None \<or> map_get settled rid \<noteq> None)"

definition owners_ok :: "'d LiveRegistry \<Rightarrow> bool" where
  "owners_ok w \<longleftrightarrow> distinct (map_keys (lr_sessions w)) \<and>
     (\<forall>dev s. map_get (lr_sessions w) dev = Some s \<longrightarrow> s < length (lr_objects w) \<and> as_deviceId (lr_objects w ! s) = dev)"

definition requests_ok :: "'d LiveRegistry \<Rightarrow> bool" where
  "requests_ok w \<longleftrightarrow> (\<forall>s < length (lr_objects w). session_ok (lr_settled w) (lr_objects w ! s)) \<and>
     (\<forall>s < length (lr_objects w). \<forall>s' < length (lr_objects w). \<forall>rid.
        map_get (as_pending (lr_objects w ! s)) rid \<noteq> None \<longrightarrow> map_get (as_pending (lr_objects w ! s')) rid \<noteq> None \<longrightarrow> s = s')"

definition limits_kept :: "'d LiveRegistry \<Rightarrow> bool" where
  "limits_kept w \<longleftrightarrow> pending_total w \<le> 256 \<and> (\<forall>dev ts. map_get (lr_takeovers w) dev = Some ts \<longrightarrow> length ts \<le> 3)"

definition orphans_idle :: "'d LiveRegistry \<Rightarrow> bool" where
  "orphans_idle w \<longleftrightarrow> (\<forall>s < length (lr_objects w).
     map_get (lr_sessions w) (as_deviceId (lr_objects w ! s)) \<noteq> Some s \<longrightarrow> as_pending (lr_objects w ! s) = [])"

definition base_ok :: "'d LiveRegistry \<Rightarrow> bool" where
  "base_ok w \<longleftrightarrow> owners_ok w \<and> requests_ok w \<and> limits_kept w"

definition registry_ok :: "'d LiveRegistry \<Rightarrow> bool" where
  "registry_ok w \<longleftrightarrow> base_ok w \<and> orphans_idle w"

lemma session_upd_simps [simp]:
  "lr_sessions (session_upd s f w) = lr_sessions w" "lr_takeovers (session_upd s f w) = lr_takeovers w"
  "lr_closed (session_upd s f w) = lr_closed w" "lr_requestMs (session_upd s f w) = lr_requestMs w"
  "lr_settled (session_upd s f w) = lr_settled w" "length (lr_objects (session_upd s f w)) = length (lr_objects w)"
  by (simp_all add: session_upd_def)

lemma session_upd_nth:
  "n < length (lr_objects w) \<Longrightarrow> lr_objects (session_upd s f w) ! n = (if n = s then f (lr_objects w ! s) else lr_objects w ! n)"
  by (auto simp: session_upd_def nth_list_update)

lemma settle_simps [simp]:
  "lr_sessions (settle rid v w) = lr_sessions w" "lr_takeovers (settle rid v w) = lr_takeovers w"
  "lr_objects (settle rid v w) = lr_objects w" "lr_closed (settle rid v w) = lr_closed w"
  "lr_requestMs (settle rid v w) = lr_requestMs w"
  by (simp_all add: settle_def)

lemma settled_settle:
  "map_get (lr_settled (settle rid v w)) r = (if r = rid \<and> map_get (lr_settled w) rid = None then Some v else map_get (lr_settled w) r)"
  by (simp add: settle_def)

lemma owners_member:
  assumes "owners_ok w" "(dev, s) \<in> set (lr_sessions w)"
  shows "s < length (lr_objects w) \<and> as_deviceId (lr_objects w ! s) = dev"
  using assms by (auto simp: owners_ok_def)

text \<open>The pending total depends on the tables of the owned sessions only.\<close>

lemma pending_total_le:
  assumes "owners_ok w" "lr_sessions w' = filter P (lr_sessions w)"
    "\<And>s. s < length (lr_objects w) \<Longrightarrow> length (as_pending (lr_objects w' ! s)) \<le> length (as_pending (lr_objects w ! s))"
  shows "pending_total w' \<le> pending_total w"
proof -
  have "sum_list (map (\<lambda>(_, s). length (as_pending (lr_objects w' ! s))) (filter P m))
      \<le> sum_list (map (\<lambda>(_, s). length (as_pending (lr_objects w ! s))) m)"
    if "\<forall>(dev, s) \<in> set m. s < length (lr_objects w)" for m :: "(string, nat) jsmap"
    using that by (induction m) (auto intro!: add_mono assms(3) le_SucI simp: trans_le_add2)
  moreover have "\<forall>(dev, s) \<in> set (lr_sessions w). s < length (lr_objects w)"
    using owners_member [OF assms(1)] by blast
  ultimately show ?thesis
    by (simp add: pending_total_def assms(2))
qed

text \<open>Changes that keep the owners and the identifiers pending in each session.\<close>

lemma registry_ok_transfer:
  assumes ok: "registry_ok w"
    and eq: "lr_sessions w' = lr_sessions w" "lr_takeovers w' = lr_takeovers w" "lr_settled w' = lr_settled w"
      "length (lr_objects w') = length (lr_objects w)"
    and dev: "\<And>n. n < length (lr_objects w) \<Longrightarrow> as_deviceId (lr_objects w' ! n) = as_deviceId (lr_objects w ! n)"
    and keys: "\<And>n. n < length (lr_objects w) \<Longrightarrow> map_keys (as_pending (lr_objects w' ! n)) = map_keys (as_pending (lr_objects w ! n))"
    and sess: "\<And>n. n < length (lr_objects w) \<Longrightarrow> session_ok (lr_settled w) (lr_objects w ! n) \<Longrightarrow> session_ok (lr_settled w) (lr_objects w' ! n)"
  shows "registry_ok w'"
proof -
  have ok': "owners_ok w" "requests_ok w" "limits_kept w" "orphans_idle w"
    using ok by (simp_all add: registry_ok_def base_ok_def)
  have len: "length (as_pending (lr_objects w' ! n)) = length (as_pending (lr_objects w ! n))" if "n < length (lr_objects w)" for n
    using keys [OF that] by (metis length_map)
  have "owners_ok w'"
    using ok'(1) dev unfolding owners_ok_def eq by blast
  moreover have "requests_ok w'"
    using ok'(2) sess keys unfolding requests_ok_def eq map_get_None_iff by (simp del: set_map)
  moreover have "pending_total w' \<le> pending_total w"
    by (rule pending_total_le [OF ok'(1), where P = "\<lambda>_. True"]) (simp_all add: eq len)
  moreover have "orphans_idle w'"
    using ok'(4) dev len unfolding orphans_idle_def eq by (metis length_0_conv)
  ultimately show ?thesis
    using ok'(3) by (simp add: registry_ok_def base_ok_def limits_kept_def eq)
qed

text \<open>Updates that leave the requests of a session alone do not matter.\<close>

lemma registry_ok_upd:
  assumes "registry_ok w" "s < length (lr_objects w)"
    "\<And>x. as_pending (f x) = as_pending x" "\<And>x. as_requests (f x) = as_requests x" "\<And>x. as_deviceId (f x) = as_deviceId x"
  shows "registry_ok (session_upd s f w)"
  using assms by (intro registry_ok_transfer [OF assms(1)]) (auto simp: session_upd_nth session_ok_def)

text \<open>Ending a pending request with an outcome: the common step of time-outs, failures, results and detachment.\<close>

definition end_request :: "nat \<Rightarrow> string \<Rightarrow> LiveError + 'd LiveSnapshot \<Rightarrow> 'd LiveRegistry \<Rightarrow> 'd LiveRegistry" where
  "end_request s rid v w = settle rid v (session_upd s (\<lambda>x. x\<lparr>as_pending := map_delete rid (as_pending x)\<rparr>) w)"

lemma end_request_nth:
  "n < length (lr_objects w) \<Longrightarrow> lr_objects (end_request s rid v w) ! n =
     (if n = s then (lr_objects w ! s)\<lparr>as_pending := map_delete rid (as_pending (lr_objects w ! s))\<rparr> else lr_objects w ! n)"
  by (simp add: end_request_def session_upd_nth)

lemma end_request_simps [simp]:
  "lr_sessions (end_request s rid v w) = lr_sessions w" "lr_takeovers (end_request s rid v w) = lr_takeovers w"
  "length (lr_objects (end_request s rid v w)) = length (lr_objects w)"
  by (simp_all add: end_request_def)

lemma base_ok_end:
  assumes ok: "base_ok w" and s: "s < length (lr_objects w)" and p: "map_get (as_pending (lr_objects w ! s)) rid = Some p"
  shows "base_ok (end_request s rid v w)"
proof -
  let ?w = "end_request s rid v w"
  have unset: "map_get (lr_settled w) rid = None"
    using ok s p by (auto simp: base_ok_def requests_ok_def session_ok_def)
  have set': "map_get (lr_settled ?w) r = (if r = rid then Some v else map_get (lr_settled w) r)" for r
    using unset by (simp add: end_request_def settled_settle)
  have only: "map_get (as_pending (lr_objects w ! n)) rid = None" if "n < length (lr_objects w)" "n \<noteq> s" for n
    using ok s p that unfolding base_ok_def requests_ok_def by (metis option.distinct(1))
  have get: "map_get (as_pending (lr_objects ?w ! n)) r = (if r = rid then None else map_get (as_pending (lr_objects w ! n)) r)"
    "as_requests (lr_objects ?w ! n) = as_requests (lr_objects w ! n)" "as_deviceId (lr_objects ?w ! n) = as_deviceId (lr_objects w ! n)"
    if "n < length (lr_objects w)" for n r
    using that only by (auto simp: end_request_nth)
  have "owners_ok ?w"
    using ok get(3) by (auto simp: base_ok_def owners_ok_def simp del: map_of_eq_Some_iff)
  moreover have "requests_ok ?w"
    using ok by (auto simp: base_ok_def requests_ok_def session_ok_def get set' split: if_splits)
  moreover have "pending_total ?w \<le> pending_total w"
    using ok by (intro pending_total_le [where P = "\<lambda>_. True"]) (auto simp: base_ok_def end_request_nth AList.delete_eq)
  ultimately show ?thesis
    using ok by (simp add: base_ok_def limits_kept_def)
qed

lemma finish_eq:
  "registry_finish s rid err w = (if map_get (as_pending (lr_objects w ! s)) rid = None then w else end_request s rid (Inl err) w)"
  by (auto simp: registry_finish_def end_request_def)

lemma finish_simps [simp]:
  "lr_sessions (registry_finish s rid err w) = lr_sessions w" "lr_takeovers (registry_finish s rid err w) = lr_takeovers w"
  "lr_closed (registry_finish s rid err w) = lr_closed w" "lr_requestMs (registry_finish s rid err w) = lr_requestMs w"
  "length (lr_objects (registry_finish s rid err w)) = length (lr_objects w)"
  by (simp_all add: finish_eq end_request_def)

lemma base_ok_finish: "base_ok w \<Longrightarrow> s < length (lr_objects w) \<Longrightarrow> base_ok (registry_finish s rid err w)"
  by (auto simp: finish_eq intro: base_ok_end)

lemma finish_nth:
  "n < length (lr_objects w) \<Longrightarrow> n \<noteq> s \<Longrightarrow> lr_objects (registry_finish s rid err w) ! n = lr_objects w ! n"
  by (simp add: finish_eq end_request_nth)

lemma finish_pending:
  "s < length (lr_objects w) \<Longrightarrow> map_get (as_pending (lr_objects (registry_finish s rid err w) ! s)) r =
     (if r = rid then None else map_get (as_pending (lr_objects w ! s)) r)"
  by (auto simp: finish_eq end_request_nth)

lemma finish_session:
  "s < length (lr_objects w) \<Longrightarrow> as_deviceId (lr_objects (registry_finish s rid err w) ! n) = as_deviceId (lr_objects w ! n)
     \<and> as_requests (lr_objects (registry_finish s rid err w) ! n) = as_requests (lr_objects w ! n)"
  by (cases "n = s") (simp_all add: finish_eq end_request_def session_upd_def)

lemma finish_settled:
  assumes "base_ok w" "s < length (lr_objects w)"
  shows "map_get (lr_settled (registry_finish s rid err w)) r =
    (if r = rid \<and> map_get (as_pending (lr_objects w ! s)) rid \<noteq> None then Some (Inl err) else map_get (lr_settled w) r)"
  using assms by (auto simp: finish_eq end_request_def settled_settle base_ok_def requests_ok_def session_ok_def)

lemma fold_finish:
  fixes err :: LiveError
  assumes "base_ok w" "s < length (lr_objects w)"
  defines "w' \<equiv> \<lambda>ks. fold (\<lambda>rid. registry_finish s rid err) ks w"
  shows "base_ok (w' ks) \<and> lr_sessions (w' ks) = lr_sessions w \<and> lr_takeovers (w' ks) = lr_takeovers w
    \<and> lr_closed (w' ks) = lr_closed w \<and> lr_requestMs (w' ks) = lr_requestMs w \<and> length (lr_objects (w' ks)) = length (lr_objects w)
    \<and> (\<forall>n < length (lr_objects w). n \<noteq> s \<longrightarrow> lr_objects (w' ks) ! n = lr_objects w ! n)
    \<and> (\<forall>n. as_deviceId (lr_objects (w' ks) ! n) = as_deviceId (lr_objects w ! n) \<and> as_requests (lr_objects (w' ks) ! n) = as_requests (lr_objects w ! n))
    \<and> (\<forall>r. map_get (as_pending (lr_objects (w' ks) ! s)) r = (if r \<in> set ks then None else map_get (as_pending (lr_objects w ! s)) r))
    \<and> (\<forall>r. map_get (lr_settled (w' ks)) r = (if r \<in> set ks \<and> map_get (as_pending (lr_objects w ! s)) r \<noteq> None
          then Some (Inl err) else map_get (lr_settled w) r))"
proof (induction ks rule: rev_induct)
  case Nil
  then show ?case using assms(1) by (simp add: w'_def)
next
  case (snoc rid ks)
  have step: "w' (ks @ [rid]) = registry_finish s rid err (w' ks)"
    by (simp add: w'_def)
  have s': "s < length (lr_objects (w' ks))" using snoc assms(2) by simp
  show ?case
    unfolding step using snoc s'
    by (auto simp: base_ok_finish finish_nth finish_pending finish_session finish_settled)
qed

lemma disown_filter:
  assumes "owners_ok w"
  defines "dev \<equiv> \<lambda>s. as_deviceId (lr_objects w ! s)"
  shows "(if map_get (lr_sessions w) (dev s) = Some s then map_delete (dev s) (lr_sessions w) else lr_sessions w)
    = filter (\<lambda>e. snd e \<noteq> s) (lr_sessions w)"
proof -
  have entry: "snd e = s \<longleftrightarrow> fst e = dev s \<and> map_get (lr_sessions w) (dev s) = Some s" if "e \<in> set (lr_sessions w)" for e
  proof -
    have "map_get (lr_sessions w) (fst e) = Some (snd e)" "dev (snd e) = fst e"
      using that assms(1) owners_member [OF assms(1), of "fst e" "snd e"] by (simp_all add: owners_ok_def dev_def)
    then show ?thesis by auto
  qed
  show ?thesis
  proof (cases "map_get (lr_sessions w) (dev s) = Some s")
    case True
    have "(case e of (k, _) \<Rightarrow> dev s \<noteq> k) = (snd e \<noteq> s)" if "e \<in> set (lr_sessions w)" for e
      using entry [OF that] True by (auto simp: case_prod_unfold)
    then have "filter (\<lambda>(k, _). dev s \<noteq> k) (lr_sessions w) = filter (\<lambda>e. snd e \<noteq> s) (lr_sessions w)"
      by (rule filter_cong [OF refl])
    then show ?thesis using True by (simp add: AList.delete_eq)
  next
    case False
    then show ?thesis using entry by (auto simp: filter_id_conv)
  qed
qed

lemma map_get_all_None:
  assumes "\<And>k. map_get m k = None"
  shows "m = []"
proof (cases m)
  case (Cons e m')
  then show ?thesis using assms [of "fst e"] by simp
qed simp

definition disown :: "nat \<Rightarrow> 'd LiveRegistry \<Rightarrow> 'd LiveRegistry" where
  "disown s w = w\<lparr>lr_sessions := filter (\<lambda>e. snd e \<noteq> s) (lr_sessions w)\<rparr>"

lemma disown_eq:
  assumes "owners_ok w"
  shows "(if map_get (lr_sessions w) (as_deviceId (lr_objects w ! s)) = Some s
      then w\<lparr>lr_sessions := map_delete (as_deviceId (lr_objects w ! s)) (lr_sessions w)\<rparr> else w) = disown s w"
  unfolding disown_def disown_filter [OF assms, of s, symmetric] by simp

lemma disown_simps [simp]:
  "lr_sessions (disown s w) = filter (\<lambda>e. snd e \<noteq> s) (lr_sessions w)" "lr_objects (disown s w) = lr_objects w"
  "lr_settled (disown s w) = lr_settled w" "lr_takeovers (disown s w) = lr_takeovers w"
  "lr_closed (disown s w) = lr_closed w" "lr_requestMs (disown s w) = lr_requestMs w"
  by (simp_all add: disown_def)

lemma map_get_disowned:
  "distinct (map_keys m) \<Longrightarrow> map_get (filter (\<lambda>e. snd e \<noteq> s) m) k = (case map_get m k of None \<Rightarrow> None | Some n \<Rightarrow> if n \<noteq> s then Some n else None)"
  by (simp add: map_get_filter split: option.split)

lemma base_ok_disown:
  assumes "base_ok w"
  shows "base_ok (disown s w)"
proof -
  have own: "owners_ok w" using assms by (simp add: base_ok_def)
  have "pending_total (disown s w) \<le> pending_total w"
    by (rule pending_total_le [OF own, where P = "\<lambda>e. snd e \<noteq> s"]) simp_all
  moreover have "owners_ok (disown s w)"
    unfolding owners_ok_def
  proof (intro conjI allI impI)
    show "distinct (map_keys (lr_sessions (disown s w)))"
      using own by (simp add: owners_ok_def distinct_map_filter)
  next
    fix dev n assume "map_get (lr_sessions (disown s w)) dev = Some n"
    then have "(dev, n) \<in> set (lr_sessions w)"
      by (auto dest: map_of_SomeD)
    then show "n < length (lr_objects (disown s w))" "as_deviceId (lr_objects (disown s w) ! n) = dev"
      using owners_member [OF own] by simp_all
  qed
  ultimately show ?thesis
    using assms by (simp add: base_ok_def requests_ok_def limits_kept_def)
qed

lemma detach_eq:
  assumes "owners_ok w"
  shows "registry_detach s w = (let w2 = fold (\<lambda>rid. registry_finish s rid (live_error ''device_disconnected'' 503))
      (map_keys (as_pending (lr_objects w ! s))) (disown s w) in w2\<lparr>lr_closes := lr_closes w2 @ [s]\<rparr>)"
  unfolding registry_detach_def Let_def disown_eq [OF assms] ..

lemma base_ok_closes [simp]: "base_ok (w\<lparr>lr_closes := x\<rparr>) = base_ok w"
  by (simp add: base_ok_def owners_ok_def requests_ok_def limits_kept_def pending_total_def)

lemma detach_facts:
  assumes ok: "base_ok w" and s: "s < length (lr_objects w)"
  shows "base_ok (registry_detach s w)"
    and detach_sessions: "lr_sessions (registry_detach s w) = filter (\<lambda>e. snd e \<noteq> s) (lr_sessions w)"
    and detach_rest: "lr_takeovers (registry_detach s w) = lr_takeovers w" "lr_closed (registry_detach s w) = lr_closed w"
      "lr_requestMs (registry_detach s w) = lr_requestMs w" "length (lr_objects (registry_detach s w)) = length (lr_objects w)"
    and detach_others: "n < length (lr_objects w) \<Longrightarrow> n \<noteq> s \<Longrightarrow> lr_objects (registry_detach s w) ! n = lr_objects w ! n"
    and detach_device: "as_deviceId (lr_objects (registry_detach s w) ! n) = as_deviceId (lr_objects w ! n)"
    and detach_pending: "as_pending (lr_objects (registry_detach s w) ! s) = []"
    and detach_settled: "map_get (lr_settled (registry_detach s w)) r = (if map_get (as_pending (lr_objects w ! s)) r \<noteq> None
       then Some (Inl (live_error ''device_disconnected'' 503)) else map_get (lr_settled w) r)"
proof -
  define w2 where "w2 = fold (\<lambda>rid. registry_finish s rid (live_error ''device_disconnected'' 503))
    (map_keys (as_pending (lr_objects w ! s))) (disown s w)"
  have own: "owners_ok w" using ok by (simp add: base_ok_def)
  have eq: "registry_detach s w = w2\<lparr>lr_closes := lr_closes w2 @ [s]\<rparr>"
    unfolding detach_eq [OF own] Let_def w2_def ..
  have s': "s < length (lr_objects (disown s w))" using s by simp
  note f = fold_finish [OF base_ok_disown [OF ok] s', of "live_error ''device_disconnected'' 503" "map_keys (as_pending (lr_objects w ! s))",
      folded w2_def, unfolded disown_simps]
  show "base_ok (registry_detach s w)" unfolding eq base_ok_closes using f by blast
  show "lr_sessions (registry_detach s w) = filter (\<lambda>e. snd e \<noteq> s) (lr_sessions w)" using f by (simp add: eq)
  show "lr_takeovers (registry_detach s w) = lr_takeovers w" "lr_closed (registry_detach s w) = lr_closed w"
    "lr_requestMs (registry_detach s w) = lr_requestMs w" "length (lr_objects (registry_detach s w)) = length (lr_objects w)"
    using f by (simp_all add: eq)
  show "n < length (lr_objects w) \<Longrightarrow> n \<noteq> s \<Longrightarrow> lr_objects (registry_detach s w) ! n = lr_objects w ! n"
    using f by (simp add: eq)
  show "as_deviceId (lr_objects (registry_detach s w) ! n) = as_deviceId (lr_objects w ! n)"
    using f by (simp add: eq)
  have gone: "map_get (as_pending (lr_objects w2 ! s)) r = None" for r
  proof (cases "r \<in> set (map_keys (as_pending (lr_objects w ! s)))")
    case True
    then show ?thesis using f by simp
  next
    case False
    then have "map_get (as_pending (lr_objects w ! s)) r = None" by (simp only: map_get_None_iff not_False_eq_True)
    then show ?thesis using f by simp
  qed
  show "as_pending (lr_objects (registry_detach s w) ! s) = []"
    unfolding eq using gone by (simp add: map_get_all_None)
  show "map_get (lr_settled (registry_detach s w)) r = (if map_get (as_pending (lr_objects w ! s)) r \<noteq> None
       then Some (Inl (live_error ''device_disconnected'' 503)) else map_get (lr_settled w) r)"
  proof -
    have "map_get (as_pending (lr_objects w ! s)) r \<noteq> None \<Longrightarrow> r \<in> set (map_keys (as_pending (lr_objects w ! s)))"
      by (simp only: map_get_None_iff not_not)
    then show ?thesis using f by (auto simp: eq)
  qed
qed

lemma registry_ok_detach:
  assumes ok: "base_ok w" and s: "s < length (lr_objects w)"
    and idle: "\<And>n. n < length (lr_objects w) \<Longrightarrow> n \<noteq> s \<Longrightarrow> map_get (lr_sessions w) (as_deviceId (lr_objects w ! n)) \<noteq> Some n
      \<Longrightarrow> as_pending (lr_objects w ! n) = []"
  shows "registry_ok (registry_detach s w)"
proof -
  have d: "distinct (map_keys (lr_sessions w))" using ok by (simp add: base_ok_def owners_ok_def)
  have "orphans_idle (registry_detach s w)"
    unfolding orphans_idle_def detach_rest [OF ok s] detach_device [OF ok s] detach_sessions [OF ok s] map_get_disowned [OF d]
  proof (intro allI impI)
    fix n assume n: "n < length (lr_objects w)" "(case map_get (lr_sessions w) (as_deviceId (lr_objects w ! n)) of None \<Rightarrow> None
        | Some n \<Rightarrow> if n \<noteq> s then Some n else None) \<noteq> Some n"
    show "as_pending (lr_objects (registry_detach s w) ! n) = []"
    proof (cases "n = s")
      case True
      then show ?thesis by (simp add: detach_pending [OF ok s])
    next
      case False
      then have "map_get (lr_sessions w) (as_deviceId (lr_objects w ! n)) \<noteq> Some n"
        using n(2) by auto
      then show ?thesis using idle [OF n(1) False] False n(1) by (simp add: detach_others [OF ok s])
    qed
  qed
  then show ?thesis using detach_facts(1) [OF ok s] by (simp add: registry_ok_def)
qed

lemma registry_okD:
  assumes "registry_ok w"
  shows "base_ok w" "owners_ok w" "orphans_idle w" "requests_ok w" "limits_kept w"
  using assms by (simp_all add: registry_ok_def base_ok_def)

lemma registry_ok_detach': "registry_ok w \<Longrightarrow> s < length (lr_objects w) \<Longrightarrow> registry_ok (registry_detach s w)"
  by (rule registry_ok_detach) (auto simp: registry_ok_def orphans_idle_def)

lemma owned_bound: "registry_ok w \<Longrightarrow> map_get (lr_sessions w) dev = Some s \<Longrightarrow> s < length (lr_objects w)"
  unfolding registry_ok_def base_ok_def owners_ok_def by blast

lemma registry_ok_end:
  assumes "registry_ok w" "s < length (lr_objects w)" "map_get (as_pending (lr_objects w ! s)) rid = Some p"
  shows "registry_ok (end_request s rid v w)"
proof -
  have "orphans_idle (end_request s rid v w)"
    using assms(1) unfolding registry_ok_def orphans_idle_def
    by (auto simp: end_request_nth split: if_splits)
  then show ?thesis using base_ok_end [OF _ assms(2,3)] assms(1) by (simp add: registry_ok_def)
qed

lemma registry_ok_finish: "registry_ok w \<Longrightarrow> s < length (lr_objects w) \<Longrightarrow> registry_ok (registry_finish s rid err w)"
  by (auto simp: finish_eq intro: registry_ok_end)

lemma registry_ok_timeout: "registry_ok w \<Longrightarrow> s < length (lr_objects w) \<Longrightarrow> registry_ok (registry_timeout s rid w)"
  by (auto simp: registry_timeout_def simp flip: end_request_def intro: registry_ok_end split: option.split)

lemma registry_ok_closes [simp]: "registry_ok (w\<lparr>lr_closed := x\<rparr>) = registry_ok w"
  by (simp add: registry_ok_def base_ok_def owners_ok_def requests_ok_def limits_kept_def pending_total_def orphans_idle_def)

lemma registry_ok_send:
  "registry_ok w \<Longrightarrow> s < length (lr_objects w) \<Longrightarrow> registry_ok (snd (registry_send env s w))"
  by (simp add: registry_send_def registry_ok_detach')

lemma registry_ok_heartbeat:
  "registry_ok w \<Longrightarrow> s < length (lr_objects w) \<Longrightarrow> registry_ok (snd (registry_heartbeat env s w))"
  by (auto simp: registry_heartbeat_def registry_ok_detach' intro!: registry_ok_send registry_ok_upd)

lemma registry_ok_pong: "registry_ok w \<Longrightarrow> s < length (lr_objects w) \<Longrightarrow> registry_ok (registry_pong env s nonce w)"
  by (auto simp: registry_pong_def intro!: registry_ok_upd)

lemma registry_ok_ready: "registry_ok w \<Longrightarrow> s < length (lr_objects w) \<Longrightarrow> registry_ok (snd (registry_ready env s cs w))"
  by (auto simp: registry_ready_def intro!: registry_ok_upd)

lemma registry_ok_fail: "registry_ok w \<Longrightarrow> s < length (lr_objects w) \<Longrightarrow> registry_ok (registry_fail env s rid code w)"
  by (simp add: registry_fail_def registry_ok_finish)

lemma registry_ok_closeDevice: "registry_ok w \<Longrightarrow> registry_ok (registry_closeDevice dev w)"
  by (auto simp: registry_closeDevice_def split: option.split intro: registry_ok_detach' owned_bound)

lemma registry_ok_describe: "registry_ok w \<Longrightarrow> registry_ok (snd (registry_describe env dev w))"
  by (auto simp: registry_describe_def Let_def split: option.split intro: registry_ok_detach' owned_bound)

lemma registry_ok_result:
  assumes "registry_ok w" "s < length (lr_objects w)"
  shows "registry_ok (registry_result env s rid topic data w)"
proof -
  have swap: "settle rid v (session_upd s (\<lambda>x. x\<lparr>as_pending := map_delete rid (as_pending x), as_results := map_set topic r (as_results x)\<rparr>) w)
      = session_upd s (\<lambda>x. x\<lparr>as_results := map_set topic r (as_results x)\<rparr>) (end_request s rid v w)" for v r
    using assms(2) by (simp add: end_request_def settle_def session_upd_def)
  have "registry_ok (session_upd s (\<lambda>x. x\<lparr>as_results := map_set topic r (as_results x)\<rparr>) (end_request s rid v w))"
    if "map_get (as_pending (lr_objects w ! s)) rid = Some p" for r v p
    using registry_ok_end [OF assms that] assms(2) by (intro registry_ok_upd) simp_all
  then show ?thesis
    using assms by (auto simp: registry_result_def registry_ok_detach' registry_ok_finish swap Let_def split: option.split)
qed

lemma registry_ok_acknowledge:
  assumes ok: "registry_ok w" and s: "s < length (lr_objects w)"
  shows "registry_ok (registry_acknowledge env s rid w)"
proof (cases "registry_valid env s w \<and> map_get (as_pending (lr_objects w ! s)) rid \<noteq> None")
  case True
  then obtain p where p: "map_get (as_pending (lr_objects w ! s)) rid = Some p" by auto
  then have "rid \<in> set (map_keys (as_pending (lr_objects w ! s)))"
    using map_get_None_iff [of "as_pending (lr_objects w ! s)" rid] by auto
  then have "map_keys (map_set rid p' (as_pending (lr_objects w ! s))) = map_keys (as_pending (lr_objects w ! s))" for p'
    by (simp add: map_keys_set)
  moreover have "session_ok (lr_settled w) ((lr_objects w ! s)\<lparr>as_pending := map_set rid (p\<lparr>pn_acknowledged := True\<rparr>) (as_pending (lr_objects w ! s))\<rparr>)"
    if "session_ok (lr_settled w) (lr_objects w ! s)"
    using that p by (auto simp: session_ok_def)
  ultimately have "registry_ok (session_upd s (\<lambda>x. x\<lparr>as_pending := map_set rid (p\<lparr>pn_acknowledged := True\<rparr>) (as_pending x)\<rparr>) w)"
    by (intro registry_ok_transfer [OF ok]) (auto simp: session_upd_nth)
  then show ?thesis
    using True p by (simp add: registry_acknowledge_def)
next
  case False
  then show ?thesis using ok by (auto simp: registry_acknowledge_def split: option.split)
qed

lemma registry_ok_forget:
  assumes ok: "registry_ok w" and s: "s < length (lr_objects w)" and settled: "map_get (lr_settled w) rid \<noteq> None"
  shows "registry_ok (forget_request s topic rid w)"
proof -
  have "session_ok (lr_settled w) (x\<lparr>as_requests := map_delete topic (as_requests x)\<rparr>)"
    if "session_ok (lr_settled w) x" "map_get (as_requests x) topic = Some rid" for x
    using that settled by (auto simp: session_ok_def)
  then show ?thesis
    unfolding forget_request_def by (intro registry_ok_transfer [OF ok]) (auto simp: session_upd_nth)
qed

lemma map_set_new: "map_get m k = None \<Longrightarrow> map_set k v m = m @ [(k, v)]"
  by (induction m) (auto split: if_splits)

lemma registry_ok_takeovers:
  "registry_ok w \<Longrightarrow> length ts \<le> 3 \<Longrightarrow> registry_ok (w\<lparr>lr_takeovers := map_set dev ts (lr_takeovers w)\<rparr>)"
  by (auto simp: registry_ok_def base_ok_def owners_ok_def requests_ok_def limits_kept_def orphans_idle_def
      pending_total_def simp del: map_of_eq_Some_iff)

lemma registry_ok_attach:
  assumes ok: "registry_ok w"
  shows "registry_ok (snd (registry_attach env dev w))"
proof -
  note takeovers = registry_ok_takeovers [OF ok]
  have recent: "length (filter P (nullish (map_get (lr_takeovers w) dev) [])) \<le> 3" for P
  proof (cases "map_get (lr_takeovers w) dev")
    case (Some ts)
    then have "length ts \<le> 3" using registry_okD(5) [OF ok] unfolding limits_kept_def by blast
    then have "length (filter P ts) \<le> 3" by (rule order_trans [OF length_filter_le])
    then show ?thesis using Some by simp
  qed simp
  have added: "registry_ok (w2\<lparr>lr_objects := lr_objects w2 @ [x], lr_sessions := map_set dev (length (lr_objects w2)) (lr_sessions w2)\<rparr>)"
    if w2: "registry_ok w2" "map_get (lr_sessions w2) dev = None" and x: "as_deviceId x = dev" "as_pending x = []" "as_requests x = []"
    for w2 :: "'a LiveRegistry" and x
  proof -
    define w' where "w' = w2\<lparr>lr_objects := lr_objects w2 @ [x], lr_sessions := map_set dev (length (lr_objects w2)) (lr_sessions w2)\<rparr>"
    have own: "owners_ok w2" by (rule registry_okD(2) [OF w2(1)])
    have "owners_ok w'"
      using own x(1) by (auto simp: w'_def owners_ok_def nth_append intro: distinct_keys_set less_SucI simp del: map_of_eq_Some_iff split: if_splits)
    moreover have "requests_ok w'"
      using registry_okD(4) [OF w2(1)] x by (auto simp: w'_def requests_ok_def session_ok_def nth_append less_Suc_eq)
    moreover have "pending_total w' = pending_total w2"
    proof -
      have "lr_sessions w' = lr_sessions w2 @ [(dev, length (lr_objects w2))]"
        using w2(2) by (simp add: w'_def map_set_new)
      moreover have "\<forall>e \<in> set (lr_sessions w2). snd e < length (lr_objects w2)"
        using owners_member [OF own] by (metis prod.collapse)
      ultimately show ?thesis
        using x(2) by (auto simp: pending_total_def w'_def nth_append case_prod_unfold intro!: arg_cong [where f = sum_list])
    qed
    moreover have "orphans_idle w'"
      using registry_okD(3) [OF w2(1)] x w2(2) by (auto simp: w'_def orphans_idle_def nth_append less_Suc_eq)
    ultimately show ?thesis
      using registry_okD(5) [OF w2(1)] by (simp add: registry_ok_def base_ok_def limits_kept_def w'_def)
  qed
  define taken where "taken = (case map_get (lr_sessions w) dev of None \<Rightarrow> False | Some p \<Rightarrow> registry_valid env p w)"
  define recent' where "recent' = filter (\<lambda>t. ev_now env - t < LIVE_TAKEOVER_WINDOW_MS) (nullish (map_get (lr_takeovers w) dev) [])"
  define w1 where "w1 = (if taken then w\<lparr>lr_takeovers := map_set dev (recent' @ [ev_now env]) (lr_takeovers w)\<rparr> else w)"
  define w2 where "w2 = (case map_get (lr_sessions w) dev of None \<Rightarrow> w1 | Some p \<Rightarrow> registry_detach p w1)"
  show ?thesis
  proof (cases "lr_closed w \<or> (taken \<and> length recent' \<ge> LIVE_TAKEOVER_LIMIT)")
    case True
    have "registry_ok (w\<lparr>lr_takeovers := map_set dev recent' (lr_takeovers w)\<rparr>)"
      unfolding recent'_def by (rule takeovers [OF recent])
    then show ?thesis
      using True ok by (auto simp: registry_attach_def Let_def simp flip: taken_def recent'_def)
  next
    case False
    have ok1: "registry_ok w1"
    proof (cases taken)
      case True
      then show ?thesis using takeovers [of "recent' @ [ev_now env]"] False by (simp add: w1_def LIVE_TAKEOVER_LIMIT_def)
    qed (simp add: w1_def ok)
    have s1: "lr_sessions w1 = lr_sessions w" "lr_objects w1 = lr_objects w" by (simp_all add: w1_def)
    have bound: "p < length (lr_objects w1)" if "map_get (lr_sessions w) dev = Some p" for p
      using owned_bound [OF ok that] by (simp add: s1)
    have ok2: "registry_ok w2"
      using ok1 bound by (auto simp: w2_def split: option.split intro: registry_ok_detach')
    have none: "map_get (lr_sessions w2) dev = None"
    proof (cases "map_get (lr_sessions w) dev")
      case (Some p)
      have d: "distinct (map_keys (lr_sessions w1))"
        using registry_okD(2) [OF ok1] by (simp add: owners_ok_def)
      show ?thesis
        using Some detach_sessions [OF registry_okD(1) [OF ok1] bound [OF Some]]
        by (simp add: w2_def map_get_disowned [OF d]) (simp add: s1)
    qed (simp add: w2_def s1)
    show ?thesis
      using False added [OF ok2 none] by (auto simp: registry_attach_def Let_def simp flip: taken_def recent'_def w1_def w2_def)
  qed
qed

text \<open>Noting the request of a topic commutes with ending requests, so it may be thought of as done first.\<close>

abbreviation note_request :: "nat \<Rightarrow> LiveTopic \<Rightarrow> string \<Rightarrow> 'd LiveRegistry \<Rightarrow> 'd LiveRegistry" where
  "note_request s topic rid \<equiv> session_upd s (\<lambda>x. x\<lparr>as_requests := map_set topic rid (as_requests x)\<rparr>)"

lemma update_orders:
  "x\<lparr>as_requests := a, as_pending := b\<rparr> = x\<lparr>as_pending := b, as_requests := a\<rparr>"
  "w\<lparr>lr_objects := c, lr_settled := d\<rparr> = w\<lparr>lr_settled := d, lr_objects := c\<rparr>"
  by (cases x, simp) (cases w, simp)

lemma note_finish:
  "s < length (lr_objects w) \<Longrightarrow> registry_finish s r err (note_request s topic rid w) = note_request s topic rid (registry_finish s r err w)"
  by (simp add: finish_eq end_request_def settle_def session_upd_def update_orders)

lemma note_fold_finish:
  "s < length (lr_objects w) \<Longrightarrow> fold (\<lambda>r. registry_finish s r err) ks (note_request s topic rid w)
     = note_request s topic rid (fold (\<lambda>r. registry_finish s r err) ks w)"
  by (induction ks arbitrary: w) (simp_all add: note_finish)

lemma note_detach:
  assumes "s < length (lr_objects w)"
  shows "registry_detach s (note_request s topic rid w) = note_request s topic rid (registry_detach s w)"
proof -
  have "as_pending (lr_objects (note_request s topic rid w) ! s) = as_pending (lr_objects w ! s)"
    "as_deviceId (lr_objects (note_request s topic rid w) ! s) = as_deviceId (lr_objects w ! s)"
    using assms by (simp_all add: session_upd_nth)
  moreover have "(note_request s topic rid w)\<lparr>lr_sessions := m\<rparr> = note_request s topic rid (w\<lparr>lr_sessions := m\<rparr>)" for m
    by (simp add: session_upd_def)
  moreover have "(note_request s topic rid v)\<lparr>lr_closes := c\<rparr> = note_request s topic rid (v\<lparr>lr_closes := c\<rparr>)"
    "lr_closes (note_request s topic rid v) = lr_closes v" for v :: "'a LiveRegistry" and c
    by (simp_all add: session_upd_def)
  ultimately show ?thesis
    unfolding registry_detach_def Let_def using assms by (simp add: note_fold_finish)
qed

text \<open>A new request on a session that owns its device, with a fresh identifier and room for it.\<close>

definition fresh_id :: "string \<Rightarrow> 'd LiveRegistry \<Rightarrow> bool" where
  "fresh_id rid w \<longleftrightarrow> map_get (lr_settled w) rid = None \<and>
     (\<forall>n < length (lr_objects w). map_get (as_pending (lr_objects w ! n)) rid = None)"

lemma pending_total_add:
  assumes "owners_ok w" "map_get (lr_sessions w) (as_deviceId (lr_objects w ! s)) = Some s"
    "\<And>n. n < length (lr_objects w) \<Longrightarrow> length (as_pending (lr_objects w' ! n)) \<le> length (as_pending (lr_objects w ! n)) + (if n = s then 1 else 0)"
    "lr_sessions w' = lr_sessions w"
  shows "pending_total w' \<le> pending_total w + 1"
proof -
  have one: "length (filter (\<lambda>e. snd e = s) (lr_sessions w)) \<le> 1"
  proof -
    have "filter (\<lambda>e. snd e = s) (lr_sessions w) = filter (\<lambda>e. fst e = as_deviceId (lr_objects w ! s)) (filter (\<lambda>e. snd e = s) (lr_sessions w))"
      using owners_member [OF assms(1)] by (auto simp: filter_id_conv intro!: filter_cong)
    moreover have "length (filter (\<lambda>e. fst e = k) m) \<le> 1" if "distinct (map_keys m)" for k and m :: "(string, nat) jsmap"
    proof -
      have "filter (\<lambda>e. fst e = k) m = []" if "k \<notin> set (map_keys m)" for m :: "(string, nat) jsmap"
        using that by (auto simp: filter_empty_conv)
      then show ?thesis using that by (induction m) auto
    qed
    moreover have "distinct (map_keys (filter (\<lambda>e. snd e = s) (lr_sessions w)))"
      using assms(1) by (simp add: owners_ok_def distinct_map_filter)
    ultimately show ?thesis by metis
  qed
  have bound: "sum_list (map (\<lambda>(_, n). length (as_pending (lr_objects w' ! n))) m)
      \<le> sum_list (map (\<lambda>(_, n). length (as_pending (lr_objects w ! n))) m) + length (filter (\<lambda>e. snd e = s) m)"
    if "\<forall>(dev, n) \<in> set m. n < length (lr_objects w)" for m :: "(string, nat) jsmap"
    using that
  proof (induction m)
    case (Cons e m)
    obtain d n where e: "e = (d, n)" by (cases e)
    show ?case using Cons assms(3) [of n] by (auto simp: e split: if_splits)
  qed simp
  have "\<forall>(dev, s) \<in> set (lr_sessions w). s < length (lr_objects w)"
    using owners_member [OF assms(1)] by blast
  from bound [OF this] one show ?thesis
    unfolding pending_total_def assms(4) by linarith
qed

lemma registry_ok_add:
  assumes ok: "registry_ok w" and own: "map_get (lr_sessions w) (as_deviceId (lr_objects w ! s)) = Some s"
    and s: "s < length (lr_objects w)" and fresh: "fresh_id rid w" and free: "map_get (as_requests (lr_objects w ! s)) topic = None"
    and room: "pending_total w < 256" and p: "pn_topic p = topic"
  shows "registry_ok (note_request s topic rid (session_upd s (\<lambda>x. x\<lparr>as_pending := map_set rid p (as_pending x)\<rparr>) w))"
    (is "registry_ok ?w")
proof -
  have new: "map_get (lr_settled w) rid = None" "map_get (as_pending (lr_objects w ! n)) rid = None" if "n < length (lr_objects w)" for n
    using fresh that by (simp_all add: fresh_id_def)
  have o: "as_deviceId (lr_objects ?w ! n) = as_deviceId (lr_objects w ! n)"
    "map_get (as_pending (lr_objects ?w ! n)) r = (if n = s \<and> r = rid then Some p else map_get (as_pending (lr_objects w ! n)) r)"
    "map_get (as_requests (lr_objects ?w ! n)) t = (if n = s \<and> t = topic then Some rid else map_get (as_requests (lr_objects w ! n)) t)"
    if "n < length (lr_objects w)" for n r t
    using that s by (auto simp: session_upd_nth)
  have len: "length (as_pending (lr_objects ?w ! n)) \<le> length (as_pending (lr_objects w ! n)) + (if n = s then 1 else 0)"
    if "n < length (lr_objects w)" for n
    using that s by (auto simp: session_upd_nth length_map_set)
  have "owners_ok ?w"
    using registry_okD(2) [OF ok] o(1) unfolding owners_ok_def by (simp del: map_of_eq_Some_iff)
  moreover have "requests_ok ?w"
    unfolding requests_ok_def
  proof (intro conjI allI impI)
    fix n assume "n < length (lr_objects ?w)"
    then have n: "n < length (lr_objects w)" by simp
    have old: "session_ok (lr_settled w) (lr_objects w ! n)"
      using registry_okD(4) [OF ok] n by (simp add: requests_ok_def)
    show "session_ok (lr_settled ?w) (lr_objects ?w ! n)"
      unfolding session_ok_def
    proof (intro conjI allI impI)
      fix r q assume q: "map_get (as_pending (lr_objects ?w ! n)) r = Some q"
      show "map_get (as_requests (lr_objects ?w ! n)) (pn_topic q) = Some r"
        using q old p free unfolding o [OF n] session_ok_def by (cases "n = s"; cases "r = rid") (auto, metis option.distinct(1))
      show "map_get (lr_settled ?w) r = None"
        using q old new(1) n unfolding o [OF n] session_ok_def by (auto split: if_splits)
    next
      fix t r assume "map_get (as_requests (lr_objects ?w ! n)) t = Some r"
      then show "map_get (as_pending (lr_objects ?w ! n)) r \<noteq> None \<or> map_get (lr_settled ?w) r \<noteq> None"
        using old unfolding o [OF n] session_ok_def by (auto split: if_splits)
    qed
  next
    fix a b r assume ab: "a < length (lr_objects ?w)" "b < length (lr_objects ?w)"
      "map_get (as_pending (lr_objects ?w ! a)) r \<noteq> None" "map_get (as_pending (lr_objects ?w ! b)) r \<noteq> None"
    then have l: "a < length (lr_objects w)" "b < length (lr_objects w)" by simp_all
    show "a = b"
    proof (cases "r = rid")
      case True
      then show ?thesis using ab new(2) l by (auto simp: o l split: if_splits)
    next
      case False
      then show ?thesis using ab(3,4) registry_okD(4) [OF ok] l unfolding o(2) [OF l(1)] o(2) [OF l(2)] requests_ok_def by (auto simp del: not_None_eq)
    qed
  qed
  moreover have "pending_total ?w \<le> pending_total w + 1"
    using len by (intro pending_total_add [OF registry_okD(2) [OF ok] own]) simp_all
  moreover have "orphans_idle ?w"
    unfolding orphans_idle_def
  proof (intro allI impI)
    fix n assume n: "n < length (lr_objects ?w)" "map_get (lr_sessions ?w) (as_deviceId (lr_objects ?w ! n)) \<noteq> Some n"
    then have "n < length (lr_objects w)" "n \<noteq> s" "map_get (lr_sessions w) (as_deviceId (lr_objects w ! n)) \<noteq> Some n"
      using own o(1) by auto
    then show "as_pending (lr_objects ?w ! n) = []"
      using registry_okD(3) [OF ok] by (simp add: orphans_idle_def session_upd_nth)
  qed
  ultimately show ?thesis
    using registry_okD(5) [OF ok] room by (simp add: registry_ok_def base_ok_def limits_kept_def)
qed

lemma note_send:
  assumes "s < length (lr_objects w)"
  shows "snd (registry_send env s (note_request s topic rid w)) = note_request s topic rid (snd (registry_send env s w))"
    "fst (registry_send env s (note_request s topic rid w)) = fst (registry_send env s w)"
  using assms by (simp_all add: registry_send_def registry_valid_def session_upd_nth note_detach)

lemma registry_request_cases:
  fixes env :: live_env
  assumes "s < length (lr_objects w)" "map_get (as_requests (lr_objects w ! s)) topic = None" "pending_total w < 256"
  defines "w1 \<equiv> note_request s topic (ev_uuid env) (session_upd s (\<lambda>x. x\<lparr>as_pending := map_set (ev_uuid env)
      \<lparr>pn_topic = topic, pn_acknowledged = False, pn_deadline = ev_now env + lr_requestMs w\<rparr> (as_pending x)\<rparr>) w)"
  shows "registry_request env s topic w = (Awaiting (ev_uuid env),
    case fst (registry_send env s w1) of
      Inl err \<Rightarrow> registry_finish s (ev_uuid env) err (snd (registry_send env s w1)) | Inr _ \<Rightarrow> snd (registry_send env s w1))"
proof -
  let ?u = "session_upd s (\<lambda>x. x\<lparr>as_pending := map_set (ev_uuid env)
      \<lparr>pn_topic = topic, pn_acknowledged = False, pn_deadline = ev_now env + lr_requestMs w\<rparr> (as_pending x)\<rparr>) w"
  have len: "s < length (lr_objects ?u)" using assms(1) by simp
  have "length (lr_objects (fold (\<lambda>rid. registry_finish s rid e) ks v)) = length (lr_objects v)" for e ks and v :: "'a LiveRegistry"
    by (induction ks arbitrary: v) simp_all
  then have "s < length (lr_objects (snd (registry_send env s ?u)))"
    using assms(1) by (simp add: registry_send_def registry_detach_def Let_def)
  then show ?thesis
    using assms(2,3) by (simp add: registry_request_def w1_def note_send [OF len] note_finish Let_def case_prod_unfold split: sum.split)
qed

lemma registry_ok_request:
  assumes ok: "registry_ok w" and valid: "registry_valid env s w" and s: "s < length (lr_objects w)" and fresh: "fresh_id (ev_uuid env) w"
  shows "registry_ok (snd (registry_request env s topic w))"
proof (cases "map_get (as_requests (lr_objects w ! s)) topic = None \<and> pending_total w < 256")
  case True
  define w1 where "w1 = note_request s topic (ev_uuid env) (session_upd s (\<lambda>x. x\<lparr>as_pending := map_set (ev_uuid env)
      \<lparr>pn_topic = topic, pn_acknowledged = False, pn_deadline = ev_now env + lr_requestMs w\<rparr> (as_pending x)\<rparr>) w)"
  have own: "map_get (lr_sessions w) (as_deviceId (lr_objects w ! s)) = Some s"
    using valid by (simp add: registry_valid_def)
  have "registry_ok w1"
    unfolding w1_def using True by (intro registry_ok_add [OF ok own s fresh]) simp_all
  moreover have l: "s < length (lr_objects w1)" using s by (simp add: w1_def)
  ultimately have "registry_ok (snd (registry_send env s w1))"
    by (rule registry_ok_send)
  moreover have "s < length (lr_objects (snd (registry_send env s w1)))"
    using l detach_rest(4) [OF registry_okD(1) [OF \<open>registry_ok w1\<close>] l] by (simp add: registry_send_def)
  ultimately show ?thesis
    using registry_request_cases [OF s, of topic env] True by (auto simp: registry_ok_finish simp flip: w1_def split: sum.split)
next
  case False
  then show ?thesis using ok by (auto simp: registry_request_def split: option.split)
qed

lemma registry_ok_read:
  assumes ok: "registry_ok w" and fresh: "fresh_id (ev_uuid env) w"
  shows "registry_ok (snd (registry_read env dev topic w))"
proof (cases "map_get (lr_sessions w) dev")
  case None
  then show ?thesis using ok by (simp add: registry_read_def)
next
  case (Some s)
  then have s: "s < length (lr_objects w)" by (rule owned_bound [OF ok])
  show ?thesis
    using ok Some registry_ok_detach' [OF ok s] registry_ok_request [OF ok _ s fresh, of topic]
    by (auto simp: registry_read_def Let_def split: option.split)
qed

lemma registry_ok_fold_detach:
  "registry_ok w \<Longrightarrow> (\<And>s. s \<in> set ss \<Longrightarrow> s < length (lr_objects w)) \<Longrightarrow> registry_ok (fold registry_detach ss w)
     \<and> length (lr_objects (fold registry_detach ss w)) = length (lr_objects w)
     \<and> lr_closed (fold registry_detach ss w) = lr_closed w
     \<and> lr_sessions (fold registry_detach ss w) = filter (\<lambda>e. snd e \<notin> set ss) (lr_sessions w)"
proof (induction ss arbitrary: w)
  case (Cons s ss)
  have s: "s < length (lr_objects w)" using Cons.prems by simp
  have ok: "registry_ok (registry_detach s w)" by (rule registry_ok_detach' [OF Cons.prems(1) s])
  note rest = detach_rest [OF registry_okD(1) [OF Cons.prems(1)] s] detach_sessions [OF registry_okD(1) [OF Cons.prems(1)] s]
  show ?case
    using Cons.IH [OF ok] Cons.prems(2) by (simp add: rest)
qed simp

lemma registry_close_facts:
  assumes "registry_ok w"
  shows "registry_ok (registry_close w)" "lr_closed (registry_close w)" "lr_sessions (registry_close w) = []"
proof -
  have "s < length (lr_objects (w\<lparr>lr_closed := True\<rparr>))" if "s \<in> set (map_values (lr_sessions w))" for s
    using that owners_member [OF registry_okD(2) [OF assms]] by auto
  then have *: "registry_ok (registry_close w) \<and> lr_closed (registry_close w)
      \<and> lr_sessions (registry_close w) = filter (\<lambda>e. snd e \<notin> set (map_values (lr_sessions w))) (lr_sessions w)"
    using registry_ok_fold_detach [of "w\<lparr>lr_closed := True\<rparr>" "map_values (lr_sessions w)"] assms
    by (simp add: registry_close_def)
  moreover have "filter (\<lambda>e. snd e \<notin> set (map_values (lr_sessions w))) (lr_sessions w) = []"
    by (simp add: filter_empty_conv)
  ultimately show "registry_ok (registry_close w)" "lr_closed (registry_close w)" "lr_sessions (registry_close w) = []"
    by simp_all
qed

inductive registry_step :: "'d LiveRegistry \<Rightarrow> 'd LiveRegistry \<Rightarrow> bool" where
  st_attach: "registry_step w (snd (registry_attach env dev w))"
| st_describe: "registry_step w (snd (registry_describe env dev w))"
| st_read: "fresh_id (ev_uuid env) w \<Longrightarrow> registry_step w (snd (registry_read env dev topic w))"
| st_closeDevice: "registry_step w (registry_closeDevice dev w)"
| st_close: "registry_step w (registry_close w)"
| st_ready: "s < length (lr_objects w) \<Longrightarrow> registry_step w (snd (registry_ready env s cs w))"
| st_heartbeat: "s < length (lr_objects w) \<Longrightarrow> registry_step w (snd (registry_heartbeat env s w))"
| st_pong: "s < length (lr_objects w) \<Longrightarrow> registry_step w (registry_pong env s nonce w)"
| st_acknowledge: "s < length (lr_objects w) \<Longrightarrow> registry_step w (registry_acknowledge env s rid w)"
| st_result: "s < length (lr_objects w) \<Longrightarrow> registry_step w (registry_result env s rid topic data w)"
| st_fail: "s < length (lr_objects w) \<Longrightarrow> registry_step w (registry_fail env s rid code w)"
| st_timeout: "s < length (lr_objects w) \<Longrightarrow> registry_step w (registry_timeout s rid w)"
| st_detach: "s < length (lr_objects w) \<Longrightarrow> registry_step w (registry_detach s w)"
| st_forget: "s < length (lr_objects w) \<Longrightarrow> map_get (lr_settled w) rid \<noteq> None \<Longrightarrow> registry_step w (forget_request s topic rid w)"

inductive reachable_registry :: "'d LiveRegistry \<Rightarrow> bool" where
  registry_new: "reachable_registry \<lparr>lr_sessions = [], lr_takeovers = [], lr_closed = False, lr_requestMs = ms, lr_objects = [],
     lr_settled = [], lr_closes = []\<rparr>"
| registry_next: "reachable_registry w \<Longrightarrow> registry_step w w' \<Longrightarrow> reachable_registry w'"

lemma registry_ok_step: "registry_step w w' \<Longrightarrow> registry_ok w \<Longrightarrow> registry_ok w'"
  by (induction rule: registry_step.induct)
    (simp_all add: registry_ok_attach registry_ok_describe registry_ok_read registry_ok_closeDevice registry_close_facts
      registry_ok_ready registry_ok_heartbeat registry_ok_pong registry_ok_acknowledge registry_ok_result registry_ok_fail
      registry_ok_timeout registry_ok_detach' registry_ok_forget)

lemma reachable_registry_ok: "reachable_registry w \<Longrightarrow> registry_ok w"
proof (induction rule: reachable_registry.induct)
  case (registry_new ms)
  then show ?case
    by (simp add: registry_ok_def base_ok_def owners_ok_def requests_ok_def limits_kept_def orphans_idle_def pending_total_def)
qed (rule registry_ok_step)

subsection \<open>What the registry guarantees\<close>

text \<open>
  C15: in every reachable state at most 256 live requests are outstanding; an outstanding request belongs to the session
  that owns its device, is the only one of its session for its topic, and has not been answered; and a request handed
  to a viewer is never lost: it is outstanding or has been answered.
\<close>

theorem live_requests_accounted:
  assumes "reachable_registry w" "s < length (lr_objects w)"
  shows "pending_total w \<le> 256
    \<and> (\<forall>rid p. map_get (as_pending (lr_objects w ! s)) rid = Some p \<longrightarrow>
         map_get (lr_sessions w) (as_deviceId (lr_objects w ! s)) = Some s \<and> map_get (lr_settled w) rid = None
         \<and> (\<forall>rid' p'. map_get (as_pending (lr_objects w ! s)) rid' = Some p' \<and> pn_topic p' = pn_topic p \<longrightarrow> rid' = rid))
    \<and> (\<forall>topic rid. map_get (as_requests (lr_objects w ! s)) topic = Some rid \<longrightarrow>
         map_get (as_pending (lr_objects w ! s)) rid \<noteq> None \<or> map_get (lr_settled w) rid \<noteq> None)"
proof (intro conjI allI impI)
  have ok: "registry_ok w" by (rule reachable_registry_ok [OF assms(1)])
  have x: "session_ok (lr_settled w) (lr_objects w ! s)"
    using registry_okD(4) [OF ok] assms(2) by (simp add: requests_ok_def)
  show "pending_total w \<le> 256"
    using registry_okD(5) [OF ok] by (simp add: limits_kept_def)
  fix rid p assume p: "map_get (as_pending (lr_objects w ! s)) rid = Some p"
  show "map_get (lr_sessions w) (as_deviceId (lr_objects w ! s)) = Some s"
    using registry_okD(3) [OF ok] assms(2) p by (auto simp: orphans_idle_def)
  show "map_get (lr_settled w) rid = None"
    using x p unfolding session_ok_def by blast
  show "rid' = rid" if "map_get (as_pending (lr_objects w ! s)) rid' = Some p' \<and> pn_topic p' = pn_topic p" for rid' p'
    using x p that unfolding session_ok_def by (metis option.inject)
next
  fix topic rid assume "map_get (as_requests (lr_objects w ! s)) topic = Some rid"
  then show "map_get (as_pending (lr_objects w ! s)) rid \<noteq> None \<or> map_get (lr_settled w) rid \<noteq> None"
    using registry_okD(4) [OF reachable_registry_ok [OF assms(1)]] assms(2) unfolding requests_ok_def session_ok_def by blast
qed

text \<open>
  Closing the registry answers every request that any viewer was ever given, leaves no session and no outstanding
  request, and refuses every later connection.
\<close>

theorem close_answers_everything:
  assumes "reachable_registry w"
  shows "lr_sessions (registry_close w) = []
    \<and> (\<forall>s < length (lr_objects (registry_close w)). as_pending (lr_objects (registry_close w) ! s) = []
         \<and> (\<forall>topic rid. map_get (as_requests (lr_objects (registry_close w) ! s)) topic = Some rid
              \<longrightarrow> map_get (lr_settled (registry_close w)) rid \<noteq> None))
    \<and> fst (registry_attach env dev (registry_close w)) = Inl (live_error ''hub_shutting_down'' 503)"
proof -
  have ok: "registry_ok (registry_close w)" "lr_closed (registry_close w)" "lr_sessions (registry_close w) = []"
    using registry_close_facts [OF reachable_registry_ok [OF assms]] by simp_all
  have idle: "as_pending (lr_objects (registry_close w) ! s) = []" if "s < length (lr_objects (registry_close w))" for s
    using registry_okD(3) [OF ok(1)] ok(3) that by (simp add: orphans_idle_def)
  have "map_get (lr_settled (registry_close w)) rid \<noteq> None"
    if "s < length (lr_objects (registry_close w))" "map_get (as_requests (lr_objects (registry_close w) ! s)) topic = Some rid" for s topic rid
    using registry_okD(4) [OF ok(1)] idle [OF that(1)] that unfolding requests_ok_def session_ok_def by fastforce
  then show ?thesis
    using idle ok by (simp add: registry_attach_def)
qed

text \<open>
  A connecting agent takes its device over, and every request of the previous session is answered with a
  disconnection; the takeover is refused exactly when the registry is closed or the previous session is alive and
  there were three takeovers in the last minute, and a refusal leaves the sessions as they are.
\<close>

theorem attach_takes_over:
  assumes "reachable_registry w"
  shows "(case fst (registry_attach env dev w) of
       Inl err \<Rightarrow> (lr_closed w \<or> (\<exists>p. map_get (lr_sessions w) dev = Some p \<and> registry_valid env p w \<and>
           length (filter (\<lambda>t. ev_now env - t < 60000) (nullish (map_get (lr_takeovers w) dev) [])) \<ge> 3))
         \<and> lr_sessions (snd (registry_attach env dev w)) = lr_sessions w
     | Inr s \<Rightarrow> \<not> lr_closed w \<and> s = length (lr_objects w)
         \<and> map_get (lr_sessions (snd (registry_attach env dev w))) dev = Some s
         \<and> (\<forall>p rid q. map_get (lr_sessions w) dev = Some p \<and> map_get (as_pending (lr_objects w ! p)) rid = Some q \<longrightarrow>
              map_get (lr_settled (snd (registry_attach env dev w))) rid = Some (Inl (live_error ''device_disconnected'' 503))))"
proof -
  have ok: "registry_ok w" by (rule reachable_registry_ok [OF assms])
  define taken where "taken = (case map_get (lr_sessions w) dev of None \<Rightarrow> False | Some p \<Rightarrow> registry_valid env p w)"
  define recent where "recent = filter (\<lambda>t. ev_now env - t < 60000) (nullish (map_get (lr_takeovers w) dev) [])"
  define w1 where "w1 = (if taken then w\<lparr>lr_takeovers := map_set dev (recent @ [ev_now env]) (lr_takeovers w)\<rparr> else w)"
  have attach: "registry_attach env dev w = (if lr_closed w then (Inl (live_error ''hub_shutting_down'' 503), w)
      else if taken \<and> length recent \<ge> 3 then (Inl (live_error ''device_session_conflict'' 409), w\<lparr>lr_takeovers := map_set dev recent (lr_takeovers w)\<rparr>)
      else let w2 = (case map_get (lr_sessions w) dev of None \<Rightarrow> w1 | Some p \<Rightarrow> registry_detach p w1); n = length (lr_objects w2)
           in (Inr n, w2\<lparr>lr_objects := lr_objects w2 @ [\<lparr>as_deviceId = dev, as_id = ev_uuid env, as_connectedAt = ev_iso env,
                as_capabilities = [], as_ready = False, as_expiresAt = ev_now env + 5000, as_challenge = None, as_pending = [],
                as_requests = [], as_results = []\<rparr>], lr_sessions := map_set dev n (lr_sessions w2)\<rparr>))"
    unfolding registry_attach_def Let_def taken_def recent_def w1_def LIVE_TAKEOVER_LIMIT_def LIVE_TAKEOVER_WINDOW_MS_def ..
  have takenE: "\<exists>p. map_get (lr_sessions w) dev = Some p \<and> registry_valid env p w" if taken
    using that by (auto simp: taken_def split: option.splits)
  show ?thesis
  proof (cases "lr_closed w \<or> (taken \<and> length recent \<ge> 3)")
    case True
    then show ?thesis using takenE by (auto simp: attach recent_def)
  next
    case False
    have ok1: "registry_ok w1"
      using ok False registry_ok_takeovers [OF ok, of "recent @ [ev_now env]"] by (auto simp: w1_def)
    have same: "lr_sessions w1 = lr_sessions w" "lr_objects w1 = lr_objects w"
      by (simp_all add: w1_def)
    show ?thesis
    proof (cases "map_get (lr_sessions w) dev")
      case None
      then show ?thesis using False by (auto simp: attach same Let_def)
    next
      case (Some p)
      have p: "p < length (lr_objects w1)" using owned_bound [OF ok Some] by (simp add: same)
      show ?thesis
        using False Some detach_rest(4) [OF registry_okD(1) [OF ok1] p] detach_settled [OF registry_okD(1) [OF ok1] p]
        by (auto simp: attach same Let_def)
    qed
  qed
qed

text \<open>The snapshot a result becomes.\<close>

definition result_snapshot :: "live_env \<Rightarrow> nat \<Rightarrow> string \<Rightarrow> LiveTopic \<Rightarrow> 'd \<Rightarrow> 'd LiveRegistry \<Rightarrow> 'd LiveSnapshot" where
  "result_snapshot env s rid topic data w = \<lparr>ls_deviceId = as_deviceId (lr_objects w ! s), ls_sessionId = as_id (lr_objects w ! s),
     ls_requestId = rid, ls_topic = topic, ls_receivedAt = ev_iso env, ls_data = data\<rparr>"

definition result_due :: "live_env \<Rightarrow> nat \<Rightarrow> string \<Rightarrow> LiveTopic \<Rightarrow> 'd LiveRegistry \<Rightarrow> bool" where
  "result_due env s rid topic w \<longleftrightarrow> registry_valid env s w \<and>
     (\<exists>p. map_get (as_pending (lr_objects w ! s)) rid = Some p \<and> pn_topic p = topic \<and> pn_acknowledged p \<and> ev_now env < pn_deadline p)"

lemma settled_result:
  assumes ok: "registry_ok w" and s: "s < length (lr_objects w)" and unsettled: "map_get (lr_settled w) rid = None"
  shows "map_get (lr_settled (registry_result env s rid topic data w)) rid = Some (Inr snap) \<longleftrightarrow>
    result_due env s rid topic w \<and> snap = result_snapshot env s rid topic data w"
proof -
  have detach: "map_get (lr_settled (registry_detach s w)) rid \<noteq> Some (Inr snap)"
    using detach_settled [OF registry_okD(1) [OF ok] s, of rid] unsettled by auto
  show ?thesis
  proof (cases "registry_valid env s w")
    case False
    then show ?thesis using detach by (simp add: registry_result_def result_due_def)
  next
    case True
    show ?thesis
    proof (cases "map_get (as_pending (lr_objects w ! s)) rid")
      case None
      then show ?thesis using True unsettled by (simp add: registry_result_def result_due_def)
    next
      case (Some p)
      then show ?thesis
        using True unsettled by (auto simp: registry_result_def result_due_def result_snapshot_def registry_finish_def settled_settle Let_def)
    qed
  qed
qed

lemma due_result_effect:
  fixes data :: 'd and env :: live_env and topic :: LiveTopic
  assumes "result_due env s rid topic w" "s < length (lr_objects w)"
  defines "w' \<equiv> registry_result env s rid topic data w"
  shows "lr_sessions w' = lr_sessions w \<and> lr_objects w' ! s = (lr_objects w ! s)\<lparr>as_pending := map_delete rid (as_pending (lr_objects w ! s)),
    as_results := map_set topic (result_snapshot env s rid topic data w, ev_now env) (as_results (lr_objects w ! s))\<rparr>"
  using assms by (auto simp: w'_def registry_result_def result_due_def result_snapshot_def session_upd_nth Let_def)

text \<open>
  C16: an agent's result answers a request only if the session is alive, the request is outstanding for that topic and
  was acknowledged, and its deadline has not passed, however late the time-out callback runs; the answer carries the
  data with the session's identity, and for the next 900 milliseconds it is what every viewer of the topic gets,
  without a new request to the device.
\<close>

theorem result_accepted_exactly:
  fixes data :: 'd and env :: live_env and topic :: LiveTopic
  assumes "reachable_registry w" "s < length (lr_objects w)" "map_get (lr_settled w) rid = None"
  defines "w' \<equiv> registry_result env s rid topic data w"
  shows "(map_get (lr_settled w') rid = Some (Inr snap) \<longleftrightarrow> result_due env s rid topic w \<and> snap = result_snapshot env s rid topic data w)
    \<and> (result_due env s rid topic w \<and> as_ready (lr_objects w ! s) \<and> topic \<in> set (as_capabilities (lr_objects w ! s))
         \<and> registry_valid env' s w \<and> ev_now env' - ev_now env < 900 \<longrightarrow>
       registry_read env' (as_deviceId (lr_objects w ! s)) topic w' = (Resolved (result_snapshot env s rid topic data w), w'))"
proof (intro conjI impI)
  show "map_get (lr_settled w') rid = Some (Inr snap) \<longleftrightarrow> result_due env s rid topic w \<and> snap = result_snapshot env s rid topic data w"
    unfolding w'_def by (rule settled_result [OF reachable_registry_ok [OF assms(1)] assms(2,3)])
  assume due: "result_due env s rid topic w \<and> as_ready (lr_objects w ! s) \<and> topic \<in> set (as_capabilities (lr_objects w ! s))
    \<and> registry_valid env' s w \<and> ev_now env' - ev_now env < 900"
  then show "registry_read env' (as_deviceId (lr_objects w ! s)) topic w' = (Resolved (result_snapshot env s rid topic data w), w')"
    using due_result_effect [of env s rid topic w data] assms(2)
    by (simp add: w'_def registry_read_def registry_valid_def LIVE_RESULT_TTL_MS_def Let_def)
qed

subsection \<open>A connection\<close>

definition demo_env :: "string \<Rightarrow> num \<Rightarrow> live_env" where
  "demo_env uuid now = \<lparr>ev_now = now, ev_open = (\<lambda>_. True), ev_send_ok = True, ev_uuid = uuid, ev_iso = ''t''\<rparr>"

definition demo_new :: "unit LiveRegistry" where
  "demo_new = \<lparr>lr_sessions = [], lr_takeovers = [], lr_closed = False, lr_requestMs = 5000, lr_objects = [], lr_settled = [], lr_closes = []\<rparr>"

definition demo_attached :: "unit LiveRegistry" where
  "demo_attached = snd (registry_attach (demo_env ''s'' 0) ''h'' demo_new)"

definition demo_ready :: "unit LiveRegistry" where
  "demo_ready = snd (registry_ready (demo_env ''u'' 1) 0 [MetricsTopic] demo_attached)"

definition demo_asked :: "unit LiveRegistry" where
  "demo_asked = snd (registry_read (demo_env ''r'' 2) ''h'' MetricsTopic demo_ready)"

definition demo_acked :: "unit LiveRegistry" where
  "demo_acked = registry_acknowledge (demo_env ''v'' 3) 0 ''r'' demo_asked"

lemmas demo_live_defs = demo_env_def demo_new_def demo_attached_def registry_attach_def registry_ready_def registry_valid_def
  session_upd_def LIVE_LEASE_MS_def

lemma demo_ready_value:
  "lr_sessions demo_ready = [(''h'', 0)]" "lr_settled demo_ready = []" "lr_takeovers demo_ready = []" "\<not> lr_closed demo_ready" "lr_requestMs demo_ready = 5000"
  "lr_objects demo_ready = [\<lparr>as_deviceId = ''h'', as_id = ''s'', as_connectedAt = ''t'', as_capabilities = [MetricsTopic], as_ready = True,
     as_expiresAt = 15001, as_challenge = None, as_pending = [], as_requests = [], as_results = []\<rparr>]"
  by (simp_all add: demo_ready_def demo_live_defs js_uniq_def Let_def)

lemma demo_acked_value:
  "lr_sessions demo_acked = [(''h'', 0)]" "lr_settled demo_acked = []" "lr_takeovers demo_acked = []" "\<not> lr_closed demo_acked"
  "lr_objects demo_acked = [\<lparr>as_deviceId = ''h'', as_id = ''s'', as_connectedAt = ''t'', as_capabilities = [MetricsTopic], as_ready = True,
     as_expiresAt = 15001, as_challenge = None,
     as_pending = [(''r'', \<lparr>pn_topic = MetricsTopic, pn_acknowledged = True, pn_deadline = 5002\<rparr>)],
     as_requests = [(MetricsTopic, ''r'')], as_results = []\<rparr>]"
  by (simp_all add: demo_acked_def demo_asked_def registry_read_def registry_request_def registry_send_def registry_acknowledge_def
      pending_total_def demo_ready_value registry_valid_def session_upd_def demo_env_def Let_def)

lemma demo_acked_reachable: "reachable_registry demo_acked"
proof -
  have "reachable_registry demo_new" unfolding demo_new_def by (rule registry_new)
  then have "reachable_registry demo_attached" unfolding demo_attached_def by (rule registry_next [OF _ st_attach])
  then have "reachable_registry demo_ready" unfolding demo_ready_def
    by (rule registry_next [OF _ st_ready]) (simp add: demo_live_defs Let_def)
  then have "reachable_registry demo_asked" unfolding demo_asked_def
    by (rule registry_next [OF _ st_read]) (simp add: fresh_id_def demo_ready_value)
  then show ?thesis unfolding demo_acked_def
    by (rule registry_next [OF _ st_acknowledge])
      (simp add: demo_asked_def registry_read_def registry_request_def registry_send_def
      pending_total_def demo_ready_value registry_valid_def session_upd_def demo_env_def Let_def)
qed

theorem live_requests_accounted_witness:
  "reachable_registry demo_acked \<and> pending_total demo_acked \<le> 256 \<and> map_get (lr_settled demo_acked) ''r'' = None"
  using live_requests_accounted [OF demo_acked_reachable, of 0] demo_acked_reachable by (simp add: demo_acked_value)

theorem close_answers_everything_witness:
  "reachable_registry demo_acked \<and> lr_sessions (registry_close demo_acked) = []
   \<and> fst (registry_attach (demo_env ''x'' 9) ''h'' (registry_close demo_acked)) = Inl (live_error ''hub_shutting_down'' 503)"
  using close_answers_everything [OF demo_acked_reachable] demo_acked_reachable by blast

theorem attach_takes_over_witness:
  "fst (registry_attach (demo_env ''x'' 9) ''h'' demo_acked) = Inr 1 \<and>
   map_get (lr_settled (snd (registry_attach (demo_env ''x'' 9) ''h'' demo_acked))) ''r'' = Some (Inl (live_error ''device_disconnected'' 503))"
  using attach_takes_over [OF demo_acked_reachable, where env = "demo_env ''x'' 9" and dev = "''h''"]
  by (cases "fst (registry_attach (demo_env ''x'' 9) ''h'' demo_acked)") (simp_all add: demo_acked_value)

theorem result_accepted_exactly_witness:
  "registry_read (demo_env ''y'' 500) ''h'' MetricsTopic (registry_result (demo_env ''x'' 9) 0 ''r'' MetricsTopic () demo_acked)
     = (Resolved (result_snapshot (demo_env ''x'' 9) 0 ''r'' MetricsTopic () demo_acked),
        registry_result (demo_env ''x'' 9) 0 ''r'' MetricsTopic () demo_acked)"
proof -
  have "result_due (demo_env ''x'' 9) 0 ''r'' MetricsTopic demo_acked" "registry_valid (demo_env ''y'' 500) 0 demo_acked"
    by (simp_all add: result_due_def registry_valid_def demo_acked_value demo_env_def)
  then show ?thesis
    using result_accepted_exactly [OF demo_acked_reachable, where s = 0 and rid = "''r''" and env = "demo_env ''x'' 9"
        and topic = MetricsTopic and data = "()" and env' = "demo_env ''y'' 500"]
    by (simp add: demo_acked_value) (simp add: demo_env_def)
qed

end
