(* ===== verification/Live_Routes.thy ===== *)
theory Live_Routes
  imports Live_Registry
begin

text \<open>
  The agents' live channel: the handlers of \<open>apps/server/src/live/routes.ts\<close> over the credentials, the failure limiter
  and the registry, and \<open>parseLiveMetrics\<close> of \<open>live/schema.ts\<close>.

  The schemas are declared in a validation library, so what a schema makes of a text is the handler's input: a frame is
  binary, not JSON, refused by \<open>agentFrameSchema\<close> (with its \<open>type\<close> member, if that is a text) or one of the six frames;
  an enrolment body is refused or carries its three texts; \<open>valid_id\<close> says whether \<open>deviceIdSchema\<close> accepts a path
  parameter; \<open>parse_data\<close> is the validation of a result's data.  An error thrown in a route becomes the framework's answer 500.
  The connection of a session has the session's number.
\<close>

datatype 'r AgentFrame =
    HelloFrame "LiveTopic list"
  | ReadyFrame string
  | PongFrame string string
  | AckFrame string string
  | ResultFrame string string LiveTopic 'r
  | ErrorFrame string string string

datatype 'r incoming = BinaryFrame | NotJson | Malformed "string option" | Frame "'r AgentFrame"

definition knownAgentFrames :: "string list" where
  "knownAgentFrames = [''hello'', ''ready'', ''pong'', ''ack'', ''result'', ''error'']"

definition LIVE_HUB_REVISION :: nat where "LIVE_HUB_REVISION = 4"

record live_options =
  lo_accessKey :: string
  lo_requireHttps :: bool

record agent_request =
  rq_ip :: string
  rq_https :: bool
  rq_deviceId :: "string option"
  rq_instanceId :: "string option"
  rq_authorization :: "string option"

text \<open>What the handlers of one socket share.\<close>

record live_connection =
  cn_deviceId :: string
  cn_instanceId :: string
  cn_token :: string
  cn_capabilities :: "LiveTopic list option"

record 'd live_hub =
  hl_credentials :: AgentCredentials
  hl_limiter :: AuthFailureRateLimiter
  hl_registry :: "'d LiveRegistry"
  hl_connections :: "live_connection list"

text \<open>The \<open>welcome\<close> message.\<close>

record welcome_message =
  wl_sessionId :: string
  wl_revision :: nat

abbreviation set_registry :: "'d live_hub \<Rightarrow> 'd LiveRegistry \<Rightarrow> 'd live_hub" where
  "set_registry h w \<equiv> h\<lparr>hl_registry := w\<rparr>"

subsection \<open>Opening a connection\<close>

text \<open>\<open>preValidation\<close>: an error answer, or none.\<close>

definition realtime_prevalidate :: "(string \<Rightarrow> string) \<Rightarrow> live_options \<Rightarrow> int \<Rightarrow> agent_request \<Rightarrow> AgentCredentials
    \<Rightarrow> AuthFailureRateLimiter \<Rightarrow> (nat \<times> string) option \<times> AuthFailureRateLimiter" where
  "realtime_prevalidate sha256 opts now rq credentials limiter =
     (if lo_requireHttps opts \<and> \<not> rq_https rq then (Some (400, ''https_required''), limiter)
      else if \<not> limiter_allow (rq_ip rq) now limiter then (Some (429, ''too_many_auth_attempts''), limiter)
      else case (rq_deviceId rq, rq_instanceId rq, getBearerToken (rq_authorization rq)) of
             (Some deviceId, Some instanceId, Some token) \<Rightarrow>
               if length token > 128 \<or> \<not> verify sha256 (lo_accessKey opts) deviceId instanceId token credentials
               then (Some (401, ''unauthorized_agent''), recordFailure (rq_ip rq) now limiter)
               else (None, limiter_clear (rq_ip rq) limiter)
           | _ \<Rightarrow> (Some (401, ''unauthorized_agent''), recordFailure (rq_ip rq) now limiter))"

text \<open>The whole upgrade: validation, then \<open>attach\<close>; a refused attach closes the socket (\<open>None\<close>).\<close>

definition realtime_connect :: "(string \<Rightarrow> string) \<Rightarrow> live_options \<Rightarrow> int \<Rightarrow> live_env \<Rightarrow> agent_request \<Rightarrow> 'd live_hub
    \<Rightarrow> ((nat \<times> string) + nat option) \<times> 'd live_hub" where
  "realtime_connect sha256 opts now env rq h =
     (case realtime_prevalidate sha256 opts now rq (hl_credentials h) (hl_limiter h) of
        (Some err, limiter) \<Rightarrow> (Inl err, h\<lparr>hl_limiter := limiter\<rparr>)
      | (None, limiter) \<Rightarrow>
          let deviceId = the (rq_deviceId rq)
          in (case registry_attach env deviceId (hl_registry h) of
                (Inl err, w) \<Rightarrow> (Inr None, h\<lparr>hl_limiter := limiter, hl_registry := w\<rparr>)
              | (Inr s, w) \<Rightarrow> (Inr (Some s), h\<lparr>hl_limiter := limiter, hl_registry := w,
                  hl_connections := hl_connections h @ [\<lparr>cn_deviceId = deviceId, cn_instanceId = the (rq_instanceId rq),
                    cn_token = the (getBearerToken (rq_authorization rq)), cn_capabilities = None\<rparr>]\<rparr>)))"

text \<open>\<open>POST /api/agent/enroll\<close>.\<close>

definition enroll_route :: "(string \<Rightarrow> string) \<Rightarrow> live_options \<Rightarrow> int \<Rightarrow> bool \<Rightarrow> string \<Rightarrow> agent_request \<Rightarrow> (string \<times> string \<times> string) option
    \<Rightarrow> 'd live_hub \<Rightarrow> (nat \<times> string) option \<times> 'd live_hub" where
  "enroll_route sha256 opts now disk_ok nowIso rq body h =
     (if lo_requireHttps opts \<and> \<not> rq_https rq then (Some (400, ''https_required''), h)
      else if \<not> limiter_allow (rq_ip rq) now (hl_limiter h) then (Some (429, ''too_many_auth_attempts''), h)
      else case getBearerToken (rq_authorization rq) of
             None \<Rightarrow> (Some (401, ''unauthorized_agent''), h\<lparr>hl_limiter := recordFailure (rq_ip rq) now (hl_limiter h)\<rparr>)
           | Some token \<Rightarrow>
               if \<not> safeEqual token (lo_accessKey opts)
               then (Some (401, ''unauthorized_agent''), h\<lparr>hl_limiter := recordFailure (rq_ip rq) now (hl_limiter h)\<rparr>)
               else let h1 = h\<lparr>hl_limiter := limiter_clear (rq_ip rq) (hl_limiter h)\<rparr>
                    in (case body of
                          None \<Rightarrow> (Some (400, ''invalid_enrollment''), h1)
                        | Some (deviceId, instanceId, deviceToken) \<Rightarrow>
                            (case enroll sha256 (lo_accessKey opts) disk_ok nowIso deviceId instanceId deviceToken (hl_credentials h1) of
                               (Inl err, credentials) \<Rightarrow> (Some (500, ''Internal Server Error''), h1\<lparr>hl_credentials := credentials\<rparr>)
                             | (Inr ok, credentials) \<Rightarrow>
                                 (if ok then None else Some (409, ''device_identity_conflict''), h1\<lparr>hl_credentials := credentials\<rparr>))))"

subsection \<open>Frames, heartbeats and the end of a connection\<close>

definition socket_detach :: "nat \<Rightarrow> 'd live_hub \<Rightarrow> 'd live_hub" where
  "socket_detach s h = set_registry h (registry_detach s (hl_registry h))"

definition session_id :: "nat \<Rightarrow> 'd live_hub \<Rightarrow> string" where
  "session_id s h = as_id (lr_objects (hl_registry h) ! s)"

text \<open>The identifier a frame after the handshake carries, if it does.\<close>

primrec frame_session :: "'r AgentFrame \<Rightarrow> string option" where
  "frame_session (HelloFrame cs) = None"
| "frame_session (ReadyFrame sid) = Some sid"
| "frame_session (PongFrame sid nonce) = Some sid"
| "frame_session (AckFrame sid rid) = Some sid"
| "frame_session (ResultFrame sid rid topic data) = Some sid"
| "frame_session (ErrorFrame sid rid code) = Some sid"

text \<open>What follows the check of the session identifier; a thrown error detaches the session.\<close>

definition session_frame :: "live_env \<Rightarrow> (string \<Rightarrow> LiveTopic \<Rightarrow> 'r \<Rightarrow> 'd option) \<Rightarrow> nat \<Rightarrow> string \<Rightarrow> LiveTopic list \<Rightarrow> 'r AgentFrame
    \<Rightarrow> 'd LiveRegistry \<Rightarrow> 'd LiveRegistry" where
  "session_frame env parse_data s deviceId capabilities frame w =
     (case frame of
        HelloFrame cs \<Rightarrow> w
      | ReadyFrame sid \<Rightarrow> (case registry_ready env s capabilities w of (Inl err, w') \<Rightarrow> registry_detach s w' | (Inr _, w') \<Rightarrow> w')
      | PongFrame sid nonce \<Rightarrow> registry_pong env s nonce w
      | AckFrame sid rid \<Rightarrow> registry_acknowledge env s rid w
      | ErrorFrame sid rid code \<Rightarrow> registry_fail env s rid code w
      | ResultFrame sid rid topic raw \<Rightarrow>
          (case parse_data deviceId topic raw of
             None \<Rightarrow> registry_fail env s rid ''invalid_result'' w
           | Some data \<Rightarrow> registry_result env s rid topic data w))"

definition on_message :: "live_env \<Rightarrow> (string \<Rightarrow> LiveTopic \<Rightarrow> 'r \<Rightarrow> 'd option) \<Rightarrow> nat \<Rightarrow> 'r incoming \<Rightarrow> 'd live_hub
    \<Rightarrow> welcome_message option \<times> 'd live_hub" where
  "on_message env parse_data s msg h =
     (let c = hl_connections h ! s
      in case msg of
           BinaryFrame \<Rightarrow> (None, socket_detach s h)
         | NotJson \<Rightarrow> (None, socket_detach s h)
         | Malformed None \<Rightarrow> (None, socket_detach s h)
         | Malformed (Some t) \<Rightarrow> if t \<notin> set knownAgentFrames then (None, h) else (None, socket_detach s h)
         | Frame (HelloFrame capabilities) \<Rightarrow>
             if cn_capabilities c \<noteq> None then (None, socket_detach s h)
             else (Some \<lparr>wl_sessionId = session_id s h, wl_revision = LIVE_HUB_REVISION\<rparr>,
                   h\<lparr>hl_connections := (hl_connections h)[s := c\<lparr>cn_capabilities := Some capabilities\<rparr>]\<rparr>)
         | Frame frame \<Rightarrow>
             (case cn_capabilities c of
                None \<Rightarrow> (None, socket_detach s h)
              | Some capabilities \<Rightarrow>
                  if frame_session frame \<noteq> Some (session_id s h) then (None, socket_detach s h)
                  else (None, set_registry h (session_frame env parse_data s (cn_deviceId c) capabilities frame (hl_registry h)))))"

text \<open>The timer of the socket, every five seconds.\<close>

definition on_timer :: "(string \<Rightarrow> string) \<Rightarrow> live_options \<Rightarrow> live_env \<Rightarrow> nat \<Rightarrow> 'd live_hub \<Rightarrow> 'd live_hub" where
  "on_timer sha256 opts env s h =
     (let c = hl_connections h ! s
      in if \<not> verify sha256 (lo_accessKey opts) (cn_deviceId c) (cn_instanceId c) (cn_token c) (hl_credentials h) then socket_detach s h
         else case registry_heartbeat env s (hl_registry h) of
                (Inl err, w) \<Rightarrow> socket_detach s (set_registry h w)
              | (Inr _, w) \<Rightarrow> set_registry h w)"

subsection \<open>The console's routes\<close>

text \<open>\<open>GET .../live\<close>, \<open>POST .../live/reset\<close> and \<open>GET .../live/:topic\<close>, behind \<open>requireAuth\<close>.\<close>

definition describe_route :: "(string \<Rightarrow> bool) \<Rightarrow> live_env \<Rightarrow> string \<Rightarrow> 'd live_hub
    \<Rightarrow> ((nat \<times> string) + LiveConnection \<times> string option) \<times> 'd live_hub" where
  "describe_route valid_id env deviceId h =
     (if \<not> valid_id deviceId then (Inl (400, ''invalid_device_id''), h)
      else case registry_describe env deviceId (hl_registry h) of
             (d, w) \<Rightarrow> (Inr (d, conflictAt deviceId (hl_credentials h)), set_registry h w))"

definition reset_route :: "(string \<Rightarrow> bool) \<Rightarrow> bool \<Rightarrow> string \<Rightarrow> 'd live_hub \<Rightarrow> (nat \<times> string) option \<times> 'd live_hub" where
  "reset_route valid_id disk_ok deviceId h =
     (if \<not> valid_id deviceId then (Some (400, ''invalid_device_id''), h)
      else case remove_credential disk_ok deviceId (hl_credentials h) of
             (Inl err, credentials) \<Rightarrow> (Some (500, ''Internal Server Error''), h\<lparr>hl_credentials := credentials\<rparr>)
           | (Inr _, credentials) \<Rightarrow>
               (None, h\<lparr>hl_credentials := credentials, hl_registry := registry_closeDevice deviceId (hl_registry h)\<rparr>))"

definition read_route :: "(string \<Rightarrow> bool) \<Rightarrow> live_env \<Rightarrow> string \<Rightarrow> LiveTopic option \<Rightarrow> 'd live_hub
    \<Rightarrow> ((nat \<times> string) + 'd reply) \<times> 'd live_hub" where
  "read_route valid_id env deviceId topic h =
     (case topic of
        None \<Rightarrow> (Inl (400, ''invalid_live_query''), h)
      | Some t \<Rightarrow>
          if \<not> valid_id deviceId then (Inl (400, ''invalid_live_query''), h)
          else case registry_read env deviceId t (hl_registry h) of
                 (Rejected err, w) \<Rightarrow> (Inl (le_statusCode err, le_code err), set_registry h w)
               | (r, w) \<Rightarrow> (Inr r, set_registry h w))"

subsection \<open>Live metrics of older agents\<close>

record LiveMetrics =
  lm_observedAt :: string
  lm_cpuPercent :: "num option"
  lm_memoryUsedBytes :: "num option"
  lm_memoryTotalBytes :: "num option"
  lm_diskReadBytesPerSec :: "num option"
  lm_diskWriteBytesPerSec :: "num option"
  lm_networkRxBytesPerSec :: "num option"
  lm_networkTxBytesPerSec :: "num option"

text \<open>\<open>current\<close> and \<open>legacy\<close> are what the two schemas make of the data; \<open>None\<close> as a result is a thrown error.\<close>

definition parseLiveMetrics :: "LiveMetrics option \<Rightarrow> AgentMetricsPayload option \<Rightarrow> string \<Rightarrow> LiveMetrics option" where
  "parseLiveMetrics current legacy deviceId =
     (case current of
        Some m \<Rightarrow> Some m
      | None \<Rightarrow>
          (case legacy of
             None \<Rightarrow> None
           | Some p \<Rightarrow>
               if id_deviceId (pa_identity p) \<noteq> deviceId then None
               else let unavailable = nullish (pa_unavailableMetrics p) [];
                        reading = (\<lambda>key r. if key \<in> set unavailable then None else Some r);
                        memory = (MemoryUsage \<notin> set unavailable \<and> me_totalBytes (pa_memory p) > 0)
                    in Some \<lparr>lm_observedAt = pa_timestamp p, lm_cpuPercent = reading CpuUsage (pa_cpuUsagePercent p),
                         lm_memoryUsedBytes = (if memory then Some (me_usedBytes (pa_memory p)) else None),
                         lm_memoryTotalBytes = (if memory then Some (me_totalBytes (pa_memory p)) else None),
                         lm_diskReadBytesPerSec = reading DiskRead (rt_readBytesPerSec (pa_diskRate p)),
                         lm_diskWriteBytesPerSec = reading DiskWrite (rt_writeBytesPerSec (pa_diskRate p)),
                         lm_networkRxBytesPerSec = reading NetworkRxRate (nt_rxBytesPerSec (pa_networkRate p)),
                         lm_networkTxBytesPerSec = reading NetworkTxRate (nt_txBytesPerSec (pa_networkRate p))\<rparr>))"

subsection \<open>The hub's live part as a whole\<close>

text \<open>
  One handler at a time, in any order, with any input; the timers and microtasks of the registry are steps as before.
  A new request needs a fresh identifier.
\<close>

inductive live_step :: "(string \<Rightarrow> string) \<Rightarrow> live_options \<Rightarrow> 'd live_hub \<Rightarrow> 'd live_hub \<Rightarrow> bool" for sha256 opts where
  agent_connects: "live_step sha256 opts h (snd (realtime_connect sha256 opts now env rq h))"
| agent_enrolls: "live_step sha256 opts h (snd (enroll_route sha256 opts now disk_ok nowIso rq body h))"
| frame_arrives: "s < length (hl_connections h) \<Longrightarrow> live_step sha256 opts h (snd (on_message env parse_data s (msg :: string incoming) h))"
| timer_fires: "s < length (hl_connections h) \<Longrightarrow> live_step sha256 opts h (on_timer sha256 opts env s h)"
| socket_ends: "s < length (hl_connections h) \<Longrightarrow> live_step sha256 opts h (socket_detach s h)"
| console_describes: "live_step sha256 opts h (snd (describe_route valid_id env deviceId h))"
| console_resets: "live_step sha256 opts h (snd (reset_route valid_id disk_ok deviceId h))"
| console_reads: "fresh_id (ev_uuid env) (hl_registry h) \<Longrightarrow> live_step sha256 opts h (snd (read_route valid_id env deviceId topic h))"
| request_times_out: "s < length (hl_connections h) \<Longrightarrow> live_step sha256 opts h (set_registry h (registry_timeout s rid (hl_registry h)))"
| request_forgotten: "s < length (hl_connections h) \<Longrightarrow> map_get (lr_settled (hl_registry h)) rid \<noteq> None
    \<Longrightarrow> live_step sha256 opts h (set_registry h (forget_request s topic rid (hl_registry h)))"
| hub_closes: "live_step sha256 opts h (set_registry h (registry_close (hl_registry h)))"

definition live_init :: "AgentCredentials \<Rightarrow> num \<Rightarrow> 'd live_hub" where
  "live_init credentials requestMs = \<lparr>hl_credentials = credentials, hl_limiter = [],
     hl_registry = \<lparr>lr_sessions = [], lr_takeovers = [], lr_closed = False, lr_requestMs = requestMs, lr_objects = [], lr_settled = [], lr_closes = []\<rparr>,
     hl_connections = []\<rparr>"

inductive reachable_live :: "(string \<Rightarrow> string) \<Rightarrow> live_options \<Rightarrow> 'd live_hub \<Rightarrow> bool" for sha256 opts where
  live_starts: "reachable_live sha256 opts (live_init credentials requestMs)"
| live_steps: "reachable_live sha256 opts h \<Longrightarrow> live_step sha256 opts h h' \<Longrightarrow> reachable_live sha256 opts h'"


subsection \<open>What the registry's operations leave alone\<close>

text \<open>An operation on existing sessions keeps who they are, and gives no device a new owner.\<close>

definition identity_of :: "'d AgentSession \<Rightarrow> string \<times> string \<times> string" where
  "identity_of x = (as_deviceId x, as_id x, as_connectedAt x)"

definition handshake_of :: "'d AgentSession \<Rightarrow> bool \<times> LiveTopic list" where
  "handshake_of x = (as_ready x, as_capabilities x)"

definition owners_kept :: "'d LiveRegistry \<Rightarrow> 'd LiveRegistry \<Rightarrow> bool" where
  "owners_kept w w' \<longleftrightarrow> map identity_of (lr_objects w') = map identity_of (lr_objects w) \<and>
     (\<forall>dev s. map_get (lr_sessions w') dev = Some s \<longrightarrow> map_get (lr_sessions w) dev = Some s)"

definition sessions_kept :: "'d LiveRegistry \<Rightarrow> 'd LiveRegistry \<Rightarrow> bool" where
  "sessions_kept w w' \<longleftrightarrow> owners_kept w w' \<and> map handshake_of (lr_objects w') = map handshake_of (lr_objects w)"

lemma owners_kept_refl [simp]: "owners_kept w w"
  by (simp add: owners_kept_def)

lemma owners_kept_trans: "owners_kept w w' \<Longrightarrow> owners_kept w' w'' \<Longrightarrow> owners_kept w w''"
  unfolding owners_kept_def by metis

lemma sessions_kept_refl [simp]: "sessions_kept w w"
  by (simp add: sessions_kept_def)

lemma sessions_kept_trans [trans]: "sessions_kept w w' \<Longrightarrow> sessions_kept w' w'' \<Longrightarrow> sessions_kept w w''"
  unfolding sessions_kept_def using owners_kept_trans by metis

lemma connection_kept_at: "f y = f (xs ! n) \<Longrightarrow> map f (xs[n := y]) = map f xs"
  by (metis list_update_beyond list_update_id map_update not_le)

lemma sessions_kept_upd:
  assumes "\<And>x. identity_of (f x) = identity_of x" "\<And>x. handshake_of (f x) = handshake_of x"
  shows "sessions_kept w (session_upd s f w)"
  using assms by (simp add: sessions_kept_def owners_kept_def session_upd_def connection_kept_at)

lemma sessions_kept_settle [simp]: "sessions_kept w (settle rid v w') = sessions_kept w w'"
  by (simp add: sessions_kept_def owners_kept_def settle_def)

lemma kept_finish: "sessions_kept w (registry_finish s rid err w)"
  by (auto simp: registry_finish_def identity_of_def handshake_of_def intro!: sessions_kept_upd split: option.split)

lemma kept_fold_finish: "sessions_kept w (fold (\<lambda>rid. registry_finish s rid err) rids w)"
proof (induction rids arbitrary: w)
  case (Cons rid rids)
  from sessions_kept_trans [OF kept_finish this] show ?case by simp
qed simp

lemma sessions_kept_closes [simp]: "sessions_kept w (w'\<lparr>lr_closes := x\<rparr>) = sessions_kept w w'"
  by (simp add: sessions_kept_def owners_kept_def)

lemma kept_disown: "sessions_kept w (w\<lparr>lr_sessions := map_delete dev (lr_sessions w)\<rparr>)"
  by (simp add: sessions_kept_def owners_kept_def)

lemma kept_detach: "sessions_kept w (registry_detach s w)"
  unfolding registry_detach_def Let_def sessions_kept_closes
  by (rule sessions_kept_trans [OF _ kept_fold_finish]) (simp add: kept_disown)

lemma kept_send: "sessions_kept w (snd (registry_send env s w))"
  by (simp add: registry_send_def kept_detach)

lemma kept_heartbeat: "sessions_kept w (snd (registry_heartbeat env s w))"
proof -
  have "sessions_kept w (session_upd s (\<lambda>x. x\<lparr>as_challenge := opt_or (as_challenge x) (Some (ev_uuid env))\<rparr>) w)"
    by (rule sessions_kept_upd) (simp_all add: identity_of_def handshake_of_def)
  from sessions_kept_trans [OF this kept_send] show ?thesis
    by (simp add: registry_heartbeat_def kept_detach)
qed

lemma kept_pong: "sessions_kept w (registry_pong env s nonce w)"
  by (auto simp: registry_pong_def identity_of_def handshake_of_def intro!: sessions_kept_upd)

lemma kept_acknowledge: "sessions_kept w (registry_acknowledge env s rid w)"
  by (auto simp: registry_acknowledge_def identity_of_def handshake_of_def intro!: sessions_kept_upd split: option.split)

lemma kept_result: "sessions_kept w (registry_result env s rid topic data w)"
  by (auto simp: registry_result_def kept_detach kept_finish identity_of_def handshake_of_def Let_def intro!: sessions_kept_upd split: option.split)

lemma kept_fail: "sessions_kept w (registry_fail env s rid code w)"
  by (simp add: registry_fail_def kept_finish)

lemma kept_timeout: "sessions_kept w (registry_timeout s rid w)"
  by (auto simp: registry_timeout_def identity_of_def handshake_of_def intro!: sessions_kept_upd split: option.split)

lemma kept_forget: "sessions_kept w (forget_request s topic rid w)"
  by (auto simp: forget_request_def identity_of_def handshake_of_def intro!: sessions_kept_upd)

lemma kept_closeDevice: "sessions_kept w (registry_closeDevice dev w)"
  by (simp add: registry_closeDevice_def kept_detach split: option.split)

lemma kept_describe: "sessions_kept w (snd (registry_describe env dev w))"
  by (simp add: registry_describe_def kept_detach Let_def split: option.split)

lemma kept_close: "sessions_kept w (registry_close w)"
proof -
  have "sessions_kept v (fold registry_detach ss v)" for ss and v :: "'a LiveRegistry"
  proof (induction ss arbitrary: v)
    case (Cons s ss)
    from sessions_kept_trans [OF kept_detach this] show ?case by simp
  qed simp
  from this [of "w\<lparr>lr_closed := True\<rparr>" "map_values (lr_sessions w)"] show ?thesis
    by (simp add: registry_close_def sessions_kept_def owners_kept_def)
qed

lemma kept_request: "sessions_kept w (snd (registry_request env s topic w))"
proof -
  let ?add = "\<lambda>x. x\<lparr>as_pending := map_set (ev_uuid env) \<lparr>pn_topic = topic, pn_acknowledged = False,
    pn_deadline = ev_now env + lr_requestMs w\<rparr> (as_pending x)\<rparr>"
  have 1: "sessions_kept w (session_upd s ?add w)"
    by (rule sessions_kept_upd) (simp_all add: identity_of_def handshake_of_def)
  obtain sent w2 where send: "registry_send env s (session_upd s ?add w) = (sent, w2)" by fastforce
  have "sessions_kept (session_upd s ?add w) w2"
    using kept_send [of "session_upd s ?add w" env s] by (simp add: send)
  with 1 have 2: "sessions_kept w w2" by (rule sessions_kept_trans)
  have 3: "sessions_kept w (case sent of Inl err \<Rightarrow> registry_finish s (ev_uuid env) err w2 | Inr _ \<Rightarrow> w2)"
    using 2 sessions_kept_trans [OF 2 kept_finish] by (auto split: sum.split)
  have "sessions_kept w (session_upd s (\<lambda>x. x\<lparr>as_requests := map_set topic (ev_uuid env) (as_requests x)\<rparr>)
      (case sent of Inl err \<Rightarrow> registry_finish s (ev_uuid env) err w2 | Inr _ \<Rightarrow> w2))"
    by (rule sessions_kept_trans [OF 3]) (rule sessions_kept_upd, simp_all add: identity_of_def handshake_of_def)
  then show ?thesis
    by (simp add: registry_request_def send Let_def split: option.split)
qed

lemma kept_read: "sessions_kept w (snd (registry_read env dev topic w))"
  by (simp add: registry_read_def kept_detach kept_request Let_def split: option.split prod.split)

lemma kept_ready: "owners_kept w (snd (registry_ready env s cs w))"
  by (simp add: registry_ready_def owners_kept_def session_upd_def identity_of_def connection_kept_at)


lemma kept_takeovers [simp]: "sessions_kept w (w'\<lparr>lr_takeovers := x\<rparr>) = sessions_kept w w'"
  by (simp add: sessions_kept_def owners_kept_def)

lemma sessions_kept_length: "sessions_kept w w' \<Longrightarrow> length (lr_objects w') = length (lr_objects w)"
  unfolding sessions_kept_def by (metis length_map)

lemma attach_refused: "registry_attach env dev w = (Inl err, w') \<Longrightarrow> sessions_kept w w'"
  by (auto simp: registry_attach_def Let_def split: if_splits)

lemma attach_accepted:
  assumes "registry_attach env dev w = (Inr s, w')"
  obtains w2 x where "sessions_kept w w2" "s = length (lr_objects w)" "lr_objects w' = lr_objects w2 @ [x]"
    "identity_of x = (dev, ev_uuid env, ev_iso env)" "handshake_of x = (False, [])" "lr_sessions w' = map_set dev s (lr_sessions w2)"
proof -
  define w1 where "w1 = (if (case map_get (lr_sessions w) dev of None \<Rightarrow> False | Some p \<Rightarrow> registry_valid env p w)
    then w\<lparr>lr_takeovers := map_set dev (filter (\<lambda>t. ev_now env - t < LIVE_TAKEOVER_WINDOW_MS) (nullish (map_get (lr_takeovers w) dev) []) @ [ev_now env])
      (lr_takeovers w)\<rparr> else w)"
  define w2 where "w2 = (case map_get (lr_sessions w) dev of None \<Rightarrow> w1 | Some p \<Rightarrow> registry_detach p w1)"
  have 1: "sessions_kept w w1" by (simp add: w1_def)
  have 2: "sessions_kept w w2"
    using 1 sessions_kept_trans [OF 1 kept_detach] by (simp add: w2_def split: option.split)
  have eq: "registry_attach env dev w = (if lr_closed w then (Inl (live_error ''hub_shutting_down'' 503), w)
      else if (case map_get (lr_sessions w) dev of None \<Rightarrow> False | Some p \<Rightarrow> registry_valid env p w) \<and>
        length (filter (\<lambda>t. ev_now env - t < LIVE_TAKEOVER_WINDOW_MS) (nullish (map_get (lr_takeovers w) dev) [])) \<ge> LIVE_TAKEOVER_LIMIT
      then (Inl (live_error ''device_session_conflict'' 409), w\<lparr>lr_takeovers := map_set dev
        (filter (\<lambda>t. ev_now env - t < LIVE_TAKEOVER_WINDOW_MS) (nullish (map_get (lr_takeovers w) dev) [])) (lr_takeovers w)\<rparr>)
      else (Inr (length (lr_objects w2)), w2\<lparr>lr_objects := lr_objects w2 @ [\<lparr>as_deviceId = dev, as_id = ev_uuid env,
        as_connectedAt = ev_iso env, as_capabilities = [], as_ready = False, as_expiresAt = ev_now env + 5000, as_challenge = None,
        as_pending = [], as_requests = [], as_results = []\<rparr>], lr_sessions := map_set dev (length (lr_objects w2)) (lr_sessions w2)\<rparr>))"
    unfolding registry_attach_def Let_def w2_def w1_def ..
  show ?thesis
    by (rule that [OF 2]) (use assms sessions_kept_length [OF 2] in \<open>auto simp: eq identity_of_def handshake_of_def split: if_splits\<close>)
qed

subsection \<open>The invariant of the live channel\<close>

definition live_ok :: "'d live_hub \<Rightarrow> bool" where
  "live_ok h \<longleftrightarrow> reachable_registry (hl_registry h) \<and>
     map as_deviceId (lr_objects (hl_registry h)) = map cn_deviceId (hl_connections h) \<and>
     (\<forall>s < length (hl_connections h). as_ready (lr_objects (hl_registry h) ! s) \<longrightarrow>
        (\<exists>cs. cn_capabilities (hl_connections h ! s) = Some cs \<and> as_capabilities (lr_objects (hl_registry h) ! s) = js_uniq cs))"

lemma live_ok_length: "live_ok h \<Longrightarrow> length (lr_objects (hl_registry h)) = length (hl_connections h)"
  unfolding live_ok_def by (metis length_map)

lemma owners_kept_devices: "owners_kept w w' \<Longrightarrow> map as_deviceId (lr_objects w') = map as_deviceId (lr_objects w)"
proof -
  assume "owners_kept w w'"
  then have "map fst (map identity_of (lr_objects w')) = map fst (map identity_of (lr_objects w))"
    by (simp only: owners_kept_def)
  then show ?thesis by (simp add: identity_of_def comp_def)
qed

lemma sessions_kept_handshake:
  assumes "sessions_kept w w'" "s < length (lr_objects w)"
  shows "as_ready (lr_objects w' ! s) = as_ready (lr_objects w ! s)" "as_capabilities (lr_objects w' ! s) = as_capabilities (lr_objects w ! s)"
proof -
  have "map handshake_of (lr_objects w') ! s = map handshake_of (lr_objects w) ! s"
    using assms(1) by (simp add: sessions_kept_def)
  then have "handshake_of (lr_objects w' ! s) = handshake_of (lr_objects w ! s)"
    using assms(2) sessions_kept_length [OF assms(1)] by simp
  then show "as_ready (lr_objects w' ! s) = as_ready (lr_objects w ! s)" "as_capabilities (lr_objects w' ! s) = as_capabilities (lr_objects w ! s)"
    by (simp_all add: handshake_of_def)
qed

text \<open>A handler that leaves the handshakes alone keeps the invariant.\<close>

lemma live_ok_kept:
  assumes "live_ok h" "sessions_kept (hl_registry h) w" "reachable_registry w"
  shows "live_ok (set_registry h w)"
proof -
  note len = live_ok_length [OF assms(1)]
  have "owners_kept (hl_registry h) w" using assms(2) by (simp add: sessions_kept_def)
  note devices = owners_kept_devices [OF this]
  show ?thesis
    using assms(1,3) sessions_kept_handshake [OF assms(2)] unfolding live_ok_def by (auto simp: len devices)
qed

lemma live_ok_others [simp]:
  "live_ok (h\<lparr>hl_limiter := l\<rparr>) = live_ok h" "live_ok (h\<lparr>hl_credentials := c\<rparr>) = live_ok h"
  by (simp_all add: live_ok_def)

lemma reachableD: "live_ok h \<Longrightarrow> reachable_registry (hl_registry h)"
  by (simp add: live_ok_def)

lemma live_ok_detach: "live_ok h \<Longrightarrow> s < length (hl_connections h) \<Longrightarrow> live_ok (socket_detach s h)"
  unfolding socket_detach_def
  by (intro live_ok_kept kept_detach registry_next [OF reachableD st_detach]) (simp_all add: live_ok_length)

lemma live_ok_connect:
  assumes "live_ok h"
  shows "live_ok (snd (realtime_connect sha256 opts now env rq h))"
proof (cases "fst (realtime_prevalidate sha256 opts now rq (hl_credentials h) (hl_limiter h))")
  case (Some err)
  then show ?thesis
    using assms by (auto simp: realtime_connect_def split: prod.split)
next
  case None
  let ?dev = "the (rq_deviceId rq)"
  obtain r w where attach: "registry_attach env ?dev (hl_registry h) = (r, w)" by fastforce
  have reach: "reachable_registry w"
    using registry_next [OF reachableD [OF assms] st_attach, of env ?dev] by (simp add: attach)
  show ?thesis
  proof (cases r)
    case (Inl err)
    have "live_ok (set_registry (h\<lparr>hl_limiter := l\<rparr>) w)" for l
      using assms attach_refused [OF attach [unfolded Inl]] reach by (intro live_ok_kept) simp_all
    then show ?thesis
      using None attach Inl by (auto simp: realtime_connect_def split: prod.splits)
  next
    case (Inr s)
    obtain w2 x where a: "sessions_kept (hl_registry h) w2" "lr_objects w = lr_objects w2 @ [x]"
      "identity_of x = (?dev, ev_uuid env, ev_iso env)" "handshake_of x = (False, [])"
      using attach_accepted [OF attach [unfolded Inr]] by metis
    have len: "length (lr_objects w2) = length (hl_connections h)"
      using sessions_kept_length [OF a(1)] live_ok_length [OF assms] by simp
    have dev: "map as_deviceId (lr_objects w2) = map cn_deviceId (hl_connections h)"
      using owners_kept_devices [of "hl_registry h" w2] a(1) assms by (simp add: sessions_kept_def live_ok_def)
    have "live_ok (h\<lparr>hl_limiter := l, hl_registry := w, hl_connections := hl_connections h @ [\<lparr>cn_deviceId = ?dev, cn_instanceId = i,
        cn_token = t, cn_capabilities = None\<rparr>]\<rparr>)" for l i t
      using reach a dev len assms sessions_kept_handshake [OF a(1)] live_ok_length [OF assms]
      by (auto simp: live_ok_def identity_of_def handshake_of_def nth_append less_Suc_eq)
    then show ?thesis
      using None attach Inr by (auto simp: realtime_connect_def Let_def split: prod.splits)
  qed
qed

lemma live_ok_enroll: "live_ok h \<Longrightarrow> live_ok (snd (enroll_route sha256 opts now disk_ok nowIso rq body h))"
  by (simp add: enroll_route_def Let_def split: option.split prod.split sum.split)

lemma live_ok_timer:
  assumes "live_ok h" "s < length (hl_connections h)"
  shows "live_ok (on_timer sha256 opts env s h)"
proof -
  obtain r w where hb: "registry_heartbeat env s (hl_registry h) = (r, w)" by fastforce
  have "sessions_kept (hl_registry h) w" "reachable_registry w"
    using kept_heartbeat [of "hl_registry h" env s] registry_next [OF reachableD [OF assms(1)] st_heartbeat, of s env] assms
    by (simp_all add: hb live_ok_length)
  then have "live_ok (set_registry h w)" by (rule live_ok_kept [OF assms(1)])
  then show ?thesis
    using assms by (simp add: on_timer_def hb Let_def live_ok_detach split: sum.split)
qed


lemma ready_refused: "registry_ready env s cs w = (Inl err, w') \<Longrightarrow> w' = w"
  by (simp add: registry_ready_def split: if_splits)

lemma ready_accepted:
  "registry_ready env s cs w = (Inr u, w') \<Longrightarrow> w' = session_upd s (\<lambda>x. x\<lparr>as_capabilities := js_uniq cs, as_ready := True,
     as_expiresAt := ev_now env + LIVE_LEASE_MS\<rparr>) w"
  by (simp add: registry_ready_def split: if_splits)

lemma live_ok_ready:
  assumes "live_ok h" "s < length (hl_connections h)" "cn_capabilities (hl_connections h ! s) = Some cs"
    "registry_ready env s cs (hl_registry h) = (Inr u, w)"
  shows "live_ok (set_registry h w)"
proof -
  note len = live_ok_length [OF assms(1)]
  have "reachable_registry w"
    using registry_next [OF reachableD [OF assms(1)] st_ready, of s env cs] assms(2) len by (simp add: assms(4))
  moreover have "map as_deviceId (lr_objects w) = map as_deviceId (lr_objects (hl_registry h))"
    using owners_kept_devices [OF kept_ready [of "hl_registry h" env s cs]] by (simp add: assms(4))
  moreover have "lr_objects w ! n = (if n = s then (lr_objects (hl_registry h) ! s)\<lparr>as_capabilities := js_uniq cs, as_ready := True,
      as_expiresAt := ev_now env + LIVE_LEASE_MS\<rparr> else lr_objects (hl_registry h) ! n)" for n
    using assms(2) len by (simp add: ready_accepted [OF assms(4)] session_upd_def)
  ultimately show ?thesis
    using assms(1-3) by (simp add: live_ok_def)
qed

lemma live_ok_session_frame:
  fixes frame :: "'r AgentFrame"
  assumes "live_ok h" "s < length (hl_connections h)" "cn_capabilities (hl_connections h ! s) = Some cs"
  shows "live_ok (set_registry h (session_frame env parse_data s dev cs frame (hl_registry h)))"
proof -
  have s: "s < length (lr_objects (hl_registry h))" using assms by (simp add: live_ok_length)
  note reach = reachableD [OF assms(1)]
  note fail = live_ok_kept [OF assms(1) kept_fail registry_next [OF reach st_fail [OF s]]]
  note detach = live_ok_kept [OF assms(1) kept_detach registry_next [OF reach st_detach [OF s]]]
  show ?thesis
  proof (cases frame)
    case (ReadyFrame sid)
    obtain r w where rw: "registry_ready env s cs (hl_registry h) = (r, w)" by fastforce
    show ?thesis
    proof (cases r)
      case (Inl err)
      then show ?thesis using rw detach ready_refused [OF rw [unfolded Inl]] by (simp add: ReadyFrame session_frame_def)
    next
      case (Inr u)
      then show ?thesis using rw live_ok_ready [OF assms rw [unfolded Inr]] by (simp add: ReadyFrame session_frame_def)
    qed
  next
    case (ResultFrame sid rid topic raw)
    show ?thesis
      using fail live_ok_kept [OF assms(1) kept_result registry_next [OF reach st_result [OF s]]]
      by (simp add: ResultFrame session_frame_def split: option.split)
  qed (use assms fail live_ok_kept [OF assms(1) kept_pong registry_next [OF reach st_pong [OF s]]]
      live_ok_kept [OF assms(1) kept_acknowledge registry_next [OF reach st_acknowledge [OF s]]] in \<open>simp_all add: session_frame_def\<close>)
qed

lemma live_ok_hello:
  assumes "live_ok h" "s < length (hl_connections h)" "cn_capabilities (hl_connections h ! s) = None"
  shows "live_ok (h\<lparr>hl_connections := (hl_connections h)[s := (hl_connections h ! s)\<lparr>cn_capabilities := Some cs\<rparr>]\<rparr>)"
  using assms by (auto simp: live_ok_def connection_kept_at nth_list_update)

lemma live_ok_message:
  assumes "live_ok h" "s < length (hl_connections h)"
  shows "live_ok (snd (on_message env parse_data s msg h))"
proof (cases msg)
  case (Malformed t)
  then show ?thesis
    using assms by (cases t) (simp_all add: on_message_def live_ok_detach)
next
  case (Frame frame)
  then show ?thesis
    using assms by (cases frame) (auto simp: on_message_def Let_def split: option.split
      intro!: live_ok_detach live_ok_hello live_ok_session_frame)
qed (simp_all add: on_message_def assms live_ok_detach)

lemma live_ok_step:
  assumes "live_step sha256 opts h h'" "live_ok h"
  shows "live_ok h'"
proof -
  note reach = reachableD [OF assms(2)]
  note len = live_ok_length [OF assms(2)]
  show ?thesis
    using assms(1)
  proof cases
    case (agent_connects now env rq)
    then show ?thesis using assms(2) by (simp add: live_ok_connect)
  next
    case (agent_enrolls now disk_ok nowIso rq body)
    then show ?thesis using assms(2) by (simp add: live_ok_enroll)
  next
    case (frame_arrives s env parse_data msg)
    then show ?thesis using assms(2) by (simp add: live_ok_message)
  next
    case (timer_fires s env)
    then show ?thesis using assms(2) by (simp add: live_ok_timer)
  next
    case (socket_ends s)
    then show ?thesis using assms(2) by (simp add: live_ok_detach)
  next
    case (console_describes valid_id env deviceId)
    obtain d w where d: "registry_describe env deviceId (hl_registry h) = (d, w)" by fastforce
    have "live_ok (set_registry h w)"
      using live_ok_kept [OF assms(2) kept_describe registry_next [OF reach st_describe], of env deviceId] by (simp add: d)
    then show ?thesis using assms(2) console_describes by (simp add: describe_route_def d)
  next
    case (console_resets valid_id disk_ok deviceId)
    have "live_ok (set_registry (h\<lparr>hl_credentials := c\<rparr>) (registry_closeDevice deviceId (hl_registry h)))" for c
      using assms(2) kept_closeDevice registry_next [OF reach st_closeDevice] by (intro live_ok_kept) simp_all
    then show ?thesis using assms(2) console_resets by (simp add: reset_route_def split: prod.split sum.split)
  next
    case (console_reads env valid_id deviceId topic)
    have "live_ok (set_registry h (snd (registry_read env deviceId t (hl_registry h))))" for t
      by (rule live_ok_kept [OF assms(2) kept_read registry_next [OF reach st_read [OF console_reads(2)]]])
    then have "live_ok (set_registry h w)" if "registry_read env deviceId t (hl_registry h) = (r, w)" for t r w
      using that by (metis snd_conv)
    then show ?thesis using assms(2) console_reads(1) by (simp add: read_route_def split: option.split prod.split reply.split)
  next
    case (request_times_out s rid)
    then show ?thesis
      using live_ok_kept [OF assms(2) kept_timeout registry_next [OF reach st_timeout]] len by simp
  next
    case (request_forgotten s rid topic)
    then show ?thesis
      using live_ok_kept [OF assms(2) kept_forget registry_next [OF reach st_forget]] len by simp
  next
    case hub_closes
    then show ?thesis using live_ok_kept [OF assms(2) kept_close registry_next [OF reach st_close]] by simp
  qed
qed

lemma reachable_live_ok: "reachable_live sha256 opts h \<Longrightarrow> live_ok h"
proof (induction rule: reachable_live.induct)
  case (live_starts credentials requestMs)
  then show ?case by (simp add: live_ok_def live_init_def registry_new)
next
  case (live_steps h h')
  then show ?case using live_ok_step by blast
qed


subsection \<open>What the live channel guarantees\<close>

text \<open>
  However the handlers of the live channel interleave, they use the registry only as its own operations allow; the
  session that owns a device is the one of a connection opened for that device; and a session counts as ready only
  after its connection's \<open>hello\<close>, with the capabilities announced there.
\<close>

theorem live_channel_sound:
  assumes "reachable_live sha256 opts h"
  shows "reachable_registry (hl_registry h) \<and>
    (map_get (lr_sessions (hl_registry h)) dev = Some s \<longrightarrow>
       s < length (hl_connections h) \<and> cn_deviceId (hl_connections h ! s) = dev \<and>
       (as_ready (lr_objects (hl_registry h) ! s) \<longrightarrow> (\<exists>cs. cn_capabilities (hl_connections h ! s) = Some cs
          \<and> as_capabilities (lr_objects (hl_registry h) ! s) = js_uniq cs)))"
proof -
  have ok: "live_ok h" by (rule reachable_live_ok [OF assms])
  have "s < length (lr_objects (hl_registry h)) \<and> as_deviceId (lr_objects (hl_registry h) ! s) = dev"
    if "map_get (lr_sessions (hl_registry h)) dev = Some s"
    using that reachable_registry_ok [OF reachableD [OF ok]] by (auto simp: registry_ok_def base_ok_def owners_ok_def)
  moreover have "as_deviceId (lr_objects (hl_registry h) ! s) = cn_deviceId (hl_connections h ! s)" if "s < length (hl_connections h)"
    using that ok live_ok_length [OF ok] unfolding live_ok_def by (metis nth_map)
  ultimately show ?thesis
    using ok live_ok_length [OF ok] by (auto simp: live_ok_def)
qed

text \<open>Messages that break the protocol, in the state they arrive in.\<close>

definition violation :: "nat \<Rightarrow> 'r incoming \<Rightarrow> 'd live_hub \<Rightarrow> bool" where
  "violation s msg h \<longleftrightarrow>
     (case msg of
        BinaryFrame \<Rightarrow> True | NotJson \<Rightarrow> True
      | Malformed t \<Rightarrow> (case t of None \<Rightarrow> True | Some t \<Rightarrow> t \<in> set knownAgentFrames)
      | Frame f \<Rightarrow>
          (case frame_session f of
             None \<Rightarrow> cn_capabilities (hl_connections h ! s) \<noteq> None
           | Some sid \<Rightarrow> cn_capabilities (hl_connections h ! s) = None \<or> sid \<noteq> session_id s h))"

lemma violation_detaches: "violation s msg h \<Longrightarrow> on_message env parse_data s msg h = (None, socket_detach s h)"
  unfolding violation_def on_message_def Let_def
  by (cases msg) (auto split: option.splits AgentFrame.splits if_splits)

lemma invalid_result_fails:
  assumes "cn_capabilities (hl_connections h ! s) \<noteq> None" "parse_data (cn_deviceId (hl_connections h ! s)) topic raw = None"
  shows "on_message env parse_data s (Frame (ResultFrame (session_id s h) rid topic raw)) h
    = (None, set_registry h (registry_fail env s rid ''invalid_result'' (hl_registry h)))"
  using assms by (auto simp: on_message_def session_frame_def Let_def)

text \<open>
  The session owns no device and holds no request, and those it held are answered; the entry of every other session
  and device, every other request, answered or outstanding, and the other sessions are as before.
\<close>

definition session_ended :: "nat \<Rightarrow> 'd LiveRegistry \<Rightarrow> 'd LiveRegistry \<Rightarrow> bool" where
  "session_ended s w w' \<longleftrightarrow>
     (\<forall>dev t. map_get (lr_sessions w') dev = Some t \<longleftrightarrow> map_get (lr_sessions w) dev = Some t \<and> t \<noteq> s) \<and>
     (\<forall>rid. map_get (as_pending (lr_objects w' ! s)) rid = None) \<and>
     (\<forall>rid. map_get (lr_settled w') rid =
        (if map_get (as_pending (lr_objects w ! s)) rid \<noteq> None then Some (Inl (live_error ''device_disconnected'' 503))
         else map_get (lr_settled w) rid)) \<and>
     (\<forall>n < length (lr_objects w). n \<noteq> s \<longrightarrow> lr_objects w' ! n = lr_objects w ! n)"

text \<open>One request is answered with an error, all others and the ownership of devices are as before.\<close>

definition only_request_failed :: "nat \<Rightarrow> string \<Rightarrow> string \<Rightarrow> 'd LiveRegistry \<Rightarrow> 'd LiveRegistry \<Rightarrow> bool" where
  "only_request_failed s rid code w w' \<longleftrightarrow> lr_sessions w' = lr_sessions w \<and>
     (map_get (as_pending (lr_objects w ! s)) rid \<noteq> None \<longrightarrow> map_get (lr_settled w') rid = Some (Inl (live_error code 502))) \<and>
     (\<forall>r n. r \<noteq> rid \<longrightarrow> n < length (lr_objects w) \<longrightarrow> map_get (lr_settled w') r = map_get (lr_settled w) r \<and>
        map_get (as_pending (lr_objects w' ! n)) r = map_get (as_pending (lr_objects w ! n)) r)"

lemma detach_ends:
  assumes "registry_ok w" "s < length (lr_objects w)"
  shows "session_ended s w (registry_detach s w)"
proof -
  note d = registry_okD(1) [OF assms(1)]
  have own: "distinct (map_keys (lr_sessions w))"
    using d by (simp add: base_ok_def owners_ok_def)
  have "map_get (lr_sessions (registry_detach s w)) dev = Some t \<longleftrightarrow> map_get (lr_sessions w) dev = Some t \<and> t \<noteq> s" for dev t
    unfolding detach_sessions [OF d assms(2)] map_get_disowned [OF own] by (auto split: option.splits if_splits)
  then show ?thesis
    using detach_settled [OF d assms(2)] detach_others [OF d assms(2)] detach_pending [OF d assms(2)]
    by (simp add: session_ended_def)
qed

lemma fail_contained:
  assumes "registry_ok w" "s < length (lr_objects w)" "registry_valid env s w"
  shows "only_request_failed s rid code w (registry_fail env s rid code w)"
proof -
  have "map_get (as_pending (lr_objects (registry_finish s rid err w) ! n)) r = map_get (as_pending (lr_objects w ! n)) r"
    if "r \<noteq> rid" "n < length (lr_objects w)" for r n err
    using that assms(2) finish_nth [of n w s rid err] finish_pending [of s w rid err r] by (cases "n = s") simp_all
  then show ?thesis
    using assms finish_settled [OF registry_okD(1) [OF assms(1)] assms(2)] by (simp add: only_request_failed_def registry_fail_def)
qed

text \<open>
  C28: a message that breaks the protocol (binary, not JSON, a malformed frame of a known type, a second \<open>hello\<close>, a
  frame before it or for another session) ends the session and answers all its outstanding requests, and nothing else
  changes: what the other sessions own, also a newer one of the same device, and their requests; frames of unknown
  types change nothing; and a result that fails validation fails its own request only.
\<close>

theorem frame_errors_contained:
  assumes "reachable_live sha256 opts h" "s < length (hl_connections h)"
  shows "(violation s msg h \<longrightarrow> session_ended s (hl_registry h) (hl_registry (snd (on_message env parse_data s msg h)))) \<and>
    (t \<notin> set knownAgentFrames \<longrightarrow> on_message env parse_data s (Malformed (Some t)) h = (None, h)) \<and>
    (cn_capabilities (hl_connections h ! s) \<noteq> None \<and> parse_data (cn_deviceId (hl_connections h ! s)) topic raw = None
        \<and> registry_valid env s (hl_registry h) \<longrightarrow>
       only_request_failed s rid ''invalid_result'' (hl_registry h)
         (hl_registry (snd (on_message env parse_data s (Frame (ResultFrame (session_id s h) rid topic raw)) h))))"
proof -
  have ok: "live_ok h" by (rule reachable_live_ok [OF assms(1)])
  have r: "registry_ok (hl_registry h)" by (rule reachable_registry_ok [OF reachableD [OF ok]])
  have s: "s < length (lr_objects (hl_registry h))" using assms(2) live_ok_length [OF ok] by simp
  show ?thesis
    using detach_ends [OF r s] fail_contained [OF r s]
    by (auto simp: violation_detaches socket_detach_def invalid_result_fails on_message_def [of _ _ _ "Malformed (Some t)"])
qed

subsection \<open>Resetting a device\<close>

text \<open>A device without credentials and without a session.\<close>

definition unbound :: "string \<Rightarrow> 'd live_hub \<Rightarrow> bool" where
  "unbound dev h \<longleftrightarrow> map_get (ag_records (hl_credentials h)) dev = None \<and> map_get (lr_sessions (hl_registry h)) dev = None"

lemma unbound_kept:
  assumes "unbound dev h" "sessions_kept (hl_registry h) w"
  shows "map_get (lr_sessions w) dev = None"
  using assms unfolding unbound_def sessions_kept_def owners_kept_def by (metis option.exhaust)

lemma prevalidate_verified:
  assumes "fst (realtime_prevalidate sha256 opts now rq credentials limiter) = None"
  shows "(lo_requireHttps opts \<longrightarrow> rq_https rq) \<and> limiter_allow (rq_ip rq) now limiter \<and>
    (\<exists>dev i token. rq_deviceId rq = Some dev \<and> rq_instanceId rq = Some i \<and> getBearerToken (rq_authorization rq) = Some token
       \<and> verify sha256 (lo_accessKey opts) dev i token credentials)"
  using assms by (auto simp: realtime_prevalidate_def split: if_splits option.splits)

lemma verify_bound: "verify sha256 key dev i token credentials \<Longrightarrow> map_get (ag_records credentials) dev \<noteq> None"
  by (auto simp: verify_def split: option.splits)

lemma connect_unbound:
  assumes "unbound dev h"
  shows "map_get (lr_sessions (hl_registry (snd (realtime_connect sha256 opts now env rq h)))) dev = None"
    and "rq_deviceId rq = Some dev \<Longrightarrow> \<exists>err. fst (realtime_connect sha256 opts now env rq h) = Inl err"
proof -
  let ?p = "realtime_prevalidate sha256 opts now rq (hl_credentials h) (hl_limiter h)"
  have other: "\<exists>d. rq_deviceId rq = Some d \<and> d \<noteq> dev" if "fst ?p = None"
    using prevalidate_verified [OF that] verify_bound assms unfolding unbound_def by metis
  then show "rq_deviceId rq = Some dev \<Longrightarrow> \<exists>err. fst (realtime_connect sha256 opts now env rq h) = Inl err"
    by (cases ?p; cases "fst ?p") (auto simp: realtime_connect_def)
  show "map_get (lr_sessions (hl_registry (snd (realtime_connect sha256 opts now env rq h)))) dev = None"
  proof (cases "fst ?p")
    case (Some err)
    then show ?thesis using assms by (cases ?p) (auto simp: realtime_connect_def unbound_def)
  next
    case None
    obtain r w where attach: "registry_attach env (the (rq_deviceId rq)) (hl_registry h) = (r, w)" by fastforce
    have "map_get (lr_sessions w) dev = None"
    proof (cases r)
      case (Inl err)
      then show ?thesis using unbound_kept [OF assms attach_refused] attach by simp
    next
      case (Inr s)
      obtain w2 where "sessions_kept (hl_registry h) w2" "lr_sessions w = map_set (the (rq_deviceId rq)) s (lr_sessions w2)"
        using attach_accepted [OF attach [unfolded Inr]] by metis
      then show ?thesis using unbound_kept [OF assms] other [OF None] by auto
    qed
    then show ?thesis
      using None attach by (cases ?p; cases r) (auto simp: realtime_connect_def Let_def)
  qed
qed


lemma unbound_owners: "unbound dev h \<Longrightarrow> owners_kept (hl_registry h) w \<Longrightarrow> map_get (lr_sessions w) dev = None"
  unfolding unbound_def owners_kept_def by (metis option.exhaust)

lemma kept_owners: "sessions_kept w w' \<Longrightarrow> owners_kept w w'"
  by (simp add: sessions_kept_def)

lemmas owners_facts = kept_finish [THEN kept_owners] kept_detach [THEN kept_owners] kept_heartbeat [THEN kept_owners] kept_pong [THEN kept_owners]
  kept_acknowledge [THEN kept_owners] kept_result [THEN kept_owners] kept_fail [THEN kept_owners] kept_timeout [THEN kept_owners]
  kept_forget [THEN kept_owners] kept_closeDevice [THEN kept_owners] kept_describe [THEN kept_owners] kept_close [THEN kept_owners]
  kept_read [THEN kept_owners] kept_ready

lemma frame_owners: "owners_kept w (session_frame env parse_data s dev cs frame w)"
proof (cases frame)
  case (ReadyFrame sid)
  obtain r w' where rw: "registry_ready env s cs w = (r, w')" by fastforce
  then have k: "owners_kept w w'" using kept_ready [of w env s cs] by simp
  show ?thesis
    using k owners_kept_trans [OF k kept_detach [THEN kept_owners]] by (simp add: ReadyFrame session_frame_def rw split: sum.split)
qed (simp_all add: session_frame_def owners_facts split: option.split)

lemma message_owners: "owners_kept (hl_registry h) (hl_registry (snd (on_message env parse_data s msg h)))"
  by (auto simp: on_message_def socket_detach_def owners_facts frame_owners Let_def
      split: incoming.split option.split AgentFrame.split)

lemma timer_owners: "owners_kept (hl_registry h) (hl_registry (on_timer sha256 opts env s h))"
proof -
  obtain r w where hb: "registry_heartbeat env s (hl_registry h) = (r, w)" by fastforce
  then have k: "owners_kept (hl_registry h) w" using kept_owners [OF kept_heartbeat, of "hl_registry h" env s] by simp
  show ?thesis
    using k owners_kept_trans [OF k kept_detach [THEN kept_owners]]
    by (simp add: on_timer_def hb socket_detach_def owners_facts Let_def split: sum.split)
qed

lemma read_owners: "owners_kept (hl_registry h) (hl_registry (snd (read_route valid_id env deviceId topic h)))"
proof (cases topic)
  case (Some t)
  obtain r w where rw: "registry_read env deviceId t (hl_registry h) = (r, w)" by fastforce
  then have "owners_kept (hl_registry h) w" using kept_owners [OF kept_read, of "hl_registry h" env deviceId t] by simp
  then show ?thesis by (simp add: read_route_def Some rw split: reply.split)
qed (simp add: read_route_def)

lemma describe_owners: "owners_kept (hl_registry h) (hl_registry (snd (describe_route valid_id env deviceId h)))"
proof -
  obtain d w where dw: "registry_describe env deviceId (hl_registry h) = (d, w)" by fastforce
  then have "owners_kept (hl_registry h) w" using kept_owners [OF kept_describe, of "hl_registry h" env deviceId] by simp
  then show ?thesis by (simp add: describe_route_def dw)
qed

lemma reset_owners: "owners_kept (hl_registry h) (hl_registry (snd (reset_route valid_id disk_ok deviceId h)))"
  by (simp add: reset_route_def kept_closeDevice [THEN kept_owners] split: prod.split sum.split)

lemma enroll_registry [simp]: "hl_registry (snd (enroll_route sha256 opts now disk_ok nowIso rq body h)) = hl_registry h"
  by (simp add: enroll_route_def Let_def split: option.split prod.split sum.split)

lemma step_owners:
  assumes "live_step sha256 opts h h'"
  shows "owners_kept (hl_registry h) (hl_registry h') \<or> (\<exists>now env rq. h' = snd (realtime_connect sha256 opts now env rq h))"
  using assms
  by cases (auto simp: socket_detach_def intro: owners_facts message_owners timer_owners read_owners describe_owners reset_owners)

lemma step_unbound:
  assumes "live_step sha256 opts h h'" "unbound dev h"
  shows "map_get (lr_sessions (hl_registry h')) dev = None"
  using step_owners [OF assms(1)] unbound_owners [OF assms(2)] connect_unbound(1) [OF assms(2)]
  by (elim disjE exE) simp_all

text \<open>The steps in which the device does not enrol again.\<close>

definition step_without_enrolment :: "(string \<Rightarrow> string) \<Rightarrow> live_options \<Rightarrow> string \<Rightarrow> 'd live_hub \<Rightarrow> 'd live_hub \<Rightarrow> bool" where
  "step_without_enrolment sha256 opts dev h h' \<longleftrightarrow> live_step sha256 opts h h' \<and> map_get (ag_records (hl_credentials h')) dev = None"

lemma unbound_run: "(step_without_enrolment sha256 opts dev)\<^sup>*\<^sup>* h h' \<Longrightarrow> unbound dev h \<Longrightarrow> unbound dev h'"
proof (induction rule: rtranclp_induct)
  case (step h' h'')
  then show ?case
    using step_unbound unfolding step_without_enrolment_def by (metis unbound_def)
qed

lemma closeDevice_disowns:
  assumes "registry_ok w"
  shows "map_get (lr_sessions (registry_closeDevice dev w)) dev = None"
proof (cases "map_get (lr_sessions w) dev")
  case (Some s)
  then have s: "s < length (lr_objects w)" using owned_bound [OF assms] by blast
  have "map_get (lr_sessions (registry_detach s w)) dev \<noteq> Some t" for t
    using detach_ends [OF assms s] Some by (simp add: session_ended_def)
  then have "map_get (lr_sessions (registry_detach s w)) dev = None"
    by (meson not_None_eq)
  then show ?thesis using Some by (simp add: registry_closeDevice_def)
qed (simp add: registry_closeDevice_def)

lemma reset_unbinds:
  assumes "live_ok h" "reset_route valid_id disk_ok dev h = (None, h')"
  shows "unbound dev h'"
proof -
  obtain c where c: "remove_credential disk_ok dev (hl_credentials h) = (Inr (), c)"
    and h': "h' = h\<lparr>hl_credentials := c, hl_registry := registry_closeDevice dev (hl_registry h)\<rparr>"
    using assms(2) by (auto simp: reset_route_def split: if_splits prod.splits sum.splits)
  have r: "registry_ok (hl_registry h)" by (rule reachable_registry_ok [OF reachableD [OF assms(1)]])
  have "map_get (ag_records c) dev = None"
    using c by (auto simp: remove_credential_def persist_def Let_def split: if_splits prod.splits)
  moreover have "map_get (lr_sessions (registry_closeDevice dev (hl_registry h))) dev = None"
    using r by (rule closeDevice_disowns)
  ultimately show ?thesis by (simp add: unbound_def h')
qed


text \<open>
  A reset that succeeds ends the device's session and answers its outstanding requests; from then on, whatever
  happens, no session owns the device and every attempt to connect for it is refused, until it enrols again, which
  takes the hub's access key.
\<close>

theorem reset_revokes:
  assumes "reachable_live sha256 opts h" "reset_route valid_id disk_ok dev h = (None, h1)"
    "(step_without_enrolment sha256 opts dev)\<^sup>*\<^sup>* h1 h2"
  shows "(\<forall>s. map_get (lr_sessions (hl_registry h)) dev = Some s \<longrightarrow> session_ended s (hl_registry h) (hl_registry h1)) \<and>
    map_get (lr_sessions (hl_registry h2)) dev = None \<and>
    (rq_deviceId rq = Some dev \<longrightarrow> (\<exists>err. fst (realtime_connect sha256 opts now env rq h2) = Inl err)) \<and>
    (map_get (ag_records (hl_credentials (snd (enroll_route sha256 opts now disk2 nowIso rq body h2)))) dev \<noteq> None \<longrightarrow>
       getBearerToken (rq_authorization rq) = Some (lo_accessKey opts))"
proof -
  have ok: "live_ok h" by (rule reachable_live_ok [OF assms(1)])
  have r: "registry_ok (hl_registry h)" by (rule reachable_registry_ok [OF reachableD [OF ok]])
  have reg: "hl_registry h1 = registry_closeDevice dev (hl_registry h)"
    using assms(2) by (auto simp: reset_route_def split: if_splits prod.splits sum.splits)
  have ended: "session_ended s (hl_registry h) (hl_registry h1)" if "map_get (lr_sessions (hl_registry h)) dev = Some s" for s
    using detach_ends [OF r owned_bound [OF r that]] that by (simp add: reg registry_closeDevice_def)
  have un: "unbound dev h2"
    using unbound_run [OF assms(3) reset_unbinds [OF ok assms(2)]] .
  have "getBearerToken (rq_authorization rq) = Some (lo_accessKey opts)"
    if "map_get (ag_records (hl_credentials (snd (enroll_route sha256 opts now disk2 nowIso rq body h2)))) dev \<noteq> None"
    using that un by (auto simp: enroll_route_def unbound_def Let_def split: if_splits option.splits)
  then show ?thesis
    using ended un connect_unbound(2) [OF un] by (simp add: unbound_def)
qed

text \<open>
  The shape \<open>LiveMetrics\<close> promises its viewers, and what the upload schema guarantees of the fields it is made from.
\<close>

definition in_range :: "num \<Rightarrow> num option \<Rightarrow> bool" where
  "in_range hi x \<longleftrightarrow> (case x of None \<Rightarrow> True | Some v \<Rightarrow> 0 \<le> v \<and> v \<le> hi)"

definition nonneg_opt :: "num option \<Rightarrow> bool" where
  "nonneg_opt x \<longleftrightarrow> (case x of None \<Rightarrow> True | Some v \<Rightarrow> 0 \<le> v)"

definition live_metrics_typed :: "LiveMetrics \<Rightarrow> bool" where
  "live_metrics_typed m \<longleftrightarrow> in_range 100 (lm_cpuPercent m)
     \<and> in_range (of_int MAX_SAFE_INTEGER) (lm_memoryUsedBytes m) \<and> in_range (of_int MAX_SAFE_INTEGER) (lm_memoryTotalBytes m)
     \<and> nonneg_opt (lm_diskReadBytesPerSec m) \<and> nonneg_opt (lm_diskWriteBytesPerSec m)
     \<and> nonneg_opt (lm_networkRxBytesPerSec m) \<and> nonneg_opt (lm_networkTxBytesPerSec m)"

definition upload_typed :: "AgentMetricsPayload \<Rightarrow> bool" where
  "upload_typed p \<longleftrightarrow> in_range 100 (Some (pa_cpuUsagePercent p))
     \<and> in_range (of_int MAX_SAFE_INTEGER) (Some (me_usedBytes (pa_memory p))) \<and> in_range (of_int MAX_SAFE_INTEGER) (Some (me_totalBytes (pa_memory p)))
     \<and> nonneg_opt (Some (rt_readBytesPerSec (pa_diskRate p))) \<and> nonneg_opt (Some (rt_writeBytesPerSec (pa_diskRate p)))
     \<and> nonneg_opt (Some (nt_rxBytesPerSec (pa_networkRate p))) \<and> nonneg_opt (Some (nt_txBytesPerSec (pa_networkRate p)))"

text \<open>A reading of an upload, unless the agent listed its metric as unavailable.\<close>

definition given :: "AgentMetricsPayload \<Rightarrow> DeviceMetricKey \<Rightarrow> num \<Rightarrow> num option" where
  "given p key reading =
     (case pa_unavailableMetrics p of
        None \<Rightarrow> Some reading
      | Some keys \<Rightarrow> if \<exists>k \<in> set keys. k = key then None else Some reading)"

text \<open>
  C29: whatever an agent answers to a metrics query, in the current form or as the full upload of a first-revision agent,
  viewers get a value of the type \<open>LiveMetrics\<close>; an upload of another device is refused, memory is given as a pair or
  not at all, and each of the seven readings is the one of its own field of the upload, or absent if the agent listed
  its metric as unavailable.
\<close>

theorem live_metrics_type:
  assumes "\<forall>m. current = Some m \<longrightarrow> live_metrics_typed m" "\<forall>p. legacy = Some p \<longrightarrow> upload_typed p"
    "parseLiveMetrics current legacy deviceId = Some m"
  shows "live_metrics_typed m \<and> (current = None \<longrightarrow> (\<exists>p. legacy = Some p \<and> id_deviceId (pa_identity p) = deviceId \<and>
    (lm_memoryUsedBytes m = None \<longleftrightarrow> lm_memoryTotalBytes m = None) \<and>
    lm_observedAt m = pa_timestamp p \<and>
    lm_cpuPercent m = given p CpuUsage (pa_cpuUsagePercent p) \<and>
    lm_memoryUsedBytes m = (if me_totalBytes (pa_memory p) > 0 then given p MemoryUsage (me_usedBytes (pa_memory p)) else None) \<and>
    lm_memoryTotalBytes m = (if me_totalBytes (pa_memory p) > 0 then given p MemoryUsage (me_totalBytes (pa_memory p)) else None) \<and>
    lm_diskReadBytesPerSec m = given p DiskRead (rt_readBytesPerSec (pa_diskRate p)) \<and>
    lm_diskWriteBytesPerSec m = given p DiskWrite (rt_writeBytesPerSec (pa_diskRate p)) \<and>
    lm_networkRxBytesPerSec m = given p NetworkRxRate (nt_rxBytesPerSec (pa_networkRate p)) \<and>
    lm_networkTxBytesPerSec m = given p NetworkTxRate (nt_txBytesPerSec (pa_networkRate p))))"
proof (cases current)
  case (Some c)
  then show ?thesis using assms(1,3) by (simp add: parseLiveMetrics_def)
next
  case None
  then obtain p where p: "legacy = Some p" "id_deviceId (pa_identity p) = deviceId"
    using assms(3) by (auto simp: parseLiveMetrics_def split: option.splits if_splits)
  then have typed: "upload_typed p" using assms(2) by blast
  have m: "m = the (parseLiveMetrics None (Some p) deviceId)"
    using assms(3) by (simp add: None p(1))
  have "live_metrics_typed m"
    using typed unfolding m by (simp add: parseLiveMetrics_def p(2) upload_typed_def live_metrics_typed_def in_range_def nonneg_opt_def Let_def)
  then show ?thesis
    using p None by (auto simp: m parseLiveMetrics_def given_def Let_def split: option.splits)
qed


subsection \<open>A connection, end to end\<close>

definition demo_options :: live_options where
  "demo_options = \<lparr>lo_accessKey = ''key'', lo_requireHttps = True\<rparr>"

definition demo_request :: agent_request where
  "demo_request = \<lparr>rq_ip = ''10.0.0.1'', rq_https = True, rq_deviceId = Some ''host'', rq_instanceId = Some ''install'',
     rq_authorization = Some ''Bearer token''\<rparr>"

definition demo_hub0 :: "string live_hub" where
  "demo_hub0 = live_init demo_credentials 5000"

definition demo_connected :: "string live_hub" where
  "demo_connected = snd (realtime_connect demo_digest demo_options 0 (demo_env ''s'' 0) demo_request demo_hub0)"

definition demo_greeted :: "string live_hub" where
  "demo_greeted = snd (on_message (demo_env ''u'' 1) (\<lambda>dev topic raw. None) 0 (Frame (HelloFrame [MetricsTopic]) :: string incoming) demo_connected)"

definition demo_after_reset :: "string live_hub" where
  "demo_after_reset = snd (reset_route (\<lambda>_. True) True ''host'' demo_greeted)"

lemma demo_bearer: "getBearerToken (Some ''Bearer token'') = Some ''token''"
  by code_simp

lemma demo_record: "ag_records demo_credentials = [(''host'', \<lparr>cr_instanceId = ''install'', cr_digest = demo_digest ''token'',
    cr_credentialVersion = demo_digest ''key'', cr_revoked = False\<rparr>)]" "ag_conflicts demo_credentials = []"
  by (simp_all add: demo_credentials_def enroll_def persist_def Let_def)

lemma demo_prevalidated:
  "realtime_prevalidate demo_digest demo_options 0 demo_request demo_credentials [] = (None, [])"
  by (simp add: realtime_prevalidate_def demo_options_def demo_request_def limiter_allow_def demo_bearer
      verify_def demo_record limiter_clear_def)

lemma demo_greeted_value:
  "hl_credentials demo_greeted = demo_credentials"
  "hl_connections demo_greeted = [\<lparr>cn_deviceId = ''host'', cn_instanceId = ''install'', cn_token = ''token'', cn_capabilities = Some [MetricsTopic]\<rparr>]"
  "lr_sessions (hl_registry demo_greeted) = [(''host'', 0)]"
  by (simp_all add: demo_greeted_def demo_connected_def realtime_connect_def demo_prevalidated on_message_def registry_attach_def
      demo_hub0_def live_init_def Let_def) (simp_all add: demo_request_def demo_bearer)

lemma demo_greeted_reachable: "reachable_live demo_digest demo_options demo_greeted"
proof -
  have "reachable_live demo_digest demo_options demo_hub0"
    unfolding demo_hub0_def by (rule live_starts)
  then have 1: "reachable_live demo_digest demo_options demo_connected"
    unfolding demo_connected_def by (rule live_steps [OF _ agent_connects])
  have "length (hl_connections demo_connected) = 1"
    by (simp add: demo_connected_def realtime_connect_def demo_prevalidated registry_attach_def
        demo_hub0_def live_init_def Let_def)
  then show ?thesis
    unfolding demo_greeted_def by (intro live_steps [OF 1 frame_arrives]) simp
qed

theorem live_channel_sound_witness:
  "reachable_registry (hl_registry demo_greeted) \<and> cn_deviceId (hl_connections demo_greeted ! 0) = ''host''"
  using live_channel_sound [OF demo_greeted_reachable, of "''host''" 0] by (simp add: demo_greeted_value(3))

theorem frame_errors_contained_witness:
  "session_ended 0 (hl_registry demo_greeted)
     (hl_registry (snd (on_message (demo_env ''u'' 2) (\<lambda>dev topic raw. None) 0 (NotJson :: string incoming) demo_greeted)))"
  using frame_errors_contained [OF demo_greeted_reachable, where s = 0 and msg = NotJson and env = "demo_env ''u'' 2"
      and parse_data = "\<lambda>dev topic raw. None" and t = "''hello''" and rid = "''r''" and topic = MetricsTopic and raw = "''x''"]
  by (simp add: demo_greeted_value(2) violation_def)

theorem reset_revokes_witness:
  "session_ended 0 (hl_registry demo_greeted) (hl_registry demo_after_reset) \<and>
   (\<exists>err. fst (realtime_connect demo_digest demo_options 9 (demo_env ''s2'' 9) demo_request demo_after_reset) = Inl err)"
proof -
  have "reset_route (\<lambda>_. True) True ''host'' demo_greeted = (None, demo_after_reset)"
    by (simp add: demo_after_reset_def reset_route_def remove_credential_def persist_def demo_greeted_value(1) demo_record Let_def)
  from reset_revokes [OF demo_greeted_reachable this rtranclp.rtrancl_refl, of demo_request] show ?thesis
    by (simp add: demo_greeted_value(3)) (simp add: demo_request_def)
qed

theorem live_metrics_type_witness:
  "live_metrics_typed (the (parseLiveMetrics None (Some (demo_payload 0)) ''host-a'')) \<and>
   lm_cpuPercent (the (parseLiveMetrics None (Some (demo_payload 0)) ''host-a'')) = Some 25"
proof -
  let ?m = "the (parseLiveMetrics None (Some (demo_payload 0)) ''host-a'')"
  have m: "parseLiveMetrics None (Some (demo_payload 0)) ''host-a'' = Some ?m"
    by (simp add: parseLiveMetrics_def demo_payload_def demo_identity_def Let_def)
  have "upload_typed (demo_payload 0)"
    by (simp add: upload_typed_def in_range_def nonneg_opt_def demo_payload_def demo_memory_def MAX_SAFE_INTEGER_def)
  then have "live_metrics_typed ?m"
    using live_metrics_type [OF _ _ m] by simp
  moreover have "lm_cpuPercent ?m = Some 25"
    by (simp add: parseLiveMetrics_def demo_payload_def demo_identity_def Let_def)
  ultimately show ?thesis by simp
qed

end
