(* ===== verification/Hub_Api.thy ===== *)
theory Hub_Api
  imports Inventory Traffic_Calendar Metric_Response Live_Routes
begin

text \<open>
  The hub's HTTP interface: the routes of \<open>apps/server/src/routes.ts\<close> and the ingest route of \<open>index.ts\<close>, composed from
  the metrics service, the failure limiter, sessions, credentials and the live registry.

  A body or query is what its zod schema made of it, \<open>None\<close> when the schema refused it.  The signature of a cookie
  is checked by the parameter \<open>ae_unsign\<close> (\<open>@fastify/cookie\<close>).  An exception that a route does not catch is the
  framework's answer 500.  One request is one step.
\<close>

record api_env =
  ae_options :: live_options
  ae_sha256 :: "string \<Rightarrow> string"
  ae_unsign :: "string \<Rightarrow> string option"
  ae_decode :: "string \<Rightarrow> raw_session option"
  ae_localeKey :: "string \<Rightarrow> rat"
  ae_disk :: disk
  ae_credentialsDisk :: bool

record http_request =
  hr_ip :: string
  hr_https :: bool
  hr_authorization :: "string option"
  hr_cookie :: "string option"

record 'd hub =
  ap_service :: MetricsService
  ap_live :: "'d live_hub"
  ap_shuttingDown :: bool

subsection \<open>Sessions\<close>

record session_cookie =
  sc_session :: SessionValue
  sc_maxAge :: int
  sc_expires :: int

datatype cookie_effect = KeepCookie | SetCookie session_cookie | ClearCookie

definition setSession :: "int \<Rightarrow> SessionValue \<Rightarrow> cookie_effect" where
  "setSession now session =
     (case Date_parse (se_expiresAt session) of
        None \<Rightarrow> KeepCookie
      | Some expiresAt \<Rightarrow> SetCookie \<lparr>sc_session = session, sc_maxAge = max 0 ((expiresAt - now) div 1000), sc_expires = expiresAt\<rparr>)"

definition refreshSession :: "int \<Rightarrow> SessionValue \<Rightarrow> cookie_effect" where
  "refreshSession now session = (case renewSession session now of Some renewed \<Rightarrow> setSession now renewed | None \<Rightarrow> KeepCookie)"

definition getSession :: "api_env \<Rightarrow> int \<Rightarrow> http_request \<Rightarrow> SessionValue option" where
  "getSession env now rq =
     (if \<not> truthy (hr_cookie rq) then None
      else case ae_unsign env (the (hr_cookie rq)) of
             None \<Rightarrow> None
           | Some encoded \<Rightarrow> parseSessionValue (ae_sha256 env) (ae_decode env) encoded (lo_accessKey (ae_options env)) now)"

subsection \<open>Answers\<close>

record config_view =
  cv_deviceId :: string
  cv_availableMetrics :: "DeviceMetricOption list"
  cv_enabledMetrics :: "DeviceMetricKey list"
  cv_enabledDeviceIds :: "(DeviceBlockKey, string list) jsmap"
  cv_instanceMetricConfig :: "(string, DeviceMetricKey list) jsmap"

record overview_instance =
  oi_deviceId :: string
  oi_hostname :: string
  oi_series :: OverviewSeries
  oi_unavailableMetrics :: "DeviceMetricKey list"

datatype api_body =
    ErrorBody string
  | OkBody
  | SessionBody string
  | SummariesBody "DeviceSummary list"
  | OverviewBody MetricWindow "string payload" "DeviceMetricKey list list" "num option"
  | GroupBody "string option" "string option"
  | DetailBody DeviceDetail
  | MetricsBody DeviceMetricsResponse
  | CalendarBody TrafficCalendarResponse
  | NoteBody string string string
  | ConfigBody config_view
  | PingBody string
  | StateBody string DeviceStatus string AgentMetricsPayload

record api_reply =
  rp_status :: nat
  rp_body :: api_body
  rp_cookie :: cookie_effect

definition answer :: "api_body \<Rightarrow> api_reply" where
  "answer body = \<lparr>rp_status = 200, rp_body = body, rp_cookie = KeepCookie\<rparr>"

definition refuse :: "nat \<Rightarrow> string \<Rightarrow> api_reply" where
  "refuse status code = \<lparr>rp_status = status, rp_body = ErrorBody code, rp_cookie = KeepCookie\<rparr>"

definition server_error :: api_reply where
  "server_error = refuse 500 ''Internal Server Error''"

type_synonym 'd route = "'d hub \<Rightarrow> api_reply \<times> 'd hub"

definition with_service :: "(MetricsService \<Rightarrow> 'a \<times> MetricsService) \<Rightarrow> ('a \<Rightarrow> 'd route) \<Rightarrow> 'd route" where
  "with_service f k h = (let (x, s) = f (ap_service h) in k x (h\<lparr>ap_service := s\<rparr>))"

definition set_limiter :: "AuthFailureRateLimiter \<Rightarrow> 'd hub \<Rightarrow> 'd hub" where
  "set_limiter limiter h = h\<lparr>ap_live := (ap_live h)\<lparr>hl_limiter := limiter\<rparr>\<rparr>"

abbreviation limiter_of :: "'d hub \<Rightarrow> AuthFailureRateLimiter" where
  "limiter_of h \<equiv> hl_limiter (ap_live h)"

subsection \<open>Logging in and out\<close>

definition login_route :: "api_env \<Rightarrow> int \<Rightarrow> http_request \<Rightarrow> string option \<Rightarrow> 'd route" where
  "login_route env now rq body h =
     (let clientKey = hr_ip rq
      in if \<not> limiter_allow clientKey now (limiter_of h) then (refuse 429 ''too_many_login_attempts'', h)
         else case body of
                None \<Rightarrow> (refuse 400 ''invalid_login_payload'', h)
              | Some accessKey \<Rightarrow>
                  if \<not> safeEqual accessKey (lo_accessKey (ae_options env))
                  then (refuse 401 ''invalid_credentials'', set_limiter (recordFailure clientKey now (limiter_of h)) h)
                  else ((answer OkBody)\<lparr>rp_cookie := setSession now (createSession (ae_sha256 env) (lo_accessKey (ae_options env)) now)\<rparr>,
                        set_limiter (limiter_clear clientKey (limiter_of h)) h))"

definition logout_route :: "'d route" where
  "logout_route h = ((answer OkBody)\<lparr>rp_cookie := ClearCookie\<rparr>, h)"

definition session_route :: "api_env \<Rightarrow> int \<Rightarrow> http_request \<Rightarrow> 'd route" where
  "session_route env now rq h =
     (case getSession env now rq of
        None \<Rightarrow> (refuse 401 ''unauthorized'', h)
      | Some session \<Rightarrow> ((answer (SessionBody (se_issuedAt session)))\<lparr>rp_cookie := refreshSession now session\<rparr>, h))"

text \<open>\<open>requireAuth\<close> in front of a route.\<close>

definition requireAuth :: "api_env \<Rightarrow> int \<Rightarrow> http_request \<Rightarrow> 'd route \<Rightarrow> 'd route" where
  "requireAuth env now rq route h =
     (case getSession env now rq of
        None \<Rightarrow> (refuse 401 ''unauthorized'', h)
      | Some session \<Rightarrow> (case route h of (reply, h') \<Rightarrow> (reply\<lparr>rp_cookie := refreshSession now session\<rparr>, h')))"

subsection \<open>Console routes: devices and groups\<close>

definition devices_route :: "api_env \<Rightarrow> int \<Rightarrow> 'd route" where
  "devices_route env now =
     with_service (on_store (buildDeviceSummaries (ae_disk env) now (ae_localeKey env)))
       (\<lambda>r h. (case r of Inl _ \<Rightarrow> server_error | Inr summaries \<Rightarrow> answer (SummariesBody summaries), h))"

primrec overview_instances :: "int \<Rightarrow> MetricWindow \<Rightarrow> DeviceRealtimeState list \<Rightarrow> MetricsService
    \<Rightarrow> overview_instance list option \<times> MetricsService" where
  "overview_instances now window [] s = (Some [], s)"
| "overview_instances now window (state # states) s =
     (let summary = toSummary state;
          (points, s1) = getSeries now (sm_deviceId summary) window s;
          (rest, s2) = overview_instances now window states s1
      in (case (overviewToMetricSeries (map projectOverviewRecord points) window, rest) of
            (Some series, Some instances) \<Rightarrow>
              Some (\<lparr>oi_deviceId = sm_deviceId summary, oi_hostname = sm_hostname summary, oi_series = series,
                oi_unavailableMetrics = nullish (sm_unavailableMetrics summary) []\<rparr> # instances)
          | _ \<Rightarrow> None, s2))"

definition overview_tree :: "overview_instance list \<Rightarrow> string payload" where
  "overview_tree instances = Arr (map (\<lambda>i. Obj [
     (''deviceId'', Leaf (oi_deviceId i)), (''hostname'', Leaf (oi_hostname i)),
     (''cpuUsagePercent'', Points (os_cpuUsagePercent (oi_series i))),
     (''memoryUsedBytes'', Points (os_memoryUsedBytes (oi_series i))),
     (''diskUsedBytes'', Points (os_diskUsedBytes (oi_series i))),
     (''networkRxBytesPerSec'', Points (os_networkRxBytesPerSec (oi_series i))),
     (''networkTxBytesPerSec'', Points (os_networkTxBytesPerSec (oi_series i)))]) instances)"

definition overview_route :: "int \<Rightarrow> (MetricWindow \<times> num option) option \<Rightarrow> 'd route" where
  "overview_route now query h =
     (case query of
        None \<Rightarrow> (refuse 400 ''invalid_metrics_query'', h)
      | Some (window, pointBudget) \<Rightarrow>
          with_service (on_store listDevices) (\<lambda>states.
          with_service (overview_instances now window states) (\<lambda>r h.
            (case r of
               None \<Rightarrow> server_error
             | Some instances \<Rightarrow> answer (OverviewBody window (budgetSeries (overview_tree instances) pointBudget)
                 (map oi_unavailableMetrics instances) pointBudget), h))) h)"

definition removeLiveDevice :: "bool \<Rightarrow> string \<Rightarrow> 'd live_hub \<Rightarrow> unit outcome \<times> 'd live_hub" where
  "removeLiveDevice disk_ok deviceId live =
     (case remove_credential disk_ok deviceId (hl_credentials live) of
        (Inl err, credentials) \<Rightarrow> (Inl StoreError.WriteFailed, live\<lparr>hl_credentials := credentials\<rparr>)
      | (Inr _, credentials) \<Rightarrow>
          (Inr (), live\<lparr>hl_credentials := credentials, hl_registry := registry_closeDevice deviceId (hl_registry live)\<rparr>))"

definition delete_route :: "api_env \<Rightarrow> int \<Rightarrow> string \<Rightarrow> 'd route" where
  "delete_route env now deviceId h =
     (if isLegacyVirtualMachineId deviceId then (refuse 404 ''device_not_found'', h)
      else case removeLiveDevice (ae_credentialsDisk env) deviceId (ap_live h) of
             (revoked, live) \<Rightarrow>
               with_service (performRemoveDevice (ae_disk env) now deviceId revoked)
                 (\<lambda>r h. (case r of Inl _ \<Rightarrow> server_error | Inr _ \<Rightarrow> answer OkBody, h)) (h\<lparr>ap_live := live\<rparr>))"

definition reorder_route :: "api_env \<Rightarrow> int \<Rightarrow> string list option \<Rightarrow> 'd route" where
  "reorder_route env now body h =
     (case body of
        None \<Rightarrow> (refuse 400 ''invalid_reorder_payload'', h)
      | Some deviceIds \<Rightarrow>
          if list_ex isLegacyVirtualMachineId deviceIds then (refuse 400 ''invalid_reorder_payload'', h)
          else with_service (on_store (reorderDevices (ae_disk env) now deviceIds))
                 (\<lambda>r h. (case r of Inl _ \<Rightarrow> server_error | Inr _ \<Rightarrow> answer OkBody, h)) h)"

text \<open>The end of both group routes: the service call and the answers to its errors.\<close>

definition update_group :: "api_env \<Rightarrow> int \<Rightarrow> string list \<Rightarrow> string option \<Rightarrow> api_body \<Rightarrow> 'd route" where
  "update_group env now deviceIds normalizedGroup body =
     with_service (service_updateDeviceGroup (ae_disk env) now deviceIds normalizedGroup)
       (\<lambda>r h. (case r of
            Inr _ \<Rightarrow> answer body
          | Inl InvalidDeviceGroupNameError \<Rightarrow> refuse 400 ''invalid_group_name''
          | Inl (DeviceNotFoundError _) \<Rightarrow> refuse 404 ''device_not_found''
          | Inl _ \<Rightarrow> server_error, h))"

definition group_route :: "api_env \<Rightarrow> int \<Rightarrow> (string list \<times> string option) option \<Rightarrow> 'd route" where
  "group_route env now body h =
     (case body of
        None \<Rightarrow> (refuse 400 ''invalid_group_payload'', h)
      | Some (ids, groupName) \<Rightarrow>
          if list_ex isLegacyVirtualMachineId ids then (refuse 400 ''invalid_group_payload'', h)
          else
            (let deviceIds = js_uniq ids; normalizedGroup = normalizeDeviceGroupName groupName
             in if truthy normalizedGroup \<and> isReservedDeviceGroupName (the normalizedGroup) then (refuse 400 ''invalid_group_name'', h)
                else with_service (on_store (listOpenDevices (ae_localeKey env))) (\<lambda>openDevices h.
                       if truthy (List.find (\<lambda>k. k \<notin> set (map dv_deviceId openDevices)) deviceIds)
                       then (refuse 404 ''device_not_found'', h)
                       else update_group env now deviceIds normalizedGroup (GroupBody None normalizedGroup) h) h))"

definition device_group_route :: "api_env \<Rightarrow> int \<Rightarrow> string \<Rightarrow> string option option \<Rightarrow> 'd route" where
  "device_group_route env now deviceId body h =
     (if isLegacyVirtualMachineId deviceId then (refuse 404 ''device_not_found'', h)
      else case body of
             None \<Rightarrow> (refuse 400 ''invalid_group_payload'', h)
           | Some groupName \<Rightarrow>
               (let normalizedGroup = normalizeDeviceGroupName groupName
                in if truthy normalizedGroup \<and> isReservedDeviceGroupName (the normalizedGroup) then (refuse 400 ''invalid_group_name'', h)
                   else with_service (on_store (getOpenDevice deviceId)) (\<lambda>found.
                        with_service (\<lambda>s. if found \<noteq> None then (found, s)
                             else let (openDevices, s') = on_store (listOpenDevices (ae_localeKey env)) s
                                  in (List.find (\<lambda>d. dv_deviceId d = deviceId) openDevices, s')) (\<lambda>openDevice h.
                          if openDevice = None then (refuse 404 ''device_not_found'', h)
                          else update_group env now [deviceId] normalizedGroup (GroupBody (Some deviceId) normalizedGroup) h)) h))"

definition device_route :: "api_env \<Rightarrow> string \<Rightarrow> 'd route" where
  "device_route env deviceId =
     with_service (on_store (getDevice deviceId)) (\<lambda>state h.
       case state of
         None \<Rightarrow> (refuse 404 ''device_not_found'', h)
       | Some st \<Rightarrow>
           with_service (on_store (listOpenDevices (ae_localeKey env))) (\<lambda>openDevices h.
             (answer (DetailBody (registered_detail st (List.find (\<lambda>item. dv_deviceId item = deviceId) openDevices))), h)) h)"

subsection \<open>Console routes: metrics, notes and configuration\<close>

definition metrics_route :: "api_env \<Rightarrow> int \<Rightarrow> string \<Rightarrow> (MetricWindow \<times> num option) option \<Rightarrow> 'd route" where
  "metrics_route env now deviceId query h =
     (case query of
        None \<Rightarrow> (refuse 400 ''invalid_metrics_query'', h)
      | Some (window, pointBudget) \<Rightarrow>
          with_service (on_store (getDevice deviceId)) (\<lambda>state h.
            case state of
              None \<Rightarrow> (refuse 404 ''device_not_found'', h)
            | Some st \<Rightarrow>
                with_service (on_store (getFanNotes deviceId)) (\<lambda>fanNotes.
                with_service (on_store (listOpenDevices (ae_localeKey env))) (\<lambda>openDevices.
                with_service (getMetricConfig deviceId) (\<lambda>metricConfig.
                with_service (getSeries now deviceId window) (\<lambda>points h.
                  (answer (MetricsBody (metrics_response now st (List.find (\<lambda>item. dv_deviceId item = deviceId) openDevices)
                     fanNotes metricConfig points window pointBudget)), h))))) h) h)"

definition calendar_route :: "int \<Rightarrow> string \<Rightarrow> (TrafficCalendarMode \<times> string \<times> string option) option \<Rightarrow> 'd route" where
  "calendar_route now deviceId query h =
     (case query of
        None \<Rightarrow> (refuse 400 ''invalid_traffic_calendar_query'', h)
      | Some (mode, anchor, selectedStart) \<Rightarrow>
          with_service (on_store (getDevice deviceId)) (\<lambda>state h.
            if state = None then (refuse 404 ''device_not_found'', h)
            else with_service (getTrafficCalendar now deviceId mode anchor selectedStart)
                   (\<lambda>calendar h. (answer (CalendarBody calendar), h)) h) h)"

definition fan_note_route :: "api_env \<Rightarrow> string \<Rightarrow> string \<Rightarrow> string option \<Rightarrow> 'd route" where
  "fan_note_route env deviceId fanId body h =
     (if isLegacyVirtualMachineId deviceId then (refuse 404 ''device_not_found'', h)
      else case body of
             None \<Rightarrow> (refuse 400 ''invalid_fan_note_payload'', h)
           | Some note \<Rightarrow>
               with_service (on_store (setFanNote (ae_disk env) deviceId fanId note))
                 (\<lambda>r h. (case r of Inl _ \<Rightarrow> server_error | Inr _ \<Rightarrow> answer (NoteBody deviceId fanId note), h)) h)"

definition get_config_route :: "string \<Rightarrow> 'd route" where
  "get_config_route deviceId =
     with_service (on_store (getDevice deviceId)) (\<lambda>state h.
       case state of
         None \<Rightarrow> (refuse 404 ''device_not_found'', h)
       | Some st \<Rightarrow>
           with_service (on_store (getConfig deviceId)) (\<lambda>config h.
             (answer (ConfigBody \<lparr>cv_deviceId = deviceId, cv_availableMetrics = getAvailableMetrics st,
                cv_enabledMetrics = nullish (map_option cf_enabledMetrics config) ALL_DEVICE_METRIC_KEYS,
                cv_enabledDeviceIds = nullish (Option.bind config cf_enabledDeviceIds) [],
                cv_instanceMetricConfig = nullish (Option.bind config cf_instanceMetricConfig) []\<rparr>), h)) h)"

definition put_config_route :: "api_env \<Rightarrow> string \<Rightarrow> DeviceMetricConfigValue option \<Rightarrow> 'd route" where
  "put_config_route env deviceId payload =
     with_service (on_store (getDevice deviceId)) (\<lambda>state h.
       case state of
         None \<Rightarrow> (refuse 404 ''device_not_found'', h)
       | Some st \<Rightarrow>
           (case payload of
              None \<Rightarrow> (refuse 400 ''invalid_metric_config_payload'', h)
            | Some body \<Rightarrow>
                (let enabledDeviceIds = nullish (cf_enabledDeviceIds body) []; instanceMetricConfig = nullish (cf_instanceMetricConfig body) []
                 in with_service (setEnabledMetrics (ae_disk env) deviceId \<lparr>cf_enabledMetrics = cf_enabledMetrics body,
                        cf_enabledDeviceIds = Some enabledDeviceIds, cf_instanceMetricConfig = Some instanceMetricConfig\<rparr>)
                      (\<lambda>r h. (case r of
                           Inl _ \<Rightarrow> server_error
                         | Inr _ \<Rightarrow> answer (ConfigBody \<lparr>cv_deviceId = deviceId, cv_availableMetrics = getAvailableMetrics st,
                             cv_enabledMetrics = cf_enabledMetrics body, cv_enabledDeviceIds = enabledDeviceIds,
                             cv_instanceMetricConfig = instanceMetricConfig\<rparr>), h)) h)))"

subsection \<open>Agent routes\<close>

text \<open>The checks in front of every agent route.\<close>

definition rejectInsecureAgentTransport :: "api_env \<Rightarrow> http_request \<Rightarrow> bool" where
  "rejectInsecureAgentTransport env rq \<longleftrightarrow> lo_requireHttps (ae_options env) \<and> \<not> hr_https rq"

definition agent_gate :: "api_env \<Rightarrow> int \<Rightarrow> http_request \<Rightarrow> 'd route \<Rightarrow> 'd route" where
  "agent_gate env now rq route h =
     (let clientKey = hr_ip rq
      in if rejectInsecureAgentTransport env rq then (refuse 400 ''https_required'', h)
         else if \<not> limiter_allow clientKey now (limiter_of h) then (refuse 429 ''too_many_auth_attempts'', h)
         else case getBearerToken (hr_authorization rq) of
                None \<Rightarrow> (refuse 401 ''unauthorized_agent'', set_limiter (recordFailure clientKey now (limiter_of h)) h)
              | Some token \<Rightarrow>
                  if \<not> safeEqual token (lo_accessKey (ae_options env))
                  then (refuse 401 ''unauthorized_agent'', set_limiter (recordFailure clientKey now (limiter_of h)) h)
                  else route (set_limiter (limiter_clear clientKey (limiter_of h)) h))"

definition agent_config_route :: "api_env \<Rightarrow> (string \<times> DeviceMetricConfigValue) option \<Rightarrow> 'd route" where
  "agent_config_route env payload h =
     (case payload of
        None \<Rightarrow> (refuse 400 ''invalid_device_config_payload'', h)
      | Some (deviceId, body) \<Rightarrow>
          if isLegacyVirtualMachineId deviceId then (refuse 400 ''invalid_device_config_payload'', h)
          else
            (let instanceMetricConfig = filter (\<lambda>(k, _). \<not> isLegacyVirtualMachineId k) (nullish (cf_instanceMetricConfig body) []);
                 enabledDeviceIds = nullish (cf_enabledDeviceIds body) []
             in with_service (setEnabledMetrics (ae_disk env) deviceId \<lparr>cf_enabledMetrics = cf_enabledMetrics body,
                    cf_enabledDeviceIds = Some enabledDeviceIds, cf_instanceMetricConfig = Some instanceMetricConfig\<rparr>)
                  (\<lambda>r h. case r of
                       Inl _ \<Rightarrow> (server_error, h)
                     | Inr _ \<Rightarrow>
                         with_service (on_store (getDevice deviceId)) (\<lambda>state h.
                           (answer (ConfigBody \<lparr>cv_deviceId = deviceId,
                              cv_availableMetrics = (case state of None \<Rightarrow> [] | Some st \<Rightarrow> getAvailableMetrics st),
                              cv_enabledMetrics = cf_enabledMetrics body, cv_enabledDeviceIds = enabledDeviceIds,
                              cv_instanceMetricConfig = instanceMetricConfig\<rparr>), h)) h) h))"

definition ping_route :: "int \<Rightarrow> 'd route" where
  "ping_route now h = (answer (PingBody (toISOString now)), h)"

definition device_state_route :: "string option \<Rightarrow> 'd route" where
  "device_state_route parsed h =
     (case parsed of
        None \<Rightarrow> (refuse 400 ''invalid_device_id'', h)
      | Some deviceId \<Rightarrow>
          with_service (on_store (getDevice deviceId)) (\<lambda>state h.
            (case state of
               None \<Rightarrow> refuse 404 ''device_not_found''
             | Some st \<Rightarrow> answer (StateBody deviceId (rs_status st) (rs_lastSeenAt st) (rs_latest st)), h)) h)"

text \<open>\<open>admitted\<close> is whether the per-device queue in front of the service took the operation.\<close>

definition ingest_route :: "api_env \<Rightarrow> int \<Rightarrow> bool \<Rightarrow> AgentMetricsPayload option \<Rightarrow> 'd route" where
  "ingest_route env now admitted parsed h =
     (case parsed of
        None \<Rightarrow> (refuse 400 ''invalid_agent_payload'', h)
      | Some payload \<Rightarrow>
          if isLegacyVirtualMachineId (id_deviceId (pa_identity payload)) then (refuse 400 ''invalid_agent_payload'', h)
          else if \<not> admitted then (refuse 503 ''hub_queue_capacity'', h)
          else with_service (ingest (ae_disk env) now payload)
                 (\<lambda>r h. (case r of Inl _ \<Rightarrow> server_error | Inr _ \<Rightarrow> answer OkBody, h)) h)"

subsection \<open>The interface as a whole\<close>

datatype console_call =
    ListDevices
  | OverviewMetrics "(MetricWindow \<times> num option) option"
  | DeleteDevice string
  | Reorder "string list option"
  | SetGroups "(string list \<times> string option) option"
  | SetGroup string "string option option"
  | DeviceInfo string
  | DeviceMetrics string "(MetricWindow \<times> num option) option"
  | Calendar string "(TrafficCalendarMode \<times> string \<times> string option) option"
  | WriteFanNote string string "string option"
  | ReadConfig string
  | WriteConfig string "DeviceMetricConfigValue option"

datatype agent_call =
    AgentConfig "(string \<times> DeviceMetricConfigValue) option"
  | Ping
  | DeviceState "string option"
  | Ingest bool "AgentMetricsPayload option"

datatype api_call = Login "string option" | Logout | SessionInfo | Console console_call | Agent agent_call

primrec console_route :: "api_env \<Rightarrow> int \<Rightarrow> console_call \<Rightarrow> 'd route" where
  "console_route env now ListDevices = devices_route env now"
| "console_route env now (OverviewMetrics query) = overview_route now query"
| "console_route env now (DeleteDevice deviceId) = delete_route env now deviceId"
| "console_route env now (Reorder body) = reorder_route env now body"
| "console_route env now (SetGroups body) = group_route env now body"
| "console_route env now (SetGroup deviceId body) = device_group_route env now deviceId body"
| "console_route env now (DeviceInfo deviceId) = device_route env deviceId"
| "console_route env now (DeviceMetrics deviceId query) = metrics_route env now deviceId query"
| "console_route env now (Calendar deviceId query) = calendar_route now deviceId query"
| "console_route env now (WriteFanNote deviceId fanId body) = fan_note_route env deviceId fanId body"
| "console_route env now (ReadConfig deviceId) = get_config_route deviceId"
| "console_route env now (WriteConfig deviceId body) = put_config_route env deviceId body"

primrec agent_route :: "api_env \<Rightarrow> int \<Rightarrow> agent_call \<Rightarrow> 'd route" where
  "agent_route env now (AgentConfig payload) = agent_config_route env payload"
| "agent_route env now Ping = ping_route now"
| "agent_route env now (DeviceState parsed) = device_state_route parsed"
| "agent_route env now (Ingest admitted parsed) = ingest_route env now admitted parsed"

definition is_ingest :: "agent_call \<Rightarrow> bool" where
  "is_ingest call = (case call of Ingest _ _ \<Rightarrow> True | _ \<Rightarrow> False)"

primrec api_handle :: "api_env \<Rightarrow> int \<Rightarrow> http_request \<Rightarrow> api_call \<Rightarrow> 'd route" where
  "api_handle env now rq (Login body) = login_route env now rq body"
| "api_handle env now rq Logout = logout_route"
| "api_handle env now rq SessionInfo = session_route env now rq"
| "api_handle env now rq (Console call) = requireAuth env now rq (console_route env now call)"
| "api_handle env now rq (Agent call) =
     (\<lambda>h. if is_ingest call \<and> ap_shuttingDown h then (refuse 503 ''hub_shutting_down'', h)
          else agent_gate env now rq (agent_route env now call) h)"

subsection \<open>Who may do what\<close>

definition authorised :: "api_env \<Rightarrow> int \<Rightarrow> http_request \<Rightarrow> api_call \<Rightarrow> 'd hub \<Rightarrow> bool" where
  "authorised env now rq call h =
     (case call of
        Login body \<Rightarrow> limiter_allow (hr_ip rq) now (limiter_of h) \<and> body = Some (lo_accessKey (ae_options env))
      | Logout \<Rightarrow> True
      | SessionInfo \<Rightarrow> getSession env now rq \<noteq> None
      | Console _ \<Rightarrow> getSession env now rq \<noteq> None
      | Agent _ \<Rightarrow> (lo_requireHttps (ae_options env) \<longrightarrow> hr_https rq) \<and> limiter_allow (hr_ip rq) now (limiter_of h) \<and>
          getBearerToken (hr_authorization rq) = Some (lo_accessKey (ae_options env)))"

lemma set_limiter_twice [simp]: "set_limiter l (set_limiter l' h) = set_limiter l h"
  by (simp add: set_limiter_def)

text \<open>
  C7: a request without a valid session, or for agents without the access key over an allowed transport and within the
  limit of failures, is refused, is given no data and no cookie, and changes nothing in the hub but the count of the
  client's failures; nor does it open a session.
\<close>

theorem access_is_guarded:
  assumes "\<not> authorised env now rq call h" "api_handle env now rq call h = (reply, h')"
  shows "(\<exists>status code. status \<in> {400, 401, 429, 503} \<and> reply = refuse status code) \<and>
    (\<exists>limiter \<in> {limiter_of h, recordFailure (hr_ip rq) now (limiter_of h)}. h' = set_limiter limiter h)"
proof -
  have keep: "h = set_limiter (limiter_of h) h" by (simp add: set_limiter_def)
  show ?thesis
  proof (cases call)
    case (Login body)
    with assms keep show ?thesis
      by (auto simp: authorised_def login_route_def Let_def split: if_splits option.splits)
  next
    case (Agent agentCall)
    with assms keep show ?thesis
      by (auto simp: authorised_def agent_gate_def rejectInsecureAgentTransport_def Let_def split: if_splits option.splits)
  qed (use assms keep in \<open>auto simp: authorised_def session_route_def requireAuth_def\<close>)
qed

subsection \<open>What requests keep\<close>

definition keeps :: "(MetricsService \<Rightarrow> bool) \<Rightarrow> 'd route \<Rightarrow> bool" where
  "keeps P route \<longleftrightarrow> (\<forall>h. P (ap_service h) \<longrightarrow> P (ap_service (snd (route h))))"

lemma keeps_answer [simp]: "keeps P (\<lambda>h. (reply, h))"
  by (simp add: keeps_def)

lemma keeps_with_service:
  "(\<And>s. P s \<Longrightarrow> P (snd (f s))) \<Longrightarrow> (\<And>x. keeps P (k x)) \<Longrightarrow> keeps P (with_service f k)"
  by (simp add: keeps_def with_service_def case_prod_unfold Let_def)

lemma keeps_limiter [simp]: "ap_service (set_limiter l h) = ap_service h"
  by (simp add: set_limiter_def)

lemma keeps_if: "keeps P f \<Longrightarrow> keeps P g \<Longrightarrow> keeps P (\<lambda>h. if c then f h else g h)"
  by (simp add: keeps_def)

lemma keeps_option: "keeps P f \<Longrightarrow> (\<And>x. keeps P (g x)) \<Longrightarrow> keeps P (\<lambda>h. case v of None \<Rightarrow> f h | Some x \<Rightarrow> g x h)"
  by (cases v) (simp_all add: keeps_def)

lemma keeps_pair: "(\<And>x y. keeps P (g x y)) \<Longrightarrow> keeps P (\<lambda>h. case v of (x, y) \<Rightarrow> g x y h)"
  by (cases v) (simp add: keeps_def)

lemma keeps_outcome: "(\<And>x. keeps P (f x)) \<Longrightarrow> (\<And>x. keeps P (g x)) \<Longrightarrow> keeps P (\<lambda>h. case v of Inl x \<Rightarrow> f x h | Inr x \<Rightarrow> g x h)"
  by (cases v) (simp_all add: keeps_def)

lemma keepsD: "keeps P route \<Longrightarrow> P (ap_service h) \<Longrightarrow> P (ap_service (snd (route h)))"
  by (simp add: keeps_def)

lemma keeps_live: "(\<And>x. keeps P (f x)) \<Longrightarrow> keeps P (\<lambda>h. case g (ap_live h) of (x, live) \<Rightarrow> f x (h\<lparr>ap_live := live\<rparr>))"
  by (simp add: keeps_def case_prod_unfold)

lemma keeps_requireAuth: "keeps P route \<Longrightarrow> keeps P (requireAuth env now rq route)"
  by (auto simp: keeps_def requireAuth_def case_prod_unfold split: option.split)

lemma keeps_agent_gate: "keeps P route \<Longrightarrow> keeps P (agent_gate env now rq route)"
  by (auto simp: keeps_def agent_gate_def Let_def split: option.split)

lemmas keeps_rules = keeps_if keeps_option keeps_pair keeps_outcome keeps_with_service keeps_answer

text \<open>
  A property of the service that its operations keep is kept by every request.  \<open>may\<close> restricts the devices whose
  samples are taken in.
\<close>

locale service_property =
  fixes P :: "MetricsService \<Rightarrow> bool" and may :: "string \<Rightarrow> bool" and disk_ok :: disk
  assumes reading: "P s \<Longrightarrow> P (s\<lparr>sv_store := snd (load (sv_store s))\<rparr>)"
    and reading_series: "P s \<Longrightarrow> P (snd (getSeries now k w s))"
    and listing: "P s \<Longrightarrow> P (snd (on_store (buildDeviceSummaries disk_ok now localeKey) s))"
    and removing: "P s \<Longrightarrow> P (snd (performRemoveDevice disk_ok now k revoked s))"
    and reordering: "P s \<Longrightarrow> P (snd (on_store (reorderDevices disk_ok now ks) s))"
    and grouping: "P s \<Longrightarrow> P (snd (service_updateDeviceGroup disk_ok now ks g s))"
    and noting: "P s \<Longrightarrow> P (snd (on_store (setFanNote disk_ok k fan note) s))"
    and configuring: "P s \<Longrightarrow> P (snd (setEnabledMetrics disk_ok k config s))"
    and ingesting: "may (id_deviceId (pa_identity payload)) \<Longrightarrow> P s \<Longrightarrow> P (snd (ingest disk_ok now payload s))"
begin

definition allowed :: "api_call \<Rightarrow> bool" where
  "allowed call = (case call of Agent (Ingest _ (Some payload)) \<Rightarrow> may (id_deviceId (pa_identity payload)) | _ \<Rightarrow> True)"

lemma select_kept: "P s \<Longrightarrow> P (snd (on_store (select f) s))"
  using reading by (simp add: select_def case_prod_unfold Let_def)

lemma reads:
  assumes "P s"
  shows "P (snd (on_store (getDevice k) s))" "P (snd (on_store listDevices s))" "P (snd (on_store (getFanNotes k) s))"
    "P (snd (on_store (listOpenDevices localeKey) s))" "P (snd (on_store (getOpenDevice k) s))" "P (snd (on_store (getConfig k) s))"
    "P (snd (getMetricConfig k s))" "P (snd (getTrafficCalendar now k mode anchor selected s))"
  using assms
  by (simp_all add: getDevice_def listDevices_def getFanNotes_def listOpenDevices_def getOpenDevice_def getConfig_def getMetricConfig_def
      getTrafficCalendar_def traffic_points_def getTrafficSeries_def case_prod_unfold Let_def select_kept del: on_store_facts)

lemma overview_kept: "P s \<Longrightarrow> P (snd (overview_instances now window states s))"
  by (induction states arbitrary: s) (simp_all add: Let_def case_prod_unfold reading_series)

lemma console_kept:
  assumes "ae_disk env = disk_ok"
  shows "keeps P (console_route env now call)"
proof (cases call)
  case ListDevices
  show ?thesis
    unfolding ListDevices console_route.simps devices_route_def assms by (intro keeps_rules listing)
next
  case (OverviewMetrics query)
  show ?thesis
    unfolding OverviewMetrics console_route.simps overview_route_def [abs_def] by (intro keeps_rules reads overview_kept)
next
  case (DeleteDevice deviceId)
  show ?thesis
    unfolding DeleteDevice console_route.simps delete_route_def [abs_def] assms
    by (intro keeps_if keeps_live keeps_with_service keeps_answer removing)
next
  case (Reorder body)
  show ?thesis
    unfolding Reorder console_route.simps reorder_route_def [abs_def] assms by (intro keeps_rules reordering)
next
  case (SetGroups body)
  show ?thesis
    unfolding SetGroups console_route.simps group_route_def [abs_def] update_group_def [abs_def] assms Let_def
    by (intro keeps_rules reads grouping)
next
  case (SetGroup deviceId body)
  show ?thesis
    unfolding SetGroup console_route.simps device_group_route_def [abs_def] update_group_def [abs_def] assms Let_def
    by (intro keeps_rules reads grouping) (simp_all add: case_prod_unfold reads del: on_store_facts)
next
  case (DeviceInfo deviceId)
  show ?thesis
    unfolding DeviceInfo console_route.simps device_route_def by (intro keeps_rules reads)
next
  case (DeviceMetrics deviceId query)
  show ?thesis
    unfolding DeviceMetrics console_route.simps metrics_route_def [abs_def] by (intro keeps_rules reads reading_series)
next
  case (Calendar deviceId query)
  show ?thesis
    unfolding Calendar console_route.simps calendar_route_def [abs_def] by (intro keeps_rules reads)
next
  case (WriteFanNote deviceId fanId body)
  show ?thesis
    unfolding WriteFanNote console_route.simps fan_note_route_def [abs_def] assms by (intro keeps_rules noting)
next
  case (ReadConfig deviceId)
  show ?thesis
    unfolding ReadConfig console_route.simps get_config_route_def by (intro keeps_rules reads)
next
  case (WriteConfig deviceId body)
  show ?thesis
    unfolding WriteConfig console_route.simps put_config_route_def assms Let_def by (intro keeps_rules reads configuring)
qed

lemma agent_kept:
  assumes "ae_disk env = disk_ok" "allowed (Agent call)"
  shows "keeps P (agent_route env now call)"
proof (cases call)
  case (AgentConfig payload)
  show ?thesis
    unfolding AgentConfig agent_route.simps agent_config_route_def [abs_def] Let_def assms(1)
    by (intro keeps_rules reads configuring)
next
  case Ping
  then show ?thesis by (simp add: ping_route_def [abs_def])
next
  case (DeviceState parsed)
  show ?thesis
    unfolding DeviceState agent_route.simps device_state_route_def [abs_def] by (intro keeps_rules reads)
next
  case (Ingest admitted parsed)
  show ?thesis
  proof (cases parsed)
    case (Some payload)
    then have may: "may (id_deviceId (pa_identity payload))"
      using assms(2) Ingest by (simp add: allowed_def)
    show ?thesis
      unfolding Ingest Some agent_route.simps ingest_route_def [abs_def] assms(1) option.case
      by (intro keeps_if keeps_with_service keeps_answer ingesting may)
  qed (simp add: Ingest ingest_route_def [abs_def])
qed

lemma request_kept:
  assumes "ae_disk env = disk_ok" "allowed call" "P (ap_service h)"
  shows "P (ap_service (snd (api_handle env now rq call h)))"
proof (cases call)
  case (Console c)
  show ?thesis
    unfolding Console api_handle.simps by (rule keepsD [OF keeps_requireAuth [OF console_kept [OF assms(1)]] assms(3)])
next
  case (Agent c)
  have "P (ap_service (snd (agent_gate env now rq (agent_route env now c) h)))"
    by (rule keepsD [OF keeps_agent_gate [OF agent_kept [OF assms(1)]] assms(3)]) (use assms(2) Agent in simp)
  with Agent assms(3) show ?thesis by simp
qed (use assms(3) in \<open>auto simp: login_route_def logout_route_def session_route_def Let_def split: option.split\<close>)

end

end
