(* ===== verification/Hub_Run.thy ===== *)
theory Hub_Run
  imports Hub_Api
begin

text \<open>
  The running hub: requests, the live channel, the timers and the shutdown of \<open>apps/server/src/index.ts\<close>, in any order.
  Its invariant, and what the removal of a device promises from then on.
\<close>

subsection \<open>The service stays intact\<close>

lemma register_missing_keeps:
  assumes "\<And>k name st. Q st \<Longrightarrow> Q (snd (registerOrUpdateDevice disk_ok now k name no_options st))"
  shows "Q st \<Longrightarrow> Q (snd (register_missing disk_ok now states records st))"
proof (induction states arbitrary: records st)
  case (Cons state states)
  obtain r st1 where r: "registerOrUpdateDevice disk_ok now (id_deviceId (rs_identity state)) (Some (id_hostname (rs_identity state))) no_options st
      = (r, st1)" by fastforce
  with assms [OF Cons.prems] have "Q st1" by (metis snd_conv)
  with Cons r show ?case by (auto simp: Let_def split: sum.split)
qed simp

lemma recover_from_keeps:
  assumes "\<And>k name st. Q st \<Longrightarrow> Q (snd (registerOrUpdateDevice disk_ok now k name no_options st))"
  shows "Q st \<Longrightarrow> Q (snd (recover_from disk_ok now closedAt i known registered st))"
proof (induction known arbitrary: i st)
  case (Cons k known)
  obtain r st1 where r: "registerOrUpdateDevice disk_ok now k (Some k) no_options st = (r, st1)" by fastforce
  with assms [OF Cons.prems] have "Q st1" by (metis snd_conv)
  with Cons r show ?case by (auto split: sum.split)
qed simp

lemma inventory_keeps:
  assumes "\<And>k name st. Q st \<Longrightarrow> Q (snd (registerOrUpdateDevice disk_ok now k name no_options st))"
    "\<And>st. Q st \<Longrightarrow> Q (snd (load st))" "Q st"
  shows "Q (snd (buildDeviceSummaries disk_ok now localeKey st))" "Q (snd (recover disk_ok now closedAt localeKey st))"
proof -
  have select: "Q (snd (select f st))" if "Q st" for f :: "LocalDbShape \<Rightarrow> 'b" and st
    using assms(2) [OF that] by (simp add: select_def case_prod_unfold)
  have reads: "Q (snd (listOpenDevices localeKey st))" "Q (snd (listKnownDevices st))" "Q (snd (listDevices st))" if "Q st" for st
    using select [OF that] assms(2) [OF that] by (simp_all add: listOpenDevices_def listKnownDevices_def listDevices_def select_def case_prod_unfold)
  show "Q (snd (buildDeviceSummaries disk_ok now localeKey st))"
    using register_missing_keeps [of Q, OF assms(1) reads(3) [OF reads(1) [OF assms(3)]]]
    by (auto simp: buildDeviceSummaries_def Let_def case_prod_unfold split: sum.split)
  show "Q (snd (recover disk_ok now closedAt localeKey st))"
    using recover_from_keeps [of Q, OF assms(1) reads(1) [OF reads(2) [OF assms(3)]]]
    by (simp add: recover_def Let_def case_prod_unfold)
qed

definition store_ok :: "LocalJsonStore \<Rightarrow> bool" where
  "store_ok st \<longleftrightarrow> wf_db (contents st) \<and> store_coherent st"

lemma load_keeps [simp]: "contents (snd (load st)) = contents st" "store_coherent st \<Longrightarrow> store_coherent (snd (load st))"
  using select_facts(2,4) [where f = "\<lambda>x. x" and st = st] by (simp_all add: select_def case_prod_unfold)

lemma store_ok_register: "store_ok st \<Longrightarrow> store_ok (snd (registerOrUpdateDevice disk_ok now k name options st))"
  by (simp add: store_ok_def wf_registered register.run_coherent)

lemma on_store_ok: "(store_ok (sv_store s) \<Longrightarrow> store_ok (snd (f (sv_store s)))) \<Longrightarrow> service_ok s \<Longrightarrow> service_ok (snd (on_store f s))"
  by (simp add: service_ok_def store_ok_def)

lemma service_ok_load: "service_ok s \<Longrightarrow> service_ok (s\<lparr>sv_store := snd (load (sv_store s))\<rparr>)"
  using on_store_ok [of s load] by (simp add: store_ok_def on_store_def case_prod_unfold Let_def)

lemma store_ok_load: "store_ok st \<Longrightarrow> store_ok (snd (load st))"
  by (simp add: store_ok_def)

lemma inventory_service_ok:
  assumes "service_ok s"
  shows "service_ok (snd (on_store (buildDeviceSummaries disk_ok now localeKey) s))"
    "service_ok (snd (on_store (recover disk_ok now closedAt localeKey) s))"
  by (rule on_store_ok [OF _ assms], rule inventory_keeps [of store_ok, OF store_ok_register store_ok_load]; assumption)+

lemma configured_service_ok:
  assumes "service_ok s"
  shows "service_ok (snd (setEnabledMetrics disk_ok k config s))" "service_ok (snd (on_store (setFanNote disk_ok k fan note) s))"
    "service_ok (snd (on_store (reorderDevices disk_ok now ks) s))" "service_ok (snd (on_store (runRetentionCleanup disk_ok now) s))"
  unfolding setEnabledMetrics_def
  by (rule store_only_ok [OF _ _ assms]; simp add: wf_repositories other_coherent wf_cleanup)+

interpretation intact: service_property service_ok "\<lambda>_. True" disk_ok for disk_ok
  by unfold_locales
    (rule service_ok_load getSeries_service inventory_service_ok removeDevice.run_ok configured_service_ok updateGroup_service.run_ok
      ingest.run_ok; assumption)+

lemma request_intact: "service_ok (ap_service h) \<Longrightarrow> service_ok (ap_service (snd (api_handle env now rq call h)))"
  by (rule intact.request_kept [OF refl]) (auto simp: intact.allowed_def split: api_call.split agent_call.split option.split)

subsection \<open>What a request does to the live channel\<close>

definition keeps_live_part :: "'d route \<Rightarrow> bool" where
  "keeps_live_part route \<longleftrightarrow> (\<forall>h. ap_live (snd (route h)) = ap_live h)"

lemma live_part_answer [simp]: "keeps_live_part (\<lambda>h. (reply, h))"
  by (simp add: keeps_live_part_def)

lemma live_part_with_service: "(\<And>x. keeps_live_part (k x)) \<Longrightarrow> keeps_live_part (with_service f k)"
  by (simp add: keeps_live_part_def with_service_def case_prod_unfold Let_def)

lemma live_part_if: "keeps_live_part f \<Longrightarrow> keeps_live_part g \<Longrightarrow> keeps_live_part (\<lambda>h. if c then f h else g h)"
  by (simp add: keeps_live_part_def)

lemma live_part_option: "keeps_live_part f \<Longrightarrow> (\<And>x. keeps_live_part (g x)) \<Longrightarrow> keeps_live_part (\<lambda>h. case v of None \<Rightarrow> f h | Some x \<Rightarrow> g x h)"
  by (cases v) (simp_all add: keeps_live_part_def)

lemma live_part_pair: "(\<And>x y. keeps_live_part (g x y)) \<Longrightarrow> keeps_live_part (\<lambda>h. case v of (x, y) \<Rightarrow> g x y h)"
  by (cases v) (simp add: keeps_live_part_def)

lemma live_part_outcome: "(\<And>x. keeps_live_part (f x)) \<Longrightarrow> (\<And>x. keeps_live_part (g x)) \<Longrightarrow> keeps_live_part (\<lambda>h. case v of Inl x \<Rightarrow> f x h | Inr x \<Rightarrow> g x h)"
  by (cases v) (simp_all add: keeps_live_part_def)

lemmas live_part_rules = live_part_with_service live_part_if live_part_option live_part_pair live_part_outcome live_part_answer

lemma console_live_part:
  assumes "call \<notin> range DeleteDevice"
  shows "keeps_live_part (console_route env now call)"
  using assms
  by (cases call)
    (simp_all add: devices_route_def overview_route_def [abs_def] reorder_route_def [abs_def] group_route_def [abs_def]
      update_group_def [abs_def] device_group_route_def [abs_def] device_route_def metrics_route_def [abs_def] calendar_route_def [abs_def]
      fan_note_route_def [abs_def] get_config_route_def put_config_route_def Let_def live_part_rules)

lemma agent_live_part: "keeps_live_part (agent_route env now call)"
  by (cases call)
    (simp_all add: agent_config_route_def [abs_def] ping_route_def [abs_def] device_state_route_def [abs_def] ingest_route_def [abs_def]
      Let_def live_part_rules)

lemma live_partD: "keeps_live_part route \<Longrightarrow> route h = (reply, h') \<Longrightarrow> ap_live h' = ap_live h"
  by (metis keeps_live_part_def snd_conv)

text \<open>Besides the failure counts, only the removal of a device touches the live part.\<close>

lemma request_live:
  "(\<exists>l. ap_live (snd (api_handle env now rq call h)) = (ap_live h)\<lparr>hl_limiter := l\<rparr>) \<or>
   (\<exists>dev. call = Console (DeleteDevice dev) \<and>
      ap_live (snd (api_handle env now rq call h)) = snd (removeLiveDevice (ae_credentialsDisk env) dev (ap_live h)))"
  (is "?same \<or> ?removal")
proof (cases call)
  case (Console c)
  show ?thesis
  proof (cases "c \<in> range DeleteDevice")
    case True
    then obtain dev where dev: "c = DeleteDevice dev" by blast
    have same: "\<exists>l. ap_live h = (ap_live h)\<lparr>hl_limiter := l\<rparr>" by (rule exI [of _ "limiter_of h"]) simp
    show ?thesis
      using same by (cases "isLegacyVirtualMachineId dev")
        (auto simp: Console dev requireAuth_def delete_route_def with_service_def case_prod_unfold Let_def split: option.split)
  next
    case False
    then have "keeps_live_part (console_route env now c)" using console_live_part by blast
    then have "ap_live (snd (api_handle env now rq call h)) = ap_live h"
      by (auto simp: Console requireAuth_def case_prod_unfold keeps_live_part_def split: option.split)
    then show ?thesis by (auto intro: exI [of _ "limiter_of h"])
  qed
next
  case (Agent c)
  have "ap_live (snd (agent_route env now c h')) = ap_live h'" for h' :: "'a hub"
    using agent_live_part unfolding keeps_live_part_def by blast
  then have ?same
    by (auto simp: Agent agent_gate_def Let_def set_limiter_def split: option.split intro: exI [of _ "limiter_of h"])
  then show ?thesis ..
qed (auto simp: login_route_def logout_route_def session_route_def set_limiter_def Let_def split: option.split
    intro: exI [of _ "limiter_of h"])

subsection \<open>The running hub\<close>

text \<open>The callbacks of the timers, and the two effects of a shutdown: what it does at once, and the flush after the drain.\<close>

definition on_service :: "(MetricsService \<Rightarrow> 'a \<times> MetricsService) \<Rightarrow> 'd hub \<Rightarrow> 'd hub" where
  "on_service f h = h\<lparr>ap_service := snd (f (ap_service h))\<rparr>"

definition offlineTimer :: "api_env \<Rightarrow> int \<Rightarrow> int \<Rightarrow> 'd hub \<Rightarrow> 'd hub" where
  "offlineTimer env timeout now = on_service (performOfflineScan (ae_disk env) timeout now)"

definition aggregateFlushTimer :: "api_env \<Rightarrow> 'd hub \<Rightarrow> 'd hub" where
  "aggregateFlushTimer env = on_service (performAggregateFlush (ae_disk env))"

definition retentionTimer :: "api_env \<Rightarrow> int \<Rightarrow> 'd hub \<Rightarrow> 'd hub" where
  "retentionTimer env now = on_service (on_store (runRetentionCleanup (ae_disk env) now))"

definition recoveryTimer :: "api_env \<Rightarrow> int \<Rightarrow> (nat \<Rightarrow> bool) \<Rightarrow> 'd hub \<Rightarrow> 'd hub" where
  "recoveryTimer env now closedAt = on_service (on_store (recover (ae_disk env) now closedAt (ae_localeKey env)))"

definition shutdown :: "'d hub \<Rightarrow> 'd hub" where
  "shutdown h =
     (if ap_shuttingDown h then h
      else h\<lparr>ap_shuttingDown := True, ap_live := set_registry (ap_live h) (registry_close (hl_registry (ap_live h)))\<rparr>)"

definition shutdown_flush :: "api_env \<Rightarrow> 'd hub \<Rightarrow> 'd hub" where
  "shutdown_flush env = on_service (performAggregateFlush (ae_disk env))"

datatype hub_event = Request api_call | LiveEvent | TimerEvent | ShutdownEvent

inductive run_step :: "api_env \<Rightarrow> hub_event \<Rightarrow> 'd hub \<Rightarrow> 'd hub \<Rightarrow> bool" for env where
  requested: "run_step env (Request call) h (snd (api_handle env now rq call h))"
| live_event: "live_step (ae_sha256 env) (ae_options env) (ap_live h) live \<Longrightarrow> run_step env LiveEvent h (h\<lparr>ap_live := live\<rparr>)"
| scan_due: "\<not> ap_shuttingDown h \<Longrightarrow> run_step env TimerEvent h (offlineTimer env timeout now h)"
| flush_due: "\<not> ap_shuttingDown h \<Longrightarrow> run_step env TimerEvent h (aggregateFlushTimer env h)"
| retention_due: "\<not> ap_shuttingDown h \<Longrightarrow> run_step env TimerEvent h (retentionTimer env now h)"
| recovery_due: "run_step env TimerEvent h (recoveryTimer env now closedAt h)"
| shutting_down: "run_step env ShutdownEvent h (shutdown h)"
| drained: "ap_shuttingDown h \<Longrightarrow> run_step env ShutdownEvent h (shutdown_flush env h)"

text \<open>The hub starts on a store an earlier run left, with no session and no open bucket.\<close>

inductive reachable_run :: "api_env \<Rightarrow> 'd hub \<Rightarrow> bool" for env where
  run_starts: "reachable_store (ae_disk env) st \<Longrightarrow>
    reachable_run env \<lparr>ap_service = new_service st, ap_live = live_init credentials requestMs, ap_shuttingDown = False\<rparr>"
| run_steps: "reachable_run env h \<Longrightarrow> run_step env event h h' \<Longrightarrow> reachable_run env h'"

definition run_ok :: "'d hub \<Rightarrow> bool" where
  "run_ok h \<longleftrightarrow> service_ok (ap_service h) \<and> live_ok (ap_live h)"

lemma removeLiveDevice_ok: "live_ok live \<Longrightarrow> live_ok (snd (removeLiveDevice disk_ok dev live))"
proof -
  assume live: "live_ok live"
  have "live_ok (set_registry (live\<lparr>hl_credentials := c\<rparr>) (registry_closeDevice dev (hl_registry live)))" for c
    using live kept_closeDevice registry_next [OF reachableD [OF live] st_closeDevice] by (intro live_ok_kept) simp_all
  with live show ?thesis by (simp add: removeLiveDevice_def split: prod.split sum.split)
qed

lemma request_live_ok: "live_ok (ap_live h) \<Longrightarrow> live_ok (ap_live (snd (api_handle env now rq call h)))"
  using request_live [of env now rq call h] removeLiveDevice_ok [of "ap_live h"] by auto

lemma timers_ok:
  assumes "service_ok s"
  shows "service_ok (snd (performOfflineScan disk_ok timeout now s))" "service_ok (snd (performAggregateFlush disk_ok s))"
  using assms by (rule offlineScan_service flush_service)+

lemma run_ok_step:
  assumes "run_step env event h h'" "run_ok h"
  shows "run_ok h'"
  using assms(1)
proof cases
  case (requested call now rq)
  with assms(2) show ?thesis by (simp add: run_ok_def request_intact request_live_ok)
next
  case (live_event live)
  with assms(2) live_ok_step [OF live_event(3)] show ?thesis by (simp add: run_ok_def)
next
  case shutting_down
  have "live_ok (set_registry (ap_live h) (registry_close (hl_registry (ap_live h))))" if "live_ok (ap_live h)"
    by (rule live_ok_kept [OF that kept_close registry_next [OF reachableD [OF that] st_close]])
  with assms(2) shutting_down show ?thesis by (simp add: run_ok_def shutdown_def)
qed (use assms(2) in \<open>simp_all add: run_ok_def on_service_def offlineTimer_def aggregateFlushTimer_def retentionTimer_def
    recoveryTimer_def shutdown_flush_def timers_ok inventory_service_ok configured_service_ok del: on_store_facts\<close>)

lemma reachable_run_inv: "reachable_run env h \<Longrightarrow> run_ok h"
proof (induction rule: reachable_run.induct)
  case (run_starts st credentials requestMs)
  have "service_ok (new_service st)"
    by (rule reachable_service_inv [OF reachable_service.boot [OF run_starts]])
  moreover have "live_ok (live_init credentials requestMs)"
    by (rule reachable_live_ok [OF live_starts])
  ultimately show ?case by (simp add: run_ok_def)
next
  case (run_steps h event h')
  then show ?case using run_ok_step by blast
qed

subsection \<open>A removed device\<close>

text \<open>Closed in the registry and without a realtime state.\<close>

definition removed :: "string \<Rightarrow> LocalDbShape \<Rightarrow> bool" where
  "removed dev db \<longleftrightarrow> map_get (db_devices db) dev = None \<and> map_option dv_status (map_get (db_deviceRegistry db) dev) = Some Closed"

definition stays_removed :: "string \<Rightarrow> (MetricsService \<Rightarrow> 'a \<times> MetricsService) \<Rightarrow> bool" where
  "stays_removed dev f \<longleftrightarrow> (\<forall>s. removed dev (db_of s) \<longrightarrow> removed dev (db_of (snd (f s))))"

lemma stays_removed_then: "stays_removed dev f \<Longrightarrow> (\<And>x. stays_removed dev (g x)) \<Longrightarrow> stays_removed dev (then_do f g)"
  unfolding stays_removed_def then_do_def by (auto simp: case_prod_unfold split: sum.split)

lemma stays_removed_store:
  "(\<And>st. removed dev (contents st) \<Longrightarrow> removed dev (contents (snd (f st)))) \<Longrightarrow> stays_removed dev (on_store f)"
  by (simp add: stays_removed_def)

lemma stays_removed_pure: "(\<And>s. sv_store (f s) = sv_store s) \<Longrightarrow> stays_removed dev (\<lambda>s. (r s, f s))"
  by (simp add: stays_removed_def)

lemma stays_removedD: "stays_removed dev f \<Longrightarrow> removed dev (db_of s) \<Longrightarrow> removed dev (db_of (snd (f s)))"
  by (simp add: stays_removed_def)

lemma removed_fields:
  assumes "db_devices db' = db_devices db" "db_deviceRegistry db' = db_deviceRegistry db"
  shows "removed dev db' = removed dev db"
  using assms by (simp add: removed_def)

lemma removed_update:
  "(\<And>db. removed dev db \<Longrightarrow> removed dev (f db)) \<Longrightarrow> removed dev (contents st) \<Longrightarrow> removed dev (contents (snd (update disk_ok f st)))"
  by (simp add: update_facts)

lemma removed_histories:
  assumes "removed dev (contents st)"
  shows "removed dev (contents (snd (appendSeries disk_ok k w p n st)))" "removed dev (contents (snd (insertMinutePoint disk_ok k p st)))"
    "removed dev (contents (snd (insertHourlyPoint disk_ok k p st)))" "removed dev (contents (snd (runRetentionCleanup disk_ok now st)))"
    "removed dev (contents (snd (setFanNote disk_ok k fan note st)))" "removed dev (contents (snd (setConfig disk_ok k config st)))"
  using assms unfolding appendSeries_def insertMinutePoint_def insertHourlyPoint_def runRetentionCleanup_def setFanNote_def setConfig_def Let_def
  by (simp_all add: update_facts removed_def)

lemma status_fold:
  "(\<And>d. dv_status (f d) = dv_status d) \<Longrightarrow>
    map_option dv_status (map_get (fold (modify_record f) ks m) k) = map_option dv_status (map_get m k)"
  by (induction ks arbitrary: m) (simp_all add: map_get_modify option.map_comp comp_def)

lemma removed_registers:
  assumes "removed dev (contents st)"
  shows "removed dev (contents (snd (reorderDevices disk_ok now ks st)))" "removed dev (contents (snd (deleteDevice disk_ok now k st)))"
    "removed dev (contents (snd (remove_device disk_ok k st)))" "removed dev (contents (snd (updateDeviceGroup disk_ok now ks name st)))"
    "removed dev (contents (snd (markOfflineIfMatch disk_ok k seen state st)))"
    "id_deviceId (rs_identity state) \<noteq> dev \<Longrightarrow> removed dev (contents (snd (upsert disk_ok state st)))"
proof -
  show "removed dev (contents (snd (reorderDevices disk_ok now ks st)))"
    using assms by (simp add: reorderDevices_def update_facts removed_def status_reorder del: map_option_eq_Some)
  show "removed dev (contents (snd (updateDeviceGroup disk_ok now ks name st)))"
    using assms by (simp add: updateDeviceGroup_def Let_def commit_contents removed_def status_fold del: map_option_eq_Some split: option.split)
qed (use assms in \<open>auto simp: deleteDevice_def remove_device_def markOfflineIfMatch_def upsert_def close_device_def update_facts
    commit_contents removed_def Let_def split: option.splits\<close>)

lemma removed_registration:
  assumes "removed dev (contents st)" "k \<noteq> dev \<or> options = no_options"
  shows "removed dev (contents (snd (registerOrUpdateDevice disk_ok now k name options st)))"
proof -
  have "map_get (db_deviceRegistry (contents (snd (registerOrUpdateDevice disk_ok now k name options st)))) dev =
      map_get (db_deviceRegistry (contents st)) dev"
  proof (cases "k = dev")
    case True
    with assms have opts: "options = no_options" by simp
    obtain r st' where r: "registerOrUpdateDevice disk_ok now k name no_options st = (r, st')" by fastforce
    have "contents st' = contents st" if "\<not> isLegacyVirtualMachineId k"
      using register.failure_keeps [of disk_ok now k name no_options st] registering [of disk_ok now k name st _ st'] r assms(1) that
      by (cases r) (auto simp: removed_def True split: option.splits)
    moreover have "contents st' = contents st" if "isLegacyVirtualMachineId k"
      using r that by (auto simp: registerOrUpdateDevice_def)
    ultimately have "contents st' = contents st" by blast
    then show ?thesis using r by (simp add: opts)
  qed (rule register_keeps_others, simp)
  with assms(1) show ?thesis by (simp add: removed_def register_keeps_devices)
qed

lemma persist_removed: "stays_removed dev (persist_accumulator tier disk_ok k r)"
  unfolding stays_removed_def persist_accumulator_def
  by (cases tier) (auto simp: case_prod_unfold Let_def removed_histories split: option.split sum.split)

lemma bucket_store [simp]: "sv_store (open_bucket tier k p s) = sv_store s" "sv_store (extend_bucket tier r acc p s) = sv_store s"
  "sv_store (drop_accumulators k s) = sv_store s" "sv_store (emitDeviceEventSafely ev s) = sv_store s"
  by (cases tier; simp add: open_bucket_def extend_bucket_def drop_accumulators_def emitDeviceEventSafely_def Let_def)+

lemma aggregate_removed: "stays_removed dev (add_aggregate tier disk_ok k p)"
proof -
  have "stays_removed dev (then_do (if b then persist_accumulator tier disk_ok k r else (\<lambda>s. (Inr (), s))) (\<lambda>_ s. (Inr (), open_bucket tier k p s)))" for b r
    by (rule stays_removed_then) (simp_all add: persist_removed stays_removed_pure)
  then show ?thesis
    unfolding stays_removed_def add_aggregate_def by (auto split: option.split prod.split)
qed

lemma append_removed: "stays_removed dev (append_windows disk_ok k p)"
  by (simp add: stays_removed_def append_windows_def case_prod_unfold Let_def removed_histories)

lemma store_point_removed:
  assumes "id_deviceId (rs_identity state) \<noteq> dev"
  shows "stays_removed dev (store_point disk_ok payload state p)"
  unfolding store_point_def Let_def addMinuteAggregate_def addHourlyAggregate_def
  by (intro stays_removed_then append_removed aggregate_removed stays_removed_store removed_registers assms)

lemma persistPayload_removed:
  assumes "id_deviceId (pa_identity payload) \<noteq> dev"
  shows "stays_removed dev (persistPayload disk_ok payload now so g)"
proof -
  have publish: "stays_removed dev (then_do (store_point disk_ok payload (realtime_state payload now) point)
      (\<lambda>_ s. (Inr (), emitDeviceEventSafely (payload_event (realtime_state payload now) so g) s)))" for point
    by (intro stays_removed_then stays_removed_pure store_point_removed) (simp_all add: assms)
  show ?thesis
    unfolding stays_removed_def
  proof (intro allI impI)
    fix s assume s: "removed dev (db_of s)"
    define s2 where "s2 = snd (getMetricConfig (id_deviceId (pa_identity payload)) (snd (on_store (getDevice (id_deviceId (pa_identity payload))) s)))"
    have "db_of s2 = db_of s" by (simp add: s2_def getMetricConfig_def getConfig_def getDevice_def case_prod_unfold Let_def)
    with s show "removed dev (db_of (snd (persistPayload disk_ok payload now so g s)))"
      unfolding persistPayload_def Let_def case_prod_unfold s2_def [symmetric]
      by (auto split: option.split intro!: stays_removedD [OF publish])
  qed
qed

lemma ingest_removed:
  assumes "id_deviceId (pa_identity payload) \<noteq> dev"
  shows "stays_removed dev (ingest disk_ok now payload)"
  unfolding ingest_def
  by (intro stays_removed_then stays_removed_store removed_registration)
    (use assms in \<open>simp_all add: stays_removed_def stays_removedD [OF persistPayload_removed]\<close>)

text \<open>What \<open>performRemoveDevice\<close> does once the device is closed in the registry.\<close>

definition removal_tail :: "disk \<Rightarrow> string \<Rightarrow> unit service_op" where
  "removal_tail disk_ok k s0 =
     (let (state, s1) = on_store (getDevice k) s0; s2 = drop_accumulators k s1
      in then_do (on_store (remove_device disk_ok k)) (\<lambda>_ s. (Inr (), case state of
             None \<Rightarrow> s
           | Some st \<Rightarrow> emitDeviceEventSafely \<lparr>ev_deviceId = k, ev_summary = toSummary (st\<lparr>rs_status := Offline\<rparr>), ev_removed = True\<rparr> s)) s2)"

lemma removal_split:
  "performRemoveDevice disk_ok now k revoked =
     then_do (\<lambda>s. (revoked, s)) (\<lambda>_. then_do (on_store (deleteDevice disk_ok now k)) (\<lambda>_. removal_tail disk_ok k))"
  by (simp add: performRemoveDevice_def removal_tail_def [abs_def])

lemma tail_removed: "stays_removed dev (removal_tail disk_ok k)"
proof -
  have "stays_removed dev (then_do (on_store (remove_device disk_ok k)) (\<lambda>_ s. (Inr (), case state of None \<Rightarrow> s
      | Some st \<Rightarrow> emitDeviceEventSafely \<lparr>ev_deviceId = k, ev_summary = toSummary (st\<lparr>rs_status := Offline\<rparr>), ev_removed = True\<rparr> s)))" for state
    by (intro stays_removed_then stays_removed_store removed_registers stays_removed_pure) (simp_all split: option.split)
  note store = stays_removedD [OF this]
  show ?thesis
    unfolding stays_removed_def removal_tail_def Let_def case_prod_unfold
    by (intro allI impI store) (simp add: getDevice_def)
qed

lemma removal_removed: "stays_removed dev (performRemoveDevice disk_ok now k revoked)"
  unfolding removal_split
  by (intro stays_removed_then stays_removed_store removed_registers tail_removed) (simp_all add: stays_removed_def)

lemma announce_store: "db_of (announce_group k s) = db_of s" "db_of (announce_offline st s) = db_of s"
  by (simp_all add: announce_group_def announce_offline_def getDevice_def getOpenDevice_def case_prod_unfold Let_def split: option.split)

lemma grouping_removed: "stays_removed dev (service_updateDeviceGroup disk_ok now ks g)"
proof -
  have "db_of (fold announce_group xs s) = db_of s" for xs s
    by (induction xs arbitrary: s) (simp_all add: announce_store)
  then show ?thesis
    unfolding service_updateDeviceGroup_def Let_def
    by (intro stays_removed_then stays_removed_store removed_registers) (auto simp: stays_removed_def)
qed

lemma for_each_removed:
  assumes "\<And>x. stays_removed dev (f x)"
  shows "stays_removed dev (for_each f xs)"
proof -
  define g where "g = (\<lambda>item (failures, s). case f item s of (Inl e, s') \<Rightarrow> (failures @ [e], s') | (Inr _, s') \<Rightarrow> (failures, s'))"
  have step: "removed dev (db_of (snd (g x (fs, s))))" if "removed dev (db_of s)" for x fs s
    using stays_removedD [OF assms that, of x] by (simp add: g_def case_prod_unfold split: sum.split)
  have "removed dev (db_of (snd (fold g xs (fs, s))))" if "removed dev (db_of s)" for fs s
    using that
  proof (induction xs arbitrary: fs s)
    case (Cons x xs)
    obtain fs' s' where "g x (fs, s) = (fs', s')" by fastforce
    with Cons.IH [of s' fs'] step [OF Cons.prems, of x fs] show ?case by simp
  qed simp
  then show ?thesis by (simp add: stays_removed_def for_each_def flip: g_def)
qed

lemma timers_removed:
  shows "stays_removed dev (performOfflineScan disk_ok timeout now)" "stays_removed dev (performAggregateFlush disk_ok)"
proof -
  have "stays_removed dev (then_do (on_store (markOfflineIfMatch disk_ok k seen state)) (\<lambda>marked s. (Inr (), if marked then announce_offline state s else s)))"
    for k seen state
    by (intro stays_removed_then stays_removed_store removed_registers) (simp_all add: stays_removed_def announce_store)
  then have "stays_removed dev (scan_device disk_ok timeout now device)" for device
    by (simp add: stays_removed_def scan_device_def Let_def)
  then have "stays_removed dev (for_each (scan_device disk_ok timeout now) xs)" for xs
    by (rule for_each_removed)
  from stays_removedD [OF this] show "stays_removed dev (performOfflineScan disk_ok timeout now)"
    by (simp add: stays_removed_def performOfflineScan_def case_prod_unfold Let_def listDevices_def)
  have "stays_removed dev (flush_tier tier disk_ok k)" for tier k
    using stays_removedD [OF persist_removed] by (auto simp: stays_removed_def flush_tier_def split: option.split)
  then have "stays_removed dev (for_each (\<lambda>(deviceId, tier). flush_tier tier disk_ok deviceId) xs)" for xs
    by (intro for_each_removed) (auto simp: case_prod_unfold)
  then show "stays_removed dev (performAggregateFlush disk_ok)"
    by (simp add: stays_removed_def performAggregateFlush_def)
qed

lemma inventory_removed:
  "stays_removed dev (on_store (buildDeviceSummaries disk_ok now localeKey))" "stays_removed dev (on_store (recover disk_ok now closedAt localeKey))"
  by (rule stays_removed_store, rule inventory_keeps [of "\<lambda>st. removed dev (contents st)"]; simp add: removed_registration)+

lemma series_store: "db_of (snd (getSeries now k w s)) = db_of s"
  by (simp add: getSeries_def readLiveSeries_def withCurrentMinuteAggregate_def withCurrentHourlyAggregate_def with_current_aggregate_def
      readSeries_def getHistoricalSeries_def case_prod_unfold Let_def split: option.split)

lemma settings_removed:
  "stays_removed dev (setEnabledMetrics disk_ok k config)" "stays_removed dev (on_store (setFanNote disk_ok k fan note))"
  "stays_removed dev (on_store (reorderDevices disk_ok now ks))" "stays_removed dev (on_store (runRetentionCleanup disk_ok now))"
  unfolding setEnabledMetrics_def by (rule stays_removed_store, simp add: removed_histories removed_registers)+

lemmas removed_operations = settings_removed removal_removed grouping_removed inventory_removed timers_removed

interpretation gone: service_property "\<lambda>s. removed dev (db_of s)" "\<lambda>k. k \<noteq> dev" disk_ok for dev disk_ok
  by unfold_locales
    (simp_all add: series_store stays_removedD [OF ingest_removed] removed_operations [THEN stays_removedD] del: on_store_facts)

subsection \<open>What a removal promises\<close>

text \<open>A step in which the device neither reports nor enrols again.\<close>

definition reports :: "string \<Rightarrow> hub_event \<Rightarrow> bool" where
  "reports dev event =
     (case event of Request (Agent (Ingest _ (Some payload))) \<Rightarrow> id_deviceId (pa_identity payload) = dev | _ \<Rightarrow> False)"

definition step_without :: "api_env \<Rightarrow> string \<Rightarrow> 'd hub \<Rightarrow> 'd hub \<Rightarrow> bool" where
  "step_without env dev h h' \<longleftrightarrow>
     (\<exists>event. run_step env event h h' \<and> \<not> reports dev event) \<and> map_get (ag_records (hl_credentials (ap_live h'))) dev = None"

definition gone_from :: "string \<Rightarrow> 'd hub \<Rightarrow> bool" where
  "gone_from dev h \<longleftrightarrow> removed dev (db_of (ap_service h)) \<and> unbound dev (ap_live h)"

lemma removed_step:
  assumes "run_step env event h h'" "\<not> reports dev event" "removed dev (db_of (ap_service h))"
  shows "removed dev (db_of (ap_service h'))"
  using assms(1)
proof cases
  case (requested call now rq)
  have "gone.allowed dev call"
    using assms(2) requested by (auto simp: gone.allowed_def reports_def split: api_call.splits agent_call.splits option.splits)
  from gone.request_kept [OF refl this assms(3)] requested show ?thesis by simp
qed (use assms(3) in \<open>simp_all add: on_service_def offlineTimer_def aggregateFlushTimer_def retentionTimer_def recoveryTimer_def
    shutdown_flush_def shutdown_def removed_operations [THEN stays_removedD] del: on_store_facts\<close>)

lemma removeLive_owners: "owners_kept (hl_registry live) (hl_registry (snd (removeLiveDevice disk_ok dev live)))"
  by (simp add: removeLiveDevice_def kept_owners [OF kept_closeDevice] split: prod.split sum.split)

lemma disowned_step:
  assumes "run_step env event h h'" "unbound dev (ap_live h)"
  shows "map_get (lr_sessions (hl_registry (ap_live h'))) dev = None"
  using assms(1)
proof cases
  case (requested call now rq)
  have "owners_kept (hl_registry (ap_live h)) (hl_registry (ap_live h'))"
    using request_live [of env now rq call h] requested(2) removeLive_owners [of "ap_live h"] by auto
  then show ?thesis by (rule unbound_owners [OF assms(2)])
next
  case (live_event live)
  with step_unbound [OF live_event(3) assms(2)] show ?thesis by simp
next
  case shutting_down
  have "owners_kept (hl_registry (ap_live h)) (registry_close (hl_registry (ap_live h)))"
    by (rule kept_owners [OF kept_close])
  from unbound_owners [OF assms(2) this] assms(2) shutting_down show ?thesis
    by (auto simp: shutdown_def unbound_def)
qed (use assms(2) in \<open>simp_all add: unbound_def on_service_def offlineTimer_def aggregateFlushTimer_def retentionTimer_def recoveryTimer_def
    shutdown_flush_def\<close>)

lemma gone_run: "(step_without env dev)\<^sup>*\<^sup>* h h' \<Longrightarrow> gone_from dev h \<Longrightarrow> gone_from dev h'"
proof (induction rule: rtranclp_induct)
  case (step h' h'')
  then obtain event where "run_step env event h' h''" "\<not> reports dev event" "map_get (ag_records (hl_credentials (ap_live h''))) dev = None"
    unfolding step_without_def by blast
  moreover have "gone_from dev h'" using step by blast
  ultimately show ?case
    using removed_step [of env event h' h'' dev] disowned_step [of env event h' h'' dev] unfolding gone_from_def unbound_def by simp
qed

lemma then_do_result: "then_do f g s = (Inr y, s') \<Longrightarrow> \<exists>x s1. f s = (Inr x, s1) \<and> g x s1 = (Inr y, s')"
  by (auto simp: then_do_def split: prod.splits sum.splits)

lemma removal_removes:
  assumes "performRemoveDevice disk_ok now dev revoked s = (Inr u, s')" "\<not> isLegacyVirtualMachineId dev"
  shows "revoked = Inr () \<and> removed dev (db_of s')"
proof -
  from assms(1) [unfolded removal_split] obtain s1 where revoked: "revoked = Inr ()"
    and deleted: "on_store (deleteDevice disk_ok now dev) s = (Inr (), s1)" and rest: "removal_tail disk_ok dev s1 = (Inr u, s')"
    by (auto dest!: then_do_result)
  have "fst (on_store (deleteDevice disk_ok now dev) s) = Inr ()" "s1 = snd (on_store (deleteDevice disk_ok now dev) s)"
    using deleted by simp_all
  then have "removed dev (db_of s1)"
    using assms(2) by (auto simp: deleteDevice_def update_facts removed_def close_device_def Let_def split: if_splits option.splits)
  from stays_removedD [OF tail_removed this] rest revoked show ?thesis by (metis snd_conv)
qed

lemma removeLive_unbinds:
  assumes "live_ok live" "removeLiveDevice disk_ok dev live = (Inr u, live')"
  shows "unbound dev live'"
proof -
  obtain c where c: "remove_credential disk_ok dev (hl_credentials live) = (Inr (), c)"
    and live': "live' = live\<lparr>hl_credentials := c, hl_registry := registry_closeDevice dev (hl_registry live)\<rparr>"
    using assms(2) by (auto simp: removeLiveDevice_def split: prod.splits sum.splits)
  have "map_get (ag_records c) dev = None"
    using c by (auto simp: remove_credential_def persist_def Let_def split: if_splits prod.splits)
  with closeDevice_disowns [OF reachable_registry_ok [OF reachableD [OF assms(1)]], of dev] show ?thesis
    by (simp add: unbound_def live')
qed

lemma delete_succeeds:
  assumes "run_ok h" "api_handle env now rq (Console (DeleteDevice dev)) h = (reply, h')" "rp_status reply = 200"
  shows "gone_from dev h'"
proof -
  have legacy: "\<not> isLegacyVirtualMachineId dev" and session: "getSession env now rq \<noteq> None"
    using assms(2,3) by (auto simp: requireAuth_def delete_route_def refuse_def split: option.splits if_splits)
  obtain revoked live where live: "removeLiveDevice (ae_credentialsDisk env) dev (ap_live h) = (revoked, live)" by fastforce
  obtain r s where r: "performRemoveDevice (ae_disk env) now dev revoked (ap_service h) = (r, s)" by fastforce
  have h': "h' = h\<lparr>ap_live := live, ap_service := s\<rparr>" "\<exists>u. r = Inr u"
    using assms(2,3) legacy session
    by (auto simp: requireAuth_def delete_route_def with_service_def live r server_error_def refuse_def split: option.splits sum.splits)
  then obtain u where u: "r = Inr u" by blast
  from removal_removes [OF r [unfolded u] legacy] have "revoked = Inr ()" "removed dev (db_of s)" by simp_all
  moreover have "unbound dev live"
    using removeLive_unbinds [of "ap_live h"] live assms(1) calculation(1) by (simp add: run_ok_def)
  ultimately show ?thesis by (simp add: gone_from_def h'(1))
qed

text \<open>
  The requests that read a device or set something about it: every kind but its removal and the writes that look at no
  device (the note of a fan, the order of the list).  Bodies that the schemas or the rules for group names refuse are
  answered 400 before the device is looked up.
\<close>

definition group_permitted :: "string option \<Rightarrow> bool" where
  "group_permitted g \<longleftrightarrow> \<not> (truthy (normalizeDeviceGroupName g) \<and> isReservedDeviceGroupName (the (normalizeDeviceGroupName g)))"

definition asks_for :: "string \<Rightarrow> console_call \<Rightarrow> bool" where
  "asks_for dev call =
     (case call of
        SetGroup k (Some g) \<Rightarrow> k = dev \<and> group_permitted g
      | SetGroups (Some (ks, g)) \<Rightarrow> dev \<in> set ks \<and> [] \<notin> set ks \<and> \<not> list_ex isLegacyVirtualMachineId ks \<and> group_permitted g
      | DeviceInfo k \<Rightarrow> k = dev
      | DeviceMetrics k query \<Rightarrow> k = dev \<and> query \<noteq> None
      | Calendar k query \<Rightarrow> k = dev \<and> query \<noteq> None
      | ReadConfig k \<Rightarrow> k = dev
      | WriteConfig k _ \<Rightarrow> k = dev
      | _ \<Rightarrow> False)"

lemma removed_not_open:
  assumes "removed dev (db_of s)" "wf_db (db_of s)"
  shows "fst (on_store (getOpenDevice dev) s) = None" "dev \<notin> set (map dv_deviceId (fst (on_store (listOpenDevices key) s)))"
proof -
  show "fst (on_store (getOpenDevice dev) s) = None"
    using assms(1) by (auto simp: getOpenDevice_def removed_def split: option.split)
  have "map_get (db_deviceRegistry (db_of s)) (dv_deviceId d) = Some d" if "d \<in> set (map_values (db_deviceRegistry (db_of s)))" for d
    using that wf_db_registry [OF assms(2)] by (auto simp: LocalStore.registry_ok_def intro!: map_of_is_SomeI)
  then have "dv_status d \<noteq> Open" if "d \<in> set (map_values (db_deviceRegistry (db_of s)))" "dv_deviceId d = dev" for d
    using that assms(1) by (fastforce simp: removed_def)
  then show "dev \<notin> set (map dv_deviceId (fst (on_store (listOpenDevices key) s)))"
    by (fastforce simp: listOpenDevices_def open_devices_def)
qed

lemma removed_ungrouped:
  assumes "removed dev (db_of (ap_service h))" "wf_db (db_of (ap_service h))"
  shows "group_permitted g \<Longrightarrow> fst (device_group_route env now dev (Some g) h) = refuse 404 ''device_not_found''"
    and "dev \<in> set ks \<Longrightarrow> [] \<notin> set ks \<Longrightarrow> \<not> list_ex isLegacyVirtualMachineId ks \<Longrightarrow> group_permitted g \<Longrightarrow>
      fst (group_route env now (Some (ks, g)) h) = refuse 404 ''device_not_found''"
proof -
  note gone = removed_not_open [OF assms]
  obtain s1 where get: "on_store (getOpenDevice dev) (ap_service h) = (None, s1)"
    using gone(1) by (metis prod.collapse)
  have s1: "db_of s1 = db_of (ap_service h)"
    using arg_cong [OF get, of "\<lambda>x. db_of (snd x)"] by (simp add: getOpenDevice_def)
  have "List.find (\<lambda>d. dv_deviceId d = dev) (fst (on_store (listOpenDevices (ae_localeKey env)) s1)) = None"
    using removed_not_open(2) [of dev s1 "ae_localeKey env"] assms by (auto simp: s1 find_None_iff)
  then show "fst (device_group_route env now dev (Some g) h) = refuse 404 ''device_not_found''" if "group_permitted g"
    using that get
    by (simp only: device_group_route_def group_permitted_def with_service_def Let_def case_prod_unfold option.case fst_conv snd_conv if_False
        simp_thms if_True split: if_split) simp
  show "fst (group_route env now (Some (ks, g)) h) = refuse 404 ''device_not_found''"
    if ks: "dev \<in> set ks" "[] \<notin> set ks" "\<not> list_ex isLegacyVirtualMachineId ks" "group_permitted g"
  proof -
    let ?missing = "List.find (\<lambda>k. k \<notin> set (map dv_deviceId (fst (on_store (listOpenDevices (ae_localeKey env)) (ap_service h))))) (js_uniq ks)"
    have member: "k \<in> set xs" if "List.find P xs = Some k" for P k and xs :: "string list"
      using that by (induction xs) (auto split: if_splits)
    have "dev \<in> set (js_uniq ks)" using ks(1) by simp
    then obtain k where k: "?missing = Some k"
      using gone(2) [of "ae_localeKey env"] by (cases ?missing) (auto simp only: find_None_iff)
    then have "k \<in> set ks" using member [OF k] by simp
    then have "truthy ?missing" using k ks(2) by (simp only: truthy_simps) blast
    then show ?thesis
      using ks(3,4)
      by (simp only: group_route_def group_permitted_def with_service_def Let_def case_prod_unfold option.case fst_conv snd_conv if_False if_True)
  qed
qed

lemma removed_unknown:
  assumes "removed dev (db_of (ap_service h))" "wf_db (db_of (ap_service h))"
  shows "asks_for dev call \<Longrightarrow> fst (console_route env now call h) = refuse 404 ''device_not_found''"
    "fst (agent_route env now (DeviceState (Some dev)) h) = refuse 404 ''device_not_found''"
proof -
  have none: "fst (on_store (getDevice dev) s) = None" if "s = ap_service h" for s
    using assms(1) that by (simp add: getDevice_def removed_def)
  show "fst (agent_route env now (DeviceState (Some dev)) h) = refuse 404 ''device_not_found''"
    by (simp add: device_state_route_def with_service_def case_prod_unfold none del: on_store_facts)
  show "fst (console_route env now call h) = refuse 404 ''device_not_found''" if "asks_for dev call"
    using that removed_ungrouped [OF assms]
    by (cases call) (auto simp: asks_for_def device_route_def metrics_route_def calendar_route_def get_config_route_def put_config_route_def
        with_service_def case_prod_unfold none simp del: on_store_facts split: option.splits)
qed

lemma removed_unlisted:
  assumes "run_ok h" "removed dev (db_of (ap_service h))" "fst (console_route env now ListDevices h) = answer (SummariesBody summaries)"
  shows "dev \<notin> set (map sm_deviceId summaries)"
proof -
  let ?s = "ap_service h" and ?list = "buildDeviceSummaries (ae_disk env) now (ae_localeKey env)"
  obtain r st where run: "?list (sv_store ?s) = (r, st)" by fastforce
  with assms(3) have r: "r = Inr summaries"
    by (auto simp: devices_route_def with_service_def on_store_def answer_def server_error_def refuse_def split: sum.splits)
  have "wf_db (db_of ?s)" using assms(1) by (simp add: run_ok_def service_ok_def)
  from inventory_listing [OF this run [unfolded r]]
  have listed: "set (map sm_deviceId summaries) = open_ids (contents st)" by blast
  have "removed dev (contents st)"
    using stays_removedD [OF inventory_removed(1) assms(2), of "ae_disk env" now "ae_localeKey env"] run by (simp add: on_store_def)
  then have "dev \<notin> open_ids (contents st)" by (auto simp: removed_def open_ids_def)
  with listed show ?thesis by simp
qed

lemma run_ok_run:
  assumes "(step_without env dev)\<^sup>*\<^sup>* h h'" "run_ok h"
  shows "run_ok h'"
  using assms
proof (induction rule: rtranclp_induct)
  case (step h' h'')
  then obtain event where "run_step env event h' h''" unfolding step_without_def by blast
  from run_ok_step [OF this] step show ?case by blast
qed

text \<open>
  C6: a device the console removed stays removed: after the removal was answered with success, whatever requests, timers,
  recoveries and live events follow, the device is not listed, a well-formed request that reads it or sets its group or
  configuration is answered 404, no session owns it and no connection for it is accepted, until it reports or enrols again, both of which
  take the access key.  The requests that follow include those the hub still takes for any identifier, removed or not
  (notes of fans, orders, configurations sent by agents, repeated removals): none of them brings the device back.
\<close>

theorem removed_stays_removed:
  assumes "reachable_run env h" "api_handle env now rq (Console (DeleteDevice dev)) h = (reply, h1)" "rp_status reply = 200"
    "(step_without env dev)\<^sup>*\<^sup>* h1 h2"
  shows "(asks_for dev call \<longrightarrow> fst (console_route env now2 call h2) = refuse 404 ''device_not_found'') \<and>
    fst (agent_route env now2 (DeviceState (Some dev)) h2) = refuse 404 ''device_not_found'' \<and>
    (fst (console_route env now2 ListDevices h2) = answer (SummariesBody summaries) \<longrightarrow> dev \<notin> set (map sm_deviceId summaries)) \<and>
    map_get (lr_sessions (hl_registry (ap_live h2))) dev = None \<and>
    (rq_deviceId arq = Some dev \<longrightarrow> (\<exists>err. fst (realtime_connect (ae_sha256 env) (ae_options env) now2 lenv arq (ap_live h2)) = Inl err))"
proof -
  have ok: "run_ok h" by (rule reachable_run_inv [OF assms(1)])
  have "run_step env (Request (Console (DeleteDevice dev))) h h1"
    using requested [of env "Console (DeleteDevice dev)" h now rq] assms(2) by simp
  then have ok2: "run_ok h2"
    using run_ok_run [OF assms(4)] run_ok_step ok by blast
  then have wf: "wf_db (db_of (ap_service h2))" by (simp add: run_ok_def service_ok_def)
  have "gone_from dev h2"
    by (rule gone_run [OF assms(4) delete_succeeds [OF ok assms(2,3)]])
  then have g: "removed dev (db_of (ap_service h2))" "unbound dev (ap_live h2)" by (simp_all add: gone_from_def)
  show ?thesis
    using removed_unknown [OF g(1) wf] removed_unlisted [OF ok2 g(1)] connect_unbound(2) [OF g(2)] g(2) by (simp add: unbound_def)
qed

text \<open>
  C8: however requests, live events, timers and the shutdown interleave, the hub stays intact: every accumulator holds
  samples of its own bucket only, the memoised aggregates are current, the store is well formed and is what a restart
  would read, and the live registry is in a state its operations allow.
\<close>

theorem reachable_run_ok:
  assumes "reachable_run env h"
  shows "service_ok (ap_service h) \<and> live_ok (ap_live h)"
  using reachable_run_inv [OF assms] by (simp add: run_ok_def)

subsection \<open>A removal, end to end\<close>

definition demo_api :: api_env where
  "demo_api = \<lparr>ae_options = demo_options, ae_sha256 = demo_digest, ae_unsign = Some,
     ae_decode = (\<lambda>_. let s = createSession demo_digest ''key'' 0 in Some \<lparr>rw_issuedAt = Some (se_issuedAt s), rw_expiresAt = Some (se_expiresAt s),
       rw_credentialVersion = Some (se_credentialVersion s)\<rparr>),
     ae_localeKey = (\<lambda>_. 0), ae_disk = (\<lambda>_. True), ae_credentialsDisk = True\<rparr>"

definition demo_browser :: http_request where
  "demo_browser = \<lparr>hr_ip = ''10.0.0.2'', hr_https = True, hr_authorization = None, hr_cookie = Some ''cookie''\<rparr>"

definition demo_running :: "string hub" where
  "demo_running = \<lparr>ap_service = demo_service, ap_live = live_init demo_credentials 5000, ap_shuttingDown = False\<rparr>"

definition demo_removed :: "string hub" where
  "demo_removed = snd (api_handle demo_api 5 demo_browser (Console (DeleteDevice ''host-a'')) demo_running)"

lemma demo_session: "getSession demo_api 5 demo_browser \<noteq> None"
  by (simp add: getSession_def demo_browser_def demo_api_def parseSessionValue_def createSession_def credentialVersion_def Date_parse_demo
      SESSION_IDLE_TTL_MS_def SESSION_ABSOLUTE_TTL_MS_def msPerDay_def demo_options_def safeEqual_def list.rel_refl Let_def truthy_def)

lemma demo_running_reachable: "reachable_run demo_api demo_running"
  unfolding demo_running_def demo_service_def
  by (intro reachable_run.run_starts) (simp add: demo_api_def reachable_store.upserted [OF reachable_store.start])

lemma demo_revoked: "\<exists>live. removeLiveDevice True ''host-a'' (live_init demo_credentials 5000) = (Inr (), live)"
  by (simp add: removeLiveDevice_def remove_credential_def live_init_def demo_record Let_def)

lemma demo_performed: "\<exists>s. performRemoveDevice (\<lambda>_. True) 5 ''host-a'' (Inr ()) demo_service = (Inr (), s)"
proof -
  have ok: "\<exists>s'. on_store (update (\<lambda>_. True) f) s = (Inr (), s')" for f s
    by (simp add: on_store_def case_prod_unfold Let_def update_facts)
  have "\<exists>s'. removal_tail (\<lambda>_. True) k s = (Inr (), s')" for k s
    by (simp add: removal_tail_def remove_device_def then_do_def case_prod_unfold Let_def update_facts)
  moreover have "\<exists>s'. on_store (deleteDevice (\<lambda>_. True) 5 ''host-a'') demo_service = (Inr (), s')"
    using ok by (simp add: deleteDevice_def [abs_def] isLegacyVirtualMachineId_def LEGACY_VM_PREFIX_def)
  ultimately show ?thesis
    unfolding removal_split by (auto simp: then_do_def)
qed

lemma demo_deleted: "rp_status (fst (api_handle demo_api 5 demo_browser (Console (DeleteDevice ''host-a'')) demo_running)) = 200"
proof -
  obtain live s where "removeLiveDevice True ''host-a'' (live_init demo_credentials 5000 :: string live_hub) = (Inr (), live)"
    "performRemoveDevice (\<lambda>_. True) 5 ''host-a'' (Inr ()) demo_service = (Inr (), s)"
    using demo_revoked demo_performed by blast
  then have "fst (delete_route demo_api 5 ''host-a'' demo_running) = answer OkBody"
    by (simp add: delete_route_def demo_running_def isLegacyVirtualMachineId_def LEGACY_VM_PREFIX_def demo_api_def with_service_def)
  then show ?thesis
    using demo_session by (auto simp: requireAuth_def answer_def case_prod_unfold)
qed

theorem removed_stays_removed_witness:
  "fst (console_route demo_api 9 (DeviceInfo ''host-a'') (recoveryTimer demo_api 7 (\<lambda>_. False) demo_removed)) = refuse 404 ''device_not_found''"
proof -
  obtain reply where run: "api_handle demo_api 5 demo_browser (Console (DeleteDevice ''host-a'')) demo_running = (reply, demo_removed)"
    unfolding demo_removed_def by (metis prod.collapse)
  then have ok: "rp_status reply = 200" using demo_deleted by simp
  have "gone_from ''host-a'' demo_removed"
    by (rule delete_succeeds [OF reachable_run_inv [OF demo_running_reachable] run ok])
  then have "step_without demo_api ''host-a'' demo_removed (recoveryTimer demo_api 7 (\<lambda>_. False) demo_removed)"
    unfolding step_without_def using recovery_due [of demo_api demo_removed 7 "\<lambda>_. False"]
    by (auto simp: gone_from_def unbound_def recoveryTimer_def on_service_def reports_def intro!: exI [of _ TimerEvent])
  from removed_stays_removed [OF demo_running_reachable run ok r_into_rtranclp [of "step_without demo_api ''host-a''", OF this],
      of "DeviceInfo ''host-a''" 9]
  show ?thesis by (simp add: asks_for_def)
qed

theorem reachable_run_ok_witness: "service_ok (ap_service demo_removed) \<and> live_ok (ap_live demo_removed)"
  unfolding demo_removed_def
  by (rule reachable_run_ok [OF reachable_run.run_steps [OF demo_running_reachable requested]])

text \<open>A request with a wrong cookie signature, for the witness of the guard.\<close>

theorem access_is_guarded_witness:
  "\<exists>reply h'. api_handle (demo_api\<lparr>ae_unsign := \<lambda>_. None\<rparr>) 5 demo_browser (Console (DeleteDevice ''host-a'')) demo_running = (reply, h') \<and>
     rp_status reply \<in> {400, 401, 429, 503} \<and> ap_service h' = demo_service"
proof -
  let ?env = "demo_api\<lparr>ae_unsign := \<lambda>_. None\<rparr>" and ?call = "Console (DeleteDevice ''host-a'')"
  obtain reply h' where run: "api_handle ?env 5 demo_browser ?call demo_running = (reply, h')" by fastforce
  have "\<not> authorised ?env 5 demo_browser ?call demo_running"
    by (simp add: authorised_def getSession_def demo_browser_def demo_api_def)
  from access_is_guarded [OF this run] run show ?thesis
    by (auto simp: refuse_def demo_running_def)
qed

end
