(* ===== verification/Serial_Queue.thy ===== *)
theory Serial_Queue
  imports Prelude
begin

text \<open>
  \<open>KeyedSerialQueue\<close> of \<open>apps/server/src/serial-queue.ts\<close>: operations submitted under one key run one after the
  other, in the order of submission, with a bound per key and in total.

  The queue's fields are a record.  A promise is known by the index of its job in the list of admitted jobs;
  \<open>tails\<close> holds such indices.  A job waits for the tail it was chained to (\<open>jb_after\<close>), runs, settles (with
  a value or an error, which the code treats alike) and is released by the callback that ends its tail.  The event
  loop may interleave submissions, starts, settlements and releases in any order the promises allow: the step
  relation has one rule for each.
\<close>

datatype phase = Waiting | Running | Settled bool | Released

record job =
  jb_key :: string
  jb_after :: "nat option"
  jb_phase :: phase

record KeyedSerialQueue =
  tails :: "(string, nat) jsmap"
  counts :: "(string, int) jsmap"
  pending :: int
  perKeyLimit :: int
  totalLimit :: int

record queue_world = KeyedSerialQueue +
  jobs :: "job list"

datatype queue_error = QueueCapacityError | RangeError

text \<open>The constructor; \<open>isSafeInteger\<close> holds of the integers below 2 to the 53rd.\<close>

definition new_queue :: "int \<Rightarrow> int \<Rightarrow> queue_error + queue_world" where
  "new_queue perKey tot =
     (if \<bar>perKey\<bar> > 9007199254740991 \<or> perKey < 1 \<or> \<bar>tot\<bar> > 9007199254740991 \<or> tot < 1 then Inl RangeError
      else Inr \<lparr>tails = [], counts = [], pending = 0, perKeyLimit = perKey, totalLimit = tot, jobs = []\<rparr>)"

definition queue_size :: "queue_world \<Rightarrow> int" where
  "queue_size w = pending w"

definition activeKeys :: "queue_world \<Rightarrow> nat" where
  "activeKeys w = length (tails w)"

text \<open>Admission: the synchronous part of \<open>run\<close>.  The result is the index of the new job.\<close>

definition queue_run :: "string \<Rightarrow> queue_world \<Rightarrow> (queue_error + nat) \<times> queue_world" where
  "queue_run key w =
     (let n = nullish (map_get (counts w) key) 0
      in if n \<ge> perKeyLimit w \<or> pending w \<ge> totalLimit w then (Inl QueueCapacityError, w)
         else (Inr (length (jobs w)),
           w\<lparr>counts := map_set key (n + 1) (counts w),
             pending := pending w + 1,
             jobs := jobs w @ [\<lparr>jb_key = key, jb_after = map_get (tails w) key, jb_phase = Waiting\<rparr>],
             tails := map_set key (length (jobs w)) (tails w)\<rparr>))"

definition set_phase :: "nat \<Rightarrow> phase \<Rightarrow> job list \<Rightarrow> job list" where
  "set_phase i p js = js[i := (js ! i)\<lparr>jb_phase := p\<rparr>]"

text \<open>The callback that ends the tail of job \<open>i\<close>.\<close>

definition queue_release :: "nat \<Rightarrow> queue_world \<Rightarrow> queue_world" where
  "queue_release i w =
     (let key = jb_key (jobs w ! i);
          remaining = nullish (map_get (counts w) key) 1 - 1
      in w\<lparr>pending := pending w - 1,
           counts := (if remaining \<noteq> 0 then map_set key remaining (counts w) else map_delete key (counts w)),
           tails := (if map_get (tails w) key = Some i then map_delete key (tails w) else tails w),
           jobs := set_phase i Released (jobs w)\<rparr>)"

text \<open>A job may start when it was chained to no tail, or the tail it was chained to has ended.\<close>

definition tail_ended :: "job list \<Rightarrow> nat \<Rightarrow> bool" where
  "tail_ended js i = (case jb_after (js ! i) of None \<Rightarrow> True | Some p \<Rightarrow> p < length js \<and> jb_phase (js ! p) = Released)"

datatype queue_event = Submit string | Start nat | Settle nat bool | Release nat

inductive queue_step :: "queue_world \<Rightarrow> queue_event \<Rightarrow> queue_world \<Rightarrow> bool" where
  submit: "queue_step w (Submit key) (snd (queue_run key w))"
| start: "i < length (jobs w) \<Longrightarrow> jb_phase (jobs w ! i) = Waiting \<Longrightarrow> tail_ended (jobs w) i
    \<Longrightarrow> queue_step w (Start i) (w\<lparr>jobs := set_phase i Running (jobs w)\<rparr>)"
| settle: "i < length (jobs w) \<Longrightarrow> jb_phase (jobs w ! i) = Running
    \<Longrightarrow> queue_step w (Settle i ok) (w\<lparr>jobs := set_phase i (Settled ok) (jobs w)\<rparr>)"
| release: "i < length (jobs w) \<Longrightarrow> jb_phase (jobs w ! i) = Settled ok
    \<Longrightarrow> queue_step w (Release i) (queue_release i w)"

inductive_cases queue_stepE: "queue_step w e w'"

inductive reachable_queue :: "queue_world \<Rightarrow> bool" where
  reachable_new: "new_queue perKey tot = Inr w \<Longrightarrow> reachable_queue w"
| reachable_step: "reachable_queue w \<Longrightarrow> queue_step w e w' \<Longrightarrow> reachable_queue w'"

subsection \<open>The jobs of a key\<close>

abbreviation live_job :: "job \<Rightarrow> bool" where
  "live_job j \<equiv> jb_phase j \<noteq> Released"

definition active_jobs :: "job list \<Rightarrow> string \<Rightarrow> nat list" where
  "active_jobs js k = filter (\<lambda>i. jb_key (js ! i) = k \<and> live_job (js ! i)) [0..<length js]"

definition live_count :: "job list \<Rightarrow> nat" where
  "live_count js = length (filter live_job js)"

lemma set_active_jobs [simp]: "i \<in> set (active_jobs js k) \<longleftrightarrow> i < length js \<and> jb_key (js ! i) = k \<and> live_job (js ! i)"
  by (auto simp: active_jobs_def)

lemma sorted_active_jobs: "sorted_wrt (<) (active_jobs js k)"
  by (simp add: active_jobs_def sorted_wrt_filter)

lemma distinct_active_jobs [simp]: "distinct (active_jobs js k)"
  by (simp add: active_jobs_def)

lemma active_jobs_append:
  "active_jobs (js @ [j]) k = active_jobs js k @ (if jb_key j = k \<and> live_job j then [length js] else [])"
  by (auto simp: active_jobs_def nth_append intro: filter_cong)

lemma length_set_phase [simp]: "length (set_phase i p js) = length js"
  by (simp add: set_phase_def)

lemma nth_set_phase: "n < length js \<Longrightarrow> set_phase i p js ! n = (if n = i then (js ! i)\<lparr>jb_phase := p\<rparr> else js ! n)"
  by (simp add: set_phase_def nth_list_update)

lemma after_set_phase: "n < length js \<Longrightarrow> jb_after (set_phase i p js ! n) = jb_after (js ! n)"
  by (simp add: nth_set_phase)

lemma active_jobs_bound: "n \<in> set (active_jobs js k) \<Longrightarrow> n < length js"
  by simp

lemma active_jobs_hd: "active_jobs js k \<noteq> [] \<Longrightarrow> hd (active_jobs js k) < length js"
  by (rule active_jobs_bound [OF hd_in_set])

lemma active_jobs_running:
  assumes "live_job (js ! i)" "p \<noteq> Released"
  shows "active_jobs (set_phase i p js) k = active_jobs js k"
  unfolding active_jobs_def length_set_phase using assms by (intro filter_cong) (auto simp: nth_set_phase)

lemma active_jobs_released: "active_jobs (set_phase i Released js) k = filter (\<lambda>n. n \<noteq> i) (active_jobs js k)"
  unfolding active_jobs_def length_set_phase filter_filter by (intro filter_cong) (auto simp: nth_set_phase)

lemma length_active_jobs: "length (active_jobs js k) = length (filter (\<lambda>j. jb_key j = k \<and> live_job j) js)"
proof -
  have "length (active_jobs js k) = card (set (active_jobs js k))"
    by (rule distinct_card [symmetric]) simp
  also have "set (active_jobs js k) = {i. i < length js \<and> jb_key (js ! i) = k \<and> live_job (js ! i)}"
    by auto
  finally show ?thesis
    by (simp add: length_filter_conv_card)
qed

lemma active_jobs_Nil: "active_jobs js k = [] \<longleftrightarrow> \<not> (\<exists>j \<in> set js. jb_key j = k \<and> live_job j)"
proof -
  have "active_jobs js k = [] \<longleftrightarrow> filter (\<lambda>j. jb_key j = k \<and> live_job j) js = []"
    unfolding length_0_conv [symmetric] length_active_jobs ..
  then show ?thesis by (auto simp: filter_empty_conv)
qed

lemma live_count_append: "live_count (js @ [j]) = live_count js + (if live_job j then 1 else 0)"
  by (simp add: live_count_def)

lemma live_count_set_phase:
  assumes "i < length js" "live_job (js ! i)"
  shows "live_count (set_phase i p js) = (if p = Released then live_count js - 1 else live_count js)"
    "0 < live_count js"
proof -
  have split: "js = take i js @ js ! i # drop (Suc i) js"
    using assms(1) by (simp add: id_take_nth_drop)
  have upd: "set_phase i p js = take i js @ (js ! i)\<lparr>jb_phase := p\<rparr> # drop (Suc i) js"
    using assms(1) by (simp add: set_phase_def upd_conv_take_nth_drop)
  show "0 < live_count js"
    using assms nth_mem by (fastforce simp: live_count_def filter_empty_conv)
  show "live_count (set_phase i p js) = (if p = Released then live_count js - 1 else live_count js)"
    unfolding upd by (subst (2 3) split) (use assms(2) in \<open>simp add: live_count_def\<close>)
qed

subsection \<open>The invariant\<close>

definition in_order :: "job list \<Rightarrow> bool" where
  "in_order js \<longleftrightarrow> (\<forall>i j. i < j \<longrightarrow> j < length js \<longrightarrow> jb_key (js ! i) = jb_key (js ! j)
     \<longrightarrow> jb_phase (js ! j) \<noteq> Waiting \<longrightarrow> jb_phase (js ! i) = Released)"

definition chained :: "job list \<Rightarrow> nat list \<Rightarrow> bool" where
  "chained js is \<longleftrightarrow> (is \<noteq> [] \<longrightarrow> tail_ended js (hd is)) \<and>
     (\<forall>n. Suc n < length is \<longrightarrow> jb_after (js ! (is ! Suc n)) = Some (is ! n))"

definition accounts_ok :: "queue_world \<Rightarrow> bool" where
  "accounts_ok w \<longleftrightarrow>
     (\<forall>k. map_get (counts w) k = (if active_jobs (jobs w) k = [] then None else Some (int (length (active_jobs (jobs w) k))))) \<and>
     (\<forall>k. map_get (tails w) k = (if active_jobs (jobs w) k = [] then None else Some (last (active_jobs (jobs w) k)))) \<and>
     pending w = int (live_count (jobs w))"

definition limits_ok :: "queue_world \<Rightarrow> bool" where
  "limits_ok w \<longleftrightarrow> 1 \<le> perKeyLimit w \<and> 1 \<le> totalLimit w \<and>
     (\<forall>k. int (length (active_jobs (jobs w) k)) \<le> perKeyLimit w) \<and> int (live_count (jobs w)) \<le> totalLimit w"

definition queue_ok :: "queue_world \<Rightarrow> bool" where
  "queue_ok w \<longleftrightarrow> accounts_ok w \<and> limits_ok w \<and> in_order (jobs w) \<and> (\<forall>k. chained (jobs w) (active_jobs (jobs w) k))"

text \<open>A job that is not waiting, or that may start, is the oldest live job of its key.\<close>

lemma started_is_oldest:
  assumes "in_order js" "i < length js" "live_job (js ! i)" "jb_phase (js ! i) \<noteq> Waiting"
  shows "\<exists>rest. active_jobs js (jb_key (js ! i)) = i # rest"
proof -
  let ?a = "active_jobs js (jb_key (js ! i))"
  have i: "i \<in> set ?a" using assms by simp
  then obtain h rest where a: "?a = h # rest" by (cases ?a) auto
  have "h = i"
  proof (rule ccontr)
    assume "h \<noteq> i"
    then have "h < i" using i sorted_active_jobs [of js "jb_key (js ! i)"] by (auto simp: a)
    moreover have "h < length js" "jb_key (js ! h) = jb_key (js ! i)" "live_job (js ! h)"
      using set_active_jobs [of h js "jb_key (js ! i)"] by (simp_all add: a)
    ultimately show False using assms by (auto simp: in_order_def)
  qed
  then show ?thesis using a by simp
qed

lemma startable_is_oldest:
  assumes "chained js (active_jobs js (jb_key (js ! i)))" "i < length js" "live_job (js ! i)" "tail_ended js i"
  shows "\<exists>rest. active_jobs js (jb_key (js ! i)) = i # rest"
proof -
  let ?a = "active_jobs js (jb_key (js ! i))"
  have "i \<in> set ?a" using assms by simp
  then obtain n where n: "n < length ?a" "?a ! n = i" by (auto simp: in_set_conv_nth)
  show ?thesis
  proof (cases n)
    case 0
    then show ?thesis using n by (cases ?a) auto
  next
    case (Suc m)
    then have "jb_after (js ! i) = Some (?a ! m)"
      using assms(1) n by (auto simp: chained_def)
    moreover have "?a ! m \<in> set ?a"
      using n Suc by (intro nth_mem) simp
    ultimately show ?thesis using assms(4) by (auto simp: tail_ended_def)
  qed
qed

lemma tail_ended_set_phase:
  "n < length js \<Longrightarrow> jb_phase (js ! i) \<noteq> Released \<Longrightarrow> tail_ended js n \<Longrightarrow> tail_ended (set_phase i p js) n"
  by (auto simp: tail_ended_def nth_set_phase split: option.splits)

lemma in_order_set_phase:
  assumes "in_order js" "i < length js" "active_jobs js (jb_key (js ! i)) = i # rest"
  shows "in_order (set_phase i p js)"
  unfolding in_order_def length_set_phase
proof (intro allI impI)
  fix a b
  assume ab: "a < b" "b < length js" "jb_key (set_phase i p js ! a) = jb_key (set_phase i p js ! b)"
    "jb_phase (set_phase i p js ! b) \<noteq> Waiting"
  have key: "jb_key (js ! a) = jb_key (js ! b)"
    using ab by (auto simp: nth_set_phase split: if_splits)
  have later: "n \<notin> set (active_jobs js (jb_key (js ! i)))" if "n < i" for n
    using that assms(3) sorted_active_jobs [of js "jb_key (js ! i)"] by fastforce
  show "jb_phase (set_phase i p js ! a) = Released"
  proof (cases "b = i")
    case True
    then show ?thesis using later [of a] ab key assms(2) by (auto simp: nth_set_phase)
  next
    case False
    then have "jb_phase (js ! a) = Released"
      using assms(1) ab key by (auto simp: in_order_def nth_set_phase)
    moreover have "a \<noteq> i"
      using calculation assms(3) set_active_jobs [of i js "jb_key (js ! i)"] by auto
    ultimately show ?thesis using ab by (simp add: nth_set_phase)
  qed
qed

lemma chained_set_phase:
  assumes "chained js is" "\<And>n. n \<in> set is \<Longrightarrow> n < length js" "live_job (js ! i)"
  shows "chained (set_phase i p js) is"
  unfolding chained_def
proof (intro conjI allI impI)
  assume "is \<noteq> []"
  then show "tail_ended (set_phase i p js) (hd is)"
    using assms by (intro tail_ended_set_phase) (auto simp: chained_def)
next
  fix n assume n: "Suc n < length is"
  then have "is ! Suc n < length js"
    by (intro assms(2) nth_mem)
  then show "jb_after (set_phase i p js ! (is ! Suc n)) = Some (is ! n)"
    using assms(1) n by (simp add: chained_def after_set_phase)
qed

lemma queue_ok_phase:
  assumes ok: "queue_ok w" and i: "i < length (jobs w)" "live_job (jobs w ! i)" and p: "p \<noteq> Released"
    and oldest: "active_jobs (jobs w) (jb_key (jobs w ! i)) = i # rest"
  shows "queue_ok (w\<lparr>jobs := set_phase i p (jobs w)\<rparr>)"
proof -
  have "chained (set_phase i p (jobs w)) (active_jobs (jobs w) k)" for k
    using ok i(2) by (intro chained_set_phase active_jobs_bound) (auto simp: queue_ok_def)
  then show ?thesis
    using ok in_order_set_phase [OF _ i(1) oldest, of p] i p
    by (simp add: queue_ok_def accounts_ok_def limits_ok_def active_jobs_running live_count_set_phase)
qed

lemma tail_ended_append: "n < length js \<Longrightarrow> tail_ended js n \<Longrightarrow> tail_ended (js @ [j]) n"
  by (auto simp: tail_ended_def nth_append split: option.splits)

lemma chained_append:
  assumes "chained js (active_jobs js k)"
    "jb_after j = (if active_jobs js (jb_key j) = [] then None else Some (last (active_jobs js (jb_key j))))"
    "jb_phase j = Waiting"
  shows "chained (js @ [j]) (active_jobs (js @ [j]) k)"
proof -
  let ?a = "active_jobs js k"
  have old: "chained (js @ [j]) ?a"
    unfolding chained_def
  proof (intro conjI allI impI)
    assume "?a \<noteq> []"
    then show "tail_ended (js @ [j]) (hd ?a)"
      using assms(1) by (intro tail_ended_append active_jobs_hd) (auto simp: chained_def)
  next
    fix n assume n: "Suc n < length ?a"
    then have "?a ! Suc n \<in> set ?a" by (rule nth_mem)
    then show "jb_after ((js @ [j]) ! (?a ! Suc n)) = Some (?a ! n)"
      using assms(1) n by (auto simp: chained_def nth_append)
  qed
  have new: "jb_after ((js @ [j]) ! length js) = (if ?a = [] then None else Some (last ?a))" if "jb_key j = k"
    using assms(2) that by (simp add: nth_append)
  show ?thesis
    using old new assms(3)
    by (auto simp: active_jobs_append chained_def nth_append last_conv_nth tail_ended_def less_Suc_eq_le)
      (metis Suc_pred diff_Suc_1 le_neq_implies_less length_greater_0_conv less_Suc_eq_le)+
qed

lemma queue_ok_run:
  assumes "queue_ok w"
  shows "queue_ok (snd (queue_run key w))"
proof (cases "nullish (map_get (counts w) key) 0 \<ge> perKeyLimit w \<or> pending w \<ge> totalLimit w")
  case True
  then show ?thesis using assms by (auto simp: queue_run_def)
next
  case False
  define j where "j = \<lparr>jb_key = key, jb_after = map_get (tails w) key, jb_phase = Waiting\<rparr>"
  define w' where "w' = snd (queue_run key w)"
  have w': "jobs w' = jobs w @ [j]" "counts w' = map_set key (nullish (map_get (counts w) key) 0 + 1) (counts w)"
    "tails w' = map_set key (length (jobs w)) (tails w)" "pending w' = pending w + 1"
    "perKeyLimit w' = perKeyLimit w" "totalLimit w' = totalLimit w"
    using False by (auto simp: w'_def queue_run_def j_def Let_def)
  have n: "nullish (map_get (counts w) key) 0 = int (length (active_jobs (jobs w) key))"
    using assms by (simp add: queue_ok_def accounts_ok_def)
  have "in_order (jobs w')"
    using assms by (auto simp: w' queue_ok_def in_order_def nth_append j_def)
  moreover have "chained (jobs w') (active_jobs (jobs w') k)" for k
    using assms by (simp only: w') (intro chained_append, auto simp: queue_ok_def accounts_ok_def j_def)
  moreover have "accounts_ok w'"
    using assms n by (auto simp: w' queue_ok_def accounts_ok_def active_jobs_append live_count_append j_def)
  moreover have "limits_ok w'"
    using assms n False by (auto simp: w' queue_ok_def accounts_ok_def limits_ok_def active_jobs_append live_count_append j_def)
  ultimately show ?thesis
    by (simp add: queue_ok_def flip: w'_def)
qed

lemma filter_neq_hd: "distinct (i # rest) \<Longrightarrow> filter (\<lambda>n. n \<noteq> i) (i # rest) = rest"
  by (auto simp: filter_id_conv)

lemma queue_ok_release:
  assumes ok: "queue_ok w" and i: "i < length (jobs w)" "live_job (jobs w ! i)"
    and oldest: "active_jobs (jobs w) (jb_key (jobs w ! i)) = i # rest"
  shows "queue_ok (queue_release i w)"
proof -
  let ?k = "jb_key (jobs w ! i)"
  define w' where "w' = queue_release i w"
  have d: "distinct (i # rest)"
    using distinct_active_jobs [of "jobs w" ?k] by (simp add: oldest)
  have act: "active_jobs (jobs w') k = (if k = ?k then rest else active_jobs (jobs w) k)" for k
  proof -
    have "i \<notin> set (active_jobs (jobs w) k)" if "k \<noteq> ?k" using that by simp
    then show ?thesis
      using filter_neq_hd [OF d] by (auto simp: w'_def queue_release_def Let_def active_jobs_released oldest filter_id_conv)
  qed
  have c: "map_get (counts w) ?k = Some (int (length (i # rest)))" and t: "map_get (tails w) ?k = Some (last (i # rest))"
    using ok by (simp_all add: queue_ok_def accounts_ok_def oldest)
  have last: "(last (i # rest) = i) = (rest = [])"
    using d by (cases rest rule: rev_cases) auto
  have live: "int (live_count (set_phase i Released (jobs w))) = int (live_count (jobs w)) - 1"
    using live_count_set_phase [OF i] by (simp add: of_nat_diff)
  have "accounts_ok w'"
    unfolding accounts_ok_def act using ok c t last d live
    by (auto simp: w'_def queue_release_def Let_def queue_ok_def accounts_ok_def)
  moreover have "limits_ok w'"
  proof -
    have "int (length (active_jobs (jobs w) ?k)) \<le> perKeyLimit w"
      using ok by (simp add: queue_ok_def limits_ok_def)
    then have "int (length rest) \<le> perKeyLimit w" by (simp add: oldest)
    then show ?thesis
      unfolding limits_ok_def act using ok i
      by (auto simp: w'_def queue_release_def Let_def queue_ok_def limits_ok_def live_count_set_phase)
  qed
  moreover have "in_order (jobs w')"
    using ok in_order_set_phase [OF _ i(1) oldest] by (simp add: w'_def queue_release_def Let_def queue_ok_def)
  moreover have "chained (jobs w') (active_jobs (jobs w') k)" for k
  proof -
    have all: "chained (jobs w') (active_jobs (jobs w) k)"
      using ok i(2) unfolding w'_def queue_release_def Let_def
      by (simp, intro chained_set_phase active_jobs_bound) (auto simp: queue_ok_def)
    show ?thesis
    proof (cases "k = ?k")
      case True
      then have whole: "chained (jobs w') (i # rest)" using all by (simp add: oldest)
      have "tail_ended (jobs w') (hd rest)" if "rest \<noteq> []"
      proof -
        have "Suc 0 < length (i # rest)" using that by simp
        then have "jb_after (jobs w' ! (rest ! 0)) = Some i"
          using whole unfolding chained_def by (metis nth_Cons_0 nth_Cons_Suc)
        moreover have "jb_phase (jobs w' ! i) = Released" "i < length (jobs w')"
          using i by (simp_all add: w'_def queue_release_def Let_def nth_set_phase)
        ultimately show ?thesis using that by (simp add: tail_ended_def hd_conv_nth)
      qed
      then show ?thesis
        using whole True unfolding act chained_def by fastforce
    next
      case False
      then show ?thesis using all by (simp add: act)
    qed
  qed
  ultimately show ?thesis
    by (simp add: queue_ok_def flip: w'_def)
qed

lemma queue_ok_step:
  assumes "queue_step w e w'" "queue_ok w"
  shows "queue_ok w'"
  using assms
proof cases
  case (submit key)
  then show ?thesis using assms(2) by (simp add: queue_ok_run)
next
  case (start i)
  then have "\<exists>rest. active_jobs (jobs w) (jb_key (jobs w ! i)) = i # rest"
    using assms(2) by (intro startable_is_oldest) (auto simp: queue_ok_def)
  then show ?thesis using start assms(2) by (auto intro: queue_ok_phase)
next
  case (settle i ok)
  then have "\<exists>rest. active_jobs (jobs w) (jb_key (jobs w ! i)) = i # rest"
    using assms(2) by (intro started_is_oldest) (auto simp: queue_ok_def)
  then show ?thesis using settle assms(2) by (auto intro: queue_ok_phase)
next
  case (release i ok)
  then have "\<exists>rest. active_jobs (jobs w) (jb_key (jobs w ! i)) = i # rest"
    using assms(2) by (intro started_is_oldest) (auto simp: queue_ok_def)
  then show ?thesis using release assms(2) by (auto intro: queue_ok_release)
qed

lemma reachable_queue_ok: "reachable_queue w \<Longrightarrow> queue_ok w"
proof (induction rule: reachable_queue.induct)
  case (reachable_new perKey tot w)
  then show ?case
    by (auto simp: new_queue_def queue_ok_def accounts_ok_def limits_ok_def in_order_def chained_def active_jobs_def
        live_count_def split: if_splits)
qed (rule queue_ok_step)

subsection \<open>What the queue guarantees\<close>

text \<open>
  C12: operations of one key never overlap and run in the order of submission: once a job has started, every
  earlier job of its key is completely finished, including its bookkeeping, whether it succeeded or failed.
\<close>

theorem serial_per_key:
  assumes "reachable_queue w" "i < j" "j < length (jobs w)" "jb_key (jobs w ! i) = jb_key (jobs w ! j)"
    "jb_phase (jobs w ! j) \<noteq> Waiting"
  shows "jb_phase (jobs w ! i) = Released"
  using reachable_queue_ok [OF assms(1)] assms(2-) by (auto simp: queue_ok_def in_order_def)

text \<open>
  C13: admission control is exact: the counters equal the unfinished work, never exceed the limits, hold only keys
  with unfinished work, and a submission is refused precisely when a limit is reached, without any change.
\<close>

theorem admission_exact:
  assumes "reachable_queue w"
  shows "pending w = int (live_count (jobs w)) \<and> pending w \<le> totalLimit w
    \<and> nullish (map_get (counts w) k) 0 = int (length (filter (\<lambda>j. jb_key j = k \<and> live_job j) (jobs w)))
    \<and> nullish (map_get (counts w) k) 0 \<le> perKeyLimit w
    \<and> (k \<in> set (map_keys (tails w)) \<longleftrightarrow> (\<exists>j \<in> set (jobs w). jb_key j = k \<and> live_job j))
    \<and> (fst (queue_run k w) = Inl QueueCapacityError \<longleftrightarrow>
         nullish (map_get (counts w) k) 0 = perKeyLimit w \<or> pending w = totalLimit w)
    \<and> (fst (queue_run k w) = Inl QueueCapacityError \<longrightarrow> snd (queue_run k w) = w)"
proof (intro conjI)
  have ok: "accounts_ok w" "limits_ok w"
    using reachable_queue_ok [OF assms] by (simp_all add: queue_ok_def)
  show p: "pending w = int (live_count (jobs w))"
    using ok(1) by (simp add: accounts_ok_def)
  show tot: "pending w \<le> totalLimit w"
    using ok(2) p by (simp add: limits_ok_def)
  have n: "nullish (map_get (counts w) k) 0 = int (length (active_jobs (jobs w) k))"
    using ok(1) by (simp add: accounts_ok_def)
  then show "nullish (map_get (counts w) k) 0 = int (length (filter (\<lambda>j. jb_key j = k \<and> live_job j) (jobs w)))"
    by (simp add: length_active_jobs)
  show per: "nullish (map_get (counts w) k) 0 \<le> perKeyLimit w"
    using ok(2) n by (simp add: limits_ok_def)
  have "k \<in> set (map_keys (tails w)) \<longleftrightarrow> active_jobs (jobs w) k \<noteq> []"
    using ok(1) map_get_None_iff [of "tails w" k] by (simp add: accounts_ok_def split: if_splits)
  then show "k \<in> set (map_keys (tails w)) \<longleftrightarrow> (\<exists>j \<in> set (jobs w). jb_key j = k \<and> live_job j)"
    by (simp add: active_jobs_Nil)
  show "fst (queue_run k w) = Inl QueueCapacityError \<longleftrightarrow>
      nullish (map_get (counts w) k) 0 = perKeyLimit w \<or> pending w = totalLimit w"
    using per tot by (auto simp: queue_run_def Let_def)
  show "fst (queue_run k w) = Inl QueueCapacityError \<longrightarrow> snd (queue_run k w) = w"
    by (simp add: queue_run_def Let_def)
qed

text \<open>Work left: a waiting job has three steps to go, a running one two, a settled one one.\<close>

fun steps_left :: "phase \<Rightarrow> nat" where
  "steps_left Waiting = 3"
| "steps_left Running = 2"
| "steps_left (Settled ok) = 1"
| "steps_left Released = 0"

definition work_left :: "queue_world \<Rightarrow> nat" where
  "work_left w = sum_list (map (\<lambda>j. steps_left (jb_phase j)) (jobs w))"

lemma sum_list_update_less:
  fixes f :: "'a \<Rightarrow> nat"
  shows "i < length xs \<Longrightarrow> f y < f (xs ! i) \<Longrightarrow> sum_list (map f (xs[i := y])) < sum_list (map f xs)"
  by (induction xs arbitrary: i) (auto split: nat.split)

lemma work_left_set_phase:
  "i < length (jobs w) \<Longrightarrow> steps_left p < steps_left (jb_phase (jobs w ! i)) \<Longrightarrow> jobs w' = set_phase i p (jobs w)
   \<Longrightarrow> work_left w' < work_left w"
  unfolding work_left_def set_phase_def by (simp add: sum_list_update_less)

text \<open>As long as work is unfinished, some job can take its next step, and no step but a submission adds work.\<close>

fun quiet :: "queue_event \<Rightarrow> bool" where
  "quiet (Submit key) = False"
| "quiet (Start i) = True"
| "quiet (Settle i ok) = True"
| "quiet (Release i) = True"

inductive quiet_run :: "nat \<Rightarrow> queue_world \<Rightarrow> queue_world \<Rightarrow> bool" where
  quiet_refl: "quiet_run 0 w w"
| quiet_step: "quiet_run n w w' \<Longrightarrow> quiet e \<Longrightarrow> queue_step w' e w'' \<Longrightarrow> quiet_run (Suc n) w w''"

lemma quiet_step_decreases:
  assumes "queue_step w e w'" "quiet e"
  shows "work_left w' < work_left w"
  using assms
proof cases
  case (start i)
  then show ?thesis using work_left_set_phase [of i w Running w'] by simp
next
  case (settle i ok)
  then show ?thesis using work_left_set_phase [of i w "Settled ok" w'] by simp
next
  case (release i ok)
  then show ?thesis using work_left_set_phase [of i w Released w'] by (simp add: queue_release_def Let_def)
qed simp

lemma queue_progress:
  assumes "queue_ok w" "j \<in> set (jobs w)" "live_job j"
  shows "\<exists>e w'. quiet e \<and> queue_step w e w'"
proof -
  let ?k = "jb_key j"
  have "active_jobs (jobs w) ?k \<noteq> []"
    using assms(2,3) by (auto simp: active_jobs_Nil)
  then obtain i rest where a: "active_jobs (jobs w) ?k = i # rest"
    by (cases "active_jobs (jobs w) ?k") auto
  then have i: "i < length (jobs w)" "live_job (jobs w ! i)"
    using set_active_jobs [of i "jobs w" ?k] by simp_all
  have ended: "tail_ended (jobs w) i"
    using assms(1) a by (metis chained_def list.distinct(1) list.sel(1) queue_ok_def)
  show ?thesis
  proof (cases "jb_phase (jobs w ! i)")
    case Waiting
    then show ?thesis
      using queue_step.start [OF i(1) Waiting ended] quiet.simps(2) by blast
  next
    case Running
    then show ?thesis
      using queue_step.settle [OF i(1) Running] quiet.simps(3) by blast
  next
    case (Settled ok)
    then show ?thesis
      using queue_step.release [OF i(1) Settled] quiet.simps(4) by blast
  qed (use i in simp)
qed

lemma quiet_run_facts:
  "quiet_run n w w' \<Longrightarrow> queue_ok w \<Longrightarrow> queue_ok w' \<and> n + work_left w' \<le> work_left w"
proof (induction rule: quiet_run.induct)
  case (quiet_step n w w' e w'')
  then show ?case
    using quiet_step_decreases [of w' e w''] queue_ok_step [of w' e w''] by simp
qed simp

lemma work_left_bound: "work_left w \<le> 3 * live_count (jobs w)"
proof -
  have "sum_list (map (\<lambda>j. steps_left (jb_phase j)) js) \<le> 3 * length (filter live_job js)" for js
  proof (induction js)
    case (Cons j js)
    then show ?case by (cases "jb_phase j") auto
  qed simp
  then show ?thesis by (simp add: work_left_def live_count_def)
qed

lemma drained_empty:
  assumes "queue_ok w" "\<forall>j \<in> set (jobs w). jb_phase j = Released"
  shows "queue_size w = 0 \<and> activeKeys w = 0 \<and> counts w = []"
proof -
  have "active_jobs (jobs w) k = []" for k
    using assms(2) by (simp add: active_jobs_Nil)
  then have empty: "map_get (counts w) k = None" "map_get (tails w) k = None" for k
    using assms(1) by (simp_all add: queue_ok_def accounts_ok_def)
  have "counts w = []" "tails w = []"
    using empty by (metis list.set_intros(1) list.simps(9) map_get_None_iff neq_Nil_conv)+
  moreover have "live_count (jobs w) = 0"
    using assms(2) by (auto simp: live_count_def filter_empty_conv)
  ultimately show ?thesis
    using assms(1) by (simp add: queue_size_def activeKeys_def queue_ok_def accounts_ok_def)
qed

text \<open>
  C14: the queue cannot get stuck and always drains: however the event loop schedules the admitted work, a run without
  new submissions ends after at most three steps per unfinished operation, and it can only end when every operation is
  finished; then the queue is empty again, with no key, counter or closure retained.
\<close>

theorem queue_drains:
  assumes "reachable_queue w" "quiet_run n w w'"
  shows "n \<le> 3 * live_count (jobs w)
    \<and> ((\<exists>e w''. quiet e \<and> queue_step w' e w'')
        \<or> (\<forall>j \<in> set (jobs w'). jb_phase j = Released) \<and> queue_size w' = 0 \<and> activeKeys w' = 0 \<and> counts w' = [])"
proof -
  have w': "queue_ok w'" "n + work_left w' \<le> work_left w"
    using quiet_run_facts [OF assms(2) reachable_queue_ok [OF assms(1)]] by simp_all
  then show ?thesis
    using work_left_bound [of w] queue_progress [OF w'(1)] drained_empty [OF w'(1)] by force
qed

subsection \<open>A run of the queue\<close>

definition demo_queue :: queue_world where
  "demo_queue = snd (queue_run ''a'' (snd (queue_run ''a''
     \<lparr>tails = [], counts = [], pending = 0, perKeyLimit = 2, totalLimit = 3, jobs = []\<rparr>)))"

lemma demo_queue_reachable: "reachable_queue demo_queue"
proof -
  have "reachable_queue \<lparr>tails = [], counts = [], pending = 0, perKeyLimit = 2, totalLimit = 3, jobs = []\<rparr>"
    by (rule reachable_new [of 2 3]) (simp add: new_queue_def)
  then show ?thesis
    unfolding demo_queue_def by (intro reachable_step [OF _ queue_step.submit])
qed

lemma demo_queue_jobs:
  "jobs demo_queue = [\<lparr>jb_key = ''a'', jb_after = None, jb_phase = Waiting\<rparr>, \<lparr>jb_key = ''a'', jb_after = Some 0, jb_phase = Waiting\<rparr>]"
  "counts demo_queue = [(''a'', 2)]" "perKeyLimit demo_queue = 2"
  by (simp_all add: demo_queue_def queue_run_def Let_def)

theorem admission_exact_witness: "fst (queue_run ''a'' demo_queue) = Inl QueueCapacityError"
  using admission_exact [OF demo_queue_reachable, of "''a''"] by (simp add: demo_queue_jobs)

theorem queue_drains_witness:
  "3 * live_count (jobs demo_queue) = 6 \<and> quiet_run 0 demo_queue demo_queue
    \<and> (\<exists>e w''. quiet e \<and> queue_step demo_queue e w'')"
  using queue_drains [OF demo_queue_reachable quiet_refl] quiet_refl [of demo_queue]
  by (auto simp: demo_queue_jobs live_count_def)

theorem serial_per_key_witness:
  "\<exists>w. reachable_queue w \<and> length (jobs w) = 2 \<and> jb_phase (jobs w ! 1) = Running \<and> jb_phase (jobs w ! 0) = Released"
proof -
  define w1 where "w1 = demo_queue\<lparr>jobs := set_phase 0 Running (jobs demo_queue)\<rparr>"
  define w2 where "w2 = w1\<lparr>jobs := set_phase 0 (Settled False) (jobs w1)\<rparr>"
  define w3 where "w3 = queue_release 0 w2"
  define w4 where "w4 = w3\<lparr>jobs := set_phase 1 Running (jobs w3)\<rparr>"
  have r1: "reachable_queue w1" unfolding w1_def
    by (rule reachable_step [OF demo_queue_reachable queue_step.start]) (simp_all add: demo_queue_jobs tail_ended_def)
  have r2: "reachable_queue w2" unfolding w2_def
    by (rule reachable_step [OF r1 queue_step.settle]) (simp_all add: w1_def demo_queue_jobs set_phase_def)
  have r3: "reachable_queue w3" unfolding w3_def
    by (rule reachable_step [OF r2 queue_step.release [where ok = False]]) (simp_all add: w2_def w1_def demo_queue_jobs set_phase_def)
  have js: "length (jobs w3) = 2" "jb_phase (jobs w3 ! 1) = Waiting" "tail_ended (jobs w3) 1" "jb_key (jobs w3 ! 0) = jb_key (jobs w3 ! 1)"
    by (simp_all add: w3_def w2_def w1_def demo_queue_jobs set_phase_def queue_release_def tail_ended_def Let_def)
  have r4: "reachable_queue w4" unfolding w4_def
    by (rule reachable_step [OF r3 queue_step.start]) (use js in simp_all)
  have w4: "length (jobs w4) = 2" "jb_phase (jobs w4 ! 1) = Running" "jb_key (jobs w4 ! 0) = jb_key (jobs w4 ! 1)"
    using js by (simp_all add: w4_def nth_set_phase)
  then show ?thesis
    using serial_per_key [OF r4, of 0 1] r4 by auto
qed

end
