(* ===== verification/Query_Work.thy ===== *)
theory Query_Work
  imports Serial_Queue
begin

text \<open>
  \<open>SharedQueryWork\<close> of \<open>apps/server/src/query-work.ts\<close>: identical concurrent reads share one operation, and the
  number of operations in flight and of distinct reads held is bounded.

  A read is known by its index in the list of admitted reads.  The two callbacks that follow the settlement of an
  operation (giving its slot to the next waiting read, and forgetting the shared promise) are separate steps: the
  event loop may run other work between them.
\<close>

datatype read_phase = ReadQueued | ReadStarted | ReadSettled

record shared_read =
  sr_key :: string
  sr_phase :: read_phase
  sr_freed :: bool
  sr_forgotten :: bool

record SharedQueryWork =
  qw_pending :: "(string, nat) jsmap"
  qw_waiting :: "nat list"
  qw_active :: int
  qw_concurrency :: int
  qw_capacity :: int

record query_world = SharedQueryWork +
  qw_reads :: "shared_read list"

definition new_query_work :: "int \<Rightarrow> int \<Rightarrow> queue_error + query_world" where
  "new_query_work concurrency capacity =
     (if \<bar>concurrency\<bar> > 9007199254740991 \<or> concurrency < 1 \<or> \<bar>capacity\<bar> > 9007199254740991 \<or> capacity < concurrency
      then Inl RangeError
      else Inr \<lparr>qw_pending = [], qw_waiting = [], qw_active = 0, qw_concurrency = concurrency, qw_capacity = capacity, qw_reads = []\<rparr>)"

definition query_size :: "query_world \<Rightarrow> nat" where
  "query_size w = length (qw_pending w)"

text \<open>\<open>start\<close>: the operation takes a slot.\<close>

definition start_read :: "nat \<Rightarrow> query_world \<Rightarrow> query_world" where
  "start_read i w = w\<lparr>qw_active := qw_active w + 1, qw_reads := (qw_reads w)[i := (qw_reads w ! i)\<lparr>sr_phase := ReadStarted\<rparr>]\<rparr>"

text \<open>\<open>run\<close>: the promise a caller gets, by index, or the refusal.\<close>

definition query_run :: "string \<Rightarrow> query_world \<Rightarrow> (queue_error + nat) \<times> query_world" where
  "query_run key w =
     (case map_get (qw_pending w) key of
        Some joined \<Rightarrow> (Inr joined, w)
      | None \<Rightarrow>
          if int (length (qw_pending w)) \<ge> qw_capacity w then (Inl QueueCapacityError, w)
          else let i = length (qw_reads w);
                   w' = w\<lparr>qw_reads := qw_reads w @ [\<lparr>sr_key = key, sr_phase = ReadQueued, sr_freed = False, sr_forgotten = False\<rparr>]\<rparr>;
                   w'' = (if qw_active w < qw_concurrency w then start_read i w' else w'\<lparr>qw_waiting := qw_waiting w @ [i]\<rparr>)
               in (Inr i, w''\<lparr>qw_pending := map_set key i (qw_pending w)\<rparr>))"

definition settle_read :: "nat \<Rightarrow> query_world \<Rightarrow> query_world" where
  "settle_read i w = w\<lparr>qw_reads := (qw_reads w)[i := (qw_reads w ! i)\<lparr>sr_phase := ReadSettled\<rparr>]\<rparr>"

text \<open>The \<open>finally\<close> of the operation: the slot goes to the longest waiting read.\<close>

definition free_slot :: "nat \<Rightarrow> query_world \<Rightarrow> query_world" where
  "free_slot i w =
     (let w' = w\<lparr>qw_active := qw_active w - 1, qw_reads := (qw_reads w)[i := (qw_reads w ! i)\<lparr>sr_freed := True\<rparr>]\<rparr>
      in case qw_waiting w of [] \<Rightarrow> w' | n # rest \<Rightarrow> start_read n (w'\<lparr>qw_waiting := rest\<rparr>))"

text \<open>The \<open>finally\<close> of the shared promise: it is forgotten if it is still the one of its key.\<close>

definition forget_read :: "nat \<Rightarrow> query_world \<Rightarrow> query_world" where
  "forget_read i w =
     (let key = sr_key (qw_reads w ! i)
      in w\<lparr>qw_pending := (if map_get (qw_pending w) key = Some i then map_delete key (qw_pending w) else qw_pending w),
           qw_reads := (qw_reads w)[i := (qw_reads w ! i)\<lparr>sr_forgotten := True\<rparr>]\<rparr>)"

inductive query_step :: "query_world \<Rightarrow> query_world \<Rightarrow> bool" where
  submit_read: "query_step w (snd (query_run key w))"
| settle_read: "i < length (qw_reads w) \<Longrightarrow> sr_phase (qw_reads w ! i) = ReadStarted \<Longrightarrow> query_step w (settle_read i w)"
| free_slot: "i < length (qw_reads w) \<Longrightarrow> sr_phase (qw_reads w ! i) = ReadSettled \<Longrightarrow> \<not> sr_freed (qw_reads w ! i)
    \<Longrightarrow> query_step w (free_slot i w)"
| forget_read: "i < length (qw_reads w) \<Longrightarrow> sr_phase (qw_reads w ! i) = ReadSettled \<Longrightarrow> \<not> sr_forgotten (qw_reads w ! i)
    \<Longrightarrow> query_step w (forget_read i w)"

inductive reachable_query :: "query_world \<Rightarrow> bool" where
  query_new: "new_query_work concurrency capacity = Inr w \<Longrightarrow> reachable_query w"
| query_next: "reachable_query w \<Longrightarrow> query_step w w' \<Longrightarrow> reachable_query w'"

subsection \<open>The invariant\<close>

abbreviation uses_slot :: "shared_read \<Rightarrow> bool" where
  "uses_slot r \<equiv> sr_phase r \<noteq> ReadQueued \<and> \<not> sr_freed r"

definition queued :: "shared_read list \<Rightarrow> nat list" where
  "queued rs = filter (\<lambda>i. sr_phase (rs ! i) = ReadQueued) [0..<length rs]"

definition slots_ok :: "query_world \<Rightarrow> bool" where
  "slots_ok w \<longleftrightarrow> qw_active w = int (length (filter uses_slot (qw_reads w))) \<and> qw_active w \<le> qw_concurrency w
     \<and> qw_waiting w = queued (qw_reads w) \<and> (qw_waiting w \<noteq> [] \<longrightarrow> qw_active w = qw_concurrency w)"

definition shared_ok :: "query_world \<Rightarrow> bool" where
  "shared_ok w \<longleftrightarrow> distinct (map_keys (qw_pending w)) \<and> int (length (qw_pending w)) \<le> qw_capacity w
     \<and> (\<forall>k i. map_get (qw_pending w) k = Some i \<longleftrightarrow>
          i < length (qw_reads w) \<and> sr_key (qw_reads w ! i) = k \<and> \<not> sr_forgotten (qw_reads w ! i))"

definition flags_ok :: "query_world \<Rightarrow> bool" where
  "flags_ok w \<longleftrightarrow> 1 \<le> qw_concurrency w \<and> qw_concurrency w \<le> qw_capacity w
     \<and> (\<forall>r \<in> set (qw_reads w). sr_freed r \<or> sr_forgotten r \<longrightarrow> sr_phase r = ReadSettled)"

definition query_ok :: "query_world \<Rightarrow> bool" where
  "query_ok w \<longleftrightarrow> slots_ok w \<and> shared_ok w \<and> flags_ok w"

lemma length_filter_update:
  "i < length xs \<Longrightarrow> int (length (filter P (xs[i := y]))) =
    int (length (filter P xs)) - (if P (xs ! i) then 1 else 0) + (if P y then 1 else 0)"
proof (induction xs arbitrary: i)
  case (Cons x xs)
  show ?case
  proof (cases i)
    case (Suc m)
    then show ?thesis using Cons.IH [of m] Cons.prems by (auto split: if_splits)
  qed simp
qed simp

lemma queued_update:
  assumes "i < length rs" "sr_phase (rs ! i) \<noteq> ReadQueued" "sr_phase r \<noteq> ReadQueued"
  shows "queued (rs[i := r]) = queued rs"
  unfolding queued_def length_list_update using assms by (intro filter_cong) (auto simp: nth_list_update)

lemma queued_append: "queued (rs @ [r]) = queued rs @ (if sr_phase r = ReadQueued then [length rs] else [])"
  by (auto simp: queued_def nth_append intro: filter_cong)

lemma queued_start:
  assumes "queued rs = n # rest" "sr_phase r \<noteq> ReadQueued"
  shows "queued (rs[n := r]) = rest" "n < length rs" "sr_phase (rs ! n) = ReadQueued"
proof -
  have "n \<in> set (queued rs)" by (simp add: assms(1))
  then show n: "n < length rs" "sr_phase (rs ! n) = ReadQueued" by (auto simp: queued_def)
  have "queued (rs[n := r]) = filter (\<lambda>i. i \<noteq> n) (queued rs)"
    unfolding queued_def length_list_update filter_filter using assms(2) n
    by (intro filter_cong) (auto simp: nth_list_update)
  moreover have "distinct (queued rs)" by (simp add: queued_def)
  ultimately show "queued (rs[n := r]) = rest"
    unfolding assms(1) by (auto simp: filter_id_conv)
qed

lemma slots_ok_run:
  assumes "query_ok w"
  shows "slots_ok (snd (query_run key w))"
proof -
  have ok: "slots_ok w" using assms by (simp add: query_ok_def)
  have "queued (qw_reads w) = []" if "qw_active w < qw_concurrency w"
    using ok that by (auto simp: slots_ok_def)
  then show ?thesis
    using ok by (auto simp: query_run_def start_read_def slots_ok_def queued_append Let_def list_update_append split: option.splits)
qed

lemma shared_ok_run:
  assumes "query_ok w"
  shows "shared_ok (snd (query_run key w))"
proof (cases "map_get (qw_pending w) key = None \<and> int (length (qw_pending w)) < qw_capacity w")
  case True
  then have None: "\<forall>i < length (qw_reads w). sr_key (qw_reads w ! i) = key \<longrightarrow> sr_forgotten (qw_reads w ! i)"
    using assms unfolding query_ok_def shared_ok_def by (metis option.distinct(1))
  have len: "length (map_set key i (qw_pending w)) = Suc (length (qw_pending w))" for i
    using True by (simp add: length_map_set map_get_None_iff)
  show ?thesis
    using True assms None len
    by (auto simp: query_run_def start_read_def query_ok_def shared_ok_def Let_def nth_append list_update_append
        intro: distinct_keys_set)
next
  case False
  then show ?thesis using assms by (auto simp: query_run_def query_ok_def split: option.splits)
qed

lemma flags_ok_run:
  assumes "query_ok w"
  shows "flags_ok (snd (query_run key w))"
  using assms by (auto simp: query_run_def start_read_def query_ok_def flags_ok_def Let_def list_update_append split: option.splits)

lemma query_ok_update:
  assumes "query_ok w" "i < length (qw_reads w)" "sr_phase (qw_reads w ! i) \<noteq> ReadQueued"
    "sr_key r = sr_key (qw_reads w ! i)" "sr_freed r = sr_freed (qw_reads w ! i)" "sr_forgotten r = sr_forgotten (qw_reads w ! i)"
    "sr_phase r = ReadSettled"
  shows "query_ok (w\<lparr>qw_reads := (qw_reads w)[i := r]\<rparr>)"
  using assms
  by (auto simp: query_ok_def slots_ok_def shared_ok_def flags_ok_def length_filter_update queued_update nth_list_update
      dest!: set_update_subset_insert [THEN subsetD])

lemma query_ok_free:
  assumes ok: "query_ok w" and i: "i < length (qw_reads w)" "sr_phase (qw_reads w ! i) = ReadSettled" "\<not> sr_freed (qw_reads w ! i)"
  shows "query_ok (free_slot i w)"
proof -
  define rs where "rs = (qw_reads w)[i := (qw_reads w ! i)\<lparr>sr_freed := True\<rparr>]"
  have q: "queued rs = qw_waiting w"
    using ok i by (simp add: rs_def queued_update query_ok_def slots_ok_def)
  have a: "int (length (filter uses_slot rs)) = qw_active w - 1"
    using ok i by (simp add: rs_def length_filter_update query_ok_def slots_ok_def)
  have base: "flags_ok (w\<lparr>qw_reads := rs\<rparr>)" "shared_ok (w\<lparr>qw_reads := rs\<rparr>)"
    using ok i by (auto simp: rs_def query_ok_def flags_ok_def shared_ok_def nth_list_update dest!: set_update_subset_insert [THEN subsetD])
  show ?thesis
  proof (cases "qw_waiting w")
    case Nil
    then show ?thesis
      using ok base q a by (simp add: free_slot_def query_ok_def slots_ok_def shared_ok_def flags_ok_def Let_def flip: rs_def)
  next
    case (Cons n rest)
    define r where "r = (rs ! n)\<lparr>sr_phase := ReadStarted\<rparr>"
    have n: "queued (rs[n := r]) = rest" "n < length rs" "sr_phase (rs ! n) = ReadQueued"
      by (rule queued_start [of rs n rest r]; simp add: q Cons r_def)+
    have m: "rs ! n \<in> set rs" using n(2) by simp
    then have f: "\<not> sr_freed (rs ! n)" "\<not> sr_forgotten (rs ! n)"
      using base(1) n(3) by (auto simp: flags_ok_def)
    have full: "qw_active w = qw_concurrency w"
      using ok Cons by (simp add: query_ok_def slots_ok_def)
    have eq: "free_slot i w = w\<lparr>qw_active := qw_active w, qw_waiting := rest, qw_reads := rs[n := r]\<rparr>"
      by (simp add: free_slot_def Let_def Cons start_read_def r_def flip: rs_def)
    have "int (length (filter uses_slot (rs[n := r]))) = qw_active w"
      using n f a by (simp add: length_filter_update r_def)
    then have "slots_ok (free_slot i w)"
      unfolding eq using n full by (simp add: slots_ok_def)
    moreover have "shared_ok (free_slot i w)" "flags_ok (free_slot i w)"
      unfolding eq using base n f
      by (auto simp: shared_ok_def flags_ok_def r_def nth_list_update dest!: set_update_subset_insert [THEN subsetD])
    ultimately show ?thesis by (simp add: query_ok_def)
  qed
qed

lemma query_ok_forget:
  assumes ok: "query_ok w" and i: "i < length (qw_reads w)" "sr_phase (qw_reads w ! i) = ReadSettled" "\<not> sr_forgotten (qw_reads w ! i)"
  shows "query_ok (forget_read i w)"
proof -
  let ?k = "sr_key (qw_reads w ! i)"
  have p: "map_get (qw_pending w) ?k = Some i"
    using ok i by (simp add: query_ok_def shared_ok_def)
  have eq: "forget_read i w = w\<lparr>qw_pending := map_delete ?k (qw_pending w),
      qw_reads := (qw_reads w)[i := (qw_reads w ! i)\<lparr>sr_forgotten := True\<rparr>]\<rparr>"
    by (simp add: forget_read_def p Let_def)
  have only: "j = i" if "j < length (qw_reads w)" "sr_key (qw_reads w ! j) = ?k" "\<not> sr_forgotten (qw_reads w ! j)" for j
    using ok p that unfolding query_ok_def shared_ok_def by (metis option.inject)
  have "length (map_delete ?k (qw_pending w)) \<le> length (qw_pending w)"
    by (simp add: AList.delete_eq)
  then have "shared_ok (forget_read i w)"
    unfolding eq using ok only i by (auto simp: query_ok_def shared_ok_def nth_list_update intro: distinct_keys_delete)
  moreover have "slots_ok (forget_read i w)"
    unfolding eq using ok i by (auto simp: query_ok_def slots_ok_def length_filter_update queued_update)
  moreover have "flags_ok (forget_read i w)"
    unfolding eq using ok i by (auto simp: query_ok_def flags_ok_def dest!: set_update_subset_insert [THEN subsetD])
  ultimately show ?thesis by (simp add: query_ok_def)
qed

lemma query_ok_step:
  assumes "query_step w w'" "query_ok w"
  shows "query_ok w'"
  using assms
proof cases
  case (submit_read key)
  then show ?thesis
    using slots_ok_run [OF assms(2)] shared_ok_run [OF assms(2)] flags_ok_run [OF assms(2)] by (simp add: query_ok_def)
next
  case (settle_read i)
  then show ?thesis using assms(2) by (auto simp: settle_read_def intro: query_ok_update)
next
  case (free_slot i)
  then show ?thesis using assms(2) by (auto intro: query_ok_free)
next
  case (forget_read i)
  then show ?thesis using assms(2) by (auto intro: query_ok_forget)
qed

lemma reachable_query_ok: "reachable_query w \<Longrightarrow> query_ok w"
proof (induction rule: reachable_query.induct)
  case (query_new concurrency capacity w)
  then show ?case
    by (auto simp: new_query_work_def query_ok_def slots_ok_def shared_ok_def flags_ok_def queued_def split: if_splits)
qed (rule query_ok_step)

text \<open>
  Shared reads are bounded, deduplicated and work-conserving: at most \<open>concurrency\<close> operations hold a slot, a
  read waits only while every slot is taken and waiting reads are served first come first served, at most
  \<open>capacity\<close> distinct reads are held, and of two unforgotten reads of the same key there is only one, so a
  concurrent identical read joins it while a read after it was forgotten starts a new operation.
\<close>

theorem shared_reads_bounded:
  assumes "reachable_query w"
  shows "int (length (filter uses_slot (qw_reads w))) \<le> qw_concurrency w
    \<and> qw_waiting w = filter (\<lambda>i. sr_phase (qw_reads w ! i) = ReadQueued) [0..<length (qw_reads w)]
    \<and> (qw_waiting w \<noteq> [] \<longrightarrow> int (length (filter uses_slot (qw_reads w))) = qw_concurrency w)
    \<and> int (query_size w) \<le> qw_capacity w
    \<and> (\<forall>k. fst (query_run k w) =
         (case filter (\<lambda>i. sr_key (qw_reads w ! i) = k \<and> \<not> sr_forgotten (qw_reads w ! i)) [0..<length (qw_reads w)] of
            i # _ \<Rightarrow> Inr i
          | [] \<Rightarrow> if int (query_size w) = qw_capacity w then Inl QueueCapacityError else Inr (length (qw_reads w))))"
proof -
  have ok: "slots_ok w" "shared_ok w"
    using reachable_query_ok [OF assms] by (simp_all add: query_ok_def)
  have "fst (query_run k w) =
      (case filter (\<lambda>i. sr_key (qw_reads w ! i) = k \<and> \<not> sr_forgotten (qw_reads w ! i)) [0..<length (qw_reads w)] of
         i # _ \<Rightarrow> Inr i
       | [] \<Rightarrow> if int (query_size w) = qw_capacity w then Inl QueueCapacityError else Inr (length (qw_reads w)))" for k
  proof (cases "map_get (qw_pending w) k")
    case None
    then have "filter (\<lambda>i. sr_key (qw_reads w ! i) = k \<and> \<not> sr_forgotten (qw_reads w ! i)) [0..<length (qw_reads w)] = []"
      using ok(2) unfolding filter_empty_conv shared_ok_def by (metis atLeastLessThan_iff option.distinct(1) set_upt)
    then show ?thesis
      using None ok(2) by (auto simp: query_run_def query_size_def shared_ok_def Let_def)
  next
    case (Some i)
    let ?f = "filter (\<lambda>i. sr_key (qw_reads w ! i) = k \<and> \<not> sr_forgotten (qw_reads w ! i)) [0..<length (qw_reads w)]"
    have "set ?f = {i}"
      using Some ok(2) unfolding shared_ok_def by (auto; metis option.inject)
    then obtain rest where "?f = i # rest"
      by (cases ?f) auto
    then show ?thesis using Some by (simp add: query_run_def)
  qed
  then show ?thesis
    using ok by (auto simp: slots_ok_def queued_def shared_ok_def query_size_def)
qed

definition demo_query :: query_world where
  "demo_query = snd (query_run ''b'' (snd (query_run ''a''
     \<lparr>qw_pending = [], qw_waiting = [], qw_active = 0, qw_concurrency = 1, qw_capacity = 2, qw_reads = []\<rparr>)))"

theorem shared_reads_bounded_witness:
  "qw_waiting demo_query = [1] \<and> fst (query_run ''a'' demo_query) = Inr 0 \<and> fst (query_run ''c'' demo_query) = Inl QueueCapacityError"
proof -
  have "reachable_query \<lparr>qw_pending = [], qw_waiting = [], qw_active = 0, qw_concurrency = 1, qw_capacity = 2, qw_reads = []\<rparr>"
    by (rule query_new [of 1 2]) (simp add: new_query_work_def)
  then have r: "reachable_query demo_query"
    unfolding demo_query_def by (intro query_next [OF _ query_step.submit_read])
  have q: "qw_reads demo_query = [\<lparr>sr_key = ''a'', sr_phase = ReadStarted, sr_freed = False, sr_forgotten = False\<rparr>,
      \<lparr>sr_key = ''b'', sr_phase = ReadQueued, sr_freed = False, sr_forgotten = False\<rparr>]" "query_size demo_query = 2"
      "qw_capacity demo_query = 2"
    by (simp_all add: demo_query_def query_run_def start_read_def query_size_def Let_def)
  have u: "[0..<length (qw_reads demo_query)] = [0, 1]"
    by (simp add: q upt_rec)
  show ?thesis
    using shared_reads_bounded [OF r] unfolding u by (simp add: q)
qed

end
