(* ===== verification/Lifecycle.thy ===== *)
theory Lifecycle
  imports Auth
begin

text \<open>
  \<open>apps/server/src/lifecycle.ts\<close>: timers for deadlines further away than a timer can wait, and tasks that never overlap.

  The wall clock, which \<open>Date.now\<close> reads and an administrator may set, and the monotonic clock, which drives
  \<open>setTimeout\<close>, are separate fields of the world.  A due timer may be arbitrarily late.  Within one callback the clock
  does not move.
\<close>

definition MAX_TIMEOUT_MS :: int where "MAX_TIMEOUT_MS = 2 ^ 31 - 1"

text \<open>The two sources of the remaining time; \<open>None\<close> is a deadline that is not finite.\<close>

definition deadline_remaining :: "int option \<Rightarrow> int \<Rightarrow> int" where
  "deadline_remaining deadline now = (case deadline of None \<Rightarrow> 0 | Some d \<Rightarrow> max 0 (d - now))"

definition session_remaining :: "SessionValue \<Rightarrow> int \<Rightarrow> int" where
  "session_remaining session now = millisecondsUntilSessionExpiry session now"

record expiry_world =
  xw_wall :: int
  xw_mono :: int
  xw_timer :: "int option"
  xw_stopped :: bool
  xw_cancelled :: bool
  xw_expired :: "int list"

definition schedule :: "(int \<Rightarrow> int) \<Rightarrow> expiry_world \<Rightarrow> expiry_world" where
  "schedule remaining w = w\<lparr>xw_timer := Some (xw_mono w + min MAX_TIMEOUT_MS (max 0 (remaining (xw_wall w))))\<rparr>"

text \<open>The timer callback; \<open>xw_expired\<close> records the wall-clock times of the calls of \<open>onExpire\<close>.\<close>

definition check_expiry :: "(int \<Rightarrow> int) \<Rightarrow> expiry_world \<Rightarrow> expiry_world" where
  "check_expiry remaining w =
     (let w1 = w\<lparr>xw_timer := None\<rparr>
      in if xw_stopped w1 then w1
         else if remaining (xw_wall w1) > 0 then schedule remaining w1
         else w1\<lparr>xw_stopped := True, xw_expired := xw_expired w1 @ [xw_wall w1]\<rparr>)"

definition scheduleExpiry :: "(int \<Rightarrow> int) \<Rightarrow> int \<Rightarrow> int \<Rightarrow> expiry_world" where
  "scheduleExpiry remaining wall clock =
     schedule remaining \<lparr>xw_wall = wall, xw_mono = clock, xw_timer = None, xw_stopped = False, xw_cancelled = False, xw_expired = []\<rparr>"

definition cancel_expiry :: "expiry_world \<Rightarrow> expiry_world" where
  "cancel_expiry w = w\<lparr>xw_stopped := True, xw_timer := None, xw_cancelled := True\<rparr>"

definition scheduleAtDeadline :: "int option \<Rightarrow> int \<Rightarrow> int \<Rightarrow> expiry_world" where
  "scheduleAtDeadline deadline = scheduleExpiry (deadline_remaining deadline)"

definition scheduleSessionExpiry :: "SessionValue \<Rightarrow> int \<Rightarrow> int \<Rightarrow> expiry_world" where
  "scheduleSessionExpiry session = scheduleExpiry (session_remaining session)"

text \<open>Time passes, with or without an adjustment of the wall clock; a due timer fires; the owner cancels.\<close>

inductive expiry_step :: "(int \<Rightarrow> int) \<Rightarrow> int \<Rightarrow> expiry_world \<Rightarrow> expiry_world \<Rightarrow> bool" for remaining where
  time_passes: "0 \<le> d \<Longrightarrow> expiry_step remaining adjustment w (w\<lparr>xw_mono := xw_mono w + d, xw_wall := xw_wall w + d + adjustment\<rparr>)"
| timer_fires: "xw_timer w = Some t \<Longrightarrow> t \<le> xw_mono w \<Longrightarrow> expiry_step remaining 0 w (check_expiry remaining w)"
| cancels: "expiry_step remaining 0 w (cancel_expiry w)"

inductive expiry_reachable :: "(int \<Rightarrow> int) \<Rightarrow> bool \<Rightarrow> expiry_world \<Rightarrow> bool" for remaining adjusts where
  expiry_start: "expiry_reachable remaining adjusts (scheduleExpiry remaining wall clock)"
| expiry_next: "expiry_reachable remaining adjusts w \<Longrightarrow> expiry_step remaining adjustment w w' \<Longrightarrow> adjustment = 0 \<or> adjusts
    \<Longrightarrow> expiry_reachable remaining adjusts w'"

inductive_cases expiry_stepE: "expiry_step remaining adjustment w w'"

subsection \<open>Expiry happens once, not early, and not late\<close>

definition expiry_ok :: "(int \<Rightarrow> int) \<Rightarrow> expiry_world \<Rightarrow> bool" where
  "expiry_ok remaining w \<longleftrightarrow> (xw_timer w = None \<longleftrightarrow> xw_stopped w)
     \<and> (if xw_stopped w then xw_cancelled w \<or> length (xw_expired w) = 1 else xw_expired w = [] \<and> \<not> xw_cancelled w)
     \<and> length (xw_expired w) \<le> 1 \<and> (\<forall>t \<in> set (xw_expired w). remaining t \<le> 0)"

lemma expiry_ok_start: "expiry_ok remaining (scheduleExpiry remaining wall clock)"
  by (simp add: expiry_ok_def scheduleExpiry_def schedule_def)

lemma expiry_ok_step: "expiry_step remaining adjustment w w' \<Longrightarrow> expiry_ok remaining w \<Longrightarrow> expiry_ok remaining w'"
  by (erule expiry_stepE) (auto simp: expiry_ok_def check_expiry_def schedule_def cancel_expiry_def Let_def)

lemma expiry_reachable_ok: "expiry_reachable remaining adjusts w \<Longrightarrow> expiry_ok remaining w"
  by (induction rule: expiry_reachable.induct) (auto intro: expiry_ok_start expiry_ok_step)

text \<open>Without adjustments the timer is never set for a time after the deadline.\<close>

definition counts_down :: "(int \<Rightarrow> int) \<Rightarrow> bool" where
  "counts_down remaining \<longleftrightarrow> (\<forall>t d. 0 \<le> d \<longrightarrow> remaining (t + d) = max 0 (remaining t - d))"

lemma counts_down_nonneg: "counts_down remaining \<Longrightarrow> 0 \<le> remaining t"
  unfolding counts_down_def by (metis add_0_right max.cobounded1 order.refl)

lemma remaining_counts_down: "counts_down (deadline_remaining deadline)" "counts_down (session_remaining session)"
  by (auto simp: counts_down_def deadline_remaining_def session_remaining_def millisecondsUntilSessionExpiry_def split: option.splits)

lemma timer_in_time:
  assumes "counts_down remaining"
  shows "expiry_reachable remaining False w \<Longrightarrow> xw_timer w = Some t \<Longrightarrow> t \<le> xw_mono w + remaining (xw_wall w)"
proof (induction arbitrary: t rule: expiry_reachable.induct)
  case (expiry_start wall clock)
  then show ?case
    using counts_down_nonneg [OF assms, of wall] by (auto simp: scheduleExpiry_def schedule_def)
next
  case (expiry_next w adjustment w')
  from expiry_next.hyps(2) show ?case
  proof cases
    case (time_passes d)
    then have "remaining (xw_wall w') = max 0 (remaining (xw_wall w) - d)"
      using assms expiry_next.hyps(3) by (simp add: counts_down_def)
    then show ?thesis
      using expiry_next.IH [of t] expiry_next.prems time_passes by (simp add: max_def split: if_splits)
  next
    case (timer_fires t')
    then show ?thesis
      using expiry_next.prems counts_down_nonneg [OF assms, of "xw_wall w"]
      by (auto simp: check_expiry_def schedule_def Let_def split: if_splits)
  next
    case cancels
    then show ?thesis using expiry_next.prems by (simp add: cancel_expiry_def)
  qed
qed

text \<open>
  The expiry callback of a session or deadline runs at most once, never after it was cancelled first, and only at
  a moment at which the wall clock has reached the deadline, however the clock was set meanwhile; until it runs or is
  cancelled a timer is armed, and no timer waits longer than \<open>setTimeout\<close> supports.  If the clock is not set, then
  from the deadline on that timer is due, and when it fires the callback runs.
\<close>

theorem expiry_once_and_in_time:
  assumes "expiry_reachable remaining adjusts w" "counts_down remaining"
  shows "length (xw_expired w) \<le> 1 \<and> (\<forall>t \<in> set (xw_expired w). remaining t = 0)
    \<and> (\<not> xw_stopped w \<longleftrightarrow> xw_expired w = [] \<and> \<not> xw_cancelled w)
    \<and> (\<not> xw_stopped w \<longleftrightarrow> xw_timer w \<noteq> None)
    \<and> xw_expired (check_expiry remaining (cancel_expiry w)) = xw_expired w
    \<and> (\<exists>d. xw_timer (schedule remaining w) = Some (xw_mono w + d) \<and> 0 \<le> d \<and> d < 2 ^ 31)
    \<and> (\<not> adjusts \<and> \<not> xw_stopped w \<and> remaining (xw_wall w) = 0 \<longrightarrow>
         (\<exists>t. xw_timer w = Some t \<and> t \<le> xw_mono w) \<and> xw_expired (check_expiry remaining w) = [xw_wall w])"
proof (intro conjI impI)
  have ok: "expiry_ok remaining w" by (rule expiry_reachable_ok [OF assms(1)])
  show "\<forall>t \<in> set (xw_expired w). remaining t = 0"
    using ok counts_down_nonneg [OF assms(2)] by (auto simp: expiry_ok_def intro: order.antisym)
  show "length (xw_expired w) \<le> 1" "\<not> xw_stopped w \<longleftrightarrow> xw_timer w \<noteq> None"
    using ok by (simp_all add: expiry_ok_def)
  show "\<not> xw_stopped w \<longleftrightarrow> xw_expired w = [] \<and> \<not> xw_cancelled w"
    using ok by (auto simp: expiry_ok_def split: if_splits)
  show "xw_expired (check_expiry remaining (cancel_expiry w)) = xw_expired w"
    by (simp add: check_expiry_def cancel_expiry_def)
  show "\<exists>d. xw_timer (schedule remaining w) = Some (xw_mono w + d) \<and> 0 \<le> d \<and> d < 2 ^ 31"
    by (auto simp: schedule_def MAX_TIMEOUT_MS_def)
  assume late: "\<not> adjusts \<and> \<not> xw_stopped w \<and> remaining (xw_wall w) = 0"
  then obtain t where t: "xw_timer w = Some t"
    using ok by (cases "xw_timer w") (auto simp: expiry_ok_def)
  then show "\<exists>t. xw_timer w = Some t \<and> t \<le> xw_mono w"
    using timer_in_time [OF assms(2), of w t] assms(1) late by simp
  show "xw_expired (check_expiry remaining w) = [xw_wall w]"
    using ok late by (simp add: check_expiry_def expiry_ok_def)
qed

theorem expiry_once_and_in_time_witness:
  "xw_expired (check_expiry (deadline_remaining (Some 50)) (scheduleAtDeadline (Some 50) 60 0)) = [60]"
proof -
  have "expiry_reachable (deadline_remaining (Some 50)) False (scheduleAtDeadline (Some 50) 60 0)"
    unfolding scheduleAtDeadline_def by (rule expiry_start)
  then show ?thesis
    using expiry_once_and_in_time [OF _ remaining_counts_down(1), of "Some 50" False "scheduleAtDeadline (Some 50) 60 0"]
    by (simp add: scheduleAtDeadline_def scheduleExpiry_def schedule_def deadline_remaining_def MAX_TIMEOUT_MS_def)
qed

subsection \<open>Tasks that never overlap\<close>

text \<open>
  \<open>nonOverlappingTask\<close>.  A run is known by its index.  It settles, a failure is reported to \<open>onError\<close>, and then the
  \<open>finally\<close> callback forgets it: only after that do the callers, who hold the promise of the whole chain, see it settled.
\<close>

datatype run_phase = InProgress | Ended bool | Finished bool

record task_world =
  tk_inFlight :: "nat option"
  tk_runs :: "run_phase list"
  tk_errors :: "nat list"

definition new_task :: task_world where
  "new_task = \<lparr>tk_inFlight = None, tk_runs = [], tk_errors = []\<rparr>"

definition task_run :: "task_world \<Rightarrow> nat \<times> task_world" where
  "task_run w =
     (case tk_inFlight w of
        Some i \<Rightarrow> (i, w)
      | None \<Rightarrow> (length (tk_runs w), w\<lparr>tk_inFlight := Some (length (tk_runs w)), tk_runs := tk_runs w @ [InProgress]\<rparr>))"

definition task_settle :: "nat \<Rightarrow> bool \<Rightarrow> task_world \<Rightarrow> task_world" where
  "task_settle i ok w = w\<lparr>tk_runs := (tk_runs w)[i := Ended ok], tk_errors := (if ok then tk_errors w else tk_errors w @ [i])\<rparr>"

definition task_finally :: "nat \<Rightarrow> bool \<Rightarrow> task_world \<Rightarrow> task_world" where
  "task_finally i ok w = w\<lparr>tk_inFlight := None, tk_runs := (tk_runs w)[i := Finished ok]\<rparr>"

text \<open>What \<open>drain\<close> waits for.\<close>

definition task_drain :: "task_world \<Rightarrow> nat option" where
  "task_drain w = tk_inFlight w"

inductive task_step :: "task_world \<Rightarrow> task_world \<Rightarrow> bool" where
  task_called: "task_step w (snd (task_run w))"
| task_settled: "i < length (tk_runs w) \<Longrightarrow> tk_runs w ! i = InProgress \<Longrightarrow> task_step w (task_settle i ok w)"
| task_forgotten: "i < length (tk_runs w) \<Longrightarrow> tk_runs w ! i = Ended ok \<Longrightarrow> task_step w (task_finally i ok w)"

inductive_cases task_stepE: "task_step w w'"

inductive task_reachable :: "task_world \<Rightarrow> bool" where
  task_new: "task_reachable new_task"
| task_next: "task_reachable w \<Longrightarrow> task_step w w' \<Longrightarrow> task_reachable w'"

fun run_finished :: "run_phase \<Rightarrow> bool" where
  "run_finished (Finished ok) = True"
| "run_finished InProgress = False"
| "run_finished (Ended ok) = False"

definition task_ok :: "task_world \<Rightarrow> bool" where
  "task_ok w \<longleftrightarrow> (\<forall>i < length (tk_runs w). \<not> run_finished (tk_runs w ! i) \<longleftrightarrow> tk_inFlight w = Some i)
     \<and> (\<forall>i. tk_inFlight w = Some i \<longrightarrow> i < length (tk_runs w))
     \<and> distinct (tk_errors w)
     \<and> (\<forall>i. i \<in> set (tk_errors w) \<longleftrightarrow> i < length (tk_runs w) \<and> (tk_runs w ! i = Ended False \<or> tk_runs w ! i = Finished False))"

lemma task_ok_step:
  assumes "task_step w w'" "task_ok w"
  shows "task_ok w'"
  using assms(1)
proof cases
  case task_called
  then show ?thesis
    using assms(2) by (auto simp: task_run_def task_ok_def nth_append split: option.splits)
next
  case (task_settled i ok)
  then show ?thesis
    using assms(2) by (auto simp: task_settle_def task_ok_def nth_list_update split: if_splits)
next
  case (task_forgotten i ok)
  then have "tk_inFlight w = Some i"
    using assms(2) by (auto simp: task_ok_def)
  then show ?thesis
    using assms(2) task_forgotten by (auto simp: task_finally_def task_ok_def nth_list_update split: if_splits)
qed

lemma task_reachable_ok: "task_reachable w \<Longrightarrow> task_ok w"
proof (induction rule: task_reachable.induct)
  case task_new
  show ?case by (simp add: task_ok_def new_task_def)
qed (rule task_ok_step)

text \<open>
  At most one run is unfinished, every caller meanwhile gets that run, and so does \<open>drain\<close>; a call starts a new run exactly
  when none is unfinished; and each failed run is reported exactly once.
\<close>

lemma tasks_never_overlap:
  assumes "task_reachable w"
  shows "(\<forall>i < length (tk_runs w). \<not> run_finished (tk_runs w ! i) \<longrightarrow> fst (task_run w) = i \<and> task_drain w = Some i \<and> snd (task_run w) = w)
    \<and> ((\<forall>i < length (tk_runs w). run_finished (tk_runs w ! i)) \<longrightarrow> fst (task_run w) = length (tk_runs w))
    \<and> distinct (tk_errors w) \<and> (\<forall>i < length (tk_runs w). tk_runs w ! i = Finished False \<longrightarrow> i \<in> set (tk_errors w))"
  using task_reachable_ok [OF assms] by (auto simp: task_ok_def task_run_def task_drain_def split: option.splits)

end
