(* ===== verification/Ttl_Cache.thy ===== *)
theory Ttl_Cache
  imports Prelude
begin

text \<open>
  \<open>BoundedTtlCache\<close> of \<open>apps/server/src/storage/cache.ts\<close>: a cache of read models, bounded by number of entries and by
  bytes, with expiry and least-recently-used eviction.

  The values are opaque.  \<open>estimateBytes\<close> is a parameter of \<open>set\<close> (\<open>size_of\<close>): twice the length of the value's
  JSON text, \<open>None\<close> standing for the infinity it returns when a value cannot be printed.  The map's insertion order is
  the order of use, oldest first.
\<close>

record 'v CacheEntry =
  ce_value :: 'v
  ce_bytes :: int
  ce_expiresAt :: int

record 'v BoundedTtlCache =
  bc_entries :: "(string, 'v CacheEntry) jsmap"
  bc_bytes :: int
  bc_hits :: int
  bc_misses :: int
  bc_evictions :: int
  bc_maxEntries :: int
  bc_maxBytes :: int
  bc_ttlMs :: int

record CacheStats =
  cs_hits :: int
  cs_misses :: int
  cs_entries :: nat
  cs_bytes :: int
  cs_evictions :: int

datatype cache_error = CacheRangeError

definition new_cache :: "int \<Rightarrow> int \<Rightarrow> int \<Rightarrow> cache_error + 'v BoundedTtlCache" where
  "new_cache maxEntries maxBytes ttlMs =
     (if \<bar>maxEntries\<bar> > 9007199254740991 \<or> maxEntries < 1 then Inl CacheRangeError
      else if \<bar>maxBytes\<bar> > 9007199254740991 \<or> maxBytes < 1 then Inl CacheRangeError
      else Inr \<lparr>bc_entries = [], bc_bytes = 0, bc_hits = 0, bc_misses = 0, bc_evictions = 0,
        bc_maxEntries = maxEntries, bc_maxBytes = maxBytes, bc_ttlMs = ttlMs\<rparr>)"

definition cache_enabled :: "'v BoundedTtlCache \<Rightarrow> bool" where
  "cache_enabled c = (bc_ttlMs c > 0)"

definition cache_get :: "int \<Rightarrow> string \<Rightarrow> 'v BoundedTtlCache \<Rightarrow> 'v option \<times> 'v BoundedTtlCache" where
  "cache_get now key c =
     (if \<not> cache_enabled c then (None, c)
      else case map_get (bc_entries c) key of
          None \<Rightarrow> (None, c\<lparr>bc_misses := bc_misses c + 1\<rparr>)
        | Some entry \<Rightarrow>
            if ce_expiresAt entry \<le> now
            then (None, c\<lparr>bc_bytes := bc_bytes c - ce_bytes entry, bc_entries := map_delete key (bc_entries c),
                    bc_misses := bc_misses c + 1\<rparr>)
            else (Some (ce_value entry),
                  c\<lparr>bc_entries := map_set key entry (map_delete key (bc_entries c)), bc_hits := bc_hits c + 1\<rparr>))"

text \<open>\<open>evict\<close>: the loop ends because every pass removes an entry.\<close>

function cache_evict :: "'v BoundedTtlCache \<Rightarrow> 'v BoundedTtlCache" where
  "cache_evict c =
     (if int (length (bc_entries c)) > bc_maxEntries c \<or> bc_bytes c > bc_maxBytes c
      then case bc_entries c of
          [] \<Rightarrow> c
        | (oldest, entry) # rest \<Rightarrow>
            cache_evict (c\<lparr>bc_bytes := bc_bytes c - ce_bytes entry, bc_entries := rest, bc_evictions := bc_evictions c + 1\<rparr>)
      else c)"
  by auto
termination by (relation "measure (\<lambda>c. length (bc_entries c))") auto

declare cache_evict.simps [simp del]

definition cache_set :: "('v \<Rightarrow> nat option) \<Rightarrow> int \<Rightarrow> string \<Rightarrow> 'v \<Rightarrow> int \<Rightarrow> 'v BoundedTtlCache \<Rightarrow> 'v BoundedTtlCache" where
  "cache_set size_of now key v ttlMs c =
     (if \<not> cache_enabled c \<or> ttlMs \<le> 0 then c
      else case size_of v of
          None \<Rightarrow> c
        | Some n \<Rightarrow>
            if int n > bc_maxBytes c then c
            else
              let base = (case map_get (bc_entries c) key of None \<Rightarrow> bc_bytes c | Some previous \<Rightarrow> bc_bytes c - ce_bytes previous)
              in cache_evict (c\<lparr>bc_entries := map_set key \<lparr>ce_value = v, ce_bytes = int n, ce_expiresAt = now + ttlMs\<rparr>
                     (map_delete key (bc_entries c)), bc_bytes := base + int n\<rparr>))"

definition cache_delete :: "string \<Rightarrow> 'v BoundedTtlCache \<Rightarrow> 'v BoundedTtlCache" where
  "cache_delete key c =
     (case map_get (bc_entries c) key of
        None \<Rightarrow> c
      | Some previous \<Rightarrow> c\<lparr>bc_bytes := bc_bytes c - ce_bytes previous, bc_entries := map_delete key (bc_entries c)\<rparr>)"

definition cache_clear :: "'v BoundedTtlCache \<Rightarrow> 'v BoundedTtlCache" where
  "cache_clear c = c\<lparr>bc_entries := [], bc_bytes := 0\<rparr>"

definition cache_stats :: "'v BoundedTtlCache \<Rightarrow> CacheStats" where
  "cache_stats c = \<lparr>cs_hits = bc_hits c, cs_misses = bc_misses c, cs_entries = length (bc_entries c), cs_bytes = bc_bytes c,
     cs_evictions = bc_evictions c\<rparr>"

subsection \<open>Eviction\<close>

definition entry_bytes :: "(string, 'v CacheEntry) jsmap \<Rightarrow> int" where
  "entry_bytes es = sum_list (map (\<lambda>e. ce_bytes (snd e)) es)"

definition fits :: "int \<Rightarrow> int \<Rightarrow> (string, 'v CacheEntry) jsmap \<Rightarrow> bool" where
  "fits maxEntries maxBytes es \<longleftrightarrow> int (length es) \<le> maxEntries \<and> entry_bytes es \<le> maxBytes"

text \<open>Drop as few of the oldest entries as needed.\<close>

definition evicted :: "nat \<Rightarrow> 'v BoundedTtlCache \<Rightarrow> 'v BoundedTtlCache \<Rightarrow> bool" where
  "evicted k c c' \<longleftrightarrow> c' = c\<lparr>bc_entries := drop k (bc_entries c), bc_bytes := entry_bytes (drop k (bc_entries c)),
       bc_evictions := bc_evictions c + int k\<rparr>
     \<and> fits (bc_maxEntries c) (bc_maxBytes c) (drop k (bc_entries c))
     \<and> (\<forall>j < k. \<not> fits (bc_maxEntries c) (bc_maxBytes c) (drop j (bc_entries c)))"

lemma evict_facts:
  assumes "bc_bytes c = entry_bytes (bc_entries c)" "0 \<le> bc_maxEntries c" "0 \<le> bc_maxBytes c"
  shows "\<exists>k. evicted k c (cache_evict c)"
  using assms
proof (induction c rule: cache_evict.induct)
  case (1 c)
  show ?case
  proof (cases "fits (bc_maxEntries c) (bc_maxBytes c) (bc_entries c)")
    case True
    then have "cache_evict c = c"
      using "1.prems"(1) by (subst cache_evict.simps) (auto simp: fits_def)
    then show ?thesis
      using True "1.prems"(1) by (intro exI [of _ 0]) (simp add: evicted_def)
  next
    case False
    then have over: "int (length (bc_entries c)) > bc_maxEntries c \<or> bc_bytes c > bc_maxBytes c"
      using "1.prems"(1) by (auto simp: fits_def)
    obtain key entry rest where es: "bc_entries c = (key, entry) # rest"
      using False "1.prems"(2,3) by (cases "bc_entries c") (auto simp: fits_def entry_bytes_def)
    define c1 where "c1 = c\<lparr>bc_bytes := bc_bytes c - ce_bytes entry, bc_entries := rest, bc_evictions := bc_evictions c + 1\<rparr>"
    have step: "cache_evict c = cache_evict c1"
      using over by (subst cache_evict.simps) (simp add: es c1_def)
    have "\<exists>k. evicted k c1 (cache_evict c1)"
      using "1.IH" [OF over es refl] "1.prems" by (simp add: c1_def es entry_bytes_def)
    then obtain k where k: "evicted k c1 (cache_evict c1)" by blast
    have "\<not> fits (bc_maxEntries c) (bc_maxBytes c) (drop j (bc_entries c))" if "j < Suc k" for j
      using k that False by (cases j) (auto simp: evicted_def c1_def es)
    then have "evicted (Suc k) c (cache_evict c)"
      using k by (simp add: evicted_def step c1_def es)
    then show ?thesis by blast
  qed
qed

text \<open>An entry just stored is the last to go, and it fits alone.\<close>

lemma evicted_keeps_last:
  assumes "evicted k c c'" "bc_entries c = es @ [e]" "1 \<le> bc_maxEntries c" "ce_bytes (snd e) \<le> bc_maxBytes c"
  shows "k \<le> length es" "bc_entries c' = drop k es @ [e]"
proof -
  have "fits (bc_maxEntries c) (bc_maxBytes c) (drop (length es) (bc_entries c))"
    using assms by (simp add: fits_def entry_bytes_def)
  then show k: "k \<le> length es"
    using assms(1) by (auto simp: evicted_def not_less [symmetric])
  show "bc_entries c' = drop k es @ [e]"
    using assms(1,2) k by (simp add: evicted_def)
qed

subsection \<open>The invariant\<close>

definition cache_ok :: "'v BoundedTtlCache \<Rightarrow> bool" where
  "cache_ok c \<longleftrightarrow> distinct (map_keys (bc_entries c)) \<and> bc_bytes c = entry_bytes (bc_entries c)
     \<and> fits (bc_maxEntries c) (bc_maxBytes c) (bc_entries c) \<and> 1 \<le> bc_maxEntries c \<and> 1 \<le> bc_maxBytes c
     \<and> (\<forall>e \<in> set (bc_entries c). 0 \<le> ce_bytes (snd e))"

lemma delete_split:
  assumes "distinct (map_keys m)" "map_get m k = Some e"
  obtains xs ys where "m = xs @ (k, e) # ys" "map_delete k m = xs @ ys"
proof -
  obtain xs ys where m: "m = xs @ (k, e) # ys"
    using assms(2) by (metis map_of_SomeD split_list)
  then have "k \<notin> set (map_keys xs)" "k \<notin> set (map_keys ys)"
    using assms(1) by auto
  moreover have "map_delete k m = map_delete k xs @ map_delete k ys"
    by (simp add: m AList.delete_eq)
  ultimately have "map_delete k m = xs @ ys"
    by simp
  then show ?thesis using that m by blast
qed

lemma entry_bytes_delete:
  "distinct (map_keys m) \<Longrightarrow> map_get m k = Some e \<Longrightarrow> entry_bytes (map_delete k m) = entry_bytes m - ce_bytes e
     \<and> length (map_delete k m) + 1 = length m"
  by (erule delete_split) (auto simp: entry_bytes_def)

lemma delete_absent: "map_get m k = None \<Longrightarrow> map_delete k m = m"
  by (simp add: map_get_None_iff delete_idem)

lemma set_after_delete: "map_set k e (map_delete k m) = map_delete k m @ [(k, e)]"
proof -
  have "k \<notin> set (map_keys xs) \<Longrightarrow> map_set k e xs = xs @ [(k, e)]" for xs
    by (induction xs) auto
  then show ?thesis using delete_notin_dom [of k m] by simp
qed

lemma delete_entry_ok:
  assumes "cache_ok c" "map_get (bc_entries c) key = Some e"
  shows "cache_ok (c\<lparr>bc_bytes := bc_bytes c - ce_bytes e, bc_entries := map_delete key (bc_entries c)\<rparr>)"
proof -
  have "entry_bytes (map_delete key (bc_entries c)) = entry_bytes (bc_entries c) - ce_bytes e"
    "length (map_delete key (bc_entries c)) + 1 = length (bc_entries c)"
    using entry_bytes_delete [of "bc_entries c" key e] assms by (simp_all add: cache_ok_def)
  moreover have "(key, e) \<in> set (bc_entries c)" "set (map_delete key (bc_entries c)) \<subseteq> set (bc_entries c)"
    using assms(2) by (auto simp: map_of_SomeD AList.delete_eq)
  moreover have "0 \<le> ce_bytes e" using assms(1) calculation(3) by (auto simp: cache_ok_def)
  moreover have "distinct (map_keys (map_delete key (bc_entries c)))"
    using assms(1) by (auto simp: cache_ok_def)
  ultimately show ?thesis
    using assms(1) by (auto simp: cache_ok_def fits_def)
qed

lemma cache_ok_irrelevant [simp]:
  "cache_ok (c\<lparr>bc_misses := n\<rparr>) = cache_ok c" "cache_ok (c\<lparr>bc_hits := n\<rparr>) = cache_ok c"
  by (simp_all add: cache_ok_def)

lemma cache_ok_get: "cache_ok c \<Longrightarrow> cache_ok (snd (cache_get now key c))"
proof -
  assume ok: "cache_ok c"
  show ?thesis
  proof (cases "map_get (bc_entries c) key")
    case (Some e)
    have d: "cache_ok (c\<lparr>bc_bytes := bc_bytes c - ce_bytes e, bc_entries := map_delete key (bc_entries c)\<rparr>)"
      by (rule delete_entry_ok [OF ok Some])
    have "entry_bytes (map_delete key (bc_entries c)) = entry_bytes (bc_entries c) - ce_bytes e"
      "length (map_delete key (bc_entries c)) + 1 = length (bc_entries c)"
      using entry_bytes_delete [of "bc_entries c" key e] ok Some by (simp_all add: cache_ok_def)
    moreover have "(key, e) \<in> set (bc_entries c)" using Some by (rule map_of_SomeD)
    ultimately have "cache_ok (c\<lparr>bc_entries := map_set key e (map_delete key (bc_entries c))\<rparr>)"
      using ok d delete_notin_dom [of key "bc_entries c"]
      by (auto simp: set_after_delete cache_ok_def fits_def entry_bytes_def)
    then show ?thesis
      using ok d Some cache_ok_irrelevant by (simp add: cache_get_def cache_ok_def)
  qed (use ok in \<open>simp add: cache_get_def\<close>)
qed

definition storable :: "('v \<Rightarrow> nat option) \<Rightarrow> int \<Rightarrow> 'v \<Rightarrow> 'v BoundedTtlCache \<Rightarrow> bool" where
  "storable size_of ttlMs v c \<longleftrightarrow> cache_enabled c \<and> 0 < ttlMs \<and> (case size_of v of None \<Rightarrow> False | Some n \<Rightarrow> int n \<le> bc_maxBytes c)"

lemma set_not_storable: "\<not> storable size_of ttlMs v c \<Longrightarrow> cache_set size_of now key v ttlMs c = c"
  by (auto simp: storable_def cache_set_def split: option.splits)

lemma set_storable:
  fixes size_of :: "'v \<Rightarrow> nat option" and now ttlMs :: int and key :: string and v c
  assumes "cache_ok c" "storable size_of ttlMs v c"
  defines "e \<equiv> \<lparr>ce_value = v, ce_bytes = int (the (size_of v)), ce_expiresAt = now + ttlMs\<rparr>"
  defines "others \<equiv> map_delete key (bc_entries c)"
  shows "\<exists>k \<le> length others. bc_entries (cache_set size_of now key v ttlMs c) = drop k others @ [(key, e)]
    \<and> (\<forall>j < k. \<not> fits (bc_maxEntries c) (bc_maxBytes c) (drop j others @ [(key, e)]))
    \<and> cache_ok (cache_set size_of now key v ttlMs c)"
proof -
  obtain n where n: "size_of v = Some n" "int n \<le> bc_maxBytes c"
    using assms(2) by (auto simp: storable_def split: option.splits)
  define c1 where "c1 = c\<lparr>bc_entries := others @ [(key, e)], bc_bytes := entry_bytes (others @ [(key, e)])\<rparr>"
  have ok: "distinct (map_keys (bc_entries c))" "bc_bytes c = entry_bytes (bc_entries c)" "1 \<le> bc_maxEntries c" "1 \<le> bc_maxBytes c"
    "\<forall>e \<in> set (bc_entries c). 0 \<le> ce_bytes (snd e)"
    using assms(1) by (simp_all add: cache_ok_def)
  have "(case map_get (bc_entries c) key of None \<Rightarrow> bc_bytes c | Some previous \<Rightarrow> bc_bytes c - ce_bytes previous) = entry_bytes others"
    using ok(1,2) entry_bytes_delete [of "bc_entries c" key] by (auto simp: others_def delete_absent split: option.splits)
  then have set: "cache_set size_of now key v ttlMs c = cache_evict c1"
    using assms(2) n unfolding cache_set_def
    by (simp add: storable_def e_def [symmetric] set_after_delete Let_def)
       (simp add: c1_def others_def e_def n entry_bytes_def set_after_delete)
  obtain k where k: "evicted k c1 (cache_evict c1)"
    using evict_facts [of c1] ok by (auto simp: c1_def)
  have last': "k \<le> length others" "bc_entries (cache_evict c1) = drop k others @ [(key, e)]"
    using evicted_keeps_last [OF k, of others "(key, e)"] ok n by (simp_all add: c1_def e_def)
  have keys: "distinct (map_keys (others @ [(key, e)]))"
    using ok(1) delete_notin_dom [of key "bc_entries c"] by (auto simp: others_def)
  have "distinct (map_keys (drop k others @ [(key, e)]))"
    using keys last'(1) by (metis distinct_drop drop_append drop_eq_Nil2 drop0 drop_map diff_is_0_eq' append_Nil)
  moreover have "\<forall>x \<in> set (drop k others @ [(key, e)]). 0 \<le> ce_bytes (snd x)"
    using ok(5) by (auto simp: others_def e_def AList.delete_eq dest!: in_set_dropD)
  ultimately have "cache_ok (cache_evict c1)"
    using k ok(3,4) last' by (simp add: cache_ok_def evicted_def c1_def)
  moreover have "\<forall>j < k. \<not> fits (bc_maxEntries c) (bc_maxBytes c) (drop j others @ [(key, e)])"
    using k last'(1) by (auto simp: evicted_def c1_def)
  ultimately show ?thesis
    using last' unfolding set by blast
qed

lemma evict_ttl: "bc_ttlMs (cache_evict c) = bc_ttlMs c"
proof (induction c rule: cache_evict.induct)
  case (1 c)
  then show ?case by (subst cache_evict.simps) (auto split: list.splits)
qed

lemma set_ttl: "bc_ttlMs (cache_set size_of now key v ttlMs c) = bc_ttlMs c"
  by (simp add: cache_set_def evict_ttl Let_def split: option.splits)

subsection \<open>What the cache promises\<close>

datatype 'v cache_op = GetOp int string | SetOp int string 'v int | DeleteOp string | ClearOp

fun run_cache :: "('v \<Rightarrow> nat option) \<Rightarrow> 'v cache_op \<Rightarrow> 'v BoundedTtlCache \<Rightarrow> 'v BoundedTtlCache" where
  "run_cache size_of (GetOp now key) c = snd (cache_get now key c)"
| "run_cache size_of (SetOp now key v ttlMs) c = cache_set size_of now key v ttlMs c"
| "run_cache size_of (DeleteOp key) c = cache_delete key c"
| "run_cache size_of ClearOp c = cache_clear c"

text \<open>The specification: an unbounded table of the value last accepted for a key, and until when it is valid.\<close>

fun spec_cache :: "('v \<Rightarrow> nat option) \<Rightarrow> 'v cache_op \<Rightarrow> 'v BoundedTtlCache \<Rightarrow> (string \<rightharpoonup> 'v \<times> int) \<Rightarrow> (string \<rightharpoonup> 'v \<times> int)" where
  "spec_cache size_of (GetOp now key) c m = m"
| "spec_cache size_of (SetOp now key v ttlMs) c m = (if storable size_of ttlMs v c then m(key \<mapsto> (v, now + ttlMs)) else m)"
| "spec_cache size_of (DeleteOp key) c m = m(key := None)"
| "spec_cache size_of ClearOp c m = Map.empty"

text \<open>The log of uses: the key of every hit and of every accepted value, oldest first.\<close>

fun log_use :: "('v \<Rightarrow> nat option) \<Rightarrow> 'v cache_op \<Rightarrow> 'v BoundedTtlCache \<Rightarrow> string list \<Rightarrow> string list" where
  "log_use size_of (GetOp now key) c us = (if fst (cache_get now key c) = None then us else us @ [key])"
| "log_use size_of (SetOp now key v ttlMs) c us = (if storable size_of ttlMs v c then us @ [key] else us)"
| "log_use size_of (DeleteOp key) c us = us"
| "log_use size_of ClearOp c us = us"

text \<open>How many uses of others have passed since the last use of a key.\<close>

definition idle :: "string list \<Rightarrow> string \<Rightarrow> nat" where
  "idle us k = length (takeWhile (\<lambda>u. u \<noteq> k) (rev us))"

inductive cache_run :: "('v \<Rightarrow> nat option) \<Rightarrow> 'v BoundedTtlCache \<Rightarrow> (string \<rightharpoonup> 'v \<times> int) \<Rightarrow> string list \<Rightarrow> bool" for size_of where
  cache_start: "new_cache maxEntries maxBytes ttlMs = Inr c \<Longrightarrow> cache_run size_of c Map.empty []"
| cache_step: "cache_run size_of c m us \<Longrightarrow> cache_run size_of (run_cache size_of op c) (spec_cache size_of op c m) (log_use size_of op c us)"

definition agrees :: "'v BoundedTtlCache \<Rightarrow> (string \<rightharpoonup> 'v \<times> int) \<Rightarrow> bool" where
  "agrees c m \<longleftrightarrow> (\<forall>key e. map_get (bc_entries c) key = Some e \<longrightarrow> m key = Some (ce_value e, ce_expiresAt e))"

lemma map_get_drop: "distinct (map_keys m) \<Longrightarrow> map_get (drop k m) x = Some e \<Longrightarrow> map_get m x = Some e"
  by (metis in_set_dropD map_of_SomeD map_of_eq_Some_iff)

lemma set_agrees:
  assumes "cache_ok c" "agrees c m"
  shows "cache_ok (cache_set size_of now key v ttlMs c)
    \<and> agrees (cache_set size_of now key v ttlMs c) (spec_cache size_of (SetOp now key v ttlMs) c m)"
proof (cases "storable size_of ttlMs v c")
  case True
  let ?e = "\<lparr>ce_value = v, ce_bytes = int (the (size_of v)), ce_expiresAt = now + ttlMs\<rparr>"
  let ?others = "map_delete key (bc_entries c)"
  obtain k where k: "bc_entries (cache_set size_of now key v ttlMs c) = drop k ?others @ [(key, ?e)]"
      "cache_ok (cache_set size_of now key v ttlMs c)"
    using set_storable [OF assms(1) True] by blast
  have "distinct (map_keys ?others)" using assms(1) by (auto simp: cache_ok_def)
  then have "map_get (bc_entries c) x = Some e \<and> x \<noteq> key" if "map_get (drop k ?others) x = Some e" for x e
    using map_get_drop [of ?others k x e] that by (auto split: if_splits)
  then show ?thesis
    using True k assms(2) by (auto simp: agrees_def map_add_Some_iff)
qed (use assms in \<open>simp add: set_not_storable\<close>)

text \<open>The entries stand in the order of their last use.\<close>

definition in_use_order :: "string list \<Rightarrow> 'v BoundedTtlCache \<Rightarrow> bool" where
  "in_use_order us c \<longleftrightarrow> sorted_wrt (\<lambda>a b. idle us b < idle us a) (map_keys (bc_entries c))"

lemma idle_used: "idle (us @ [key]) k = (if k = key then 0 else Suc (idle us k))"
  by (simp add: idle_def)

lemma use_order_moved:
  assumes "sorted_wrt (\<lambda>a b. idle us b < idle us a) ks" "key \<notin> set ks"
  shows "sorted_wrt (\<lambda>a b. idle (us @ [key]) b < idle (us @ [key]) a) (ks @ [key])"
proof -
  have "sorted_wrt (\<lambda>a b. idle (us @ [key]) b < idle (us @ [key]) a) ks"
    using assms by (intro sorted_wrt_mono_rel [OF _ assms(1)]) (auto simp: idle_used)
  then show ?thesis using assms(2) by (auto simp: sorted_wrt_append idle_used)
qed

lemma use_order_deleted:
  "sorted_wrt R (map_keys m) \<Longrightarrow> sorted_wrt R (map_keys (map_delete k m))"
  by (simp add: AList.delete_eq sorted_wrt_map sorted_wrt_filter)

lemma in_use_order_step:
  assumes "cache_ok c" "in_use_order us c"
  shows "in_use_order (log_use size_of op c us) (run_cache size_of op c)"
proof (cases op)
  case (GetOp now key)
  have "key \<notin> set (map_keys (map_delete key (bc_entries c)))" using delete_notin_dom [of key "bc_entries c"] by simp
  note moved = use_order_moved [OF use_order_deleted [OF assms(2) [unfolded in_use_order_def]] this]
  show ?thesis
  proof (cases "fst (cache_get now key c) = None")
    case True
    then show ?thesis
      using assms(2) use_order_deleted by (auto simp: GetOp in_use_order_def cache_get_def split: option.splits if_splits)
  next
    case False
    then obtain e where "bc_entries (snd (cache_get now key c)) = map_set key e (map_delete key (bc_entries c))"
      by (auto simp: cache_get_def split: option.splits if_splits)
    with False moved show ?thesis by (auto simp: GetOp in_use_order_def set_after_delete)
  qed
next
  case (SetOp now key v ttlMs)
  show ?thesis
  proof (cases "storable size_of ttlMs v c")
    case True
    have "key \<notin> set (map_keys (map_delete key (bc_entries c)))" using delete_notin_dom [of key "bc_entries c"] by simp
    note moved = use_order_moved [OF use_order_deleted [OF assms(2) [unfolded in_use_order_def]] this]
    obtain k e where k: "k \<le> length (map_delete key (bc_entries c))"
        "bc_entries (cache_set size_of now key v ttlMs c) = drop k (map_delete key (bc_entries c)) @ [(key, e)]"
      using set_storable [OF assms(1) True] by blast
    then have "map_keys (bc_entries (cache_set size_of now key v ttlMs c)) = drop k (map_keys (map_delete key (bc_entries c)) @ [key])"
      by (simp add: drop_map)
    with True moved show ?thesis by (simp only: SetOp in_use_order_def log_use.simps run_cache.simps if_True sorted_wrt_drop)
  qed (use assms(2) in \<open>simp add: SetOp set_not_storable\<close>)
next
  case (DeleteOp key)
  then show ?thesis
    using assms(2) use_order_deleted by (auto simp: in_use_order_def cache_delete_def split: option.split)
qed (simp add: in_use_order_def cache_clear_def)

lemma cache_run_ok: "cache_run size_of c m us \<Longrightarrow> cache_ok c \<and> agrees c m"
proof (induction rule: cache_run.induct)
  case (cache_start maxEntries maxBytes ttlMs c)
  then show ?case
    by (auto simp: new_cache_def cache_ok_def agrees_def fits_def entry_bytes_def split: if_splits)
next
  case (cache_step c m us op)
  then have ok: "cache_ok c" "agrees c m" by simp_all
  show ?case
  proof (cases op)
    case (GetOp now key)
    then show ?thesis
      using ok cache_ok_get [OF ok(1), of now key] by (auto simp: cache_get_def agrees_def split: option.splits)
  next
    case (SetOp now key v ttlMs)
    then show ?thesis using set_agrees [OF ok] by simp
  next
    case (DeleteOp key)
    then show ?thesis
      using ok delete_entry_ok [OF ok(1), of key] by (auto simp: cache_delete_def agrees_def split: option.splits)
  next
    case ClearOp
    then show ?thesis
      using ok by (auto simp: cache_clear_def cache_ok_def agrees_def fits_def entry_bytes_def)
  qed
qed

lemma cache_run_ordered: "cache_run size_of c m us \<Longrightarrow> in_use_order us c"
proof (induction rule: cache_run.induct)
  case (cache_start maxEntries maxBytes ttlMs c)
  then show ?case by (auto simp: new_cache_def in_use_order_def split: if_splits)
next
  case (cache_step c m us op)
  then show ?case using cache_run_ok in_use_order_step by blast
qed

text \<open>
  C21: the cache refines an unbounded table: after any sequence of operations a hit is the value last accepted for its key,
  still within its time to live; the cache never holds more entries or bytes than allowed, and its byte count is that of
  its entries; a value just stored is found until it expires, whatever had to be evicted for it; only as many entries as
  necessary are evicted for it, and every evicted one was used (hit or stored) longer ago than every one that stays; a
  deleted key is not found.
\<close>

theorem cache_refines_table:
  fixes size_of :: "'v \<Rightarrow> nat option" and now now' ttlMs :: int and key :: string and v :: 'v
  assumes "cache_run size_of c m us"
  defines "c' \<equiv> cache_set size_of now key v ttlMs c"
  shows "(fst (cache_get now key c) = Some w \<longrightarrow> (\<exists>t. m key = Some (w, t) \<and> now < t))
    \<and> fits (bc_maxEntries c) (bc_maxBytes c) (bc_entries c) \<and> cs_bytes (cache_stats c) = entry_bytes (bc_entries c)
    \<and> (storable size_of ttlMs v c \<longrightarrow>
         (now' < now + ttlMs \<longrightarrow> fst (cache_get now' key c') = Some v)
         \<and> (\<exists>k e. bc_entries c' = drop k (map_delete key (bc_entries c)) @ [(key, e)]
              \<and> (\<forall>j < k. \<not> fits (bc_maxEntries c) (bc_maxBytes c) (drop j (map_delete key (bc_entries c)) @ [(key, e)])))
         \<and> (\<forall>a b. a \<in> set (map_keys (map_delete key (bc_entries c))) - set (map_keys (bc_entries c')) \<and> b \<in> set (map_keys (bc_entries c')) - {key}
              \<longrightarrow> idle us b < idle us a))
    \<and> fst (cache_get now key (cache_delete key c)) = None"
proof (intro conjI impI allI)
  have ok: "cache_ok c" "agrees c m" using cache_run_ok [OF assms(1)] by simp_all
  show "\<exists>t. m key = Some (w, t) \<and> now < t" if "fst (cache_get now key c) = Some w"
    using ok(2) that by (auto simp: cache_get_def agrees_def split: if_splits option.splits)
  show "fits (bc_maxEntries c) (bc_maxBytes c) (bc_entries c)" "cs_bytes (cache_stats c) = entry_bytes (bc_entries c)"
    using ok(1) by (simp_all add: cache_ok_def cache_stats_def)
  show "fst (cache_get now key (cache_delete key c)) = None"
    by (auto simp: cache_get_def cache_delete_def cache_enabled_def split: option.splits)
  assume st: "storable size_of ttlMs v c"
  let ?e = "\<lparr>ce_value = v, ce_bytes = int (the (size_of v)), ce_expiresAt = now + ttlMs\<rparr>"
  obtain k where k: "bc_entries c' = drop k (map_delete key (bc_entries c)) @ [(key, ?e)]"
    "\<forall>j < k. \<not> fits (bc_maxEntries c) (bc_maxBytes c) (drop j (map_delete key (bc_entries c)) @ [(key, ?e)])" "cache_ok c'"
    using set_storable [OF ok(1) st] unfolding c'_def by blast
  then show "\<exists>k e. bc_entries c' = drop k (map_delete key (bc_entries c)) @ [(key, e)]
      \<and> (\<forall>j < k. \<not> fits (bc_maxEntries c) (bc_maxBytes c) (drop j (map_delete key (bc_entries c)) @ [(key, e)]))"
    by blast
  have split: "map_keys (map_delete key (bc_entries c)) = map_keys (take k (map_delete key (bc_entries c))) @ map_keys (drop k (map_delete key (bc_entries c)))"
    by (metis append_take_drop_id map_append)
  have "sorted_wrt (\<lambda>a b. idle us b < idle us a) (map_keys (map_delete key (bc_entries c)))"
    using cache_run_ordered [OF assms(1)] by (intro use_order_deleted) (simp add: in_use_order_def)
  then have order: "\<forall>a \<in> set (map_keys (take k (map_delete key (bc_entries c)))). \<forall>b \<in> set (map_keys (drop k (map_delete key (bc_entries c)))). idle us b < idle us a"
    unfolding split sorted_wrt_append by blast
  show "idle us b < idle us a"
    if "a \<in> set (map_keys (map_delete key (bc_entries c))) - set (map_keys (bc_entries c')) \<and> b \<in> set (map_keys (bc_entries c')) - {key}" for a b
    using that order unfolding split k(1) by auto
  have "(key, ?e) \<in> set (bc_entries c')" by (simp add: k(1))
  then have "map_get (bc_entries c') key = Some ?e"
    using k(3) by (intro map_of_is_SomeI) (simp_all add: cache_ok_def)
  moreover have "cache_enabled c'"
    using st by (simp add: c'_def cache_enabled_def storable_def set_ttl)
  ultimately show "fst (cache_get now' key c') = Some v" if "now' < now + ttlMs"
    using that by (simp add: cache_get_def)
qed

definition demo_cache :: "string BoundedTtlCache" where
  "demo_cache = \<lparr>bc_entries = [], bc_bytes = 0, bc_hits = 0, bc_misses = 0, bc_evictions = 0, bc_maxEntries = 1, bc_maxBytes = 20, bc_ttlMs = 10\<rparr>"

theorem cache_refines_table_witness:
  "fst (cache_get 109 ''b'' (cache_set (\<lambda>v. Some (2 * length v)) 100 ''b'' ''value'' 10 (cache_set (\<lambda>v. Some (2 * length v)) 99 ''a'' ''old'' 10 demo_cache)))
     = Some ''value''"
proof -
  let ?size = "\<lambda>v :: string. Some (2 * length v)"
  have "cache_run ?size demo_cache Map.empty []"
    by (rule cache_start [of 1 20 10]) (simp add: new_cache_def demo_cache_def)
  then have "cache_run ?size (run_cache ?size (SetOp 99 ''a'' ''old'' 10) demo_cache) (spec_cache ?size (SetOp 99 ''a'' ''old'' 10) demo_cache Map.empty)
      (log_use ?size (SetOp 99 ''a'' ''old'' 10) demo_cache [])"
    by (rule cache_step)
  then have run: "cache_run ?size (cache_set ?size 99 ''a'' ''old'' 10 demo_cache) (spec_cache ?size (SetOp 99 ''a'' ''old'' 10) demo_cache Map.empty)
      (log_use ?size (SetOp 99 ''a'' ''old'' 10) demo_cache [])"
    by simp
  have "storable ?size 10 ''value'' (cache_set ?size 99 ''a'' ''old'' 10 demo_cache)"
    by code_simp
  then show ?thesis
    using cache_refines_table [OF run, of 100 "''b''" _ 10 "''value''" 109] by simp
qed

end
