(* ===== verification/Js_Text.thy ===== *)
theory Js_Text
  imports LocalStore
begin

text \<open>
  Text and ordering functions of JavaScript that the update check and the console use: decimal printing and reading of
  natural numbers, \<open>split\<close> and \<open>join\<close>, and \<open>Array.prototype.sort\<close> with a comparison function.
\<close>

named_theorems js_text_simps "facts about decimal numbers, split and join"

subsection \<open>Decimal numbers\<close>

text \<open>\<open>String(n)\<close> of a natural number.\<close>

function show_nat :: "nat \<Rightarrow> string" where
  "show_nat n = (if n < 10 then [digit n] else show_nat (n div 10) @ [digit (n mod 10)])"
  by auto
termination by (relation "measure id") auto

declare show_nat.simps [simp del]

text \<open>The pattern \<open>\d+\<close> on a whole text, and the \<open>Number\<close> of such a text.\<close>

definition is_digit :: "char \<Rightarrow> bool" where
  "is_digit c \<longleftrightarrow> digit_val c \<noteq> None"

definition is_digits :: "string \<Rightarrow> bool" where
  "is_digits s \<longleftrightarrow> s \<noteq> [] \<and> list_all is_digit s"

definition digits_val :: "string \<Rightarrow> nat" where
  "digits_val s = fold (\<lambda>c acc. 10 * acc + the (digit_val c)) s 0"

lemma is_digit_digit [simp]: "k < 10 \<Longrightarrow> is_digit (digit k)"
  by (simp add: is_digit_def)

lemma is_digits_show_nat [simp, js_text_simps]: "is_digits (show_nat n)"
proof (induction n rule: show_nat.induct)
  case (1 n)
  then show ?case
    by (subst show_nat.simps) (auto simp: is_digits_def)
qed

lemma digits_val_show_nat [simp, js_text_simps]: "digits_val (show_nat n) = n"
proof (induction n rule: show_nat.induct)
  case (1 n)
  then show ?case
    by (subst show_nat.simps) (auto simp: digits_val_def)
qed

subsection \<open>\<open>split\<close> and \<open>join\<close>\<close>

fun split_on :: "char \<Rightarrow> string \<Rightarrow> string list" where
  "split_on c [] = [[]]"
| "split_on c (x # s) =
     (if x = c then [] # split_on c s
      else case split_on c s of [] \<Rightarrow> [[x]] | p # ps \<Rightarrow> (x # p) # ps)"

fun join_with :: "string \<Rightarrow> string list \<Rightarrow> string" where
  "join_with sep [] = []"
| "join_with sep [p] = p"
| "join_with sep (p # q # ps) = p @ sep @ join_with sep (q # ps)"

lemma split_on_not_Nil [simp]: "split_on c s \<noteq> []"
  by (induction s) (auto split: list.split)

lemma split_on_append:
  "c \<notin> set p \<Longrightarrow> split_on c (p @ c # s) = p # split_on c s"
  by (induction p) auto

lemma split_on_single: "c \<notin> set p \<Longrightarrow> split_on c p = [p]"
  by (induction p) auto

lemma split_join [js_text_simps]:
  "ps \<noteq> [] \<Longrightarrow> \<forall>p \<in> set ps. c \<notin> set p \<Longrightarrow> split_on c (join_with [c] ps) = ps"
proof (induction ps rule: induct_list012)
  case (3 p q ps)
  then show ?case by (simp add: split_on_append)
qed (simp_all add: split_on_single)

lemma join_split [js_text_simps]: "join_with [c] (split_on c s) = s"
proof (induction s)
  case (Cons x s)
  obtain p ps where s: "split_on c s = p # ps"
    using split_on_not_Nil [of c s] by (cases "split_on c s") auto
  then show ?case
    using Cons by (cases ps) auto
qed simp

lemma split_on_pieces: "p \<in> set (split_on c s) \<Longrightarrow> c \<notin> set p"
proof (induction s arbitrary: p)
  case (Cons x s)
  obtain q qs where s: "split_on c s = q # qs"
    using split_on_not_Nil [of c s] by (cases "split_on c s") auto
  then show ?case
    using Cons by (auto split: if_splits)
qed simp

subsection \<open>Sorting by a comparison function\<close>

text \<open>
  \<open>xs.sort((a, b) => cmp)\<close> is stable; for a comparison that is a total preorder this determines the result, which
  insertion computes.
\<close>

fun insert_cmp :: "('a \<Rightarrow> 'a \<Rightarrow> int) \<Rightarrow> 'a \<Rightarrow> 'a list \<Rightarrow> 'a list" where
  "insert_cmp cmp x [] = [x]"
| "insert_cmp cmp x (y # ys) = (if cmp x y \<le> 0 then x # y # ys else y # insert_cmp cmp x ys)"

definition js_sort :: "('a \<Rightarrow> 'a \<Rightarrow> int) \<Rightarrow> 'a list \<Rightarrow> 'a list" where
  "js_sort cmp xs = foldr (insert_cmp cmp) xs []"

lemma mset_insert_cmp [simp]: "mset (insert_cmp cmp x xs) = add_mset x (mset xs)"
  by (induction xs) auto

lemma mset_js_sort [simp, js_list_simps]: "mset (js_sort cmp xs) = mset xs"
  by (induction xs) (simp_all add: js_sort_def)

lemma set_js_sort [simp, js_list_simps]: "set (js_sort cmp xs) = set xs"
  by (rule mset_eq_setD) simp

lemma length_js_sort [simp, js_list_simps]: "length (js_sort cmp xs) = length xs"
  by (rule mset_eq_length) simp

lemma js_sort_Nil_iff [simp]: "js_sort cmp xs = [] \<longleftrightarrow> xs = []"
  by (metis mset_js_sort mset_zero_iff)

text \<open>What a comparison function has to promise, and what sorting then gives.\<close>

locale comparison =
  fixes cmp :: "'a \<Rightarrow> 'a \<Rightarrow> int"
  assumes cmp_flip: "cmp a b \<le> 0 \<longleftrightarrow> 0 \<le> cmp b a"
    and cmp_trans: "cmp a b \<le> 0 \<Longrightarrow> cmp b c \<le> 0 \<Longrightarrow> cmp a c \<le> 0"
begin

lemma cmp_linear: "cmp a b \<le> 0 \<or> cmp b a \<le> 0"
  using cmp_flip [of a b] cmp_flip [of b a] by linarith

lemma cmp_refl: "cmp a a \<le> 0"
  using cmp_linear [of a a] by simp

lemma sorted_insert_cmp:
  "sorted_wrt (\<lambda>a b. cmp a b \<le> 0) xs \<Longrightarrow> sorted_wrt (\<lambda>a b. cmp a b \<le> 0) (insert_cmp cmp x xs)"
proof (induction xs)
  case (Cons y ys)
  show ?case
  proof (cases "cmp x y \<le> 0")
    case True
    then show ?thesis
      using Cons.prems by (auto intro: cmp_trans)
  next
    case False
    then have "cmp y x \<le> 0"
      using cmp_linear by blast
    moreover have "set (insert_cmp cmp x ys) = insert x (set ys)"
      by (metis mset_insert_cmp set_mset_add_mset_insert set_mset_mset)
    ultimately show ?thesis
      using Cons False by auto
  qed
qed simp

lemma sorted_js_sort: "sorted_wrt (\<lambda>a b. cmp a b \<le> 0) (js_sort cmp xs)"
  by (induction xs) (simp_all add: js_sort_def sorted_insert_cmp)

text \<open>The first element of the sorted array is a least one.\<close>

lemma js_sort_head:
  assumes "js_sort cmp xs = y # ys"
  shows "y \<in> set xs" and "\<And>x. x \<in> set xs \<Longrightarrow> cmp y x \<le> 0"
proof -
  show "y \<in> set xs"
    using assms set_js_sort [of cmp xs] by auto
next
  fix x assume "x \<in> set xs"
  then have "x = y \<or> x \<in> set ys"
    using assms set_js_sort [of cmp xs] by auto
  then show "cmp y x \<le> 0"
    using sorted_js_sort [of xs] assms cmp_refl by auto
qed

end

text \<open>A chain of comparisons: \<open>c1 || c2\<close> compares by the first one that tells the two apart.\<close>

definition cmp_then :: "('a \<Rightarrow> 'a \<Rightarrow> int) \<Rightarrow> ('a \<Rightarrow> 'a \<Rightarrow> int) \<Rightarrow> 'a \<Rightarrow> 'a \<Rightarrow> int" where
  "cmp_then c1 c2 a b = (if c1 a b \<noteq> 0 then c1 a b else c2 a b)"

lemma comparison_flip0: "comparison c \<Longrightarrow> c a b = 0 \<longleftrightarrow> c b a = 0"
  using comparison.cmp_flip [of c a b] comparison.cmp_flip [of c b a] by linarith

lemma comparison_zero_left: "comparison c \<Longrightarrow> c a b = 0 \<Longrightarrow> c a d \<le> 0 \<longleftrightarrow> c b d \<le> 0"
  using comparison.cmp_trans [of c a b d] comparison.cmp_trans [of c b a d] comparison_flip0 [of c a b] by auto

lemma comparison_zero_right: "comparison c \<Longrightarrow> c b d = 0 \<Longrightarrow> c a b \<le> 0 \<longleftrightarrow> c a d \<le> 0"
  using comparison.cmp_trans [of c a b d] comparison.cmp_trans [of c a d b] comparison_flip0 [of c b d] by auto

lemma comparison_then:
  assumes "comparison c1" "comparison c2"
  shows "comparison (cmp_then c1 c2)"
proof
  fix a b d
  show "cmp_then c1 c2 a b \<le> 0 \<longleftrightarrow> 0 \<le> cmp_then c1 c2 b a"
    using comparison.cmp_flip [OF assms(1)] comparison.cmp_flip [OF assms(2)] comparison_flip0 [OF assms(1)]
    by (simp add: cmp_then_def)
  assume ab: "cmp_then c1 c2 a b \<le> 0" and bd: "cmp_then c1 c2 b d \<le> 0"
  have ab1: "c1 a b \<le> 0" and bd1: "c1 b d \<le> 0"
    using ab bd by (simp_all add: cmp_then_def split: if_splits)
  then have ad1: "c1 a d \<le> 0"
    by (rule comparison.cmp_trans [OF assms(1)])
  show "cmp_then c1 c2 a d \<le> 0"
  proof (cases "c1 a d = 0")
    case True
    have "0 \<le> c1 a b"
    proof -
      have "c1 d a = 0" using True comparison_flip0 [OF assms(1)] by blast
      then have "c1 b a \<le> 0" using comparison.cmp_trans [OF assms(1) bd1] by simp
      then show ?thesis using comparison.cmp_flip [OF assms(1)] by blast
    qed
    then have "c1 a b = 0" using ab1 by simp
    then have "c1 b d = 0"
      using True comparison_zero_left [OF assms(1), of a b d] bd1 comparison.cmp_flip [OF assms(1)]
        comparison_zero_right [OF assms(1), of a b d] comparison_flip0 [OF assms(1)]
      by (metis order_antisym order_refl)
    then have "c2 a b \<le> 0" "c2 b d \<le> 0"
      using ab bd \<open>c1 a b = 0\<close> by (simp_all add: cmp_then_def)
    then show ?thesis
      using True comparison.cmp_trans [OF assms(2)] by (simp add: cmp_then_def)
  next
    case False
    then show ?thesis using ad1 by (simp add: cmp_then_def)
  qed
qed

text \<open>The comparison of a key in a linear order, ascending and descending.\<close>

definition cmp_by :: "('a \<Rightarrow> 'b::linorder) \<Rightarrow> 'a \<Rightarrow> 'a \<Rightarrow> int" where
  "cmp_by f a b = (if f a < f b then -1 else if f b < f a then 1 else 0)"

interpretation by_key: comparison "cmp_by f"
  by unfold_locales (auto simp: cmp_by_def split: if_splits)

lemma cmp_by_le_iff [simp]: "cmp_by f a b \<le> 0 \<longleftrightarrow> f a \<le> f b"
  by (auto simp: cmp_by_def)

end
