(* ===== verification/Cached_History.thy ===== *)
theory Cached_History
  imports Overview Traffic_Calendar Ttl_Cache Js_Text
begin

text \<open>
  \<open>CachedHistoryRepository\<close> of \<open>apps/server/src/repositories/cached-history.ts\<close>: the read-through cache in front of the
  durable history, with one epoch per device, coalesced reads and an optional shared cache.

  The durable repository is a parameter (\<open>history_source\<close>): what it answers is a function of its contents.  The list
  \<open>cr_versions\<close> holds the contents it has had, the present ones last, and a read that is under way may be answered from any
  contents since it began.  The shared cache is another process: its answers are inputs.
\<close>

subsection \<open>Reads and their keys\<close>

datatype history_query =
    HistoryQuery string MetricWindow
  | OverviewQuery string MetricWindow
  | TrafficQuery string int int
  | CalendarQuery string TrafficCalendarMode string "string option"

datatype history_value =
    SeriesValue "TimeSeriesRecord list"
  | OverviewValue "OverviewRecord list"
  | TrafficValue "TrafficHistoryPoint list"
  | CalendarValue TrafficCalendarResponse

primrec query_device :: "history_query \<Rightarrow> string" where
  "query_device (HistoryQuery d _) = d"
| "query_device (OverviewQuery d _) = d"
| "query_device (TrafficQuery d _ _) = d"
| "query_device (CalendarQuery d _ _ _) = d"

record 's history_source =
  hs_history :: "string \<Rightarrow> MetricWindow \<Rightarrow> 's \<Rightarrow> TimeSeriesRecord list"
  hs_overview :: "(string \<Rightarrow> MetricWindow \<Rightarrow> 's \<Rightarrow> OverviewRecord list) option"
  hs_traffic :: "string \<Rightarrow> int \<Rightarrow> int \<Rightarrow> 's \<Rightarrow> TrafficHistoryPoint list"
  hs_calendar :: "string \<Rightarrow> TrafficCalendarMode \<Rightarrow> string \<Rightarrow> string option \<Rightarrow> 's \<Rightarrow> TrafficCalendarResponse"

fun load_of :: "'s history_source \<Rightarrow> history_query \<Rightarrow> 's \<Rightarrow> history_value" where
  "load_of src (HistoryQuery d bucket) s = SeriesValue (hs_history src d bucket s)"
| "load_of src (OverviewQuery d bucket) s =
     OverviewValue (case hs_overview src of
        Some overview \<Rightarrow> overview d bucket s
      | None \<Rightarrow> map projectOverviewRecord (hs_history src d bucket s))"
| "load_of src (TrafficQuery d start endTime) s = TrafficValue (hs_traffic src d start endTime s)"
| "load_of src (CalendarQuery d mode anchor selected) s = CalendarValue (hs_calendar src d mode anchor selected s)"

definition localDayKey :: "string \<Rightarrow> string" where
  "localDayKey v = (case Date_parse v of None \<Rightarrow> ''invalid'' | Some parsed \<Rightarrow> take 10 (toISOString (parsed + 8 * 60 * 60 * 1000)))"

definition show_int :: "int \<Rightarrow> string" where
  "show_int i = (if i < 0 then ''-'' @ show_nat (nat (- i)) else show_nat (nat i))"

primrec window_text :: "MetricWindow \<Rightarrow> string" where
  "window_text W1m = ''1m''" | "window_text W5m = ''5m''" | "window_text W15m = ''15m''" | "window_text W1h = ''1h''"
| "window_text W6h = ''6h''" | "window_text W24h = ''24h''" | "window_text W1d = ''1d''" | "window_text W7d = ''7d''"
| "window_text W1w = ''1w''" | "window_text W30d = ''30d''" | "window_text W1mo = ''1mo''" | "window_text W90d = ''90d''"
| "window_text W1y = ''1y''"

primrec mode_text :: "TrafficCalendarMode \<Rightarrow> string" where
  "mode_text DayMode = ''day''" | "mode_text WeekMode = ''week''" | "mode_text MonthMode = ''month''"

fun cache_key :: "history_query \<Rightarrow> nat \<Rightarrow> string" where
  "cache_key (HistoryQuery d bucket) e = ''history:'' @ d @ '':'' @ window_text bucket @ '':'' @ show_nat e"
| "cache_key (OverviewQuery d bucket) e = ''overview:'' @ d @ '':'' @ window_text bucket @ '':'' @ show_nat e"
| "cache_key (TrafficQuery d start endTime) e =
     ''traffic:'' @ d @ '':'' @ show_int start @ '':'' @ show_int endTime @ '':'' @ show_nat e"
| "cache_key (CalendarQuery d mode anchor selected) e =
     ''calendar:'' @ d @ '':'' @ mode_text mode @ '':'' @ localDayKey anchor @ '':'' @
       (if truthy selected then localDayKey (the selected) else ''-'') @ '':'' @ show_nat e"

subsection \<open>The repository\<close>

record CachedHistoryOptions =
  co_ttlMs :: int
  co_calendarTtlMs :: int
  co_maxEntries :: int
  co_maxBytes :: int
  co_shared :: bool

datatype history_phase =
    ReadingShared
  | Loading nat
  | WritingShared history_value
  | Resolved history_value
  | Rejected

record read_operation =
  op_key :: string
  op_query :: history_query
  op_phase :: history_phase

record 's CachedHistoryRepository =
  cr_cache :: "history_value BoundedTtlCache"
  cr_epochs :: "(string, nat) jsmap"
  cr_inflight :: "(string, nat) jsmap"
  cr_operations :: "read_operation list"
  cr_lastSharedErrorAt :: int
  cr_reports :: nat
  cr_versions :: "'s list"

definition epoch :: "string \<Rightarrow> 's CachedHistoryRepository \<Rightarrow> nat" where
  "epoch deviceId x = nullish (map_get (cr_epochs x) deviceId) 0"

definition bump :: "string \<Rightarrow> 's CachedHistoryRepository \<Rightarrow> 's CachedHistoryRepository" where
  "bump deviceId x =
     (let epochs = map_set deviceId (Suc (epoch deviceId x)) (cr_epochs x)
      in x\<lparr>cr_epochs := (if length epochs > 10000 then tl epochs else epochs)\<rparr>)"

text \<open>Writes: the durable repository first, and what follows once it has answered.\<close>

definition inner_written :: "'s \<Rightarrow> 's CachedHistoryRepository \<Rightarrow> 's CachedHistoryRepository" where
  "inner_written s x = x\<lparr>cr_versions := cr_versions x @ [s]\<rparr>"

definition after_insert :: "string \<Rightarrow> 's CachedHistoryRepository \<Rightarrow> 's CachedHistoryRepository" where
  "after_insert deviceId = bump deviceId"

definition after_clear :: "string \<Rightarrow> 's CachedHistoryRepository \<Rightarrow> 's CachedHistoryRepository" where
  "after_clear deviceId x = (let y = bump deviceId x in y\<lparr>cr_cache := cache_clear (cr_cache y)\<rparr>)"

definition after_retention :: "'s CachedHistoryRepository \<Rightarrow> 's CachedHistoryRepository" where
  "after_retention x = x\<lparr>cr_cache := cache_clear (cr_cache x)\<rparr>"

text \<open>\<open>readThrough\<close>, cut at its awaits.  A read begins with a hit, joins a read under way, or starts one.\<close>

definition ttl_of :: "CachedHistoryOptions \<Rightarrow> history_query \<Rightarrow> int" where
  "ttl_of opts q = (case q of CalendarQuery _ _ _ _ \<Rightarrow> co_calendarTtlMs opts | _ \<Rightarrow> co_ttlMs opts)"

datatype read_start = Bypassed | Hit history_value | Joined nat | Started nat

definition begin_read :: "CachedHistoryOptions \<Rightarrow> int \<Rightarrow> history_query \<Rightarrow> 's CachedHistoryRepository
    \<Rightarrow> read_start \<times> 's CachedHistoryRepository" where
  "begin_read opts now q x =
     (if ttl_of opts q = 0 then (Bypassed, x)
      else let key = cache_key q (epoch (query_device q) x); (cached, c) = cache_get now key (cr_cache x); x1 = x\<lparr>cr_cache := c\<rparr>
           in case cached of
                Some v \<Rightarrow> (Hit v, x1)
              | None \<Rightarrow>
                  (case map_get (cr_inflight x) key of
                     Some i \<Rightarrow> (Joined i, x1)
                   | None \<Rightarrow>
                       (let i = length (cr_operations x)
                        in (Started i, x1\<lparr>cr_operations := cr_operations x @ [\<lparr>op_key = key, op_query = q, op_phase = ReadingShared\<rparr>],
                              cr_inflight := map_set key i (cr_inflight x)\<rparr>))))"

definition reportSharedError :: "int \<Rightarrow> 's CachedHistoryRepository \<Rightarrow> 's CachedHistoryRepository" where
  "reportSharedError now x =
     (if now - cr_lastSharedErrorAt x < 30000 then x
      else x\<lparr>cr_lastSharedErrorAt := now, cr_reports := Suc (cr_reports x)\<rparr>)"

abbreviation operation :: "nat \<Rightarrow> 's CachedHistoryRepository \<Rightarrow> read_operation" where
  "operation i x \<equiv> cr_operations x ! i"

definition set_history_phase :: "nat \<Rightarrow> history_phase \<Rightarrow> 's CachedHistoryRepository \<Rightarrow> 's CachedHistoryRepository" where
  "set_history_phase i p x = x\<lparr>cr_operations := (cr_operations x)[i := (operation i x)\<lparr>op_phase := p\<rparr>]\<rparr>"

definition cache_value :: "CachedHistoryOptions \<Rightarrow> (history_value \<Rightarrow> nat option) \<Rightarrow> int \<Rightarrow> nat \<Rightarrow> history_value
    \<Rightarrow> 's CachedHistoryRepository \<Rightarrow> 's CachedHistoryRepository" where
  "cache_value opts size_of now i v x =
     x\<lparr>cr_cache := cache_set size_of now (op_key (operation i x)) v (ttl_of opts (op_query (operation i x))) (cr_cache x)\<rparr>"

datatype shared_answer = SharedHit history_value | SharedMiss | SharedError

definition shared_answered :: "CachedHistoryOptions \<Rightarrow> (history_value \<Rightarrow> nat option) \<Rightarrow> int \<Rightarrow> nat \<Rightarrow> shared_answer
    \<Rightarrow> 's CachedHistoryRepository \<Rightarrow> 's CachedHistoryRepository" where
  "shared_answered opts size_of now i answer x =
     (case answer of
        SharedHit v \<Rightarrow> set_history_phase i (Resolved v) (cache_value opts size_of now i v x)
      | SharedMiss \<Rightarrow> set_history_phase i (Loading (length (cr_versions x) - 1)) x
      | SharedError \<Rightarrow> set_history_phase i (Loading (length (cr_versions x) - 1)) (reportSharedError now x))"

definition load_succeeded :: "CachedHistoryOptions \<Rightarrow> (history_value \<Rightarrow> nat option) \<Rightarrow> int \<Rightarrow> nat \<Rightarrow> history_value
    \<Rightarrow> 's CachedHistoryRepository \<Rightarrow> 's CachedHistoryRepository" where
  "load_succeeded opts size_of now i v x =
     (let fits = (case size_of v of None \<Rightarrow> False | Some n \<Rightarrow> int n \<le> co_maxBytes opts)
      in set_history_phase i (if co_shared opts \<and> fits then WritingShared v else Resolved v) (cache_value opts size_of now i v x))"

definition load_failed :: "nat \<Rightarrow> 's CachedHistoryRepository \<Rightarrow> 's CachedHistoryRepository" where
  "load_failed i = set_history_phase i Rejected"

definition shared_written :: "int \<Rightarrow> nat \<Rightarrow> bool \<Rightarrow> history_value \<Rightarrow> 's CachedHistoryRepository \<Rightarrow> 's CachedHistoryRepository" where
  "shared_written now i ok v x = set_history_phase i (Resolved v) (if ok then x else reportSharedError now x)"

definition read_finally :: "nat \<Rightarrow> 's CachedHistoryRepository \<Rightarrow> 's CachedHistoryRepository" where
  "read_finally i x =
     (let key = op_key (operation i x)
      in if map_get (cr_inflight x) key = Some i then x\<lparr>cr_inflight := map_delete key (cr_inflight x)\<rparr> else x)"

subsection \<open>Every interleaving\<close>

inductive history_step :: "CachedHistoryOptions \<Rightarrow> 's history_source \<Rightarrow> (history_value \<Rightarrow> nat option)
    \<Rightarrow> 's CachedHistoryRepository \<Rightarrow> 's CachedHistoryRepository \<Rightarrow> bool" for opts src size_of where
  hs_written: "history_step opts src size_of x (inner_written s x)"
| hs_inserted: "history_step opts src size_of x (after_insert d x)"
| hs_cleared: "history_step opts src size_of x (after_clear d x)"
| hs_retained: "history_step opts src size_of x (after_retention x)"
| hs_read: "history_step opts src size_of x (snd (begin_read opts now q x))"
| hs_shared: "i < length (cr_operations x) \<Longrightarrow> op_phase (operation i x) = ReadingShared \<Longrightarrow> answer \<noteq> SharedMiss \<longrightarrow> co_shared opts
    \<Longrightarrow> history_step opts src size_of x (shared_answered opts size_of now i answer x)"
| hs_loaded: "i < length (cr_operations x) \<Longrightarrow> op_phase (operation i x) = Loading n \<Longrightarrow> n \<le> m \<Longrightarrow> m < length (cr_versions x)
    \<Longrightarrow> v = load_of src (op_query (operation i x)) (cr_versions x ! m)
    \<Longrightarrow> history_step opts src size_of x (load_succeeded opts size_of now i v x)"
| hs_failed: "i < length (cr_operations x) \<Longrightarrow> op_phase (operation i x) = Loading n \<Longrightarrow> history_step opts src size_of x (load_failed i x)"
| hs_stored: "i < length (cr_operations x) \<Longrightarrow> op_phase (operation i x) = WritingShared v
    \<Longrightarrow> history_step opts src size_of x (shared_written now i ok v x)"
| hs_finally: "i < length (cr_operations x) \<Longrightarrow> op_phase (operation i x) = Rejected \<or> (\<exists>v. op_phase (operation i x) = Resolved v)
    \<Longrightarrow> history_step opts src size_of x (read_finally i x)"

definition history_init :: "CachedHistoryOptions \<Rightarrow> 's \<Rightarrow> cache_error + 's CachedHistoryRepository" where
  "history_init opts s =
     (case new_cache (co_maxEntries opts) (co_maxBytes opts) (max (co_ttlMs opts) (co_calendarTtlMs opts)) of
        Inl e \<Rightarrow> Inl e
      | Inr c \<Rightarrow> Inr \<lparr>cr_cache = c, cr_epochs = [], cr_inflight = [], cr_operations = [], cr_lastSharedErrorAt = 0, cr_reports = 0,
          cr_versions = [s]\<rparr>)"

subsection \<open>Keys determine their reads\<close>

lemma last_part:
  assumes "xs @ CHR '':'' # a = ys @ CHR '':'' # b" "CHR '':'' \<notin> set a" "CHR '':'' \<notin> set b"
  shows "xs = ys \<and> a = b"
proof -
  have "rev a @ CHR '':'' # rev xs = rev b @ CHR '':'' # rev ys"
    using arg_cong [OF assms(1), of rev] by simp
  moreover have "takeWhile (\<lambda>c. c \<noteq> CHR '':'') (rev z @ CHR '':'' # w) = rev z" if "CHR '':'' \<notin> set z" for z w
    using that by (subst takeWhile_append2) auto
  ultimately have "rev a = rev b" using assms(2,3) by metis
  with assms(1) show ?thesis by simp
qed

lemma colon_no_digit: "digit_val CHR '':'' = None"
  by code_simp

lemma digits_no_colon: "is_digit c \<Longrightarrow> c \<noteq> CHR '':''"
  using colon_no_digit by (auto simp: is_digit_def)

lemma pad_no_colon: "CHR '':'' \<notin> set (pad n k)"
proof (induction n arbitrary: k)
  case (Suc n)
  with digits_no_colon [OF is_digit_digit, of "k mod 10"] show ?case by auto
qed simp

lemma length_pad_text: "length (pad n k) = n"
  by (induction n arbitrary: k) auto

lemma localDayKey_no_colon: "CHR '':'' \<notin> set (localDayKey v)"
proof (cases "Date_parse v")
  case (Some parsed)
  let ?t = "parsed + 8 * 60 * 60 * 1000"
  define day where "day = year_string (getUTCFullYear ?t) @ ''-'' @ pad 2 (nat (getUTCMonth ?t + 1)) @ ''-'' @ pad 2 (nat (getUTCDate ?t))"
  obtain rest where "toISOString ?t = day @ rest"
    by (simp add: toISOString_def day_def Let_def)
  moreover have "10 \<le> length day" "CHR '':'' \<notin> set day"
    by (simp_all add: day_def year_string_def length_pad_text pad_no_colon)
  ultimately show ?thesis
    using Some by (auto simp: localDayKey_def dest: in_set_takeD)
qed (simp add: localDayKey_def)

lemma no_colon [simp]:
  "CHR '':'' \<notin> set (show_nat n)" "CHR '':'' \<notin> set (show_int i)" "CHR '':'' \<notin> set (window_text w)" "CHR '':'' \<notin> set (mode_text m)"
proof -
  show nat: "CHR '':'' \<notin> set (show_nat n)" for n
    using is_digits_show_nat [of n] digits_no_colon by (auto simp: is_digits_def list_all_iff)
  show "CHR '':'' \<notin> set (show_int i)" by (simp add: show_int_def nat)
  show "CHR '':'' \<notin> set (window_text w)" by (cases w) simp_all
  show "CHR '':'' \<notin> set (mode_text m)" by (cases m) simp_all
qed

lemma show_nat_inject [simp]: "show_nat m = show_nat n \<longleftrightarrow> m = n"
  by (metis digits_val_show_nat)

text \<open>Two reads with the same key are for the same device and under the same epoch, whatever the device is called.\<close>

definition parts_text :: "string list \<Rightarrow> string" where
  "parts_text ps = concat (map ((#) CHR '':'') ps)"

lemma parts_inject:
  assumes "d @ parts_text ps = d' @ parts_text ps'" "length ps = length ps'"
    "\<forall>p \<in> set ps \<union> set ps'. CHR '':'' \<notin> set p"
  shows "d = d' \<and> ps = ps'"
  using assms
proof (induction ps arbitrary: ps' rule: rev_induct)
  case (snoc p ps)
  then obtain qs p' where ps': "ps' = qs @ [p']"
    by (cases ps' rule: rev_cases) auto
  with snoc.prems have "(d @ parts_text ps) @ CHR '':'' # p = (d' @ parts_text qs) @ CHR '':'' # p'"
    by (simp add: parts_text_def)
  from last_part [OF this] snoc ps' show ?case by auto
qed simp

primrec key_kind :: "history_query \<Rightarrow> string" where
  "key_kind (HistoryQuery _ _) = ''history:''" | "key_kind (OverviewQuery _ _) = ''overview:''"
| "key_kind (TrafficQuery _ _ _) = ''traffic:''" | "key_kind (CalendarQuery _ _ _ _) = ''calendar:''"

fun key_parts :: "history_query \<Rightarrow> string list" where
  "key_parts (HistoryQuery d bucket) = [window_text bucket]"
| "key_parts (OverviewQuery d bucket) = [window_text bucket]"
| "key_parts (TrafficQuery d start endTime) = [show_int start, show_int endTime]"
| "key_parts (CalendarQuery d mode anchor selected) =
     [mode_text mode, localDayKey anchor, if truthy selected then localDayKey (the selected) else ''-'']"

lemma cache_key_parts: "cache_key q e = key_kind q @ query_device q @ parts_text (key_parts q @ [show_nat e])"
  by (cases q) (simp_all add: parts_text_def)

lemma key_parts_no_colon: "p \<in> set (key_parts q) \<Longrightarrow> CHR '':'' \<notin> set p"
  by (cases q) (auto simp: localDayKey_no_colon split: if_splits)

lemma cache_key_inject:
  assumes "cache_key q e = cache_key q' e'"
  shows "key_kind q = key_kind q' \<and> query_device q = query_device q' \<and> key_parts q = key_parts q' \<and> e = e'"
proof -
  have kind: "key_kind q = key_kind q'" "length (key_parts q) = length (key_parts q')"
    using assms by (cases q; cases q'; simp)+
  with assms have "query_device q @ parts_text (key_parts q @ [show_nat e]) = query_device q' @ parts_text (key_parts q' @ [show_nat e'])"
    by (simp add: cache_key_parts)
  from parts_inject [OF this] kind show ?thesis
    using key_parts_no_colon [of _ q] key_parts_no_colon [of _ q'] by auto
qed

subsection \<open>What the cache holds\<close>

lemma refreshed_entry: "map_get m key = Some en \<Longrightarrow> set (map_set key en (map_delete key m)) \<subseteq> set m"
  by (auto simp: AList.delete_eq dest!: set_map_set map_of_SomeD)

lemma deleted_entries: "set (map_delete key m) \<subseteq> set m"
  by (auto simp: AList.delete_eq)

lemma get_entries: "set (bc_entries (snd (cache_get now key c))) \<subseteq> set (bc_entries c)"
proof (cases "map_get (bc_entries c) key")
  case (Some en)
  with refreshed_entry [OF Some] deleted_entries [of key "bc_entries c"] show ?thesis
    by (simp add: cache_get_def)
qed (simp add: cache_get_def)

lemma get_hit: "fst (cache_get now key c) = Some v \<Longrightarrow> \<exists>en. (key, en) \<in> set (bc_entries c) \<and> ce_value en = v"
  by (auto simp: cache_get_def dest!: map_of_SomeD split: option.splits if_splits)

lemma evict_entries: "set (bc_entries (cache_evict c)) \<subseteq> set (bc_entries c)"
proof (induction c rule: cache_evict.induct)
  case (1 c)
  let ?over = "int (length (bc_entries c)) > bc_maxEntries c \<or> bc_bytes c > bc_maxBytes c"
  show ?case
  proof (cases "?over \<and> bc_entries c \<noteq> []")
    case True
    then obtain oldest en rest where es: "bc_entries c = (oldest, en) # rest" by (cases "bc_entries c") auto
    let ?c = "c\<lparr>bc_bytes := bc_bytes c - ce_bytes en, bc_entries := rest, bc_evictions := bc_evictions c + 1\<rparr>"
    have "cache_evict c = cache_evict ?c"
      using True es by (subst cache_evict.simps) simp
    moreover have "set (bc_entries (cache_evict ?c)) \<subseteq> set rest"
      using "1.IH" [OF _ es refl] True by simp
    ultimately show ?thesis using es by auto
  next
    case False
    then have "cache_evict c = c"
      by (subst cache_evict.simps) (auto split: list.split)
    then show ?thesis by simp
  qed
qed

lemma set_entries:
  assumes "(k, en) \<in> set (bc_entries (cache_set size_of now key v ttlMs c))"
  shows "(k, en) \<in> set (bc_entries c) \<or> k = key \<and> ce_value en = v"
proof -
  have "(k, en) \<in> set (bc_entries c) \<or> k = key \<and> ce_value en = v"
    if "(k, en) \<in> set (bc_entries (cache_evict (c\<lparr>bc_entries := map_set key e (map_delete key (bc_entries c)), bc_bytes := b\<rparr>)))"
      "ce_value e = v" for e b
    using subsetD [OF evict_entries that(1)] that(2) by (auto simp: AList.delete_eq dest!: set_map_set)
  with assms show ?thesis
    by (auto simp: cache_set_def Let_def split: if_splits option.splits)
qed

subsection \<open>Coalesced reads\<close>

definition unresolved :: "history_phase \<Rightarrow> bool" where
  "unresolved p = (case p of Resolved _ \<Rightarrow> False | Rejected \<Rightarrow> False | _ \<Rightarrow> True)"

definition coalesced :: "'s CachedHistoryRepository \<Rightarrow> bool" where
  "coalesced x \<longleftrightarrow>
     (\<forall>k i. map_get (cr_inflight x) k = Some i \<longrightarrow> i < length (cr_operations x) \<and> op_key (operation i x) = k) \<and>
     (\<forall>i < length (cr_operations x). unresolved (op_phase (operation i x)) \<longrightarrow> map_get (cr_inflight x) (op_key (operation i x)) = Some i)"

lemma coalesced_fields [simp]:
  "coalesced (x\<lparr>cr_cache := c\<rparr>) = coalesced x" "coalesced (x\<lparr>cr_epochs := es\<rparr>) = coalesced x"
  "coalesced (x\<lparr>cr_versions := vs\<rparr>) = coalesced x" "coalesced (reportSharedError now x) = coalesced x"
  by (simp_all add: coalesced_def reportSharedError_def)

lemma coalesced_phase:
  "coalesced x \<Longrightarrow> i < length (cr_operations x) \<Longrightarrow> unresolved p \<longrightarrow> unresolved (op_phase (operation i x)) \<Longrightarrow> coalesced (set_history_phase i p x)"
  by (auto simp: coalesced_def set_history_phase_def nth_list_update)

lemma coalesced_new:
  assumes "coalesced x" "map_get (cr_inflight x) k = None"
  shows "coalesced (x\<lparr>cr_operations := cr_operations x @ [\<lparr>op_key = k, op_query = q, op_phase = ReadingShared\<rparr>],
    cr_inflight := map_set k (length (cr_operations x)) (cr_inflight x)\<rparr>)"
  (is "coalesced ?y")
proof -
  let ?n = "length (cr_operations x)"
  have old: "operation i ?y = operation i x" if "i < ?n" for i using that by (simp add: nth_append)
  have owned: "i < ?n \<and> op_key (operation i x) = k'" if "map_get (cr_inflight x) k' = Some i" for k' i
    using assms(1) that by (simp add: coalesced_def)
  have busy: "map_get (cr_inflight x) (op_key (operation i x)) = Some i" if "i < ?n" "unresolved (op_phase (operation i x))" for i
    using assms(1) that by (simp add: coalesced_def)
  have "i < length (cr_operations ?y) \<and> op_key (operation i ?y) = k'" if "map_get (cr_inflight ?y) k' = Some i" for k' i
    using that owned [of k' i] old [of i] by (cases "k' = k") auto
  moreover have "map_get (cr_inflight ?y) (op_key (operation i ?y)) = Some i"
    if "i < length (cr_operations ?y)" "unresolved (op_phase (operation i ?y))" for i
  proof (cases "i = ?n")
    case False
    with that have i: "i < ?n" by simp
    have "map_get (cr_inflight x) (op_key (operation i x)) = Some i"
      using busy [OF i] that(2) unfolding old [OF i] by blast
    moreover from this assms(2) have "op_key (operation i x) \<noteq> k" by auto
    ultimately show ?thesis unfolding old [OF i] by simp
  qed simp
  ultimately show ?thesis unfolding coalesced_def by blast
qed

lemma coalesced_start:
  assumes "coalesced x"
  shows "coalesced (snd (begin_read opts now q x))"
proof -
  have "coalesced (x\<lparr>cr_cache := c\<rparr>)" for c using assms by simp
  from coalesced_new [OF this] assms show ?thesis
    by (simp add: begin_read_def Let_def case_prod_unfold split: option.split)
qed

lemma coalesced_finally:
  assumes "coalesced x" "i < length (cr_operations x)" "\<not> unresolved (op_phase (operation i x))"
  shows "coalesced (read_finally i x)"
proof (cases "map_get (cr_inflight x) (op_key (operation i x)) = Some i")
  case True
  let ?y = "x\<lparr>cr_inflight := map_delete (op_key (operation i x)) (cr_inflight x)\<rparr>"
  have owned: "j < length (cr_operations x) \<and> op_key (operation j x) = k" if "map_get (cr_inflight x) k = Some j" for k j
    using assms(1) that unfolding coalesced_def by blast
  have busy: "map_get (cr_inflight x) (op_key (operation j x)) = Some j"
    if "j < length (cr_operations x)" "unresolved (op_phase (operation j x))" for j
    using assms(1) that unfolding coalesced_def by blast
  have "map_get (cr_inflight ?y) (op_key (operation j x)) = Some j"
    if j: "j < length (cr_operations x)" "unresolved (op_phase (operation j x))" for j
  proof -
    have "j \<noteq> i" using assms(3) j(2) by blast
    then have "op_key (operation j x) \<noteq> op_key (operation i x)"
      using busy [OF j] True by (metis option.inject)
    with busy [OF j] show ?thesis by simp
  qed
  moreover have "j < length (cr_operations x) \<and> op_key (operation j x) = k" if "map_get (cr_inflight ?y) k = Some j" for k j
  proof -
    have "map_get (map_delete (op_key (operation i x)) (cr_inflight x)) k = Some j" using that by simp
    then have "map_get (cr_inflight x) k = Some j" unfolding map_get_delete by (metis option.distinct(1))
    then show ?thesis by (rule owned)
  qed
  moreover have "cr_operations ?y = cr_operations x" by simp
  ultimately have "coalesced ?y" unfolding coalesced_def by (simp only:) blast
  moreover have "read_finally i x = ?y" unfolding read_finally_def Let_def using True by (rule if_P)
  ultimately show ?thesis by (simp only:)
next
  case False
  then have "read_finally i x = x" unfolding read_finally_def Let_def by (rule if_not_P)
  with assms(1) show ?thesis by (simp only:)
qed

lemma report_operations [simp]:
  "cr_operations (reportSharedError now x) = cr_operations x" "cr_versions (reportSharedError now x) = cr_versions x"
  "cr_cache (reportSharedError now x) = cr_cache x" "epoch d (reportSharedError now x) = epoch d x"
  by (simp_all add: reportSharedError_def epoch_def)

lemma coalesced_step:
  assumes "history_step opts src size_of x x'" "coalesced x"
  shows "coalesced x'"
  using assms(1)
proof cases
  case (hs_shared i answer now)
  with assms(2) show ?thesis
    by (cases answer) (simp_all add: shared_answered_def cache_value_def unresolved_def coalesced_phase)
next
  case (hs_loaded i n m v now)
  with assms(2) show ?thesis
    by (simp add: load_succeeded_def cache_value_def unresolved_def coalesced_phase Let_def)
next
  case (hs_failed i n)
  with assms(2) show ?thesis by (simp add: load_failed_def unresolved_def coalesced_phase)
next
  case (hs_stored i v now ok)
  with assms(2) show ?thesis by (simp add: shared_written_def unresolved_def coalesced_phase)
next
  case (hs_finally i)
  with assms(2) show ?thesis by (auto simp: unresolved_def intro: coalesced_finally)
next
  case (hs_read now q)
  with assms(2) show ?thesis by (simp add: coalesced_start)
qed (use assms(2) in \<open>simp_all add: inner_written_def after_insert_def after_clear_def after_retention_def bump_def Let_def\<close>)

subsection \<open>Reads see the writes before them\<close>

definition same_read :: "history_query \<Rightarrow> history_query \<Rightarrow> bool" where
  "same_read q q' \<longleftrightarrow> key_kind q = key_kind q' \<and> query_device q = query_device q' \<and> key_parts q = key_parts q'"

text \<open>An answer from contents no older than version \<open>n\<close>; within a local day the anchors of a calendar count as one.\<close>

definition reflects :: "'s history_source \<Rightarrow> history_query \<Rightarrow> nat \<Rightarrow> 's list \<Rightarrow> history_value \<Rightarrow> bool" where
  "reflects src q n versions v \<longleftrightarrow> (\<exists>q' m. same_read q q' \<and> n \<le> m \<and> m < length versions \<and> v = load_of src q' (versions ! m))"

definition phase_fresh :: "'s history_source \<Rightarrow> history_query \<Rightarrow> nat \<Rightarrow> 's list \<Rightarrow> history_phase \<Rightarrow> bool" where
  "phase_fresh src q n versions p =
     (case p of Loading s \<Rightarrow> n \<le> s | WritingShared v \<Rightarrow> reflects src q n versions v | Resolved v \<Rightarrow> reflects src q n versions v | _ \<Rightarrow> True)"

text \<open>Every key in use belongs to a present or past epoch of its device.\<close>

definition key_known :: "'s CachedHistoryRepository \<Rightarrow> string \<Rightarrow> bool" where
  "key_known x k \<longleftrightarrow> (\<exists>q e. k = cache_key q e \<and> e \<le> epoch (query_device q) x)"

definition entries_keyed :: "'s CachedHistoryRepository \<Rightarrow> bool" where
  "entries_keyed x \<longleftrightarrow> cr_versions x \<noteq> [] \<and> length (cr_epochs x) \<le> 10000 \<and> (\<forall>(k, en) \<in> set (bc_entries (cr_cache x)). key_known x k) \<and>
     (\<forall>op \<in> set (cr_operations x). \<exists>e \<le> epoch (query_device (op_query op)) x. op_key op = cache_key (op_query op) e)"

text \<open>Everything kept for a device under its epochs from \<open>e0\<close> on is no older than version \<open>n\<close>.\<close>

definition entry_fresh :: "'s history_source \<Rightarrow> string \<Rightarrow> nat \<Rightarrow> nat \<Rightarrow> 's list \<Rightarrow> string \<Rightarrow> history_value \<Rightarrow> bool" where
  "entry_fresh src d e0 n versions k v \<longleftrightarrow>
     (\<forall>q e. k = cache_key q e \<longrightarrow> query_device q = d \<longrightarrow> e0 \<le> e \<longrightarrow> reflects src q n versions v)"

definition op_fresh :: "'s history_source \<Rightarrow> string \<Rightarrow> nat \<Rightarrow> nat \<Rightarrow> 's list \<Rightarrow> read_operation \<Rightarrow> bool" where
  "op_fresh src d e0 n versions op \<longleftrightarrow>
     (\<forall>e. op_key op = cache_key (op_query op) e \<longrightarrow> query_device (op_query op) = d \<longrightarrow> e0 \<le> e \<longrightarrow>
        phase_fresh src (op_query op) n versions (op_phase op))"

definition fresh :: "'s history_source \<Rightarrow> string \<Rightarrow> nat \<Rightarrow> nat \<Rightarrow> 's CachedHistoryRepository \<Rightarrow> bool" where
  "fresh src d e0 n x \<longleftrightarrow> n < length (cr_versions x) \<and> e0 \<le> epoch d x \<and>
     (\<forall>(k, en) \<in> set (bc_entries (cr_cache x)). entry_fresh src d e0 n (cr_versions x) k (ce_value en)) \<and>
     (\<forall>op \<in> set (cr_operations x). op_fresh src d e0 n (cr_versions x) op)"

lemma reflects_longer: "reflects src q n vs v \<Longrightarrow> reflects src q n (vs @ [s]) v"
  unfolding reflects_def by (metis length_append_singleton less_Suc_eq nth_append)

lemma reflects_same: "same_read q q' \<Longrightarrow> reflects src q' n vs v \<Longrightarrow> reflects src q n vs v"
  unfolding reflects_def same_read_def by metis

lemma reflects_load: "n \<le> m \<Longrightarrow> m < length vs \<Longrightarrow> reflects src q n vs (load_of src q (vs ! m))"
  unfolding reflects_def same_read_def by blast

lemma same_key_read: "cache_key q e = cache_key q' e' \<Longrightarrow> same_read q q' \<and> e = e'"
  using cache_key_inject unfolding same_read_def by blast

lemma phase_fresh_longer: "phase_fresh src q n vs p \<Longrightarrow> phase_fresh src q n (vs @ [s]) p"
  by (auto simp: phase_fresh_def reflects_longer split: history_phase.splits)

text \<open>A value loaded for a read is a fresh entry under the read's key.\<close>

lemma op_entry:
  assumes "op_fresh src d e0 n vs op" "reflects src (op_query op) n vs v \<or> \<not> (query_device (op_query op) = d \<and> e0 \<le> e)"
    "op_key op = cache_key (op_query op) e"
  shows "entry_fresh src d e0 n vs (op_key op) v"
proof -
  have "reflects src q n vs v" if "op_key op = cache_key q e'" "query_device q = d" "e0 \<le> e'" for q e'
  proof -
    have same: "same_read q (op_query op)" "e' = e"
      using same_key_read [of q e' "op_query op" e] that(1) assms(3) by simp_all
    then have "query_device (op_query op) = d" using that(2) by (simp add: same_read_def)
    with assms(2) same that(3) have "reflects src (op_query op) n vs v" by blast
    with same(1) show ?thesis by (rule reflects_same)
  qed
  then show ?thesis unfolding entry_fresh_def by blast
qed

lemma fresh_phase:
  assumes "fresh src d e0 n x" "i < length (cr_operations x)" "op_fresh src d e0 n (cr_versions x) ((operation i x)\<lparr>op_phase := p\<rparr>)"
  shows "fresh src d e0 n (set_history_phase i p x)"
proof -
  have "set (cr_operations (set_history_phase i p x)) \<subseteq> insert ((operation i x)\<lparr>op_phase := p\<rparr>) (set (cr_operations x))"
    by (simp add: set_history_phase_def set_update_subset_insert)
  with assms(1,3) show ?thesis
    unfolding fresh_def set_history_phase_def by (auto simp: epoch_def)
qed

lemma fresh_cached:
  assumes "fresh src d e0 n x" "entry_fresh src d e0 n (cr_versions x) (op_key (operation i x)) v"
  shows "fresh src d e0 n (cache_value opts size_of now i v x)"
proof -
  have "entry_fresh src d e0 n (cr_versions x) k (ce_value en)" if "(k, en) \<in> set (bc_entries (cr_cache (cache_value opts size_of now i v x)))" for k en
    using set_entries [of k en] that assms unfolding cache_value_def fresh_def by fastforce
  with assms(1) show ?thesis
    unfolding fresh_def cache_value_def epoch_def by auto
qed

lemma fresh_fewer_entries:
  assumes "fresh src d e0 n x" "set (bc_entries c) \<subseteq> set (bc_entries (cr_cache x))"
  shows "fresh src d e0 n (x\<lparr>cr_cache := c\<rparr>)"
  using assms unfolding fresh_def epoch_def by auto

definition remembers :: "'s CachedHistoryRepository \<Rightarrow> 's CachedHistoryRepository \<Rightarrow> bool" where
  "remembers x x' \<longleftrightarrow> (\<forall>d. epoch d x \<le> epoch d x')"

lemma keyed_op: "entries_keyed x \<Longrightarrow> i < length (cr_operations x) \<Longrightarrow>
    \<exists>e \<le> epoch (query_device (op_query (operation i x))) x. op_key (operation i x) = cache_key (op_query (operation i x)) e"
  unfolding entries_keyed_def by (meson nth_mem)

lemma length_set_key: "length (map_set d e m) = (if map_get m d = None then Suc (length m) else length m)"
  by (induction m) auto

lemma key_known_later: "remembers x x' \<Longrightarrow> key_known x k \<Longrightarrow> key_known x' k"
  unfolding remembers_def key_known_def by (auto intro: order_trans)

lemma keyedI:
  assumes "entries_keyed x" "remembers x x'" "cr_versions x' \<noteq> []" "length (cr_epochs x') \<le> 10000"
    "\<And>k en. (k, en) \<in> set (bc_entries (cr_cache x')) \<Longrightarrow> (\<exists>en'. (k, en') \<in> set (bc_entries (cr_cache x))) \<or> k \<in> op_key ` set (cr_operations x)"
    "\<And>op. op \<in> set (cr_operations x') \<Longrightarrow> (\<exists>op' \<in> set (cr_operations x). op_key op = op_key op' \<and> op_query op = op_query op') \<or>
       op_key op = cache_key (op_query op) (epoch (query_device (op_query op)) x)"
  shows "entries_keyed x'"
proof -
  have le: "e \<le> epoch d x'" if "e \<le> epoch d x" for e d
    using assms(2) that unfolding remembers_def by (meson order_trans)
  have "key_known x' k" if "(k, en) \<in> set (bc_entries (cr_cache x'))" for k en
  proof -
    have "key_known x k"
      using assms(5) [OF that]
    proof
      assume "\<exists>en'. (k, en') \<in> set (bc_entries (cr_cache x))"
      with assms(1) show ?thesis unfolding entries_keyed_def by blast
    next
      assume "k \<in> op_key ` set (cr_operations x)"
      with assms(1) show ?thesis unfolding entries_keyed_def key_known_def by blast
    qed
    with assms(2) show ?thesis by (rule key_known_later)
  qed
  moreover have "\<exists>e \<le> epoch (query_device (op_query op)) x'. op_key op = cache_key (op_query op) e" if "op \<in> set (cr_operations x')" for op
    using assms(6) [OF that] assms(1) le unfolding entries_keyed_def by (metis order_refl)
  ultimately show ?thesis using assms(3,4) unfolding entries_keyed_def by blast
qed

lemma set_history_phase_ops:
  "op \<in> set (cr_operations (set_history_phase i p x)) \<Longrightarrow> i < length (cr_operations x) \<Longrightarrow>
    \<exists>op' \<in> set (cr_operations x). op_key op = op_key op' \<and> op_query op = op_query op'"
  by (auto simp: set_history_phase_def dest!: subsetD [OF set_update_subset_insert] intro: bexI [OF _ nth_mem])

lemma cache_value_entries:
  "(k, en) \<in> set (bc_entries (cr_cache (cache_value opts size_of now i v x))) \<Longrightarrow> i < length (cr_operations x) \<Longrightarrow>
    (k, en) \<in> set (bc_entries (cr_cache x)) \<or> k \<in> op_key ` set (cr_operations x)"
  unfolding cache_value_def by (auto dest!: set_entries)

lemma same_fields [simp]:
  "cr_versions (set_history_phase i p x) = cr_versions x" "cr_cache (set_history_phase i p x) = cr_cache x" "epoch d (set_history_phase i p x) = epoch d x"
  "cr_versions (cache_value opts size_of now i v x) = cr_versions x" "cr_operations (cache_value opts size_of now i v x) = cr_operations x"
  "epoch d (cache_value opts size_of now i v x) = epoch d x"
  by (simp_all add: set_history_phase_def cache_value_def epoch_def)

lemma bump_fields [simp]:
  "cr_versions (bump d x) = cr_versions x" "cr_operations (bump d x) = cr_operations x" "cr_cache (bump d x) = cr_cache x"
  by (simp_all add: bump_def Let_def)

lemma begin_read_cases:
  obtains "begin_read opts now q x = (Bypassed, x)"
  | c v en where "begin_read opts now q x = (Hit v, x\<lparr>cr_cache := c\<rparr>)" "set (bc_entries c) \<subseteq> set (bc_entries (cr_cache x))"
      "(cache_key q (epoch (query_device q) x), en) \<in> set (bc_entries (cr_cache x))" "ce_value en = v"
  | c i where "begin_read opts now q x = (Joined i, x\<lparr>cr_cache := c\<rparr>)" "set (bc_entries c) \<subseteq> set (bc_entries (cr_cache x))"
      "map_get (cr_inflight x) (cache_key q (epoch (query_device q) x)) = Some i"
  | c where "begin_read opts now q x = (Started (length (cr_operations x)), x\<lparr>cr_cache := c,
        cr_operations := cr_operations x @ [\<lparr>op_key = cache_key q (epoch (query_device q) x), op_query = q, op_phase = ReadingShared\<rparr>],
        cr_inflight := map_set (cache_key q (epoch (query_device q) x)) (length (cr_operations x)) (cr_inflight x)\<rparr>)"
      "set (bc_entries c) \<subseteq> set (bc_entries (cr_cache x))"
proof -
  let ?key = "cache_key q (epoch (query_device q) x)"
  let ?c = "snd (cache_get now ?key (cr_cache x))"
  have sub: "set (bc_entries ?c) \<subseteq> set (bc_entries (cr_cache x))" by (rule get_entries)
  consider "ttl_of opts q = 0" | v where "ttl_of opts q \<noteq> 0" "fst (cache_get now ?key (cr_cache x)) = Some v"
    | "ttl_of opts q \<noteq> 0" "fst (cache_get now ?key (cr_cache x)) = None" by fastforce
  then show thesis
  proof cases
    case 1
    with that(1) show thesis by (simp add: begin_read_def)
  next
    case (2 v)
    obtain en where "(?key, en) \<in> set (bc_entries (cr_cache x))" "ce_value en = v" using get_hit [OF 2(2)] by blast
    with 2 sub show thesis by (intro that(2) [of v ?c en]) (simp_all add: begin_read_def Let_def case_prod_unfold)
  next
    case 3
    show thesis
    proof (cases "map_get (cr_inflight x) ?key")
      case None
      with 3 sub show thesis by (intro that(4) [of ?c]) (simp_all add: begin_read_def Let_def case_prod_unfold)
    next
      case (Some i)
      with 3 sub show thesis by (intro that(3) [of i ?c]) (simp_all add: begin_read_def Let_def case_prod_unfold)
    qed
  qed
qed

lemma epochs_bounded:
  assumes "history_step opts src size_of x x'" "length (cr_epochs x) \<le> 10000"
  shows "length (cr_epochs x') \<le> 10000"
proof -
  have bump: "length (cr_epochs (bump d x)) \<le> 10000" for d
    using assms(2) length_set_key [of d "Suc (epoch d x)" "cr_epochs x"] by (auto simp: bump_def Let_def split: if_splits)
  from assms(1) show ?thesis
  proof cases
    case (hs_read now q)
    with assms(2) show ?thesis by (cases rule: begin_read_cases [of opts now q x]) simp_all
  qed (use assms(2) bump in \<open>simp_all add: inner_written_def after_insert_def after_clear_def after_retention_def Let_def shared_answered_def
      load_succeeded_def load_failed_def shared_written_def read_finally_def set_history_phase_def cache_value_def reportSharedError_def
      split: shared_answer.split\<close>)
qed

lemma entries_keyed_step:
  assumes "history_step opts src size_of x x'" "entries_keyed x" "remembers x x'"
  shows "entries_keyed x'"
proof (rule keyedI [OF assms(2,3)])
  have ne: "cr_versions x \<noteq> []" using assms(2) by (simp add: entries_keyed_def)
  from assms(1) show "cr_versions x' \<noteq> []"
  proof cases
    case (hs_read now q)
    with ne show ?thesis by (cases rule: begin_read_cases [of opts now q x]) simp_all
  qed (use ne in \<open>simp_all add: inner_written_def after_insert_def after_clear_def after_retention_def Let_def shared_answered_def
      load_succeeded_def load_failed_def shared_written_def read_finally_def split: shared_answer.split\<close>)
next
  show "length (cr_epochs x') \<le> 10000"
    by (rule epochs_bounded [OF assms(1)]) (use assms(2) in \<open>simp add: entries_keyed_def\<close>)
next
  fix k en assume k: "(k, en) \<in> set (bc_entries (cr_cache x'))"
  from assms(1) show "(\<exists>en'. (k, en') \<in> set (bc_entries (cr_cache x))) \<or> k \<in> op_key ` set (cr_operations x)"
  proof cases
    case (hs_read now q)
    with k show ?thesis by (cases rule: begin_read_cases [of opts now q x]) auto
  next
    case (hs_shared i answer now)
    with k show ?thesis by (cases answer) (auto simp: shared_answered_def dest: cache_value_entries)
  next
    case (hs_loaded i n m v now)
    with k show ?thesis by (auto simp: load_succeeded_def Let_def dest: cache_value_entries)
  qed (use k in \<open>auto simp: inner_written_def after_insert_def after_clear_def after_retention_def cache_clear_def Let_def
      load_failed_def shared_written_def read_finally_def split: if_splits\<close>)
next
  fix op assume op: "op \<in> set (cr_operations x')"
  from assms(1) show "(\<exists>op' \<in> set (cr_operations x). op_key op = op_key op' \<and> op_query op = op_query op') \<or>
      op_key op = cache_key (op_query op) (epoch (query_device (op_query op)) x)"
  proof cases
    case (hs_read now q)
    with op show ?thesis by (cases rule: begin_read_cases [of opts now q x]) auto
  next
    case (hs_shared i answer now)
    with op show ?thesis by (cases answer) (auto simp: shared_answered_def dest!: set_history_phase_ops)
  next
    case (hs_loaded i n m v now)
    with op show ?thesis by (auto simp: load_succeeded_def Let_def dest!: set_history_phase_ops)
  next
    case (hs_failed i n)
    with op set_history_phase_ops show ?thesis unfolding load_failed_def by blast
  next
    case (hs_stored i v now ok)
    with op show ?thesis by (auto simp: shared_written_def dest!: set_history_phase_ops split: if_splits)
  qed (use op in \<open>auto simp: inner_written_def after_insert_def after_clear_def after_retention_def Let_def read_finally_def split: if_splits\<close>)
qed

lemma entry_fresh_longer: "entry_fresh src d e0 n vs k v \<Longrightarrow> entry_fresh src d e0 n (vs @ [s]) k v"
  unfolding entry_fresh_def by (blast intro: reflects_longer)

lemma op_fresh_longer: "op_fresh src d e0 n vs op \<Longrightarrow> op_fresh src d e0 n (vs @ [s]) op"
  unfolding op_fresh_def by (blast intro: phase_fresh_longer)

lemma op_fresh_phase:
  assumes "op_fresh src d e0 n vs op" "phase_fresh src (op_query op) n vs (op_phase op) \<Longrightarrow> phase_fresh src (op_query op) n vs p"
  shows "op_fresh src d e0 n vs (op\<lparr>op_phase := p\<rparr>)"
  using assms unfolding op_fresh_def by simp

lemma fresh_epoch: "fresh src d e0 n x \<Longrightarrow> remembers x x' \<Longrightarrow> e0 \<le> epoch d x'"
  unfolding fresh_def remembers_def by (meson order_trans)

lemma fresh_step:
  assumes "history_step opts src size_of x x'" "entries_keyed x" "remembers x x'" "\<not> co_shared opts" "fresh src d e0 n x"
  shows "fresh src d e0 n x'"
proof -
  have n: "n < length (cr_versions x)" and e0: "e0 \<le> epoch d x'" using assms(5) fresh_epoch [OF assms(5,3)] by (simp_all add: fresh_def)
  have op: "op_fresh src d e0 n (cr_versions x) (operation i x)" if "i < length (cr_operations x)" for i
    using assms(5) that by (simp add: fresh_def)
  have bumped: "fresh src d e0 n (bump k x)" if "remembers x (bump k x)" for k
    using assms(5) fresh_epoch [OF assms(5) that] by (simp add: fresh_def)
  from assms(1) show ?thesis
  proof cases
    case (hs_written s)
    with assms(5) show ?thesis
      unfolding fresh_def by (auto simp: inner_written_def epoch_def intro: entry_fresh_longer op_fresh_longer)
  next
    case (hs_inserted k)
    with bumped assms(3) show ?thesis by (simp add: after_insert_def)
  next
    case (hs_cleared k)
    have "remembers x (bump k x)"
      using assms(3) hs_cleared by (simp add: remembers_def after_clear_def epoch_def Let_def)
    from fresh_fewer_entries [OF bumped [OF this], of "cache_clear (cr_cache x)"] show ?thesis
      by (simp add: hs_cleared after_clear_def cache_clear_def Let_def)
  next
    case hs_retained
    from fresh_fewer_entries [OF assms(5), of "cache_clear (cr_cache x)"] show ?thesis
      by (simp add: hs_retained after_retention_def cache_clear_def)
  next
    case (hs_read now q)
    have fewer: "fresh src d e0 n (x\<lparr>cr_cache := c\<rparr>)" if "set (bc_entries c) \<subseteq> set (bc_entries (cr_cache x))" for c
      by (rule fresh_fewer_entries [OF assms(5) that])
    show ?thesis
    proof (cases rule: begin_read_cases [of opts now q x])
      case (4 c)
      have "op_fresh src d e0 n (cr_versions x) \<lparr>op_key = k, op_query = q, op_phase = ReadingShared\<rparr>" for k
        by (simp add: op_fresh_def phase_fresh_def)
      with fewer [OF 4(2)] show ?thesis
        by (auto simp: hs_read 4(1) fresh_def epoch_def)
    qed (use assms(5) fewer hs_read in simp_all)
  next
    case (hs_shared i answer now)
    then have "answer = SharedMiss" using assms(4) by blast
    moreover have "phase_fresh src (op_query (operation i x)) n (cr_versions x) (Loading (length (cr_versions x) - 1))"
      using n by (simp add: phase_fresh_def)
    ultimately show ?thesis
      using fresh_phase [OF assms(5) hs_shared(2) op_fresh_phase [OF op [OF hs_shared(2)]]] by (simp add: hs_shared(1) shared_answered_def)
  next
    case (hs_loaded i l m v now)
    let ?op = "operation i x"
    obtain e where key: "op_key ?op = cache_key (op_query ?op) e" using keyed_op [OF assms(2) hs_loaded(2)] by blast
    have "reflects src (op_query ?op) n (cr_versions x) v" if "query_device (op_query ?op) = d" "e0 \<le> e"
    proof -
      have "phase_fresh src (op_query ?op) n (cr_versions x) (Loading l)"
        using op [OF hs_loaded(2)] key that hs_loaded(3) unfolding op_fresh_def by metis
      then have "n \<le> m" using hs_loaded(4) by (simp add: phase_fresh_def)
      then show ?thesis unfolding hs_loaded(6) by (rule reflects_load [OF _ hs_loaded(5)])
    qed
    then have good: "reflects src (op_query ?op) n (cr_versions x) v \<or> \<not> (query_device (op_query ?op) = d \<and> e0 \<le> e)" by blast
    note cached = fresh_cached [OF assms(5) op_entry [OF op [OF hs_loaded(2)] good key], of opts size_of now]
    have "op_fresh src d e0 n (cr_versions x) (?op\<lparr>op_phase := Resolved v\<rparr>)"
      using good key same_key_read [of "op_query ?op" _ "op_query ?op"] by (auto simp: op_fresh_def phase_fresh_def)
    with fresh_phase [OF cached, of i] hs_loaded(2) assms(4) show ?thesis
      by (simp add: hs_loaded(1) load_succeeded_def Let_def)
  next
    case (hs_failed i l)
    show ?thesis
      unfolding hs_failed load_failed_def
      by (rule fresh_phase [OF assms(5) hs_failed(2) op_fresh_phase [OF op [OF hs_failed(2)]]]) (simp add: phase_fresh_def)
  next
    case (hs_stored i v now ok)
    have "fresh src d e0 n (if ok then x else reportSharedError now x)"
      using assms(5) by (simp add: fresh_def)
    moreover have "op_fresh src d e0 n (cr_versions x) ((operation i x)\<lparr>op_phase := Resolved v\<rparr>)"
      by (rule op_fresh_phase [OF op [OF hs_stored(2)]]) (simp add: phase_fresh_def hs_stored(3))
    ultimately show ?thesis
      using fresh_phase [of src d e0 n "if ok then x else reportSharedError now x" i "Resolved v"] hs_stored(2)
      by (simp add: hs_stored(1) shared_written_def)
  next
    case (hs_finally i)
    with assms(5) show ?thesis by (simp add: read_finally_def Let_def fresh_def epoch_def)
  qed
qed

text \<open>A run in which no device's epoch is forgotten, as with at most 10000 devices.\<close>

definition remembering_step :: "CachedHistoryOptions \<Rightarrow> 's history_source \<Rightarrow> (history_value \<Rightarrow> nat option)
    \<Rightarrow> 's CachedHistoryRepository \<Rightarrow> 's CachedHistoryRepository \<Rightarrow> bool" where
  "remembering_step opts src size_of x x' \<longleftrightarrow> history_step opts src size_of x x' \<and> remembers x x'"

lemma bump_remembers:
  assumes "map_get (cr_epochs x) d \<noteq> None \<or> length (cr_epochs x) < 10000" "length (cr_epochs x) \<le> 10000"
  shows "remembers x (bump d x)"
proof -
  have "\<not> length (map_set d (Suc (epoch d x)) (cr_epochs x)) > 10000"
    using assms by (auto simp: length_set_key)
  then show ?thesis by (simp add: remembers_def bump_def Let_def epoch_def)
qed

lemma bump_epoch:
  assumes "length (cr_epochs x) \<le> 10000"
  shows "epoch d (bump d x) = Suc (epoch d x)"
proof (cases "length (map_set d (Suc (epoch d x)) (cr_epochs x)) > 10000")
  case True
  then have new: "map_get (cr_epochs x) d = None" "cr_epochs x \<noteq> []"
    using assms by (auto simp: length_set_key split: if_splits)
  then obtain e es where es: "cr_epochs x = e # es" by (cases "cr_epochs x") auto
  have "map_set d v m = m @ [(d, v)]" if "map_get m d = None" for v :: nat and m
    using that by (induction m) (auto split: if_splits)
  with new es True show ?thesis
    by (simp add: bump_def epoch_def Let_def map_of_append map_add_def split: if_splits)
qed (simp add: bump_def epoch_def)

lemma keyed_run: "(remembering_step opts src size_of)\<^sup>*\<^sup>* x y \<Longrightarrow> entries_keyed x \<Longrightarrow> entries_keyed y"
  by (induction rule: rtranclp_induct) (auto simp: remembering_step_def intro: entries_keyed_step)

lemma coalesced_run: "(remembering_step opts src size_of)\<^sup>*\<^sup>* x y \<Longrightarrow> coalesced x \<Longrightarrow> coalesced y"
  by (induction rule: rtranclp_induct) (auto simp: remembering_step_def intro: coalesced_step)

lemma fresh_run:
  assumes "(remembering_step opts src size_of)\<^sup>*\<^sup>* x y" "entries_keyed x" "\<not> co_shared opts" "fresh src d e0 n x"
  shows "fresh src d e0 n y"
  using assms
proof (induction rule: rtranclp_induct)
  case (step y z)
  then show ?case
    using fresh_step [of opts src size_of y z d e0 n] keyed_run [OF step(1,4)] unfolding remembering_step_def by blast
qed

lemma init_invariants: "history_init opts s = Inr x \<Longrightarrow> entries_keyed x \<and> coalesced x"
  by (auto simp: history_init_def new_cache_def entries_keyed_def coalesced_def split: sum.splits if_splits)

lemma bump_fresh:
  assumes "entries_keyed x" "remembers x (bump d x)"
  shows "fresh src d (Suc (epoch d x)) (length (cr_versions x) - 1) (bump d x)" "entries_keyed (bump d x)"
proof -
  have stale: "\<not> Suc (epoch d x) \<le> e" if "k = cache_key q e" "query_device q = d" "key_known x k" for k q e
  proof -
    obtain q' e' where "k = cache_key q' e'" "e' \<le> epoch (query_device q') x" using \<open>key_known x k\<close> by (auto simp: key_known_def)
    with same_key_read [of q e q' e'] that(1,2) show ?thesis by (auto simp: same_read_def)
  qed
  have "entry_fresh src d (Suc (epoch d x)) n vs k v" if "key_known x k" for k v n vs
    using stale [OF _ _ that] unfolding entry_fresh_def by blast
  moreover have "op_fresh src d (Suc (epoch d x)) n vs op" if "op \<in> set (cr_operations x)" for op n vs
  proof -
    have "key_known x (op_key op)" using assms(1) that unfolding entries_keyed_def key_known_def by blast
    from stale [OF _ _ this] show ?thesis unfolding op_fresh_def by blast
  qed
  ultimately show "fresh src d (Suc (epoch d x)) (length (cr_versions x) - 1) (bump d x)"
    using assms(1) by (auto simp: fresh_def entries_keyed_def bump_epoch)
  have "history_step opts src size_of x (bump d x)" for opts src size_of
    using hs_inserted [of opts src size_of x d] by (simp add: after_insert_def)
  from entries_keyed_step [OF this assms] show "entries_keyed (bump d x)" .
qed

lemma written_fresh:
  assumes "entries_keyed x" "coalesced x" "w \<in> {after_insert d x, after_clear d x}" "remembers x w"
  shows "fresh src d (Suc (epoch d x)) (length (cr_versions x) - 1) w \<and> entries_keyed w \<and> coalesced w"
proof -
  have "remembers x (bump d x)"
    using assms(3,4) by (auto simp: after_insert_def after_clear_def remembers_def epoch_def Let_def)
  note bumped = bump_fresh(1) [OF assms(1) this, where src = src]
  have "history_step opts src size_of x w" for opts src size_of
    using assms(3) hs_inserted [of opts src size_of x d] hs_cleared [of opts src size_of x d] by auto
  then have "coalesced w" "entries_keyed w"
    using coalesced_step assms(2) entries_keyed_step [OF _ assms(1,4)] by blast+
  moreover have "fresh src d (Suc (epoch d x)) (length (cr_versions x) - 1) w"
    using bumped assms(3) by (auto simp: after_insert_def after_clear_def fresh_def cache_clear_def epoch_def Let_def)
  ultimately show ?thesis by blast
qed

lemma operations_kept:
  assumes "history_step opts src size_of x x'" "i < length (cr_operations x)"
  shows "i < length (cr_operations x') \<and> op_key (operation i x') = op_key (operation i x)"
  using assms(1)
proof cases
  case (hs_read now q)
  with assms(2) show ?thesis by (cases rule: begin_read_cases [of opts now q x]) (simp_all add: nth_append)
qed (use assms(2) in \<open>auto simp: inner_written_def after_insert_def after_clear_def after_retention_def Let_def shared_answered_def
      load_succeeded_def load_failed_def shared_written_def read_finally_def set_history_phase_def nth_list_update split: shared_answer.split\<close>)

lemma operations_kept_run:
  assumes "(remembering_step opts src size_of)\<^sup>*\<^sup>* x y" "i < length (cr_operations x)"
  shows "i < length (cr_operations y) \<and> op_key (operation i y) = op_key (operation i x)"
  using assms
proof (induction rule: rtranclp_induct)
  case (step y z)
  then show ?case using operations_kept [of opts src size_of y z i] unfolding remembering_step_def by metis
qed simp

text \<open>
  C20: reads see the writes before them: once the insertion of a point or the clearing of the history of a device has been
  acknowledged, every read of that device that begins afterwards, whether it is answered from the cache, joins a read under way or goes to the repository, gets an
  answer computed from contents that include the write, however reads, writes, expiry and eviction interleave (without a
  shared cache, and as long as no epoch is forgotten, that is with at most 10000 devices).
\<close>

theorem read_your_writes:
  assumes "history_init opts s = Inr x0" "(remembering_step opts src size_of)\<^sup>*\<^sup>* x0 x" "\<not> co_shared opts"
    "w \<in> {after_insert d x, after_clear d x}" "remembers x w" "(remembering_step opts src size_of)\<^sup>*\<^sup>* w y"
    "query_device q = d" "begin_read opts now q y = (r, y')" "(remembering_step opts src size_of)\<^sup>*\<^sup>* y' z"
  shows "(\<forall>v. r = Hit v \<longrightarrow> reflects src q (length (cr_versions x) - 1) (cr_versions y) v) \<and>
    (\<forall>i v. (r = Joined i \<or> r = Started i) \<and> op_phase (operation i z) = Resolved v \<longrightarrow>
       reflects src q (length (cr_versions x) - 1) (cr_versions z) v)"
proof -
  let ?n = "length (cr_versions x) - 1" and ?e = "epoch d y" and ?since = "Suc (epoch d x)"
  let ?key = "cache_key q ?e"
  have x0: "entries_keyed x0" "coalesced x0" using init_invariants [OF assms(1)] by simp_all
  have x: "entries_keyed x" "coalesced x" using keyed_run [OF assms(2)] coalesced_run [OF assms(2)] x0 by simp_all
  note written = written_fresh [OF x assms(4,5), where src = src]
  have y: "entries_keyed y" "coalesced y" "fresh src d ?since ?n y"
    using keyed_run [OF assms(6)] coalesced_run [OF assms(6)] fresh_run [OF assms(6) _ assms(3)] written by blast+
  then have e0: "?since \<le> ?e" by (simp add: fresh_def)
  have step: "remembering_step opts src size_of y y'"
    using hs_read [of opts src size_of y now q] assms(8) unfolding remembering_step_def
    by (cases rule: begin_read_cases [of opts now q y]) (auto simp: remembers_def epoch_def)
  then have run: "(remembering_step opts src size_of)\<^sup>*\<^sup>* y z" using assms(9) by (rule converse_rtranclp_into_rtranclp)
  have z: "entries_keyed z" "fresh src d ?since ?n z"
    using keyed_run [OF run y(1)] fresh_run [OF run y(1) assms(3) y(3)] by simp_all
  have hit: "reflects src q ?n (cr_versions y) v" if r: "r = Hit v" for v
  proof -
    obtain en where "(?key, en) \<in> set (bc_entries (cr_cache y))" "ce_value en = v"
      using r assms(7,8) by (cases rule: begin_read_cases [of opts now q y]) auto
    with y(3) have "entry_fresh src d ?since ?n (cr_versions y) ?key v" unfolding fresh_def by blast
    then show ?thesis using assms(7) e0 unfolding entry_fresh_def by blast
  qed
  have waited: "reflects src q ?n (cr_versions z) v" if r: "r = Joined i \<or> r = Started i" and v: "op_phase (operation i z) = Resolved v" for i v
  proof -
    have "i < length (cr_operations y') \<and> op_key (operation i y') = ?key"
      using r assms(7,8) y(2)
      by (cases rule: begin_read_cases [of opts now q y]) (auto simp: coalesced_def)
    from operations_kept_run [OF assms(9)] this have i: "i < length (cr_operations z)" "op_key (operation i z) = ?key" by simp_all
    obtain e where e: "op_key (operation i z) = cache_key (op_query (operation i z)) e" using keyed_op [OF z(1) i(1)] by blast
    with i(2) have same: "same_read q (op_query (operation i z))" "e = ?e"
      using same_key_read [of q ?e "op_query (operation i z)" e] by simp_all
    have "op_fresh src d ?since ?n (cr_versions z) (operation i z)" using z(2) i(1) by (simp add: fresh_def)
    then have "phase_fresh src (op_query (operation i z)) ?n (cr_versions z) (Resolved v)"
      using e same e0 assms(7) v unfolding op_fresh_def same_read_def by metis
    with same(1) show ?thesis by (simp add: phase_fresh_def reflects_same)
  qed
  from hit waited show ?thesis by blast
qed

text \<open>
  Identical reads cost one: at most one read of a key is under way at any time, the repository's table of reads under
  way names exactly those, and so every further identical read joins it.
\<close>

theorem reads_coalesced:
  assumes "history_init opts s = Inr x0" "(history_step opts src size_of)\<^sup>*\<^sup>* x0 x"
    "i < length (cr_operations x)" "unresolved (op_phase (operation i x))"
  shows "(\<forall>j < length (cr_operations x). unresolved (op_phase (operation j x)) \<and> op_key (operation j x) = op_key (operation i x) \<longrightarrow> j = i) \<and>
    (\<forall>q now. cache_key q (epoch (query_device q) x) = op_key (operation i x) \<and> ttl_of opts q \<noteq> 0 \<longrightarrow>
       fst (begin_read opts now q x) = Joined i \<or> (\<exists>v. fst (begin_read opts now q x) = Hit v))"
proof -
  have "coalesced x"
    using assms(2) init_invariants [OF assms(1)] by (induction rule: rtranclp_induct) (auto intro: coalesced_step)
  then have under_way: "map_get (cr_inflight x) (op_key (operation j x)) = Some j"
    if "j < length (cr_operations x)" "unresolved (op_phase (operation j x))" for j
    using that unfolding coalesced_def by blast
  have "j = i" if "j < length (cr_operations x)" "unresolved (op_phase (operation j x))" "op_key (operation j x) = op_key (operation i x)" for j
    using under_way [OF that(1,2)] under_way [OF assms(3,4)] that(3) by (metis option.inject)
  moreover have "fst (begin_read opts now q x) = Joined i \<or> (\<exists>v. fst (begin_read opts now q x) = Hit v)"
    if "cache_key q (epoch (query_device q) x) = op_key (operation i x)" "ttl_of opts q \<noteq> 0" for q now
    using under_way [OF assms(3,4)] that by (auto simp: begin_read_def Let_def case_prod_unfold split: option.split)
  ultimately show ?thesis by blast
qed

subsection \<open>A read after a write, end to end\<close>

definition demo_source :: "nat history_source" where
  "demo_source = \<lparr>hs_history = (\<lambda>_ _ _. []), hs_overview = None,
     hs_traffic = (\<lambda>_ _ _ s. [\<lparr>tp_timestamp = int s, tp_trafficRxBytes = 0, tp_trafficTxBytes = 0\<rparr>]),
     hs_calendar = (\<lambda>_ _ _ _ _. undefined)\<rparr>"

definition demo_limits :: CachedHistoryOptions where
  "demo_limits = \<lparr>co_ttlMs = 1000, co_calendarTtlMs = 1000, co_maxEntries = 4, co_maxBytes = 100, co_shared = False\<rparr>"

definition demo_history_query :: history_query where
  "demo_history_query = TrafficQuery ''a:b'' 0 9"

definition demo_empty :: "nat CachedHistoryRepository" where
  "demo_empty = \<lparr>cr_cache = \<lparr>bc_entries = [], bc_bytes = 0, bc_hits = 0, bc_misses = 0, bc_evictions = 0, bc_maxEntries = 4, bc_maxBytes = 100,
       bc_ttlMs = 1000\<rparr>, cr_epochs = [], cr_inflight = [], cr_operations = [], cr_lastSharedErrorAt = 0, cr_reports = 0, cr_versions = [7]\<rparr>"

definition demo_written :: "nat CachedHistoryRepository" where
  "demo_written = after_insert ''a:b'' (inner_written 8 demo_empty)"

definition demo_reading :: "nat CachedHistoryRepository" where
  "demo_reading = snd (begin_read demo_limits 5 demo_history_query demo_written)"

definition demo_loading :: "nat CachedHistoryRepository" where
  "demo_loading = shared_answered demo_limits (\<lambda>_. Some 10) 6 0 SharedMiss demo_reading"

definition demo_read :: "nat CachedHistoryRepository" where
  "demo_read = load_succeeded demo_limits (\<lambda>_. Some 10) 7 0 (load_of demo_source demo_history_query 8) demo_loading"

lemma demo_init: "history_init demo_limits 7 = Inr demo_empty"
  by (simp add: history_init_def demo_limits_def new_cache_def demo_empty_def)

lemma demo_values:
  "fst (begin_read demo_limits 5 demo_history_query demo_written) = Started 0"
  "map op_phase (cr_operations demo_reading) = [ReadingShared]"
  "map op_phase (cr_operations demo_loading) = [Loading 1]"
  "map op_phase (cr_operations demo_read) = [Resolved (load_of demo_source demo_history_query 8)]"
  "map op_query (cr_operations demo_loading) = [demo_history_query]"
  "cr_versions demo_loading = [7, 8]"
  by (simp_all add: demo_read_def demo_loading_def demo_reading_def demo_written_def demo_empty_def demo_history_query_def demo_limits_def begin_read_def
      ttl_of_def after_insert_def bump_def inner_written_def epoch_def cache_get_def cache_enabled_def shared_answered_def set_history_phase_def
      load_succeeded_def cache_value_def Let_def)

lemma demo_keeps: "remembers demo_reading demo_loading" "remembers demo_loading demo_read" "remembers demo_empty (inner_written 8 demo_empty)"
  by (simp add: remembers_def demo_loading_def shared_answered_def, simp add: remembers_def demo_read_def load_succeeded_def Let_def,
    simp add: remembers_def inner_written_def epoch_def)

lemma demo_steps:
  "history_step demo_limits demo_source (\<lambda>_. Some 10) demo_reading demo_loading"
  "history_step demo_limits demo_source (\<lambda>_. Some 10) demo_loading demo_read"
proof -
  have "length (cr_operations demo_reading) = 1" "op_phase (operation 0 demo_reading) = ReadingShared"
    using demo_values(2) by (auto simp: map_eq_Cons_conv)
  then show "history_step demo_limits demo_source (\<lambda>_. Some 10) demo_reading demo_loading"
    unfolding demo_loading_def by (intro hs_shared) simp_all
  have "length (cr_operations demo_loading) = 1" "op_phase (operation 0 demo_loading) = Loading 1" "op_query (operation 0 demo_loading) = demo_history_query"
    using demo_values(3,5) by (auto simp: map_eq_Cons_conv)
  then show "history_step demo_limits demo_source (\<lambda>_. Some 10) demo_loading demo_read"
    unfolding demo_read_def by (intro hs_loaded [where n = 1 and m = 1]) (simp_all add: demo_values(6))
qed

lemma demo_run: "(remembering_step demo_limits demo_source (\<lambda>_. Some 10))\<^sup>*\<^sup>* demo_reading demo_read"
proof -
  have "remembering_step demo_limits demo_source (\<lambda>_. Some 10) demo_reading demo_loading"
    "remembering_step demo_limits demo_source (\<lambda>_. Some 10) demo_loading demo_read"
    using demo_steps demo_keeps by (simp_all add: remembering_step_def)
  then show ?thesis by (meson converse_rtranclp_into_rtranclp r_into_rtranclp)
qed

theorem read_your_writes_witness:
  "reflects demo_source demo_history_query 1 (cr_versions demo_read) (load_of demo_source demo_history_query 8)"
proof -
  have "remembering_step demo_limits demo_source (\<lambda>_. Some 10) demo_empty (inner_written 8 demo_empty)"
    using hs_written demo_keeps(3) by (simp add: remembering_step_def)
  moreover have "remembers (inner_written 8 demo_empty) (after_insert ''a:b'' (inner_written 8 demo_empty))"
    unfolding after_insert_def by (rule bump_remembers) (simp_all add: inner_written_def demo_empty_def)
  moreover have "begin_read demo_limits 5 demo_history_query demo_written = (Started 0, demo_reading)"
    using demo_values(1) by (metis demo_reading_def prod.collapse)
  moreover have "op_phase (operation 0 demo_read) = Resolved (load_of demo_source demo_history_query 8)"
    using demo_values(4) by (metis length_map length_Cons nth_Cons_0 nth_map zero_less_Suc)
  ultimately show ?thesis
    using read_your_writes [OF demo_init r_into_rtranclp, of demo_source "\<lambda>_. Some 10" "inner_written 8 demo_empty" demo_written "''a:b''" demo_written demo_history_query 5
        "Started 0" demo_reading demo_read] demo_run
    by (auto simp: demo_limits_def demo_written_def inner_written_def demo_empty_def demo_history_query_def)
qed

theorem reads_coalesced_witness:
  "fst (begin_read demo_limits 6 demo_history_query demo_loading) = Joined 0 \<or> (\<exists>v. fst (begin_read demo_limits 6 demo_history_query demo_loading) = Hit v)"
proof -
  let ?step = "history_step demo_limits demo_source (\<lambda>_. Some 10)"
  have loading: "0 < length (cr_operations demo_loading)" "unresolved (op_phase (operation 0 demo_loading))"
    using demo_values(3) by (auto simp: map_eq_Cons_conv unresolved_def)
  have "?step demo_empty (inner_written 8 demo_empty)" by (rule hs_written)
  moreover have "?step (inner_written 8 demo_empty) demo_written" unfolding demo_written_def by (rule hs_inserted)
  moreover have "?step demo_written demo_reading" unfolding demo_reading_def by (rule hs_read)
  moreover note demo_steps(1)
  ultimately have "?step\<^sup>*\<^sup>* demo_empty demo_loading" by (meson converse_rtranclp_into_rtranclp r_into_rtranclp)
  moreover have "cache_key demo_history_query (epoch (query_device demo_history_query) demo_loading) = op_key (operation 0 demo_loading)"
    by (simp add: demo_loading_def demo_reading_def demo_written_def demo_empty_def demo_history_query_def demo_limits_def begin_read_def
        ttl_of_def after_insert_def bump_def inner_written_def epoch_def cache_get_def cache_enabled_def shared_answered_def set_history_phase_def Let_def)
  moreover have "ttl_of demo_limits demo_history_query \<noteq> 0" by (simp add: demo_limits_def demo_history_query_def ttl_of_def)
  ultimately show ?thesis
    using reads_coalesced [OF demo_init _ loading, of demo_source "\<lambda>_. Some 10"] by blast
qed

end
