(* ===== verification/Write_Batcher.thy ===== *)
theory Write_Batcher
  imports Utils
begin

text \<open>
  \<open>MysqlHistoryWriteBatcher\<close> of \<open>apps/server/src/storage/mysql-write-batcher.ts\<close>: rows of many devices are collected
  and written by multi-row statements.

  The batcher serves minute and hour rows by the same code over separate buffers and drains; the model is the part of one
  kind; the timer is shared, so the other kind may set it.  A row is known by its index in the list of rows ever enqueued; its outcome is what its caller's promise settles
  to.  The estimate of a row's size (its JSON text) and the outcome of a statement are parameters.  A drain whose
  loop has ended still counts as running until its \<open>finally\<close> callback runs (\<open>wb_ended\<close>): callers of settled rows
  may enqueue in between, but no timer fires then.  \<open>flush\<close> looks at the buffer again after the drain it waited for; the
  model allows it to look at any moment.
\<close>

record write_row =
  wr_deviceId :: string
  wr_point :: TimeSeriesRecord

datatype row_outcome = RowResolved | RowRejected

record WriteBatcher =
  wb_rows :: "write_row list"
  wb_buffer :: "nat list"
  wb_batch :: "nat list"
  wb_draining :: bool
  wb_ended :: bool
  wb_flushing :: bool
  wb_timer :: bool
  wb_outcomes :: "(nat, row_outcome) jsmap"
  wb_written :: "nat list"
  wb_maxRows :: int
  wb_maxBytes :: int

datatype batcher_error = BatcherRangeError

definition new_batcher :: "int option \<Rightarrow> int option \<Rightarrow> batcher_error + WriteBatcher" where
  "new_batcher maxRows' maxBytes' =
     (let maxRows = nullish maxRows' 64; maxBytes = nullish maxBytes' (512 * 1024)
      in if \<bar>maxRows\<bar> > 9007199254740991 \<or> maxRows < 1 then Inl BatcherRangeError
         else if \<bar>maxBytes\<bar> > 9007199254740991 \<or> maxBytes < 1 then Inl BatcherRangeError
         else Inr \<lparr>wb_rows = [], wb_buffer = [], wb_batch = [], wb_draining = False, wb_ended = False, wb_flushing = False, wb_timer = False, wb_outcomes = [],
           wb_written = [], wb_maxRows = maxRows, wb_maxBytes = maxBytes\<rparr>)"

definition row_bytes :: "(write_row \<Rightarrow> int) \<Rightarrow> WriteBatcher \<Rightarrow> nat \<Rightarrow> int" where
  "row_bytes json w i = json (wb_rows w ! i) * 2 + 256"

definition bufferBytes :: "(write_row \<Rightarrow> int) \<Rightarrow> WriteBatcher \<Rightarrow> int" where
  "bufferBytes json w = sum_list (map (row_bytes json w) (wb_buffer w))"

text \<open>The inner loop of \<open>drain\<close>: the next batch, and what stays in the buffer.\<close>

fun take_batch :: "(nat \<Rightarrow> int) \<Rightarrow> int \<Rightarrow> int \<Rightarrow> nat list \<Rightarrow> int \<Rightarrow> nat list \<Rightarrow> nat list \<times> nat list" where
  "take_batch sz maxRows maxBytes batch bytes (next' # buffer) =
     (if int (length batch) < maxRows \<and> bytes < maxBytes
      then take_batch sz maxRows maxBytes (batch @ [next']) (bytes + sz next') buffer
      else (batch, next' # buffer))"
| "take_batch sz maxRows maxBytes batch bytes [] = (batch, [])"

text \<open>One pass of the outer loop up to the statement; with an empty buffer the loop ends.\<close>

definition drain_pass :: "(write_row \<Rightarrow> int) \<Rightarrow> WriteBatcher \<Rightarrow> WriteBatcher" where
  "drain_pass json w =
     (if wb_buffer w = [] then w\<lparr>wb_ended := True\<rparr>
      else let (batch, rest) = take_batch (row_bytes json w) (wb_maxRows w) (wb_maxBytes w) [] 0 (wb_buffer w)
           in if batch = [] then w\<lparr>wb_ended := True\<rparr> else w\<lparr>wb_batch := batch, wb_buffer := rest\<rparr>)"

text \<open>\<open>drain\<close>: a drain in progress is joined.\<close>

definition drain :: "(write_row \<Rightarrow> int) \<Rightarrow> WriteBatcher \<Rightarrow> WriteBatcher" where
  "drain json w = (if wb_draining w then w else drain_pass json (w\<lparr>wb_draining := True\<rparr>))"

definition settle_rows :: "row_outcome \<Rightarrow> nat list \<Rightarrow> (nat, row_outcome) jsmap \<Rightarrow> (nat, row_outcome) jsmap" where
  "settle_rows r is outcomes = fold (\<lambda>i m. if map_get m i = None then map_set i r m else m) is outcomes"

text \<open>The statement for the current batch ends; \<open>wb_written\<close> records the rows it wrote.  The loop goes on.\<close>

definition query_done :: "(write_row \<Rightarrow> int) \<Rightarrow> bool \<Rightarrow> WriteBatcher \<Rightarrow> WriteBatcher" where
  "query_done json ok w =
     drain_pass json (w\<lparr>wb_batch := [],
       wb_written := (if ok then wb_written w @ wb_batch w else wb_written w),
       wb_outcomes := settle_rows (if ok then RowResolved else RowRejected) (wb_batch w) (wb_outcomes w)\<rparr>)"

definition enqueue :: "(write_row \<Rightarrow> int) \<Rightarrow> string \<Rightarrow> TimeSeriesRecord \<Rightarrow> WriteBatcher \<Rightarrow> WriteBatcher" where
  "enqueue json deviceId point w =
     (let w1 = w\<lparr>wb_rows := wb_rows w @ [\<lparr>wr_deviceId = deviceId, wr_point = point\<rparr>], wb_buffer := wb_buffer w @ [length (wb_rows w)]\<rparr>
      in if bufferBytes json w1 \<ge> wb_maxBytes w1 \<or> int (length (wb_buffer w1)) \<ge> wb_maxRows w1 then drain json w1
         else w1\<lparr>wb_timer := True\<rparr>)"

definition timer_fired :: "(write_row \<Rightarrow> int) \<Rightarrow> WriteBatcher \<Rightarrow> WriteBatcher" where
  "timer_fired json w = drain json (w\<lparr>wb_timer := False\<rparr>)"

definition flush :: "(write_row \<Rightarrow> int) \<Rightarrow> WriteBatcher \<Rightarrow> WriteBatcher" where
  "flush json w = (drain json (w\<lparr>wb_timer := False\<rparr>))\<lparr>wb_flushing := True\<rparr>"

definition flush_recheck :: "(write_row \<Rightarrow> int) \<Rightarrow> WriteBatcher \<Rightarrow> WriteBatcher" where
  "flush_recheck json w = (if wb_buffer w \<noteq> [] then flush json w else w\<lparr>wb_flushing := False\<rparr>)"

definition drain_forgotten :: "WriteBatcher \<Rightarrow> WriteBatcher" where
  "drain_forgotten w = w\<lparr>wb_draining := False, wb_ended := False\<rparr>"

inductive batcher_step :: "(write_row \<Rightarrow> int) \<Rightarrow> WriteBatcher \<Rightarrow> WriteBatcher \<Rightarrow> bool" for json where
  row_enqueued: "batcher_step json w (enqueue json deviceId point w)"
| timer_ends: "wb_timer w \<Longrightarrow> \<not> wb_ended w \<Longrightarrow> batcher_step json w (timer_fired json w)"
| other_kind_schedules: "batcher_step json w (w\<lparr>wb_timer := True\<rparr>)"
| flush_called: "batcher_step json w (flush json w)"
| flush_continues: "wb_flushing w \<Longrightarrow> batcher_step json w (flush_recheck json w)"
| query_ends: "wb_batch w \<noteq> [] \<Longrightarrow> batcher_step json w (query_done json ok w)"
| drain_ends: "wb_ended w \<Longrightarrow> batcher_step json w (drain_forgotten w)"

inductive_cases batcher_stepE: "batcher_step json w w'"

inductive batcher_reachable :: "(write_row \<Rightarrow> int) \<Rightarrow> WriteBatcher \<Rightarrow> bool" for json where
  batcher_new: "new_batcher maxRows maxBytes = Inr w \<Longrightarrow> batcher_reachable json w"
| batcher_next: "batcher_reachable json w \<Longrightarrow> batcher_step json w w' \<Longrightarrow> batcher_reachable json w'"

subsection \<open>One batch\<close>

lemma take_batch_prefix:
  "take_batch sz maxRows maxBytes batch bytes buffer = (b, rest) \<Longrightarrow> \<exists>k. b = batch @ take k buffer \<and> rest = drop k buffer"
proof (induction sz maxRows maxBytes batch bytes buffer rule: take_batch.induct)
  case (1 sz maxRows maxBytes batch bytes next' buffer)
  show ?case
  proof (cases "int (length batch) < maxRows \<and> bytes < maxBytes")
    case True
    then obtain k where "b = (batch @ [next']) @ take k buffer \<and> rest = drop k buffer"
      using 1 by auto
    then show ?thesis by (intro exI [of _ "Suc k"]) simp
  next
    case False
    then show ?thesis using 1(2) by (intro exI [of _ 0]) auto
  qed
qed simp

lemma take_batch_rows:
  "take_batch sz maxRows maxBytes batch bytes buffer = (b, rest) \<Longrightarrow> int (length batch) \<le> maxRows \<Longrightarrow> int (length b) \<le> maxRows"
  by (induction sz maxRows maxBytes batch bytes buffer rule: take_batch.induct) (auto split: if_splits)

lemma take_batch_bytes:
  "take_batch sz maxRows maxBytes batch bytes buffer = (b, rest) \<Longrightarrow> bytes = sum_list (map sz batch)
     \<Longrightarrow> b = batch \<or> sum_list (map sz (butlast b)) < maxBytes"
proof (induction sz maxRows maxBytes batch bytes buffer rule: take_batch.induct)
  case (1 sz maxRows maxBytes batch bytes next' buffer)
  then show ?case by (fastforce split: if_splits)
qed simp

lemma take_batch_takes:
  assumes "take_batch sz maxRows maxBytes [] 0 buffer = (b, rest)" "buffer \<noteq> []" "1 \<le> maxRows" "1 \<le> maxBytes"
  shows "b \<noteq> []" "b @ rest = buffer" "int (length b) \<le> maxRows" "sum_list (map sz (butlast b)) < maxBytes"
proof -
  obtain n buffer' where buffer: "buffer = n # buffer'" using assms(2) by (cases buffer) auto
  have one: "take_batch sz maxRows maxBytes [n] (sz n) buffer' = (b, rest)"
    using assms by (simp add: buffer)
  obtain k where k: "b = [n] @ take k buffer'" "rest = drop k buffer'"
    using take_batch_prefix [OF one] by auto
  then show ne: "b \<noteq> []" and "b @ rest = buffer" by (simp_all add: buffer)
  show "int (length b) \<le> maxRows" using take_batch_rows [OF assms(1)] assms(3) by simp
  show "sum_list (map sz (butlast b)) < maxBytes" using take_batch_bytes [OF assms(1)] ne by simp
qed

subsection \<open>The invariant\<close>

text \<open>Rows are settled in the order of arrival: first the settled ones, then the batch being written, then the buffer.\<close>

definition rows_ok :: "WriteBatcher \<Rightarrow> bool" where
  "rows_ok w \<longleftrightarrow> 1 \<le> wb_maxRows w \<and> 1 \<le> wb_maxBytes w
     \<and> map_keys (wb_outcomes w) = [0..<length (wb_outcomes w)] \<and> length (wb_outcomes w) \<le> length (wb_rows w)
     \<and> wb_batch w @ wb_buffer w = [length (wb_outcomes w)..<length (wb_rows w)]
     \<and> wb_written w = filter (\<lambda>i. map_get (wb_outcomes w) i = Some RowResolved) [0..<length (wb_outcomes w)]"

definition drains_ok :: "WriteBatcher \<Rightarrow> bool" where
  "drains_ok w \<longleftrightarrow> (wb_batch w \<noteq> [] \<longleftrightarrow> wb_draining w \<and> \<not> wb_ended w) \<and> (wb_ended w \<longrightarrow> wb_draining w)"

definition batch_ok :: "(write_row \<Rightarrow> int) \<Rightarrow> WriteBatcher \<Rightarrow> bool" where
  "batch_ok json w \<longleftrightarrow> int (length (wb_batch w)) \<le> wb_maxRows w
     \<and> (wb_batch w \<noteq> [] \<longrightarrow> sum_list (map (row_bytes json w) (butlast (wb_batch w))) < wb_maxBytes w)"

definition batcher_ok :: "(write_row \<Rightarrow> int) \<Rightarrow> WriteBatcher \<Rightarrow> bool" where
  "batcher_ok json w \<longleftrightarrow> rows_ok w \<and> drains_ok w \<and> batch_ok json w"

lemma rows_ok_irrelevant [simp]:
  "rows_ok (w\<lparr>wb_draining := b\<rparr>) = rows_ok w" "rows_ok (w\<lparr>wb_ended := b\<rparr>) = rows_ok w"
  "rows_ok (w\<lparr>wb_flushing := b\<rparr>) = rows_ok w" "rows_ok (w\<lparr>wb_timer := b\<rparr>) = rows_ok w"
  by (simp_all add: rows_ok_def)

lemma drain_pass_ok:
  assumes "rows_ok w" "wb_batch w = []" "wb_draining w" "\<not> wb_ended w"
  shows "batcher_ok json (drain_pass json w) \<and> (wb_buffer w \<noteq> [] \<longrightarrow> \<not> wb_ended (drain_pass json w))
    \<and> wb_draining (drain_pass json w) \<and> wb_timer (drain_pass json w) = wb_timer w \<and> wb_flushing (drain_pass json w) = wb_flushing w"
proof (cases "wb_buffer w = []")
  case True
  then show ?thesis
    using assms by (auto simp: drain_pass_def batcher_ok_def drains_ok_def batch_ok_def rows_ok_def)
next
  case False
  obtain b rest where t: "take_batch (row_bytes json w) (wb_maxRows w) (wb_maxBytes w) [] 0 (wb_buffer w) = (b, rest)"
    by fastforce
  have facts: "b \<noteq> []" "b @ rest = wb_buffer w" "int (length b) \<le> wb_maxRows w" "sum_list (map (row_bytes json w) (butlast b)) < wb_maxBytes w"
    using take_batch_takes [OF t False] assms(1) by (simp_all add: rows_ok_def)
  have pass: "drain_pass json w = w\<lparr>wb_batch := b, wb_buffer := rest\<rparr>"
    using False facts(1) by (simp add: drain_pass_def t)
  have "row_bytes json (w\<lparr>wb_batch := b, wb_buffer := rest\<rparr>) = row_bytes json w"
    by (rule ext) (simp add: row_bytes_def)
  then show ?thesis
    using assms facts unfolding pass by (simp add: batcher_ok_def drains_ok_def batch_ok_def rows_ok_def)
qed

lemma drain_ok:
  assumes "batcher_ok json w"
  shows "batcher_ok json (drain json w) \<and> wb_draining (drain json w) \<and> (wb_ended (drain json w) \<longrightarrow> wb_ended w \<or> wb_buffer w = [])
    \<and> (wb_draining w \<longrightarrow> drain json w = w) \<and> wb_timer (drain json w) = wb_timer w \<and> wb_flushing (drain json w) = wb_flushing w"
proof (cases "wb_draining w")
  case False
  then have "wb_batch w = []" "\<not> wb_ended w"
    using assms by (auto simp: batcher_ok_def drains_ok_def)
  then show ?thesis
    using drain_pass_ok [of "w\<lparr>wb_draining := True\<rparr>" json] assms False by (auto simp: drain_def batcher_ok_def)
qed (use assms in \<open>simp add: drain_def\<close>)

lemma batcher_ok_timer [simp]: "batcher_ok json (w\<lparr>wb_timer := b\<rparr>) = batcher_ok json w" "batcher_ok json (w\<lparr>wb_flushing := b\<rparr>) = batcher_ok json w"
proof -
  have "row_bytes json (w\<lparr>wb_timer := b\<rparr>) = row_bytes json w" "row_bytes json (w\<lparr>wb_flushing := b\<rparr>) = row_bytes json w"
    by (auto simp: row_bytes_def)
  then show "batcher_ok json (w\<lparr>wb_timer := b\<rparr>) = batcher_ok json w" "batcher_ok json (w\<lparr>wb_flushing := b\<rparr>) = batcher_ok json w"
    by (simp_all add: batcher_ok_def drains_ok_def batch_ok_def)
qed

text \<open>A row joins the end of the buffer.\<close>

definition add_row :: "string \<Rightarrow> TimeSeriesRecord \<Rightarrow> WriteBatcher \<Rightarrow> WriteBatcher" where
  "add_row deviceId point w = w\<lparr>wb_rows := wb_rows w @ [\<lparr>wr_deviceId = deviceId, wr_point = point\<rparr>], wb_buffer := wb_buffer w @ [length (wb_rows w)]\<rparr>"

lemma add_row_ok:
  assumes "batcher_ok json w"
  shows "batcher_ok json (add_row deviceId point w)"
proof -
  have o: "wb_batch w @ wb_buffer w = [length (wb_outcomes w)..<length (wb_rows w)]" "length (wb_outcomes w) \<le> length (wb_rows w)"
    using assms by (simp_all add: batcher_ok_def rows_ok_def)
  have "i < length (wb_rows w)" if "i \<in> set (wb_batch w)" for i
  proof -
    have "i \<in> set (wb_batch w @ wb_buffer w)" using that by simp
    then show ?thesis unfolding o(1) by simp
  qed
  then have "map (row_bytes json (add_row deviceId point w)) (butlast (wb_batch w)) = map (row_bytes json w) (butlast (wb_batch w))"
    by (auto simp: row_bytes_def add_row_def nth_append dest: in_set_butlastD)
  then have "sum_list (map (row_bytes json (add_row deviceId point w)) (butlast (wb_batch w))) = sum_list (map (row_bytes json w) (butlast (wb_batch w)))"
    by (rule arg_cong)
  moreover have "wb_batch w @ wb_buffer w @ [length (wb_rows w)] = [length (wb_outcomes w)..<Suc (length (wb_rows w))]"
    using o by (simp flip: append_assoc)
  ultimately show ?thesis
    using assms unfolding batcher_ok_def rows_ok_def drains_ok_def batch_ok_def by (simp add: add_row_def)
qed

lemma enqueue_eq:
  "enqueue json deviceId point w =
     (let w1 = add_row deviceId point w
      in if bufferBytes json w1 \<ge> wb_maxBytes w1 \<or> int (length (wb_buffer w1)) \<ge> wb_maxRows w1 then drain json w1 else w1\<lparr>wb_timer := True\<rparr>)"
  by (simp add: enqueue_def add_row_def)

lemma settle_rows_fresh:
  "distinct is \<Longrightarrow> (\<forall>i \<in> set is. map_get m i = None) \<Longrightarrow> settle_rows r is m = m @ map (\<lambda>i. (i, r)) is"
proof (induction "is" arbitrary: m)
  case (Cons i "is")
  have set: "map_set i r m = m @ [(i, r)]"
    using Cons.prems(2) by (induction m) (auto split: if_splits)
  have fresh: "\<forall>j \<in> set is. map_get (m @ [(i, r)]) j = None"
    using Cons.prems by (auto simp: map_add_def)
  have "settle_rows r (i # is) m = settle_rows r is (m @ [(i, r)])"
    using Cons.prems(2) by (simp add: settle_rows_def set)
  then show ?case
    using Cons.IH [of "m @ [(i, r)]"] Cons.prems(1) fresh by simp
qed (simp add: settle_rows_def)

lemma map_get_settled:
  assumes "\<forall>i \<in> set is. map_get m i = None"
  shows "map_get (m @ map (\<lambda>i. (i, r)) is) i = (if i \<in> set is then Some r else map_get m i)"
proof -
  have "map_get (map (\<lambda>i. (i, r)) is) i = (if i \<in> set is then Some r else None)"
    by (induction "is") auto
  then show ?thesis using assms by (auto simp: map_add_def split: option.splits)
qed

definition settled :: "bool \<Rightarrow> WriteBatcher \<Rightarrow> WriteBatcher" where
  "settled ok w = w\<lparr>wb_batch := [], wb_written := (if ok then wb_written w @ wb_batch w else wb_written w),
     wb_outcomes := settle_rows (if ok then RowResolved else RowRejected) (wb_batch w) (wb_outcomes w)\<rparr>"

lemma append_is_upt:
  assumes "xs @ ys = [k..<n]" "k \<le> n"
  obtains m where "xs = [k..<k + m]" "ys = [k + m..<n]" "k + m \<le> n"
proof -
  have len: "length xs \<le> n - k"
    using arg_cong [OF assms(1), of length] by simp
  have "xs = take (length xs) [k..<n]" "ys = drop (length xs) [k..<n]"
    using arg_cong [OF assms(1), of "take (length xs)"] arg_cong [OF assms(1), of "drop (length xs)"] by simp_all
  then have "xs = [k..<k + length xs]" "ys = [k + length xs..<n]"
    using take_upt [of k "length xs" n] len assms(2) by simp_all
  then show ?thesis using len assms(2) by (intro that [of "length xs"]) simp_all
qed

lemma settled_ok:
  assumes "rows_ok w"
  shows "rows_ok (settled ok w)"
proof -
  define k where "k = length (wb_outcomes w)"
  define r where "r = (if ok then RowResolved else RowRejected)"
  have o: "wb_batch w @ wb_buffer w = [k..<length (wb_rows w)]" "k \<le> length (wb_rows w)" "map_keys (wb_outcomes w) = [0..<k]"
    "wb_written w = filter (\<lambda>i. map_get (wb_outcomes w) i = Some RowResolved) [0..<k]"
    using assms by (simp_all add: rows_ok_def k_def)
  obtain m where m: "wb_batch w = [k..<k + m]" "wb_buffer w = [k + m..<length (wb_rows w)]" "k + m \<le> length (wb_rows w)"
    by (rule append_is_upt [OF o(1,2)])
  have fresh: "\<forall>i \<in> set [k..<k + m]. map_get (wb_outcomes w) i = None"
    unfolding map_get_None_iff o(3) by simp
  have out: "wb_outcomes (settled ok w) = wb_outcomes w @ map (\<lambda>i. (i, r)) [k..<k + m]"
    using settle_rows_fresh [OF _ fresh, of r] by (simp add: settled_def r_def m(1))
  have get: "map_get (wb_outcomes (settled ok w)) i = (if i \<in> set [k..<k + m] then Some r else map_get (wb_outcomes w) i)" for i
    unfolding out by (rule map_get_settled [OF fresh])
  have range: "[0..<k + m] = [0..<k] @ [k..<k + m]"
    by (rule upt_add_eq_append) simp
  have "filter (\<lambda>i. map_get (wb_outcomes (settled ok w)) i = Some RowResolved) [0..<k] = wb_written w"
    unfolding o(4) by (rule filter_cong) (auto simp: get)
  moreover have "filter (\<lambda>i. map_get (wb_outcomes (settled ok w)) i = Some RowResolved) [k..<k + m] = (if ok then [k..<k + m] else [])"
    by (auto simp: get r_def filter_id_conv filter_empty_conv)
  ultimately have written: "wb_written (settled ok w) = filter (\<lambda>i. map_get (wb_outcomes (settled ok w)) i = Some RowResolved) [0..<k + m]"
    unfolding range by (simp add: settled_def m(1))
  have "map_keys (wb_outcomes (settled ok w)) = [0..<k + m]"
    unfolding range out by (simp add: o(3) comp_def)
  moreover have "length (wb_outcomes (settled ok w)) = k + m" by (simp add: out k_def)
  moreover have "wb_batch (settled ok w) = []" "wb_buffer (settled ok w) = wb_buffer w" "wb_rows (settled ok w) = wb_rows w"
    "wb_maxRows (settled ok w) = wb_maxRows w" "wb_maxBytes (settled ok w) = wb_maxBytes w"
    by (simp_all add: settled_def)
  ultimately show ?thesis
    using assms written m(2,3) unfolding rows_ok_def by simp
qed

lemma query_done_ok:
  assumes "batcher_ok json w" "wb_batch w \<noteq> []"
  shows "batcher_ok json (query_done json ok w) \<and> (wb_buffer w \<noteq> [] \<longrightarrow> \<not> wb_ended (query_done json ok w))
    \<and> wb_draining (query_done json ok w) \<and> wb_timer (query_done json ok w) = wb_timer w \<and> wb_flushing (query_done json ok w) = wb_flushing w"
proof -
  have "rows_ok (settled ok w)" "wb_draining w" "\<not> wb_ended w"
    using assms settled_ok by (auto simp: batcher_ok_def drains_ok_def)
  then show ?thesis
    using drain_pass_ok [of "settled ok w" json] by (simp add: query_done_def settled_def)
qed

lemma flush_ok: "batcher_ok json w \<Longrightarrow> batcher_ok json (flush json w)"
  using drain_ok [of json "w\<lparr>wb_timer := False\<rparr>"] by (simp add: flush_def)

lemma batcher_ok_step:
  assumes "batcher_step json w w'" "batcher_ok json w"
  shows "batcher_ok json w'"
  using assms(1)
proof cases
  case (row_enqueued deviceId point)
  then show ?thesis
    using add_row_ok [OF assms(2), of deviceId point] drain_ok [of json "add_row deviceId point w"] by (simp add: enqueue_eq Let_def)
next
  case timer_ends
  then show ?thesis using drain_ok [of json "w\<lparr>wb_timer := False\<rparr>"] assms(2) by (simp add: timer_fired_def)
next
  case other_kind_schedules
  then show ?thesis using assms(2) by simp
next
  case flush_called
  then show ?thesis using flush_ok assms(2) by blast
next
  case flush_continues
  then show ?thesis using flush_ok assms(2) by (simp add: flush_recheck_def)
next
  case (query_ends ok)
  then show ?thesis using query_done_ok assms(2) by blast
next
  case drain_ends
  have "row_bytes json (drain_forgotten w) = row_bytes json w"
    by (rule ext) (simp add: row_bytes_def drain_forgotten_def)
  then show ?thesis
    using drain_ends assms(2) by (auto simp: batcher_ok_def drains_ok_def batch_ok_def rows_ok_def drain_forgotten_def)
qed

lemma batcher_reachable_ok: "batcher_reachable json w \<Longrightarrow> batcher_ok json w"
proof (induction rule: batcher_reachable.induct)
  case (batcher_new maxRows maxBytes w)
  then show ?case
    by (auto simp: new_batcher_def batcher_ok_def rows_ok_def drains_ok_def batch_ok_def Let_def split: if_splits)
qed (rule batcher_ok_step)

subsection \<open>No row is left behind\<close>

definition attended :: "WriteBatcher \<Rightarrow> bool" where
  "attended w \<longleftrightarrow> wb_buffer w = [] \<or> wb_draining w \<and> \<not> wb_ended w \<or> wb_timer w \<or> wb_flushing w"

definition small_rows :: "(write_row \<Rightarrow> int) \<Rightarrow> WriteBatcher \<Rightarrow> bool" where
  "small_rows json w \<longleftrightarrow> 2 \<le> wb_maxRows w \<and> (\<forall>row. json row * 2 + 256 < wb_maxBytes w)"

lemma drain_attended:
  assumes "batcher_ok json w" "wb_ended w \<longrightarrow> wb_timer w \<or> wb_flushing w"
  shows "attended (drain json w)"
proof (cases "wb_draining w")
  case True
  then show ?thesis using assms by (auto simp: drain_def attended_def)
next
  case False
  then have "\<not> wb_ended w" using assms(1) by (simp add: batcher_ok_def drains_ok_def)
  then show ?thesis
    using drain_ok [OF assms(1)] False unfolding attended_def
    by (cases "wb_buffer w = []") (auto simp: drain_def drain_pass_def)
qed

lemma drain_limits:
  "wb_maxRows (drain json w) = wb_maxRows w" "wb_maxBytes (drain json w) = wb_maxBytes w"
  "wb_maxRows (drain_pass json w) = wb_maxRows w" "wb_maxBytes (drain_pass json w) = wb_maxBytes w"
  by (simp_all add: drain_def drain_pass_def split: prod.splits)

lemma step_limits: "batcher_step json w w' \<Longrightarrow> wb_maxRows w' = wb_maxRows w \<and> wb_maxBytes w' = wb_maxBytes w"
  by (erule batcher_stepE)
    (auto simp: enqueue_def timer_fired_def flush_def flush_recheck_def query_done_def drain_forgotten_def drain_limits Let_def)

lemma add_row_attended:
  assumes "batcher_ok json w" "small_rows json w" "attended w"
  shows "attended (enqueue json deviceId point w)"
proof -
  let ?w = "add_row deviceId point w"
  have first: "bufferBytes json ?w < wb_maxBytes ?w \<and> int (length (wb_buffer ?w)) < wb_maxRows ?w" if "wb_buffer w = []"
    using assms(2) that by (simp add: bufferBytes_def row_bytes_def add_row_def small_rows_def)
  have "attended (drain json ?w)" if "wb_buffer w \<noteq> []"
    using drain_attended [OF add_row_ok [OF assms(1)], of deviceId point] assms(3) that by (auto simp: attended_def add_row_def)
  moreover have "attended (?w\<lparr>wb_timer := True\<rparr>)" by (simp add: attended_def)
  ultimately show ?thesis
    using first by (cases "wb_buffer w = []") (simp_all add: enqueue_eq Let_def)
qed

lemma attended_step:
  assumes "batcher_step json w w'" "batcher_ok json w" "small_rows json w" "attended w"
  shows "attended w'"
  using assms(1)
proof cases
  case (row_enqueued deviceId point)
  then show ?thesis using add_row_attended [OF assms(2-4)] by simp
next
  case timer_ends
  then show ?thesis
    using drain_attended [of json "w\<lparr>wb_timer := False\<rparr>"] assms(2) by (simp add: timer_fired_def)
next
  case other_kind_schedules
  then show ?thesis by (simp add: attended_def)
next
  case flush_called
  then show ?thesis by (simp add: flush_def attended_def)
next
  case flush_continues
  then show ?thesis by (simp add: flush_recheck_def flush_def attended_def)
next
  case (query_ends ok)
  then show ?thesis
    using query_done_ok [OF assms(2), of ok] by (auto simp: attended_def query_done_def drain_pass_def split: prod.splits if_splits)
next
  case drain_ends
  then show ?thesis using assms(4) by (auto simp: drain_forgotten_def attended_def)
qed

lemma reachable_attended: "batcher_reachable json w \<Longrightarrow> small_rows json w \<Longrightarrow> attended w"
proof (induction rule: batcher_reachable.induct)
  case (batcher_new maxRows maxBytes w)
  then show ?case by (auto simp: new_batcher_def attended_def Let_def split: if_splits)
next
  case (batcher_next w w')
  then have "small_rows json w" using step_limits [OF batcher_next.hyps(2)] by (simp add: small_rows_def)
  then show ?case
    using attended_step [OF batcher_next.hyps(2) batcher_reachable_ok [OF batcher_next.hyps(1)]] batcher_next.IH by blast
qed

lemma done_settles:
  assumes "batcher_ok json w" "i \<in> set (wb_batch w)"
  shows "map_get (wb_outcomes (query_done json ok w)) i = Some (if ok then RowResolved else RowRejected)"
proof -
  have o: "wb_batch w @ wb_buffer w = [length (wb_outcomes w)..<length (wb_rows w)]" "length (wb_outcomes w) \<le> length (wb_rows w)"
    "map_keys (wb_outcomes w) = [0..<length (wb_outcomes w)]"
    using assms(1) by (simp_all add: batcher_ok_def rows_ok_def)
  obtain m where m: "wb_batch w = [length (wb_outcomes w)..<length (wb_outcomes w) + m]"
    by (rule append_is_upt [OF o(1,2)])
  have fresh: "\<forall>i \<in> set (wb_batch w). map_get (wb_outcomes w) i = None"
    unfolding map_get_None_iff o(3) m by simp
  have "settle_rows r (wb_batch w) (wb_outcomes w) = wb_outcomes w @ map (\<lambda>i. (i, r)) (wb_batch w)" for r
    using fresh by (intro settle_rows_fresh) (simp_all add: m)
  moreover have "wb_outcomes (query_done json ok w) = settle_rows (if ok then RowResolved else RowRejected) (wb_batch w) (wb_outcomes w)"
    by (simp add: query_done_def drain_pass_def split: prod.splits)
  ultimately show ?thesis
    using map_get_settled [OF fresh] assms(2) by simp
qed

text \<open>
  Rows are written in batches within the limits and settled in the order of arrival, each once: first the settled
  rows, then the batch being written, then the buffer make up all rows ever enqueued; a caller is told of success exactly
  when the statement with its row succeeded, and of failure when it failed.  While rows are buffered, a drain, a timer or a
  flush is on its way to them, provided that a single row never fills a batch.
\<close>

theorem rows_settle_in_order:
  assumes "batcher_reachable json w"
  shows "map_keys (wb_outcomes w) @ wb_batch w @ wb_buffer w = [0..<length (wb_rows w)]
    \<and> (\<forall>i. i \<in> set (wb_written w) \<longleftrightarrow> map_get (wb_outcomes w) i = Some RowResolved) \<and> distinct (wb_written w)
    \<and> int (length (wb_batch w)) \<le> wb_maxRows w
    \<and> (wb_batch w \<noteq> [] \<longrightarrow> sum_list (map (row_bytes json w) (butlast (wb_batch w))) < wb_maxBytes w)
    \<and> (\<forall>i \<in> set (wb_batch w). map_get (wb_outcomes (query_done json ok w)) i = Some (if ok then RowResolved else RowRejected))
    \<and> (small_rows json w \<longrightarrow> attended w)"
proof (intro conjI)
  have ok: "batcher_ok json w" by (rule batcher_reachable_ok [OF assms])
  have o: "map_keys (wb_outcomes w) = [0..<length (wb_outcomes w)]" "length (wb_outcomes w) \<le> length (wb_rows w)"
    "wb_batch w @ wb_buffer w = [length (wb_outcomes w)..<length (wb_rows w)]"
    "wb_written w = filter (\<lambda>i. map_get (wb_outcomes w) i = Some RowResolved) [0..<length (wb_outcomes w)]"
    using ok by (simp_all add: batcher_ok_def rows_ok_def)
  show "map_keys (wb_outcomes w) @ wb_batch w @ wb_buffer w = [0..<length (wb_rows w)]"
    unfolding o(1,3) using upt_add_eq_append [of 0 "length (wb_outcomes w)" "length (wb_rows w) - length (wb_outcomes w)"] o(2) by simp
  have "i < length (wb_outcomes w)" if "map_get (wb_outcomes w) i = Some r" for i r
    using that o(1) by (metis atLeastLessThan_iff map_get_None_iff option.distinct(1) set_upt)
  then show "\<forall>i. i \<in> set (wb_written w) \<longleftrightarrow> map_get (wb_outcomes w) i = Some RowResolved"
    by (auto simp: o(4))
  show "distinct (wb_written w)" by (simp add: o(4))
  show "int (length (wb_batch w)) \<le> wb_maxRows w"
    "wb_batch w \<noteq> [] \<longrightarrow> sum_list (map (row_bytes json w) (butlast (wb_batch w))) < wb_maxBytes w"
    using ok by (simp_all add: batcher_ok_def batch_ok_def)
  show "\<forall>i \<in> set (wb_batch w). map_get (wb_outcomes (query_done json ok w)) i = Some (if ok then RowResolved else RowRejected)" for ok
    using done_settles [OF ok] by blast
  show "small_rows json w \<longrightarrow> attended w" using reachable_attended [OF assms] by blast
qed

subsection \<open>Runs\<close>

definition demo_batcher :: "int \<Rightarrow> WriteBatcher" where
  "demo_batcher n = \<lparr>wb_rows = [], wb_buffer = [], wb_batch = [], wb_draining = False, wb_ended = False, wb_flushing = False,
     wb_timer = False, wb_outcomes = [], wb_written = [], wb_maxRows = n, wb_maxBytes = 1000\<rparr>"

lemma demo_batcher_reachable: "1 \<le> n \<Longrightarrow> n < 100 \<Longrightarrow> batcher_reachable json (demo_batcher n)"
  by (rule batcher_new [of "Some n" "Some 1000"]) (simp add: new_batcher_def demo_batcher_def)

abbreviation demo_point :: TimeSeriesRecord where
  "demo_point \<equiv> payload_record 60000 (demo_payload 60000) default_config"

theorem rows_settle_in_order_witness:
  "wb_batch (timer_fired (\<lambda>_. 1) (enqueue (\<lambda>_. 1) ''b'' demo_point (enqueue (\<lambda>_. 1) ''a'' demo_point (demo_batcher 8)))) = [0, 1]
   \<and> map_get (wb_outcomes (query_done (\<lambda>_. 1) False (timer_fired (\<lambda>_. 1) (enqueue (\<lambda>_. 1) ''b'' demo_point (enqueue (\<lambda>_. 1) ''a'' demo_point (demo_batcher 8)))))) 1
     = Some RowRejected"
proof -
  define w where "w = enqueue (\<lambda>_. 1) ''b'' demo_point (enqueue (\<lambda>_. 1) ''a'' demo_point (demo_batcher 8))"
  have "batcher_reachable (\<lambda>_. 1) w"
    unfolding w_def by (intro batcher_next [OF _ row_enqueued] demo_batcher_reachable) simp_all
  moreover have "wb_timer w" "\<not> wb_ended w"
    by (simp_all add: w_def enqueue_def demo_batcher_def bufferBytes_def row_bytes_def)
  ultimately have reach: "batcher_reachable (\<lambda>_. 1) (timer_fired (\<lambda>_. 1) w)"
    by (intro batcher_next [OF _ timer_ends])
  have "wb_batch (timer_fired (\<lambda>_. 1) w) = [0, 1]"
    by (simp add: w_def timer_fired_def drain_def drain_pass_def enqueue_def demo_batcher_def bufferBytes_def row_bytes_def)
  then show ?thesis
    using rows_settle_in_order [OF reach, of False] by (simp add: w_def)
qed

text \<open>
  When a single row fills a batch, a row enqueued between the end of a drain's loop and its \<open>finally\<close> callback joins the
  drain that is over: it stays in the buffer with no drain, timer or flush to write it.
\<close>

lemma row_left_behind:
  defines "w \<equiv> drain_forgotten (enqueue (\<lambda>_. 1) ''b'' demo_point (query_done (\<lambda>_. 1) True (enqueue (\<lambda>_. 1) ''a'' demo_point (demo_batcher 1))))"
  shows "batcher_reachable (\<lambda>_. 1) w" "wb_buffer w = [1]" "\<not> attended w"
proof -
  define w1 where "w1 = enqueue (\<lambda>_. 1) ''a'' demo_point (demo_batcher 1)"
  define w2 where "w2 = query_done (\<lambda>_. 1) True w1"
  define w3 where "w3 = enqueue (\<lambda>_. 1) ''b'' demo_point w2"
  note unfold = enqueue_def drain_def drain_pass_def demo_batcher_def bufferBytes_def row_bytes_def query_done_def settle_rows_def
  have w1: "wb_batch w1 = [0]" by (simp add: w1_def unfold)
  have w2: "w2 = w1\<lparr>wb_batch := [], wb_written := [0], wb_outcomes := [(0, RowResolved)], wb_ended := True\<rparr>"
    by (simp add: w2_def w1_def unfold)
  have w3: "wb_ended w3" "wb_buffer w3 = [1]" "\<not> wb_timer w3" "\<not> wb_flushing w3"
    by (simp_all add: w3_def w2 w1_def unfold)
  have "batcher_reachable (\<lambda>_. 1) w1"
    unfolding w1_def by (intro batcher_next [OF _ row_enqueued] demo_batcher_reachable) simp_all
  then have "batcher_reachable (\<lambda>_. 1) w2"
    unfolding w2_def using w1 by (intro batcher_next [OF _ query_ends]) simp_all
  then have "batcher_reachable (\<lambda>_. 1) w3"
    unfolding w3_def by (rule batcher_next [OF _ row_enqueued])
  then show "batcher_reachable (\<lambda>_. 1) w" "wb_buffer w = [1]" "\<not> attended w"
    using batcher_next [OF _ drain_ends] w3 unfolding w_def w1_def [symmetric] w2_def [symmetric] w3_def [symmetric]
    by (simp_all add: drain_forgotten_def attended_def)
qed

end
