(* ===== verification/Updates.thy ===== *)
theory Updates
  imports Js_Text "HOL-Library.Product_Lexorder"
begin

text \<open>
  The update check: \<open>apps/server/src/updates.ts\<close> and \<open>update-assets.ts\<close>.

  The release service is outside: what a request to it brings is the value \<open>fetch_outcome\<close> of an event, and the
  checksum file of a release is read through the parameter \<open>fetch_text\<close> (\<open>None\<close> for a failed or refused read).
  \<open>Date.parse\<close> of a \<open>Retry-After\<close> text, whose format the language leaves to the implementation, is the parameter
  \<open>parse_date\<close>.  \<open>releaseFailureUntil\<close> is \<open>None\<close> when the code has made it \<open>NaN\<close>.
\<close>

record GitHubAsset =
  ga_name :: string
  ga_url :: string
  ga_size :: int
  ga_digest :: "string option"

record GitHubRelease =
  gr_tag_name :: string
  gr_html_url :: string
  gr_published_at :: "string option"
  gr_prerelease :: bool
  gr_draft :: bool
  gr_assets :: "GitHubAsset list"

datatype UpdatePlatform = Hub | Web | WindowsGui | LinuxGui | MacosGui | Android | Ios

datatype install_mode = Installer | Package | Apk | HubMode | Store | NoInstall

record update_env =
  en_version :: string
  en_channel :: ReleaseChannel
  en_iosUpdateUrl :: "string option"
  en_updateCacheSeconds :: int

record update_input =
  ui_platform :: UpdatePlatform
  ui_currentVersion :: "string option"
  ui_currentChannel :: "ReleaseChannel option"
  ui_arch :: "string option"

record UpdateInfo =
  up_currentVersion :: string
  up_currentChannel :: ReleaseChannel
  up_platform :: UpdatePlatform
  up_arch :: "string option"
  up_available :: bool
  up_latestVersion :: "string option"
  up_latestChannel :: "ReleaseChannel option"
  up_releaseTag :: "string option"
  up_releaseUrl :: "string option"
  up_notesUrl :: "string option"
  up_publishedAt :: "string option"
  up_assetName :: "string option"
  up_assetUrl :: "string option"
  up_assetSize :: "int option"
  up_sha256 :: "string option"
  up_installMode :: install_mode
  up_message :: "string option"

subsection \<open>Versions\<close>

type_synonym version = "nat \<times> nat \<times> nat"

text \<open>\<open>/^v?(\d+)\.(\d+)\.(\d+)$/\<close> on the trimmed text.\<close>

definition parseVersion :: "string \<Rightarrow> version option" where
  "parseVersion text =
     (let t = trim text; body = (case t of c # r \<Rightarrow> if c = CHR ''v'' then r else t | [] \<Rightarrow> [])
      in case split_on (CHR ''.'') body of
           [a, b, c] \<Rightarrow> if is_digits a \<and> is_digits b \<and> is_digits c
             then Some (digits_val a, digits_val b, digits_val c) else None
         | _ \<Rightarrow> None)"

definition compareVersions :: "string \<Rightarrow> string \<Rightarrow> int option" where
  "compareVersions left right =
     (case (parseVersion left, parseVersion right) of
        (Some (a, b, c), Some (d, e, f)) \<Rightarrow>
          Some (if a \<noteq> d then (if a > d then 1 else -1)
                else if b \<noteq> e then (if b > e then 1 else -1)
                else if c \<noteq> f then (if c > f then 1 else -1) else 0)
      | _ \<Rightarrow> None)"

definition isStrictlyNewerVersion :: "string \<Rightarrow> string \<Rightarrow> bool" where
  "isStrictlyNewerVersion candidate current \<longleftrightarrow> compareVersions candidate current = Some 1"

text \<open>\<open>version.join(".")\<close>.\<close>

definition join_version :: "version \<Rightarrow> string" where
  "join_version v = (case v of (a, b, c) \<Rightarrow> join_with ''.'' [show_nat a, show_nat b, show_nat c])"

definition normalizeVersion :: "string \<Rightarrow> string" where
  "normalizeVersion text = (case trim text of c # r \<Rightarrow> if c = CHR ''v'' then r else c # r | [] \<Rightarrow> [])"

subsection \<open>Assets and checksums\<close>

definition assetNameFor :: "UpdatePlatform \<Rightarrow> string \<Rightarrow> string option \<Rightarrow> string option" where
  "assetNameFor platform version arch =
     (case platform of
        WindowsGui \<Rightarrow> Some (''DeviceStateConsole-Windows-Setup-v'' @ version @ ''.exe'')
      | LinuxGui \<Rightarrow> Some (''DeviceStateConsole-Linux-Install-v'' @ version @ ''.deb'')
      | MacosGui \<Rightarrow>
          (let architecture = (if arch = Some ''x64'' \<or> arch = Some ''amd64'' then Some ''x64''
             else if arch = Some ''arm64'' then Some ''arm64'' else None)
           in map_option (\<lambda>a. ''DeviceStateConsole-macOS-'' @ a @ ''-Install-v'' @ version @ ''.pkg'') architecture)
      | Android \<Rightarrow> Some (''DeviceStateConsole-Android-v'' @ version @ ''.apk'')
      | _ \<Rightarrow> None)"

definition installModeFor :: "UpdatePlatform \<Rightarrow> install_mode" where
  "installModeFor platform =
     (case platform of WindowsGui \<Rightarrow> Installer | LinuxGui \<Rightarrow> Package | MacosGui \<Rightarrow> Package | Android \<Rightarrow> Apk
      | Hub \<Rightarrow> HubMode | Web \<Rightarrow> HubMode | Ios \<Rightarrow> Store)"

text \<open>\<open>[a-f0-9]\<close> with the flag \<open>i\<close>.\<close>

definition is_hex_i :: "char \<Rightarrow> bool" where
  "is_hex_i c \<longleftrightarrow> is_digit c \<or> (let k = (of_char (lower_char c) :: nat) in 97 \<le> k \<and> k \<le> 102)"

text \<open>The first \<open>[a-f0-9]{64}\<close> of a text, ignoring case.\<close>

fun find_hex64 :: "string \<Rightarrow> string option" where
  "find_hex64 s =
     (if length (take 64 s) = 64 \<and> list_all is_hex_i (take 64 s) then Some (take 64 s)
      else case s of [] \<Rightarrow> None | _ # r \<Rightarrow> find_hex64 r)"

declare find_hex64.simps [simp del]

text \<open>\<open>/^sha256:([a-f0-9]{64})$/i\<close>.\<close>

definition digest_of :: "string \<Rightarrow> string option" where
  "digest_of d =
     (let h = drop 7 d
      in if toLowerCase (take 7 d) = ''sha256:'' \<and> length h = 64 \<and> list_all is_hex_i h then Some h else None)"

definition resolveSha256 :: "(string \<Rightarrow> string option) \<Rightarrow> GitHubRelease \<Rightarrow> GitHubAsset \<Rightarrow> string option" where
  "resolveSha256 fetch_text release asset =
     (case Option.bind (ga_digest asset) digest_of of
        Some digest \<Rightarrow> Some (toLowerCase digest)
      | None \<Rightarrow>
          (case find (\<lambda>item. ga_name item = ga_name asset @ ''.sha256'' \<or> ga_name item = ga_name asset @ ''.sha256.txt'')
             (gr_assets release) of
             None \<Rightarrow> None
           | Some checksumAsset \<Rightarrow>
               (case fetch_text (ga_url checksumAsset) of
                  None \<Rightarrow> None
                | Some body \<Rightarrow> map_option toLowerCase (find_hex64 body))))"

subsection \<open>The check itself\<close>

definition current_version :: "update_env \<Rightarrow> update_input \<Rightarrow> string" where
  "current_version env input =
     (case ui_currentVersion input of
        None \<Rightarrow> en_version env
      | Some v \<Rightarrow> if trim v \<noteq> [] then trim v else en_version env)"

definition update_base :: "update_env \<Rightarrow> update_input \<Rightarrow> UpdateInfo" where
  "update_base env input =
     \<lparr>up_currentVersion = current_version env input, up_currentChannel = nullish (ui_currentChannel input) (en_channel env),
      up_platform = ui_platform input, up_arch = ui_arch input, up_available = False, up_latestVersion = None,
      up_latestChannel = None, up_releaseTag = None, up_releaseUrl = None, up_notesUrl = None, up_publishedAt = None,
      up_assetName = None, up_assetUrl = None, up_assetSize = None, up_sha256 = None,
      up_installMode = installModeFor (ui_platform input), up_message = None\<rparr>"

type_synonym candidate = "GitHubRelease \<times> version"

definition version_order :: "candidate \<Rightarrow> candidate \<Rightarrow> int" where
  "version_order left right = nullish (compareVersions (join_version (snd right)) (join_version (snd left))) 0"

definition channel_order :: "candidate \<Rightarrow> candidate \<Rightarrow> int" where
  "channel_order left right = of_bool (gr_prerelease (fst left)) - of_bool (gr_prerelease (fst right))"

definition candidates :: "GitHubRelease list \<Rightarrow> string \<Rightarrow> ReleaseChannel \<Rightarrow> candidate list" where
  "candidates releases currentVersion currentChannel =
     js_sort (cmp_then version_order channel_order)
       (filter (\<lambda>(release, version).
           if \<not> isStrictlyNewerVersion (join_version version) currentVersion then False
           else if currentChannel = Stable \<and> gr_prerelease release then False else True)
         (List.map_filter (\<lambda>release. map_option (\<lambda>v. (release, v)) (parseVersion (gr_tag_name release)))
           (filter (\<lambda>release. \<not> gr_draft release) releases)))"

text \<open>\<open>getUpdateInfo\<close>, given what \<open>getReleases\<close> brought.\<close>

definition getUpdateInfo :: "update_env \<Rightarrow> (string \<Rightarrow> string option) \<Rightarrow> GitHubRelease list \<Rightarrow> update_input \<Rightarrow> UpdateInfo" where
  "getUpdateInfo env fetch_text releases input =
     (let base = update_base env input
      in if parseVersion (up_currentVersion base) = None then base\<lparr>up_message := Some ''current_version_unrecognized''\<rparr>
         else case candidates releases (up_currentVersion base) (up_currentChannel base) of
           [] \<Rightarrow> base\<lparr>up_message := Some ''up_to_date''\<rparr>
         | (candidate, _) # _ \<Rightarrow>
             let candidateVersion = normalizeVersion (gr_tag_name candidate);
                 assetName = assetNameFor (ui_platform input) candidateVersion (ui_arch input);
                 asset = (case assetName of None \<Rightarrow> None
                   | Some n \<Rightarrow> if n = [] then None else find (\<lambda>item. ga_name item = n) (gr_assets candidate));
                 sha256 = (case asset of None \<Rightarrow> None | Some a \<Rightarrow> resolveSha256 fetch_text candidate a)
             in base\<lparr>up_available := True, up_latestVersion := Some candidateVersion,
                  up_latestChannel := Some (if gr_prerelease candidate then Test else Stable),
                  up_releaseTag := Some (gr_tag_name candidate), up_releaseUrl := Some (gr_html_url candidate),
                  up_notesUrl := Some (gr_html_url candidate), up_publishedAt := gr_published_at candidate,
                  up_assetName := map_option ga_name asset,
                  up_assetUrl := opt_or (map_option ga_url asset)
                    (if ui_platform input = Ios then en_iosUpdateUrl env else None),
                  up_assetSize := map_option ga_size asset, up_sha256 := sha256,
                  up_installMode := (if ui_platform input = Ios then Store else up_installMode base),
                  up_message := (if asset \<noteq> None \<or> ui_platform input \<in> {Hub, Web, Ios} then None else Some ''asset_not_found'')\<rparr>)"

subsection \<open>The cached list of releases\<close>

record CachedReleases =
  cr_expiresAt :: int
  cr_releases :: "GitHubRelease list"

text \<open>The module's variables; the request in flight is known by the time \<open>now\<close> it captured.\<close>

record release_state =
  rs_cache :: "CachedReleases option"
  rs_request :: "int option"
  rs_failureUntil :: "num option"
  rs_failures :: nat

definition release_init :: release_state where
  "release_init = \<lparr>rs_cache = None, rs_request = None, rs_failureUntil = Some 0, rs_failures = 0\<rparr>"

datatype releases_reply = Served "GitHubRelease list" | Joined | CoolingDown | Started

definition getReleases :: "int \<Rightarrow> release_state \<Rightarrow> releases_reply \<times> release_state" where
  "getReleases now st =
     (let fresh = (case rs_cache st of Some c \<Rightarrow> cr_expiresAt c > now | None \<Rightarrow> False);
          cooling = (case rs_failureUntil st of None \<Rightarrow> False | Some u \<Rightarrow> of_int now < u)
      in if fresh then (Served (cr_releases (the (rs_cache st))), st)
         else if rs_request st \<noteq> None then (Joined, st)
         else if cooling then
           (case rs_cache st of Some c \<Rightarrow> (Served (cr_releases c), st) | None \<Rightarrow> (CoolingDown, st))
         else (Started, st\<lparr>rs_request := Some now\<rparr>))"

text \<open>
  \<open>Number\<close> of a text: blanks around an optional sign, digits and a fraction; nothing is zero.  Exponents, hexadecimal
  literals and \<open>Infinity\<close>, which no count of seconds uses, are not read.
\<close>

definition Number_of :: "string \<Rightarrow> num option" where
  "Number_of text =
     (let t = trim text;
          neg = (case t of c # _ \<Rightarrow> c = CHR ''-'' | [] \<Rightarrow> False);
          body = (case t of c # r \<Rightarrow> if c = CHR ''-'' \<or> c = CHR ''+'' then r else t | [] \<Rightarrow> []);
          sign = (if neg then -1 else 1)
      in if t = [] then Some 0
         else case split_on (CHR ''.'') body of
           [a] \<Rightarrow> if is_digits a then Some (sign * of_nat (digits_val a)) else None
         | [a, b] \<Rightarrow> if a @ b \<noteq> [] \<and> list_all is_digit (a @ b)
             then Some (sign * (of_nat (digits_val a) + of_nat (digits_val b) / 10 ^ length b)) else None
         | _ \<Rightarrow> None)"

datatype fetch_outcome =
    Unreachable
  | HttpError nat "string option" "string option"
  | InvalidBody
  | Releases "GitHubRelease list"

text \<open>\<open>Math.max\<close>, which is \<open>NaN\<close> as soon as one argument is.\<close>

definition max_nan :: "num option \<Rightarrow> num option \<Rightarrow> num option" where
  "max_nan x y = (case (x, y) of (Some a, Some b) \<Rightarrow> Some (max a b) | _ \<Rightarrow> None)"

definition retry_at :: "(string \<Rightarrow> int option) \<Rightarrow> int \<Rightarrow> string option \<Rightarrow> int" where
  "retry_at parse_date now retry =
     (case retry of
        None \<Rightarrow> 0
      | Some r \<Rightarrow> if r = [] then 0
          else if is_digits r then now + int (digits_val r) * 1000 else nullish (parse_date r) 0)"

definition note_http_error :: "(string \<Rightarrow> int option) \<Rightarrow> int \<Rightarrow> string option \<Rightarrow> string option \<Rightarrow> release_state \<Rightarrow> release_state" where
  "note_http_error parse_date now retry reset st =
     st\<lparr>rs_failureUntil := max_nan (max_nan (rs_failureUntil st) (Some (of_int (retry_at parse_date now retry))))
          (map_option (\<lambda>x. x * 1000) (case reset of None \<Rightarrow> Some 0 | Some h \<Rightarrow> Number_of h))\<rparr>"

definition note_failure :: "int \<Rightarrow> release_state \<Rightarrow> release_state" where
  "note_failure now st =
     (let failures = rs_failures st + 1
      in st\<lparr>rs_failures := failures,
           rs_failureUntil := max_nan (rs_failureUntil st)
             (Some (of_int (now + min (6 * 3600000) (60000 * 2 ^ min failures 10))))\<rparr>)"

text \<open>The end of a request that captured \<open>now\<close>, at the time \<open>doneAt\<close>: \<open>None\<close> is the rejected promise.\<close>

definition releases_answer :: "(string \<Rightarrow> int option) \<Rightarrow> update_env \<Rightarrow> fetch_outcome \<Rightarrow> int \<Rightarrow> int \<Rightarrow> release_state
    \<Rightarrow> GitHubRelease list option \<times> release_state" where
  "releases_answer parse_date env outcome now doneAt st =
     (let failed = (\<lambda>st. (map_option cr_releases (rs_cache st), (note_failure now st)\<lparr>rs_request := None\<rparr>))
      in case outcome of
           Unreachable \<Rightarrow> failed st
         | HttpError status retry reset \<Rightarrow> failed (note_http_error parse_date now retry reset st)
         | InvalidBody \<Rightarrow> failed st
         | Releases releases \<Rightarrow>
             (Some releases, st\<lparr>rs_failures := 0, rs_failureUntil := Some 0,
                rs_cache := Some \<lparr>cr_expiresAt = doneAt + en_updateCacheSeconds env * 1000, cr_releases = releases\<rparr>,
                rs_request := None\<rparr>))"


subsection \<open>Versions are ordered as their numbers\<close>

lemma digit_char: "is_digit c \<longleftrightarrow> 48 \<le> (of_char c :: nat) \<and> (of_char c :: nat) \<le> 57"
  by (auto simp: is_digit_def digit_val_def Let_def)

lemma digit_not_space: "is_digit c \<Longrightarrow> \<not> is_space c"
  by (auto simp: digit_char is_space_def)

lemma digit_not_dot: "is_digit c \<Longrightarrow> c \<noteq> CHR ''.''" and digit_not_v: "is_digit c \<Longrightarrow> c \<noteq> CHR ''v''"
  by (auto simp: digit_char)

lemma trim_id: "s \<noteq> [] \<Longrightarrow> \<not> is_space (hd s) \<Longrightarrow> \<not> is_space (last s) \<Longrightarrow> trim s = s"
proof -
  assume s: "s \<noteq> []" "\<not> is_space (hd s)" "\<not> is_space (last s)"
  have "dropWhile is_space s = s"
    using s by (cases s) auto
  moreover have "dropWhile is_space (rev s) = rev s"
    using s by (cases s rule: rev_cases) auto
  ultimately show ?thesis
    by (simp add: trim_def)
qed

lemma show_nat_digits: "show_nat n \<noteq> []" "list_all is_digit (show_nat n)"
  using is_digits_show_nat [of n] by (auto simp: is_digits_def)

lemma show_nat_ends:
  "is_digit (hd (show_nat n))" "is_digit (last (show_nat n))" "CHR ''.'' \<notin> set (show_nat n)"
  using show_nat_digits [of n] digit_not_dot by (auto simp: list_all_iff)

lemma parse_join_version [simp]: "parseVersion (join_version v) = Some v"
proof -
  obtain a b c where v: "v = (a, b, c)" by (cases v)
  let ?t = "join_version v"
  have hd: "hd ?t = hd (show_nat a)" and last: "last ?t = last (show_nat c)" and ne: "?t \<noteq> []"
    using show_nat_digits by (simp_all add: v join_version_def)
  have trim: "trim ?t = ?t"
    using ne by (rule trim_id) (simp_all add: hd last show_nat_ends digit_not_space)
  have body: "(case ?t of c # r \<Rightarrow> if c = CHR ''v'' then r else ?t | [] \<Rightarrow> []) = ?t"
    using ne hd show_nat_ends(1) [of a] digit_not_v by (cases ?t) auto
  have "split_on (CHR ''.'') ?t = [show_nat a, show_nat b, show_nat c]"
    unfolding v join_version_def prod.case by (rule split_join) (auto simp: show_nat_ends)
  then show ?thesis
    by (simp add: parseVersion_def Let_def trim body) (simp add: v)
qed

lemma compareVersions_cmp:
  "parseVersion l = Some v \<Longrightarrow> parseVersion r = Some w \<Longrightarrow> compareVersions l r = Some (cmp_by (\<lambda>x. x) v w)"
  by (cases v; cases w) (auto simp: compareVersions_def cmp_by_def less_prod_def)

lemma newer_iff:
  assumes "parseVersion cur = Some w"
  shows "isStrictlyNewerVersion (join_version v) cur \<longleftrightarrow> w < v"
  using assms by (auto simp: isStrictlyNewerVersion_def compareVersions_cmp cmp_by_def)

lemma version_order_eq: "version_order left right = cmp_by snd right left"
  by (simp add: version_order_def compareVersions_cmp [OF parse_join_version parse_join_version] cmp_by_def)

interpretation release_order: comparison "cmp_then version_order channel_order"
proof (rule comparison_then)
  show "comparison version_order"
    by unfold_locales (auto simp: version_order_eq cmp_by_def split: if_splits)
  show "comparison channel_order"
    by unfold_locales (auto simp: channel_order_def of_bool_def split: if_splits)
qed

lemma release_order_iff:
  "cmp_then version_order channel_order a b \<le> 0 \<longleftrightarrow>
     snd b < snd a \<or> (snd a = snd b \<and> (gr_prerelease (fst a) \<longrightarrow> gr_prerelease (fst b)))"
  by (auto simp: cmp_then_def version_order_eq channel_order_def cmp_by_def of_bool_def)

subsection \<open>Which release is offered\<close>

text \<open>A release the installation may move to.\<close>

definition eligible :: "version \<Rightarrow> ReleaseChannel \<Rightarrow> GitHubRelease \<Rightarrow> bool" where
  "eligible current channel r \<longleftrightarrow> \<not> gr_draft r \<and> (channel = Stable \<longrightarrow> \<not> gr_prerelease r)
     \<and> (case parseVersion (gr_tag_name r) of None \<Rightarrow> False | Some v \<Rightarrow> current < v)"

lemma set_map_filter: "set (List.map_filter f xs) = {y. \<exists>x \<in> set xs. f x = Some y}"
  by (induction xs) (auto simp: List.map_filter_simps split: option.split)

lemma set_candidates:
  assumes "parseVersion cur = Some w"
  shows "set (candidates releases cur channel) =
    {(r, v). r \<in> set releases \<and> parseVersion (gr_tag_name r) = Some v \<and> eligible w channel r}"
  by (auto simp: candidates_def set_map_filter newer_iff [OF assms] eligible_def split: if_splits)

lemma parse_normalize:
  assumes "parseVersion tag = Some v"
  shows "parseVersion (normalizeVersion tag) = Some v"
proof -
  define body where "body = normalizeVersion tag"
  have nb: "(case trim tag of c # r \<Rightarrow> if c = CHR ''v'' then r else trim tag | [] \<Rightarrow> []) = body"
    by (simp add: body_def normalizeVersion_def split: list.split)
  obtain a b c where split: "split_on (CHR ''.'') body = [a, b, c]" and d: "is_digits a" "is_digits b" "is_digits c"
    and v: "v = (digits_val a, digits_val b, digits_val c)"
    using assms unfolding parseVersion_def Let_def nb by (auto split: list.splits if_splits)
  have "body = join_with ''.'' [a, b, c]"
    using join_split [of "CHR ''.''" body] by (simp add: split)
  then have b: "body = a @ ''.'' @ b @ ''.'' @ c" by simp
  have ne: "a \<noteq> []" "c \<noteq> []" and hd: "is_digit (hd a)" and last: "is_digit (last c)"
    using d by (auto simp: is_digits_def list_all_iff)
  have trim: "trim body = body"
    using ne hd last by (intro trim_id) (simp_all add: b digit_not_space)
  have "(case body of c # r \<Rightarrow> if c = CHR ''v'' then r else body | [] \<Rightarrow> []) = body"
    using ne(1) hd digit_not_v by (cases a) (auto simp: b)
  then show ?thesis
    using d unfolding body_def [symmetric] by (simp add: parseVersion_def Let_def trim split v)
qed

text \<open>The best of the eligible releases: none is newer, and a stable release is preferred among equals.\<close>

definition best_release :: "version \<Rightarrow> ReleaseChannel \<Rightarrow> GitHubRelease list \<Rightarrow> GitHubRelease \<Rightarrow> version \<Rightarrow> bool" where
  "best_release w channel releases r v \<longleftrightarrow> r \<in> set releases \<and> eligible w channel r \<and> parseVersion (gr_tag_name r) = Some v \<and>
     (\<forall>r' \<in> set releases. \<forall>v'. eligible w channel r' \<longrightarrow> parseVersion (gr_tag_name r') = Some v' \<longrightarrow>
        v' \<le> v \<and> (v' = v \<longrightarrow> gr_prerelease r \<longrightarrow> gr_prerelease r'))"

lemma candidates_Nil_iff:
  assumes "parseVersion cur = Some w"
  shows "candidates releases cur channel = [] \<longleftrightarrow> (\<forall>r \<in> set releases. \<not> eligible w channel r)"
proof -
  have "eligible w channel r \<Longrightarrow> \<exists>v. parseVersion (gr_tag_name r) = Some v" for r
    by (auto simp: eligible_def split: option.splits)
  then have "(\<exists>p. p \<in> set (candidates releases cur channel)) \<longleftrightarrow> (\<exists>r \<in> set releases. eligible w channel r)"
    unfolding set_candidates [OF assms] by blast
  then show ?thesis
    by (metis list.set_intros(1) list.exhaust empty_iff empty_set)
qed

lemma candidates_best:
  assumes "parseVersion cur = Some w" "candidates releases cur channel = (r, v) # cs"
  shows "best_release w channel releases r v"
proof -
  note set = set_candidates [OF assms(1), of releases channel]
  have "v' \<le> v \<and> (v' = v \<longrightarrow> gr_prerelease r \<longrightarrow> gr_prerelease r')"
    if "r' \<in> set releases" "eligible w channel r'" "parseVersion (gr_tag_name r') = Some v'" for r' v'
  proof -
    have "(r', v') \<in> set (candidates releases cur channel)" using that set by simp
    then have "cmp_then version_order channel_order (r, v) (r', v') \<le> 0"
      unfolding candidates_def set_js_sort by (rule release_order.js_sort_head(2) [OF assms(2) [unfolded candidates_def]])
    then show ?thesis by (auto simp: release_order_iff)
  qed
  moreover have "(r, v) \<in> set (candidates releases cur channel)" by (simp add: assms(2))
  ultimately show ?thesis
    unfolding set by (simp add: best_release_def)
qed

lemma update_offer:
  assumes "up_available (getUpdateInfo env fetch_text releases input)"
  shows "\<exists>w r v. parseVersion (current_version env input) = Some w
    \<and> best_release w (nullish (ui_currentChannel input) (en_channel env)) releases r v
    \<and> up_releaseTag (getUpdateInfo env fetch_text releases input) = Some (gr_tag_name r)
    \<and> up_releaseUrl (getUpdateInfo env fetch_text releases input) = Some (gr_html_url r)
    \<and> up_latestChannel (getUpdateInfo env fetch_text releases input) = Some (if gr_prerelease r then Test else Stable)
    \<and> up_latestVersion (getUpdateInfo env fetch_text releases input) = Some (normalizeVersion (gr_tag_name r))
    \<and> parseVersion (normalizeVersion (gr_tag_name r)) = Some v"
proof -
  let ?channel = "nullish (ui_currentChannel input) (en_channel env)"
  obtain w where w: "parseVersion (current_version env input) = Some w"
    using assms by (cases "parseVersion (current_version env input)") (auto simp: getUpdateInfo_def update_base_def Let_def)
  obtain r v cs where cs: "candidates releases (current_version env input) ?channel = (r, v) # cs"
    using assms w by (cases "candidates releases (current_version env input) ?channel")
      (auto simp: getUpdateInfo_def update_base_def Let_def)
  have best: "best_release w ?channel releases r v"
    using w cs by (rule candidates_best)
  then have "parseVersion (normalizeVersion (gr_tag_name r)) = Some v"
    by (intro parse_normalize) (simp add: best_release_def)
  then show ?thesis
    using best w cs by (intro exI [of _ w] exI [of _ r] exI [of _ v]) (simp add: getUpdateInfo_def update_base_def Let_def)
qed

text \<open>
  C30: for an installation whose version is recognised, an update is offered exactly when some published release of an
  allowed channel has a strictly newer version; the release offered is such a one, none allowed is newer, a stable one
  is preferred to a pre-release of the same version, and the version announced is the one of its tag.
\<close>

theorem update_selection:
  fixes env fetch_text releases input
  defines "info \<equiv> getUpdateInfo env fetch_text releases input"
  defines "channel \<equiv> nullish (ui_currentChannel input) (en_channel env)"
  assumes current: "parseVersion (current_version env input) = Some w"
  shows "(up_available info \<longleftrightarrow> (\<exists>r \<in> set releases. eligible w channel r)) \<and>
    (up_available info \<longrightarrow> (\<exists>r v. best_release w channel releases r v
      \<and> up_releaseTag info = Some (gr_tag_name r) \<and> up_releaseUrl info = Some (gr_html_url r)
      \<and> up_latestChannel info = Some (if gr_prerelease r then Test else Stable)
      \<and> Option.bind (up_latestVersion info) parseVersion = Some v))"
proof -
  have "up_available info \<longleftrightarrow> candidates releases (current_version env input) channel \<noteq> []"
    using current by (simp add: info_def channel_def getUpdateInfo_def update_base_def Let_def split: list.split)
  then show ?thesis
    using current candidates_Nil_iff [OF current, of releases channel] update_offer [of env fetch_text releases input]
    unfolding info_def channel_def by fastforce
qed

definition demo_release :: "string \<Rightarrow> bool \<Rightarrow> bool \<Rightarrow> GitHubRelease" where
  "demo_release tag pre draft = \<lparr>gr_tag_name = tag, gr_html_url = ''https://example'', gr_published_at = None,
     gr_prerelease = pre, gr_draft = draft, gr_assets = []\<rparr>"

definition demo_update_env :: update_env where
  "demo_update_env = \<lparr>en_version = ''1.2.9'', en_channel = Stable, en_iosUpdateUrl = None, en_updateCacheSeconds = 300\<rparr>"

definition demo_update_input :: update_input where
  "demo_update_input = \<lparr>ui_platform = Hub, ui_currentVersion = None, ui_currentChannel = None, ui_arch = None\<rparr>"

lemma demo_current: "parseVersion (current_version demo_update_env demo_update_input) = Some (1, 2, 9)"
  by code_simp

theorem update_selection_witness:
  "up_available (getUpdateInfo demo_update_env (\<lambda>_. None)
     [demo_release ''v1.2.9'' False False, demo_release ''v1.3.0'' True False, demo_release ''v1.2.10'' False False] demo_update_input)"
proof -
  have "eligible (1, 2, 9) Stable (demo_release ''v1.2.10'' False False)"
    by code_simp
  moreover have "nullish (ui_currentChannel demo_update_input) (en_channel demo_update_env) = Stable"
    by (simp add: demo_update_input_def demo_update_env_def)
  ultimately show ?thesis
    using update_selection [OF demo_current, of "\<lambda>_. None" "[demo_release ''v1.2.9'' False False,
      demo_release ''v1.3.0'' True False, demo_release ''v1.2.10'' False False]"] by simp
qed


subsection \<open>How often the release service is asked\<close>

text \<open>Calls of \<open>getReleases\<close> and ends of requests, in the order of the event loop, with the times requests were sent.\<close>

datatype release_event = Ask int | Answer fetch_outcome int

primrec event_time :: "release_event \<Rightarrow> int" where
  "event_time (Ask now) = now"
| "event_time (Answer outcome doneAt) = doneAt"

definition release_event_step :: "(string \<Rightarrow> int option) \<Rightarrow> update_env \<Rightarrow> release_event
    \<Rightarrow> release_state \<times> int list \<Rightarrow> release_state \<times> int list" where
  "release_event_step parse_date env e w =
     (case w of (st, starts) \<Rightarrow>
        (case e of
           Ask now \<Rightarrow> (case getReleases now st of (reply, st') \<Rightarrow> (st', if reply = Started then starts @ [now] else starts))
         | Answer outcome doneAt \<Rightarrow>
             (case rs_request st of
                None \<Rightarrow> (st, starts)
              | Some now \<Rightarrow> (snd (releases_answer parse_date env outcome now doneAt st), starts))))"

definition release_run :: "(string \<Rightarrow> int option) \<Rightarrow> update_env \<Rightarrow> release_event list \<Rightarrow> release_state \<times> int list" where
  "release_run parse_date env es = fold (release_event_step parse_date env) es (release_init, [])"

text \<open>The rate limit's reset time, when the service sends one, is a number.\<close>

definition readable_reset :: "release_event \<Rightarrow> bool" where
  "readable_reset e \<longleftrightarrow> (case e of Answer (HttpError status retry (Some h)) doneAt \<Rightarrow> Number_of h \<noteq> None | _ \<Rightarrow> True)"

definition update_gap :: "update_env \<Rightarrow> int" where
  "update_gap env = min 120000 (en_updateCacheSeconds env * 1000)"

definition blocked_until :: "int \<Rightarrow> release_state \<Rightarrow> bool" where
  "blocked_until t st \<longleftrightarrow> (\<exists>u. rs_failureUntil st = Some u \<and> of_int t \<le> u) \<or> (\<exists>c. rs_cache st = Some c \<and> t \<le> cr_expiresAt c)"

definition releases_ok :: "int \<Rightarrow> int \<Rightarrow> release_state \<times> int list \<Rightarrow> bool" where
  "releases_ok gap clock w \<longleftrightarrow> (case w of (st, starts) \<Rightarrow>
     sorted_wrt (\<lambda>a b. a + gap \<le> b) starts \<and> rs_failureUntil st \<noteq> None \<and>
     (if starts = [] then rs_request st = None
      else last starts \<le> clock \<and>
        (case rs_request st of Some n \<Rightarrow> n = last starts | None \<Rightarrow> blocked_until (last starts + gap) st)))"

lemma sorted_gap_snoc:
  fixes gap :: int
  assumes "0 \<le> gap" "sorted_wrt (\<lambda>a b. a + gap \<le> b) xs" "xs \<noteq> [] \<Longrightarrow> last xs + gap \<le> x"
  shows "sorted_wrt (\<lambda>a b. a + gap \<le> b) (xs @ [x])"
proof (cases xs rule: rev_cases)
  case (snoc ys y)
  then show ?thesis
    using assms by (fastforce simp: sorted_wrt_append)
qed simp

lemma getReleases_started:
  "fst (getReleases now st) = Started \<Longrightarrow> rs_request st = None \<and> \<not> (\<exists>u. rs_failureUntil st = Some u \<and> of_int now < u)
     \<and> \<not> (\<exists>c. rs_cache st = Some c \<and> now < cr_expiresAt c) \<and> snd (getReleases now st) = st\<lparr>rs_request := Some now\<rparr>"
  by (auto simp: getReleases_def Let_def split: option.splits if_splits)

lemma getReleases_otherwise: "fst (getReleases now st) \<noteq> Started \<Longrightarrow> snd (getReleases now st) = st"
  by (auto simp: getReleases_def Let_def split: option.splits if_splits)

lemma releases_ok_ask:
  assumes "releases_ok gap clock (st, starts)" "clock \<le> now" "0 \<le> gap"
  shows "releases_ok gap now (release_event_step pd env (Ask now) (st, starts))"
proof (cases "fst (getReleases now st) = Started")
  case True
  note s = getReleases_started [OF True]
  have "starts \<noteq> [] \<Longrightarrow> last starts + gap \<le> now"
    using assms(1) s by (auto simp: releases_ok_def blocked_until_def not_less)
  then have "sorted_wrt (\<lambda>a b. a + gap \<le> b) (starts @ [now])"
    using assms by (intro sorted_gap_snoc) (auto simp: releases_ok_def)
  then show ?thesis
    using assms(1) s True by (auto simp: release_event_step_def releases_ok_def split: prod.split)
next
  case False
  then show ?thesis
    using assms getReleases_otherwise [OF False]
    by (auto simp: release_event_step_def releases_ok_def split: prod.split option.splits)
qed

lemma backoff_min: "120000 \<le> min (6 * 3600000) (60000 * 2 ^ min (Suc k) 10 :: int)"
proof -
  have "(2::int) ^ 1 \<le> 2 ^ min (Suc k) 10"
    by (rule power_increasing) auto
  then show ?thesis by simp
qed

lemma note_failure_until:
  assumes "rs_failureUntil st = Some u"
  obtains u' where "rs_failureUntil (note_failure now st) = Some u'" "of_int (now + 120000) \<le> u'"
proof
  let ?b = "of_int (now + min (6 * 3600000) (60000 * 2 ^ min (Suc (rs_failures st)) 10)) :: num"
  show "rs_failureUntil (note_failure now st) = Some (max u ?b)"
    using assms by (simp add: note_failure_def max_nan_def Let_def)
  have "of_int (now + 120000) \<le> ?b"
    unfolding of_int_le_iff using backoff_min by simp
  then show "of_int (now + 120000) \<le> max u ?b" by (rule max.coboundedI2)
qed

lemma http_error_until:
  assumes "rs_failureUntil st \<noteq> None" "readable_reset (Answer (HttpError status retry reset) doneAt)"
  shows "rs_failureUntil (note_http_error pd now retry reset st) \<noteq> None"
  using assms by (auto simp: note_http_error_def max_nan_def readable_reset_def split: option.splits)

lemma releases_answer_blocks:
  fixes pd env outcome now doneAt st
  defines "st' \<equiv> snd (releases_answer pd env outcome now doneAt st)"
  assumes "rs_failureUntil st \<noteq> None" "now \<le> doneAt" "readable_reset (Answer outcome doneAt)"
  shows "rs_failureUntil st' \<noteq> None \<and> rs_request st' = None \<and> blocked_until (now + update_gap env) st'"
proof (cases "\<exists>rs. outcome = Releases rs")
  case True
  then show ?thesis
    using assms(3) by (auto simp: st'_def releases_answer_def blocked_until_def update_gap_def Let_def)
next
  case False
  then obtain st1 where st1: "st' = (note_failure now st1)\<lparr>rs_request := None\<rparr>" "rs_failureUntil st1 \<noteq> None"
    using assms(2,4) http_error_until [OF assms(2)]
    by (cases outcome) (auto simp: st'_def releases_answer_def Let_def)
  then obtain u u' where "rs_failureUntil st1 = Some u" "rs_failureUntil (note_failure now st1) = Some u'"
    "of_int (now + 120000) \<le> u'"
    using note_failure_until by (metis option.exhaust)
  moreover have "(of_int (now + update_gap env) :: num) \<le> of_int (now + 120000)"
    unfolding of_int_le_iff by (simp add: update_gap_def)
  ultimately show ?thesis
    unfolding st1(1) by (auto simp: blocked_until_def simp del: of_int_add)
qed

lemma releases_ok_step:
  assumes "releases_ok (update_gap env) clock w" "clock \<le> event_time e" "readable_reset e" "0 \<le> update_gap env"
  shows "releases_ok (update_gap env) (event_time e) (release_event_step pd env e w)"
proof -
  obtain st starts where w: "w = (st, starts)" by (cases w)
  show ?thesis
  proof (cases e)
    case (Ask now)
    then show ?thesis using assms releases_ok_ask by (simp add: w)
  next
    case (Answer outcome doneAt)
    show ?thesis
    proof (cases "rs_request st")
      case None
      then show ?thesis
        using assms by (auto simp: w Answer release_event_step_def releases_ok_def)
    next
      case (Some now)
      then have l: "starts \<noteq> []" "now = last starts" "last starts \<le> clock" "rs_failureUntil st \<noteq> None"
        using assms(1) by (auto simp: w releases_ok_def split: if_splits)
      have "now \<le> doneAt" using assms(2) l by (simp add: Answer)
      note b = releases_answer_blocks [OF l(4) this assms(3) [unfolded Answer], of pd env]
      then show ?thesis
        using assms(1,2) l Some by (auto simp: w Answer release_event_step_def releases_ok_def)
    qed
  qed
qed

lemma releases_ok_run:
  assumes "sorted (map event_time es)" "\<forall>e \<in> set es. readable_reset e" "0 \<le> update_gap env"
    "releases_ok (update_gap env) clock w" "\<forall>e \<in> set es. clock \<le> event_time e"
  shows "\<exists>clock'. releases_ok (update_gap env) clock' (fold (release_event_step pd env) es w)"
  using assms
proof (induction es arbitrary: clock w)
  case (Cons e es)
  have "releases_ok (update_gap env) (event_time e) (release_event_step pd env e w)"
    using Cons.prems by (intro releases_ok_step) auto
  then show ?case
    using Cons by auto
qed auto

text \<open>A request is only sent when the one before it was answered.\<close>

definition is_answer :: "release_event \<Rightarrow> bool" where
  "is_answer e \<longleftrightarrow> (case e of Answer outcome doneAt \<Rightarrow> True | Ask now \<Rightarrow> False)"

definition unanswered :: "release_state \<times> int list \<Rightarrow> nat" where
  "unanswered w = (if rs_request (fst w) = None then 0 else 1)"

lemma getReleases_request: "fst (getReleases now st) \<noteq> Started \<Longrightarrow> rs_request (snd (getReleases now st)) = rs_request st"
  by (simp add: getReleases_otherwise)

lemma step_unanswered:
  "length (snd (release_event_step pd env e w)) + unanswered w + (if is_answer e then 0 else 1)
     \<le> length (snd w) + unanswered (release_event_step pd env e w) + 1"
proof -
  obtain st starts where w: "w = (st, starts)" by (cases w)
  show ?thesis
  proof (cases e)
    case (Ask now)
    then show ?thesis
      using getReleases_started [of now st] getReleases_request [of now st]
      by (cases "fst (getReleases now st) = Started")
        (auto simp: w release_event_step_def unanswered_def is_answer_def split: prod.split)
  next
    case (Answer outcome doneAt)
    then show ?thesis
      by (auto simp: w release_event_step_def unanswered_def is_answer_def split: option.split)
  qed
qed

lemma run_unanswered:
  "length (snd (fold (release_event_step pd env) es w)) + unanswered w
     \<le> length (snd w) + unanswered (fold (release_event_step pd env) es w) + length (filter is_answer es)"
proof (induction es arbitrary: w)
  case (Cons e es)
  show ?case
    using Cons.IH [of "release_event_step pd env e w"] step_unanswered [of pd env e w] by (simp split: if_splits)
qed simp

text \<open>
  C31: however often consoles ask for updates, requests to the release service are sent one at a time, each after the
  answer to the one before; as long as the reset time of a rate limit, where an answer carries one, is a number, they
  are at least two minutes apart, or the configured caching time where that is shorter; and once a list of releases was
  read, every later question is answered from a list.
\<close>

theorem release_requests_spaced:
  assumes "sorted (map event_time es)" "0 \<le> en_updateCacheSeconds env"
  shows "length (snd (release_run parse_date env es)) \<le> Suc (length (filter is_answer es)) \<and>
    ((\<forall>e \<in> set es. readable_reset e) \<longrightarrow>
       sorted_wrt (\<lambda>a b. a + min 120000 (en_updateCacheSeconds env * 1000) \<le> b) (snd (release_run parse_date env es))) \<and>
    (rs_cache (fst (release_run parse_date env es)) \<noteq> None \<longrightarrow>
       fst (getReleases now (fst (release_run parse_date env es))) \<noteq> CoolingDown \<and>
       fst (releases_answer parse_date env outcome started doneAt (fst (release_run parse_date env es))) \<noteq> None)"
proof -
  have init: "releases_ok (update_gap env) clock (release_init, [])" for clock
    by (simp add: releases_ok_def release_init_def)
  obtain clock where c: "\<forall>e \<in> set es. clock \<le> event_time e"
    using assms(1) by (cases es) (auto intro: that)
  have "sorted_wrt (\<lambda>a b. a + update_gap env \<le> b) (snd (release_run parse_date env es))" if "\<forall>e \<in> set es. readable_reset e"
  proof -
    have "\<exists>clock'. releases_ok (update_gap env) clock' (release_run parse_date env es)"
      unfolding release_run_def using assms c init that by (intro releases_ok_run) (auto simp: update_gap_def)
    then show ?thesis
      by (cases "release_run parse_date env es") (auto simp: releases_ok_def)
  qed
  moreover have "length (snd (release_run parse_date env es)) \<le> Suc (length (filter is_answer es))"
    using run_unanswered [of parse_date env es "(release_init, [])"]
    by (auto simp: release_run_def unanswered_def release_init_def split: if_splits)
  ultimately show ?thesis
    by (auto simp: update_gap_def getReleases_def releases_answer_def note_http_error_def Let_def
        split: option.splits fetch_outcome.splits)
qed

theorem release_requests_spaced_witness:
  "let es = [Ask 0, Ask 5, Answer Unreachable 9, Ask 60000, Ask 120000, Answer (Releases []) 120050, Ask 420049, Ask 420050]
   in snd (release_run (\<lambda>_. None) demo_update_env es) = [0, 120000, 420050] \<and>
      sorted_wrt (\<lambda>a b. a + 120000 \<le> b) (snd (release_run (\<lambda>_. None) demo_update_env es))"
proof -
  let ?es = "[Ask 0, Ask 5, Answer Unreachable 9, Ask 60000, Ask 120000, Answer (Releases []) 120050, Ask 420049, Ask 420050]"
  have "sorted_wrt (\<lambda>a b. a + 120000 \<le> b) (snd (release_run (\<lambda>_. None) demo_update_env ?es))"
    using release_requests_spaced [of ?es demo_update_env "\<lambda>_. None"] by (simp add: readable_reset_def demo_update_env_def)
  moreover have "snd (release_run (\<lambda>_. None) demo_update_env ?es) = [0, 120000, 420050]"
    by code_simp
  ultimately show ?thesis by simp
qed

text \<open>The condition on the header is needed: a reset time that is no number makes the waiting time \<open>NaN\<close>, and while the
  service keeps failing every question is a new request.\<close>

lemma unreadable_reset_disables_backoff:
  "snd (release_run (\<lambda>_. None) demo_update_env
     [Ask 0, Answer (HttpError 403 None (Some ''soon'')) 1, Ask 2, Answer (HttpError 403 None None) 3, Ask 4]) = [0, 2, 4]"
  by code_simp

end
