(* ===== verification/Hub_Update.thy ===== *)
theory Hub_Update
  imports Updates
begin

text \<open>
  The hub's own update: \<open>apps/server/src/hub-update.ts\<close>.

  \<open>requestHubUpdate\<close> waits twice, for the release check and for the dispatch of the deployment workflow, and other calls
  may run in between.  A call is therefore three steps, known by the call's number: the guards before the first wait,
  what follows the check, and what follows the dispatch.  The dispatches sent to the service are recorded.
\<close>

datatype hub_state = Idle | Requested | Failed

record HubUpdateStatus =
  hs_state :: hub_state
  hs_requestedVersion :: "string option"
  hs_requestedAt :: "string option"
  hs_message :: "string option"

record HubUpdateError =
  he_message :: string
  he_statusCode :: nat

record hub_env =
  hb_update :: update_env
  hb_enabled :: bool
  hb_token :: "string option"
  hb_testWorkflow :: string
  hb_stableWorkflow :: string
  hb_cookieSecure :: bool
  hb_requireHttps :: bool

record workflow_dispatch =
  wd_workflow :: string
  wd_version :: string
  wd_channel :: ReleaseChannel
  wd_allowHttp :: bool

datatype hub_phase = CheckingRelease string | Dispatching string

text \<open>A call ends with a status, with a \<open>HubUpdateError\<close>, or with an error of a request to the outside.\<close>

datatype hub_reply = HubStatus HubUpdateStatus | HubError HubUpdateError | OtherError

record hub_world =
  hw_status :: HubUpdateStatus
  hw_calls :: "(nat, hub_phase) jsmap"
  hw_replies :: "(nat, hub_reply) jsmap"
  hw_dispatches :: "(nat \<times> workflow_dispatch) list"

definition hub_init :: hub_world where
  "hub_init = \<lparr>hw_status = \<lparr>hs_state = Idle, hs_requestedVersion = None, hs_requestedAt = None, hs_message = None\<rparr>,
     hw_calls = [], hw_replies = [], hw_dispatches = []\<rparr>"

definition getHubUpdateStatus :: "hub_world \<Rightarrow> HubUpdateStatus" where
  "getHubUpdateStatus w = hw_status w"

abbreviation hub_error :: "string \<Rightarrow> nat \<Rightarrow> hub_reply" where
  "hub_error message code \<equiv> HubError \<lparr>he_message = message, he_statusCode = code\<rparr>"

definition hub_finish :: "nat \<Rightarrow> hub_reply \<Rightarrow> hub_world \<Rightarrow> hub_world" where
  "hub_finish i reply w = w\<lparr>hw_calls := map_delete i (hw_calls w), hw_replies := map_set i reply (hw_replies w)\<rparr>"

definition hub_begin :: "hub_env \<Rightarrow> nat \<Rightarrow> string \<Rightarrow> hub_world \<Rightarrow> hub_world" where
  "hub_begin env i version w =
     (if \<not> hb_enabled env then hub_finish i (hub_error ''hub_update_disabled'' 503) w
      else if \<not> truthy (hb_token env) then hub_finish i (hub_error ''hub_update_token_missing'' 503) w
      else if hs_state (hw_status w) = Requested then
        (if hs_requestedVersion (hw_status w) = Some version then hub_finish i (HubStatus (hw_status w)) w
         else hub_finish i (hub_error ''another_hub_update_is_in_progress'' 409) w)
      else w\<lparr>hw_calls := map_set i (CheckingRelease version) (hw_calls w)\<rparr>)"

definition hub_workflow :: "hub_env \<Rightarrow> string" where
  "hub_workflow env = (if en_channel (hb_update env) = Stable then hb_stableWorkflow env else hb_testWorkflow env)"

text \<open>After the check: \<open>None\<close> when \<open>getUpdateInfo\<close> failed.\<close>

definition hub_checked :: "hub_env \<Rightarrow> nat \<Rightarrow> string \<Rightarrow> UpdateInfo option \<Rightarrow> hub_world \<Rightarrow> hub_world" where
  "hub_checked env i version result w =
     (case result of
        None \<Rightarrow> hub_finish i OtherError w
      | Some info \<Rightarrow>
          if \<not> up_available info \<or> up_latestVersion info \<noteq> Some version
          then hub_finish i (hub_error ''requested_version_is_not_the_next_release'' 409) w
          else w\<lparr>hw_calls := map_set i (Dispatching version) (hw_calls w),
                 hw_dispatches := hw_dispatches w @ [(i, \<lparr>wd_workflow = hub_workflow env, wd_version = version,
                   wd_channel = en_channel (hb_update env), wd_allowHttp = (\<not> hb_cookieSecure env \<or> \<not> hb_requireHttps env)\<rparr>)]\<rparr>)"

text \<open>The end of the dispatch: no response, a refusal with its status and text, or success; \<open>now\<close> is the text of the time.\<close>

datatype dispatch_outcome = NoResponse | Refused nat string | Accepted

definition hub_dispatched :: "nat \<Rightarrow> string \<Rightarrow> dispatch_outcome \<Rightarrow> string \<Rightarrow> hub_world \<Rightarrow> hub_world" where
  "hub_dispatched i version outcome now w =
     (case outcome of
        NoResponse \<Rightarrow> hub_finish i OtherError w
      | Refused code body \<Rightarrow>
          hub_finish i (hub_error (if body \<noteq> [] then body else ''hub_update_dispatch_failed'') 502)
            (w\<lparr>hw_status := \<lparr>hs_state = Failed, hs_requestedVersion = Some version, hs_requestedAt = Some now,
               hs_message = Some (''github_workflow_dispatch_'' @ show_nat code)\<rparr>\<rparr>)
      | Accepted \<Rightarrow>
          let status = \<lparr>hs_state = Requested, hs_requestedVersion = Some version, hs_requestedAt = Some now,
            hs_message = Some ''workflow_dispatched''\<rparr>
          in hub_finish i (HubStatus status) (w\<lparr>hw_status := status\<rparr>))"

definition hub_input :: update_input where
  "hub_input = \<lparr>ui_platform = Hub, ui_currentVersion = None, ui_currentChannel = None, ui_arch = None\<rparr>"

text \<open>
  The calls of the hub in any interleaving.  A step is known by what it adds to the record: the version a new call asks
  for, or the list of releases that a call's check read.
\<close>

datatype update_event = Asked nat string | Checked nat "GitHubRelease list"

inductive hub_step :: "hub_env \<Rightarrow> hub_world \<Rightarrow> update_event list \<Rightarrow> hub_world \<Rightarrow> bool" for env where
  call_begins: "map_get (hw_calls w) i = None \<Longrightarrow> map_get (hw_replies w) i = None \<Longrightarrow>
    hub_step env w [Asked i version] (hub_begin env i version w)"
| check_fails: "map_get (hw_calls w) i = Some (CheckingRelease version) \<Longrightarrow> hub_step env w [] (hub_checked env i version None w)"
| check_ends: "map_get (hw_calls w) i = Some (CheckingRelease version) \<Longrightarrow>
    hub_step env w [Checked i releases]
      (hub_checked env i version (Some (getUpdateInfo (hb_update env) fetch_text releases hub_input)) w)"
| dispatch_ends: "map_get (hw_calls w) i = Some (Dispatching version) \<Longrightarrow>
    hub_step env w [] (hub_dispatched i version outcome now w)"

inductive reachable_hub :: "hub_env \<Rightarrow> update_event list \<Rightarrow> hub_world \<Rightarrow> bool" for env where
  hub_starts: "reachable_hub env [] hub_init"
| hub_steps: "reachable_hub env trace w \<Longrightarrow> hub_step env w es w' \<Longrightarrow> reachable_hub env (trace @ es) w'"

subsection \<open>What is dispatched\<close>

text \<open>The version is the one of a best release of the list that is strictly newer than the running version.\<close>

definition best_named :: "hub_env \<Rightarrow> GitHubRelease list \<Rightarrow> string \<Rightarrow> bool" where
  "best_named env releases version \<longleftrightarrow>
     (\<exists>current r v. parseVersion (en_version (hb_update env)) = Some current
        \<and> best_release current (en_channel (hb_update env)) releases r v \<and> version = normalizeVersion (gr_tag_name r))"

text \<open>A dispatch the configuration and the given list of releases allow.\<close>

definition justified :: "hub_env \<Rightarrow> GitHubRelease list \<Rightarrow> workflow_dispatch \<Rightarrow> bool" where
  "justified env releases d \<longleftrightarrow> hb_enabled env \<and> truthy (hb_token env) \<and> wd_workflow d = hub_workflow env
     \<and> wd_channel d = en_channel (hb_update env) \<and> wd_allowHttp d = (\<not> (hb_cookieSecure env \<and> hb_requireHttps env))
     \<and> best_named env releases (wd_version d)"

definition hub_ok :: "hub_env \<Rightarrow> update_event list \<Rightarrow> hub_world \<Rightarrow> bool" where
  "hub_ok env trace w \<longleftrightarrow>
     (\<forall>i d. (i, d) \<in> set (hw_dispatches w) \<longrightarrow>
        Asked i (wd_version d) \<in> set trace \<and> (\<exists>releases. Checked i releases \<in> set trace \<and> justified env releases d)) \<and>
     (\<forall>i phase. map_get (hw_calls w) i = Some phase \<longrightarrow> hb_enabled env \<and> truthy (hb_token env)) \<and>
     (\<forall>i version. map_get (hw_calls w) i = Some (CheckingRelease version) \<longrightarrow> Asked i version \<in> set trace) \<and>
     (\<forall>i version. map_get (hw_calls w) i = Some (Dispatching version) \<longrightarrow> (\<exists>d. (i, d) \<in> set (hw_dispatches w) \<and> wd_version d = version)) \<and>
     (hs_state (hw_status w) = Requested \<longrightarrow> (\<exists>i d. (i, d) \<in> set (hw_dispatches w) \<and> hs_requestedVersion (hw_status w) = Some (wd_version d)))"

definition calls_ok :: "hub_world \<Rightarrow> bool" where
  "calls_ok w \<longleftrightarrow> distinct (map fst (hw_dispatches w)) \<and>
     (\<forall>i version. map_get (hw_calls w) i = Some (CheckingRelease version) \<longrightarrow> i \<notin> fst ` set (hw_dispatches w)) \<and>
     (\<forall>i. map_get (hw_calls w) i = None \<longrightarrow> map_get (hw_replies w) i = None \<longrightarrow> i \<notin> fst ` set (hw_dispatches w)) \<and>
     (\<forall>i reply. map_get (hw_replies w) i = Some reply \<longrightarrow> map_get (hw_calls w) i = None)"

lemma hub_finish_simps [simp]:
  "hw_dispatches (hub_finish i reply w) = hw_dispatches w" "hw_status (hub_finish i reply w) = hw_status w"
  "map_get (hw_calls (hub_finish i reply w)) j = (if j = i then None else map_get (hw_calls w) j)"
  "map_get (hw_replies (hub_finish i reply w)) j = (if j = i then Some reply else map_get (hw_replies w) j)"
  by (simp_all add: hub_finish_def)

lemma hub_ok_finish: "hub_ok env trace w \<Longrightarrow> hub_ok env trace (hub_finish i reply w)"
  unfolding hub_ok_def by (auto simp del: map_of_eq_Some_iff split: if_splits)

lemma hub_ok_log: "hub_ok env trace w \<Longrightarrow> hub_ok env (trace @ es) w"
  unfolding hub_ok_def set_append Un_iff by blast

lemma calls_ok_finish: "calls_ok w \<Longrightarrow> calls_ok (hub_finish i reply w)"
  unfolding calls_ok_def by (auto simp del: map_of_eq_Some_iff split: if_splits)

lemma hub_input_simps [simp]: "current_version env hub_input = en_version env" "ui_currentChannel hub_input = None"
  by (simp_all add: hub_input_def current_version_def)

abbreviation hub_info :: "hub_env \<Rightarrow> (string \<Rightarrow> string option) \<Rightarrow> GitHubRelease list \<Rightarrow> UpdateInfo" where
  "hub_info env fetch_text releases \<equiv> getUpdateInfo (hb_update env) fetch_text releases hub_input"

lemma hub_offer_named:
  assumes "up_available (hub_info env fetch_text releases)"
    "up_latestVersion (hub_info env fetch_text releases) = Some version"
  shows "best_named env releases version"
  using update_offer [OF assms(1), unfolded hub_input_simps] assms(2) unfolding best_named_def
  by (metis nullish_simps(1) option.inject)

text \<open>A list with a single best name offers it.\<close>

lemma hub_named_offer:
  assumes "best_named env releases version" "\<And>version'. best_named env releases version' \<Longrightarrow> version' = version"
  shows "up_available (hub_info env fetch_text releases) \<and> up_latestVersion (hub_info env fetch_text releases) = Some version"
proof -
  obtain current r v where c: "parseVersion (current_version (hb_update env) hub_input) = Some current"
    and "best_release current (en_channel (hb_update env)) releases r v"
    using assms(1) unfolding best_named_def by auto
  then have "candidates releases (current_version (hb_update env) hub_input) (en_channel (hb_update env)) \<noteq> []"
    using candidates_Nil_iff [OF c] unfolding best_release_def by blast
  then have available: "up_available (hub_info env fetch_text releases)"
    using c by (simp add: getUpdateInfo_def update_base_def Let_def split: list.split)
  obtain version' where latest: "up_latestVersion (hub_info env fetch_text releases) = Some version'"
    using update_offer [OF available] by blast
  show ?thesis
    using available latest assms(2) [OF hub_offer_named [OF available latest]] by simp
qed

lemma hub_ok_add:
  assumes "hub_ok env trace w" "Asked i (wd_version d) \<in> set trace" "Checked i releases \<in> set trace" "justified env releases d"
  shows "hub_ok env trace (w\<lparr>hw_calls := map_set i (Dispatching (wd_version d)) (hw_calls w), hw_dispatches := hw_dispatches w @ [(i, d)]\<rparr>)"
proof -
  let ?w = "w\<lparr>hw_calls := map_set i (Dispatching (wd_version d)) (hw_calls w), hw_dispatches := hw_dispatches w @ [(i, d)]\<rparr>"
  have "\<exists>d'. (j, d') \<in> set (hw_dispatches ?w) \<and> wd_version d' = version"
    if "map_get (hw_calls ?w) j = Some (Dispatching version)" for j version
    using that assms(1) unfolding hub_ok_def by (cases "j = i") auto
  moreover have "Asked j version \<in> set trace" if "map_get (hw_calls ?w) j = Some (CheckingRelease version)" for j version
    using that assms(1) unfolding hub_ok_def by (cases "j = i") auto
  moreover have "hs_state (hw_status ?w) = Requested \<longrightarrow>
      (\<exists>j d'. (j, d') \<in> set (hw_dispatches ?w) \<and> hs_requestedVersion (hw_status ?w) = Some (wd_version d'))"
    using assms(1) unfolding hub_ok_def by auto
  moreover have "hb_enabled env \<and> truthy (hb_token env)"
    using assms(4) by (simp add: justified_def)
  moreover have "Asked j (wd_version d') \<in> set trace \<and> (\<exists>releases. Checked j releases \<in> set trace \<and> justified env releases d')"
    if "(j, d') \<in> set (hw_dispatches ?w)" for j d'
    using that assms unfolding hub_ok_def by (cases "(j, d') = (i, d)") auto
  ultimately show ?thesis
    unfolding hub_ok_def by blast
qed

lemma hub_ok_checked:
  assumes "hub_ok env trace w" "map_get (hw_calls w) i = Some (CheckingRelease version)"
  shows "hub_ok env (trace @ [Checked i releases]) (hub_checked env i version (Some (hub_info env fetch_text releases)) w)"
proof (cases "up_available (hub_info env fetch_text releases) \<and> up_latestVersion (hub_info env fetch_text releases) = Some version")
  case True
  let ?d = "\<lparr>wd_workflow = hub_workflow env, wd_version = version, wd_channel = en_channel (hb_update env),
    wd_allowHttp = (\<not> hb_cookieSecure env \<or> \<not> hb_requireHttps env)\<rparr>"
  have "hb_enabled env" "truthy (hb_token env)" "Asked i version \<in> set trace"
    using assms unfolding hub_ok_def by blast+
  moreover have "justified env releases ?d"
    using calculation True hub_offer_named [of env fetch_text releases version] by (simp add: justified_def)
  ultimately show ?thesis
    using hub_ok_add [OF hub_ok_log [OF assms(1)], of i ?d "[Checked i releases]" releases] True by (simp add: hub_checked_def)
next
  case False
  then have "hub_checked env i version (Some (hub_info env fetch_text releases)) w
      = hub_finish i (hub_error ''requested_version_is_not_the_next_release'' 409) w"
    by (auto simp: hub_checked_def)
  then show ?thesis
    using hub_ok_log [OF hub_ok_finish [OF assms(1)]] by metis
qed

lemma hub_ok_begin: "hub_ok env trace w \<Longrightarrow> hub_ok env (trace @ [Asked i version]) (hub_begin env i version w)"
proof -
  assume ok: "hub_ok env trace w"
  have "hb_enabled env \<Longrightarrow> truthy (hb_token env) \<Longrightarrow>
      hub_ok env (trace @ [Asked i version]) (w\<lparr>hw_calls := map_set i (CheckingRelease version) (hw_calls w)\<rparr>)"
    using ok unfolding hub_ok_def by (fastforce simp del: map_of_eq_Some_iff split: if_splits)
  then show ?thesis
    using hub_ok_log [OF hub_ok_finish [OF ok]] hub_ok_log [OF ok] by (simp add: hub_begin_def)
qed

lemma hub_ok_dispatched:
  assumes "hub_ok env trace w" "map_get (hw_calls w) i = Some (Dispatching version)"
  shows "hub_ok env trace (hub_dispatched i version outcome now w)"
proof -
  have "hub_ok env trace (w\<lparr>hw_status := s\<rparr>)" if "hs_requestedVersion s = Some version" for s
    using assms that unfolding hub_ok_def by (fastforce simp del: map_of_eq_Some_iff)
  then show ?thesis
    using assms(1) by (auto simp: hub_dispatched_def Let_def split: dispatch_outcome.split intro!: hub_ok_finish)
qed

lemma calls_ok_begin:
  assumes "calls_ok w" "map_get (hw_calls w) i = None" "map_get (hw_replies w) i = None"
  shows "calls_ok (hub_begin env i version w)"
proof -
  have "calls_ok (w\<lparr>hw_calls := map_set i (CheckingRelease version) (hw_calls w)\<rparr>)"
    using assms unfolding calls_ok_def by (auto simp del: map_of_eq_Some_iff split: if_splits)
  then show ?thesis
    using assms(1) calls_ok_finish by (simp add: hub_begin_def)
qed

lemma calls_ok_checked:
  assumes "calls_ok w" "map_get (hw_calls w) i = Some (CheckingRelease version)"
  shows "calls_ok (hub_checked env i version result w)"
proof -
  have "calls_ok (w\<lparr>hw_calls := map_set i (Dispatching version) (hw_calls w), hw_dispatches := hw_dispatches w @ [(i, d)]\<rparr>)" for d
  proof -
    have "i \<notin> fst ` set (hw_dispatches w)" "map_get (hw_replies w) i = None"
      using assms unfolding calls_ok_def by (blast, metis option.exhaust option.distinct(1))
    then show ?thesis
      using assms(1) unfolding calls_ok_def by (auto simp del: map_of_eq_Some_iff split: if_splits)
  qed
  then show ?thesis
    using assms(1) calls_ok_finish by (simp add: hub_checked_def split: option.split)
qed

lemma calls_ok_dispatched:
  assumes "calls_ok w"
  shows "calls_ok (hub_dispatched i version outcome now w)"
proof -
  have "calls_ok (w\<lparr>hw_status := s\<rparr>)" for s
    using assms by (simp add: calls_ok_def)
  then show ?thesis
    using assms by (auto simp: hub_dispatched_def Let_def split: dispatch_outcome.split intro!: calls_ok_finish)
qed

lemma calls_ok_step: "hub_step env w es w' \<Longrightarrow> calls_ok w \<Longrightarrow> calls_ok w'"
  by (erule hub_step.cases) (simp_all add: calls_ok_begin calls_ok_checked calls_ok_dispatched)

lemma hub_ok_step: "hub_step env w es w' \<Longrightarrow> hub_ok env trace w \<Longrightarrow> hub_ok env (trace @ es) w'"
  by (induction rule: hub_step.cases)
    (auto intro: hub_ok_begin hub_ok_checked hub_ok_dispatched hub_ok_finish simp: hub_checked_def [of _ _ _ None] simp del: map_of_eq_Some_iff)

text \<open>The record: one version per call, and a check that offers the version its call asked for was acted on.\<close>

definition log_ok :: "hub_env \<Rightarrow> update_event list \<Rightarrow> hub_world \<Rightarrow> bool" where
  "log_ok env trace w \<longleftrightarrow>
     (\<forall>i version. Asked i version \<in> set trace \<longrightarrow> map_get (hw_calls w) i \<noteq> None \<or> map_get (hw_replies w) i \<noteq> None) \<and>
     (\<forall>i version version'. Asked i version \<in> set trace \<longrightarrow> Asked i version' \<in> set trace \<longrightarrow> version = version') \<and>
     (\<forall>i releases. Checked i releases \<in> set trace \<longrightarrow> (\<exists>version fetch_text. Asked i version \<in> set trace \<and>
        (up_available (hub_info env fetch_text releases) \<and> up_latestVersion (hub_info env fetch_text releases) = Some version
           \<longrightarrow> i \<in> fst ` set (hw_dispatches w))))"

text \<open>A step that forgets no call and no dispatch.\<close>

definition calls_kept :: "hub_world \<Rightarrow> hub_world \<Rightarrow> bool" where
  "calls_kept w w' \<longleftrightarrow> set (hw_dispatches w) \<subseteq> set (hw_dispatches w') \<and>
     (\<forall>i. map_get (hw_calls w) i \<noteq> None \<or> map_get (hw_replies w) i \<noteq> None \<longrightarrow>
        map_get (hw_calls w') i \<noteq> None \<or> map_get (hw_replies w') i \<noteq> None)"

lemma calls_kept_finish: "calls_kept w (hub_finish i reply w)"
  by (auto simp: calls_kept_def simp del: map_of_eq_Some_iff)

lemma calls_kept_status: "calls_kept w (hub_finish i reply (w\<lparr>hw_status := status\<rparr>))"
  using calls_kept_finish [of "w\<lparr>hw_status := status\<rparr>" i reply] by (simp add: calls_kept_def)

lemma calls_kept_step: "hub_step env w es w' \<Longrightarrow> calls_kept w w'"
  by (erule hub_step.cases)
    (simp_all add: hub_begin_def hub_checked_def hub_dispatched_def Let_def calls_kept_finish calls_kept_status
      split: option.split dispatch_outcome.split, simp_all add: calls_kept_def subset_insertI)

lemma log_ok_kept: "log_ok env trace w \<Longrightarrow> calls_kept w w' \<Longrightarrow> log_ok env trace w'"
  unfolding log_ok_def calls_kept_def by (meson image_mono subsetD)

lemma log_ok_step:
  assumes "hub_step env w es w'" "log_ok env trace w" "hub_ok env trace w"
  shows "log_ok env (trace @ es) w'"
proof -
  have kept: "log_ok env trace w'"
    using log_ok_kept assms(2) calls_kept_step [OF assms(1)] by blast
  show ?thesis
    using assms(1)
  proof cases
    case (call_begins i version)
    have "Asked i version' \<notin> set trace" for version'
      using call_begins assms(2) unfolding log_ok_def by blast
    moreover have "map_get (hw_calls w') i \<noteq> None \<or> map_get (hw_replies w') i \<noteq> None"
      by (simp add: call_begins hub_begin_def)
    ultimately show ?thesis
      using kept unfolding log_ok_def call_begins(1) by (simp del: map_of_eq_Some_iff) blast
  next
    case (check_ends i version releases fetch_text)
    have asked: "Asked i version \<in> set trace"
      using check_ends assms(3) unfolding hub_ok_def by blast
    have "i \<in> fst ` set (hw_dispatches w')"
      if "up_available (hub_info env fetch_text releases)" "up_latestVersion (hub_info env fetch_text releases) = Some version"
      using that by (simp add: check_ends hub_checked_def)
    then show ?thesis
      using kept asked unfolding log_ok_def check_ends(1) by (simp del: map_of_eq_Some_iff) blast
  qed (use kept in simp_all)
qed

lemma reachable_hub_ok: "reachable_hub env trace w \<Longrightarrow> hub_ok env trace w \<and> calls_ok w \<and> log_ok env trace w"
proof (induction rule: reachable_hub.induct)
  case hub_starts
  then show ?case by (simp add: hub_ok_def calls_ok_def log_ok_def hub_init_def)
next
  case (hub_steps trace w es w')
  then show ?case using hub_ok_step calls_ok_step log_ok_step by blast
qed

lemma hub_reads_acted_on:
  assumes "log_ok env trace w" "Checked i releases \<in> set trace" "Asked i version \<in> set trace" "best_named env releases version"
    "\<And>version'. best_named env releases version' \<Longrightarrow> version' = version"
  shows "i \<in> fst ` set (hw_dispatches w)"
proof -
  obtain version' fetch_text where v: "Asked i version' \<in> set trace"
    and d: "up_available (hub_info env fetch_text releases) \<Longrightarrow> up_latestVersion (hub_info env fetch_text releases) = Some version'
      \<Longrightarrow> i \<in> fst ` set (hw_dispatches w)"
    using assms(1,2) unfolding log_ok_def by blast
  have "version' = version"
    using assms(1,3) v unfolding log_ok_def by blast
  then show ?thesis
    using d hub_named_offer [OF assms(4,5), of fetch_text] by simp
qed

text \<open>
  C32: whatever calls overlap and whatever the services answer, every deployment the hub dispatches belongs to a call
  that asked for its version, is enabled by the configuration, uses its channel's workflow and names a best release,
  strictly newer than the running version, of the list that this call's check read; a call dispatches at most once; a
  check that read a list with the version asked for as its one best is acted on; a status that says requested names a
  version that was dispatched, and a call that begins while it stands is answered at once, with the status for the same
  version and as a conflict for another.
\<close>

theorem hub_dispatches_justified:
  assumes "reachable_hub env trace w"
  shows "distinct (map fst (hw_dispatches w)) \<and>
    (\<forall>i d. (i, d) \<in> set (hw_dispatches w) \<longrightarrow>
       Asked i (wd_version d) \<in> set trace \<and> (\<exists>releases. Checked i releases \<in> set trace \<and> justified env releases d)) \<and>
    (\<forall>i releases version. Checked i releases \<in> set trace \<longrightarrow> Asked i version \<in> set trace \<longrightarrow>
       {version'. best_named env releases version'} = {version} \<longrightarrow> i \<in> fst ` set (hw_dispatches w)) \<and>
    (hs_state (getHubUpdateStatus w) = Requested \<longrightarrow>
       (\<exists>i d. (i, d) \<in> set (hw_dispatches w) \<and> hs_requestedVersion (getHubUpdateStatus w) = Some (wd_version d)) \<and>
       (hb_enabled env \<and> truthy (hb_token env) \<longrightarrow> map_get (hw_replies (hub_begin env j asked w)) j
          = Some (if hs_requestedVersion (getHubUpdateStatus w) = Some asked then HubStatus (getHubUpdateStatus w)
              else hub_error ''another_hub_update_is_in_progress'' 409)))"
proof -
  have ok: "hub_ok env trace w" "calls_ok w" "log_ok env trace w"
    using reachable_hub_ok [OF assms] by blast+
  have "i \<in> fst ` set (hw_dispatches w)"
    if "Checked i releases \<in> set trace" "Asked i version \<in> set trace" "{version'. best_named env releases version'} = {version}"
    for i releases version
    using hub_reads_acted_on [OF ok(3) that(1,2)] that(3) by blast
  moreover have "map_get (hw_replies (hub_begin env j asked w)) j
      = Some (if hs_requestedVersion (hw_status w) = Some asked then HubStatus (hw_status w)
          else hub_error ''another_hub_update_is_in_progress'' 409)"
    if "hs_state (hw_status w) = Requested" "hb_enabled env" "truthy (hb_token env)"
    using that by (simp add: hub_begin_def)
  ultimately show ?thesis
    using ok(1,2) unfolding hub_ok_def calls_ok_def getHubUpdateStatus_def by blast
qed

definition demo_hub_env :: hub_env where
  "demo_hub_env = \<lparr>hb_update = demo_update_env, hb_enabled = True, hb_token = Some ''t'', hb_testWorkflow = ''deploy-test.yml'',
     hb_stableWorkflow = ''deploy-production.yml'', hb_cookieSecure = True, hb_requireHttps = True\<rparr>"

definition demo_check :: "nat \<Rightarrow> hub_world \<Rightarrow> hub_world" where
  "demo_check i = hub_checked demo_hub_env i ''1.2.10''
     (Some (getUpdateInfo (hb_update demo_hub_env) (\<lambda>_. None) [demo_release ''v1.2.10'' False False] hub_input))"

definition demo_two_checking :: hub_world where
  "demo_two_checking = hub_begin demo_hub_env 1 ''1.2.10'' (hub_begin demo_hub_env 0 ''1.2.10'' hub_init)"

definition demo_dispatched :: hub_world where
  "demo_dispatched = hub_dispatched 0 ''1.2.10'' Accepted ''t0'' (demo_check 0 demo_two_checking)"

definition demo_refused :: hub_world where
  "demo_refused = hub_dispatched 1 ''1.2.10'' (Refused 422 ''busy'') ''t1'' (demo_check 1 demo_dispatched)"

abbreviation demo_hub_releases :: "GitHubRelease list" where
  "demo_hub_releases \<equiv> [demo_release ''v1.2.10'' False False]"

abbreviation demo_log :: "update_event list" where
  "demo_log \<equiv> [Asked 0 ''1.2.10'', Asked 1 ''1.2.10'', Checked 0 demo_hub_releases]"

lemma demo_dispatched_reachable: "reachable_hub demo_hub_env demo_log demo_dispatched"
proof -
  have 1: "reachable_hub demo_hub_env ([] @ [Asked 0 ''1.2.10'']) (hub_begin demo_hub_env 0 ''1.2.10'' hub_init)"
    by (rule hub_steps [OF hub_starts call_begins]) (simp_all add: hub_init_def)
  have 2: "reachable_hub demo_hub_env (([] @ [Asked 0 ''1.2.10'']) @ [Asked 1 ''1.2.10'']) demo_two_checking"
    unfolding demo_two_checking_def by (rule hub_steps [OF 1 call_begins]) code_simp+
  have 3: "reachable_hub demo_hub_env ((([] @ [Asked 0 ''1.2.10'']) @ [Asked 1 ''1.2.10'']) @ [Checked 0 demo_hub_releases])
      (demo_check 0 demo_two_checking)"
    unfolding demo_check_def by (rule hub_steps [OF 2 check_ends]) code_simp
  have "reachable_hub demo_hub_env (((([] @ [Asked 0 ''1.2.10'']) @ [Asked 1 ''1.2.10'']) @ [Checked 0 demo_hub_releases]) @ []) demo_dispatched"
    unfolding demo_dispatched_def by (rule hub_steps [OF 3 dispatch_ends]) code_simp
  then show ?thesis by simp
qed

theorem hub_dispatches_justified_witness:
  "(\<exists>d. hw_dispatches demo_dispatched = [(0, d)] \<and> wd_version d = ''1.2.10'' \<and> justified demo_hub_env demo_hub_releases d) \<and>
   map_get (hw_replies (hub_begin demo_hub_env 7 ''1.2.11'' demo_dispatched)) 7
     = Some (hub_error ''another_hub_update_is_in_progress'' 409)"
proof -
  note t = hub_dispatches_justified [OF demo_dispatched_reachable, of 7 "''1.2.11''"]
  have d: "hw_dispatches demo_dispatched = [(0, \<lparr>wd_workflow = ''deploy-production.yml'', wd_version = ''1.2.10'',
      wd_channel = Stable, wd_allowHttp = False\<rparr>)]"
    and s: "hs_state (getHubUpdateStatus demo_dispatched) = Requested" "hb_enabled demo_hub_env \<and> truthy (hb_token demo_hub_env)"
      "hs_requestedVersion (getHubUpdateStatus demo_dispatched) = Some ''1.2.10''"
    by code_simp+
  show ?thesis
    using t s d by simp
qed

text \<open>
  The guard of \<open>requestHubUpdate\<close> looks at the status before its two waits and the status is set after them: of two
  overlapping requests both dispatch the deployment, and when the service refuses the second the status says failed
  although the first deployment runs.
\<close>

lemma overlapping_requests_dispatch_twice:
  "reachable_hub demo_hub_env (demo_log @ [Checked 1 demo_hub_releases]) demo_refused"
  "map fst (hw_dispatches demo_refused) = [0, 1]" "map wd_version (map snd (hw_dispatches demo_refused)) = [''1.2.10'', ''1.2.10'']"
  "hs_state (getHubUpdateStatus demo_dispatched) = Requested" "hs_state (getHubUpdateStatus demo_refused) = Failed"
proof -
  have 1: "reachable_hub demo_hub_env (demo_log @ [Checked 1 demo_hub_releases]) (demo_check 1 demo_dispatched)"
    unfolding demo_check_def by (rule hub_steps [OF demo_dispatched_reachable check_ends]) code_simp
  have "reachable_hub demo_hub_env ((demo_log @ [Checked 1 demo_hub_releases]) @ []) demo_refused"
    unfolding demo_refused_def by (rule hub_steps [OF 1 dispatch_ends]) code_simp
  then show "reachable_hub demo_hub_env (demo_log @ [Checked 1 demo_hub_releases]) demo_refused"
    by (simp only: append_Nil2)
  show "map fst (hw_dispatches demo_refused) = [0, 1]"
    by code_simp
  show "map wd_version (map snd (hw_dispatches demo_refused)) = [''1.2.10'', ''1.2.10'']"
    by code_simp
  show "hs_state (getHubUpdateStatus demo_dispatched) = Requested" "hs_state (getHubUpdateStatus demo_refused) = Failed"
    by code_simp+
qed

end
