(* ===== verification/Redis_Series.thy ===== *)
theory Redis_Series
  imports Cached_History
begin

text \<open>
  The live windows in Redis: \<open>appendSeries\<close>, \<open>readSeries\<close> and \<open>clearSeries\<close> of \<open>repositories/realtime.ts\<close>, with the Lua
  script that appends.  The script runs atomically, so one call is one step.  A window is a Redis list beside a marker
  that certifies its order; with the marker a sample is placed by looking at the last item only, without it the script
  reads the whole list.  A list item is a stored point, or the text of another writer, of which the script sees only
  what \<open>cjson\<close> reads as its timestamp; \<open>redis_read\<close> gives the items as they are stored.  In Redis an absent list is the empty one.

  The facts: where the marker certifies, the order is strict; the short way and the long way put the same items in the
  list, namely those that the file-backed store puts there.
\<close>

subsection \<open>The lists and their markers\<close>

datatype series_item = StoredPoint TimeSeriesRecord | ForeignItem "num option"

primrec item_time :: "series_item \<Rightarrow> num option" where
  "item_time (StoredPoint p) = Some (of_int (tr_timestamp p))"
| "item_time (ForeignItem t) = t"

record redis_keys =
  rk_lists :: "(string, series_item list) jsmap"
  rk_orders :: "(string, string) jsmap"

definition redis_list :: "redis_keys \<Rightarrow> string \<Rightarrow> series_item list" where
  "redis_list r key = nullish (map_get (rk_lists r) key) []"

definition MAX_SERIES_POINTS :: int where "MAX_SERIES_POINTS = 1000000"

definition series_key :: "string \<Rightarrow> string \<Rightarrow> MetricWindow \<Rightarrow> string" where
  "series_key ns deviceId bucket = ns @ '':series:'' @ deviceId @ '':'' @ window_text bucket"

definition series_order_key :: "string \<Rightarrow> string \<Rightarrow> MetricWindow \<Rightarrow> string" where
  "series_order_key ns deviceId bucket = ns @ '':series-order-v2:'' @ deviceId @ '':'' @ window_text bucket"

subsection \<open>The script\<close>

text \<open>The loop over the whole list: the first item with the same time, and whether the order is strict throughout.\<close>

fun scan_items :: "num \<Rightarrow> nat \<Rightarrow> series_item list \<Rightarrow> nat option \<Rightarrow> bool \<Rightarrow> num option \<Rightarrow> nat option \<times> bool" where
  "scan_items targetTime i [] found ordered previous = (found, ordered)"
| "scan_items targetTime i (item # items) found ordered previous =
     (let itemTime = item_time item
      in scan_items targetTime (i + 1) items
           (if found = None \<and> itemTime = Some targetTime then Some i else found)
           (case itemTime of
              None \<Rightarrow> False
            | Some t \<Rightarrow> (case previous of Some q \<Rightarrow> if t \<le> q then False else ordered | None \<Rightarrow> ordered))
           itemTime)"

text \<open>\<open>ltrim key -maxP -1\<close> keeps the last items.\<close>

definition append_scanned :: "num \<Rightarrow> series_item \<Rightarrow> nat \<Rightarrow> series_item list \<Rightarrow> string option \<Rightarrow> series_item list \<times> string" where
  "append_scanned targetTime item maxP items order =
     (case scan_items targetTime 0 items None (order \<noteq> Some ''0'') None of
        (Some i, ordered) \<Rightarrow> (slice_neg maxP (items[i := item]), if ordered then ''1'' else ''0'')
      | (None, ordered) \<Rightarrow>
          (slice_neg maxP (items @ [item]),
           if ordered \<and> (case item_time (last items) of None \<Rightarrow> False | Some tailTime \<Rightarrow> \<not> targetTime \<le> tailTime) then ''1'' else ''0''))"

text \<open>In the short way the marker stays what it is, \<open>"1"\<close>.\<close>

definition append_script :: "num \<Rightarrow> series_item \<Rightarrow> nat \<Rightarrow> series_item list \<Rightarrow> string option \<Rightarrow> series_item list \<times> string" where
  "append_script targetTime item maxP items order =
     (if items = [] then (slice_neg maxP [item], ''1'')
      else case (if order = Some ''1'' then item_time (last items) else None) of
        Some tailTime \<Rightarrow>
          if targetTime > tailTime then (slice_neg maxP (items @ [item]), ''1'')
          else if targetTime = tailTime then (slice_neg maxP (items[length items - 1 := item]), ''1'')
          else append_scanned targetTime item maxP items order
      | None \<Rightarrow> append_scanned targetTime item maxP items order)"

subsection \<open>The repository\<close>

datatype redis_error = RangeError

definition redis_append :: "string \<Rightarrow> string \<Rightarrow> MetricWindow \<Rightarrow> TimeSeriesRecord \<Rightarrow> int \<Rightarrow> redis_keys \<Rightarrow> (redis_error + unit) \<times> redis_keys" where
  "redis_append ns deviceId bucket point maxPoints r =
     (if maxPoints \<le> 0 \<or> maxPoints > MAX_SERIES_POINTS then (Inl RangeError, r)
      else
        (let key = series_key ns deviceId bucket; orderKey = series_order_key ns deviceId bucket
         in case append_script (of_int (tr_timestamp point)) (StoredPoint point) (nat maxPoints) (redis_list r key)
                   (map_get (rk_orders r) orderKey) of
              (items, order) \<Rightarrow>
                (Inr (), r\<lparr>rk_lists := map_set key items (rk_lists r), rk_orders := map_set orderKey order (rk_orders r)\<rparr>)))"

definition redis_read :: "string \<Rightarrow> string \<Rightarrow> MetricWindow \<Rightarrow> redis_keys \<Rightarrow> series_item list" where
  "redis_read ns deviceId bucket r = redis_list r (series_key ns deviceId bucket)"

definition redis_clear :: "string \<Rightarrow> string \<Rightarrow> redis_keys \<Rightarrow> redis_keys" where
  "redis_clear ns deviceId r =
     r\<lparr>rk_lists := fold (\<lambda>w. map_delete (series_key ns deviceId w)) [W1m, W5m, W15m] (rk_lists r),
       rk_orders := fold (\<lambda>w. map_delete (series_order_key ns deviceId w)) [W1m, W5m, W15m] (rk_orders r)\<rparr>"

subsection \<open>The scan\<close>

fun increasing :: "num option \<Rightarrow> series_item list \<Rightarrow> bool" where
  "increasing previous [] = True"
| "increasing previous (item # items) =
     (case item_time item of
        None \<Rightarrow> False
      | Some t \<Rightarrow> (case previous of None \<Rightarrow> True | Some q \<Rightarrow> q < t) \<and> increasing (Some t) items)"

abbreviation same_time :: "num \<Rightarrow> series_item \<Rightarrow> bool" where
  "same_time t \<equiv> (\<lambda>item. item_time item = Some t)"

lemma scan_items_eq:
  "scan_items t i items found ordered previous =
     (case found of Some j \<Rightarrow> Some j | None \<Rightarrow> map_option (\<lambda>j. i + j) (find_index (same_time t) items),
      ordered \<and> increasing previous items)"
proof (induction t i items found ordered previous rule: scan_items.induct)
  case (2 t i item items found ordered previous)
  show ?case
    unfolding scan_items.simps Let_def 2 [OF refl]
    by (auto split: option.splits simp: option.map_comp comp_def intro: option.map_cong)
qed (simp split: option.split)

lemma append_scanned_items: "fst (append_scanned t item n items order) = slice_neg n (replace_or_push (same_time t) item items)"
  by (simp add: append_scanned_def scan_items_eq replace_or_push_def split: option.split)

text \<open>Increasing lists: every item has a time, and the times go up.\<close>

abbreviation time_of :: "series_item \<Rightarrow> num" where
  "time_of x \<equiv> the (item_time x)"

lemma increasing_eq:
  "increasing p xs \<longleftrightarrow> (\<forall>x \<in> set xs. item_time x \<noteq> None) \<and> sorted_wrt (<) (map time_of xs) \<and>
     (\<forall>q. p = Some q \<longrightarrow> (\<forall>x \<in> set xs. q < time_of x))"
proof (induction p xs rule: increasing.induct)
  case (2 p x xs)
  then show ?case
    by (cases "item_time x"; cases p) (auto, fastforce+)
qed simp

lemma increasing_drop: "increasing p xs \<Longrightarrow> increasing None (drop n xs)"
  unfolding increasing_eq by (auto simp: drop_map [symmetric] sorted_wrt_drop dest: in_set_dropD)

lemma increasing_slice: "increasing p xs \<Longrightarrow> increasing None (slice_neg n xs)"
  using increasing_drop [of p xs 0] by (simp add: slice_neg_def increasing_drop)

lemma increasing_update:
  assumes "increasing None xs" "i < length xs" "item_time x = item_time (xs ! i)"
  shows "increasing None (xs[i := x])"
proof -
  have "map item_time (xs[i := x]) = map item_time xs"
    using assms(2,3) by (metis list_update_id map_update)
  moreover have "increasing p ys \<longleftrightarrow> (\<forall>t \<in> set (map item_time ys). t \<noteq> None) \<and> sorted_wrt (<) (map the (map item_time ys)) \<and>
      (\<forall>q. p = Some q \<longrightarrow> (\<forall>t \<in> set (map item_time ys). q < the t))" for p ys
    by (simp add: increasing_eq comp_def)
  ultimately show ?thesis
    using assms(1) by metis
qed

lemma increasing_last: "increasing p xs \<Longrightarrow> y \<in> set xs \<Longrightarrow> y = last xs \<or> time_of y < time_of (last xs)"
  by (cases xs rule: rev_cases) (auto simp: increasing_eq sorted_wrt_append)

lemma increasing_snoc:
  assumes "increasing None xs" "item_time x = Some t" "xs = [] \<or> time_of (last xs) < t"
  shows "increasing None (xs @ [x])"
proof -
  have "time_of y < t" if "y \<in> set xs" for y
    using increasing_last [OF assms(1) that] assms(3) that by auto
  then show ?thesis
    using assms(1,2) by (auto simp: increasing_eq sorted_wrt_append)
qed

lemma increasing_tail: "increasing p xs \<Longrightarrow> xs \<noteq> [] \<Longrightarrow> \<exists>u. item_time (last xs) = Some u"
  using last_in_set [of xs] by (auto simp: increasing_eq)

text \<open>In an increasing list the tail decides where a sample goes.\<close>

lemma increasing_find:
  assumes "increasing None xs" "xs \<noteq> []"
  shows "time_of (last xs) < t \<Longrightarrow> find_index (same_time t) xs = None"
    and "item_time (last xs) = Some t \<Longrightarrow> find_index (same_time t) xs = Some (length xs - 1)"
proof -
  assume "time_of (last xs) < t"
  have "\<not> same_time t y" if y: "y \<in> set xs" for y
  proof
    assume "same_time t y"
    then have "time_of y = t" by simp
    with increasing_last [OF assms(1) y] \<open>time_of (last xs) < t\<close> show False by fastforce
  qed
  then show "find_index (same_time t) xs = None"
    by (simp add: find_index_None_iff)
next
  assume last: "item_time (last xs) = Some t"
  have "find_index (same_time t) xs \<noteq> None"
    using last last_in_set [OF assms(2)] unfolding find_index_None_iff by blast
  then obtain i where i: "find_index (same_time t) xs = Some i" by blast
  have "i < length xs" "same_time t (xs ! i)"
    using find_index_SomeD [OF i] by auto
  moreover have "i = length xs - 1"
  proof (rule ccontr)
    assume "i \<noteq> length xs - 1"
    then have "i < length xs - 1" using calculation(1) by simp
    moreover have "sorted_wrt (<) (map time_of xs)"
      using assms(1) unfolding increasing_eq by blast
    ultimately have "map time_of xs ! i < map time_of xs ! (length xs - 1)"
      using assms(2) sorted_wrt_nth_less [of "(<)" "map time_of xs" i "length xs - 1"] by simp
    moreover have "map time_of xs ! i = t" "map time_of xs ! (length xs - 1) = t"
      using \<open>i < length xs\<close> \<open>same_time t (xs ! i)\<close> last assms(2) by (simp_all add: last_conv_nth)
    ultimately show False by simp
  qed
  ultimately show "find_index (same_time t) xs = Some (length xs - 1)" using i by simp
qed

subsection \<open>The marker tells the truth, and the short way is the long way\<close>

definition certified :: "series_item list \<Rightarrow> string option \<Rightarrow> bool" where
  "certified items order \<longleftrightarrow> (order = Some ''1'' \<longrightarrow> increasing None items)"

lemma append_scanned_certified:
  assumes "item_time item = Some t" "items \<noteq> []"
  shows "certified (fst (append_scanned t item n items order)) (Some (snd (append_scanned t item n items order)))"
proof -
  have placed: "increasing None (items[i := item])" if "find_index (same_time t) items = Some i" "increasing None items" for i
    using find_index_SomeD [OF that(1)] increasing_update [OF that(2)] assms(1) by simp
  have pushed: "increasing None (items @ [item])" if "item_time (last items) = Some u" "u < t" "increasing None items" for u
    using increasing_snoc [OF that(3) assms(1)] that by simp
  show ?thesis
    using placed pushed increasing_slice
    by (auto simp: append_scanned_def scan_items_eq certified_def not_le split: option.splits)
qed

lemma append_script_certified:
  assumes "item_time item = Some t" "certified items order"
  shows "case append_script t item n items order of (items', order') \<Rightarrow> certified items' (Some order')"
proof (cases "items = [] \<or> order \<noteq> Some ''1''")
  case True
  have "increasing None (slice_neg n [item])"
    by (rule increasing_slice [of None]) (simp add: assms(1))
  with True append_scanned_certified [OF assms(1), of items n order] show ?thesis
    by (auto simp: append_script_def certified_def map_prod_def case_prod_unfold split: option.splits)
next
  case False
  then have inc: "increasing None items" "items \<noteq> []"
    using assms(2) by (auto simp: certified_def)
  obtain u where u: "item_time (last items) = Some u"
    using inc increasing_tail by blast
  have "increasing None (slice_neg n (items @ [item]))" if "u < t"
    using increasing_slice [OF increasing_snoc [OF inc(1) assms(1)]] u that by simp
  moreover have "increasing None (slice_neg n (items[length items - 1 := item]))" if "t = u"
    using increasing_slice [OF increasing_update [OF inc(1)]] inc(2) u that assms(1) by (simp add: last_conv_nth)
  ultimately show ?thesis
    using False u append_scanned_certified [OF assms(1) inc(2), of n order]
    by (auto simp: append_script_def certified_def map_prod_def case_prod_unfold)
qed

lemma append_script_items:
  assumes "certified items order"
  shows "fst (append_script t item n items order) = slice_neg n (replace_or_push (same_time t) item items)"
proof (cases "items = [] \<or> order \<noteq> Some ''1''")
  case True
  then show ?thesis
    by (auto simp: append_script_def append_scanned_items replace_or_push_def)
next
  case False
  then have inc: "increasing None items" "items \<noteq> []"
    using assms by (auto simp: certified_def)
  then obtain u where u: "item_time (last items) = Some u"
    using increasing_tail by blast
  show ?thesis
    using False u increasing_find [OF inc, of t]
    by (cases t u rule: linorder_cases) (auto simp: append_script_def append_scanned_items replace_or_push_def)
qed

subsection \<open>The keyspace\<close>

lemma window_text_eq [simp]: "window_text v = window_text w \<longleftrightarrow> v = w"
  by (cases v; cases w) simp_all

lemma series_keys_eq [simp]:
  "series_key ns d v = series_key ns d' w \<longleftrightarrow> d = d' \<and> v = w"
  "series_order_key ns d v = series_order_key ns d' w \<longleftrightarrow> d = d' \<and> v = w"
  using parts_inject [of d "[window_text v]" d' "[window_text w]"]
  by (auto simp: series_key_def series_order_key_def parts_text_def)

definition keyspace_ok :: "string \<Rightarrow> redis_keys \<Rightarrow> bool" where
  "keyspace_ok ns r \<longleftrightarrow>
     (\<forall>d w. certified (redis_read ns d w r) (map_get (rk_orders r) (series_order_key ns d w)))"

datatype series_op = Append string MetricWindow TimeSeriesRecord int | ClearSeries string

primrec redis_step :: "string \<Rightarrow> series_op \<Rightarrow> redis_keys \<Rightarrow> redis_keys" where
  "redis_step ns (Append d w p n) r = snd (redis_append ns d w p n r)"
| "redis_step ns (ClearSeries d) r = redis_clear ns d r"

text \<open>The reference: every window is a list of its own, and a sample replaces the first one of its time or goes to the end.\<close>

primrec reference_step :: "series_op \<Rightarrow> (string \<times> MetricWindow \<Rightarrow> series_item list) \<Rightarrow> string \<times> MetricWindow \<Rightarrow> series_item list" where
  "reference_step (Append d w p n) tbl =
     (if 0 < n \<and> n \<le> MAX_SERIES_POINTS
      then tbl((d, w) := slice_neg (nat n) (replace_or_push (same_time (of_int (tr_timestamp p))) (StoredPoint p) (tbl (d, w))))
      else tbl)"
| "reference_step (ClearSeries d) tbl = (\<lambda>(d', w). if d' = d \<and> w \<in> {W1m, W5m, W15m} then [] else tbl (d', w))"

lemma redis_append_reads:
  assumes "keyspace_ok ns r"
  shows "redis_read ns d' w' (snd (redis_append ns d w p n r)) =
    reference_step (Append d w p n) (\<lambda>(d, w). redis_read ns d w r) (d', w')"
  using append_script_items [OF assms [unfolded keyspace_ok_def, rule_format, of d w], of "of_int (tr_timestamp p)" "StoredPoint p" "nat n"]
  by (auto simp: redis_append_def redis_read_def redis_list_def Let_def split: prod.split option.split)

lemma redis_clear_reads:
  "redis_read ns d' w' (redis_clear ns d r) = reference_step (ClearSeries d) (\<lambda>(d, w). redis_read ns d w r) (d', w')"
  by (auto simp: redis_clear_def redis_read_def redis_list_def)

lemma keyspace_ok_step:
  assumes "keyspace_ok ns r"
  shows "keyspace_ok ns (redis_step ns op r)"
proof (cases op)
  case (Append d w p n)
  have "certified (redis_read ns d w r) (map_get (rk_orders r) (series_order_key ns d w))" for d w
    using assms by (simp add: keyspace_ok_def)
  then show ?thesis
    using append_script_certified [of "StoredPoint p" "of_int (tr_timestamp p)" "redis_read ns d w r" "map_get (rk_orders r) (series_order_key ns d w)" "nat n"]
    by (auto simp: Append keyspace_ok_def redis_append_def redis_read_def redis_list_def Let_def certified_def split: prod.split option.split)
next
  case (ClearSeries d)
  then show ?thesis
    using assms unfolding keyspace_ok_def by (auto simp: redis_clear_reads certified_def) (auto simp: redis_clear_def)
qed

lemma redis_step_reads:
  assumes "keyspace_ok ns r"
  shows "(\<lambda>(d, w). redis_read ns d w (redis_step ns op r)) = reference_step op (\<lambda>(d, w). redis_read ns d w r)"
proof (cases op)
  case (Append d w p n)
  then show ?thesis
    using redis_append_reads [OF assms, of _ _ d w p n] by (simp add: fun_eq_iff del: reference_step.simps)
next
  case (ClearSeries d)
  then show ?thesis
    using redis_clear_reads [of ns _ _ d r] by (simp add: fun_eq_iff del: reference_step.simps)
qed

text \<open>
  C36: A live window in Redis holds exactly what the plain rule would put there: a sample replaces the first item of its
  time or goes to the end, and the last \<open>maxPoints\<close> items stay.  This holds for every device and window after any
  sequence of appends and clearings, in and out of time order, from whatever lists an older hub without markers left
  behind, although the script looks only at the last item where the marker certifies the order.
\<close>

theorem redis_windows_refine:
  assumes "rk_orders r = []"
  shows "redis_read ns d w (fold (redis_step ns) ops r) =
    fold reference_step ops (\<lambda>(d, w). redis_read ns d w r) (d, w)"
proof -
  have "keyspace_ok ns r \<Longrightarrow> redis_read ns d w (fold (redis_step ns) ops r) =
      fold reference_step ops (\<lambda>(d, w). redis_read ns d w r) (d, w)"
    by (induction ops arbitrary: r) (simp_all add: keyspace_ok_step redis_step_reads)
  then show ?thesis
    using assms by (simp add: keyspace_ok_def certified_def)
qed

definition demo_sample :: "int \<Rightarrow> TimeSeriesRecord" where
  "demo_sample t = (payload_record t (demo_payload t) default_config)"

definition demo_left :: redis_keys where
  "demo_left = \<lparr>rk_lists = [(series_key ''dsc'' ''host'' W1m, [StoredPoint (demo_sample 2000), ForeignItem None])], rk_orders = []\<rparr>"

lemma redis_windows_refine_witness:
  "map item_time (redis_read ''dsc'' ''host'' W1m (fold (redis_step ''dsc'')
     [Append ''host'' W1m (demo_sample 3000) 30, Append ''host'' W1m (demo_sample 2000) 30, Append ''host'' W1m (demo_sample 4000) 30] demo_left)) =
   [Some 2000, None, Some 3000, Some 4000]"
  unfolding redis_windows_refine [of demo_left, unfolded demo_left_def, OF redis_keys.select_convs(2)] demo_left_def
  by (simp add: redis_read_def redis_list_def demo_sample_def MAX_SERIES_POINTS_def replace_or_push_def slice_neg_def payload_record_def Let_def)

text \<open>From an empty keyspace the windows are those of the file-backed store, as long as its file can be written.\<close>

primrec local_step :: "series_op \<Rightarrow> LocalJsonStore \<Rightarrow> LocalJsonStore" where
  "local_step (Append d w p n) st = snd (appendSeries (\<lambda>_. True) d w p (nat n) st)"
| "local_step (ClearSeries d) st = snd (clearSeries (\<lambda>_. True) d st)"

primrec live_op :: "series_op \<Rightarrow> bool" where
  "live_op (Append d w p n) \<longleftrightarrow> w \<in> {W1m, W5m, W15m} \<and> 0 < n \<and> n \<le> MAX_SERIES_POINTS"
| "live_op (ClearSeries d) \<longleftrightarrow> True"

lemma replace_or_push_points:
  "replace_or_push (same_time (of_int (tr_timestamp p))) (StoredPoint p) (map StoredPoint ps) =
   map StoredPoint (replace_or_push (\<lambda>item. tr_timestamp item = tr_timestamp p) p ps)"
proof -
  have "find_index (same_time (of_int (tr_timestamp p))) (map StoredPoint ps) = find_index (\<lambda>item. tr_timestamp item = tr_timestamp p) ps"
    by (induction ps) simp_all
  then show ?thesis
    by (simp add: replace_or_push_def map_update split: option.split)
qed

text \<open>Both stores show the same windows.\<close>

definition windows_agree :: "string \<Rightarrow> redis_keys \<Rightarrow> LocalJsonStore \<Rightarrow> bool" where
  "windows_agree ns r st \<longleftrightarrow>
     (\<forall>d. \<forall>w \<in> {W1m, W5m, W15m}. redis_read ns d w r = map StoredPoint (fst (readSeries d w st)))"

lemma local_reads:
  "fst (readSeries d' w' (local_step (Append d w p n) st)) =
     (if d' = d \<and> w' = w then append_point (nat n) p (fst (readSeries d w st)) else fst (readSeries d' w' st))"
  "fst (readSeries d' w' (local_step (ClearSeries d) st)) = (if d' = d then [] else fst (readSeries d' w' st))"
  by (cases "map_get (db_series (contents st)) d"; auto simp: readSeries_def appendSeries_def clearSeries_def update_facts Let_def)+

lemma windows_agree_step:
  assumes "keyspace_ok ns r" "windows_agree ns r st" "live_op op"
  shows "windows_agree ns (redis_step ns op r) (local_step op st)"
proof -
  have reads: "redis_read ns d w (redis_step ns op r) = reference_step op (\<lambda>(d, w). redis_read ns d w r) (d, w)" for d w
    using redis_step_reads [OF assms(1), of op] by (simp add: fun_eq_iff)
  show ?thesis
  proof (cases op)
    case (Append d w p n)
    then show ?thesis
      using assms(2,3) unfolding windows_agree_def reads
      by (simp add: local_reads append_point_def replace_or_push_points map_slice_neg del: local_step.simps insert_iff)
  next
    case (ClearSeries d)
    then show ?thesis
      using assms(2) unfolding windows_agree_def reads by (simp add: local_reads del: local_step.simps)
  qed
qed

theorem stores_agree:
  assumes "\<forall>op \<in> set ops. live_op op" "w \<in> {W1m, W5m, W15m}"
  shows "redis_read ns d w (fold (redis_step ns) ops \<lparr>rk_lists = [], rk_orders = []\<rparr>) =
    map StoredPoint (fst (readSeries d w (fold local_step ops empty_store)))"
proof -
  have "keyspace_ok ns r \<Longrightarrow> windows_agree ns r st \<Longrightarrow>
      windows_agree ns (fold (redis_step ns) ops r) (fold local_step ops st)" for r st
    using assms(1)
    by (induction ops arbitrary: r st) (simp_all add: keyspace_ok_step windows_agree_step)
  moreover have "keyspace_ok ns \<lparr>rk_lists = [], rk_orders = []\<rparr>"
    by (simp add: keyspace_ok_def certified_def)
  moreover have "windows_agree ns \<lparr>rk_lists = [], rk_orders = []\<rparr> empty_store"
    by (simp add: windows_agree_def redis_read_def redis_list_def readSeries_def empty_store_def contents_def load_def EMPTY_DB_def Let_def)
  ultimately show ?thesis
    using assms(2) unfolding windows_agree_def by blast
qed

end
