(* ===== verification/Redis_Models.thy ===== *)
theory Redis_Models
  imports LocalStore "HOL-Library.List_Lexorder" "HOL-Library.Char_ord"
begin

text \<open>
  The device hash in Redis and the two read models kept beside it, \<open>repositories/realtime-read-models.ts\<close>: the summary
  of every device, and the online devices by the time they were last seen.  Each Lua script is one step.  A new hub fills
  the read models from the hash page by page while samples, the offline scan and removals go on writing, and the sweep of
  \<open>removeLegacyVirtualMachineData\<close> (\<open>repositories/realtime.ts\<close>), started after the hub listens, writes back the
  states it has listed.

  A stored text is the state it was written from, or a text that is not JSON; \<open>normalizeRealtimeState\<close> repairs arrays
  that an older encoder wrote as objects and has nothing to do on typed states.  Redis gives no order of a hash; the model
  has one, on which nothing depends.

  The facts: under every interleaving the filled read models say of every device what the hash says, and then the
  listing of expired devices ends and finds them, oldest first.
\<close>

subsection \<open>The hashes and the scripts\<close>

datatype stored_state = StateJson DeviceRealtimeState | BrokenText string

record RealtimeDeviceSummary = DeviceSummary +
  rd_registrationHostname :: string

record realtime_hashes =
  rh_device :: "(string, stored_state) jsmap"
  rh_summary :: "(string, RealtimeDeviceSummary) jsmap"
  rh_expiry :: "(string, int) jsmap"
  rh_version :: bool

definition state_id :: "DeviceRealtimeState \<Rightarrow> string" where
  "state_id state = id_deviceId (rs_identity state)"

definition lastSeen :: "DeviceRealtimeState \<Rightarrow> int" where
  "lastSeen state = nullish (Date_parse (rs_lastSeenAt state)) 0"

definition summary_row :: "DeviceRealtimeState \<Rightarrow> RealtimeDeviceSummary" where
  "summary_row state = DeviceSummary.extend (toSummary state) (RealtimeDeviceSummary.fields (id_hostname (rs_identity state)))"

text \<open>The common end of \<open>WRITE_STATE\<close> and \<open>BACKFILL\<close>.\<close>

definition set_models :: "string \<Rightarrow> RealtimeDeviceSummary \<Rightarrow> DeviceStatus \<Rightarrow> int \<Rightarrow> realtime_hashes \<Rightarrow> realtime_hashes" where
  "set_models deviceId summary status score r =
     r\<lparr>rh_summary := map_set deviceId summary (rh_summary r),
       rh_expiry := (if status = Online then map_set deviceId score (rh_expiry r) else map_delete deviceId (rh_expiry r))\<rparr>"

definition write_state :: "string \<Rightarrow> stored_state \<Rightarrow> RealtimeDeviceSummary \<Rightarrow> DeviceStatus \<Rightarrow> int \<Rightarrow> realtime_hashes \<Rightarrow> realtime_hashes" where
  "write_state deviceId raw summary status score r =
     set_models deviceId summary status score (r\<lparr>rh_device := map_set deviceId raw (rh_device r)\<rparr>)"

definition backfill_script :: "string \<Rightarrow> stored_state \<Rightarrow> RealtimeDeviceSummary \<Rightarrow> DeviceStatus \<Rightarrow> int \<Rightarrow> realtime_hashes \<Rightarrow> realtime_hashes" where
  "backfill_script deviceId raw summary status score r =
     (if map_get (rh_device r) deviceId \<noteq> Some raw then r else set_models deviceId summary status score r)"

definition mark_offline_script :: "string \<Rightarrow> string \<Rightarrow> stored_state \<Rightarrow> RealtimeDeviceSummary \<Rightarrow> realtime_hashes \<Rightarrow> bool \<times> realtime_hashes" where
  "mark_offline_script deviceId expected raw summary r =
     (case map_get (rh_device r) deviceId of
        Some (StateJson state) \<Rightarrow>
          if rs_lastSeenAt state \<noteq> expected then (False, r)
          else (True, r\<lparr>rh_device := map_set deviceId raw (rh_device r), rh_summary := map_set deviceId summary (rh_summary r),
            rh_expiry := map_delete deviceId (rh_expiry r)\<rparr>)
      | _ \<Rightarrow> (False, r))"

definition remove_state :: "string \<Rightarrow> realtime_hashes \<Rightarrow> realtime_hashes" where
  "remove_state deviceId r =
     r\<lparr>rh_device := map_delete deviceId (rh_device r), rh_summary := map_delete deviceId (rh_summary r),
       rh_expiry := map_delete deviceId (rh_expiry r)\<rparr>"

text \<open>The expected text is \<open>None\<close> where the code passes the empty one.\<close>

definition remove_missing_expiry :: "string \<Rightarrow> stored_state option \<Rightarrow> realtime_hashes \<Rightarrow> realtime_hashes" where
  "remove_missing_expiry deviceId expected r =
     (let raw = map_get (rh_device r) deviceId
      in if raw = None \<or> (expected \<noteq> None \<and> raw = expected) then r\<lparr>rh_expiry := map_delete deviceId (rh_expiry r)\<rparr> else r)"

subsection \<open>The operations\<close>

definition redis_upsert :: "DeviceRealtimeState \<Rightarrow> realtime_hashes \<Rightarrow> realtime_hashes" where
  "redis_upsert state = write_state (state_id state) (StateJson state) (summary_row state) (rs_status state) (lastSeen state)"

definition redis_markOffline :: "string \<Rightarrow> string \<Rightarrow> DeviceRealtimeState \<Rightarrow> realtime_hashes \<Rightarrow> bool \<times> realtime_hashes" where
  "redis_markOffline deviceId expectedLastSeenAt state =
     mark_offline_script deviceId expectedLastSeenAt (StateJson state) (summary_row state)"

definition redis_listSummaries :: "realtime_hashes \<Rightarrow> RealtimeDeviceSummary list" where
  "redis_listSummaries r = filter (\<lambda>row. \<not> isLegacyVirtualMachineId (sm_deviceId row)) (map_values (rh_summary r))"

text \<open>One entry of a page of the backfill; \<open>None\<close> where \<open>JSON.parse\<close> throws.\<close>

definition backfill_entry :: "string \<times> stored_state \<Rightarrow> realtime_hashes \<Rightarrow> realtime_hashes option" where
  "backfill_entry entry r =
     (case entry of (deviceId, raw) \<Rightarrow>
        if isLegacyVirtualMachineId deviceId then Some r
        else case raw of
          BrokenText _ \<Rightarrow> None
        | StateJson state \<Rightarrow>
            Some (backfill_script deviceId raw (summary_row state) (rs_status state) (lastSeen state) r))"

datatype listing_error = InvalidBounds | InvalidJson

text \<open>\<open>zrangebyscore -inf cutoff LIMIT 0 limit\<close>: by score, members of one score by their bytes.\<close>

definition expired_ids :: "int \<Rightarrow> nat \<Rightarrow> realtime_hashes \<Rightarrow> string list" where
  "expired_ids cutoff limit r =
     map fst (take limit (sort_by (\<lambda>(member, score). (score, member)) (filter (\<lambda>(member, score). score \<le> cutoff) (rh_expiry r))))"

fun expired_page :: "int \<Rightarrow> (string \<times> stored_state option) list \<Rightarrow> DeviceRealtimeState list \<Rightarrow> realtime_hashes
    \<Rightarrow> (listing_error + DeviceRealtimeState list) \<times> realtime_hashes" where
  "expired_page cutoff [] states r = (Inr states, r)"
| "expired_page cutoff ((deviceId, None) # rows) states r =
     expired_page cutoff rows states (remove_missing_expiry deviceId None r)"
| "expired_page cutoff ((deviceId, Some (BrokenText t)) # rows) states r = (Inl InvalidJson, r)"
| "expired_page cutoff ((deviceId, Some (StateJson state)) # rows) states r =
     (if isLegacyVirtualMachineId (state_id state) \<or> rs_status state = Offline
      then expired_page cutoff rows states (remove_missing_expiry deviceId (Some (StateJson state)) r)
      else if lastSeen state \<le> cutoff then expired_page cutoff rows (states @ [state]) r
      else expired_page cutoff rows states r)"

text \<open>The loop goes on while a page gives no state; it does not end by itself, so its value is \<open>None\<close> if it never does.\<close>

partial_function (option) list_expired :: "int \<Rightarrow> nat \<Rightarrow> realtime_hashes
    \<Rightarrow> ((listing_error + DeviceRealtimeState list) \<times> realtime_hashes) option" where
  "list_expired cutoff limit r =
     (let ids = expired_ids cutoff limit r
      in if ids = [] then Some (Inr [], r)
         else case expired_page cutoff (map (\<lambda>deviceId. (deviceId, map_get (rh_device r) deviceId)) ids) [] r of
           (Inr [], r') \<Rightarrow> list_expired cutoff limit r'
         | (res, r') \<Rightarrow> Some (res, r'))"

definition redis_listExpired :: "int \<Rightarrow> int \<Rightarrow> realtime_hashes \<Rightarrow> ((listing_error + DeviceRealtimeState list) \<times> realtime_hashes) option" where
  "redis_listExpired cutoff limit r =
     (if limit < 1 \<or> limit > 1024 then Some (Inl InvalidBounds, r) else list_expired cutoff (nat limit) r)"

subsection \<open>The backfill, the sweep and the writers together\<close>

text \<open>
  \<open>Scanning\<close>: the identifiers present since the scan began that \<open>hscan\<close> has not answered yet, the entries of the page
  in work, and whether the page was the last one.  What \<open>hscan\<close> promises is that an element present all the time is
  answered before the last page ends; an entry is answered as it is stored at that moment.
\<close>

datatype backfill_phase = Idle | Scanning "string set" "(string \<times> stored_state) list" bool | Ready

record models_run =
  mr_hashes :: realtime_hashes
  mr_phase :: backfill_phase
  mr_sweep :: "DeviceRealtimeState list"

definition gone_from_scan :: "string \<Rightarrow> backfill_phase \<Rightarrow> backfill_phase" where
  "gone_from_scan deviceId phase =
     (case phase of Scanning must page ended \<Rightarrow> Scanning (must - {deviceId}) page ended | _ \<Rightarrow> phase)"

definition begin_backfill :: "models_run \<Rightarrow> models_run" where
  "begin_backfill w =
     w\<lparr>mr_phase := (if rh_version (mr_hashes w) then Ready else Scanning (set (map_keys (rh_device (mr_hashes w)))) [] False)\<rparr>"

definition do_remove :: "string \<Rightarrow> models_run \<Rightarrow> models_run" where
  "do_remove deviceId w =
     w\<lparr>mr_hashes := remove_state deviceId (mr_hashes w), mr_phase := gone_from_scan deviceId (mr_phase w)\<rparr>"

text \<open>One state of the sweep: a virtual machine is removed, any other state written back as it was listed.\<close>

definition sweep_state :: "(DeviceRealtimeState \<Rightarrow> bool) \<Rightarrow> DeviceRealtimeState \<Rightarrow> models_run \<Rightarrow> models_run" where
  "sweep_state is_vm state w =
     (if isLegacyVirtualMachineId (state_id state) \<or> is_vm state then do_remove (state_id state) w
      else w\<lparr>mr_hashes := redis_upsert state (mr_hashes w)\<rparr>)"

inductive models_step :: "(DeviceRealtimeState \<Rightarrow> bool) \<Rightarrow> models_run \<Rightarrow> models_run \<Rightarrow> bool" for is_vm where
  upserted: "models_step is_vm w (w\<lparr>mr_hashes := redis_upsert state (mr_hashes w)\<rparr>)"
| marked: "rs_status state = Offline \<Longrightarrow>
    models_step is_vm w (w\<lparr>mr_hashes := snd (redis_markOffline (state_id state) seen state (mr_hashes w))\<rparr>)"
| removed: "models_step is_vm w (do_remove deviceId w)"
| cleaned: "expected = None \<or> (\<exists>state. expected = Some (StateJson state) \<and> (isLegacyVirtualMachineId (state_id state) \<or> rs_status state = Offline)) \<Longrightarrow>
    models_step is_vm w (w\<lparr>mr_hashes := remove_missing_expiry deviceId expected (mr_hashes w)\<rparr>)"
| begun: "mr_phase w = Idle \<Longrightarrow> models_step is_vm w (begin_backfill w)"
| page_read: "mr_phase w = Scanning must [] False \<Longrightarrow>
    \<forall>(deviceId, raw) \<in> set page. map_get (rh_device (mr_hashes w)) deviceId = Some raw \<Longrightarrow>
    ended \<longrightarrow> must \<subseteq> set (map fst page) \<Longrightarrow>
    models_step is_vm w (w\<lparr>mr_phase := Scanning (must - set (map fst page)) page ended\<rparr>)"
| entry_filled: "mr_phase w = Scanning must (entry # page) ended \<Longrightarrow> backfill_entry entry (mr_hashes w) = Some r \<Longrightarrow>
    models_step is_vm w (w\<lparr>mr_hashes := r, mr_phase := Scanning must page ended\<rparr>)"
| filled: "mr_phase w = Scanning must [] True \<Longrightarrow>
    models_step is_vm w (w\<lparr>mr_hashes := mr_hashes w\<lparr>rh_version := True\<rparr>, mr_phase := Ready\<rparr>)"
| failed: "models_step is_vm w (w\<lparr>mr_phase := Idle, mr_sweep := []\<rparr>)"
| sweep_listed: "map StateJson states = map_values (rh_device (mr_hashes w)) \<Longrightarrow> models_step is_vm w (w\<lparr>mr_sweep := states\<rparr>)"
| swept: "mr_sweep w = state # states \<Longrightarrow> models_step is_vm w ((sweep_state is_vm state w)\<lparr>mr_sweep := states\<rparr>)"

text \<open>A hub starts on hashes whose states are stored under their own identifiers, with the read models not filled yet.\<close>

definition stored_properly :: "realtime_hashes \<Rightarrow> bool" where
  "stored_properly r \<longleftrightarrow>
     (\<forall>k state. map_get (rh_device r) k = Some (StateJson state) \<longrightarrow> state_id state = k)"

inductive reachable_models :: "(DeviceRealtimeState \<Rightarrow> bool) \<Rightarrow> models_run \<Rightarrow> bool" for is_vm where
  started: "stored_properly r \<Longrightarrow> rh_summary r = [] \<Longrightarrow> rh_expiry r = [] \<Longrightarrow> \<not> rh_version r \<Longrightarrow>
    reachable_models is_vm \<lparr>mr_hashes = r, mr_phase = Idle, mr_sweep = []\<rparr>"
| stepped: "reachable_models is_vm w \<Longrightarrow> models_step is_vm w w' \<Longrightarrow> reachable_models is_vm w'"

subsection \<open>The read models say what the hash says\<close>

definition row_ok :: "realtime_hashes \<Rightarrow> string \<Rightarrow> bool" where
  "row_ok r k \<longleftrightarrow>
     (case map_get (rh_device r) k of
        None \<Rightarrow> map_get (rh_summary r) k = None \<and> map_get (rh_expiry r) k = None
      | Some (BrokenText _) \<Rightarrow> False
      | Some (StateJson state) \<Rightarrow> map_get (rh_summary r) k = Some (summary_row state) \<and>
          map_get (rh_expiry r) k = (if rs_status state = Online then Some (lastSeen state) else None))"

definition hashes_wf :: "realtime_hashes \<Rightarrow> bool" where
  "hashes_wf r \<longleftrightarrow> stored_properly r \<and>
     (\<forall>k t. map_get (rh_expiry r) k = Some t \<longrightarrow> (\<exists>state. map_get (rh_device r) k = Some (StateJson state))) \<and>
     (\<forall>k. map_get (rh_device r) k = None \<longrightarrow> map_get (rh_summary r) k = None) \<and>
     distinct (map_keys (rh_summary r)) \<and> distinct (map_keys (rh_expiry r)) \<and>
     (\<forall>(k, row) \<in> set (rh_summary r). sm_deviceId row = k)"

definition models_ok :: "realtime_hashes \<Rightarrow> bool" where
  "models_ok r \<longleftrightarrow> hashes_wf r \<and> (\<forall>k. isLegacyVirtualMachineId k \<or> row_ok r k)"

fun still_due :: "backfill_phase \<Rightarrow> string \<Rightarrow> stored_state \<Rightarrow> bool" where
  "still_due Idle k raw \<longleftrightarrow> True"
| "still_due (Scanning must page ended) k raw \<longleftrightarrow> k \<in> must \<or> (k, raw) \<in> set page"
| "still_due Ready k raw \<longleftrightarrow> False"

fun phase_ok :: "backfill_phase \<Rightarrow> bool \<Rightarrow> bool" where
  "phase_ok Idle version \<longleftrightarrow> True"
| "phase_ok (Scanning must page ended) version \<longleftrightarrow> \<not> version \<and> (ended \<longrightarrow> must = {})"
| "phase_ok Ready version \<longleftrightarrow> version"

definition models_run_ok :: "models_run \<Rightarrow> bool" where
  "models_run_ok w \<longleftrightarrow> hashes_wf (mr_hashes w) \<and> phase_ok (mr_phase w) (rh_version (mr_hashes w)) \<and>
     (\<forall>k raw. map_get (rh_device (mr_hashes w)) k = Some raw \<longrightarrow>
        isLegacyVirtualMachineId k \<or> row_ok (mr_hashes w) k \<or> \<not> rh_version (mr_hashes w) \<and> still_due (mr_phase w) k raw)"

lemma state_id_row [simp]: "sm_deviceId (summary_row state) = state_id state"
  by (simp add: summary_row_def DeviceSummary.defs toSummary_def Let_def state_id_def)

lemma set_map_set_row: "(k, v) \<in> set (map_set k' v' m) \<Longrightarrow> (k, v) = (k', v') \<or> (k, v) \<in> set m"
  by (induction m) (auto split: if_splits)

lemma set_map_delete_row: "(k, v) \<in> set (map_delete k' m) \<Longrightarrow> (k, v) \<in> set m"
  by (simp add: AList.delete_eq)

text \<open>Filling the row of a stored state: that row is right, the others are as before.\<close>

lemma set_models_ok:
  assumes "hashes_wf r" "map_get (rh_device r) k = Some (StateJson state)"
  shows "hashes_wf (set_models k (summary_row state) (rs_status state) (lastSeen state) r)"
    and "row_ok (set_models k (summary_row state) (rs_status state) (lastSeen state) r) j \<longleftrightarrow> j = k \<or> row_ok r j"
proof -
  have "state_id state = k"
    using assms by (auto simp: hashes_wf_def stored_properly_def)
  then show "hashes_wf (set_models k (summary_row state) (rs_status state) (lastSeen state) r)"
    using assms unfolding hashes_wf_def
    by (auto simp: set_models_def stored_properly_def distinct_update distinct_delete simp del: map_of_eq_Some_iff
        dest!: set_map_set_row split: if_splits)
  show "row_ok (set_models k (summary_row state) (rs_status state) (lastSeen state) r) j \<longleftrightarrow> j = k \<or> row_ok r j"
    using assms(2) by (auto simp: row_ok_def set_models_def split: option.split stored_state.split)
qed

lemma stored_wf:
  assumes "hashes_wf r" "state_id state = k"
  shows "hashes_wf (r\<lparr>rh_device := map_set k (StateJson state) (rh_device r)\<rparr>)"
  using assms unfolding hashes_wf_def stored_properly_def by (auto split: if_splits)

lemma write_state_ok:
  assumes "hashes_wf r" "state_id state = k"
  shows "hashes_wf (write_state k (StateJson state) (summary_row state) (rs_status state) (lastSeen state) r)"
    and "row_ok (write_state k (StateJson state) (summary_row state) (rs_status state) (lastSeen state) r) j \<longleftrightarrow> j = k \<or> row_ok r j"
proof -
  let ?r = "r\<lparr>rh_device := map_set k (StateJson state) (rh_device r)\<rparr>"
  have wf: "hashes_wf ?r" and at: "map_get (rh_device ?r) k = Some (StateJson state)"
    using stored_wf [OF assms] by simp_all
  have "j \<noteq> k \<Longrightarrow> row_ok ?r j \<longleftrightarrow> row_ok r j"
    by (simp add: row_ok_def split: option.split stored_state.split)
  then show "hashes_wf (write_state k (StateJson state) (summary_row state) (rs_status state) (lastSeen state) r)"
    "row_ok (write_state k (StateJson state) (summary_row state) (rs_status state) (lastSeen state) r) j \<longleftrightarrow> j = k \<or> row_ok r j"
    using set_models_ok [OF wf at] by (auto simp: write_state_def)
qed

lemma mark_offline_write:
  assumes "rs_status state = Offline"
  shows "snd (redis_markOffline (state_id state) seen state r) =
    (case map_get (rh_device r) (state_id state) of
       Some (StateJson old) \<Rightarrow> if rs_lastSeenAt old \<noteq> seen then r else redis_upsert state r
     | _ \<Rightarrow> r)"
  by (simp add: redis_markOffline_def mark_offline_script_def redis_upsert_def write_state_def set_models_def assms
      split: option.split stored_state.split)

lemma remove_state_ok:
  assumes "hashes_wf r"
  shows "hashes_wf (remove_state k r)" "row_ok (remove_state k r) j \<longleftrightarrow> j = k \<or> row_ok r j"
proof -
  show "hashes_wf (remove_state k r)"
    unfolding hashes_wf_def
  proof (intro conjI)
    show "\<forall>(j, row) \<in> set (rh_summary (remove_state k r)). sm_deviceId row = j"
      using assms by (auto simp: remove_state_def hashes_wf_def dest!: set_map_delete_row)
  qed (use assms in \<open>simp_all add: remove_state_def hashes_wf_def stored_properly_def distinct_delete\<close>)
  show "row_ok (remove_state k r) j \<longleftrightarrow> j = k \<or> row_ok r j"
    by (auto simp: remove_state_def row_ok_def split: option.split stored_state.split)
qed

text \<open>A cleaning of the expiry set only takes away what has no place there.\<close>

lemma cleaning_ok:
  assumes "hashes_wf r" "expected = None \<or> (\<exists>state. expected = Some (StateJson state) \<and>
    (isLegacyVirtualMachineId (state_id state) \<or> rs_status state = Offline))"
  shows "hashes_wf (remove_missing_expiry k expected r)"
    and "isLegacyVirtualMachineId j \<or> (row_ok r j \<longrightarrow> row_ok (remove_missing_expiry k expected r) j)"
proof -
  show "hashes_wf (remove_missing_expiry k expected r)"
    using assms(1) unfolding hashes_wf_def
    by (auto simp: remove_missing_expiry_def stored_properly_def distinct_delete Let_def simp del: map_of_eq_Some_iff split: if_splits)
  have "state_id state = k" if "map_get (rh_device r) k = Some (StateJson state)" for state
    using that assms(1) by (auto simp: hashes_wf_def stored_properly_def)
  then show "isLegacyVirtualMachineId j \<or> (row_ok r j \<longrightarrow> row_ok (remove_missing_expiry k expected r) j)"
    using assms(2) by (auto simp: row_ok_def remove_missing_expiry_def Let_def split: option.splits stored_state.splits)
qed

lemma gone_from_scan_due: "j \<noteq> k \<Longrightarrow> still_due (gone_from_scan k phase) j raw \<longleftrightarrow> still_due phase j raw"
  by (cases phase) (auto simp: gone_from_scan_def)

lemma gone_from_scan_ok: "phase_ok phase v \<Longrightarrow> phase_ok (gone_from_scan k phase) v"
  by (cases phase) (auto simp: gone_from_scan_def)

text \<open>A change of the hashes that leaves every other device as it is and gets its own right keeps the invariant.\<close>

lemma models_run_ok_change:
  assumes "models_run_ok w" "hashes_wf r" "rh_version r = rh_version (mr_hashes w)" "phase_ok phase (rh_version r)"
    and "\<forall>j. isLegacyVirtualMachineId j \<or> row_ok r j \<or>
      \<not> row_ok (mr_hashes w) j \<and> map_get (rh_device r) j = map_get (rh_device (mr_hashes w)) j \<and>
      (\<forall>raw. still_due (mr_phase w) j raw \<longrightarrow> still_due phase j raw)"
  shows "models_run_ok (w\<lparr>mr_hashes := r, mr_phase := phase, mr_sweep := sweep\<rparr>)"
proof -
  have "isLegacyVirtualMachineId j \<or> row_ok r j \<or> \<not> rh_version r \<and> still_due phase j raw"
    if "map_get (rh_device r) j = Some raw" for j raw
    using assms(1,3,5) that unfolding models_run_ok_def by metis
  with assms(2,4) show ?thesis by (simp add: models_run_ok_def)
qed

lemma upsert_run_ok:
  assumes "models_run_ok w"
  shows "models_run_ok (w\<lparr>mr_hashes := redis_upsert state (mr_hashes w)\<rparr>)"
proof -
  let ?r = "redis_upsert state (mr_hashes w)"
  have wf: "hashes_wf (mr_hashes w)" and phase: "phase_ok (mr_phase w) (rh_version (mr_hashes w))"
    using assms by (simp_all add: models_run_ok_def)
  note ok = write_state_ok [OF wf refl, of state]
  have "map_get (rh_device ?r) j = map_get (rh_device (mr_hashes w)) j" if "j \<noteq> state_id state" for j
    using that by (simp add: redis_upsert_def write_state_def set_models_def)
  then show ?thesis
    using models_run_ok_change [OF assms, of ?r "mr_phase w" "mr_sweep w"] ok phase
    by (simp add: redis_upsert_def write_state_def set_models_def)
qed

lemma remove_run_ok:
  assumes "models_run_ok w"
  shows "models_run_ok (do_remove k w)"
proof -
  let ?r = "remove_state k (mr_hashes w)"
  have wf: "hashes_wf (mr_hashes w)" and phase: "phase_ok (mr_phase w) (rh_version (mr_hashes w))"
    using assms by (simp_all add: models_run_ok_def)
  note ok = remove_state_ok [OF wf, of k]
  have "map_get (rh_device ?r) j = map_get (rh_device (mr_hashes w)) j" if "j \<noteq> k" for j
    using that by (simp add: remove_state_def)
  then show ?thesis
    using models_run_ok_change [OF assms, of ?r "gone_from_scan k (mr_phase w)" "mr_sweep w"] ok gone_from_scan_ok [OF phase] gone_from_scan_due
    by (simp add: remove_state_def do_remove_def)
qed

lemma sweep_run_ok: "models_run_ok w \<Longrightarrow> models_run_ok ((sweep_state is_vm state w)\<lparr>mr_sweep := states\<rparr>)"
  using upsert_run_ok [of w state] remove_run_ok [of w "state_id state"] by (simp add: sweep_state_def models_run_ok_def)

lemma entry_run_ok:
  assumes "models_run_ok w" "mr_phase w = Scanning must ((k, raw) # page) ended" "backfill_entry (k, raw) (mr_hashes w) = Some r"
  shows "models_run_ok (w\<lparr>mr_hashes := r, mr_phase := Scanning must page ended\<rparr>)"
proof -
  have wf: "hashes_wf (mr_hashes w)" and phase: "phase_ok (Scanning must page ended) (rh_version (mr_hashes w))"
    and due: "map_get (rh_device (mr_hashes w)) j = Some old \<Longrightarrow> isLegacyVirtualMachineId j \<or> row_ok (mr_hashes w) j \<or>
       \<not> rh_version (mr_hashes w) \<and> (j \<in> must \<or> (j, old) \<in> set ((k, raw) # page))" for j old
    using assms(1,2) by (auto simp: models_run_ok_def)
  show ?thesis
  proof (cases "\<exists>state. raw = StateJson state \<and> map_get (rh_device (mr_hashes w)) k = Some raw \<and> \<not> isLegacyVirtualMachineId k")
    case True
    then obtain state where state: "raw = StateJson state" "map_get (rh_device (mr_hashes w)) k = Some (StateJson state)"
      "\<not> isLegacyVirtualMachineId k" by blast
    then have r: "r = set_models k (summary_row state) (rs_status state) (lastSeen state) (mr_hashes w)"
      using assms(3) by (simp add: backfill_entry_def backfill_script_def)
    then have "rh_device r = rh_device (mr_hashes w)" "rh_version r = rh_version (mr_hashes w)"
      by (simp_all add: set_models_def)
    then show ?thesis
      using set_models_ok [OF wf state(2)] due phase unfolding r [symmetric] models_run_ok_def by auto
  next
    case False
    then have "r = mr_hashes w"
      using assms(3) by (auto simp: backfill_entry_def backfill_script_def split: if_splits stored_state.splits)
    moreover have "isLegacyVirtualMachineId k \<or> map_get (rh_device (mr_hashes w)) k \<noteq> Some raw"
      using False assms(3) by (auto simp: backfill_entry_def split: if_splits stored_state.splits)
    ultimately show ?thesis
      using due phase wf unfolding models_run_ok_def by fastforce
  qed
qed

lemma version_irrelevant [simp]:
  "hashes_wf (r\<lparr>rh_version := v\<rparr>) \<longleftrightarrow> hashes_wf r" "row_ok (r\<lparr>rh_version := v\<rparr>) k \<longleftrightarrow> row_ok r k"
  by (simp_all add: hashes_wf_def stored_properly_def row_ok_def split: option.split stored_state.split)

lemma models_step_ok: "models_step is_vm w w' \<Longrightarrow> models_run_ok w \<Longrightarrow> models_run_ok w'"
proof (induction rule: models_step.induct)
  case (upserted w state)
  then show ?case by (rule upsert_run_ok)
next
  case (marked state w seen)
  then show ?case
    using upsert_run_ok [of w state] by (simp add: mark_offline_write split: option.split stored_state.split)
next
  case (removed w k)
  then show ?case by (rule remove_run_ok)
next
  case (cleaned expected w k)
  have wf: "hashes_wf (mr_hashes w)" using cleaned.prems by (simp add: models_run_ok_def)
  have same: "rh_device (remove_missing_expiry k expected (mr_hashes w)) = rh_device (mr_hashes w)"
    "rh_version (remove_missing_expiry k expected (mr_hashes w)) = rh_version (mr_hashes w)"
    by (simp_all add: remove_missing_expiry_def Let_def)
  have "isLegacyVirtualMachineId j \<or> (row_ok (mr_hashes w) j \<longrightarrow> row_ok (remove_missing_expiry k expected (mr_hashes w)) j)" for j
    using cleaning_ok(2) [OF wf cleaned.hyps] .
  then show ?case
    using cleaned.prems cleaning_ok(1) [OF wf cleaned.hyps, of k] same unfolding models_run_ok_def by fastforce
next
  case (begun w)
  then show ?case
    by (auto simp: models_run_ok_def begin_backfill_def weak_map_of_SomeI dest: map_of_SomeD intro: rev_image_eqI)
next
  case (page_read w must page ended)
  then show ?case by (fastforce simp: models_run_ok_def)
next
  case (entry_filled w must entry page ended r)
  then show ?case using entry_run_ok [of w must "fst entry" "snd entry" page ended r] by simp
next
  case (filled w must)
  then show ?case by (auto simp: models_run_ok_def)
next
  case (failed w)
  then show ?case by (auto simp: models_run_ok_def)
next
  case (sweep_listed states w)
  then show ?case by (simp add: models_run_ok_def)
next
  case (swept w state states)
  then show ?case by (simp add: sweep_run_ok)
qed

lemma reachable_models_ok: "reachable_models is_vm w \<Longrightarrow> models_run_ok w"
proof (induction rule: reachable_models.induct)
  case (started r)
  then show ?case by (simp add: models_run_ok_def hashes_wf_def)
next
  case (stepped w w')
  then show ?case using models_step_ok by blast
qed

lemma reachable_filled:
  assumes "reachable_models is_vm w" "rh_version (mr_hashes w)"
  shows "models_ok (mr_hashes w)"
proof -
  have ok: "models_run_ok w" using assms(1) by (rule reachable_models_ok)
  have "isLegacyVirtualMachineId k \<or> row_ok (mr_hashes w) k" for k
  proof (cases "map_get (rh_device (mr_hashes w)) k")
    case None
    then have "map_get (rh_summary (mr_hashes w)) k = None" "map_get (rh_expiry (mr_hashes w)) k = None"
      using ok unfolding models_run_ok_def hashes_wf_def by (blast, metis option.exhaust option.simps(3))
    with None show ?thesis by (simp add: row_ok_def)
  next
    case (Some raw)
    with ok assms(2) show ?thesis unfolding models_run_ok_def by blast
  qed
  with ok show ?thesis by (simp add: models_ok_def models_run_ok_def)
qed

subsection \<open>The listing of the summaries\<close>

lemma summaries_listed:
  assumes "models_ok r"
  shows "distinct (map sm_deviceId (redis_listSummaries r)) \<and>
    set (redis_listSummaries r) =
      {summary_row state |state. map_get (rh_device r) (state_id state) = Some (StateJson state) \<and> \<not> isLegacyVirtualMachineId (state_id state)}"
proof
  have wf: "hashes_wf r" and rows: "\<And>k. isLegacyVirtualMachineId k \<or> row_ok r k"
    using assms by (simp_all add: models_ok_def)
  have keys: "map sm_deviceId (map_values (rh_summary r)) = map_keys (rh_summary r)" and d: "distinct (map_keys (rh_summary r))"
    using wf by (auto simp: hashes_wf_def)
  then show "distinct (map sm_deviceId (redis_listSummaries r))"
    unfolding redis_listSummaries_def by (metis distinct_map_filter)
  show "set (redis_listSummaries r) =
      {summary_row state |state. map_get (rh_device r) (state_id state) = Some (StateJson state) \<and> \<not> isLegacyVirtualMachineId (state_id state)}"
  proof (intro set_eqI iffI)
    fix row assume "row \<in> set (redis_listSummaries r)"
    then obtain k where k: "(k, row) \<in> set (rh_summary r)" "\<not> isLegacyVirtualMachineId (sm_deviceId row)"
      by (auto simp: redis_listSummaries_def)
    then have row: "sm_deviceId row = k" "map_get (rh_summary r) k = Some row"
      using wf d by (auto simp: hashes_wf_def)
    then have "row_ok r k" using rows [of k] k(2) by blast
    then obtain state where "map_get (rh_device r) k = Some (StateJson state)" "row = summary_row state"
      using row by (auto simp: row_ok_def split: option.splits stored_state.splits)
    then show "row \<in> {summary_row state |state. map_get (rh_device r) (state_id state) = Some (StateJson state) \<and> \<not> isLegacyVirtualMachineId (state_id state)}"
      using row k(2) by auto
  next
    fix row assume "row \<in> {summary_row state |state. map_get (rh_device r) (state_id state) = Some (StateJson state) \<and> \<not> isLegacyVirtualMachineId (state_id state)}"
    then obtain state where state: "row = summary_row state" "map_get (rh_device r) (state_id state) = Some (StateJson state)"
      "\<not> isLegacyVirtualMachineId (state_id state)" by blast
    then have "map_get (rh_summary r) (state_id state) = Some row"
      using rows [of "state_id state"] by (simp add: row_ok_def)
    then show "row \<in> set (redis_listSummaries r)"
      using state(1,3) by (auto simp: redis_listSummaries_def dest!: map_of_SomeD intro: rev_image_eqI)
  qed
qed

subsection \<open>The listing of expired devices\<close>

abbreviation page_states :: "(string \<times> stored_state option) list \<Rightarrow> DeviceRealtimeState list" where
  "page_states rows \<equiv> List.map_filter (\<lambda>(k, raw). case raw of
     Some (StateJson state) \<Rightarrow> if isLegacyVirtualMachineId k then None else Some state | _ \<Rightarrow> None) rows"

definition page_row_ok :: "int \<Rightarrow> realtime_hashes \<Rightarrow> string \<times> stored_state option \<Rightarrow> bool" where
  "page_row_ok cutoff r row \<longleftrightarrow>
     (\<exists>state. snd row = Some (StateJson state) \<and> map_get (rh_device r) (fst row) = Some (StateJson state) \<and> state_id state = fst row \<and>
        (isLegacyVirtualMachineId (fst row) \<or> rs_status state = Online \<and> lastSeen state \<le> cutoff))"

lemma expired_page_eq:
  "(\<forall>row \<in> set rows. page_row_ok cutoff r row) \<Longrightarrow>
   expired_page cutoff rows states r =
     (Inr (states @ page_states rows),
      r\<lparr>rh_expiry := fold map_delete (filter isLegacyVirtualMachineId (map fst rows)) (rh_expiry r)\<rparr>)"
proof (induction rows arbitrary: states r)
  case (Cons row rows)
  obtain k state where row: "row = (k, Some (StateJson state))" "map_get (rh_device r) k = Some (StateJson state)" "state_id state = k"
    "isLegacyVirtualMachineId k \<or> rs_status state = Online \<and> lastSeen state \<le> cutoff"
    using Cons.prems by (cases row) (auto simp: page_row_ok_def)
  let ?r = "r\<lparr>rh_expiry := map_delete k (rh_expiry r)\<rparr>"
  have "\<forall>row \<in> set rows. page_row_ok cutoff ?r row" "\<forall>row \<in> set rows. page_row_ok cutoff r row"
    using Cons.prems by (simp_all add: page_row_ok_def)
  then show ?case
    using row Cons.IH by (auto simp: remove_missing_expiry_def List.map_filter_simps)
qed (simp add: List.map_filter_simps)

lemma fold_delete_eq: "fold map_delete ks m = filter (\<lambda>(k, v). k \<notin> set ks) m"
  by (induction ks arbitrary: m) (auto simp: AList.delete_eq case_prod_unfold intro: filter_cong)

text \<open>Taking legacy members out of the expiry set.\<close>

lemma legacy_cleaned_ok:
  assumes "models_ok r" "\<forall>k \<in> set ks. isLegacyVirtualMachineId k"
  shows "models_ok (r\<lparr>rh_expiry := fold map_delete ks (rh_expiry r)\<rparr>)"
proof -
  have get: "map_get (fold map_delete ks m) k = (if k \<in> set ks then None else map_get m k)" for m :: "(string, int) jsmap" and k
    by (induction ks arbitrary: m) auto
  have "distinct (map_keys (fold map_delete ks (rh_expiry r)))"
    using assms(1) by (simp add: models_ok_def hashes_wf_def fold_delete_eq distinct_map_filter)
  then have "hashes_wf (r\<lparr>rh_expiry := fold map_delete ks (rh_expiry r)\<rparr>)"
    using assms(1) unfolding models_ok_def hashes_wf_def stored_properly_def
    by (simp add: get del: map_of_eq_Some_iff)
  moreover have "isLegacyVirtualMachineId k \<or> row_ok (r\<lparr>rh_expiry := fold map_delete ks (rh_expiry r)\<rparr>) k" for k
  proof (cases "isLegacyVirtualMachineId k")
    case False
    then have "k \<notin> set ks" "row_ok r k"
      using assms by (auto simp: models_ok_def)
    then show ?thesis by (simp add: row_ok_def get split: option.splits stored_state.splits)
  qed simp
  ultimately show ?thesis by (simp add: models_ok_def)
qed

definition expired_state :: "int \<Rightarrow> realtime_hashes \<Rightarrow> DeviceRealtimeState \<Rightarrow> bool" where
  "expired_state cutoff r state \<longleftrightarrow>
     map_get (rh_device r) (state_id state) = Some (StateJson state) \<and> \<not> isLegacyVirtualMachineId (state_id state) \<and>
     rs_status state = Online \<and> lastSeen state \<le> cutoff"

definition due_entries :: "int \<Rightarrow> realtime_hashes \<Rightarrow> (string \<times> int) list" where
  "due_entries cutoff r = sort_by (\<lambda>(member, score). (score, member)) (filter (\<lambda>(member, score). score \<le> cutoff) (rh_expiry r))"

lemma expired_ids_due: "expired_ids cutoff limit r = map fst (take limit (due_entries cutoff r))"
  by (simp add: expired_ids_def due_entries_def)

lemma due_entry:
  assumes "models_ok r" "(k, t) \<in> set (due_entries cutoff r)"
  obtains state where "map_get (rh_device r) k = Some (StateJson state)" "state_id state = k" "t \<le> cutoff"
    "isLegacyVirtualMachineId k \<or> rs_status state = Online \<and> lastSeen state = t"
proof -
  have wf: "hashes_wf r" and rows: "isLegacyVirtualMachineId k \<or> row_ok r k"
    using assms(1) by (simp_all add: models_ok_def)
  have "(k, t) \<in> set (rh_expiry r)" and t: "t \<le> cutoff"
    using assms(2) by (auto simp: due_entries_def)
  then have get: "map_get (rh_expiry r) k = Some t"
    using wf by (simp add: hashes_wf_def)
  then obtain state where state: "map_get (rh_device r) k = Some (StateJson state)"
    using wf unfolding hashes_wf_def by blast
  moreover have "state_id state = k"
    using state wf by (simp add: hashes_wf_def stored_properly_def)
  moreover have "isLegacyVirtualMachineId k \<or> rs_status state = Online \<and> lastSeen state = t"
    using rows get state by (auto simp: row_ok_def split: if_splits)
  ultimately show ?thesis using that t by blast
qed

lemma due_complete: "models_ok r \<Longrightarrow> expired_state cutoff r state \<Longrightarrow> (state_id state, lastSeen state) \<in> set (due_entries cutoff r)"
  by (fastforce simp: models_ok_def row_ok_def expired_state_def due_entries_def dest: map_of_SomeD)

lemma due_distinct: "models_ok r \<Longrightarrow> distinct (map fst (due_entries cutoff r))"
  by (simp add: models_ok_def hashes_wf_def due_entries_def distinct_map_sort_by distinct_map_filter)

lemma due_sorted: "sorted (map snd (due_entries cutoff r))"
proof -
  have "sorted (map (\<lambda>(member, score). (score, member)) (due_entries cutoff r))"
    unfolding due_entries_def by (rule sorted_sort_by)
  then show ?thesis
    by (auto simp: sorted_map elim!: sorted_wrt_mono_rel [rotated])
qed

abbreviation page_rows :: "realtime_hashes \<Rightarrow> (string \<times> int) list \<Rightarrow> (string \<times> stored_state option) list" where
  "page_rows r es \<equiv> map (\<lambda>(k, t). (k, map_get (rh_device r) k)) es"

text \<open>The states of a page are those of its entries that are no legacy identifiers, with their times.\<close>

lemma page_states_due:
  assumes "models_ok r" "set es \<subseteq> set (due_entries cutoff r)"
  shows "map (\<lambda>state. (state_id state, lastSeen state)) (page_states (page_rows r es)) = filter (\<lambda>(k, t). \<not> isLegacyVirtualMachineId k) es \<and>
    (\<forall>state \<in> set (page_states (page_rows r es)). expired_state cutoff r state) \<and>
    (\<forall>row \<in> set (page_rows r es). page_row_ok cutoff r row)"
  using assms(2)
proof (induction es)
  case (Cons e es)
  obtain k t where e: "e = (k, t)" by force
  with Cons.prems obtain state where "map_get (rh_device r) k = Some (StateJson state)" "state_id state = k" "t \<le> cutoff"
    "isLegacyVirtualMachineId k \<or> rs_status state = Online \<and> lastSeen state = t"
    using due_entry [OF assms(1), of k t cutoff] by auto
  with Cons e show ?case
    by (auto simp: List.map_filter_simps expired_state_def page_row_ok_def)
qed (simp add: List.map_filter_simps)

text \<open>What one listing answers, whatever it cleans on the way.\<close>

definition listing_answer :: "int \<Rightarrow> nat \<Rightarrow> realtime_hashes \<Rightarrow> DeviceRealtimeState list \<Rightarrow> bool" where
  "listing_answer cutoff limit r states \<longleftrightarrow>
     length states \<le> limit \<and> distinct (map state_id states) \<and> sorted (map lastSeen states) \<and>
     (\<forall>state \<in> set states. expired_state cutoff r state) \<and>
     (\<forall>state. expired_state cutoff r state \<longrightarrow>
        state \<in> set states \<or> states \<noteq> [] \<and> (\<forall>listed \<in> set states. lastSeen listed \<le> lastSeen state))"

lemma expired_state_cong: "rh_device r' = rh_device r \<Longrightarrow> expired_state cutoff r' = expired_state cutoff r"
  by (simp add: expired_state_def fun_eq_iff)

lemma listing_answer_page:
  assumes ok: "models_ok r" and nonempty: "page_states (page_rows r (take limit (due_entries cutoff r))) \<noteq> []"
  shows "listing_answer cutoff limit r (page_states (page_rows r (take limit (due_entries cutoff r))))"
proof -
  let ?due = "due_entries cutoff r" and ?mark = "\<lambda>state. (state_id state, lastSeen state)"
  let ?states = "page_states (page_rows r (take limit ?due))"
  note all = page_states_due [OF ok set_take_subset, of limit cutoff]
  note page = all [THEN conjunct1] and sound = all [THEN conjunct2, THEN conjunct1]
  have "length ?states = length (map ?mark ?states)" by simp
  also have "\<dots> \<le> limit" unfolding page by (metis length_filter_le length_take min.bounded_iff order_trans order_refl)
  finally have len: "length ?states \<le> limit" .
  have fsts: "map state_id ?states = map fst (map ?mark ?states)" and snds: "map lastSeen ?states = map snd (map ?mark ?states)"
    by simp_all
  have dist: "distinct (map state_id ?states)"
    unfolding fsts page using due_distinct [OF ok, of cutoff] by (metis distinct_map_filter distinct_take take_map)
  have ord: "sorted (map lastSeen ?states)"
    unfolding snds page using due_sorted [of cutoff r] by (metis sorted_filter sorted_wrt_take take_map)
  have "state \<in> set ?states \<or> (\<forall>listed \<in> set ?states. lastSeen listed \<le> lastSeen state)" if "expired_state cutoff r state" for state
  proof -
    have mem: "?mark state \<in> set ?due" using due_complete [OF ok that] .
    show ?thesis
    proof (cases "?mark state \<in> set (take limit ?due)")
      case True
      then have "?mark state \<in> set (map ?mark ?states)"
        unfolding page using that by (simp add: expired_state_def)
      then obtain listed where "listed \<in> set ?states" "state_id listed = state_id state" by auto
      moreover have "map_get (rh_device r) (state_id listed) = Some (StateJson listed)"
        using sound calculation(1) by (simp add: expired_state_def)
      ultimately show ?thesis using that by (simp add: expired_state_def)
    next
      case False
      then have late: "?mark state \<in> set (drop limit ?due)"
        using mem by (metis UnE append_take_drop_id set_append)
      have "sorted (map snd (take limit ?due) @ map snd (drop limit ?due))"
        using due_sorted [of cutoff r] by (metis append_take_drop_id map_append)
      then have le: "snd x \<le> lastSeen state" if "x \<in> set (take limit ?due)" for x
        using that late by (fastforce simp: sorted_append)
      have "lastSeen listed \<le> lastSeen state" if "listed \<in> set ?states" for listed
      proof -
        have "?mark listed \<in> set (map ?mark ?states)" using that by auto
        then have "?mark listed \<in> set (take limit ?due)" unfolding page by auto
        from le [OF this] show ?thesis by simp
      qed
      then show ?thesis by blast
    qed
  qed
  with len dist ord sound nonempty show ?thesis by (simp add: listing_answer_def)
qed

lemma list_expired_answers:
  assumes "models_ok r" "1 \<le> limit"
  shows "\<exists>states r'. list_expired cutoff limit r = Some (Inr states, r') \<and> rh_device r' = rh_device r \<and> models_ok r' \<and>
    listing_answer cutoff limit r states"
  using assms(1)
proof (induction "length (rh_expiry r)" arbitrary: r rule: less_induct)
  case less
  let ?es = "take limit (due_entries cutoff r)"
  show ?case
  proof (cases "due_entries cutoff r = []")
    case True
    then have "list_expired cutoff limit r = Some (Inr [], r)"
      by (subst list_expired.simps) (simp add: expired_ids_due)
    moreover have "\<not> expired_state cutoff r state" for state
      using due_complete [OF less.prems] True by fastforce
    ultimately show ?thesis
      using less.prems by (simp add: listing_answer_def)
  next
    case False
    then have es: "?es \<noteq> []" using assms(2) by simp
    let ?rows = "page_rows r ?es"
    let ?ks = "filter isLegacyVirtualMachineId (map fst ?rows)"
    let ?r = "r\<lparr>rh_expiry := fold map_delete ?ks (rh_expiry r)\<rparr>"
    have rows: "map (\<lambda>k. (k, map_get (rh_device r) k)) (map fst ?es) = ?rows"
      by (simp add: case_prod_unfold comp_def)
    note all = page_states_due [OF less.prems set_take_subset, of limit cutoff]
    note page = all [THEN conjunct1] and ok = all [THEN conjunct2, THEN conjunct2]
    have expiry: "rh_expiry ?r = filter (\<lambda>(k, v). k \<notin> set ?ks) (rh_expiry r)"
      by (simp add: fold_delete_eq)
    have r: "models_ok ?r" by (rule legacy_cleaned_ok [OF less.prems]) simp
    have unfold: "list_expired cutoff limit r =
        (if page_states ?rows = [] then list_expired cutoff limit ?r else Some (Inr (page_states ?rows), ?r))"
      using es expired_page_eq [OF ok, of "[]"]
      by (subst list_expired.simps) (simp add: expired_ids_due rows split: list.split del: map_map)
    show ?thesis
    proof (cases "page_states ?rows = []")
      case False
      from False listing_answer_page [OF less.prems False] r show ?thesis by (simp add: unfold)
    next
      case True
      obtain e where e: "e \<in> set ?es" using hd_in_set [OF es] by blast
      have "filter (\<lambda>(k, t). \<not> isLegacyVirtualMachineId k) ?es = []"
        using page unfolding True by simp
      then have "isLegacyVirtualMachineId (fst e)"
        using e by (auto simp: filter_empty_conv case_prod_unfold)
      with e have "fst e \<in> set ?ks"
        by (force simp: case_prod_unfold)
      moreover have "e \<in> set (rh_expiry r)"
        using e by (auto simp: due_entries_def dest!: in_set_takeD)
      ultimately have "length (filter (\<lambda>(k, v). k \<notin> set ?ks) (rh_expiry r)) < length (rh_expiry r)"
        by (intro length_filter_less) (simp_all only: case_prod_unfold not_not)
      then have "length (rh_expiry ?r) < length (rh_expiry r)"
        by (simp only: expiry)
      from less.hyps [OF this r] show ?thesis
        by (simp add: unfold True listing_answer_def expired_state_def)
    qed
  qed
qed

subsection \<open>The properties\<close>

text \<open>
  C27: once the read models are marked as filled they agree with the device hash, and stay so, however the pages of the
  backfill interleave with samples, the offline scan, removals, the sweep, failures and restarts: the summaries are those
  of the stored devices, one each, and the expiry set holds exactly the online ones under the time they were last seen.
\<close>

theorem read_models_agree:
  assumes "reachable_models is_vm w" "rh_version (mr_hashes w)"
  shows "distinct (map sm_deviceId (redis_listSummaries (mr_hashes w))) \<and>
    set (redis_listSummaries (mr_hashes w)) = {summary_row state |state.
      map_get (rh_device (mr_hashes w)) (state_id state) = Some (StateJson state) \<and> \<not> isLegacyVirtualMachineId (state_id state)} \<and>
    (\<forall>k t. \<not> isLegacyVirtualMachineId k \<longrightarrow>
       (map_get (rh_expiry (mr_hashes w)) k = Some t \<longleftrightarrow>
        (\<exists>state. map_get (rh_device (mr_hashes w)) k = Some (StateJson state) \<and> rs_status state = Online \<and> t = lastSeen state)))"
proof -
  have ok: "models_ok (mr_hashes w)" by (rule reachable_filled [OF assms])
  have "map_get (rh_expiry (mr_hashes w)) k = Some t \<longleftrightarrow>
      (\<exists>state. map_get (rh_device (mr_hashes w)) k = Some (StateJson state) \<and> rs_status state = Online \<and> t = lastSeen state)"
    if "\<not> isLegacyVirtualMachineId k" for k t
  proof -
    have "row_ok (mr_hashes w) k" using ok that by (auto simp: models_ok_def)
    then show ?thesis by (auto simp: row_ok_def split: option.splits stored_state.splits if_splits)
  qed
  then show ?thesis using summaries_listed [OF ok] by blast
qed

definition demo_online :: DeviceRealtimeState where
  "demo_online = \<lparr>rs_identity = demo_identity, rs_status = Online, rs_lastSeenAt = toISOString 60000, rs_latest = demo_payload 60000\<rparr>"

definition demo_hashes :: realtime_hashes where
  "demo_hashes = \<lparr>rh_device = [(state_id demo_online, StateJson demo_online)], rh_summary = [], rh_expiry = [], rh_version = False\<rparr>"

definition demo_filled :: models_run where
  "demo_filled = \<lparr>mr_hashes = (set_models (state_id demo_online) (summary_row demo_online) Online 60000 demo_hashes)\<lparr>rh_version := True\<rparr>,
     mr_phase = Ready, mr_sweep = []\<rparr>"

lemma demo_online_facts:
  "lastSeen demo_online = 60000" "rs_status demo_online = Online" "\<not> isLegacyVirtualMachineId (state_id demo_online)"
  by (simp_all add: lastSeen_def demo_online_def Date_parse_demo state_id_def demo_identity_def isLegacyVirtualMachineId_def LEGACY_VM_PREFIX_def)

lemma demo_filled_reachable: "reachable_models (\<lambda>_. False) demo_filled"
proof -
  let ?k = "state_id demo_online" and ?raw = "StateJson demo_online"
  let ?w = "\<lambda>phase. \<lparr>mr_hashes = demo_hashes, mr_phase = phase, mr_sweep = []\<rparr>"
  let ?r = "set_models ?k (summary_row demo_online) Online 60000 demo_hashes"
  have "reachable_models (\<lambda>_. False) (?w Idle)"
    by (rule reachable_models.started) (auto simp: demo_hashes_def stored_properly_def)
  moreover have "models_step (\<lambda>_. False) (?w Idle) (?w (Scanning {?k} [] False))"
    using models_step.begun [of "?w Idle" "\<lambda>_. False"] by (simp add: begin_backfill_def demo_hashes_def)
  moreover have "models_step (\<lambda>_. False) (?w (Scanning {?k} [] False)) (?w (Scanning {} [(?k, ?raw)] True))"
    using models_step.page_read [of "?w (Scanning {?k} [] False)" "{?k}" "[(?k, ?raw)]" True "\<lambda>_. False"] by (simp add: demo_hashes_def)
  moreover have "models_step (\<lambda>_. False) (?w (Scanning {} [(?k, ?raw)] True)) \<lparr>mr_hashes = ?r, mr_phase = Scanning {} [] True, mr_sweep = []\<rparr>"
    using models_step.entry_filled [of "?w (Scanning {} [(?k, ?raw)] True)" "{}" "(?k, ?raw)" "[]" True ?r "\<lambda>_. False"]
    by (simp add: backfill_entry_def backfill_script_def demo_online_facts) (simp add: demo_hashes_def)
  moreover have "models_step (\<lambda>_. False) \<lparr>mr_hashes = ?r, mr_phase = Scanning {} [] True, mr_sweep = []\<rparr> demo_filled"
    using models_step.filled [of "\<lparr>mr_hashes = ?r, mr_phase = Scanning {} [] True, mr_sweep = []\<rparr>" "{}" "\<lambda>_. False"]
    by (simp add: demo_filled_def)
  ultimately show ?thesis by (blast intro: reachable_models.stepped)
qed

lemma demo_filled_version: "rh_version (mr_hashes demo_filled)"
  by (simp add: demo_filled_def)

theorem read_models_agree_witness:
  "map_get (rh_expiry (mr_hashes demo_filled)) (state_id demo_online) = Some 60000 \<and>
   summary_row demo_online \<in> set (redis_listSummaries (mr_hashes demo_filled))"
  using read_models_agree [OF demo_filled_reachable demo_filled_version] demo_online_facts
  by (auto simp: demo_filled_def set_models_def demo_hashes_def)

text \<open>
  C34: on read models that are filled the listing of expired devices ends, within its limit, with online devices not seen
  since the cutoff, each once and the longest silent first; none that is overdue is passed over for one seen later, and an
  empty answer means that none is overdue.  Without the agreement of the read models the loop need not end.
\<close>

theorem expired_listing_ends:
  assumes "reachable_models is_vm w" "rh_version (mr_hashes w)" "1 \<le> limit" "limit \<le> 1024"
  shows "\<exists>states r'. redis_listExpired cutoff limit (mr_hashes w) = Some (Inr states, r') \<and> rh_device r' = rh_device (mr_hashes w) \<and>
    listing_answer cutoff (nat limit) (mr_hashes w) states"
proof -
  have "1 \<le> nat limit" using assms(3) by simp
  from list_expired_answers [OF reachable_filled [OF assms(1,2)] this] show ?thesis
    using assms(3,4) by (simp add: redis_listExpired_def) metis
qed

theorem expired_listing_ends_witness:
  "\<exists>state states r'. redis_listExpired 60000 128 (mr_hashes demo_filled) = Some (Inr (state # states), r')"
proof -
  have "expired_state 60000 (mr_hashes demo_filled) demo_online"
    by (simp add: expired_state_def demo_online_facts demo_filled_def set_models_def demo_hashes_def)
  moreover obtain states r' where answer: "redis_listExpired 60000 128 (mr_hashes demo_filled) = Some (Inr states, r')"
    "listing_answer 60000 (nat 128) (mr_hashes demo_filled) states"
    using expired_listing_ends [OF demo_filled_reachable demo_filled_version, of 128 60000] by auto
  ultimately have "states \<noteq> []" unfolding listing_answer_def by fastforce
  with answer(1) show ?thesis by (cases states) auto
qed

text \<open>Where a page has only entries that are neither expired nor cleaned, the loop reads it for ever.\<close>

definition stuck :: "int \<Rightarrow> nat \<Rightarrow> realtime_hashes \<Rightarrow> bool" where
  "stuck cutoff limit r \<longleftrightarrow> expired_ids cutoff limit r \<noteq> [] \<and>
     expired_page cutoff (map (\<lambda>deviceId. (deviceId, map_get (rh_device r) deviceId)) (expired_ids cutoff limit r)) [] r = (Inr [], r)"

lemma stuck_never_ends: "stuck cutoff limit r \<Longrightarrow> list_expired cutoff limit r = None"
proof -
  have "\<not> stuck cutoff limit r" if "list_expired cutoff limit r = Some res" for res
    by (rule list_expired.raw_induct [of "\<lambda>cutoff limit r _. \<not> stuck cutoff limit r", OF _ that]) (fastforce simp: stuck_def Let_def)
  then show "stuck cutoff limit r \<Longrightarrow> list_expired cutoff limit r = None"
    by (cases "list_expired cutoff limit r") auto
qed

text \<open>An entry whose time of last sight was written without its score is enough.\<close>

lemma stale_score_stuck:
  "list_expired 60000 1 (set_models (state_id demo_online) (summary_row demo_online) Online 50000
     \<lparr>rh_device = [(state_id demo_online, StateJson (demo_online\<lparr>rs_lastSeenAt := toISOString 70000\<rparr>))], rh_summary = [], rh_expiry = [], rh_version = True\<rparr>) = None"
  by (rule stuck_never_ends)
    (simp add: stuck_def expired_ids_def set_models_def sort_by_def lastSeen_def Date_parse_demo demo_online_def state_id_def
      demo_identity_def isLegacyVirtualMachineId_def LEGACY_VM_PREFIX_def)

text \<open>The sweep writes a state back although the device was removed, or reported again, since it was listed.\<close>

lemma sweep_resurrects:
  assumes "mr_sweep w = state # states" "\<not> isLegacyVirtualMachineId (state_id state)" "\<not> is_vm state"
  shows "\<exists>w1 w2. models_step is_vm w w1 \<and> map_get (rh_device (mr_hashes w1)) (state_id state) = None \<and>
    models_step is_vm w1 w2 \<and> map_get (rh_device (mr_hashes w2)) (state_id state) = Some (StateJson state)"
proof (intro exI conjI)
  let ?w1 = "do_remove (state_id state) w"
  show "models_step is_vm w ?w1" by (rule models_step.removed)
  show "map_get (rh_device (mr_hashes ?w1)) (state_id state) = None" by (simp add: do_remove_def remove_state_def)
  show "models_step is_vm ?w1 ((sweep_state is_vm state ?w1)\<lparr>mr_sweep := states\<rparr>)"
    by (rule models_step.swept) (simp add: do_remove_def assms(1))
  show "map_get (rh_device (mr_hashes ((sweep_state is_vm state ?w1)\<lparr>mr_sweep := states\<rparr>))) (state_id state) = Some (StateJson state)"
    using assms(2,3) by (simp add: sweep_state_def redis_upsert_def write_state_def set_models_def)
qed

lemma sweep_overwrites:
  assumes "mr_sweep w = state # states" "\<not> isLegacyVirtualMachineId (state_id state)" "\<not> is_vm state" "state_id newer = state_id state"
  shows "\<exists>w1 w2. models_step is_vm w w1 \<and> map_get (rh_device (mr_hashes w1)) (state_id state) = Some (StateJson newer) \<and>
    models_step is_vm w1 w2 \<and> map_get (rh_device (mr_hashes w2)) (state_id state) = Some (StateJson state)"
proof (intro exI conjI)
  let ?w1 = "w\<lparr>mr_hashes := redis_upsert newer (mr_hashes w)\<rparr>"
  show "models_step is_vm w ?w1" by (rule models_step.upserted)
  show "map_get (rh_device (mr_hashes ?w1)) (state_id state) = Some (StateJson newer)"
    by (simp add: redis_upsert_def write_state_def set_models_def assms(4))
  show "models_step is_vm ?w1 ((sweep_state is_vm state ?w1)\<lparr>mr_sweep := states\<rparr>)"
    by (rule models_step.swept) (simp add: assms(1))
  show "map_get (rh_device (mr_hashes ((sweep_state is_vm state ?w1)\<lparr>mr_sweep := states\<rparr>))) (state_id state) = Some (StateJson state)"
    using assms(2,3) by (simp add: sweep_state_def redis_upsert_def write_state_def set_models_def)
qed

end
