(* ===== verification/Uri.thy ===== *)
theory Uri
  imports Js_Text
begin

text \<open>
  \<open>encodeURIComponent\<close> and \<open>decodeURIComponent\<close> of ECMA-262, on texts as their UTF-8 bytes, with the round trip.  A text
  that comes from a JavaScript string without lone surrogates is well-formed UTF-8, \<open>utf8_text\<close>.
\<close>

definition byte_of :: "char \<Rightarrow> nat" where
  "byte_of c = of_char c"

lemma byte_of_less: "byte_of c < 256"
  by (simp add: byte_of_def)

lemma char_of_byte_of [simp]: "char_of (byte_of c) = c"
  by (simp add: byte_of_def)

definition hex_digit :: "nat \<Rightarrow> char" where
  "hex_digit k = char_of (if k < 10 then 48 + k else 55 + k)"

definition hex_val :: "char \<Rightarrow> nat option" where
  "hex_val c =
     (let k = byte_of c
      in if 48 \<le> k \<and> k \<le> 57 then Some (k - 48)
         else if 65 \<le> k \<and> k \<le> 70 then Some (k - 55)
         else if 97 \<le> k \<and> k \<le> 102 then Some (k - 87) else None)"

definition unreserved :: "char \<Rightarrow> bool" where
  "unreserved c \<longleftrightarrow>
     (let k = byte_of c in (65 \<le> k \<and> k \<le> 90) \<or> (97 \<le> k \<and> k \<le> 122) \<or> (48 \<le> k \<and> k \<le> 57)) \<or> c \<in> set ''-_.!~*()'' \<or> byte_of c = 39"

definition escape :: "char \<Rightarrow> string" where
  "escape c = [CHR ''%'', hex_digit (byte_of c div 16), hex_digit (byte_of c mod 16)]"

definition encodeURIComponent :: "string \<Rightarrow> string" where
  "encodeURIComponent s = concat (map (\<lambda>c. if unreserved c then [c] else escape c) s)"

text \<open>Length of a code point by its first byte, and the ranges of well-formed sequences.\<close>

definition utf8_len :: "char \<Rightarrow> nat" where
  "utf8_len c =
     (let b = byte_of c in if b < 128 then 1 else if 194 \<le> b \<and> b \<le> 223 then 2 else if 224 \<le> b \<and> b \<le> 239 then 3
      else if 240 \<le> b \<and> b \<le> 244 then 4 else 0)"

definition continuation :: "char \<Rightarrow> bool" where
  "continuation c \<longleftrightarrow> 128 \<le> byte_of c \<and> byte_of c \<le> 191"

definition utf8_point :: "char \<Rightarrow> string \<Rightarrow> bool" where
  "utf8_point c cs \<longleftrightarrow> utf8_len c = Suc (length cs) \<and> list_all continuation cs \<and>
     (case cs of [] \<Rightarrow> True
      | d # _ \<Rightarrow> (byte_of c = 224 \<longrightarrow> 160 \<le> byte_of d) \<and> (byte_of c = 237 \<longrightarrow> byte_of d \<le> 159) \<and>
          (byte_of c = 240 \<longrightarrow> 144 \<le> byte_of d) \<and> (byte_of c = 244 \<longrightarrow> byte_of d \<le> 143))"

function utf8_text :: "string \<Rightarrow> bool" where
  "utf8_text [] = True"
| "utf8_text (c # s) = (utf8_len c \<noteq> 0 \<and> utf8_point c (take (utf8_len c - 1) s) \<and> utf8_text (drop (utf8_len c - 1) s))"
  by pat_completeness auto
termination by (relation "measure length") auto

text \<open>\<open>n\<close> escaped bytes, \<open>%XX\<close> each.\<close>

fun read_escapes :: "nat \<Rightarrow> string \<Rightarrow> (string \<times> string) option" where
  "read_escapes 0 s = Some ([], s)"
| "read_escapes (Suc n) (p # h # l # s) =
     (if p = CHR ''%'' then
        (case (hex_val h, hex_val l) of
           (Some a, Some b) \<Rightarrow> map_option (\<lambda>(bs, r). (char_of (16 * a + b) # bs, r)) (read_escapes n s)
         | _ \<Rightarrow> None)
      else None)"
| "read_escapes (Suc n) s = None"

lemma read_escapes_length: "read_escapes n s = Some (bs, r) \<Longrightarrow> length r \<le> length s \<and> (0 < n \<longrightarrow> length r < length s)"
  by (induction n s arbitrary: bs r rule: read_escapes.induct) (fastforce split: if_splits option.splits)+

text \<open>\<open>decodeURIComponent\<close>; \<open>None\<close> is the \<open>URIError\<close>.\<close>

function decodeURIComponent :: "string \<Rightarrow> string option" where
  "decodeURIComponent [] = Some []"
| "decodeURIComponent (c # s) =
     (if c \<noteq> CHR ''%'' then map_option ((#) c) (decodeURIComponent s)
      else case read_escapes 1 (c # s) of
             Some ([b], r) \<Rightarrow>
               (case read_escapes (utf8_len b - 1) r of
                  None \<Rightarrow> None
                | Some (bs, r') \<Rightarrow> if utf8_point b bs then map_option ((@) (b # bs)) (decodeURIComponent r') else None)
           | _ \<Rightarrow> None)"
  by pat_completeness auto
termination
  by (relation "measure length") (auto dest!: read_escapes_length simp del: read_escapes.simps)

declare decodeURIComponent.simps(2) [simp del]

subsection \<open>The round trip\<close>

lemma hex_val_digit [simp]: "k < 16 \<Longrightarrow> hex_val (hex_digit k) = Some k"
  by (simp add: hex_val_def hex_digit_def byte_of_def Let_def)

lemma read_escape: "read_escapes (Suc n) (escape c @ s) = map_option (\<lambda>(bs, r). (c # bs, r)) (read_escapes n s)"
  using byte_of_less [of c] by (simp add: escape_def less_mult_imp_div_less)

lemma unreserved_ascii: "unreserved c \<Longrightarrow> byte_of c < 128"
  by (auto simp: unreserved_def byte_of_def Let_def)

lemma unreserved_plain: "unreserved c \<Longrightarrow> c \<noteq> CHR ''%'' \<and> c \<noteq> CHR ''/'' \<and> c \<noteq> CHR ''#''"
  by (auto simp: unreserved_def byte_of_def Let_def)

lemma continuation_escaped: "continuation c \<Longrightarrow> \<not> unreserved c"
  using unreserved_ascii [of c] by (auto simp: continuation_def)

lemma encode_Cons: "encodeURIComponent (c # s) = (if unreserved c then [c] else escape c) @ encodeURIComponent s"
  by (simp add: encodeURIComponent_def)

lemma encode_append: "encodeURIComponent (s @ t) = encodeURIComponent s @ encodeURIComponent t"
  by (simp add: encodeURIComponent_def)

lemma read_encoded_tail: "list_all continuation cs \<Longrightarrow> read_escapes (length cs) (encodeURIComponent cs @ t) = Some (cs, t)"
  by (induction cs) (simp_all add: encode_Cons continuation_escaped read_escape encodeURIComponent_def [of "[]"])

lemma decode_point:
  assumes "utf8_point c cs"
  shows "decodeURIComponent (encodeURIComponent (c # cs) @ t) = map_option ((@) (c # cs)) (decodeURIComponent t)"
proof (cases "unreserved c")
  case True
  then have "utf8_len c = 1" using unreserved_ascii by (simp add: utf8_len_def)
  then have "cs = []" using assms by (simp add: utf8_point_def)
  then show ?thesis
    using True unreserved_plain [OF True]
    by (cases "decodeURIComponent t") (simp_all add: encode_Cons encodeURIComponent_def [of "[]"] decodeURIComponent.simps(2))
next
  case False
  have 1: "read_escapes (Suc 0) (escape c @ u) = Some ([c], u)" for u
    by (simp add: read_escape)
  have 2: "read_escapes (utf8_len c - 1) (encodeURIComponent cs @ t) = Some (cs, t)"
    using assms read_encoded_tail [of cs t] by (simp add: utf8_point_def)
  have 3: "escape c @ u = CHR ''%'' # tl (escape c @ u)" for u
    by (simp add: escape_def)
  have "decodeURIComponent (escape c @ u) =
      (case read_escapes (Suc 0) (escape c @ u) of
         Some ([b], r) \<Rightarrow>
           (case read_escapes (utf8_len b - 1) r of
              None \<Rightarrow> None
            | Some (bs, r') \<Rightarrow> if utf8_point b bs then map_option ((@) (b # bs)) (decodeURIComponent r') else None)
       | _ \<Rightarrow> None)" for u
    by (subst 3, subst decodeURIComponent.simps(2), subst 3 [symmetric]) simp
  then show ?thesis
    using False 2 assms by (simp add: encode_Cons 1)
qed

lemma decode_encode: "utf8_text s \<Longrightarrow> decodeURIComponent (encodeURIComponent s) = Some s"
proof (induction s rule: utf8_text.induct)
  case (2 c s)
  let ?n = "utf8_len c - 1"
  have "encodeURIComponent (c # s) = encodeURIComponent (c # take ?n s) @ encodeURIComponent (drop ?n s)"
    by (simp flip: encode_append)
  then show ?case
    using 2 by (simp add: decode_point)
qed (simp add: encodeURIComponent_def)

lemma encoded_plain: "c \<in> set (encodeURIComponent s) \<Longrightarrow> c \<noteq> CHR ''/'' \<and> c \<noteq> CHR ''#''"
proof -
  assume "c \<in> set (encodeURIComponent s)"
  then obtain x where x: "c \<in> set (if unreserved x then [x] else escape x)"
    unfolding encodeURIComponent_def set_concat set_map by blast
  have hex: "k < 16 \<Longrightarrow> hex_digit k \<noteq> CHR ''/'' \<and> hex_digit k \<noteq> CHR ''#''" for k
    using hex_val_digit [of k] by (auto simp: hex_val_def byte_of_def)
  show ?thesis
    using x unreserved_plain [of x] hex [of "byte_of x div 16"] hex [of "byte_of x mod 16"] byte_of_less [of x]
    by (auto simp: escape_def less_mult_imp_div_less split: if_splits)
qed

lemma encode_Nil_iff [simp]: "encodeURIComponent s = [] \<longleftrightarrow> s = []"
  by (cases s) (auto simp: encodeURIComponent_def escape_def)

end
