(* ===== verification/Console_Routes.thy ===== *)
theory Console_Routes
  imports Uri
begin

text \<open>
  The addresses of the console: \<open>packages/console-ui/src/workspace/routes.ts\<close>.  The table of retired section names is read
  by own property, as all plain objects of the development are.
\<close>

datatype SettingsSection = General | Appearance | Connections | Data | Shortcuts | About

datatype DeviceLiveView = ProcessesView | ContainersView

datatype WorkspaceRoute =
    OverviewRoute "string option"
  | DevicesRoute "string option"
  | DeviceRoute string "DeviceLiveView option"
  | SettingsRoute SettingsSection

definition defaultRoute :: WorkspaceRoute where
  "defaultRoute = OverviewRoute None"

definition settingsSections :: "(string \<times> SettingsSection) list" where
  "settingsSections = [(''general'', General), (''appearance'', Appearance), (''connections'', Connections), (''data'', Data),
     (''shortcuts'', Shortcuts), (''about'', About)]"

definition legacySettingsSections :: "(string, SettingsSection) jsmap" where
  "legacySettingsSections = [(''workspace'', General), (''session'', Connections), (''agent'', Connections)]"

definition deviceLiveViews :: "(string \<times> DeviceLiveView) list" where
  "deviceLiveViews = [(''processes'', ProcessesView), (''containers'', ContainersView)]"

primrec section_name :: "SettingsSection \<Rightarrow> string" where
  "section_name General = ''general''"
| "section_name Appearance = ''appearance''"
| "section_name Connections = ''connections''"
| "section_name Data = ''data''"
| "section_name Shortcuts = ''shortcuts''"
| "section_name About = ''about''"

primrec view_name :: "DeviceLiveView \<Rightarrow> string" where
  "view_name ProcessesView = ''processes''"
| "view_name ContainersView = ''containers''"

definition decodeSegment :: "string \<Rightarrow> string option" where
  "decodeSegment s = decodeURIComponent s"

definition normalizeRouteGroup :: "string option \<Rightarrow> string option" where
  "normalizeRouteGroup v =
     (case v of None \<Rightarrow> None | Some t \<Rightarrow> let trimmed = trim t in if trimmed \<noteq> [] \<and> trimmed \<noteq> ''all'' then Some trimmed else None)"

text \<open>\<open>text.replace(/^c/, "")\<close>.\<close>

definition strip_first :: "char \<Rightarrow> string \<Rightarrow> string" where
  "strip_first c s = (case s of [] \<Rightarrow> [] | x # r \<Rightarrow> if x = c then r else s)"

text \<open>A segment that is present and not empty, decoded.\<close>

definition decoded :: "string option \<Rightarrow> string option" where
  "decoded raw = (if truthy raw then decodeSegment (the raw) else None)"

definition parseWorkspaceHash :: "string \<Rightarrow> WorkspaceRoute" where
  "parseWorkspaceHash hash =
     (let v = strip_first (CHR ''/'') (strip_first (CHR ''#'') hash)
      in if v = ''devices'' then DevicesRoute None
         else if v = ''overview'' \<or> v = [] then defaultRoute
         else
           let parts = split_on (CHR ''/'') v;
               kind = parts ! 0;
               rawId = (if length parts > 1 then Some (parts ! 1) else None);
               rawView = (if length parts > 2 then Some (parts ! 2) else None);
               ident = decoded rawId
           in if kind = ''devices'' then
                (case normalizeRouteGroup (if rawId = Some ''group'' then decoded rawView else ident) of
                   Some gr \<Rightarrow> DevicesRoute (Some gr) | None \<Rightarrow> DevicesRoute None)
              else if kind = ''overview'' then
                (case normalizeRouteGroup (if rawId = Some ''group'' then decoded rawView else None) of
                   Some gr \<Rightarrow> OverviewRoute (Some gr) | None \<Rightarrow> defaultRoute)
              else if kind = ''device'' \<and> truthy ident then
                DeviceRoute (the ident) (if truthy rawView then map_of deviceLiveViews (the rawView) else None)
              else if kind = ''hub'' then defaultRoute
              else if kind = ''settings'' then
                (if truthy ident \<and> map_of settingsSections (the ident) \<noteq> None then SettingsRoute (the (map_of settingsSections (the ident)))
                 else if truthy ident \<and> map_get legacySettingsSections (the ident) \<noteq> None
                 then SettingsRoute (the (map_get legacySettingsSections (the ident)))
                 else if \<not> truthy ident then SettingsRoute General
                 else defaultRoute)
              else defaultRoute)"

definition serializeWorkspaceRoute :: "WorkspaceRoute \<Rightarrow> string" where
  "serializeWorkspaceRoute route =
     (case route of
        DevicesRoute g \<Rightarrow>
          (case normalizeRouteGroup g of Some gr \<Rightarrow> ''#devices/group/'' @ encodeURIComponent gr | None \<Rightarrow> ''#devices'')
      | DeviceRoute deviceId view \<Rightarrow>
          ''#device/'' @ encodeURIComponent deviceId @ (case view of None \<Rightarrow> [] | Some w \<Rightarrow> ''/'' @ view_name w)
      | SettingsRoute section \<Rightarrow> ''#settings/'' @ section_name section
      | OverviewRoute g \<Rightarrow>
          (case normalizeRouteGroup g of Some gr \<Rightarrow> ''#overview/group/'' @ encodeURIComponent gr | None \<Rightarrow> ''#overview''))"

subsection \<open>Every page has an address that leads back to it\<close>

text \<open>The pages the console can show: device identifiers and group names are texts, identifiers not empty.\<close>

definition group_ok :: "string option \<Rightarrow> bool" where
  "group_ok g \<longleftrightarrow> (case normalizeRouteGroup g of None \<Rightarrow> True | Some t \<Rightarrow> utf8_text t)"

primrec route_ok :: "WorkspaceRoute \<Rightarrow> bool" where
  "route_ok (OverviewRoute g) = group_ok g"
| "route_ok (DevicesRoute g) = group_ok g"
| "route_ok (DeviceRoute deviceId view) = (deviceId \<noteq> [] \<and> utf8_text deviceId)"
| "route_ok (SettingsRoute section) = True"

primrec canonical_route :: "WorkspaceRoute \<Rightarrow> WorkspaceRoute" where
  "canonical_route (OverviewRoute g) = OverviewRoute (normalizeRouteGroup g)"
| "canonical_route (DevicesRoute g) = DevicesRoute (normalizeRouteGroup g)"
| "canonical_route (DeviceRoute deviceId view) = DeviceRoute deviceId view"
| "canonical_route (SettingsRoute section) = SettingsRoute section"

lemma dropWhile_id: "(xs \<noteq> [] \<Longrightarrow> \<not> P (hd xs)) \<Longrightarrow> dropWhile P xs = xs"
  by (cases xs) auto

lemma trim_trim [simp]: "trim (trim s) = trim s"
proof -
  let ?a = "dropWhile is_space s"
  let ?b = "dropWhile is_space (rev ?a)"
  have "\<not> is_space (hd (rev ?b))" if "rev ?b \<noteq> []"
  proof -
    obtain p where p: "?a = rev ?b @ p"
      by (metis rev_append rev_rev_ident takeWhile_dropWhile_id)
    then have "hd ?a = hd (rev ?b)" using that by (metis hd_append2)
    moreover have "?a \<noteq> []" using that by (auto simp del: dropWhile_eq_Nil_conv)
    ultimately show ?thesis using hd_dropWhile [of is_space s] by simp
  qed
  then have "dropWhile is_space (rev ?b) = rev ?b"
    by (rule dropWhile_id)
  then show ?thesis
    by (simp add: trim_def)
qed

lemma normalizeRouteGroup_idem: "normalizeRouteGroup g = Some t \<Longrightarrow> normalizeRouteGroup (Some t) = Some t \<and> t \<noteq> []"
  by (auto simp: normalizeRouteGroup_def Let_def split: option.splits if_splits)

lemma split_encoded: "split_on (CHR ''/'') (encodeURIComponent s) = [encodeURIComponent s]"
  by (rule split_on_single) (auto dest: encoded_plain)

lemma split_encoded_view: "split_on (CHR ''/'') (encodeURIComponent s @ CHR ''/'' # r) = encodeURIComponent s # split_on (CHR ''/'') r"
  by (rule split_on_append) (auto dest: encoded_plain)

lemma decoded_encoded: "s \<noteq> [] \<Longrightarrow> utf8_text s \<Longrightarrow> decoded (Some (encodeURIComponent s)) = Some s"
  by (simp add: decoded_def decodeSegment_def decode_encode)

lemma parse_group_route:
  assumes "normalizeRouteGroup g = Some t" "utf8_text t"
  shows "parseWorkspaceHash (''#devices/group/'' @ encodeURIComponent t) = DevicesRoute (Some t)"
    and "parseWorkspaceHash (''#overview/group/'' @ encodeURIComponent t) = OverviewRoute (Some t)"
  using assms normalizeRouteGroup_idem [OF assms(1)]
  by (simp_all add: parseWorkspaceHash_def strip_first_def split_encoded decoded_encoded Let_def)

lemma view_names: "map_of deviceLiveViews (view_name w) = Some w" "view_name w \<noteq> []" "CHR ''/'' \<notin> set (view_name w)"
  by (cases w; simp add: deviceLiveViews_def)+

lemma parse_device_route:
  assumes "deviceId \<noteq> []" "utf8_text deviceId"
  shows "parseWorkspaceHash (''#device/'' @ encodeURIComponent deviceId @ (case view of None \<Rightarrow> [] | Some w \<Rightarrow> ''/'' @ view_name w))
    = DeviceRoute deviceId view"
proof (cases view)
  case None
  then show ?thesis
    using assms by (simp add: parseWorkspaceHash_def strip_first_def split_encoded decoded_encoded Let_def)
next
  case (Some w)
  have "split_on (CHR ''/'') (view_name w) = [view_name w]"
    by (rule split_on_single) (rule view_names)
  then show ?thesis
    using assms Some view_names [of w]
    by (simp add: parseWorkspaceHash_def strip_first_def split_encoded_view decoded_encoded Let_def)
qed

text \<open>
  C38: the address the console writes for a page leads back to that page, whatever the characters of the device identifier
  or the group name; a group name is trimmed, and the name \<open>all\<close> and an empty one mean no group.
\<close>

theorem route_roundtrip:
  assumes "route_ok route"
  shows "parseWorkspaceHash (serializeWorkspaceRoute route) = canonical_route route"
proof (cases route)
  case (OverviewRoute g)
  have "parseWorkspaceHash ''#overview'' = OverviewRoute None"
    by (simp add: parseWorkspaceHash_def strip_first_def defaultRoute_def)
  then show ?thesis
    using assms OverviewRoute parse_group_route(2)
    by (cases "normalizeRouteGroup g") (simp_all add: serializeWorkspaceRoute_def group_ok_def)
next
  case (DevicesRoute g)
  have "parseWorkspaceHash ''#devices'' = DevicesRoute None"
    by (simp add: parseWorkspaceHash_def strip_first_def)
  then show ?thesis
    using assms DevicesRoute parse_group_route(1)
    by (cases "normalizeRouteGroup g") (simp_all add: serializeWorkspaceRoute_def group_ok_def)
next
  case (DeviceRoute deviceId view)
  then show ?thesis
    using assms parse_device_route by (simp add: serializeWorkspaceRoute_def)
next
  case (SettingsRoute sec)
  have "parseWorkspaceHash (''#settings/'' @ section_name sec) = SettingsRoute sec"
    by (cases sec; simp only: section_name.simps; code_simp)
  then show ?thesis
    using SettingsRoute by (simp add: serializeWorkspaceRoute_def)
qed

theorem route_roundtrip_witness:
  "parseWorkspaceHash (serializeWorkspaceRoute (DeviceRoute ''rack/1 #2%'' (Some ProcessesView))) = DeviceRoute ''rack/1 #2%'' (Some ProcessesView)
   \<and> serializeWorkspaceRoute (DeviceRoute ''rack/1 #2%'' (Some ProcessesView)) = ''#device/rack%2F1%20%232%25/processes''"
proof -
  have "route_ok (DeviceRoute ''rack/1 #2%'' (Some ProcessesView))"
    by code_simp
  from route_roundtrip [OF this] have "parseWorkspaceHash (serializeWorkspaceRoute (DeviceRoute ''rack/1 #2%'' (Some ProcessesView)))
      = DeviceRoute ''rack/1 #2%'' (Some ProcessesView)" by simp
  moreover have "serializeWorkspaceRoute (DeviceRoute ''rack/1 #2%'' (Some ProcessesView)) = ''#device/rack%2F1%20%232%25/processes''"
    by code_simp
  ultimately show ?thesis by simp
qed

text \<open>Addresses that have no page of their own open the overview, retired names open the page that replaced them.\<close>

lemma retired_addresses:
  "parseWorkspaceHash ''#hub'' = OverviewRoute None" "parseWorkspaceHash ''#settings'' = SettingsRoute General"
  "parseWorkspaceHash ''#settings/agent'' = SettingsRoute Connections" "parseWorkspaceHash ''#device/%E0%A4%A'' = OverviewRoute None"
  by code_simp+

end
