(* ===== verification/Console_Health.thy ===== *)
theory Console_Health
  imports Js_Text
begin

text \<open>
  What the console makes of the device summaries: \<open>packages/console-ui/src/workspace/health.ts\<close>, \<open>selectors.ts\<close> and
  \<open>deviceOrderDraft.ts\<close>.  The words shown to the user are left out.  \<open>localeCompare\<close> is the order of a key into the
  rationals; the texts of a search are ASCII.  What \<open>JSON.parse\<close> makes of the stored thresholds is the input of
  \<open>parseThresholds\<close>: nothing, or for every resource the numbers found.
\<close>

datatype HealthSeverity = Critical | Warning

datatype ThresholdMetric = CpuMetric | MemoryMetric | DiskMetric | GpuMetric

record ThresholdRule =
  th_warning :: num
  th_critical :: num

type_synonym HealthThresholds = "ThresholdMetric \<Rightarrow> ThresholdRule"

primrec DEFAULT_HEALTH_THRESHOLDS :: HealthThresholds where
  "DEFAULT_HEALTH_THRESHOLDS CpuMetric = \<lparr>th_warning = 90, th_critical = 98\<rparr>"
| "DEFAULT_HEALTH_THRESHOLDS MemoryMetric = \<lparr>th_warning = 90, th_critical = 97\<rparr>"
| "DEFAULT_HEALTH_THRESHOLDS DiskMetric = \<lparr>th_warning = 85, th_critical = 95\<rparr>"
| "DEFAULT_HEALTH_THRESHOLDS GpuMetric = \<lparr>th_warning = 95, th_critical = 99\<rparr>"

definition THRESHOLD_METRICS :: "ThresholdMetric list" where
  "THRESHOLD_METRICS = [CpuMetric, MemoryMetric, DiskMetric, GpuMetric]"

primrec METRIC_KEYS :: "ThresholdMetric \<Rightarrow> DeviceMetricKey" where
  "METRIC_KEYS CpuMetric = CpuUsage"
| "METRIC_KEYS MemoryMetric = MemoryUsage"
| "METRIC_KEYS DiskMetric = DiskUsage"
| "METRIC_KEYS GpuMetric = GpuUsage"

text \<open>\<open>kind\<close>: \<open>None\<close> is an offline device.\<close>

record DeviceIssue =
  is_deviceId :: string
  is_hostname :: string
  is_kind :: "ThresholdMetric option"
  is_severity :: HealthSeverity
  is_value :: "num option"
  is_threshold :: "num option"
  is_since :: "string option"

primrec metric_reading :: "ThresholdMetric \<Rightarrow> DeviceSummary \<Rightarrow> num option" where
  "metric_reading CpuMetric d = sm_cpuUsagePercent d"
| "metric_reading MemoryMetric d = sm_memoryUsagePercent d"
| "metric_reading DiskMetric d = sm_diskUsagePercent d"
| "metric_reading GpuMetric d = sm_gpuUsagePercent d"

definition metricValue :: "DeviceSummary \<Rightarrow> ThresholdMetric \<Rightarrow> num option" where
  "metricValue device metric =
     (if METRIC_KEYS metric \<in> set (nullish (sm_unavailableMetrics device) []) then None else metric_reading metric device)"

definition metricSeverity :: "num option \<Rightarrow> ThresholdRule \<Rightarrow> HealthSeverity option" where
  "metricSeverity reading rule =
     (case reading of
        None \<Rightarrow> None
      | Some v \<Rightarrow> if v \<ge> th_critical rule then Some Critical else if v \<ge> th_warning rule then Some Warning else None)"

definition metric_issue :: "DeviceSummary \<Rightarrow> HealthThresholds \<Rightarrow> ThresholdMetric \<Rightarrow> DeviceIssue option" where
  "metric_issue device thresholds metric =
     (let reading = metricValue device metric; rule = thresholds metric
      in map_option (\<lambda>severity. \<lparr>is_deviceId = sm_deviceId device, is_hostname = sm_hostname device, is_kind = Some metric,
           is_severity = severity, is_value = reading,
           is_threshold = Some (if severity = Critical then th_critical rule else th_warning rule), is_since = None\<rparr>)
         (metricSeverity reading rule))"

definition evaluateDevice :: "DeviceSummary \<Rightarrow> HealthThresholds \<Rightarrow> DeviceIssue list" where
  "evaluateDevice device thresholds =
     (if sm_status device \<noteq> Online
      then [\<lparr>is_deviceId = sm_deviceId device, is_hostname = sm_hostname device, is_kind = None, is_severity = Critical,
             is_value = None, is_threshold = None, is_since = sm_lastSeenAt device\<rparr>]
      else List.map_filter (metric_issue device thresholds) THRESHOLD_METRICS)"

definition SEVERITY_RANK :: "HealthSeverity \<Rightarrow> int" where
  "SEVERITY_RANK s = (case s of Critical \<Rightarrow> 0 | Warning \<Rightarrow> 1)"

definition excess :: "DeviceIssue \<Rightarrow> num" where
  "excess i = nullish (is_value i) 0 - nullish (is_threshold i) 0"

text \<open>The comparison of \<open>evaluateFleet\<close>; only the sign of each difference matters.\<close>

definition issue_order :: "(string \<Rightarrow> num) \<Rightarrow> DeviceIssue \<Rightarrow> DeviceIssue \<Rightarrow> int" where
  "issue_order collate =
     cmp_then (cmp_by (\<lambda>i. SEVERITY_RANK (is_severity i)))
       (cmp_then (\<lambda>l r. of_bool (is_kind r = None) - of_bool (is_kind l = None))
         (cmp_then (\<lambda>l r. cmp_by excess r l) (cmp_by (\<lambda>i. collate (is_hostname i)))))"

definition evaluateFleet :: "(string \<Rightarrow> num) \<Rightarrow> DeviceSummary list \<Rightarrow> HealthThresholds \<Rightarrow> DeviceIssue list" where
  "evaluateFleet collate devices thresholds =
     js_sort (issue_order collate) (concat (map (\<lambda>device. evaluateDevice device thresholds) devices))"

definition devicesNeedingAttention :: "DeviceIssue list \<Rightarrow> string list" where
  "devicesNeedingAttention issues = js_uniq (map is_deviceId issues)"

definition validRule :: "(num option \<times> num option) option \<Rightarrow> bool" where
  "validRule rule =
     (case rule of
        Some (Some warning, Some critical) \<Rightarrow> warning \<ge> 1 \<and> critical \<le> 100 \<and> warning < critical
      | _ \<Rightarrow> False)"

definition parseThresholds :: "(ThresholdMetric \<Rightarrow> (num option \<times> num option) option) option \<Rightarrow> HealthThresholds" where
  "parseThresholds stored =
     (case stored of
        None \<Rightarrow> DEFAULT_HEALTH_THRESHOLDS
      | Some parsed \<Rightarrow>
          (\<lambda>metric. if validRule (parsed metric)
             then \<lparr>th_warning = the (fst (the (parsed metric))), th_critical = the (snd (the (parsed metric)))\<rparr>
             else DEFAULT_HEALTH_THRESHOLDS metric))"

subsection \<open>Groups\<close>

definition UNGROUPED_GROUP_KEY :: string where "UNGROUPED_GROUP_KEY = ''__ungrouped__''"

definition normalizeDeviceGroup :: "string option \<Rightarrow> string option" where
  "normalizeDeviceGroup g =
     (let normalized = map_option (\<lambda>t. trim (normalize_NFC t)) g
      in if truthy normalized then map_option (take 64) normalized else None)"

definition selectExistingGroupNames :: "DeviceSummary list \<Rightarrow> string list" where
  "selectExistingGroupNames devices =
     js_uniq (List.map_filter (\<lambda>d. normalizeDeviceGroup (sm_group d)) (sort_by (\<lambda>d. nullish (sm_sortOrder d) 0) devices))"

datatype DeviceGroupHealthState = GroupOnline | GroupCritical | GroupWarning | GroupOffline

record DeviceGroupSummary =
  dg_key :: string
  dg_isUngrouped :: bool
  dg_devices :: "DeviceSummary list"
  dg_total :: nat
  dg_online :: nat
  dg_offline :: nat
  dg_overThreshold :: nat
  dg_criticalCount :: nat
  dg_warningCount :: nat
  dg_state :: DeviceGroupHealthState
  dg_avgCpuPercent :: "num option"
  dg_avgMemoryPercent :: "num option"

definition metricUnavailable :: "DeviceSummary \<Rightarrow> DeviceMetricKey \<Rightarrow> bool" where
  "metricUnavailable device key = (key \<in> set (nullish (sm_unavailableMetrics device) []))"

definition group_key :: "DeviceSummary \<Rightarrow> string" where
  "group_key device = nullish (normalizeDeviceGroup (sm_group device)) UNGROUPED_GROUP_KEY"

definition resource_issues :: "HealthThresholds \<Rightarrow> DeviceSummary \<Rightarrow> DeviceIssue list" where
  "resource_issues thresholds device = filter (\<lambda>i. is_kind i \<noteq> None) (evaluateDevice device thresholds)"

definition has_critical :: "DeviceIssue list \<Rightarrow> bool" where
  "has_critical issues = list_ex (\<lambda>i. is_severity i = Critical) issues"

definition average_of :: "DeviceMetricKey \<Rightarrow> (DeviceSummary \<Rightarrow> num option) \<Rightarrow> DeviceSummary list \<Rightarrow> num option" where
  "average_of key f ds =
     (let valid = somes (map f (filter (\<lambda>d. \<not> metricUnavailable d key) ds)) in if valid \<noteq> [] then Some (mean valid) else None)"

definition buildSummary :: "HealthThresholds \<Rightarrow> string \<Rightarrow> DeviceSummary list \<Rightarrow> DeviceGroupSummary" where
  "buildSummary thresholds key groupDevices =
     (let onlineDevices = filter (\<lambda>d. sm_status d = Online) groupDevices;
          online = length onlineDevices;
          offline = length groupDevices - online;
          flagged = filter (\<lambda>d. resource_issues thresholds d \<noteq> []) groupDevices;
          criticalCount = length (filter (\<lambda>d. has_critical (resource_issues thresholds d)) flagged);
          warningCount = length (filter (\<lambda>d. \<not> has_critical (resource_issues thresholds d)) flagged)
      in \<lparr>dg_key = key, dg_isUngrouped = (key = UNGROUPED_GROUP_KEY), dg_devices = groupDevices, dg_total = length groupDevices,
          dg_online = online, dg_offline = offline, dg_overThreshold = criticalCount + warningCount,
          dg_criticalCount = criticalCount, dg_warningCount = warningCount,
          dg_state = (if length groupDevices = 0 \<or> online = 0 then GroupOffline
            else if criticalCount > 0 then GroupCritical
            else if warningCount > 0 \<or> offline > 0 then GroupWarning else GroupOnline),
          dg_avgCpuPercent = average_of CpuUsage sm_cpuUsagePercent onlineDevices,
          dg_avgMemoryPercent = average_of MemoryUsage sm_memoryUsagePercent onlineDevices\<rparr>)"

definition push_device :: "DeviceSummary list option \<Rightarrow> DeviceSummary \<Rightarrow> DeviceSummary list" where
  "push_device list device = nullish list [] @ [device]"

definition group_buckets :: "DeviceSummary list \<Rightarrow> (string, DeviceSummary list) jsmap" where
  "group_buckets devices = fold (group_step group_key push_device) devices []"

definition selectDeviceGroups :: "DeviceSummary list \<Rightarrow> HealthThresholds \<Rightarrow> DeviceGroupSummary list" where
  "selectDeviceGroups devices thresholds =
     (let buckets = group_buckets devices;
          namedKeys = filter (\<lambda>key. key \<noteq> UNGROUPED_GROUP_KEY) (map_keys buckets);
          result = map (\<lambda>key. buildSummary thresholds key (the (map_get buckets key))) namedKeys
      in case map_get buckets UNGROUPED_GROUP_KEY of
           None \<Rightarrow> result
         | Some ungrouped \<Rightarrow>
             if ungrouped \<noteq> [] then result @ [buildSummary thresholds UNGROUPED_GROUP_KEY ungrouped] else result)"

subsection \<open>The state of the fleet\<close>

datatype SnapshotSource = LiveSource | CacheSource | EmptySource

datatype SnapshotDataSource = FromLive | FromCache | FromEmpty | FromUnknown

record console_snapshot =
  sn_source :: SnapshotSource
  sn_authenticated :: bool
  sn_overviewInstances :: nat
  sn_lastIssueCount :: "nat option"

record HealthSummary =
  hs_total :: nat
  hs_online :: nat
  hs_offline :: nat
  hs_overThreshold :: nat
  hs_issues :: "DeviceIssue list"
  hs_pending :: "nat option"
  hs_source :: SnapshotDataSource

definition selectSnapshotSource :: "console_snapshot \<Rightarrow> DeviceSummary list \<Rightarrow> SnapshotDataSource" where
  "selectSnapshotSource snapshot allDevices =
     (if sn_source snapshot = CacheSource then FromCache
      else let hasData = (length allDevices > 0 \<or> sn_overviewInstances snapshot > 0)
           in if sn_source snapshot = LiveSource \<and> sn_authenticated snapshot then (if hasData then FromLive else FromEmpty)
              else if sn_source snapshot = EmptySource \<and> sn_authenticated snapshot then FromEmpty
              else FromUnknown)"

definition selectAttentionCount :: "console_snapshot \<Rightarrow> nat \<Rightarrow> SnapshotDataSource \<Rightarrow> nat option" where
  "selectAttentionCount snapshot unhealthyDevices source =
     (if source \<noteq> FromLive \<and> source \<noteq> FromEmpty then None
      else Some (unhealthyDevices + nullish (sn_lastIssueCount snapshot) 0))"

definition selectHealthSummary :: "(string \<Rightarrow> num) \<Rightarrow> console_snapshot \<Rightarrow> DeviceSummary list \<Rightarrow> HealthThresholds \<Rightarrow> HealthSummary" where
  "selectHealthSummary collate snapshot allDevices thresholds =
     (let online = length (filter (\<lambda>d. sm_status d = Online) allDevices);
          source = selectSnapshotSource snapshot allDevices;
          issues = evaluateFleet collate allDevices thresholds;
          unhealthyDevices = length (devicesNeedingAttention issues);
          overThreshold = length (devicesNeedingAttention (filter (\<lambda>i. is_kind i \<noteq> None) issues))
      in \<lparr>hs_total = length allDevices, hs_online = online, hs_offline = length allDevices - online,
          hs_overThreshold = overThreshold, hs_issues = issues,
          hs_pending = selectAttentionCount snapshot unhealthyDevices source, hs_source = source\<rparr>)"

text \<open>\<open>metric\<close> is one of the processor, the memory and the disk.\<close>

definition selectResourceRanking :: "DeviceSummary list \<Rightarrow> ThresholdMetric \<Rightarrow> nat \<Rightarrow> DeviceSummary list" where
  "selectResourceRanking devices metric limit =
     take limit (js_sort (\<lambda>l r. cmp_by (\<lambda>d. nullish (metric_reading metric d) 0) r l)
       (filter (\<lambda>d. sm_status d = Online \<and> metric_reading metric d \<noteq> None \<and> \<not> metricUnavailable d (METRIC_KEYS metric)) devices))"

definition selectAttentionDevices :: "(string \<Rightarrow> num) \<Rightarrow> DeviceSummary list \<Rightarrow> nat \<Rightarrow> HealthThresholds \<Rightarrow> DeviceSummary list" where
  "selectAttentionDevices collate allDevices limit thresholds =
     (let byId = fold (\<lambda>d. map_set (sm_deviceId d) d) allDevices []
      in take limit (List.map_filter (map_get byId) (devicesNeedingAttention (evaluateFleet collate allDevices thresholds))))"

definition resolveActiveGroupFilter :: "DeviceGroupSummary list \<Rightarrow> string option \<Rightarrow> string" where
  "resolveActiveGroupFilter groups groupFilter =
     (if \<not> truthy groupFilter \<or> groupFilter = Some ''all'' then ''all''
      else if list_ex (\<lambda>g. dg_key g = the groupFilter) groups then the groupFilter else ''all'')"

record DeviceGroupPeers =
  gp_groupKey :: string
  gp_isUngrouped :: bool
  gp_peers :: "DeviceSummary list"
  gp_currentIndex :: "nat option"
  gp_previousDevice :: "DeviceSummary option"
  gp_nextDevice :: "DeviceSummary option"

definition selectPeerDevicesInGroup :: "DeviceSummary list \<Rightarrow> DeviceSummary \<Rightarrow> DeviceGroupPeers" where
  "selectPeerDevicesInGroup devices currentDevice =
     (let ordered = sort_by (\<lambda>d. nullish (sm_sortOrder d) 0) devices;
          currentGroup = normalizeDeviceGroup (sm_group currentDevice);
          hasAnyNamedGroup = list_ex (\<lambda>d. normalizeDeviceGroup (sm_group d) \<noteq> None) ordered;
          groupKey = nullish currentGroup (if hasAnyNamedGroup then UNGROUPED_GROUP_KEY else ''all'');
          peers = filter (\<lambda>d. if \<not> hasAnyNamedGroup then True else normalizeDeviceGroup (sm_group d) = currentGroup) ordered;
          currentIndex = find_index (\<lambda>d. sm_deviceId d = sm_deviceId currentDevice) peers
      in \<lparr>gp_groupKey = groupKey, gp_isUngrouped = (currentGroup = None), gp_peers = peers, gp_currentIndex = currentIndex,
          gp_previousDevice = (case currentIndex of Some i \<Rightarrow> if i > 0 then Some (peers ! (i - 1)) else None | None \<Rightarrow> None),
          gp_nextDevice = (case currentIndex of Some i \<Rightarrow> if i < length peers - 1 then Some (peers ! (i + 1)) else None | None \<Rightarrow> None)\<rparr>)"

subsection \<open>The directory\<close>

datatype DeviceDirectoryStatus = AllDevices | OnlineDevices | OfflineDevices

datatype DeviceDirectorySort = ByOrder | ByName | ByCpu | ByMemory | ByLastSeen

record DeviceDirectoryQuery =
  dq_query :: "string option"
  dq_status :: "DeviceDirectoryStatus option"
  dq_sort :: "DeviceDirectorySort option"
  dq_group :: "string option"

primrec os_name :: "Os \<Rightarrow> string" where
  "os_name Windows = ''windows''"
| "os_name Linux = ''linux''"
| "os_name Macos = ''macos''"
| "os_name UnknownOs = ''unknown''"

definition text_includes :: "string \<Rightarrow> string \<Rightarrow> bool" where
  "text_includes hay needle = list_ex (\<lambda>s. prefix needle s) (suffixes hay)"

definition directory_match :: "DeviceDirectoryQuery \<Rightarrow> DeviceSummary \<Rightarrow> bool" where
  "directory_match query device =
     (let normalizedQuery = nullish (map_option (\<lambda>q. toLowerCase (trim q)) (dq_query query)) [];
          statusMatches = (case dq_status query of None \<Rightarrow> True | Some AllDevices \<Rightarrow> True
            | Some OnlineDevices \<Rightarrow> sm_status device = Online | Some OfflineDevices \<Rightarrow> sm_status device \<noteq> Online);
          deviceGroup = normalizeDeviceGroup (sm_group device);
          groupMatches = (if \<not> truthy (dq_group query) \<or> dq_group query = Some ''all'' then True
            else if dq_group query = Some UNGROUPED_GROUP_KEY then deviceGroup = None else deviceGroup = dq_group query);
          textMatches = (normalizedQuery = [] \<or> text_includes (toLowerCase (sm_hostname device @ '' '' @ sm_deviceId device @ '' ''
            @ os_name (sm_os device) @ '' '' @ nullish deviceGroup [])) normalizedQuery)
      in statusMatches \<and> groupMatches \<and> textMatches)"

text \<open>
  The order of the directory.  \<open>dateValueOf\<close> is \<open>Date.parse\<close> behind a memo; a device that was never seen has no date,
  and the comparison with it (a \<open>NaN\<close>) counts as equal.
\<close>

definition directory_order :: "(string \<Rightarrow> num) \<Rightarrow> DeviceDirectorySort \<Rightarrow> DeviceSummary \<Rightarrow> DeviceSummary \<Rightarrow> int" where
  "directory_order collate mode left right =
     (case mode of
        ByName \<Rightarrow> cmp_by (\<lambda>d. collate (sm_hostname d)) left right
      | ByCpu \<Rightarrow> cmp_by (\<lambda>d. nullish (sm_cpuUsagePercent d) (-1)) right left
      | ByMemory \<Rightarrow> cmp_by (\<lambda>d. nullish (sm_memoryUsagePercent d) (-1)) right left
      | ByLastSeen \<Rightarrow>
          (case (Date_parse (nullish (sm_lastSeenAt right) []), Date_parse (nullish (sm_lastSeenAt left) [])) of
             (Some r, Some l) \<Rightarrow> r - l | _ \<Rightarrow> 0)
      | ByOrder \<Rightarrow> cmp_by (\<lambda>d. nullish (sm_sortOrder d) 0) left right)"

definition selectDeviceDirectory :: "(string \<Rightarrow> num) \<Rightarrow> DeviceSummary list \<Rightarrow> DeviceDirectoryQuery \<Rightarrow> DeviceSummary list" where
  "selectDeviceDirectory collate devices query =
     js_sort (directory_order collate (nullish (dq_sort query) ByOrder)) (filter (directory_match query) devices)"

definition mergeDeviceOrder :: "string list \<Rightarrow> string list \<Rightarrow> string list" where
  "mergeDeviceOrder draft serverOrder =
     (let retained = filter (\<lambda>d. d \<in> set serverOrder) draft
      in retained @ filter (\<lambda>d. d \<notin> set retained) serverOrder)"


subsection \<open>Issues\<close>

lemma set_map_filter_iff: "y \<in> set (List.map_filter f xs) \<longleftrightarrow> (\<exists>x \<in> set xs. f x = Some y)"
  by (induction xs) (auto simp: List.map_filter_simps split: option.split)

lemma comparison_flipped: "comparison c \<Longrightarrow> comparison (\<lambda>a b. c b a)"
  unfolding comparison_def by blast

interpretation issues: comparison "issue_order collate"
  unfolding issue_order_def
  by (intro comparison_then by_key.comparison_axioms comparison_flipped [OF by_key.comparison_axioms])
    (unfold_locales; simp add: of_bool_def split: if_splits)

text \<open>What is wrong with a device, independently of the loop that collects it, under the thresholds as parsed.\<close>

definition flagged_as :: "DeviceSummary \<Rightarrow> HealthThresholds \<Rightarrow> DeviceIssue \<Rightarrow> bool" where
  "flagged_as d thresholds i \<longleftrightarrow> is_deviceId i = sm_deviceId d \<and> is_hostname i = sm_hostname d \<and>
     (case is_kind i of
        None \<Rightarrow> sm_status d \<noteq> Online \<and> is_severity i = Critical \<and> is_value i = None \<and> is_threshold i = None \<and> is_since i = sm_lastSeenAt d
      | Some m \<Rightarrow> sm_status d = Online \<and> is_since i = None \<and>
          (\<exists>v. metricValue d m = Some v \<and> is_value i = Some v \<and> th_warning (thresholds m) \<le> v \<and>
             (is_severity i = Critical \<longleftrightarrow> th_critical (thresholds m) \<le> v) \<and>
             is_threshold i = Some (if is_severity i = Critical then th_critical (thresholds m) else th_warning (thresholds m))))"

definition rules_ok :: "HealthThresholds \<Rightarrow> bool" where
  "rules_ok thresholds \<longleftrightarrow> (\<forall>m. 1 \<le> th_warning (thresholds m) \<and> th_warning (thresholds m) < th_critical (thresholds m) \<and> th_critical (thresholds m) \<le> 100)"

lemma rules_ok_parse: "rules_ok (parseThresholds stored)"
proof -
  have "1 \<le> th_warning (DEFAULT_HEALTH_THRESHOLDS m) \<and> th_warning (DEFAULT_HEALTH_THRESHOLDS m) < th_critical (DEFAULT_HEALTH_THRESHOLDS m)
      \<and> th_critical (DEFAULT_HEALTH_THRESHOLDS m) \<le> 100" for m
    by (cases m) simp_all
  then show ?thesis
    by (auto simp: rules_ok_def parseThresholds_def validRule_def split: option.splits)
qed

lemma metric_issue_iff:
  assumes "rules_ok thresholds" "sm_status d = Online"
  shows "metric_issue d thresholds m = Some i \<longleftrightarrow> is_kind i = Some m \<and> flagged_as d thresholds i"
proof -
  have rule: "th_warning (thresholds m) < th_critical (thresholds m)"
    using assms(1) by (simp add: rules_ok_def)
  show ?thesis
  proof (cases "metricValue d m")
    case None
    then show ?thesis by (auto simp: metric_issue_def metricSeverity_def flagged_as_def Let_def)
  next
    case (Some v)
    have sev: "metricSeverity (Some v) (thresholds m) = Some s \<longleftrightarrow> th_warning (thresholds m) \<le> v \<and> (s = Critical \<longleftrightarrow> th_critical (thresholds m) \<le> v)" for s
      using rule by (cases s) (auto simp: metricSeverity_def)
    show ?thesis
    proof
      assume "metric_issue d thresholds m = Some i"
      then show "is_kind i = Some m \<and> flagged_as d thresholds i"
        using assms(2) by (auto simp: metric_issue_def Some sev flagged_as_def Let_def)
    next
      assume r: "is_kind i = Some m \<and> flagged_as d thresholds i"
      then have "metricSeverity (Some v) (thresholds m) = Some (is_severity i)"
        unfolding sev by (auto simp: flagged_as_def Some)
      then show "metric_issue d thresholds m = Some i"
        using r by (cases i) (auto simp: metric_issue_def Some flagged_as_def Let_def)
    qed
  qed
qed

lemma evaluateDevice_iff:
  assumes "rules_ok thresholds"
  shows "i \<in> set (evaluateDevice d thresholds) \<longleftrightarrow> flagged_as d thresholds i"
proof (cases "sm_status d = Online")
  case True
  have all: "m \<in> set THRESHOLD_METRICS" for m
    by (cases m) (simp_all add: THRESHOLD_METRICS_def)
  have "is_kind i \<noteq> None" if "flagged_as d thresholds i"
    using that True by (auto simp: flagged_as_def split: option.splits)
  then show ?thesis
    using True all by (auto simp: evaluateDevice_def set_map_filter_iff metric_issue_iff [OF assms True])
next
  case False
  then show ?thesis
    by (cases i) (auto simp: evaluateDevice_def flagged_as_def split: option.splits)
qed

lemma distinct_map_filter_kinds:
  "distinct ms \<Longrightarrow> distinct (map is_kind (List.map_filter (metric_issue d thresholds) ms))"
proof (induction ms)
  case (Cons m ms)
  have kind: "metric_issue d thresholds m' = Some i \<Longrightarrow> is_kind i = Some m'" for m' i
    by (auto simp: metric_issue_def Let_def)
  show ?case
    using Cons kind by (cases "metric_issue d thresholds m") (auto simp: List.map_filter_simps set_map_filter_iff)
qed (simp add: List.map_filter_simps)

lemma evaluateDevice_once: "distinct (map is_kind (evaluateDevice d thresholds))"
proof -
  have "distinct THRESHOLD_METRICS" by (simp add: THRESHOLD_METRICS_def)
  then show ?thesis by (simp add: evaluateDevice_def distinct_map_filter_kinds)
qed

text \<open>
  The specification, with no part of the code in it: a resource is measured if its field of the summary has a value and
  the device does not list the resource's metric as unavailable; the thresholds in force are the stored ones if both are
  numbers in the right order between 1 and 100, and else the shipped ones.
\<close>

definition marked_unavailable :: "DeviceSummary \<Rightarrow> DeviceMetricKey \<Rightarrow> bool" where
  "marked_unavailable d key \<longleftrightarrow> (\<exists>keys. sm_unavailableMetrics d = Some keys \<and> key \<in> set keys)"

primrec measured :: "DeviceSummary \<Rightarrow> ThresholdMetric \<Rightarrow> num \<Rightarrow> bool" where
  "measured d CpuMetric v \<longleftrightarrow> sm_cpuUsagePercent d = Some v \<and> \<not> marked_unavailable d CpuUsage"
| "measured d MemoryMetric v \<longleftrightarrow> sm_memoryUsagePercent d = Some v \<and> \<not> marked_unavailable d MemoryUsage"
| "measured d DiskMetric v \<longleftrightarrow> sm_diskUsagePercent d = Some v \<and> \<not> marked_unavailable d DiskUsage"
| "measured d GpuMetric v \<longleftrightarrow> sm_gpuUsagePercent d = Some v \<and> \<not> marked_unavailable d GpuUsage"

type_synonym stored_thresholds = "(ThresholdMetric \<Rightarrow> (num option \<times> num option) option) option"

definition stored_rule :: "stored_thresholds \<Rightarrow> ThresholdMetric \<Rightarrow> num \<Rightarrow> num \<Rightarrow> bool" where
  "stored_rule stored m warning critical \<longleftrightarrow> (\<exists>parsed. stored = Some parsed \<and> parsed m = Some (Some warning, Some critical))
     \<and> 1 \<le> warning \<and> warning < critical \<and> critical \<le> 100"

primrec shipped_rule :: "ThresholdMetric \<Rightarrow> num \<times> num" where
  "shipped_rule CpuMetric = (90, 98)"
| "shipped_rule MemoryMetric = (90, 97)"
| "shipped_rule DiskMetric = (85, 95)"
| "shipped_rule GpuMetric = (95, 99)"

definition in_force :: "stored_thresholds \<Rightarrow> ThresholdMetric \<Rightarrow> num \<Rightarrow> num \<Rightarrow> bool" where
  "in_force stored m warning critical \<longleftrightarrow> stored_rule stored m warning critical \<or>
     ((\<forall>w c. \<not> stored_rule stored m w c) \<and> shipped_rule m = (warning, critical))"

definition issue_of :: "DeviceSummary \<Rightarrow> stored_thresholds \<Rightarrow> DeviceIssue \<Rightarrow> bool" where
  "issue_of d stored i \<longleftrightarrow> is_deviceId i = sm_deviceId d \<and> is_hostname i = sm_hostname d \<and>
     (case is_kind i of
        None \<Rightarrow> sm_status d \<noteq> Online \<and> is_severity i = Critical \<and> is_value i = None \<and> is_threshold i = None \<and> is_since i = sm_lastSeenAt d
      | Some m \<Rightarrow> sm_status d = Online \<and> is_since i = None \<and>
          (\<exists>v warning critical. measured d m v \<and> in_force stored m warning critical \<and> is_value i = Some v \<and> warning \<le> v \<and>
             (if critical \<le> v then is_severity i = Critical \<and> is_threshold i = Some critical
              else is_severity i = Warning \<and> is_threshold i = Some warning)))"

lemma measured_iff: "measured d m v \<longleftrightarrow> metricValue d m = Some v"
  by (cases m; cases "sm_unavailableMetrics d") (auto simp: metricValue_def marked_unavailable_def)

lemma shipped_iff: "shipped_rule m = (w, c) \<longleftrightarrow> DEFAULT_HEALTH_THRESHOLDS m = \<lparr>th_warning = w, th_critical = c\<rparr>"
  by (cases m) auto

lemma stored_rule_iff:
  "stored_rule stored m w c \<longleftrightarrow> (\<exists>parsed. stored = Some parsed \<and> validRule (parsed m) \<and> parsed m = Some (Some w, Some c))"
  by (auto simp: stored_rule_def validRule_def)

lemma in_force_iff: "in_force stored m w c \<longleftrightarrow> parseThresholds stored m = \<lparr>th_warning = w, th_critical = c\<rparr>"
proof (cases "\<exists>parsed. stored = Some parsed \<and> validRule (parsed m)")
  case True
  then obtain parsed where parsed: "stored = Some parsed" "validRule (parsed m)" by blast
  then obtain w' c' where p: "parsed m = Some (Some w', Some c')"
    by (cases "parsed m") (auto simp: validRule_def split: option.splits)
  then show ?thesis
    using parsed by (auto simp: in_force_def stored_rule_iff parseThresholds_def)
next
  case False
  then have "parseThresholds stored m = DEFAULT_HEALTH_THRESHOLDS m"
    by (auto simp: parseThresholds_def split: option.split)
  then show ?thesis
    using False by (auto simp: in_force_def stored_rule_iff shipped_iff)
qed

lemma issue_of_iff: "issue_of d stored i \<longleftrightarrow> flagged_as d (parseThresholds stored) i"
proof (cases "is_kind i")
  case None
  then show ?thesis by (simp add: issue_of_def flagged_as_def)
next
  case (Some m)
  obtain w c where rule: "parseThresholds stored m = \<lparr>th_warning = w, th_critical = c\<rparr>"
    by (metis ThresholdRule.cases)
  have rank: "is_severity i = Warning \<longleftrightarrow> is_severity i \<noteq> Critical"
    by (cases "is_severity i") simp_all
  show ?thesis
    unfolding issue_of_def flagged_as_def measured_iff in_force_iff rule Some option.case rank by auto
qed

text \<open>
  C39: with whatever thresholds were stored, the console's list of issues holds exactly what is wrong under them: one
  critical entry for each device that is not online, and for each online device one entry for each resource that is
  measured, and not marked unavailable, at or past its warning threshold, critical exactly from the critical threshold
  on; the most urgent come first, critical before warning, offline devices before resources, larger excess before smaller.
\<close>

theorem fleet_issues_ranked:
  fixes collate devices stored
  defines "issues \<equiv> evaluateFleet collate devices (parseThresholds stored)"
  shows "rules_ok (parseThresholds stored) \<and> (i \<in> set issues \<longleftrightarrow> (\<exists>d \<in> set devices. issue_of d stored i)) \<and>
    length issues = sum_list (map (\<lambda>d. card {i. issue_of d stored i}) devices) \<and>
    sorted_wrt (\<lambda>a b. is_severity a = is_severity b \<or> is_severity a = Critical) issues \<and>
    sorted_wrt (\<lambda>a b. is_severity a = is_severity b \<longrightarrow> is_kind b = None \<longrightarrow> is_kind a = None) issues \<and>
    sorted_wrt (\<lambda>a b. is_severity a = is_severity b \<longrightarrow> is_kind a \<noteq> None \<longrightarrow> is_kind b \<noteq> None \<longrightarrow> excess b \<le> excess a) issues"
proof -
  note rules = rules_ok_parse [of stored]
  have each: "i \<in> set (evaluateDevice d (parseThresholds stored)) \<longleftrightarrow> issue_of d stored i" for d i
    by (simp add: evaluateDevice_iff [OF rules] issue_of_iff)
  have set: "set issues = (\<Union>d \<in> set devices. {i. issue_of d stored i})"
    by (auto simp: issues_def evaluateFleet_def each)
  have "length (evaluateDevice d (parseThresholds stored)) = card {i. issue_of d stored i}" for d
  proof -
    have "distinct (evaluateDevice d (parseThresholds stored))"
      using evaluateDevice_once by (simp add: distinct_map)
    moreover have "set (evaluateDevice d (parseThresholds stored)) = {i. issue_of d stored i}"
      by (auto simp: each)
    ultimately show ?thesis
      by (metis distinct_card)
  qed
  then have "length issues = sum_list (map (\<lambda>d. card {i. issue_of d stored i}) devices)"
    by (simp add: issues_def evaluateFleet_def length_concat comp_def)
  moreover have sorted: "sorted_wrt (\<lambda>a b. issue_order collate a b \<le> 0) issues"
    unfolding issues_def evaluateFleet_def by (rule issues.sorted_js_sort)
  have order: "(is_severity a = is_severity b \<or> is_severity a = Critical) \<and>
      (is_severity a = is_severity b \<longrightarrow> is_kind b = None \<longrightarrow> is_kind a = None) \<and>
      (is_severity a = is_severity b \<longrightarrow> is_kind a \<noteq> None \<longrightarrow> is_kind b \<noteq> None \<longrightarrow> excess b \<le> excess a)"
    if "issue_order collate a b \<le> 0" for a b
    using that by (cases "is_severity a"; cases "is_severity b")
      (auto simp: issue_order_def cmp_then_def cmp_by_def SEVERITY_RANK_def split: if_splits)
  ultimately show ?thesis
    using rules set sorted_wrt_mono_rel [OF _ sorted] order by simp
qed


definition demo_summary :: "string \<Rightarrow> DeviceStatus \<Rightarrow> num \<Rightarrow> string option \<Rightarrow> DeviceSummary" where
  "demo_summary name status cpu grp = \<lparr>sm_deviceId = name, sm_hostname = name, sm_os = Linux, sm_agentVersion = None, sm_agentChannel = None,
     sm_status = status, sm_lastSeenAt = None, sm_cpuUsagePercent = Some cpu, sm_gpuUsagePercent = None, sm_gpuMemoryUsagePercent = None,
     sm_memoryUsagePercent = None, sm_memoryUsedBytes = None, sm_memoryTotalBytes = None, sm_diskUsagePercent = None,
     sm_diskUsedBytes = None, sm_diskTotalBytes = None, sm_sortOrder = None, sm_group = grp, sm_unavailableMetrics = None\<rparr>"

text \<open>The processor's warning comes at 50 under the stored thresholds, and the third device marks its processor unavailable.\<close>

abbreviation demo_thresholds :: stored_thresholds where
  "demo_thresholds \<equiv> Some (\<lambda>m. if m = CpuMetric then Some (Some 50, Some 60) else None)"

abbreviation demo_fleet :: "DeviceSummary list" where
  "demo_fleet \<equiv> [demo_summary ''a'' Online 55 None, demo_summary ''b'' Offline 10 None,
     (demo_summary ''c'' Online 99 None)\<lparr>sm_unavailableMetrics := Some [CpuUsage]\<rparr>, demo_summary ''d'' Online 61 None]"

theorem fleet_issues_ranked_witness:
  "map is_deviceId (evaluateFleet (\<lambda>_. 0) demo_fleet (parseThresholds demo_thresholds)) = [''b'', ''d'', ''a''] \<and>
   length (evaluateFleet (\<lambda>_. 0) demo_fleet (parseThresholds demo_thresholds)) =
     sum_list (map (\<lambda>d. card {i. issue_of d demo_thresholds i}) demo_fleet)"
proof -
  have "map is_deviceId (evaluateFleet (\<lambda>_. 0) demo_fleet (parseThresholds demo_thresholds)) = [''b'', ''d'', ''a'']"
    by code_simp
  then show ?thesis
    using fleet_issues_ranked [where collate = "\<lambda>_. 0" and devices = demo_fleet and stored = demo_thresholds] by blast
qed

subsection \<open>Groups are a partition\<close>

interpretation groups: grouping group_key push_device "\<lambda>ds. group_key (hd ds)"
proof
  fix v :: "DeviceSummary list option" and x
  assume "\<And>w. v = Some w \<Longrightarrow> group_key (hd w) = group_key x"
  then show "group_key (hd (push_device v x)) = group_key x"
    by (cases v) (auto simp: push_device_def hd_append)
qed

lemma fold_push: "ds \<noteq> [] \<Longrightarrow> fold (\<lambda>x v. Some (push_device v x)) ds v = Some (nullish v [] @ ds)"
proof (induction ds arbitrary: v)
  case (Cons d ds)
  then show ?case by (cases "ds = []") (simp_all add: push_device_def)
qed simp

lemma bucket_get:
  "map_get (group_buckets devices) k =
     (let ds = filter (\<lambda>d. group_key d = k) devices in if ds = [] then None else Some ds)"
  by (simp add: group_buckets_def map_get_group fold_push Let_def)

lemma bucket_keys: "map_keys (group_buckets devices) = js_uniq (map group_key devices)"
  by (simp add: group_buckets_def map_keys_group js_uniq_set_add)

lemma groups_eq:
  "selectDeviceGroups devices thresholds =
     map (\<lambda>k. buildSummary thresholds k (filter (\<lambda>d. group_key d = k) devices))
       (filter (\<lambda>k. k \<noteq> UNGROUPED_GROUP_KEY) (js_uniq (map group_key devices)) @
        (if UNGROUPED_GROUP_KEY \<in> group_key ` set devices then [UNGROUPED_GROUP_KEY] else []))"
proof -
  have named: "the (map_get (group_buckets devices) k) = filter (\<lambda>d. group_key d = k) devices" if "k \<in> set (js_uniq (map group_key devices))" for k
    using that by (auto simp: bucket_get Let_def filter_empty_conv)
  have un: "map_get (group_buckets devices) UNGROUPED_GROUP_KEY =
      (if UNGROUPED_GROUP_KEY \<in> group_key ` set devices then Some (filter (\<lambda>d. group_key d = UNGROUPED_GROUP_KEY) devices) else None)"
    by (force simp: bucket_get Let_def filter_empty_conv)
  have ne: "filter (\<lambda>d. group_key d = UNGROUPED_GROUP_KEY) devices \<noteq> []" if "UNGROUPED_GROUP_KEY \<in> group_key ` set devices"
    using that by (force simp: filter_empty_conv)
  show ?thesis
    using ne by (simp add: selectDeviceGroups_def bucket_keys un named Let_def cong: map_cong)
qed

lemma buildSummary_simps [simp]:
  "dg_key (buildSummary thresholds k ds) = k" "dg_devices (buildSummary thresholds k ds) = ds"
  "dg_total (buildSummary thresholds k ds) = length ds" "dg_isUngrouped (buildSummary thresholds k ds) \<longleftrightarrow> k = UNGROUPED_GROUP_KEY"
  by (simp_all add: buildSummary_def Let_def)

lemma sum_group_sizes:
  assumes "distinct ks" "\<forall>d \<in> set ds. f d \<in> set ks"
  shows "sum_list (map (\<lambda>k. length (filter (\<lambda>d. f d = k) ds)) ks) = length ds"
  using assms(2)
proof (induction ds)
  case (Cons d ds)
  have "sum_list (map (\<lambda>k. length (filter (\<lambda>x. f x = k) (d # ds))) ks)
      = sum_list (map (\<lambda>k. (if f d = k then 1 else 0) + length (filter (\<lambda>x. f x = k) ds)) ks)"
    by (rule arg_cong [where f = sum_list], rule map_cong) auto
  also have "\<dots> = sum_list (map (\<lambda>k. if f d = k then 1 else 0) ks) + sum_list (map (\<lambda>k. length (filter (\<lambda>x. f x = k) ds)) ks)"
    by (rule sum_list_addf)
  also have "sum_list (map (\<lambda>k. if f d = k then 1 else 0 :: nat) ks) = 1"
    using assms(1) Cons.prems by (simp add: sum_list_distinct_conv_sum_set sum.delta)
  finally show ?case
    using Cons by simp
qed simp

lemma length_filter_all: "length (filter P xs) = length xs \<longleftrightarrow> (\<forall>x \<in> set xs. P x)"
proof (induction xs)
  case (Cons x xs)
  have "length (filter P xs) \<noteq> Suc (length xs)"
    using length_filter_le [of P xs] by linarith
  then show ?case using Cons by simp
qed simp

lemma state_online_iff:
  "m \<le> (n::nat) \<Longrightarrow> n \<noteq> 0 \<Longrightarrow>
   (if n = 0 \<or> m = 0 then GroupOffline else if c > (0::nat) then GroupCritical else if w > (0::nat) \<or> n - m > 0 then GroupWarning else GroupOnline)
     = GroupOnline \<longleftrightarrow> m = n \<and> c = 0 \<and> w = 0"
  by auto

lemma group_state_online:
  assumes "ds \<noteq> []"
  shows "dg_state (buildSummary thresholds k ds) = GroupOnline \<longleftrightarrow> (\<forall>d \<in> set ds. sm_status d = Online \<and> evaluateDevice d thresholds = [])"
proof -
  let ?on = "filter (\<lambda>d. sm_status d = Online) ds"
  have online: "length ?on = length ds \<longleftrightarrow> (\<forall>d \<in> set ds. sm_status d = Online)"
    by (rule length_filter_all)
  have le: "length ?on \<le> length ds" by (rule length_filter_le)
  have res: "resource_issues thresholds d = evaluateDevice d thresholds" if "sm_status d = Online" for d
  proof -
    have "\<forall>i \<in> set (List.map_filter (metric_issue d thresholds) THRESHOLD_METRICS). is_kind i \<noteq> None"
      by (auto simp: set_map_filter_iff metric_issue_def Let_def)
    then show ?thesis
      using that unfolding resource_issues_def evaluateDevice_def by (simp del: not_None_eq)
  qed
  let ?flagged = "filter (\<lambda>d. resource_issues thresholds d \<noteq> []) ds"
  let ?c = "length (filter (\<lambda>d. has_critical (resource_issues thresholds d)) ?flagged)"
  let ?w = "length (filter (\<lambda>d. \<not> has_critical (resource_issues thresholds d)) ?flagged)"
  have none: "?c = 0 \<and> ?w = 0 \<longleftrightarrow> (\<forall>d \<in> set ds. resource_issues thresholds d = [])"
    unfolding length_0_conv filter_empty_conv set_filter by blast
  have st: "dg_state (buildSummary thresholds k ds) = (if length ds = 0 \<or> length ?on = 0 then GroupOffline
      else if ?c > 0 then GroupCritical else if ?w > 0 \<or> length ds - length ?on > 0 then GroupWarning else GroupOnline)"
    by (simp only: buildSummary_def Let_def DeviceGroupSummary.select_convs)
  have "dg_state (buildSummary thresholds k ds) = GroupOnline \<longleftrightarrow> length ?on = length ds \<and> ?c = 0 \<and> ?w = 0"
    unfolding st by (rule state_online_iff [OF le]) (simp add: assms)
  then have "dg_state (buildSummary thresholds k ds) = GroupOnline \<longleftrightarrow>
      (\<forall>d \<in> set ds. sm_status d = Online) \<and> (\<forall>d \<in> set ds. resource_issues thresholds d = [])"
    by (simp only: online none)
  then show ?thesis
    using res by auto
qed

text \<open>
  The groups shown on the overview are a partition of the fleet: every device is in the group of its name and in no
  other, no group is empty or shown twice, the devices without a group come last, the totals add up, and a group is
  shown as healthy exactly when all its devices are online and none has an issue.
\<close>

theorem groups_partition:
  fixes devices thresholds
  defines "shown \<equiv> selectDeviceGroups devices thresholds"
  shows "distinct (map dg_key shown) \<and> set (map dg_key shown) = group_key ` set devices \<and>
    (\<forall>g \<in> set shown. dg_devices g = filter (\<lambda>d. group_key d = dg_key g) devices \<and> dg_devices g \<noteq> [] \<and>
       dg_online g + dg_offline g = dg_total g \<and> dg_total g = length (dg_devices g) \<and>
       (dg_state g = GroupOnline \<longleftrightarrow> (\<forall>d \<in> set (dg_devices g). sm_status d = Online \<and> evaluateDevice d thresholds = []))) \<and>
    (\<forall>g \<in> set (butlast shown). \<not> dg_isUngrouped g) \<and> sum_list (map dg_total shown) = length devices"
proof -
  define ks where "ks = filter (\<lambda>k. k \<noteq> UNGROUPED_GROUP_KEY) (js_uniq (map group_key devices)) @
    (if UNGROUPED_GROUP_KEY \<in> group_key ` set devices then [UNGROUPED_GROUP_KEY] else [])"
  have shown: "shown = map (\<lambda>k. buildSummary thresholds k (filter (\<lambda>d. group_key d = k) devices)) ks"
    unfolding shown_def ks_def by (rule groups_eq)
  have keys: "map dg_key shown = ks" by (simp add: shown comp_def)
  have ks: "distinct ks" "set ks = group_key ` set devices" "UNGROUPED_GROUP_KEY \<notin> set (butlast ks)"
    by (force simp: ks_def butlast_append split: if_splits dest: in_set_butlastD)+
  have each: "dg_online (buildSummary thresholds k ds) + dg_offline (buildSummary thresholds k ds) = length ds" for k ds
    by (simp add: buildSummary_def Let_def)
  have ne: "filter (\<lambda>d. group_key d = k) devices \<noteq> []" if "k \<in> set ks" for k
    using that ks(2) by (auto simp: filter_empty_conv)
  have "sum_list (map dg_total shown) = length devices"
    using sum_group_sizes [OF ks(1), of devices group_key] ks(2) by (simp add: shown comp_def)
  moreover have "\<forall>g \<in> set (butlast shown). \<not> dg_isUngrouped g"
    using ks(3) by (auto simp: shown map_butlast [symmetric])
  ultimately show ?thesis
    using ks keys ne group_state_online each by (auto simp: shown)
qed

theorem groups_partition_witness:
  "map dg_key (selectDeviceGroups [demo_summary ''a'' Online 1 None, demo_summary ''b'' Online 2 (Some '' lab ''), demo_summary ''c'' Online 99 (Some ''lab'')]
     DEFAULT_HEALTH_THRESHOLDS) = [''lab'', ''__ungrouped__''] \<and>
   sum_list (map dg_total (selectDeviceGroups [demo_summary ''a'' Online 1 None, demo_summary ''b'' Online 2 (Some '' lab ''),
     demo_summary ''c'' Online 99 (Some ''lab'')] DEFAULT_HEALTH_THRESHOLDS)) = 3"
proof -
  have "map dg_key (selectDeviceGroups [demo_summary ''a'' Online 1 None, demo_summary ''b'' Online 2 (Some '' lab ''), demo_summary ''c'' Online 99 (Some ''lab'')]
     DEFAULT_HEALTH_THRESHOLDS) = [''lab'', ''__ungrouped__'']"
    by code_simp
  then show ?thesis
    using groups_partition [of "[demo_summary ''a'' Online 1 None, demo_summary ''b'' Online 2 (Some '' lab ''), demo_summary ''c'' Online 99 (Some ''lab'')]"
        DEFAULT_HEALTH_THRESHOLDS] by simp
qed


subsection \<open>The directory and the order of devices\<close>

lemma directory_comparison: "mode \<noteq> ByLastSeen \<Longrightarrow> comparison (directory_order collate mode)"
  by (cases mode)
    (auto simp: directory_order_def [abs_def] intro: by_key.comparison_axioms comparison_flipped [OF by_key.comparison_axioms])

text \<open>A search finds exactly the devices that match, in the order asked for.\<close>

lemma directory_lists:
  assumes "mode \<noteq> ByLastSeen" "nullish (dq_sort query) ByOrder = mode"
  shows "mset (selectDeviceDirectory collate devices query) = mset (filter (directory_match query) devices)
    \<and> sorted_wrt (\<lambda>a b. directory_order collate mode a b \<le> 0) (selectDeviceDirectory collate devices query)"
  using assms comparison.sorted_js_sort [OF directory_comparison [OF assms(1)]] by (simp add: selectDeviceDirectory_def)

text \<open>
  Sorted by the time of last contact, a device that was never seen compares as equal to every other one, which is not an
  order: two devices on either side of it are never compared, and the older one stays in front.
\<close>

definition demo_seen :: "string \<Rightarrow> string option \<Rightarrow> DeviceSummary" where
  "demo_seen name seen = (demo_summary name Offline 0 None)\<lparr>sm_lastSeenAt := seen\<rparr>"

lemma last_seen_not_an_order:
  "map sm_deviceId (selectDeviceDirectory (\<lambda>_. 0)
     [demo_seen ''old'' (Some (toISOString 1)), demo_seen ''never'' None, demo_seen ''new'' (Some (toISOString 2))]
     \<lparr>dq_query = None, dq_status = None, dq_sort = Some ByLastSeen, dq_group = None\<rparr>) = [''old'', ''never'', ''new'']"
proof -
  have "Date_parse [] = None" by code_simp
  moreover have "Date_parse (toISOString 1) = Some 1" "Date_parse (toISOString 2) = Some 2"
    by (rule Date_parse_demo; simp)+
  ultimately show ?thesis
    by (simp add: selectDeviceDirectory_def directory_match_def directory_order_def js_sort_def demo_seen_def demo_summary_def Let_def)
qed

text \<open>A draft of the order, merged with what the hub lists, names every listed device once and keeps the draft's order.\<close>

lemma merged_order:
  assumes "distinct draft" "distinct serverOrder"
  shows "distinct (mergeDeviceOrder draft serverOrder)" "set (mergeDeviceOrder draft serverOrder) = set serverOrder"
    "filter (\<lambda>d. d \<in> set draft) (mergeDeviceOrder draft serverOrder) = filter (\<lambda>d. d \<in> set serverOrder) draft"
    "filter (\<lambda>d. d \<notin> set draft) (mergeDeviceOrder draft serverOrder) = filter (\<lambda>d. d \<notin> set draft) serverOrder"
  using assms by (auto simp: mergeDeviceOrder_def Let_def filter_empty_conv intro!: filter_cong)

end
