(* ===== verification/Chart_Geometry.thy ===== *)
theory Chart_Geometry
  imports Prelude
begin

text \<open>
  The drawing rules of the charts: \<open>packages/console-ui/src/workspace/chartGeometry.ts\<close>.  Times are integer milliseconds
  and gaps rationals, with \<open>None\<close> for the infinite gap.  The curve takes a square root, so its points are real numbers,
  and the path is the list of its drawing commands rather than their text.
\<close>

subsection \<open>Gaps\<close>

definition step_widths :: "num list \<Rightarrow> num list" where
  "step_widths ts = map (\<lambda>i. ts ! i - ts ! (i - 1)) [1..<length ts]"

definition typicalInterval :: "num list \<Rightarrow> num option" where
  "typicalInterval timestamps =
     (if length timestamps < 2 then None
      else let gaps = filter (\<lambda>g. g > 0) (step_widths timestamps)
           in if gaps = [] then None else Some (sort gaps ! (length gaps div 2)))"

definition gapThreshold :: "num list \<Rightarrow> num option" where
  "gapThreshold timestamps = map_option (\<lambda>interval. interval * 3) (typicalInterval timestamps)"

definition wider :: "num \<Rightarrow> num option \<Rightarrow> bool" where
  "wider g maxGap = (case maxGap of None \<Rightarrow> False | Some m \<Rightarrow> g > m)"

definition split_item :: "('a \<Rightarrow> num) \<Rightarrow> num option \<Rightarrow> 'a \<Rightarrow> 'a list list \<times> 'a list \<Rightarrow> 'a list list \<times> 'a list" where
  "split_item timeOf maxGap item st =
     (case st of (runs, current) \<Rightarrow>
        if current \<noteq> [] \<and> wider (timeOf item - timeOf (last current)) maxGap then (runs @ [current], [item])
        else (runs, current @ [item]))"

definition splitAtGaps :: "'a list \<Rightarrow> ('a \<Rightarrow> num) \<Rightarrow> num option \<Rightarrow> 'a list list" where
  "splitAtGaps items timeOf maxGap =
     (case fold (split_item timeOf maxGap) items ([], []) of
        (runs, current) \<Rightarrow> if current \<noteq> [] then runs @ [current] else runs)"

definition silentSpans :: "num list \<Rightarrow> num option \<Rightarrow> (num \<times> num) list" where
  "silentSpans timeline maxGap =
     List.map_filter (\<lambda>i. if wider (timeline ! i - timeline ! (i - 1)) maxGap then Some (timeline ! (i - 1), timeline ! i) else None)
       [1..<length timeline]"

subsection \<open>The curve\<close>

record XY =
  px :: real
  py :: real

datatype path_command = MoveTo real real | LineTo real real | CurveTo real real real real real real

definition slopes_of :: "XY list \<Rightarrow> real list" where
  "slopes_of points = map (\<lambda>i. let dx = px (points ! (i + 1)) - px (points ! i)
     in if dx = 0 then 0 else (py (points ! (i + 1)) - py (points ! i)) / dx) [0..<length points - 1]"

definition first_tangents :: "real list \<Rightarrow> real list" where
  "first_tangents slopes =
     slopes ! 0 # map (\<lambda>i. let left = slopes ! (i - 1); right = slopes ! i in if left * right \<le> 0 then 0 else (left + right) / 2)
       [1..<length slopes] @ [slopes ! (length slopes - 1)]"

definition limit_tangents :: "real list \<Rightarrow> nat \<Rightarrow> real list \<Rightarrow> real list" where
  "limit_tangents slopes i tangents =
     (let slope = slopes ! i
      in if slope = 0 then tangents[i := 0, i + 1 := 0]
         else let a = tangents ! i / slope; b = tangents ! (i + 1) / slope; magnitude = a * a + b * b
              in if magnitude > 9 then let scale = 3 / sqrt magnitude in tangents[i := scale * a * slope, i + 1 := scale * b * slope]
                 else tangents)"

definition curve_tangents :: "real list \<Rightarrow> real list" where
  "curve_tangents slopes = fold (limit_tangents slopes) [0..<length slopes] (first_tangents slopes)"

definition curve_command :: "XY list \<Rightarrow> real list \<Rightarrow> nat \<Rightarrow> path_command" where
  "curve_command points tangents i =
     (let p0 = points ! i; p1 = points ! (i + 1); third = (px p1 - px p0) / 3
      in CurveTo (px p0 + third) (py p0 + tangents ! i * third) (px p1 - third) (py p1 - tangents ! (i + 1) * third) (px p1) (py p1))"

definition monotonePath :: "XY list \<Rightarrow> path_command list" where
  "monotonePath points =
     (if length points = 0 then []
      else if length points = 1 then [MoveTo (px (points ! 0)) (py (points ! 0))]
      else if length points = 2 then [MoveTo (px (points ! 0)) (py (points ! 0)), LineTo (px (points ! 1)) (py (points ! 1))]
      else let tangents = curve_tangents (slopes_of points)
           in MoveTo (px (points ! 0)) (py (points ! 0)) # map (curve_command points tangents) [0..<length points - 1])"

subsection \<open>The time axis\<close>

definition DAY :: int where "DAY = 86400000"

definition TIME_STEPS :: "int list" where
  "TIME_STEPS = [1000, 5000, 10000, 15000, 30000, 60000, 120000, 300000, 600000, 900000, 1800000, 3600000, 7200000, 10800000,
     21600000, 43200000, DAY, 2 * DAY, 7 * DAY]"

record TimeAxis =
  ta_step :: int
  ta_ticks :: "int list"

text \<open>The loop over ticks; the step is positive for every positive \<open>maxTicks\<close>, without which it would not end.\<close>

function ticks_from :: "int \<Rightarrow> int \<Rightarrow> int \<Rightarrow> int list" where
  "ticks_from step tick hi = (if 0 < step \<and> tick \<le> hi then tick # ticks_from step (tick + step) hi else [])"
  by auto
termination by (relation "measure (\<lambda>(step, tick, hi). nat (hi + 1 - tick))") auto

declare ticks_from.simps [simp del]

definition time_step :: "int \<Rightarrow> nat \<Rightarrow> int" where
  "time_step width maxTicks =
     (case find (\<lambda>candidate. of_int width / of_int candidate \<le> (of_nat maxTicks :: num)) TIME_STEPS of
        Some step \<Rightarrow> step
      | None \<Rightarrow> \<lceil>of_int width / of_nat maxTicks / of_int DAY :: num\<rceil> * DAY)"

definition niceTimeAxis :: "int \<Rightarrow> int \<Rightarrow> nat \<Rightarrow> int \<Rightarrow> TimeAxis" where
  "niceTimeAxis lo hi maxTicks timezoneOffsetMinutes =
     (let width = max 1 (hi - lo);
          step = time_step width maxTicks;
          shift = - timezoneOffsetMinutes * 60000;
          first = \<lceil>of_int (lo + shift) / of_int step :: num\<rceil> * step - shift
      in \<lparr>ta_step = step, ta_ticks = ticks_from step first hi\<rparr>)"

subsection \<open>Curves stay between their samples\<close>

definition segment_ok :: "real \<Rightarrow> real \<Rightarrow> real \<Rightarrow> bool" where
  "segment_ok slope t0 t1 \<longleftrightarrow> (\<exists>a b. t0 = a * slope \<and> t1 = b * slope \<and> 0 \<le> a \<and> a \<le> 3 \<and> 0 \<le> b \<and> b \<le> 3)"

definition same_sign :: "real \<Rightarrow> real \<Rightarrow> bool" where
  "same_sign slope t \<longleftrightarrow> 0 \<le> slope * t \<and> (slope = 0 \<longrightarrow> t = 0)"

lemma segment_ok_shrink:
  assumes "segment_ok s t0 t1" "0 \<le> c" "c \<le> 1" "0 \<le> d" "d \<le> 1"
  shows "segment_ok s (c * t0) (d * t1)"
proof -
  obtain a b where ab: "t0 = a * s" "t1 = b * s" "0 \<le> a" "a \<le> 3" "0 \<le> b" "b \<le> 3"
    using assms(1) unfolding segment_ok_def by blast
  moreover have "c * a \<le> 1 * 3" "d * b \<le> 1 * 3"
    using assms ab by (intro mult_mono; simp)+
  ultimately show ?thesis
    using assms unfolding segment_ok_def
    by (intro exI [of _ "c * a"] exI [of _ "d * b"]) simp
qed

lemma segment_ok_zero: "segment_ok s 0 0"
  unfolding segment_ok_def by (intro exI [of _ 0]) simp

lemma limit_factor:
  assumes "same_sign s t0" "same_sign s t1"
  shows "\<exists>c. 0 \<le> c \<and> c \<le> 1 \<and> segment_ok s (c * t0) (c * t1) \<and>
    (\<forall>ts k. ts ! k = t0 \<longrightarrow> ts ! (k + 1) = t1 \<longrightarrow> slopes ! k = s \<longrightarrow> limit_tangents slopes k ts = ts[k := c * t0, k + 1 := c * t1])"
proof (cases "s = 0")
  case True
  then show ?thesis
    by (intro exI [of _ 0]) (auto simp: segment_ok_zero limit_tangents_def Let_def)
next
  case False
  define a b m where "a = t0 / s" and "b = t1 / s" and "m = a * a + b * b"
  have ab: "0 \<le> a" "0 \<le> b" "a * s = t0" "b * s = t1"
    using assms False by (auto simp: a_def b_def same_sign_def zero_le_divide_iff zero_le_mult_iff)
  show ?thesis
  proof (cases "m > 9")
    case True
    define c where "c = 3 / sqrt m"
    have "sqrt 9 < sqrt m" using True by (simp only: real_sqrt_less_iff)
    then have m3: "3 < sqrt m" by simp
    have "a * a \<le> m" "b * b \<le> m" by (simp_all add: m_def)
    then have "sqrt (a * a) \<le> sqrt m" "sqrt (b * b) \<le> sqrt m" by (simp_all only: real_sqrt_le_iff)
    then have "a \<le> sqrt m" "b \<le> sqrt m" using ab by simp_all
    then have "c * a \<le> 3" "c * b \<le> 3" using m3 True by (simp_all add: c_def divide_le_eq)
    moreover have c: "0 \<le> c" "c \<le> 1" using m3 True by (simp_all add: c_def divide_le_eq)
    ultimately have "segment_ok s (c * t0) (c * t1)"
      unfolding segment_ok_def using ab by (intro exI [of _ "c * a"] exI [of _ "c * b"]) (simp add: mult.assoc)
    moreover have "limit_tangents slopes k ts = ts[k := c * t0, k + 1 := c * t1]"
      if "ts ! k = t0" "ts ! (k + 1) = t1" "slopes ! k = s" for ts k
    proof -
      have "limit_tangents slopes k ts = ts[k := c * a * s, k + 1 := c * b * s]"
        using that False True by (simp add: limit_tangents_def Let_def c_def m_def a_def b_def)
      then show ?thesis using ab by (simp add: mult.assoc)
    qed
    ultimately show ?thesis using c by (intro exI [of _ c]) blast
  next
    case le: False
    have "0 \<le> a * a" "0 \<le> b * b" by simp_all
    then have "a * a \<le> 9" "b * b \<le> 9"
      using le unfolding m_def by linarith+
    then have "a \<le> 3" "b \<le> 3"
      using power2_le_imp_le [of a 3] power2_le_imp_le [of b 3] by (simp_all add: power2_eq_square)
    then have "segment_ok s t0 t1"
      unfolding segment_ok_def using ab by (intro exI [of _ a] exI [of _ b]) simp
    moreover have "limit_tangents slopes k ts = ts[k := t0, k + 1 := t1]"
      if "ts ! k = t0" "ts ! (k + 1) = t1" "slopes ! k = s" for ts k
      using that False le list_update_id [of ts k] list_update_id [of ts "k + 1"]
      by (simp add: limit_tangents_def Let_def m_def a_def b_def)
    ultimately show ?thesis by (intro exI [of _ 1]) simp
  qed
qed


text \<open>Before step \<open>k\<close>: the segments done are within bounds, the tangents of the others point the way their segment goes.\<close>

definition tangents_ok :: "real list \<Rightarrow> nat \<Rightarrow> real list \<Rightarrow> bool" where
  "tangents_ok slopes k ts \<longleftrightarrow> length ts = Suc (length slopes) \<and>
     (\<forall>i < k. segment_ok (slopes ! i) (ts ! i) (ts ! (i + 1))) \<and>
     (\<forall>i. k \<le> i \<longrightarrow> i < length slopes \<longrightarrow> same_sign (slopes ! i) (ts ! i) \<and> same_sign (slopes ! i) (ts ! (i + 1)))"

lemma same_sign_shrink: "same_sign s t \<Longrightarrow> 0 \<le> c \<Longrightarrow> same_sign s (c * t)"
  by (auto simp: same_sign_def mult.left_commute)

lemma tangents_ok_step:
  assumes "tangents_ok slopes k ts" "k < length slopes"
  shows "tangents_ok slopes (Suc k) (limit_tangents slopes k ts)"
proof -
  have len: "length ts = Suc (length slopes)" using assms(1) by (simp add: tangents_ok_def)
  have "same_sign (slopes ! k) (ts ! k)" "same_sign (slopes ! k) (ts ! (k + 1))"
    using assms by (simp_all add: tangents_ok_def)
  then obtain c where c: "0 \<le> c" "c \<le> 1" and ok: "segment_ok (slopes ! k) (c * ts ! k) (c * ts ! (k + 1))"
    and eq: "limit_tangents slopes k ts = ts[k := c * ts ! k, k + 1 := c * ts ! (k + 1)]"
    using limit_factor by blast
  have nth: "(ts[k := c * ts ! k, k + 1 := c * ts ! (k + 1)]) ! i = (if i = k \<or> i = k + 1 then c * ts ! i else ts ! i)" for i
    using assms(2) len by (simp add: nth_list_update)
  have done_before: "segment_ok (slopes ! i) ((ts[k := c * ts ! k, k + 1 := c * ts ! (k + 1)]) ! i)
      ((ts[k := c * ts ! k, k + 1 := c * ts ! (k + 1)]) ! (i + 1))" if "i < k" for i
  proof -
    have "segment_ok (slopes ! i) (ts ! i) (ts ! (i + 1))"
      using assms(1) that by (simp add: tangents_ok_def)
    then show ?thesis
      using segment_ok_shrink [of "slopes ! i" "ts ! i" "ts ! (i + 1)" 1 c] segment_ok_shrink [of "slopes ! i" "ts ! i" "ts ! (i + 1)" 1 1] c that
      unfolding nth by (cases "i + 1 = k") simp_all
  qed
  have later: "same_sign (slopes ! i) ((ts[k := c * ts ! k, k + 1 := c * ts ! (k + 1)]) ! i) \<and>
      same_sign (slopes ! i) ((ts[k := c * ts ! k, k + 1 := c * ts ! (k + 1)]) ! (i + 1))" if "Suc k \<le> i" "i < length slopes" for i
  proof -
    have "same_sign (slopes ! i) (ts ! i)" "same_sign (slopes ! i) (ts ! (i + 1))"
      using assms(1) that by (simp_all add: tangents_ok_def)
    then show ?thesis
      using that c(1) unfolding nth by (auto intro: same_sign_shrink)
  qed
  show ?thesis
    unfolding eq tangents_ok_def
  proof (intro conjI allI impI)
    show "length (ts[k := c * ts ! k, k + 1 := c * ts ! (k + 1)]) = Suc (length slopes)" using len by simp
  next
    fix i assume "i < Suc k"
    then show "segment_ok (slopes ! i) ((ts[k := c * ts ! k, k + 1 := c * ts ! (k + 1)]) ! i)
      ((ts[k := c * ts ! k, k + 1 := c * ts ! (k + 1)]) ! (i + 1))"
      using done_before ok nth [of k] nth [of "k + 1"] unfolding less_Suc_eq by auto
  qed (use later in auto)
qed

lemma tangents_ok_run: "k \<le> length slopes \<Longrightarrow> tangents_ok slopes 0 ts \<Longrightarrow> tangents_ok slopes k (fold (limit_tangents slopes) [0..<k] ts)"
  by (induction k) (auto intro: tangents_ok_step)

lemma length_first_tangents: "slopes \<noteq> [] \<Longrightarrow> length (first_tangents slopes) = Suc (length slopes)"
  by (simp add: first_tangents_def flip: length_greater_0_conv)

lemma first_tangent_nth:
  assumes "slopes \<noteq> []" "i \<le> length slopes"
  shows "first_tangents slopes ! i = (if i = 0 then slopes ! 0 else if i = length slopes then slopes ! (length slopes - 1)
    else if slopes ! (i - 1) * slopes ! i \<le> 0 then 0 else (slopes ! (i - 1) + slopes ! i) / 2)"
proof (cases i)
  case (Suc j)
  then show ?thesis
    using assms by (cases "j < length slopes - 1") (auto simp: first_tangents_def nth_append Let_def)
qed (simp add: first_tangents_def)

lemma same_sign_mean: "same_sign l (if l * r \<le> 0 then 0 else (l + r) / 2) \<and> same_sign r (if l * r \<le> 0 then 0 else (l + r) / 2)"
  for l r :: real
  by (auto simp: same_sign_def mult_le_0_iff zero_le_mult_iff not_le zero_less_mult_iff)

lemma first_tangents_ok:
  assumes "slopes \<noteq> []"
  shows "tangents_ok slopes 0 (first_tangents slopes)"
proof -
  have self: "same_sign s s" for s by (simp add: same_sign_def)
  have "same_sign (slopes ! i) (first_tangents slopes ! i)" if "i < length slopes" for i
    using that same_sign_mean [of "slopes ! (i - 1)" "slopes ! i"] self first_tangent_nth [OF assms, of i] by (cases "i = 0") auto
  moreover have "same_sign (slopes ! i) (first_tangents slopes ! (i + 1))" if "i < length slopes" for i
  proof (cases "i + 1 = length slopes")
    case True
    then have "length slopes - 1 = i" by simp
    then show ?thesis using True self first_tangent_nth [OF assms, of "i + 1"] assms by simp
  next
    case False
    then show ?thesis
      using that same_sign_mean [of "slopes ! i" "slopes ! (i + 1)"] first_tangent_nth [OF assms, of "i + 1"] by auto
  qed
  ultimately have "same_sign (slopes ! i) (first_tangents slopes ! i) \<and> same_sign (slopes ! i) (first_tangents slopes ! (i + 1))"
    if "i < length slopes" for i
    using that by blast
  then show ?thesis
    using length_first_tangents [OF assms] by (simp add: tangents_ok_def)
qed

lemma curve_tangents_ok:
  "i < length slopes \<Longrightarrow> segment_ok (slopes ! i) (curve_tangents slopes ! i) (curve_tangents slopes ! (i + 1))"
  using tangents_ok_run [of "length slopes" slopes "first_tangents slopes"] first_tangents_ok [of slopes]
  by (cases "slopes = []") (auto simp: curve_tangents_def tangents_ok_def)


text \<open>A cubic curve with two end points and two control points, in one coordinate.\<close>

definition bezier :: "real \<Rightarrow> real \<Rightarrow> real \<Rightarrow> real \<Rightarrow> real \<Rightarrow> real" where
  "bezier p0 c0 c1 p1 t = (1 - t) ^ 3 * p0 + 3 * (1 - t) ^ 2 * t * c0 + 3 * (1 - t) * t ^ 2 * c1 + t ^ 3 * p1"

lemma bezier_weights: "(1 - t) ^ 3 + 3 * (1 - t) ^ 2 * t + 3 * (1 - t) * t ^ 2 + t ^ 3 = (1::real)"
  by (simp add: power2_eq_square power3_eq_cube algebra_simps)

lemma bezier_le:
  assumes "0 \<le> t" "t \<le> 1" "p0 \<le> m" "c0 \<le> m" "c1 \<le> m" "p1 \<le> m"
  shows "bezier p0 c0 c1 p1 t \<le> m"
proof -
  have w: "0 \<le> (1 - t) ^ 3" "0 \<le> 3 * (1 - t) ^ 2 * t" "0 \<le> 3 * (1 - t) * t ^ 2" "0 \<le> t ^ 3"
    using assms(1,2) by simp_all
  have "bezier p0 c0 c1 p1 t \<le> (1 - t) ^ 3 * m + 3 * (1 - t) ^ 2 * t * m + 3 * (1 - t) * t ^ 2 * m + t ^ 3 * m"
    unfolding bezier_def by (intro add_mono mult_left_mono) (use assms w in auto)
  also have "\<dots> = ((1 - t) ^ 3 + 3 * (1 - t) ^ 2 * t + 3 * (1 - t) * t ^ 2 + t ^ 3) * m"
    by (simp add: algebra_simps)
  finally show ?thesis by (simp only: bezier_weights mult_1)
qed

lemma bezier_minus: "bezier (- p0) (- c0) (- c1) (- p1) t = - bezier p0 c0 c1 p1 t"
  by (simp add: bezier_def)

lemma bezier_between:
  assumes "0 \<le> t" "t \<le> 1" "0 \<le> a" "a \<le> 1" "0 \<le> b" "b \<le> 1"
  shows "min p0 p1 \<le> bezier p0 (p0 + a * (p1 - p0)) (p1 - b * (p1 - p0)) p1 t"
    and "bezier p0 (p0 + a * (p1 - p0)) (p1 - b * (p1 - p0)) p1 t \<le> max p0 p1"
proof -
  have upper: "q0 + x * (q1 - q0) \<le> max q0 q1" if "0 \<le> x" "x \<le> 1" for q0 q1 x :: real
  proof -
    have "q0 + x * (q1 - q0) = (1 - x) * q0 + x * q1" by (simp add: algebra_simps)
    also have "\<dots> \<le> (1 - x) * max q0 q1 + x * max q0 q1"
      using that by (intro add_mono mult_left_mono) auto
    finally show ?thesis by (simp add: algebra_simps)
  qed
  have c1: "q1 - b * (q1 - q0) = q1 + b * (q0 - q1)" for q0 q1 :: real by (simp add: algebra_simps)
  have le: "bezier q0 (q0 + a * (q1 - q0)) (q1 - b * (q1 - q0)) q1 t \<le> max q0 q1" for q0 q1
    using upper [OF assms(3,4), of q0 q1] upper [OF assms(5,6), of q1 q0] assms(1,2)
    by (intro bezier_le) (simp_all add: c1 max.commute)
  show "bezier p0 (p0 + a * (p1 - p0)) (p1 - b * (p1 - p0)) p1 t \<le> max p0 p1" by (rule le)
  have "bezier (- p0) (- p0 + a * (- p1 - - p0)) (- p1 - b * (- p1 - - p0)) (- p1) t \<le> max (- p0) (- p1)" by (rule le)
  moreover have "- p0 + a * (- p1 - - p0) = - (p0 + a * (p1 - p0))" "- p1 - b * (- p1 - - p0) = - (p1 - b * (p1 - p0))"
    by (simp_all add: algebra_simps)
  ultimately have "- bezier p0 (p0 + a * (p1 - p0)) (p1 - b * (p1 - p0)) p1 t \<le> - min p0 p1"
    by (simp only: bezier_minus minus_min_eq_max)
  then show "min p0 p1 \<le> bezier p0 (p0 + a * (p1 - p0)) (p1 - b * (p1 - p0)) p1 t" by simp
qed

text \<open>
  C40: the path through three or more samples starts at the first one, goes through every one of them, and between two
  neighbours the drawn curve never leaves the range of their two values: it shows no peak and no trough that the data
  does not contain.
\<close>

theorem curve_within_samples:
  assumes "3 \<le> length points"
  shows "length (monotonePath points) = length points \<and> hd (monotonePath points) = MoveTo (px (points ! 0)) (py (points ! 0)) \<and>
    (\<forall>i < length points - 1. \<exists>c0x c0y c1x c1y.
       monotonePath points ! (i + 1) = CurveTo c0x c0y c1x c1y (px (points ! (i + 1))) (py (points ! (i + 1))) \<and>
       (\<forall>t. 0 \<le> t \<and> t \<le> 1 \<longrightarrow>
          min (py (points ! i)) (py (points ! (i + 1))) \<le> bezier (py (points ! i)) c0y c1y (py (points ! (i + 1))) t \<and>
          bezier (py (points ! i)) c0y c1y (py (points ! (i + 1))) t \<le> max (py (points ! i)) (py (points ! (i + 1)))))"
proof -
  let ?ts = "curve_tangents (slopes_of points)"
  have path: "monotonePath points = MoveTo (px (points ! 0)) (py (points ! 0)) # map (curve_command points ?ts) [0..<length points - 1]"
    using assms by (auto simp: monotonePath_def Let_def)
  have "\<exists>a b. 0 \<le> a \<and> a \<le> 1 \<and> 0 \<le> b \<and> b \<le> 1 \<and>
      ?ts ! i * ((px (points ! (i + 1)) - px (points ! i)) / 3) = a * (py (points ! (i + 1)) - py (points ! i)) \<and>
      ?ts ! (i + 1) * ((px (points ! (i + 1)) - px (points ! i)) / 3) = b * (py (points ! (i + 1)) - py (points ! i))"
    if i: "i < length points - 1" for i
  proof -
    let ?dx = "px (points ! (i + 1)) - px (points ! i)" and ?dy = "py (points ! (i + 1)) - py (points ! i)"
    have slope: "slopes_of points ! i = (if ?dx = 0 then 0 else ?dy / ?dx)"
      using i by (simp add: slopes_of_def Let_def)
    obtain a b where ab: "?ts ! i = a * slopes_of points ! i" "?ts ! (i + 1) = b * slopes_of points ! i" "0 \<le> a" "a \<le> 3" "0 \<le> b" "b \<le> 3"
      using curve_tangents_ok [of i "slopes_of points"] i unfolding segment_ok_def by (auto simp: slopes_of_def)
    show ?thesis
    proof (cases "?dx = 0")
      case True
      then show ?thesis by (intro exI [of _ 0]) simp
    next
      case False
      then show ?thesis
        using ab by (intro exI [of _ "a / 3"] exI [of _ "b / 3"]) (simp add: slope)
    qed
  qed
  then have "\<exists>c0x c0y c1x c1y. monotonePath points ! (i + 1) = CurveTo c0x c0y c1x c1y (px (points ! (i + 1))) (py (points ! (i + 1))) \<and>
      (\<forall>t. 0 \<le> t \<and> t \<le> 1 \<longrightarrow>
          min (py (points ! i)) (py (points ! (i + 1))) \<le> bezier (py (points ! i)) c0y c1y (py (points ! (i + 1))) t \<and>
          bezier (py (points ! i)) c0y c1y (py (points ! (i + 1))) t \<le> max (py (points ! i)) (py (points ! (i + 1))))"
    if i: "i < length points - 1" for i
    using i bezier_between unfolding path by (fastforce simp: curve_command_def Let_def)
  then show ?thesis
    using assms by (simp add: path)
qed


theorem curve_within_samples_witness:
  "hd (monotonePath [\<lparr>px = 0, py = 0\<rparr>, \<lparr>px = 1, py = 100\<rparr>, \<lparr>px = 2, py = 100\<rparr>]) = MoveTo 0 0 \<and>
   length (monotonePath [\<lparr>px = 0, py = 0\<rparr>, \<lparr>px = 1, py = 100\<rparr>, \<lparr>px = 2, py = 100\<rparr>]) = 3"
  using curve_within_samples [of "[\<lparr>px = 0, py = 0\<rparr>, \<lparr>px = 1, py = 100\<rparr>, \<lparr>px = 2, py = 100\<rparr>]"] by simp

subsection \<open>Curves break where samples stop\<close>

text \<open>The runs of a list: nothing wider than the gap inside a run, only wider ones between runs.\<close>

definition runs_ok :: "('a \<Rightarrow> num) \<Rightarrow> num option \<Rightarrow> 'a list list \<Rightarrow> bool" where
  "runs_ok timeOf maxGap runs \<longleftrightarrow> [] \<notin> set runs \<and>
     (\<forall>r \<in> set runs. successively (\<lambda>a b. \<not> wider (timeOf b - timeOf a) maxGap) r) \<and>
     successively (\<lambda>r r'. wider (timeOf (hd r') - timeOf (last r)) maxGap) runs"

lemma split_item_ok:
  assumes "runs_ok timeOf maxGap (runs @ [current])" "split_item timeOf maxGap item (runs, current) = (runs', current')"
  shows "runs_ok timeOf maxGap (runs' @ [current']) \<and> concat (runs' @ [current']) = concat (runs @ [current]) @ [item]"
proof (cases "wider (timeOf item - timeOf (last current)) maxGap")
  case True
  then show ?thesis
    using assms by (auto simp: split_item_def runs_ok_def successively_append_iff)
next
  case False
  have ne: "current \<noteq> []" using assms(1) by (auto simp: runs_ok_def)
  then have eq: "runs' = runs" "current' = current @ [item]" using assms(2) False by (simp_all add: split_item_def)
  have "hd (current @ [item]) = hd current" using ne by simp
  then show ?thesis
    using assms(1) False ne unfolding eq runs_ok_def by (auto simp: successively_append_iff)
qed

lemma split_fold_ok:
  assumes "runs_ok timeOf maxGap (runs @ [current])" "fold (split_item timeOf maxGap) items (runs, current) = (runs', current')"
  shows "runs_ok timeOf maxGap (runs' @ [current']) \<and> concat (runs' @ [current']) = concat (runs @ [current]) @ items"
  using assms
proof (induction items arbitrary: runs current)
  case (Cons x items)
  obtain r c where rc: "split_item timeOf maxGap x (runs, current) = (r, c)" by fastforce
  note step = split_item_ok [OF Cons.prems(1) rc]
  have "fold (split_item timeOf maxGap) items (r, c) = (runs', current')"
    using Cons.prems(2) by (simp add: rc)
  from Cons.IH [OF conjunct1 [OF step] this] step show ?case
    by simp
qed simp

lemma splitAtGaps_ok:
  "runs_ok timeOf maxGap (splitAtGaps items timeOf maxGap) \<and> concat (splitAtGaps items timeOf maxGap) = items"
proof (cases items)
  case (Cons x xs)
  obtain r c where rc: "fold (split_item timeOf maxGap) xs ([], [x]) = (r, c)" by fastforce
  have "runs_ok timeOf maxGap ([] @ [[x]])" by (simp add: runs_ok_def)
  note ok = split_fold_ok [OF this rc]
  then have "c \<noteq> []" by (auto simp: runs_ok_def)
  moreover have "splitAtGaps items timeOf maxGap = (if c \<noteq> [] then r @ [c] else r)"
    by (simp add: splitAtGaps_def Cons split_item_def rc)
  ultimately show ?thesis
    using ok by (simp add: Cons)
qed (simp add: splitAtGaps_def runs_ok_def)

text \<open>
  Cutting a curve at its gaps loses and reorders no sample: the pieces put together are the samples; no two
  neighbours inside a piece are further apart than the gap allows, and neighbouring pieces always are.
\<close>

theorem gaps_split_curves:
  fixes items :: "'a list" and timeOf maxGap
  defines "runs \<equiv> splitAtGaps items timeOf maxGap"
  shows "concat runs = items \<and> [] \<notin> set runs \<and>
    (\<forall>r \<in> set runs. \<forall>i. i + 1 < length r \<longrightarrow> \<not> wider (timeOf (r ! (i + 1)) - timeOf (r ! i)) maxGap) \<and>
    (\<forall>j. j + 1 < length runs \<longrightarrow> wider (timeOf (hd (runs ! (j + 1))) - timeOf (last (runs ! j))) maxGap)"
  using splitAtGaps_ok [of timeOf maxGap items] unfolding runs_def runs_ok_def
  by (auto simp: successively_conv_nth)

theorem gaps_split_curves_witness:
  "splitAtGaps [0, 10, 20, 100, 110 :: num] (\<lambda>t. t) (gapThreshold [0, 10, 20, 100, 110]) = [[0, 10, 20], [100, 110]] \<and>
   concat (splitAtGaps [0, 10, 20, 100, 110 :: num] (\<lambda>t. t) (gapThreshold [0, 10, 20, 100, 110])) = [0, 10, 20, 100, 110]"
proof -
  have "splitAtGaps [0, 10, 20, 100, 110 :: num] (\<lambda>t. t) (gapThreshold [0, 10, 20, 100, 110]) = [[0, 10, 20], [100, 110]]"
    by code_simp
  then show ?thesis
    using gaps_split_curves [of "[0, 10, 20, 100, 110 :: num]" "\<lambda>t. t" "gapThreshold [0, 10, 20, 100, 110]"] by simp
qed


subsection \<open>Ticks\<close>

lemma set_ticks_from:
  "0 < step \<Longrightarrow> x \<in> set (ticks_from step tick hi) \<longleftrightarrow> tick \<le> x \<and> x \<le> hi \<and> (\<exists>k::nat. x = tick + int k * step)"
proof (induction step tick hi rule: ticks_from.induct)
  case (1 step tick hi)
  show ?case
  proof (cases "tick \<le> hi")
    case True
    have eq: "(\<exists>k::nat. x = tick + int k * step) \<longleftrightarrow> x = tick \<or> (\<exists>k::nat. x = tick + step + int k * step)"
    proof
      assume "\<exists>k::nat. x = tick + int k * step"
      then obtain k :: nat where k: "x = tick + int k * step" by blast
      then show "x = tick \<or> (\<exists>k::nat. x = tick + step + int k * step)"
        by (cases k) (auto simp: algebra_simps)
    next
      assume "x = tick \<or> (\<exists>k::nat. x = tick + step + int k * step)"
      then show "\<exists>k::nat. x = tick + int k * step"
      proof
        assume "x = tick"
        then show ?thesis by (intro exI [of _ 0]) simp
      next
        assume "\<exists>k::nat. x = tick + step + int k * step"
        then obtain k :: nat where "x = tick + step + int k * step" by blast
        then show ?thesis by (intro exI [of _ "Suc k"]) (simp add: algebra_simps)
      qed
    qed
    have later: "x = tick + step + int k * step \<Longrightarrow> tick + step \<le> x" for k :: nat
      using "1.prems" by simp
    have IH: "x \<in> set (ticks_from step (tick + step) hi) \<longleftrightarrow> tick + step \<le> x \<and> x \<le> hi \<and> (\<exists>k::nat. x = tick + step + int k * step)"
      using 1 True by blast
    have "x \<in> set (ticks_from step tick hi) \<longleftrightarrow> x = tick \<or> x \<in> set (ticks_from step (tick + step) hi)"
      using "1.prems" True by (simp add: ticks_from.simps [of step tick hi])
    then show ?thesis
      unfolding IH eq using later "1.prems" True by fastforce
  next
    case False
    then show ?thesis by (auto simp: ticks_from.simps [of step tick hi])
  qed
qed

lemma sorted_ticks_from: "0 < step \<Longrightarrow> sorted_wrt (\<lambda>a b. a + step \<le> b) (ticks_from step tick hi)"
proof (induction step tick hi rule: ticks_from.induct)
  case (1 step tick hi)
  then show ?case
    by (subst ticks_from.simps) (auto simp: set_ticks_from)
qed

lemma length_ticks_from:
  assumes "0 < step"
  shows "int (length (ticks_from step tick hi)) * step \<le> max 0 (hi - tick + step)"
  using assms
proof (induction step tick hi rule: ticks_from.induct)
  case (1 step tick hi)
  then show ?case
    by (subst ticks_from.simps) (auto simp: algebra_simps)
qed

lemma time_step_facts:
  assumes "1 \<le> width" "1 \<le> maxTicks"
  shows "0 < time_step width maxTicks" "width \<le> int maxTicks * time_step width maxTicks"
    "time_step width maxTicks \<in> set TIME_STEPS \<or> DAY dvd time_step width maxTicks"
proof -
  have "0 < time_step width maxTicks \<and> width \<le> int maxTicks * time_step width maxTicks \<and>
    (time_step width maxTicks \<in> set TIME_STEPS \<or> DAY dvd time_step width maxTicks)"
  proof (cases "find (\<lambda>candidate. of_int width / of_int candidate \<le> (of_nat maxTicks :: num)) TIME_STEPS")
    case (Some step)
    then have step: "of_int width / of_int step \<le> (of_nat maxTicks :: num)" "step \<in> set TIME_STEPS"
      by (auto simp: find_Some_iff)
    then have pos: "0 < step" by (auto simp: TIME_STEPS_def DAY_def)
    have "(of_int width :: num) \<le> of_int (int maxTicks * step)"
      using step(1) pos by (simp add: divide_le_eq)
    then have "width \<le> int maxTicks * step" by (simp only: of_int_le_iff)
    then show ?thesis using Some pos step(2) by (simp add: time_step_def)
  next
    case None
    let ?q = "of_int width / of_nat maxTicks / of_int DAY :: num"
    have q: "0 < ?q" using assms by (simp add: DAY_def)
    then have pos: "0 < \<lceil>?q\<rceil>" by simp
    define d where "d = (of_nat maxTicks * of_int DAY :: num)"
    have d: "0 < d" using assms by (simp add: d_def DAY_def)
    have "?q * d \<le> of_int \<lceil>?q\<rceil> * d" by (rule mult_right_mono [OF le_of_int_ceiling]) (use d in simp)
    moreover have "?q * d = of_int width" using assms by (simp add: d_def DAY_def)
    ultimately have "(of_int width :: num) \<le> of_int (int maxTicks * (\<lceil>?q\<rceil> * DAY))"
      by (simp only: d_def of_int_mult of_int_of_nat_eq mult.left_commute mult.commute)
    then have "width \<le> int maxTicks * (\<lceil>?q\<rceil> * DAY)" by (simp only: of_int_le_iff)
    then show ?thesis using None pos by (simp add: time_step_def DAY_def)
  qed
  then show "0 < time_step width maxTicks" "width \<le> int maxTicks * time_step width maxTicks"
    "time_step width maxTicks \<in> set TIME_STEPS \<or> DAY dvd time_step width maxTicks" by auto
qed

lemma ceiling_multiple:
  fixes step :: int
  assumes "0 < step"
  shows "z \<le> \<lceil>of_int z / of_int step :: num\<rceil> * step" "\<lceil>of_int z / of_int step :: num\<rceil> * step < z + step"
proof -
  let ?c = "\<lceil>of_int z / of_int step :: num\<rceil>"
  have "of_int z / of_int step * of_int step \<le> (of_int ?c * of_int step :: num)"
    by (rule mult_right_mono [OF le_of_int_ceiling]) (use assms in simp)
  then have "(of_int z :: num) \<le> of_int (?c * step)" using assms by simp
  then show "z \<le> ?c * step" by (simp only: of_int_le_iff)
  have "(of_int ?c :: num) < of_int z / of_int step + 1" using ceiling_correct [of "of_int z / of_int step :: num"] by linarith
  then have "(of_int ?c :: num) * of_int step < (of_int z / of_int step + 1) * of_int step"
    using assms by (intro mult_strict_right_mono) simp_all
  then have "(of_int (?c * step) :: num) < of_int (z + step)" using assms by (simp add: algebra_simps)
  then show "?c * step < z + step" by (simp only: of_int_less_iff)
qed


text \<open>
  The ticks of a time axis are exactly the instants of the shown range that lie on the chosen step of the local clock
  (a whole number of steps since local midnight of the epoch), in increasing order; the step is one of the round ones or
  a whole number of days; and there are at most one more of them than asked for.
\<close>

theorem time_axis_ticks:
  fixes lo hi timezone :: int and maxTicks :: nat
  defines "axis \<equiv> niceTimeAxis lo hi maxTicks timezone"
  defines "local \<equiv> (\<lambda>t. t - timezone * 60000)"
  assumes "lo \<le> hi" "1 \<le> maxTicks"
  shows "0 < ta_step axis \<and> (ta_step axis \<in> set TIME_STEPS \<or> DAY dvd ta_step axis) \<and>
    (t \<in> set (ta_ticks axis) \<longleftrightarrow> lo \<le> t \<and> t \<le> hi \<and> ta_step axis dvd local t) \<and>
    sorted_wrt (<) (ta_ticks axis) \<and> length (ta_ticks axis) \<le> maxTicks + 1"
proof -
  let ?w = "max 1 (hi - lo)"
  let ?s = "time_step ?w maxTicks"
  let ?first = "\<lceil>of_int (lo - timezone * 60000) / of_int ?s :: num\<rceil> * ?s + timezone * 60000"
  have axis: "ta_step axis = ?s" "ta_ticks axis = ticks_from ?s ?first hi"
    by (simp_all add: axis_def niceTimeAxis_def Let_def)
  have s: "0 < ?s" "?w \<le> int maxTicks * ?s" "?s \<in> set TIME_STEPS \<or> DAY dvd ?s"
    using time_step_facts [of ?w maxTicks] assms(4) by simp_all
  note c = ceiling_multiple [OF s(1), of "lo - timezone * 60000"]
  have first: "lo \<le> ?first" "?first < lo + ?s" using c by simp_all
  have dvd: "?s dvd local ?first" by (simp add: local_def)
  have iff: "t \<in> set (ta_ticks axis) \<longleftrightarrow> lo \<le> t \<and> t \<le> hi \<and> ?s dvd local t"
  proof
    assume "t \<in> set (ta_ticks axis)"
    then obtain k :: nat where k: "?first \<le> t" "t \<le> hi" "t = ?first + int k * ?s"
      unfolding axis by (auto simp: set_ticks_from [OF s(1)])
    have "local t = local ?first + int k * ?s" by (simp add: local_def k(3))
    then have "?s dvd local t" using dvd by simp
    then show "lo \<le> t \<and> t \<le> hi \<and> ?s dvd local t" using first(1) k by linarith
  next
    assume t: "lo \<le> t \<and> t \<le> hi \<and> ?s dvd local t"
    then have "?s dvd local t - local ?first" using dvd by (intro dvd_diff) blast+
    then obtain q where q: "t = ?first + q * ?s"
      by (auto simp: local_def dvd_def algebra_simps)
    have "0 \<le> q"
    proof (rule ccontr)
      assume "\<not> 0 \<le> q"
      then have "q * ?s \<le> (-1) * ?s" using s(1) by (intro mult_right_mono) simp_all
      then show False using q t first(2) by simp
    qed
    then show "t \<in> set (ta_ticks axis)"
      unfolding axis set_ticks_from [OF s(1)] using q t s(1) by (intro conjI exI [of _ "nat q"]) simp_all
  qed
  have "int (length (ta_ticks axis)) * ?s \<le> max 0 (hi - ?first + ?s)"
    unfolding axis by (rule length_ticks_from [OF s(1)])
  also have "\<dots> \<le> int maxTicks * ?s + ?s"
    using first(1) s(1,2) by simp
  also have "\<dots> = (int maxTicks + 1) * ?s" by (simp add: algebra_simps)
  finally have "int (length (ta_ticks axis)) \<le> int maxTicks + 1"
    using s(1) by simp
  moreover have "sorted_wrt (<) (ta_ticks axis)"
    unfolding axis by (rule sorted_wrt_mono_rel [OF _ sorted_ticks_from [OF s(1)]]) (use s(1) in simp)
  ultimately show ?thesis
    using iff s unfolding axis(1) by (simp add: axis(1))
qed

theorem time_axis_ticks_witness:
  "length (ta_ticks (niceTimeAxis 0 4000 4 0)) \<le> 5 \<and> ta_ticks (niceTimeAxis 0 4000 4 0) = [0, 1000, 2000, 3000, 4000]"
proof -
  have "ta_ticks (niceTimeAxis 0 4000 4 0) = [0, 1000, 2000, 3000, 4000]"
    by code_simp
  then show ?thesis
    using time_axis_ticks [of 0 4000 4 0 0] by simp
qed

end
