(* ===== verification/Chart_Samples.thy ===== *)
theory Chart_Samples
  imports Js_Text
begin

text \<open>
  What the console reads off a chart: \<open>sampleTime.ts\<close>, \<open>chartInspection.ts\<close> and the sample functions of
  \<open>formatters.ts\<close> in \<open>packages/console-ui/src/workspace\<close>.  The numbers of samples are finite; a timestamp that
  \<open>Date.parse\<close> cannot read has no time (\<open>None\<close> for \<open>NaN\<close>).  Formatting is a parameter, and the dash shown for an
  absent value is \<open>None\<close>.

  The facts: the cache of parsed timestamps never changes an answer and stays bounded; the time under the pointer is the
  nearest sample of any curve; an inspection shows samples of exactly that time; the summary of a window holds real
  samples that bound all others; thinning for display keeps order, ends and size.
\<close>

subsection \<open>Parsed timestamps\<close>

definition CACHE_LIMIT :: nat where "CACHE_LIMIT = 4096"

type_synonym time_cache = "(string, int option) jsmap"

text \<open>A cached \<open>NaN\<close> is not \<open>undefined\<close>, so it is a hit.  The oldest key goes first.\<close>

definition dateValueOf :: "string \<Rightarrow> time_cache \<Rightarrow> int option \<times> time_cache" where
  "dateValueOf timestamp cache =
     (case map_get cache timestamp of
        Some cached \<Rightarrow> (cached, cache)
      | None \<Rightarrow>
          (let parsed = Date_parse timestamp;
               kept = (if length cache \<ge> CACHE_LIMIT then (case cache of [] \<Rightarrow> [] | (oldest, _) # _ \<Rightarrow> map_delete oldest cache) else cache)
           in (parsed, map_set timestamp parsed kept)))"

fun dateValues :: "string list \<Rightarrow> time_cache \<Rightarrow> int option list \<times> time_cache" where
  "dateValues [] cache = ([], cache)"
| "dateValues (t # ts) cache = (case dateValueOf t cache of (v, cache1) \<Rightarrow>
     (case dateValues ts cache1 of (vs, cache2) \<Rightarrow> (v # vs, cache2)))"

definition time_cache_ok :: "time_cache \<Rightarrow> bool" where
  "time_cache_ok cache \<longleftrightarrow> distinct (map_keys cache) \<and> length cache \<le> CACHE_LIMIT \<and> (\<forall>(t, v) \<in> set cache. v = Date_parse t)"

lemma dateValueOf_ok:
  assumes "time_cache_ok cache"
  shows "fst (dateValueOf t cache) = Date_parse t" "time_cache_ok (snd (dateValueOf t cache))"
proof -
  show "fst (dateValueOf t cache) = Date_parse t"
    using assms by (auto simp: dateValueOf_def time_cache_ok_def Let_def split: option.split dest: map_of_SomeD)
  have sub: "set (map_set t v m) \<subseteq> insert (t, v) (set m)" for v and m :: time_cache
    by (induction m) auto
  have del: "set (map_delete k m) \<subseteq> set m" for k and m :: time_cache
    by (auto simp: AList.delete_eq)
  show "time_cache_ok (snd (dateValueOf t cache))"
  proof (cases "map_get cache t")
    case (Some v)
    then show ?thesis using assms by (simp add: dateValueOf_def)
  next
    case None
    define kept where "kept = (if length cache \<ge> CACHE_LIMIT then (case cache of [] \<Rightarrow> [] | (oldest, _) # _ \<Rightarrow> map_delete oldest cache) else cache)"
    have "distinct (map_keys kept)" "set kept \<subseteq> set cache"
      using assms del by (auto simp: kept_def time_cache_ok_def distinct_delete split: list.split)
    moreover have "length kept < CACHE_LIMIT"
    proof (cases cache)
      case (Cons e es)
      have "length (map_delete (fst e) cache) \<le> length es"
        by (simp add: Cons AList.delete_eq case_prod_unfold)
      with assms Cons show ?thesis by (auto simp: kept_def time_cache_ok_def split: prod.split)
    qed (simp add: kept_def CACHE_LIMIT_def)
    moreover have "\<forall>(u, v) \<in> set (map_set t (Date_parse t) kept). v = Date_parse u"
      using sub [of "Date_parse t" kept] calculation(2) assms by (fastforce simp: time_cache_ok_def)
    ultimately have "time_cache_ok (map_set t (Date_parse t) kept)"
      by (auto simp: time_cache_ok_def length_map_set distinct_update)
    then show ?thesis
      using None by (simp add: dateValueOf_def kept_def Let_def)
  qed
qed

theorem sample_time_cache:
  "fst (dateValues ts []) = map Date_parse ts \<and> length (snd (dateValues ts [])) \<le> CACHE_LIMIT"
proof -
  have "time_cache_ok cache \<Longrightarrow> fst (dateValues ts cache) = map Date_parse ts \<and> time_cache_ok (snd (dateValues ts cache))" for cache
  proof (induction ts arbitrary: cache)
    case (Cons t ts)
    then show ?case using dateValueOf_ok [OF Cons.prems, of t] by (auto simp: case_prod_unfold)
  qed simp
  then show ?thesis by (auto simp: time_cache_ok_def)
qed

subsection \<open>The shared timeline\<close>

abbreviation sample_time :: "SamplePoint \<Rightarrow> int option" where
  "sample_time p \<equiv> Date_parse (sp_timestamp p)"

record InspectableSeries =
  sr_label :: string
  sr_points :: "SamplePoint list"
  sr_valueFormatter :: "(num \<Rightarrow> string) option"

record ChartInspectionIndex =
  ci_timeline :: "int list"
  ci_points :: "(int, SamplePoint) jsmap list"

definition index_point :: "SamplePoint \<Rightarrow> (int, SamplePoint) jsmap \<Rightarrow> (int, SamplePoint) jsmap" where
  "index_point point samples = (case sample_time point of None \<Rightarrow> samples | Some t \<Rightarrow> map_set t point samples)"

definition indexChartSamples :: "InspectableSeries list \<Rightarrow> ChartInspectionIndex" where
  "indexChartSamples series =
     \<lparr>ci_timeline = sort (js_uniq (somes (map sample_time (concat (map sr_points series))))),
      ci_points = map (\<lambda>item. fold index_point (sr_points item) []) series\<rparr>"

text \<open>The search for the first time that is not before the target.\<close>

function lower_bound :: "int list \<Rightarrow> num \<Rightarrow> nat \<Rightarrow> nat \<Rightarrow> nat" where
  "lower_bound timeline target low high =
     (if low < high then
        let middle = (low + high) div 2
        in if of_int (timeline ! middle) < target then lower_bound timeline target (middle + 1) high
           else lower_bound timeline target low middle
      else low)"
  by auto
termination by (relation "measure (\<lambda>(_, _, low, high). high - low)") auto

declare lower_bound.simps [simp del]

definition nearestChartTime :: "int list \<Rightarrow> num option \<Rightarrow> int option" where
  "nearestChartTime timeline target =
     (case target of
        None \<Rightarrow> None
      | Some x \<Rightarrow>
          if timeline = [] then None
          else (let low = lower_bound timeline x 0 (length timeline);
                    right = timeline ! (min low (length timeline - 1));
                    left = timeline ! (low - 1)
                in Some (if x - of_int left \<le> of_int right - x then left else right)))"

record InspectedValue =
  iv_label :: string
  iv_point :: "SamplePoint option"
  iv_text :: "string option"

record ChartInspection =
  in_timestamp :: int
  in_values :: "InspectedValue list"

text \<open>\<open>(item.valueFormatter ?? formatter ?? String)(point.value)\<close>; \<open>show\<close> is \<open>String\<close>.\<close>

definition inspected :: "(num \<Rightarrow> string) \<Rightarrow> (num \<Rightarrow> string) option \<Rightarrow> InspectableSeries \<Rightarrow> SamplePoint option \<Rightarrow> InspectedValue" where
  "inspected show formatter item point =
     \<lparr>iv_label = sr_label item, iv_point = point,
      iv_text = map_option (\<lambda>p. nullish (sr_valueFormatter item) (nullish formatter show) (sp_value p)) point\<rparr>"

definition point_map :: "ChartInspectionIndex \<Rightarrow> nat \<Rightarrow> (int, SamplePoint) jsmap" where
  "point_map index position = (if position < length (ci_points index) then ci_points index ! position else [])"

definition inspectChartTime :: "(num \<Rightarrow> string) \<Rightarrow> InspectableSeries list \<Rightarrow> ChartInspectionIndex \<Rightarrow> int \<Rightarrow> (num \<Rightarrow> string) option \<Rightarrow> ChartInspection" where
  "inspectChartTime show series index timestamp formatter =
     \<lparr>in_timestamp = timestamp,
      in_values = map (\<lambda>(position, item). inspected show formatter item (map_get (point_map index position) timestamp)) (enumerate 0 series)\<rparr>"

text \<open>The loops that keep the best entry seen so far.\<close>

type_synonym timed_point = "int \<times> SamplePoint"

definition keep_best :: "(timed_point \<Rightarrow> timed_point \<Rightarrow> bool) \<Rightarrow> timed_point \<Rightarrow> timed_point option \<Rightarrow> timed_point option" where
  "keep_best better entry best = (case best of None \<Rightarrow> Some entry | Some b \<Rightarrow> if better entry b then Some entry else best)"

definition later :: "timed_point \<Rightarrow> timed_point \<Rightarrow> bool" where
  "later e b \<longleftrightarrow> fst e > fst b"

definition latestChartValues :: "(num \<Rightarrow> string) \<Rightarrow> InspectableSeries list \<Rightarrow> ChartInspectionIndex \<Rightarrow> (num \<Rightarrow> string) option \<Rightarrow> ChartInspection option" where
  "latestChartValues show series index formatter =
     (if ci_timeline index = [] then None
      else Some \<lparr>in_timestamp = last (ci_timeline index),
        in_values = map (\<lambda>(position, item). inspected show formatter item (map_option snd (fold (keep_best later) (point_map index position) None)))
          (enumerate 0 series)\<rparr>)"

definition chartSampleWindow :: "ChartInspectionIndex \<Rightarrow> (int \<times> int \<times> nat) option" where
  "chartSampleWindow index =
     (if ci_timeline index = [] then None
      else Some (hd (ci_timeline index), last (ci_timeline index), length (ci_timeline index)))"

subsection \<open>The pointer\<close>

definition chartTimeAtClientX :: "num \<Rightarrow> num \<Rightarrow> num \<Rightarrow> num \<Rightarrow> num \<Rightarrow> num \<Rightarrow> num \<Rightarrow> num \<Rightarrow> num" where
  "chartTimeAtClientX clientX boundsLeft boundsWidth svgWidth left right lo hi =
     (let x = (clientX - boundsLeft) * svgWidth / max 1 boundsWidth;
          ratio = max 0 (min 1 ((x - left) / max 1 (svgWidth - left - right)))
      in lo + ratio * (hi - lo))"

datatype ChartGestureDirection = Pending | Horizontal | Vertical

definition chartGestureDirection :: "ChartGestureDirection \<Rightarrow> num \<Rightarrow> num \<Rightarrow> ChartGestureDirection" where
  "chartGestureDirection direction dx dy =
     (if direction \<noteq> Pending \<or> max \<bar>dx\<bar> \<bar>dy\<bar> < 6 then direction
      else if \<bar>dx\<bar> > \<bar>dy\<bar> then Horizontal else Vertical)"

subsection \<open>The summary of a window\<close>

record SeriesSummary =
  ss_label :: string
  ss_latest :: "SamplePoint option"
  ss_average :: "num option"
  ss_peak :: "SamplePoint option"
  ss_minimum :: "SamplePoint option"

record summary_acc =
  sa_latest :: "timed_point option"
  sa_peak :: "timed_point option"
  sa_minimum :: "timed_point option"
  sa_total :: num
  sa_count :: nat

definition higher :: "timed_point \<Rightarrow> timed_point \<Rightarrow> bool" where
  "higher e b \<longleftrightarrow> sp_value (snd e) > sp_value (snd b) \<or> sp_value (snd e) = sp_value (snd b) \<and> fst e > fst b"

definition lower :: "timed_point \<Rightarrow> timed_point \<Rightarrow> bool" where
  "lower e b \<longleftrightarrow> sp_value (snd e) < sp_value (snd b) \<or> sp_value (snd e) = sp_value (snd b) \<and> fst e > fst b"

definition summary_step :: "SamplePoint \<Rightarrow> summary_acc \<Rightarrow> summary_acc" where
  "summary_step point acc =
     (case sample_time point of
        None \<Rightarrow> acc
      | Some time \<Rightarrow>
          \<lparr>sa_latest = keep_best later (time, point) (sa_latest acc),
           sa_peak = keep_best higher (time, point) (sa_peak acc),
           sa_minimum = keep_best lower (time, point) (sa_minimum acc),
           sa_total = sa_total acc + sp_value point,
           sa_count = sa_count acc + 1\<rparr>)"

definition summarizeSeries :: "InspectableSeries \<Rightarrow> SeriesSummary" where
  "summarizeSeries series =
     (let acc = fold summary_step (sr_points series) \<lparr>sa_latest = None, sa_peak = None, sa_minimum = None, sa_total = 0, sa_count = 0\<rparr>
      in \<lparr>ss_label = sr_label series, ss_latest = map_option snd (sa_latest acc),
          ss_average = (if sa_count acc \<noteq> 0 then Some (sa_total acc / of_nat (sa_count acc)) else None),
          ss_peak = map_option snd (sa_peak acc), ss_minimum = map_option snd (sa_minimum acc)\<rparr>)"

subsection \<open>Samples of several series together\<close>

text \<open>\<open>Math.round(timestamp / 1000) * 1000\<close>.\<close>

definition second_of :: "int \<Rightarrow> int" where
  "second_of time = \<lfloor>of_int time / 1000 + 1 / 2 :: num\<rfloor> * 1000"

text \<open>The samples the loops look at, with their buckets.\<close>

definition second_values :: "SamplePoint list list \<Rightarrow> (int \<times> num) list" where
  "second_values groups = List.map_filter (\<lambda>point. map_option (\<lambda>t. (second_of t, sp_value point)) (sample_time point)) (concat groups)"

definition add_average :: "(num \<times> nat) option \<Rightarrow> int \<times> num \<Rightarrow> num \<times> nat" where
  "add_average current e = (case nullish current (0, 0) of (amount, seen) \<Rightarrow> (amount + snd e, seen + 1))"

definition averageSamplePoints :: "SamplePoint list list \<Rightarrow> SamplePoint list" where
  "averageSamplePoints groups =
     map (\<lambda>(second, (amount, seen)). \<lparr>sp_timestamp = toISOString second, sp_value = amount / of_nat seen\<rparr>)
       (sort_by fst (fold (group_step fst add_average) (second_values groups) []))"

definition averageSamplePointsOrFallback :: "SamplePoint list list \<Rightarrow> SamplePoint list \<Rightarrow> SamplePoint list" where
  "averageSamplePointsOrFallback groups fallback =
     (let average = averageSamplePoints groups in if average \<noteq> [] then average else fallback)"

definition add_sum :: "num option \<Rightarrow> int \<times> num \<Rightarrow> num" where
  "add_sum current e = nullish current 0 + snd e"

definition sumSamplePoints :: "SamplePoint list list \<Rightarrow> SamplePoint list" where
  "sumSamplePoints groups =
     map (\<lambda>(second, amount). \<lparr>sp_timestamp = toISOString second, sp_value = amount\<rparr>)
       (sort_by fst (fold (group_step fst add_sum) (second_values groups) []))"

subsection \<open>Fewer points, and segments\<close>

definition source_index :: "nat \<Rightarrow> nat \<Rightarrow> nat \<Rightarrow> nat" where
  "source_index n maxPoints i = nat \<lfloor>of_nat (i * (n - 1)) / of_nat (maxPoints - 1) + 1 / 2 :: num\<rfloor>"

definition limit_step :: "SamplePoint list \<Rightarrow> nat \<Rightarrow> nat \<Rightarrow> SamplePoint list \<times> nat option \<Rightarrow> SamplePoint list \<times> nat option" where
  "limit_step points maxPoints i st =
     (case st of (limited, lastIndex) \<Rightarrow>
        let sourceIndex = source_index (length points) maxPoints i
        in if Some sourceIndex = lastIndex then (limited, lastIndex)
           else (limited @ [points ! sourceIndex], Some sourceIndex))"

definition limitSamplePoints :: "SamplePoint list \<Rightarrow> nat \<Rightarrow> SamplePoint list" where
  "limitSamplePoints points maxPoints =
     (if length points \<le> maxPoints \<or> maxPoints < 2 then points
      else fst (fold (limit_step points maxPoints) [0..<maxPoints] ([], None)))"

definition time_step_of :: "SamplePoint list \<Rightarrow> nat \<Rightarrow> int option" where
  "time_step_of points i =
     (case (sample_time (points ! i), sample_time (points ! (i - 1))) of (Some a, Some b) \<Rightarrow> Some (a - b) | _ \<Rightarrow> None)"

definition segment_gap :: "SamplePoint list \<Rightarrow> num \<Rightarrow> num" where
  "segment_gap points windowDurationMs =
     (let deltas = sort (filter (\<lambda>d. d > 0) (somes (map (time_step_of points) [1..<length points])));
          medianDelta = (if deltas \<noteq> [] then deltas ! (length deltas div 2) else 5000)
      in max (of_int medianDelta * 4) (max 45000 (windowDurationMs * (15 / 100))))"

definition segment_step :: "SamplePoint list \<Rightarrow> num \<Rightarrow> nat \<Rightarrow> SamplePoint list list \<times> SamplePoint list \<Rightarrow> SamplePoint list list \<times> SamplePoint list" where
  "segment_step points gapThreshold i st =
     (case st of (segments, current) \<Rightarrow>
        if (case time_step_of points i of None \<Rightarrow> False | Some d \<Rightarrow> of_int d > gapThreshold)
        then (segments @ [current], [points ! i]) else (segments, current @ [points ! i]))"

definition splitPointsIntoSegments :: "SamplePoint list \<Rightarrow> num \<Rightarrow> SamplePoint list list" where
  "splitPointsIntoSegments points windowDurationMs =
     (if length points \<le> 1 then [points]
      else case fold (segment_step points (segment_gap points windowDurationMs)) [1..<length points] ([], [points ! 0]) of
        (segments, current) \<Rightarrow> if current \<noteq> [] then segments @ [current] else segments)"

subsection \<open>The nearest sample\<close>

lemma lower_bound_range: "low \<le> high \<Longrightarrow> low \<le> lower_bound ts x low high \<and> lower_bound ts x low high \<le> high"
proof (induction ts x low high rule: lower_bound.induct)
  case (1 ts x low high)
  show ?case
  proof (cases "low < high")
    case True
    define middle where "middle = (low + high) div 2"
    have m: "low \<le> middle" "middle < high" using True by (simp_all add: middle_def)
    show ?thesis
    proof (cases "of_int (ts ! middle) < x")
      case less: True
      with True m "1.IH"(1) [OF True middle_def] show ?thesis
        by (subst (1 2) lower_bound.simps) (simp add: middle_def [symmetric])
    next
      case ge: False
      with True m "1.IH"(2) [OF True middle_def] show ?thesis
        by (subst (1 2) lower_bound.simps) (simp add: middle_def [symmetric])
    qed
  qed (use 1 in \<open>simp add: lower_bound.simps\<close>)
qed

text \<open>What lies before the bound is earlier than the target, what lies from it on is not.\<close>

lemma lower_bound_splits:
  assumes "sorted ts" "low \<le> high" "high \<le> length ts"
    "\<forall>i < low. of_int (ts ! i) < x" "\<forall>i. high \<le> i \<and> i < length ts \<longrightarrow> x \<le> of_int (ts ! i)"
  shows "(\<forall>i < lower_bound ts x low high. of_int (ts ! i) < x) \<and>
    (\<forall>i. lower_bound ts x low high \<le> i \<and> i < length ts \<longrightarrow> x \<le> of_int (ts ! i))"
  using assms
proof (induction ts x low high rule: lower_bound.induct)
  case (1 ts x low high)
  show ?case
  proof (cases "low < high")
    case True
    define middle where "middle = (low + high) div 2"
    have m: "low \<le> middle" "middle < high" "middle < length ts" using True "1.prems" by (auto simp: middle_def)
    have mono: "i \<le> j \<Longrightarrow> j < length ts \<Longrightarrow> (of_int (ts ! i) :: num) \<le> of_int (ts ! j)" for i j
      using "1.prems"(1) by (simp add: sorted_nth_mono)
    show ?thesis
    proof (cases "of_int (ts ! middle) < x")
      case less: True
      have upto: "\<forall>i < middle + 1. of_int (ts ! i) < x"
      proof (intro allI impI)
        fix i assume "i < middle + 1"
        then have "(of_int (ts ! i) :: num) \<le> of_int (ts ! middle)" using mono [of i middle] m(3) by simp
        also note less
        finally show "of_int (ts ! i) < x" .
      qed
      have "lower_bound ts x low high = lower_bound ts x (middle + 1) high"
        using True less by (subst lower_bound.simps) (simp add: middle_def)
      with "1.IH"(1) [OF True middle_def less "1.prems"(1) _ "1.prems"(3) upto "1.prems"(5)] m(2) show ?thesis by simp
    next
      case ge: False
      have "\<forall>i. middle \<le> i \<and> i < length ts \<longrightarrow> x \<le> of_int (ts ! i)"
      proof (intro allI impI)
        fix i assume i: "middle \<le> i \<and> i < length ts"
        have "x \<le> of_int (ts ! middle)" using ge by simp
        also have "\<dots> \<le> of_int (ts ! i)" using mono [of middle i] i by blast
        finally show "x \<le> of_int (ts ! i)" .
      qed
      note from_there = this
      have "lower_bound ts x low high = lower_bound ts x low middle"
        using True ge by (subst lower_bound.simps) (simp add: middle_def)
      with "1.IH"(2) [OF True middle_def ge "1.prems"(1) m(1) _ "1.prems"(4) from_there] m(3) show ?thesis by simp
    qed
  next
    case False
    then have "low = high" using "1.prems" by simp
    with "1.prems" show ?thesis by (simp add: lower_bound.simps)
  qed
qed

lemma nearer_than:
  fixes x u v :: num
  shows "x \<le> v \<Longrightarrow> v \<le> u \<Longrightarrow> \<bar>x - v\<bar> \<le> \<bar>x - u\<bar> \<and> (\<bar>x - v\<bar> = \<bar>x - u\<bar> \<longrightarrow> v \<le> u)"
    and "v < x \<Longrightarrow> u \<le> v \<Longrightarrow> \<bar>x - v\<bar> \<le> \<bar>x - u\<bar> \<and> (\<bar>x - v\<bar> = \<bar>x - u\<bar> \<longrightarrow> v \<le> u)"
  by (simp_all add: abs_if)

lemma nearer_of_two:
  fixes x l r u :: num
  assumes "l < x" "x \<le> r" "u \<le> l \<or> r \<le> u"
  shows "\<bar>x - (if x - l \<le> r - x then l else r)\<bar> \<le> \<bar>x - u\<bar> \<and>
    (\<bar>x - (if x - l \<le> r - x then l else r)\<bar> = \<bar>x - u\<bar> \<longrightarrow> (if x - l \<le> r - x then l else r) \<le> u)"
  using assms by (auto simp: abs_if split: if_splits)

text \<open>The nearer one of the two neighbours of the split is nearest of all, the earlier one of two equally near.\<close>

lemma neighbour_nearest:
  fixes x :: num
  assumes "sorted ts" "low \<le> length ts" "i < length ts"
    "\<forall>i < low. of_int (ts ! i) < x" "\<forall>i. low \<le> i \<and> i < length ts \<longrightarrow> x \<le> of_int (ts ! i)"
  defines "right \<equiv> of_int (ts ! (min low (length ts - 1))) :: num" and "left \<equiv> of_int (ts ! (low - 1)) :: num"
    and "u \<equiv> of_int (ts ! i) :: num"
  shows "\<bar>x - (if x - left \<le> right - x then left else right)\<bar> \<le> \<bar>x - u\<bar> \<and>
    (\<bar>x - (if x - left \<le> right - x then left else right)\<bar> = \<bar>x - u\<bar> \<longrightarrow> (if x - left \<le> right - x then left else right) \<le> u)"
proof -
  let ?n = "length ts"
  have mono: "(of_int (ts ! j) :: num) \<le> of_int (ts ! k)" if "j \<le> k" "k < ?n" for j k
    using assms(1) that by (simp add: sorted_nth_mono)
  consider (first) "low = 0" | (inner) "0 < low" "low < ?n" | (beyond) "0 < low" "low = ?n" using assms(2) by linarith
  then show ?thesis
  proof cases
    case first
    then have "right = of_int (ts ! 0)" "left = right" "x \<le> of_int (ts ! 0)" "of_int (ts ! 0) \<le> u"
      using le_less_trans [OF le0 assms(3)] assms(3) assms(5) [rule_format, of 0] mono [of 0 i] by (simp_all add: right_def left_def u_def)
    with nearer_than(1) show ?thesis by simp
  next
    case beyond
    then have "left = of_int (ts ! (?n - 1))" "right = left" "of_int (ts ! (?n - 1)) < x" "u \<le> of_int (ts ! (?n - 1))"
      using assms(3,4) mono [of i "?n - 1"] by (auto simp: right_def left_def u_def)
    with nearer_than(2) show ?thesis by simp
  next
    case inner
    then have "right = of_int (ts ! low)" "left < x" "x \<le> of_int (ts ! low)"
      using assms(4,5) by (auto simp: right_def left_def min_def)
    moreover have "u \<le> left \<or> of_int (ts ! low) \<le> u"
      using mono [of i "low - 1"] mono [of low i] inner assms(3) by (cases "i < low") (auto simp: left_def u_def)
    ultimately show ?thesis using nearer_of_two by metis
  qed
qed

lemma nearest_time:
  assumes "sorted ts" "nearestChartTime ts (Some x) = Some t"
  shows "t \<in> set ts \<and> (\<forall>u \<in> set ts. \<bar>x - of_int t\<bar> \<le> \<bar>x - of_int u\<bar> \<and> (\<bar>x - of_int t\<bar> = \<bar>x - of_int u\<bar> \<longrightarrow> t \<le> u))"
proof -
  define low where "low = lower_bound ts x 0 (length ts)"
  have ne: "ts \<noteq> []" using assms(2) by (cases ts) (simp_all add: nearestChartTime_def)
  have split: "\<forall>i < low. of_int (ts ! i) < x" "\<forall>i. low \<le> i \<and> i < length ts \<longrightarrow> x \<le> of_int (ts ! i)"
    using lower_bound_splits [OF assms(1), of 0 "length ts" x] by (simp_all add: low_def)
  have le: "low \<le> length ts" using lower_bound_range [of 0 "length ts" ts x] by (simp add: low_def)
  let ?right = "ts ! (min low (length ts - 1))" and ?left = "ts ! (low - 1)"
  have t: "t = (if x - of_int ?left \<le> of_int ?right - x then ?left else ?right)"
    using assms(2) unfolding nearestChartTime_def Let_def low_def
    by (simp only: option.case ne if_False option.inject)
  have "low - 1 < length ts" "min low (length ts - 1) < length ts" using ne le by (cases ts; simp; linarith)+
  then have "t \<in> set ts" unfolding t by simp
  moreover have "\<bar>x - of_int t\<bar> \<le> \<bar>x - of_int u\<bar> \<and> (\<bar>x - of_int t\<bar> = \<bar>x - of_int u\<bar> \<longrightarrow> t \<le> u)" if "u \<in> set ts" for u
  proof -
    obtain i where "i < length ts" "u = ts ! i" using \<open>u \<in> set ts\<close> by (metis in_set_conv_nth)
    then show ?thesis
      using neighbour_nearest [OF assms(1) le _ split, of i] unfolding t if_distrib [of of_int, symmetric] by simp
  qed
  ultimately show ?thesis by blast
qed

subsection \<open>The inspection shows real samples\<close>

lemma index_point_fold:
  "map_get (fold index_point ps m) t =
     (case filter (\<lambda>p. sample_time p = Some t) ps of [] \<Rightarrow> map_get m t | q # qs \<Rightarrow> Some (last (q # qs)))"
proof (induction ps arbitrary: m)
  case (Cons p ps)
  show ?case
    unfolding fold_simps comp_apply Cons by (auto simp: index_point_def split: option.split list.split)
qed simp

lemma ci_timeline_facts:
  "sorted (ci_timeline (indexChartSamples series))" "distinct (ci_timeline (indexChartSamples series))"
  "t \<in> set (ci_timeline (indexChartSamples series)) \<longleftrightarrow> (\<exists>item \<in> set series. \<exists>p \<in> set (sr_points item). sample_time p = Some t)"
  by (force simp: indexChartSamples_def)+

text \<open>The last sample of a series at a time.\<close>

definition sample_at :: "InspectableSeries \<Rightarrow> int \<Rightarrow> SamplePoint option" where
  "sample_at item t = last_opt (filter (\<lambda>p. sample_time p = Some t) (sr_points item))"

lemma inspect_points:
  "map iv_point (in_values (inspectChartTime show series (indexChartSamples series) t formatter)) = map (\<lambda>item. sample_at item t) series"
proof -
  have "map_get (point_map (indexChartSamples series) i) t = sample_at (series ! i) t" if "i < length series" for i
    using that index_point_fold [of "sr_points (series ! i)" "[]" t]
    by (simp add: point_map_def indexChartSamples_def sample_at_def last_opt_def split: list.split)
  then show ?thesis
    by (intro nth_equalityI) (simp_all add: inspectChartTime_def inspected_def nth_enumerate_eq)
qed

text \<open>
  C26: under the pointer the console shows the instant nearest to it at which some curve has a sample, the earlier one of
  two equally near; at that instant every curve shows its own last sample of exactly that instant, and nothing if it has
  none, and at least one curve shows a sample.
\<close>

theorem pointer_shows_nearest:
  assumes "nearestChartTime (ci_timeline (indexChartSamples series)) (Some x) = Some t"
  shows "(\<forall>item \<in> set series. \<forall>p \<in> set (sr_points item). \<forall>u. sample_time p = Some u \<longrightarrow>
      \<bar>x - of_int t\<bar> \<le> \<bar>x - of_int u\<bar> \<and> (\<bar>x - of_int t\<bar> = \<bar>x - of_int u\<bar> \<longrightarrow> t \<le> u)) \<and>
    map iv_point (in_values (inspectChartTime show series (indexChartSamples series) t formatter)) = map (\<lambda>item. sample_at item t) series \<and>
    (\<exists>item \<in> set series. sample_at item t \<noteq> None)"
proof -
  note near = nearest_time [OF ci_timeline_facts(1) assms]
  then obtain item p where item: "item \<in> set series" "p \<in> set (sr_points item)" "sample_time p = Some t"
    using ci_timeline_facts(3) by blast
  then have "sample_at item t \<noteq> None"
    by (auto simp: sample_at_def last_opt_def filter_empty_conv)
  moreover have "u \<in> set (ci_timeline (indexChartSamples series))"
    if "item \<in> set series" "p \<in> set (sr_points item)" "sample_time p = Some u" for item p u
    using that ci_timeline_facts(3) by blast
  ultimately show ?thesis
    using near item(1) inspect_points by fast
qed

subsection \<open>The pointer's time stays on the axis\<close>

lemma chartTimeAtClientX_range:
  assumes "lo \<le> hi"
  shows "lo \<le> chartTimeAtClientX clientX boundsLeft boundsWidth svgWidth left right lo hi"
    and "chartTimeAtClientX clientX boundsLeft boundsWidth svgWidth left right lo hi \<le> hi"
proof -
  define ratio where "ratio = max 0 (min 1 (((clientX - boundsLeft) * svgWidth / max 1 boundsWidth - left) / max 1 (svgWidth - left - right)))"
  have r: "0 \<le> ratio" "ratio \<le> 1" by (auto simp: ratio_def)
  have "0 \<le> ratio * (hi - lo)" "ratio * (hi - lo) \<le> hi - lo"
    using r assms mult_right_mono [of ratio 1 "hi - lo"] by (auto intro: mult_nonneg_nonneg)
  then show "lo \<le> chartTimeAtClientX clientX boundsLeft boundsWidth svgWidth left right lo hi"
    "chartTimeAtClientX clientX boundsLeft boundsWidth svgWidth left right lo hi \<le> hi"
    by (simp_all add: chartTimeAtClientX_def Let_def ratio_def [symmetric])
qed

lemma gesture_decided: "direction \<noteq> Pending \<Longrightarrow> chartGestureDirection direction dx dy = direction"
  by (simp add: chartGestureDirection_def)

subsection \<open>The summary is made of real samples\<close>

text \<open>A loop that keeps the best entry finds a greatest one of a strict weak order.\<close>

locale preference =
  fixes better :: "timed_point \<Rightarrow> timed_point \<Rightarrow> bool"
  assumes better_asym: "better a b \<Longrightarrow> \<not> better b a"
    and better_neg_trans: "\<not> better a b \<Longrightarrow> \<not> better b c \<Longrightarrow> \<not> better a c"
begin

lemma better_irrefl: "\<not> better e e"
  using better_asym by blast

lemma keep_best_fold:
  "case fold (keep_best better) es best of
     None \<Rightarrow> es = [] \<and> best = None
   | Some b \<Rightarrow> b \<in> set es \<union> set_option best \<and> (\<forall>e \<in> set es \<union> set_option best. \<not> better e b)"
proof (induction es arbitrary: best)
  case Nil
  show ?case by (auto simp: better_irrefl split: option.split)
next
  case (Cons e es)
  have "\<exists>b. keep_best better e best = Some b \<and> b \<in> insert e (set_option best) \<and> (\<forall>x \<in> insert e (set_option best). \<not> better x b)"
    using better_irrefl better_asym by (cases best) (auto simp: keep_best_def simp del: split_paired_Ex split_paired_All)
  then obtain b where b: "keep_best better e best = Some b" "b \<in> insert e (set_option best)" "\<forall>x \<in> insert e (set_option best). \<not> better x b"
    by blast
  from Cons [of "Some b"] obtain c where c: "fold (keep_best better) es (Some b) = Some c" "c \<in> insert b (set es)"
    "\<forall>x \<in> insert b (set es). \<not> better x c"
    by (auto split: option.splits)
  have "\<not> better x c" if "x \<in> insert e (set_option best)" for x
    using better_neg_trans b(3) c(3) that by blast
  with b c show ?case by auto
qed

end

interpretation latest: preference later
  by unfold_locales (auto simp: later_def)

interpretation highest: preference higher
  by unfold_locales (auto simp: higher_def)

interpretation lowest: preference lower
  by unfold_locales (auto simp: lower_def)

definition timed_points :: "SamplePoint list \<Rightarrow> timed_point list" where
  "timed_points ps = List.map_filter (\<lambda>p. map_option (\<lambda>t. (t, p)) (sample_time p)) ps"

lemma set_timed_points: "(t, p) \<in> set (timed_points ps) \<longleftrightarrow> p \<in> set ps \<and> sample_time p = Some t"
  by (induction ps) (auto simp: timed_points_def List.map_filter_simps split: option.split)

lemma summary_fold:
  "fold summary_step ps acc =
     \<lparr>sa_latest = fold (keep_best later) (timed_points ps) (sa_latest acc),
      sa_peak = fold (keep_best higher) (timed_points ps) (sa_peak acc),
      sa_minimum = fold (keep_best lower) (timed_points ps) (sa_minimum acc),
      sa_total = sa_total acc + sum_list (map (sp_value \<circ> snd) (timed_points ps)),
      sa_count = sa_count acc + length (timed_points ps)\<rparr>"
proof (induction ps arbitrary: acc)
  case (Cons p ps)
  show ?case
    unfolding fold_simps comp_apply Cons
    by (cases "sample_time p") (simp_all add: summary_step_def timed_points_def List.map_filter_simps add.assoc)
qed (simp add: timed_points_def List.map_filter_simps)

text \<open>
  C37: the summary of a window that has any sample with a readable time names real samples of it: the latest one, the most
  recent of the highest ones and the most recent of the lowest ones, and its average lies between lowest and highest.
\<close>

theorem summary_faithful:
  assumes "p \<in> set (sr_points series)" "sample_time p = Some t"
  shows "\<exists>latest peak minimum average tl tp tm.
    ss_latest (summarizeSeries series) = Some latest \<and> ss_peak (summarizeSeries series) = Some peak \<and>
    ss_minimum (summarizeSeries series) = Some minimum \<and> ss_average (summarizeSeries series) = Some average \<and>
    {latest, peak, minimum} \<subseteq> set (sr_points series) \<and>
    sample_time latest = Some tl \<and> sample_time peak = Some tp \<and> sample_time minimum = Some tm \<and>
    sp_value minimum \<le> average \<and> average \<le> sp_value peak \<and>
    (\<forall>q \<in> set (sr_points series). \<forall>u. sample_time q = Some u \<longrightarrow>
       u \<le> tl \<and> sp_value minimum \<le> sp_value q \<and> sp_value q \<le> sp_value peak \<and>
       (sp_value q = sp_value peak \<longrightarrow> u \<le> tp) \<and> (sp_value q = sp_value minimum \<longrightarrow> u \<le> tm))"
proof -
  let ?es = "timed_points (sr_points series)"
  have ne: "?es \<noteq> []" using assms set_timed_points [of t p] by force
  obtain tl latest where l: "fold (keep_best later) ?es None = Some (tl, latest)" "(tl, latest) \<in> set ?es" "\<forall>e \<in> set ?es. \<not> later e (tl, latest)"
    using latest.keep_best_fold [of ?es None] ne by (auto split: option.splits)
  obtain tp peak where h: "fold (keep_best higher) ?es None = Some (tp, peak)" "(tp, peak) \<in> set ?es" "\<forall>e \<in> set ?es. \<not> higher e (tp, peak)"
    using highest.keep_best_fold [of ?es None] ne by (auto split: option.splits)
  obtain tm minimum where m: "fold (keep_best lower) ?es None = Some (tm, minimum)" "(tm, minimum) \<in> set ?es" "\<forall>e \<in> set ?es. \<not> lower e (tm, minimum)"
    using lowest.keep_best_fold [of ?es None] ne by (auto split: option.splits)
  let ?vs = "map (sp_value \<circ> snd) ?es"
  have sum: "ss_latest (summarizeSeries series) = Some latest" "ss_peak (summarizeSeries series) = Some peak"
    "ss_minimum (summarizeSeries series) = Some minimum" "ss_average (summarizeSeries series) = Some (mean ?vs)"
    using l(1) h(1) m(1) ne by (simp_all add: summarizeSeries_def summary_fold Let_def mean_def)
  have all: "u \<le> tl \<and> sp_value minimum \<le> sp_value q \<and> sp_value q \<le> sp_value peak \<and>
       (sp_value q = sp_value peak \<longrightarrow> u \<le> tp) \<and> (sp_value q = sp_value minimum \<longrightarrow> u \<le> tm)" if "(u, q) \<in> set ?es" for u q
    using bspec [OF l(3) that] bspec [OF h(3) that] bspec [OF m(3) that] by (auto simp: later_def higher_def lower_def)
  have "\<forall>v \<in> set ?vs. sp_value minimum \<le> v \<and> v \<le> sp_value peak"
    using all by auto
  then have "sp_value minimum \<le> mean ?vs \<and> mean ?vs \<le> sp_value peak"
    using mean_bounds [of ?vs] ne by simp
  with sum all l(2) h(2) m(2) show ?thesis
    unfolding set_timed_points by (intro exI [of _ latest] exI [of _ peak] exI [of _ minimum] exI [of _ "mean ?vs"]
      exI [of _ tl] exI [of _ tp] exI [of _ tm]) simp
qed

subsection \<open>Thinning for display\<close>

lemma source_index_step:
  assumes "2 \<le> m" "m < n"
  shows "source_index n m i < source_index n m (Suc i)"
proof -
  define q where "q = (of_nat (n - 1) / of_nat (m - 1) :: num)"
  have q: "1 \<le> q" using assms by (simp add: q_def divide_simps)
  have eq: "source_index n m k = nat \<lfloor>of_nat k * q + 1 / 2\<rfloor>" for k
    by (simp add: source_index_def q_def)
  have "0 \<le> of_nat i * q" using q by simp
  then have "0 \<le> \<lfloor>of_nat i * q + 1 / 2\<rfloor>" by simp
  moreover have "of_nat i * q + 1 / 2 + 1 \<le> of_nat (Suc i) * q + 1 / 2" using q by (simp add: algebra_simps)
  then have "\<lfloor>of_nat i * q + 1 / 2 + 1\<rfloor> \<le> \<lfloor>of_nat (Suc i) * q + 1 / 2\<rfloor>" by (rule floor_mono)
  then have "\<lfloor>of_nat i * q + 1 / 2\<rfloor> < \<lfloor>of_nat (Suc i) * q + 1 / 2\<rfloor>"
    by (metis (no_types) floor_add_int less_add_one less_le_trans of_int_1)
  ultimately show ?thesis unfolding eq by (simp only: nat_less_eq_zless)
qed

lemma source_index_first: "source_index n m 0 = 0"
  by (simp add: source_index_def)

lemma source_index_last:
  assumes "2 \<le> m"
  shows "source_index n m (m - 1) = n - 1"
proof -
  have "(of_nat ((m - 1) * (n - 1)) / of_nat (m - 1) :: num) = of_nat (n - 1)"
    using assms by simp
  moreover have "\<lfloor>of_nat k + 1 / 2 :: num\<rfloor> = int k" for k
    by (simp add: floor_eq_iff)
  ultimately show ?thesis by (simp only: source_index_def nat_int)
qed

lemma source_index_mono:
  assumes "2 \<le> m" "m < n" "i < j"
  shows "source_index n m i < source_index n m j"
  using assms(3) by (rule lift_Suc_mono_less [rotated]) (rule source_index_step [OF assms(1,2)])

text \<open>No index comes twice, so the check for a repeated one never skips.\<close>

lemma limit_fold:
  assumes "2 \<le> m" "m < length ps"
  shows "fold (limit_step ps m) [0..<k] ([], None) =
    (map (\<lambda>i. ps ! source_index (length ps) m i) [0..<k], if k = 0 then None else Some (source_index (length ps) m (k - 1)))"
proof (induction k)
  case (Suc k)
  have "source_index (length ps) m k \<noteq> source_index (length ps) m (k - 1)" if "k \<noteq> 0"
    using source_index_mono [OF assms, of "k - 1" k] that by simp
  with Suc show ?case by (simp add: limit_step_def Let_def)
qed simp

lemma limited_points:
  assumes "2 \<le> m" "m < length ps"
  shows "limitSamplePoints ps m = map (\<lambda>i. ps ! source_index (length ps) m i) [0..<m]"
    "hd (limitSamplePoints ps m) = hd ps" "last (limitSamplePoints ps m) = last ps"
proof -
  show eq: "limitSamplePoints ps m = map (\<lambda>i. ps ! source_index (length ps) m i) [0..<m]"
    using assms by (simp add: limitSamplePoints_def limit_fold)
  have "ps \<noteq> []" using assms by auto
  then show "hd (limitSamplePoints ps m) = hd ps" "last (limitSamplePoints ps m) = last ps"
    using assms source_index_last [OF assms(1), of "length ps"]
    by (simp_all add: eq hd_map last_map hd_conv_nth last_conv_nth source_index_first)
qed

subsection \<open>Segments are the points, cut at the wide gaps\<close>

definition segments_ok :: "SamplePoint list \<Rightarrow> nat \<Rightarrow> SamplePoint list list \<times> SamplePoint list \<Rightarrow> bool" where
  "segments_ok ps k st \<longleftrightarrow> concat (fst st) @ snd st = take (Suc k) ps \<and> snd st \<noteq> []"

lemma segment_step_ok:
  "segments_ok ps k st \<Longrightarrow> Suc k < length ps \<Longrightarrow> segments_ok ps (Suc k) (segment_step ps g (Suc k) st)"
  by (auto simp: segments_ok_def segment_step_def take_Suc_conv_app_nth [of "Suc k"] case_prod_unfold)

lemma segment_fold:
  "k < length ps \<Longrightarrow> segments_ok ps k (fold (segment_step ps g) [1..<Suc k] ([], [ps ! 0]))"
proof (induction k)
  case 0
  then show ?case by (simp add: segments_ok_def take_Suc_conv_app_nth)
next
  case (Suc k)
  have range: "[1..<Suc (Suc k)] = [1..<Suc k] @ [Suc k]" by simp
  show ?case
    unfolding range fold_append comp_apply fold_simps
    by (rule segment_step_ok) (use Suc in simp_all)
qed

lemma segments_concat:
  "concat (splitPointsIntoSegments ps w) = ps"
proof (cases "length ps \<le> 1")
  case False
  then have "length ps - 1 < length ps" "Suc (length ps - 1) = length ps" by simp_all
  then show ?thesis
    using segment_fold [of "length ps - 1" ps "segment_gap ps w"] False
    by (simp add: splitPointsIntoSegments_def segments_ok_def case_prod_unfold)
qed (simp add: splitPointsIntoSegments_def)

subsection \<open>Together\<close>

lemma sum_group:
  "sum_list (map snd (fold (group_step fst add_sum) es m)) = sum_list (map snd m) + sum_list (map snd es)" if "distinct (map_keys m)"
  using that
proof (induction es arbitrary: m)
  case (Cons e es)
  have set: "sum_list (map snd (map_set k (nullish (map_get m k) 0 + v) m)) = sum_list (map snd m) + v" if "distinct (map_keys m)" for k and v :: num and m
    using that by (induction m) (auto simp: add.assoc)
  have "distinct (map_keys (group_step fst add_sum e m))"
    using Cons.prems by (simp add: group_step_def distinct_update)
  from Cons.IH [OF this] show ?case
    using set [OF Cons.prems, of "fst e" "snd e"] by (simp add: group_step_def add_sum_def add.assoc)
qed simp

lemma sort_by_sum: "sum_list (map f (sort_by g xs)) = sum_list (map f xs)" for f :: "'a \<Rightarrow> num"
  by (metis mset_map mset_sort_by sum_mset_sum_list)

text \<open>Nothing is lost or counted twice when series are added up.\<close>

lemma sums_conserved:
  "sum_list (map sp_value (sumSamplePoints groups)) =
     sum_list (map (sp_value \<circ> snd) (timed_points (concat groups)))"
proof -
  have "sum_list (map snd (second_values groups)) = sum_list (map (sp_value \<circ> snd) (timed_points (concat groups)))"
  proof -
    have "sum_list (map snd (List.map_filter (\<lambda>point. map_option (\<lambda>t. (second_of t, sp_value point)) (sample_time point)) ps)) =
        sum_list (map (sp_value \<circ> snd) (timed_points ps))" for ps
      by (induction ps) (simp_all add: timed_points_def List.map_filter_simps split: option.split)
    then show ?thesis by (simp add: second_values_def)
  qed
  then show ?thesis
    using sum_group [of "[]" "second_values groups"]
    by (simp add: sumSamplePoints_def comp_def case_prod_unfold sort_by_sum)
qed

subsection \<open>Witnesses\<close>

definition curve_points :: "SamplePoint list" where
  "curve_points = [\<lparr>sp_timestamp = toISOString 1000, sp_value = 4\<rparr>, \<lparr>sp_timestamp = ''no date'', sp_value = 9\<rparr>,
     \<lparr>sp_timestamp = toISOString 5000, sp_value = 2\<rparr>]"

definition curve_series :: InspectableSeries where
  "curve_series = \<lparr>sr_label = ''cpu'', sr_points = curve_points, sr_valueFormatter = None\<rparr>"

lemma demo_times:
  "map sample_time curve_points = [Some 1000, None, Some 5000]"
proof -
  have "Date_parse ''no date'' = None" by (simp add: Date_parse_def read_date_def numeral_eq_Suc digit_val_def)
  then show ?thesis by (simp add: curve_points_def Date_parse_demo)
qed

lemma demo_nearest: "nearestChartTime (ci_timeline (indexChartSamples [curve_series])) (Some 2500) = Some 1000"
proof -
  have "ci_timeline (indexChartSamples [curve_series]) = [1000, 5000]"
    using demo_times by (simp add: indexChartSamples_def curve_series_def js_uniq_def)
  then show ?thesis
    by (simp add: nearestChartTime_def lower_bound.simps)
qed

lemma demo_first: "\<lparr>sp_timestamp = toISOString 1000, sp_value = 4\<rparr> \<in> set (sr_points curve_series)"
  "sample_time \<lparr>sp_timestamp = toISOString 1000, sp_value = 4\<rparr> = Some 1000"
  by (simp_all add: curve_series_def curve_points_def Date_parse_demo)

theorem pointer_shows_nearest_witness:
  "sample_at curve_series 1000 \<noteq> None \<and>
   map iv_point (in_values (inspectChartTime (\<lambda>_. []) [curve_series] (indexChartSamples [curve_series]) 1000 None)) = [sample_at curve_series 1000]"
  using pointer_shows_nearest [OF demo_nearest, of "\<lambda>_. []" None] by simp

theorem summary_faithful_witness:
  "\<exists>peak minimum. ss_peak (summarizeSeries curve_series) = Some peak \<and> ss_minimum (summarizeSeries curve_series) = Some minimum \<and>
     {peak, minimum} \<subseteq> set curve_points \<and> sp_value minimum \<le> 4 \<and> 4 \<le> sp_value peak"
  using summary_faithful [OF demo_first] demo_first by (fastforce simp: curve_series_def)

end
