(* ===== verification/Fleet_Trends.thy ===== *)
theory Fleet_Trends
  imports Chart_Samples
begin

text \<open>
  The curves of the overview: \<open>fleetTrends.ts\<close> of the console's \<open>workspace\<close>.  Every device is one curve in a unit all
  curves share: percent of its own capacity, or bytes per second received and sent together.

  The facts: every instance is either drawn or named as one without a known capacity, in the given order; shares are
  percentages; a summed rate has one point for each instant either side reported, with the sum of what was reported, in
  time order.  The numbers of samples are finite; the comparison with an unreadable timestamp counts as equal.
\<close>

datatype FleetMetric = CpuTrend | MemoryTrend | DiskTrend | NetworkTrend

record OverviewInstanceSeries =
  oi_deviceId :: string
  oi_hostname :: string
  oi_cpuUsagePercent :: "SamplePoint list"
  oi_memoryUsedBytes :: "SamplePoint list"
  oi_diskUsedBytes :: "SamplePoint list"
  oi_networkRxBytesPerSec :: "SamplePoint list"
  oi_networkTxBytesPerSec :: "SamplePoint list"
  oi_unavailableMetrics :: "(DeviceMetricKey list) option"

record FleetTrend =
  ft_deviceId :: string
  ft_hostname :: string
  ft_points :: "SamplePoint list"
  ft_offline :: bool

record FleetTrendSelection =
  fs_trends :: "FleetTrend list"
  fs_percent :: bool
  fs_missingCapacity :: "string list"

primrec UNAVAILABLE_KEYS :: "FleetMetric \<Rightarrow> DeviceMetricKey list" where
  "UNAVAILABLE_KEYS CpuTrend = [CpuUsage]"
| "UNAVAILABLE_KEYS MemoryTrend = [MemoryUsage]"
| "UNAVAILABLE_KEYS DiskTrend = [DiskUsage]"
| "UNAVAILABLE_KEYS NetworkTrend = [NetworkRxRate, NetworkTxRate]"

definition share_points :: "SamplePoint list \<Rightarrow> num \<Rightarrow> SamplePoint list" where
  "share_points points capacity =
     map (\<lambda>point. \<lparr>sp_timestamp = sp_timestamp point, sp_value = min 100 (max 0 (sp_value point / capacity * 100))\<rparr>) points"

definition add_rate :: "num option \<Rightarrow> SamplePoint \<Rightarrow> num" where
  "add_rate current point = nullish current 0 + sp_value point"

definition time_order :: "SamplePoint \<Rightarrow> SamplePoint \<Rightarrow> int" where
  "time_order left right = (case (sample_time left, sample_time right) of (Some a, Some b) \<Rightarrow> a - b | _ \<Rightarrow> 0)"

definition sumRates :: "SamplePoint list \<Rightarrow> SamplePoint list \<Rightarrow> SamplePoint list" where
  "sumRates rx tx =
     js_sort time_order (map (\<lambda>(timestamp, v). \<lparr>sp_timestamp = timestamp, sp_value = v\<rparr>)
       (fold (group_step sp_timestamp add_rate) (rx @ tx) []))"

definition devices_by_id :: "DeviceSummary list \<Rightarrow> (string, DeviceSummary) jsmap" where
  "devices_by_id devices = fold (\<lambda>device. map_set (sm_deviceId device) device) devices []"

definition trend_hostname :: "DeviceSummary option \<Rightarrow> OverviewInstanceSeries \<Rightarrow> string" where
  "trend_hostname device instance_series = nullish (map_option sm_hostname device) (oi_hostname instance_series)"

definition trend_base :: "DeviceSummary option \<Rightarrow> OverviewInstanceSeries \<Rightarrow> SamplePoint list \<Rightarrow> FleetTrend" where
  "trend_base device instance_series points =
     \<lparr>ft_deviceId = oi_deviceId instance_series, ft_hostname = trend_hostname device instance_series, ft_points = points,
      ft_offline = (case device of None \<Rightarrow> False | Some d \<Rightarrow> sm_status d \<noteq> Online)\<rparr>"

text \<open>The points of one instance, or \<open>None\<close> if its capacity is not known.\<close>

definition trend_points :: "DeviceSummary option \<Rightarrow> FleetMetric \<Rightarrow> OverviewInstanceSeries \<Rightarrow> SamplePoint list option" where
  "trend_points device metric i =
     (if \<exists>key \<in> set (UNAVAILABLE_KEYS metric). key \<in> set (nullish (oi_unavailableMetrics i) []) then Some []
      else case metric of
        CpuTrend \<Rightarrow> Some (oi_cpuUsagePercent i)
      | NetworkTrend \<Rightarrow> Some (sumRates (oi_networkRxBytesPerSec i) (oi_networkTxBytesPerSec i))
      | _ \<Rightarrow>
          (case Option.bind device (if metric = MemoryTrend then sm_memoryTotalBytes else sm_diskTotalBytes) of
             None \<Rightarrow> None
           | Some capacity \<Rightarrow>
               if capacity \<le> 0 then None
               else Some (share_points (if metric = MemoryTrend then oi_memoryUsedBytes i else oi_diskUsedBytes i) capacity)))"

definition trend_step :: "(string, DeviceSummary) jsmap \<Rightarrow> FleetMetric \<Rightarrow> OverviewInstanceSeries
    \<Rightarrow> FleetTrend list \<times> string list \<Rightarrow> FleetTrend list \<times> string list" where
  "trend_step byId metric i st =
     (case st of (trends, missingCapacity) \<Rightarrow>
        let device = map_get byId (oi_deviceId i)
        in case trend_points device metric i of
             None \<Rightarrow> (trends, missingCapacity @ [trend_hostname device i])
           | Some points \<Rightarrow> (trends @ [trend_base device i points], missingCapacity))"

definition selectFleetTrends :: "OverviewInstanceSeries list \<Rightarrow> DeviceSummary list \<Rightarrow> FleetMetric \<Rightarrow> FleetTrendSelection" where
  "selectFleetTrends instances devices metric =
     (case fold (trend_step (devices_by_id devices) metric) instances ([], []) of
        (trends, missingCapacity) \<Rightarrow>
          \<lparr>fs_trends = trends, fs_percent = (metric \<noteq> NetworkTrend), fs_missingCapacity = missingCapacity\<rparr>)"

text \<open>The most recent reading of a series.\<close>

definition latestPointValue :: "SamplePoint list option \<Rightarrow> num option" where
  "latestPointValue points = (case points of None \<Rightarrow> None | Some ps \<Rightarrow> map_option sp_value (last_opt ps))"

subsection \<open>Summed rates\<close>

lemma rate_totals:
  "map_get (fold (group_step sp_timestamp add_rate) ps []) ts =
     (if ts \<in> set (map sp_timestamp ps) then Some (sum_list (map sp_value (filter (\<lambda>p. sp_timestamp p = ts) ps))) else None)"
proof -
  have add: "fold (\<lambda>x v. Some (add_rate v x)) qs (Some a) = Some (a + sum_list (map sp_value qs))" for qs a
    by (induction qs arbitrary: a) (simp_all add: add_rate_def add.assoc)
  have "fold (\<lambda>x v. Some (add_rate v x)) qs None = (if qs = [] then None else Some (sum_list (map sp_value qs)))" for qs
    by (cases qs) (simp_all add: add add_rate_def [of None])
  then show ?thesis
    by (auto simp: map_get_group filter_empty_conv)
qed

lemma sumRates_points:
  "p \<in> set (sumRates rx tx) \<longleftrightarrow>
     sp_timestamp p \<in> set (map sp_timestamp (rx @ tx)) \<and>
     sp_value p = sum_list (map sp_value (filter (\<lambda>q. sp_timestamp q = sp_timestamp p) (rx @ tx)))"
proof -
  let ?m = "fold (group_step sp_timestamp add_rate) (rx @ tx) []"
  have "distinct (map_keys ?m)" by (simp only: map_keys_group distinct_fold_set_add list.map distinct.simps)
  then have "(ts, v) \<in> set ?m \<longleftrightarrow> map_get ?m ts = Some v" for ts v by simp
  moreover have "p \<in> set (sumRates rx tx) \<longleftrightarrow> (sp_timestamp p, sp_value p) \<in> set ?m"
    by (cases p) (force simp: sumRates_def)
  ultimately show ?thesis unfolding rate_totals by auto
qed

lemma sumRates_distinct: "distinct (map sp_timestamp (sumRates rx tx))"
proof -
  let ?m = "fold (group_step sp_timestamp add_rate) (rx @ tx) []"
  have "mset (map sp_timestamp (sumRates rx tx)) = mset (map_keys ?m)"
    by (simp add: sumRates_def comp_def case_prod_unfold multiset.map_comp del: fold_append)
  moreover have "distinct (map_keys ?m)" by (simp only: map_keys_group distinct_fold_set_add list.map distinct.simps)
  ultimately show ?thesis by (metis mset_eq_imp_distinct_iff)
qed

lemma sort_readable:
  assumes "\<forall>p \<in> set ps. sample_time p \<noteq> None"
  shows "sorted (map (\<lambda>p. the (sample_time p)) (js_sort time_order ps))"
proof -
  have ins: "insert_cmp time_order p qs = insert_cmp (cmp_by (\<lambda>p. the (sample_time p))) p qs"
    if "sample_time p \<noteq> None" "\<forall>q \<in> set qs. sample_time q \<noteq> None" for p qs
    using that by (induction qs) (auto simp: time_order_def cmp_by_def)
  have "js_sort time_order ps = js_sort (cmp_by (\<lambda>p. the (sample_time p))) ps"
    using assms
  proof (induction ps)
    case (Cons p ps)
    have "set (js_sort time_order ps) = set ps" by simp
    with Cons ins [of p "js_sort time_order ps"] show ?case by (simp add: js_sort_def)
  qed (simp add: js_sort_def)
  then show ?thesis
    using by_key.sorted_js_sort [of "\<lambda>p. the (sample_time p)" ps] by (simp add: sorted_map)
qed

text \<open>
  The rate drawn for a machine has exactly one point for every instant at which received or sent bytes were reported,
  it is the sum of all that was reported for that instant, and the points are in time order.
\<close>

theorem rates_summed:
  assumes "\<forall>p \<in> set (rx @ tx). sample_time p \<noteq> None"
  shows "distinct (map sp_timestamp (sumRates rx tx)) \<and>
    set (map sp_timestamp (sumRates rx tx)) = set (map sp_timestamp (rx @ tx)) \<and>
    (\<forall>p \<in> set (sumRates rx tx). sp_value p = sum_list (map sp_value (filter (\<lambda>q. sp_timestamp q = sp_timestamp p) (rx @ tx)))) \<and>
    sorted (map (\<lambda>p. the (sample_time p)) (sumRates rx tx))"
proof (intro conjI)
  show "distinct (map sp_timestamp (sumRates rx tx))" by (rule sumRates_distinct)
  have mem: "ts \<in> set (map sp_timestamp (rx @ tx)) \<Longrightarrow>
      \<lparr>sp_timestamp = ts, sp_value = sum_list (map sp_value (filter (\<lambda>q. sp_timestamp q = ts) (rx @ tx)))\<rparr> \<in> set (sumRates rx tx)" for ts
    unfolding sumRates_points by simp
  show stamps: "set (map sp_timestamp (sumRates rx tx)) = set (map sp_timestamp (rx @ tx))"
  proof (intro set_eqI iffI)
    fix ts assume "ts \<in> set (map sp_timestamp (sumRates rx tx))"
    then obtain p where "p \<in> set (sumRates rx tx)" "ts = sp_timestamp p" by auto
    then show "ts \<in> set (map sp_timestamp (rx @ tx))" by (simp only: sumRates_points)
  next
    fix ts assume "ts \<in> set (map sp_timestamp (rx @ tx))"
    from mem [OF this] show "ts \<in> set (map sp_timestamp (sumRates rx tx))" by (force simp: image_iff)
  qed
  show "\<forall>p \<in> set (sumRates rx tx). sp_value p = sum_list (map sp_value (filter (\<lambda>q. sp_timestamp q = sp_timestamp p) (rx @ tx)))"
    by (intro ballI) (simp only: sumRates_points)
  have "sample_time p \<noteq> None" if "p \<in> set (sumRates rx tx)" for p
  proof -
    have "sp_timestamp p \<in> set (map sp_timestamp (rx @ tx))"
      using that by (simp only: sumRates_points)
    then obtain q where "q \<in> set (rx @ tx)" "sp_timestamp q = sp_timestamp p" unfolding set_map by (metis imageE)
    with assms show ?thesis by metis
  qed
  then show "sorted (map (\<lambda>p. the (sample_time p)) (sumRates rx tx))"
    unfolding sumRates_def set_js_sort by (intro sort_readable) blast
qed

subsection \<open>The selection\<close>

definition drawable :: "DeviceSummary list \<Rightarrow> FleetMetric \<Rightarrow> OverviewInstanceSeries \<Rightarrow> bool" where
  "drawable devices metric i \<longleftrightarrow>
     metric = CpuTrend \<or> metric = NetworkTrend \<or>
     set (UNAVAILABLE_KEYS metric) \<inter> set (nullish (oi_unavailableMetrics i) []) \<noteq> {} \<or>
     (\<exists>device capacity. map_get (devices_by_id devices) (oi_deviceId i) = Some device \<and> 0 < capacity \<and>
        (if metric = MemoryTrend then sm_memoryTotalBytes device else sm_diskTotalBytes device) = Some capacity)"

lemma trend_points_drawable: "trend_points (map_get (devices_by_id devices) (oi_deviceId i)) metric i \<noteq> None \<longleftrightarrow> drawable devices metric i"
  by (cases metric) (auto simp: trend_points_def drawable_def not_le Option.bind_eq_Some_conv split: option.splits if_splits)

lemma trend_points_share:
  "trend_points device metric i = Some points \<Longrightarrow> metric \<in> {MemoryTrend, DiskTrend} \<Longrightarrow> p \<in> set points \<Longrightarrow> 0 \<le> sp_value p \<and> sp_value p \<le> 100"
  by (auto simp: trend_points_def share_points_def split: option.splits if_splits)

lemma trend_fold:
  "fold (trend_step byId metric) is (trends, missing) =
     (trends @ List.map_filter (\<lambda>i. map_option (trend_base (map_get byId (oi_deviceId i)) i) (trend_points (map_get byId (oi_deviceId i)) metric i)) is,
      missing @ map (\<lambda>i. trend_hostname (map_get byId (oi_deviceId i)) i) (filter (\<lambda>i. trend_points (map_get byId (oi_deviceId i)) metric i = None) is))"
  by (induction "is" arbitrary: trends missing) (auto simp: trend_step_def List.map_filter_simps Let_def split: option.split)

text \<open>
  Every machine of the overview is either drawn, or named as one whose capacity is not known, in the given order and
  never both; it is left out only if its share cannot be computed, machines that cannot report a metric keep an empty
  curve, and every point of a memory or disk curve is a percentage.
\<close>

theorem fleet_trends_complete:
  "map ft_deviceId (fs_trends (selectFleetTrends instances devices metric)) = map oi_deviceId (filter (drawable devices metric) instances) \<and>
   fs_missingCapacity (selectFleetTrends instances devices metric) =
     map (\<lambda>i. trend_hostname (map_get (devices_by_id devices) (oi_deviceId i)) i) (filter (\<lambda>i. \<not> drawable devices metric i) instances) \<and>
   (metric \<in> {MemoryTrend, DiskTrend} \<longrightarrow>
      (\<forall>trend \<in> set (fs_trends (selectFleetTrends instances devices metric)). \<forall>p \<in> set (ft_points trend). 0 \<le> sp_value p \<and> sp_value p \<le> 100))"
proof -
  let ?points = "\<lambda>i. trend_points (map_get (devices_by_id devices) (oi_deviceId i)) metric i"
  let ?trend = "\<lambda>i. map_option (trend_base (map_get (devices_by_id devices) (oi_deviceId i)) i) (?points i)"
  have trends: "fs_trends (selectFleetTrends instances devices metric) = List.map_filter ?trend instances"
    and missing: "fs_missingCapacity (selectFleetTrends instances devices metric) =
      map (\<lambda>i. trend_hostname (map_get (devices_by_id devices) (oi_deviceId i)) i) (filter (\<lambda>i. ?points i = None) instances)"
    by (simp_all add: selectFleetTrends_def trend_fold)
  have "map ft_deviceId (List.map_filter ?trend is) = map oi_deviceId (filter (\<lambda>i. ?points i \<noteq> None) is)" for "is"
    by (induction "is") (auto simp: List.map_filter_simps trend_base_def)
  then have "map ft_deviceId (fs_trends (selectFleetTrends instances devices metric)) = map oi_deviceId (filter (drawable devices metric) instances)"
    unfolding trends trend_points_drawable .
  moreover have "fs_missingCapacity (selectFleetTrends instances devices metric) =
     map (\<lambda>i. trend_hostname (map_get (devices_by_id devices) (oi_deviceId i)) i) (filter (\<lambda>i. \<not> drawable devices metric i) instances)"
    unfolding missing trend_points_drawable [symmetric] by simp
  moreover have "0 \<le> sp_value p \<and> sp_value p \<le> 100"
    if "metric \<in> {MemoryTrend, DiskTrend}" "trend \<in> set (fs_trends (selectFleetTrends instances devices metric))" "p \<in> set (ft_points trend)" for trend p
  proof -
    have "set (List.map_filter f xs) = {y. \<exists>x \<in> set xs. f x = Some y}" for f :: "OverviewInstanceSeries \<Rightarrow> FleetTrend option" and xs
      by (induction xs) (auto simp: List.map_filter_simps split: option.splits)
    with that(2) obtain i points where "?points i = Some points" "trend = trend_base (map_get (devices_by_id devices) (oi_deviceId i)) i points"
      unfolding trends by auto
    with trend_points_share [of _ metric i points p] that show ?thesis by (simp add: trend_base_def)
  qed
  ultimately show ?thesis by blast
qed

theorem rates_summed_witness:
  "map sp_value (sumRates [\<lparr>sp_timestamp = toISOString 5000, sp_value = 2\<rparr>] [\<lparr>sp_timestamp = toISOString 5000, sp_value = 3\<rparr>]) = [5]"
proof -
  let ?rx = "[\<lparr>sp_timestamp = toISOString 5000, sp_value = 2\<rparr>]" and ?tx = "[\<lparr>sp_timestamp = toISOString 5000, sp_value = 3\<rparr>] :: SamplePoint list"
  have "\<forall>p \<in> set (?rx @ ?tx). sample_time p \<noteq> None" by (simp add: Date_parse_demo)
  note all = rates_summed [OF this]
  have "length (sumRates ?rx ?tx) = card (set (map sp_timestamp (sumRates ?rx ?tx)))"
    using all [THEN conjunct1] by (metis distinct_card length_map)
  also have "\<dots> = 1" using all by simp
  finally obtain p where p: "sumRates ?rx ?tx = [p]" by (auto simp: length_Suc_conv)
  with all have "sp_timestamp p = toISOString 5000" "sp_value p = 5" by auto
  with p show ?thesis by simp
qed

definition demo_instance :: "OverviewInstanceSeries" where
  "demo_instance = \<lparr>oi_deviceId = ''host'', oi_hostname = ''alpha'', oi_cpuUsagePercent = [], oi_memoryUsedBytes = curve_points,
     oi_diskUsedBytes = [], oi_networkRxBytesPerSec = [], oi_networkTxBytesPerSec = [], oi_unavailableMetrics = None\<rparr>"

theorem fleet_trends_complete_witness:
  "fs_missingCapacity (selectFleetTrends [demo_instance] [] MemoryTrend) = [''alpha''] \<and>
   map ft_deviceId (fs_trends (selectFleetTrends [demo_instance] [] MemoryTrend)) = []"
  using fleet_trends_complete [of "[demo_instance]" "[]" MemoryTrend]
  by (simp add: drawable_def demo_instance_def devices_by_id_def trend_hostname_def)

end
