(* ===== verification/Desktop_Agent.thy ===== *)
theory Desktop_Agent
  imports Utils Js_Text "HOL-Library.Sublist"
begin

text \<open>
  The desktop shell's view of the local agent: the types of \<open>apps/desktop/src/main/types.ts\<close> and the agent part of
  \<open>packages/shared/src/index.ts\<close>, \<open>redactBackendState\<close> of \<open>controller.ts\<close>, which decides what of the agent's state
  reaches the page, \<open>synthesizeStateFromStatus\<close> of \<open>agent-manager.ts\<close>, and \<open>agent-connection.ts\<close>, which merges settings
  and saves a connection so that a failed login loses neither address nor key.
\<close>

subsection \<open>Types\<close>

datatype AgentProbeTarget = BlockTarget DeviceBlockKey | ConnectionTarget

datatype AgentProbeProvider = Builtin | Gopsutil | Darwin | Hwmon | Wmi | Librehardwaremonitor | LibreHardwareMonitor
  | OpenHardwareMonitor | Redfish | DisabledProvider

datatype DesktopAgentMode = ServiceMode | ServiceReadonly | ChildMode

record AgentConnectionConfig =
  ac_serverUrl :: string
  ac_secret :: string
  ac_deviceId :: string
  ac_hostname :: string

record AgentSamplingConfig =
  as_normalIntervalSeconds :: num
  as_slowIntervalSeconds :: num

record AgentProbeSelection =
  ap_target :: AgentProbeTarget
  ap_provider :: AgentProbeProvider
  ap_enabled :: bool

record AgentBackendConfig =
  gc_configVersion :: "num option"
  gc_connection :: AgentConnectionConfig
  gc_sampling :: AgentSamplingConfig
  gc_enabledMetrics :: "DeviceMetricKey list option"
  gc_enabledDeviceIds :: "(DeviceBlockKey, string list) jsmap option"
  gc_instanceMetricConfig :: "(string, DeviceMetricKey list) jsmap option"
  gc_probeSelections :: "AgentProbeSelection list option"
  gc_cloudSyncEnabled :: "bool option"
  gc_dataRecordingEnabled :: "bool option"
  gc_autoRestartCollector :: "bool option"
  gc_autoStartCollector :: "bool option"

record DesktopConnection =
  dn_serverUrl :: string
  dn_deviceId :: string
  dn_hostname :: string
  dn_secretConfigured :: bool

record DesktopAgentConfig =
  dg_configVersion :: num
  dg_connection :: DesktopConnection
  dg_sampling :: AgentSamplingConfig
  dg_enabledMetrics :: "DeviceMetricKey list"
  dg_enabledDeviceIds :: "(DeviceBlockKey, string list) jsmap"
  dg_instanceMetricConfig :: "(string, DeviceMetricKey list) jsmap"
  dg_probeSelections :: "AgentProbeSelection list"
  dg_cloudSyncEnabled :: bool
  dg_dataRecordingEnabled :: bool
  dg_autoRestartCollector :: bool
  dg_autoStartCollector :: bool

record RawProbePlan =
  pp_target :: AgentProbeTarget
  pp_providers :: "string list option"
  pp_default :: string

record DesktopDetectedTarget =
  dt_id :: string
  dt_name :: string
  dt_subtitle :: "string option"
  dt_enabled :: bool
  dt_metrics :: "string list"

record RawDetectedTargetGroup =
  tg_target :: AgentProbeTarget
  tg_label :: string
  tg_instances :: "DesktopDetectedTarget list option"

text \<open>What the agent's state and the page's view of it have in common.\<close>

record backend_status =
  bs_running :: bool
  bs_backendStartedAt :: string
  bs_frontendParentPid :: num
  bs_childStartedAt :: "string option"
  bs_connectionStatus :: string
  bs_lastChildLog :: "string option"
  bs_lastUploadAt :: "string option"
  bs_lastCloudSyncAt :: "string option"
  bs_lastCloudSyncError :: "string option"
  bs_cloudConfigPending :: bool
  bs_lastDetectAt :: "string option"
  bs_lastExitAt :: "string option"
  bs_lastRestartAt :: "string option"
  bs_restartCount :: num
  bs_lastExitCode :: "num option"
  bs_autoRestartPending :: bool
  bs_effectiveUploadIntervalSeconds :: num
  bs_lastIssueCategory :: "string option"
  bs_lastIssueDetail :: "string option"
  bs_lastIssueAt :: "string option"
  bs_lastIssueCount :: num
  bs_lastIssueRecoveredAt :: "string option"
  bs_configPath :: string
  bs_configFileExists :: bool
  bs_syncStatePath :: string
  bs_syncStateFileExists :: bool
  bs_diagnosticsPath :: string
  bs_diagnosticsFileExists :: bool
  bs_pendingStatePath :: string
  bs_pendingStateFileExists :: bool
  bs_pendingSampleCount :: num
  bs_pendingBytes :: num
  bs_oldestPendingAt :: "string option"
  bs_lastUploadError :: "string option"
  bs_temperatureProbeError :: "string option"

record RawAgentBackendState = backend_status +
  rw_config :: AgentBackendConfig
  rw_supportedProbePlans :: "RawProbePlan list option"
  rw_detectedTargets :: "RawDetectedTargetGroup list option"
  rw_temperatureSources :: "TemperatureSensorReading list option"
  rw_temperatureSensorBackends :: "SensorBackendStatus list option"
  rw_agentMode :: "DesktopAgentMode option"

record DesktopProbePlan =
  pl_target :: AgentProbeTarget
  pl_providers :: "string list"
  pl_default :: string

record DesktopDetectedTargetGroup =
  dx_target :: AgentProbeTarget
  dx_label :: string
  dx_instances :: "DesktopDetectedTarget list"

record DesktopAgentBackendState = backend_status +
  db_config :: DesktopAgentConfig
  db_supportedProbePlans :: "DesktopProbePlan list"
  db_detectedTargets :: "DesktopDetectedTargetGroup list"
  db_temperatureSources :: "TemperatureSensorReading list"
  db_temperatureSensorBackends :: "SensorBackendStatus list"
  db_agentMode :: DesktopAgentMode

subsection \<open>\<open>split\<close> at a text and the redaction\<close>

text \<open>\<open>value.split(secret)\<close> for a secret that is not empty.\<close>

function split_at :: "string \<Rightarrow> string \<Rightarrow> string list" where
  "split_at sep [] = [[]]"
| "split_at sep (x # s) =
     (if sep \<noteq> [] \<and> take (length sep) (x # s) = sep then [] # split_at sep (drop (length sep) (x # s))
      else case split_at sep s of [] \<Rightarrow> [[x]] | p # ps \<Rightarrow> (x # p) # ps)"
  by pat_completeness auto
termination by (relation "measure (\<lambda>(_, s). length s)") auto

definition scrub :: "string \<Rightarrow> string option \<Rightarrow> string option" where
  "scrub secret v =
     (if \<not> truthy v \<or> secret = [] then v else Some (join_with ''[redacted]'' (split_at secret (the v))))"

definition redactBackendState :: "RawAgentBackendState \<Rightarrow> DesktopAgentBackendState" where
  "redactBackendState state =
     (let config = rw_config state; connection = gc_connection config; secret = trim (ac_secret connection);
          status = backend_status.truncate state
            \<lparr>bs_lastChildLog := scrub secret (bs_lastChildLog state), bs_lastUploadError := scrub secret (bs_lastUploadError state),
             bs_lastCloudSyncError := scrub secret (bs_lastCloudSyncError state),
             bs_lastIssueDetail := scrub secret (bs_lastIssueDetail state),
             bs_temperatureProbeError := scrub secret (bs_temperatureProbeError state)\<rparr>
      in backend_status.extend status
           (DesktopAgentBackendState.fields
              \<lparr>dg_configVersion = nullish (gc_configVersion config) 1,
               dg_connection = \<lparr>dn_serverUrl = ac_serverUrl connection, dn_deviceId = ac_deviceId connection,
                 dn_hostname = ac_hostname connection, dn_secretConfigured = secret \<noteq> []\<rparr>,
               dg_sampling = gc_sampling config,
               dg_enabledMetrics = nullish (gc_enabledMetrics config) [],
               dg_enabledDeviceIds = nullish (gc_enabledDeviceIds config) [],
               dg_instanceMetricConfig = nullish (gc_instanceMetricConfig config) [],
               dg_probeSelections = nullish (gc_probeSelections config) [],
               dg_cloudSyncEnabled = nullish (gc_cloudSyncEnabled config) True,
               dg_dataRecordingEnabled = nullish (gc_dataRecordingEnabled config) True,
               dg_autoRestartCollector = nullish (gc_autoRestartCollector config) True,
               dg_autoStartCollector = nullish (gc_autoStartCollector config) False\<rparr>
              (map (\<lambda>plan. \<lparr>pl_target = pp_target plan, pl_providers = nullish (pp_providers plan) [], pl_default = pp_default plan\<rparr>)
                 (nullish (rw_supportedProbePlans state) []))
              (map (\<lambda>group. \<lparr>dx_target = tg_target group, dx_label = tg_label group, dx_instances = nullish (tg_instances group) []\<rparr>)
                 (nullish (rw_detectedTargets state) []))
              (nullish (rw_temperatureSources state) [])
              (nullish (rw_temperatureSensorBackends state) [])
              (nullish (rw_agentMode state) ChildMode)))"


subsection \<open>Merging settings\<close>

record DesktopConfigPatch =
  pc_configVersion :: "num option"
  pc_serverUrl :: "string option"
  pc_deviceId :: "string option"
  pc_hostname :: "string option"
  pc_normalIntervalSeconds :: "num option"
  pc_slowIntervalSeconds :: "num option"
  pc_enabledMetrics :: "DeviceMetricKey list option"
  pc_enabledDeviceIds :: "(DeviceBlockKey, string list) jsmap option"
  pc_instanceMetricConfig :: "(string, DeviceMetricKey list) jsmap option"
  pc_probeSelections :: "AgentProbeSelection list option"
  pc_cloudSyncEnabled :: "bool option"
  pc_dataRecordingEnabled :: "bool option"
  pc_autoRestartCollector :: "bool option"
  pc_autoStartCollector :: "bool option"

definition empty_patch :: DesktopConfigPatch where
  "empty_patch = \<lparr>pc_configVersion = None, pc_serverUrl = None, pc_deviceId = None, pc_hostname = None,
     pc_normalIntervalSeconds = None, pc_slowIntervalSeconds = None, pc_enabledMetrics = None, pc_enabledDeviceIds = None,
     pc_instanceMetricConfig = None, pc_probeSelections = None, pc_cloudSyncEnabled = None, pc_dataRecordingEnabled = None,
     pc_autoRestartCollector = None, pc_autoStartCollector = None\<rparr>"

definition mergeAgentConfig :: "AgentBackendConfig \<Rightarrow> DesktopConfigPatch \<Rightarrow> AgentBackendConfig" where
  "mergeAgentConfig current patch = current
     \<lparr>gc_configVersion := Some (nullish (opt_or (pc_configVersion patch) (gc_configVersion current)) 1),
      gc_connection := (gc_connection current)
        \<lparr>ac_serverUrl := nullish (pc_serverUrl patch) (ac_serverUrl (gc_connection current)),
         ac_deviceId := nullish (pc_deviceId patch) (ac_deviceId (gc_connection current)),
         ac_hostname := nullish (pc_hostname patch) (ac_hostname (gc_connection current))\<rparr>,
      gc_sampling := \<lparr>as_normalIntervalSeconds = nullish (pc_normalIntervalSeconds patch) (as_normalIntervalSeconds (gc_sampling current)),
         as_slowIntervalSeconds = nullish (pc_slowIntervalSeconds patch) (as_slowIntervalSeconds (gc_sampling current))\<rparr>,
      gc_enabledMetrics := opt_or (pc_enabledMetrics patch) (gc_enabledMetrics current),
      gc_enabledDeviceIds := opt_or (pc_enabledDeviceIds patch) (gc_enabledDeviceIds current),
      gc_instanceMetricConfig := opt_or (pc_instanceMetricConfig patch) (gc_instanceMetricConfig current),
      gc_probeSelections := opt_or (pc_probeSelections patch) (gc_probeSelections current),
      gc_cloudSyncEnabled := opt_or (pc_cloudSyncEnabled patch) (gc_cloudSyncEnabled current),
      gc_dataRecordingEnabled := opt_or (pc_dataRecordingEnabled patch) (gc_dataRecordingEnabled current),
      gc_autoRestartCollector := opt_or (pc_autoRestartCollector patch) (gc_autoRestartCollector current),
      gc_autoStartCollector := opt_or (pc_autoStartCollector patch) (gc_autoStartCollector current)\<rparr>"

text \<open>
  Saving a connection.  The agent and the hub are other programs: whether the agent answers, accepts the first and the second
  configuration, and whether the hub accepts the login are inputs.  The state is the configuration the agent holds.
\<close>

datatype connection_error = AgentUnavailable | AddressNotWritten | HubAddressSavedLoginError | KeyNotWritten

record save_inputs =
  sv_started :: bool
  sv_address_written :: bool
  sv_login_accepted :: bool
  sv_key_written :: bool

definition saveHubConnectionResiliently ::
    "save_inputs \<Rightarrow> string \<Rightarrow> string \<Rightarrow> AgentBackendConfig \<Rightarrow> (connection_error + unit) \<times> AgentBackendConfig" where
  "saveHubConnectionResiliently inputs serverUrl credential stored =
     (if \<not> sv_started inputs then (Inl AgentUnavailable, stored)
      else let addressConfig = mergeAgentConfig stored (empty_patch\<lparr>pc_serverUrl := Some serverUrl\<rparr>)
           in if \<not> sv_address_written inputs then (Inl AddressNotWritten, stored)
              else if \<not> sv_login_accepted inputs then (Inl HubAddressSavedLoginError, addressConfig)
              else let authenticatedConfig = addressConfig\<lparr>gc_connection := (gc_connection addressConfig)\<lparr>ac_secret := credential\<rparr>\<rparr>
                   in if \<not> sv_key_written inputs then (Inl KeyNotWritten, addressConfig)
                      else (Inr (), authenticatedConfig))"

subsection \<open>A state from the status of the service\<close>

record ServiceStatusPayload =
  ss_running :: bool
  ss_serviceScope :: bool
  ss_collectorRunning :: bool
  ss_connectionStatus :: string
  ss_configured :: bool
  ss_deviceId :: "string option"
  ss_hostname :: "string option"
  ss_hubServerUrl :: "string option"
  ss_autoStartCollector :: bool
  ss_dataRecordingEnabled :: bool
  ss_cloudSyncEnabled :: bool
  ss_lastUploadAt :: "string option"
  ss_lastUploadError :: "string option"
  ss_pendingSamples :: num
  ss_pendingBytes :: num
  ss_oldestPendingAt :: "string option"
  ss_restartCount :: num
  ss_version :: string
  ss_channel :: string
  ss_configDir :: "string option"
  ss_configPath :: "string option"
  ss_syncStatePath :: "string option"
  ss_diagnosticsPath :: "string option"
  ss_pendingStatePath :: "string option"
  ss_backendStartedAt :: "string option"
  ss_childStartedAt :: "string option"
  ss_effectiveUploadIntervalSeconds :: "num option"

text \<open>\<open>host\<close> is the machine's name, \<open>in_dir\<close> joins a file name to the directory of the configuration.\<close>

definition synthesizeStateFromStatus :: "string \<Rightarrow> (string \<Rightarrow> string) \<Rightarrow> ServiceStatusPayload \<Rightarrow> RawAgentBackendState" where
  "synthesizeStateFromStatus host in_dir status =
     \<lparr>bs_running = ss_running status, bs_backendStartedAt = nullish (ss_backendStartedAt status) [], bs_frontendParentPid = 0,
      bs_childStartedAt = ss_childStartedAt status, bs_connectionStatus = ss_connectionStatus status, bs_lastChildLog = None,
      bs_lastUploadAt = ss_lastUploadAt status, bs_lastCloudSyncAt = None, bs_lastCloudSyncError = None, bs_cloudConfigPending = False,
      bs_lastDetectAt = None, bs_lastExitAt = None, bs_lastRestartAt = None, bs_restartCount = ss_restartCount status,
      bs_lastExitCode = None, bs_autoRestartPending = False,
      bs_effectiveUploadIntervalSeconds = nullish (ss_effectiveUploadIntervalSeconds status) 30,
      bs_lastIssueCategory = None, bs_lastIssueDetail = None, bs_lastIssueAt = None, bs_lastIssueCount = 0, bs_lastIssueRecoveredAt = None,
      bs_configPath = nullish (ss_configPath status) (in_dir ''agent-ui.config.json''), bs_configFileExists = truthy (ss_configPath status),
      bs_syncStatePath = nullish (ss_syncStatePath status) (in_dir ''agent-ui.sync-state.json''),
      bs_syncStateFileExists = truthy (ss_syncStatePath status),
      bs_diagnosticsPath = nullish (ss_diagnosticsPath status) (in_dir ''agent-ui.backend.log''),
      bs_diagnosticsFileExists = truthy (ss_diagnosticsPath status),
      bs_pendingStatePath = nullish (ss_pendingStatePath status) (in_dir ''agent-ui.config.json.pending.jsonl.state.json''),
      bs_pendingStateFileExists = (0 < ss_pendingSamples status), bs_pendingSampleCount = ss_pendingSamples status,
      bs_pendingBytes = ss_pendingBytes status, bs_oldestPendingAt = ss_oldestPendingAt status,
      bs_lastUploadError = ss_lastUploadError status, bs_temperatureProbeError = None,
      rw_config =
        \<lparr>gc_configVersion = Some 1,
         gc_connection = \<lparr>ac_serverUrl = nullish (ss_hubServerUrl status) [], ac_secret = [],
           ac_deviceId = nullish (ss_deviceId status) host, ac_hostname = nullish (ss_hostname status) host\<rparr>,
         gc_sampling = \<lparr>as_normalIntervalSeconds = nullish (ss_effectiveUploadIntervalSeconds status) 30,
           as_slowIntervalSeconds = nullish (ss_effectiveUploadIntervalSeconds status) 30\<rparr>,
         gc_enabledMetrics = Some [], gc_enabledDeviceIds = Some [], gc_instanceMetricConfig = Some [], gc_probeSelections = Some [],
         gc_cloudSyncEnabled = Some (ss_cloudSyncEnabled status), gc_dataRecordingEnabled = Some (ss_dataRecordingEnabled status),
         gc_autoRestartCollector = Some True, gc_autoStartCollector = Some (ss_autoStartCollector status)\<rparr>,
      rw_supportedProbePlans = Some [], rw_detectedTargets = Some [], rw_temperatureSources = Some [],
      rw_temperatureSensorBackends = Some [], rw_agentMode = Some ServiceReadonly\<rparr>"


subsection \<open>The key does not reach the page\<close>

lemma split_at_not_Nil [simp]: "split_at sep s \<noteq> []"
  by (induction sep s rule: split_at.induct) (auto split: list.split)

lemma split_at_prefix: "split_at sep s = p # ps \<Longrightarrow> prefix p s"
proof (induction sep s arbitrary: p ps rule: split_at.induct)
  case (2 sep x s)
  then show ?case by (auto split: if_splits list.splits)
qed simp

lemma split_at_pieces: "sep \<noteq> [] \<Longrightarrow> q \<in> set (split_at sep s) \<Longrightarrow> \<not> sublist sep q"
proof (induction sep s arbitrary: q rule: split_at.induct)
  case (2 sep x s)
  show ?case
  proof (cases "take (length sep) (x # s) = sep")
    case True
    then show ?thesis using 2 by auto
  next
    case False
    obtain p ps where s: "split_at sep s = p # ps" by (cases "split_at sep s") auto
    have pieces: "\<not> sublist sep q" if "q \<in> set (p # ps)" for q
      using 2(2) [OF _ 2(3)] False that unfolding s by blast
    have "\<not> prefix sep (x # p)"
      using False split_at_prefix [OF s] by (metis append_take_drop_id prefixE prefix_def prefix_order.trans same_prefix_prefix
        append_eq_conv_conj Cons_prefix_Cons)
    then have "\<not> sublist sep (x # p)" using pieces by (simp add: sublist_Cons_right)
    then show ?thesis using 2(4) False pieces s by auto
  qed
qed simp

lemma split_at_absent: "\<not> sublist sep s \<Longrightarrow> split_at sep s = [s]"
proof (induction sep s rule: split_at.induct)
  case (2 sep x s)
  have "take (length sep) (x # s) \<noteq> sep"
    using 2(3) by (metis sublist_take)
  then show ?case using 2 by (auto simp: sublist_Cons_right)
qed simp

lemma sublist_apart: "c \<notin> set sep \<Longrightarrow> sublist sep (a @ c # b) \<Longrightarrow> sublist sep a \<or> sublist sep b"
  by (auto simp: sublist_append sublist_Cons_right prefix_Cons suffix_imp_sublist)

lemma join_redacted:
  assumes "CHR ''['' \<notin> set sep" "CHR '']'' \<notin> set sep" "\<not> sublist sep ''redacted''" "\<forall>p \<in> set ps. \<not> sublist sep p" "ps \<noteq> []"
  shows "\<not> sublist sep (join_with ''[redacted]'' ps)"
  using assms(4,5)
proof (induction ps rule: induct_list012)
  case (3 p q ps)
  have "sublist sep (p @ CHR ''['' # (''redacted'' @ CHR '']'' # join_with ''[redacted]'' (q # ps))) \<Longrightarrow> False"
    using 3 assms(3) sublist_apart [OF assms(1)] sublist_apart [OF assms(2)] by (metis list.distinct(1) list.set_intros)
  then show ?case by auto
qed auto

lemma scrub_hides:
  assumes "sep \<noteq> []" "CHR ''['' \<notin> set sep" "CHR '']'' \<notin> set sep" "\<not> sublist sep ''redacted''" "scrub sep v = Some t"
  shows "\<not> sublist sep t"
  using assms join_redacted [OF assms(2,3,4), of "split_at sep (the v)"] split_at_pieces [OF assms(1)]
  by (cases v) (auto simp: scrub_def split: if_splits)

lemma scrub_keeps: "\<not> sublist sep t \<Longrightarrow> scrub sep (Some t) = Some t"
  by (simp add: scrub_def split_at_absent)


definition page_texts :: "DesktopAgentBackendState \<Rightarrow> string option list" where
  "page_texts s = [bs_lastChildLog s, bs_lastUploadError s, bs_lastCloudSyncError s, bs_lastIssueDetail s, bs_temperatureProbeError s]"

definition agent_texts :: "RawAgentBackendState \<Rightarrow> string option list" where
  "agent_texts s = [bs_lastChildLog s, bs_lastUploadError s, bs_lastCloudSyncError s, bs_lastIssueDetail s, bs_temperatureProbeError s]"

lemma page_texts_redact:
  "page_texts (redactBackendState s) = map (scrub (trim (ac_secret (gc_connection (rw_config s))))) (agent_texts s)"
  by (simp add: page_texts_def agent_texts_def redactBackendState_def Let_def backend_status.defs DesktopAgentBackendState.defs
      RawAgentBackendState.defs)

lemma scrub_None [simp]: "scrub k None = None"
  by (simp add: scrub_def)

text \<open>
  The key does not reach the page: in what the page is given of the agent's state no log line and no error text contains
  the access key, texts without it are unchanged, and the page is told whether a key is set.  The key must not itself occur
  in the replacement text: it has no bracket and is no part of ``redacted''.
\<close>

theorem key_is_redacted:
  assumes "k = trim (ac_secret (gc_connection (rw_config s)))" "CHR ''['' \<notin> set k" "CHR '']'' \<notin> set k" "\<not> sublist k ''redacted''"
  shows "(\<forall>t. Some t \<in> set (page_texts (redactBackendState s)) \<longrightarrow> \<not> sublist k t) \<and>
    (\<forall>i < length (agent_texts s). (\<forall>t. agent_texts s ! i = Some t \<longrightarrow> \<not> sublist k t) \<longrightarrow>
       page_texts (redactBackendState s) ! i = agent_texts s ! i) \<and>
    dn_secretConfigured (dg_connection (db_config (redactBackendState s)))"
proof -
  have k: "k \<noteq> []" using assms(4) by auto
  have texts: "page_texts (redactBackendState s) = map (scrub k) (agent_texts s)" by (simp add: page_texts_redact assms(1))
  have "\<not> sublist k t" if "Some t \<in> set (page_texts (redactBackendState s))" for t
    using that scrub_hides [OF k assms(2-4)] unfolding texts by (metis (no_types, lifting) imageE list.set_map)
  moreover have "scrub k v = v" if "\<forall>t. v = Some t \<longrightarrow> \<not> sublist k t" for v
    using that scrub_keeps by (cases v) auto
  moreover have "dn_secretConfigured (dg_connection (db_config (redactBackendState s)))"
    using k by (simp add: redactBackendState_def Let_def assms(1) backend_status.defs DesktopAgentBackendState.defs)
  ultimately show ?thesis unfolding texts by simp
qed

definition demo_status :: ServiceStatusPayload where
  "demo_status = \<lparr>ss_running = True, ss_serviceScope = True, ss_collectorRunning = True, ss_connectionStatus = ''ok'', ss_configured = True,
     ss_deviceId = Some ''pc'', ss_hostname = Some ''pc'', ss_hubServerUrl = Some ''https://hub'', ss_autoStartCollector = True,
     ss_dataRecordingEnabled = True, ss_cloudSyncEnabled = True, ss_lastUploadAt = None, ss_lastUploadError = Some ''bad key k3y!'',
     ss_pendingSamples = 0, ss_pendingBytes = 0, ss_oldestPendingAt = None, ss_restartCount = 0, ss_version = ''1.0.0'',
     ss_channel = ''stable'', ss_configDir = None, ss_configPath = None, ss_syncStatePath = None, ss_diagnosticsPath = None,
     ss_pendingStatePath = None, ss_backendStartedAt = None, ss_childStartedAt = None, ss_effectiveUploadIntervalSeconds = None\<rparr>"

definition demo_agent :: RawAgentBackendState where
  "demo_agent = (let s = synthesizeStateFromStatus ''pc'' (\<lambda>n. n) demo_status
     in s\<lparr>rw_config := (rw_config s)\<lparr>gc_connection := (gc_connection (rw_config s))\<lparr>ac_secret := '' k3y ''\<rparr>\<rparr>\<rparr>)"

lemma demo_agent_key: "trim (ac_secret (gc_connection (rw_config demo_agent))) = ''k3y''"
  by (simp add: demo_agent_def synthesizeStateFromStatus_def trim_def is_space_def)

theorem key_is_redacted_witness:
  "bs_lastUploadError (redactBackendState demo_agent) = Some ''bad key [redacted]!''
    \<and> \<not> sublist ''k3y'' ''bad key [redacted]!''"
proof -
  have t: "bs_lastUploadError (redactBackendState demo_agent) = Some ''bad key [redacted]!''"
    unfolding redactBackendState_def demo_agent_key Let_def
    by (simp add: demo_agent_def synthesizeStateFromStatus_def demo_status_def scrub_def backend_status.defs DesktopAgentBackendState.defs)
  moreover have "\<not> sublist ''k3y'' ''redacted''" by (simp add: sublist_code)
  ultimately show ?thesis
    using key_is_redacted [of "''k3y''" demo_agent] by (simp add: demo_agent_key page_texts_def)
qed

text \<open>
  Saving a connection never loses what was right: once the agent has accepted the address it keeps it even if the login is
  refused, the stored key is replaced exactly when everything succeeded, whatever else is configured stays, and the error
  tells a refused login from an address that was not saved.
\<close>

theorem connection_saved_resiliently:
  assumes "saveHubConnectionResiliently inputs url key stored = (result, stored')"
  shows "ac_serverUrl (gc_connection stored') =
      (if sv_started inputs \<and> sv_address_written inputs then url else ac_serverUrl (gc_connection stored)) \<and>
    ac_secret (gc_connection stored') = (if result = Inr () then key else ac_secret (gc_connection stored)) \<and>
    (result = Inr () \<longleftrightarrow> sv_started inputs \<and> sv_address_written inputs \<and> sv_login_accepted inputs \<and> sv_key_written inputs) \<and>
    (result = Inl HubAddressSavedLoginError \<longleftrightarrow> sv_started inputs \<and> sv_address_written inputs \<and> \<not> sv_login_accepted inputs) \<and>
    stored'\<lparr>gc_configVersion := gc_configVersion stored, gc_connection := gc_connection stored\<rparr> = stored \<and>
    (gc_connection stored')\<lparr>ac_serverUrl := [], ac_secret := []\<rparr> = (gc_connection stored)\<lparr>ac_serverUrl := [], ac_secret := []\<rparr>"
  using assms
  by (auto simp: saveHubConnectionResiliently_def mergeAgentConfig_def empty_patch_def Let_def split: if_splits)

theorem connection_saved_resiliently_witness:
  "let inputs = \<lparr>sv_started = True, sv_address_written = True, sv_login_accepted = False, sv_key_written = True\<rparr>;
       (result, stored) = saveHubConnectionResiliently inputs ''https://new'' ''typo'' (rw_config demo_agent)
   in result = Inl HubAddressSavedLoginError \<and> ac_serverUrl (gc_connection stored) = ''https://new''
      \<and> ac_secret (gc_connection stored) = '' k3y ''"
proof -
  let ?inputs = "\<lparr>sv_started = True, sv_address_written = True, sv_login_accepted = False, sv_key_written = True\<rparr>"
  obtain r st where run: "saveHubConnectionResiliently ?inputs ''https://new'' ''typo'' (rw_config demo_agent) = (r, st)" by fastforce
  have "ac_secret (gc_connection (rw_config demo_agent)) = '' k3y ''" by (simp add: demo_agent_def Let_def)
  then show ?thesis using connection_saved_resiliently [OF run] by (simp add: run)
qed

end
