(* ===== verification/Desktop_Snapshot.thy ===== *)
theory Desktop_Snapshot
  imports Desktop_Agent Hub_Api Updates
begin

text \<open>
  What the desktop shell shows: the snapshot types of \<open>packages/shared/src/index.ts\<close>, the functions of
  \<open>apps/desktop/src/main/controller.ts\<close> that build a snapshot from live or stored data, and \<open>sanitizeCachedSnapshot\<close> of
  \<open>cache-store.ts\<close>.  The clock, the shell's own version and whether a key is stored are arguments.
\<close>

subsection \<open>Types\<close>

record OverviewMetricsResponse =
  om_targetPoints :: "num option"
  om_window :: MetricWindow
  om_instances :: "overview_instance list"

datatype ShownSource = LiveSource | CacheSource | EmptySource

record DesktopCacheState =
  dc_available :: bool
  dc_savedAt :: "string option"
  dc_ageSeconds :: "int option"

record DesktopSessionState =
  dss_authenticated :: bool
  dss_accessKeyConfigured :: bool

datatype UpdateChannel = StableChannel | PreviewChannel

record DesktopStartupSettings =
  du_updateChannel :: "UpdateChannel option"
  du_openAtLogin :: bool
  du_startMinimized :: bool

record DesktopSnapshot =
  sn_generatedAt :: string
  sn_source :: ShownSource
  sn_cache :: DesktopCacheState
  sn_session :: DesktopSessionState
  sn_localBackend :: "DesktopAgentBackendState option"
  sn_devices :: "DeviceSummary list"
  sn_selectedDeviceId :: "string option"
  sn_metrics :: "DeviceMetricsResponse option"
  sn_overviewMetrics :: "OverviewMetricsResponse option"
  sn_trafficCalendar :: "TrafficCalendarResponse option"
  sn_update :: "UpdateInfo option"
  sn_startup :: DesktopStartupSettings

datatype NetworkMode = AutoMode | StandardMode | SaverMode

text \<open>
  A request.  A field that is absent is \<open>None\<close>; the selected device may also be \<open>null\<close>.  \<open>include\<close> is compared by its
  JSON text, so it is the list of its fields in their order.
\<close>

type_synonym SnapshotInclude = "(string \<times> bool) list"

record DesktopSnapshotRequest =
  dr_networkMode :: "NetworkMode option"
  dr_metricWindow :: "MetricWindow option"
  dr_selectedDeviceId :: "string option option"
  dr_trafficMode :: "TrafficCalendarMode option"
  dr_trafficAnchor :: "string option"
  dr_preferCache :: "bool option"
  dr_include :: "SnapshotInclude option"
  dr_background :: "bool option"

definition empty_request :: DesktopSnapshotRequest where
  "empty_request = \<lparr>dr_networkMode = None, dr_metricWindow = None, dr_selectedDeviceId = None, dr_trafficMode = None,
     dr_trafficAnchor = None, dr_preferCache = None, dr_include = None, dr_background = None\<rparr>"

definition mergeSnapshotRequests :: "DesktopSnapshotRequest option \<Rightarrow> DesktopSnapshotRequest \<Rightarrow> DesktopSnapshotRequest" where
  "mergeSnapshotRequests current next =
     (let merged = nullish current empty_request
      in \<lparr>dr_networkMode = opt_or (dr_networkMode next) (dr_networkMode merged),
          dr_metricWindow = opt_or (dr_metricWindow next) (dr_metricWindow merged),
          dr_selectedDeviceId = opt_or (dr_selectedDeviceId next) (dr_selectedDeviceId merged),
          dr_trafficMode = opt_or (dr_trafficMode next) (dr_trafficMode merged),
          dr_trafficAnchor = opt_or (dr_trafficAnchor next) (dr_trafficAnchor merged),
          dr_preferCache = opt_or (dr_preferCache next) (dr_preferCache merged),
          dr_include = opt_or (dr_include next) (dr_include merged),
          dr_background = opt_or (dr_background next) (dr_background merged)\<rparr>)"

subsection \<open>Building a snapshot\<close>

record LiveData =
  ld_localBackend :: "DesktopAgentBackendState option"
  ld_devices :: "DeviceSummary list"
  ld_selectedDeviceId :: "string option"
  ld_metrics :: "DeviceMetricsResponse option"
  ld_overviewMetrics :: "OverviewMetricsResponse option"
  ld_trafficCalendar :: "TrafficCalendarResponse option"
  ld_update :: "UpdateInfo option"
  ld_authenticated :: bool

text \<open>What a snapshot takes from its surroundings: the time, whether a key is stored, the update and the start-up settings.\<close>

record shell =
  sh_now :: int
  sh_configured :: bool
  sh_updateInfo :: "UpdateInfo option"
  sh_startup :: DesktopStartupSettings
  sh_version :: string
  sh_platform :: UpdatePlatform
  sh_arch :: string

definition cacheState :: "int \<Rightarrow> DesktopSnapshot option \<Rightarrow> DesktopCacheState" where
  "cacheState now snapshot =
     (case snapshot of
        None \<Rightarrow> \<lparr>dc_available = False, dc_savedAt = None, dc_ageSeconds = None\<rparr>
      | Some s \<Rightarrow>
          (let timestamp = Date_parse (sn_generatedAt s)
           in \<lparr>dc_available = (timestamp \<noteq> None), dc_savedAt = Some (sn_generatedAt s),
               dc_ageSeconds = map_option (\<lambda>t. max 0 ((now - t) div 1000)) timestamp\<rparr>))"

definition createSnapshot :: "shell \<Rightarrow> ShownSource \<Rightarrow> LiveData \<Rightarrow> DesktopSnapshot option \<Rightarrow> DesktopSnapshot" where
  "createSnapshot sh source live cached =
     (let cachedRemote = (if \<not> ld_authenticated live then cached else None);
          usingCachedRemote = (cachedRemote \<noteq> None \<and> ld_devices live = [] \<and> ld_metrics live = None \<and> ld_trafficCalendar live = None);
          old = the cachedRemote
      in \<lparr>sn_generatedAt = toISOString (sh_now sh),
          sn_source = (if usingCachedRemote then CacheSource else source),
          sn_cache = cacheState (sh_now sh) cached,
          sn_session = \<lparr>dss_authenticated = ld_authenticated live, dss_accessKeyConfigured = sh_configured sh\<rparr>,
          sn_localBackend = ld_localBackend live,
          sn_devices = (if usingCachedRemote then sn_devices old else ld_devices live),
          sn_selectedDeviceId = (if usingCachedRemote then opt_or (sn_selectedDeviceId old) (ld_selectedDeviceId live)
             else ld_selectedDeviceId live),
          sn_metrics = (if usingCachedRemote then sn_metrics old else ld_metrics live),
          sn_overviewMetrics = (if usingCachedRemote then sn_overviewMetrics old else ld_overviewMetrics live),
          sn_trafficCalendar = (if usingCachedRemote then sn_trafficCalendar old else ld_trafficCalendar live),
          sn_update = sh_updateInfo sh,
          sn_startup = sh_startup sh\<rparr>)"

definition emptySnapshot :: "shell \<Rightarrow> DesktopSnapshot" where
  "emptySnapshot sh =
     \<lparr>sn_generatedAt = toISOString (sh_now sh), sn_source = EmptySource,
      sn_cache = \<lparr>dc_available = False, dc_savedAt = None, dc_ageSeconds = None\<rparr>,
      sn_session = \<lparr>dss_authenticated = False, dss_accessKeyConfigured = sh_configured sh\<rparr>,
      sn_localBackend = None, sn_devices = [], sn_selectedDeviceId = None, sn_metrics = None, sn_overviewMetrics = None,
      sn_trafficCalendar = None,
      sn_update = Some \<lparr>up_currentVersion = sh_version sh, up_currentChannel = Test, up_platform = sh_platform sh,
        up_arch = Some (sh_arch sh), up_available = False, up_latestVersion = None, up_latestChannel = None, up_releaseTag = None,
        up_releaseUrl = None, up_notesUrl = None, up_publishedAt = None, up_assetName = None, up_assetUrl = None,
        up_assetSize = None, up_sha256 = None, up_installMode = NoInstall, up_message = Some ''local_backend_unavailable''\<rparr>,
      sn_startup = sh_startup sh\<rparr>"

definition asCachedSnapshot ::
    "shell \<Rightarrow> MetricWindow \<Rightarrow> string option \<Rightarrow> DesktopSnapshot \<Rightarrow> bool \<Rightarrow> DesktopSnapshotRequest \<Rightarrow> DesktopSnapshot" where
  "asCachedSnapshot sh currentWindow selected cached failed request =
     (let selectedDeviceId = (case dr_selectedDeviceId request of Some choice \<Rightarrow> choice
            | None \<Rightarrow> opt_or selected (sn_selectedDeviceId cached));
          metricWindow = nullish (dr_metricWindow request) currentWindow;
          calendarMatches = (sn_selectedDeviceId cached = selectedDeviceId
            \<and> (dr_trafficMode request = None \<or> map_option tcr_mode (sn_trafficCalendar cached) = dr_trafficMode request)
            \<and> (\<not> truthy (dr_trafficAnchor request) \<or> map_option tcr_anchor (sn_trafficCalendar cached) = dr_trafficAnchor request))
      in cached
        \<lparr>sn_selectedDeviceId := selectedDeviceId,
         sn_metrics := (case sn_metrics cached of None \<Rightarrow> None
           | Some m \<Rightarrow> if Some (sm_deviceId (mr_device m)) = selectedDeviceId \<and> mr_window m = metricWindow then Some m else None),
         sn_overviewMetrics := (case sn_overviewMetrics cached of None \<Rightarrow> None
           | Some m \<Rightarrow> if om_window m = metricWindow then Some m else None),
         sn_trafficCalendar := (if calendarMatches then sn_trafficCalendar cached else None),
         sn_source := CacheSource,
         sn_cache := cacheState (sh_now sh) (Some cached),
         sn_session := \<lparr>dss_authenticated = False, dss_accessKeyConfigured = sh_configured sh\<rparr>,
         sn_update := (if failed then None else sn_update cached),
         sn_startup := sh_startup sh\<rparr>)"

subsection \<open>Cleaning a stored snapshot\<close>

text \<open>Fields of old virtual-machine records, which the types do not have, are left out: an identifier tells such a record.\<close>

definition isVirtualMachine :: "string \<Rightarrow> bool" where
  "isVirtualMachine deviceId \<longleftrightarrow> take 3 deviceId = ''vm:''"

definition sanitizeCachedSnapshot :: "DesktopSnapshot \<Rightarrow> DesktopSnapshot" where
  "sanitizeCachedSnapshot snapshot =
     (let devices = filter (\<lambda>d. \<not> isVirtualMachine (sm_deviceId d)) (sn_devices snapshot);
          selected = (if truthy (sn_selectedDeviceId snapshot) \<and> \<not> list_ex (\<lambda>d. Some (sm_deviceId d) = sn_selectedDeviceId snapshot) devices
            then (case devices of [] \<Rightarrow> None | d # _ \<Rightarrow> Some (sm_deviceId d)) else sn_selectedDeviceId snapshot)
      in snapshot
        \<lparr>sn_devices := devices, sn_selectedDeviceId := selected,
         sn_metrics := (case sn_metrics snapshot of None \<Rightarrow> None
           | Some m \<Rightarrow> if isVirtualMachine (sm_deviceId (mr_device m)) then None else Some m),
         sn_overviewMetrics := map_option
           (\<lambda>m. m\<lparr>om_instances := filter (\<lambda>i. \<not> isVirtualMachine (oi_deviceId i)) (om_instances m)\<rparr>) (sn_overviewMetrics snapshot)\<rparr>)"

end
