(* ===== verification/Desktop_Cache.thy ===== *)
theory Desktop_Cache
  imports Desktop_Snapshot
begin

text \<open>
  \<open>DesktopCacheStore\<close> of \<open>apps/desktop/src/main/cache-store.ts\<close>: the snapshot the desktop shell keeps for the time it is
  offline, in memory and in a file, under every interleaving of reads, writes, flushes and sign-outs.

  A call is cut at its awaits.  The chain \<open>writes\<close> is the list of its unfinished links, the first of which may be
  running; the link of a sign-out is named by its epoch, and the promises of \<open>loaded\<close> and the calls of \<open>read\<close> are known by their positions.  Whether a file operation
  succeeds, what a file operation sees of the size, and the size of a text are inputs.
\<close>

subsection \<open>State\<close>

record CacheEnvelope =
  ce_scope :: string
  ce_savedAt :: string
  ce_snapshot :: DesktopSnapshot

datatype loaded_value = LoadingFile string nat | LoadedValue "DesktopSnapshot option"

datatype cache_job = FlushJob nat | FlushWriting nat CacheEnvelope | ClearJob nat | ClearWriting nat

record cache_read =
  cd_promise :: nat
  cd_epoch :: nat
  cd_scope :: string
  cd_answer :: "DesktopSnapshot option option"

record DesktopCacheStore =
  dk_file :: "CacheEnvelope option"
  dk_loaded :: "(string \<times> nat) option"
  dk_promises :: "loaded_value list"
  dk_reads :: "cache_read list"
  dk_pending :: "CacheEnvelope option"
  dk_writes :: "cache_job list"
  dk_epoch :: nat
  dk_blocked :: bool
  dk_savedAt :: "int option"

definition cache_store_init :: "CacheEnvelope option \<Rightarrow> DesktopCacheStore" where
  "cache_store_init file = \<lparr>dk_file = file, dk_loaded = None, dk_promises = [], dk_reads = [], dk_pending = None, dk_writes = [],
     dk_epoch = 0, dk_blocked = False, dk_savedAt = None\<rparr>"

abbreviation day_ms :: int where
  "day_ms \<equiv> 24 * 60 * 60000"

definition young :: "int \<Rightarrow> string \<Rightarrow> bool" where
  "young now at_time = (case Date_parse at_time of None \<Rightarrow> False | Some t \<Rightarrow> 0 \<le> now - t \<and> now - t \<le> day_ms)"

subsection \<open>Reading\<close>

datatype read_begun = NothingCached | Waiting nat

definition begin_cache_read :: "string option \<Rightarrow> DesktopCacheStore \<Rightarrow> read_begun \<times> DesktopCacheStore" where
  "begin_cache_read scope c =
     (if \<not> truthy scope \<or> dk_blocked c then (NothingCached, c)
      else let sc = the scope;
               c1 = (if map_option fst (dk_loaded c) = Some sc then c
                     else c\<lparr>dk_promises := dk_promises c @ [LoadingFile sc (dk_epoch c)],
                            dk_loaded := Some (sc, length (dk_promises c))\<rparr>);
               promise = snd (the (dk_loaded c1))
           in (Waiting (length (dk_reads c1)),
               c1\<lparr>dk_reads := dk_reads c1 @ [\<lparr>cd_promise = promise, cd_epoch = dk_epoch c, cd_scope = sc, cd_answer = None\<rparr>]\<rparr>))"

text \<open>The file has been read: \<open>readable\<close> says that it was small enough and held a text that parses.\<close>

definition file_loaded :: "int \<Rightarrow> bool \<Rightarrow> nat \<Rightarrow> DesktopCacheStore \<Rightarrow> DesktopCacheStore" where
  "file_loaded now readable i c =
     (case dk_promises c ! i of
        LoadedValue _ \<Rightarrow> c
      | LoadingFile scope epoch \<Rightarrow>
          (let result = (case (if readable then dk_file c else None) of None \<Rightarrow> None
                 | Some envelope \<Rightarrow>
                     if epoch \<noteq> dk_epoch c \<or> ce_scope envelope \<noteq> scope then None
                     else if \<not> young now (ce_savedAt envelope) then None
                     else Some (sanitizeCachedSnapshot (ce_snapshot envelope)))
           in c\<lparr>dk_promises := (dk_promises c)[i := LoadedValue result]\<rparr>))"

definition end_cache_read :: "int \<Rightarrow> nat \<Rightarrow> DesktopCacheStore \<Rightarrow> DesktopCacheStore" where
  "end_cache_read now i c =
     (let r = dk_reads c ! i
      in case dk_promises c ! cd_promise r of
           LoadingFile _ _ \<Rightarrow> c
         | LoadedValue result \<Rightarrow>
             (let answer = (if cd_epoch r \<noteq> dk_epoch c \<or> dk_blocked c then None
                    else case result of None \<Rightarrow> None | Some s \<Rightarrow> if young now (sn_generatedAt s) then Some s else None)
              in c\<lparr>dk_reads := (dk_reads c)[i := r\<lparr>cd_answer := Some answer\<rparr>]\<rparr>))"

subsection \<open>Writing, flushing, clearing\<close>

text \<open>What of a snapshot is stored; \<open>size_of\<close> is the length of its JSON text.\<close>

definition stored_form :: "(DesktopSnapshot \<Rightarrow> nat) \<Rightarrow> DesktopSnapshot \<Rightarrow> DesktopSnapshot option" where
  "stored_form size_of snapshot =
     (let safe = sanitizeCachedSnapshot (snapshot\<lparr>sn_localBackend := None, sn_update := None,
            sn_session := \<lparr>dss_authenticated = False, dss_accessKeyConfigured = False\<rparr>\<rparr>)
      in if size_of safe \<le> 3990000 then Some safe
         else let small = safe\<lparr>sn_metrics := None, sn_overviewMetrics := None, sn_trafficCalendar := None\<rparr>
              in if size_of small \<le> 3990000 then Some small else None)"

definition cache_flush :: "DesktopCacheStore \<Rightarrow> DesktopCacheStore" where
  "cache_flush c = c\<lparr>dk_writes := dk_writes c @ [FlushJob (dk_epoch c)]\<rparr>"

definition cache_write :: "(DesktopSnapshot \<Rightarrow> nat) \<Rightarrow> int \<Rightarrow> DesktopSnapshot \<Rightarrow> string option \<Rightarrow> DesktopCacheStore \<Rightarrow> DesktopCacheStore" where
  "cache_write size_of now snapshot scope c =
     (if \<not> truthy scope \<or> sn_source snapshot \<noteq> LiveSource \<or> \<not> dss_authenticated (sn_session snapshot) then c
      else case stored_form size_of snapshot of
             None \<Rightarrow> c
           | Some safe \<Rightarrow>
               (let c1 = c\<lparr>dk_promises := dk_promises c @ [LoadedValue (Some safe)],
                      dk_loaded := Some (the scope, length (dk_promises c)), dk_blocked := False,
                      dk_pending := Some \<lparr>ce_scope = the scope, ce_savedAt = toISOString now, ce_snapshot = safe\<rparr>\<rparr>
                in if (case dk_savedAt c of None \<Rightarrow> True | Some t \<Rightarrow> 60000 \<le> now - t) then cache_flush c1 else c1))"

definition cache_sign_out :: "DesktopCacheStore \<Rightarrow> DesktopCacheStore" where
  "cache_sign_out c = c\<lparr>dk_epoch := Suc (dk_epoch c), dk_blocked := True, dk_loaded := None, dk_pending := None,
     dk_savedAt := None, dk_writes := dk_writes c @ [ClearJob (Suc (dk_epoch c))]\<rparr>"

text \<open>The first link of the chain begins, and its file operation ends.\<close>

definition start_job :: "DesktopCacheStore \<Rightarrow> DesktopCacheStore" where
  "start_job c =
     (case dk_writes c of
        FlushJob epoch # jobs \<Rightarrow>
          (case dk_pending c of
             Some envelope \<Rightarrow>
               if epoch \<noteq> dk_epoch c then c\<lparr>dk_writes := jobs\<rparr>
               else c\<lparr>dk_pending := None, dk_writes := FlushWriting epoch envelope # jobs\<rparr>
           | None \<Rightarrow> c\<lparr>dk_writes := jobs\<rparr>)
      | ClearJob e # jobs \<Rightarrow> c\<lparr>dk_writes := ClearWriting e # jobs\<rparr>
      | _ \<Rightarrow> c)"

definition end_job :: "int \<Rightarrow> bool \<Rightarrow> DesktopCacheStore \<Rightarrow> DesktopCacheStore" where
  "end_job now ok c =
     (case dk_writes c of
        FlushWriting epoch envelope # jobs \<Rightarrow>
          (if ok then c\<lparr>dk_file := Some envelope, dk_writes := jobs, dk_savedAt := (if epoch = dk_epoch c then Some now else dk_savedAt c)\<rparr>
           else c\<lparr>dk_writes := jobs, dk_pending := (if epoch = dk_epoch c then opt_or (dk_pending c) (Some envelope) else dk_pending c)\<rparr>)
      | ClearWriting e # jobs \<Rightarrow> (if ok then c\<lparr>dk_file := None, dk_writes := jobs\<rparr> else c\<lparr>dk_writes := jobs\<rparr>)
      | _ \<Rightarrow> c)"

subsection \<open>Every interleaving\<close>

text \<open>\<open>may scope snapshot\<close> says which writes occur.\<close>

inductive cache_step :: "(DesktopSnapshot \<Rightarrow> nat) \<Rightarrow> (string \<Rightarrow> DesktopSnapshot \<Rightarrow> bool) \<Rightarrow> DesktopCacheStore \<Rightarrow> DesktopCacheStore \<Rightarrow> bool"
  for size_of may where
  dk_read: "cache_step size_of may c (snd (begin_cache_read scope c))"
| dk_load: "i < length (dk_promises c) \<Longrightarrow> cache_step size_of may c (file_loaded now readable i c)"
| dk_answer: "i < length (dk_reads c) \<Longrightarrow> cache_step size_of may c (end_cache_read now i c)"
| dk_write: "(\<And>sc. scope = Some sc \<Longrightarrow> may sc snapshot) \<Longrightarrow> cache_step size_of may c (cache_write size_of now snapshot scope c)"
| dk_flush: "cache_step size_of may c (cache_flush c)"
| dk_clear: "cache_step size_of may c (cache_sign_out c)"
| dk_start: "cache_step size_of may c (start_job c)"
| dk_end: "cache_step size_of may c (end_job now ok c)"


subsection \<open>What is stored is clean\<close>

lemma sanitize_devices: "sn_devices (sanitizeCachedSnapshot s) = filter (\<lambda>d. \<not> isVirtualMachine (sm_deviceId d)) (sn_devices s)"
  by (simp add: sanitizeCachedSnapshot_def Let_def)

lemma sanitize_idem: "sanitizeCachedSnapshot (sanitizeCachedSnapshot s) = sanitizeCachedSnapshot s"
  by (cases s) (auto simp: sanitizeCachedSnapshot_def Let_def option.map_comp comp_def isVirtualMachine_def list_ex_iff
        split: option.splits list.splits if_splits intro!: ext)

lemma sanitize_small: "sanitizeCachedSnapshot s = s \<Longrightarrow>
    sanitizeCachedSnapshot (s\<lparr>sn_metrics := None, sn_overviewMetrics := None, sn_trafficCalendar := None\<rparr>) =
      s\<lparr>sn_metrics := None, sn_overviewMetrics := None, sn_trafficCalendar := None\<rparr>"
  by (cases s) (auto simp: sanitizeCachedSnapshot_def Let_def simp del: filter_id_conv split: if_splits)

lemma sanitize_stored: "stored_form size_of x = Some s \<Longrightarrow> sanitizeCachedSnapshot s = s"
  by (auto simp: stored_form_def Let_def sanitize_idem sanitize_small split: if_splits)


subsection \<open>Where a stored snapshot comes from\<close>

text \<open>\<open>origin file scope s\<close>: written under the scope, or found in the file of an earlier run under that scope.\<close>

definition origin :: "(DesktopSnapshot \<Rightarrow> nat) \<Rightarrow> (string \<Rightarrow> DesktopSnapshot \<Rightarrow> bool) \<Rightarrow> CacheEnvelope option \<Rightarrow> string \<Rightarrow> DesktopSnapshot \<Rightarrow> bool" where
  "origin size_of may file scope s \<longleftrightarrow>
     (\<exists>x. may scope x \<and> stored_form size_of x = Some s) \<or>
     (\<exists>envelope. file = Some envelope \<and> ce_scope envelope = scope \<and> s = sanitizeCachedSnapshot (ce_snapshot envelope))"

definition envelope_from :: "(string \<Rightarrow> DesktopSnapshot \<Rightarrow> bool) \<Rightarrow> CacheEnvelope \<Rightarrow> bool" where
  "envelope_from P envelope \<longleftrightarrow> P (ce_scope envelope) (sanitizeCachedSnapshot (ce_snapshot envelope))"

definition promise_from :: "(string \<Rightarrow> DesktopSnapshot \<Rightarrow> bool) \<Rightarrow> string \<Rightarrow> loaded_value \<Rightarrow> bool" where
  "promise_from P scope p = (case p of LoadingFile sc _ \<Rightarrow> sc = scope | LoadedValue v \<Rightarrow> (\<forall>s. v = Some s \<longrightarrow> P scope s))"

definition store_from :: "(string \<Rightarrow> DesktopSnapshot \<Rightarrow> bool) \<Rightarrow> DesktopCacheStore \<Rightarrow> bool" where
  "store_from P c \<longleftrightarrow>
     (\<forall>en. dk_file c = Some en \<longrightarrow> envelope_from P en) \<and>
     (\<forall>en. dk_pending c = Some en \<longrightarrow> envelope_from P en) \<and>
     (\<forall>e en. FlushWriting e en \<in> set (dk_writes c) \<longrightarrow> envelope_from P en) \<and>
     (\<forall>sc i. dk_loaded c = Some (sc, i) \<longrightarrow> i < length (dk_promises c) \<and> promise_from P sc (dk_promises c ! i)) \<and>
     (\<forall>r \<in> set (dk_reads c). cd_promise r < length (dk_promises c) \<and> promise_from P (cd_scope r) (dk_promises c ! cd_promise r) \<and>
        (\<forall>s. cd_answer r = Some (Some s) \<longrightarrow> P (cd_scope r) s))"

lemma store_fromD:
  assumes "store_from P c"
  shows "dk_file c = Some en \<Longrightarrow> envelope_from P en" "dk_pending c = Some en \<Longrightarrow> envelope_from P en"
    "FlushWriting e en \<in> set (dk_writes c) \<Longrightarrow> envelope_from P en"
    "dk_loaded c = Some (sc, i) \<Longrightarrow> i < length (dk_promises c) \<and> promise_from P sc (dk_promises c ! i)"
    "r \<in> set (dk_reads c) \<Longrightarrow> cd_promise r < length (dk_promises c) \<and> promise_from P (cd_scope r) (dk_promises c ! cd_promise r) \<and>
        (\<forall>s. cd_answer r = Some (Some s) \<longrightarrow> P (cd_scope r) s)"
  using assms unfolding store_from_def by blast+

lemma promise_from_loading [simp]: "promise_from P sc (LoadingFile sc' e) \<longleftrightarrow> sc' = sc"
  by (simp add: promise_from_def)

lemma begin_read_from:
  assumes "store_from P c"
  shows "store_from P (snd (begin_cache_read scope c))"
  using assms
  unfolding store_from_def begin_cache_read_def
  by (auto simp: Let_def nth_append split: if_splits)

lemma file_loaded_from:
  assumes "store_from P c" "i < length (dk_promises c)"
  shows "store_from P (file_loaded now readable i c)"
proof (cases "dk_promises c ! i")
  case (LoadingFile scope e)
  have loads: "promise_from P sc (LoadedValue v)" if "promise_from P sc (LoadingFile scope e)"
    "v = (case (if readable then dk_file c else None) of None \<Rightarrow> None
       | Some envelope \<Rightarrow> if e \<noteq> dk_epoch c \<or> ce_scope envelope \<noteq> scope then None
           else if \<not> young now (ce_savedAt envelope) then None else Some (sanitizeCachedSnapshot (ce_snapshot envelope)))" for sc v
    using that store_fromD(1) [OF assms(1)]
    by (auto simp: promise_from_def envelope_from_def split: option.splits if_splits)
  have keep: "promise_from P sc ((dk_promises c)[i := LoadedValue v] ! j)" if "promise_from P sc (dk_promises c ! j)" "j < length (dk_promises c)"
    "v = (case (if readable then dk_file c else None) of None \<Rightarrow> None
       | Some envelope \<Rightarrow> if e \<noteq> dk_epoch c \<or> ce_scope envelope \<noteq> scope then None
           else if \<not> young now (ce_savedAt envelope) then None else Some (sanitizeCachedSnapshot (ce_snapshot envelope)))" for sc j v
    using that loads LoadingFile by (cases "i = j") auto
  show ?thesis
    unfolding store_from_def file_loaded_def LoadingFile Let_def
    using store_fromD [OF assms(1)] by (auto intro!: keep)
qed (use assms(1) in \<open>simp add: file_loaded_def\<close>)

lemma end_read_from:
  assumes "store_from P c" "i < length (dk_reads c)"
  shows "store_from P (end_cache_read now i c)"
proof (cases "dk_promises c ! cd_promise (dk_reads c ! i)")
  case (LoadedValue v)
  let ?r = "dk_reads c ! i"
  have r: "?r \<in> set (dk_reads c)" using assms(2) by simp
  have answer: "P (cd_scope ?r) s" if "v = Some s" for s
    using store_fromD(5) [OF assms(1) r] LoadedValue that by (simp add: promise_from_def)
  have "cd_promise q < length (dk_promises c) \<and> promise_from P (cd_scope q) (dk_promises c ! cd_promise q) \<and>
        (\<forall>s. cd_answer q = Some (Some s) \<longrightarrow> P (cd_scope q) s)" if "q \<in> set (dk_reads (end_cache_read now i c))" for q
  proof -
    have "q \<in> set (dk_reads c) \<or> (\<exists>w. q = ?r\<lparr>cd_answer := Some w\<rparr> \<and> (\<forall>s. w = Some s \<longrightarrow> v = Some s))"
      using that by (auto simp: end_cache_read_def LoadedValue Let_def split: option.splits if_splits dest!: set_update_subset_insert [THEN subsetD])
    then show ?thesis using store_fromD(5) [OF assms(1)] store_fromD(5) [OF assms(1) r] answer by auto
  qed
  then show ?thesis
    unfolding store_from_def using store_fromD(1-4) [OF assms(1)] by (auto simp: end_cache_read_def LoadedValue Let_def)
qed (use assms(1) in \<open>simp add: end_cache_read_def Let_def\<close>)


lemma write_from:
  assumes "store_from P c" "\<And>sc s. scope = Some sc \<Longrightarrow> stored_form size_of x = Some s \<Longrightarrow> P sc s"
  shows "store_from P (cache_write size_of now x scope c)"
proof -
  have new: "envelope_from P \<lparr>ce_scope = the scope, ce_savedAt = t, ce_snapshot = s\<rparr>" "promise_from P (the scope) (LoadedValue (Some s))"
    if "stored_form size_of x = Some s" "truthy scope" for s t
    using that assms(2) [OF _ that(1)] sanitize_stored [OF that(1)] by (cases scope; simp add: envelope_from_def promise_from_def)+
  show ?thesis
    using assms(1) new
    unfolding store_from_def cache_write_def cache_flush_def
    by (auto simp: Let_def nth_append split: option.splits)
qed

lemma start_job_from: "store_from P c \<Longrightarrow> store_from P (start_job c)"
  unfolding store_from_def start_job_def
  by (auto split: list.splits cache_job.splits option.splits)

lemma end_job_from:
  assumes "store_from P c"
  shows "store_from P (end_job now ok c)"
proof -
  have head: "envelope_from P en" if "dk_writes c = FlushWriting e en # jobs" for e en jobs
    using store_fromD(3) [OF assms, of e en] that by simp
  show ?thesis
  proof (cases "dk_writes c")
    case (Cons j jobs)
    then show ?thesis
      using assms head
      by (cases j; cases "dk_pending c") (auto simp: store_from_def end_job_def)
  qed (use assms in \<open>simp add: end_job_def\<close>)
qed

lemma step_from:
  assumes "cache_step size_of may c c'" "store_from P c" "\<And>sc x s. may sc x \<Longrightarrow> stored_form size_of x = Some s \<Longrightarrow> P sc s"
  shows "store_from P c'"
  using assms(1)
proof cases
  case (dk_read scope)
  then show ?thesis using begin_read_from [OF assms(2)] by simp
next
  case (dk_load i now readable)
  then show ?thesis using file_loaded_from [OF assms(2)] by simp
next
  case (dk_answer i now)
  then show ?thesis using end_read_from [OF assms(2)] by simp
next
  case (dk_write scope x now)
  then show ?thesis using write_from [OF assms(2)] assms(3) by blast
next
  case dk_flush
  then show ?thesis using assms(2) by (auto simp: store_from_def cache_flush_def)
next
  case dk_clear
  then show ?thesis using assms(2) by (auto simp: store_from_def cache_sign_out_def)
next
  case dk_start
  then show ?thesis using start_job_from [OF assms(2)] by simp
next
  case (dk_end now ok)
  then show ?thesis using end_job_from [OF assms(2)] by simp
qed

lemma run_from:
  assumes "(cache_step size_of may)\<^sup>*\<^sup>* c c'" "store_from P c" "\<And>sc x s. may sc x \<Longrightarrow> stored_form size_of x = Some s \<Longrightarrow> P sc s"
  shows "store_from P c'"
  using assms(1,2) by (induction rule: rtranclp_induct) (use assms(3) step_from in blast)+

subsection \<open>After a sign-out\<close>


text \<open>Epochs only grow, so no read and no running flush is of a later epoch than the present one.\<close>

definition job_epoch :: "cache_job \<Rightarrow> nat" where
  "job_epoch j = (case j of FlushJob _ \<Rightarrow> 0 | FlushWriting e _ \<Rightarrow> e | ClearJob e \<Rightarrow> e | ClearWriting e \<Rightarrow> e)"

lemma job_epoch_simps [simp]: "job_epoch (FlushJob e) = 0" "job_epoch (FlushWriting e en) = e" "job_epoch (ClearJob e) = e"
    "job_epoch (ClearWriting e) = e"
  by (simp_all add: job_epoch_def)

definition epochs_past :: "DesktopCacheStore \<Rightarrow> bool" where
  "epochs_past c \<longleftrightarrow> (\<forall>r \<in> set (dk_reads c). cd_epoch r \<le> dk_epoch c) \<and> (\<forall>j \<in> set (dk_writes c). job_epoch j \<le> dk_epoch c)"

lemma epochs_past_step: "cache_step size_of may c c' \<Longrightarrow> epochs_past c \<Longrightarrow> epochs_past c'"
  by (induction rule: cache_step.induct)
    (auto simp: epochs_past_def begin_cache_read_def file_loaded_def end_cache_read_def cache_write_def cache_flush_def cache_sign_out_def
      start_job_def end_job_def Let_def split: if_splits option.splits loaded_value.splits list.splits cache_job.splits
      dest!: set_update_subset_insert [THEN subsetD] intro: le_SucI)

lemma epochs_past_run: "(cache_step size_of may)\<^sup>*\<^sup>* c c' \<Longrightarrow> epochs_past c \<Longrightarrow> epochs_past c'"
  by (induction rule: rtranclp_induct) (use epochs_past_step in blast)+

lemma epochs_past_init: "epochs_past (cache_store_init file)"
  by (simp add: epochs_past_def cache_store_init_def)

text \<open>Nothing is written: what was being read before epoch \<open>e\<close> answers nothing, and no read begins.\<close>

definition running_before :: "nat \<Rightarrow> cache_job \<Rightarrow> bool" where
  "running_before e j = (case j of FlushWriting e' _ \<Rightarrow> e' < e | _ \<Rightarrow> True)"

lemma running_before_simps [simp]: "running_before e (FlushJob e')" "running_before e (FlushWriting e' en) \<longleftrightarrow> e' < e"
    "running_before e (ClearJob e')" "running_before e (ClearWriting e')"
  by (simp_all add: running_before_def)

definition silent :: "nat \<Rightarrow> cache_read list \<Rightarrow> DesktopCacheStore \<Rightarrow> bool" where
  "silent e reads c \<longleftrightarrow> e \<le> dk_epoch c \<and> dk_blocked c \<and> dk_pending c = None \<and>
     (\<forall>j \<in> set (dk_writes c). running_before e j) \<and> length (dk_reads c) = length reads \<and>
     (\<forall>i < length reads. cd_epoch (dk_reads c ! i) < e \<and>
        (cd_answer (reads ! i) = None \<longrightarrow> cd_answer (dk_reads c ! i) \<in> {None, Some None}))"

lemma silent_step:
  assumes "cache_step size_of (\<lambda>_ _. False) c c'" "silent e reads c"
  shows "silent e reads c'"
  using assms(1)
proof cases
  case (dk_read scope)
  then show ?thesis using assms(2) by (simp add: silent_def begin_cache_read_def)
next
  case (dk_load i now readable)
  then show ?thesis using assms(2) by (simp add: silent_def file_loaded_def Let_def split: loaded_value.split)
next
  case (dk_answer i now)
  then show ?thesis
    using assms(2) by (auto simp: silent_def end_cache_read_def Let_def nth_list_update split: loaded_value.split)
next
  case (dk_write scope x now)
  then show ?thesis using assms(2) by (cases scope) (auto simp: cache_write_def)
next
  case dk_flush
  then show ?thesis using assms(2) by (auto simp: silent_def cache_flush_def)
next
  case dk_clear
  then show ?thesis using assms(2) by (auto simp: silent_def cache_sign_out_def)
next
  case dk_start
  then show ?thesis using assms(2) by (auto simp: silent_def start_job_def split: list.split cache_job.split)
next
  case (dk_end now ok)
  then show ?thesis using assms(2) by (auto simp: silent_def end_job_def split: list.split cache_job.split)
qed

lemma silent_sign_out: "epochs_past c \<Longrightarrow> silent (Suc (dk_epoch c)) (dk_reads c) (cache_sign_out c)"
  by (fastforce simp: silent_def cache_sign_out_def epochs_past_def less_Suc_eq_le running_before_def split: cache_job.split)

lemma silent_run:
  "(cache_step size_of (\<lambda>_ _. False))\<^sup>*\<^sup>* c c' \<Longrightarrow> silent e reads c \<Longrightarrow> silent e reads c'"
  by (induction rule: rtranclp_induct) (use silent_step in blast)+

text \<open>Whatever is written later, a read that was under way before epoch \<open>e\<close> answers nothing.\<close>

definition forgotten :: "nat \<Rightarrow> cache_read list \<Rightarrow> DesktopCacheStore \<Rightarrow> bool" where
  "forgotten e reads c \<longleftrightarrow> e \<le> dk_epoch c \<and> length reads \<le> length (dk_reads c) \<and>
     (\<forall>i < length reads. cd_epoch (dk_reads c ! i) < e \<and>
        (cd_answer (reads ! i) = None \<longrightarrow> cd_answer (dk_reads c ! i) \<in> {None, Some None}))"

lemma forgotten_cong:
  "forgotten e reads c \<Longrightarrow> dk_epoch c \<le> dk_epoch c' \<Longrightarrow> dk_reads c' = dk_reads c \<Longrightarrow> forgotten e reads c'"
  by (simp add: forgotten_def)

lemma forgotten_step:
  assumes "cache_step size_of may c c'" "forgotten e reads c"
  shows "forgotten e reads c'"
  using assms(1)
proof cases
  case (dk_read scope)
  then show ?thesis
    using assms(2) by (simp add: forgotten_def begin_cache_read_def nth_append Let_def)
next
  case (dk_load i now readable)
  then show ?thesis
    by (intro forgotten_cong [OF assms(2)]) (simp_all add: file_loaded_def Let_def split: loaded_value.split)
next
  case (dk_answer i now)
  then show ?thesis
    using assms(2) by (auto simp: forgotten_def end_cache_read_def Let_def nth_list_update split: loaded_value.split)
next
  case (dk_write scope x now)
  then show ?thesis
    by (intro forgotten_cong [OF assms(2)]) (simp_all add: cache_write_def cache_flush_def Let_def split: option.split)
next
  case dk_start
  then show ?thesis
    by (intro forgotten_cong [OF assms(2)]) (simp_all add: start_job_def split: list.split cache_job.split option.split)
next
  case (dk_end now ok)
  then show ?thesis
    by (intro forgotten_cong [OF assms(2)]) (simp_all add: end_job_def split: list.split cache_job.split)
qed (use assms(2) in \<open>auto elim!: forgotten_cong simp: cache_flush_def cache_sign_out_def\<close>)

lemma forgotten_sign_out: "epochs_past c \<Longrightarrow> forgotten (Suc (dk_epoch c)) (dk_reads c) (cache_sign_out c)"
  by (auto simp: forgotten_def cache_sign_out_def epochs_past_def less_Suc_eq_le)

lemma forgotten_run: "(cache_step size_of may)\<^sup>*\<^sup>* c c' \<Longrightarrow> forgotten e reads c \<Longrightarrow> forgotten e reads c'"
  by (induction rule: rtranclp_induct) (use forgotten_step in blast)+

text \<open>What is waiting to be written, and what is written behind the link of the sign-out with epoch \<open>e\<close>, was written since.\<close>

definition since :: "(string \<Rightarrow> DesktopSnapshot \<Rightarrow> bool) \<Rightarrow> CacheEnvelope option \<Rightarrow> bool" where
  "since P en = (\<forall>v. en = Some v \<longrightarrow> P (ce_scope v) (ce_snapshot v))"

definition job_since :: "(string \<Rightarrow> DesktopSnapshot \<Rightarrow> bool) \<Rightarrow> cache_job \<Rightarrow> bool" where
  "job_since P j = (\<forall>e en. j = FlushWriting e en \<longrightarrow> since P (Some en))"

lemma since_simps [simp]: "since P None" "since P (Some v) \<longleftrightarrow> P (ce_scope v) (ce_snapshot v)"
    "job_since P (FlushJob e)" "job_since P (ClearJob e)" "job_since P (ClearWriting e)"
    "job_since P (FlushWriting e v) \<longleftrightarrow> P (ce_scope v) (ce_snapshot v)"
  by (auto simp: since_def job_since_def)

definition marks :: "nat \<Rightarrow> cache_job \<Rightarrow> bool" where
  "marks e j \<longleftrightarrow> j = ClearJob e \<or> j = ClearWriting e"

lemma marks_simps [simp]: "marks e (ClearJob e') \<longleftrightarrow> e' = e" "marks e (ClearWriting e') \<longleftrightarrow> e' = e" "\<not> marks e (FlushJob e')"
    "\<not> marks e (FlushWriting e' en)"
  by (auto simp: marks_def)

primrec behind :: "nat \<Rightarrow> cache_job list \<Rightarrow> cache_job list" where
  "behind e [] = []"
| "behind e (j # js) = (if marks e j then js else behind e js)"

lemma behind_append: "\<not> marks e j \<Longrightarrow> set (behind e (js @ [j])) \<subseteq> insert j (set (behind e js))"
  by (induction js) auto

lemma behind_none: "\<forall>j \<in> set js. \<not> marks e j \<Longrightarrow> behind e js = []"
  by (induction js) auto

lemma behind_new: "\<forall>j \<in> set js. \<not> marks e j \<Longrightarrow> behind e (js @ [ClearJob e]) = []"
  by (induction js) auto

lemma since_opt_or: "since P x \<Longrightarrow> since P y \<Longrightarrow> since P (opt_or x y)"
  by (cases x) simp_all

definition clearing :: "(string \<Rightarrow> DesktopSnapshot \<Rightarrow> bool) \<Rightarrow> nat \<Rightarrow> DesktopCacheStore \<Rightarrow> bool" where
  "clearing P e c \<longleftrightarrow> e \<le> dk_epoch c \<and> since P (dk_pending c) \<and>
     (\<forall>j \<in> set (behind e (dk_writes c)). job_since P j \<and> \<not> marks e j) \<and>
     (\<forall>j \<in> set (dk_writes c). running_before e j \<or> job_since P j)"

definition cleared :: "(string \<Rightarrow> DesktopSnapshot \<Rightarrow> bool) \<Rightarrow> DesktopCacheStore \<Rightarrow> bool" where
  "cleared P c \<longleftrightarrow> since P (dk_file c) \<and> since P (dk_pending c) \<and> (\<forall>j \<in> set (dk_writes c). job_since P j)"

lemma write_since:
  assumes "since P (dk_pending c)" "\<And>sc s. scope = Some sc \<Longrightarrow> stored_form size_of x = Some s \<Longrightarrow> P sc s"
  shows "since P (dk_pending (cache_write size_of now x scope c))"
  using assms by (cases scope) (auto simp: cache_write_def cache_flush_def Let_def split: option.splits)

lemma write_jobs:
  "dk_writes (cache_write size_of now x scope c) = dk_writes c \<or>
   dk_writes (cache_write size_of now x scope c) = dk_writes c @ [FlushJob (dk_epoch c)]"
  by (auto simp: cache_write_def cache_flush_def Let_def split: option.splits)

lemma write_frame [simp]: "dk_file (cache_write size_of now x scope c) = dk_file c" "dk_epoch (cache_write size_of now x scope c) = dk_epoch c"
  by (auto simp: cache_write_def cache_flush_def Let_def split: option.splits)

lemma cleared_step:
  assumes "cache_step size_of may c c'" "cleared P c" "\<And>sc x s. may sc x \<Longrightarrow> stored_form size_of x = Some s \<Longrightarrow> P sc s"
  shows "cleared P c'"
  using assms(1)
proof cases
  case (dk_write scope x now)
  have "P sc s" if "scope = Some sc" "stored_form size_of x = Some s" for sc s
    using assms(3) dk_write(2) that by blast
  then show ?thesis
    using assms(2) write_since [of P c scope size_of x now] write_jobs [of size_of now x scope c]
    unfolding dk_write(1) cleared_def by auto
qed (use assms(2) in \<open>auto simp: cleared_def since_opt_or begin_cache_read_def file_loaded_def end_cache_read_def cache_flush_def cache_sign_out_def
      start_job_def end_job_def Let_def split: if_splits option.splits loaded_value.splits list.splits cache_job.splits\<close>)


lemma clearing_append:
  assumes "clearing P e c" "dk_writes c' = dk_writes c @ [j]" "dk_epoch c \<le> dk_epoch c'" "since P (dk_pending c')" "\<not> marks e j" "job_since P j"
  shows "clearing P e c'"
  using assms(1,3,4,6) behind_append [OF assms(5), of "dk_writes c"] assms(5)
  unfolding assms(2) clearing_def by auto

lemma clearing_step:
  assumes "cache_step size_of may c c'" "clearing P e c" "\<And>sc x s. may sc x \<Longrightarrow> stored_form size_of x = Some s \<Longrightarrow> P sc s"
  shows "clearing P e c'"
  using assms(1)
proof cases
  case (dk_write scope x now)
  have "P sc s" if "scope = Some sc" "stored_form size_of x = Some s" for sc s
    using assms(3) dk_write(2) that by blast
  then have pending: "since P (dk_pending c')"
    using write_since [of P c scope size_of x now] assms(2) unfolding dk_write(1) clearing_def by blast
  from write_jobs [of size_of now x scope c] show ?thesis
  proof
    assume "dk_writes (cache_write size_of now x scope c) = dk_writes c"
    then show ?thesis using assms(2) pending unfolding dk_write(1) clearing_def by simp
  next
    assume "dk_writes (cache_write size_of now x scope c) = dk_writes c @ [FlushJob (dk_epoch c)]"
    then show ?thesis using clearing_append [OF assms(2)] pending unfolding dk_write(1) by simp
  qed
next
  case dk_flush
  show ?thesis by (rule clearing_append [OF assms(2), where j = "FlushJob (dk_epoch c)"]) (use assms(2) in \<open>simp_all add: dk_flush clearing_def cache_flush_def\<close>)
next
  case dk_clear
  show ?thesis by (rule clearing_append [OF assms(2), where j = "ClearJob (Suc (dk_epoch c))"]) (use assms(2) in \<open>simp_all add: dk_clear clearing_def cache_sign_out_def\<close>)
next
  case dk_start
  show ?thesis
  proof (cases "dk_writes c")
    case (Cons j jobs)
    then show ?thesis
      using assms(2) by (cases j; cases "dk_pending c") (auto simp: clearing_def dk_start start_job_def)
  qed (use assms(2) dk_start in \<open>simp add: start_job_def\<close>)
next
  case (dk_end now ok)
  show ?thesis
  proof (cases "dk_writes c")
    case (Cons j jobs)
    then show ?thesis
      using assms(2) behind_none [of jobs e]
      by (cases j) (auto simp: clearing_def dk_end end_job_def since_opt_or split: if_splits)
  qed (use assms(2) dk_end in \<open>simp add: end_job_def\<close>)
qed (use assms(2) in \<open>auto simp: clearing_def begin_cache_read_def file_loaded_def end_cache_read_def Let_def
      split: if_splits option.splits loaded_value.splits\<close>)

lemma clearing_run:
  assumes "(cache_step size_of may)\<^sup>*\<^sup>* c c'" "clearing P e c" "\<And>sc x s. may sc x \<Longrightarrow> stored_form size_of x = Some s \<Longrightarrow> P sc s"
  shows "clearing P e c'"
  using assms(1,2) by (induction rule: rtranclp_induct) (use assms(3) clearing_step in blast)+

lemma cleared_run:
  assumes "(cache_step size_of may)\<^sup>*\<^sup>* c c'" "cleared P c" "\<And>sc x s. may sc x \<Longrightarrow> stored_form size_of x = Some s \<Longrightarrow> P sc s"
  shows "cleared P c'"
  using assms(1,2) by (induction rule: rtranclp_induct) (use assms(3) cleared_step in blast)+

lemma clearing_sign_out: "epochs_past c \<Longrightarrow> clearing P (Suc (dk_epoch c)) (cache_sign_out c)"
proof -
  assume past: "epochs_past c"
  have none: "\<forall>j \<in> set (dk_writes c). \<not> marks (Suc (dk_epoch c)) j \<and> running_before (Suc (dk_epoch c)) j"
    using past by (fastforce simp: epochs_past_def marks_def running_before_def less_Suc_eq_le split: cache_job.split)
  then show ?thesis by (auto simp: clearing_def cache_sign_out_def behind_new)
qed

lemma clearing_ends:
  assumes "clearing P e c" "dk_writes c = ClearWriting e # jobs"
  shows "cleared P (end_job now True c)"
  using assms by (auto simp: clearing_def cleared_def end_job_def)


text \<open>
  The stored snapshot is never shown under another account or hub: whatever reads, writes, flushes and sign-outs
  interleave, a read under a scope answers only what was written under that scope, or what the file of an earlier run held
  under it, cleaned of virtual machines, and no answer is given for an empty scope.
\<close>

theorem cached_reads_scoped:
  assumes "(cache_step size_of may)\<^sup>*\<^sup>* (cache_store_init file) c" "r \<in> set (dk_reads c)" "cd_answer r = Some (Some s)"
  shows "((\<exists>x. may (cd_scope r) x \<and> stored_form size_of x = Some s) \<or>
      (\<exists>envelope. file = Some envelope \<and> ce_scope envelope = cd_scope r \<and> s = sanitizeCachedSnapshot (ce_snapshot envelope))) \<and>
    list_all (\<lambda>d. \<not> isVirtualMachine (sm_deviceId d)) (sn_devices s)"
proof -
  let ?P = "origin size_of may file"
  have "store_from ?P (cache_store_init file)"
    by (auto simp: store_from_def cache_store_init_def envelope_from_def origin_def)
  then have "store_from ?P c"
    using run_from [OF assms(1)] unfolding origin_def by blast
  then have source: "?P (cd_scope r) s" using store_fromD(5) assms(2,3) by blast
  have "sanitizeCachedSnapshot s = s" using source sanitize_stored by (auto simp: origin_def sanitize_idem)
  then have "sn_devices s = filter (\<lambda>d. \<not> isVirtualMachine (sm_deviceId d)) (sn_devices s)" by (metis sanitize_devices)
  then have "list_all (\<lambda>d. \<not> isVirtualMachine (sm_deviceId d)) (sn_devices s)"
    by (metis (no_types, lifting) list_all_iff mem_Collect_eq set_filter)
  with source show ?thesis unfolding origin_def by blast
qed

text \<open>
  C35: a sign-out forgets what was shown: until something is written again no read begins; a read under way at the
  sign-out answers nothing any more, whatever is written afterwards and however late it ends; and once the sign-out's
  own link of the chain has emptied the file, the file holds nothing that was not written after the sign-out, however
  late the flushes from before it end.
\<close>

theorem sign_out_forgets:
  assumes "(cache_step size_of may0)\<^sup>*\<^sup>* (cache_store_init file) c"
  shows "(\<forall>y scope. (cache_step size_of (\<lambda>_ _. False))\<^sup>*\<^sup>* (cache_sign_out c) y \<longrightarrow> fst (begin_cache_read scope y) = NothingCached) \<and>
    (\<forall>y i. (cache_step size_of may)\<^sup>*\<^sup>* (cache_sign_out c) y \<longrightarrow> i < length (dk_reads c) \<longrightarrow> cd_answer (dk_reads c ! i) = None \<longrightarrow>
      cd_answer (dk_reads y ! i) \<in> {None, Some None}) \<and>
    (\<forall>y jobs now z envelope. (cache_step size_of may)\<^sup>*\<^sup>* (cache_sign_out c) y \<and> dk_writes y = ClearWriting (Suc (dk_epoch c)) # jobs \<and>
      (cache_step size_of may)\<^sup>*\<^sup>* (end_job now True y) z \<and> dk_file z = Some envelope \<longrightarrow>
      (\<exists>x. may (ce_scope envelope) x \<and> stored_form size_of x = Some (ce_snapshot envelope)))"
proof (intro conjI allI impI)
  have past: "epochs_past c" by (rule epochs_past_run [OF assms epochs_past_init])
  fix y scope assume "(cache_step size_of (\<lambda>_ _. False))\<^sup>*\<^sup>* (cache_sign_out c) y"
  then have "silent (Suc (dk_epoch c)) (dk_reads c) y" using silent_run silent_sign_out [OF past] by blast
  then show "fst (begin_cache_read scope y) = NothingCached"
    by (auto simp: silent_def begin_cache_read_def)
next
  have past: "epochs_past c" by (rule epochs_past_run [OF assms epochs_past_init])
  fix y i assume "(cache_step size_of may)\<^sup>*\<^sup>* (cache_sign_out c) y" and i: "i < length (dk_reads c)" "cd_answer (dk_reads c ! i) = None"
  then have "forgotten (Suc (dk_epoch c)) (dk_reads c) y" using forgotten_run forgotten_sign_out [OF past] by blast
  then show "cd_answer (dk_reads y ! i) \<in> {None, Some None}"
    using i by (simp add: forgotten_def)
next
  let ?P = "\<lambda>scope s. \<exists>x. may scope x \<and> stored_form size_of x = Some s" and ?e = "Suc (dk_epoch c)"
  have past: "epochs_past c" by (rule epochs_past_run [OF assms epochs_past_init])
  fix y jobs now z envelope
  assume run: "(cache_step size_of may)\<^sup>*\<^sup>* (cache_sign_out c) y \<and> dk_writes y = ClearWriting ?e # jobs \<and>
      (cache_step size_of may)\<^sup>*\<^sup>* (end_job now True y) z \<and> dk_file z = Some envelope"
  have writes: "may sc x \<Longrightarrow> stored_form size_of x = Some s \<Longrightarrow> ?P sc s" for sc x s by blast
  from run have runs: "(cache_step size_of may)\<^sup>*\<^sup>* (cache_sign_out c) y" "dk_writes y = ClearWriting ?e # jobs"
    "(cache_step size_of may)\<^sup>*\<^sup>* (end_job now True y) z" by simp_all
  have "clearing ?P ?e y" by (rule clearing_run [OF runs(1) clearing_sign_out [OF past]]) (rule writes)
  then have "cleared ?P (end_job now True y)" by (rule clearing_ends) (rule runs(2))
  then have "cleared ?P z" by (rule cleared_run [OF runs(3)]) (rule writes)
  then show "?P (ce_scope envelope) (ce_snapshot envelope)" using run by (auto simp: cleared_def since_def)
qed


definition demo_startup :: DesktopStartupSettings where
  "demo_startup = \<lparr>du_updateChannel = None, du_openAtLogin = False, du_startMinimized = False\<rparr>"

definition demo_shell :: shell where
  "demo_shell = \<lparr>sh_now = 0, sh_configured = True, sh_updateInfo = None, sh_startup = demo_startup, sh_version = ''1.0.0'',
     sh_platform = LinuxGui, sh_arch = ''x64''\<rparr>"

definition demo_shown :: DesktopSnapshot where
  "demo_shown = (emptySnapshot demo_shell)\<lparr>sn_source := LiveSource,
     sn_session := \<lparr>dss_authenticated = True, dss_accessKeyConfigured = True\<rparr>\<rparr>"

definition demo_kept :: DesktopCacheStore where
  "demo_kept = cache_write (\<lambda>_. 0) 0 demo_shown (Some ''hub'') (cache_store_init None)"

definition demo_safe :: DesktopSnapshot where
  "demo_safe = demo_shown\<lparr>sn_update := None, sn_session := \<lparr>dss_authenticated = False, dss_accessKeyConfigured = False\<rparr>\<rparr>"

lemma demo_stored: "stored_form (\<lambda>_. 0) demo_shown = Some demo_safe"
  by (simp add: stored_form_def Let_def demo_safe_def demo_shown_def emptySnapshot_def sanitizeCachedSnapshot_def)

lemma demo_live: "sn_source demo_shown = LiveSource" "dss_authenticated (sn_session demo_shown)"
  by (simp_all add: demo_shown_def)

lemma demo_kept_state: "demo_kept = \<lparr>dk_file = None, dk_loaded = Some (''hub'', 0), dk_promises = [LoadedValue (Some demo_safe)],
    dk_reads = [], dk_pending = Some \<lparr>ce_scope = ''hub'', ce_savedAt = toISOString 0, ce_snapshot = demo_safe\<rparr>,
    dk_writes = [FlushJob 0], dk_epoch = 0, dk_blocked = False, dk_savedAt = None\<rparr>"
  by (simp add: demo_kept_def cache_write_def demo_live demo_stored cache_store_init_def cache_flush_def)

lemma demo_young: "young 0 (sn_generatedAt demo_safe)"
  by (simp add: young_def demo_safe_def demo_shown_def emptySnapshot_def demo_shell_def parse_early)

lemma demo_kept_run: "(cache_step (\<lambda>_. 0) (\<lambda>_ _. True))\<^sup>*\<^sup>* (cache_store_init None) demo_kept"
  unfolding demo_kept_def by (rule r_into_rtranclp) (rule dk_write, simp)

theorem cached_reads_scoped_witness:
  "\<exists>c r s. c = end_cache_read 0 0 (snd (begin_cache_read (Some ''hub'') demo_kept)) \<and> r = dk_reads c ! 0 \<and>
     cd_answer r = Some (Some s) \<and> cd_scope r = ''hub'' \<and>
     list_all (\<lambda>d. \<not> isVirtualMachine (sm_deviceId d)) (sn_devices s)"
proof -
  let ?b = "snd (begin_cache_read (Some ''hub'') demo_kept)"
  let ?c = "end_cache_read 0 0 ?b" and ?s = "the (stored_form (\<lambda>_. 0) demo_shown)"
  have reads: "dk_reads ?b = [\<lparr>cd_promise = 0, cd_epoch = 0, cd_scope = ''hub'', cd_answer = None\<rparr>]"
    by (simp add: begin_cache_read_def demo_kept_state Let_def)
  have answer: "dk_reads ?c = [\<lparr>cd_promise = 0, cd_epoch = 0, cd_scope = ''hub'', cd_answer = Some (Some ?s)\<rparr>]"
    using reads demo_young by (simp add: end_cache_read_def begin_cache_read_def demo_kept_state demo_stored Let_def)
  have "(cache_step (\<lambda>_. 0) (\<lambda>_ _. True))\<^sup>*\<^sup>* (cache_store_init None) ?c"
    using demo_kept_run dk_read [of "\<lambda>_. 0" "\<lambda>_ _. True" demo_kept "Some ''hub''"] dk_answer [of 0 ?b "\<lambda>_. 0" "\<lambda>_ _. True" 0] reads
    by (metis (no_types, lifting) cache_read.select_convs(4) length_Cons nth_Cons_0 rtranclp.rtrancl_into_rtrancl zero_less_Suc)
  from cached_reads_scoped [OF this, of "dk_reads ?c ! 0" ?s] show ?thesis by (intro exI [of _ ?c] exI [of _ "dk_reads ?c ! 0"] exI [of _ ?s]) (simp add: answer)
qed

text \<open>A read is under way and a flush is running at the sign-out, and another session writes before both end.\<close>

definition demo_read_begun :: DesktopCacheStore where
  "demo_read_begun = start_job (snd (begin_cache_read (Some ''hub'') demo_kept))"

definition demo_rewritten :: DesktopCacheStore where
  "demo_rewritten = cache_write (\<lambda>_. 0) 0 demo_shown (Some ''hub'') (cache_sign_out demo_read_begun)"

lemma demo_read_begun_run: "(cache_step (\<lambda>_. 0) (\<lambda>_ _. True))\<^sup>*\<^sup>* (cache_store_init None) demo_read_begun"
  unfolding demo_read_begun_def using demo_kept_run dk_read dk_start by (metis rtranclp.rtrancl_into_rtrancl)

lemma demo_read_begun_state:
  "dk_reads demo_read_begun = [\<lparr>cd_promise = 0, cd_epoch = 0, cd_scope = ''hub'', cd_answer = None\<rparr>]"
  "dk_promises demo_read_begun = [LoadedValue (Some demo_safe)]" "dk_epoch demo_read_begun = 0"
  "dk_writes demo_read_begun = [FlushWriting 0 \<lparr>ce_scope = ''hub'', ce_savedAt = toISOString 0, ce_snapshot = demo_safe\<rparr>]"
  by (simp_all add: demo_read_begun_def begin_cache_read_def demo_kept_state start_job_def Let_def)

theorem sign_out_forgets_witness:
  "let read_ended = end_cache_read 0 0 demo_rewritten; late = end_job 1 True (cache_sign_out demo_read_begun); gone = end_job 2 True (start_job late)
   in cd_answer (dk_reads read_ended ! 0) = Some None \<and> dk_blocked read_ended = False \<and>
      dk_file late \<noteq> None \<and> dk_file gone = None \<and> fst (begin_cache_read (Some ''hub'') gone) = NothingCached"
proof -
  let ?late = "end_job 1 True (cache_sign_out demo_read_begun)" and ?r = "end_cache_read 0 0 demo_rewritten"
  let ?y = "start_job ?late" and ?step = "cache_step (\<lambda>_. 0) (\<lambda>_ _. False)" and ?free = "cache_step (\<lambda>_. 0) (\<lambda>_ _. True)"
  note t = sign_out_forgets [OF demo_read_begun_run]
  have late: "?step (cache_sign_out demo_read_begun) ?late" and y: "?step ?late ?y" and z: "?step ?y (end_job 2 True ?y)"
    by (rule dk_end, rule dk_start, rule dk_end)
  have "dk_writes ?y = [ClearWriting (Suc (dk_epoch demo_read_begun))]" "dk_file ?late \<noteq> None"
    by (simp_all add: start_job_def end_job_def cache_sign_out_def demo_read_begun_state)
  moreover have "?step\<^sup>*\<^sup>* (cache_sign_out demo_read_begun) ?y" "?step\<^sup>*\<^sup>* (cache_sign_out demo_read_begun) (end_job 2 True ?y)"
    using late y z by (meson rtranclp.rtrancl_into_rtrancl rtranclp.rtrancl_refl)+
  ultimately have emptied: "dk_file ?late \<noteq> None" "dk_file (end_job 2 True ?y) = None"
      "fst (begin_cache_read (Some ''hub'') (end_job 2 True ?y)) = NothingCached"
    using t [of "\<lambda>_ _. False"] by (metis not_None_eq rtranclp.rtrancl_refl)+
  have written: "dk_reads demo_rewritten = dk_reads demo_read_begun" "dk_promises demo_rewritten ! 0 = LoadedValue (Some demo_safe)"
    "dk_blocked demo_rewritten = False"
    by (simp_all add: demo_rewritten_def cache_write_def demo_live demo_stored cache_sign_out_def cache_flush_def demo_read_begun_state)
  have "?free (cache_sign_out demo_read_begun) demo_rewritten" unfolding demo_rewritten_def by (rule dk_write) simp
  moreover have "?free demo_rewritten ?r" by (rule dk_answer) (simp add: written demo_read_begun_state)
  ultimately have "?free\<^sup>*\<^sup>* (cache_sign_out demo_read_begun) ?r" by (meson rtranclp.rtrancl_into_rtrancl rtranclp.rtrancl_refl)
  then have "cd_answer (dk_reads ?r ! 0) \<in> {None, Some None}"
    using t [of "\<lambda>_ _. True"] by (simp add: demo_read_begun_state)
  moreover have "cd_answer (dk_reads ?r ! 0) \<noteq> None" "dk_blocked ?r = False"
    using written by (simp_all add: end_cache_read_def demo_read_begun_state Let_def)
  ultimately show ?thesis using emptied by (simp add: Let_def)
qed

end
