(* ===== verification/Desktop_Refresh.thy ===== *)
theory Desktop_Refresh
  imports Desktop_Cache
begin

text \<open>
  The refresh machine of \<open>DesktopController\<close> (\<open>apps/desktop/src/main/controller.ts\<close>): the one refresh under way, the
  queue of requests, generations, the reads of the hub, and what sign-outs and changes of the connection do to them, over the
  cache of \<open>Desktop_Cache\<close>.

  A call is cut at its awaits, with one step for what follows the reply of another program; the hops by which a value
  reaches the caller that awaits it are no steps of their own.  The abort controller is replaced exactly when the generation
  is counted up, so a read is current when its generation is.  What the hub, the agent and the clock reply is an input.
\<close>

subsection \<open>State\<close>

record desktop_env =
  dv_size_of :: "DesktopSnapshot \<Rightarrow> nat"
  dv_version :: string
  dv_platform :: UpdatePlatform
  dv_arch :: string

text \<open>What the controller sees of the hub client.\<close>

record hub_view =
  hv_accessKey :: "string option"
  hv_serverUrl :: string
  hv_identity :: string

definition cacheScope :: "hub_view \<Rightarrow> string option" where
  "cacheScope h = (if truthy (hv_accessKey h) \<and> hv_serverUrl h \<noteq> [] then Some (hv_serverUrl h @ [CHR 0x1F] @ hv_identity h) else None)"

record CachedTrafficCalendar =
  ck_key :: "string option \<times> string \<times> TrafficCalendarMode \<times> string"
  ck_value :: TrafficCalendarResponse
  ck_savedAt :: int

datatype optional_job = MetricsJob | OverviewJob | CalendarJob

datatype hub_read =
    MetricsRead string MetricWindow "int option"
  | OverviewRead MetricWindow "int option"
  | CalendarRead "string option \<times> string \<times> TrafficCalendarMode \<times> string"
  | CalendarKept TrafficCalendarResponse

datatype hub_answer = MetricsAnswer DeviceMetricsResponse | OverviewAnswer OverviewMetricsResponse | CalendarAnswer TrafficCalendarResponse

datatype refresh_phase = AwaitingCache "nat option" | ListingDevices int | ReadingOptional | RefreshFinished | RefreshEnded

record refresh_op =
  ro_generation :: nat
  ro_phase :: refresh_phase
  ro_cached :: "DesktopSnapshot option"
  ro_live :: LiveData
  ro_jobs :: "optional_job list"
  ro_running :: "hub_read list"
  ro_budget :: "int option"
  ro_failed :: bool

record get_call =
  gt_request :: DesktopSnapshotRequest
  gt_read :: nat
  gt_done :: bool

record DesktopController =
  ct_currentSnapshot :: "DesktopSnapshot option"
  ct_refreshing :: bool
  ct_queued :: "DesktopSnapshotRequest option"
  ct_metricWindow :: MetricWindow
  ct_selectedDeviceId :: "string option"
  ct_trafficMode :: TrafficCalendarMode
  ct_trafficAnchor :: string
  ct_calendarCache :: "CachedTrafficCalendar option"
  ct_startup :: DesktopStartupSettings
  ct_request :: DesktopSnapshotRequest
  ct_generation :: nat
  ct_localBackend :: "DesktopAgentBackendState option"
  ct_agentRead :: "string option"
  ct_failures :: nat
  ct_summaryDurationMs :: num
  ct_nextAutoReadAt :: int
  ct_started :: bool
  ct_connectionChanging :: bool
  ct_updateInfo :: "UpdateInfo option"
  ct_cache :: DesktopCacheStore
  ct_hub :: hub_view
  ct_ops :: "refresh_op list"
  ct_gets :: "get_call list"

definition controller_init :: "string \<Rightarrow> DesktopStartupSettings \<Rightarrow> hub_view \<Rightarrow> CacheEnvelope option \<Rightarrow> DesktopController" where
  "controller_init today startup h file =
     \<lparr>ct_currentSnapshot = None, ct_refreshing = False, ct_queued = None, ct_metricWindow = W5m, ct_selectedDeviceId = None,
      ct_trafficMode = DayMode, ct_trafficAnchor = today, ct_calendarCache = None, ct_startup = startup, ct_request = empty_request,
      ct_generation = 0, ct_localBackend = None, ct_agentRead = None, ct_failures = 0, ct_summaryDurationMs = 0,
      ct_nextAutoReadAt = 0, ct_started = False, ct_connectionChanging = False, ct_updateInfo = None,
      ct_cache = cache_store_init file, ct_hub = h, ct_ops = [], ct_gets = []\<rparr>"

definition shell_of :: "desktop_env \<Rightarrow> int \<Rightarrow> DesktopController \<Rightarrow> shell" where
  "shell_of env now c = \<lparr>sh_now = now, sh_configured = truthy (hv_accessKey (ct_hub c)), sh_updateInfo = ct_updateInfo c,
     sh_startup = ct_startup c, sh_version = dv_version env, sh_platform = dv_platform env, sh_arch = dv_arch env\<rparr>"

abbreviation op_at :: "nat \<Rightarrow> DesktopController \<Rightarrow> refresh_op" where
  "op_at i c \<equiv> ct_ops c ! i"

definition set_op :: "nat \<Rightarrow> (refresh_op \<Rightarrow> refresh_op) \<Rightarrow> DesktopController \<Rightarrow> DesktopController" where
  "set_op i f c = c\<lparr>ct_ops := (ct_ops c)[i := f (op_at i c)]\<rparr>"

definition is_current :: "nat \<Rightarrow> DesktopController \<Rightarrow> bool" where
  "is_current i c \<longleftrightarrow> ro_generation (op_at i c) = ct_generation c"

subsection \<open>Requests\<close>

definition hasRequestChanges :: "DesktopSnapshotRequest \<Rightarrow> DesktopController \<Rightarrow> bool" where
  "hasRequestChanges request c \<longleftrightarrow>
     (dr_metricWindow request \<noteq> None \<and> dr_metricWindow request \<noteq> Some (ct_metricWindow c)) \<or>
     (dr_selectedDeviceId request \<noteq> None \<and> dr_selectedDeviceId request \<noteq> Some (ct_selectedDeviceId c)) \<or>
     (dr_trafficMode request \<noteq> None \<and> dr_trafficMode request \<noteq> Some (ct_trafficMode c)) \<or>
     (dr_trafficAnchor request \<noteq> None \<and> dr_trafficAnchor request \<noteq> Some (ct_trafficAnchor c)) \<or>
     (dr_networkMode request \<noteq> None \<and> dr_networkMode request \<noteq> dr_networkMode (ct_request c)) \<or>
     (dr_include request \<noteq> None \<and> dr_include request \<noteq> dr_include (ct_request c))"

definition applyRequest :: "DesktopSnapshotRequest \<Rightarrow> DesktopController \<Rightarrow> DesktopController" where
  "applyRequest request c =
     (let c0 = c\<lparr>ct_request := mergeSnapshotRequests (Some (ct_request c)) request\<rparr>;
          c1 = (case dr_metricWindow request of Some w \<Rightarrow> if w \<noteq> ct_metricWindow c0 then c0\<lparr>ct_metricWindow := w\<rparr> else c0 | None \<Rightarrow> c0);
          c2 = (case dr_selectedDeviceId request of
                  Some d \<Rightarrow> if d \<noteq> ct_selectedDeviceId c1 then c1\<lparr>ct_selectedDeviceId := d, ct_calendarCache := None\<rparr> else c1 | None \<Rightarrow> c1);
          c3 = (case dr_trafficMode request of
                  Some m \<Rightarrow> if m \<noteq> ct_trafficMode c2 then c2\<lparr>ct_trafficMode := m, ct_calendarCache := None\<rparr> else c2 | None \<Rightarrow> c2)
      in if truthy (dr_trafficAnchor request) \<and> dr_trafficAnchor request \<noteq> Some (ct_trafficAnchor c3)
         then c3\<lparr>ct_trafficAnchor := the (dr_trafficAnchor request), ct_calendarCache := None\<rparr> else c3)"

definition constrained :: "DesktopController \<Rightarrow> bool" where
  "constrained c \<longleftrightarrow> dr_networkMode (ct_request c) = Some SaverMode \<or>
     (dr_networkMode (ct_request c) \<noteq> Some StandardMode \<and> 1500 \<le> ct_summaryDurationMs c)"

definition scheduleNextRead :: "int \<Rightarrow> DesktopController \<Rightarrow> DesktopController" where
  "scheduleNextRead now c =
     c\<lparr>ct_nextAutoReadAt := now + min 120000 ((if constrained c then 30000 else 10000) * 2 ^ ct_failures c)\<rparr>"

definition cancelSnapshot :: "DesktopController \<Rightarrow> DesktopController" where
  "cancelSnapshot c = c\<lparr>ct_generation := Suc (ct_generation c)\<rparr>"

definition clearRemote :: "desktop_env \<Rightarrow> int \<Rightarrow> DesktopController \<Rightarrow> DesktopController" where
  "clearRemote env now c =
     (let c1 = cancelSnapshot c
      in c1\<lparr>ct_queued := None, ct_calendarCache := None,
            ct_currentSnapshot := Some ((emptySnapshot (shell_of env now c1))\<lparr>sn_localBackend := ct_localBackend c1\<rparr>),
            ct_failures := 0, ct_summaryDurationMs := 0, ct_nextAutoReadAt := 0, ct_cache := cache_sign_out (ct_cache c1)\<rparr>)"

subsection \<open>Starting a refresh\<close>

text \<open>\<open>readLocalBackend\<close> asks the agent unless it is being asked, and notes the address of that moment.\<close>

definition readLocalBackend :: "DesktopController \<Rightarrow> DesktopController" where
  "readLocalBackend c = (if ct_agentRead c \<noteq> None then c else c\<lparr>ct_agentRead := Some (hv_serverUrl (ct_hub c))\<rparr>)"

definition no_data :: LiveData where
  "no_data = \<lparr>ld_localBackend = None, ld_devices = [], ld_selectedDeviceId = None, ld_metrics = None, ld_overviewMetrics = None,
     ld_trafficCalendar = None, ld_update = None, ld_authenticated = False\<rparr>"

definition begin_refresh_once :: "DesktopSnapshotRequest \<Rightarrow> DesktopController \<Rightarrow> DesktopController" where
  "begin_refresh_once request c =
     (let c1 = readLocalBackend (cancelSnapshot (applyRequest request c));
          (begun, store) = begin_cache_read (cacheScope (ct_hub c1)) (ct_cache c1);
          read = (case begun of NothingCached \<Rightarrow> None | Waiting r \<Rightarrow> Some r)
      in c1\<lparr>ct_cache := store,
            ct_ops := ct_ops c1 @ [\<lparr>ro_generation = ct_generation c1, ro_phase = AwaitingCache read, ro_cached = None, ro_live = no_data,
              ro_jobs = [], ro_running = [], ro_budget = None, ro_failed = False\<rparr>]\<rparr>)"

text \<open>The loop of \<open>drainRefreshQueue\<close>: the next request, or the end of the refresh.\<close>

definition drain_refreshes :: "DesktopController \<Rightarrow> DesktopController" where
  "drain_refreshes c = (case ct_queued c of None \<Rightarrow> c\<lparr>ct_refreshing := False\<rparr>
     | Some request \<Rightarrow> begin_refresh_once request (c\<lparr>ct_queued := None, ct_refreshing := True\<rparr>))"

definition refresh :: "int \<Rightarrow> DesktopSnapshotRequest \<Rightarrow> DesktopController \<Rightarrow> DesktopController" where
  "refresh now request c =
     (if ct_connectionChanging c then c
      else if ct_refreshing c then
        (if hasRequestChanges request c
         then (cancelSnapshot c)\<lparr>ct_queued := Some (mergeSnapshotRequests (ct_queued c) request)\<rparr> else c)
      else if dr_background request = Some True \<and> \<not> hasRequestChanges request c \<and> ct_currentSnapshot c \<noteq> None \<and> now < ct_nextAutoReadAt c
      then c
      else drain_refreshes (c\<lparr>ct_queued := Some (mergeSnapshotRequests (ct_queued c) request)\<rparr>))"

definition refreshAfterMutation :: "int \<Rightarrow> DesktopSnapshotRequest \<Rightarrow> DesktopController \<Rightarrow> DesktopController" where
  "refreshAfterMutation now request c =
     (let c1 = cancelSnapshot c in refresh now request (c1\<lparr>ct_queued := Some (mergeSnapshotRequests (ct_queued c1) request)\<rparr>))"

definition refreshVisible :: "int \<Rightarrow> DesktopController \<Rightarrow> DesktopController" where
  "refreshVisible now c = (if ct_started c then refresh now empty_request c else c)"

text \<open>\<open>getSnapshot\<close> until its first await; it shows what is there, asks the cache, or refreshes.\<close>

definition get_snapshot :: "int \<Rightarrow> DesktopSnapshotRequest \<Rightarrow> bool \<Rightarrow> DesktopController \<Rightarrow> DesktopController" where
  "get_snapshot now request allowRefresh c =
     (if ct_connectionChanging c \<or> \<not> allowRefresh then c
      else let c1 = c\<lparr>ct_started := True\<rparr>
           in if dr_preferCache request = Some True \<or> ct_currentSnapshot c1 = None then
                (case begin_cache_read (cacheScope (ct_hub c1)) (ct_cache c1) of
                   (Waiting r, store) \<Rightarrow> c1\<lparr>ct_cache := store, ct_gets := ct_gets c1 @ [\<lparr>gt_request = request, gt_read = r, gt_done = False\<rparr>]\<rparr>
                 | (NothingCached, store) \<Rightarrow>
                     (if ct_currentSnapshot c1 \<noteq> None \<and> \<not> hasRequestChanges request c1 then c1 else refresh now request c1))
              else if \<not> hasRequestChanges request c1 then c1 else refresh now request c1)"

definition get_answered :: "desktop_env \<Rightarrow> int \<Rightarrow> nat \<Rightarrow> DesktopController \<Rightarrow> DesktopController" where
  "get_answered env now i c =
     (let g = ct_gets c ! i; request = gt_request g; store = end_cache_read now (gt_read g) (ct_cache c);
          c1 = c\<lparr>ct_cache := store, ct_gets := (ct_gets c)[i := g\<lparr>gt_done := True\<rparr>]\<rparr>
      in case cd_answer (dk_reads store ! gt_read g) of
           Some (Some cached) \<Rightarrow>
             refresh now request (c1\<lparr>ct_currentSnapshot :=
               Some (asCachedSnapshot (shell_of env now c1) (ct_metricWindow c1) (ct_selectedDeviceId c1) cached False request)\<rparr>)
         | Some None \<Rightarrow> (if ct_currentSnapshot c1 \<noteq> None \<and> \<not> hasRequestChanges request c1 then c1 else refresh now request c1)
         | None \<Rightarrow> c)"


subsection \<open>The answers of a refresh\<close>

text \<open>\<open>isHubDenied\<close> is known of the failure; what a failed refresh shows.\<close>

definition refresh_failed :: "desktop_env \<Rightarrow> int \<Rightarrow> nat \<Rightarrow> bool \<Rightarrow> DesktopController \<Rightarrow> DesktopController" where
  "refresh_failed env now i denied c =
     (let ended = set_op i (\<lambda>op. op\<lparr>ro_phase := RefreshEnded\<rparr>) c
      in if \<not> is_current i c then ended
         else let c1 = (if denied then (cancelSnapshot ended)\<lparr>ct_calendarCache := None, ct_cache := cache_sign_out (ct_cache ended)\<rparr> else ended);
                  cached = (if denied then None else ro_cached (op_at i c));
                  c2 = scheduleNextRead now (c1\<lparr>ct_failures := min 4 (Suc (ct_failures c1))\<rparr>);
                  sh = shell_of env now c2;
                  fallback = (case cached of Some s \<Rightarrow> asCachedSnapshot sh (ct_metricWindow c2) (ct_selectedDeviceId c2) s True (ct_request c2)
                    | None \<Rightarrow> emptySnapshot sh)
              in c2\<lparr>ct_currentSnapshot := Some (fallback\<lparr>sn_localBackend := ct_localBackend c2, sn_update := ct_updateInfo c2\<rparr>)\<rparr>)"

text \<open>The cache has answered: \<open>readLiveData\<close> begins and asks the hub for the list of devices.\<close>

definition cache_answered :: "int \<Rightarrow> nat \<Rightarrow> DesktopController \<Rightarrow> DesktopController" where
  "cache_answered now i c =
     (let start = (\<lambda>cached c1. set_op i (\<lambda>op. op\<lparr>ro_cached := cached, ro_phase := ListingDevices now,
            ro_live := no_data\<lparr>ld_localBackend := ct_localBackend c1, ld_selectedDeviceId := ct_selectedDeviceId c1,
              ld_update := ct_updateInfo c1\<rparr>\<rparr>) c1)
      in case ro_phase (op_at i c) of
           AwaitingCache None \<Rightarrow> start None c
         | AwaitingCache (Some r) \<Rightarrow>
             (let store = end_cache_read now r (ct_cache c)
              in case cd_answer (dk_reads store ! r) of
                   None \<Rightarrow> c
                 | Some cached \<Rightarrow> start cached (c\<lparr>ct_cache := store\<rparr>))
         | _ \<Rightarrow> c)"

text \<open>\<open>publish\<close>: what the refresh knows so far is shown and handed to the cache, if the refresh is current.\<close>

definition publish :: "desktop_env \<Rightarrow> int \<Rightarrow> nat \<Rightarrow> DesktopController \<Rightarrow> DesktopController" where
  "publish env now i c =
     (if \<not> is_current i c then c
      else let live = ro_live (op_at i c);
               shown = createSnapshot (shell_of env now c) LiveSource
                 (live\<lparr>ld_localBackend := opt_or (ct_localBackend c) (ld_localBackend live)\<rparr>) None
           in c\<lparr>ct_currentSnapshot := Some shown,
                ct_cache := cache_write (dv_size_of env) now shown (cacheScope (ct_hub c)) (ct_cache c)\<rparr>)"

definition calendar_key :: "DesktopController \<Rightarrow> string \<Rightarrow> string option \<times> string \<times> TrafficCalendarMode \<times> string" where
  "calendar_key c device = (cacheScope (ct_hub c), device, ct_trafficMode c, ct_trafficAnchor c)"

text \<open>An optional read begins; a calendar read lately is not asked for again.\<close>

definition start_job_read :: "int \<Rightarrow> DesktopController \<Rightarrow> string option \<Rightarrow> int option \<Rightarrow> optional_job \<Rightarrow> hub_read" where
  "start_job_read now c selected points job =
     (case job of
        MetricsJob \<Rightarrow> MetricsRead (the selected) (ct_metricWindow c) points
      | OverviewJob \<Rightarrow> OverviewRead (ct_metricWindow c) points
      | CalendarJob \<Rightarrow>
          (let key = calendar_key c (the selected)
           in case ct_calendarCache c of
                Some kept \<Rightarrow> if ck_key kept = key \<and> now - ck_savedAt kept < 60000 then CalendarKept (ck_value kept) else CalendarRead key
              | None \<Rightarrow> CalendarRead key))"

definition included :: "DesktopController \<Rightarrow> string \<Rightarrow> bool" where
  "included c name = (case dr_include (ct_request c) of None \<Rightarrow> True | Some inc \<Rightarrow> map_get inc name = Some True)"

definition optional_jobs :: "DesktopController \<Rightarrow> string option \<Rightarrow> optional_job list" where
  "optional_jobs c selected =
     (if included c ''deviceMetrics'' \<and> truthy selected then [MetricsJob] else []) @
     (if included c ''overviewMetrics'' then [OverviewJob] else []) @
     (if included c ''trafficCalendar'' \<and> truthy selected then [CalendarJob] else [])"

definition pick_device :: "DeviceSummary list \<Rightarrow> string option \<Rightarrow> string option" where
  "pick_device found selected =
     (if list_ex (\<lambda>d. Some (sm_deviceId d) = selected) found then selected
      else case found of [] \<Rightarrow> None | d # _ \<Rightarrow> Some (sm_deviceId d))"

text \<open>What of the previous live snapshot is carried over until it is read again.\<close>

definition carried_over :: "DesktopController \<Rightarrow> string option \<Rightarrow> LiveData \<Rightarrow> LiveData" where
  "carried_over c selected live =
     (case ct_currentSnapshot c of
        Some previous \<Rightarrow>
          if sn_source previous = LiveSource then live
            \<lparr>ld_metrics := (case sn_metrics previous of None \<Rightarrow> None | Some m \<Rightarrow>
               if Some (sm_deviceId (mr_device m)) = selected \<and> mr_window m = ct_metricWindow c then Some m else None),
             ld_overviewMetrics := (case sn_overviewMetrics previous of None \<Rightarrow> None | Some m \<Rightarrow>
               if om_window m = ct_metricWindow c then Some m else None),
             ld_trafficCalendar := (case sn_trafficCalendar previous of None \<Rightarrow> None | Some m \<Rightarrow>
               if sn_selectedDeviceId previous = selected \<and> tcr_mode m = ct_trafficMode c \<and> tcr_anchor m = ct_trafficAnchor c then Some m else None),
             ld_update := sn_update previous\<rparr>
          else live
      | None \<Rightarrow> live)"

definition list_read :: "int \<Rightarrow> int \<Rightarrow> nat \<Rightarrow> DeviceSummary list \<Rightarrow> DesktopController \<Rightarrow> DesktopController" where
  "list_read now startedAt i found c =
     (let took = rat_of_int (now - startedAt);
          selected = pick_device found (ld_selectedDeviceId (ro_live (op_at i c)));
          c1 = c\<lparr>ct_summaryDurationMs := (if ct_summaryDurationMs c \<noteq> 0 then ct_summaryDurationMs c * (7/10) + took * (3/10) else took),
                 ct_selectedDeviceId := selected\<rparr>;
          live = carried_over c1 selected ((ro_live (op_at i c))
            \<lparr>ld_devices := found, ld_selectedDeviceId := selected, ld_authenticated := True\<rparr>)
      in set_op i (\<lambda>op. op\<lparr>ro_live := live\<rparr>) c1)"

definition start_optional :: "int \<Rightarrow> nat \<Rightarrow> DesktopController \<Rightarrow> DesktopController" where
  "start_optional now i c =
     (let selected = ld_selectedDeviceId (ro_live (op_at i c)); points = (if constrained c then Some 120 else None);
          jobs = optional_jobs c selected; n = (if constrained c then 1 else 2)
      in set_op i (\<lambda>op. op\<lparr>ro_phase := ReadingOptional, ro_budget := points,
           ro_running := map (start_job_read now c selected points) (take n jobs), ro_jobs := drop n jobs\<rparr>) c)"

definition devices_answered :: "desktop_env \<Rightarrow> int \<Rightarrow> nat \<Rightarrow> DeviceSummary list \<Rightarrow> DesktopController \<Rightarrow> DesktopController" where
  "devices_answered env now i found c =
     (case ro_phase (op_at i c) of
        ListingDevices startedAt \<Rightarrow>
          if \<not> is_current i c then set_op i (\<lambda>op. op\<lparr>ro_phase := RefreshEnded\<rparr>) c
          else start_optional now i (publish env now i (list_read now startedAt i found c))
      | _ \<Rightarrow> c)"

text \<open>A worker that is free takes the next job while the refresh is current.\<close>

definition next_job :: "int \<Rightarrow> nat \<Rightarrow> nat \<Rightarrow> DesktopController \<Rightarrow> DesktopController" where
  "next_job now k i c =
     (let op = op_at i c
      in case ro_jobs op of
           job # jobs \<Rightarrow>
             if is_current i c
             then set_op i (\<lambda>op. op\<lparr>ro_jobs := jobs, ro_running := (ro_running op)[k :=
                    start_job_read now c (ld_selectedDeviceId (ro_live op)) (ro_budget op) job]\<rparr>) c
             else set_op i (\<lambda>op. op\<lparr>ro_running := take k (ro_running op) @ drop (Suc k) (ro_running op)\<rparr>) c
         | [] \<Rightarrow> set_op i (\<lambda>op. op\<lparr>ro_running := take k (ro_running op) @ drop (Suc k) (ro_running op)\<rparr>) c)"

definition apply_answer :: "hub_answer \<Rightarrow> LiveData \<Rightarrow> LiveData" where
  "apply_answer reply live =
     (case reply of MetricsAnswer m \<Rightarrow> live\<lparr>ld_metrics := Some m\<rparr> | OverviewAnswer m \<Rightarrow> live\<lparr>ld_overviewMetrics := Some m\<rparr>
      | CalendarAnswer m \<Rightarrow> live\<lparr>ld_trafficCalendar := Some m\<rparr>)"

definition keep_calendar :: "int \<Rightarrow> hub_read \<Rightarrow> hub_answer \<Rightarrow> DesktopController \<Rightarrow> DesktopController" where
  "keep_calendar now read reply c =
     (case (read, reply) of
        (CalendarRead key, CalendarAnswer m) \<Rightarrow> c\<lparr>ct_calendarCache := Some \<lparr>ck_key = key, ck_value = m, ck_savedAt = now\<rparr>\<rparr>
      | _ \<Rightarrow> c)"

definition optional_answered :: "desktop_env \<Rightarrow> int \<Rightarrow> nat \<Rightarrow> hub_answer \<Rightarrow> nat \<Rightarrow> DesktopController \<Rightarrow> DesktopController" where
  "optional_answered env now k reply i c =
     next_job now k i
       (if is_current i c
        then publish env now i (set_op i (\<lambda>op. op\<lparr>ro_live := apply_answer reply (ro_live op)\<rparr>)
               (keep_calendar now (ro_running (op_at i c) ! k) reply c))
        else c)"

definition optional_failed :: "desktop_env \<Rightarrow> int \<Rightarrow> nat \<Rightarrow> bool \<Rightarrow> nat \<Rightarrow> DesktopController \<Rightarrow> DesktopController" where
  "optional_failed env now k denied i c =
     (if denied then refresh_failed env now i True c
      else next_job now k i (if is_current i c then set_op i (\<lambda>op. op\<lparr>ro_failed := True\<rparr>) c else c))"

text \<open>All workers are done: the refresh shows its result.\<close>

definition refresh_finished :: "desktop_env \<Rightarrow> int \<Rightarrow> nat \<Rightarrow> DesktopController \<Rightarrow> DesktopController" where
  "refresh_finished env now i c =
     (if \<not> is_current i c then set_op i (\<lambda>op. op\<lparr>ro_phase := RefreshEnded\<rparr>) c
      else let c1 = c\<lparr>ct_failures := (if ro_failed (op_at i c) then min 4 (Suc (ct_failures c)) else 0)\<rparr>;
               live = ro_live (op_at i c1);
               shown = createSnapshot (shell_of env now c1) LiveSource
                 (live\<lparr>ld_localBackend := opt_or (ct_localBackend c1) (ld_localBackend live)\<rparr>) (ro_cached (op_at i c1));
               c2 = c1\<lparr>ct_currentSnapshot := Some shown,
                 ct_cache := cache_write (dv_size_of env) now shown (cacheScope (ct_hub c1)) (ct_cache c1)\<rparr>
           in set_op i (\<lambda>op. op\<lparr>ro_phase := RefreshFinished\<rparr>) (scheduleNextRead now c2))"

text \<open>The update is shown last; it does not hold up the refresh.\<close>

definition update_shown :: "desktop_env \<Rightarrow> int \<Rightarrow> nat \<Rightarrow> DesktopController \<Rightarrow> DesktopController" where
  "update_shown env now i c =
     (if is_current i c then publish env now i (set_op i (\<lambda>op. op\<lparr>ro_live := (ro_live op)\<lparr>ld_update := ct_updateInfo c\<rparr>\<rparr>) c) else c)"

subsection \<open>Around a refresh\<close>

text \<open>The agent has answered; an address it knows is taken over only if none was set.  \<open>listening\<close>: somebody is subscribed.\<close>

definition agent_answered :: "int \<Rightarrow> bool \<Rightarrow> RawAgentBackendState \<Rightarrow> hub_view \<Rightarrow> DesktopController \<Rightarrow> DesktopController" where
  "agent_answered now listening state h c =
     (let backend = Some (redactBackendState state); url = ac_serverUrl (gc_connection (rw_config state));
          c1 = c\<lparr>ct_localBackend := backend\<rparr>;
          c2 = (if ct_agentRead c = Some [] \<and> hv_serverUrl (ct_hub c) = [] \<and> url \<noteq> [] then
                  (let c3 = c1\<lparr>ct_hub := h\<rparr>
                   in if \<not> listening then c3
                      else if ct_refreshing c3 then c3\<lparr>ct_queued := Some (mergeSnapshotRequests (ct_queued c3) (ct_request c3))\<rparr>
                      else refresh now (ct_request c3) c3)
                else c1)
      in c2\<lparr>ct_currentSnapshot := map_option (\<lambda>s. s\<lparr>sn_localBackend := backend\<rparr>) (ct_currentSnapshot c2), ct_agentRead := None\<rparr>)"

definition session_denied :: "desktop_env \<Rightarrow> int \<Rightarrow> DesktopController \<Rightarrow> DesktopController" where
  "session_denied env now c = scheduleNextRead now ((clearRemote env now c)\<lparr>ct_failures := 1\<rparr>)"

text \<open>\<open>changeConnection\<close> until its first await, refused while another change is under way, and its end.\<close>

definition begin_change :: "desktop_env \<Rightarrow> int \<Rightarrow> DesktopController \<Rightarrow> DesktopController option" where
  "begin_change env now c =
     (if ct_connectionChanging c then None else Some (clearRemote env now (c\<lparr>ct_connectionChanging := True\<rparr>)))"

definition end_change :: "DesktopController \<Rightarrow> DesktopController" where
  "end_change c = c\<lparr>ct_connectionChanging := False\<rparr>"

definition logged_out :: "desktop_env \<Rightarrow> int \<Rightarrow> DesktopController \<Rightarrow> DesktopController" where
  "logged_out env now c =
     (let c1 = end_change c
      in c1\<lparr>ct_currentSnapshot := Some ((emptySnapshot (shell_of env now c1))\<lparr>sn_localBackend := ct_localBackend c1\<rparr>)\<rparr>)"

definition update_checked :: "UpdateInfo option \<Rightarrow> DesktopController \<Rightarrow> DesktopController" where
  "update_checked v c = c\<lparr>ct_updateInfo := v, ct_currentSnapshot := map_option (\<lambda>s. s\<lparr>sn_update := v\<rparr>) (ct_currentSnapshot c)\<rparr>"

definition startup_changed :: "DesktopStartupSettings \<Rightarrow> UpdateInfo option \<Rightarrow> DesktopController \<Rightarrow> DesktopController" where
  "startup_changed startup v c = c\<lparr>ct_startup := startup, ct_updateInfo := v,
     ct_currentSnapshot := map_option (\<lambda>s. s\<lparr>sn_update := v, sn_startup := startup\<rparr>) (ct_currentSnapshot c)\<rparr>"


subsection \<open>Every interleaving\<close>

text \<open>
  The hub answers what it was asked: the metrics of the device and window named, a calendar of the mode and anchor named.
\<close>

fun answers_read :: "hub_read \<Rightarrow> hub_answer \<Rightarrow> bool" where
  "answers_read (MetricsRead d w _) (MetricsAnswer m) \<longleftrightarrow> sm_deviceId (mr_device m) = d \<and> mr_window m = w"
| "answers_read (OverviewRead w _) (OverviewAnswer m) \<longleftrightarrow> om_window m = w"
| "answers_read (CalendarRead (_, _, mode, anchor)) (CalendarAnswer m) \<longleftrightarrow> tcr_mode m = mode \<and> tcr_anchor m = anchor"
| "answers_read (CalendarKept kept) (CalendarAnswer m) \<longleftrightarrow> m = kept"
| "answers_read _ _ \<longleftrightarrow> False"

definition ended :: "refresh_op \<Rightarrow> bool" where
  "ended op \<longleftrightarrow> ro_phase op = RefreshFinished \<or> ro_phase op = RefreshEnded"

text \<open>\<open>listed i\<close> says which refreshes get their list of devices.\<close>

inductive controller_step :: "desktop_env \<Rightarrow> (nat \<Rightarrow> bool) \<Rightarrow> DesktopController \<Rightarrow> DesktopController \<Rightarrow> bool" for env listed where
  ct_get: "controller_step env listed c (get_snapshot now request allowRefresh c)"
| ct_get_answered: "i < length (ct_gets c) \<Longrightarrow> \<not> gt_done (ct_gets c ! i) \<Longrightarrow> controller_step env listed c (get_answered env now i c)"
| ct_refresh: "controller_step env listed c (refresh now request c)"
| ct_mutated: "controller_step env listed c (refreshAfterMutation now request c)"
| ct_visible: "controller_step env listed c (refreshVisible now c)"
| ct_cancel: "controller_step env listed c (cancelSnapshot c)"
| ct_drain: "ct_refreshing c \<Longrightarrow> ct_ops c \<noteq> [] \<Longrightarrow> ended (last (ct_ops c)) \<Longrightarrow> controller_step env listed c (drain_refreshes c)"
| ct_cache_answered: "i < length (ct_ops c) \<Longrightarrow> controller_step env listed c (cache_answered now i c)"
| ct_listed: "i < length (ct_ops c) \<Longrightarrow> listed i \<Longrightarrow> controller_step env listed c (devices_answered env now i found c)"
| ct_list_failed: "i < length (ct_ops c) \<Longrightarrow> ro_phase (op_at i c) = ListingDevices t \<Longrightarrow> controller_step env listed c (refresh_failed env now i denied c)"
| ct_answered: "i < length (ct_ops c) \<Longrightarrow> k < length (ro_running (op_at i c)) \<Longrightarrow> answers_read (ro_running (op_at i c) ! k) reply
    \<Longrightarrow> controller_step env listed c (optional_answered env now k reply i c)"
| ct_failed: "i < length (ct_ops c) \<Longrightarrow> ro_phase (op_at i c) = ReadingOptional \<Longrightarrow> k < length (ro_running (op_at i c))
    \<Longrightarrow> controller_step env listed c (optional_failed env now k denied i c)"
| ct_finished: "i < length (ct_ops c) \<Longrightarrow> ro_phase (op_at i c) = ReadingOptional \<Longrightarrow> ro_running (op_at i c) = []
    \<Longrightarrow> controller_step env listed c (refresh_finished env now i c)"
| ct_update_shown: "i < length (ct_ops c) \<Longrightarrow> ro_phase (op_at i c) = RefreshFinished \<Longrightarrow> controller_step env listed c (update_shown env now i c)"
| ct_agent: "ct_agentRead c \<noteq> None \<Longrightarrow> controller_step env listed c (agent_answered now listening state h c)"
| ct_agent_failed: "controller_step env listed c (c\<lparr>ct_agentRead := None\<rparr>)"
| ct_denied: "controller_step env listed c (session_denied env now c)"
| ct_cleared: "controller_step env listed c (clearRemote env now c)"
| ct_change: "begin_change env now c = Some c' \<Longrightarrow> controller_step env listed c c'"
| ct_changed: "controller_step env listed c (end_change c)"
| ct_logged_out: "controller_step env listed c (logged_out env now c)"
| ct_hub: "controller_step env listed c (c\<lparr>ct_hub := h\<rparr>)"
| ct_update: "controller_step env listed c (update_checked v c)"
| ct_startup: "controller_step env listed c (startup_changed startup v c)"
| ct_flush: "controller_step env listed c (c\<lparr>ct_cache := cache_flush (ct_cache c)\<rparr>)"
| ct_load: "i < length (dk_promises (ct_cache c)) \<Longrightarrow> controller_step env listed c (c\<lparr>ct_cache := file_loaded now readable i (ct_cache c)\<rparr>)"
| ct_job: "controller_step env listed c (c\<lparr>ct_cache := start_job (ct_cache c)\<rparr>)"
| ct_written: "controller_step env listed c (c\<lparr>ct_cache := end_job now ok (ct_cache c)\<rparr>)"

subsection \<open>What is shown belongs to the selected device\<close>

definition metrics_of :: "string option \<Rightarrow> DeviceMetricsResponse option \<Rightarrow> bool" where
  "metrics_of selected m \<longleftrightarrow> (\<forall>v. m = Some v \<longrightarrow> selected = Some (sm_deviceId (mr_device v)))"

definition picked :: "DeviceSummary list \<Rightarrow> string option \<Rightarrow> bool" where
  "picked found selected = (case selected of None \<Rightarrow> found = [] | Some d \<Rightarrow> d \<in> sm_deviceId ` set found)"

lemma picked_pick_device [simp]: "picked found (pick_device found selected)"
  by (auto simp: picked_def pick_device_def list_ex_iff split: option.split list.split)

definition shown_ok :: "DesktopSnapshot option \<Rightarrow> bool" where
  "shown_ok s \<longleftrightarrow> (\<forall>v. s = Some v \<longrightarrow> metrics_of (sn_selectedDeviceId v) (sn_metrics v) \<and>
     (sn_source v = LiveSource \<longrightarrow> picked (sn_devices v) (sn_selectedDeviceId v)))"

definition job_fits :: "string option \<Rightarrow> optional_job \<Rightarrow> bool" where
  "job_fits selected j \<longleftrightarrow> (j = MetricsJob \<longrightarrow> selected \<noteq> None)"

definition read_fits :: "string option \<Rightarrow> hub_read \<Rightarrow> bool" where
  "read_fits selected r = (case r of MetricsRead d _ _ \<Rightarrow> selected = Some d | _ \<Rightarrow> True)"

lemma read_fits_metrics [simp]: "read_fits selected (MetricsRead d w b) \<longleftrightarrow> selected = Some d"
  by (simp add: read_fits_def)

definition op_ok :: "refresh_op \<Rightarrow> bool" where
  "op_ok op \<longleftrightarrow> metrics_of (ld_selectedDeviceId (ro_live op)) (ld_metrics (ro_live op)) \<and>
     (\<forall>j \<in> set (ro_jobs op). job_fits (ld_selectedDeviceId (ro_live op)) j) \<and>
     (\<forall>r \<in> set (ro_running op). read_fits (ld_selectedDeviceId (ro_live op)) r) \<and>
     (ro_running op \<noteq> [] \<or> ro_phase op = ReadingOptional \<or> ro_phase op = RefreshFinished \<longrightarrow>
        ld_authenticated (ro_live op) \<and> picked (ld_devices (ro_live op)) (ld_selectedDeviceId (ro_live op))) \<and>
     (\<forall>r t. ro_phase op = AwaitingCache r \<or> ro_phase op = ListingDevices t \<longrightarrow>
        ro_jobs op = [] \<and> ro_running op = [] \<and> ld_metrics (ro_live op) = None)"

definition controller_ok :: "DesktopController \<Rightarrow> bool" where
  "controller_ok c \<longleftrightarrow> shown_ok (ct_currentSnapshot c) \<and> (\<forall>op \<in> set (ct_ops c). op_ok op)"

lemma controller_okI: "shown_ok (ct_currentSnapshot c) \<Longrightarrow> (\<And>op. op \<in> set (ct_ops c) \<Longrightarrow> op_ok op) \<Longrightarrow> controller_ok c"
  by (simp add: controller_ok_def)

lemma metrics_of_simps [simp]: "metrics_of d None" "metrics_of d (Some m) \<longleftrightarrow> d = Some (sm_deviceId (mr_device m))"
  by (auto simp: metrics_of_def)

lemma shown_ok_simps [simp]: "shown_ok None" "shown_ok (Some s) \<longleftrightarrow> metrics_of (sn_selectedDeviceId s) (sn_metrics s) \<and>
      (sn_source s = LiveSource \<longrightarrow> picked (sn_devices s) (sn_selectedDeviceId s))"
  by (simp_all add: shown_ok_def)

lemma empty_shown [simp]: "sn_metrics (emptySnapshot sh) = None" "sn_selectedDeviceId (emptySnapshot sh) = None"
    "sn_source (emptySnapshot sh) = EmptySource"
  by (simp_all add: emptySnapshot_def)

lemma cached_shown [simp]: "metrics_of (sn_selectedDeviceId (asCachedSnapshot sh w d s failed r)) (sn_metrics (asCachedSnapshot sh w d s failed r))"
    "sn_source (asCachedSnapshot sh w d s failed r) = CacheSource"
  by (simp_all add: asCachedSnapshot_def Let_def split: option.split)

lemma created_shown: "ld_authenticated live \<or> cached = None \<Longrightarrow>
    metrics_of (ld_selectedDeviceId live) (ld_metrics live) \<Longrightarrow>
    picked (ld_devices live) (ld_selectedDeviceId live) \<Longrightarrow> shown_ok (Some (createSnapshot sh src live cached))"
  by (auto simp: createSnapshot_def Let_def)

lemma set_op_ops [simp]: "ct_ops (set_op i f c) = (ct_ops c)[i := f (op_at i c)]"
    "ct_currentSnapshot (set_op i f c) = ct_currentSnapshot c"
  by (simp_all add: set_op_def)

lemma controller_ok_set_op:
  assumes "controller_ok c" "i < length (ct_ops c)" "op_ok (op_at i c) \<Longrightarrow> op_ok (f (op_at i c))"
  shows "controller_ok (set_op i f c)"
  using assms by (auto simp: controller_ok_def dest!: set_update_subset_insert [THEN subsetD])


lemma apply_frame [simp]: "ct_currentSnapshot (applyRequest q c) = ct_currentSnapshot c" "ct_ops (applyRequest q c) = ct_ops c"
    "ct_cache (applyRequest q c) = ct_cache c" "ct_gets (applyRequest q c) = ct_gets c" "ct_generation (applyRequest q c) = ct_generation c"
    "ct_hub (applyRequest q c) = ct_hub c"
  by (simp_all add: applyRequest_def Let_def split: option.split)

lemma local_frame [simp]: "ct_currentSnapshot (readLocalBackend c) = ct_currentSnapshot c" "ct_ops (readLocalBackend c) = ct_ops c"
    "ct_cache (readLocalBackend c) = ct_cache c" "ct_gets (readLocalBackend c) = ct_gets c"
    "ct_generation (readLocalBackend c) = ct_generation c" "ct_hub (readLocalBackend c) = ct_hub c"
  by (simp_all add: readLocalBackend_def)

lemma cancel_frame [simp]: "ct_currentSnapshot (cancelSnapshot c) = ct_currentSnapshot c" "ct_ops (cancelSnapshot c) = ct_ops c"
    "ct_cache (cancelSnapshot c) = ct_cache c" "ct_gets (cancelSnapshot c) = ct_gets c"
    "ct_generation (cancelSnapshot c) = Suc (ct_generation c)" "ct_hub (cancelSnapshot c) = ct_hub c"
    "ct_queued (cancelSnapshot c) = ct_queued c"
  by (simp_all add: cancelSnapshot_def)

lemma schedule_frame [simp]: "ct_currentSnapshot (scheduleNextRead now c) = ct_currentSnapshot c" "ct_ops (scheduleNextRead now c) = ct_ops c"
    "ct_cache (scheduleNextRead now c) = ct_cache c" "ct_gets (scheduleNextRead now c) = ct_gets c"
    "ct_generation (scheduleNextRead now c) = ct_generation c" "ct_metricWindow (scheduleNextRead now c) = ct_metricWindow c"
    "ct_selectedDeviceId (scheduleNextRead now c) = ct_selectedDeviceId c" "ct_request (scheduleNextRead now c) = ct_request c"
    "ct_localBackend (scheduleNextRead now c) = ct_localBackend c" "ct_updateInfo (scheduleNextRead now c) = ct_updateInfo c"
    "ct_hub (scheduleNextRead now c) = ct_hub c"
  by (simp_all add: scheduleNextRead_def)

lemma set_op_frame [simp]: "ct_cache (set_op i f c) = ct_cache c" "ct_gets (set_op i f c) = ct_gets c"
    "ct_generation (set_op i f c) = ct_generation c" "ct_hub (set_op i f c) = ct_hub c" "length (ct_ops (set_op i f c)) = length (ct_ops c)"
    "ct_localBackend (set_op i f c) = ct_localBackend c"
  by (simp_all add: set_op_def)

text \<open>A refresh that begins adds an operation that knows nothing yet, and shows nothing new.\<close>

definition new_op :: "nat \<Rightarrow> nat option \<Rightarrow> refresh_op" where
  "new_op g r = \<lparr>ro_generation = g, ro_phase = AwaitingCache r, ro_cached = None, ro_live = no_data, ro_jobs = [], ro_running = [],
     ro_budget = None, ro_failed = False\<rparr>"

lemma new_op_ok [simp]: "op_ok (new_op g r)"
  by (simp add: op_ok_def new_op_def no_data_def)

lemma begin_frame:
  "ct_currentSnapshot (begin_refresh_once q c) = ct_currentSnapshot c" "ct_gets (begin_refresh_once q c) = ct_gets c"
  "ct_generation (begin_refresh_once q c) = Suc (ct_generation c)"
  "ct_cache (begin_refresh_once q c) = snd (begin_cache_read (cacheScope (ct_hub c)) (ct_cache c))"
  "ct_ops (begin_refresh_once q c) = ct_ops c @ [new_op (Suc (ct_generation c))
     (case fst (begin_cache_read (cacheScope (ct_hub c)) (ct_cache c)) of NothingCached \<Rightarrow> None | Waiting r \<Rightarrow> Some r)]"
  by (simp_all add: begin_refresh_once_def Let_def new_op_def split: prod.split)

lemma refresh_cases [consumes 0, case_names unchanged queued begun]:
  obtains (unchanged) "refresh now q c = c"
  | (queued) r where "refresh now q c = (cancelSnapshot c)\<lparr>ct_queued := r\<rparr>"
  | (begun) r c' where "refresh now q c = begin_refresh_once r c'" "ct_currentSnapshot c' = ct_currentSnapshot c" "ct_ops c' = ct_ops c"
      "ct_cache c' = ct_cache c" "ct_gets c' = ct_gets c" "ct_generation c' = ct_generation c" "ct_hub c' = ct_hub c"
proof -
  let ?q = "mergeSnapshotRequests (ct_queued c) q"
  have "refresh now q c = c \<or> refresh now q c = (cancelSnapshot c)\<lparr>ct_queued := Some ?q\<rparr> \<or>
      refresh now q c = begin_refresh_once ?q (c\<lparr>ct_queued := None, ct_refreshing := True\<rparr>)"
    by (simp add: refresh_def drain_refreshes_def)
  then show thesis
    using unchanged queued begun [of ?q "c\<lparr>ct_queued := None, ct_refreshing := True\<rparr>"] by fastforce
qed

lemma refresh_ok: "controller_ok c \<Longrightarrow> controller_ok (refresh now q c)"
  by (cases rule: refresh_cases [of now q c]) (auto simp: controller_ok_def begin_frame)

lemma drain_refreshes_ok: "controller_ok c \<Longrightarrow> controller_ok (drain_refreshes c)"
  by (auto simp: controller_ok_def drain_refreshes_def begin_frame split: option.split)

lemma get_snapshot_ok: "controller_ok c \<Longrightarrow> controller_ok (get_snapshot now q allow c)"
  unfolding get_snapshot_def Let_def
  by (auto intro!: refresh_ok split: prod.split read_begun.split) (auto simp: controller_ok_def)

lemma get_answered_ok: "controller_ok c \<Longrightarrow> controller_ok (get_answered env now i c)"
  unfolding get_answered_def Let_def
  by (auto intro!: refresh_ok split: option.split) (auto simp: controller_ok_def)

lemma clearRemote_ok: "controller_ok c \<Longrightarrow> controller_ok (clearRemote env now c)"
  by (simp add: controller_ok_def clearRemote_def Let_def)

lemma refresh_failed_ok: "controller_ok c \<Longrightarrow> i < length (ct_ops c) \<Longrightarrow> controller_ok (refresh_failed env now i denied c)"
  by (auto simp: controller_ok_def refresh_failed_def Let_def op_ok_def split: option.split dest!: set_update_subset_insert [THEN subsetD])

lemma cache_answered_ok: "controller_ok c \<Longrightarrow> i < length (ct_ops c) \<Longrightarrow> controller_ok (cache_answered now i c)"
  by (auto simp: controller_ok_def cache_answered_def Let_def op_ok_def no_data_def
      split: option.split refresh_phase.split dest!: set_update_subset_insert [THEN subsetD])


lemma publish_frame [simp]: "ct_ops (publish env now i c) = ct_ops c" "ct_generation (publish env now i c) = ct_generation c"
    "ct_gets (publish env now i c) = ct_gets c" "ct_hub (publish env now i c) = ct_hub c"
    "ct_calendarCache (publish env now i c) = ct_calendarCache c"
  by (simp_all add: publish_def Let_def)

lemma publish_shown:
  assumes "shown_ok (ct_currentSnapshot c)" "metrics_of (ld_selectedDeviceId (ro_live (op_at i c))) (ld_metrics (ro_live (op_at i c)))"
    "picked (ld_devices (ro_live (op_at i c))) (ld_selectedDeviceId (ro_live (op_at i c)))"
  shows "shown_ok (ct_currentSnapshot (publish env now i c))"
  using assms created_shown by (simp add: publish_def Let_def)

lemma publish_ok:
  assumes "controller_ok c" "i < length (ct_ops c)" "ro_running (op_at i c) \<noteq> [] \<or> ro_phase (op_at i c) = RefreshFinished"
  shows "controller_ok (publish env now i c)"
proof -
  have "op_ok (op_at i c)" using assms(1,2) by (simp add: controller_ok_def)
  then have "metrics_of (ld_selectedDeviceId (ro_live (op_at i c))) (ld_metrics (ro_live (op_at i c)))"
    "picked (ld_devices (ro_live (op_at i c))) (ld_selectedDeviceId (ro_live (op_at i c)))"
    using assms(3) unfolding op_ok_def by blast+
  then show ?thesis
    using assms(1) publish_shown [of c i env now] by (simp add: controller_ok_def)
qed

lemma carried_over_ok:
  "metrics_of selected (ld_metrics live) \<Longrightarrow> metrics_of selected (ld_metrics (carried_over c selected live))"
  "ld_selectedDeviceId (carried_over c selected live) = ld_selectedDeviceId live"
  "ld_authenticated (carried_over c selected live) = ld_authenticated live"
  "ld_devices (carried_over c selected live) = ld_devices live"
  by (auto simp: carried_over_def split: option.split)

lemma jobs_fit: "j \<in> set (optional_jobs c selected) \<Longrightarrow> job_fits selected j"
  by (cases selected) (auto simp: optional_jobs_def job_fits_def split: if_splits)

lemma started_fits: "job_fits selected j \<Longrightarrow> read_fits selected (start_job_read now c selected points j)"
  by (auto simp: job_fits_def read_fits_def start_job_read_def Let_def split: optional_job.split option.split)

text \<open>The list of devices gives the operation a selection that its metrics belong to.\<close>

lemma list_read_ok:
  assumes "op_ok (op_at i c)" "i < length (ct_ops c)" "ro_phase (op_at i c) = ListingDevices t"
  shows "metrics_of (ld_selectedDeviceId (ro_live (op_at i (list_read now s i found c)))) (ld_metrics (ro_live (op_at i (list_read now s i found c))))"
    "ld_authenticated (ro_live (op_at i (list_read now s i found c)))"
    "picked (ld_devices (ro_live (op_at i (list_read now s i found c)))) (ld_selectedDeviceId (ro_live (op_at i (list_read now s i found c))))"
  using assms by (auto simp: list_read_def Let_def carried_over_ok op_ok_def intro!: carried_over_ok(1))

lemma list_read_frame [simp]: "ct_currentSnapshot (list_read now s i found c) = ct_currentSnapshot c"
    "length (ct_ops (list_read now s i found c)) = length (ct_ops c)" "ct_cache (list_read now s i found c) = ct_cache c"
    "ct_gets (list_read now s i found c) = ct_gets c" "ct_generation (list_read now s i found c) = ct_generation c"
  by (simp_all add: list_read_def Let_def)

lemma start_optional_ok:
  assumes "shown_ok (ct_currentSnapshot c)" "i < length (ct_ops c)" "\<And>j. j < length (ct_ops c) \<Longrightarrow> j \<noteq> i \<Longrightarrow> op_ok (op_at j c)"
    "metrics_of (ld_selectedDeviceId (ro_live (op_at i c))) (ld_metrics (ro_live (op_at i c)))" "ld_authenticated (ro_live (op_at i c))"
    "picked (ld_devices (ro_live (op_at i c))) (ld_selectedDeviceId (ro_live (op_at i c)))"
  shows "controller_ok (start_optional now i c)"
proof (rule controller_okI)
  fix op assume "op \<in> set (ct_ops (start_optional now i c))"
  then obtain j where j: "j < length (ct_ops c)" "op = op_at j (start_optional now i c)"
    by (auto simp: start_optional_def Let_def in_set_conv_nth)
  show "op_ok op"
  proof (cases "j = i")
    case True
    have "job_fits (ld_selectedDeviceId (ro_live (op_at i c))) x" if "x \<in> set (optional_jobs c (ld_selectedDeviceId (ro_live (op_at i c))))" for x
      using jobs_fit that .
    then show ?thesis
      using True j assms(2,4,5,6) started_fits
      by (auto simp: start_optional_def Let_def op_ok_def dest!: in_set_takeD in_set_dropD)
  qed (use j assms(3) in \<open>simp add: start_optional_def Let_def\<close>)
qed (use assms(1) in \<open>simp add: start_optional_def Let_def\<close>)

lemma devices_answered_ok:
  assumes "controller_ok c" "i < length (ct_ops c)"
  shows "controller_ok (devices_answered env now i found c)"
proof (cases "ro_phase (op_at i c)")
  case (ListingDevices t)
  have op: "op_ok (op_at i c)" using assms by (simp add: controller_ok_def)
  show ?thesis
  proof (cases "is_current i c")
    case False
    then show ?thesis
      using controller_ok_set_op [OF assms] op ListingDevices by (simp add: devices_answered_def op_ok_def)
  next
    case True
    have "controller_ok (start_optional now i (publish env now i (list_read now t i found c)))"
    proof (rule start_optional_ok)
      show "shown_ok (ct_currentSnapshot (publish env now i (list_read now t i found c)))"
        using assms list_read_ok(1,3) [OF op assms(2) ListingDevices] by (intro publish_shown) (simp_all add: controller_ok_def)
      show "op_ok (op_at j (publish env now i (list_read now t i found c)))"
        if "j < length (ct_ops (publish env now i (list_read now t i found c)))" "j \<noteq> i" for j
        using that assms by (simp add: list_read_def Let_def controller_ok_def)
    qed (use assms list_read_ok [OF op assms(2) ListingDevices] in simp_all)
    then show ?thesis using True by (simp add: devices_answered_def ListingDevices)
  qed
qed (use assms(1) in \<open>simp_all add: devices_answered_def\<close>)


lemma next_job_ok:
  assumes "controller_ok c" "i < length (ct_ops c)" "k < length (ro_running (op_at i c))"
  shows "controller_ok (next_job now k i c)"
proof -
  have op: "op_ok (op_at i c)" using assms by (simp add: controller_ok_def)
  have early: "\<not> (ro_phase (op_at i c) = AwaitingCache r \<or> ro_phase (op_at i c) = ListingDevices t)" for r t
    using op assms(3) by (auto simp: op_ok_def)
  show ?thesis
  proof (cases "ro_jobs (op_at i c)")
    case Nil
    then show ?thesis
      unfolding next_job_def Let_def list.case
      by (simp, intro controller_ok_set_op [OF assms(1,2)])
        (use early in \<open>auto simp: op_ok_def dest: in_set_takeD in_set_dropD\<close>)
  next
    case (Cons job jobs)
    have "job_fits (ld_selectedDeviceId (ro_live (op_at i c))) job" using op Cons by (simp add: op_ok_def)
    then show ?thesis
      unfolding next_job_def Let_def Cons list.case
      by (simp, intro conjI impI controller_ok_set_op [OF assms(1,2)])
        (use early Cons in \<open>auto simp: op_ok_def started_fits dest: in_set_takeD in_set_dropD dest!: set_update_subset_insert [THEN subsetD]\<close>)
  qed
qed

lemma keep_calendar_frame [simp]: "ct_currentSnapshot (keep_calendar now r a c) = ct_currentSnapshot c"
    "ct_ops (keep_calendar now r a c) = ct_ops c" "ct_cache (keep_calendar now r a c) = ct_cache c"
    "ct_gets (keep_calendar now r a c) = ct_gets c" "ct_generation (keep_calendar now r a c) = ct_generation c"
  by (simp_all add: keep_calendar_def split: hub_read.split hub_answer.split)

lemma apply_answer_keeps [simp]: "ld_selectedDeviceId (apply_answer a live) = ld_selectedDeviceId live"
    "ld_authenticated (apply_answer a live) = ld_authenticated live"
    "ld_devices (apply_answer a live) = ld_devices live"
  by (simp_all add: apply_answer_def split: hub_answer.split)

lemma apply_answer_ok:
  assumes "op_ok op" "r \<in> set (ro_running op)" "answers_read r a"
  shows "op_ok (op\<lparr>ro_live := apply_answer a (ro_live op)\<rparr>)"
proof -
  have r: "read_fits (ld_selectedDeviceId (ro_live op)) r" using assms(1,2) by (simp add: op_ok_def)
  have "metrics_of (ld_selectedDeviceId (ro_live op)) (ld_metrics (apply_answer a (ro_live op)))"
    using r assms by (cases a; cases r) (simp_all add: apply_answer_def op_ok_def)
  moreover have "ro_running op \<noteq> []" using assms(2) by auto
  ultimately show ?thesis using assms(1) by (simp add: op_ok_def)
qed

lemma optional_answered_ok:
  assumes "controller_ok c" "i < length (ct_ops c)" "k < length (ro_running (op_at i c))" "answers_read (ro_running (op_at i c) ! k) a"
  shows "controller_ok (optional_answered env now k a i c)"
proof (cases "is_current i c")
  case True
  let ?kept = "keep_calendar now (ro_running (op_at i c) ! k) a c"
  let ?c1 = "set_op i (\<lambda>op. op\<lparr>ro_live := apply_answer a (ro_live op)\<rparr>) ?kept"
  have "controller_ok ?kept" using assms(1) by (simp add: controller_ok_def)
  then have "controller_ok ?c1"
    by (rule controller_ok_set_op) (use assms apply_answer_ok [OF _ nth_mem [OF assms(3)] assms(4)] in simp_all)
  then have "controller_ok (publish env now i ?c1)" by (rule publish_ok) (use assms(2,3) in auto)
  then have "controller_ok (next_job now k i (publish env now i ?c1))" by (rule next_job_ok) (use assms in simp_all)
  then show ?thesis using True by (simp add: optional_answered_def)
qed (use next_job_ok [OF assms(1-3)] in \<open>simp add: optional_answered_def\<close>)

lemma optional_failed_ok:
  assumes "controller_ok c" "i < length (ct_ops c)" "k < length (ro_running (op_at i c))"
  shows "controller_ok (optional_failed env now k denied i c)"
proof -
  have "controller_ok (set_op i (\<lambda>op. op\<lparr>ro_failed := True\<rparr>) c)"
    by (rule controller_ok_set_op [OF assms(1,2)]) (simp add: op_ok_def)
  then have "controller_ok (next_job now k i (set_op i (\<lambda>op. op\<lparr>ro_failed := True\<rparr>) c))"
    by (rule next_job_ok) (use assms in simp_all)
  then show ?thesis
    using refresh_failed_ok [OF assms(1,2)] next_job_ok [OF assms] by (simp add: optional_failed_def)
qed

lemma refresh_finished_ok:
  assumes "controller_ok c" "i < length (ct_ops c)" "ro_phase (op_at i c) = ReadingOptional"
  shows "controller_ok (refresh_finished env now i c)"
proof -
  have "op_ok (op_at i c)" using assms by (simp add: controller_ok_def)
  then have "shown_ok (Some (createSnapshot sh LiveSource ((ro_live (op_at i c))\<lparr>ld_localBackend := b\<rparr>) cached))" for sh b cached
    by (intro created_shown) (use assms(3) in \<open>simp_all add: op_ok_def\<close>)
  moreover have "op_ok ((op_at i c)\<lparr>ro_phase := p\<rparr>)" if "p = RefreshEnded \<or> p = RefreshFinished" for p
    using \<open>op_ok (op_at i c)\<close> assms(3) that by (auto simp: op_ok_def)
  ultimately show ?thesis
    using assms by (auto simp: controller_ok_def refresh_finished_def Let_def simp del: shown_ok_simps
        dest!: set_update_subset_insert [THEN subsetD])
qed

lemma update_shown_ok:
  assumes "controller_ok c" "i < length (ct_ops c)" "ro_phase (op_at i c) = RefreshFinished"
  shows "controller_ok (update_shown env now i c)"
proof -
  have "controller_ok (publish env now i (set_op i (\<lambda>op. op\<lparr>ro_live := (ro_live op)\<lparr>ld_update := ct_updateInfo c\<rparr>\<rparr>) c))"
    by (intro publish_ok controller_ok_set_op) (use assms in \<open>simp_all add: op_ok_def\<close>)
  then show ?thesis using assms(1) by (simp add: update_shown_def)
qed

lemma agent_answered_ok: "controller_ok c \<Longrightarrow> controller_ok (agent_answered now listening state h c)"
proof -
  assume ok: "controller_ok c"
  have *: "controller_ok (x\<lparr>ct_currentSnapshot := map_option (\<lambda>s. s\<lparr>sn_localBackend := b\<rparr>) (ct_currentSnapshot x), ct_agentRead := None\<rparr>)"
    if "controller_ok x" for x b
    using that by (cases "ct_currentSnapshot x") (auto simp: controller_ok_def)
  show ?thesis
    unfolding agent_answered_def Let_def
    by (rule *) (auto intro!: refresh_ok simp: ok [unfolded controller_ok_def] controller_ok_def [of "_\<lparr>ct_localBackend := _\<rparr>"]
        controller_ok_def [of "_\<lparr>ct_localBackend := _, ct_hub := _\<rparr>"] controller_ok_def [of "_\<lparr>ct_localBackend := _, ct_hub := _, ct_queued := _\<rparr>"])
qed

lemma update_fields_ok:
  assumes "controller_ok c"
  shows "controller_ok (update_checked v c)" "controller_ok (startup_changed startup v c)"
  using assms by (cases "ct_currentSnapshot c"; auto simp: controller_ok_def update_checked_def startup_changed_def)+

lemma controller_step_ok:
  assumes "controller_step env listed c c'" "controller_ok c"
  shows "controller_ok c'"
  using assms(1)
proof cases
  case (ct_change now)
  have "controller_ok (clearRemote env now (c\<lparr>ct_connectionChanging := True\<rparr>))"
    using assms(2) by (intro clearRemote_ok) (simp add: controller_ok_def)
  then show ?thesis using ct_change by (auto simp: begin_change_def split: if_splits)
next
  case (ct_mutated now request)
  show ?thesis unfolding ct_mutated refreshAfterMutation_def Let_def
    by (rule refresh_ok) (use assms(2) in \<open>simp add: controller_ok_def\<close>)
next
  case (ct_denied now)
  then show ?thesis using clearRemote_ok [OF assms(2)] by (simp add: session_denied_def controller_ok_def)
next
  case (ct_logged_out now)
  then show ?thesis using assms(2) by (simp add: logged_out_def end_change_def controller_ok_def Let_def)
next
  case (ct_cache_answered i now)
  then show ?thesis using cache_answered_ok assms(2) by simp
next
  case (ct_listed i now found)
  then show ?thesis using devices_answered_ok assms(2) by simp
next
  case (ct_list_failed i t now denied)
  then show ?thesis using refresh_failed_ok assms(2) by simp
next
  case (ct_answered i k a now)
  then show ?thesis using optional_answered_ok assms(2) by simp
next
  case (ct_failed i k now denied)
  then show ?thesis using optional_failed_ok assms(2) by simp
next
  case (ct_finished i now)
  then show ?thesis using refresh_finished_ok assms(2) by simp
next
  case (ct_update_shown i now)
  then show ?thesis using update_shown_ok assms(2) by simp
next
  case (ct_agent now listening state h)
  then show ?thesis using agent_answered_ok assms(2) by simp
next
  case (ct_visible now)
  then show ?thesis using refresh_ok assms(2) by (simp add: refreshVisible_def)
next
  case (ct_get now request allow)
  then show ?thesis using get_snapshot_ok assms(2) by simp
next
  case (ct_get_answered i now)
  then show ?thesis using get_answered_ok assms(2) by simp
next
  case (ct_refresh now request)
  then show ?thesis using refresh_ok assms(2) by simp
next
  case ct_drain
  then show ?thesis using drain_refreshes_ok assms(2) by simp
next
  case (ct_cleared now)
  then show ?thesis using clearRemote_ok assms(2) by simp
next
  case (ct_update v)
  then show ?thesis using update_fields_ok assms(2) by simp
next
  case (ct_startup startup v)
  then show ?thesis using update_fields_ok assms(2) by simp
qed (use assms(2) in \<open>simp_all add: controller_ok_def end_change_def\<close>)


lemma controller_run_ok: "(controller_step env listed)\<^sup>*\<^sup>* c c' \<Longrightarrow> controller_ok c \<Longrightarrow> controller_ok c'"
  by (induction rule: rtranclp_induct) (use controller_step_ok in blast)+

text \<open>
  What the page shows belongs together: in every state that requests, answers in any order, failures, sign-outs and
  changes of the connection can lead to, charts are shown only of the device that is selected, and a live page selects a
  device of its list, or none exactly if the list is empty.
\<close>

theorem page_shows_selection:
  assumes "(controller_step env listed)\<^sup>*\<^sup>* (controller_init today startup h file) c" "ct_currentSnapshot c = Some s"
  shows "(\<forall>m. sn_metrics s = Some m \<longrightarrow> sn_selectedDeviceId s = Some (sm_deviceId (mr_device m))) \<and>
    (sn_source s = LiveSource \<longrightarrow> (case sn_selectedDeviceId s of None \<Rightarrow> sn_devices s = []
       | Some d \<Rightarrow> d \<in> sm_deviceId ` set (sn_devices s)))"
proof -
  have "controller_ok (controller_init today startup h file)" by (simp add: controller_ok_def controller_init_def)
  with assms(1) have "controller_ok c" by (rule controller_run_ok)
  then show ?thesis using assms(2) by (auto simp: controller_ok_def shown_ok_def picked_def metrics_of_def)
qed

subsection \<open>After a sign-out\<close>

text \<open>Reads and refreshes are known by their positions; an answered read has a promise that is settled.\<close>

definition reads_ok :: "DesktopCacheStore \<Rightarrow> bool" where
  "reads_ok k \<longleftrightarrow> (\<forall>r \<in> set (dk_reads k). cd_promise r < length (dk_promises k) \<and>
     (cd_answer r \<noteq> None \<longrightarrow> (\<exists>v. dk_promises k ! cd_promise r = LoadedValue v))) \<and>
     (\<forall>sc i. dk_loaded k = Some (sc, i) \<longrightarrow> i < length (dk_promises k))"

lemma reads_ok_step:
  assumes "cache_step size_of may k k'" "reads_ok k"
  shows "reads_ok k' \<and> length (dk_reads k) \<le> length (dk_reads k')"
  using assms(1)
proof cases
  case (dk_read scope)
  then show ?thesis using assms(2) by (auto simp: reads_ok_def begin_cache_read_def Let_def nth_append split: if_splits)
next
  case (dk_load i now readable)
  then show ?thesis
    using assms(2) by (auto simp: reads_ok_def file_loaded_def Let_def nth_list_update split: loaded_value.split)
next
  case (dk_answer i now)
  then show ?thesis
    using assms(2) by (auto simp: reads_ok_def end_cache_read_def Let_def split: loaded_value.split
        dest!: set_update_subset_insert [THEN subsetD])
next
  case (dk_write scope x now)
  then show ?thesis
    using assms(2) by (auto simp: reads_ok_def cache_write_def cache_flush_def Let_def nth_append split: option.splits)
next
  case dk_start
  then show ?thesis using assms(2) by (auto simp: reads_ok_def start_job_def split: list.split cache_job.split option.split)
next
  case (dk_end now ok)
  then show ?thesis using assms(2) by (auto simp: reads_ok_def end_job_def split: list.split cache_job.split)
qed (use assms(2) in \<open>auto simp: reads_ok_def cache_flush_def cache_sign_out_def\<close>)

definition tickets_ok :: "DesktopController \<Rightarrow> bool" where
  "tickets_ok c \<longleftrightarrow> reads_ok (ct_cache c) \<and> epochs_past (ct_cache c) \<and>
     (\<forall>g \<in> set (ct_gets c). gt_read g < length (dk_reads (ct_cache c))) \<and>
     (\<forall>op \<in> set (ct_ops c). ro_generation op \<le> ct_generation c \<and>
        (\<forall>r. ro_phase op = AwaitingCache (Some r) \<longrightarrow> r < length (dk_reads (ct_cache c))))"

lemma tickets_cache:
  assumes "tickets_ok c" "cache_step size_of may (ct_cache c) k"
    "c' = c\<lparr>ct_cache := k\<rparr>"
  shows "tickets_ok c'"
proof -
  have "reads_ok k \<and> length (dk_reads (ct_cache c)) \<le> length (dk_reads k)" "epochs_past k"
    using reads_ok_step [OF assms(2)] epochs_past_step [OF assms(2)] assms(1) by (simp_all add: tickets_ok_def)
  then show ?thesis using assms(1) unfolding tickets_ok_def assms(3) by (auto intro: less_le_trans)
qed

lemma tickets_cong:
  "tickets_ok c \<Longrightarrow> ct_cache c' = ct_cache c \<Longrightarrow> ct_gets c' = ct_gets c \<Longrightarrow> ct_ops c' = ct_ops c \<Longrightarrow> ct_generation c \<le> ct_generation c' \<Longrightarrow> tickets_ok c'"
  by (auto simp: tickets_ok_def intro: le_trans)

lemma tickets_set_op:
  assumes "tickets_ok c" "i < length (ct_ops c)" "\<forall>op. ro_generation (f op) = ro_generation op"
    "\<forall>op r. ro_phase (f op) = AwaitingCache (Some r) \<longrightarrow> ro_phase op = AwaitingCache (Some r)"
  shows "tickets_ok (set_op i f c)"
proof -
  have i: "op_at i c \<in> set (ct_ops c)" using assms(2) by simp
  have "op \<in> set (ct_ops c) \<or> op = f (op_at i c)" if "op \<in> set (ct_ops (set_op i f c))" for op
    using that set_update_subset_insert [of "ct_ops c" i] by auto
  moreover have "ro_generation (f (op_at i c)) \<le> ct_generation c" using assms(1,3) i by (simp add: tickets_ok_def)
  moreover have "r < length (dk_reads (ct_cache c))" if "ro_phase (f (op_at i c)) = AwaitingCache (Some r)" for r
    using assms(1,4) that i unfolding tickets_ok_def by blast
  ultimately show ?thesis using assms(1) unfolding tickets_ok_def by fastforce
qed

lemma waiting_read: "begin_cache_read scope k = (Waiting r, k') \<Longrightarrow> r < length (dk_reads k')"
  by (auto simp: begin_cache_read_def Let_def split: if_splits)

lemma tickets_begin: "tickets_ok c \<Longrightarrow> tickets_ok (begin_refresh_once q c)"
proof -
  assume ok: "tickets_ok c"
  let ?b = "begin_cache_read (cacheScope (ct_hub c)) (ct_cache c)"
  have k: "tickets_ok (c\<lparr>ct_cache := snd ?b\<rparr>)"
    by (rule tickets_cache [OF ok dk_read refl])
  have "fst ?b = Waiting r \<Longrightarrow> r < length (dk_reads (snd ?b))" for r
    using waiting_read [of "cacheScope (ct_hub c)" "ct_cache c" r "snd ?b"] by (metis prod.collapse)
  then show ?thesis
    using k by (auto simp: tickets_ok_def begin_frame new_op_def split: read_begun.splits intro: le_SucI)
qed

lemma tickets_refresh: "tickets_ok c \<Longrightarrow> tickets_ok (refresh now q c)"
proof (cases rule: refresh_cases [of now q c])
  case (begun r c')
  assume "tickets_ok c"
  then have "tickets_ok c'" by (rule tickets_cong) (simp_all add: begun)
  then show ?thesis using begun(1) tickets_begin by simp
qed (auto elim!: tickets_cong)

lemma tickets_drain: "tickets_ok c \<Longrightarrow> tickets_ok (drain_refreshes c)"
  by (auto simp: drain_refreshes_def intro!: tickets_begin split: option.split elim!: tickets_cong)

lemma tickets_get: "tickets_ok c \<Longrightarrow> tickets_ok (get_snapshot now q allow c)"
proof -
  assume ok: "tickets_ok c"
  let ?c1 = "c\<lparr>ct_started := True\<rparr>"
  have ok1: "tickets_ok ?c1" by (rule tickets_cong [OF ok]) simp_all
  have waiting: "tickets_ok (?c1\<lparr>ct_cache := k, ct_gets := ct_gets ?c1 @ [\<lparr>gt_request = q, gt_read = r, gt_done = False\<rparr>]\<rparr>)"
    if "begin_cache_read (cacheScope (ct_hub ?c1)) (ct_cache ?c1) = (Waiting r, k)" for r k
  proof -
    have "tickets_ok (?c1\<lparr>ct_cache := snd (begin_cache_read (cacheScope (ct_hub ?c1)) (ct_cache ?c1))\<rparr>)"
      by (rule tickets_cache [OF ok1 dk_read refl])
    then show ?thesis using waiting_read [OF that] that by (auto simp: tickets_ok_def)
  qed
  show ?thesis
    using ok ok1 tickets_refresh [OF ok1] waiting
    by (auto simp: get_snapshot_def Let_def split: prod.split read_begun.split)
qed

lemma tickets_clear: "tickets_ok c \<Longrightarrow> tickets_ok (clearRemote env now c)"
proof -
  assume ok: "tickets_ok c"
  have "tickets_ok (c\<lparr>ct_cache := cache_sign_out (ct_cache c)\<rparr>)"
    by (rule tickets_cache [OF ok dk_clear refl])
  then show ?thesis by (rule tickets_cong) (simp_all add: clearRemote_def Let_def)
qed

lemma tickets_end_read:
  assumes "tickets_ok c" "r < length (dk_reads (ct_cache c))"
  shows "tickets_ok (c\<lparr>ct_cache := end_cache_read now r (ct_cache c)\<rparr>)"
  by (rule tickets_cache [OF assms(1) dk_answer [OF assms(2)] refl])

lemma tickets_publish: "tickets_ok c \<Longrightarrow> tickets_ok (publish env now i c)"
proof -
  assume ok: "tickets_ok c"
  have "tickets_ok (c\<lparr>ct_cache := cache_write (dv_size_of env) now s scope (ct_cache c)\<rparr>)" for s scope
    by (rule tickets_cache [OF ok dk_write [where may = "\<lambda>_ _. True"] refl]) simp
  from tickets_cong [OF this] ok show ?thesis by (simp add: publish_def Let_def)
qed


lemma tickets_get_answered:
  assumes "tickets_ok c" "i < length (ct_gets c)"
  shows "tickets_ok (get_answered env now i c)"
proof -
  let ?g = "ct_gets c ! i"
  let ?c1 = "c\<lparr>ct_cache := end_cache_read now (gt_read ?g) (ct_cache c), ct_gets := (ct_gets c)[i := ?g\<lparr>gt_done := True\<rparr>]\<rparr>"
  have g: "gt_read ?g < length (dk_reads (ct_cache c))" using assms by (simp add: tickets_ok_def)
  have ok: "tickets_ok ?c1"
    using tickets_end_read [OF assms(1) g] assms(2) by (auto simp: tickets_ok_def dest!: set_update_subset_insert [THEN subsetD])
  have "tickets_ok (?c1\<lparr>ct_currentSnapshot := s\<rparr>)" for s by (rule tickets_cong [OF ok]) simp_all
  then show ?thesis
    using ok assms(1) tickets_refresh by (simp add: get_answered_def Let_def split: option.split)
qed

lemma tickets_cache_answered:
  assumes "tickets_ok c" "i < length (ct_ops c)"
  shows "tickets_ok (cache_answered now i c)"
proof (cases "ro_phase (op_at i c)")
  case (AwaitingCache ticket)
  show ?thesis
  proof (cases ticket)
    case None
    then show ?thesis
      using tickets_set_op [OF assms] by (simp add: cache_answered_def AwaitingCache Let_def)
  next
    case (Some r)
    have "op_at i c \<in> set (ct_ops c)" using assms(2) by simp
    then have "r < length (dk_reads (ct_cache c))" using assms(1) AwaitingCache Some by (simp add: tickets_ok_def)
    from tickets_end_read [OF assms(1) this] have "tickets_ok (set_op i f (c\<lparr>ct_cache := end_cache_read now r (ct_cache c)\<rparr>))"
      if "\<forall>op. ro_generation (f op) = ro_generation op" "\<forall>op q. ro_phase (f op) \<noteq> AwaitingCache q" for f
      by (rule tickets_set_op) (use assms(2) that in simp_all)
    then show ?thesis using assms(1) by (simp add: cache_answered_def AwaitingCache Some Let_def split: option.split)
  qed
qed (use assms in \<open>simp_all add: cache_answered_def Let_def\<close>)

lemma tickets_failed:
  assumes "tickets_ok c" "i < length (ct_ops c)"
  shows "tickets_ok (refresh_failed env now i denied c)"
proof -
  let ?e = "set_op i (\<lambda>op. op\<lparr>ro_phase := RefreshEnded\<rparr>) c"
  have e: "tickets_ok ?e" by (rule tickets_set_op [OF assms]) simp_all
  have out: "tickets_ok (?e\<lparr>ct_cache := cache_sign_out (ct_cache ?e)\<rparr>)" by (rule tickets_cache [OF e dk_clear refl])
  show ?thesis
  proof (cases "is_current i c")
    case True
    show ?thesis
    proof (cases denied)
      case True
      show ?thesis by (rule tickets_cong [OF out]) (use True \<open>is_current i c\<close> in \<open>simp_all add: refresh_failed_def Let_def\<close>)
    next
      case False
      show ?thesis by (rule tickets_cong [OF e]) (use False \<open>is_current i c\<close> in \<open>simp_all add: refresh_failed_def Let_def\<close>)
    qed
  qed (use e in \<open>simp add: refresh_failed_def\<close>)
qed

lemma tickets_devices:
  assumes "tickets_ok c" "i < length (ct_ops c)"
  shows "tickets_ok (devices_answered env now i found c)"
proof (cases "ro_phase (op_at i c)")
  case (ListingDevices t)
  have "tickets_ok (c\<lparr>ct_summaryDurationMs := x, ct_selectedDeviceId := y\<rparr>)" for x y by (rule tickets_cong [OF assms(1)]) simp_all
  from tickets_set_op [OF this] assms(2) have "tickets_ok (list_read now t i found c)" by (simp add: list_read_def Let_def)
  then have "tickets_ok (publish env now i (list_read now t i found c))" by (rule tickets_publish)
  then have "tickets_ok (start_optional now i (publish env now i (list_read now t i found c)))"
    unfolding start_optional_def Let_def by (rule tickets_set_op) (use assms(2) in simp_all)
  then show ?thesis using tickets_set_op [OF assms] by (simp add: devices_answered_def ListingDevices)
qed (use assms(1) in \<open>simp_all add: devices_answered_def\<close>)

lemma tickets_next_job: "tickets_ok c \<Longrightarrow> i < length (ct_ops c) \<Longrightarrow> tickets_ok (next_job now k i c)"
  using tickets_set_op [of c i] by (simp add: next_job_def Let_def split: list.split)

lemma tickets_optional:
  assumes "tickets_ok c" "i < length (ct_ops c)"
  shows "tickets_ok (optional_answered env now k a i c)" "tickets_ok (optional_failed env now k denied i c)"
proof -
  have "tickets_ok (keep_calendar now r a c)" for r by (rule tickets_cong [OF assms(1)]) simp_all
  then have "tickets_ok (set_op i (\<lambda>op. op\<lparr>ro_live := apply_answer a (ro_live op)\<rparr>) (keep_calendar now r a c))" for r
    by (rule tickets_set_op) (use assms(2) in simp_all)
  then have "tickets_ok (publish env now i (set_op i (\<lambda>op. op\<lparr>ro_live := apply_answer a (ro_live op)\<rparr>) (keep_calendar now r a c)))" for r
    by (rule tickets_publish)
  then show "tickets_ok (optional_answered env now k a i c)"
    using assms by (simp add: optional_answered_def tickets_next_job)
  have "tickets_ok (set_op i (\<lambda>op. op\<lparr>ro_failed := True\<rparr>) c)" by (rule tickets_set_op [OF assms]) simp_all
  then show "tickets_ok (optional_failed env now k denied i c)"
    using assms by (simp add: optional_failed_def tickets_next_job tickets_failed)
qed

lemma tickets_finished:
  assumes "tickets_ok c" "i < length (ct_ops c)"
  shows "tickets_ok (refresh_finished env now i c)"
proof -
  have written: "tickets_ok (c\<lparr>ct_cache := cache_write (dv_size_of env) now s scope (ct_cache c)\<rparr>)" for s scope
    by (rule tickets_cache [OF assms(1) dk_write [where may = "\<lambda>_ _. True"] refl]) simp
  have "tickets_ok (scheduleNextRead now (c\<lparr>ct_failures := n, ct_currentSnapshot := v, ct_cache := cache_write (dv_size_of env) now s scope (ct_cache c)\<rparr>))"
    for n v s scope by (rule tickets_cong [OF written [of s scope]]) simp_all
  from tickets_set_op [OF this] show ?thesis
    using assms(2) tickets_set_op [OF assms] by (simp add: refresh_finished_def Let_def)
qed

lemma tickets_update: "tickets_ok c \<Longrightarrow> i < length (ct_ops c) \<Longrightarrow> tickets_ok (update_shown env now i c)"
  by (simp add: update_shown_def tickets_publish tickets_set_op)

lemma tickets_agent:
  assumes "tickets_ok c"
  shows "tickets_ok (agent_answered now listening state h c)"
proof -
  have drop: "tickets_ok (x\<lparr>ct_currentSnapshot := s, ct_agentRead := None\<rparr>)" if "tickets_ok x" for x s
    by (rule tickets_cong [OF that]) simp_all
  have plain: "tickets_ok (c\<lparr>ct_localBackend := b\<rparr>)" "tickets_ok (c\<lparr>ct_localBackend := b, ct_hub := h\<rparr>)"
    "tickets_ok (c\<lparr>ct_localBackend := b, ct_hub := h, ct_queued := q\<rparr>)" for b q
    by (rule tickets_cong [OF assms]; simp)+
  show ?thesis
    unfolding agent_answered_def Let_def by (rule drop) (simp add: plain tickets_refresh)
qed

lemma tickets_step:
  assumes "controller_step env listed c c'" "tickets_ok c"
  shows "tickets_ok c'"
  using assms(1)
proof cases
  case (ct_change now)
  have "tickets_ok (clearRemote env now (c\<lparr>ct_connectionChanging := True\<rparr>))"
    by (intro tickets_clear tickets_cong [OF assms(2)]) simp_all
  then show ?thesis using ct_change by (auto simp: begin_change_def split: if_splits)
next
  case (ct_mutated now request)
  show ?thesis unfolding ct_mutated refreshAfterMutation_def Let_def
    by (intro tickets_refresh tickets_cong [OF assms(2)]) simp_all
next
  case (ct_denied now)
  have "tickets_ok (clearRemote env now c)" by (rule tickets_clear [OF assms(2)])
  then show ?thesis unfolding ct_denied session_denied_def by (rule tickets_cong) simp_all
next
  case (ct_load i now readable)
  show ?thesis by (rule tickets_cache [OF assms(2) dk_load [OF ct_load(2)] ct_load(1)])
next
  case ct_job
  show ?thesis by (rule tickets_cache [OF assms(2) dk_start ct_job])
next
  case (ct_written now ok)
  show ?thesis by (rule tickets_cache [OF assms(2) dk_end ct_written])
next
  case ct_flush
  show ?thesis by (rule tickets_cache [OF assms(2) dk_flush ct_flush])
qed (use assms(2) tickets_get tickets_get_answered tickets_refresh tickets_drain tickets_cache_answered tickets_devices tickets_failed
      tickets_optional tickets_finished tickets_update tickets_agent tickets_clear
    in \<open>simp_all add: refreshVisible_def\<close>,
    (rule tickets_cong [OF assms(2)]; simp add: end_change_def logged_out_def update_checked_def startup_changed_def Let_def)+)

lemma tickets_run: "(controller_step env listed)\<^sup>*\<^sup>* c c' \<Longrightarrow> tickets_ok c \<Longrightarrow> tickets_ok c'"
  by (induction rule: rtranclp_induct) (use tickets_step in blast)+

lemma tickets_init: "tickets_ok (controller_init today startup h file)"
  by (simp add: tickets_ok_def controller_init_def reads_ok_def cache_store_init_def epochs_past_def)


definition blank :: "DesktopSnapshot \<Rightarrow> bool" where
  "blank s \<longleftrightarrow> sn_source s \<noteq> LiveSource \<and> sn_devices s = [] \<and> sn_metrics s = None \<and> sn_overviewMetrics s = None \<and>
     sn_trafficCalendar s = None \<and> \<not> dss_authenticated (sn_session s)"

definition fresh_op :: "refresh_op \<Rightarrow> bool" where
  "fresh_op op \<longleftrightarrow> ro_cached op = None \<and> ro_running op = [] \<and>
     (ro_phase op = AwaitingCache None \<or> (\<exists>t. ro_phase op = ListingDevices t) \<or> ro_phase op = RefreshEnded)"

text \<open>
  The first \<open>n\<close> refreshes are of a generation before \<open>g\<close>; the later ones have got no list of devices, and the cache is
  silent.
\<close>

definition signed_out :: "nat \<Rightarrow> nat \<Rightarrow> nat \<Rightarrow> cache_read list \<Rightarrow> DesktopController \<Rightarrow> bool" where
  "signed_out n g e reads c \<longleftrightarrow> silent e reads (ct_cache c) \<and> g \<le> ct_generation c \<and> n \<le> length (ct_ops c) \<and>
     (\<forall>i < length (ct_ops c). if i < n then ro_generation (op_at i c) < g else fresh_op (op_at i c)) \<and>
     (\<exists>s. ct_currentSnapshot c = Some s \<and> blank s)"

lemma blank_empty [simp]: "blank (emptySnapshot sh)" "blank ((emptySnapshot sh)\<lparr>sn_localBackend := b\<rparr>)"
    "blank ((emptySnapshot sh)\<lparr>sn_localBackend := b, sn_update := u\<rparr>)"
  by (simp_all add: blank_def emptySnapshot_def)

lemma blank_fields [simp]: "blank (s\<lparr>sn_localBackend := b\<rparr>) \<longleftrightarrow> blank s" "blank (s\<lparr>sn_update := u\<rparr>) \<longleftrightarrow> blank s"
    "blank (s\<lparr>sn_startup := t\<rparr>) \<longleftrightarrow> blank s"
  by (simp_all add: blank_def)

lemma signed_out_cong:
  assumes "signed_out n g e reads c" "ct_ops c' = ct_ops c" "silent e reads (ct_cache c')" "ct_generation c \<le> ct_generation c'"
    "\<And>s. ct_currentSnapshot c = Some s \<Longrightarrow> blank s \<Longrightarrow> \<exists>s. ct_currentSnapshot c' = Some s \<and> blank s"
  shows "signed_out n g e reads c'"
  using assms(1,3-5) unfolding signed_out_def assms(2) by (meson le_trans)

lemma signed_out_set_op:
  assumes "signed_out n g e reads c" "i < length (ct_ops c)" "ro_generation (f (op_at i c)) = ro_generation (op_at i c)"
    "i < n \<or> fresh_op (f (op_at i c))"
  shows "signed_out n g e reads (set_op i f c)"
  using assms by (auto simp: signed_out_def nth_list_update)

lemma silent_begin: "silent e reads k \<Longrightarrow> begin_cache_read scope k = (NothingCached, k)"
  by (simp add: silent_def begin_cache_read_def)

lemma signed_out_silent: "signed_out n g e reads c \<Longrightarrow> silent e reads (ct_cache c)"
  by (simp add: signed_out_def)

lemma signed_out_begin: "signed_out n g e reads c \<Longrightarrow> signed_out n g e reads (begin_refresh_once q c)"
  using silent_begin [OF signed_out_silent, of n g e reads c "cacheScope (ct_hub c)"]
  by (auto simp: signed_out_def begin_frame nth_append new_op_def fresh_op_def less_Suc_eq)

lemma signed_out_refresh:
  assumes "signed_out n g e reads c"
  shows "signed_out n g e reads (refresh now q c)"
proof (cases rule: refresh_cases [of now q c])
  case (begun r c')
  have "signed_out n g e reads c'" by (rule signed_out_cong [OF assms]) (use assms in \<open>simp_all add: begun signed_out_silent\<close>)
  then show ?thesis using begun(1) signed_out_begin by simp
next
  case (queued r)
  then show ?thesis using assms by (auto intro: signed_out_cong simp: signed_out_silent)
qed (use assms in simp)

lemma signed_out_drain: "signed_out n g e reads c \<Longrightarrow> signed_out n g e reads (drain_refreshes c)"
proof -
  assume out: "signed_out n g e reads c"
  have "signed_out n g e reads (c\<lparr>ct_queued := q, ct_refreshing := b\<rparr>)" "signed_out n g e reads (c\<lparr>ct_refreshing := b\<rparr>)" for q b
    by (rule signed_out_cong [OF out]; use signed_out_silent [OF out] in simp)+
  then show ?thesis by (simp add: drain_refreshes_def signed_out_begin split: option.split)
qed

lemma silent_end_read:
  assumes "silent e reads k" "r < length (dk_reads k)" "reads_ok k"
  shows "silent e reads (end_cache_read now r k)" "cd_answer (dk_reads (end_cache_read now r k) ! r) \<noteq> Some (Some s)"
proof -
  have "cache_step (\<lambda>_. 0) (\<lambda>_ _. False) k (end_cache_read now r k)" by (rule dk_answer [OF assms(2)])
  then show "silent e reads (end_cache_read now r k)" using assms(1) by (rule silent_step)
  have r: "dk_reads k ! r \<in> set (dk_reads k)" using assms(2) by simp
  show "cd_answer (dk_reads (end_cache_read now r k) ! r) \<noteq> Some (Some s)"
  proof (cases "dk_promises k ! cd_promise (dk_reads k ! r)")
    case (LoadingFile sc f)
    then have "cd_answer (dk_reads k ! r) = None" using assms(3) r unfolding reads_ok_def by fastforce
    then show ?thesis by (simp add: end_cache_read_def LoadingFile Let_def)
  qed (use assms(1,2) in \<open>simp add: end_cache_read_def silent_def Let_def\<close>)
qed

lemma signed_out_clear:
  assumes "silent e reads (ct_cache c)" "g \<le> Suc (ct_generation c)" "n \<le> length (ct_ops c)"
    "\<forall>i < length (ct_ops c). if i < n then ro_generation (op_at i c) < g else fresh_op (op_at i c)"
  shows "signed_out n g e reads (clearRemote env now c)"
proof -
  have "silent e reads (cache_sign_out (ct_cache c))"
    using silent_step [OF dk_clear assms(1)] .
  then show ?thesis using assms(2-4) by (simp add: signed_out_def clearRemote_def Let_def)
qed

lemma signed_out_cleared: "signed_out n g e reads c \<Longrightarrow> signed_out n g e reads (clearRemote env now c)"
  by (rule signed_out_clear) (auto simp: signed_out_def)

text \<open>An answer to an early refresh is not current any more.\<close>

lemma signed_out_stale: "signed_out n g e reads c \<Longrightarrow> i < length (ct_ops c) \<Longrightarrow> i < n \<Longrightarrow> \<not> is_current i c"
  unfolding signed_out_def is_current_def by (metis not_less)

lemma signed_out_late: "signed_out n g e reads c \<Longrightarrow> i < length (ct_ops c) \<Longrightarrow> \<not> i < n \<Longrightarrow> fresh_op (op_at i c)"
  by (auto simp: signed_out_def)

lemma signed_out_failed:
  assumes "signed_out n g e reads c" "i < length (ct_ops c)"
  shows "signed_out n g e reads (refresh_failed env now i denied c)"
proof -
  have ended: "signed_out n g e reads (set_op i (\<lambda>op. op\<lparr>ro_phase := RefreshEnded\<rparr>) c)"
    by (rule signed_out_set_op [OF assms]) (use signed_out_late [OF assms] in \<open>auto simp: fresh_op_def\<close>)
  show ?thesis
  proof (cases "i < n")
    case True
    then show ?thesis using ended signed_out_stale [OF assms] by (simp add: refresh_failed_def)
  next
    case False
    then have cached: "ro_cached (op_at i c) = None" using signed_out_late [OF assms] by (simp add: fresh_op_def)
    have quiet: "silent e reads (cache_sign_out (ct_cache c))" using silent_step [OF dk_clear signed_out_silent [OF assms(1)]] .
    show ?thesis
    proof (cases "is_current i c")
      case True
      then show ?thesis
        by (intro signed_out_cong [OF ended])
          (use quiet cached signed_out_silent [OF assms(1)] in \<open>simp_all add: refresh_failed_def Let_def\<close>)
    qed (use ended in \<open>simp add: refresh_failed_def\<close>)
  qed
qed


lemma signed_out_next_job:
  assumes "signed_out n g e reads c" "i < length (ct_ops c)" "i < n"
  shows "signed_out n g e reads (next_job now k i c)"
proof -
  have "signed_out n g e reads (set_op i f c)" if "ro_generation (f (op_at i c)) = ro_generation (op_at i c)" for f
    by (rule signed_out_set_op [OF assms(1,2)]) (use that assms(3) in auto)
  then show ?thesis by (simp add: next_job_def Let_def split: list.split)
qed

lemma signed_out_running:
  "signed_out n g e reads c \<Longrightarrow> i < length (ct_ops c) \<Longrightarrow>
    ro_running (op_at i c) \<noteq> [] \<or> ro_phase (op_at i c) = ReadingOptional \<or> ro_phase (op_at i c) = RefreshFinished \<Longrightarrow> i < n"
  using signed_out_late by (fastforce simp: fresh_op_def)

lemma signed_out_get:
  assumes "signed_out n g e reads c"
  shows "signed_out n g e reads (get_snapshot now q allow c)"
proof -
  have start: "signed_out n g e reads (c\<lparr>ct_started := True\<rparr>)"
    by (rule signed_out_cong [OF assms]) (use signed_out_silent [OF assms] in simp_all)
  then show ?thesis
    using assms signed_out_refresh [OF start] silent_begin [OF signed_out_silent [OF assms]]
    by (simp add: get_snapshot_def Let_def)
qed

lemma signed_out_get_answered:
  assumes "signed_out n g e reads c" "i < length (ct_gets c)" "tickets_ok c"
  shows "signed_out n g e reads (get_answered env now i c)"
proof -
  let ?r = "gt_read (ct_gets c ! i)" and ?k = "ct_cache c"
  let ?c1 = "c\<lparr>ct_cache := end_cache_read now ?r ?k, ct_gets := (ct_gets c)[i := (ct_gets c ! i)\<lparr>gt_done := True\<rparr>]\<rparr>"
  have "?r < length (dk_reads ?k)" "reads_ok ?k" using assms(2,3) by (simp_all add: tickets_ok_def)
  note quiet = silent_end_read [OF signed_out_silent [OF assms(1)] this]
  have "signed_out n g e reads ?c1" by (rule signed_out_cong [OF assms(1)]) (use quiet in simp_all)
  then show ?thesis
    using assms(1) quiet(2) signed_out_refresh by (auto simp: get_answered_def Let_def split: option.split)
qed

lemma signed_out_cache_answered:
  assumes "signed_out n g e reads c" "i < length (ct_ops c)" "tickets_ok c"
  shows "signed_out n g e reads (cache_answered now i c)"
proof (cases "ro_phase (op_at i c)")
  case (AwaitingCache ticket)
  show ?thesis
  proof (cases ticket)
    case None
    show ?thesis unfolding cache_answered_def AwaitingCache None Let_def
      by (simp, rule signed_out_set_op [OF assms(1,2)])
        (use signed_out_late [OF assms(1,2)] in \<open>auto simp: fresh_op_def\<close>)
  next
    case (Some r)
    have "op_at i c \<in> set (ct_ops c)" using assms(2) by simp
    then have r: "r < length (dk_reads (ct_cache c))" "reads_ok (ct_cache c)"
      using assms(3) AwaitingCache Some by (auto simp: tickets_ok_def)
    have early: "i < n" using signed_out_late [OF assms(1,2)] AwaitingCache Some by (auto simp: fresh_op_def)
    have "signed_out n g e reads (c\<lparr>ct_cache := end_cache_read now r (ct_cache c)\<rparr>)"
      by (rule signed_out_cong [OF assms(1)]) (use silent_end_read(1) [OF signed_out_silent [OF assms(1)] r] in simp_all)
    then have "signed_out n g e reads (set_op i f (c\<lparr>ct_cache := end_cache_read now r (ct_cache c)\<rparr>))"
      if "\<forall>op. ro_generation (f op) = ro_generation op" for f
      by (rule signed_out_set_op) (use that assms(2) early in simp_all)
    then show ?thesis using assms(1) by (simp add: cache_answered_def AwaitingCache Some Let_def split: option.split)
  qed
qed (use assms in \<open>simp_all add: cache_answered_def Let_def\<close>)

lemma signed_out_devices:
  assumes "signed_out n g e reads c" "i < length (ct_ops c)" "i < n"
  shows "signed_out n g e reads (devices_answered env now i found c)"
  using assms(1) signed_out_set_op [OF assms(1,2)] signed_out_stale [OF assms] assms(3)
  by (simp add: devices_answered_def split: refresh_phase.split)

lemma signed_out_agent:
  assumes "signed_out n g e reads c"
  shows "signed_out n g e reads (agent_answered now listening state h c)"
proof -
  have shown: "signed_out n g e reads (x\<lparr>ct_currentSnapshot := map_option (\<lambda>s. s\<lparr>sn_localBackend := b\<rparr>) (ct_currentSnapshot x), ct_agentRead := None\<rparr>)"
    if "signed_out n g e reads x" for x b
    by (rule signed_out_cong [OF that]) (use signed_out_silent [OF that] in simp_all)
  have plain: "signed_out n g e reads (c\<lparr>ct_localBackend := b\<rparr>)" "signed_out n g e reads (c\<lparr>ct_localBackend := b, ct_hub := h\<rparr>)"
    "signed_out n g e reads (c\<lparr>ct_localBackend := b, ct_hub := h, ct_queued := q\<rparr>)" for b q
    by (rule signed_out_cong [OF assms]; use signed_out_silent [OF assms] in simp)+
  show ?thesis
    unfolding agent_answered_def Let_def by (rule shown) (simp add: plain signed_out_refresh)
qed


lemma signed_out_step:
  assumes "controller_step env (\<lambda>i. i < n) c c'" "signed_out n g e reads c" "tickets_ok c"
  shows "signed_out n g e reads c'"
proof -
  note quiet = signed_out_silent [OF assms(2)]
  have same: "signed_out n g e reads x" if "ct_ops x = ct_ops c" "ct_cache x = k" "silent e reads k" "ct_generation c \<le> ct_generation x"
    "ct_currentSnapshot x = ct_currentSnapshot c" for x k
    by (rule signed_out_cong [OF assms(2)]) (use that in simp_all)
  have store: "signed_out n g e reads (c\<lparr>ct_cache := k\<rparr>)" if "cache_step (\<lambda>_. 0) (\<lambda>_ _. False) (ct_cache c) k" for k
    by (rule same) (use silent_step [OF that quiet] in simp_all)
  from assms(1) show ?thesis
  proof cases
    case (ct_get_answered i now)
    then show ?thesis using signed_out_get_answered assms(2,3) by simp
  next
    case (ct_mutated now request)
    have "signed_out n g e reads ((cancelSnapshot c)\<lparr>ct_queued := q\<rparr>)" for q by (rule same) (use quiet in simp_all)
    then show ?thesis by (simp add: ct_mutated refreshAfterMutation_def Let_def signed_out_refresh)
  next
    case (ct_cache_answered i now)
    then show ?thesis using signed_out_cache_answered assms(2,3) by simp
  next
    case (ct_listed i now found)
    then show ?thesis using signed_out_devices assms(2) by simp
  next
    case (ct_list_failed i t now denied)
    then show ?thesis using signed_out_failed assms(2) by simp
  next
    case (ct_answered i k a now)
    have "i < n" by (rule signed_out_running [OF assms(2) ct_answered(2)]) (use ct_answered(3) in auto)
    then show ?thesis
      using signed_out_next_job [OF assms(2) ct_answered(2)] signed_out_stale [OF assms(2) ct_answered(2)]
      by (simp add: ct_answered(1) optional_answered_def)
  next
    case (ct_failed i k now denied)
    have "i < n" by (rule signed_out_running [OF assms(2) ct_failed(2)]) (simp add: ct_failed(3))
    then show ?thesis
      using signed_out_next_job [OF assms(2) ct_failed(2)] signed_out_stale [OF assms(2) ct_failed(2)]
        signed_out_failed [OF assms(2) ct_failed(2)]
      by (simp add: ct_failed(1) optional_failed_def)
  next
    case (ct_finished i now)
    have "i < n" by (rule signed_out_running [OF assms(2) ct_finished(2)]) (simp add: ct_finished(3))
    then show ?thesis
      using signed_out_stale [OF assms(2) ct_finished(2)] signed_out_set_op [OF assms(2) ct_finished(2)]
      by (simp add: ct_finished(1) refresh_finished_def)
  next
    case (ct_update_shown i now)
    have "i < n" by (rule signed_out_running [OF assms(2) ct_update_shown(2)]) (simp add: ct_update_shown(3))
    then show ?thesis
      using signed_out_stale [OF assms(2) ct_update_shown(2)] assms(2) by (simp add: ct_update_shown(1) update_shown_def)
  next
    case (ct_denied now)
    have "signed_out n g e reads (clearRemote env now c)" by (rule signed_out_cleared [OF assms(2)])
    then show ?thesis unfolding ct_denied session_denied_def
      by (rule signed_out_cong) (use signed_out_silent [OF \<open>signed_out n g e reads (clearRemote env now c)\<close>] in simp_all)
  next
    case (ct_change now)
    have "signed_out n g e reads (c\<lparr>ct_connectionChanging := True\<rparr>)" by (rule same) (use quiet in simp_all)
    then show ?thesis using ct_change signed_out_cleared by (auto simp: begin_change_def split: if_splits)
  next
    case (ct_logged_out now)
    show ?thesis
      by (rule signed_out_cong [OF assms(2)]) (use quiet in \<open>simp_all add: ct_logged_out logged_out_def end_change_def Let_def\<close>)
  next
    case (ct_update v)
    show ?thesis by (rule signed_out_cong [OF assms(2)]) (use quiet in \<open>simp_all add: ct_update update_checked_def\<close>)
  next
    case (ct_startup startup v)
    show ?thesis by (rule signed_out_cong [OF assms(2)]) (use quiet in \<open>simp_all add: ct_startup startup_changed_def\<close>)
  next
    case ct_flush
    then show ?thesis using store dk_flush by simp
  next
    case (ct_load i now readable)
    then show ?thesis using store dk_load by simp
  next
    case ct_job
    then show ?thesis using store dk_start by simp
  next
    case (ct_written now ok)
    then show ?thesis using store dk_end by simp
  next
    case ct_drain
    then show ?thesis using signed_out_drain assms(2) by simp
  next
    case (ct_get now request allow)
    then show ?thesis using signed_out_get [OF assms(2)] by simp
  next
    case (ct_refresh now request)
    then show ?thesis using signed_out_refresh [OF assms(2)] by simp
  next
    case (ct_visible now)
    then show ?thesis using signed_out_refresh [OF assms(2)] assms(2) by (simp add: refreshVisible_def)
  next
    case (ct_agent now listening state h)
    then show ?thesis using signed_out_agent [OF assms(2)] by simp
  next
    case (ct_cleared now)
    then show ?thesis using signed_out_cleared [OF assms(2)] by simp
  next
    case ct_cancel
    show ?thesis by (rule same [OF _ refl]) (simp_all add: ct_cancel quiet)
  next
    case ct_agent_failed
    show ?thesis by (rule same [OF _ refl]) (simp_all add: ct_agent_failed quiet)
  next
    case ct_changed
    show ?thesis by (rule same [OF _ refl]) (simp_all add: ct_changed end_change_def quiet)
  next
    case (ct_hub h)
    show ?thesis by (rule same [OF _ refl]) (simp_all add: ct_hub quiet)
  qed
qed

lemma signed_out_run:
  "(controller_step env (\<lambda>i. i < n))\<^sup>*\<^sup>* c c' \<Longrightarrow> signed_out n g e reads c \<Longrightarrow> tickets_ok c \<Longrightarrow> signed_out n g e reads c' \<and> tickets_ok c'"
  by (induction rule: rtranclp_induct) (use signed_out_step tickets_step in blast)+

text \<open>
  The ways a page is signed out: by the user or a new address, by a hub that refuses the session, by the beginning of a
  change of the connection, and by a refusal that a current refresh is answered with.
\<close>

definition signs_out :: "desktop_env \<Rightarrow> DesktopController \<Rightarrow> DesktopController \<Rightarrow> bool" where
  "signs_out env c x \<longleftrightarrow> (\<exists>now. x = clearRemote env now c \<or> x = session_denied env now c \<or> begin_change env now c = Some x \<or>
     (\<exists>i < length (ct_ops c). is_current i c \<and> x = refresh_failed env now i True c))"

lemma tickets_sign_out:
  assumes "signs_out env c x" "tickets_ok c"
  shows "tickets_ok x"
  using assms(1) unfolding signs_out_def
proof (elim exE disjE)
  fix now assume "x = session_denied env now c"
  then show ?thesis
    by (intro tickets_cong [OF tickets_clear [OF assms(2), of env now]]) (simp_all add: session_denied_def scheduleNextRead_def)
next
  fix now assume "begin_change env now c = Some x"
  then show ?thesis
    using tickets_clear [OF tickets_cong [OF assms(2), of "c\<lparr>ct_connectionChanging := True\<rparr>"]] by (auto simp: begin_change_def split: if_splits)
qed (use assms(2) tickets_clear tickets_failed in auto)

lemma signed_out_now:
  assumes "signs_out env c x" "tickets_ok c"
  shows "signed_out (length (ct_ops c)) (Suc (ct_generation c)) (Suc (dk_epoch (ct_cache c))) (dk_reads (ct_cache c)) x"
proof -
  have quiet: "silent (Suc (dk_epoch (ct_cache c))) (dk_reads (ct_cache c)) (cache_sign_out (ct_cache c))"
    using assms(2) by (intro silent_sign_out) (simp add: tickets_ok_def)
  have early: "ro_generation (op_at i c) < Suc (ct_generation c)" if "i < length (ct_ops c)" for i
    using assms(2) that by (auto simp: tickets_ok_def less_Suc_eq_le)
  have base: "signed_out (length (ct_ops c)) (Suc (ct_generation c)) (Suc (dk_epoch (ct_cache c))) (dk_reads (ct_cache c)) x"
    if "ct_cache x = cache_sign_out (ct_cache c)" "ct_generation x = Suc (ct_generation c)" "length (ct_ops x) = length (ct_ops c)"
      "\<And>i. i < length (ct_ops c) \<Longrightarrow> ro_generation (op_at i x) = ro_generation (op_at i c)" "\<exists>s. ct_currentSnapshot x = Some s \<and> blank s"
    using that quiet early by (simp add: signed_out_def)
  obtain now where "x = clearRemote env now c \<or> x = session_denied env now c \<or> begin_change env now c = Some x \<or>
      (\<exists>i < length (ct_ops c). is_current i c \<and> x = refresh_failed env now i True c)"
    using assms(1) unfolding signs_out_def by blast
  then show ?thesis
  proof (elim disjE exE conjE)
    assume "x = clearRemote env now c"
    then show ?thesis by (intro base) (simp_all add: clearRemote_def Let_def)
  next
    assume "x = session_denied env now c"
    then show ?thesis by (intro base) (simp_all add: session_denied_def scheduleNextRead_def clearRemote_def Let_def)
  next
    assume "begin_change env now c = Some x"
    then have "x = clearRemote env now (c\<lparr>ct_connectionChanging := True\<rparr>)" by (simp add: begin_change_def split: if_splits)
    then show ?thesis by (intro base) (simp_all add: clearRemote_def cancelSnapshot_def Let_def)
  next
    fix i assume i: "i < length (ct_ops c)" "is_current i c" "x = refresh_failed env now i True c"
    show ?thesis
      by (intro base) (use i in \<open>auto simp: refresh_failed_def nth_list_update Let_def\<close>)
  qed
qed

text \<open>
  C33: a signed-out page stays blank: after a sign-out, a refused session, a refused refresh or the beginning of a change of
  the connection, in any state, nothing read before is shown or stored, however reads, cache reads, mutations and file writes
  that were under way end: the page has no devices, charts or calendars, is not live and not signed in, and the cache answers
  nothing and has nothing to write, until a refresh begun afterwards gets its list of devices.
\<close>

theorem signed_out_page_blank:
  assumes "(controller_step env (\<lambda>_. True))\<^sup>*\<^sup>* (controller_init today startup h file) c"
    "signs_out env c x" "(controller_step env (\<lambda>i. i < length (ct_ops c)))\<^sup>*\<^sup>* x y"
  shows "\<exists>s. ct_currentSnapshot y = Some s \<and> sn_source s \<noteq> LiveSource \<and> sn_devices s = [] \<and> sn_metrics s = None \<and>
    sn_overviewMetrics s = None \<and> sn_trafficCalendar s = None \<and> \<not> dss_authenticated (sn_session s) \<and>
    (\<forall>scope. fst (begin_cache_read scope (ct_cache y)) = NothingCached) \<and> dk_pending (ct_cache y) = None"
proof -
  have ok: "tickets_ok c" by (rule tickets_run [OF assms(1) tickets_init])
  have "signed_out (length (ct_ops c)) (Suc (ct_generation c)) (Suc (dk_epoch (ct_cache c))) (dk_reads (ct_cache c)) y"
    using signed_out_run [OF assms(3) signed_out_now [OF assms(2) ok] tickets_sign_out [OF assms(2) ok]] by blast
  then show ?thesis
    by (auto simp: signed_out_def blank_def silent_def begin_cache_read_def)
qed


subsection \<open>A run\<close>

definition demo_desktop :: desktop_env where
  "demo_desktop = \<lparr>dv_size_of = \<lambda>_. 0, dv_version = ''1.0.0'', dv_platform = LinuxGui, dv_arch = ''x64''\<rparr>"

definition demo_hub_view :: hub_view where
  "demo_hub_view = \<lparr>hv_accessKey = Some ''key'', hv_serverUrl = ''https://hub'', hv_identity = ''me''\<rparr>"

definition demo_pc :: DeviceSummary where
  "demo_pc = \<lparr>sm_deviceId = ''pc'', sm_hostname = ''pc'', sm_os = Linux, sm_agentVersion = None, sm_agentChannel = None, sm_status = Online,
     sm_lastSeenAt = None, sm_cpuUsagePercent = None, sm_gpuUsagePercent = None, sm_gpuMemoryUsagePercent = None,
     sm_memoryUsagePercent = None, sm_memoryUsedBytes = None, sm_memoryTotalBytes = None, sm_diskUsagePercent = None,
     sm_diskUsedBytes = None, sm_diskTotalBytes = None, sm_sortOrder = None, sm_group = None, sm_unavailableMetrics = None\<rparr>"

definition demo_start :: DesktopController where
  "demo_start = controller_init ''2026-01-01'' demo_startup demo_hub_view None"

definition demo_refreshing :: DesktopController where
  "demo_refreshing = refresh 0 empty_request demo_start"

definition demo_loaded :: DesktopController where
  "demo_loaded = demo_refreshing\<lparr>ct_cache := file_loaded 0 True 0 (ct_cache demo_refreshing)\<rparr>"

definition demo_listing :: DesktopController where
  "demo_listing = cache_answered 5 0 demo_loaded"

lemma demo_refreshing_state:
  "ct_ops demo_refreshing = [new_op 1 (Some 0)]" "ct_generation demo_refreshing = 1" "ct_currentSnapshot demo_refreshing = None"
  "dk_reads (ct_cache demo_refreshing) = [\<lparr>cd_promise = 0, cd_epoch = 0, cd_scope = ''https://hub'' @ [CHR 0x1F] @ ''me'', cd_answer = None\<rparr>]"
  "dk_promises (ct_cache demo_refreshing) = [LoadingFile (''https://hub'' @ [CHR 0x1F] @ ''me'') 0]"
  "dk_file (ct_cache demo_refreshing) = None" "dk_epoch (ct_cache demo_refreshing) = 0" "\<not> dk_blocked (ct_cache demo_refreshing)"
  by (simp_all add: demo_refreshing_def refresh_def drain_refreshes_def demo_start_def controller_init_def begin_frame begin_cache_read_def cacheScope_def
      demo_hub_view_def cache_store_init_def empty_request_def hasRequestChanges_def Let_def)

lemma demo_listing_state:
  "length (ct_ops demo_listing) = 1" "ro_phase (op_at 0 demo_listing) = ListingDevices 5" "is_current 0 demo_listing"
  "ct_currentSnapshot demo_listing = None" "ld_selectedDeviceId (ro_live (op_at 0 demo_listing)) = ct_selectedDeviceId demo_loaded"
  by (simp_all add: demo_listing_def cache_answered_def demo_loaded_def demo_refreshing_state file_loaded_def new_op_def end_cache_read_def
      is_current_def no_data_def Let_def)

lemma demo_listing_run: "(controller_step demo_desktop (\<lambda>_. True))\<^sup>*\<^sup>* demo_start demo_listing"
proof -
  have "controller_step demo_desktop (\<lambda>_. True) demo_start demo_refreshing" unfolding demo_refreshing_def by (rule ct_refresh)
  moreover have "controller_step demo_desktop (\<lambda>_. True) demo_refreshing demo_loaded"
    unfolding demo_loaded_def by (rule ct_load) (simp add: demo_refreshing_state)
  moreover have "controller_step demo_desktop (\<lambda>_. True) demo_loaded demo_listing"
    unfolding demo_listing_def by (rule ct_cache_answered) (simp add: demo_loaded_def demo_refreshing_state)
  ultimately show ?thesis by (meson rtranclp.rtrancl_into_rtrancl rtranclp.rtrancl_refl)
qed

theorem page_shows_selection_witness:
  "\<exists>s. ct_currentSnapshot (devices_answered demo_desktop 10 0 [demo_pc] demo_listing) = Some s \<and> sn_source s = LiveSource \<and>
     (case sn_selectedDeviceId s of None \<Rightarrow> sn_devices s = [] | Some d \<Rightarrow> d \<in> sm_deviceId ` set (sn_devices s)) \<and> sn_devices s = [demo_pc]"
proof -
  let ?c = "devices_answered demo_desktop 10 0 [demo_pc] demo_listing"
  have "controller_step demo_desktop (\<lambda>_. True) demo_listing ?c" by (rule ct_listed) (simp_all add: demo_listing_state)
  then have run: "(controller_step demo_desktop (\<lambda>_. True))\<^sup>*\<^sup>* (controller_init ''2026-01-01'' demo_startup demo_hub_view None) ?c"
    using demo_listing_run by (simp add: demo_start_def rtranclp.rtrancl_into_rtrancl)
  obtain s where s: "ct_currentSnapshot ?c = Some s" "sn_source s = LiveSource" "sn_devices s = [demo_pc]"
    using demo_listing_state
    by (simp add: devices_answered_def start_optional_def publish_def list_read_def is_current_def createSnapshot_def carried_over_def Let_def)
  show ?thesis using page_shows_selection [OF run s(1)] s by auto
qed

theorem signed_out_page_blank_witness:
  "\<exists>s. ct_currentSnapshot (devices_answered demo_desktop 20 0 [demo_pc] (session_denied demo_desktop 15 demo_listing)) = Some s \<and> sn_devices s = []"
proof -
  let ?c = "session_denied demo_desktop 15 demo_listing"
  have "length (ct_ops ?c) = 1" by (simp add: session_denied_def scheduleNextRead_def clearRemote_def Let_def demo_listing_state)
  then have "controller_step demo_desktop (\<lambda>i. i < length (ct_ops demo_listing)) ?c (devices_answered demo_desktop 20 0 [demo_pc] ?c)"
    by (intro ct_listed) (simp_all add: demo_listing_state)
  then have "(controller_step demo_desktop (\<lambda>i. i < length (ct_ops demo_listing)))\<^sup>*\<^sup>* ?c (devices_answered demo_desktop 20 0 [demo_pc] ?c)"
    by (rule r_into_rtranclp)
  moreover have "signs_out demo_desktop demo_listing ?c"
    by (auto simp: signs_out_def)
  ultimately show ?thesis
    using signed_out_page_blank [OF demo_listing_run [unfolded demo_start_def]] by blast
qed

end
