(* ===== verification/Spec2Isabelle.thy ===== *)
theory Spec2Isabelle
  imports Hub_Run Query_Work Lifecycle Cached_History Write_Batcher Hub_Update
    Redis_Series Redis_Models Console_Routes Console_Health Chart_Geometry Fleet_Trends
    Desktop_Refresh
begin

text \<open>
  \<^bold>\<open>The hub of the device monitor\<close>

  Agents on monitored machines upload a metrics payload every few seconds to the hub (\<open>apps/server\<close>), which keeps the
  latest sample of every device, short live windows, minute and hour aggregates, and serves them as charts, overviews and
  traffic calendars.  Consoles may also ask a connected agent for a live snapshot.  This development models the hub's own
  logic, in the TypeScript of \<open>apps/server/src\<close> and the data types of \<open>packages/shared/src\<close>, with its
  file-backed repositories and its live state in Redis, the desktop shell's handling of what it has read
  (\<open>apps/desktop/src/main\<close>), and the logic of the console (\<open>packages/console-ui/src\<close>) that decides what an
  operator is shown: which machines need attention, where a link leads, how a curve is drawn.

  \<^bold>\<open>Theories, in the order of their dependencies\<close>

  \<^item> \<open>Prelude\<close>: the JavaScript vocabulary (\<open>??\<close>, truthiness, \<open>Map\<close>, \<open>Set\<close>, array functions,
    \<open>toFixed\<close>), the locale \<open>dictionary\<close> with its interpretation on association lists, and the locale
    \<open>grouping\<close> for the recurring pattern of collecting items into a map by their identifier.
  \<^item> \<open>JsDate\<close>: the Gregorian calendar of ECMA-262, \<open>Date.UTC\<close>, \<open>toISOString\<close> and \<open>Date.parse\<close>, with the
    round trip of printing and parsing.
  \<^item> \<open>Payload\<close>: the records of \<open>types.ts\<close> and \<open>shared/src/index.ts\<close>.
  \<^item> \<open>Utils\<close>: first half of \<open>utils.ts\<close>: conversion of an upload into a stored record and into a summary,
    filtering of instances, availability of metrics, the heartbeat time-out.
  \<^item> \<open>Aggregate\<close>: \<open>averageRecord\<close> of \<open>services/metrics.ts\<close> and the snapshot memo of
    \<open>aggregate-snapshots.ts\<close>.
  \<^item> \<open>LocalStore\<close>: \<open>repositories/local.ts\<close> and \<open>legacy-devices.ts\<close>: the JSON file with its committed
    copy, and every repository operation on it.
  \<^item> \<open>Service\<close>: \<open>MetricsService\<close>: ingestion, the open minute and hour, flushing, the offline scan, removal,
    groups, and reading windows.
  \<^item> \<open>Charts\<close>, \<open>Overview\<close>, \<open>Series_Budget\<close>, \<open>Traffic_Calendar\<close>: what is served from stored records:
    \<open>timeSeriesToMetricSeries\<close> (second half of \<open>utils.ts\<close>), \<open>overview.ts\<close>, \<open>series-budget.ts\<close>,
    \<open>traffic-calendar.ts\<close>.
  \<^item> \<open>Serial_Queue\<close>, \<open>Query_Work\<close>: \<open>serial-queue.ts\<close> and \<open>query-work.ts\<close>, the admission control in front
    of the repositories, under every interleaving of the event loop.
  \<^item> \<open>Ttl_Cache\<close>, \<open>Write_Batcher\<close>, \<open>Lifecycle\<close>: \<open>storage/cache.ts\<close>, \<open>storage/mysql-write-batcher.ts\<close> and
    \<open>lifecycle.ts\<close>: the cache of read models, the batching of history rows, expiry timers and shared tasks.
  \<^item> \<open>Cached_History\<close>: \<open>repositories/cached-history.ts\<close>: the read-through cache in front of the durable history,
    composed from the cache of read models, with epochs per device, joined reads and a shared cache.
  \<^item> \<open>Redis_Series\<close>: the live windows of \<open>repositories/realtime.ts\<close>, with the Lua script that appends a sample by
    a short way where a marker certifies the order of the list.
  \<^item> \<open>Redis_Models\<close>: \<open>repositories/realtime-read-models.ts\<close>: the device hash in Redis with its read models, the
    backfill by pages, and the sweep of \<open>repositories/realtime.ts\<close> that runs beside them.
  \<^item> \<open>Auth\<close>, \<open>Credentials\<close>, \<open>Live_Registry\<close>: \<open>auth.ts\<close>, \<open>live/credentials.ts\<close> and
    \<open>live/registry.ts\<close>: sessions and the failure limiter, the enrolment of agents, and the ownership of live
    connections and requests.
  \<^item> \<open>Live_Routes\<close>: \<open>live/routes.ts\<close> and \<open>live/schema.ts\<close>: enrolment, the handshake, the frames and the timer of
    an agent's socket, and the console's live routes, composed from the registry, the credentials and the limiter.
  \<^item> \<open>Inventory\<close>, \<open>Metric_Response\<close>: \<open>inventory-recovery.ts\<close> (the list of devices and the recovery after a
    start) and the part of \<open>routes.ts\<close> that makes the answer with a device's charts.
  \<^item> \<open>Hub_Api\<close>, \<open>Hub_Run\<close>: the routes of \<open>routes.ts\<close> and the ingest route, timers and shutdown of \<open>index.ts\<close>.
    \<open>Hub_Api\<close> composes service, sessions, limiter, credentials and live registry into one state (\<open>hub\<close>) and states in
    the locale \<open>service_property\<close> what a property of the service needs to survive every request; \<open>Hub_Run\<close> interprets
    it twice and runs the hub (\<open>run_step\<close>).
  \<^item> \<open>Js_Text\<close>, \<open>Uri\<close>: texts, digits, \<open>split\<close>, \<open>Array.sort\<close> with the locale \<open>comparison\<close> for the
    comparators that are orders, and \<open>encodeURIComponent\<close> with its inverse.
  \<^item> \<open>Updates\<close>, \<open>Hub_Update\<close>: \<open>updates.ts\<close>, \<open>update-assets.ts\<close> and \<open>hub-update.ts\<close>: the choice of a release,
    the cache of releases with its back-off, and the deployment of a release on request.
  \<^item> \<open>Console_Routes\<close>, \<open>Console_Health\<close>, \<open>Chart_Geometry\<close>: \<open>routes.ts\<close>, \<open>health.ts\<close> with \<open>selectors.ts\<close> and
    the order drafts, and \<open>chartGeometry.ts\<close> of the console's \<open>workspace\<close>.
  \<^item> \<open>Chart_Samples\<close>, \<open>Fleet_Trends\<close>: \<open>sampleTime.ts\<close>, \<open>chartInspection.ts\<close> and the sample functions of
    \<open>formatters.ts\<close>, and \<open>fleetTrends.ts\<close>, of the same: what is read off a chart, and the curves of the overview.
    The locale \<open>preference\<close> is the loop that keeps the best sample, interpreted for its three uses.
  \<^item> \<open>Desktop_Agent\<close>, \<open>Desktop_Snapshot\<close>, \<open>Desktop_Cache\<close>, \<open>Desktop_Refresh\<close>: the desktop shell
    (\<open>apps/desktop/src/main\<close>): what it learns of the local agent and how it saves a connection (\<open>agent-connection.ts\<close>),
    the snapshot it shows, the stored snapshot (\<open>cache-store.ts\<close>), and the refresh machine of \<open>controller.ts\<close> with
    its generations, sign-outs and changes of the connection, composed from the other three.

  \<^bold>\<open>State and operations\<close>

  A class is a record of its fields and each method a function from the state to a result and the next state; an error is
  the left value of a sum or a value of its own.  \<open>LocalJsonStore\<close> holds the file and the committed copy; whether a write
  succeeds is an oracle (\<open>disk_ok\<close>), and a commit publishes or leaves both unchanged.  \<open>MetricsService\<close> contains the
  store; its accumulators are references into a heap because the code shares and mutates them.  One service operation is
  one step, as the per-device serial queues make it; the queues, the shared reads and the live registry, whose correctness
  is about interleavings, are step relations with reachable states (\<open>queue_step\<close>, \<open>query_step\<close>, \<open>registry_step\<close>),
  and so are the write batcher, the timers, the shared tasks, the live channel (\<open>live_step\<close>) and the overlapping calls of
  a hub update (\<open>hub_step\<close>, one step for each piece of code between two awaits), the read-through cache
  (\<open>history_step\<close>), the read models in Redis (\<open>models_step\<close>), and the desktop shell's cache and refreshes (\<open>cache_step\<close>, \<open>controller_step\<close>).
  Promises are known by an index or identifier.  Loops are structural recursion, folds, or functions with a termination
  proof (the calendar loops, the cache's eviction, the search on a timeline); no fuel is used.  The listing of expired devices in Redis is a
  \<open>partial_function\<close>: it is proved to end on the states a hub can reach, and not to end on some others.

  \<^bold>\<open>What is proved\<close>

  \<^item> Ingestion: stale samples change nothing, failed ingestion publishes nothing, newer samples are accepted and counted,
    the displayed sample only moves forward; accumulators stay bounded and their memo current in every reachable state;
    flushing leaves nothing dirty and is invisible to readers, but for the oldest point of a full history (\<open>Service\<close>).
  \<^item> Storage: the store is well formed after any history of operations, failed writes and restarts; histories stay
    sorted, bounded and never lose samples to a poorer aggregate; registration, groups, order, the offline
    compare-and-set, and retention behave as specified (\<open>LocalStore\<close>); the windows in Redis follow the same rule as
    those in the file, by whichever way the script takes (\<open>Redis_Series\<close>), and the read models of the device hash agree
    with it under every interleaving with their filling, so that the listing of expired devices ends (\<open>Redis_Models\<close>).
  \<^item> Aggregation and conversion: averages lie within their samples and conserve totals, unavailable metrics are
    carried exactly, disabled instances are never stored or charted, gaps stay gaps in every chart the code gates (the
    capacity and temperature charts of single disks and sensors are not), the light-weight overview is a projection of the full charts, thinning keeps shape and endpoints, calendars partition time.
  \<^item> Concurrency: operations of one key never overlap, admission is exact, queues drain under every schedule; shared
    reads are bounded and joined; rows are settled once and in order; the cache refines an unbounded table, and a read
    that begins after a write was answered never gives older contents of the history; expiry
    callbacks run once and in time; live requests are never lost, late or duplicated, and shutdown answers all of them.
  \<^item> Access: sessions end a year after the login at the latest, failures are limited, credentials survive restarts and
    pin a device to its installation; a reset of that pin ends the device's session and keeps it out until it enrols
    again, and a misbehaving agent ends no session but its own.
  \<^item> The hub as a whole: under every interleaving of requests, live events, timers and shutdown the invariants of the
    service and of the live channel hold; requests without a session or key change nothing; a removed device stays removed;
    the list of devices is complete, the recovery only adds, and a device's charts are aligned and agree with what is said
    to be available.
  \<^item> Updates: the release offered is the best one that is newer and allowed, requests to the release service are spaced,
    as long as the reset times of rate limits are numbers, and only the best release of the list that was read is ever
    deployed.
  \<^item> Console: addresses lead back to their pages, the list of issues is complete and ranked, groups partition the fleet,
    curves stay within their samples and break exactly at gaps, ticks are the round instants of the range; the pointer
    shows the nearest samples there are, summaries name real ones, and every machine is drawn or named as missing.
  \<^item> Desktop shell: under every interleaving of reads, file writes and sign-outs nothing read before a sign-out is shown or
    stored after it, the stored snapshot is shown only to the account and hub it came from, charts belong to the selected
    device, the access key does not reach the page, and a refused login loses neither address nor key.

  \<^bold>\<open>Decisions of the model\<close>

  Numbers are rationals: uploads are validated to be finite, and neither rounding of doubles nor \<open>NaN\<close> is modelled, while
  \<open>toFixed\<close> is exact.  Times are integer milliseconds.  \<open>undefined\<close> and \<open>null\<close> are \<open>None\<close>.  Objects used
  as dictionaries and \<open>Map\<close> are association lists in insertion order, read by own property only.  Strings are byte
  lists; \<open>trim\<close> removes ASCII blanks, normalisation is the identity on ASCII, and \<open>localeCompare\<close> is a key
  function.  \<open>Date.parse\<close> covers the standard format.  \<open>structuredClone\<close> is the identity because values are
  immutable here.  Minute and hour code is written once over a tier.  SHA-256, the cookie decoder, clocks, open
  transports, the answers of the release service, the outcome of a zod schema and random identifiers are parameters or
  inputs.  A comparison that yields \<open>NaN\<close> counts as equal, and a time that is \<open>NaN\<close> is \<open>None\<close>.  Coordinates of
  a curve are reals, because the code takes square roots; the texts of addresses are UTF-8 bytes.  Where freshness
  of an identifier matters it is a hypothesis of the step.

  \<^bold>\<open>Not modelled\<close>

  The wrappers of the version, health and update routes, the channel to browsers, start-up and the choice of the storage
  back end (I/O glue), the zod schemas, the MySQL repositories (statements run by another program) and
  the shared Redis cache, the React components, the desktop shell's windows, process control and hub sessions,
  the web shell, the agents and the scripts; of the chart geometry, the linear axes.  \<open>forEachBounded\<close> is modelled as the
  sequential loop that collects failures.  The sweep that removes fields of old virtual-machine records from an untyped
  file is left out.
\<close>

end
